(* ===== verification/PaffsPrelude.thy ===== *)
theory PaffsPrelude
  imports Main "HOL-Library.State_Monad" "HOL-Library.Word" "HOL-Library.Multiset"
begin

text \<open>
  Shared vocabulary of the development.

  The C++ code is imperative: a component reads and writes the fields of the device and of
  its own object. It is modelled with the state monad of the library, so that a function
  body reads in the order of its statements. This theory adds the two accessors the
  models use (\<open>gets\<close>, \<open>modify\<close>), the loop forms of the code (\<open>for_each\<close> for a loop that runs to
  its end, \<open>loopM\<close> for a loop with an early \<^verbatim>\<open>return\<close> or \<^verbatim>\<open>break\<close>), a weakest-precondition
  function \<open>wp\<close> that is computed by the simplifier, and the predicate \<open>keeps\<close> (an invariant
  of a statement) with its syntax-directed rules, collected as \<open>keeps_intros\<close>.
\<close>

named_theorems keeps_intros \<open>rules that show that a statement keeps an invariant\<close>
named_theorems wp_simps \<open>rewrite rules that compute weakest preconditions\<close>

subsection \<open>Statements\<close>

abbreviation ret :: "'a \<Rightarrow> ('s, 'a) state" where
  "ret \<equiv> State_Monad.return"

definition gets :: "('s \<Rightarrow> 'a) \<Rightarrow> ('s, 'a) state" where
  "gets f = State (\<lambda>s. (f s, s))"

definition modify :: "('s \<Rightarrow> 's) \<Rightarrow> ('s, unit) state" where
  "modify f = State (\<lambda>s. ((), f s))"

definition whenM :: "bool \<Rightarrow> ('s, unit) state \<Rightarrow> ('s, unit) state" where
  "whenM b m = (if b then m else ret ())"

fun for_each :: "'x list \<Rightarrow> ('x \<Rightarrow> ('s, unit) state) \<Rightarrow> ('s, unit) state" where
  "for_each [] body = ret ()"
| "for_each (x # xs) body = do { body x; for_each xs body }"

text \<open>
  A loop that may leave early: the body gets the loop variable and the accumulated local
  variables, and answers \<open>Inl r\<close> to leave with \<open>r\<close> or \<open>Inr a\<close> to go on with \<open>a\<close>.
\<close>

fun loopM :: "'x list \<Rightarrow> 'a \<Rightarrow> ('x \<Rightarrow> 'a \<Rightarrow> ('s, 'r + 'a) state) \<Rightarrow> ('s, 'r + 'a) state" where
  "loopM [] a body = ret (Inr a)"
| "loopM (x # xs) a body =
     do {
       r \<leftarrow> body x a;
       (case r of Inl e \<Rightarrow> ret (Inl e) | Inr a' \<Rightarrow> loopM xs a' body)
     }"

lemma run_gets [simp]: "run_state (gets f) s = (f s, s)"
  by (simp add: gets_def)

lemma run_modify [simp]: "run_state (modify f) s = ((), f s)"
  by (simp add: modify_def)

lemma run_whenM [simp]: "run_state (whenM b m) s = (if b then run_state m s else ((), s))"
  by (simp add: whenM_def)

lemma run_state_if: "run_state (if b then m else n) s = (if b then run_state m s else run_state n s)"
  by simp

lemma snd_run_bind:
  "snd (run_state (State_Monad.bind m f) s) =
   snd (run_state (f (fst (run_state m s))) (snd (run_state m s)))"
  by (simp split: prod.splits)

subsection \<open>Weakest preconditions\<close>

definition wp :: "('s, 'a) state \<Rightarrow> ('a \<Rightarrow> 's \<Rightarrow> bool) \<Rightarrow> 's \<Rightarrow> bool" where
  "wp m Q s \<longleftrightarrow> (case run_state m s of (x, s') \<Rightarrow> Q x s')"

lemma wp_return [wp_simps, simp]: "wp (ret x) Q = Q x"
  by (rule ext) (simp add: wp_def)

lemma wp_bind [wp_simps, simp]:
  "wp (State_Monad.bind m f) Q = wp m (\<lambda>x. wp (f x) Q)"
  by (rule ext) (simp add: wp_def split: prod.splits)

lemma wp_gets [wp_simps, simp]: "wp (gets f) Q = (\<lambda>s. Q (f s) s)"
  by (rule ext) (simp add: wp_def)

lemma wp_modify [wp_simps, simp]: "wp (modify f) Q = (\<lambda>s. Q () (f s))"
  by (rule ext) (simp add: wp_def)

lemma wp_whenM [wp_simps, simp]:
  "wp (whenM b m) Q = (if b then wp m Q else Q ())"
  by (rule ext) (simp add: wp_def)

lemma wp_if: "wp (if b then m else n) Q s = (if b then wp m Q s else wp n Q s)"
  by simp

lemma wp_run: "wp m Q s \<longleftrightarrow> Q (fst (run_state m s)) (snd (run_state m s))"
  by (simp add: wp_def split: prod.splits)

lemma wp_mono: "wp m Q s \<Longrightarrow> (\<And>x t. Q x t \<Longrightarrow> R x t) \<Longrightarrow> wp m R s"
  by (auto simp: wp_def split: prod.splits)

lemma wp_conj: "wp m (\<lambda>x t. Q x t \<and> R x t) s \<longleftrightarrow> wp m Q s \<and> wp m R s"
  by (simp add: wp_run)

lemma wpD: "wp m Q s \<Longrightarrow> run_state m s = (x, t) \<Longrightarrow> Q x t"
  by (simp add: wp_def)

lemma wpI: "(\<And>x t. run_state m s = (x, t) \<Longrightarrow> Q x t) \<Longrightarrow> wp m Q s"
  by (auto simp: wp_def split: prod.splits)

subsection \<open>Invariants of statements\<close>

definition keeps :: "('s \<Rightarrow> bool) \<Rightarrow> ('s, 'a) state \<Rightarrow> bool" where
  "keeps I m \<longleftrightarrow> (\<forall>s. I s \<longrightarrow> I (snd (run_state m s)))"

lemma keepsD: "keeps I m \<Longrightarrow> I s \<Longrightarrow> run_state m s = (x, t) \<Longrightarrow> I t"
  unfolding keeps_def by (metis snd_conv)

lemma keeps_snd: "keeps I m \<Longrightarrow> I s \<Longrightarrow> I (snd (run_state m s))"
  by (simp add: keeps_def)

lemma keepsI: "(\<And>s x t. I s \<Longrightarrow> run_state m s = (x, t) \<Longrightarrow> I t) \<Longrightarrow> keeps I m"
  unfolding keeps_def by (metis prod.collapse)

lemma keeps_wp: "keeps I m \<longleftrightarrow> (\<forall>s. I s \<longrightarrow> wp m (\<lambda>_. I) s)"
  by (simp add: keeps_def wp_run)

lemma keeps_wpD: "keeps I m \<Longrightarrow> I s \<Longrightarrow> wp m (\<lambda>_. I) s"
  by (simp add: keeps_wp)

lemma keeps_return [keeps_intros]: "keeps I (ret x)"
  by (simp add: keeps_def)

lemma keeps_bind [keeps_intros]:
  "keeps I m \<Longrightarrow> (\<And>x. keeps I (f x)) \<Longrightarrow> keeps I (State_Monad.bind m f)"
  unfolding keeps_def by (simp split: prod.splits) (metis prod.sel(2))

lemma keeps_gets [keeps_intros]: "keeps I (gets f)"
  by (simp add: keeps_def)

lemma keeps_modify: "(\<And>s. I s \<Longrightarrow> I (f s)) \<Longrightarrow> keeps I (modify f)"
  by (simp add: keeps_def)

lemma keeps_if [keeps_intros]:
  "(b \<Longrightarrow> keeps I m) \<Longrightarrow> (\<not> b \<Longrightarrow> keeps I n) \<Longrightarrow> keeps I (if b then m else n)"
  by simp

lemma keeps_whenM [keeps_intros]: "(b \<Longrightarrow> keeps I m) \<Longrightarrow> keeps I (whenM b m)"
  by (simp add: keeps_def)

lemma keeps_case_option [keeps_intros]:
  "(x = None \<Longrightarrow> keeps I m) \<Longrightarrow> (\<And>a. x = Some a \<Longrightarrow> keeps I (f a)) \<Longrightarrow>
   keeps I (case x of None \<Rightarrow> m | Some a \<Rightarrow> f a)"
  by (cases x) auto

lemma keeps_case_sum [keeps_intros]:
  "(\<And>a. x = Inl a \<Longrightarrow> keeps I (f a)) \<Longrightarrow> (\<And>b. x = Inr b \<Longrightarrow> keeps I (g b)) \<Longrightarrow>
   keeps I (case x of Inl a \<Rightarrow> f a | Inr b \<Rightarrow> g b)"
  by (cases x) auto

lemma keeps_case_prod [keeps_intros]:
  "(\<And>a b. x = (a, b) \<Longrightarrow> keeps I (f a b)) \<Longrightarrow> keeps I (case x of (a, b) \<Rightarrow> f a b)"
  by (cases x) auto

lemma keeps_Let [keeps_intros]: "(\<And>x. x = v \<Longrightarrow> keeps I (f x)) \<Longrightarrow> keeps I (let x = v in f x)"
  by simp

lemma keeps_for_each [keeps_intros]:
  "(\<And>x. x \<in> set xs \<Longrightarrow> keeps I (body x)) \<Longrightarrow> keeps I (for_each xs body)"
proof (induction xs)
  case Nil
  then show ?case by (simp add: keeps_return)
next
  case (Cons x xs)
  have "keeps I (body x)" and "keeps I (for_each xs body)" using Cons by simp_all
  then show ?case by (simp add: keeps_bind)
qed

lemma keeps_loopM [keeps_intros]:
  "(\<And>x a. x \<in> set xs \<Longrightarrow> keeps I (body x a)) \<Longrightarrow> keeps I (loopM xs a body)"
proof (induction xs arbitrary: a)
  case Nil
  then show ?case by (simp add: keeps_return)
next
  case (Cons x xs)
  have "keeps I (body x a)" using Cons.prems by simp
  moreover have "keeps I (loopM xs a' body)" for a' using Cons by simp
  ultimately show ?case
    by (auto intro!: keeps_bind keeps_case_sum keeps_return)
qed

lemma keeps_conj: "keeps I m \<Longrightarrow> keeps J m \<Longrightarrow> keeps (\<lambda>s. I s \<and> J s) m"
  by (simp add: keeps_def)

text \<open>A statement that keeps every value of a projection leaves that projection alone.\<close>

lemma keeps_frame:
  assumes "\<And>c. keeps (\<lambda>s. p s = c) m" and "run_state m s = (x, t)"
  shows "p t = p s"
  using keepsD [of "\<lambda>u. p u = p s" m s x t] assms by simp

definition sum_post :: "('r \<Rightarrow> 's \<Rightarrow> bool) \<Rightarrow> ('a \<Rightarrow> 's \<Rightarrow> bool) \<Rightarrow> 'r + 'a \<Rightarrow> 's \<Rightarrow> bool" where
  "sum_post P Q r t = (case r of Inl e \<Rightarrow> P e t | Inr a \<Rightarrow> Q a t)"

lemma sum_post_Inl [simp]: "sum_post P Q (Inl e) t = P e t"
  by (simp add: sum_post_def)

lemma sum_post_Inr [simp]: "sum_post P Q (Inr a) t = Q a t"
  by (simp add: sum_post_def)

lemma wp_case_sum [wp_simps]:
  "wp (case r of Inl e \<Rightarrow> f e | Inr a \<Rightarrow> g a) Q s =
   sum_post (\<lambda>e. wp (f e) Q) (\<lambda>a. wp (g a) Q) r s"
  by (cases r) simp_all

lemma sum_post_mono:
  "sum_post P Q r t \<Longrightarrow> (\<And>e. r = Inl e \<Longrightarrow> P e t \<Longrightarrow> P' e t) \<Longrightarrow>
   (\<And>a. r = Inr a \<Longrightarrow> Q a t \<Longrightarrow> Q' a t) \<Longrightarrow> sum_post P' Q' r t"
  by (cases r) simp_all

text \<open>The loop rule: \<open>I\<close> holds between iterations, \<open>P\<close> at every early exit.\<close>

lemma wp_loopM:
  assumes "\<And>x a s. x \<in> set xs \<Longrightarrow> I a s \<Longrightarrow> wp (body x a) (sum_post P I) s"
    and "I a s"
  shows "wp (loopM xs a body) (sum_post P I) s"
  using assms
proof (induction xs arbitrary: a s)
  case Nil
  then show ?case by simp
next
  case (Cons x xs)
  have step: "wp (body x a) (sum_post P I) s"
    using Cons.prems by simp
  have rest: "I a' t \<Longrightarrow> wp (loopM xs a' body) (sum_post P I) t" for a' t
    by (rule Cons.IH) (use Cons.prems in auto)
  have "wp (body x a) (\<lambda>r t. wp (case r of Inl e \<Rightarrow> ret (Inl e) | Inr a' \<Rightarrow> loopM xs a' body)
           (sum_post P I) t) s"
  proof (rule wp_mono [OF step])
    fix r t
    assume "sum_post P I r t"
    then show "wp (case r of Inl e \<Rightarrow> ret (Inl e) | Inr a' \<Rightarrow> loopM xs a' body) (sum_post P I) t"
      by (cases r) (auto intro: rest)
  qed
  then show ?case by simp
qed

lemma for_each_append:
  "for_each (xs @ ys) body = do { for_each xs body; for_each ys body }"
  by (induction xs) auto

text \<open>An indexed invariant of a loop over indices.\<close>

lemma for_each_index:
  assumes "J 0 s" and "\<And>k s. k < n \<Longrightarrow> J k s \<Longrightarrow> J (Suc k) (snd (run_state (f k) s))"
  shows "J n (snd (run_state (for_each [0 ..< n] f) s))"
  using assms
proof (induction n)
  case (Suc n)
  then have "J n (snd (run_state (for_each [0 ..< n] f) s))" by simp
  then show ?case using Suc.prems(2) [of n] by (simp add: for_each_append split_beta)
qed simp

lemma run_loopM_append:
  "run_state (loopM (xs @ ys) a body) s =
   (case run_state (loopM xs a body) s of
      (Inl e, t) \<Rightarrow> (Inl e, t) | (Inr a', t) \<Rightarrow> run_state (loopM ys a' body) t)"
proof (induction xs arbitrary: a s)
  case (Cons x xs)
  obtain y t where "run_state (body x a) s = (y, t)" by (cases "run_state (body x a) s")
  then show ?case using Cons by (cases y) simp_all
qed simp

lemma loopM_index:
  assumes "J 0 a s" and "\<And>k a s. k < n \<Longrightarrow> J k a s \<Longrightarrow> \<exists>a' t. run_state (body k a) s = (Inr a', t) \<and> J (Suc k) a' t"
  shows "\<exists>a' t. run_state (loopM [0 ..< n] a body) s = (Inr a', t) \<and> J n a' t"
proof -
  have "\<exists>a' t. run_state (loopM [k ..< n] a body) s = (Inr a', t) \<and> J n a' t" if "J k a s" "k \<le> n" for k a s
    using that
  proof (induction "n - k" arbitrary: k a s)
    case 0
    then show ?case by simp
  next
    case (Suc d)
    have k: "k < n" using Suc.hyps(2) by simp
    obtain a' t where step: "run_state (body k a) s = (Inr a', t)" and J: "J (Suc k) a' t"
      using assms(2) [OF k Suc.prems(1)] by auto
    have "\<exists>a'' u. run_state (loopM [Suc k ..< n] a' body) t = (Inr a'', u) \<and> J n a'' u"
      by (rule Suc.hyps(1)) (use Suc.hyps(2) J in auto)
    then show ?case using step by (simp add: upt_conv_Cons [OF k])
  qed
  from this [of 0 a s] assms(1) show ?thesis by simp
qed

subsection \<open>Lists and numbers\<close>

text \<open>\<open>ceil_div a b\<close> is the integer ceiling of a quotient, which the configuration computes with floats.\<close>

definition ceil_div :: "nat \<Rightarrow> nat \<Rightarrow> nat" where
  "ceil_div a b = (a + b - 1) div b"

lemma ceil_div_le: "0 < b \<Longrightarrow> a \<le> ceil_div a b * b"
proof -
  assume b: "0 < b"
  have "(a + b - 1) mod b < b" using b by simp
  moreover have "ceil_div a b * b + (a + b - 1) mod b = a + b - 1"
    by (simp add: ceil_div_def)
  ultimately show ?thesis using b by linarith
qed

lemma less_ceil_div: "k < ceil_div a b \<Longrightarrow> 0 < b \<Longrightarrow> k * b < a"
proof -
  assume k: "k < ceil_div a b" and b: "0 < b"
  have "(k + 1) * b \<le> ceil_div a b * b" using k by (intro mult_le_mono1) simp
  also have "\<dots> \<le> a + b - 1" by (simp add: ceil_div_def)
  finally show ?thesis using b by simp
qed

definition count_upto :: "nat \<Rightarrow> (nat \<Rightarrow> bool) \<Rightarrow> nat" where
  "count_upto n p = length (filter p [0..<n])"

lemma count_upto_0 [simp]: "count_upto 0 p = 0"
  by (simp add: count_upto_def)

lemma count_upto_Suc [simp]: "count_upto (Suc n) p = count_upto n p + (if p n then 1 else 0)"
  by (simp add: count_upto_def)

lemma count_upto_le: "count_upto n p \<le> n"
  unfolding count_upto_def by (rule order_trans [OF length_filter_le]) simp

lemma count_upto_cong:
  "(\<And>i. i < n \<Longrightarrow> p i = q i) \<Longrightarrow> count_upto n p = count_upto n q"
  by (induction n) auto

lemma count_upto_card: "count_upto n p = card {i. i < n \<and> p i}"
proof -
  have "length (filter p [0..<n]) = card (set (filter p [0..<n]))"
    by (rule distinct_card [symmetric]) simp
  also have "set (filter p [0..<n]) = {i. i < n \<and> p i}" by auto
  finally show ?thesis by (simp only: count_upto_def)
qed

text \<open>Changing the predicate at one index changes the count by that index alone.\<close>

lemma count_upto_upd:
  assumes "a < n" and "\<And>i. i < n \<Longrightarrow> i \<noteq> a \<Longrightarrow> p i = q i"
  shows "count_upto n p + (if q a then 1 else 0) = count_upto n q + (if p a then 1 else 0)"
  using assms
proof (induction n)
  case 0
  then show ?case by simp
next
  case (Suc n)
  show ?case
  proof (cases "a = n")
    case True
    then have "count_upto n p = count_upto n q"
      using Suc.prems(2) by (intro count_upto_cong) auto
    then show ?thesis using True by simp
  next
    case False
    then have "count_upto n p + (if q a then 1 else 0) = count_upto n q + (if p a then 1 else 0)"
      using Suc.prems by (intro Suc.IH) auto
    then show ?thesis using False Suc.prems by simp
  qed
qed

lemma sum_list_update_nat:
  fixes xs :: "nat list"
  shows "i < length xs \<Longrightarrow> sum_list (xs[i := v]) + xs ! i = sum_list xs + v"
  by (induction xs arbitrary: i) (auto split: nat.splits)

lemma mset_swap_list:
  assumes "i < length xs" and "j < length xs"
  shows "mset (xs[i := xs ! j, j := xs ! i]) = mset xs"
  by (rule mset_swap [OF assms(2) assms(1), simplified])

end
