(* ===== verification/PaffsTypes.thy ===== *)
theory PaffsTypes
  imports PaffsPrelude
begin

text \<open>
  \<^verbatim>\<open>src/commonTypes.hpp\<close> and \<^verbatim>\<open>src/config/auto.hpp\<close>: the enumerations, the inode and the area
  record, and the compile-time configuration. An enumeration is a datatype with the
  source's constructors and its numeric code; the order of a \<^verbatim>\<open>Result\<close>, which the code
  compares with \<^verbatim>\<open>>\<close>, is the order of the codes. A configuration is a record, so that every
  definition is stated for all configurations and a witness can pick a small one.
  Indices and counters (\<^verbatim>\<open>AreaPos\<close>, \<^verbatim>\<open>PageOffs\<close>, \<^verbatim>\<open>PageAbs\<close>, \<^verbatim>\<open>BlockAbs\<close>) are natural numbers,
  with the wrap-around of their C++ type written out where a value can leave its range; a
  packed flash address is a 32-bit word.
\<close>

subsection \<open>Enumerations\<close>

datatype Result =
    R_ok | R_biterrorCorrected | R_biterrorNotCorrected | R_notFound | R_exists | R_tooBig
  | R_invalidInput | R_nimpl | R_bug | R_noParent | R_noSpace | R_noPerm | R_lowMem
  | R_dirNotEmpty | R_badFlash | R_notMounted | R_alrMounted | R_objNameTooLong | R_readOnly
  | R_fail | R_num_result

fun result_code :: "Result \<Rightarrow> nat" where
  "result_code R_ok = 0"
| "result_code R_biterrorCorrected = 1"
| "result_code R_biterrorNotCorrected = 2"
| "result_code R_notFound = 3"
| "result_code R_exists = 4"
| "result_code R_tooBig = 5"
| "result_code R_invalidInput = 6"
| "result_code R_nimpl = 7"
| "result_code R_bug = 8"
| "result_code R_noParent = 9"
| "result_code R_noSpace = 10"
| "result_code R_noPerm = 11"
| "result_code R_lowMem = 12"
| "result_code R_dirNotEmpty = 13"
| "result_code R_badFlash = 14"
| "result_code R_notMounted = 15"
| "result_code R_alrMounted = 16"
| "result_code R_objNameTooLong = 17"
| "result_code R_readOnly = 18"
| "result_code R_fail = 19"
| "result_code R_num_result = 20"

text \<open>The results are ordered by badness; a loop over several of them keeps the worst.\<close>

definition worse :: "Result \<Rightarrow> Result \<Rightarrow> Result" where
  "worse r global = (if result_code r > result_code global then r else global)"

lemma result_code_inject: "result_code a = result_code b \<Longrightarrow> a = b"
  by (cases a; cases b; simp)

instantiation Result :: linorder
begin

definition less_eq_Result :: "Result \<Rightarrow> Result \<Rightarrow> bool" where
  "less_eq_Result a b \<longleftrightarrow> result_code a \<le> result_code b"

definition less_Result :: "Result \<Rightarrow> Result \<Rightarrow> bool" where
  "less_Result a b \<longleftrightarrow> result_code a < result_code b"

instance
  by standard (auto simp: less_eq_Result_def less_Result_def intro: result_code_inject)

end

lemma R_ok_least [simp]: "R_ok \<le> r"
  by (simp add: less_eq_Result_def)

datatype AreaType =
    T_unset | T_superblock | T_journal | T_index | T_data | T_garbageBuffer | T_retired | T_no

fun area_type_code :: "AreaType \<Rightarrow> nat" where
  "area_type_code T_unset = 0"
| "area_type_code T_superblock = 1"
| "area_type_code T_journal = 2"
| "area_type_code T_index = 3"
| "area_type_code T_data = 4"
| "area_type_code T_garbageBuffer = 5"
| "area_type_code T_retired = 6"
| "area_type_code T_no = 7"

lemma area_type_code_inject [simp]: "area_type_code a = area_type_code b \<longleftrightarrow> a = b"
  by (cases a; cases b; simp)

lemma area_type_code_le: "area_type_code t \<le> 7"
  by (cases t) auto

lemma area_type_code_less [simp]: "area_type_code t < 7 \<longleftrightarrow> t \<noteq> T_no"
  by (cases t) auto

datatype AreaStatus = S_closed | S_active | S_empty

fun area_status_code :: "AreaStatus \<Rightarrow> nat" where
  "area_status_code S_closed = 0"
| "area_status_code S_active = 1"
| "area_status_code S_empty = 2"

datatype SummaryEntry = SE_free | SE_used | SE_dirty | SE_error

fun summary_code :: "SummaryEntry \<Rightarrow> 8 word" where
  "summary_code SE_free = 0"
| "summary_code SE_used = 1"
| "summary_code SE_dirty = 2"
| "summary_code SE_error = 3"

definition summary_of :: "8 word \<Rightarrow> SummaryEntry" where
  "summary_of w =
     (if w = 0 then SE_free else if w = 1 then SE_used else if w = 2 then SE_dirty else SE_error)"

lemma summary_of_code [simp]: "summary_of (summary_code e) = e"
  by (cases e) (simp_all add: summary_of_def)

datatype InodeType = I_file | I_dir | I_lnk

subsection \<open>Addresses, areas, inodes\<close>

type_synonym Addr = "32 word"
type_synonym AreaPos = nat
type_synonym PageOffs = nat
type_synonym PageAbs = nat
type_synonym BlockAbs = nat
type_synonym InodeNo = nat
type_synonym FileSize = nat
type_synonym byte = "8 word"

definition directAddrCount :: nat where
  "directAddrCount = 11"

record Inode =
  i_no :: InodeNo
  i_type :: InodeType
  i_perm :: nat
  i_reservedPages :: nat
  i_size :: FileSize
  i_crea :: nat
  i_mod :: nat
  i_direct :: "Addr list"
  i_indir :: Addr
  i_d_indir :: Addr
  i_t_indir :: Addr

record Area =
  a_type :: AreaType
  a_status :: AreaStatus
  a_erasecount :: nat
  a_position :: AreaPos

text \<open>\<^verbatim>\<open>memset(mMap, 0, ...)\<close> leaves every area unset, closed, never erased, at position 0.\<close>

definition zero_area :: Area where
  "zero_area = \<lparr>a_type = T_unset, a_status = S_closed, a_erasecount = 0, a_position = 0\<rparr>"

text \<open>The erase counter is a bit field of 17 bits.\<close>

definition erasecount_bits :: nat where
  "erasecount_bits = 17"

definition BadBlockList_index :: "nat list \<Rightarrow> nat \<Rightarrow> nat \<Rightarrow> nat option" where
  "BadBlockList_index mList mSize pos =
     (if pos > mSize then Some 0
      else if pos < length mList then Some (mList ! pos) else None)"

subsection \<open>Configuration\<close>

record config =
  dataBytesPerPage :: nat
  oobBytesPerPage :: nat
  pagesPerBlock :: nat
  blocksTotal :: nat
  blocksPerArea :: nat
  jumpPadNo :: nat
  mramSize :: nat
  reservedLogsize :: nat
  areaSummaryCacheSize :: nat
  maxNumberOfInodes :: nat
  maxPagesPerWrite :: nat
  treeNodeCacheSize :: nat
  maxNumberOfFiles :: nat
  verifyAS :: bool        \<comment> \<open>\<^verbatim>\<open>traceMask & PAFFS_TRACE_VERIFY_AS\<close>\<close>
  writeVerifyAS :: bool   \<comment> \<open>\<^verbatim>\<open>traceMask & PAFFS_WRITE_VERIFY_AS\<close>\<close>
  verifyTC :: bool        \<comment> \<open>\<^verbatim>\<open>traceMask & PAFFS_TRACE_VERIFY_TC\<close>\<close>
  verifyDev :: bool       \<comment> \<open>\<^verbatim>\<open>traceMask & PAFFS_TRACE_VERIFY_DEV\<close>\<close>

definition totalBytesPerPage :: "'a config_scheme \<Rightarrow> nat" where
  "totalBytesPerPage E = dataBytesPerPage E + oobBytesPerPage E"

definition areasNo :: "'a config_scheme \<Rightarrow> nat" where
  "areasNo E = blocksTotal E div blocksPerArea E"

definition totalPagesPerArea :: "'a config_scheme \<Rightarrow> nat" where
  "totalPagesPerArea E = blocksPerArea E * pagesPerBlock E"

definition oobPagesPerArea :: "'a config_scheme \<Rightarrow> nat" where
  "oobPagesPerArea E = ceil_div (totalPagesPerArea E) (8 * dataBytesPerPage E)"

definition dataPagesPerArea :: "'a config_scheme \<Rightarrow> nat" where
  "dataPagesPerArea E = totalPagesPerArea E - oobPagesPerArea E"

definition addrsPerPage :: "'a config_scheme \<Rightarrow> nat" where
  "addrsPerPage E = dataBytesPerPage E div 4"

definition areaSummarySizePacked :: "'a config_scheme \<Rightarrow> nat" where
  "areaSummarySizePacked E = 1 + ceil_div (dataPagesPerArea E) 8"

definition areaSummaryIsPacked :: "'a config_scheme \<Rightarrow> bool" where
  "areaSummaryIsPacked E \<longleftrightarrow> areaSummarySizePacked E * 2 > dataBytesPerPage E"

definition areaSummarySizeUnpacked :: "'a config_scheme \<Rightarrow> nat" where
  "areaSummarySizeUnpacked E = 1 + ceil_div (dataPagesPerArea E) 4"

definition superChainElems :: "'a config_scheme \<Rightarrow> nat" where
  "superChainElems E = jumpPadNo E + 2"

definition minFreeAreas :: nat where
  "minFreeAreas = 1"

text \<open>The static assertions of \<^verbatim>\<open>auto.hpp\<close>, with the ranges of the constants' C++ types.\<close>

definition config_ok :: "'a config_scheme \<Rightarrow> bool" where
  "config_ok E \<longleftrightarrow>
     2 \<le> blocksPerArea E \<and> blocksPerArea E < 2 ^ 8 \<and>
     8 \<le> blocksTotal E \<and> blocksTotal E < 2 ^ 16 \<and>
     0 < pagesPerBlock E \<and> totalPagesPerArea E < 2 ^ 16 \<and>
     0 < dataBytesPerPage E \<and> totalBytesPerPage E < 2 ^ 16 \<and>
     mramSize E mod 512 = 0 \<and> 3 \<le> areaSummaryCacheSize E \<and>
     areaSummarySizePacked E \<le> dataBytesPerPage E \<and>
     \<not> (areaSummaryIsPacked E \<and> areaSummarySizePacked E > 2048)"

lemma dataPagesPerArea_le: "dataPagesPerArea E \<le> totalPagesPerArea E"
  by (simp add: dataPagesPerArea_def)

lemma config_ok_areasNo: "config_ok E \<Longrightarrow> areasNo E < 2 ^ 16"
proof -
  assume "config_ok E"
  then have "blocksTotal E < 2 ^ 16" by (simp add: config_ok_def)
  moreover have "areasNo E \<le> blocksTotal E" by (simp add: areasNo_def div_le_dividend)
  ultimately show ?thesis by linarith
qed

lemma config_ok_pages: "config_ok E \<Longrightarrow> dataPagesPerArea E < 2 ^ 16"
  using dataPagesPerArea_le [of E] by (simp add: config_ok_def)

end
