(* ===== verification/Bitlist.thy ===== *)
theory Bitlist
  imports PaffsTypes
begin

unbundle bit_operations_syntax

text \<open>
  \<^verbatim>\<open>src/bitlist.hpp\<close>: the packed bit list and the packed list of two-bit values. The
  template parameter is the argument \<open>N\<close>, the byte array a list. A loop of the source that
  indexes one byte past the array is modelled with \<open>None\<close> for that read.
\<close>

subsection \<open>BitList\<close>

definition BitList_byteUsage :: "nat \<Rightarrow> nat" where
  "BitList_byteUsage N = (N + 7) div 8"

definition BitList_clear :: "nat \<Rightarrow> byte list" where
  "BitList_clear N = replicate (BitList_byteUsage N) 0"

definition setBit :: "nat \<Rightarrow> nat \<Rightarrow> byte list \<Rightarrow> byte list" where
  "setBit N n l =
     (if n < N then l[n div 8 := (l ! (n div 8)) OR push_bit (n mod 8) 1] else l)"

definition resetBit :: "nat \<Rightarrow> nat \<Rightarrow> byte list \<Rightarrow> byte list" where
  "resetBit N n l =
     (if n < N then l[n div 8 := (l ! (n div 8)) AND NOT (push_bit (n mod 8) 1)] else l)"

definition getBit :: "nat \<Rightarrow> nat \<Rightarrow> byte list \<Rightarrow> bool" where
  "getBit N n l =
     (if n < N then ((l ! (n div 8)) AND push_bit (n mod 8) 1) \<noteq> 0 else False)"

fun findFirstFree_from :: "nat \<Rightarrow> byte list \<Rightarrow> nat list \<Rightarrow> nat option" where
  "findFirstFree_from N l [] = Some N"
| "findFirstFree_from N l (i # is) =
     (if length l \<le> i then None
      else if l ! i \<noteq> 0xFF then
        (case find (\<lambda>j. \<not> getBit N j l) [i * 8 ..< min ((i + 1) * 8) N] of
           Some j \<Rightarrow> Some j
         | None \<Rightarrow> findFirstFree_from N l is)
      else findFirstFree_from N l is)"

definition findFirstFree :: "nat \<Rightarrow> byte list \<Rightarrow> nat option" where
  "findFirstFree N l = findFirstFree_from N l [0 ..< N div 8 + 1]"

fun isSetSomewhere_from :: "byte list \<Rightarrow> nat list \<Rightarrow> bool option" where
  "isSetSomewhere_from l [] = Some False"
| "isSetSomewhere_from l (i # is) =
     (if length l \<le> i then None
      else if l ! i \<noteq> 0 then Some True else isSetSomewhere_from l is)"

definition isSetSomewhere :: "nat \<Rightarrow> byte list \<Rightarrow> bool option" where
  "isSetSomewhere N l = isSetSomewhere_from l [0 ..< N div 8 + 1]"

definition countSetBits :: "nat \<Rightarrow> byte list \<Rightarrow> nat" where
  "countSetBits N l = fold (\<lambda>i c. if getBit N i l then c + 1 else c) [0 ..< N] 0"

definition BitList_eq :: "nat \<Rightarrow> byte list \<Rightarrow> byte list \<Rightarrow> bool" where
  "BitList_eq N l r = list_all (\<lambda>i. l ! i = r ! i) [0 ..< (N + 7) div 8]"

subsection \<open>TwoBitList\<close>

definition TwoBitList_byteUsage :: "nat \<Rightarrow> nat" where
  "TwoBitList_byteUsage N = (N + 3) div 4"

definition TwoBitList_clear :: "nat \<Rightarrow> byte list" where
  "TwoBitList_clear N = replicate (TwoBitList_byteUsage N) 0"

definition setValue :: "nat \<Rightarrow> byte \<Rightarrow> byte list \<Rightarrow> byte list" where
  "setValue pos v l =
     l[pos div 4 := ((l ! (pos div 4)) AND NOT (push_bit ((pos mod 4) * 2) 3))
                    OR push_bit ((pos mod 4) * 2) v]"

definition getValue :: "nat \<Rightarrow> byte list \<Rightarrow> byte" where
  "getValue pos l =
     drop_bit ((pos mod 4) * 2) ((l ! (pos div 4)) AND push_bit ((pos mod 4) * 2) 3)"

definition TwoBitList_eq :: "nat \<Rightarrow> byte list \<Rightarrow> byte list \<Rightarrow> bool" where
  "TwoBitList_eq N l r = list_all (\<lambda>i. l ! i = r ! i) [0 ..< (N + 3) div 4]"

subsection \<open>The interface of a packed array\<close>

text \<open>
  What the users of both lists rely on: a write changes the value at its own index only.
  \<open>fill\<close> is the loop in which the area summaries are packed and unpacked.
\<close>

locale packed_array =
  fixes get :: "nat \<Rightarrow> 'm \<Rightarrow> 'v"
    and put :: "nat \<Rightarrow> 'v \<Rightarrow> 'm \<Rightarrow> 'm"
    and len :: "nat"
    and okval :: "'v \<Rightarrow> bool"
    and wf :: "'m \<Rightarrow> bool"
  assumes get_put: "wf m \<Longrightarrow> i < len \<Longrightarrow> j < len \<Longrightarrow> okval v \<Longrightarrow>
                    get j (put i v m) = (if j = i then v else get j m)"
    and wf_put: "wf m \<Longrightarrow> i < len \<Longrightarrow> wf (put i v m)"
begin

lemma fill_wf: "wf m \<Longrightarrow> (\<And>i. i \<in> set is \<Longrightarrow> i < len) \<Longrightarrow> wf (fold (\<lambda>i. put i (f i)) is m)"
  by (induction "is" arbitrary: m) (auto simp: wf_put)

lemma get_fill:
  assumes "wf m" and "\<And>i. i \<in> set is \<Longrightarrow> i < len \<and> okval (f i)" and "j < len"
  shows "get j (fold (\<lambda>i. put i (f i)) is m) = (if j \<in> set is then f j else get j m)"
  using assms
proof (induction "is" arbitrary: m)
  case Nil
  then show ?case by simp
next
  case (Cons i "is")
  have "get j (fold (\<lambda>i. put i (f i)) is (put i (f i) m)) =
        (if j \<in> set is then f j else get j (put i (f i) m))"
    using Cons.prems by (intro Cons.IH) (auto simp: wf_put)
  then show ?case
    using Cons.prems by (auto simp: get_put)
qed

corollary get_fill_all:
  assumes "wf m" and "\<And>i. i < len \<Longrightarrow> okval (f i)" and "j < len"
  shows "get j (fold (\<lambda>i. put i (f i)) [0 ..< len] m) = f j"
  using assms by (subst get_fill) auto

end

subsection \<open>Facts about single bytes\<close>

lemma getBit_iff: "getBit N n l \<longleftrightarrow> n < N \<and> bit (l ! (n div 8)) (n mod 8)"
  by (simp add: getBit_def and_exp_eq_0_iff_not_bit)

lemma bit_single: "bit ((2::byte) ^ k) n \<longleftrightarrow> n = k \<and> k < 8"
  by (auto simp: bit_exp_iff)

lemma index_split_8: "i div 8 = j div 8 \<Longrightarrow> i mod 8 = j mod 8 \<Longrightarrow> i = (j::nat)"
  by (metis div_mult_mod_eq)

lemma index_split_4: "i div 4 = j div 4 \<Longrightarrow> i mod 4 = j mod 4 \<Longrightarrow> i = (j::nat)"
  by (metis div_mult_mod_eq)

lemma byte_index_8: "i < N \<Longrightarrow> i div 8 < BitList_byteUsage N"
  unfolding BitList_byteUsage_def by linarith

lemma byte_index_4: "i < N \<Longrightarrow> i div 4 < TwoBitList_byteUsage N"
  unfolding TwoBitList_byteUsage_def by linarith

lemma getBit_setBit:
  assumes "length l = BitList_byteUsage N" and "i < N" and "j < N"
  shows "getBit N j (setBit N i l) \<longleftrightarrow> j = i \<or> getBit N j l"
proof -
  have len: "i div 8 < length l" using byte_index_8 [OF assms(2)] assms(1) by simp
  show ?thesis
  proof (cases "j div 8 = i div 8")
    case True
    then have "j mod 8 = i mod 8 \<longleftrightarrow> j = i" using index_split_8 by blast
    then show ?thesis
      using True len assms(2,3) by (simp add: getBit_iff setBit_def bit_or_iff bit_single disj_commute)
  next
    case False
    then show ?thesis using len assms(2,3) by (auto simp: getBit_iff setBit_def)
  qed
qed

lemma getBit_resetBit:
  assumes "length l = BitList_byteUsage N" and "i < N" and "j < N"
  shows "getBit N j (resetBit N i l) \<longleftrightarrow> j \<noteq> i \<and> getBit N j l"
proof -
  have len: "i div 8 < length l" using byte_index_8 [OF assms(2)] assms(1) by simp
  show ?thesis
  proof (cases "j div 8 = i div 8")
    case True
    then have "j mod 8 = i mod 8 \<longleftrightarrow> j = i" using index_split_8 by blast
    then show ?thesis
      using True len assms(2,3)
      by (auto simp: getBit_iff resetBit_def bit_and_iff bit_not_iff bit_single)
  next
    case False
    then show ?thesis using len assms(2,3) by (auto simp: getBit_iff resetBit_def)
  qed
qed

lemma length_setBit [simp]: "length (setBit N n l) = length l"
  by (simp add: setBit_def)

lemma length_resetBit [simp]: "length (resetBit N n l) = length l"
  by (simp add: resetBit_def)

definition putBit :: "nat \<Rightarrow> nat \<Rightarrow> bool \<Rightarrow> byte list \<Rightarrow> byte list" where
  "putBit N n b l = (if b then setBit N n l else resetBit N n l)"

interpretation bl: packed_array "getBit N" "putBit N" N "\<lambda>_. True"
    "\<lambda>l. length l = BitList_byteUsage N" for N
  by unfold_locales (auto simp: putBit_def getBit_setBit getBit_resetBit)

lemma bit_3_iff: "bit (3::byte) n \<longleftrightarrow> n < 2"
proof -
  have "bit (mask 2 :: byte) n \<longleftrightarrow> n < 2" by (auto simp: bit_mask_iff)
  moreover have "(mask 2 :: byte) = 3" by (simp add: mask_eq_exp_minus_1)
  ultimately show ?thesis by (simp only:)
qed

lemma bit_3_int: "bit (3::int) n \<longleftrightarrow> n < 2"
proof -
  have "bit (mask 2 :: int) n \<longleftrightarrow> n < 2" by (auto simp: bit_mask_iff)
  moreover have "(mask 2 :: int) = 3" by (simp add: mask_eq_exp_minus_1)
  ultimately show ?thesis by (simp only:)
qed

lemma small_value_bits:
  assumes "(v::byte) < 4" and "bit v n"
  shows "n < 2"
proof -
  have "unat v < 2 ^ 2" using assms(1) by (simp add: word_less_nat_alt)
  then have "take_bit 2 (unat v) = unat v" by (rule take_bit_nat_eq_self)
  moreover have "bit (unat v) n" using assms(2) by (simp add: bit_unsigned_iff)
  ultimately show ?thesis by (metis bit_take_bit_iff)
qed

lemma put2_bit:
  assumes "b < 8"
  shows "bit ((w AND NOT (push_bit a 3)) OR push_bit a (v::byte)) b \<longleftrightarrow>
         bit w b \<and> \<not> (a \<le> b \<and> b - a < 2) \<or> a \<le> b \<and> bit v (b - a)"
  using assms by (auto simp: bit_or_iff bit_and_iff bit_not_iff bit_push_bit_iff bit_3_int)

lemma getValue_bit: "bit (getValue pos l) n \<longleftrightarrow> n < 2 \<and> bit (l ! (pos div 4)) ((pos mod 4) * 2 + n)"
proof -
  have "(pos mod 4) * 2 + n < 8" if "n < 2"
  proof -
    have "pos mod 4 \<le> 3" by simp
    then show ?thesis using that by linarith
  qed
  then show ?thesis
    by (auto simp: getValue_def bit_drop_bit_eq bit_and_iff bit_push_bit_iff bit_3_int)
qed

lemma slot_disjoint: "x \<noteq> y \<Longrightarrow> n < 2 \<Longrightarrow> \<not> (y * 2 \<le> x * 2 + n \<and> x * 2 + n - y * 2 < (2::nat))"
  by arith

lemma setValue_bit:
  assumes "i div 4 < length l" and "b < 8"
  shows "bit (setValue i v l ! (i div 4)) b \<longleftrightarrow>
         bit (l ! (i div 4)) b \<and> \<not> (i mod 4 * 2 \<le> b \<and> b - i mod 4 * 2 < 2) \<or>
         i mod 4 * 2 \<le> b \<and> bit v (b - i mod 4 * 2)"
  unfolding setValue_def nth_list_update_eq [OF assms(1)] by (rule put2_bit [OF assms(2)])

lemma getValue_setValue:
  assumes "length l = TwoBitList_byteUsage N" and "i < N" and "j < N" and v: "v < 4"
  shows "getValue j (setValue i v l) = (if j = i then v else getValue j l)"
proof (rule bit_word_eqI)
  fix n assume n: "n < LENGTH(8)"
  have len: "i div 4 < length l" using byte_index_4 [OF assms(2)] assms(1) by simp
  define b where "b = j mod 4 * 2 + n"
  have b8: "b < 8" if "n < 2"
    using mod_less_divisor [of 4 j] that unfolding b_def by linarith
  have v2: "bit v k \<Longrightarrow> k < 2" for k by (rule small_value_bits [OF v])
  consider "2 \<le> n" | "n < 2" "j div 4 \<noteq> i div 4" | "n < 2" "j = i"
    | "n < 2" "j div 4 = i div 4" "j mod 4 \<noteq> i mod 4"
    using index_split_4 [of j i] by linarith
  then show "bit (getValue j (setValue i v l)) n = bit (if j = i then v else getValue j l) n"
  proof cases
    case 1
    then show ?thesis using v2 [of n] by (auto simp: getValue_bit)
  next
    case 2
    then have "setValue i v l ! (j div 4) = l ! (j div 4)" by (simp add: setValue_def)
    then show ?thesis using 2 by (auto simp: getValue_bit)
  next
    case 3
    then have "bit (setValue i v l ! (i div 4)) b \<longleftrightarrow> bit v n"
      using setValue_bit [OF len b8, of v] unfolding b_def by simp
    then show ?thesis using 3 unfolding b_def by (simp add: getValue_bit)
  next
    case 4
    then have out: "\<not> (i mod 4 * 2 \<le> b \<and> b - i mod 4 * 2 < 2)"
      unfolding b_def by (intro slot_disjoint)
    then have "bit (setValue i v l ! (i div 4)) b \<longleftrightarrow> bit (l ! (i div 4)) b"
      using setValue_bit [OF len b8, of v] 4(1) v2 [of "b - i mod 4 * 2"] by blast
    moreover have "j \<noteq> i" using 4 by blast
    ultimately show ?thesis
      using 4(1) by (simp add: getValue_bit 4(2) b_def)
  qed
qed

lemma length_setValue [simp]: "length (setValue i v l) = length l"
  by (simp add: setValue_def)

interpretation tbl: packed_array getValue setValue N "\<lambda>v. v < 4"
    "\<lambda>l. length l = TwoBitList_byteUsage N" for N
  by unfold_locales (auto simp: getValue_setValue)

lemma getValue_clear: "pos < N \<Longrightarrow> getValue pos (TwoBitList_clear N) = 0"
  by (simp add: getValue_def TwoBitList_clear_def byte_index_4)

lemma getBit_clear: "\<not> getBit N n (BitList_clear N)"
  by (auto simp: getBit_iff BitList_clear_def byte_index_8)

lemma length_TwoBitList_clear [simp]: "length (TwoBitList_clear N) = TwoBitList_byteUsage N"
  by (simp add: TwoBitList_clear_def)

lemma length_BitList_clear [simp]: "length (BitList_clear N) = BitList_byteUsage N"
  by (simp add: BitList_clear_def)

lemma getValue_less: "getValue pos l < 4"
proof -
  have "take_bit 2 (getValue pos l) = getValue pos l"
    by (rule bit_word_eqI) (auto simp: bit_take_bit_iff getValue_bit)
  then have "unat (getValue pos l) = take_bit 2 (unat (getValue pos l))"
    by (metis unsigned_take_bit_eq)
  also have "\<dots> < 2 ^ 2" by (rule take_bit_nat_less_exp)
  finally show ?thesis by (simp add: word_less_nat_alt)
qed

subsection \<open>Searching and counting\<close>

lemma byte_FF_iff: "(w::byte) = 0xFF \<longleftrightarrow> (\<forall>k<8. bit w k)"
proof -
  have FF: "(0xFF::byte) = mask 8" by (simp add: mask_eq_exp_minus_1)
  show ?thesis
    unfolding FF bit_eq_iff by (auto simp: bit_mask_iff)
qed

lemma find_upt_Some:
  assumes "find P [a ..< b] = Some j"
  shows "a \<le> j \<and> j < b \<and> P j \<and> (\<forall>i. a \<le> i \<and> i < j \<longrightarrow> \<not> P i)"
proof -
  obtain k where k: "k < b - a" "P (a + k)" "j = a + k" "\<forall>i<k. \<not> P ([a ..< b] ! i)"
    using assms by (auto simp: find_Some_iff)
  have "\<not> P i" if "a \<le> i" "i < j" for i
  proof -
    have "i - a < k" using that k by simp
    then have "\<not> P ([a ..< b] ! (i - a))" using k(4) by blast
    moreover have "[a ..< b] ! (i - a) = i" using that k by simp
    ultimately show ?thesis by simp
  qed
  then show ?thesis using k by auto
qed

lemma find_upt_None: "find P [a ..< b] = None \<Longrightarrow> a \<le> i \<Longrightarrow> i < b \<Longrightarrow> \<not> P i"
  by (auto simp: find_None_iff)

lemma all_ones_byte:
  assumes "l ! i = 0xFF" and "i * 8 \<le> j" and "j < (i + 1) * 8" and "j < N"
  shows "getBit N j l"
proof -
  have "j div 8 = i" using assms(2,3) by (simp add: div_nat_eqI)
  moreover have "bit (l ! i) (j mod 8)"
    using assms(1) byte_FF_iff [of "l ! i"] by simp
  ultimately show ?thesis using assms(4) by (simp only: getBit_iff simp_thms)
qed

lemma findFirstFree_from_all_set:
  assumes "\<And>j. j < N \<Longrightarrow> getBit N j l"
  shows "findFirstFree_from N l is = (if \<forall>i\<in>set is. i < length l then Some N else None)"
proof (induction "is")
  case Nil
  then show ?case by simp
next
  case (Cons i "is")
  have "find (\<lambda>j. \<not> getBit N j l) [i * 8 ..< min ((i + 1) * 8) N] = None"
    using assms by (auto simp: find_None_iff)
  then show ?case using Cons by auto
qed

lemma findFirstFree_from_hit:
  assumes "j < N" and "\<not> getBit N j l" and least: "\<And>i. i < j \<Longrightarrow> getBit N i l"
    and "length l = BitList_byteUsage N" and "k \<le> j div 8" and "j div 8 < m"
  shows "findFirstFree_from N l [k ..< m] = Some j"
  using assms(5,6)
proof (induction "m - k" arbitrary: k)
  case 0
  then show ?case by simp
next
  case (Suc x)
  have upt: "[k ..< m] = k # [Suc k ..< m]" using Suc.prems by (simp add: upt_conv_Cons)
  have len: "k < length l"
    using Suc.prems(1) byte_index_8 [OF assms(1)] assms(4) by linarith
  have jrange: "j div 8 * 8 \<le> j" "j < (j div 8 + 1) * 8"
    using div_times_less_eq_dividend [of j 8] dividend_less_div_times [of 8 j] by simp_all
  show ?case
  proof (cases "k = j div 8")
    case True
    have "l ! k \<noteq> 0xFF"
      using all_ones_byte [of l k j N] jrange assms(1,2) True by blast
    moreover have "find (\<lambda>j. \<not> getBit N j l) [k * 8 ..< min ((k + 1) * 8) N] = Some j"
    proof -
      have "j - k * 8 < min ((k + 1) * 8) N - k * 8" "[k * 8 ..< min ((k + 1) * 8) N] ! (j - k * 8) = j"
        using jrange True assms(1) by auto
      moreover have "getBit N ([k * 8 ..< min ((k + 1) * 8) N] ! i) l" if "i < j - k * 8" for i
      proof -
        have "k * 8 + i < min ((k + 1) * 8) N" using that calculation(1) by linarith
        then have "[k * 8 ..< min ((k + 1) * 8) N] ! i = k * 8 + i" by (rule nth_upt)
        then show ?thesis using least [of "k * 8 + i"] that by simp
      qed
      ultimately show ?thesis
        using assms(2) by (auto simp: find_Some_iff intro!: exI [of _ "j - k * 8"])
    qed
    ultimately show ?thesis using len upt by simp
  next
    case False
    then have "k < j div 8" using Suc.prems by simp
    then have "(k + 1) * 8 \<le> j div 8 * 8" by (intro mult_le_mono1) simp
    then have "(k + 1) * 8 \<le> j" using jrange by simp
    then have "find (\<lambda>j. \<not> getBit N j l) [k * 8 ..< min ((k + 1) * 8) N] = None"
      using least by (auto simp: find_None_iff)
    moreover have "findFirstFree_from N l [Suc k ..< m] = Some j"
      using Suc \<open>k < j div 8\<close> by simp
    ultimately show ?thesis using len upt by simp
  qed
qed

lemma findFirstFree_hit:
  assumes "j < N" and "\<not> getBit N j l" and "\<And>i. i < j \<Longrightarrow> getBit N i l"
    and "length l = BitList_byteUsage N"
  shows "findFirstFree N l = Some j"
  unfolding findFirstFree_def
proof (rule findFirstFree_from_hit [OF assms(1,2,3,4)])
  show "j div 8 < N div 8 + 1" using assms(1) by (simp add: div_le_mono le_imp_less_Suc less_imp_le_nat)
qed simp_all

lemma findFirstFree_full:
  assumes "\<And>j. j < N \<Longrightarrow> getBit N j l" and "length l = BitList_byteUsage N"
  shows "findFirstFree N l = (if N mod 8 = 0 then None else Some N)"
proof -
  have "(\<forall>i\<in>set [0 ..< N div 8 + 1]. i < length l) \<longleftrightarrow> N div 8 < BitList_byteUsage N"
    using assms(2) by (auto simp: less_Suc_eq_le)
  also have "\<dots> \<longleftrightarrow> N mod 8 \<noteq> 0"
    unfolding BitList_byteUsage_def by presburger
  finally show ?thesis
    using findFirstFree_from_all_set [OF assms(1)] by (simp add: findFirstFree_def)
qed

lemma countSetBits_eq: "countSetBits N l = count_upto N (\<lambda>i. getBit N i l)"
proof -
  have "fold (\<lambda>i c. if P i then c + 1 else c) xs c = c + length (filter P xs)" for P :: "nat \<Rightarrow> bool" and xs c
    by (induction xs arbitrary: c) auto
  then show ?thesis by (simp add: countSetBits_def count_upto_def)
qed

end
