(* ===== verification/Addresses.thy ===== *)
theory Addresses
  imports Bitlist
begin

text \<open>
  The address helpers at the top of \<^verbatim>\<open>src/area.cpp\<close>: a flash address packs the logical area
  into the high and the page offset into the low 16 bits (the source copies the two halves
  with \<^verbatim>\<open>memcpy\<close> on a little-endian host). The page arithmetic that needs no area map is
  here; the functions that look an area up are in \<^verbatim>\<open>SuperblockMap\<close>.
\<close>

definition combineAddress :: "AreaPos \<Rightarrow> PageOffs \<Rightarrow> Addr" where
  "combineAddress logicalArea page =
     push_bit 16 (ucast (of_nat logicalArea :: 16 word)) OR ucast (of_nat page :: 16 word)"

definition extractLogicalArea :: "Addr \<Rightarrow> AreaPos" where
  "extractLogicalArea addr = unat (ucast (drop_bit 16 addr) :: 16 word)"

definition extractPageOffs :: "Addr \<Rightarrow> PageOffs" where
  "extractPageOffs addr = unat (ucast addr :: 16 word)"

definition getPageNumberFromDirect :: "'a config_scheme \<Rightarrow> Addr \<Rightarrow> PageAbs" where
  "getPageNumberFromDirect E addr =
     (let page = extractLogicalArea addr * totalPagesPerArea E + extractPageOffs addr
      in if page > areasNo E * totalPagesPerArea E then 0 else page)"

definition getBlockNumberFromDirect :: "'a config_scheme \<Rightarrow> Addr \<Rightarrow> BlockAbs" where
  "getBlockNumberFromDirect E addr =
     extractLogicalArea addr * blocksPerArea E + extractPageOffs addr div pagesPerBlock E"

subsection \<open>Packing and unpacking\<close>

lemma combine_high:
  "(ucast (drop_bit 16 (push_bit 16 (ucast (a::16 word)) OR ucast (p::16 word) :: 32 word)) :: 16 word) = a"
  by (rule bit_word_eqI)
    (auto simp: bit_ucast_iff bit_drop_bit_eq bit_or_iff bit_push_bit_iff dest: bit_imp_le_length)

lemma combine_low:
  "(ucast (push_bit 16 (ucast (a::16 word)) OR ucast (p::16 word) :: 32 word) :: 16 word) = p"
  by (rule bit_word_eqI)
    (auto simp: bit_ucast_iff bit_or_iff bit_push_bit_iff dest: bit_imp_le_length)

lemma extractLogicalArea_combine [simp]:
  "extractLogicalArea (combineAddress a p) = a mod 2 ^ 16"
  unfolding extractLogicalArea_def combineAddress_def combine_high by (simp add: unat_of_nat)

lemma extractPageOffs_combine [simp]:
  "extractPageOffs (combineAddress a p) = p mod 2 ^ 16"
  unfolding extractPageOffs_def combineAddress_def combine_low by (simp add: unat_of_nat)

lemma combine_extract: "combineAddress (extractLogicalArea addr) (extractPageOffs addr) = addr"
  by (rule bit_word_eqI)
    (auto simp: combineAddress_def extractLogicalArea_def extractPageOffs_def
      bit_ucast_iff bit_drop_bit_eq bit_or_iff bit_push_bit_iff)

lemma extractLogicalArea_less: "extractLogicalArea addr < 2 ^ 16"
proof -
  have "unat w < 2 ^ LENGTH(16)" for w :: "16 word" by (rule unsigned_less)
  then show ?thesis by (simp add: extractLogicalArea_def)
qed

lemma extractPageOffs_less: "extractPageOffs addr < 2 ^ 16"
proof -
  have "unat w < 2 ^ LENGTH(16)" for w :: "16 word" by (rule unsigned_less)
  then show ?thesis by (simp add: extractPageOffs_def)
qed

lemma addr_eq_iff:
  "a = b \<longleftrightarrow> extractLogicalArea a = extractLogicalArea b \<and> extractPageOffs a = extractPageOffs b"
  by (metis combine_extract)

text \<open>Two direct addresses inside the device that name the same physical page are equal.\<close>

lemma page_split_unique:
  assumes "a * k + p = b * k + q" and "p < k" and "q < (k::nat)"
  shows "a = b \<and> p = q"
proof -
  have "(a * k + p) div k = a" "(b * k + q) div k = b"
    using assms(2,3) by simp_all
  then show ?thesis using assms(1) by auto
qed

end
