(* ===== verification/JournalEntries.thy ===== *)
theory JournalEntries
  imports Addresses
begin

text \<open>
  \<^verbatim>\<open>src/journalEntry.hpp\<close>: the journal entries, one constructor per concrete struct, and
  \<^verbatim>\<open>JournalPersistence::getSizeFromJE\<close>. The journal copies the memory of an entry to the
  MRAM and back, so the memory layout of every struct is written out: \<open>entry_bytes\<close> is the
  object representation and \<open>parse_entry\<close> reads the members back. The layout is the one the
  C++ ABI of the supported compiler (GCC, Itanium ABI, little endian) gives: a member stands at the next offset
  of its alignment, a derived struct puts its members behind the data of its base, and the
  size is rounded up to the alignment. Padding bytes are written as zero.
\<close>

datatype Topic =
    Tp_invalid | Tp_checkpoint | Tp_pagestate | Tp_superblock | Tp_areaMgmt | Tp_garbage
  | Tp_summaryCache | Tp_tree | Tp_dataIO | Tp_pac | Tp_device

fun topic_code :: "Topic \<Rightarrow> nat" where
  "topic_code Tp_invalid = 0"
| "topic_code Tp_checkpoint = 1"
| "topic_code Tp_pagestate = 2"
| "topic_code Tp_superblock = 3"
| "topic_code Tp_areaMgmt = 4"
| "topic_code Tp_garbage = 5"
| "topic_code Tp_summaryCache = 6"
| "topic_code Tp_tree = 7"
| "topic_code Tp_dataIO = 8"
| "topic_code Tp_pac = 9"
| "topic_code Tp_device = 10"

definition numberOfTopics :: nat where
  "numberOfTopics = 11"

datatype Entry =
    Checkpoint Topic
  | ReplacePage Topic Addr Addr
  | ReplacePagePos Topic Addr Addr InodeNo PageAbs
  | Success Topic
  | InvalidateOldPages Topic
  | Rootnode Addr
  | AreaMapType AreaPos AreaType
  | AreaMapStatus AreaPos AreaStatus
  | AreaMapIncreaseErasecount AreaPos
  | AreaMapPosition AreaPos AreaPos
  | AreaMapSwap AreaPos AreaPos
  | ActiveArea AreaType AreaPos
  | UsedAreas nat
  | InitAreaAs AreaPos AreaType
  | CloseArea AreaPos
  | RetireArea AreaPos
  | DeleteAreaContents AreaPos AreaPos
  | DeleteArea AreaPos
  | MoveValidData AreaPos
  | SummaryCommit AreaPos
  | SummaryRemove AreaPos
  | SummaryResetASWritten AreaPos
  | SummarySetStatus AreaPos PageOffs SummaryEntry
  | SummarySetStatusBlock AreaPos "byte list"
  | TreeInsert Inode
  | TreeUpdate Inode
  | TreeRemove InodeNo
  | PacSetAddress InodeNo PageOffs Addr
  | NewInodeSize InodeNo FileSize
  | MkObjInode InodeNo
  | InsertIntoDir InodeNo
  | RemoveObj InodeNo InodeNo

fun entry_topic :: "Entry \<Rightarrow> Topic" where
  "entry_topic (Checkpoint _) = Tp_checkpoint"
| "entry_topic (ReplacePage _ _ _) = Tp_pagestate"
| "entry_topic (ReplacePagePos _ _ _ _ _) = Tp_pagestate"
| "entry_topic (Success _) = Tp_pagestate"
| "entry_topic (InvalidateOldPages _) = Tp_pagestate"
| "entry_topic (Rootnode _) = Tp_superblock"
| "entry_topic (AreaMapType _ _) = Tp_superblock"
| "entry_topic (AreaMapStatus _ _) = Tp_superblock"
| "entry_topic (AreaMapIncreaseErasecount _) = Tp_superblock"
| "entry_topic (AreaMapPosition _ _) = Tp_superblock"
| "entry_topic (AreaMapSwap _ _) = Tp_superblock"
| "entry_topic (ActiveArea _ _) = Tp_superblock"
| "entry_topic (UsedAreas _) = Tp_superblock"
| "entry_topic (InitAreaAs _ _) = Tp_areaMgmt"
| "entry_topic (CloseArea _) = Tp_areaMgmt"
| "entry_topic (RetireArea _) = Tp_areaMgmt"
| "entry_topic (DeleteAreaContents _ _) = Tp_areaMgmt"
| "entry_topic (DeleteArea _) = Tp_areaMgmt"
| "entry_topic (MoveValidData _) = Tp_garbage"
| "entry_topic (SummaryCommit _) = Tp_summaryCache"
| "entry_topic (SummaryRemove _) = Tp_summaryCache"
| "entry_topic (SummaryResetASWritten _) = Tp_summaryCache"
| "entry_topic (SummarySetStatus _ _ _) = Tp_summaryCache"
| "entry_topic (SummarySetStatusBlock _ _) = Tp_summaryCache"
| "entry_topic (TreeInsert _) = Tp_tree"
| "entry_topic (TreeUpdate _) = Tp_tree"
| "entry_topic (TreeRemove _) = Tp_tree"
| "entry_topic (PacSetAddress _ _ _) = Tp_pac"
| "entry_topic (NewInodeSize _ _) = Tp_dataIO"
| "entry_topic (MkObjInode _) = Tp_device"
| "entry_topic (InsertIntoDir _) = Tp_device"
| "entry_topic (RemoveObj _ _) = Tp_device"

text \<open>The topic an entry is filed under: a page-state entry belongs to its target.\<close>

fun entry_target :: "Entry \<Rightarrow> Topic" where
  "entry_target (ReplacePage t _ _) = t"
| "entry_target (ReplacePagePos t _ _ _ _) = t"
| "entry_target (Success t) = t"
| "entry_target (InvalidateOldPages t) = t"
| "entry_target e = entry_topic e"

subsection \<open>Object representation\<close>

fun le_bytes :: "nat \<Rightarrow> nat \<Rightarrow> byte list" where
  "le_bytes 0 v = []"
| "le_bytes (Suc k) v = of_nat (v mod 256) # le_bytes k (v div 256)"

definition le_value :: "byte list \<Rightarrow> nat" where
  "le_value bs = foldr (\<lambda>b v. unat b + 256 * v) bs 0"

definition pad :: "nat \<Rightarrow> byte list" where
  "pad n = replicate n 0"

text \<open>\<^verbatim>\<open>struct Inode\<close>: 88 bytes.\<close>

fun inode_type_code :: "InodeType \<Rightarrow> nat" where
  "inode_type_code I_file = 0"
| "inode_type_code I_dir = 1"
| "inode_type_code I_lnk = 2"

definition inode_bytes :: "Inode \<Rightarrow> byte list" where
  "inode_bytes n =
     le_bytes 4 (i_no n) @ le_bytes 1 (inode_type_code (i_type n)) @ le_bytes 1 (i_perm n mod 8) @
     le_bytes 2 (i_reservedPages n) @ le_bytes 4 (i_size n) @ pad 4 @
     le_bytes 8 (i_crea n) @ le_bytes 8 (i_mod n) @
     concat (map (\<lambda>a. le_bytes 4 (unat a)) (i_direct n)) @
     le_bytes 4 (unat (i_indir n)) @ le_bytes 4 (unat (i_d_indir n)) @
     le_bytes 4 (unat (i_t_indir n))"

definition hdr :: "nat list \<Rightarrow> byte list" where
  "hdr xs = concat (map (le_bytes 1) xs)"

fun entry_bytes :: "Entry \<Rightarrow> byte list" where
  "entry_bytes (Checkpoint t) = hdr [1, topic_code t]"
| "entry_bytes (ReplacePage t neu old) =
     hdr [2, topic_code t, 0] @ pad 1 @ le_bytes 4 (unat neu) @ le_bytes 4 (unat old)"
| "entry_bytes (ReplacePagePos t neu old nod pos) =
     hdr [2, topic_code t, 1] @ pad 1 @ le_bytes 4 (unat neu) @ le_bytes 4 (unat old) @
     le_bytes 4 nod @ le_bytes 4 pos"
| "entry_bytes (Success t) = hdr [2, topic_code t, 2]"
| "entry_bytes (InvalidateOldPages t) = hdr [2, topic_code t, 3]"
| "entry_bytes (Rootnode a) = hdr [3, 0] @ pad 2 @ le_bytes 4 (unat a)"
| "entry_bytes (AreaMapType a t) = hdr [3, 1] @ le_bytes 2 a @ hdr [0, area_type_code t]"
| "entry_bytes (AreaMapStatus a st) = hdr [3, 1] @ le_bytes 2 a @ hdr [1, area_status_code st]"
| "entry_bytes (AreaMapIncreaseErasecount a) = hdr [3, 1] @ le_bytes 2 a @ hdr [2] @ pad 1"
| "entry_bytes (AreaMapPosition a p) = hdr [3, 1] @ le_bytes 2 a @ hdr [3] @ pad 1 @ le_bytes 2 p"
| "entry_bytes (AreaMapSwap a b) = hdr [3, 1] @ le_bytes 2 a @ hdr [4] @ pad 1 @ le_bytes 2 b"
| "entry_bytes (ActiveArea t a) = hdr [3, 2, area_type_code t] @ pad 1 @ le_bytes 2 a"
| "entry_bytes (UsedAreas n) = hdr [3, 3] @ le_bytes 2 n"
| "entry_bytes (InitAreaAs a t) = hdr [4] @ pad 1 @ le_bytes 2 a @ hdr [0, area_type_code t]"
| "entry_bytes (CloseArea a) = hdr [4] @ pad 1 @ le_bytes 2 a @ hdr [1] @ pad 1"
| "entry_bytes (RetireArea a) = hdr [4] @ pad 1 @ le_bytes 2 a @ hdr [2] @ pad 1"
| "entry_bytes (DeleteAreaContents a b) =
     hdr [4] @ pad 1 @ le_bytes 2 a @ hdr [3] @ pad 1 @ le_bytes 2 b"
| "entry_bytes (DeleteArea a) = hdr [4] @ pad 1 @ le_bytes 2 a @ hdr [4] @ pad 1"
| "entry_bytes (MoveValidData a) = hdr [5, 0] @ le_bytes 2 a"
| "entry_bytes (SummaryCommit a) = hdr [6] @ pad 1 @ le_bytes 2 a @ hdr [0] @ pad 1"
| "entry_bytes (SummaryRemove a) = hdr [6] @ pad 1 @ le_bytes 2 a @ hdr [1] @ pad 1"
| "entry_bytes (SummaryResetASWritten a) = hdr [6] @ pad 1 @ le_bytes 2 a @ hdr [2] @ pad 1"
| "entry_bytes (SummarySetStatus a p e) =
     hdr [6] @ pad 1 @ le_bytes 2 a @ hdr [3] @ pad 1 @ le_bytes 2 p @
     [summary_code e] @ pad 1"
| "entry_bytes (SummarySetStatusBlock a bs) =
     hdr [6] @ pad 1 @ le_bytes 2 a @ hdr [4] @ bs @ pad ((5 + length bs) mod 2)"
| "entry_bytes (TreeInsert n) = hdr [7, 0] @ pad 6 @ inode_bytes n"
| "entry_bytes (TreeUpdate n) = hdr [7, 1] @ pad 6 @ inode_bytes n"
| "entry_bytes (TreeRemove no) = hdr [7, 2] @ pad 2 @ le_bytes 4 no"
| "entry_bytes (PacSetAddress no p a) =
     hdr [9, 0] @ pad 2 @ le_bytes 4 no @ le_bytes 2 p @ pad 2 @ le_bytes 4 (unat a)"
| "entry_bytes (NewInodeSize no sz) = hdr [8, 0] @ pad 2 @ le_bytes 4 no @ le_bytes 4 sz"
| "entry_bytes (MkObjInode no) = hdr [10, 0] @ pad 2 @ le_bytes 4 no"
| "entry_bytes (InsertIntoDir no) = hdr [10, 1] @ pad 2 @ le_bytes 4 no"
| "entry_bytes (RemoveObj ob par) = hdr [10, 2] @ pad 2 @ le_bytes 4 ob @ le_bytes 4 par"

text \<open>
  \<^verbatim>\<open>getSizeFromJE\<close>. The case of \<^verbatim>\<open>areaMap::Position\<close> returns the size of \<^verbatim>\<open>areaMap::Type\<close>,
  as the source does. \<open>n\<close> is the number of data pages per area.
\<close>

definition tbl_struct_size :: "nat \<Rightarrow> nat" where
  "tbl_struct_size n = (let k = 5 + TwoBitList_byteUsage n in k + k mod 2)"

fun getSizeFromJE :: "nat \<Rightarrow> Entry \<Rightarrow> nat" where
  "getSizeFromJE n (Checkpoint _) = 2"
| "getSizeFromJE n (ReplacePage _ _ _) = 12"
| "getSizeFromJE n (ReplacePagePos _ _ _ _ _) = 20"
| "getSizeFromJE n (Success _) = 3"
| "getSizeFromJE n (InvalidateOldPages _) = 3"
| "getSizeFromJE n (Rootnode _) = 8"
| "getSizeFromJE n (AreaMapType _ _) = 6"
| "getSizeFromJE n (AreaMapStatus _ _) = 6"
| "getSizeFromJE n (AreaMapIncreaseErasecount _) = 6"
| "getSizeFromJE n (AreaMapPosition _ _) = 6"
| "getSizeFromJE n (AreaMapSwap _ _) = 8"
| "getSizeFromJE n (ActiveArea _ _) = 6"
| "getSizeFromJE n (UsedAreas _) = 4"
| "getSizeFromJE n (InitAreaAs _ _) = 6"
| "getSizeFromJE n (CloseArea _) = 6"
| "getSizeFromJE n (RetireArea _) = 6"
| "getSizeFromJE n (DeleteAreaContents _ _) = 8"
| "getSizeFromJE n (DeleteArea _) = 6"
| "getSizeFromJE n (MoveValidData _) = 4"
| "getSizeFromJE n (SummaryCommit _) = 6"
| "getSizeFromJE n (SummaryRemove _) = 6"
| "getSizeFromJE n (SummaryResetASWritten _) = 6"
| "getSizeFromJE n (SummarySetStatus _ _ _) = 10"
| "getSizeFromJE n (SummarySetStatusBlock _ _) = tbl_struct_size n"
| "getSizeFromJE n (TreeInsert _) = 96"
| "getSizeFromJE n (TreeUpdate _) = 96"
| "getSizeFromJE n (TreeRemove _) = 8"
| "getSizeFromJE n (PacSetAddress _ _ _) = 16"
| "getSizeFromJE n (NewInodeSize _ _) = 12"
| "getSizeFromJE n (MkObjInode _) = 8"
| "getSizeFromJE n (InsertIntoDir _) = 8"
| "getSizeFromJE n (RemoveObj _ _) = 12"

text \<open>\<^verbatim>\<open>sizeof(journalEntry::Max)\<close>: the largest member, rounded up to eight bytes.\<close>

definition sizeof_Max :: "nat \<Rightarrow> nat" where
  "sizeof_Max n = (let k = max 96 (tbl_struct_size n) in (k + 7) div 8 * 8)"

subsection \<open>Reading an entry back\<close>

definition rd :: "byte list \<Rightarrow> nat \<Rightarrow> nat \<Rightarrow> nat" where
  "rd bs off w = le_value (take w (drop off bs))"

text \<open>
  \<^verbatim>\<open>getSizeFromMax\<close>, which applies \<^verbatim>\<open>getSizeFromJE\<close> to bytes that were read: the topic and the kind of
  entry decide; an unknown topic or kind has the size 0.
\<close>

definition kind_size :: "nat list \<Rightarrow> nat \<Rightarrow> nat" where
  "kind_size sizes k = (if k < length sizes then sizes ! k else 0)"

definition getSizeFromMax :: "nat \<Rightarrow> byte list \<Rightarrow> nat" where
  "getSizeFromMax n bs =
     (if rd bs 0 1 = 1 then 2
      else if rd bs 0 1 = 2 then kind_size [12, 20, 3, 3] (rd bs 2 1)
      else if rd bs 0 1 = 3 then
        (if rd bs 1 1 = 1 then kind_size [6, 6, 6, 6, 8] (rd bs 4 1) else kind_size [8, 0, 6, 4] (rd bs 1 1))
      else if rd bs 0 1 = 4 then kind_size [6, 6, 6, 8, 6] (rd bs 4 1)
      else if rd bs 0 1 = 5 then kind_size [4] (rd bs 1 1)
      else if rd bs 0 1 = 6 then kind_size [6, 6, 6, 10, tbl_struct_size n] (rd bs 4 1)
      else if rd bs 0 1 = 7 then kind_size [96, 96, 8] (rd bs 1 1)
      else if rd bs 0 1 = 8 then kind_size [12] (rd bs 1 1)
      else if rd bs 0 1 = 9 then kind_size [16] (rd bs 1 1)
      else if rd bs 0 1 = 10 then kind_size [8, 8, 12] (rd bs 1 1)
      else 0)"

text \<open>
  The members of an entry. The code checks none of them: an enumeration that was read may hold a
  byte that is not one of its constants. Such an entry has no value here, and the parsers answer
  \<open>None\<close> for it; they do so, too, for the entries that the code refuses because their size is 0.
\<close>

fun topic_of :: "nat \<Rightarrow> Topic option" where
  "topic_of c =
     (if c = 0 then Some Tp_invalid else if c = 1 then Some Tp_checkpoint
      else if c = 2 then Some Tp_pagestate else if c = 3 then Some Tp_superblock
      else if c = 4 then Some Tp_areaMgmt else if c = 5 then Some Tp_garbage
      else if c = 6 then Some Tp_summaryCache else if c = 7 then Some Tp_tree
      else if c = 8 then Some Tp_dataIO else if c = 9 then Some Tp_pac
      else if c = 10 then Some Tp_device else None)"

fun area_type_of :: "nat \<Rightarrow> AreaType option" where
  "area_type_of c =
     (if c = 0 then Some T_unset else if c = 1 then Some T_superblock
      else if c = 2 then Some T_journal else if c = 3 then Some T_index
      else if c = 4 then Some T_data else if c = 5 then Some T_garbageBuffer
      else if c = 6 then Some T_retired else if c = 7 then Some T_no else None)"

fun area_status_of :: "nat \<Rightarrow> AreaStatus option" where
  "area_status_of c =
     (if c = 0 then Some S_closed else if c = 1 then Some S_active
      else if c = 2 then Some S_empty else None)"

fun inode_type_of :: "nat \<Rightarrow> InodeType option" where
  "inode_type_of c =
     (if c = 0 then Some I_file else if c = 1 then Some I_dir
      else if c = 2 then Some I_lnk else None)"

declare topic_of.simps [simp del] area_type_of.simps [simp del]
  area_status_of.simps [simp del] inode_type_of.simps [simp del]

lemma topic_of_code [simp]: "topic_of (topic_code t) = Some t"
  by (cases t) (simp_all add: topic_of.simps)

lemma area_type_of_code [simp]: "area_type_of (area_type_code t) = Some t"
  by (cases t) (simp_all add: area_type_of.simps)

lemma area_status_of_code [simp]: "area_status_of (area_status_code t) = Some t"
  by (cases t) (simp_all add: area_status_of.simps)

lemma inode_type_of_code [simp]: "inode_type_of (inode_type_code t) = Some t"
  by (cases t) (simp_all add: inode_type_of.simps)

definition parse_inode :: "byte list \<Rightarrow> Inode option" where
  "parse_inode bs =
     map_option (\<lambda>t. \<lparr>i_no = rd bs 0 4, i_type = t, i_perm = rd bs 5 1 mod 8,
       i_reservedPages = rd bs 6 2, i_size = rd bs 8 4, i_crea = rd bs 16 8, i_mod = rd bs 24 8,
       i_direct = map (\<lambda>k. of_nat (rd bs (32 + 4 * k) 4)) [0 ..< directAddrCount],
       i_indir = of_nat (rd bs 76 4), i_d_indir = of_nat (rd bs 80 4),
       i_t_indir = of_nat (rd bs 84 4)\<rparr>) (inode_type_of (rd bs 4 1))"

definition parse_pagestate :: "byte list \<Rightarrow> Entry option" where
  "parse_pagestate bs =
     (case topic_of (rd bs 1 1) of None \<Rightarrow> None
      | Some t \<Rightarrow>
        if rd bs 2 1 = 0 then Some (ReplacePage t (of_nat (rd bs 4 4)) (of_nat (rd bs 8 4)))
        else if rd bs 2 1 = 1 then
          Some (ReplacePagePos t (of_nat (rd bs 4 4)) (of_nat (rd bs 8 4)) (rd bs 12 4) (rd bs 16 4))
        else if rd bs 2 1 = 2 then Some (Success t)
        else if rd bs 2 1 = 3 then Some (InvalidateOldPages t)
        else None)"

definition parse_superblock :: "byte list \<Rightarrow> Entry option" where
  "parse_superblock bs =
     (if rd bs 1 1 = 0 then Some (Rootnode (of_nat (rd bs 4 4)))
      else if rd bs 1 1 = 1 then
        (if rd bs 4 1 = 0 then map_option (AreaMapType (rd bs 2 2)) (area_type_of (rd bs 5 1))
         else if rd bs 4 1 = 1 then
           map_option (AreaMapStatus (rd bs 2 2)) (area_status_of (rd bs 5 1))
         else if rd bs 4 1 = 2 then Some (AreaMapIncreaseErasecount (rd bs 2 2))
         else if rd bs 4 1 = 3 then Some (AreaMapPosition (rd bs 2 2) (rd bs 6 2))
         else if rd bs 4 1 = 4 then Some (AreaMapSwap (rd bs 2 2) (rd bs 6 2))
         else None)
      else if rd bs 1 1 = 2 then
        map_option (\<lambda>t. ActiveArea t (rd bs 4 2)) (area_type_of (rd bs 2 1))
      else if rd bs 1 1 = 3 then Some (UsedAreas (rd bs 2 2))
      else None)"

definition parse_areaMgmt :: "byte list \<Rightarrow> Entry option" where
  "parse_areaMgmt bs =
     (if rd bs 4 1 = 0 then map_option (InitAreaAs (rd bs 2 2)) (area_type_of (rd bs 5 1))
      else if rd bs 4 1 = 1 then Some (CloseArea (rd bs 2 2))
      else if rd bs 4 1 = 2 then Some (RetireArea (rd bs 2 2))
      else if rd bs 4 1 = 3 then Some (DeleteAreaContents (rd bs 2 2) (rd bs 6 2))
      else if rd bs 4 1 = 4 then Some (DeleteArea (rd bs 2 2))
      else None)"

definition parse_summaryCache :: "nat \<Rightarrow> byte list \<Rightarrow> Entry option" where
  "parse_summaryCache n bs =
     (if rd bs 4 1 = 0 then Some (SummaryCommit (rd bs 2 2))
      else if rd bs 4 1 = 1 then Some (SummaryRemove (rd bs 2 2))
      else if rd bs 4 1 = 2 then Some (SummaryResetASWritten (rd bs 2 2))
      else if rd bs 4 1 = 3 then
        (if rd bs 8 1 < 4
         then Some (SummarySetStatus (rd bs 2 2) (rd bs 6 2) (summary_of (of_nat (rd bs 8 1)))) else None)
      else if rd bs 4 1 = 4 then
        Some (SummarySetStatusBlock (rd bs 2 2) (take (TwoBitList_byteUsage n) (drop 5 bs)))
      else None)"

definition parse_entry :: "nat \<Rightarrow> byte list \<Rightarrow> Entry option" where
  "parse_entry n bs =
     (if rd bs 0 1 = 1 then map_option Checkpoint (topic_of (rd bs 1 1))
      else if rd bs 0 1 = 2 then parse_pagestate bs
      else if rd bs 0 1 = 3 then parse_superblock bs
      else if rd bs 0 1 = 4 then parse_areaMgmt bs
      else if rd bs 0 1 = 5 then
        (if rd bs 1 1 = 0 then Some (MoveValidData (rd bs 2 2)) else None)
      else if rd bs 0 1 = 6 then parse_summaryCache n bs
      else if rd bs 0 1 = 7 then
        (if rd bs 1 1 = 0 then map_option TreeInsert (parse_inode (drop 8 bs))
         else if rd bs 1 1 = 1 then map_option TreeUpdate (parse_inode (drop 8 bs))
         else if rd bs 1 1 = 2 then Some (TreeRemove (rd bs 4 4))
         else None)
      else if rd bs 0 1 = 8 then
        (if rd bs 1 1 = 0 then Some (NewInodeSize (rd bs 4 4) (rd bs 8 4)) else None)
      else if rd bs 0 1 = 9 then
        (if rd bs 1 1 = 0 then Some (PacSetAddress (rd bs 4 4) (rd bs 8 2) (of_nat (rd bs 12 4)))
         else None)
      else if rd bs 0 1 = 10 then
        (if rd bs 1 1 = 0 then Some (MkObjInode (rd bs 4 4))
         else if rd bs 1 1 = 1 then Some (InsertIntoDir (rd bs 4 4))
         else if rd bs 1 1 = 2 then Some (RemoveObj (rd bs 4 4) (rd bs 8 4))
         else None)
      else None)"

section \<open>The codec\<close>

text \<open>
  Reading a journal entry back from memory: \<open>parse_entry\<close> recovers every entry from its
  object representation, whatever bytes follow. The journal copies only \<open>getSizeFromJE\<close>
  bytes of an entry, which is its whole representation for all entries but
  \<^verbatim>\<open>areaMap::Position\<close>.
\<close>

declare le_bytes.simps [simp del]

lemma length_le_bytes [simp]: "length (le_bytes k v) = k"
  by (induction k arbitrary: v) (auto simp: le_bytes.simps)

lemma length_pad [simp]: "length (pad n) = n"
  by (simp add: pad_def)

lemma length_hdr [simp]: "length (hdr xs) = length xs"
  by (induction xs) (auto simp: hdr_def)

lemma unat_of_nat_byte: "unat (of_nat v :: byte) = v mod 256"
  by (simp add: unat_of_nat)

lemma le_value_le_bytes: "le_value (le_bytes k v) = v mod 256 ^ k"
proof (induction k arbitrary: v)
  case 0
  then show ?case by (simp add: le_value_def le_bytes.simps)
next
  case (Suc k)
  have "v mod (256 * 256 ^ k) = 256 * (v div 256 mod 256 ^ k) + v mod 256"
    by (simp add: mod_mult2_eq)
  then show ?case using Suc [of "v div 256"] by (simp add: le_value_def unat_of_nat_byte le_bytes.simps)
qed

lemma rd_here: "rd (le_bytes k v @ rest) 0 k = v mod 256 ^ k"
  by (simp add: rd_def le_value_le_bytes)

lemma rd_skip: "length xs \<le> off \<Longrightarrow> rd (xs @ rest) off w = rd rest (off - length xs) w"
  by (simp add: rd_def)

lemma rd_drop: "rd (drop k bs) off w = rd bs (k + off) w"
  by (simp add: rd_def add.commute)

lemma hdr_Cons: "hdr (x # xs) = le_bytes 1 x @ hdr xs"
  by (simp add: hdr_def)

lemma hdr_Nil: "hdr [] = []"
  by (simp add: hdr_def)

lemmas rd_simps = rd_here rd_skip hdr_Cons hdr_Nil

lemma unat_addr_mod [simp]: "unat (a :: Addr) mod 4294967296 = unat a"
proof -
  have "unat a < 2 ^ LENGTH(32)" by (rule unsigned_less)
  then show ?thesis by simp
qed

lemma topic_code_mod [simp]: "topic_code t mod 256 = topic_code t"
  by (cases t) auto

lemma area_type_code_mod [simp]: "area_type_code t mod 256 = area_type_code t"
  by (cases t) auto

lemma area_status_code_mod [simp]: "area_status_code t mod 256 = area_status_code t"
  by (cases t) auto

lemma inode_type_code_mod [simp]: "inode_type_code t mod 256 = inode_type_code t"
  by (cases t) auto

subsection \<open>Well-formed entries\<close>

definition inode_ok :: "Inode \<Rightarrow> bool" where
  "inode_ok n \<longleftrightarrow> i_no n < 2 ^ 32 \<and> i_perm n < 8 \<and> i_reservedPages n < 2 ^ 16 \<and>
     i_size n < 2 ^ 32 \<and> i_crea n < 2 ^ 64 \<and> i_mod n < 2 ^ 64 \<and>
     length (i_direct n) = directAddrCount"

text \<open>The members are in the range of their C++ types; \<open>n\<close> is the number of data pages per area.\<close>

fun entry_ok :: "nat \<Rightarrow> Entry \<Rightarrow> bool" where
  "entry_ok n (ReplacePagePos t neu old nod pos) \<longleftrightarrow> nod < 2 ^ 32 \<and> pos < 2 ^ 32"
| "entry_ok n (AreaMapType a t) \<longleftrightarrow> a < 2 ^ 16"
| "entry_ok n (AreaMapStatus a t) \<longleftrightarrow> a < 2 ^ 16"
| "entry_ok n (AreaMapIncreaseErasecount a) \<longleftrightarrow> a < 2 ^ 16"
| "entry_ok n (AreaMapPosition a p) \<longleftrightarrow> a < 2 ^ 16 \<and> p < 2 ^ 16"
| "entry_ok n (AreaMapSwap a b) \<longleftrightarrow> a < 2 ^ 16 \<and> b < 2 ^ 16"
| "entry_ok n (ActiveArea t a) \<longleftrightarrow> a < 2 ^ 16"
| "entry_ok n (UsedAreas k) \<longleftrightarrow> k < 2 ^ 16"
| "entry_ok n (InitAreaAs a t) \<longleftrightarrow> a < 2 ^ 16"
| "entry_ok n (CloseArea a) \<longleftrightarrow> a < 2 ^ 16"
| "entry_ok n (RetireArea a) \<longleftrightarrow> a < 2 ^ 16"
| "entry_ok n (DeleteAreaContents a b) \<longleftrightarrow> a < 2 ^ 16 \<and> b < 2 ^ 16"
| "entry_ok n (DeleteArea a) \<longleftrightarrow> a < 2 ^ 16"
| "entry_ok n (MoveValidData a) \<longleftrightarrow> a < 2 ^ 16"
| "entry_ok n (SummaryCommit a) \<longleftrightarrow> a < 2 ^ 16"
| "entry_ok n (SummaryRemove a) \<longleftrightarrow> a < 2 ^ 16"
| "entry_ok n (SummaryResetASWritten a) \<longleftrightarrow> a < 2 ^ 16"
| "entry_ok n (SummarySetStatus a p e) \<longleftrightarrow> a < 2 ^ 16 \<and> p < 2 ^ 16"
| "entry_ok n (SummarySetStatusBlock a bs) \<longleftrightarrow> a < 2 ^ 16 \<and> length bs = TwoBitList_byteUsage n"
| "entry_ok n (TreeInsert nd) \<longleftrightarrow> inode_ok nd"
| "entry_ok n (TreeUpdate nd) \<longleftrightarrow> inode_ok nd"
| "entry_ok n (TreeRemove no) \<longleftrightarrow> no < 2 ^ 32"
| "entry_ok n (PacSetAddress no p a) \<longleftrightarrow> no < 2 ^ 32 \<and> p < 2 ^ 16"
| "entry_ok n (NewInodeSize no sz) \<longleftrightarrow> no < 2 ^ 32 \<and> sz < 2 ^ 32"
| "entry_ok n (MkObjInode no) \<longleftrightarrow> no < 2 ^ 32"
| "entry_ok n (InsertIntoDir no) \<longleftrightarrow> no < 2 ^ 32"
| "entry_ok n (RemoveObj a b) \<longleftrightarrow> a < 2 ^ 32 \<and> b < 2 ^ 32"
| "entry_ok n _ \<longleftrightarrow> True"

lemma length_addr_list: "length (concat (map (\<lambda>a. le_bytes 4 (unat (a :: Addr))) as)) = 4 * length as"
  by (induction as) auto

lemma rd_addr_list:
  "k < length as \<Longrightarrow>
   rd (concat (map (\<lambda>a. le_bytes 4 (unat (a :: Addr))) as) @ rest) (4 * k) 4 = unat (as ! k)"
proof (induction as arbitrary: k)
  case Nil
  then show ?case by simp
next
  case (Cons a as)
  then show ?case
    by (cases k) (simp_all add: rd_simps)
qed

lemma length_inode_bytes: "length (i_direct n) = 11 \<Longrightarrow> length (inode_bytes n) = 88"
  by (simp add: inode_bytes_def length_addr_list)

lemma parse_inode_bytes:
  assumes "inode_ok n"
  shows "parse_inode (inode_bytes n @ rest) = Some n"
proof -
  have len: "length (i_direct n) = 11" using assms by (simp add: inode_ok_def directAddrCount_def)
  have direct: "map (\<lambda>k. of_nat (rd (inode_bytes n @ rest) (32 + 4 * k) 4)) [0 ..< directAddrCount] = i_direct n"
    by (rule nth_equalityI)
      (simp_all add: len directAddrCount_def inode_bytes_def rd_simps rd_addr_list)
  show ?thesis
    using assms unfolding parse_inode_def direct
    by (simp add: inode_bytes_def rd_simps length_addr_list len inode_ok_def directAddrCount_def)
qed

lemma summary_code_val: "summary_of (of_nat (unat (summary_code e))) = e"
  by simp

lemma rd_byte: "rd (b # rest) 0 (Suc 0) = unat b"
  by (simp add: rd_def le_value_def)

lemma summary_code_less: "unat (summary_code e) < 4"
  by (cases e) simp_all

theorem parse_entry_bytes:
  assumes "entry_ok n e"
  shows "parse_entry n (entry_bytes e @ rest) = Some e"
  using assms
  by (cases e)
    (simp_all add: parse_entry_def parse_pagestate_def parse_superblock_def parse_areaMgmt_def
      parse_summaryCache_def rd_simps rd_byte rd_drop parse_inode_bytes summary_code_less)

lemma getSizeFromMax_bytes:
  "entry_ok n e \<Longrightarrow> getSizeFromMax n (entry_bytes e @ rest) = getSizeFromJE n e"
  by (cases e) (simp_all add: getSizeFromMax_def kind_size_def rd_simps rd_byte)

text \<open>An entry that has a value is one that the code accepts.\<close>

lemma parse_entry_size: "parse_entry n bs = Some e \<Longrightarrow> getSizeFromMax n bs = getSizeFromJE n e"
  by (auto simp: parse_entry_def parse_pagestate_def parse_superblock_def parse_areaMgmt_def parse_summaryCache_def
      getSizeFromMax_def kind_size_def split: if_splits option.splits)

subsection \<open>Sizes\<close>

lemma entry_bytes_length:
  "entry_ok n e \<Longrightarrow>
   length (entry_bytes e) = getSizeFromJE n e + (case e of AreaMapPosition _ _ \<Rightarrow> 2 | _ \<Rightarrow> 0)"
  by (cases e) (auto simp: length_inode_bytes inode_ok_def directAddrCount_def tbl_struct_size_def Let_def)

lemma getSize_le_Max: "getSizeFromJE n e \<le> sizeof_Max n"
proof -
  have "k \<le> (k + 7) div 8 * 8" for k :: nat by presburger
  from this [of "max 96 (tbl_struct_size n)"]
  have "96 \<le> sizeof_Max n \<and> tbl_struct_size n \<le> sizeof_Max n" by (simp add: sizeof_Max_def Let_def)
  then show ?thesis by (cases e) auto
qed

lemma getSize_pos: "0 < getSizeFromJE n e"
  by (cases e) (auto simp: tbl_struct_size_def Let_def)

lemma entry_bytes_take:
  assumes "entry_ok n e" and "\<And>a p. e \<noteq> AreaMapPosition a p"
  shows "take (getSizeFromJE n e) (entry_bytes e) = entry_bytes e"
proof (cases e)
  case (AreaMapPosition a p)
  then show ?thesis using assms(2) by blast
qed (insert entry_bytes_length [OF assms(1)], simp_all)

end
