(* ===== verification/DeviceState.thy ===== *)
theory DeviceState
  imports JournalEntries
begin

text \<open>
  The state of a mounted device: the fields of \<^verbatim>\<open>Device\<close> and of the component objects it
  owns, one record per component, and the memory behind the driver. The flash is reached
  only through the virtual functions of \<^verbatim>\<open>src/driver/driver.hpp\<close>, whose implementations
  drive hardware or an external simulation; they are parameters of the model, the members
  of \<open>env\<close>, over an arbitrary type of flash contents. The MRAM is byte-addressable memory,
  read and written as \<^verbatim>\<open>SimuDriver::readMRAM\<close> and \<^verbatim>\<open>writeMRAM\<close> do.
  Trace output and the fail points of the test bench are not modelled.
\<close>

subsection \<open>The driver\<close>

record 'f env = config +
  drv_readPage :: "PageAbs \<Rightarrow> nat \<Rightarrow> 'f \<Rightarrow> (Result \<times> byte list) \<times> 'f"
  drv_writePage :: "PageAbs \<Rightarrow> byte list \<Rightarrow> 'f \<Rightarrow> Result \<times> 'f"
  drv_eraseBlock :: "BlockAbs \<Rightarrow> 'f \<Rightarrow> Result \<times> 'f"
  drv_markBad :: "BlockAbs \<Rightarrow> 'f \<Rightarrow> Result \<times> 'f"
  drv_checkBad :: "BlockAbs \<Rightarrow> 'f \<Rightarrow> Result \<times> 'f"
  drv_initializeNand :: "'f \<Rightarrow> Result \<times> 'f"
  drv_deInitializeNand :: "'f \<Rightarrow> Result \<times> 'f"
  drv_pageBuffer :: "'f \<Rightarrow> byte list"   \<comment> \<open>what the shared page buffer holds\<close>
  sys_now :: "'f \<Rightarrow> nat"   \<comment> \<open>\<^verbatim>\<open>systemClock.now()\<close> in milliseconds\<close>

subsection \<open>Component states\<close>

text \<open>\<^verbatim>\<open>class Superblock\<close>: the area map and its counters, and the location of the super chain.\<close>

record superblock =
  mRootnodeAddr :: Addr
  mRootnodeDirty :: bool
  mMap :: "Area list"
  mActiveAreas :: "AreaPos list"
  mUsedAreas :: nat
  mOverallDeletions :: nat
  pathToSuperIndexDirect :: "Addr list"
  superChainIndexes :: "nat list"
  testmode :: bool

text \<open>\<^verbatim>\<open>class AreaSummaryElem\<close>: a cached area summary with its four status bits.\<close>

record AreaSummaryElem =
  mEntries :: "byte list"
  mStatusBits :: byte
  mArea :: AreaPos
  mDirtyPages :: nat

text \<open>\<^verbatim>\<open>union JournalEntryPosition\<close>: a position in the journal, flash address and offset.\<close>

record JournalEntryPosition =
  p_addr :: nat
  p_offs :: nat

text \<open>
  \<^verbatim>\<open>class SummaryCache\<close>. The hash map from area to cache position is an association list; its
  order stands for the iteration order of the hash map.
\<close>

record summary_cache =
  mSummaryCache :: "AreaSummaryElem list"
  mTranslation :: "(AreaPos \<times> nat) list"
  journalReplayMode :: bool
  firstUncommittedElem :: "JournalEntryPosition list"

text \<open>\<^verbatim>\<open>class Journal\<close> with its \<^verbatim>\<open>MramPersistence\<close>.\<close>

record journal =
  disabled :: bool
  uncheckpointedChanges :: "byte list"
  curr :: PageAbs

datatype ExternOp =
    Ex_none | Ex_setType | Ex_setStatus | Ex_setActiveArea | Ex_changeUsedAreas
  | Ex_increaseErasecount | Ex_resetASWritten | Ex_deleteSummary

record area_mgmt =
  mUnfinishedTransaction :: bool
  mLastOp :: "Entry option"
  mLastExternOp :: ExternOp

datatype GcState = Gc_ok | Gc_moveValidData | Gc_deletedOldArea | Gc_swappedPosition | Gc_setNewSummary

record garbage_coll =
  gc_state :: GcState
  journalTargetArea :: AreaPos
  journalTargetAreaType :: AreaType

text \<open>
  \<^verbatim>\<open>class PageStateMachine\<close>. The two lists have the fixed length \<open>maxPages\<close>; the template
  parameters are arguments of the operations.
\<close>

datatype JournalState = J_ok | J_invalid | J_recover

record psm =
  newPageList :: "Addr list"
  oldPageList :: "Addr list"
  psm_position :: "nat list"
  pageListHWM :: nat
  currentInode :: InodeNo
  journalState :: JournalState

text \<open>
  \<^verbatim>\<open>struct TreeNode\<close>. The key arrays of branch and leaf share the memory at the head of
  the union and are one list here, as long as the longer of the two; behind it the union
  holds the addresses of a branch or the inodes of a leaf.
\<close>

record TreeNode =
  n_key :: "InodeNo list"
  n_addr :: "Addr list"
  n_inode :: "Inode list"
  n_self :: Addr
  n_isLeaf :: bool
  n_keys :: nat

text \<open>\<^verbatim>\<open>struct TreeCacheNode\<close>: a pointer is the index of a node in the cache, \<open>None\<close> is null.\<close>

record TreeCacheNode =
  raw :: TreeNode
  parent :: "nat option"
  pointers :: "nat option list"
  n_dirty :: bool
  n_locked :: bool
  n_inheritedLock :: bool

record tree_cache =
  mCacheRoot :: nat
  mCache :: "TreeCacheNode list"
  mCacheUsage :: "byte list"
  tree_psm :: psm
  mCacheHits :: nat
  mCacheMisses :: nat
  mJournalIsRecovering :: bool

record btree =
  mJournalLastSuccess :: JournalEntryPosition
  mJournalIsEndOfLog :: bool

text \<open>
  \<^verbatim>\<open>class PageAddressCache\<close>. The target inode is a pointer into the inode memory of the device
  (below).
\<close>

record AddrListCacheElem =
  al_cache :: "Addr list"
  al_positionInParent :: nat
  al_dirty :: bool
  al_active :: bool

record page_cache =
  tripl :: "AddrListCacheElem list"
  doubl :: "AddrListCacheElem list"
  singl :: AddrListCacheElem
  mInodePtr :: "nat option"
  isInodeDirty :: bool
  pac_psm :: psm
  pac_foreignSuccess :: bool

record data_io =
  dio_psm :: psm
  journalLastSize :: FileSize
  journalInodeValid :: bool
  modifiedInode :: bool
  dio_foreignSuccess :: bool
  journalIsWriteTruncatePair :: bool

text \<open>
  The pools of \<^verbatim>\<open>class Device\<close>: objects in an array with a bit list of the active ones. The map of
  the inode pool is sorted by inode number and answers pointer and reference count; a file holds
  a reference to its inode. A \<open>SmartInodePtr\<close> is \<open>None\<close> or the pointer it holds.
\<close>

record Obj =
  rdnly :: bool
  o_no :: InodeNo
  o_node :: "nat option"
  o_name :: "byte list"
  o_fp :: FileSize

datatype DirState = D_ok | D_makeObj | D_insertObj | D_removeObj

record files =
  mounted :: bool
  useJournal :: bool
  activeInodes :: "byte list"
  inodeMap :: "(InodeNo \<times> nat \<times> nat) list"
  activeFiles :: "byte list"
  fileObjects :: "Obj list"
  targetInodeNo :: InodeNo
  folderInodeNo :: InodeNo
  dev_journalState :: DirState

text \<open>
  Inodes are passed around by reference, and the page address cache keeps a pointer to one: the
  inode memory maps a pointer to the object. Two members of other classes are at fixed places.
\<close>

definition mJournalInodeCopy :: nat where
  "mJournalInodeCopy = 0"

definition journalLastModifiedInode :: nat where
  "journalLastModifiedInode = 1"

text \<open>The objects of the inode pool, and behind them the two local inodes of \<open>Device::signalEndOfLog\<close>.\<close>

definition pool_ptr :: "nat \<Rightarrow> nat" where
  "pool_ptr i = i + 2"

definition local_obj :: "'a config_scheme \<Rightarrow> nat" where
  "local_obj E = maxNumberOfInodes E + 2"

definition local_folder :: "'a config_scheme \<Rightarrow> nat" where
  "local_folder E = maxNumberOfInodes E + 3"

record 'f dev =
  flash :: 'f
  mram :: "nat \<Rightarrow> byte"
  sb :: superblock
  sc :: summary_cache
  jr :: journal
  am :: area_mgmt
  gc :: garbage_coll
  lasterr :: Result
  readOnly :: bool
  tc :: tree_cache
  bt :: btree
  pac :: page_cache
  dio :: data_io
  inodeMem :: "nat \<Rightarrow> Inode"
  fls :: files

subsection \<open>Access to the hardware\<close>

definition readPage :: "'f env \<Rightarrow> PageAbs \<Rightarrow> nat \<Rightarrow> ('f dev, Result \<times> byte list) state" where
  "readPage E page n = State (\<lambda>s. let (x, f) = drv_readPage E page n (flash s) in (x, s\<lparr>flash := f\<rparr>))"

definition writePage :: "'f env \<Rightarrow> PageAbs \<Rightarrow> byte list \<Rightarrow> ('f dev, Result) state" where
  "writePage E page bs = State (\<lambda>s. let (x, f) = drv_writePage E page bs (flash s) in (x, s\<lparr>flash := f\<rparr>))"

definition eraseBlock :: "'f env \<Rightarrow> BlockAbs \<Rightarrow> ('f dev, Result) state" where
  "eraseBlock E b = State (\<lambda>s. let (x, f) = drv_eraseBlock E b (flash s) in (x, s\<lparr>flash := f\<rparr>))"

definition markBad :: "'f env \<Rightarrow> BlockAbs \<Rightarrow> ('f dev, Result) state" where
  "markBad E b = State (\<lambda>s. let (x, f) = drv_markBad E b (flash s) in (x, s\<lparr>flash := f\<rparr>))"

definition checkBad :: "'f env \<Rightarrow> BlockAbs \<Rightarrow> ('f dev, Result) state" where
  "checkBad E b = State (\<lambda>s. let (x, f) = drv_checkBad E b (flash s) in (x, s\<lparr>flash := f\<rparr>))"

definition initializeNand :: "'f env \<Rightarrow> ('f dev, Result) state" where
  "initializeNand E = State (\<lambda>s. let (x, f) = drv_initializeNand E (flash s) in (x, s\<lparr>flash := f\<rparr>))"

definition deInitializeNand :: "'f env \<Rightarrow> ('f dev, Result) state" where
  "deInitializeNand E = State (\<lambda>s. let (x, f) = drv_deInitializeNand E (flash s) in (x, s\<lparr>flash := f\<rparr>))"

definition writeMRAM :: "PageAbs \<Rightarrow> byte list \<Rightarrow> ('f dev, unit) state" where
  "writeMRAM start bs = modify (\<lambda>s. s\<lparr>mram := (\<lambda>i.
     if start \<le> i \<and> i < start + length bs then bs ! (i - start) else mram s i)\<rparr>)"

definition readMRAM :: "PageAbs \<Rightarrow> nat \<Rightarrow> ('f dev, byte list) state" where
  "readMRAM start n = gets (\<lambda>s. map (mram s) [start ..< start + n])"

text \<open>Statements that only talk to the flash keep everything that does not look at it.\<close>

lemma keeps_readPage [keeps_intros]:
  "(\<And>s f. I s \<Longrightarrow> I (s\<lparr>flash := f\<rparr>)) \<Longrightarrow> keeps I (readPage E p n)"
  by (auto simp: keeps_def readPage_def split: prod.splits)

lemma keeps_writePage [keeps_intros]:
  "(\<And>s f. I s \<Longrightarrow> I (s\<lparr>flash := f\<rparr>)) \<Longrightarrow> keeps I (writePage E p bs)"
  by (auto simp: keeps_def writePage_def split: prod.splits)

lemma keeps_eraseBlock [keeps_intros]:
  "(\<And>s f. I s \<Longrightarrow> I (s\<lparr>flash := f\<rparr>)) \<Longrightarrow> keeps I (eraseBlock E b)"
  by (auto simp: keeps_def eraseBlock_def split: prod.splits)

lemma keeps_markBad [keeps_intros]:
  "(\<And>s f. I s \<Longrightarrow> I (s\<lparr>flash := f\<rparr>)) \<Longrightarrow> keeps I (markBad E b)"
  by (auto simp: keeps_def markBad_def split: prod.splits)

lemma keeps_checkBad [keeps_intros]:
  "(\<And>s f. I s \<Longrightarrow> I (s\<lparr>flash := f\<rparr>)) \<Longrightarrow> keeps I (checkBad E b)"
  by (auto simp: keeps_def checkBad_def split: prod.splits)

lemma keeps_writeMRAM [keeps_intros]:
  "(\<And>s m. I s \<Longrightarrow> I (s\<lparr>mram := m\<rparr>)) \<Longrightarrow> keeps I (writeMRAM p bs)"
  by (simp add: keeps_def writeMRAM_def)

lemma keeps_readMRAM [keeps_intros]: "keeps I (readMRAM p n)"
  by (simp add: readMRAM_def keeps_gets)

text \<open>Projections of the state that the modify statements of the components do not touch.\<close>

definition set_sb :: "(superblock \<Rightarrow> superblock) \<Rightarrow> ('f dev, unit) state" where
  "set_sb f = modify (\<lambda>s. s\<lparr>sb := f (sb s)\<rparr>)"

definition set_sc :: "(summary_cache \<Rightarrow> summary_cache) \<Rightarrow> ('f dev, unit) state" where
  "set_sc f = modify (\<lambda>s. s\<lparr>sc := f (sc s)\<rparr>)"

definition set_jr :: "(journal \<Rightarrow> journal) \<Rightarrow> ('f dev, unit) state" where
  "set_jr f = modify (\<lambda>s. s\<lparr>jr := f (jr s)\<rparr>)"

definition set_tc :: "(tree_cache \<Rightarrow> tree_cache) \<Rightarrow> ('f dev, unit) state" where
  "set_tc f = modify (\<lambda>s. s\<lparr>tc := f (tc s)\<rparr>)"

definition set_pac :: "(page_cache \<Rightarrow> page_cache) \<Rightarrow> ('f dev, unit) state" where
  "set_pac f = modify (\<lambda>s. s\<lparr>pac := f (pac s)\<rparr>)"

definition set_dio :: "(data_io \<Rightarrow> data_io) \<Rightarrow> ('f dev, unit) state" where
  "set_dio f = modify (\<lambda>s. s\<lparr>dio := f (dio s)\<rparr>)"

definition set_fls :: "(files \<Rightarrow> files) \<Rightarrow> ('f dev, unit) state" where
  "set_fls f = modify (\<lambda>s. s\<lparr>fls := f (fls s)\<rparr>)"

definition set_inode :: "nat \<Rightarrow> (Inode \<Rightarrow> Inode) \<Rightarrow> ('f dev, unit) state" where
  "set_inode p f = modify (\<lambda>s. s\<lparr>inodeMem := (inodeMem s)(p := f (inodeMem s p))\<rparr>)"

definition set_lasterr :: "Result \<Rightarrow> ('f dev, unit) state" where
  "set_lasterr r = modify (\<lambda>s. s\<lparr>lasterr := r\<rparr>)"

lemma run_set_tc [simp]: "run_state (set_tc f) s = ((), s\<lparr>tc := f (tc s)\<rparr>)"
  by (simp add: set_tc_def)

lemma run_set_pac [simp]: "run_state (set_pac f) s = ((), s\<lparr>pac := f (pac s)\<rparr>)"
  by (simp add: set_pac_def)

lemma run_set_dio [simp]: "run_state (set_dio f) s = ((), s\<lparr>dio := f (dio s)\<rparr>)"
  by (simp add: set_dio_def)

lemma run_set_fls [simp]: "run_state (set_fls f) s = ((), s\<lparr>fls := f (fls s)\<rparr>)"
  by (simp add: set_fls_def)

lemma run_set_inode [simp]:
  "run_state (set_inode p f) s = ((), s\<lparr>inodeMem := (inodeMem s)(p := f (inodeMem s p))\<rparr>)"
  by (simp add: set_inode_def)

lemma run_set_sb [simp]: "run_state (set_sb f) s = ((), s\<lparr>sb := f (sb s)\<rparr>)"
  by (simp add: set_sb_def)

lemma run_set_sc [simp]: "run_state (set_sc f) s = ((), s\<lparr>sc := f (sc s)\<rparr>)"
  by (simp add: set_sc_def)

lemma run_set_jr [simp]: "run_state (set_jr f) s = ((), s\<lparr>jr := f (jr s)\<rparr>)"
  by (simp add: set_jr_def)

lemma wp_set_sb [simp]: "wp (set_sb f) Q = (\<lambda>s. Q () (s\<lparr>sb := f (sb s)\<rparr>))"
  by (rule ext) (simp add: wp_def)

lemma wp_set_sc [simp]: "wp (set_sc f) Q = (\<lambda>s. Q () (s\<lparr>sc := f (sc s)\<rparr>))"
  by (rule ext) (simp add: wp_def)

lemma wp_set_jr [simp]: "wp (set_jr f) Q = (\<lambda>s. Q () (s\<lparr>jr := f (jr s)\<rparr>))"
  by (rule ext) (simp add: wp_def)

lemma keeps_set_sb [keeps_intros]:
  "(\<And>s. I s \<Longrightarrow> I (s\<lparr>sb := f (sb s)\<rparr>)) \<Longrightarrow> keeps I (set_sb f)"
  by (simp add: keeps_def)

lemma keeps_set_sc [keeps_intros]:
  "(\<And>s. I s \<Longrightarrow> I (s\<lparr>sc := f (sc s)\<rparr>)) \<Longrightarrow> keeps I (set_sc f)"
  by (simp add: keeps_def)

lemma keeps_set_jr [keeps_intros]:
  "(\<And>s. I s \<Longrightarrow> I (s\<lparr>jr := f (jr s)\<rparr>)) \<Longrightarrow> keeps I (set_jr f)"
  by (simp add: keeps_def)

end
