(* ===== verification/JournalLog.thy ===== *)
theory JournalLog
  imports DeviceState
begin

text \<open>
  \<^verbatim>\<open>src/journal.cpp\<close> (the recording side), \<^verbatim>\<open>src/journalPersistences.cpp\<close> (the MRAM) and the
  positions of \<^verbatim>\<open>src/journalPersistence.hpp\<close>. An entry is appended as the bytes of its object;
  the first four bytes of the MRAM hold the end of the log.
\<close>

subsection \<open>Positions\<close>

definition pos_of :: "PageAbs \<Rightarrow> JournalEntryPosition" where
  "pos_of offs = \<lparr>p_addr = offs, p_offs = 0\<rparr>"

text \<open>\<^verbatim>\<open>Flash::operator<\<close>: the second branch compares the offset with the other address.\<close>

definition pos_less :: "JournalEntryPosition \<Rightarrow> JournalEntryPosition \<Rightarrow> bool" where
  "pos_less a b =
     (if p_addr a = p_addr b then p_offs a < p_addr b else p_addr a < p_addr b)"

definition pos_ge :: "JournalEntryPosition \<Rightarrow> JournalEntryPosition \<Rightarrow> bool" where
  "pos_ge a b = (\<not> pos_less a b)"

subsection \<open>MramPersistence\<close>

definition mram_rewind :: "('f dev, Result) state" where
  "mram_rewind = do { set_jr (\<lambda>j. j\<lparr>curr := 4\<rparr>); ret R_ok }"

definition mram_seek :: "JournalEntryPosition \<Rightarrow> ('f dev, Result) state" where
  "mram_seek addr = do { set_jr (\<lambda>j. j\<lparr>curr := p_addr addr\<rparr>); ret R_ok }"

definition mram_tell :: "'f dev \<Rightarrow> JournalEntryPosition" where
  "mram_tell s = pos_of (curr (jr s))"

definition isLowMem :: "'f env \<Rightarrow> journal \<Rightarrow> bool" where
  "isLowMem E j =
     (if mramSize E = 0 then False
      else (2 ^ 32 + mramSize E - curr j) mod 2 ^ 32 < reservedLogsize E)"

definition appendEntry :: "'f env \<Rightarrow> Entry \<Rightarrow> ('f dev, Result) state" where
  "appendEntry E e = do {
     c \<leftarrow> gets (\<lambda>s. curr (jr s));
     if c + sizeof_Max (dataPagesPerArea E) > mramSize E then ret R_noSpace
     else do {
       let size = getSizeFromJE (dataPagesPerArea E) e;
       writeMRAM c (take size (entry_bytes e));
       set_jr (\<lambda>j. j\<lparr>curr := c + size\<rparr>);
       writeMRAM 0 (le_bytes 4 (c + size));
       low \<leftarrow> gets (\<lambda>s. isLowMem E (jr s));
       ret (if low then R_lowMem else R_ok)
     }
   }"

definition mram_clear :: "('f dev, Result) state" where
  "mram_clear = do {
     set_jr (\<lambda>j. j\<lparr>curr := 4\<rparr>);
     writeMRAM 0 (le_bytes 4 4);
     ret R_ok
   }"

text \<open>
  The answer \<open>(R_ok, None)\<close>: the code accepts the entry, and one of its members is not a constant of
  its enumeration.
\<close>

definition readNextElem :: "'f env \<Rightarrow> ('f dev, Result \<times> Entry option) state" where
  "readNextElem E = do {
     h \<leftarrow> readMRAM 0 4;
     c \<leftarrow> gets (\<lambda>s. curr (jr s));
     let hwm = le_value h;
     if hwm = 2 ^ 32 - 1 \<or> c \<ge> hwm then ret (R_notFound, None)
     else do {
       bs \<leftarrow> readMRAM c (sizeof_Max (dataPagesPerArea E));
       let size = getSizeFromMax (dataPagesPerArea E) bs;
       if size = 0 then ret (R_fail, None)
       else do {
         set_jr (\<lambda>j. j\<lparr>curr := c + size\<rparr>);
         ret (R_ok, parse_entry (dataPagesPerArea E) bs)
       }
     }
   }"

subsection \<open>Journal: recording\<close>

definition registered_topics :: "Topic list" where
  "registered_topics =
     [Tp_superblock, Tp_areaMgmt, Tp_garbage, Tp_summaryCache, Tp_tree, Tp_dataIO, Tp_pac, Tp_device]"

definition mark_all_topics :: "byte list \<Rightarrow> byte list" where
  "mark_all_topics l = fold (\<lambda>t. setBit numberOfTopics (topic_code t)) registered_topics l"

definition addEvent :: "'f env \<Rightarrow> Entry \<Rightarrow> ('f dev, Result) state" where
  "addEvent E e = do {
     dis \<leftarrow> gets (\<lambda>s. disabled (jr s));
     if dis \<or> mramSize E = 0 then ret R_ok
     else do {
       unc \<leftarrow> gets (\<lambda>s. uncheckpointedChanges (jr s));
       if (case e of Checkpoint t \<Rightarrow> getBit numberOfTopics (topic_code t) unc | _ \<Rightarrow> True)
       then do {
         r \<leftarrow> appendEntry E e;
         if r = R_noSpace then ret R_noSpace
         else if r \<noteq> R_lowMem \<and> r \<noteq> R_ok then ret r
         else do {
           set_jr (\<lambda>j. j\<lparr>uncheckpointedChanges :=
             (case e of
                Checkpoint t \<Rightarrow> resetBit numberOfTopics (topic_code t) (uncheckpointedChanges j)
              | _ \<Rightarrow> setBit numberOfTopics (topic_code (entry_target e)) (uncheckpointedChanges j))\<rparr>);
           ret (if r = R_lowMem then R_lowMem else R_ok)
         }
       }
       else do {
         low \<leftarrow> gets (\<lambda>s. isLowMem E (jr s));
         ret (if low then R_lowMem else R_ok)
       }
     }
   }"

definition journal_clear :: "'f env \<Rightarrow> ('f dev, Result) state" where
  "journal_clear E = do {
     set_jr (\<lambda>j. j\<lparr>disabled := False,
       uncheckpointedChanges := mark_all_topics (uncheckpointedChanges j)\<rparr>);
     if mramSize E = 0 then ret R_ok else mram_clear
   }"

definition journal_disable :: "('f dev, unit) state" where
  "journal_disable = set_jr (\<lambda>j. j\<lparr>disabled := True\<rparr>)"

definition journal_enable :: "'f env \<Rightarrow> ('f dev, Result) state" where
  "journal_enable E = do {
     set_jr (\<lambda>j. j\<lparr>disabled := False\<rparr>);
     if mramSize E = 0 then ret R_ok
     else do {
       set_jr (\<lambda>j. j\<lparr>uncheckpointedChanges := mark_all_topics (uncheckpointedChanges j)\<rparr>);
       mram_rewind
     }
   }"

definition isEnabled :: "'f dev \<Rightarrow> bool" where
  "isEnabled s = (\<not> disabled (jr s))"

subsection \<open>Events touch the journal and the MRAM only\<close>

lemma keeps_appendEntry:
  assumes "\<And>s m. I s \<Longrightarrow> I (s\<lparr>mram := m\<rparr>)" and "\<And>s j. I s \<Longrightarrow> I (s\<lparr>jr := j\<rparr>)"
  shows "keeps I (appendEntry E e)"
  unfolding appendEntry_def
  by (intro keeps_intros) (auto intro: assms)

lemma keeps_addEvent [keeps_intros]:
  assumes "\<And>s m. I s \<Longrightarrow> I (s\<lparr>mram := m\<rparr>)" and "\<And>s j. I s \<Longrightarrow> I (s\<lparr>jr := j\<rparr>)"
  shows "keeps I (addEvent E e)"
  unfolding addEvent_def
  by (intro keeps_intros keeps_appendEntry) (auto intro: assms)

text \<open>The state after an event; everything but the MRAM and the journal is as before.\<close>

definition log_event :: "'f env \<Rightarrow> Entry \<Rightarrow> 'f dev \<Rightarrow> 'f dev" where
  "log_event E e s = snd (run_state (addEvent E e) s)"

lemma log_event_proj:
  assumes "\<And>s m. p (s\<lparr>mram := m\<rparr>) = p s" and "\<And>s j. p (s\<lparr>jr := j\<rparr>) = p s"
  shows "p (log_event E e s) = p s"
  using keeps_snd [OF keeps_addEvent [of "\<lambda>u. p u = p s"]] assms by (simp add: log_event_def)

lemma log_event_frame [simp]:
  "flash (log_event E e s) = flash s"
  "sb (log_event E e s) = sb s"
  "sc (log_event E e s) = sc s"
  "am (log_event E e s) = am s"
  "gc (log_event E e s) = gc s"
  "lasterr (log_event E e s) = lasterr s"
  "readOnly (log_event E e s) = readOnly s"
  by (simp_all add: log_event_proj)

text \<open>An event whose result the caller ignores, as all callers but the device do.\<close>

definition add_event :: "'f env \<Rightarrow> Entry \<Rightarrow> ('f dev, unit) state" where
  "add_event E e = do { _ \<leftarrow> addEvent E e; ret () }"

lemma run_add_event [simp]: "run_state (add_event E e) s = ((), log_event E e s)"
  by (simp add: add_event_def log_event_def split: prod.splits)

lemma wp_add_event [simp]: "wp (add_event E e) Q = (\<lambda>s. Q () (log_event E e s))"
  by (rule ext) (simp add: wp_def)

text \<open>
  An event changes the MRAM and the journal, and not even those when the journal is disabled;
  \<open>ev_frame\<close> says of an invariant that it does not depend on what an event changes.
\<close>

definition ev_frame :: "('f dev \<Rightarrow> bool) \<Rightarrow> bool" where
  "ev_frame I \<longleftrightarrow> (\<forall>s m j. I s \<longrightarrow> \<not> disabled (jr s) \<longrightarrow> I (s\<lparr>mram := m, jr := j\<rparr>))"

lemma log_event_disabled [simp]: "disabled (jr s) \<Longrightarrow> log_event E e s = s"
  by (simp add: log_event_def addEvent_def)

lemma log_event_form: "\<exists>m j. log_event E e s = s\<lparr>mram := m, jr := j\<rparr>"
proof -
  let ?P = "\<lambda>u. s\<lparr>mram := mram u, jr := jr u\<rparr> = u"
  have "keeps ?P (addEvent E e)"
    by (rule keeps_addEvent; drule sym; erule ssubst; simp)
  then have "?P (log_event E e s)" unfolding log_event_def by (rule keeps_snd) simp
  then show ?thesis by metis
qed

lemma keeps_add_event [keeps_intros]: "ev_frame I \<Longrightarrow> keeps I (add_event E e)"
  unfolding keeps_def ev_frame_def by (metis log_event_disabled log_event_form run_add_event snd_conv)

lemma ev_frameI:
  assumes "\<And>s m. I s \<Longrightarrow> I (s\<lparr>mram := m\<rparr>)" and "\<And>s j. I s \<Longrightarrow> I (s\<lparr>jr := j\<rparr>)"
  shows "ev_frame I"
  unfolding ev_frame_def by (auto intro: assms)

lemma ev_frame_sb [simp, intro!]: "ev_frame (\<lambda>s. P (sb s))"
  by (rule ev_frameI) simp_all

lemma ev_frame_sb_eq [simp]: "ev_frame (\<lambda>s. sb s = B)"
  by (rule ev_frameI) simp_all

end
