(* ===== verification/SuperblockMap.thy ===== *)
theory SuperblockMap
  imports JournalLog
begin

text \<open>
  The area map of \<^verbatim>\<open>src/superblock.cpp\<close>: the getters and setters of an area's type, status,
  erase count and position, the active areas, the counters, \<open>swapAreaPosition\<close>, the replay
  hook \<open>preScan\<close>, and the address translation of \<^verbatim>\<open>src/area.cpp\<close> that reads it. Every setter
  records a journal entry before it changes the map. A setter is characterised by the pure
  function that it applies to the superblock (\<open>upd_area\<close> and its companions); the invariant
  \<open>sb_inv\<close> of the area map is stated over those.
\<close>

subsection \<open>Getters\<close>

definition getRootnodeAddr :: "superblock \<Rightarrow> Addr" where
  "getRootnodeAddr B = mRootnodeAddr B"

definition getType :: "'f env \<Rightarrow> superblock \<Rightarrow> AreaPos \<Rightarrow> AreaType" where
  "getType E B area = (if area \<ge> areasNo E then T_no else a_type (mMap B ! area))"

definition getStatus :: "'f env \<Rightarrow> superblock \<Rightarrow> AreaPos \<Rightarrow> AreaStatus" where
  "getStatus E B area = (if area \<ge> areasNo E then S_active else a_status (mMap B ! area))"

definition getErasecount :: "'f env \<Rightarrow> superblock \<Rightarrow> AreaPos \<Rightarrow> nat" where
  "getErasecount E B area = (if area \<ge> areasNo E then 0 else a_erasecount (mMap B ! area))"

definition getPos :: "'f env \<Rightarrow> superblock \<Rightarrow> AreaPos \<Rightarrow> AreaPos" where
  "getPos E B area = (if area \<ge> areasNo E then 0 else a_position (mMap B ! area))"

definition getActiveArea :: "superblock \<Rightarrow> AreaType \<Rightarrow> AreaPos" where
  "getActiveArea B t = (if t = T_no then 0 else mActiveAreas B ! area_type_code t)"

definition getUsedAreas :: "superblock \<Rightarrow> nat" where
  "getUsedAreas B = mUsedAreas B"

definition getOverallDeletions :: "superblock \<Rightarrow> nat" where
  "getOverallDeletions B = mOverallDeletions B"

text \<open>\<^verbatim>\<open>getPageNumber\<close> answers 0 for an address it calls out of range.\<close>

definition getPageNumber :: "'f env \<Rightarrow> superblock \<Rightarrow> Addr \<Rightarrow> PageAbs" where
  "getPageNumber E B addr =
     (if extractLogicalArea addr \<ge> areasNo E then 0
      else let page = getPos E B (extractLogicalArea addr) * totalPagesPerArea E + extractPageOffs addr
           in if page > areasNo E * totalPagesPerArea E then 0 else page)"

definition getBlockNumber :: "'f env \<Rightarrow> superblock \<Rightarrow> Addr \<Rightarrow> BlockAbs" where
  "getBlockNumber E B addr =
     getPos E B (extractLogicalArea addr) * blocksPerArea E + extractPageOffs addr div pagesPerBlock E"

subsection \<open>Setters\<close>

definition upd_area :: "AreaPos \<Rightarrow> (Area \<Rightarrow> Area) \<Rightarrow> superblock \<Rightarrow> superblock" where
  "upd_area a f B = B\<lparr>mMap := (mMap B)[a := f (mMap B ! a)]\<rparr>"

definition registerRootnode :: "'f env \<Rightarrow> Addr \<Rightarrow> ('f dev, Result) state" where
  "registerRootnode E addr = do {
     old \<leftarrow> gets (\<lambda>s. mRootnodeAddr (sb s));
     if addr = old then ret R_ok
     else do {
       set_sb (\<lambda>B. B\<lparr>mRootnodeAddr := addr, mRootnodeDirty := True\<rparr>);
       add_event E (Rootnode addr);
       ret R_ok
     }
   }"

definition setType :: "'f env \<Rightarrow> AreaPos \<Rightarrow> AreaType \<Rightarrow> ('f dev, unit) state" where
  "setType E area t =
     (if area \<ge> areasNo E then ret ()
      else do {
        add_event E (AreaMapType area t);
        set_sb (upd_area area (\<lambda>r. r\<lparr>a_type := t\<rparr>))
      })"

definition setStatus :: "'f env \<Rightarrow> AreaPos \<Rightarrow> AreaStatus \<Rightarrow> ('f dev, unit) state" where
  "setStatus E area st =
     (if area \<ge> areasNo E then ret ()
      else do {
        add_event E (AreaMapStatus area st);
        set_sb (upd_area area (\<lambda>r. r\<lparr>a_status := st\<rparr>))
      })"

definition increaseErasecount :: "'f env \<Rightarrow> AreaPos \<Rightarrow> ('f dev, unit) state" where
  "increaseErasecount E area =
     (if area \<ge> areasNo E then ret ()
      else do {
        set_sb (\<lambda>B. B\<lparr>mOverallDeletions := (mOverallDeletions B + 1) mod 2 ^ 64\<rparr>);
        add_event E (AreaMapIncreaseErasecount area);
        set_sb (upd_area area (\<lambda>r. r\<lparr>a_erasecount := (a_erasecount r + 1) mod 2 ^ erasecount_bits\<rparr>))
      })"

definition setPos :: "'f env \<Rightarrow> AreaPos \<Rightarrow> AreaPos \<Rightarrow> ('f dev, unit) state" where
  "setPos E area pos =
     (if area \<ge> areasNo E then ret ()
      else do {
        add_event E (AreaMapPosition area pos);
        set_sb (upd_area area (\<lambda>r. r\<lparr>a_position := pos\<rparr>))
      })"

text \<open>
  \<^verbatim>\<open>setActiveArea\<close> also activates the area; with position 0, the mark of \<open>no active area\<close>, that is
  area 0. The position is not checked; every caller passes an area of the device.
\<close>

definition setActiveArea :: "'f env \<Rightarrow> AreaType \<Rightarrow> AreaPos \<Rightarrow> ('f dev, unit) state" where
  "setActiveArea E t pos =
     (if t = T_no then ret ()
      else do {
        set_sb (upd_area pos (\<lambda>r. r\<lparr>a_status := S_active\<rparr>));
        add_event E (ActiveArea t pos);
        set_sb (\<lambda>B. B\<lparr>mActiveAreas := (mActiveAreas B)[area_type_code t := pos]\<rparr>)
      })"

definition setUsedAreas :: "'f env \<Rightarrow> nat \<Rightarrow> ('f dev, unit) state" where
  "setUsedAreas E num = do {
     add_event E (UsedAreas num);
     set_sb (\<lambda>B. B\<lparr>mUsedAreas := num\<rparr>)
   }"

definition increaseUsedAreas :: "'f env \<Rightarrow> ('f dev, unit) state" where
  "increaseUsedAreas E = do {
     u \<leftarrow> gets (\<lambda>s. mUsedAreas (sb s));
     setUsedAreas E ((u + 1) mod 2 ^ 16)
   }"

definition decreaseUsedAreas :: "'f env \<Rightarrow> ('f dev, unit) state" where
  "decreaseUsedAreas E = do {
     u \<leftarrow> gets (\<lambda>s. mUsedAreas (sb s));
     setUsedAreas E ((u + 2 ^ 16 - 1) mod 2 ^ 16)
   }"

definition swap_areas :: "AreaPos \<Rightarrow> AreaPos \<Rightarrow> superblock \<Rightarrow> superblock" where
  "swap_areas a b B =
     (let tmp1 = a_position (mMap B ! a); tmp2 = a_erasecount (mMap B ! a);
          B1 = upd_area a (\<lambda>r. r\<lparr>a_position := a_position (mMap B ! b),
                                 a_erasecount := a_erasecount (mMap B ! b)\<rparr>) B
      in upd_area b (\<lambda>r. r\<lparr>a_position := tmp1, a_erasecount := tmp2\<rparr>) B1)"

definition swapAreaPosition :: "'f env \<Rightarrow> AreaPos \<Rightarrow> AreaPos \<Rightarrow> ('f dev, unit) state" where
  "swapAreaPosition E a b =
     (if a \<ge> areasNo E then ret ()
      else if b \<ge> areasNo E then ret ()
      else do {
        add_event E (AreaMapSwap a b);
        set_sb (swap_areas a b)
      })"

definition setOverallDeletions :: "nat \<Rightarrow> ('f dev, unit) state" where
  "setOverallDeletions d = set_sb (\<lambda>B. B\<lparr>mOverallDeletions := d\<rparr>)"

definition superblock_clear :: "'f env \<Rightarrow> ('f dev, unit) state" where
  "superblock_clear E = set_sb (\<lambda>B. B\<lparr>mRootnodeAddr := 0, mRootnodeDirty := False,
     mMap := replicate (areasNo E) zero_area, mActiveAreas := replicate (area_type_code T_no) 0,
     mUsedAreas := 0, mOverallDeletions := 0\<rparr>)"

definition setTestmode :: "bool \<Rightarrow> ('f dev, unit) state" where
  "setTestmode t = set_sb (\<lambda>B. B\<lparr>testmode := t\<rparr>)"

text \<open>The replay of the superblock's own journal entries.\<close>

definition superblock_preScan :: "'f env \<Rightarrow> Entry \<Rightarrow> ('f dev, unit) state" where
  "superblock_preScan E e =
     (case e of
        Rootnode addr \<Rightarrow> do { _ \<leftarrow> registerRootnode E addr; ret () }
      | AreaMapType a t \<Rightarrow> setType E a t
      | AreaMapStatus a st \<Rightarrow> setStatus E a st
      | AreaMapIncreaseErasecount a \<Rightarrow> increaseErasecount E a
      | AreaMapPosition a p \<Rightarrow> setPos E a p
      | AreaMapSwap a b \<Rightarrow> swapAreaPosition E a b
      | ActiveArea t a \<Rightarrow> setActiveArea E t a
      | UsedAreas n \<Rightarrow> setUsedAreas E n
      | _ \<Rightarrow> ret ())"

subsection \<open>What the setters do to the superblock\<close>

text \<open>
  The pure form of each setter. \<open>sb_step\<close> says of a statement that it changes the superblock by
  the given function and leaves the flash, the summary cache and the component states alone.
\<close>

definition sb_step :: "(superblock \<Rightarrow> superblock) \<Rightarrow> ('f dev, unit) state \<Rightarrow> bool" where
  "sb_step f m \<longleftrightarrow>
     (\<forall>s. let t = snd (run_state m s) in
        sb t = f (sb s) \<and> flash t = flash s \<and> sc t = sc s \<and> am t = am s \<and> gc t = gc s \<and>
        lasterr t = lasterr s \<and> readOnly t = readOnly s)"

lemma sb_stepD:
  assumes "sb_step f m"
  shows "sb (snd (run_state m s)) = f (sb s)"
    and "flash (snd (run_state m s)) = flash s"
    and "sc (snd (run_state m s)) = sc s"
    and "am (snd (run_state m s)) = am s"
    and "gc (snd (run_state m s)) = gc s"
    and "lasterr (snd (run_state m s)) = lasterr s"
    and "readOnly (snd (run_state m s)) = readOnly s"
  using assms by (simp_all add: sb_step_def Let_def)

lemma sb_step_seq:
  assumes "sb_step f m" and "sb_step g n"
  shows "sb_step (g \<circ> f) (do { m; n })"
  using sb_stepD [OF assms(1)] sb_stepD [OF assms(2)]
  by (simp add: sb_step_def Let_def split_beta)

lemma sb_step_add_event: "sb_step id (add_event E e)"
  by (simp add: sb_step_def)

lemma sb_step_return: "sb_step id (ret ())"
  by (simp add: sb_step_def)

lemma sb_step_when: "(b \<Longrightarrow> sb_step f m) \<Longrightarrow> sb_step (if b then f else id) (whenM b m)"
  by (simp add: sb_step_def)

definition sb_type :: "'f env \<Rightarrow> AreaPos \<Rightarrow> AreaType \<Rightarrow> superblock \<Rightarrow> superblock" where
  "sb_type E a t B = (if a \<ge> areasNo E then B else upd_area a (\<lambda>r. r\<lparr>a_type := t\<rparr>) B)"

definition sb_status :: "'f env \<Rightarrow> AreaPos \<Rightarrow> AreaStatus \<Rightarrow> superblock \<Rightarrow> superblock" where
  "sb_status E a st B = (if a \<ge> areasNo E then B else upd_area a (\<lambda>r. r\<lparr>a_status := st\<rparr>) B)"

definition sb_erased :: "'f env \<Rightarrow> AreaPos \<Rightarrow> superblock \<Rightarrow> superblock" where
  "sb_erased E a B =
     (if a \<ge> areasNo E then B
      else upd_area a (\<lambda>r. r\<lparr>a_erasecount := (a_erasecount r + 1) mod 2 ^ erasecount_bits\<rparr>)
             (B\<lparr>mOverallDeletions := (mOverallDeletions B + 1) mod 2 ^ 64\<rparr>))"

definition sb_active :: "AreaType \<Rightarrow> AreaPos \<Rightarrow> superblock \<Rightarrow> superblock" where
  "sb_active t a B =
     (if t = T_no then B
      else (upd_area a (\<lambda>r. r\<lparr>a_status := S_active\<rparr>) B)\<lparr>mActiveAreas := (mActiveAreas B)[area_type_code t := a]\<rparr>)"

definition sb_used :: "nat \<Rightarrow> superblock \<Rightarrow> superblock" where
  "sb_used n B = B\<lparr>mUsedAreas := n\<rparr>"

definition sb_used_inc :: "superblock \<Rightarrow> superblock" where
  "sb_used_inc B = sb_used ((mUsedAreas B + 1) mod 2 ^ 16) B"

definition sb_used_dec :: "superblock \<Rightarrow> superblock" where
  "sb_used_dec B = sb_used ((mUsedAreas B + 2 ^ 16 - 1) mod 2 ^ 16) B"

definition sb_swap :: "'f env \<Rightarrow> AreaPos \<Rightarrow> AreaPos \<Rightarrow> superblock \<Rightarrow> superblock" where
  "sb_swap E a b B = (if a \<ge> areasNo E \<or> b \<ge> areasNo E then B else swap_areas a b B)"

lemma upd_area_proj [simp]:
  "mActiveAreas (upd_area a f B) = mActiveAreas B"
  "mUsedAreas (upd_area a f B) = mUsedAreas B"
  "mOverallDeletions (upd_area a f B) = mOverallDeletions B"
  "mRootnodeAddr (upd_area a f B) = mRootnodeAddr B"
  "mRootnodeDirty (upd_area a f B) = mRootnodeDirty B"
  "length (mMap (upd_area a f B)) = length (mMap B)"
  by (simp_all add: upd_area_def)

lemma upd_area_nth:
  "i < length (mMap B) \<Longrightarrow>
   mMap (upd_area a f B) ! i = (if i = a then f (mMap B ! i) else mMap B ! i)"
  by (simp add: upd_area_def nth_list_update)

named_theorems sb_steps \<open>the setters as functions on the superblock\<close>

lemma setType_step [sb_steps]: "sb_step (sb_type E a t) (setType E a t)"
  by (simp add: sb_step_def setType_def sb_type_def)

lemma setStatus_step [sb_steps]: "sb_step (sb_status E a st) (setStatus E a st)"
  by (simp add: sb_step_def setStatus_def sb_status_def)

lemma increaseErasecount_step [sb_steps]: "sb_step (sb_erased E a) (increaseErasecount E a)"
  by (simp add: sb_step_def increaseErasecount_def sb_erased_def)

lemma setActiveArea_step [sb_steps]: "sb_step (sb_active t a) (setActiveArea E t a)"
  by (simp add: sb_step_def setActiveArea_def sb_active_def)

lemma setUsedAreas_step [sb_steps]: "sb_step (sb_used n) (setUsedAreas E n)"
  by (simp add: sb_step_def setUsedAreas_def sb_used_def)

lemma increaseUsedAreas_step [sb_steps]: "sb_step sb_used_inc (increaseUsedAreas E)"
  by (simp add: sb_step_def increaseUsedAreas_def setUsedAreas_def sb_used_inc_def sb_used_def)

lemma decreaseUsedAreas_step [sb_steps]: "sb_step sb_used_dec (decreaseUsedAreas E)"
  by (simp add: sb_step_def decreaseUsedAreas_def setUsedAreas_def sb_used_dec_def sb_used_def)

lemma swapAreaPosition_step [sb_steps]: "sb_step (sb_swap E a b) (swapAreaPosition E a b)"
  by (simp add: sb_step_def swapAreaPosition_def sb_swap_def)

lemmas setter_frames = sb_steps [THEN sb_stepD(2)] sb_steps [THEN sb_stepD(3)]
  sb_steps [THEN sb_stepD(4)] sb_steps [THEN sb_stepD(5)]

end
