(* ===== verification/SummaryElem.thy ===== *)
theory SummaryElem
  imports SuperblockMap
begin

unbundle bit_operations_syntax

text \<open>
  \<^verbatim>\<open>class AreaSummaryElem\<close> of \<^verbatim>\<open>src/summaryCache.cpp\<close>: one cached area summary, a two-bit list of
  page states with the status bits \<open>dirty\<close>, \<open>asWritten\<close>, \<open>loadedFromSuperPage\<close> and \<open>used\<close>, and a
  counter of dirty pages. \<open>N\<close> is \<^verbatim>\<open>dataPagesPerArea\<close>. A call that the code calls a bug has the
  effect it has in the code: an unused element answers \<open>SE_error\<close> and ignores a write.
\<close>

definition isDirty :: "AreaSummaryElem \<Rightarrow> bool" where
  "isDirty e = (mStatusBits e AND 1 \<noteq> 0)"

definition isAreaSummaryWritten :: "AreaSummaryElem \<Rightarrow> bool" where
  "isAreaSummaryWritten e = (mStatusBits e AND 2 \<noteq> 0)"

definition isLoadedFromSuperPage :: "AreaSummaryElem \<Rightarrow> bool" where
  "isLoadedFromSuperPage e = (mStatusBits e AND 4 \<noteq> 0)"

definition isUsed :: "AreaSummaryElem \<Rightarrow> bool" where
  "isUsed e = (mStatusBits e AND 8 \<noteq> 0)"

definition setDirty :: "bool \<Rightarrow> AreaSummaryElem \<Rightarrow> AreaSummaryElem" where
  "setDirty dirty e =
     e\<lparr>mStatusBits := (if dirty then mStatusBits e OR 1 else mStatusBits e AND NOT 1)\<rparr>"

definition setAreaSummaryWritten :: "bool \<Rightarrow> AreaSummaryElem \<Rightarrow> AreaSummaryElem" where
  "setAreaSummaryWritten written e =
     e\<lparr>mStatusBits := (if written then mStatusBits e OR 2 else mStatusBits e AND NOT 2)\<rparr>"

definition setLoadedFromSuperPage :: "bool \<Rightarrow> AreaSummaryElem \<Rightarrow> AreaSummaryElem" where
  "setLoadedFromSuperPage loaded e =
     e\<lparr>mStatusBits := (if loaded then mStatusBits e OR 4 else mStatusBits e AND NOT 4)\<rparr>"

definition setUsed :: "bool \<Rightarrow> AreaSummaryElem \<Rightarrow> AreaSummaryElem" where
  "setUsed used e =
     e\<lparr>mStatusBits := (if used then mStatusBits e OR 8 else mStatusBits e AND NOT 8)\<rparr>"

definition elem_clear :: "nat \<Rightarrow> AreaSummaryElem \<Rightarrow> AreaSummaryElem" where
  "elem_clear N e =
     e\<lparr>mEntries := TwoBitList_clear N, mStatusBits := 0, mDirtyPages := 0, mArea := 0\<rparr>"

definition list_getStatus :: "nat \<Rightarrow> PageOffs \<Rightarrow> byte list \<Rightarrow> SummaryEntry" where
  "list_getStatus N page l = (if page \<ge> N then SE_error else summary_of (getValue page l))"

definition elem_getStatus :: "nat \<Rightarrow> PageOffs \<Rightarrow> AreaSummaryElem \<Rightarrow> SummaryEntry" where
  "elem_getStatus N page e = (if \<not> isUsed e then SE_error else list_getStatus N page (mEntries e))"

definition list_setStatus :: "nat \<Rightarrow> PageOffs \<Rightarrow> SummaryEntry \<Rightarrow> byte list \<Rightarrow> byte list" where
  "list_setStatus N page v l = (if page \<ge> N then l else setValue page (summary_code v) l)"

definition elem_setStatus :: "nat \<Rightarrow> PageOffs \<Rightarrow> SummaryEntry \<Rightarrow> AreaSummaryElem \<Rightarrow> AreaSummaryElem" where
  "elem_setStatus N page v e =
     (if \<not> isUsed e then e
      else
        let e1 = (if elem_getStatus N page e \<noteq> v
                  then setLoadedFromSuperPage False (setDirty True e) else e);
            e2 = e1\<lparr>mEntries := list_setStatus N page v (mEntries e1)\<rparr>
        in if v = SE_dirty then e2\<lparr>mDirtyPages := (mDirtyPages e2 + 1) mod 2 ^ 16\<rparr> else e2)"

definition getDirtyPages :: "AreaSummaryElem \<Rightarrow> nat" where
  "getDirtyPages e = mDirtyPages e"

definition setDirtyPages :: "nat \<Rightarrow> AreaSummaryElem \<Rightarrow> AreaSummaryElem" where
  "setDirtyPages pages e = e\<lparr>mDirtyPages := pages\<rparr>"

definition setArea :: "AreaPos \<Rightarrow> AreaSummaryElem \<Rightarrow> AreaSummaryElem" where
  "setArea a e = (if isUsed e then e else setUsed True (e\<lparr>mArea := a\<rparr>))"

definition getArea :: "AreaSummaryElem \<Rightarrow> AreaPos" where
  "getArea e = (if \<not> isUsed e then 0 else mArea e)"

text \<open>A constructed element is cleared.\<close>

definition new_elem :: "nat \<Rightarrow> AreaSummaryElem" where
  "new_elem N = \<lparr>mEntries = TwoBitList_clear N, mStatusBits = 0, mArea = 0, mDirtyPages = 0\<rparr>"

subsection \<open>The four flags are independent\<close>

lemma and_flag: "(w::byte) AND 1 \<noteq> 0 \<longleftrightarrow> bit w 0" "w AND 2 \<noteq> 0 \<longleftrightarrow> bit w 1"
  "w AND 4 \<noteq> 0 \<longleftrightarrow> bit w 2" "w AND 8 \<noteq> 0 \<longleftrightarrow> bit w 3"
  using and_exp_eq_0_iff_not_bit [of w 0] and_exp_eq_0_iff_not_bit [of w 1]
    and_exp_eq_0_iff_not_bit [of w 2] and_exp_eq_0_iff_not_bit [of w 3]
  by (simp_all add: power_numeral_reduce)

lemma flag_bits:
  "bit (1::byte) n \<longleftrightarrow> n = 0" "bit (2::byte) n \<longleftrightarrow> n = 1"
  "bit (4::byte) n \<longleftrightarrow> n = 2" "bit (8::byte) n \<longleftrightarrow> n = 3"
  using bit_single [of 0 n] bit_single [of 1 n] bit_single [of 2 n] bit_single [of 3 n]
  by (auto simp: power_numeral_reduce)

lemmas flag_defs = isDirty_def isAreaSummaryWritten_def isLoadedFromSuperPage_def isUsed_def
  setDirty_def setAreaSummaryWritten_def setLoadedFromSuperPage_def setUsed_def

lemmas flag_simps = flag_defs and_flag bit_or_iff bit_and_iff bit_not_iff flag_bits

lemma flags_setDirty [simp]:
  "isDirty (setDirty b e) = b"
  "isAreaSummaryWritten (setDirty b e) = isAreaSummaryWritten e"
  "isLoadedFromSuperPage (setDirty b e) = isLoadedFromSuperPage e"
  "isUsed (setDirty b e) = isUsed e"
  by (simp_all add: flag_simps)

lemma flags_setWritten [simp]:
  "isDirty (setAreaSummaryWritten b e) = isDirty e"
  "isAreaSummaryWritten (setAreaSummaryWritten b e) = b"
  "isLoadedFromSuperPage (setAreaSummaryWritten b e) = isLoadedFromSuperPage e"
  "isUsed (setAreaSummaryWritten b e) = isUsed e"
  by (simp_all add: flag_simps)

lemma flags_setLoaded [simp]:
  "isDirty (setLoadedFromSuperPage b e) = isDirty e"
  "isAreaSummaryWritten (setLoadedFromSuperPage b e) = isAreaSummaryWritten e"
  "isLoadedFromSuperPage (setLoadedFromSuperPage b e) = b"
  "isUsed (setLoadedFromSuperPage b e) = isUsed e"
  by (simp_all add: flag_simps)

lemma flags_setUsed [simp]:
  "isDirty (setUsed b e) = isDirty e"
  "isAreaSummaryWritten (setUsed b e) = isAreaSummaryWritten e"
  "isLoadedFromSuperPage (setUsed b e) = isLoadedFromSuperPage e"
  "isUsed (setUsed b e) = b"
  by (simp_all add: flag_simps)

lemma flags_fields [simp]:
  "isDirty (e\<lparr>mEntries := l\<rparr>) = isDirty e" "isUsed (e\<lparr>mEntries := l\<rparr>) = isUsed e"
  "isAreaSummaryWritten (e\<lparr>mEntries := l\<rparr>) = isAreaSummaryWritten e"
  "isLoadedFromSuperPage (e\<lparr>mEntries := l\<rparr>) = isLoadedFromSuperPage e"
  "isDirty (e\<lparr>mDirtyPages := n\<rparr>) = isDirty e" "isUsed (e\<lparr>mDirtyPages := n\<rparr>) = isUsed e"
  "isAreaSummaryWritten (e\<lparr>mDirtyPages := n\<rparr>) = isAreaSummaryWritten e"
  "isLoadedFromSuperPage (e\<lparr>mDirtyPages := n\<rparr>) = isLoadedFromSuperPage e"
  "isDirty (e\<lparr>mArea := a\<rparr>) = isDirty e" "isUsed (e\<lparr>mArea := a\<rparr>) = isUsed e"
  "isAreaSummaryWritten (e\<lparr>mArea := a\<rparr>) = isAreaSummaryWritten e"
  "isLoadedFromSuperPage (e\<lparr>mArea := a\<rparr>) = isLoadedFromSuperPage e"
  by (simp_all add: flag_defs)

lemma fields_flags [simp]:
  "mEntries (setDirty b e) = mEntries e" "mArea (setDirty b e) = mArea e"
  "mDirtyPages (setDirty b e) = mDirtyPages e"
  "mEntries (setAreaSummaryWritten b e) = mEntries e" "mArea (setAreaSummaryWritten b e) = mArea e"
  "mDirtyPages (setAreaSummaryWritten b e) = mDirtyPages e"
  "mEntries (setLoadedFromSuperPage b e) = mEntries e" "mArea (setLoadedFromSuperPage b e) = mArea e"
  "mDirtyPages (setLoadedFromSuperPage b e) = mDirtyPages e"
  "mEntries (setUsed b e) = mEntries e" "mArea (setUsed b e) = mArea e"
  "mDirtyPages (setUsed b e) = mDirtyPages e"
  by (simp_all add: flag_defs)

lemma elem_clear_simps [simp]:
  "\<not> isUsed (elem_clear N e)" "\<not> isDirty (elem_clear N e)"
  "\<not> isAreaSummaryWritten (elem_clear N e)" "\<not> isLoadedFromSuperPage (elem_clear N e)"
  "mEntries (elem_clear N e) = TwoBitList_clear N" "mArea (elem_clear N e) = 0"
  "mDirtyPages (elem_clear N e) = 0"
  by (simp_all add: elem_clear_def flag_defs)

subsection \<open>Page states\<close>

lemma list_getStatus_setStatus:
  assumes "length l = TwoBitList_byteUsage N"
  shows "list_getStatus N j (list_setStatus N i v l) =
         (if j = i \<and> i < N then v else list_getStatus N j l)"
proof (cases "i < N \<and> j < N")
  case True
  have "summary_code v < 4" by (cases v) simp_all
  then show ?thesis
    using True assms by (simp add: list_getStatus_def list_setStatus_def getValue_setValue)
next
  case False
  then show ?thesis by (auto simp: list_getStatus_def list_setStatus_def)
qed

lemma length_list_setStatus [simp]: "length (list_setStatus N i v l) = length l"
  by (simp add: list_setStatus_def)

lemma elem_setStatus_simps [simp]:
  "isUsed (elem_setStatus N i v e) = isUsed e"
  "isAreaSummaryWritten (elem_setStatus N i v e) = isAreaSummaryWritten e"
  "mArea (elem_setStatus N i v e) = mArea e"
  "length (mEntries (elem_setStatus N i v e)) = length (mEntries e)"
  by (simp_all add: elem_setStatus_def Let_def)

lemma elem_setStatus_entries:
  "isUsed e \<Longrightarrow> mEntries (elem_setStatus N i v e) = list_setStatus N i v (mEntries e)"
  by (simp add: elem_setStatus_def Let_def)

lemma elem_getStatus_setStatus:
  assumes "length (mEntries e) = TwoBitList_byteUsage N" and "isUsed e"
  shows "elem_getStatus N j (elem_setStatus N i v e) =
         (if j = i \<and> i < N then v else elem_getStatus N j e)"
  using assms by (simp add: elem_getStatus_def elem_setStatus_entries list_getStatus_setStatus)

lemma elem_setStatus_dirty:
  "isUsed e \<Longrightarrow> isDirty (elem_setStatus N i v e) = (isDirty e \<or> elem_getStatus N i e \<noteq> v)"
  by (simp add: elem_setStatus_def Let_def)

lemma elem_setStatus_loaded:
  "isUsed e \<Longrightarrow> isLoadedFromSuperPage (elem_setStatus N i v e) =
     (isLoadedFromSuperPage e \<and> elem_getStatus N i e = v)"
  by (simp add: elem_setStatus_def Let_def)

end
