(* ===== verification/SummaryCacheCore.thy ===== *)
theory SummaryCacheCore
  imports SummaryElem "HOL-Library.AList"
begin

text \<open>
  \<^verbatim>\<open>class SummaryCache\<close> of \<^verbatim>\<open>src/summaryCache.cpp\<close>, the operations that do not call the garbage
  collector: the translation from areas to cache slots, the page states of a cached area, the
  transfer of a summary to the flash and back (packed to one bit per page when two bits do not
  fit into a page), and the replacement of clean and of uncommitted entries. The urgent
  variants, which end in a garbage collection, follow in a later theory; \<open>loadUnbufferedArea\<close>
  takes the replacement as a parameter for that reason.
\<close>

subsection \<open>Slots\<close>

definition existsSummaryElem :: "summary_cache \<Rightarrow> AreaPos \<Rightarrow> bool" where
  "existsSummaryElem C area = (map_of (mTranslation C) area \<noteq> None)"

definition getSummaryElemPos :: "summary_cache \<Rightarrow> AreaPos \<Rightarrow> nat" where
  "getSummaryElemPos C area = (case map_of (mTranslation C) area of None \<Rightarrow> 0 | Some p \<Rightarrow> p)"

definition area_elem :: "summary_cache \<Rightarrow> AreaPos \<Rightarrow> AreaSummaryElem" where
  "area_elem C area = mSummaryCache C ! getSummaryElemPos C area"

definition upd_slot :: "nat \<Rightarrow> (AreaSummaryElem \<Rightarrow> AreaSummaryElem) \<Rightarrow> summary_cache \<Rightarrow> summary_cache" where
  "upd_slot p f C = C\<lparr>mSummaryCache := (mSummaryCache C)[p := f (mSummaryCache C ! p)]\<rparr>"

definition upd_elem :: "AreaPos \<Rightarrow> (AreaSummaryElem \<Rightarrow> AreaSummaryElem) \<Rightarrow> summary_cache \<Rightarrow> summary_cache" where
  "upd_elem area f C = upd_slot (getSummaryElemPos C area) f C"

definition enableSummaryElem :: "nat \<Rightarrow> AreaPos \<Rightarrow> summary_cache \<Rightarrow> summary_cache" where
  "enableSummaryElem pos area C =
     upd_slot pos (setArea area) (C\<lparr>mTranslation := AList.update area pos (mTranslation C)\<rparr>)"

definition removeSummaryElem :: "'f env \<Rightarrow> AreaPos \<Rightarrow> summary_cache \<Rightarrow> summary_cache" where
  "removeSummaryElem E area C =
     (if \<not> existsSummaryElem C area then C
      else (upd_elem area (elem_clear (dataPagesPerArea E)) C)
             \<lparr>mTranslation := AList.delete area (mTranslation C)\<rparr>)"

definition findNextFreeCacheEntry :: "'f env \<Rightarrow> summary_cache \<Rightarrow> nat option" where
  "findNextFreeCacheEntry E C =
     List.find (\<lambda>i. \<not> isUsed (mSummaryCache C ! i)) [0 ..< areaSummaryCacheSize E]"

definition summary_list :: "'f env \<Rightarrow> AreaSummaryElem \<Rightarrow> SummaryEntry list" where
  "summary_list E e = map (\<lambda>i. elem_getStatus (dataPagesPerArea E) i e) [0 ..< dataPagesPerArea E]"

definition unpackStatusArray :: "'f env \<Rightarrow> summary_cache \<Rightarrow> nat \<Rightarrow> SummaryEntry list" where
  "unpackStatusArray E C pos = summary_list E (mSummaryCache C ! pos)"

definition pack_elem :: "'f env \<Rightarrow> SummaryEntry list \<Rightarrow> AreaSummaryElem \<Rightarrow> AreaSummaryElem" where
  "pack_elem E arr e =
     fold (\<lambda>i. elem_setStatus (dataPagesPerArea E) i (arr ! i)) [0 ..< dataPagesPerArea E] e"

definition packStatusArray :: "'f env \<Rightarrow> nat \<Rightarrow> SummaryEntry list \<Rightarrow> summary_cache \<Rightarrow> summary_cache" where
  "packStatusArray E pos arr C = upd_slot pos (pack_elem E arr) C"

definition count_elem :: "'f env \<Rightarrow> SummaryEntry \<Rightarrow> AreaSummaryElem \<Rightarrow> nat" where
  "count_elem E v e =
     count_upto (dataPagesPerArea E) (\<lambda>i. elem_getStatus (dataPagesPerArea E) i e = v)"

definition countDirtyPages :: "'f env \<Rightarrow> summary_cache \<Rightarrow> nat \<Rightarrow> nat" where
  "countDirtyPages E C pos = count_elem E SE_dirty (mSummaryCache C ! pos)"

definition countUsedPages :: "'f env \<Rightarrow> summary_cache \<Rightarrow> nat \<Rightarrow> nat" where
  "countUsedPages E C pos = count_elem E SE_used (mSummaryCache C ! pos)"

definition countUnusedPages :: "'f env \<Rightarrow> summary_cache \<Rightarrow> nat \<Rightarrow> nat" where
  "countUnusedPages E C pos = dataPagesPerArea E - countUsedPages E C pos"

definition summary_clear :: "'f env \<Rightarrow> summary_cache \<Rightarrow> summary_cache" where
  "summary_clear E C =
     (fold (\<lambda>(a, p). upd_slot p (elem_clear (dataPagesPerArea E))) (mTranslation C) C)
       \<lparr>mTranslation := [], firstUncommittedElem := replicate (areasNo E) \<lparr>p_addr = 0, p_offs = 0\<rparr>\<rparr>"

subsection \<open>The summary in the flash\<close>

definition summary_page :: "'f env \<Rightarrow> superblock \<Rightarrow> AreaPos \<Rightarrow> PageAbs" where
  "summary_page E B area = getPageNumber E B (combineAddress area (dataPagesPerArea E))"

definition packed_summary :: "'f env \<Rightarrow> AreaSummaryElem \<Rightarrow> byte list" where
  "packed_summary E e =
     fold (\<lambda>j l. if elem_getStatus (dataPagesPerArea E) j e \<noteq> SE_dirty
                 then setBit (dataPagesPerArea E) j l else l)
       [0 ..< dataPagesPerArea E] (BitList_clear (dataPagesPerArea E))"

text \<open>The element is passed by reference: the result has the element as the call leaves it.\<close>

definition writeAreasummary ::
  "'f env \<Rightarrow> AreaSummaryElem \<Rightarrow> ('f dev, Result \<times> AreaSummaryElem) state" where
  "writeAreasummary E elem =
     (if isAreaSummaryWritten elem then ret (R_bug, elem)
      else do {
        replay \<leftarrow> gets (\<lambda>s. journalReplayMode (sc s));
        if replay then ret (R_bug, elem)
        else if areaSummaryIsPacked E
                \<and> BitList_byteUsage (dataPagesPerArea E) \<noteq> areaSummarySizePacked E - 1
        then ret (R_bug, elem)
        else do {
          let summary = (if areaSummaryIsPacked E then packed_summary E elem else mEntries elem);
          page \<leftarrow> gets (\<lambda>s. summary_page E (sb s) (getArea elem));
          let btw = (if areaSummaryIsPacked E then areaSummarySizePacked E
                     else areaSummarySizeUnpacked E);
          clean \<leftarrow> (if verifyAS E then do {
                       x \<leftarrow> readPage E page (totalBytesPerPage E);
                       ret (\<forall>b\<in>set (snd x). b = 0xFF)
                     } else ret True);
          if \<not> clean then ret (R_bug, elem)
          else do {
            r \<leftarrow> writePage E page (0 # take (btw - 1) summary);
            if r \<noteq> R_ok then ret (r, elem)
            else do {
              add_event E (SummaryCommit (getArea elem));
              ret (R_ok, setDirty False (setAreaSummaryWritten True elem))
            }
          }
        }
      })"

definition contains_data :: "byte list \<Rightarrow> bool" where
  "contains_data buf = (\<exists>b\<in>set buf. b \<noteq> 0xFF)"

text \<open>
  The body of the loop that reads a packed summary. A page whose bit is set is read to tell a
  used page from a free one. The bit list is declared with \<^verbatim>\<open>areaSummarySizePacked\<close> elements, the
  number of its bytes, so that \<^verbatim>\<open>getBit\<close> answers false from that page on.
\<close>

definition read_packed_page ::
  "'f env \<Rightarrow> AreaPos \<Rightarrow> byte list \<Rightarrow> nat \<Rightarrow> bool \<times> byte list \<Rightarrow>
   ('f dev, Result + (bool \<times> byte list)) state" where
  "read_packed_page E area summary i = (\<lambda>(corrected, l).
     if getBit (areaSummarySizePacked E) i summary
     then do {
       page \<leftarrow> gets (\<lambda>s. getPageNumber E (sb s) (combineAddress area i));
       x \<leftarrow> readPage E page (totalBytesPerPage E);
       if fst x \<noteq> R_ok \<and> fst x \<noteq> R_biterrorCorrected then ret (Inl (fst x))
       else ret (Inr (corrected \<or> fst x = R_biterrorCorrected,
              list_setStatus (dataPagesPerArea E) i
                (if contains_data (snd x) then SE_used else SE_free) l))
     }
     else ret (Inr (corrected, list_setStatus (dataPagesPerArea E) i SE_dirty l)))"

definition readAreasummary ::
  "'f env \<Rightarrow> AreaPos \<Rightarrow> byte list \<Rightarrow> ('f dev, Result \<times> byte list) state" where
  "readAreasummary E area elem = do {
     basePage \<leftarrow> gets (\<lambda>s. summary_page E (sb s) area);
     let btr = (if areaSummaryIsPacked E then areaSummarySizePacked E else areaSummarySizeUnpacked E);
     x \<leftarrow> readPage E basePage btr;
     if fst x \<noteq> R_ok \<and> fst x \<noteq> R_biterrorCorrected then ret (fst x, elem)
     else if snd x ! 0 \<noteq> 0 then ret (R_notFound, elem)
     else do {
       let corrected = (fst x = R_biterrorCorrected);
       y \<leftarrow> (if areaSummaryIsPacked E
              then loopM [0 ..< dataPagesPerArea E] (corrected, elem)
                     (read_packed_page E area (take (areaSummarySizePacked E - 1) (drop 1 (snd x))))
              else ret (Inr (corrected, take (areaSummarySizeUnpacked E - 1) (drop 1 (snd x)))));
       (case y of
          Inl r \<Rightarrow> ret (r, elem)
        | Inr (c, l) \<Rightarrow> ret (if c then R_biterrorCorrected else R_ok, l))
     }
   }"

text \<open>\<^verbatim>\<open>scanAreaForSummaryStatus\<close> reads every page of the area; an unreadable page counts as dirty.\<close>

fun scan_pages :: "'f env \<Rightarrow> AreaPos \<Rightarrow> nat list \<Rightarrow> ('f dev, SummaryEntry list) state" where
  "scan_pages E area [] = ret []"
| "scan_pages E area (i # is) = do {
     page \<leftarrow> gets (\<lambda>s. getPageNumber E (sb s) (combineAddress area i));
     x \<leftarrow> readPage E page (totalBytesPerPage E);
     let v = (if fst x \<noteq> R_ok then SE_dirty
              else if contains_data (snd x) then SE_used else SE_free);
     vs \<leftarrow> scan_pages E area is;
     ret (v # vs)
   }"

definition scanAreaForSummaryStatus ::
  "'f env \<Rightarrow> AreaPos \<Rightarrow> ('f dev, Result \<times> SummaryEntry list) state" where
  "scanAreaForSummaryStatus E area = do {
     vs \<leftarrow> scan_pages E area [0 ..< dataPagesPerArea E];
     ret (R_ok, vs)
   }"

subsection \<open>Replacement without garbage collection\<close>

definition commitAndEraseElem :: "'f env \<Rightarrow> nat \<Rightarrow> ('f dev, Result) state" where
  "commitAndEraseElem E pos = do {
     e \<leftarrow> gets (\<lambda>s. mSummaryCache (sc s) ! pos);
     if \<not> isUsed e then ret R_ok
     else do {
       (r, e') \<leftarrow> writeAreasummary E e;
       set_sc (upd_slot pos (\<lambda>_. e'));
       if r \<noteq> R_ok then ret r
       else do {
         set_sc (removeSummaryElem E (getArea e'));
         ret R_ok
       }
     }
   }"

text \<open>The first loop of \<^verbatim>\<open>freeNextBestSummaryCacheEntry\<close>: drop every entry that is unchanged or
  whose area is empty.\<close>

definition free_clean_entry :: "'f env \<Rightarrow> nat \<Rightarrow> nat option \<Rightarrow> ('f dev, Result + nat option) state" where
  "free_clean_entry E i fav = do {
     e \<leftarrow> gets (\<lambda>s. mSummaryCache (sc s) ! i);
     empty \<leftarrow> gets (\<lambda>s. getStatus E (sb s) (getArea e) = S_empty);
     if isUsed e \<and> (\<not> (isDirty e \<or> isLoadedFromSuperPage e) \<or> empty)
     then do {
       whenM (isDirty e \<and> empty) (set_sc (upd_slot i (setDirty False)));
       set_sc (removeSummaryElem E (getArea e));
       ret (Inr (Some i))
     }
     else ret (Inr fav)
   }"

text \<open>The second loop: the uncommitted, inactive entry with the most pages that are not in use.\<close>

definition find_uncommitted :: "'f env \<Rightarrow> 'f dev \<Rightarrow> nat option" where
  "find_uncommitted E s =
     fst (fold (\<lambda>i (fav, maxDirty).
           let e = mSummaryCache (sc s) ! i; tmp = countUnusedPages E (sc s) i
           in if isUsed e \<and> \<not> isAreaSummaryWritten e
                 \<and> getStatus E (sb s) (getArea e) \<noteq> S_active \<and> tmp \<ge> maxDirty
              then (Some i, tmp) else (fav, maxDirty))
        [0 ..< areaSummaryCacheSize E] (None, 0))"

text \<open>\<open>Inl\<close>: the function has returned; \<open>Inr\<close>: it goes on to the urgent part.\<close>

definition freeNextBest_easy :: "'f env \<Rightarrow> ('f dev, Result + unit) state" where
  "freeNextBest_easy E = do {
     y \<leftarrow> loopM [0 ..< areaSummaryCacheSize E] None (free_clean_entry E);
     (case y of
        Inl r \<Rightarrow> ret (Inl r)
      | Inr (Some _) \<Rightarrow> ret (Inl R_ok)
      | Inr None \<Rightarrow> do {
          fav \<leftarrow> gets (find_uncommitted E);
          (case fav of
             Some i \<Rightarrow> do { r \<leftarrow> commitAndEraseElem E i; ret (Inl r) }
           | None \<Rightarrow> ret (Inr ()))
        })
   }"

definition freeNextBest_nonurgent :: "'f env \<Rightarrow> ('f dev, Result) state" where
  "freeNextBest_nonurgent E = do {
     y \<leftarrow> freeNextBest_easy E;
     ret (case y of Inl r \<Rightarrow> r | Inr _ \<Rightarrow> R_notFound)
   }"

text \<open>The end of \<^verbatim>\<open>loadUnbufferedArea\<close>: the area takes a free slot and its summary is read.\<close>

definition fill_slot :: "'f env \<Rightarrow> AreaPos \<Rightarrow> nat \<Rightarrow> ('f dev, Result) state" where
  "fill_slot E area next = do {
     set_sc (enableSummaryElem next area);
     old \<leftarrow> gets (\<lambda>s. mEntries (area_elem (sc s) area));
     (r, l) \<leftarrow> readAreasummary E area old;
     set_sc (upd_elem area (\<lambda>e. e\<lparr>mEntries := l\<rparr>));
     if r = R_ok \<or> r = R_biterrorCorrected
     then do {
       set_sc (upd_slot next (setAreaSummaryWritten True));
       set_sc (upd_slot next (setDirty (r = R_biterrorCorrected)));
       set_sc (\<lambda>C. upd_elem area (setDirtyPages (countDirtyPages E C (getSummaryElemPos C area))) C);
       ret R_ok
     }
     else if r = R_notFound then ret R_ok
     else ret r
   }"

definition loadUnbufferedArea_with ::
  "'f env \<Rightarrow> ('f dev, Result) state \<Rightarrow> bool \<Rightarrow> AreaPos \<Rightarrow> ('f dev, Result) state" where
  "loadUnbufferedArea_with E free urgent area = do {
     n \<leftarrow> gets (\<lambda>s. findNextFreeCacheEntry E (sc s));
     (case n of
        Some next \<Rightarrow> fill_slot E area next
      | None \<Rightarrow> do {
          r \<leftarrow> free;
          if \<not> urgent \<and> r = R_notFound then ret R_noSpace
          else if r \<noteq> R_ok then ret r
          else do {
            n' \<leftarrow> gets (\<lambda>s. findNextFreeCacheEntry E (sc s));
            (case n' of
               None \<Rightarrow> ret R_bug
             | Some next \<Rightarrow> fill_slot E area next)
          }
        })
   }"

definition loadUnbufferedArea_nonurgent :: "'f env \<Rightarrow> AreaPos \<Rightarrow> ('f dev, Result) state" where
  "loadUnbufferedArea_nonurgent E = loadUnbufferedArea_with E (freeNextBest_nonurgent E) False"

subsection \<open>Page states\<close>

definition getPageStatus :: "'f env \<Rightarrow> AreaPos \<Rightarrow> PageOffs \<Rightarrow> ('f dev, Result \<times> SummaryEntry) state" where
  "getPageStatus E area page =
     (if page > dataPagesPerArea E then ret (R_invalidInput, SE_error)
      else do {
        cached \<leftarrow> gets (\<lambda>s. existsSummaryElem (sc s) area);
        y \<leftarrow> (if cached then ret None
               else do {
                 r \<leftarrow> loadUnbufferedArea_nonurgent E area;
                 if r = R_noSpace
                 then do {
                   (r', l) \<leftarrow> readAreasummary E area (TwoBitList_clear (dataPagesPerArea E));
                   if r' = R_ok \<or> r' = R_biterrorCorrected
                   then ret (Some (R_ok, list_getStatus (dataPagesPerArea E) page l))
                   else if r' = R_notFound then ret (Some (R_ok, SE_free))
                   else ret (Some (r', SE_error))
                 }
                 else if r \<noteq> R_ok then ret (Some (r, SE_error))
                 else ret None
               });
        (case y of
           Some x \<Rightarrow> ret x
         | None \<Rightarrow> gets (\<lambda>s. (R_ok, elem_getStatus (dataPagesPerArea E) page (area_elem (sc s) area))))
      })"

definition getSummaryStatus :: "'f env \<Rightarrow> AreaPos \<Rightarrow> ('f dev, Result \<times> SummaryEntry list) state" where
  "getSummaryStatus E area = do {
     C \<leftarrow> gets sc;
     if \<not> existsSummaryElem C area
     then do {
       (r, l) \<leftarrow> readAreasummary E area (TwoBitList_clear (dataPagesPerArea E));
       let r' = (if r = R_notFound then R_ok else r);
       ret (r', map (\<lambda>i. list_getStatus (dataPagesPerArea E) i l) [0 ..< dataPagesPerArea E])
     }
     else ret (R_ok, unpackStatusArray E C (getSummaryElemPos C area))
   }"

definition setSummaryStatus :: "'f env \<Rightarrow> AreaPos \<Rightarrow> SummaryEntry list \<Rightarrow> ('f dev, Result) state" where
  "setSummaryStatus E area summary = do {
     cached \<leftarrow> gets (\<lambda>s. existsSummaryElem (sc s) area);
     y \<leftarrow> (if cached then ret None
            else do {
              r \<leftarrow> loadUnbufferedArea_nonurgent E area;
              if r = R_notFound
              then do {
                gb \<leftarrow> gets (\<lambda>s. getActiveArea (sb s) T_garbageBuffer);
                _ \<leftarrow> writeAreasummary E
                      (pack_elem E summary (setArea gb (new_elem (dataPagesPerArea E))));
                ret (Some R_ok)
              }
              else if r \<noteq> R_ok then ret (Some r)
              else ret None
            });
     (case y of
        Some r \<Rightarrow> ret r
      | None \<Rightarrow> do {
          set_sc (\<lambda>C. packStatusArray E (getSummaryElemPos C area) summary C);
          l \<leftarrow> gets (\<lambda>s. mEntries (area_elem (sc s) area));
          add_event E (SummarySetStatusBlock area l);
          ret R_ok
        })
   }"

definition deleteSummary :: "'f env \<Rightarrow> AreaPos \<Rightarrow> ('f dev, Result) state" where
  "deleteSummary E area = do {
     cached \<leftarrow> gets (\<lambda>s. existsSummaryElem (sc s) area);
     if \<not> cached then ret R_ok
     else do {
       add_event E (SummaryRemove area);
       set_sc (upd_elem area (setDirty False));
       set_sc (removeSummaryElem E area);
       ret R_ok
     }
   }"

definition shouldClearArea :: "summary_cache \<Rightarrow> AreaPos \<Rightarrow> bool" where
  "shouldClearArea C area =
     (existsSummaryElem C area \<and> isAreaSummaryWritten (area_elem C area) \<and> isDirty (area_elem C area))"

definition wasAreaSummaryWritten :: "'f env \<Rightarrow> 'f dev \<Rightarrow> AreaPos \<Rightarrow> bool" where
  "wasAreaSummaryWritten E s area =
     (if \<not> existsSummaryElem (sc s) area then getStatus E (sb s) area \<noteq> S_empty
      else isAreaSummaryWritten (area_elem (sc s) area))"

definition resetASWritten :: "'f env \<Rightarrow> AreaPos \<Rightarrow> ('f dev, unit) state" where
  "resetASWritten E area = do {
     cached \<leftarrow> gets (\<lambda>s. existsSummaryElem (sc s) area);
     whenM cached (do {
       add_event E (SummaryResetASWritten area);
       set_sc (upd_elem area (setAreaSummaryWritten False))
     })
   }"

definition summary_preScan :: "'f env \<Rightarrow> Entry \<Rightarrow> JournalEntryPosition \<Rightarrow> summary_cache \<Rightarrow> summary_cache" where
  "summary_preScan E e pos C =
     (let act = (\<lambda>area.
        removeSummaryElem E area (C\<lparr>firstUncommittedElem := (firstUncommittedElem C)[area := pos]\<rparr>))
      in case e of SummaryCommit area \<Rightarrow> act area | SummaryRemove area \<Rightarrow> act area | _ \<Rightarrow> C)"

end
