(* ===== verification/AreaMgmt.thy ===== *)
theory AreaMgmt
  imports SummaryCacheCore
begin

text \<open>
  \<^verbatim>\<open>class AreaManagement\<close> of \<^verbatim>\<open>src/area.cpp\<close>, the operations that do not search for a new area:
  \<open>initAreaAs\<close>, \<open>closeArea\<close>, \<open>retireArea\<close>, \<open>deleteAreaContents\<close>, \<open>deleteArea\<close>, and the journal hooks
  that finish an interrupted operation. Fall-through cases of the replay switch are
  stages: a transaction resumes at the stage its last logged step names.
\<close>

subsection \<open>Operations\<close>

definition initAreaAs :: "'f env \<Rightarrow> AreaPos \<Rightarrow> AreaType \<Rightarrow> ('f dev, unit) state" where
  "initAreaAs E area type = do {
     add_event E (InitAreaAs area type);
     setType E area type;
     st \<leftarrow> gets (\<lambda>s. getStatus E (sb s) area);
     whenM (st = S_empty) (increaseUsedAreas E);
     setActiveArea E type area;
     add_event E (Checkpoint Tp_areaMgmt)
   }"

definition closeArea :: "'f env \<Rightarrow> AreaPos \<Rightarrow> ('f dev, Result) state" where
  "closeArea E area = do {
     add_event E (CloseArea area);
     setStatus E area S_closed;
     t \<leftarrow> gets (\<lambda>s. getType E (sb s) area);
     setActiveArea E t 0;
     add_event E (Checkpoint Tp_areaMgmt);
     ret R_ok
   }"

definition mark_block :: "'f env \<Rightarrow> AreaPos \<Rightarrow> nat \<Rightarrow> ('f dev, unit) state" where
  "mark_block E area block = do {
     p \<leftarrow> gets (\<lambda>s. getPos E (sb s) area);
     r \<leftarrow> checkBad E (p * blocksPerArea E + block);
     if r = R_ok then do { _ \<leftarrow> markBad E (p * blocksPerArea E + block); ret () }
     else ret ()
   }"

definition retireArea :: "'f env \<Rightarrow> AreaPos \<Rightarrow> ('f dev, unit) state" where
  "retireArea E area = do {
     add_event E (RetireArea area);
     setStatus E area S_closed;
     t \<leftarrow> gets (\<lambda>s. getType E (sb s) area);
     whenM (t = T_unset) (increaseUsedAreas E);
     setType E area T_retired;
     for_each [0 ..< blocksPerArea E] (mark_block E area);
     add_event E (Checkpoint Tp_areaMgmt)
   }"

definition erase_one :: "'f env \<Rightarrow> AreaPos \<Rightarrow> nat \<Rightarrow> unit \<Rightarrow> ('f dev, Result + unit) state" where
  "erase_one E area i u = do {
     p \<leftarrow> gets (\<lambda>s. getPos E (sb s) area);
     r \<leftarrow> eraseBlock E (p * blocksPerArea E + i);
     if r \<noteq> R_ok then do {
       retireArea E area;
       ret (Inl R_badFlash)
     }
     else ret (Inr ())
   }"

definition deleteAreaContents ::
  "'f env \<Rightarrow> AreaPos \<Rightarrow> AreaPos \<Rightarrow> bool \<Rightarrow> ('f dev, Result) state" where
  "deleteAreaContents E area swapped noJournalLogging =
     (if area \<ge> areasNo E then ret R_bug
      else do {
        t \<leftarrow> gets (\<lambda>s. getType E (sb s) area);
        if t = T_retired then ret R_bug
        else do {
          let swappedArea = (if swapped = 0 then area else swapped);
          whenM (\<not> noJournalLogging) (add_event E (DeleteAreaContents area swappedArea));
          y \<leftarrow> loopM [0 ..< blocksPerArea E] () (erase_one E swappedArea);
          let r = (case y of Inl e \<Rightarrow> e | Inr _ \<Rightarrow> R_ok);
          increaseErasecount E area;
          resetASWritten E area;
          _ \<leftarrow> deleteSummary E area;
          whenM (\<not> noJournalLogging) (add_event E (Checkpoint Tp_areaMgmt));
          ret r
        }
      })"

definition deleteArea :: "'f env \<Rightarrow> AreaPos \<Rightarrow> ('f dev, Result) state" where
  "deleteArea E area =
     (if area \<ge> areasNo E then ret R_bug
      else do {
        t \<leftarrow> gets (\<lambda>s. getType E (sb s) area);
        if t = T_retired then ret R_bug
        else do {
          add_event E (DeleteArea area);
          r \<leftarrow> deleteAreaContents E area 0 True;
          if r \<noteq> R_ok then ret r
          else do {
            setStatus E area S_empty;
            setType E area T_unset;
            decreaseUsedAreas E;
            add_event E (Checkpoint Tp_areaMgmt);
            ret R_ok
          }
        }
      })"

subsection \<open>Replay\<close>

definition areaMgmt_resetState :: "area_mgmt \<Rightarrow> area_mgmt" where
  "areaMgmt_resetState m =
     m\<lparr>mUnfinishedTransaction := False, mLastOp := None, mLastExternOp := Ex_none\<rparr>"

definition areaMgmt_isInterestedIn :: "area_mgmt \<Rightarrow> Entry \<Rightarrow> bool" where
  "areaMgmt_isInterestedIn m e =
     (mUnfinishedTransaction m
      \<and> (entry_topic e = Tp_superblock \<or> entry_topic e = Tp_summaryCache))"

definition extern_op :: "Entry \<Rightarrow> ExternOp \<Rightarrow> ExternOp" where
  "extern_op e old =
     (case e of
        AreaMapType _ _ \<Rightarrow> Ex_setType
      | AreaMapStatus _ _ \<Rightarrow> Ex_setStatus
      | AreaMapIncreaseErasecount _ \<Rightarrow> Ex_increaseErasecount
      | ActiveArea _ _ \<Rightarrow> Ex_setActiveArea
      | UsedAreas _ \<Rightarrow> Ex_changeUsedAreas
      | SummaryRemove _ \<Rightarrow> Ex_deleteSummary
      | SummaryResetASWritten _ \<Rightarrow> Ex_resetASWritten
      | _ \<Rightarrow> old)"

definition areaMgmt_processEntry :: "Entry \<Rightarrow> area_mgmt \<Rightarrow> Result \<times> area_mgmt" where
  "areaMgmt_processEntry e m =
     (if entry_topic e = Tp_areaMgmt
      then (R_ok, m\<lparr>mUnfinishedTransaction := True, mLastOp := Some e\<rparr>)
      else if \<not> mUnfinishedTransaction m then (R_bug, m)
      else (R_ok, m\<lparr>mLastExternOp := extern_op e (mLastExternOp m)\<rparr>))"

definition resume_init :: "'f env \<Rightarrow> nat \<Rightarrow> AreaPos \<Rightarrow> AreaType \<Rightarrow> ('f dev, unit) state" where
  "resume_init E stage area type = do {
     whenM (stage \<le> 0) (setType E area type);
     st \<leftarrow> gets (\<lambda>s. getStatus E (sb s) area);
     whenM (stage \<le> 1 \<and> st = S_empty) (increaseUsedAreas E);
     whenM (stage \<le> 2) (setActiveArea E type area);
     whenM (stage \<le> 3) (add_event E (Checkpoint Tp_areaMgmt))
   }"

definition resume_close :: "'f env \<Rightarrow> nat \<Rightarrow> AreaPos \<Rightarrow> ('f dev, unit) state" where
  "resume_close E stage area = do {
     whenM (stage \<le> 0) (setStatus E area S_closed);
     t \<leftarrow> gets (\<lambda>s. getType E (sb s) area);
     whenM (stage \<le> 1) (setActiveArea E t 0);
     whenM (stage \<le> 2) (add_event E (Checkpoint Tp_areaMgmt))
   }"

definition resume_retire :: "'f env \<Rightarrow> nat \<Rightarrow> AreaPos \<Rightarrow> ('f dev, unit) state" where
  "resume_retire E stage area = do {
     whenM (stage \<le> 0) (setStatus E area S_closed);
     t \<leftarrow> gets (\<lambda>s. getType E (sb s) area);
     whenM (stage \<le> 1 \<and> t = T_unset) (increaseUsedAreas E);
     whenM (stage \<le> 2) (setType E area T_retired);
     whenM (stage \<le> 3) (do {
       for_each [0 ..< blocksPerArea E] (mark_block E area);
       add_event E (Checkpoint Tp_areaMgmt)
     })
   }"

definition resume_delete :: "'f env \<Rightarrow> nat \<Rightarrow> AreaPos \<Rightarrow> bool \<Rightarrow> ('f dev, unit) state" where
  "resume_delete E stage area contentsOnly = do {
     whenM (stage \<le> 0) (do {
       for_each [0 ..< blocksPerArea E] (\<lambda>i. do {
         p \<leftarrow> gets (\<lambda>s. getPos E (sb s) area);
         _ \<leftarrow> eraseBlock E (p * blocksPerArea E + i);
         ret ()
       });
       increaseErasecount E area
     });
     whenM (stage \<le> 1) (resetASWritten E area);
     whenM (stage \<le> 2) (do { _ \<leftarrow> deleteSummary E area; ret () });
     whenM (\<not> (contentsOnly \<and> stage \<le> 3)) (do {
       whenM (stage \<le> 3) (setStatus E area S_empty);
       whenM (stage \<le> 4) (setType E area T_unset);
       whenM (stage \<le> 5) (decreaseUsedAreas E);
       whenM (stage \<le> 6) (add_event E (Checkpoint Tp_areaMgmt))
     })
   }"

fun delete_stage :: "ExternOp \<Rightarrow> nat" where
  "delete_stage Ex_none = 0"
| "delete_stage Ex_increaseErasecount = 1"
| "delete_stage Ex_resetASWritten = 2"
| "delete_stage Ex_deleteSummary = 3"
| "delete_stage Ex_setStatus = 4"
| "delete_stage Ex_setType = 5"
| "delete_stage Ex_changeUsedAreas = 6"
| "delete_stage Ex_setActiveArea = 7"

definition areaMgmt_signalEndOfLog :: "'f env \<Rightarrow> ('f dev, unit) state" where
  "areaMgmt_signalEndOfLog E = do {
     m \<leftarrow> gets am;
     if \<not> mUnfinishedTransaction m then ret ()
     else do {
       (case mLastOp m of
          Some (InitAreaAs a t) \<Rightarrow> resume_init E
            (case mLastExternOp m of Ex_none \<Rightarrow> 0 | Ex_setType \<Rightarrow> 1 | Ex_changeUsedAreas \<Rightarrow> 2
             | Ex_setActiveArea \<Rightarrow> 3 | _ \<Rightarrow> 4) a t
        | Some (CloseArea a) \<Rightarrow> resume_close E
            (case mLastExternOp m of Ex_none \<Rightarrow> 0 | Ex_setStatus \<Rightarrow> 1 | Ex_setActiveArea \<Rightarrow> 2
             | _ \<Rightarrow> 3) a
        | Some (RetireArea a) \<Rightarrow> resume_retire E
            (case mLastExternOp m of Ex_none \<Rightarrow> 0 | Ex_setStatus \<Rightarrow> 1 | Ex_changeUsedAreas \<Rightarrow> 2
             | Ex_setType \<Rightarrow> 3 | _ \<Rightarrow> 4) a
        | Some (DeleteArea a) \<Rightarrow> resume_delete E (delete_stage (mLastExternOp m)) a False
        | Some (DeleteAreaContents a sw) \<Rightarrow> resume_delete E (delete_stage (mLastExternOp m)) a True
        | _ \<Rightarrow> ret ());
       add_event E (Checkpoint Tp_areaMgmt)
     }
   }"

end
