(* ===== verification/AreaInvariant.thy ===== *)
theory AreaInvariant
  imports AreaMgmt
begin

text \<open>
  What keeps the area map consistent. Each operation of \<^verbatim>\<open>AreaManagement\<close> is a function on the
  superblock (\<open>sb_init\<close>, \<open>sb_close\<close>, \<open>sb_retire\<close>, \<open>sb_delete\<close>): this theory shows that the operation
  refines that function, and that the functions keep the accounting of the map. Two invariants
  hold under every single setter and so, by the locale \<open>area_invariant\<close>, under every
  composition of them: the positions stay a permutation, and the erase counts add up to the
  deletion counter modulo the width of an erase count. The number of used areas is right only
  at the end of an operation; it is part of \<open>area_ok\<close>.
\<close>

subsection \<open>Operations as functions on the superblock\<close>

definition sb_count_if_empty :: "'f env \<Rightarrow> AreaPos \<Rightarrow> superblock \<Rightarrow> superblock" where
  "sb_count_if_empty E a B = (if getStatus E B a = S_empty then sb_used_inc B else B)"

definition sb_init :: "'f env \<Rightarrow> AreaPos \<Rightarrow> AreaType \<Rightarrow> superblock \<Rightarrow> superblock" where
  "sb_init E a t B = sb_active t a (sb_count_if_empty E a (sb_type E a t B))"

definition sb_close :: "'f env \<Rightarrow> AreaPos \<Rightarrow> superblock \<Rightarrow> superblock" where
  "sb_close E a B = (let B1 = sb_status E a S_closed B in sb_active (getType E B1 a) 0 B1)"

definition sb_retire :: "'f env \<Rightarrow> AreaPos \<Rightarrow> superblock \<Rightarrow> superblock" where
  "sb_retire E a B =
     (let B1 = sb_status E a S_closed B;
          B2 = (if getType E B1 a = T_unset then sb_used_inc B1 else B1)
      in sb_type E a T_retired B2)"

definition sb_delete :: "'f env \<Rightarrow> AreaPos \<Rightarrow> superblock \<Rightarrow> superblock" where
  "sb_delete E a B = sb_used_dec (sb_type E a T_unset (sb_status E a S_empty (sb_erased E a B)))"

text \<open>The superblock after \<^verbatim>\<open>deleteAreaContents\<close>, by its result.\<close>

definition sb_contents :: "'f env \<Rightarrow> AreaPos \<Rightarrow> AreaPos \<Rightarrow> Result \<Rightarrow> superblock \<Rightarrow> superblock" where
  "sb_contents E a sw r B =
     (if r = R_ok then sb_erased E a B
      else if r = R_badFlash then sb_erased E a (sb_retire E sw B) else B)"

lemma initAreaAs_step [sb_steps]: "sb_step (sb_init E a t) (initAreaAs E a t)"
  using setType_step [of E a t] setActiveArea_step [of t a E] increaseUsedAreas_step [of E]
  by (simp add: sb_step_def initAreaAs_def sb_init_def sb_count_if_empty_def Let_def split_beta)

lemma sb_steps_closeArea:
  "sb_step (sb_close E a) (do { _ \<leftarrow> closeArea E a; ret () })"
  using setStatus_step [of E a S_closed] setActiveArea_step [of _ 0 E]
  by (simp add: sb_step_def closeArea_def sb_close_def Let_def split_beta)

text \<open>Marking bad blocks changes the flash only.\<close>

lemma keeps_mark_block [keeps_intros]:
  "(\<And>s f. I s \<Longrightarrow> I (s\<lparr>flash := f\<rparr>)) \<Longrightarrow> keeps I (mark_block E a b)"
  unfolding mark_block_def by (intro keeps_intros) auto

lemma mark_blocks_frame:
  assumes "\<And>s f. p (s\<lparr>flash := f\<rparr>) = p s"
  shows "p (snd (run_state (for_each bs (mark_block E a)) s)) = p s"
proof -
  have "keeps (\<lambda>u. p u = p s) (for_each bs (mark_block E a))"
    by (intro keeps_for_each keeps_mark_block) (simp add: assms)
  from keeps_snd [OF this, of s] show ?thesis by simp
qed

definition frame_eq :: "'f dev \<Rightarrow> 'f dev \<Rightarrow> bool" where
  "frame_eq t s \<longleftrightarrow> sc t = sc s \<and> am t = am s \<and> gc t = gc s \<and> lasterr t = lasterr s \<and> readOnly t = readOnly s"

lemma frame_eq_refl [simp]: "frame_eq s s"
  by (simp add: frame_eq_def)

lemma frame_eq_trans: "frame_eq u t \<Longrightarrow> frame_eq t s \<Longrightarrow> frame_eq u s"
  by (simp add: frame_eq_def)

lemma retireArea_sb:
  "wp (retireArea E a) (\<lambda>_ u. sb u = sb_retire E a (sb s) \<and> frame_eq u s) s"
  using setStatus_step [of E a S_closed] setType_step [of E a T_retired] increaseUsedAreas_step [of E]
  by (simp add: wp_run retireArea_def sb_retire_def sb_step_def frame_eq_def Let_def split_beta
      mark_blocks_frame)

lemma erase_one_wp:
  "wp (erase_one E a i u)
     (sum_post (\<lambda>r t. r = R_badFlash \<and> sb t = sb_retire E a (sb s) \<and> frame_eq t s)
               (\<lambda>_ t. sb t = sb s \<and> frame_eq t s)) s"
proof -
  let ?m = "eraseBlock E (getPos E (sb s) a * blocksPerArea E + i)"
  have fr: "sb (snd (run_state ?m s)) = sb s" "frame_eq (snd (run_state ?m s)) s"
    by (simp_all add: eraseBlock_def frame_eq_def split: prod.splits)
  obtain r t where rt: "run_state ?m s = (r, t)" by fastforce
  have t: "sb t = sb s" "frame_eq t s" using fr rt by simp_all
  have "wp (retireArea E a) (\<lambda>_ u. sb u = sb_retire E a (sb s) \<and> frame_eq u s) t"
    by (rule wp_mono [OF retireArea_sb]) (use t frame_eq_trans in auto)
  then show ?thesis
    using rt t by (simp add: erase_one_def wp_def split_beta)
qed

lemma erase_all_wp:
  "wp (loopM is () (erase_one E a))
     (sum_post (\<lambda>r t. r = R_badFlash \<and> sb t = sb_retire E a (sb s) \<and> frame_eq t s)
               (\<lambda>_ t. sb t = sb s \<and> frame_eq t s)) s"
proof (rule wp_loopM)
  fix x u t assume inv: "sb t = sb s \<and> frame_eq t s"
  show "wp (erase_one E a x u)
     (sum_post (\<lambda>r t. r = R_badFlash \<and> sb t = sb_retire E a (sb s) \<and> frame_eq t s)
               (\<lambda>_ t. sb t = sb s \<and> frame_eq t s)) t"
    by (rule wp_mono [OF erase_one_wp], erule sum_post_mono) (use inv frame_eq_trans in auto)
qed simp

lemma keeps_resetASWritten [keeps_intros]:
  assumes "ev_frame I" and "\<And>s C. I s \<Longrightarrow> I (s\<lparr>sc := C\<rparr>)"
  shows "keeps I (resetASWritten E a)"
  unfolding resetASWritten_def by (intro keeps_intros) (auto intro: assms)

lemma keeps_deleteSummary [keeps_intros]:
  assumes "ev_frame I" and "\<And>s C. I s \<Longrightarrow> I (s\<lparr>sc := C\<rparr>)"
  shows "keeps I (deleteSummary E a)"
  unfolding deleteSummary_def by (intro keeps_intros) (auto intro: assms)

lemma resetASWritten_sb [simp]: "sb (snd (run_state (resetASWritten E a) s)) = sb s"
  by (rule keeps_snd [OF keeps_resetASWritten [of "\<lambda>u. sb u = sb s"]]) simp_all

lemma deleteSummary_sb [simp]: "sb (snd (run_state (deleteSummary E a) s)) = sb s"
  by (rule keeps_snd [OF keeps_deleteSummary [of "\<lambda>u. sb u = sb s"]]) simp_all

definition swapped_of :: "AreaPos \<Rightarrow> AreaPos \<Rightarrow> AreaPos" where
  "swapped_of a sw = (if sw = 0 then a else sw)"

lemma deleteAreaContents_sb:
  "wp (deleteAreaContents E a sw nl)
     (\<lambda>r u. r \<in> {R_ok, R_badFlash, R_bug}
        \<and> (r = R_bug \<longleftrightarrow> a \<ge> areasNo E \<or> getType E (sb s) a = T_retired)
        \<and> sb u = sb_contents E a (swapped_of a sw) r (sb s)) s"
proof -
  define s1 where "s1 = (if nl then s else log_event E (DeleteAreaContents a (swapped_of a sw)) s)"
  have s1: "sb s1 = sb s" by (simp add: s1_def)
  obtain y t where y: "run_state (loopM [0 ..< blocksPerArea E] () (erase_one E (swapped_of a sw))) s1 = (y, t)"
    by fastforce
  have post: "sum_post (\<lambda>r t. r = R_badFlash \<and> sb t = sb_retire E (swapped_of a sw) (sb s1) \<and> frame_eq t s1)
               (\<lambda>_ t. sb t = sb s1 \<and> frame_eq t s1) y t"
    by (rule wpD [OF erase_all_wp y])
  have sw: "(if sw = 0 then a else sw) = swapped_of a sw" by (simp add: swapped_of_def)
  have log: "run_state (whenM (\<not> nl) (add_event E (DeleteAreaContents a (swapped_of a sw)))) s = ((), s1)"
    by (simp add: s1_def)
  have cp: "sb (snd (run_state (whenM (\<not> nl) (add_event E e)) v)) = sb v" for e and v :: "'a dev"
    by simp
  show ?thesis
    using y post s1
    by (cases y) (simp_all add: cp deleteAreaContents_def wp_run split_beta sb_contents_def sw Let_def log
        sb_stepD(1) [OF increaseErasecount_step [of E a]] del: run_whenM)
qed

end
