(* ===== verification/AreaAccounting.thy ===== *)
theory AreaAccounting
  imports AreaInvariant
begin

text \<open>
  The invariants of the area map over the functions of \<^verbatim>\<open>AreaInvariant\<close>: the locale
  \<open>map_invariant\<close> for invariants of single setters with its two instances, the positions and the
  erase counts, and the accounting invariant \<open>area_ok\<close> of whole operations.
\<close>

subsection \<open>Invariants of single setters\<close>

locale map_invariant =
  fixes E :: "'f env" and I :: "superblock \<Rightarrow> bool"
  assumes I_type: "I B \<Longrightarrow> I (sb_type E a t B)"
    and I_status: "I B \<Longrightarrow> I (sb_status E a st B)"
    and I_erased: "I B \<Longrightarrow> I (sb_erased E a B)"
    and I_active: "I B \<Longrightarrow> I (sb_active t a B)"
    and I_used: "I B \<Longrightarrow> I (sb_used n B)"
    and I_swap: "I B \<Longrightarrow> I (sb_swap E a b B)"
begin

lemma I_init: "I B \<Longrightarrow> I (sb_init E a t B)"
  by (simp add: sb_init_def sb_count_if_empty_def sb_used_inc_def I_type I_active I_used)

lemma I_close: "I B \<Longrightarrow> I (sb_close E a B)"
  by (simp add: sb_close_def Let_def I_status I_active)

lemma I_retire: "I B \<Longrightarrow> I (sb_retire E a B)"
  by (simp add: sb_retire_def Let_def sb_used_inc_def I_status I_type I_used)

lemma I_delete: "I B \<Longrightarrow> I (sb_delete E a B)"
  by (simp add: sb_delete_def sb_used_dec_def I_status I_type I_used I_erased)

lemma I_contents: "I B \<Longrightarrow> I (sb_contents E a sw r B)"
  by (simp add: sb_contents_def I_erased I_retire)

end

subsection \<open>Positions\<close>

definition sb_shape :: "'f env \<Rightarrow> superblock \<Rightarrow> bool" where
  "sb_shape E B \<longleftrightarrow> length (mMap B) = areasNo E \<and> length (mActiveAreas B) = area_type_code T_no"

definition posns :: "superblock \<Rightarrow> AreaPos list" where
  "posns B = map a_position (mMap B)"

definition erases :: "superblock \<Rightarrow> nat list" where
  "erases B = map a_erasecount (mMap B)"

definition pos_ok :: "'f env \<Rightarrow> superblock \<Rightarrow> bool" where
  "pos_ok E B \<longleftrightarrow> sb_shape E B \<and> mset (posns B) = mset [0 ..< areasNo E]"

definition erase_ok :: "'f env \<Rightarrow> superblock \<Rightarrow> bool" where
  "erase_ok E B \<longleftrightarrow>
     sb_shape E B \<and>
     mOverallDeletions B mod 2 ^ erasecount_bits = sum_list (erases B) mod 2 ^ erasecount_bits"

lemma map_upd_same: "(\<And>r. g (f r) = g r) \<Longrightarrow> map g (xs[a := f (xs ! a)]) = map g xs"
  by (metis list_update_id map_update)

lemma shape_simps [simp]:
  "sb_shape E (upd_area a f B) = sb_shape E B"
  "sb_shape E (sb_type E a t B) = sb_shape E B"
  "sb_shape E (sb_status E a st B) = sb_shape E B"
  "sb_shape E (sb_erased E a B) = sb_shape E B"
  "sb_shape E (sb_active u a B) = sb_shape E B"
  "sb_shape E (sb_used n B) = sb_shape E B"
  "sb_shape E (sb_swap E a b B) = sb_shape E B"
  by (auto simp: sb_shape_def sb_type_def sb_status_def sb_erased_def sb_active_def sb_used_def
      sb_swap_def swap_areas_def upd_area_def Let_def)

lemma swap_mMap:
  assumes "a < length (mMap B)" and "b < length (mMap B)"
  shows "mMap (swap_areas a b B) =
    (let r = mMap B ! a; q = mMap B ! b in
     (mMap B)[a := r\<lparr>a_position := a_position q, a_erasecount := a_erasecount q\<rparr>,
              b := q\<lparr>a_position := a_position r, a_erasecount := a_erasecount r\<rparr>])"
  using assms by (cases "a = b") (simp_all add: swap_areas_def upd_area_def Let_def)

lemma swap_map_proj:
  assumes "a < length (mMap B)" and "b < length (mMap B)"
    and "\<And>r q. g (r\<lparr>a_position := a_position q, a_erasecount := a_erasecount q\<rparr>) = g q"
  shows "mset (map g (mMap (swap_areas a b B))) = mset (map g (mMap B))"
proof -
  let ?xs = "map g (mMap B)"
  have "map g (mMap (swap_areas a b B)) = ?xs[a := ?xs ! b, b := ?xs ! a]"
    using assms by (simp add: swap_mMap Let_def map_update)
  then show ?thesis using assms(1,2) mset_swap_list [of a ?xs b] by simp
qed

lemma posns_upd: "(\<And>r. a_position (f r) = a_position r) \<Longrightarrow> posns (upd_area a f B) = posns B"
  by (simp add: posns_def upd_area_def map_upd_same)

lemma posns_fields [simp]:
  "posns (B\<lparr>mUsedAreas := n\<rparr>) = posns B" "posns (B\<lparr>mOverallDeletions := n\<rparr>) = posns B"
  "posns (B\<lparr>mActiveAreas := l\<rparr>) = posns B"
  by (simp_all add: posns_def)

lemma posns_steps [simp]:
  "posns (sb_type E a t B) = posns B" "posns (sb_status E a st B) = posns B"
  "posns (sb_erased E a B) = posns B" "posns (sb_active t a B) = posns B"
  "posns (sb_used n B) = posns B"
  by (simp_all add: sb_type_def sb_status_def sb_erased_def sb_active_def sb_used_def posns_upd)

lemma posns_swap: "sb_shape E B \<Longrightarrow> mset (posns (sb_swap E a b B)) = mset (posns B)"
  using swap_map_proj [of a B b a_position] by (simp add: sb_swap_def sb_shape_def posns_def)

interpretation positions: map_invariant E "pos_ok E" for E :: "'f env"
  by unfold_locales (simp_all only: pos_ok_def shape_simps posns_steps posns_swap)

lemma pos_ok_range:
  assumes "pos_ok E B" and "a < areasNo E"
  shows "a_position (mMap B ! a) < areasNo E"
proof -
  have "set (posns B) = {0 ..< areasNo E}"
    using assms(1) unfolding pos_ok_def by (metis set_mset_mset set_upt)
  moreover have "a_position (mMap B ! a) \<in> set (posns B)"
    using assms by (simp add: posns_def pos_ok_def sb_shape_def)
  ultimately show ?thesis by simp
qed

lemma pos_ok_inj:
  assumes "pos_ok E B" and "a < areasNo E" and "b < areasNo E"
    and "a_position (mMap B ! a) = a_position (mMap B ! b)"
  shows "a = b"
proof -
  have d: "distinct (posns B)"
    using assms(1) unfolding pos_ok_def by (metis distinct_upt mset_eq_imp_distinct_iff)
  have l: "length (posns B) = areasNo E" "posns B ! a = posns B ! b"
    using assms by (simp_all add: posns_def pos_ok_def sb_shape_def)
  show ?thesis using d l assms(2,3) by (simp add: nth_eq_iff_index_eq)
qed

subsection \<open>Erase counts\<close>

lemma erases_upd: "(\<And>r. a_erasecount (f r) = a_erasecount r) \<Longrightarrow> erases (upd_area a f B) = erases B"
  by (simp add: erases_def upd_area_def map_upd_same)

lemma erases_fields [simp]:
  "erases (B\<lparr>mUsedAreas := n\<rparr>) = erases B" "erases (B\<lparr>mOverallDeletions := n\<rparr>) = erases B"
  "erases (B\<lparr>mActiveAreas := l\<rparr>) = erases B"
  by (simp_all add: erases_def)

lemma erases_steps [simp]:
  "erases (sb_type E a t B) = erases B" "erases (sb_status E a st B) = erases B"
  "erases (sb_active t a B) = erases B" "erases (sb_used n B) = erases B"
  by (simp_all add: sb_type_def sb_status_def sb_active_def sb_used_def erases_upd)

lemma deletions_steps [simp]:
  "mOverallDeletions (sb_type E a t B) = mOverallDeletions B"
  "mOverallDeletions (sb_status E a st B) = mOverallDeletions B"
  "mOverallDeletions (sb_active t a B) = mOverallDeletions B"
  "mOverallDeletions (sb_used n B) = mOverallDeletions B"
  "mOverallDeletions (sb_swap E a b B) = mOverallDeletions B"
  by (simp_all add: sb_type_def sb_status_def sb_active_def sb_used_def sb_swap_def swap_areas_def Let_def)

lemma erases_swap: "sb_shape E B \<Longrightarrow> sum_list (erases (sb_swap E a b B)) = sum_list (erases B)"
  using swap_map_proj [of a B b a_erasecount]
  by (metis (no_types, lifting) Area.ext_inject Area.surjective Area.update_convs(3,4) erases_def
      not_le sb_shape_def sb_swap_def sum_mset_sum_list)

lemma erases_erased:
  assumes "sb_shape E B" and "a < areasNo E"
  shows "sum_list (erases (sb_erased E a B)) mod 2 ^ erasecount_bits
       = (sum_list (erases B) + 1) mod 2 ^ erasecount_bits"
proof -
  let ?M = "2 ^ erasecount_bits :: nat" and ?xs = "erases B"
  define S where "S = sum_list (?xs[a := (?xs ! a + 1) mod ?M])"
  have a: "a < length ?xs" using assms by (simp add: erases_def sb_shape_def)
  have map: "erases (sb_erased E a B) = ?xs[a := (?xs ! a + 1) mod ?M]"
    using a assms(2) by (simp add: sb_erased_def upd_area_def erases_def map_update)
  have "S + ?xs ! a = sum_list ?xs + (?xs ! a + 1) mod ?M"
    unfolding S_def by (rule sum_list_update_nat [OF a])
  moreover have "(?xs ! a + 1) mod ?M + ?M * ((?xs ! a + 1) div ?M) = ?xs ! a + 1"
    by (rule mod_mult_div_eq)
  ultimately have "S + ?M * ((?xs ! a + 1) div ?M) = sum_list ?xs + 1" by linarith
  then have "S mod ?M = (sum_list ?xs + 1) mod ?M" by (metis mod_mult_self2)
  then show ?thesis unfolding map S_def [symmetric] .
qed

lemma erase_ok_erased: "erase_ok E B \<Longrightarrow> erase_ok E (sb_erased E a B)"
proof (cases "a < areasNo E")
  case True
  assume B: "erase_ok E B"
  have "(2::nat) ^ erasecount_bits dvd 2 ^ 64" by (rule le_imp_power_dvd) (simp add: erasecount_bits_def)
  then have "mOverallDeletions (sb_erased E a B) mod 2 ^ erasecount_bits
      = (mOverallDeletions B + 1) mod 2 ^ erasecount_bits"
    using True by (simp add: sb_erased_def mod_mod_cancel)
  also have "\<dots> = (sum_list (erases B) + 1) mod 2 ^ erasecount_bits"
    using B unfolding erase_ok_def by (metis mod_add_left_eq)
  also have "\<dots> = sum_list (erases (sb_erased E a B)) mod 2 ^ erasecount_bits"
    using B True erases_erased [of E B a] unfolding erase_ok_def by metis
  finally show ?thesis using B by (simp add: erase_ok_def)
qed (simp add: sb_erased_def)

interpretation erasures: map_invariant E "erase_ok E" for E :: "'f env"
  by unfold_locales
    (simp_all only: erase_ok_erased, simp_all only: erase_ok_def shape_simps erases_steps deletions_steps erases_swap)

subsection \<open>Accounting of whole operations\<close>

definition ty :: "superblock \<Rightarrow> AreaPos \<Rightarrow> AreaType" where
  "ty B i = a_type (mMap B ! i)"

definition stat :: "superblock \<Rightarrow> AreaPos \<Rightarrow> AreaStatus" where
  "stat B i = a_status (mMap B ! i)"

definition used_count :: "'f env \<Rightarrow> superblock \<Rightarrow> nat" where
  "used_count E B = count_upto (areasNo E) (\<lambda>i. stat B i \<noteq> S_empty)"

text \<open>
  An active area is registered with its type. The garbage buffer may be an area that was retired
  under it, because one caller of \<^verbatim>\<open>deleteAreaContents\<close> ignores that it failed.
\<close>

definition slot_ok :: "'f env \<Rightarrow> superblock \<Rightarrow> AreaType \<Rightarrow> bool" where
  "slot_ok E B t \<longleftrightarrow>
     (let a = getActiveArea B t in
      a = 0 \<or> t \<noteq> T_unset \<and> t \<noteq> T_retired \<and> a < areasNo E \<and> stat B a \<noteq> S_empty
        \<and> (ty B a = t \<and> stat B a = S_active \<or> t = T_garbageBuffer \<and> ty B a = T_retired))"

definition area_ok :: "'f env \<Rightarrow> superblock \<Rightarrow> bool" where
  "area_ok E B \<longleftrightarrow>
     sb_shape E B \<and> mUsedAreas B = used_count E B \<and> 0 < areasNo E \<and> stat B 0 \<noteq> S_empty \<and>
     (\<forall>i<areasNo E. (ty B i = T_unset \<longrightarrow> stat B i = S_empty) \<and>
                   (stat B i = S_empty \<longrightarrow> ty B i = T_unset \<or> ty B i = T_superblock)) \<and>
     (\<forall>t. slot_ok E B t)"

lemma table [simp]:
  assumes "sb_shape E B" and "i < areasNo E"
  shows "ty (sb_type E a t B) i = (if i = a then t else ty B i)"
    and "stat (sb_type E a t B) i = stat B i"
    and "ty (sb_status E a s B) i = ty B i"
    and "stat (sb_status E a s B) i = (if i = a then s else stat B i)"
    and "ty (sb_erased E a B) i = ty B i"
    and "stat (sb_erased E a B) i = stat B i"
    and "ty (sb_active t a B) i = ty B i"
    and "stat (sb_active t a B) i = (if i = a \<and> t \<noteq> T_no then S_active else stat B i)"
    and "ty (sb_used n B) i = ty B i"
    and "stat (sb_used n B) i = stat B i"
    and "ty (sb_swap E a b B) i = ty B i"
    and "stat (sb_swap E a b B) i = stat B i"
  using assms
  by (auto simp: sb_shape_def ty_def stat_def sb_type_def sb_status_def sb_erased_def sb_active_def
      sb_used_def sb_swap_def swap_areas_def upd_area_nth Let_def)

lemma used_table [simp]:
  "mUsedAreas (sb_type E a t B) = mUsedAreas B" "mUsedAreas (sb_status E a s B) = mUsedAreas B"
  "mUsedAreas (sb_erased E a B) = mUsedAreas B" "mUsedAreas (sb_active t a B) = mUsedAreas B"
  "mUsedAreas (sb_used n B) = n" "mUsedAreas (sb_swap E a b B) = mUsedAreas B"
  by (simp_all add: sb_type_def sb_status_def sb_erased_def sb_active_def sb_used_def sb_swap_def
      swap_areas_def Let_def)

lemma active_table [simp]:
  "getActiveArea (sb_type E a t B) u = getActiveArea B u"
  "getActiveArea (sb_status E a s B) u = getActiveArea B u"
  "getActiveArea (sb_erased E a B) u = getActiveArea B u"
  "getActiveArea (sb_used n B) u = getActiveArea B u"
  "getActiveArea (sb_swap E a b B) u = getActiveArea B u"
  by (simp_all add: getActiveArea_def sb_type_def sb_status_def sb_erased_def sb_used_def sb_swap_def
      swap_areas_def Let_def)

lemma active_set [simp]:
  "sb_shape E B \<Longrightarrow> getActiveArea (sb_active t a B) u = (if u = t \<and> t \<noteq> T_no then a else getActiveArea B u)"
  using area_type_code_less [of t] by (auto simp: getActiveArea_def sb_active_def sb_shape_def nth_list_update)

lemma getStatus_stat: "a < areasNo E \<Longrightarrow> getStatus E B a = stat B a"
  by (simp add: getStatus_def stat_def)

lemma getType_ty: "a < areasNo E \<Longrightarrow> getType E B a = ty B a"
  by (simp add: getType_def ty_def)

lemma used_count_upd:
  assumes "a < areasNo E" and "\<And>i. i < areasNo E \<Longrightarrow> i \<noteq> a \<Longrightarrow> (stat B' i = S_empty) = (stat B i = S_empty)"
  shows "used_count E B' + (if stat B a = S_empty then 0 else 1)
       = used_count E B + (if stat B' a = S_empty then 0 else 1)"
  using count_upto_upd [of a "areasNo E" "\<lambda>i. stat B' i \<noteq> S_empty" "\<lambda>i. stat B i \<noteq> S_empty"] assms
  by (simp add: used_count_def split: if_splits)

lemma used_count_cong:
  "(\<And>i. i < areasNo E \<Longrightarrow> (stat B' i = S_empty) = (stat B i = S_empty)) \<Longrightarrow> used_count E B' = used_count E B"
  unfolding used_count_def by (rule count_upto_cong) simp

lemma used_count_pos: "a < areasNo E \<Longrightarrow> stat B a \<noteq> S_empty \<Longrightarrow> 0 < used_count E B"
  unfolding used_count_def count_upto_card by (rule card_gt_0_iff [THEN iffD2]) auto

lemma used_count_less: "a < areasNo E \<Longrightarrow> stat B a = S_empty \<Longrightarrow> used_count E B < areasNo E"
proof -
  assume "a < areasNo E" and "stat B a = S_empty"
  then have "{i. i < areasNo E \<and> stat B i \<noteq> S_empty} \<subset> {..<areasNo E}" by auto
  from psubset_card_mono [OF _ this] show ?thesis
    unfolding used_count_def count_upto_card by simp
qed

lemma used_count_le: "used_count E B \<le> areasNo E"
  by (simp add: used_count_def count_upto_le)

end
