(* ===== verification/AreaOpsOk.thy ===== *)
theory AreaOpsOk
  imports AreaAccounting
begin

text \<open>
  Every operation of the area management keeps \<open>area_ok\<close>: the number of used areas stays the
  number of areas that are not empty, types and statuses stay matched, and an active area
  stays registered under its type.
\<close>

lemma area_okD:
  assumes "area_ok E B"
  shows "sb_shape E B" and "mUsedAreas B = used_count E B" and "0 < areasNo E" and "stat B 0 \<noteq> S_empty"
    and "slot_ok E B t"
    and "i < areasNo E \<Longrightarrow> ty B i = T_unset \<Longrightarrow> stat B i = S_empty"
    and "i < areasNo E \<Longrightarrow> stat B i = S_empty \<Longrightarrow> ty B i = T_unset \<or> ty B i = T_superblock"
  using assms by (auto simp: area_ok_def)

lemma area_okI:
  assumes "sb_shape E B" and "mUsedAreas B = used_count E B" and "0 < areasNo E" and "stat B 0 \<noteq> S_empty"
    and "\<And>t. slot_ok E B t"
    and "\<And>i. i < areasNo E \<Longrightarrow> ty B i = T_unset \<Longrightarrow> stat B i = S_empty"
    and "\<And>i. i < areasNo E \<Longrightarrow> stat B i = S_empty \<Longrightarrow> ty B i = T_unset \<or> ty B i = T_superblock"
  shows "area_ok E B"
  using assms by (auto simp: area_ok_def)

text \<open>An area keeps its type and its emptiness, or gets a type and a status that fit.\<close>

definition pair_ok :: "AreaType \<Rightarrow> AreaStatus \<Rightarrow> bool" where
  "pair_ok t s \<longleftrightarrow> (t = T_unset \<longrightarrow> s = S_empty) \<and> (s = S_empty \<longrightarrow> t = T_unset \<or> t = T_superblock)"

lemma area_ok_upd:
  assumes B: "area_ok E B" and "sb_shape E B'" and "mUsedAreas B' = used_count E B'" and "stat B' 0 \<noteq> S_empty"
    and "\<And>t. slot_ok E B' t"
    and same: "\<And>i. i < areasNo E \<Longrightarrow>
      ty B' i = ty B i \<and> (stat B' i = S_empty) = (stat B i = S_empty) \<or> pair_ok (ty B' i) (stat B' i)"
  shows "area_ok E B'"
proof (rule area_okI)
  fix i assume i: "i < areasNo E"
  have "pair_ok (ty B i) (stat B i)" using area_okD(6,7) [OF B i] by (auto simp: pair_ok_def)
  then have "pair_ok (ty B' i) (stat B' i)" using same [OF i] by (auto simp: pair_ok_def)
  then show "ty B' i = T_unset \<Longrightarrow> stat B' i = S_empty"
    and "stat B' i = S_empty \<Longrightarrow> ty B' i = T_unset \<or> ty B' i = T_superblock"
    by (auto simp: pair_ok_def)
qed (use assms area_okD(3) [OF B] in auto)

lemma slot_ok_cong:
  assumes "slot_ok E B t" and "getActiveArea B' t = getActiveArea B t"
    and "getActiveArea B t \<noteq> 0 \<Longrightarrow> getActiveArea B t < areasNo E \<Longrightarrow>
         ty B' (getActiveArea B t) = ty B (getActiveArea B t)
         \<and> stat B' (getActiveArea B t) = stat B (getActiveArea B t)"
  shows "slot_ok E B' t"
  using assms by (auto simp: slot_ok_def Let_def)

lemma wrap_inc: "x < y \<Longrightarrow> y < 2 ^ 16 \<Longrightarrow> (x + 1) mod 2 ^ 16 = x + (1::nat)"
  by simp

lemma wrap_dec: "0 < x \<Longrightarrow> x < 2 ^ 16 \<Longrightarrow> (x + 2 ^ 16 - 1) mod 2 ^ 16 = x - (1::nat)"
proof -
  assume x: "0 < x" "x < 2 ^ 16"
  then have "x + 2 ^ 16 - 1 = (x - 1) + 2 ^ 16 * 1" by simp
  then show ?thesis using x by (metis less_imp_diff_less mod_less mod_mult_self2)
qed

lemma sb_used_inc_eq [simp]:
  "mUsedAreas (sb_used_inc B) = (mUsedAreas B + 1) mod 2 ^ 16"
  "ty (sb_used_inc B) i = ty B i" "stat (sb_used_inc B) i = stat B i"
  "getActiveArea (sb_used_inc B) t = getActiveArea B t" "sb_shape E (sb_used_inc B) = sb_shape E B"
  "used_count E (sb_used_inc B) = used_count E B"
  by (simp_all add: sb_used_inc_def sb_used_def ty_def stat_def getActiveArea_def sb_shape_def used_count_def)

lemma sb_used_dec_eq [simp]:
  "mUsedAreas (sb_used_dec B) = (mUsedAreas B + 2 ^ 16 - 1) mod 2 ^ 16"
  "ty (sb_used_dec B) i = ty B i" "stat (sb_used_dec B) i = stat B i"
  "getActiveArea (sb_used_dec B) t = getActiveArea B t" "sb_shape E (sb_used_dec B) = sb_shape E B"
  "used_count E (sb_used_dec B) = used_count E B"
  by (simp_all add: sb_used_dec_def sb_used_def ty_def stat_def getActiveArea_def sb_shape_def used_count_def)

text \<open>What \<open>sb_init\<close> does, area by area.\<close>

lemma sb_init_table:
  assumes "sb_shape E B" and "i < areasNo E" and "a < areasNo E" and "t \<noteq> T_no"
  shows "ty (sb_init E a t B) i = (if i = a then t else ty B i)"
    and "stat (sb_init E a t B) i = (if i = a then S_active else stat B i)"
    and "getActiveArea (sb_init E a t B) u = (if u = t then a else getActiveArea B u)"
    and "mUsedAreas (sb_init E a t B) =
         (if stat B a = S_empty then (mUsedAreas B + 1) mod 2 ^ 16 else mUsedAreas B)"
    and "sb_shape E (sb_init E a t B)"
  using assms
  by (simp_all add: sb_init_def sb_count_if_empty_def getStatus_stat table [of E] active_set [of E])

lemma area_ok_init:
  assumes B: "area_ok E B" and a: "a < areasNo E" "a \<noteq> 0" and t: "t \<noteq> T_no" "t \<noteq> T_unset" "t \<noteq> T_retired"
    and na: "stat B a \<noteq> S_active" and gb: "getActiveArea B T_garbageBuffer \<noteq> a \<or> t = T_garbageBuffer"
    and size: "areasNo E < 2 ^ 16"
  shows "area_ok E (sb_init E a t B)"
proof -
  note [simp] = sb_init_table [OF area_okD(1) [OF B] _ a(1) t(1)]
  let ?B = "sb_init E a t B"
  have sh: "sb_shape E ?B" using a by simp
  have "used_count E ?B + (if stat B a = S_empty then 0 else 1) = used_count E B + (if stat ?B a = S_empty then 0 else 1)"
    by (rule used_count_upd [OF a(1)]) simp
  then have cnt: "used_count E ?B = (if stat B a = S_empty then used_count E B + 1 else used_count E B)"
    using a(1) by (simp split: if_splits)
  have used: "mUsedAreas ?B = used_count E ?B"
  proof (cases "stat B a = S_empty")
    case True
    have "(used_count E B + 1) mod 2 ^ 16 = used_count E B + 1"
      by (rule wrap_inc [OF used_count_less [OF a(1) True] size])
    moreover have "mUsedAreas ?B = (used_count E B + 1) mod 2 ^ 16"
      using True a(1) area_okD(2) [OF B] by simp
    ultimately show ?thesis using cnt True by simp
  next
    case False
    then show ?thesis using cnt a(1) area_okD(2) [OF B] by simp
  qed
  have slots: "slot_ok E ?B u" for u
  proof (cases "u = t")
    case True
    then show ?thesis using a t by (simp add: slot_ok_def Let_def)
  next
    case False
    have "getActiveArea B u \<noteq> 0 \<Longrightarrow> getActiveArea B u \<noteq> a"
      using area_okD(5) [OF B, of u] na gb False by (auto simp: slot_ok_def Let_def)
    then show ?thesis
      using False a(1) by (intro slot_ok_cong [OF area_okD(5) [OF B, of u]]) auto
  qed
  show ?thesis
    by (rule area_ok_upd [OF B _ used _ slots])
      (use a t area_okD(3,4) [OF B] in \<open>simp_all add: pair_ok_def\<close>)
qed

lemma sb_close_table:
  assumes "sb_shape E B" and "i < areasNo E" and "a < areasNo E" and "ty B a \<noteq> T_no"
  shows "ty (sb_close E a B) i = ty B i"
    and "stat (sb_close E a B) i = (if i = 0 then S_active else if i = a then S_closed else stat B i)"
    and "getActiveArea (sb_close E a B) u = (if u = ty B a then 0 else getActiveArea B u)"
    and "mUsedAreas (sb_close E a B) = mUsedAreas B"
    and "sb_shape E (sb_close E a B)"
  using assms by (simp_all add: sb_close_def Let_def getType_ty table [of E] active_set [of E])

lemma area_ok_close:
  assumes B: "area_ok E B" and a: "a < areasNo E" "ty B a \<noteq> T_no" "stat B a \<noteq> S_empty"
    and gb: "ty B a = T_retired \<longrightarrow> getActiveArea B T_garbageBuffer \<noteq> a"
  shows "area_ok E (sb_close E a B)"
proof -
  note [simp] = sb_close_table [OF area_okD(1) [OF B] _ a(1,2)]
  let ?B = "sb_close E a B"
  have "used_count E ?B = used_count E B"
    by (rule used_count_cong) (use a area_okD(4) [OF B] in auto)
  then have used: "mUsedAreas ?B = used_count E ?B" using a(1) area_okD(2) [OF B] by simp
  have slots: "slot_ok E ?B u" for u
  proof (cases "u = ty B a")
    case True
    then show ?thesis using a by (simp add: slot_ok_def Let_def)
  next
    case False
    have "getActiveArea B u \<noteq> 0 \<Longrightarrow> getActiveArea B u \<noteq> a"
      using area_okD(5) [OF B, of u] False gb by (auto simp: slot_ok_def Let_def)
    then show ?thesis
      using False a(1) by (intro slot_ok_cong [OF area_okD(5) [OF B, of u]]) auto
  qed
  show ?thesis
    by (rule area_ok_upd [OF B _ used _ slots])
      (use a area_okD(3,4) [OF B] in \<open>simp_all add: pair_ok_def\<close>)
qed

lemma sb_retire_table:
  assumes "sb_shape E B" and "i < areasNo E" and "a < areasNo E"
  shows "ty (sb_retire E a B) i = (if i = a then T_retired else ty B i)"
    and "stat (sb_retire E a B) i = (if i = a then S_closed else stat B i)"
    and "getActiveArea (sb_retire E a B) u = getActiveArea B u"
    and "mUsedAreas (sb_retire E a B) =
         (if ty B a = T_unset then (mUsedAreas B + 1) mod 2 ^ 16 else mUsedAreas B)"
    and "sb_shape E (sb_retire E a B)"
  using assms by (simp_all add: sb_retire_def Let_def getType_ty)

lemma area_ok_retire:
  assumes B: "area_ok E B" and a: "a < areasNo E" "ty B a = T_unset \<longleftrightarrow> stat B a = S_empty"
    and act: "\<And>t. t \<noteq> T_garbageBuffer \<Longrightarrow> getActiveArea B t = a \<Longrightarrow> a = 0"
    and size: "areasNo E < 2 ^ 16"
  shows "area_ok E (sb_retire E a B)"
proof -
  note [simp] = sb_retire_table [OF area_okD(1) [OF B] _ a(1)]
  let ?B = "sb_retire E a B"
  have "used_count E ?B + (if stat B a = S_empty then 0 else 1) = used_count E B + (if stat ?B a = S_empty then 0 else 1)"
    by (rule used_count_upd [OF a(1)]) simp
  then have cnt: "used_count E ?B = (if stat B a = S_empty then used_count E B + 1 else used_count E B)"
    using a(1) by (simp split: if_splits)
  have used: "mUsedAreas ?B = used_count E ?B"
  proof (cases "stat B a = S_empty")
    case True
    have "(used_count E B + 1) mod 2 ^ 16 = used_count E B + 1"
      by (rule wrap_inc [OF used_count_less [OF a(1) True] size])
    moreover have "mUsedAreas ?B = (used_count E B + 1) mod 2 ^ 16"
      using True a area_okD(2) [OF B] by simp
    ultimately show ?thesis using cnt True by simp
  next
    case False
    then show ?thesis using cnt a area_okD(2) [OF B] by simp
  qed
  have slots: "slot_ok E ?B u" for u
  proof (cases "u = T_garbageBuffer \<and> getActiveArea B u = a")
    case True
    then have "u = T_garbageBuffer" and "getActiveArea B T_garbageBuffer = a" by auto
    then show ?thesis using a(1) by (simp add: slot_ok_def Let_def)
  next
    case False
    then show ?thesis
      using act [of u] a(1) by (intro slot_ok_cong [OF area_okD(5) [OF B, of u]]) auto
  qed
  show ?thesis
    by (rule area_ok_upd [OF B _ used _ slots])
      (use a area_okD(3,4) [OF B] in \<open>simp_all add: pair_ok_def\<close>)
qed

lemma area_ok_erased: "area_ok E B \<Longrightarrow> area_ok E (sb_erased E a B)"
proof -
  assume B: "area_ok E B"
  note sh = area_okD(1) [OF B]
  have "used_count E (sb_erased E a B) = used_count E B" by (rule used_count_cong) (simp add: sh)
  moreover have "slot_ok E (sb_erased E a B) t" for t
    by (rule slot_ok_cong [OF area_okD(5) [OF B]]) (simp_all add: sh)
  ultimately show ?thesis
    by (intro area_ok_upd [OF B]) (use area_okD(2-4) [OF B] sh in simp_all)
qed

lemma area_ok_swap: "area_ok E B \<Longrightarrow> area_ok E (sb_swap E a b B)"
proof -
  assume B: "area_ok E B"
  note sh = area_okD(1) [OF B]
  have "used_count E (sb_swap E a b B) = used_count E B" by (rule used_count_cong) (simp add: sh)
  moreover have "slot_ok E (sb_swap E a b B) t" for t
    by (rule slot_ok_cong [OF area_okD(5) [OF B]]) (simp_all add: sh)
  ultimately show ?thesis
    by (intro area_ok_upd [OF B]) (use area_okD(2-4) [OF B] sh in simp_all)
qed

lemma sb_delete_table:
  assumes "sb_shape E B" and "i < areasNo E" and "a < areasNo E"
  shows "ty (sb_delete E a B) i = (if i = a then T_unset else ty B i)"
    and "stat (sb_delete E a B) i = (if i = a then S_empty else stat B i)"
    and "getActiveArea (sb_delete E a B) u = getActiveArea B u"
    and "mUsedAreas (sb_delete E a B) = (mUsedAreas B + 2 ^ 16 - 1) mod 2 ^ 16"
    and "sb_shape E (sb_delete E a B)"
  using assms by (simp_all add: sb_delete_def)

lemma area_ok_delete:
  assumes B: "area_ok E B" and a: "a < areasNo E" "a \<noteq> 0" "stat B a \<noteq> S_empty"
    and act: "\<And>t. getActiveArea B t \<noteq> a"
    and size: "areasNo E < 2 ^ 16"
  shows "area_ok E (sb_delete E a B)"
proof -
  note [simp] = sb_delete_table [OF area_okD(1) [OF B] _ a(1)]
  let ?B = "sb_delete E a B"
  have "used_count E ?B + (if stat B a = S_empty then 0 else 1) = used_count E B + (if stat ?B a = S_empty then 0 else 1)"
    by (rule used_count_upd [OF a(1)]) simp
  then have cnt: "used_count E ?B = used_count E B - 1" using a by simp
  have "0 < used_count E B" "used_count E B < 2 ^ 16"
    using used_count_pos [OF a(1,3)] used_count_le [of E B] size by simp_all
  then have "mUsedAreas ?B = used_count E B - 1"
    using wrap_dec a(1) area_okD(2) [OF B] by simp
  then have used: "mUsedAreas ?B = used_count E ?B" using cnt by simp
  have slots: "slot_ok E ?B u" for u
    by (rule slot_ok_cong [OF area_okD(5) [OF B, of u]]) (use act [of u] a in auto)
  show ?thesis
    by (rule area_ok_upd [OF B _ used _ slots])
      (use a area_okD(3,4) [OF B] in \<open>simp_all add: pair_ok_def\<close>)
qed

lemma getActiveArea_no: "getActiveArea B T_no = 0"
  by (simp add: getActiveArea_def)

lemma sb_drop_table:
  assumes "sb_shape E B" and "i < areasNo E"
  shows "ty (sb_active t 0 B) i = ty B i"
    and "stat (sb_active t 0 B) i = (if i = 0 \<and> t \<noteq> T_no then S_active else stat B i)"
    and "getActiveArea (sb_active t 0 B) u = (if u = t then 0 else getActiveArea B u)"
    and "sb_shape E (sb_active t 0 B)"
  using assms by (auto simp: table [of E] active_set [of E] getActiveArea_no)

lemma area_ok_drop: "area_ok E B \<Longrightarrow> area_ok E (sb_active t 0 B)"
proof -
  assume B: "area_ok E B"
  note [simp] = sb_drop_table [OF area_okD(1) [OF B]]
  have "used_count E (sb_active t 0 B) = used_count E B"
    by (rule used_count_cong) (use area_okD(4) [OF B] in simp)
  moreover have "slot_ok E (sb_active t 0 B) u" for u
    using area_okD(3) [OF B] area_okD(5) [OF B, of u] by (auto simp: slot_ok_def Let_def)
  ultimately show ?thesis
    by (intro area_ok_upd [OF B]) (use area_okD(1-4) [OF B] in simp_all)
qed

end
