(* ===== verification/GarbageCollector.thy ===== *)
theory GarbageCollector
  imports AreaOpsOk
begin

text \<open>
  \<^verbatim>\<open>src/garbage_collection.cpp\<close>. A collection picks the area with the most dirty pages, copies its
  valid pages to the garbage buffer, swaps the positions of the two areas, and erases the old
  position. If the area holds no valid page it is just erased, and if that fails, so that the
  area is retired, the function calls itself for the next one. The recursion carries fuel; the
  theory of its termination shows that one unit per area that is not retired is enough.
\<close>

subsection \<open>Choice of an area\<close>

definition count_entries :: "'f env \<Rightarrow> SummaryEntry \<Rightarrow> SummaryEntry list \<Rightarrow> nat" where
  "count_entries E v summary = count_upto (dataPagesPerArea E) (\<lambda>i. summary ! i = v)"

definition countDirtyAndUsedPages :: "'f env \<Rightarrow> SummaryEntry list \<Rightarrow> nat \<times> nat" where
  "countDirtyAndUsedPages E summary =
     (count_entries E SE_dirty summary, count_entries E SE_used summary)"

record gc_choice =
  favourite_area :: AreaPos
  favDirtyPages :: nat
  favErases :: nat
  containsValid :: bool
  summaryOut :: "SummaryEntry list"

text \<open>The array \<^verbatim>\<open>summary\<close> of the caller is filled with a byte that is no page state.\<close>

definition no_choice :: "'f env \<Rightarrow> gc_choice" where
  "no_choice E = \<lparr>favourite_area = 0, favDirtyPages = 0, favErases = 2 ^ 32 - 1,
     containsValid = False, summaryOut = replicate (dataPagesPerArea E) SE_error\<rparr>"

definition consider_area ::
  "'f env \<Rightarrow> AreaType \<Rightarrow> AreaPos \<Rightarrow> gc_choice \<Rightarrow> ('f dev, gc_choice + gc_choice) state" where
  "consider_area E target i c = do {
     B \<leftarrow> gets sb;
     if getStatus E B i \<noteq> S_active \<and> (getType E B i = T_data \<or> getType E B i = T_index)
     then do {
       (r, curr) \<leftarrow> getSummaryStatus E i;
       if r \<noteq> R_ok then ret (Inl (c\<lparr>favourite_area := 0\<rparr>))
       else do {
         let (dirtyPages, usedPages) = countDirtyAndUsedPages E curr;
         if target \<noteq> T_unset
         then
           if dirtyPages = dataPagesPerArea E
              \<and> (getOverallDeletions B < areasNo E
                 \<or> getErasecount E B i < getOverallDeletions B div areasNo E)
           then ret (Inl (c\<lparr>favourite_area := i, containsValid := False, summaryOut := curr\<rparr>))
           else if getType E B i \<noteq> target then ret (Inr c)
           else do {
             written \<leftarrow> gets (\<lambda>s. wasAreaSummaryWritten E s i);
             if dirtyPages > favDirtyPages c
                \<or> (dirtyPages \<noteq> 0 \<and> dirtyPages = favDirtyPages c \<and> getErasecount E B i < favErases c)
                \<or> (dirtyPages \<noteq> 0 \<and> dirtyPages = favDirtyPages c \<and> written)
             then ret (Inr (c\<lparr>favourite_area := i, favDirtyPages := dirtyPages,
                    containsValid := usedPages > 0, favErases := getErasecount E B i,
                    summaryOut := curr\<rparr>))
             else ret (Inr c)
           }
         else do {
           C \<leftarrow> gets sc;
           if shouldClearArea C i \<and> dirtyPages \<ge> favDirtyPages c
           then ret (Inr (c\<lparr>favourite_area := i, favDirtyPages := dirtyPages,
                  containsValid := usedPages > 0, summaryOut := curr\<rparr>))
           else ret (Inr c)
         }
       }
     }
     else ret (Inr c)
   }"

definition findNextBestArea :: "'f env \<Rightarrow> AreaType \<Rightarrow> ('f dev, gc_choice) state" where
  "findNextBestArea E target = do {
     y \<leftarrow> loopM [0 ..< areasNo E] (no_choice E) (consider_area E target);
     ret (case y of Inl c \<Rightarrow> c | Inr c \<Rightarrow> c)
   }"

subsection \<open>Moving valid data\<close>

definition move_page ::
  "'f env \<Rightarrow> AreaPos \<Rightarrow> AreaPos \<Rightarrow> nat \<Rightarrow> Result \<times> bool \<times> SummaryEntry list \<Rightarrow>
   ('f dev, unit + (Result \<times> bool \<times> SummaryEntry list)) state" where
  "move_page E srcArea dstArea page = (\<lambda>(rt, validDataLeft, summary).
     if summary ! page = SE_used
     then do {
       src \<leftarrow> gets (\<lambda>s. getPos E (sb s) srcArea * totalPagesPerArea E + page);
       dst \<leftarrow> gets (\<lambda>s. getPos E (sb s) dstArea * totalPagesPerArea E + page);
       (r, buf) \<leftarrow> readPage E src (totalBytesPerPage E);
       let rt1 = (if r \<noteq> R_ok \<and> r \<noteq> R_biterrorCorrected then (if r > rt then r else rt) else rt);
       r2 \<leftarrow> writePage E dst buf;
       let rt2 = (if r2 \<noteq> R_ok then (if R_badFlash > rt1 then R_badFlash else rt1) else rt1);
       ret (Inr (rt2, True, summary))
     }
     else ret (Inr (rt, validDataLeft, summary[page := SE_free])))"

definition moveValidDataToNewArea ::
  "'f env \<Rightarrow> AreaPos \<Rightarrow> AreaPos \<Rightarrow> SummaryEntry list \<Rightarrow>
   ('f dev, Result \<times> bool \<times> SummaryEntry list) state" where
  "moveValidDataToNewArea E srcArea dstArea summary = do {
     add_event E (MoveValidData srcArea);
     y \<leftarrow> loopM [0 ..< dataPagesPerArea E] (R_ok, False, summary) (move_page E srcArea dstArea);
     ret (case y of Inl _ \<Rightarrow> (R_ok, False, summary) | Inr x \<Rightarrow> x)
   }"

subsection \<open>Collection\<close>

text \<open>The check of \<^verbatim>\<open>PAFFS_TRACE_VERIFY_AS\<close>: every page of the garbage buffer reads as erased.\<close>

definition garbage_buffer_clean :: "'f env \<Rightarrow> ('f dev, bool) state" where
  "garbage_buffer_clean E = do {
     y \<leftarrow> loopM [0 ..< totalPagesPerArea E] () (\<lambda>i u. do {
            page \<leftarrow> gets (\<lambda>s. getPageNumber E (sb s)
                      (combineAddress (getActiveArea (sb s) T_garbageBuffer) i));
            (r, buf) \<leftarrow> readPage E page (totalBytesPerPage E);
            ret (if contains_data buf then Inl () else Inr ())
          });
     ret (case y of Inl _ \<Rightarrow> False | Inr _ \<Rightarrow> True)
   }"

definition gc_take_over :: "'f env \<Rightarrow> AreaType \<Rightarrow> AreaPos \<Rightarrow> bool \<Rightarrow> SummaryEntry list \<Rightarrow> ('f dev, Result) state" where
  "gc_take_over E target deletionTarget valid summary = do {
     gb \<leftarrow> gets (\<lambda>s. getActiveArea (sb s) T_garbageBuffer);
     swapAreaPosition E deletionTarget gb;
     r \<leftarrow> (if valid then do {
              gb1 \<leftarrow> gets (\<lambda>s. getActiveArea (sb s) T_garbageBuffer);
              r \<leftarrow> deleteAreaContents E deletionTarget gb1 False;
              whenM (r \<noteq> R_ok) (setActiveArea E T_garbageBuffer 0);
              setSummaryStatus E deletionTarget summary
            } else ret R_ok);
     if r \<noteq> R_ok then ret r
     else do {
       whenM (target \<noteq> T_unset) (initAreaAs E deletionTarget target);
       add_event E (Checkpoint Tp_garbage);
       ret R_ok
     }
   }"

text \<open>The two branches of a round: copy the valid pages, or just erase; \<open>again\<close> is the recursive call.\<close>

definition gc_copy_branch :: "'f env \<Rightarrow> AreaType \<Rightarrow> gc_choice \<Rightarrow> AreaPos \<Rightarrow> ('f dev, Result option) state" where
  "gc_copy_branch E target c gb = do {
     (r, left, summary) \<leftarrow> moveValidDataToNewArea E (favourite_area c) gb (summaryOut c);
     if r \<noteq> R_ok then ret (Some r)
     else do {
       r' \<leftarrow> gc_take_over E target (favourite_area c) True summary;
       ret (Some r')
     }
   }"

definition gc_erase_branch ::
  "'f env \<Rightarrow> ('f dev, Result option) state \<Rightarrow> AreaType \<Rightarrow> gc_choice \<Rightarrow> ('f dev, Result option) state" where
  "gc_erase_branch E again target c = do {
     r \<leftarrow> deleteArea E (favourite_area c);
     if r \<noteq> R_ok then again
     else do {
       r' \<leftarrow> gc_take_over E target (favourite_area c) False (summaryOut c);
       ret (Some r')
     }
   }"

definition gc_round :: "'f env \<Rightarrow> ('f dev, Result option) state \<Rightarrow> AreaType \<Rightarrow> ('f dev, Result option) state" where
  "gc_round E again target = do {
     c \<leftarrow> findNextBestArea E target;
     gb \<leftarrow> gets (\<lambda>s. getActiveArea (sb s) T_garbageBuffer);
     if favourite_area c = 0 \<or> (containsValid c \<and> gb = 0) then ret (Some R_noSpace)
     else if containsValid c then gc_copy_branch E target c gb
     else gc_erase_branch E again target c
   }"

fun collectGarbage_fuel :: "nat \<Rightarrow> 'f env \<Rightarrow> AreaType \<Rightarrow> ('f dev, Result option) state" where
  "collectGarbage_fuel 0 E target = ret None"
| "collectGarbage_fuel (Suc n) E target = do {
     clean \<leftarrow> (if verifyAS E then garbage_buffer_clean E else ret True);
     if \<not> clean then ret (Some R_bug)
     else gc_round E (collectGarbage_fuel n E target) target
   }"

text \<open>One call per area, and one more.\<close>

definition collectGarbage :: "'f env \<Rightarrow> AreaType \<Rightarrow> ('f dev, Result) state" where
  "collectGarbage E target = do {
     r \<leftarrow> collectGarbage_fuel (areasNo E + 1) E target;
     ret (case r of Some x \<Rightarrow> x | None \<Rightarrow> R_bug)
   }"

subsection \<open>Replay\<close>

definition gc_resetState :: "garbage_coll \<Rightarrow> garbage_coll" where
  "gc_resetState g = g\<lparr>gc_state := Gc_ok, journalTargetArea := 0\<rparr>"

definition gc_isInterestedIn :: "garbage_coll \<Rightarrow> Entry \<Rightarrow> bool" where
  "gc_isInterestedIn g e =
     (gc_state g \<noteq> Gc_ok \<and>
      (entry_topic e = Tp_areaMgmt \<or> entry_topic e = Tp_summaryCache \<or> entry_topic e = Tp_superblock))"

definition gc_processEntry :: "'f env \<Rightarrow> superblock \<Rightarrow> Entry \<Rightarrow> garbage_coll \<Rightarrow> Result \<times> garbage_coll" where
  "gc_processEntry E B e g =
     (R_ok,
      case e of
        MoveValidData from \<Rightarrow> g\<lparr>gc_state := Gc_moveValidData, journalTargetArea := from,
                                journalTargetAreaType := getType E B from\<rparr>
      | DeleteArea _ \<Rightarrow> g\<lparr>gc_state := Gc_deletedOldArea\<rparr>
      | DeleteAreaContents _ _ \<Rightarrow> g\<lparr>gc_state := Gc_deletedOldArea\<rparr>
      | AreaMapSwap _ _ \<Rightarrow> g\<lparr>gc_state := Gc_swappedPosition\<rparr>
      | SummarySetStatusBlock _ _ \<Rightarrow> g\<lparr>gc_state := Gc_setNewSummary\<rparr>
      | _ \<Rightarrow> g)"

definition gc_adopt_target :: "'f env \<Rightarrow> ('f dev, unit) state" where
  "gc_adopt_target E = do {
     g \<leftarrow> gets gc;
     (_, summary) \<leftarrow> scanAreaForSummaryStatus E (journalTargetArea g);
     whenM (\<exists>v\<in>set summary. v \<noteq> SE_free) (do {
       _ \<leftarrow> setSummaryStatus E (journalTargetArea g) summary;
       a \<leftarrow> gets (\<lambda>s. getActiveArea (sb s) (journalTargetAreaType g));
       whenM (journalTargetAreaType g \<noteq> T_unset \<and> a = 0)
         (initAreaAs E (journalTargetArea g) (journalTargetAreaType g))
     })
   }"

definition gc_signalEndOfLog :: "'f env \<Rightarrow> ('f dev, unit) state" where
  "gc_signalEndOfLog E = do {
     g \<leftarrow> gets gc;
     gb \<leftarrow> gets (\<lambda>s. getActiveArea (sb s) T_garbageBuffer);
     if gc_state g = Gc_ok then ret ()
     else do {
       (case gc_state g of
          Gc_moveValidData \<Rightarrow> do { _ \<leftarrow> deleteAreaContents E gb 0 False; ret () }
        | Gc_swappedPosition \<Rightarrow> do {
            _ \<leftarrow> deleteAreaContents E (journalTargetArea g) gb False;
            gc_adopt_target E
          }
        | Gc_deletedOldArea \<Rightarrow> gc_adopt_target E
        | _ \<Rightarrow> ret ());
       add_event E (Checkpoint Tp_garbage)
     }
   }"

end
