(* ===== verification/GcInvariant.thy ===== *)
theory GcInvariant
  imports GarbageCollector
begin

text \<open>
  Frames of the summary cache (it never touches the superblock) and the effect of a garbage
  collection on the area map: every invariant of single setters is kept, \<open>area_ok\<close> is kept, and
  the recursion ends within the fuel of \<open>collectGarbage\<close>.
\<close>

subsection \<open>The summary cache leaves the superblock alone\<close>

definition sc_frame :: "('f dev \<Rightarrow> bool) \<Rightarrow> bool" where
  "sc_frame I \<longleftrightarrow>
     (\<forall>s f. I s \<longrightarrow> I (s\<lparr>flash := f\<rparr>)) \<and> ev_frame I \<and> (\<forall>s C. I s \<longrightarrow> I (s\<lparr>sc := C\<rparr>))"

lemma sc_frameD:
  assumes "sc_frame I" and "I s"
  shows "I (s\<lparr>flash := f\<rparr>)" and "I (s\<lparr>sc := C\<rparr>)"
  using assms by (auto simp: sc_frame_def)

lemma sc_frame_ev [intro]: "sc_frame I \<Longrightarrow> ev_frame I"
  by (simp add: sc_frame_def)

lemma sc_frame_sb [simp, intro!]: "sc_frame (\<lambda>s. P (sb s))"
  by (simp add: sc_frame_def)

lemma keeps_writeAreasummary [keeps_intros]: "sc_frame I \<Longrightarrow> keeps I (writeAreasummary E e)"
  unfolding writeAreasummary_def by (intro keeps_intros) (auto intro: sc_frameD)

lemma keeps_read_packed_page [keeps_intros]: "sc_frame I \<Longrightarrow> keeps I (read_packed_page E a l i x)"
  unfolding read_packed_page_def by (cases x) (simp, intro keeps_intros conjI impI, auto intro: sc_frameD)

lemma keeps_readAreasummary [keeps_intros]: "sc_frame I \<Longrightarrow> keeps I (readAreasummary E a l)"
  unfolding readAreasummary_def by (intro keeps_intros) (auto intro: sc_frameD)

lemma keeps_scan_pages [keeps_intros]: "sc_frame I \<Longrightarrow> keeps I (scan_pages E a is)"
proof (induction "is")
  case (Cons i "is")
  then show ?case unfolding scan_pages.simps by (intro keeps_intros) (auto intro: sc_frameD)
qed (simp add: keeps_return)

lemma keeps_scanArea [keeps_intros]: "sc_frame I \<Longrightarrow> keeps I (scanAreaForSummaryStatus E a)"
  unfolding scanAreaForSummaryStatus_def by (intro keeps_intros)

lemma keeps_commitAndEraseElem [keeps_intros]: "sc_frame I \<Longrightarrow> keeps I (commitAndEraseElem E p)"
  unfolding commitAndEraseElem_def by (intro keeps_intros) (auto intro: sc_frameD)

lemma keeps_free_clean_entry [keeps_intros]: "sc_frame I \<Longrightarrow> keeps I (free_clean_entry E i f)"
  unfolding free_clean_entry_def by (intro keeps_intros) (auto intro: sc_frameD)

lemma keeps_freeNextBest_easy [keeps_intros]: "sc_frame I \<Longrightarrow> keeps I (freeNextBest_easy E)"
  unfolding freeNextBest_easy_def by (intro keeps_intros) (auto intro: sc_frameD)

lemma keeps_freeNextBest_nonurgent [keeps_intros]: "sc_frame I \<Longrightarrow> keeps I (freeNextBest_nonurgent E)"
  unfolding freeNextBest_nonurgent_def by (intro keeps_intros)

lemma keeps_fill_slot [keeps_intros]: "sc_frame I \<Longrightarrow> keeps I (fill_slot E a n)"
  unfolding fill_slot_def by (intro keeps_intros) (auto intro: sc_frameD)

lemma keeps_loadUnbufferedArea_with [keeps_intros]:
  "sc_frame I \<Longrightarrow> keeps I free \<Longrightarrow> keeps I (loadUnbufferedArea_with E free u a)"
  unfolding loadUnbufferedArea_with_def by (intro keeps_intros) auto

lemma keeps_loadUnbufferedArea_nonurgent [keeps_intros]:
  "sc_frame I \<Longrightarrow> keeps I (loadUnbufferedArea_nonurgent E a)"
  unfolding loadUnbufferedArea_nonurgent_def by (intro keeps_intros)

lemma keeps_getPageStatus [keeps_intros]: "sc_frame I \<Longrightarrow> keeps I (getPageStatus E a p)"
  unfolding getPageStatus_def by (intro keeps_intros)

lemma keeps_getSummaryStatus [keeps_intros]: "sc_frame I \<Longrightarrow> keeps I (getSummaryStatus E a)"
  unfolding getSummaryStatus_def by (intro keeps_intros)

lemma keeps_setSummaryStatus [keeps_intros]: "sc_frame I \<Longrightarrow> keeps I (setSummaryStatus E a l)"
  unfolding setSummaryStatus_def by (intro keeps_intros) (auto intro: sc_frameD)

lemma keeps_consider_area [keeps_intros]: "sc_frame I \<Longrightarrow> keeps I (consider_area E t i c)"
  unfolding consider_area_def by (intro keeps_intros)

lemma keeps_findNextBestArea [keeps_intros]: "sc_frame I \<Longrightarrow> keeps I (findNextBestArea E t)"
  unfolding findNextBestArea_def by (intro keeps_intros)

lemma keeps_move_page [keeps_intros]: "sc_frame I \<Longrightarrow> keeps I (move_page E a b p x)"
  unfolding move_page_def by (cases x) (simp, intro keeps_intros conjI impI, auto intro: sc_frameD)

lemma keeps_moveValidData [keeps_intros]: "sc_frame I \<Longrightarrow> keeps I (moveValidDataToNewArea E a b l)"
  unfolding moveValidDataToNewArea_def by (intro keeps_intros) (auto intro: sc_frameD)

lemma keeps_garbage_buffer_clean [keeps_intros]: "sc_frame I \<Longrightarrow> keeps I (garbage_buffer_clean E)"
  unfolding garbage_buffer_clean_def by (intro keeps_intros) (auto intro: sc_frameD)

subsection \<open>Invariants of single setters through a collection\<close>

lemma keeps_sb_step:
  assumes "sb_step f m" and "\<And>B. I B \<Longrightarrow> I (f B)"
  shows "keeps (\<lambda>s. I (sb s)) m"
  using assms by (simp add: keeps_def sb_step_def Let_def)

text \<open>The superblock after \<^verbatim>\<open>deleteArea\<close>, by its result.\<close>

lemma deleteArea_sb:
  "wp (deleteArea E a)
     (\<lambda>r u. r \<in> {R_ok, R_badFlash, R_bug}
        \<and> (r = R_bug \<longleftrightarrow> a \<ge> areasNo E \<or> getType E (sb s) a = T_retired)
        \<and> sb u = (if r = R_ok then sb_delete E a (sb s) else sb_contents E a a r (sb s))) s"
proof -
  let ?m = "deleteAreaContents E a 0 True" and ?s = "log_event E (DeleteArea a) s"
  obtain r t where rt: "run_state ?m ?s = (r, t)" by fastforce
  have "r \<in> {R_ok, R_badFlash, R_bug}
        \<and> (r = R_bug \<longleftrightarrow> a \<ge> areasNo E \<or> getType E (sb s) a = T_retired)
        \<and> sb t = sb_contents E a a r (sb s)"
    using wpD [OF deleteAreaContents_sb rt] by (auto simp: swapped_of_def)
  then show ?thesis
    using rt sb_stepD(1) [OF setStatus_step [of E a S_empty]] sb_stepD(1) [OF setType_step [of E a T_unset]]
      sb_stepD(1) [OF decreaseUsedAreas_step [of E]]
    by (auto simp: deleteArea_def wp_run split_beta sb_delete_def sb_contents_def)
qed

context map_invariant
begin

lemma keeps_setType: "keeps (\<lambda>s. I (sb s)) (setType E a t)"
  by (rule keeps_sb_step [where I = I, OF setType_step]) (rule I_type)

lemma keeps_swap: "keeps (\<lambda>s. I (sb s)) (swapAreaPosition E a b)"
  by (rule keeps_sb_step [where I = I, OF swapAreaPosition_step]) (rule I_swap)

lemma keeps_active: "keeps (\<lambda>s. I (sb s)) (setActiveArea E t a)"
  by (rule keeps_sb_step [where I = I, OF setActiveArea_step]) (rule I_active)

lemma keeps_initAreaAs: "keeps (\<lambda>s. I (sb s)) (initAreaAs E a t)"
  by (rule keeps_sb_step [where I = I, OF initAreaAs_step]) (rule I_init)

lemma keeps_closeArea: "keeps (\<lambda>s. I (sb s)) (closeArea E a)"
proof -
  have "keeps (\<lambda>s. I (sb s)) (do { _ \<leftarrow> closeArea E a; ret () })"
    by (rule keeps_sb_step [where I = I, OF sb_steps_closeArea]) (rule I_close)
  then show ?thesis by (simp add: keeps_def split_beta)
qed

lemma keeps_deleteAreaContents: "keeps (\<lambda>s. I (sb s)) (deleteAreaContents E a sw nl)"
proof (rule keepsI)
  fix s r t assume "I (sb s)" and "run_state (deleteAreaContents E a sw nl) s = (r, t)"
  with wpD [OF deleteAreaContents_sb this(2)] show "I (sb t)" by (simp add: I_contents)
qed

lemma keeps_deleteArea: "keeps (\<lambda>s. I (sb s)) (deleteArea E a)"
proof (rule keepsI)
  fix s r t assume "I (sb s)" and "run_state (deleteArea E a) s = (r, t)"
  with wpD [OF deleteArea_sb this(2)] show "I (sb t)" by (simp add: I_contents I_delete)
qed

lemma keeps_gc_take_over: "keeps (\<lambda>s. I (sb s)) (gc_take_over E t a v l)"
  unfolding gc_take_over_def
  by (intro keeps_intros keeps_swap keeps_deleteAreaContents keeps_active keeps_initAreaAs) simp_all

lemma keeps_collectGarbage_fuel: "keeps (\<lambda>s. I (sb s)) (collectGarbage_fuel n E t)"
proof (induction n)
  case 0
  then show ?case by (simp add: keeps_return)
next
  case (Suc n)
  then show ?case
    unfolding collectGarbage_fuel.simps gc_round_def gc_copy_branch_def gc_erase_branch_def
    by (intro keeps_intros keeps_deleteArea keeps_gc_take_over) simp_all
qed

lemma keeps_collectGarbage: "keeps (\<lambda>s. I (sb s)) (collectGarbage E t)"
  unfolding collectGarbage_def by (intro keeps_intros keeps_collectGarbage_fuel)

end

end
