(* ===== verification/GcAccounting.thy ===== *)
theory GcAccounting
  imports GcInvariant
begin

text \<open>
  A garbage collection keeps \<open>area_ok\<close>, its recursion ends, and if it succeeds for a type, an
  area of that type is active.
\<close>

definition gc_target :: "'f env \<Rightarrow> superblock \<Rightarrow> AreaPos \<Rightarrow> bool" where
  "gc_target E B a \<longleftrightarrow> a < areasNo E \<and> stat B a \<noteq> S_active \<and> (ty B a = T_data \<or> ty B a = T_index)"

definition choice_ok :: "'f env \<Rightarrow> superblock \<Rightarrow> gc_choice \<Rightarrow> bool" where
  "choice_ok E B c \<longleftrightarrow> favourite_area c = 0 \<or> gc_target E B (favourite_area c)"

lemma choice_ok_upd [simp]:
  "choice_ok E B (c\<lparr>favourite_area := 0\<rparr>)"
  "choice_ok E B (c\<lparr>favDirtyPages := d\<rparr>) = choice_ok E B c"
  "choice_ok E B (c\<lparr>containsValid := v\<rparr>) = choice_ok E B c"
  "choice_ok E B (c\<lparr>favErases := d\<rparr>) = choice_ok E B c"
  "choice_ok E B (c\<lparr>summaryOut := l\<rparr>) = choice_ok E B c"
  "gc_target E B a \<Longrightarrow> choice_ok E B (c\<lparr>favourite_area := a\<rparr>)"
  by (simp_all add: choice_ok_def)

lemma run_keeps_sb: "keeps (\<lambda>u. sb u = B) m \<Longrightarrow> run_state m s = (x, t) \<Longrightarrow> sb s = B \<Longrightarrow> sb t = B"
  by (rule keepsD)

lemma consider_area_wp:
  assumes "choice_ok E B c" and "sb s = B" and "i < areasNo E"
  shows "wp (consider_area E target i c)
     (sum_post (\<lambda>c u. choice_ok E B c \<and> sb u = B) (\<lambda>c u. choice_ok E B c \<and> sb u = B)) s"
proof -
  obtain r l t where run: "run_state (getSummaryStatus E i) s = ((r, l), t)" by (metis surj_pair)
  have t: "sb t = B" by (rule run_keeps_sb [OF keeps_getSummaryStatus run assms(2)]) (rule sc_frame_sb)
  have tgt: "gc_target E B i" if "getStatus E B i \<noteq> S_active" "getType E B i = T_data \<or> getType E B i = T_index"
    using that assms(3) by (simp add: gc_target_def getStatus_stat getType_ty)
  show ?thesis
    using assms run t tgt by (simp add: consider_area_def wp_def countDirtyAndUsedPages_def)
qed

lemma findNextBestArea_wp:
  "wp (findNextBestArea E target) (\<lambda>c u. choice_ok E (sb s) c \<and> sb u = sb s) s"
proof -
  have "wp (loopM [0 ..< areasNo E] (no_choice E) (consider_area E target))
     (sum_post (\<lambda>c u. choice_ok E (sb s) c \<and> sb u = sb s) (\<lambda>c u. choice_ok E (sb s) c \<and> sb u = sb s)) s"
    by (rule wp_loopM) (auto intro: consider_area_wp, simp add: choice_ok_def no_choice_def)
  then have "wp (loopM [0 ..< areasNo E] (no_choice E) (consider_area E target))
     (\<lambda>y u. choice_ok E (sb s) (case y of Inl c \<Rightarrow> c | Inr c \<Rightarrow> c) \<and> sb u = sb s) s"
    by (rule wp_mono) (auto simp: sum_post_def split: sum.splits)
  then show ?thesis by (simp add: findNextBestArea_def)
qed

subsection \<open>The target leaves its old life\<close>

definition live_areas :: "'f env \<Rightarrow> superblock \<Rightarrow> nat" where
  "live_areas E B = count_upto (areasNo E) (\<lambda>i. ty B i \<noteq> T_retired)"

lemma live_areas_le: "live_areas E B \<le> areasNo E"
  by (simp add: live_areas_def count_upto_le)

lemma gc_targetD:
  assumes "area_ok E B" and "gc_target E B a"
  shows "a < areasNo E" and "stat B a = S_closed" and "ty B a = T_data \<or> ty B a = T_index"
    and "getActiveArea B t = a \<Longrightarrow> a = 0"
proof -
  show a: "a < areasNo E" and t: "ty B a = T_data \<or> ty B a = T_index"
    using assms(2) by (simp_all add: gc_target_def)
  have "stat B a \<noteq> S_empty" using area_okD(7) [OF assms(1) a] t by auto
  then show "stat B a = S_closed" using assms(2) by (cases "stat B a") (simp_all add: gc_target_def)
  then show "getActiveArea B t = a \<Longrightarrow> a = 0"
    using area_okD(5) [OF assms(1), of t] t by (auto simp: slot_ok_def Let_def)
qed

lemma live_areas_retire:
  assumes "sb_shape E B" and "a < areasNo E" and "ty B a \<noteq> T_retired"
  shows "Suc (live_areas E (sb_erased E a (sb_retire E a B))) = live_areas E B"
proof -
  have "live_areas E (sb_erased E a (sb_retire E a B)) + (if ty B a \<noteq> T_retired then 1 else 0)
      = live_areas E B + (if ty (sb_erased E a (sb_retire E a B)) a \<noteq> T_retired then 1 else 0)"
    unfolding live_areas_def
    by (rule count_upto_upd [OF assms(2)]) (use assms sb_retire_table [OF assms(1) _ assms(2)] in simp)
  then show ?thesis using assms sb_retire_table [OF assms(1) _ assms(2)] by simp
qed

lemma area_ok_contents_target:
  assumes B: "area_ok E B" and a: "gc_target E B a" "a \<noteq> 0" and size: "areasNo E < 2 ^ 16"
    and sw: "sw = a \<or> sw = getActiveArea B T_garbageBuffer \<and> sw \<noteq> 0"
  shows "area_ok E (sb_contents E a sw r B)"
proof -
  note D = gc_targetD [OF B a(1)]
  have "area_ok E (sb_retire E sw B)"
  proof (cases "sw = a")
    case True
    then show ?thesis using D a(2) by (intro area_ok_retire [OF B _ _ _ size]) auto
  next
    case False
    then have gb: "sw = getActiveArea B T_garbageBuffer" "sw \<noteq> 0" using sw by auto
    then have g: "sw < areasNo E" "stat B sw \<noteq> S_empty" "ty B sw = T_garbageBuffer \<or> ty B sw = T_retired"
      using area_okD(5) [OF B, of T_garbageBuffer] by (auto simp: slot_ok_def Let_def)
    have "t \<noteq> T_garbageBuffer \<Longrightarrow> getActiveArea B t = sw \<Longrightarrow> sw = 0" for t
      using area_okD(5) [OF B, of t] g gb by (auto simp: slot_ok_def Let_def)
    then show ?thesis using g by (intro area_ok_retire [OF B _ _ _ size]) auto
  qed
  then show ?thesis using B by (simp add: sb_contents_def area_ok_erased)
qed

lemma area_ok_delete_target:
  assumes B: "area_ok E B" and a: "gc_target E B a" "a \<noteq> 0" and size: "areasNo E < 2 ^ 16"
  shows "area_ok E (sb_delete E a B)"
  using gc_targetD [OF B a(1)] a(2) by (intro area_ok_delete [OF B _ _ _ _ size]) auto

subsection \<open>Collection\<close>

text \<open>The types a collection is called for.\<close>

definition gc_type :: "AreaType \<Rightarrow> bool" where
  "gc_type t \<longleftrightarrow> t = T_data \<or> t = T_index \<or> t = T_unset"

definition gc_done :: "'f env \<Rightarrow> AreaType \<Rightarrow> Result \<Rightarrow> superblock \<Rightarrow> bool" where
  "gc_done E t r B \<longleftrightarrow> area_ok E B \<and> (r = R_ok \<longrightarrow> t \<noteq> T_unset \<longrightarrow> getActiveArea B t \<noteq> 0)"

lemma wp_sb_step:
  assumes "sb_step f m" and "\<And>u. sb u = f (sb s) \<Longrightarrow> Q () u"
  shows "wp m Q s"
  using assms sb_stepD(1) [OF assms(1), of s] by (simp add: wp_run)

lemma gc_finish_wp:
  assumes B: "area_ok E (sb s)" and t: "gc_type t" and size: "areasNo E < 2 ^ 16"
    and a: "a < areasNo E" "a \<noteq> 0" "stat (sb s) a \<noteq> S_active" "getActiveArea (sb s) T_garbageBuffer \<noteq> a"
  shows "wp (do { whenM (t \<noteq> T_unset) (initAreaAs E a t); add_event E (Checkpoint Tp_garbage); ret R_ok })
           (\<lambda>r u. gc_done E t r (sb u)) s"
proof (cases "t = T_unset")
  case True
  then show ?thesis using B by (simp add: gc_done_def)
next
  case False
  then have t': "t \<noteq> T_no" "t \<noteq> T_unset" "t \<noteq> T_retired" using t by (auto simp: gc_type_def)
  have "area_ok E (sb_init E a t (sb s))"
    by (rule area_ok_init [OF B a(1,2) t' a(3) _ size]) (simp add: a)
  moreover have "getActiveArea (sb_init E a t (sb s)) t = a"
    using sb_init_table(3) [OF area_okD(1) [OF B] a(1) a(1) t'(1), of t] by simp
  ultimately have "wp (initAreaAs E a t) (\<lambda>_ u. gc_done E t R_ok (sb u)) s"
    using a(2) by (intro wp_sb_step [OF initAreaAs_step]) (simp add: gc_done_def)
  then show ?thesis using False by simp
qed

lemma gc_take_over_valid_wp:
  assumes B: "area_ok E (sb s)" and t: "gc_type t" and size: "areasNo E < 2 ^ 16"
    and a: "gc_target E (sb s) a" "a \<noteq> 0" and gb: "getActiveArea (sb s) T_garbageBuffer \<noteq> 0"
  shows "wp (gc_take_over E t a True l) (\<lambda>r u. gc_done E t r (sb u)) s"
proof -
  define g where "g = getActiveArea (sb s) T_garbageBuffer"
  define B1 where "B1 = sb_swap E a g (sb s)"
  note sh = area_okD(1) [OF B]
  note D = gc_targetD [OF B a(1)]
  have B1: "area_ok E B1" "gc_target E B1 a" "getActiveArea B1 T_garbageBuffer = g"
    using B a(1) sh by (simp_all add: B1_def area_ok_swap gc_target_def g_def)
  have ga: "g \<noteq> a" using D(4) a(2) g_def by auto
  define B2 where "B2 r = (if r = R_ok then id else sb_active T_garbageBuffer 0) (sb_contents E a g r B1)" for r
  have B2: "area_ok E (B2 r)" "stat (B2 r) a \<noteq> S_active" "getActiveArea (B2 r) T_garbageBuffer \<noteq> a" for r
  proof -
    have C: "area_ok E (sb_contents E a g r B1)"
      by (rule area_ok_contents_target [OF B1(1,2) a(2) size]) (use B1(3) gb g_def in auto)
    show "area_ok E (B2 r)" using C by (cases "r = R_ok") (simp_all add: B2_def area_ok_drop)
    have g': "g < areasNo E" using area_okD(5) [OF B, of T_garbageBuffer] gb by (auto simp: slot_ok_def Let_def g_def)
    note R = sb_retire_table [OF area_okD(1) [OF B1(1)] _ g']
    have "stat (sb_contents E a g r B1) a \<noteq> S_active \<and> getActiveArea (sb_contents E a g r B1) T_garbageBuffer = g"
      using gc_targetD [OF B1(1,2)] R [OF D(1)] ga area_okD(1) [OF B1(1)] B1(3) D(1)
      by (simp add: sb_contents_def)
    then show "stat (B2 r) a \<noteq> S_active" "getActiveArea (B2 r) T_garbageBuffer \<noteq> a"
      using sb_drop_table [OF area_okD(1) [OF C] D(1)] ga a(2) by (cases "r = R_ok"; simp add: B2_def)+
  qed
  have fin: "wp (do { whenM (t \<noteq> T_unset) (initAreaAs E a t); add_event E (Checkpoint Tp_garbage); ret R_ok })
           (\<lambda>r u. gc_done E t r (sb u)) v" if "sb v = B2 r" for r v
    by (rule gc_finish_wp) (use that B2 t size D(1) a(2) in simp_all)
  have set: "wp (setSummaryStatus E a l) (\<lambda>r' u. sb u = B2 r) v" if "sb v = B2 r" for r v
    by (rule keeps_wpD [OF keeps_setSummaryStatus]) (simp_all add: sc_frame_def that)
  have del: "wp (deleteAreaContents E a g False)
      (\<lambda>r u. sb u = sb_contents E a g r B1) v" if "sb v = B1" for v
    by (rule wp_mono [OF deleteAreaContents_sb]) (use that gb g_def in \<open>simp add: swapped_of_def\<close>)
  have drop: "wp (whenM (r \<noteq> R_ok) (setActiveArea E T_garbageBuffer 0)) (\<lambda>_ u. sb u = B2 r) v"
    if "sb v = sb_contents E a g r B1" for r v
    using that sb_stepD(1) [OF setActiveArea_step [of T_garbageBuffer 0 E]] by (simp add: B2_def wp_run)
  have tail: "wp (do {
        r \<leftarrow> deleteAreaContents E a g False;
        whenM (r \<noteq> R_ok) (setActiveArea E T_garbageBuffer 0);
        r' \<leftarrow> setSummaryStatus E a l;
        if r' \<noteq> R_ok then ret r'
        else do { whenM (t \<noteq> T_unset) (initAreaAs E a t); add_event E (Checkpoint Tp_garbage); ret R_ok }
      }) (\<lambda>r u. gc_done E t r (sb u)) v" if "sb v = B1" for v
    unfolding wp_bind
    apply (rule wp_mono [OF del [OF that]])
    apply (rule wp_mono [OF drop], assumption)
    apply (rule wp_mono [OF set], assumption)
    using fin B2(1) by (auto simp: gc_done_def)
  show ?thesis
    unfolding gc_take_over_def wp_bind wp_gets
    by (rule wp_sb_step [OF swapAreaPosition_step])
      (use tail in \<open>simp add: B1_def [symmetric] g_def [symmetric] B1\<close>)
qed

lemma gc_take_over_erased_wp:
  assumes B: "area_ok E (sb s)" and t: "gc_type t" and size: "areasNo E < 2 ^ 16"
    and a: "a < areasNo E" "a \<noteq> 0" "stat (sb s) a \<noteq> S_active" "getActiveArea (sb s) T_garbageBuffer \<noteq> a"
  shows "wp (gc_take_over E t a False l) (\<lambda>r u. gc_done E t r (sb u)) s"
proof -
  define B1 where "B1 = sb_swap E a (getActiveArea (sb s) T_garbageBuffer) (sb s)"
  have fin: "wp (do { whenM (t \<noteq> T_unset) (initAreaAs E a t); add_event E (Checkpoint Tp_garbage); ret R_ok })
           (\<lambda>r u. gc_done E t r (sb u)) v" if "sb v = B1" for v
    by (rule gc_finish_wp)
      (use that B t size a area_okD(1) [OF B] in \<open>simp_all add: B1_def area_ok_swap\<close>)
  show ?thesis
    unfolding gc_take_over_def wp_bind wp_gets
    by (rule wp_sb_step [OF swapAreaPosition_step]) (use fin in \<open>simp add: B1_def\<close>)
qed

lemma deleteArea_target_wp:
  assumes B: "area_ok E (sb s)" and size: "areasNo E < 2 ^ 16"
    and a: "gc_target E (sb s) a" "a \<noteq> 0"
  shows "wp (deleteArea E a) (\<lambda>r u. area_ok E (sb u)
     \<and> (r = R_ok \<longrightarrow> sb u = sb_delete E a (sb s))
     \<and> (r \<noteq> R_ok \<longrightarrow> Suc (live_areas E (sb u)) = live_areas E (sb s))) s"
proof (rule wp_mono [OF deleteArea_sb])
  fix r u
  note D = gc_targetD [OF B a(1)]
  assume "r \<in> {R_ok, R_badFlash, R_bug}
    \<and> (r = R_bug \<longleftrightarrow> a \<ge> areasNo E \<or> getType E (sb s) a = T_retired)
    \<and> sb u = (if r = R_ok then sb_delete E a (sb s) else sb_contents E a a r (sb s))"
  moreover have "\<not> (a \<ge> areasNo E \<or> getType E (sb s) a = T_retired)"
    using D by (auto simp: getType_ty)
  ultimately consider "r = R_ok" "sb u = sb_delete E a (sb s)" | "r = R_badFlash" "sb u = sb_contents E a a R_badFlash (sb s)"
    by auto
  then show "area_ok E (sb u) \<and> (r = R_ok \<longrightarrow> sb u = sb_delete E a (sb s))
     \<and> (r \<noteq> R_ok \<longrightarrow> Suc (live_areas E (sb u)) = live_areas E (sb s))"
  proof cases
    case 1
    then show ?thesis using area_ok_delete_target [OF B a size] by simp
  next
    case 2
    have "ty (sb s) a \<noteq> T_retired" using D(3) by auto
    then show ?thesis
      using 2 area_ok_contents_target [OF B a size, of a R_badFlash] live_areas_retire [OF area_okD(1) [OF B] D(1)]
      by (simp add: sb_contents_def)
  qed
qed

lemma collectGarbage_fuel_wp:
  assumes "area_ok E (sb s)" and t: "gc_type t" and size: "areasNo E < 2 ^ 16"
  shows "wp (collectGarbage_fuel n E t)
    (\<lambda>y u. (case y of None \<Rightarrow> area_ok E (sb u) | Some r \<Rightarrow> gc_done E t r (sb u))
       \<and> (live_areas E (sb s) < n \<longrightarrow> y \<noteq> None)) s"
  using assms(1)
proof (induction n arbitrary: s)
  case 0
  then show ?case by simp
next
  case (Suc n)
  let ?Q = "\<lambda>y u. (case y of None \<Rightarrow> area_ok E (sb u) | Some r \<Rightarrow> gc_done E t r (sb u))
       \<and> (live_areas E (sb s) < Suc n \<longrightarrow> y \<noteq> None)"
  have fail: "?Q (Some r) u" if "sb u = sb s" "r \<noteq> R_ok" for r u
    using that Suc.prems by (simp add: gc_done_def)
  have copy: "wp (gc_copy_branch E t c (getActiveArea (sb s) T_garbageBuffer)) ?Q v"
    if v: "sb v = sb s" and a: "gc_target E (sb s) (favourite_area c)" "favourite_area c \<noteq> 0"
      and gb: "getActiveArea (sb s) T_garbageBuffer \<noteq> 0" for c v
  proof -
    have mv: "wp (moveValidDataToNewArea E a g l) (\<lambda>_ u. sb u = sb s) v" for a g l
      by (rule keeps_wpD [OF keeps_moveValidData]) (simp_all add: sc_frame_def v)
    have over: "wp (gc_take_over E t (favourite_area c) True l') (\<lambda>r u. ?Q (Some r) u) u"
      if "sb u = sb s" for l' u
      by (rule wp_mono [OF gc_take_over_valid_wp]) (use that Suc.prems t size a gb in simp_all)
    show ?thesis unfolding gc_copy_branch_def wp_bind
      by (rule wp_mono [OF mv]) (use fail over in \<open>auto split: prod.split\<close>)
  qed
  have erase: "wp (gc_erase_branch E (collectGarbage_fuel n E t) t c) ?Q v"
    if v: "sb v = sb s" and a: "gc_target E (sb s) (favourite_area c)" "favourite_area c \<noteq> 0" for c v
  proof -
    note D = gc_targetD [OF Suc.prems a(1)]
    have "getActiveArea (sb s) T_garbageBuffer \<noteq> favourite_area c" using D(4) a(2) by auto
    then have del: "wp (gc_take_over E t (favourite_area c) False l) (\<lambda>r u. ?Q (Some r) u) u"
      if "sb u = sb_delete E (favourite_area c) (sb s)" "area_ok E (sb u)" for u l
      using that sb_delete_table [OF area_okD(1) [OF Suc.prems] D(1) D(1)] D(1) a(2) t size
      by (intro wp_mono [OF gc_take_over_erased_wp]) simp_all
    have again: "wp (collectGarbage_fuel n E t) ?Q u"
      if "area_ok E (sb u)" "Suc (live_areas E (sb u)) = live_areas E (sb s)" for u
      by (rule wp_mono [OF Suc.IH [OF that(1)]]) (use that(2) in auto)
    have "wp (deleteArea E (favourite_area c)) (\<lambda>r u. area_ok E (sb u)
     \<and> (r = R_ok \<longrightarrow> sb u = sb_delete E (favourite_area c) (sb s))
     \<and> (r \<noteq> R_ok \<longrightarrow> Suc (live_areas E (sb u)) = live_areas E (sb s))) v"
      using deleteArea_target_wp [of E v "favourite_area c"] v Suc.prems size a by simp
    then show ?thesis unfolding gc_erase_branch_def wp_bind
      by (rule wp_mono) (use del again in auto)
  qed
  have choose: "wp (findNextBestArea E t) (\<lambda>c u. choice_ok E (sb s) c \<and> sb u = sb s) v" if "sb v = sb s" for v
    using findNextBestArea_wp [of E t v] that by simp
  have round: "wp (gc_round E (collectGarbage_fuel n E t) t) ?Q v" if v: "sb v = sb s" for v
    unfolding gc_round_def wp_bind
    by (rule wp_mono [OF choose [OF v]]) (use fail copy erase in \<open>auto simp: choice_ok_def\<close>)
  have clean: "wp (if verifyAS E then garbage_buffer_clean E else ret True) (\<lambda>_ u. sb u = sb s) s"
    by (rule keeps_wpD) (auto intro!: keeps_intros simp: sc_frame_def)
  show ?case
    unfolding collectGarbage_fuel.simps wp_bind
    by (rule wp_mono [OF clean]) (use fail round in auto)
qed

lemma collectGarbage_wp:
  assumes "area_ok E (sb s)" and "gc_type t" and "areasNo E < 2 ^ 16"
  shows "wp (collectGarbage E t) (\<lambda>r u. gc_done E t r (sb u)) s"
  unfolding collectGarbage_def wp_bind wp_return
  by (rule wp_mono [OF collectGarbage_fuel_wp [OF assms]])
    (use live_areas_le [of E "sb s"] in \<open>auto split: option.splits\<close>)

lemma collectGarbage_fuel_enough:
  assumes "area_ok E (sb s)" and "gc_type t" and "areasNo E < 2 ^ 16" and "areasNo E < n"
  shows "\<exists>r. fst (run_state (collectGarbage_fuel n E t) s) = Some r"
  using collectGarbage_fuel_wp [OF assms(1-3), of n] live_areas_le [of E "sb s"] assms(4)
  by (auto simp: wp_run)

end
