(* ===== verification/SummaryUrgent.thy ===== *)
theory SummaryUrgent
  imports GcAccounting
begin

text \<open>
  The rest of \<^verbatim>\<open>class SummaryCache\<close>: the operations that may end in a garbage collection. When
  every cache entry is in use and none can be committed, the collector is asked for an area
  whose summary is committed; as the last resort \<open>commitAreaSummaryHard\<close> moves an area to
  the garbage buffer, which erases its outdated summary.
\<close>

subsection \<open>Hard commit\<close>

text \<open>The candidate: area, cache position, and its number of dirty pages. Area 0 means none.\<close>

definition hard_find ::
  "'f env \<Rightarrow> bool \<Rightarrow> nat option \<Rightarrow> 'f dev \<Rightarrow> AreaPos \<times> nat option \<times> nat" where
  "hard_find E desperate cleared s =
     fold (\<lambda>(area, cachePos) (favouriteArea, cl, favDirty).
        let e = mSummaryCache (sc s) ! cachePos;
            dirtyPages = countDirtyPages E (sc s) cachePos
        in if (isDirty e \<or> desperate) \<and> isAreaSummaryWritten e
              \<and> getStatus E (sb s) area \<noteq> S_active
              \<and> (getType E (sb s) area = T_data \<or> getType E (sb s) area = T_index)
              \<and> dirtyPages \<ge> favDirty
           then (area, Some cachePos, dirtyPages)
           else (favouriteArea, cl, favDirty))
      (mTranslation (sc s)) (0, cleared, 0)"

definition hard_choice :: "'f env \<Rightarrow> nat option \<Rightarrow> 'f dev \<Rightarrow> AreaPos \<times> nat option" where
  "hard_choice E cleared s =
     (let (fav, cl, _) = hard_find E False cleared s
      in if fav \<noteq> 0 then (fav, cl)
         else let (fav', cl', _) = hard_find E True cl s in (fav', cl'))"

definition commitAreaSummaryHard ::
  "'f env \<Rightarrow> nat option \<Rightarrow> ('f dev, Result \<times> nat option) state" where
  "commitAreaSummaryHard E cleared = do {
     (favouriteArea, cl) \<leftarrow> gets (hard_choice E cleared);
     if favouriteArea = 0 then ret (R_bug, None)
     else do {
       C \<leftarrow> gets sc;
       if \<not> existsSummaryElem C favouriteArea then ret (R_bug, None)
       else do {
         gb \<leftarrow> gets (\<lambda>s. getActiveArea (sb s) T_garbageBuffer);
         (r, validDataLeft, summary) \<leftarrow>
           moveValidDataToNewArea E favouriteArea gb
             (unpackStatusArray E C (getSummaryElemPos C favouriteArea));
         if r \<noteq> R_ok then ret (r, None)
         else if \<not> validDataLeft then do {
           _ \<leftarrow> deleteArea E favouriteArea;
           ret (R_ok, cl)
         }
         else do {
           swapAreaPosition E favouriteArea gb;
           _ \<leftarrow> deleteAreaContents E favouriteArea gb False;
           _ \<leftarrow> setSummaryStatus E favouriteArea summary;
           ret (R_ok, cl)
         }
       }
     }
   }"

subsection \<open>Urgent replacement\<close>

definition too_many_active :: "'f env \<Rightarrow> superblock \<Rightarrow> bool" where
  "too_many_active E B \<longleftrightarrow>
     2 < count_upto (areasNo E) (\<lambda>i. getStatus E B i = S_active
                                      \<and> (getType E B i = T_data \<or> getType E B i = T_index))"

definition freeNextBest_hard :: "'f env \<Rightarrow> ('f dev, Result) state" where
  "freeNextBest_hard E = do {
     (r, fav) \<leftarrow> commitAreaSummaryHard E None;
     if r \<noteq> R_ok then ret r
     else do {
       many \<leftarrow> gets (\<lambda>s. verifyAS E \<and> too_many_active E (sb s));
       if many then ret R_bug
       else do {
         (r', fav') \<leftarrow> (if fav = None then commitAreaSummaryHard E fav else ret (R_ok, fav));
         if r' \<noteq> R_ok then ret r'
         else (case fav' of Some i \<Rightarrow> commitAndEraseElem E i | None \<Rightarrow> ret R_notFound)
       }
     }
   }"

definition freeNextBest_urgent :: "'f env \<Rightarrow> ('f dev, Result) state" where
  "freeNextBest_urgent E = do {
     y \<leftarrow> freeNextBest_easy E;
     (case y of
        Inl r \<Rightarrow> ret r
      | Inr _ \<Rightarrow> do {
          r \<leftarrow> collectGarbage E T_unset;
          n \<leftarrow> gets (\<lambda>s. length (mTranslation (sc s)));
          if r = R_ok \<and> n < areaSummaryCacheSize E then ret R_ok
          else do {
            fav \<leftarrow> gets (find_uncommitted E);
            (case fav of
               Some i \<Rightarrow> commitAndEraseElem E i
             | None \<Rightarrow> freeNextBest_hard E)
          }
        })
   }"

definition loadUnbufferedArea_urgent :: "'f env \<Rightarrow> AreaPos \<Rightarrow> ('f dev, Result) state" where
  "loadUnbufferedArea_urgent E = loadUnbufferedArea_with E (freeNextBest_urgent E) True"

subsection \<open>Setting a page state\<close>

text \<open>
  When the last page of an area becomes dirty its summary is written at once. The two trace
  flags overwrite the page and compare the dirty counter with the summary.
\<close>

definition after_dirty :: "'f env \<Rightarrow> AreaPos \<Rightarrow> PageOffs \<Rightarrow> ('f dev, Result) state" where
  "after_dirty E area page = do {
     whenM (writeVerifyAS E) (do {
       p \<leftarrow> gets (\<lambda>s. getPageNumber E (sb s) (combineAddress area page));
       _ \<leftarrow> writePage E p (replicate (dataBytesPerPage E) 0xFF @ replicate (oobBytesPerPage E) 0);
       ret ()
     });
     C \<leftarrow> gets sc;
     let pos = getSummaryElemPos C area;
     if verifyAS E \<and> countDirtyPages E C pos \<noteq> getDirtyPages (area_elem C area) then ret R_fail
     else if getDirtyPages (area_elem C area) = dataPagesPerArea E
             \<and> \<not> isAreaSummaryWritten (area_elem C area)
     then do {
       (r, e) \<leftarrow> writeAreasummary E (area_elem C area);
       set_sc (upd_elem area (\<lambda>_. e));
       ret r
     }
     else ret R_ok
   }"

definition setPageStatus :: "'f env \<Rightarrow> AreaPos \<Rightarrow> PageOffs \<Rightarrow> SummaryEntry \<Rightarrow> ('f dev, Result) state" where
  "setPageStatus E area page v = do {
     ro \<leftarrow> gets readOnly;
     if ro then ret R_bug
     else if area = 0 then ret R_bug
     else if page > dataPagesPerArea E then ret R_invalidInput
     else do {
       cached \<leftarrow> gets (\<lambda>s. existsSummaryElem (sc s) area);
       r \<leftarrow> (if cached then ret R_ok else loadUnbufferedArea_urgent E area);
       if r \<noteq> R_ok then ret r
       else do {
         t \<leftarrow> gets (\<lambda>s. getType E (sb s) area);
         if t = T_unset then ret R_bug
         else do {
           old \<leftarrow> gets (\<lambda>s. elem_getStatus (dataPagesPerArea E) page (area_elem (sc s) area));
           if old = v then ret R_ok
           else do {
             add_event E (SummarySetStatus area page v);
             set_sc (upd_elem area (elem_setStatus (dataPagesPerArea E) page v));
             replay \<leftarrow> gets (\<lambda>s. journalReplayMode (sc s));
             if \<not> replay \<and> v = SE_dirty then after_dirty E area page
             else ret R_ok
           }
         }
       }
     }
   }"

definition setPageStatus_addr :: "'f env \<Rightarrow> Addr \<Rightarrow> SummaryEntry \<Rightarrow> ('f dev, Result) state" where
  "setPageStatus_addr E addr v = setPageStatus E (extractLogicalArea addr) (extractPageOffs addr) v"

definition getPageStatus_addr :: "'f env \<Rightarrow> Addr \<Rightarrow> ('f dev, Result \<times> SummaryEntry) state" where
  "getPageStatus_addr E addr = getPageStatus E (extractLogicalArea addr) (extractPageOffs addr)"

subsection \<open>Replay\<close>

definition summary_processEntry ::
  "'f env \<Rightarrow> Entry \<Rightarrow> JournalEntryPosition \<Rightarrow> ('f dev, Result) state" where
  "summary_processEntry E e pos = do {
     set_sc (\<lambda>C. C\<lparr>journalReplayMode := True\<rparr>);
     C \<leftarrow> gets sc;
     let committed = (\<lambda>area. pos_less pos (firstUncommittedElem C ! area));
     (case e of
        SummaryCommit area \<Rightarrow> ret (if committed area then R_ok else R_bug)
      | SummaryRemove area \<Rightarrow>
          if committed area then ret R_ok else do { _ \<leftarrow> deleteSummary E area; ret R_ok }
      | SummaryResetASWritten area \<Rightarrow>
          if committed area then ret R_ok else do { resetASWritten E area; ret R_ok }
      | SummarySetStatus area page v \<Rightarrow>
          if committed area then ret R_ok else do { _ \<leftarrow> setPageStatus E area page v; ret R_ok }
      | SummarySetStatusBlock area l \<Rightarrow>
          if committed area then ret R_ok
          else do {
            _ \<leftarrow> setSummaryStatus E area
                  (map (\<lambda>i. list_getStatus (dataPagesPerArea E) i l) [0 ..< dataPagesPerArea E]);
            ret R_ok
          }
      | _ \<Rightarrow> ret R_invalidInput)
   }"

definition summary_signalEndOfLog :: "('f dev, unit) state" where
  "summary_signalEndOfLog = set_sc (\<lambda>C. C\<lparr>journalReplayMode := False\<rparr>)"

end
