(* ===== verification/AreaAlloc.thy ===== *)
theory AreaAlloc
  imports SummaryUrgent
begin

text \<open>
  The search for a writable area (\<^verbatim>\<open>src/area.cpp\<close>): \<open>findWritableArea\<close> answers the active area of a
  type, or initialises an empty area, rarely erased ones first, or collects garbage;
  \<open>findFirstFreePage\<close> searches an area; \<open>manageActiveAreaFull\<close> closes a full active area.
\<close>

text \<open>
  One step of the search: \<open>Inl\<close> an area to take at once, \<open>Inr\<close> the second best so far. The guard
  against retired areas compares the position with the code of the type; the erase count of
  the second best is compared with a counter that stays 0.
\<close>

definition consider_empty :: "'f env \<Rightarrow> superblock \<Rightarrow> AreaPos \<Rightarrow> AreaPos + AreaPos \<Rightarrow> AreaPos + AreaPos" where
  "consider_empty E B area acc =
     (case acc of
        Inl a \<Rightarrow> Inl a
      | Inr secondBest \<Rightarrow>
          if getStatus E B area = S_empty \<and> getPos E B area \<noteq> area_type_code T_retired
          then
            if getOverallDeletions B < areasNo E * 2
               \<or> getErasecount E B area \<le> getOverallDeletions B div areasNo E div 2
            then Inl area
            else if getErasecount E B area < 0 \<or> secondBest = 0 then Inr area
            else Inr secondBest
          else Inr secondBest)"

definition find_empty :: "'f env \<Rightarrow> superblock \<Rightarrow> AreaPos + AreaPos" where
  "find_empty E B = fold (consider_empty E B) [0 ..< areasNo E] (Inr 0)"

definition collect_for :: "'f env \<Rightarrow> AreaType \<Rightarrow> ('f dev, AreaPos) state" where
  "collect_for E t = do {
     r \<leftarrow> collectGarbage E t;
     if r \<noteq> R_ok then do { set_lasterr r; ret 0 }
     else do {
       B \<leftarrow> gets sb;
       let a = getActiveArea B t;
       if area_status_code (getStatus E B a) > area_status_code S_empty
       then do { set_lasterr R_bug; ret 0 }
       else if a \<noteq> 0
       then if getStatus E B a \<noteq> S_active then do { set_lasterr R_bug; ret 0 } else ret a
       else do { set_lasterr R_bug; ret 0 }
     }
   }"

definition findWritableArea :: "'f env \<Rightarrow> AreaType \<Rightarrow> ('f dev, AreaPos) state" where
  "findWritableArea E t = do {
     B \<leftarrow> gets sb;
     if getActiveArea B t \<noteq> 0 then ret (getActiveArea B t)
     else if getUsedAreas B < areasNo E - minFreeAreas
     then (case find_empty E B of
             Inl area \<Rightarrow> do { initAreaAs E area t; ret area }
           | Inr second \<Rightarrow>
               if second \<noteq> 0 then do { initAreaAs E second t; ret second }
               else collect_for E t)
     else collect_for E t
   }"

text \<open>The search for a free page: \<open>Inl\<close> the final answer.\<close>

definition probe_page :: "'f env \<Rightarrow> AreaPos \<Rightarrow> nat \<Rightarrow> unit \<Rightarrow> ('f dev, (Result \<times> nat option) + unit) state" where
  "probe_page E area i u = do {
     (r, v) \<leftarrow> getPageStatus E area i;
     ret (if v = SE_free then Inl (R_ok, Some i)
          else if r \<noteq> R_ok then Inl (r, None) else Inr ())
   }"

definition findFirstFreePage :: "'f env \<Rightarrow> AreaPos \<Rightarrow> ('f dev, Result \<times> nat option) state" where
  "findFirstFreePage E area = do {
     y \<leftarrow> loopM [0 ..< dataPagesPerArea E] () (probe_page E area);
     ret (case y of Inl x \<Rightarrow> x | Inr _ \<Rightarrow> (R_noSpace, None))
   }"

definition manageActiveAreaFull :: "'f env \<Rightarrow> AreaType \<Rightarrow> ('f dev, Result) state" where
  "manageActiveAreaFull E t = do {
     area \<leftarrow> gets (\<lambda>s. getActiveArea (sb s) t);
     if area \<noteq> 0
     then do {
       (r, p) \<leftarrow> findFirstFreePage E area;
       if r \<noteq> R_ok then do { _ \<leftarrow> closeArea E area; ret R_ok } else ret R_ok
     }
     else ret R_ok
   }"

end
