(* ===== verification/AllocInvariant.thy ===== *)
theory AllocInvariant
  imports AreaAlloc
begin

text \<open>
  The urgent cache operations and the search for a writable area keep the invariants of the
  area map, and the search answers an active area of the requested type.
\<close>

subsection \<open>Frames\<close>

lemma keeps_after_dirty [keeps_intros]: "sc_frame I \<Longrightarrow> keeps I (after_dirty E a p)"
  unfolding after_dirty_def by (intro keeps_intros) (auto intro: sc_frameD)

lemma keeps_probe_page [keeps_intros]: "sc_frame I \<Longrightarrow> keeps I (probe_page E a i u)"
  unfolding probe_page_def by (intro keeps_intros)

lemma keeps_findFirstFreePage [keeps_intros]: "sc_frame I \<Longrightarrow> keeps I (findFirstFreePage E a)"
  unfolding findFirstFreePage_def by (intro keeps_intros)

lemma keeps_set_lasterr: "(\<And>s. I s \<Longrightarrow> I (s\<lparr>lasterr := r\<rparr>)) \<Longrightarrow> keeps I (set_lasterr r)"
  unfolding set_lasterr_def by (rule keeps_modify)

lemma keeps_set_lasterr_sb [keeps_intros]: "keeps (\<lambda>s. P (sb s)) (set_lasterr r)"
  by (rule keeps_set_lasterr) simp

context map_invariant
begin

lemma sc_frame_I: "sc_frame (\<lambda>s. I (sb s))"
  by (simp add: sc_frame_def)

lemma keeps_commitAreaSummaryHard: "keeps (\<lambda>s. I (sb s)) (commitAreaSummaryHard E c)"
  unfolding commitAreaSummaryHard_def
  by (intro keeps_intros keeps_deleteArea keeps_deleteAreaContents keeps_swap sc_frame_I)

lemma keeps_freeNextBest_hard: "keeps (\<lambda>s. I (sb s)) (freeNextBest_hard E)"
  unfolding freeNextBest_hard_def
  by (intro keeps_intros keeps_commitAreaSummaryHard sc_frame_I)

lemma keeps_freeNextBest_urgent: "keeps (\<lambda>s. I (sb s)) (freeNextBest_urgent E)"
  unfolding freeNextBest_urgent_def
  by (intro keeps_intros keeps_freeNextBest_hard keeps_collectGarbage sc_frame_I)

lemma keeps_loadUnbufferedArea_urgent: "keeps (\<lambda>s. I (sb s)) (loadUnbufferedArea_urgent E a)"
  unfolding loadUnbufferedArea_urgent_def
  by (intro keeps_intros keeps_freeNextBest_urgent sc_frame_I)

lemma keeps_setPageStatus: "keeps (\<lambda>s. I (sb s)) (setPageStatus E a p v)"
  unfolding setPageStatus_def
  by (intro keeps_intros keeps_loadUnbufferedArea_urgent sc_frame_I) simp_all

lemma keeps_collect_for: "keeps (\<lambda>s. I (sb s)) (collect_for E t)"
  unfolding collect_for_def by (intro keeps_intros keeps_collectGarbage)

lemma keeps_findWritableArea: "keeps (\<lambda>s. I (sb s)) (findWritableArea E t)"
  unfolding findWritableArea_def by (intro keeps_intros keeps_initAreaAs keeps_collect_for)

lemma keeps_manageActiveAreaFull: "keeps (\<lambda>s. I (sb s)) (manageActiveAreaFull E t)"
  unfolding manageActiveAreaFull_def by (intro keeps_intros keeps_closeArea sc_frame_I)

end

subsection \<open>Accounting through the urgent operations\<close>

lemma wp_keep_sb:
  assumes "keeps (\<lambda>u. sb u = B) m" and "sb s = B" and "\<And>x u. sb u = B \<Longrightarrow> Q x u"
  shows "wp m Q s"
  by (rule wp_mono [OF keeps_wpD [OF assms(1,2)]]) (rule assms(3))

lemma sc_frame_eq [simp]: "sc_frame (\<lambda>u. sb u = B)"
  by (simp add: sc_frame_def)

lemma fold_inv:
  assumes "\<And>x a. P a \<Longrightarrow> P (f x a)" and "P a"
  shows "P (fold f xs a)"
  using assms(2) by (induction xs arbitrary: a) (auto intro: assms(1))

lemma hard_find_target:
  "fst (hard_find E d c s) = 0 \<or> gc_target E (sb s) (fst (hard_find E d c s))"
proof -
  define P where "P x \<longleftrightarrow> fst x = 0 \<or> gc_target E (sb s) (fst x)" for x :: "nat \<times> nat option \<times> nat"
  have "P (hard_find E d c s)"
    unfolding hard_find_def
    by (rule fold_inv)
      (auto simp: P_def Let_def gc_target_def getStatus_def getType_def stat_def ty_def split: if_splits)
  then show ?thesis by (simp add: P_def)
qed

lemma hard_choice_target:
  "fst (hard_choice E c s) = 0 \<or> gc_target E (sb s) (fst (hard_choice E c s))"
  using hard_find_target [of E False c s] hard_find_target [of E True _ s]
  by (auto simp: hard_choice_def Let_def split: prod.splits) (metis fst_conv)+

lemma commitAreaSummaryHard_wp:
  assumes B: "area_ok E (sb s)" and size: "areasNo E < 2 ^ 16"
  shows "wp (commitAreaSummaryHard E c) (\<lambda>_ u. area_ok E (sb u)) s"
proof -
  obtain a cl where ch: "hard_choice E c s = (a, cl)" by fastforce
  have a: "a = 0 \<or> gc_target E (sb s) a" using hard_choice_target [of E c s] ch by simp
  define g where "g = getActiveArea (sb s) T_garbageBuffer"
  have move: "wp (moveValidDataToNewArea E a g l) (\<lambda>_ u. sb u = sb s) s" for l
    by (rule keeps_wpD [OF keeps_moveValidData]) simp_all
  have del: "wp (deleteArea E a) (\<lambda>_ u. area_ok E (sb u)) u" if "sb u = sb s" "a \<noteq> 0" for u
    by (rule wp_mono [OF deleteArea_target_wp]) (use that a B size in auto)
  have contents: "wp (deleteAreaContents E a g False) (\<lambda>_ u. area_ok E (sb u)) u"
    if "sb u = sb_swap E a g (sb s)" "a \<noteq> 0" for u
  proof (rule wp_mono [OF deleteAreaContents_sb])
    fix r v assume "r \<in> {R_ok, R_badFlash, R_bug} \<and>
      (r = R_bug \<longleftrightarrow> areasNo E \<le> a \<or> getType E (sb u) a = T_retired) \<and>
      sb v = sb_contents E a (swapped_of a g) r (sb u)"
    moreover have "area_ok E (sb_contents E a (swapped_of a g) r (sb u))"
      by (rule area_ok_contents_target [OF _ _ _ size])
        (use that a B area_okD(1) [OF B] in \<open>auto simp: area_ok_swap gc_target_def swapped_of_def g_def\<close>)
    ultimately show "area_ok E (sb v)" by simp
  qed
  have summary: "wp (setSummaryStatus E a l) (\<lambda>_ u. area_ok E (sb u)) u" if "area_ok E (sb u)" for l u
    by (rule keeps_wpD [OF keeps_setSummaryStatus]) (simp_all add: sc_frame_def that)
  have swap: "wp (do { swapAreaPosition E a g; _ \<leftarrow> deleteAreaContents E a g False;
       _ \<leftarrow> setSummaryStatus E a l; ret (R_ok, cl) }) (\<lambda>_ u. area_ok E (sb u)) u"
    if "sb u = sb s" "a \<noteq> 0" for l u
    unfolding wp_bind
    by (rule wp_sb_step [OF swapAreaPosition_step], rule wp_mono [OF contents])
      (use that summary in simp_all)
  show ?thesis
    unfolding commitAreaSummaryHard_def
    using B ch
    by (auto simp: g_def [symmetric] simp del: wp_bind intro!: wp_mono [OF move] swap
        simp: wp_bind [of "gets _"] wp_bind [of "moveValidDataToNewArea _ _ _ _"] wp_bind [of "deleteArea _ _"]
          wp_mono [OF del])
qed

text \<open>The same statement for all of them: \<open>area_ok\<close> is kept.\<close>

definition ok_frame :: "'f env \<Rightarrow> 'f dev \<Rightarrow> bool" where
  "ok_frame E s \<longleftrightarrow> area_ok E (sb s)"

lemma ok_frame_ev [simp]: "ev_frame (ok_frame E)"
  by (rule ev_frameI) (simp_all add: ok_frame_def)

lemma ok_frame_sc [simp]: "sc_frame (ok_frame E)"
  by (simp add: sc_frame_def) (simp add: ok_frame_def)

lemma keeps_ok_commitAreaSummaryHard:
  "areasNo E < 2 ^ 16 \<Longrightarrow> keeps (ok_frame E) (commitAreaSummaryHard E c)"
  unfolding keeps_wp ok_frame_def
  by (intro allI impI, rule wp_mono [OF commitAreaSummaryHard_wp]) simp_all

lemma keeps_ok_collectGarbage:
  "areasNo E < 2 ^ 16 \<Longrightarrow> gc_type t \<Longrightarrow> keeps (ok_frame E) (collectGarbage E t)"
  unfolding keeps_wp ok_frame_def
  by (intro allI impI, rule wp_mono [OF collectGarbage_wp]) (simp_all add: gc_done_def)

lemma keeps_ok_freeNextBest_urgent:
  "areasNo E < 2 ^ 16 \<Longrightarrow> keeps (ok_frame E) (freeNextBest_urgent E)"
  unfolding freeNextBest_urgent_def freeNextBest_hard_def
  by (intro keeps_intros keeps_ok_commitAreaSummaryHard keeps_ok_collectGarbage) (simp_all add: gc_type_def)

lemma keeps_ok_setPageStatus:
  "areasNo E < 2 ^ 16 \<Longrightarrow> keeps (ok_frame E) (setPageStatus E a p v)"
  unfolding setPageStatus_def loadUnbufferedArea_urgent_def
  by (intro keeps_intros keeps_ok_freeNextBest_urgent) (simp_all add: ok_frame_def)

subsection \<open>Finding a writable area\<close>

lemma find_empty_empty:
  "(case find_empty E B of Inl a \<Rightarrow> a < areasNo E \<and> stat B a = S_empty
    | Inr a \<Rightarrow> a = 0 \<or> a < areasNo E \<and> stat B a = S_empty)"
proof -
  define P where "P x \<longleftrightarrow> (case x of Inl a \<Rightarrow> a < areasNo E \<and> stat B a = S_empty
    | Inr a \<Rightarrow> a = 0 \<or> a < areasNo E \<and> stat B a = S_empty)" for x :: "nat + nat"
  have "P (find_empty E B)"
    unfolding find_empty_def
    by (rule fold_inv)
      (auto simp: P_def consider_empty_def getStatus_def stat_def split: sum.splits if_splits)
  then show ?thesis by (simp add: P_def)
qed

definition writable :: "'f env \<Rightarrow> AreaType \<Rightarrow> AreaPos \<Rightarrow> superblock \<Rightarrow> bool" where
  "writable E t a B \<longleftrightarrow>
     a < areasNo E \<and> getActiveArea B t = a \<and> ty B a = t \<and> stat B a = S_active"

lemma active_writable:
  "area_ok E B \<Longrightarrow> t \<noteq> T_garbageBuffer \<Longrightarrow> getActiveArea B t \<noteq> 0 \<Longrightarrow> writable E t (getActiveArea B t) B"
  using area_okD(5) [of E B t] by (auto simp: slot_ok_def writable_def Let_def)

lemma init_empty_wp:
  assumes B: "area_ok E (sb s)" and t: "t = T_data \<or> t = T_index" and size: "areasNo E < 2 ^ 16"
    and a: "a < areasNo E" "stat (sb s) a = S_empty"
  shows "wp (initAreaAs E a t) (\<lambda>_ u. area_ok E (sb u) \<and> writable E t a (sb u)) s"
proof (rule wp_sb_step [OF initAreaAs_step])
  fix u :: "'a dev" assume u: "sb u = sb_init E a t (sb s)"
  have a0: "a \<noteq> 0" using area_okD(4) [OF B] a(2) by metis
  have t': "t \<noteq> T_no" "t \<noteq> T_unset" "t \<noteq> T_retired" using t by auto
  have gb: "getActiveArea (sb s) T_garbageBuffer \<noteq> a"
    using area_okD(5) [OF B, of T_garbageBuffer] a a0 by (auto simp: slot_ok_def Let_def)
  show "area_ok E (sb u) \<and> writable E t a (sb u)"
    using area_ok_init [OF B a(1) a0 t' _ _ size] gb a u
      sb_init_table(1,2) [OF area_okD(1) [OF B] a(1) a(1) t'(1)]
      sb_init_table(3) [OF area_okD(1) [OF B] a(1) a(1) t'(1), of t]
    by (simp add: writable_def)
qed

definition found_area :: "'f env \<Rightarrow> AreaType \<Rightarrow> AreaPos \<Rightarrow> 'f dev \<Rightarrow> bool" where
  "found_area E t a s \<longleftrightarrow>
     area_ok E (sb s) \<and> (a \<noteq> 0 \<and> writable E t a (sb s) \<or> a = 0 \<and> lasterr s \<noteq> R_ok)"

lemma collect_for_wp:
  assumes B: "area_ok E (sb s)" and t: "t = T_data \<or> t = T_index" and size: "areasNo E < 2 ^ 16"
  shows "wp (collect_for E t) (found_area E t) s"
proof -
  have gt: "gc_type t" "t \<noteq> T_unset" "t \<noteq> T_garbageBuffer" using t by (auto simp: gc_type_def)
  show ?thesis unfolding collect_for_def wp_bind
    apply (rule wp_mono [OF collectGarbage_wp [OF B gt(1) size]])
    subgoal for r u
      using active_writable [of E "sb u" t] gt
      by (cases "getStatus E (sb u) (getActiveArea (sb u) t)")
        (auto simp: gc_done_def found_area_def set_lasterr_def Let_def writable_def getStatus_stat)
    done
qed

lemma findWritableArea_wp:
  assumes B: "area_ok E (sb s)" and t: "t = T_data \<or> t = T_index" and size: "areasNo E < 2 ^ 16"
  shows "wp (findWritableArea E t) (found_area E t) s"
proof -
  have init: "wp (initAreaAs E a t) (\<lambda>_ u. found_area E t a u) s"
    if "a < areasNo E" "stat (sb s) a = S_empty" for a
  proof (rule wp_mono [OF init_empty_wp [OF B t size that]])
    fix x and u :: "'a dev" assume "area_ok E (sb u) \<and> writable E t a (sb u)"
    moreover have "a \<noteq> 0" using area_okD(4) [OF B] that(2) by metis
    ultimately show "found_area E t a u" by (simp add: found_area_def)
  qed
  have gt: "t \<noteq> T_garbageBuffer" using t by auto
  show ?thesis
    unfolding findWritableArea_def
    using find_empty_empty [of E "sb s"] init init_empty_wp [OF B t size] collect_for_wp [OF B t size] active_writable [OF B gt] B
    by (auto simp: found_area_def split: sum.splits)
qed

end
