(* ===== verification/JournalReadback.thy ===== *)
theory JournalReadback
  imports JournalLog
begin

text \<open>
  The contract of \<^verbatim>\<open>class JournalPersistence\<close> (\<^verbatim>\<open>src/journalPersistence.hpp\<close>), which the journal is
  written against, as the locale \<open>journal_store\<close>: appending behind the last entry extends the
  log, rewinding goes back to its start, and reading answers the entries in order and then
  that there is none left. The locale is interpreted on the MRAM persistence.
\<close>

subsection \<open>The contract\<close>

text \<open>
  \<open>holds s l k\<close>: the store of \<open>s\<close> holds the entries \<open>l\<close>, and the next one to be read is number \<open>k\<close>.
\<close>

locale journal_store =
  fixes holds :: "'s \<Rightarrow> 'e list \<Rightarrow> nat \<Rightarrow> bool"
    and ok_entry :: "'e \<Rightarrow> bool"
    and usable :: "'s \<Rightarrow> bool"
    and append :: "'e \<Rightarrow> ('s, Result) state"
    and rewind :: "('s, Result) state"
    and clear :: "('s, Result) state"
    and next_elem :: "('s, Result \<times> 'e option) state"
  assumes append_holds:
      "holds s l (length l) \<Longrightarrow> ok_entry e \<Longrightarrow> run_state (append e) s = (r, t) \<Longrightarrow>
       (r = R_noSpace \<and> t = s) \<or> (r \<in> {R_ok, R_lowMem} \<and> holds t (l @ [e]) (Suc (length l)))"
    and rewind_holds: "holds s l k \<Longrightarrow> run_state rewind s = (r, t) \<Longrightarrow> r = R_ok \<and> holds t l 0"
    and clear_holds: "usable s \<Longrightarrow> run_state clear s = (r, t) \<Longrightarrow> r = R_ok \<and> holds t [] 0"
    and next_holds:
      "holds s l k \<Longrightarrow> k < length l \<Longrightarrow> run_state next_elem s = (x, t) \<Longrightarrow>
       x = (R_ok, Some (l ! k)) \<and> holds t l (Suc k)"
    and next_end:
      "holds s l k \<Longrightarrow> \<not> k < length l \<Longrightarrow> run_state next_elem s = (x, t) \<Longrightarrow>
       x = (R_notFound, None) \<and> t = s"
begin

fun append_all :: "'e list \<Rightarrow> ('s, bool) state" where
  "append_all [] = ret True"
| "append_all (e # es) = do { r \<leftarrow> append e; if r = R_noSpace then ret False else append_all es }"

text \<open>Read at most \<open>n\<close> entries, up to the first failure.\<close>

fun read_all :: "nat \<Rightarrow> ('s, 'e list) state" where
  "read_all 0 = ret []"
| "read_all (Suc n) = do {
     x \<leftarrow> next_elem;
     (case x of
        (R_ok, Some e) \<Rightarrow> do { es \<leftarrow> read_all n; ret (e # es) }
      | _ \<Rightarrow> ret [])
   }"

lemma append_all_holds:
  assumes "holds s l (length l)" and "list_all ok_entry es" and "run_state (append_all es) s = (b, t)"
  shows "\<exists>es'. holds t (l @ es') (length (l @ es')) \<and> (b \<longrightarrow> es' = es) \<and> length es' \<le> length es
     \<and> es' = take (length es') es"
  using assms
proof (induction es arbitrary: l s)
  case Nil
  then show ?case by (intro exI [of _ "[]"]) simp
next
  case (Cons e es)
  obtain r u where ru: "run_state (append e) s = (r, u)" by fastforce
  consider "r = R_noSpace" "u = s" | "r \<noteq> R_noSpace" "holds u (l @ [e]) (length (l @ [e]))"
    using append_holds [OF Cons.prems(1) _ ru] Cons.prems(2) by auto
  then show ?case
  proof cases
    case 1
    then show ?thesis using Cons.prems ru by (intro exI [of _ "[]"]) simp
  next
    case 2
    have "run_state (append_all es) u = (b, t)" using Cons.prems(3) ru 2(1) by simp
    from Cons.IH [OF 2(2) _ this] Cons.prems(2) obtain es' where
      "holds t ((l @ [e]) @ es') (length ((l @ [e]) @ es'))" "b \<longrightarrow> es' = es" "length es' \<le> length es"
      "es' = take (length es') es" by auto
    then show ?thesis by (intro exI [of _ "e # es'"]) simp
  qed
qed

lemma read_all_holds:
  assumes "holds s l k" and "k \<le> length l" and "length l - k \<le> n"
  shows "fst (run_state (read_all n) s) = drop k l"
  using assms
proof (induction n arbitrary: s k)
  case 0
  then show ?case by simp
next
  case (Suc n)
  obtain x t where x: "run_state next_elem s = (x, t)" by fastforce
  show ?case
  proof (cases "k < length l")
    case True
    note h = next_holds [OF Suc.prems(1) True x]
    have "fst (run_state (read_all n) t) = drop (Suc k) l"
      by (rule Suc.IH) (use h True Suc.prems(3) in auto)
    then show ?thesis using x h True by (simp add: split_beta Cons_nth_drop_Suc)
  next
    case False
    then show ?thesis using next_end [OF Suc.prems(1) False x] x Suc.prems(2) by simp
  qed
qed

text \<open>What was recorded after a clear is what a replay reads.\<close>

lemma replay_reads_log:
  assumes "usable s" and "list_all ok_entry es"
    and "run_state (do { _ \<leftarrow> clear; b \<leftarrow> append_all es; _ \<leftarrow> rewind; ret b }) s = (b, t)"
  shows "\<exists>es'. fst (run_state (read_all (length es)) t) = es' \<and> es' = take (length es') es \<and> (b \<longrightarrow> es' = es)"
proof -
  obtain r1 s1 where 1: "run_state clear s = (r1, s1)" by fastforce
  obtain b' s2 where 2: "run_state (append_all es) s1 = (b', s2)" by fastforce
  obtain r3 s3 where 3: "run_state rewind s2 = (r3, s3)" by fastforce
  have bt: "b = b'" "t = s3" using assms(3) 1 2 3 by simp_all
  have "holds s1 [] (length [])" using clear_holds [OF assms(1) 1] by simp
  from append_all_holds [OF this assms(2) 2] obtain es' where es':
    "holds s2 es' (length es')" "b' \<longrightarrow> es' = es" "length es' \<le> length es" "es' = take (length es') es" by auto
  have "holds s3 es' 0" using rewind_holds [OF es'(1) 3] by simp
  from read_all_holds [OF this, of "length es"] have "fst (run_state (read_all (length es)) s3) = es'"
    using es'(3) by simp
  then show ?thesis using es' bt by blast
qed

end

subsection \<open>The MRAM\<close>

definition seg :: "(nat \<Rightarrow> byte) \<Rightarrow> nat \<Rightarrow> nat \<Rightarrow> byte list" where
  "seg m a n = map m [a ..< a + n]"

definition put_bytes :: "nat \<Rightarrow> byte list \<Rightarrow> (nat \<Rightarrow> byte) \<Rightarrow> nat \<Rightarrow> byte" where
  "put_bytes a bs m i = (if a \<le> i \<and> i < a + length bs then bs ! (i - a) else m i)"

lemma run_writeMRAM: "run_state (writeMRAM a bs) s = ((), s\<lparr>mram := put_bytes a bs (mram s)\<rparr>)"
  by (simp add: writeMRAM_def put_bytes_def [abs_def])

lemma run_readMRAM: "run_state (readMRAM a n) s = (seg (mram s) a n, s)"
  by (simp add: readMRAM_def seg_def)

lemma seg_put_same [simp]: "seg (put_bytes a bs m) a (length bs) = bs"
  by (rule nth_equalityI) (simp_all add: seg_def put_bytes_def)

lemma seg_put_other: "a + length bs \<le> c \<or> c + n \<le> a \<Longrightarrow> seg (put_bytes a bs m) c n = seg m c n"
  by (auto simp: seg_def put_bytes_def)

lemma seg_append: "seg m a (k + n) = seg m a k @ seg m (a + k) n"
  by (simp add: seg_def add.assoc upt_add_eq_append [of a "a + k" n, simplified add.assoc] flip: map_append)

lemma seg_split: "k \<le> n \<Longrightarrow> seg m a n = seg m a k @ seg m (a + k) (n - k)"
  using seg_append [of m a k "n - k"] by simp

lemma length_seg [simp]: "length (seg m a n) = n"
  by (simp add: seg_def)

definition loggable :: "nat \<Rightarrow> Entry \<Rightarrow> bool" where
  "loggable n e \<longleftrightarrow> entry_ok n e \<and> (\<forall>a p. e \<noteq> AreaMapPosition a p)"

definition enc :: "Entry list \<Rightarrow> byte list" where
  "enc l = concat (map entry_bytes l)"

lemma enc_simps [simp]: "enc [] = []" "enc (l @ l') = enc l @ enc l'" "enc (e # l) = entry_bytes e @ enc l"
  by (simp_all add: enc_def)

lemma loggable_length: "loggable n e \<Longrightarrow> length (entry_bytes e) = getSizeFromJE n e"
  using entry_bytes_length [of n e] by (cases e) (auto simp: loggable_def)

definition log_end :: "Entry list \<Rightarrow> nat" where
  "log_end l = 4 + length (enc l)"

definition mram_holds :: "'f env \<Rightarrow> 'f dev \<Rightarrow> Entry list \<Rightarrow> nat \<Rightarrow> bool" where
  "mram_holds E s l k \<longleftrightarrow>
     list_all (loggable (dataPagesPerArea E)) l \<and> k \<le> length l \<and>
     log_end l \<le> mramSize E \<and> mramSize E < 2 ^ 32 - 1 \<and>
     seg (mram s) 0 4 = le_bytes 4 (log_end l) \<and>
     seg (mram s) 4 (length (enc l)) = enc l \<and>
     curr (jr s) = log_end (take k l)"

definition mram_usable :: "'f env \<Rightarrow> 'f dev \<Rightarrow> bool" where
  "mram_usable E s \<longleftrightarrow> 4 \<le> mramSize E \<and> mramSize E < 2 ^ 32 - 1"

lemma hwm_value:
  assumes "mram_holds E s l k"
  shows "le_value (seg (mram s) 0 4) = log_end l"
  using assms by (simp add: mram_holds_def le_value_le_bytes)

lemma append_mram:
  assumes h: "mram_holds E s l (length l)" and e: "loggable (dataPagesPerArea E) e"
    and run: "run_state (appendEntry E e) s = (r, t)"
  shows "(r = R_noSpace \<and> t = s) \<or> (r \<in> {R_ok, R_lowMem} \<and> mram_holds E t (l @ [e]) (Suc (length l)))"
proof (cases "curr (jr s) + sizeof_Max (dataPagesPerArea E) > mramSize E")
  case True
  then show ?thesis using run by (simp add: appendEntry_def)
next
  case False
  let ?n = "dataPagesPerArea E" and ?c = "log_end l"
  let ?m = "put_bytes 0 (le_bytes 4 (?c + getSizeFromJE ?n e)) (put_bytes ?c (entry_bytes e) (mram s))"
  have c: "curr (jr s) = ?c" using h by (simp add: mram_holds_def)
  have take: "take (getSizeFromJE ?n e) (entry_bytes e) = entry_bytes e"
    using loggable_length [OF e] by simp
  have t: "mram t = ?m" "curr (jr t) = ?c + getSizeFromJE ?n e" and r: "r \<in> {R_ok, R_lowMem}"
    using run False c by (auto simp: appendEntry_def Let_def run_writeMRAM take split: if_splits)
  have end': "log_end (l @ [e]) = ?c + getSizeFromJE ?n e"
    using loggable_length [OF e] by (simp add: log_end_def)
  have fits: "log_end (l @ [e]) \<le> mramSize E"
    using False c getSize_le_Max [of ?n e] by (simp add: end')
  have s1: "seg ?m 0 4 = le_bytes 4 (log_end (l @ [e]))"
    using seg_put_same [of 0 "le_bytes 4 (?c + getSizeFromJE ?n e)"] by (simp add: end')
  have "seg ?m 4 (length (enc l)) = enc l"
    using h by (simp add: seg_put_other mram_holds_def log_end_def)
  moreover have "seg ?m ?c (length (entry_bytes e)) = entry_bytes e"
    by (simp add: seg_put_other log_end_def)
  ultimately have s2: "seg ?m 4 (length (enc (l @ [e]))) = enc (l @ [e])"
    by (simp add: seg_append log_end_def)
  show ?thesis
    using h e t r end' fits s1 s2 by (simp add: mram_holds_def)
qed

lemma log_end_take: "k < length l \<Longrightarrow> log_end (take (Suc k) l) = log_end (take k l) + length (entry_bytes (l ! k))"
  by (simp add: log_end_def take_Suc_conv_app_nth)

lemma next_mram:
  assumes h: "mram_holds E s l k" and k: "k < length l"
    and run: "run_state (readNextElem E) s = (x, t)"
  shows "x = (R_ok, Some (l ! k)) \<and> mram_holds E t l (Suc k)"
proof -
  let ?n = "dataPagesPerArea E" and ?c = "log_end (take k l)"
  define e where "e = l ! k"
  have e: "loggable ?n e" using h k by (simp add: mram_holds_def e_def list_all_length)
  have c: "curr (jr s) = ?c" using h by (simp add: mram_holds_def)
  have l: "l = take k l @ e # drop (Suc k) l" using k by (simp add: e_def id_take_nth_drop)
  have size: "length (entry_bytes e) = getSizeFromJE ?n e" by (rule loggable_length [OF e])
  have encl: "enc l = enc (take k l) @ entry_bytes e @ enc (drop (Suc k) l)"
    by (subst l) (simp only: enc_simps)
  have "seg (mram s) 4 (length (enc l)) = enc l" using h by (simp add: mram_holds_def)
  then have "seg (mram s) ?c (length (entry_bytes e)) = entry_bytes e"
    unfolding encl by (simp add: seg_append log_end_def)
  then obtain rest where seg: "seg (mram s) ?c (sizeof_Max ?n) = entry_bytes e @ rest"
    using seg_split [of "length (entry_bytes e)" "sizeof_Max ?n" "mram s" ?c] getSize_le_Max [of ?n e] size
    by metis
  have parse: "parse_entry ?n (seg (mram s) ?c (sizeof_Max ?n)) = Some e"
    using parse_entry_bytes [of ?n e rest] e seg by (simp add: loggable_def)
  have sz: "getSizeFromMax ?n (seg (mram s) ?c (sizeof_Max ?n)) = getSizeFromJE ?n e"
    by (rule parse_entry_size [OF parse])
  have lt: "?c < log_end l"
    using getSize_pos [of ?n e] size by (simp add: log_end_def encl)
  have hwm: "le_value (seg (mram s) 0 4) = log_end l" by (rule hwm_value [OF h])
  have "log_end l \<le> mramSize E" "mramSize E < 2 ^ 32 - 1" using h by (simp_all add: mram_holds_def)
  then have bound: "log_end l \<noteq> 2 ^ 32 - 1" by linarith
  have "x = (R_ok, Some e)" and t: "t = s\<lparr>jr := (jr s)\<lparr>curr := ?c + getSizeFromJE ?n e\<rparr>\<rparr>"
    using run lt bound parse sz getSize_pos [of ?n e] c hwm by (auto simp: readNextElem_def run_readMRAM Let_def)
  moreover have "?c + getSizeFromJE ?n e = log_end (take (Suc k) l)"
    using log_end_take [OF k] size by (simp add: e_def)
  ultimately show ?thesis using h k by (simp add: mram_holds_def e_def)
qed

lemma next_mram_end:
  assumes h: "mram_holds E s l k" and k: "\<not> k < length l"
    and run: "run_state (readNextElem E) s = (x, t)"
  shows "x = (R_notFound, None) \<and> t = s"
proof -
  have "curr (jr s) = log_end l" using h k by (simp add: mram_holds_def)
  then show ?thesis using run hwm_value [OF h] by (auto simp: readNextElem_def run_readMRAM Let_def)
qed

interpretation mram_log: journal_store "mram_holds E" "loggable (dataPagesPerArea E)" "mram_usable E"
  "appendEntry E" mram_rewind mram_clear "readNextElem E" for E :: "'f env"
proof
  show "r = R_ok \<and> mram_holds E t l 0" if "mram_holds E s l k" "run_state mram_rewind s = (r, t)" for s t l k r
    using that by (auto simp: mram_rewind_def mram_holds_def log_end_def)
  show "r = R_ok \<and> mram_holds E t [] 0" if "mram_usable E s" "run_state mram_clear s = (r, t)" for s t r
    using that seg_put_same [of 0 "le_bytes 4 4" "mram s"]
    by (auto simp: mram_clear_def mram_holds_def mram_usable_def log_end_def run_writeMRAM) (simp_all add: seg_def)
qed (fact append_mram next_mram next_mram_end)+

end
