(* ===== verification/ExampleDevice.thy ===== *)
theory ExampleDevice
  imports AllocInvariant JournalReadback
begin

text \<open>
  A small device at which the hypotheses of the properties are shown to be satisfiable: six
  areas of two blocks with two pages each, a flash that stores whole pages, 1024 bytes of MRAM.
  Area 0 is the superblock, area 1 the garbage buffer, area 2 is the active data area, area 3
  is a closed data area, areas 4 and 5 are empty.
\<close>

type_synonym ram_flash = "nat \<Rightarrow> byte list"

definition ram_read :: "PageAbs \<Rightarrow> nat \<Rightarrow> ram_flash \<Rightarrow> (Result \<times> byte list) \<times> ram_flash" where
  "ram_read p n f = ((R_ok, take n (f p @ replicate n 0xFF)), f)"

definition ram_write :: "PageAbs \<Rightarrow> byte list \<Rightarrow> ram_flash \<Rightarrow> Result \<times> ram_flash" where
  "ram_write p bs f = (R_ok, f(p := bs))"

definition ram_erase :: "BlockAbs \<Rightarrow> ram_flash \<Rightarrow> Result \<times> ram_flash" where
  "ram_erase b f = (R_ok, \<lambda>p. if p div 2 = b then [] else f p)"

definition ram_mark :: "BlockAbs \<Rightarrow> ram_flash \<Rightarrow> Result \<times> ram_flash" where
  "ram_mark b f = (R_ok, f)"

definition ex_env :: "ram_flash env" where
  "ex_env = \<lparr>dataBytesPerPage = 16, oobBytesPerPage = 2, pagesPerBlock = 2, blocksTotal = 12,
     blocksPerArea = 2, jumpPadNo = 1, mramSize = 1024, reservedLogsize = 200,
     areaSummaryCacheSize = 3, maxNumberOfInodes = 4, maxPagesPerWrite = 4,
     treeNodeCacheSize = 3, maxNumberOfFiles = 2,
     verifyAS = False, writeVerifyAS = False, verifyTC = False, verifyDev = False,
     drv_readPage = ram_read, drv_writePage = ram_write, drv_eraseBlock = ram_erase,
     drv_markBad = ram_mark, drv_checkBad = ram_mark,
     drv_initializeNand = Pair R_ok, drv_deInitializeNand = Pair R_ok,
     drv_pageBuffer = (\<lambda>_. replicate 18 0), sys_now = (\<lambda>_. 0)\<rparr>"

definition ex_area :: "AreaType \<Rightarrow> AreaStatus \<Rightarrow> nat \<Rightarrow> Area" where
  "ex_area t s p = \<lparr>a_type = t, a_status = s, a_erasecount = 0, a_position = p\<rparr>"

definition ex_sb :: superblock where
  "ex_sb = \<lparr>mRootnodeAddr = 0x00030000, mRootnodeDirty = False,
     mMap = [ex_area T_superblock S_active 0, ex_area T_garbageBuffer S_active 1,
             ex_area T_data S_active 2, ex_area T_index S_closed 3,
             ex_area T_unset S_empty 4, ex_area T_unset S_empty 5],
     mActiveAreas = [0, 0, 0, 0, 2, 1, 0], mUsedAreas = 4, mOverallDeletions = 0,
     pathToSuperIndexDirect = [0, 0, 0], superChainIndexes = [0, 0, 0], testmode = False\<rparr>"

text \<open>The tree and the page address cache are empty.\<close>

definition ex_psm :: "nat \<Rightarrow> psm" where
  "ex_psm n = \<lparr>newPageList = replicate n 0, oldPageList = replicate n 0, psm_position = replicate n 0,
     pageListHWM = 0, currentInode = 0, journalState = J_ok\<rparr>"

definition ex_node :: TreeCacheNode where
  "ex_node = \<lparr>raw = \<lparr>n_key = [0], n_addr = [0, 0], n_inode = [], n_self = 0, n_isLeaf = False, n_keys = 0\<rparr>,
     parent = None, pointers = [None, None], n_dirty = False, n_locked = False, n_inheritedLock = False\<rparr>"

definition ex_inode :: Inode where
  "ex_inode = \<lparr>i_no = 0, i_type = I_file, i_perm = 0, i_reservedPages = 0, i_size = 0, i_crea = 0, i_mod = 0,
     i_direct = replicate directAddrCount 0, i_indir = 0, i_d_indir = 0, i_t_indir = 0\<rparr>"

definition ex_addr_list :: AddrListCacheElem where
  "ex_addr_list = \<lparr>al_cache = replicate 4 0, al_positionInParent = 0, al_dirty = False, al_active = False\<rparr>"

definition ex_dev :: "ram_flash dev" where
  "ex_dev = \<lparr>flash = (\<lambda>_. []), mram = (\<lambda>_. 0), sb = ex_sb,
     sc = \<lparr>mSummaryCache = replicate 3 (new_elem 3), mTranslation = [], journalReplayMode = False,
           firstUncommittedElem = replicate 6 \<lparr>p_addr = 0, p_offs = 0\<rparr>\<rparr>,
     jr = \<lparr>disabled = False, uncheckpointedChanges = BitList_clear 11, curr = 4\<rparr>,
     am = \<lparr>mUnfinishedTransaction = False, mLastOp = None, mLastExternOp = Ex_none\<rparr>,
     gc = \<lparr>gc_state = Gc_ok, journalTargetArea = 0, journalTargetAreaType = T_unset\<rparr>,
     lasterr = R_ok, readOnly = False,
     tc = \<lparr>mCacheRoot = 0, mCache = replicate 3 ex_node, mCacheUsage = BitList_clear 3, tree_psm = ex_psm 3,
           mCacheHits = 0, mCacheMisses = 0, mJournalIsRecovering = False\<rparr>,
     bt = \<lparr>mJournalLastSuccess = \<lparr>p_addr = 0, p_offs = 0\<rparr>, mJournalIsEndOfLog = False\<rparr>,
     pac = \<lparr>tripl = replicate 3 ex_addr_list, doubl = replicate 2 ex_addr_list, singl = ex_addr_list,
            mInodePtr = None, isInodeDirty = False, pac_psm = ex_psm 4, pac_foreignSuccess = False\<rparr>,
     dio = \<lparr>dio_psm = ex_psm 4, journalLastSize = 0, journalInodeValid = False, modifiedInode = False,
            dio_foreignSuccess = False, journalIsWriteTruncatePair = False\<rparr>,
     inodeMem = (\<lambda>_. ex_inode),
     fls = \<lparr>mounted = True, useJournal = False, activeInodes = BitList_clear 4, inodeMap = [],
            activeFiles = BitList_clear 2, fileObjects = [], targetInodeNo = 0, folderInodeNo = 0,
            dev_journalState = D_ok\<rparr>\<rparr>"

lemma ex_dims [simp]:
  "areasNo ex_env = 6" "totalPagesPerArea ex_env = 4" "oobPagesPerArea ex_env = 1"
  "dataPagesPerArea ex_env = 3" "blocksPerArea ex_env = 2" "pagesPerBlock ex_env = 2"
  "mramSize ex_env = 1024" "areaSummaryCacheSize ex_env = 3" "dataBytesPerPage ex_env = 16"
  "reservedLogsize ex_env = 200" "verifyAS ex_env = False" "writeVerifyAS ex_env = False"
  by (simp_all add: ex_env_def areasNo_def totalPagesPerArea_def oobPagesPerArea_def
      dataPagesPerArea_def ceil_div_def)

lemma ex_config_ok: "config_ok ex_env"
  by (simp add: config_ok_def areaSummaryIsPacked_def areaSummarySizePacked_def ceil_div_def
      totalBytesPerPage_def) (simp add: ex_env_def)

lemma ex_sb_dev [simp]: "sb ex_dev = ex_sb"
  by (simp add: ex_dev_def)

lemma less_6: "i < (6::nat) \<longleftrightarrow> i = 0 \<or> i = 1 \<or> i = 2 \<or> i = 3 \<or> i = 4 \<or> i = 5"
  by arith

lemma ex_area_ok: "area_ok ex_env ex_sb"
proof (rule area_okI)
  show "mUsedAreas ex_sb = used_count ex_env ex_sb"
    by (simp add: used_count_def stat_def ex_sb_def ex_area_def numeral_eq_Suc)
  show "slot_ok ex_env ex_sb t" for t
    by (cases t) (simp_all add: slot_ok_def getActiveArea_def ex_sb_def ex_area_def ty_def stat_def)
qed (auto simp: less_6 ex_sb_def ex_area_def ty_def stat_def sb_shape_def)

lemma ex_pos_ok: "pos_ok ex_env ex_sb"
  by (simp add: pos_ok_def sb_shape_def posns_def ex_sb_def ex_area_def upt_rec eval_nat_numeral)

lemma ex_erase_ok: "erase_ok ex_env ex_sb"
  by (simp add: erase_ok_def sb_shape_def erases_def ex_sb_def ex_area_def)

end
