(* ===== verification/AreaProperties.thy ===== *)
theory AreaProperties
  imports ExampleDevice
begin

text \<open>
  The properties of the area map, the area management and the garbage collection, with an
  instance of each at the example device.
\<close>

subsection \<open>Runs\<close>

text \<open>A step of a run: any operation that changes the area map.\<close>

inductive area_step :: "'f env \<Rightarrow> 'f dev \<Rightarrow> 'f dev \<Rightarrow> bool" for E where
  step_init: "run_state (initAreaAs E a t) s = (u, s') \<Longrightarrow> area_step E s s'"
| step_close: "run_state (closeArea E a) s = (r, s') \<Longrightarrow> area_step E s s'"
| step_contents: "run_state (deleteAreaContents E a sw nl) s = (r, s') \<Longrightarrow> area_step E s s'"
| step_delete: "run_state (deleteArea E a) s = (r, s') \<Longrightarrow> area_step E s s'"
| step_collect: "run_state (collectGarbage E t) s = (r, s') \<Longrightarrow> area_step E s s'"
| step_find: "run_state (findWritableArea E t) s = (a, s') \<Longrightarrow> area_step E s s'"
| step_full: "run_state (manageActiveAreaFull E t) s = (r, s') \<Longrightarrow> area_step E s s'"
| step_set: "run_state (setPageStatus E a p v) s = (r, s') \<Longrightarrow> area_step E s s'"
| step_get: "run_state (getPageStatus E a p) s = (x, s') \<Longrightarrow> area_step E s s'"

context map_invariant
begin

lemma step_keeps: "area_step E s t \<Longrightarrow> I (sb s) \<Longrightarrow> I (sb t)"
proof (induction rule: area_step.induct)
  case (step_init a t s u s')
  then show ?case using keepsD [OF keeps_initAreaAs] by metis
next
  case (step_close a s r s')
  then show ?case using keepsD [OF keeps_closeArea] by metis
next
  case (step_contents a sw nl s r s')
  then show ?case using keepsD [OF keeps_deleteAreaContents] by metis
next
  case (step_delete a s r s')
  then show ?case using keepsD [OF keeps_deleteArea] by metis
next
  case (step_collect t s r s')
  then show ?case using keepsD [OF keeps_collectGarbage] by metis
next
  case (step_find t s a s')
  then show ?case using keepsD [OF keeps_findWritableArea] by metis
next
  case (step_full t s r s')
  then show ?case using keepsD [OF keeps_manageActiveAreaFull] by metis
next
  case (step_set a p v s r s')
  then show ?case using keepsD [OF keeps_setPageStatus] by metis
next
  case (step_get a p s x s')
  then show ?case using keepsD [OF keeps_getPageStatus [OF sc_frame_I]] by metis
qed

lemma run_keeps: "(area_step E)\<^sup>*\<^sup>* s t \<Longrightarrow> I (sb s) \<Longrightarrow> I (sb t)"
  by (induction rule: rtranclp_induct) (auto intro: step_keeps)

end

lemma page_number_unique:
  assumes B: "pos_ok E B" and a: "extractLogicalArea x < areasNo E" "extractPageOffs x < totalPagesPerArea E"
    and b: "extractLogicalArea y < areasNo E" "extractPageOffs y < totalPagesPerArea E"
    and eq: "getPageNumber E B x = getPageNumber E B y"
  shows "x = y"
proof -
  have num: "getPageNumber E B z = a_position (mMap B ! extractLogicalArea z) * totalPagesPerArea E + extractPageOffs z"
    if "extractLogicalArea z < areasNo E" "extractPageOffs z < totalPagesPerArea E" for z
  proof -
    let ?p = "a_position (mMap B ! extractLogicalArea z)"
    have "Suc ?p \<le> areasNo E" using pos_ok_range [OF B that(1)] by simp
    then have "Suc ?p * totalPagesPerArea E \<le> areasNo E * totalPagesPerArea E" by (rule mult_le_mono1)
    then have "?p * totalPagesPerArea E + extractPageOffs z \<le> areasNo E * totalPagesPerArea E"
      using that(2) by simp
    then show ?thesis using that by (simp add: getPageNumber_def getPos_def Let_def)
  qed
  have "a_position (mMap B ! extractLogicalArea x) = a_position (mMap B ! extractLogicalArea y)
      \<and> extractPageOffs x = extractPageOffs y"
    using eq a b by (intro page_split_unique [OF _ a(2) b(2)]) (simp add: num)
  then show ?thesis using pos_ok_inj [OF B a(1) b(1)] by (simp add: addr_eq_iff)
qed

lemma page_number_range:
  assumes B: "pos_ok E B" and a: "extractLogicalArea x < areasNo E" "extractPageOffs x < totalPagesPerArea E"
  shows "getPageNumber E B x < areasNo E * totalPagesPerArea E"
proof -
  let ?p = "a_position (mMap B ! extractLogicalArea x)"
  have "Suc ?p \<le> areasNo E" using pos_ok_range [OF B a(1)] by simp
  then have "Suc ?p * totalPagesPerArea E \<le> areasNo E * totalPagesPerArea E" by (rule mult_le_mono1)
  then show ?thesis using a by (simp add: getPageNumber_def getPos_def Let_def)
qed

text \<open>
  C25: from a consistent area map, \<open>findWritableArea\<close> for data or index pages keeps the map
  consistent, and it answers either an area of the device that is active, registered and of
  the requested type, or 0 with an error recorded.
\<close>

theorem findWritableArea_sound:
  assumes "area_ok E (sb s)" and "t = T_data \<or> t = T_index" and "areasNo E < 2 ^ 16"
    and "run_state (findWritableArea E t) s = (a, u)"
  shows "area_ok E (sb u)
    \<and> (a \<noteq> 0 \<and> a < areasNo E \<and> getActiveArea (sb u) t = a \<and> getType E (sb u) a = t
         \<and> getStatus E (sb u) a = S_active
       \<or> a = 0 \<and> lasterr u \<noteq> R_ok)"
  using wpD [OF findWritableArea_wp [OF assms(1-3)] assms(4)]
  by (auto simp: found_area_def writable_def getType_ty getStatus_stat)

lemma ex_find_empty: "find_empty ex_env ex_sb = Inl 4"
  by code_simp

theorem findWritableArea_sound_witness:
  "area_ok ex_env (sb (snd (run_state (findWritableArea ex_env T_index) ex_dev)))
   \<and> fst (run_state (findWritableArea ex_env T_index) ex_dev) = 4"
  using findWritableArea_sound [of ex_env ex_dev T_index, OF _ _ _ surjective_pairing] ex_area_ok
  by (simp add: findWritableArea_def getActiveArea_def getUsedAreas_def minFreeAreas_def ex_find_empty
      split_beta) (simp add: ex_sb_def split_beta)

text \<open>
  C26: a garbage collection keeps the area map consistent whatever the flash answers; when it
  succeeds for data or index pages, an area of that type is active afterwards.
\<close>

theorem collectGarbage_sound:
  assumes "area_ok E (sb s)" and "t = T_data \<or> t = T_index \<or> t = T_unset" and "areasNo E < 2 ^ 16"
    and "run_state (collectGarbage E t) s = (r, u)"
  shows "area_ok E (sb u) \<and> (r = R_ok \<longrightarrow> t \<noteq> T_unset \<longrightarrow>
      getActiveArea (sb u) t \<noteq> 0 \<and> getStatus E (sb u) (getActiveArea (sb u) t) = S_active
      \<and> getType E (sb u) (getActiveArea (sb u) t) = t)"
proof -
  have "gc_type t" using assms(2) by (auto simp: gc_type_def)
  from wpD [OF collectGarbage_wp [OF assms(1) this assms(3)] assms(4)] assms(2)
  show ?thesis using active_writable [of E "sb u" t]
    by (auto simp: gc_done_def writable_def getType_ty getStatus_stat)
qed

theorem collectGarbage_sound_witness:
  "area_ok ex_env (sb (snd (run_state (collectGarbage ex_env T_data) ex_dev)))"
  using collectGarbage_sound [of ex_env ex_dev T_data, OF _ _ _ surjective_pairing] ex_area_ok by simp

text \<open>
  C27: the recursion of a garbage collection ends. Every call that recurses has retired an area,
  so that one more call than there are areas is never used up, whatever the flash answers.
\<close>

theorem collectGarbage_terminates:
  assumes "area_ok E (sb s)" and "t = T_data \<or> t = T_index \<or> t = T_unset" and "areasNo E < 2 ^ 16"
    and "areasNo E < n"
  shows "\<exists>r. fst (run_state (collectGarbage_fuel n E t) s) = Some r"
proof -
  have "gc_type t" using assms(2) by (auto simp: gc_type_def)
  from collectGarbage_fuel_enough [OF assms(1) this assms(3,4)] show ?thesis .
qed

theorem collectGarbage_terminates_witness:
  "\<exists>r. fst (run_state (collectGarbage_fuel 7 ex_env T_unset) ex_dev) = Some r"
  using collectGarbage_terminates [of ex_env ex_dev T_unset 7] ex_area_ok by simp

text \<open>
  C28: in every run of area operations, page accesses, allocations and garbage collections, the
  positions of the areas stay a permutation, so that two different addresses of the device
  never name the same physical page, and every address names a page of the device.
\<close>

theorem translation_injective_in_runs:
  assumes "pos_ok E (sb s)" and "(area_step E)\<^sup>*\<^sup>* s t"
    and "extractLogicalArea x < areasNo E" and "extractPageOffs x < totalPagesPerArea E"
    and "extractLogicalArea y < areasNo E" and "extractPageOffs y < totalPagesPerArea E"
  shows "getPageNumber E (sb t) x < areasNo E * totalPagesPerArea E
     \<and> (getPageNumber E (sb t) x = getPageNumber E (sb t) y \<longrightarrow> x = y)"
  using positions.run_keeps [OF assms(2,1)] assms(3-6) page_number_unique page_number_range by blast

theorem translation_injective_in_runs_witness:
  "getPageNumber ex_env (sb (snd (run_state (deleteArea ex_env 3) ex_dev))) 0x00020001
   \<noteq> getPageNumber ex_env (sb (snd (run_state (deleteArea ex_env 3) ex_dev))) 0x00030001"
proof -
  have run: "(area_step ex_env)\<^sup>*\<^sup>* ex_dev (snd (run_state (deleteArea ex_env 3) ex_dev))"
    by (rule r_into_rtranclp, rule step_delete, rule surjective_pairing)
  show ?thesis
    using translation_injective_in_runs [where x = "0x00020001" and y = "0x00030001", OF _ run] ex_pos_ok
    by (simp add: extractLogicalArea_def extractPageOffs_def)
qed

text \<open>
  C29: in every run the erase counts of the areas add up to the deletion counter, up to the
  wrap-around of the 17-bit erase count.
\<close>

theorem erase_counts_in_runs:
  assumes "erase_ok E (sb s)" and "(area_step E)\<^sup>*\<^sup>* s t"
  shows "mOverallDeletions (sb t) mod 2 ^ 17 = sum_list (map a_erasecount (mMap (sb t))) mod 2 ^ 17"
  using erasures.run_keeps [OF assms(2,1)] by (simp add: erase_ok_def erases_def erasecount_bits_def)

theorem erase_counts_in_runs_witness:
  "mOverallDeletions (sb (snd (run_state (collectGarbage ex_env T_unset) ex_dev))) mod 2 ^ 17
   = sum_list (map a_erasecount (mMap (sb (snd (run_state (collectGarbage ex_env T_unset) ex_dev))))) mod 2 ^ 17"
proof -
  have run: "(area_step ex_env)\<^sup>*\<^sup>* ex_dev (snd (run_state (collectGarbage ex_env T_unset) ex_dev))"
    by (rule r_into_rtranclp, rule step_collect, rule surjective_pairing)
  show ?thesis using erase_counts_in_runs [OF _ run] ex_erase_ok by simp
qed

text \<open>
  Setting a page state keeps the area map consistent, also when it has to make room in
  the summary cache by collecting garbage or by moving an area to the garbage buffer.
\<close>

theorem setPageStatus_accounting:
  assumes "area_ok E (sb s)" and "areasNo E < 2 ^ 16" and "run_state (setPageStatus E a p v) s = (r, u)"
  shows "area_ok E (sb u)"
  using keepsD [OF keeps_ok_setPageStatus [OF assms(2)] _ assms(3)] assms(1) by (simp add: ok_frame_def)

theorem setPageStatus_accounting_witness:
  "area_ok ex_env (sb (snd (run_state (setPageStatus ex_env 3 1 SE_dirty) ex_dev)))"
  using setPageStatus_accounting [where E = ex_env and s = ex_dev and a = 3 and p = 1 and v = SE_dirty, OF _ _ surjective_pairing] ex_area_ok by simp

text \<open>
  Closing an active area leaves it closed with its type, unregisters it, marks the
  superblock area active and keeps the number of used areas.
\<close>

theorem closeArea_effect:
  assumes "area_ok E (sb s)" and "a < areasNo E" and "a \<noteq> 0" and "getStatus E (sb s) a \<noteq> S_empty"
    and "getType E (sb s) a = t" and "t \<noteq> T_no" and "t \<noteq> T_retired"
    and "run_state (closeArea E a) s = (r, u)"
  shows "r = R_ok \<and> area_ok E (sb u) \<and> getStatus E (sb u) a = S_closed \<and> getType E (sb u) a = t
     \<and> getActiveArea (sb u) t = 0 \<and> getUsedAreas (sb u) = getUsedAreas (sb s)"
proof -
  have ty: "ty (sb s) a = t" "ty (sb s) a \<noteq> T_no" and st: "stat (sb s) a \<noteq> S_empty"
    using assms by (simp_all add: getType_ty getStatus_stat)
  have u: "sb u = sb_close E a (sb s)"
    using sb_stepD(1) [OF sb_steps_closeArea [of E a], of s] assms(8) by (simp add: split_beta)
  have r: "r = R_ok" using assms(8) by (simp add: closeArea_def split_beta)
  note T = sb_close_table [OF area_okD(1) [OF assms(1)] _ assms(2) ty(2)]
  show ?thesis
    using area_ok_close [OF assms(1,2) ty(2) st] T [OF assms(2)] ty assms(2,3,7) u r
    by (simp add: getStatus_stat getType_ty getUsedAreas_def)
qed

theorem closeArea_effect_witness:
  "getStatus ex_env (sb (snd (run_state (closeArea ex_env 2) ex_dev))) 2 = S_closed"
  using closeArea_effect [where E = ex_env and s = ex_dev and a = 2 and t = T_data, OF _ _ _ _ _ _ _ surjective_pairing] ex_area_ok
  by (simp add: getStatus_def getType_def ex_sb_def ex_area_def)

text \<open>
  Deleting a closed area by its outcome. If the flash erases every block, the area is empty
  and one area less is used; if a block cannot be erased, the area is retired and stays
  counted; either way the map stays consistent.
\<close>

theorem deleteArea_effect:
  assumes "area_ok E (sb s)" and "areasNo E < 2 ^ 16" and "a < areasNo E" and "a \<noteq> 0"
    and "getStatus E (sb s) a = S_closed" and "getType E (sb s) a = T_data \<or> getType E (sb s) a = T_index"
    and "run_state (deleteArea E a) s = (r, u)"
  shows "area_ok E (sb u)
    \<and> (r = R_ok \<and> getStatus E (sb u) a = S_empty \<and> getType E (sb u) a = T_unset
         \<and> getUsedAreas (sb u) + 1 = getUsedAreas (sb s)
       \<or> r = R_badFlash \<and> getStatus E (sb u) a = S_closed \<and> getType E (sb u) a = T_retired
         \<and> getUsedAreas (sb u) = getUsedAreas (sb s))"
proof -
  have tgt: "gc_target E (sb s) a"
    using assms by (simp add: gc_target_def getStatus_stat getType_ty)
  have st: "stat (sb s) a \<noteq> S_empty" using assms by (simp add: getStatus_stat)
  have ty: "ty (sb s) a \<noteq> T_unset" "ty (sb s) a \<noteq> T_retired" using assms(3,6) by (auto simp: getType_ty)
  note sh = area_okD(1) [OF assms(1)]
  have used: "getUsedAreas (sb s) = used_count E (sb s)" using area_okD(2) [OF assms(1)] by (simp add: getUsedAreas_def)
  have dec: "(used_count E (sb s) + 2 ^ 16 - 1) mod 2 ^ 16 + 1 = used_count E (sb s)"
  proof -
    have "0 < used_count E (sb s)" "used_count E (sb s) < 2 ^ 16"
      using used_count_pos [OF assms(3) st] used_count_le [of E "sb s"] assms(2) by simp_all
    from wrap_dec [OF this] \<open>0 < used_count E (sb s)\<close> show ?thesis by linarith
  qed
  have res: "r = R_ok \<and> sb u = sb_delete E a (sb s)
      \<or> r = R_badFlash \<and> sb u = sb_erased E a (sb_retire E a (sb s))"
    using wpD [OF deleteArea_sb assms(7)] assms(3) ty by (auto simp: sb_contents_def getType_ty)
  have ok: "area_ok E (sb u)"
    using wpD [OF deleteArea_target_wp [OF assms(1,2) tgt assms(4)] assms(7)] by simp
  show ?thesis
    using res ok sb_delete_table [OF sh assms(3) assms(3)] sb_retire_table [OF sh assms(3) assms(3)]
      used dec ty area_okD(2) [OF assms(1)] assms(3)
    by (auto simp: getStatus_stat getType_ty getUsedAreas_def)
qed

theorem deleteArea_effect_witness:
  "area_ok ex_env (sb (snd (run_state (deleteArea ex_env 3) ex_dev)))"
  using deleteArea_effect [where E = ex_env and s = ex_dev and a = 3, OF _ _ _ _ _ _ surjective_pairing] ex_area_ok
  by (simp add: getStatus_def getType_def ex_sb_def ex_area_def)

end
