(* ===== verification/SuperIndexCodec.thy ===== *)
theory SuperIndexCodec
  imports SuperblockMap
begin

text \<open>
  \<^verbatim>\<open>struct SuperIndex\<close> and its codec (\<^verbatim>\<open>src/superblock.cpp\<close>, \<^verbatim>\<open>src/superblock.hpp\<close>): the record that
  the superblock writes at an unmount, its object representation in the flash, and the
  plausibility check. The area map is copied as the memory of the array, 12 bytes per area: type
  and status, two bytes of padding, the 17 bit erase count in a word of its own, the position, and
  two bytes of padding. A type or status that the enumerations do not have is refused when the
  buffer is read; the code refuses it in \<^verbatim>\<open>readSuperIndex\<close>.
\<close>

record SuperIndex =
  si_no :: nat
  si_logPrev :: AreaPos
  si_rootNode :: Addr
  si_usedAreas :: nat
  si_areaMap :: "Area list"
  si_activeArea :: "AreaPos list"
  si_overallDeletions :: nat
  si_areaSummaryPositions :: "AreaPos list"
  si_summaries :: "byte list list"

definition emptySerial :: nat where
  "emptySerial = 2 ^ 32 - 1"

text \<open>\<^verbatim>\<open>getNeededBytes(n)\<close>; the result is a 16 bit number.\<close>

definition getNeededBytes_for :: "'f env \<Rightarrow> nat \<Rightarrow> nat" where
  "getNeededBytes_for E n =
     (if n \<le> 2
      then (2 + 4 + 2 + 12 * areasNo E + 2 * area_type_code T_no + 8 + 2 * 2
            + TwoBitList_byteUsage (dataPagesPerArea E) * n) mod 2 ^ 16
      else 0)"

definition getNeededBytes :: "'f env \<Rightarrow> SuperIndex \<Rightarrow> nat" where
  "getNeededBytes E x = getNeededBytes_for E (count_upto 2 (\<lambda>i. si_areaSummaryPositions x ! i > 0))"

subsection \<open>Object representation\<close>

definition area_bytes :: "Area \<Rightarrow> byte list" where
  "area_bytes a =
     le_bytes 1 (area_type_code (a_type a)) @ le_bytes 1 (area_status_code (a_status a)) @ pad 2 @
     le_bytes 4 (a_erasecount a mod 2 ^ erasecount_bits) @ le_bytes 2 (a_position a) @ pad 2"

definition parse_area :: "byte list \<Rightarrow> Area option" where
  "parse_area bs =
     (case (area_type_of (rd bs 0 1), area_status_of (rd bs 1 1)) of
        (Some t, Some st) \<Rightarrow> Some \<lparr>a_type = t, a_status = st,
           a_erasecount = rd bs 4 4 mod 2 ^ erasecount_bits, a_position = rd bs 8 2\<rparr>
      | _ \<Rightarrow> None)"

fun parse_areas :: "nat \<Rightarrow> byte list \<Rightarrow> Area list option" where
  "parse_areas 0 bs = Some []"
| "parse_areas (Suc n) bs =
     (case parse_area bs of
        None \<Rightarrow> None
      | Some a \<Rightarrow> (case parse_areas n (drop 12 bs) of None \<Rightarrow> None | Some as \<Rightarrow> Some (a # as)))"

text \<open>
  The summaries that are written are those whose position is set, each from the slot of its
  position; they are read back into the slots in the order they come.
\<close>

definition summary_slots :: "AreaPos list \<Rightarrow> nat list" where
  "summary_slots ps = filter (\<lambda>i. ps ! i > 0) [0 ..< 2]"

definition superindex_bytes :: "SuperIndex \<Rightarrow> byte list" where
  "superindex_bytes x =
     le_bytes 2 (si_logPrev x) @ le_bytes 4 (unat (si_rootNode x)) @ le_bytes 2 (si_usedAreas x) @
     concat (map area_bytes (si_areaMap x)) @ concat (map (le_bytes 2) (si_activeArea x)) @
     le_bytes 8 (si_overallDeletions x) @ concat (map (le_bytes 2) (si_areaSummaryPositions x)) @
     concat (map (\<lambda>i. si_summaries x ! i) (summary_slots (si_areaSummaryPositions x)))"

definition serializeToBuffer :: "'f env \<Rightarrow> SuperIndex \<Rightarrow> Result \<times> byte list" where
  "serializeToBuffer E x =
     (let bs = superindex_bytes x
      in (if length bs mod 2 ^ 16 \<noteq> getNeededBytes E x then R_bug else R_ok, bs))"

definition read_summaries :: "nat \<Rightarrow> byte list \<Rightarrow> nat \<Rightarrow> byte list list \<Rightarrow> byte list list" where
  "read_summaries k buf m old =
     fold (\<lambda>c ss. ss[c := take k (drop (c * k) buf)]) [0 ..< m] old"

definition deserializeFromBuffer :: "'f env \<Rightarrow> byte list \<Rightarrow> SuperIndex \<Rightarrow> Result \<times> SuperIndex" where
  "deserializeFromBuffer E buf x =
     (let m = 12 * areasNo E;
          k = TwoBitList_byteUsage (dataPagesPerArea E);
          act = 8 + m; del = act + 14; pos = del + 8; sums = pos + 4;
          ps = map (\<lambda>i. rd buf (pos + 2 * i) 2) [0 ..< 2];
          asCount = length (summary_slots ps)
      in case parse_areas (areasNo E) (drop 8 buf) of
           None \<Rightarrow> (R_fail, x)
         | Some as \<Rightarrow>
             (if (sums + k * asCount) mod 2 ^ 16 \<noteq> getNeededBytes_for E asCount then R_bug else R_ok,
              x\<lparr>si_logPrev := rd buf 0 2, si_rootNode := of_nat (rd buf 2 4), si_usedAreas := rd buf 6 2,
                si_areaMap := as,
                si_activeArea := map (\<lambda>i. rd buf (act + 2 * i) 2) [0 ..< area_type_code T_no],
                si_overallDeletions := rd buf del 8, si_areaSummaryPositions := ps,
                si_summaries := read_summaries k (drop sums buf) asCount (si_summaries x)\<rparr>))"

subsection \<open>Plausibility\<close>

text \<open>
  \<open>None\<close>: the check reads behind an array. The bound on a summary position is \<open>> areasNo\<close>, so the
  position \<open>areasNo\<close> passes it.
\<close>

definition nth_opt :: "'a list \<Rightarrow> nat \<Rightarrow> 'a option" where
  "nth_opt xs i = (if i < length xs then Some (xs ! i) else None)"

definition active_has_summary :: "SuperIndex \<Rightarrow> AreaType \<Rightarrow> bool" where
  "active_has_summary x t =
     (let a = si_activeArea x ! area_type_code t
      in a = 0 \<or> si_areaSummaryPositions x ! 0 = a \<or> si_areaSummaryPositions x ! 1 = a)"

definition plausible_position :: "'f env \<Rightarrow> SuperIndex \<Rightarrow> AreaPos \<Rightarrow> bool option" where
  "plausible_position E x p =
     (if p = 0 then Some True
      else if p > areasNo E then Some False
      else case nth_opt (si_areaMap x) p of
          None \<Rightarrow> None
        | Some a \<Rightarrow> (case nth_opt (si_activeArea x) (area_type_code (a_type a)) of
            None \<Rightarrow> None
          | Some act \<Rightarrow> Some (\<not> (p \<noteq> act \<and> a_status a = S_empty))))"

definition counts_match :: "'f env \<Rightarrow> SuperIndex \<Rightarrow> bool" where
  "counts_match E x \<longleftrightarrow>
     count_upto (areasNo E) (\<lambda>i. a_status (si_areaMap x ! i) \<noteq> S_empty) mod 2 ^ 16 = si_usedAreas x \<and>
     sum_list (map a_erasecount (take (areasNo E) (si_areaMap x))) mod 2 ^ 64 = si_overallDeletions x"

definition isPlausible :: "'f env \<Rightarrow> SuperIndex \<Rightarrow> bool option" where
  "isPlausible E x =
     (if \<not> active_has_summary x T_data then Some False
      else if \<not> active_has_summary x T_index then Some False
      else case plausible_position E x (si_areaSummaryPositions x ! 0) of
          None \<Rightarrow> None
        | Some False \<Rightarrow> Some False
        | Some True \<Rightarrow> (case plausible_position E x (si_areaSummaryPositions x ! 1) of
            None \<Rightarrow> None
          | Some False \<Rightarrow> Some False
          | Some True \<Rightarrow> Some (counts_match E x)))"

subsection \<open>Round trip\<close>

definition area_record_ok :: "Area \<Rightarrow> bool" where
  "area_record_ok a \<longleftrightarrow> a_erasecount a < 2 ^ erasecount_bits \<and> a_position a < 2 ^ 16"

definition superindex_ok :: "'f env \<Rightarrow> SuperIndex \<Rightarrow> bool" where
  "superindex_ok E x \<longleftrightarrow>
     si_logPrev x < 2 ^ 16 \<and> si_usedAreas x < 2 ^ 16 \<and> si_overallDeletions x < 2 ^ 64 \<and>
     length (si_areaMap x) = areasNo E \<and> list_all area_record_ok (si_areaMap x) \<and>
     length (si_activeArea x) = area_type_code T_no \<and> list_all (\<lambda>a. a < 2 ^ 16) (si_activeArea x) \<and>
     length (si_areaSummaryPositions x) = 2 \<and> list_all (\<lambda>a. a < 2 ^ 16) (si_areaSummaryPositions x) \<and>
     length (si_summaries x) = 2 \<and>
     list_all (\<lambda>l. length l = TwoBitList_byteUsage (dataPagesPerArea E)) (si_summaries x)"

text \<open>The superindex of the device fits the 16 bit numbers its sizes are computed in.\<close>

definition superindex_fits :: "'f env \<Rightarrow> bool" where
  "superindex_fits E \<longleftrightarrow> 34 + 12 * areasNo E + TwoBitList_byteUsage (dataPagesPerArea E) * 2 < 2 ^ 16"

lemma length_area_bytes [simp]: "length (area_bytes a) = 12"
  by (simp add: area_bytes_def)

lemma length_concat_map_const: "(\<And>x. x \<in> set xs \<Longrightarrow> length (f x) = k) \<Longrightarrow> length (concat (map f xs)) = k * length xs"
  by (induction xs) auto

lemma parse_area_bytes: "area_record_ok a \<Longrightarrow> parse_area (area_bytes a @ rest) = Some a"
  by (simp add: parse_area_def area_bytes_def rd_simps area_record_ok_def erasecount_bits_def)

lemma parse_areas_bytes:
  "list_all area_record_ok as \<Longrightarrow> parse_areas (length as) (concat (map area_bytes as) @ rest) = Some as"
  by (induction as) (simp_all add: parse_area_bytes)

lemma rd_pair_list:
  "i < length ns \<Longrightarrow> rd (concat (map (le_bytes 2) ns) @ rest) (2 * i) 2 = ns ! i mod 2 ^ 16"
proof (induction ns arbitrary: i)
  case (Cons n ns)
  then show ?case by (cases i) (simp_all add: rd_simps)
qed simp

lemma read_pairs:
  assumes "list_all (\<lambda>n. n < 2 ^ 16) ns" and "\<And>i. i < length ns \<Longrightarrow> rd buf (off + 2 * i) 2 = ns ! i mod 2 ^ 16"
  shows "map (\<lambda>i. rd buf (off + 2 * i) 2) [0 ..< length ns] = ns"
  by (rule nth_equalityI) (use assms in \<open>simp_all add: list_all_length\<close>)

lemma summary_slots_cases:
  "summary_slots ps = (if ps ! 0 > 0 then [0] else []) @ (if ps ! 1 > 0 then [1] else [])"
  by (simp add: summary_slots_def eval_nat_numeral)

lemma neededBytes_slots: "getNeededBytes E x = getNeededBytes_for E (length (summary_slots (si_areaSummaryPositions x)))"
  by (simp add: getNeededBytes_def summary_slots_def count_upto_def)

lemma neededBytes_fit:
  "superindex_fits E \<Longrightarrow> n \<le> 2 \<Longrightarrow>
   getNeededBytes_for E n = 34 + 12 * areasNo E + TwoBitList_byteUsage (dataPagesPerArea E) * n"
proof -
  assume f: "superindex_fits E" and n: "n \<le> 2"
  have "TwoBitList_byteUsage (dataPagesPerArea E) * n \<le> TwoBitList_byteUsage (dataPagesPerArea E) * 2"
    using n by (rule mult_le_mono2)
  then have "34 + 12 * areasNo E + TwoBitList_byteUsage (dataPagesPerArea E) * n < 2 ^ 16"
    using f by (simp only: superindex_fits_def)
  then show ?thesis using n by (simp add: getNeededBytes_for_def add.commute)
qed

lemma length_summary_slots: "length (summary_slots ps) \<le> 2"
  by (simp add: summary_slots_cases)

text \<open>What the slots hold after reading: the summaries that were written, from the first slot on.\<close>

definition loaded_summaries :: "AreaPos list \<Rightarrow> byte list list \<Rightarrow> byte list list \<Rightarrow> byte list list" where
  "loaded_summaries ps ss old =
     (case summary_slots ps of [] \<Rightarrow> old | [i] \<Rightarrow> [ss ! i, old ! 1] | _ \<Rightarrow> ss)"

lemma read_summaries_at:
  assumes "length ss = 2" and "list_all (\<lambda>l. length l = k) ss" and "length old = 2"
  shows "read_summaries k (concat (map (\<lambda>i. ss ! i) (summary_slots ps)) @ rest) (length (summary_slots ps)) old = loaded_summaries ps ss old"
proof -
  obtain a b where ss: "ss = [a, b]" using assms(1) by (auto simp: numeral_2_eq_2 length_Suc_conv)
  obtain c d where old: "old = [c, d]" using assms(3) by (auto simp: numeral_2_eq_2 length_Suc_conv)
  show ?thesis
    using assms(2) by (auto simp: ss old summary_slots_cases read_summaries_def loaded_summaries_def upt_rec)
qed

lemma superindex_bytes_length:
  assumes ok: "superindex_ok E x"
  shows "length (superindex_bytes x) = 34 + 12 * areasNo E
    + TwoBitList_byteUsage (dataPagesPerArea E) * length (summary_slots (si_areaSummaryPositions x))"
proof -
  note def = ok [unfolded superindex_ok_def]
  have "length (concat (map (\<lambda>i. si_summaries x ! i) (summary_slots (si_areaSummaryPositions x)))) =
      TwoBitList_byteUsage (dataPagesPerArea E) * length (summary_slots (si_areaSummaryPositions x))"
    using def by (intro length_concat_map_const) (auto simp: list_all_length summary_slots_def)
  then show ?thesis
    using def by (simp add: superindex_bytes_def length_concat_map_const [where k = 12]
        length_concat_map_const [where k = 2])
qed

lemma superindex_roundtrip_bytes:
  assumes ok: "superindex_ok E x" and fits: "superindex_fits E" and y: "length (si_summaries y) = 2"
  shows "serializeToBuffer E x = (R_ok, superindex_bytes x)"
    and "deserializeFromBuffer E (superindex_bytes x @ rest) y =
      (R_ok, x\<lparr>si_no := si_no y, si_summaries :=
         loaded_summaries (si_areaSummaryPositions x) (si_summaries x) (si_summaries y)\<rparr>)"
proof -
  let ?ps = "si_areaSummaryPositions x" and ?k = "TwoBitList_byteUsage (dataPagesPerArea E)"
  let ?n = "length (summary_slots ?ps)" and ?b = "superindex_bytes x @ rest"
  note def = ok [unfolded superindex_ok_def]
  have len: "length (concat (map area_bytes (si_areaMap x))) = 12 * areasNo E"
      "length (concat (map (le_bytes 2) (si_activeArea x))) = 14"
      "length (concat (map (le_bytes 2) ?ps)) = 4"
    using def by (simp_all add: length_concat_map_const [where k = 12] length_concat_map_const [where k = 2])
  have total: "length (superindex_bytes x) = 34 + 12 * areasNo E + ?k * ?n"
    by (rule superindex_bytes_length [OF ok])
  have need: "getNeededBytes_for E ?n = 34 + 12 * areasNo E + ?k * ?n"
    by (rule neededBytes_fit [OF fits length_summary_slots])
  have small: "34 + 12 * areasNo E + ?k * ?n < 2 ^ 16"
    using need by (metis getNeededBytes_for_def mod_less_divisor zero_less_numeral zero_less_power)
  then show "serializeToBuffer E x = (R_ok, superindex_bytes x)"
    by (simp add: serializeToBuffer_def Let_def total neededBytes_slots need)
  have areas: "parse_areas (areasNo E) (drop 8 ?b) = Some (si_areaMap x)"
    using def parse_areas_bytes [of "si_areaMap x"] by (simp add: superindex_bytes_def)
  have act: "map (\<lambda>i. rd ?b (8 + 12 * areasNo E + 2 * i) 2) [0 ..< area_type_code T_no] = si_activeArea x"
    using read_pairs [of "si_activeArea x" ?b "8 + 12 * areasNo E"] def rd_pair_list [of _ "si_activeArea x"]
    by (simp add: superindex_bytes_def rd_simps len)
  have pos: "map (\<lambda>i. rd ?b (8 + 12 * areasNo E + 14 + 8 + 2 * i) 2) [0 ..< 2] = ?ps"
    using read_pairs [of ?ps ?b "8 + 12 * areasNo E + 14 + 8"] def rd_pair_list [of _ ?ps]
    by (simp add: superindex_bytes_def rd_simps len)
  have del: "rd ?b (8 + 12 * areasNo E + 14) 8 = si_overallDeletions x"
    using def by (simp add: superindex_bytes_def rd_simps len)
  have head: "rd ?b 0 2 = si_logPrev x" "rd ?b 2 4 = unat (si_rootNode x)" "rd ?b 6 2 = si_usedAreas x"
    using def by (simp_all add: superindex_bytes_def rd_simps)
  have tail: "drop (8 + 12 * areasNo E + 14 + 8 + 4) ?b =
      concat (map (\<lambda>i. si_summaries x ! i) (summary_slots ?ps)) @ rest"
    by (simp add: superindex_bytes_def len)
  show "deserializeFromBuffer E ?b y =
      (R_ok, x\<lparr>si_no := si_no y, si_summaries :=
         loaded_summaries ?ps (si_summaries x) (si_summaries y)\<rparr>)"
    using small need def y unfolding deserializeFromBuffer_def Let_def areas act pos del head tail
    by (simp add: read_summaries_at)
qed

end
