(* ===== verification/SuperChain.thy ===== *)
theory SuperChain
  imports SuperIndexCodec AreaMgmt
begin

text \<open>
  The super chain of \<^verbatim>\<open>src/superblock.cpp\<close>: an anchor in area 0 points to a chain of jump pads,
  the last of which points to the area that holds the superindex. Entries of each chain element
  are appended to the blocks of its area under increasing serial numbers; the most recent one
  counts. All areas here are physical ones. Reading starts at the anchor; a commit writes
  the superindex, and the jump pads above it as far as they have to move.

  A page offset has 16 bits in the code, also where it holds an absolute page number.
\<close>

subsection \<open>Entries\<close>

text \<open>\<^verbatim>\<open>struct Param\<close>, as \<^verbatim>\<open>stdParam\<close> fills it; the padding is zero.\<close>

definition param_bytes :: "'f env \<Rightarrow> byte list" where
  "param_bytes E =
     le_bytes 2 (totalBytesPerPage E) @ le_bytes 2 (pagesPerBlock E) @ le_bytes 2 (blocksTotal E) @
     le_bytes 1 (oobBytesPerPage E) @ le_bytes 1 (jumpPadNo E) @ le_bytes 2 (dataBytesPerPage E) @
     le_bytes 2 (dataPagesPerArea E) @ le_bytes 2 (totalPagesPerArea E) @
     le_bytes 2 (areaSummarySizePacked E) @ le_bytes 1 (blocksPerArea E) @
     le_bytes 1 (superChainElems E) @ pad 2 @ le_bytes 4 (areasNo E) @ le_bytes 4 (mramSize E)"

record AnchorEntry =
  an_no :: nat
  an_logPrev :: AreaPos
  an_jumpPadArea :: AreaPos
  an_param :: "byte list"
  an_fsVersion :: nat

definition anchor_bytes :: "AnchorEntry \<Rightarrow> byte list" where
  "anchor_bytes e = le_bytes 4 (an_no e) @ le_bytes 2 (an_logPrev e) @ le_bytes 2 (an_jumpPadArea e) @
     an_param e @ le_bytes 1 (an_fsVersion e) @ pad 3"

definition parse_anchor :: "byte list \<Rightarrow> AnchorEntry" where
  "parse_anchor bs = \<lparr>an_no = rd bs 0 4, an_logPrev = rd bs 4 2, an_jumpPadArea = rd bs 6 2,
     an_param = take 28 (drop 8 bs), an_fsVersion = rd bs 36 1\<rparr>"

record JumpPadEntry =
  jp_no :: nat
  jp_logPrev :: AreaPos
  jp_nextArea :: AreaPos

definition jumppad_bytes :: "JumpPadEntry \<Rightarrow> byte list" where
  "jumppad_bytes e = le_bytes 4 (jp_no e) @ le_bytes 2 (jp_logPrev e) @ le_bytes 2 (jp_nextArea e)"

definition fs_version :: nat where
  "fs_version = 1"

text \<open>\<^verbatim>\<open>sizeof(AnchorEntry)\<close>.\<close>

definition anchor_size :: nat where
  "anchor_size = 40"

subsection \<open>Searching an area\<close>

text \<open>The accumulator: the first page of the row of free pages, and its length.\<close>

definition free_entry_step ::
  "'f env \<Rightarrow> PageAbs \<Rightarrow> nat \<Rightarrow> nat \<Rightarrow> nat \<times> nat \<Rightarrow> ('f dev, (Result \<times> nat) + (nat \<times> nat)) state" where
  "free_entry_step E base required i = (\<lambda>(outPos, inARow). do {
     (r, bs) \<leftarrow> readPage E (i + base) 4;
     if r \<noteq> R_ok \<and> r \<noteq> R_biterrorCorrected then ret (Inl (r, outPos))
     else if rd bs 0 4 \<noteq> emptySerial
     then ret (Inr (if inARow \<noteq> 0 then (0, 0) else (outPos, inARow)))
     else do {
       let outPos' = (if inARow = 0 then i else outPos);
       ret (if inARow + 1 = required then Inl (R_ok, outPos') else Inr (outPos', inARow + 1))
     }
   })"

definition findFirstFreeEntryInBlock ::
  "'f env \<Rightarrow> AreaPos \<Rightarrow> nat \<Rightarrow> nat \<Rightarrow> ('f dev, Result \<times> nat) state" where
  "findFirstFreeEntryInBlock E area block required = do {
     let base = (pagesPerBlock E * (area * blocksPerArea E + block)) mod 2 ^ 16;
     y \<leftarrow> loopM [0 ..< pagesPerBlock E] (0, 0) (free_entry_step E base required);
     ret (case y of Inl x \<Rightarrow> x | Inr (outPos, _) \<Rightarrow> (R_notFound, outPos))
   }"

definition free_entry_block ::
  "'f env \<Rightarrow> AreaPos \<Rightarrow> nat \<Rightarrow> nat \<Rightarrow> unit \<Rightarrow> ('f dev, (Result \<times> nat) + unit) state" where
  "free_entry_block E area required block u = do {
     (r, off) \<leftarrow> findFirstFreeEntryInBlock E area block required;
     if r = R_notFound
     then if block + 1 = blocksPerArea E then ret (Inl (R_notFound, 0))
       else do {
         (r', off') \<leftarrow> findFirstFreeEntryInBlock E area (block + 1) required;
         ret (Inl (r', ((block + 1) * pagesPerBlock E + off') mod 2 ^ 16))
       }
     else if r \<noteq> R_ok then ret (Inl (r, 0))
     else if off \<noteq> 0 then ret (Inl (r, (block * pagesPerBlock E + off) mod 2 ^ 16))
     else ret (Inr ())
   }"

definition findFirstFreeEntryInArea :: "'f env \<Rightarrow> AreaPos \<Rightarrow> nat \<Rightarrow> ('f dev, Result \<times> nat) state" where
  "findFirstFreeEntryInArea E area required = do {
     y \<leftarrow> loopM [0 ..< blocksPerArea E] () (free_entry_block E area required);
     ret (case y of Inl x \<Rightarrow> x | Inr _ \<Rightarrow> (R_ok, 0))
   }"

text \<open>What the search for the most recent entry has found.\<close>

record recent =
  rc_pos :: nat
  rc_index :: nat
  rc_overflow :: bool
  rc_next :: AreaPos
  rc_logPrev :: AreaPos

definition recent_step ::
  "'f env \<Rightarrow> PageAbs \<Rightarrow> nat \<Rightarrow> recent \<Rightarrow> ('f dev, (Result \<times> recent) + recent) state" where
  "recent_step E base page m = do {
     (r, bs) \<leftarrow> readPage E (page + base) 8;
     if r \<noteq> R_ok \<and> r \<noteq> R_biterrorCorrected then ret (Inl (r, m))
     else do {
       let no = rd bs 0 4;
       if no = emptySerial
       then ret (Inl (if rc_index m \<noteq> 0 \<or> rc_overflow m then R_ok else R_notFound, m))
       else ret (Inr (if no > rc_index m \<or> no = 0
         then \<lparr>rc_pos = (page + base) mod 2 ^ 16, rc_index = no, rc_overflow = (no = 0),
               rc_next = rd bs 6 2, rc_logPrev = rd bs 4 2\<rparr>
         else m))
     }
   }"

definition readMostRecentEntryInBlock ::
  "'f env \<Rightarrow> AreaPos \<Rightarrow> nat \<Rightarrow> AreaPos \<times> AreaPos \<Rightarrow> ('f dev, Result \<times> recent) state" where
  "readMostRecentEntryInBlock E area block nl = do {
     let base = pagesPerBlock E * (block + area * blocksPerArea E);
     y \<leftarrow> loopM [0 ..< pagesPerBlock E]
            \<lparr>rc_pos = 0, rc_index = 0, rc_overflow = False, rc_next = fst nl, rc_logPrev = snd nl\<rparr>
            (recent_step E base);
     ret (case y of Inl x \<Rightarrow> x | Inr m \<Rightarrow> (R_ok, m))
   }"

text \<open>The answer of the area: the result, the address, the serial number, next and previous area.\<close>

definition recent_block ::
  "'f env \<Rightarrow> AreaPos \<Rightarrow> nat \<Rightarrow> recent \<Rightarrow> ('f dev, (Result \<times> recent) + recent) state" where
  "recent_block E area block m = do {
     (r, m') \<leftarrow> readMostRecentEntryInBlock E area block (rc_next m, rc_logPrev m);
     ret (if r \<noteq> R_notFound then Inl (r, m') else Inr m')
   }"

definition readMostRecentEntryInArea ::
  "'f env \<Rightarrow> AreaPos \<Rightarrow> AreaPos \<times> AreaPos \<Rightarrow> ('f dev, Result \<times> recent) state" where
  "readMostRecentEntryInArea E area nl = do {
     y \<leftarrow> loopM [0 ..< blocksPerArea E]
            \<lparr>rc_pos = 0, rc_index = 0, rc_overflow = False, rc_next = fst nl, rc_logPrev = snd nl\<rparr>
            (recent_block E area);
     ret (case y of Inl x \<Rightarrow> x | Inr m \<Rightarrow> (R_notFound, m))
   }"

definition recent_addr :: "'f env \<Rightarrow> recent \<Rightarrow> Addr" where
  "recent_addr E m = combineAddress (rc_pos m div totalPagesPerArea E) (rc_pos m mod totalPagesPerArea E)"

text \<open>The path from the anchor: the accumulator is the next area and the previous areas so far.\<close>

definition path_step ::
  "'f env \<Rightarrow> nat \<Rightarrow> AreaPos \<times> AreaPos list \<Rightarrow> ('f dev, Result + (AreaPos \<times> AreaPos list)) state" where
  "path_step E i = (\<lambda>(area, logPrev). do {
     (r, m) \<leftarrow> readMostRecentEntryInArea E area (0, 0);
     set_sb (\<lambda>B. B\<lparr>superChainIndexes := (superChainIndexes B)[i := rc_index m]\<rparr>);
     if r \<noteq> R_ok then ret (Inl r)
     else do {
       set_sb (\<lambda>B. B\<lparr>pathToSuperIndexDirect := (pathToSuperIndexDirect B)[i := recent_addr E m]\<rparr>);
       if i > 0 \<and> extractLogicalArea (recent_addr E m) = 0 then ret (Inl R_fail)
       else ret (Inr (rc_next m, logPrev @ [rc_logPrev m]))
     }
   })"

definition getPathToMostRecentSuperIndex :: "'f env \<Rightarrow> ('f dev, Result \<times> AreaPos list) state" where
  "getPathToMostRecentSuperIndex E = do {
     y \<leftarrow> loopM [0 ..< superChainElems E] (0, []) (path_step E);
     ret (case y of Inl r \<Rightarrow> (r, []) | Inr (_, logPrev) \<Rightarrow> (R_ok, logPrev))
   }"

subsection \<open>Reading\<close>

definition readAnchorEntry :: "'f env \<Rightarrow> Addr \<Rightarrow> ('f dev, Result \<times> AnchorEntry) state" where
  "readAnchorEntry E addr =
     (if anchor_size > dataBytesPerPage E then ret (R_nimpl, parse_anchor [])
      else do {
        (r, bs) \<leftarrow> readPage E (getPageNumberFromDirect E addr) anchor_size;
        ret (if r = R_biterrorCorrected then R_ok else r, parse_anchor bs)
      })"

definition superindex_pages :: "'f env \<Rightarrow> nat \<Rightarrow> nat" where
  "superindex_pages E needed = ceil_div needed (dataBytesPerPage E - 4)"

definition chunk_size :: "'f env \<Rightarrow> nat \<Rightarrow> nat \<Rightarrow> nat" where
  "chunk_size E needed pointer =
     (if pointer + dataBytesPerPage E - 4 < needed then dataBytesPerPage E - 4 else needed - pointer)"

text \<open>
  One page of the superindex: the accumulator is the serial number and the buffer so far. A
  corrected bit error ends the read with \<^verbatim>\<open>Result::ok\<close> at once.
\<close>

definition read_index_page ::
  "'f env \<Rightarrow> PageAbs \<Rightarrow> nat \<Rightarrow> nat \<Rightarrow> nat \<times> byte list \<Rightarrow> ('f dev, (Result \<times> nat) + (nat \<times> byte list)) state" where
  "read_index_page E base needed page = (\<lambda>(no, buf). do {
     let btr = chunk_size E needed (length buf);
     (r, bs) \<leftarrow> readPage E (base + page) (btr + 4);
     if r \<noteq> R_ok then ret (Inl (if r = R_biterrorCorrected then R_ok else r, no))
     else do {
       let serial = rd bs 0 4;
       if serial = emptySerial then ret (Inl (R_bug, no))
       else if no \<noteq> emptySerial \<and> serial \<noteq> no then ret (Inl (R_bug, no))
       else ret (Inr (serial, buf @ take btr (drop 4 bs)))
     }
   })"

definition readSuperPageIndex :: "'f env \<Rightarrow> Addr \<Rightarrow> SuperIndex \<Rightarrow> ('f dev, Result \<times> SuperIndex) state" where
  "readSuperPageIndex E addr x = do {
     let needed = getNeededBytes_for E 2;
     y \<leftarrow> loopM [0 ..< superindex_pages E needed] (emptySerial, [])
            (read_index_page E (getPageNumberFromDirect E addr) needed);
     ret (case y of
        Inl (r, no) \<Rightarrow> (r, x\<lparr>si_no := no\<rparr>)
      | Inr (no, buf) \<Rightarrow>
          (case deserializeFromBuffer E buf (x\<lparr>si_no := no\<rparr>) of
             (r, x') \<Rightarrow>
               if r \<noteq> R_ok then (r, x')
               else if isPlausible E x' \<noteq> Some True then (R_fail, x')
               else (R_ok, x')))
   }"

text \<open>
  The checks of \<^verbatim>\<open>readSuperIndex\<close> on what was read. An index behind the area map, which the code
  would follow, counts as a failed check.
\<close>

definition area_check :: "SuperIndex \<Rightarrow> AreaPos \<Rightarrow> (Area \<Rightarrow> bool) \<Rightarrow> bool" where
  "area_check x a P = (case nth_opt (si_areaMap x) a of None \<Rightarrow> False | Some r \<Rightarrow> P r)"

definition superindex_checks :: "'f env \<Rightarrow> SuperIndex \<Rightarrow> AreaPos list \<Rightarrow> bool" where
  "superindex_checks E x logPrev \<longleftrightarrow>
     area_check x 0 (\<lambda>r. a_position r = 0 \<and> a_type r = T_superblock) \<and>
     (\<forall>i\<in>set [0, 1]. si_areaSummaryPositions x ! i = 0 \<or>
        area_check x (si_areaSummaryPositions x ! i) (\<lambda>r. a_type r = T_data \<or> a_type r = T_index)) \<and>
     list_all (\<lambda>r. a_position r \<le> areasNo E \<and> a_type r \<noteq> T_no) (take (areasNo E) (si_areaMap x)) \<and>
     area_check x (extractLogicalArea (si_rootNode x)) (\<lambda>r. a_type r = T_index) \<and>
     logPrev ! 0 = 0"

definition find_position :: "'f env \<Rightarrow> AreaPos \<Rightarrow> Area list \<Rightarrow> AreaPos" where
  "find_position E p m =
     (case List.find (\<lambda>a. a_position (m ! a) = p) [0 ..< areasNo E] of None \<Rightarrow> 0 | Some a \<Rightarrow> a)"

text \<open>Chain elements that were moved: the previous area is free now, the new one is in use.\<close>

definition move_chain :: "'f env \<Rightarrow> Addr list \<Rightarrow> AreaPos list \<Rightarrow> nat \<Rightarrow> Area list \<Rightarrow> Area list" where
  "move_chain E path logPrev i m =
     (if logPrev ! i = 0 then m
      else let logNew = find_position E (extractLogicalArea (path ! i)) m;
               m1 = m[logPrev ! i := (m ! (logPrev ! i))\<lparr>a_status := S_empty\<rparr>]
           in m1[logNew := (m1 ! logNew)\<lparr>a_status := S_active, a_type := T_superblock\<rparr>])"

text \<open>\<^verbatim>\<open>areaMap\<close> and \<^verbatim>\<open>activeArea\<close> of the index are pointers to the arrays of the superblock.\<close>

definition bind_index :: "superblock \<Rightarrow> SuperIndex \<Rightarrow> SuperIndex" where
  "bind_index B x = x\<lparr>si_areaMap := mMap B, si_activeArea := mActiveAreas B\<rparr>"

definition store_index :: "SuperIndex \<Rightarrow> superblock \<Rightarrow> superblock" where
  "store_index x B = B\<lparr>mMap := si_areaMap x, mActiveAreas := si_activeArea x\<rparr>"

definition take_index :: "'f env \<Rightarrow> SuperIndex \<Rightarrow> AreaPos list \<Rightarrow> ('f dev, Result \<times> SuperIndex) state" where
  "take_index E x logPrev = do {
     path \<leftarrow> gets (\<lambda>s. pathToSuperIndexDirect (sb s));
     let x' = x\<lparr>si_areaMap := fold (move_chain E path logPrev) (rev [0 ..< superChainElems E]) (si_areaMap x)\<rparr>;
     set_sb (store_index x');
     set_sb (\<lambda>B. B\<lparr>mRootnodeAddr := si_rootNode x', mRootnodeDirty := False\<rparr>);
     setUsedAreas E (si_usedAreas x');
     setOverallDeletions (si_overallDeletions x');
     ret (R_ok, x')
   }"

definition readSuperIndex :: "'f env \<Rightarrow> SuperIndex \<Rightarrow> ('f dev, Result \<times> SuperIndex) state" where
  "readSuperIndex E x = do {
     x0 \<leftarrow> gets (\<lambda>s. bind_index (sb s) x);
     (r, logPrev) \<leftarrow> getPathToMostRecentSuperIndex E;
     if r \<noteq> R_ok then ret (r, x0)
     else do {
       B \<leftarrow> gets sb;
       if superChainIndexes B ! (jumpPadNo E + 1) = emptySerial then ret (R_bug, x0)
       else do {
         (r, e) \<leftarrow> readAnchorEntry E (pathToSuperIndexDirect B ! 0);
         if r \<noteq> R_ok then ret (r, x0)
         else if an_param e \<noteq> param_bytes E then ret (R_fail, x0)
         else if an_fsVersion e \<noteq> fs_version then ret (R_fail, x0)
         else do {
           (r, x1) \<leftarrow> readSuperPageIndex E (pathToSuperIndexDirect B ! (superChainElems E - 1)) x0;
           set_sb (store_index x1);
           if r \<noteq> R_ok then ret (r, x1)
           else if \<not> superindex_checks E x1 logPrev then ret (R_fail, x1)
           else take_index E x1 logPrev
         }
       }
     }
   }"

subsection \<open>Committing\<close>

text \<open>
  \<^verbatim>\<open>deleteSuperBlock\<close>. The branch that gives the area back is for a block number that no caller
  passes: a block of an area is smaller than \<open>blocksPerArea\<close>.
\<close>

definition deleteSuperBlock :: "'f env \<Rightarrow> AreaPos \<Rightarrow> nat \<Rightarrow> ('f dev, Result) state" where
  "deleteSuperBlock E area block = do {
     t \<leftarrow> gets (\<lambda>s. getType E (sb s) area);
     if t \<noteq> T_superblock then ret R_bug
     else do {
       whenM (block = blocksPerArea E) (do {
         increaseErasecount E area;
         setStatus E area S_empty;
         setType E area T_unset;
         decreaseUsedAreas E
       });
       p \<leftarrow> gets (\<lambda>s. getPos E (sb s) area);
       eraseBlock E (p * blocksPerArea E + block)
     }
   }"

text \<open>The serial number of the new entry: 0 if it starts a new block, whose predecessor is erased.\<close>

definition handleBlockOverflow ::
  "'f env \<Rightarrow> PageAbs \<Rightarrow> Addr \<Rightarrow> nat \<Rightarrow> ('f dev, Result \<times> nat) state" where
  "handleBlockOverflow E newPage logPrev serial = do {
     old \<leftarrow> gets (\<lambda>s. getBlockNumber E (sb s) logPrev);
     if newPage div pagesPerBlock E \<noteq> old
     then do {
       r \<leftarrow> deleteSuperBlock E (extractLogicalArea logPrev) (extractPageOffs logPrev div pagesPerBlock E);
       ret (r, 0)
     }
     else ret (R_ok, serial)
   }"

definition findBestNextFreeArea :: "'f env \<Rightarrow> AreaPos \<Rightarrow> ('f dev, AreaPos) state" where
  "findBestNextFreeArea E logPrev = do {
     free \<leftarrow> gets (\<lambda>s. List.find (\<lambda>i. getStatus E (sb s) i = S_empty) [1 ..< areasNo E]);
     (case free of
        None \<Rightarrow> ret logPrev
      | Some i \<Rightarrow> do {
          setStatus E logPrev S_empty;
          initAreaAs E i T_superblock;
          setActiveArea E T_superblock 0;
          ret i
        })
   }"

text \<open>The checks that all three insertions begin with.\<close>

definition chain_check :: "'f env \<Rightarrow> superblock \<Rightarrow> Addr \<Rightarrow> AreaPos \<Rightarrow> Result" where
  "chain_check E B logPrev directArea =
     (if getPos E B (extractLogicalArea logPrev) \<noteq> directArea then R_bug
      else if getType E B (extractLogicalArea logPrev) \<noteq> T_superblock then R_bug
      else if anchor_size > dataBytesPerPage E then R_fail
      else R_ok)"

definition insertNewAnchorEntry :: "'f env \<Rightarrow> Addr \<Rightarrow> AreaPos \<Rightarrow> AnchorEntry \<Rightarrow> ('f dev, Result) state" where
  "insertNewAnchorEntry E logPrev directArea entry = do {
     chk \<leftarrow> gets (\<lambda>s. chain_check E (sb s) logPrev directArea);
     if chk \<noteq> R_ok then ret chk
     else do {
       (r, page) \<leftarrow> findFirstFreeEntryInArea E directArea 1;
       if r \<noteq> R_notFound \<and> r \<noteq> R_ok then ret r
       else do {
         let page = (if r = R_notFound then 0 else page);
         (r, no) \<leftarrow> handleBlockOverflow E (directArea * totalPagesPerArea E + page) logPrev (an_no entry);
         if r \<noteq> R_ok then ret r
         else writePage E (directArea * totalPagesPerArea E + page)
                (anchor_bytes (entry\<lparr>an_no := no, an_logPrev := 0\<rparr>))
       }
     }
   }"

text \<open>
  Where the next entry of a chain element goes: the free page of its area, or the first page of a
  new area. The answer: result, page, area, and the logical area that was left, or 0.
\<close>

definition place_entry ::
  "'f env \<Rightarrow> Addr \<Rightarrow> AreaPos \<Rightarrow> nat \<Rightarrow> ('f dev, Result \<times> nat \<times> AreaPos \<times> AreaPos) state" where
  "place_entry E logPrev directArea required = do {
     (r, page) \<leftarrow> findFirstFreeEntryInArea E directArea required;
     if r = R_notFound
     then do {
       p \<leftarrow> findBestNextFreeArea E (extractLogicalArea logPrev);
       if p \<noteq> extractLogicalArea logPrev
       then do {
         pos \<leftarrow> gets (\<lambda>s. getPos E (sb s) p);
         ret (R_ok, 0, pos, extractLogicalArea logPrev)
       }
       else ret (R_ok, 0, directArea, 0)
     }
     else ret (r, page, directArea, 0)
   }"

definition insertNewJumpPadEntry ::
  "'f env \<Rightarrow> Addr \<Rightarrow> AreaPos \<Rightarrow> JumpPadEntry \<Rightarrow> ('f dev, Result \<times> AreaPos) state" where
  "insertNewJumpPadEntry E logPrev directArea entry = do {
     chk \<leftarrow> gets (\<lambda>s. if directArea = 0 then R_bug else chain_check E (sb s) logPrev directArea);
     if chk \<noteq> R_ok then ret (chk, directArea)
     else do {
       (r, page, area, left) \<leftarrow> place_entry E logPrev directArea 1;
       if r \<noteq> R_ok then ret (r, area)
       else do {
         (r, no) \<leftarrow> handleBlockOverflow E (area * totalPagesPerArea E + page) logPrev (jp_no entry);
         if r \<noteq> R_ok then ret (r, area)
         else do {
           r \<leftarrow> writePage E (area * totalPagesPerArea E + page)
                  (jumppad_bytes (entry\<lparr>jp_no := no, jp_logPrev := left\<rparr>));
           ret (r, area)
         }
       }
     }
   }"

definition write_index_page ::
  "'f env \<Rightarrow> PageAbs \<Rightarrow> nat \<Rightarrow> byte list \<Rightarrow> nat \<Rightarrow> nat \<Rightarrow> ('f dev, Result + nat) state" where
  "write_index_page E pageStart no buf page pointer = do {
     let btw = chunk_size E (length buf) pointer;
     r \<leftarrow> writePage E (pageStart + page) (le_bytes 4 no @ take btw (drop pointer buf));
     ret (if r \<noteq> R_ok then Inl r else Inr (pointer + btw))
   }"

definition writeSuperPageIndex :: "'f env \<Rightarrow> PageAbs \<Rightarrow> SuperIndex \<Rightarrow> ('f dev, Result) state" where
  "writeSuperPageIndex E pageStart entry = do {
     ro \<leftarrow> gets readOnly;
     if ro then ret R_bug
     else do {
       x \<leftarrow> gets (\<lambda>s. bind_index (sb s) entry);
       if isPlausible E x \<noteq> Some True then ret R_bug
       else do {
         let (r, buf) = serializeToBuffer E x;
         if r \<noteq> R_ok then ret r
         else do {
           y \<leftarrow> loopM [0 ..< superindex_pages E (getNeededBytes E x)] 0
                  (write_index_page E pageStart (si_no x) buf);
           ret (case y of Inl r \<Rightarrow> r | Inr _ \<Rightarrow> R_ok)
         }
       }
     }
   }"

definition insertNewSuperIndex ::
  "'f env \<Rightarrow> Addr \<Rightarrow> AreaPos \<Rightarrow> SuperIndex \<Rightarrow> ('f dev, Result \<times> AreaPos \<times> SuperIndex) state" where
  "insertNewSuperIndex E logPrev directArea entry = do {
     chk \<leftarrow> gets (\<lambda>s. chain_check E (sb s) logPrev directArea);
     if chk \<noteq> R_ok then ret (chk, directArea, entry)
     else do {
       (r, page, area, left) \<leftarrow> place_entry E logPrev directArea
         (superindex_pages E (getNeededBytes E entry));
       let entry1 = entry\<lparr>si_logPrev := left\<rparr>;
       if r \<noteq> R_ok then ret (r, area, entry1)
       else do {
         (r, no) \<leftarrow> handleBlockOverflow E (area * totalPagesPerArea E + page) logPrev (si_no entry);
         let entry2 = entry1\<lparr>si_no := no\<rparr>;
         if r \<noteq> R_ok then ret (r, area, entry2)
         else do {
           r \<leftarrow> writeSuperPageIndex E (area * totalPagesPerArea E + page) entry2;
           ret (r, area, entry2)
         }
       }
     }
   }"

text \<open>A path is searched for in the area map; the last match counts. Slots without one stay 0.\<close>

definition resolveDirectToLogicalPath :: "'f env \<Rightarrow> superblock \<Rightarrow> Addr list \<Rightarrow> Addr list" where
  "resolveDirectToLogicalPath E B direct =
     fold (\<lambda>i out. fold (\<lambda>d out.
         if getPos E B i = extractLogicalArea (direct ! d)
         then out[d := combineAddress i (extractPageOffs (direct ! d))] else out)
       [0 ..< superChainElems E] out) [0 ..< areasNo E] (replicate (superChainElems E) 0)"

text \<open>The loop goes on until one element too many is found.\<close>

definition fillPathWithFirstSuperblockAreas :: "'f env \<Rightarrow> superblock \<Rightarrow> Result \<times> Addr list" where
  "fillPathWithFirstSuperblockAreas E B =
     (let found = take (superChainElems E + 1)
            (filter (\<lambda>i. getType E B i = T_superblock) [0 ..< areasNo E])
      in (if length found = superChainElems E then R_ok else R_fail,
          map (\<lambda>i. combineAddress (getPos E B i) 0) found))"

definition checkpoint_index :: "'f env \<Rightarrow> ('f dev, unit) state" where
  "checkpoint_index E = do {
     add_event E (Checkpoint Tp_superblock);
     set_sb (\<lambda>B. B\<lparr>mRootnodeDirty := False\<rparr>)
   }"

text \<open>
  The jump pads from the last to the first; \<open>Inl\<close> ends the commit. The accumulator holds the
  physical areas of the chain.
\<close>

definition commit_jumppad ::
  "'f env \<Rightarrow> bool \<Rightarrow> Addr list \<Rightarrow> nat \<Rightarrow> AreaPos list \<Rightarrow> ('f dev, Result + AreaPos list) state" where
  "commit_jumppad E createNew logical i areas = do {
     idx \<leftarrow> gets (\<lambda>s. superChainIndexes (sb s));
     (r, area) \<leftarrow> insertNewJumpPadEntry E (logical ! i) (areas ! i)
       \<lparr>jp_no = (idx ! i + 1) mod 2 ^ 32, jp_logPrev = 0, jp_nextArea = areas ! (i + 1)\<rparr>;
     if r \<noteq> R_ok then ret (Inl r)
     else if \<not> createNew \<and> areas ! i = area
     then do { checkpoint_index E; ret (Inl R_ok) }
     else ret (Inr (areas[i := area]))
   }"

definition commit_anchor :: "'f env \<Rightarrow> Addr list \<Rightarrow> AreaPos list \<Rightarrow> ('f dev, Result) state" where
  "commit_anchor E logical areas = do {
     idx \<leftarrow> gets (\<lambda>s. superChainIndexes (sb s));
     r \<leftarrow> insertNewAnchorEntry E (logical ! 0) (areas ! 0)
       \<lparr>an_no = (idx ! 0 + 1) mod 2 ^ 32, an_logPrev = 0, an_jumpPadArea = areas ! 1,
         an_param = param_bytes E, an_fsVersion = fs_version\<rparr>;
     if r \<noteq> R_ok then ret r
     else do { checkpoint_index E; ret R_ok }
   }"

definition commit_chain :: "'f env \<Rightarrow> SuperIndex \<Rightarrow> bool \<Rightarrow> ('f dev, Result \<times> SuperIndex) state" where
  "commit_chain E x createNew = do {
     B \<leftarrow> gets sb;
     let logical = resolveDirectToLogicalPath E B (pathToSuperIndexDirect B);
     let areas = map extractLogicalArea (pathToSuperIndexDirect B);
     let last = jumpPadNo E + 1;
     (r, area, x') \<leftarrow> insertNewSuperIndex E (logical ! last) (areas ! last) x;
     if r \<noteq> R_ok then ret (r, x')
     else if \<not> testmode B \<and> \<not> createNew \<and> areas ! last = area
     then do { checkpoint_index E; ret (R_ok, x') }
     else do {
       y \<leftarrow> loopM (rev [1 ..< jumpPadNo E + 1]) (areas[last := area]) (commit_jumppad E createNew logical);
       (case y of
          Inl r \<Rightarrow> ret (r, x')
        | Inr areas' \<Rightarrow> do { r \<leftarrow> commit_anchor E logical areas'; ret (r, x') })
     }
   }"

definition commitSuperIndex ::
  "'f env \<Rightarrow> SuperIndex \<Rightarrow> bool \<Rightarrow> bool \<Rightarrow> ('f dev, Result \<times> SuperIndex) state" where
  "commitSuperIndex E x asDirty createNew = do {
     r \<leftarrow> (if createNew
          then do {
            set_sb (\<lambda>B. B\<lparr>superChainIndexes := replicate (superChainElems E) 0\<rparr>);
            (r, path) \<leftarrow> gets (\<lambda>s. fillPathWithFirstSuperblockAreas E (sb s));
            set_sb (\<lambda>B. B\<lparr>pathToSuperIndexDirect :=
              take (superChainElems E) (path @ drop (length path) (pathToSuperIndexDirect B))\<rparr>);
            ret r
          }
          else ret R_ok);
     dirty \<leftarrow> gets (\<lambda>s. mRootnodeDirty (sb s));
     if r \<noteq> R_ok then ret (r, x)
     else if \<not> asDirty \<and> \<not> dirty then ret (R_ok, x)
     else do {
       let last = jumpPadNo E + 1;
       set_sb (\<lambda>B. B\<lparr>superChainIndexes :=
         (superChainIndexes B)[last := (superChainIndexes B ! last + 1) mod 2 ^ 32]\<rparr>);
       B \<leftarrow> gets sb;
       commit_chain E
         ((bind_index B x)\<lparr>si_no := superChainIndexes B ! last, si_rootNode := mRootnodeAddr B,
           si_usedAreas := mUsedAreas B, si_overallDeletions := mOverallDeletions B\<rparr>) createNew
     }
   }"

end
