(* ===== verification/SuperChainFacts.thy ===== *)
theory SuperChainFacts
  imports SuperChain AreaOpsOk
begin

text \<open>
  The super chain over a flash that keeps what is written to it: scanning a block finds its last
  entry and the page behind it, and a superindex that was written is read back. \<open>flash_ok\<close> is the
  documented behaviour of a driver whose pages are intact (\<^verbatim>\<open>src/driver/driver.hpp\<close>): reading answers
  the content of the page, writing replaces its beginning and leaves all other pages alone.
\<close>

definition flash_ok :: "'f env \<Rightarrow> ('f \<Rightarrow> PageAbs \<Rightarrow> byte list) \<Rightarrow> bool" where
  "flash_ok E content \<longleftrightarrow>
     (\<forall>p n f. n \<le> totalBytesPerPage E \<longrightarrow>
        n \<le> length (content f p) \<and> drv_readPage E p n f = ((R_ok, take n (content f p)), f)) \<and>
     (\<forall>p bs f. length bs \<le> totalBytesPerPage E \<longrightarrow>
        (\<exists>f' tail. drv_writePage E p bs f = (R_ok, f') \<and> content f' = (content f)(p := bs @ tail)))"

lemma run_readPage:
  assumes "flash_ok E content" and "n \<le> totalBytesPerPage E"
  shows "run_state (readPage E p n) s = ((R_ok, take n (content (flash s) p)), s)"
  using assms by (simp add: readPage_def flash_ok_def)

lemma content_length: "flash_ok E content \<Longrightarrow> n \<le> totalBytesPerPage E \<Longrightarrow> n \<le> length (content f p)"
  by (simp add: flash_ok_def)

lemma run_writePage:
  assumes "flash_ok E content" and "length bs \<le> totalBytesPerPage E"
  obtains t tail where "run_state (writePage E p bs) s = (R_ok, s\<lparr>flash := t\<rparr>)"
    and "content t = (content (flash s))(p := bs @ tail)"
proof -
  obtain f' tail where "drv_writePage E p bs (flash s) = (R_ok, f')" and "content f' = (content (flash s))(p := bs @ tail)"
    using assms unfolding flash_ok_def by meson
  then show ?thesis by (intro that [of f' tail]) (simp_all add: writePage_def)
qed

lemma rd_take: "off + w \<le> n \<Longrightarrow> rd (take n bs) off w = rd bs off w"
  by (simp add: rd_def drop_take min_def)

subsection \<open>Scanning a block\<close>

text \<open>
  \<open>block_log c base n m\<close>: of the \<open>n\<close> pages from \<open>base\<close> on, the first \<open>m\<close> hold entries of increasing
  serial numbers, and the others are free.
\<close>

definition serial_of :: "byte list \<Rightarrow> nat" where
  "serial_of bs = rd bs 0 4"

definition block_log :: "(PageAbs \<Rightarrow> byte list) \<Rightarrow> PageAbs \<Rightarrow> nat \<Rightarrow> nat \<Rightarrow> bool" where
  "block_log c base n m \<longleftrightarrow> m \<le> n \<and>
     (\<forall>i<m. serial_of (c (base + i)) \<noteq> emptySerial) \<and>
     (\<forall>i. m \<le> i \<and> i < n \<longrightarrow> serial_of (c (base + i)) = emptySerial) \<and>
     (\<forall>i. Suc i < m \<longrightarrow> serial_of (c (base + i)) < serial_of (c (base + Suc i)))"

lemma block_log_append:
  assumes log: "block_log c base n m" and m: "m < n" and no: "serial_of (c' (base + m)) \<noteq> emptySerial"
    and less: "\<And>i. i < m \<Longrightarrow> serial_of (c (base + i)) < serial_of (c' (base + m))"
    and other: "\<And>i. i \<noteq> m \<Longrightarrow> c' (base + i) = c (base + i)"
  shows "block_log c' base n (Suc m)"
  unfolding block_log_def
proof (intro conjI allI impI)
  show "Suc m \<le> n" using m by simp
  show "serial_of (c' (base + i)) \<noteq> emptySerial" if "i < Suc m" for i
    using that log no other [of i] by (cases "i = m") (simp_all add: block_log_def)
  show "serial_of (c' (base + i)) = emptySerial" if "Suc m \<le> i \<and> i < n" for i
    using that log other [of i] by (simp add: block_log_def)
  show "serial_of (c' (base + i)) < serial_of (c' (base + Suc i))" if "Suc i < Suc m" for i
  proof (cases "Suc i = m")
    case True
    then show ?thesis using less [of i] other [of i] by auto
  next
    case False
    then show ?thesis using that log other [of i] other [of "Suc i"] by (simp add: block_log_def)
  qed
qed

definition recent_of :: "(PageAbs \<Rightarrow> byte list) \<Rightarrow> PageAbs \<Rightarrow> recent" where
  "recent_of c p = \<lparr>rc_pos = p mod 2 ^ 16, rc_index = serial_of (c p), rc_overflow = (serial_of (c p) = 0),
     rc_next = rd (c p) 6 2, rc_logPrev = rd (c p) 4 2\<rparr>"

lemma recent_step_run:
  assumes "flash_ok E content" and "8 \<le> totalBytesPerPage E"
  shows "run_state (recent_step E base page m) s =
    (let c = content (flash s) (base + page) in
     (if serial_of c = emptySerial
      then Inl (if rc_index m \<noteq> 0 \<or> rc_overflow m then R_ok else R_notFound, m)
      else Inr (if serial_of c > rc_index m \<or> serial_of c = 0 then recent_of (content (flash s)) (base + page) else m), s))"
  using run_readPage [OF assms, of "page + base" s]
  by (simp add: recent_step_def Let_def serial_of_def recent_of_def rd_take add.commute)

lemma recent_loop:
  assumes ok: "flash_ok E content" "8 \<le> totalBytesPerPage E"
    and log: "block_log (content (flash s)) base n m" and "k \<le> m" and "0 < k"
  shows "run_state (loopM [k ..< n] (recent_of (content (flash s)) (base + (k - 1))) (recent_step E base)) s =
    (if m < n then Inl (R_ok, recent_of (content (flash s)) (base + (m - 1)))
     else Inr (recent_of (content (flash s)) (base + (m - 1))), s)"
  using assms(4,5)
proof (induction "m - k" arbitrary: k)
  case 0
  then have km: "k = m" by simp
  show ?case
  proof (cases "m < n")
    case True
    then have "serial_of (content (flash s) (base + m)) = emptySerial" using log by (simp add: block_log_def)
    then show ?thesis using True km
      by (auto simp: upt_conv_Cons recent_step_run [OF ok] Let_def recent_of_def)
  next
    case False
    then show ?thesis using km log by (simp add: block_log_def)
  qed
next
  case (Suc d)
  have km: "k < m" using Suc.hyps(2) by simp
  then have kn: "k < n" using log by (simp add: block_log_def)
  have "serial_of (content (flash s) (base + k)) \<noteq> emptySerial" using log km by (simp add: block_log_def)
  moreover have "serial_of (content (flash s) (base + (k - 1))) < serial_of (content (flash s) (base + Suc (k - 1)))"
    using log km Suc.prems(2) unfolding block_log_def by (metis Suc_pred')
  ultimately have step: "run_state (recent_step E base k (recent_of (content (flash s)) (base + (k - 1)))) s =
      (Inr (recent_of (content (flash s)) (base + k)), s)"
    using Suc.prems(2) by (simp add: recent_step_run [OF ok] Let_def recent_of_def)
  have "run_state (loopM [Suc k ..< n] (recent_of (content (flash s)) (base + (Suc k - 1))) (recent_step E base)) s =
    (if m < n then Inl (R_ok, recent_of (content (flash s)) (base + (m - 1)))
     else Inr (recent_of (content (flash s)) (base + (m - 1))), s)"
    by (rule Suc.hyps(1)) (use Suc.hyps(2) km in auto)
  then show ?case using step by (simp add: upt_conv_Cons [OF kn])
qed

lemma most_recent_in_block:
  assumes ok: "flash_ok E content" "8 \<le> totalBytesPerPage E"
    and log: "block_log (content (flash s)) (pagesPerBlock E * (block + area * blocksPerArea E)) (pagesPerBlock E) m"
    and ppb: "0 < pagesPerBlock E"
  shows "\<exists>x. run_state (readMostRecentEntryInBlock E area block nl) s = (x, s) \<and>
    (if m = 0 then fst x = R_notFound
     else x = (R_ok, recent_of (content (flash s)) (pagesPerBlock E * (block + area * blocksPerArea E) + (m - 1))))"
proof -
  let ?base = "pagesPerBlock E * (block + area * blocksPerArea E)" and ?c = "content (flash s)"
  let ?m0 = "\<lparr>rc_pos = 0, rc_index = 0, rc_overflow = False, rc_next = fst nl, rc_logPrev = snd nl\<rparr>"
  have upt: "[0 ..< pagesPerBlock E] = 0 # [1 ..< pagesPerBlock E]" using ppb by (simp add: upt_conv_Cons)
  show ?thesis
  proof (cases "m = 0")
    case True
    then have "serial_of (?c ?base) = emptySerial" using log ppb by (auto simp: block_log_def)
    then show ?thesis using True
      by (simp add: readMostRecentEntryInBlock_def Let_def upt recent_step_run [OF ok])
  next
    case False
    then have "serial_of (?c ?base) \<noteq> emptySerial" using log by (auto simp: block_log_def)
    then have first: "run_state (recent_step E ?base 0 ?m0) s = (Inr (recent_of ?c ?base), s)"
      by (auto simp: recent_step_run [OF ok] Let_def)
    show ?thesis
      using recent_loop [OF ok log, of 1] False first
      by (auto simp: readMostRecentEntryInBlock_def Let_def upt split_beta)
  qed
qed

lemma free_entry_loop:
  assumes ok: "flash_ok E content" "4 \<le> totalBytesPerPage E"
    and log: "block_log (content (flash s)) base n m" and "k \<le> m"
  shows "run_state (loopM [k ..< n] (0, 0) (free_entry_step E base 1)) s =
    (if m < n then Inl (R_ok, m) else Inr (0, 0), s)"
  using assms(4)
proof (induction "m - k" arbitrary: k)
  case 0
  then have km: "k = m" by simp
  show ?case
  proof (cases "m < n")
    case True
    then have "serial_of (content (flash s) (base + m)) = emptySerial" using log by (simp add: block_log_def)
    then show ?thesis using True km
      by (simp add: upt_conv_Cons free_entry_step_def run_readPage [OF ok] rd_take serial_of_def add.commute)
  next
    case False
    then show ?thesis using km log by (simp add: block_log_def)
  qed
next
  case (Suc d)
  have km: "k < m" using Suc.hyps(2) by simp
  then have kn: "k < n" using log by (simp add: block_log_def)
  have "serial_of (content (flash s) (base + k)) \<noteq> emptySerial" using log km by (simp add: block_log_def)
  then show ?case
    using Suc.hyps(1) [of "Suc k"] Suc.hyps(2) km kn
    by (simp add: upt_conv_Cons free_entry_step_def run_readPage [OF ok] rd_take serial_of_def add.commute)
qed

lemma first_free_in_block:
  assumes ok: "flash_ok E content" "4 \<le> totalBytesPerPage E"
    and log: "block_log (content (flash s)) (pagesPerBlock E * (area * blocksPerArea E + block)) (pagesPerBlock E) m"
    and small: "pagesPerBlock E * (area * blocksPerArea E + block) < 2 ^ 16"
  shows "run_state (findFirstFreeEntryInBlock E area block 1) s =
    (if m < pagesPerBlock E then (R_ok, m) else (R_notFound, 0), s)"
  using free_entry_loop [OF ok log, of 0] small
  by (simp add: findFirstFreeEntryInBlock_def split_beta)

subsection \<open>The superindex in the flash\<close>

lemma chunk_size_min:
  "4 < dataBytesPerPage E \<Longrightarrow> chunk_size E n p = min (dataBytesPerPage E - 4) (n - p)"
  by (auto simp: chunk_size_def)

lemma min_step: "min m l + min d (l - min m l) = min (d + m) (l::nat)"
  by (simp add: min_def) arith

lemma take_min_append: "take (min d (length xs)) (take d xs @ ys) = take d xs"
  by (simp add: min_def)

text \<open>\<open>stored c base no d buf k\<close>: \<open>k\<close> pages from \<open>base\<close> on hold the buffer in chunks of \<open>d\<close> bytes.\<close>

definition stored :: "(PageAbs \<Rightarrow> byte list) \<Rightarrow> PageAbs \<Rightarrow> nat \<Rightarrow> nat \<Rightarrow> byte list \<Rightarrow> nat \<Rightarrow> bool" where
  "stored c base no d buf k \<longleftrightarrow>
     (\<forall>i<k. \<exists>tail. c (base + i) = le_bytes 4 no @ take d (drop (i * d) buf) @ tail)"

lemma write_index_loop:
  assumes ok: "flash_ok E content" and d: "4 < dataBytesPerPage E"
  shows "\<exists>p t. run_state (loopM [0 ..< n] 0 (write_index_page E base no buf)) s = (Inr p, s\<lparr>flash := t\<rparr>)
    \<and> stored (content t) base no (dataBytesPerPage E - 4) buf n"
proof -
  let ?d = "dataBytesPerPage E - 4"
  let ?J = "\<lambda>k p t. p = min (k * ?d) (length buf) \<and> (\<exists>f. t = s\<lparr>flash := f\<rparr>)
      \<and> stored (content (flash t)) base no ?d buf k"
  have "\<exists>p t. run_state (loopM [0 ..< n] 0 (write_index_page E base no buf)) s = (Inr p, t) \<and> ?J n p t"
  proof (rule loopM_index)
    show "?J 0 0 s" by (auto simp: stored_def intro: exI [of _ "flash s"])
  next
    fix k p t assume J: "?J k p t"
    then obtain f where t: "t = s\<lparr>flash := f\<rparr>" by blast
    let ?bs = "le_bytes 4 no @ take (chunk_size E (length buf) p) (drop p buf)"
    have chunk: "take (chunk_size E (length buf) p) (drop p buf) = take ?d (drop (k * ?d) buf)"
      using J by (auto simp: chunk_size_min [OF d] min_def)
    have "length ?bs \<le> totalBytesPerPage E"
      using d by (simp add: chunk_size_min [OF d] totalBytesPerPage_def)
    then obtain g tail where w: "run_state (writePage E (base + k) ?bs) t = (R_ok, t\<lparr>flash := g\<rparr>)"
      and g: "content g = (content (flash t))(base + k := ?bs @ tail)"
      using run_writePage [OF ok] by blast
    have new: "content g (base + k) = le_bytes 4 no @ take ?d (drop (k * ?d) buf) @ tail" by (simp add: g chunk)
    have "content g (base + i) = content (flash t) (base + i)" if "i < k" for i using that by (simp add: g)
    then have "stored (content g) base no ?d buf (Suc k)"
      using J new unfolding stored_def less_Suc_eq by metis
    moreover have "min (k * ?d) (length buf) + chunk_size E (length buf) (min (k * ?d) (length buf))
        = min (Suc k * ?d) (length buf)"
      by (simp only: chunk_size_min [OF d] min_step mult_Suc)
    ultimately show "\<exists>p' u. run_state (write_index_page E base no buf k p) t = (Inr p', u) \<and> ?J (Suc k) p' u"
      using w J t by (auto simp: write_index_page_def Let_def)
  qed
  then show ?thesis by auto
qed

lemma read_index_loop:
  assumes ok: "flash_ok E content" and d: "4 < dataBytesPerPage E"
    and st: "stored (content (flash s)) base no (dataBytesPerPage E - 4) buf n"
    and no: "no < 2 ^ 32 - 1" and n: "n = superindex_pages E (length buf)" and N: "length buf \<le> needed"
  shows "\<exists>rest. run_state (loopM [0 ..< n] (emptySerial, []) (read_index_page E base needed)) s =
    (Inr (if n = 0 then emptySerial else no, buf @ rest), s)"
proof -
  let ?d = "dataBytesPerPage E - 4"
  let ?J = "\<lambda>k x t. t = s \<and> fst x = (if k = 0 then emptySerial else no) \<and> length (snd x) = min (k * ?d) needed
      \<and> take (length buf) (snd x) = take (k * ?d) buf"
  have "\<exists>x t. run_state (loopM [0 ..< n] (emptySerial, []) (read_index_page E base needed)) s = (Inr x, t) \<and> ?J n x t"
  proof (rule loopM_index)
    show "?J 0 (emptySerial, []) s" by simp
  next
    fix k and x :: "nat \<times> byte list" and t assume k: "k < n" and J: "?J k x t"
    obtain sn b where x: "x = (sn, b)" by (cases x)
    have kd: "k * ?d < length buf" using less_ceil_div [of k "length buf" ?d] k d n by (simp add: superindex_pages_def)
    then have b: "length b = k * ?d" "b = take (k * ?d) buf"
      using J x N by (auto simp: min_def)
    obtain tail where c: "content (flash s) (base + k) = le_bytes 4 no @ take ?d (drop (k * ?d) buf) @ tail"
      using st k by (auto simp: stored_def)
    let ?btr = "chunk_size E needed (length b)"
    have btr: "?btr = min ?d (needed - k * ?d)" by (simp add: chunk_size_min [OF d] b(1))
    have tot: "?btr + 4 \<le> totalBytesPerPage E" using d by (simp add: btr totalBytesPerPage_def)
    have skip: "take n (drop 4 (take (n + 4) (le_bytes 4 no @ ys))) = take n ys" for n ys by simp
    have page: "take ?btr (drop 4 (take (?btr + 4) (content (flash s) (base + k)))) =
        take ?btr (take ?d (drop (k * ?d) buf) @ tail)"
      by (simp only: c skip)
    have len: "length (take ?btr (take ?d (drop (k * ?d) buf) @ tail)) = ?btr"
    proof -
      have "?btr \<le> length (take ?d (drop (k * ?d) buf) @ tail)"
        using content_length [OF ok tot, of "flash s" "base + k"] unfolding c by simp
      then show ?thesis by (simp only: length_take min_absorb2)
    qed
    have serial: "rd (take (?btr + 4) (content (flash s) (base + k))) 0 4 = no"
      using no by (simp add: rd_take c rd_here)
    define chunk where "chunk = take ?btr (take ?d (drop (k * ?d) buf) @ tail)"
    have read: "run_state (readPage E (base + k) (?btr + 4)) s = ((R_ok, take (?btr + 4) (content (flash s) (base + k))), s)"
      by (rule run_readPage [OF ok tot])
    have sn: "sn = emptySerial \<or> sn = no" using J x by (auto split: if_splits)
    have run: "run_state (read_index_page E base needed k x) t = (Inr (no, b @ chunk), s)"
      using J x read serial page sn no
      by (simp add: read_index_page_def Let_def emptySerial_def chunk_def del: take_append)
    have len': "length (b @ chunk) = min (Suc k * ?d) needed"
    proof -
      have "min (k * ?d) needed = k * ?d" using kd N by simp
      moreover have "length chunk = min ?d (needed - k * ?d)" unfolding chunk_def len by (rule btr)
      ultimately show ?thesis
        using min_step [of "k * ?d" needed ?d] by (simp only: length_append b(1) mult_Suc)
    qed
    have take': "take (length buf) (b @ chunk) = take (Suc k * ?d) buf"
    proof -
      have "min (length buf - k * ?d) ?btr = min ?d (length buf - k * ?d)" using N by (auto simp: btr min_def)
      then have "take (length buf - k * ?d) chunk =
          take (min ?d (length (drop (k * ?d) buf))) (take ?d (drop (k * ?d) buf) @ tail)"
        by (simp only: chunk_def take_take length_drop)
      then have "take (length buf - k * ?d) chunk = take ?d (drop (k * ?d) buf)"
        by (simp only: take_min_append)
      moreover have "take (Suc k * ?d) buf = take (k * ?d) buf @ take ?d (drop (k * ?d) buf)"
        by (metis add.commute mult_Suc take_add)
      moreover have "take (length buf) (b @ chunk) = b @ take (length buf - k * ?d) chunk"
        using kd by (simp add: b(1))
      ultimately show ?thesis using b(2) by simp
    qed
    show "\<exists>x' u. run_state (read_index_page E base needed k x) t = (Inr x', u) \<and> ?J (Suc k) x' u"
      by (rule exI [of _ "(no, b @ chunk)"], rule exI [of _ s])
        (simp only: run len' take' fst_conv snd_conv nat.distinct if_False simp_thms)
  qed
  then obtain x where x: "run_state (loopM [0 ..< n] (emptySerial, []) (read_index_page E base needed)) s = (Inr x, s)"
    and J: "?J n x s" by auto
  have "length buf \<le> n * ?d" using ceil_div_le [of ?d "length buf"] d n by (simp add: superindex_pages_def)
  then have "take (length buf) (snd x) = buf" using J by simp
  then have "snd x = buf @ drop (length buf) (snd x)" by (metis append_take_drop_id)
  moreover have "fst x = (if n = 0 then emptySerial else no)" using J by argo
  ultimately have "x = (if n = 0 then emptySerial else no, buf @ drop (length buf) (snd x))"
    by (metis prod.collapse)
  then show ?thesis using x by (intro exI [of _ "drop (length buf) (snd x)"]) argo
qed

lemma isPlausible_summaries [simp]: "isPlausible E (x\<lparr>si_summaries := ss\<rparr>) = isPlausible E x"
proof -
  have "active_has_summary (x\<lparr>si_summaries := ss\<rparr>) = active_has_summary x"
    by (rule ext) (simp add: active_has_summary_def)
  moreover have "plausible_position E (x\<lparr>si_summaries := ss\<rparr>) = plausible_position E x"
    by (rule ext) (simp add: plausible_position_def split: option.split)
  moreover have "counts_match E (x\<lparr>si_summaries := ss\<rparr>) = counts_match E x"
    by (simp add: counts_match_def)
  ultimately show ?thesis by (simp add: isPlausible_def split: option.split bool.split)
qed

lemma neededBytes_no [simp]: "getNeededBytes E (bind_index B x) = getNeededBytes E x"
  by (simp add: getNeededBytes_def bind_index_def)

lemma neededBytes_length:
  assumes "superindex_ok E x" and "superindex_fits E"
  shows "length (superindex_bytes x) = getNeededBytes E x"
    and "getNeededBytes E x \<le> getNeededBytes_for E 2" and "0 < getNeededBytes E x"
proof -
  have "serializeToBuffer E x = (R_ok, superindex_bytes x)"
    by (rule superindex_roundtrip_bytes(1) [OF assms, of x]) (use assms(1) in \<open>simp add: superindex_ok_def\<close>)
  then have 1: "length (superindex_bytes x) mod 2 ^ 16 = getNeededBytes E x"
    by (simp add: serializeToBuffer_def Let_def split: if_splits)
  let ?n = "length (summary_slots (si_areaSummaryPositions x))"
  have need: "getNeededBytes E x = 34 + 12 * areasNo E + TwoBitList_byteUsage (dataPagesPerArea E) * ?n"
    by (simp add: neededBytes_slots neededBytes_fit [OF assms(2) length_summary_slots])
  then show "0 < getNeededBytes E x" by simp
  have "TwoBitList_byteUsage (dataPagesPerArea E) * ?n \<le> TwoBitList_byteUsage (dataPagesPerArea E) * 2"
    by (rule mult_le_mono2 [OF length_summary_slots])
  then show "getNeededBytes E x \<le> getNeededBytes_for E 2"
    by (simp add: need neededBytes_fit [OF assms(2)])
  have "length (superindex_bytes x) = getNeededBytes E x"
    using superindex_bytes_length [OF assms(1)] need by simp
  then show "length (superindex_bytes x) = getNeededBytes E x" .
qed

lemma superindex_flash_roundtrip_at:
  assumes ok: "flash_ok E content" and d: "4 < dataBytesPerPage E"
    and x: "superindex_ok E (bind_index (sb s) x)" and fits: "superindex_fits E"
    and pl: "isPlausible E (bind_index (sb s) x) = Some True" and no: "si_no x < 2 ^ 32 - 1"
    and pages: "superindex_pages E (getNeededBytes E x) = superindex_pages E (getNeededBytes_for E 2)"
    and y: "length (si_summaries y) = 2" and ro: "\<not> readOnly s"
    and run: "run_state (writeSuperPageIndex E (getPageNumberFromDirect E addr) x) s = (r, t)"
  shows "r = R_ok" and "sb t = sb s"
    and "run_state (readSuperPageIndex E addr y) t =
      ((R_ok, (bind_index (sb s) x)\<lparr>si_summaries :=
         loaded_summaries (si_areaSummaryPositions x) (si_summaries x) (si_summaries y)\<rparr>), t)"
proof -
  let ?x = "bind_index (sb s) x" and ?base = "getPageNumberFromDirect E addr"
  let ?n = "superindex_pages E (getNeededBytes_for E 2)" and ?buf = "superindex_bytes (bind_index (sb s) x)"
  have simps: "si_no ?x = si_no x" "si_areaSummaryPositions ?x = si_areaSummaryPositions x" "si_summaries ?x = si_summaries x"
    by (simp_all add: bind_index_def)
  note len = neededBytes_length [OF x fits, unfolded neededBytes_no]
  obtain p f where loop: "run_state (loopM [0 ..< ?n] 0 (write_index_page E ?base (si_no x) ?buf)) s = (Inr p, s\<lparr>flash := f\<rparr>)"
    and st: "stored (content f) ?base (si_no x) (dataBytesPerPage E - 4) ?buf ?n"
    using write_index_loop [OF ok d] by blast
  have rt: "r = R_ok \<and> t = s\<lparr>flash := f\<rparr>"
    using run ro pl loop superindex_roundtrip_bytes(1) [OF x fits y]
    by (simp add: writeSuperPageIndex_def Let_def simps pages)
  then show "r = R_ok" and "sb t = sb s" by simp_all
  have npos: "?n \<noteq> 0"
  proof
    assume "?n = 0"
    with pages len(3) d ceil_div_le [of "dataBytesPerPage E - 4" "getNeededBytes E x"] show False
      by (simp add: superindex_pages_def)
  qed
  obtain rest where read: "run_state (loopM [0 ..< ?n] (emptySerial, []) (read_index_page E ?base (getNeededBytes_for E 2))) t =
      (Inr (si_no x, ?buf @ rest), t)"
  proof -
    have st': "stored (content (flash t)) ?base (si_no x) (dataBytesPerPage E - 4) ?buf ?n" using st rt by simp
    have n: "?n = superindex_pages E (length ?buf)" unfolding len(1) by (rule pages [symmetric])
    have le: "length ?buf \<le> getNeededBytes_for E 2" unfolding len(1) by (rule len(2))
    show ?thesis using read_index_loop [OF ok d st' no n le] npos that by (elim exE) (simp only: if_False)
  qed
  define z where "z = ?x\<lparr>si_summaries := loaded_summaries (si_areaSummaryPositions x) (si_summaries x) (si_summaries y)\<rparr>"
  have "?x\<lparr>si_no := si_no x\<rparr> = ?x" by (simp add: bind_index_def)
  then have des: "deserializeFromBuffer E (?buf @ rest) (y\<lparr>si_no := si_no x\<rparr>) = (R_ok, z)"
    using superindex_roundtrip_bytes(2) [OF x fits, of "y\<lparr>si_no := si_no x\<rparr>" rest] y
    by (simp add: z_def simps)
  have "isPlausible E z = Some True" by (simp add: z_def pl)
  then show "run_state (readSuperPageIndex E addr y) t =
      ((R_ok, ?x\<lparr>si_summaries :=
         loaded_summaries (si_areaSummaryPositions x) (si_summaries x) (si_summaries y)\<rparr>), t)"
    unfolding z_def [symmetric] using read des by (simp add: readSuperPageIndex_def Let_def)
qed

subsection \<open>Plausibility\<close>

lemma plausible_position_ok:
  assumes "area_ok E B" and "p = 0 \<or> p < areasNo E \<and> stat B p \<noteq> S_empty \<and> ty B p \<noteq> T_no"
    and "si_areaMap x = mMap B" and "si_activeArea x = mActiveAreas B"
  shows "plausible_position E x p = Some True"
proof -
  have sh: "sb_shape E B" by (rule area_okD(1) [OF assms(1)])
  show ?thesis
    using assms(2-4) sh area_type_code_less [of "ty B p"]
    by (auto simp: plausible_position_def nth_opt_def sb_shape_def stat_def ty_def)
qed

lemma counts_match_ok:
  assumes "area_ok E B" and "areasNo E < 2 ^ 16" and "sum_list (erases B) < 2 ^ 64"
    and "si_areaMap x = mMap B" and "si_usedAreas x = mUsedAreas B" and "si_overallDeletions x = mOverallDeletions B"
  shows "counts_match E x \<longleftrightarrow> sum_list (erases B) = mOverallDeletions B"
proof -
  have sh: "sb_shape E B" and used: "mUsedAreas B = used_count E B"
    using area_okD(1,2) [OF assms(1)] by simp_all
  have "used_count E B < 2 ^ 16" using used_count_le [of E B] assms(2) by simp
  then have "count_upto (areasNo E) (\<lambda>i. a_status (mMap B ! i) \<noteq> S_empty) mod 2 ^ 16 = mUsedAreas B"
    by (simp add: used used_count_def stat_def)
  then show ?thesis
    using assms(3-6) sh by (simp add: counts_match_def erases_def sb_shape_def)
qed

subsection \<open>Erasing blocks of the chain\<close>

lemma deleteSuperBlock_sb:
  assumes "block < blocksPerArea E" and "run_state (deleteSuperBlock E area block) s = (r, t)"
  shows "sb t = sb s"
proof -
  have "keeps (\<lambda>u. sb u = sb s) (deleteSuperBlock E area block)"
    unfolding deleteSuperBlock_def using assms(1) by (intro keeps_intros) simp_all
  then show ?thesis by (rule keepsD [OF _ _ assms(2)]) simp
qed

lemma handleBlockOverflow_sb:
  assumes "extractPageOffs logPrev < totalPagesPerArea E"
    and "run_state (handleBlockOverflow E newPage logPrev serial) s = ((r, no), t)"
  shows "sb t = sb s"
proof -
  have "extractPageOffs logPrev div pagesPerBlock E < blocksPerArea E"
    using assms(1) by (simp add: totalPagesPerArea_def less_mult_imp_div_less)
  then show ?thesis
    using assms(2) deleteSuperBlock_sb [OF _ surjective_pairing]
    by (auto simp: handleBlockOverflow_def split_beta split: if_splits)
qed

end
