(* ===== verification/PageStates.thy ===== *)
theory PageStates
  imports AreaAlloc
begin

text \<open>
  \<^verbatim>\<open>PageStateMachine\<close> of \<^verbatim>\<open>src/journalPageStatemachine.hpp\<close> and \<^verbatim>\<open>journalPageStatemachine_impl.hpp\<close>: a
  transaction of page writes. Every new page is logged with the page it replaces; at the end
  the replaced pages become dirty. A replay collects the logged pages; at the end of the log the
  machine either reverts the new pages (no success was logged) or dirties the old ones.

  The tree cache, the page address cache and the data I/O own one machine each. An instance
  holds the template parameters and the place of the machine in the device. A write behind the
  fixed arrays, which the code would do when it replays too many pages, is \<open>None\<close>.
\<close>

record 'f psm_inst =
  maxPages :: nat
  withPosition :: bool
  psm_topic :: Topic
  psm_get :: "'f dev \<Rightarrow> psm"
  psm_put :: "(psm \<Rightarrow> psm) \<Rightarrow> 'f dev \<Rightarrow> 'f dev"

definition tree_machine :: "'f env \<Rightarrow> 'f psm_inst" where
  "tree_machine E = \<lparr>maxPages = treeNodeCacheSize E, withPosition = False, psm_topic = Tp_tree,
     psm_get = (\<lambda>s. tree_psm (tc s)),
     psm_put = (\<lambda>f s. s\<lparr>tc := (tc s)\<lparr>tree_psm := f (tree_psm (tc s))\<rparr>\<rparr>)\<rparr>"

definition pac_machine :: "'f env \<Rightarrow> 'f psm_inst" where
  "pac_machine E = \<lparr>maxPages = maxPagesPerWrite E, withPosition = False, psm_topic = Tp_pac,
     psm_get = (\<lambda>s. pac_psm (pac s)),
     psm_put = (\<lambda>f s. s\<lparr>pac := (pac s)\<lparr>pac_psm := f (pac_psm (pac s))\<rparr>\<rparr>)\<rparr>"

definition dio_machine :: "'f env \<Rightarrow> 'f psm_inst" where
  "dio_machine E = \<lparr>maxPages = maxPagesPerWrite E, withPosition = True, psm_topic = Tp_dataIO,
     psm_get = (\<lambda>s. dio_psm (dio s)),
     psm_put = (\<lambda>f s. s\<lparr>dio := (dio s)\<lparr>dio_psm := f (dio_psm (dio s))\<rparr>\<rparr>)\<rparr>"

subsection \<open>Recording a transaction\<close>

definition psm_clear :: "nat \<Rightarrow> bool \<Rightarrow> psm" where
  "psm_clear n b = \<lparr>newPageList = replicate n 0, oldPageList = replicate n 0,
     psm_position = replicate (if b then n else 0) 0, pageListHWM = 0, currentInode = 0, journalState = J_ok\<rparr>"

definition clear_machine :: "'f psm_inst \<Rightarrow> ('f dev, unit) state" where
  "clear_machine M = modify (psm_put M (\<lambda>_. psm_clear (maxPages M) (withPosition M)))"

definition getMinSpaceLeft :: "'f psm_inst \<Rightarrow> psm \<Rightarrow> nat" where
  "getMinSpaceLeft M p = (maxPages M + 2 ^ 16 - pageListHWM p) mod 2 ^ 16"

definition record_page :: "Addr \<Rightarrow> Addr \<Rightarrow> psm \<Rightarrow> psm" where
  "record_page neu old p = p\<lparr>oldPageList := (oldPageList p)[pageListHWM p := old],
     newPageList := (newPageList p)[pageListHWM p := neu]\<rparr>"

definition record_position :: "nat \<Rightarrow> psm \<Rightarrow> psm" where
  "record_position pos p = p\<lparr>psm_position := (psm_position p)[pageListHWM p := pos]\<rparr>"

definition replacePage_at ::
  "'f env \<Rightarrow> 'f psm_inst \<Rightarrow> Addr \<Rightarrow> Addr \<Rightarrow> InodeNo \<Rightarrow> PageAbs \<Rightarrow> ('f dev, Result) state" where
  "replacePage_at E M neu old ino pos = do {
     full \<leftarrow> gets (\<lambda>s. pageListHWM (psm_get M s) = maxPages M);
     if full then ret R_lowMem
     else do {
       modify (psm_put M (record_page neu old));
       (if withPosition M
        then do {
          modify (psm_put M (record_position pos));
          add_event E (ReplacePagePos (psm_topic M) neu old ino pos)
        }
        else add_event E (ReplacePage (psm_topic M) neu old));
       modify (psm_put M (\<lambda>p. p\<lparr>pageListHWM := pageListHWM p + 1\<rparr>));
       if neu \<noteq> 0 then setPageStatus_addr E neu SE_used else ret R_ok
     }
   }"

definition replacePage :: "'f env \<Rightarrow> 'f psm_inst \<Rightarrow> Addr \<Rightarrow> Addr \<Rightarrow> ('f dev, Result) state" where
  "replacePage E M neu old =
     (if withPosition M then ret R_bug else replacePage_at E M neu old 0 0)"

text \<open>A failing \<open>setPageStatus\<close> is only reported.\<close>

definition dirty_page :: "'f env \<Rightarrow> Addr \<Rightarrow> ('f dev, unit) state" where
  "dirty_page E a = whenM (a \<noteq> 0) (do { _ \<leftarrow> setPageStatus_addr E a SE_dirty; ret () })"

definition invalidateOldPages :: "'f env \<Rightarrow> 'f psm_inst \<Rightarrow> ('f dev, Result) state" where
  "invalidateOldPages E M = do {
     p \<leftarrow> gets (psm_get M);
     let old = take (pageListHWM p) (oldPageList p);
     for_each old (dirty_page E);
     whenM (\<exists>a\<in>set old. a \<noteq> 0) (add_event E (InvalidateOldPages (psm_topic M)));
     clear_machine M;
     ret R_ok
   }"

subsection \<open>Replay\<close>

definition push_page :: "Addr \<Rightarrow> Addr \<Rightarrow> psm \<Rightarrow> psm option" where
  "push_page neu old p =
     (if pageListHWM p < length (newPageList p)
      then Some ((record_page neu old p)\<lparr>pageListHWM := pageListHWM p + 1\<rparr>) else None)"

definition push_position :: "Addr \<Rightarrow> Addr \<Rightarrow> nat \<Rightarrow> psm \<Rightarrow> psm option" where
  "push_position neu old pos p =
     (if pageListHWM p < length (psm_position p) then push_page neu old (record_position pos p) else None)"

definition psm_processEntry :: "'f psm_inst \<Rightarrow> Entry \<Rightarrow> psm \<Rightarrow> (Result \<times> psm) option" where
  "psm_processEntry M e p =
     (case journalState p of
        J_ok \<Rightarrow>
          (case e of
             ReplacePagePos _ neu old ino pos \<Rightarrow>
               map_option (\<lambda>p. (R_ok, p\<lparr>currentInode := ino, journalState := J_invalid\<rparr>))
                 (push_position neu old pos p)
           | ReplacePage _ neu old \<Rightarrow>
               map_option (\<lambda>p. (R_ok, p\<lparr>journalState := J_invalid\<rparr>)) (push_page neu old p)
           | Success _ \<Rightarrow> Some (R_ok, p)
           | _ \<Rightarrow> Some (R_bug, p))
      | J_invalid \<Rightarrow>
          (case e of
             ReplacePagePos _ neu old ino pos \<Rightarrow> map_option (\<lambda>p. (R_ok, p)) (push_position neu old pos p)
           | ReplacePage _ neu old \<Rightarrow> map_option (\<lambda>p. (R_ok, p)) (push_page neu old p)
           | Success _ \<Rightarrow> Some (R_ok, p\<lparr>journalState := J_recover\<rparr>)
           | InvalidateOldPages _ \<Rightarrow> Some (R_bug, p)
           | _ \<Rightarrow> Some (R_ok, p))
      | J_recover \<Rightarrow>
          (case e of
             InvalidateOldPages _ \<Rightarrow> Some (R_ok, psm_clear (maxPages M) (withPosition M))
           | ReplacePagePos _ _ _ _ _ \<Rightarrow> Some (R_bug, p)
           | ReplacePage _ _ _ \<Rightarrow> Some (R_bug, p)
           | Success _ \<Rightarrow> Some (R_bug, p)
           | _ \<Rightarrow> Some (R_ok, p)))"

text \<open>The method on the device. A replay that has left the arrays stops with \<open>R_bug\<close>.\<close>

definition machine_processEntry :: "'f psm_inst \<Rightarrow> Entry \<Rightarrow> ('f dev, Result) state" where
  "machine_processEntry M e = do {
     p \<leftarrow> gets (psm_get M);
     (case psm_processEntry M e p of
        None \<Rightarrow> ret R_bug
      | Some (r, p') \<Rightarrow> do { modify (psm_put M (\<lambda>_. p')); ret r })
   }"

text \<open>
  The end of the log: \<open>revert\<close> stands for the calls of the page address cache
  (\<^verbatim>\<open>setJournallingInode\<close>, \<^verbatim>\<open>setPage\<close> for each position, \<^verbatim>\<open>commit\<close>), which only a machine with positions
  makes. The answer is the state it came from.
\<close>

definition machine_signalEndOfLog ::
  "'f env \<Rightarrow> 'f psm_inst \<Rightarrow> (InodeNo \<Rightarrow> (nat \<times> Addr) list \<Rightarrow> ('f dev, unit) state) \<Rightarrow> ('f dev, JournalState) state" where
  "machine_signalEndOfLog E M revert = do {
     p \<leftarrow> gets (psm_get M);
     let n = pageListHWM p;
     (case journalState p of
        J_ok \<Rightarrow> do { clear_machine M; ret J_ok }
      | J_invalid \<Rightarrow> do {
          for_each (take n (newPageList p)) (dirty_page E);
          whenM (withPosition M)
            (revert (currentInode p) (zip (take n (psm_position p)) (take n (oldPageList p))));
          add_event E (InvalidateOldPages (psm_topic M));
          clear_machine M;
          ret J_invalid
        }
      | J_recover \<Rightarrow> do {
          for_each (take n (oldPageList p)) (dirty_page E);
          add_event E (InvalidateOldPages (psm_topic M));
          clear_machine M;
          ret J_recover
        })
   }"

end
