(* ===== verification/SummaryStatus.thy ===== *)
theory SummaryStatus
  imports PageStates
begin

text \<open>
  What the summary cache says about the pages of a cached area, and what setting a page state
  does to that. \<open>cache_ok\<close> is the consistency of the translation with the slots.
\<close>

definition slot_filled :: "'f env \<Rightarrow> summary_cache \<Rightarrow> AreaPos \<Rightarrow> nat \<Rightarrow> bool" where
  "slot_filled E C area p \<longleftrightarrow>
     p < length (mSummaryCache C) \<and> isUsed (mSummaryCache C ! p) \<and> mArea (mSummaryCache C ! p) = area \<and>
     length (mEntries (mSummaryCache C ! p)) = TwoBitList_byteUsage (dataPagesPerArea E)"

definition cache_ok :: "'f env \<Rightarrow> summary_cache \<Rightarrow> bool" where
  "cache_ok E C \<longleftrightarrow> (\<forall>(area, p)\<in>set (mTranslation C). slot_filled E C area p)"

definition page_status :: "'f env \<Rightarrow> summary_cache \<Rightarrow> AreaPos \<Rightarrow> PageOffs \<Rightarrow> SummaryEntry" where
  "page_status E C area page = elem_getStatus (dataPagesPerArea E) page (area_elem C area)"

definition addr_status :: "'f env \<Rightarrow> summary_cache \<Rightarrow> Addr \<Rightarrow> SummaryEntry" where
  "addr_status E C a = page_status E C (extractLogicalArea a) (extractPageOffs a)"

definition addr_cached :: "'f env \<Rightarrow> summary_cache \<Rightarrow> Addr \<Rightarrow> bool" where
  "addr_cached E C a \<longleftrightarrow> existsSummaryElem C (extractLogicalArea a) \<and> extractLogicalArea a \<noteq> 0
     \<and> extractPageOffs a < dataPagesPerArea E"

lemma cached_slot:
  "cache_ok E C \<Longrightarrow> existsSummaryElem C area \<Longrightarrow> slot_filled E C area (getSummaryElemPos C area)"
  by (fastforce simp: cache_ok_def existsSummaryElem_def getSummaryElemPos_def dest: map_of_SomeD)

lemma cached_pos_inject:
  assumes "cache_ok E C" and "existsSummaryElem C a" and "existsSummaryElem C b"
    and "getSummaryElemPos C a = getSummaryElemPos C b"
  shows "a = b"
  using cached_slot [OF assms(1,2)] cached_slot [OF assms(1,3)] assms(4) by (simp add: slot_filled_def)

text \<open>A change of one slot that keeps its place in the cache.\<close>

definition slot_change :: "('f env \<Rightarrow> AreaSummaryElem \<Rightarrow> AreaSummaryElem \<Rightarrow> bool)" where
  "slot_change E e e' \<longleftrightarrow> isUsed e' = isUsed e \<and> mArea e' = mArea e \<and> length (mEntries e') = length (mEntries e)"

lemma upd_elem_translation [simp]: "mTranslation (upd_elem area f C) = mTranslation C"
  by (simp add: upd_elem_def upd_slot_def)

lemma upd_elem_lookup [simp]:
  "existsSummaryElem (upd_elem area f C) b = existsSummaryElem C b"
  "getSummaryElemPos (upd_elem area f C) b = getSummaryElemPos C b"
  by (simp_all add: existsSummaryElem_def getSummaryElemPos_def)

lemma upd_elem_area:
  assumes "cache_ok E C" and "existsSummaryElem C area" and "existsSummaryElem C b"
  shows "area_elem (upd_elem area f C) b = (if b = area then f (area_elem C area) else area_elem C b)"
  using cached_slot [OF assms(1,2)] cached_pos_inject [OF assms]
  by (auto simp: area_elem_def upd_elem_def upd_slot_def slot_filled_def nth_list_update getSummaryElemPos_def)

lemma upd_elem_ok:
  assumes "cache_ok E C" and "slot_change E (area_elem C area) (f (area_elem C area))"
  shows "cache_ok E (upd_elem area f C)"
proof -
  have "slot_filled E (upd_elem area f C) a p" if "slot_filled E C a p" for a p
    using that assms(2)
    by (cases "p = getSummaryElemPos C area")
      (simp_all add: slot_filled_def slot_change_def upd_elem_def upd_slot_def area_elem_def)
  then show ?thesis using assms(1) by (auto simp: cache_ok_def)
qed

lemma slot_change_setStatus: "slot_change E e (elem_setStatus N i v e)"
  by (simp add: slot_change_def)

lemma slot_change_flags: "slot_change E e (setDirty b e)" "slot_change E e (setAreaSummaryWritten b e)"
  by (simp_all add: slot_change_def)

lemma slot_change_trans: "slot_change E a b \<Longrightarrow> slot_change E b c \<Longrightarrow> slot_change E a c"
  by (simp add: slot_change_def)

text \<open>
  The relation of a statement that at most sets the states of the pages in \<open>P\<close> to \<open>v\<close>: the cached
  areas stay the same, the pages of \<open>P\<close> have the state \<open>v\<close>, and no other page of a cached area
  changes.
\<close>

definition clients :: "'f dev \<Rightarrow> tree_cache \<times> btree \<times> page_cache \<times> data_io \<times> (nat \<Rightarrow> Inode)" where
  "clients s = (tc s, bt s, pac s, dio s, inodeMem s)"

lemma clients_simps [simp]:
  "clients (s\<lparr>sc := C\<rparr>) = clients s" "clients (s\<lparr>flash := f\<rparr>) = clients s" "clients (s\<lparr>sb := B\<rparr>) = clients s"
  "clients (s\<lparr>mram := m\<rparr>) = clients s" "clients (s\<lparr>jr := j\<rparr>) = clients s" "clients (s\<lparr>lasterr := r\<rparr>) = clients s"
  "clients (log_event E e s) = clients s"
  using log_event_form [of E e s] by (auto simp: clients_def)

definition states_set ::
  "'f env \<Rightarrow> SummaryEntry \<Rightarrow> (AreaPos \<times> PageOffs) set \<Rightarrow> 'f dev \<Rightarrow> 'f dev \<Rightarrow> bool" where
  "states_set E v P s t \<longleftrightarrow>
     cache_ok E (sc t) \<and> sb t = sb s \<and> readOnly t = readOnly s \<and> clients t = clients s \<and> mTranslation (sc t) = mTranslation (sc s) \<and>
     (\<forall>area page. existsSummaryElem (sc s) area \<longrightarrow>
        page_status E (sc t) area page = (if (area, page) \<in> P then v else page_status E (sc s) area page))"

lemma states_set_exists:
  "states_set E v P s t \<Longrightarrow> existsSummaryElem (sc t) = existsSummaryElem (sc s)"
  by (simp add: states_set_def existsSummaryElem_def fun_eq_iff)

lemma states_set_refl:
  "cache_ok E (sc s) \<Longrightarrow> states_set E v {} s s"
  by (simp add: states_set_def)

lemma states_set_trans:
  "states_set E v P s t \<Longrightarrow> states_set E v Q t u \<Longrightarrow> states_set E v (P \<union> Q) s u"
  using states_set_exists [of E v P s t] by (auto simp: states_set_def)

lemma writeAreasummary_slot:
  assumes "run_state (writeAreasummary E e) s = ((r, e'), t)"
  shows "sb t = sb s \<and> sc t = sc s \<and> readOnly t = readOnly s \<and> clients t = clients s \<and> slot_change E e e' \<and> mEntries e' = mEntries e"
proof -
  have "keeps (\<lambda>u. sb u = sb s \<and> sc u = sc s \<and> readOnly u = readOnly s \<and> clients u = clients s) (writeAreasummary E e)"
    unfolding writeAreasummary_def by (intro keeps_intros) (auto simp: ev_frame_def)
  moreover have "slot_change E e e' \<and> mEntries e' = mEntries e"
    using assms by (auto simp: writeAreasummary_def slot_change_def split_beta Let_def split: if_splits)
  ultimately show ?thesis using keepsD [OF _ _ assms] by auto
qed

lemma states_set_upd:
  assumes "cache_ok E (sc s)" and "existsSummaryElem (sc s) area" and "page < dataPagesPerArea E"
    and "sc t = upd_elem area (elem_setStatus (dataPagesPerArea E) page v) (sc s)"
    and "sb t = sb s" and "readOnly t = readOnly s" and "clients t = clients s"
  shows "states_set E v {(area, page)} s t"
proof -
  let ?f = "elem_setStatus (dataPagesPerArea E) page v"
  have "cache_ok E (upd_elem area ?f (sc s))"
    by (rule upd_elem_ok [OF assms(1)]) (rule slot_change_setStatus)
  moreover have "elem_getStatus (dataPagesPerArea E) q (area_elem (upd_elem area ?f (sc s)) a) =
      (if a = area \<and> q = page then v else elem_getStatus (dataPagesPerArea E) q (area_elem (sc s) a))"
    if "existsSummaryElem (sc s) a" for a q
    using upd_elem_area [OF assms(1,2) that, of ?f] cached_slot [OF assms(1,2)] assms(3)
    by (simp add: elem_getStatus_setStatus slot_filled_def area_elem_def)
  ultimately show ?thesis using assms(4-7) by (simp add: states_set_def page_status_def)
qed

lemma states_set_slot:
  assumes "cache_ok E (sc s)" and "existsSummaryElem (sc s) area"
    and "slot_change E (area_elem (sc s) area) e" and "mEntries e = mEntries (area_elem (sc s) area)"
    and "sc t = upd_elem area (\<lambda>_. e) (sc s)" and "sb t = sb s" and "readOnly t = readOnly s" and "clients t = clients s"
  shows "states_set E v {} s t"
proof -
  have "cache_ok E (upd_elem area (\<lambda>_. e) (sc s))" by (rule upd_elem_ok [OF assms(1,3)])
  moreover have "elem_getStatus N q (area_elem (upd_elem area (\<lambda>_. e) (sc s)) a) = elem_getStatus N q (area_elem (sc s) a)"
    if "existsSummaryElem (sc s) a" for N a q
    using upd_elem_area [OF assms(1,2) that, of "\<lambda>_. e"] assms(3,4)
    by (simp add: elem_getStatus_def slot_change_def)
  ultimately show ?thesis using assms(5-8) by (simp add: states_set_def page_status_def)
qed

lemma states_set_same: "cache_ok E (sc s) \<Longrightarrow> sc t = sc s \<Longrightarrow> sb t = sb s \<Longrightarrow> readOnly t = readOnly s \<Longrightarrow> clients t = clients s \<Longrightarrow> states_set E v {} s t"
  by (simp add: states_set_def)

lemma after_dirty_states:
  assumes "cache_ok E (sc s)" and "existsSummaryElem (sc s) area"
    and "run_state (after_dirty E area page) s = (r, t)"
  shows "states_set E v {} s t"
proof -
  define m where "m = whenM (writeVerifyAS E) (do {
       p \<leftarrow> gets (\<lambda>s. getPageNumber E (sb s) (combineAddress area page));
       _ \<leftarrow> writePage E p (replicate (dataBytesPerPage E) 0xFF @ replicate (oobBytesPerPage E) 0);
       ret ()
     })"
  obtain u where m: "run_state m s = ((), u)" by (cases "run_state m s") simp
  have "keeps (\<lambda>u. sb u = sb s \<and> sc u = sc s \<and> readOnly u = readOnly s \<and> clients u = clients s) m"
    unfolding m_def by (intro keeps_intros) auto
  from keepsD [OF this _ m] have u: "sb u = sb s" "sc u = sc s" "readOnly u = readOnly s" "clients u = clients s" by simp_all
  have run: "run_state (do { m; C \<leftarrow> gets sc;
     let pos = getSummaryElemPos C area;
     if verifyAS E \<and> countDirtyPages E C pos \<noteq> getDirtyPages (area_elem C area) then ret R_fail
     else if getDirtyPages (area_elem C area) = dataPagesPerArea E
             \<and> \<not> isAreaSummaryWritten (area_elem C area)
     then do {
       (r, e) \<leftarrow> writeAreasummary E (area_elem C area);
       set_sc (upd_elem area (\<lambda>_. e));
       ret r
     }
     else ret R_ok }) s = (r, t)"
    using assms(3) by (simp add: after_dirty_def m_def)
  obtain r' e w where w: "run_state (writeAreasummary E (area_elem (sc s) area)) u = ((r', e), w)"
    by (metis surj_pair)
  have "t = u \<or> t = w\<lparr>sc := upd_elem area (\<lambda>_. e) (sc w)\<rparr>"
    using run w by (auto simp: m u Let_def split: if_splits)
  then show ?thesis
    using states_set_slot [OF assms(1,2), of e t v] writeAreasummary_slot [OF w] u
      states_set_same [OF assms(1), of t v] by auto
qed

lemma setPageStatus_states:
  assumes ok: "cache_ok E (sc s)" and cached: "existsSummaryElem (sc s) area" and "area \<noteq> 0"
    and page: "page < dataPagesPerArea E" and ro: "\<not> readOnly s" and ty: "getType E (sb s) area \<noteq> T_unset"
    and run: "run_state (setPageStatus E area page v) s = (r, t)"
  shows "states_set E v {(area, page)} s t"
proof -
  let ?N = "dataPagesPerArea E"
  define u where "u = (log_event E (SummarySetStatus area page v) s)
      \<lparr>sc := upd_elem area (elem_setStatus ?N page v) (sc s)\<rparr>"
  have u: "states_set E v {(area, page)} s u"
    by (rule states_set_upd [OF ok cached page]) (simp_all add: u_def)
  have old: "elem_getStatus ?N page (area_elem (sc s) area) = v \<Longrightarrow> states_set E v {(area, page)} s s"
    using ok by (simp add: states_set_def page_status_def)
  have "t = s \<and> elem_getStatus ?N page (area_elem (sc s) area) = v \<or> t = u
      \<or> run_state (after_dirty E area page) u = (r, t)"
    using run assms(2-6) by (auto simp: setPageStatus_def u_def Let_def split: if_splits)
  then show ?thesis
  proof (elim disjE)
    assume "run_state (after_dirty E area page) u = (r, t)"
    moreover have "cache_ok E (sc u)" "existsSummaryElem (sc u) area"
      using u cached states_set_exists [OF u] by (simp_all add: states_set_def)
    ultimately have "states_set E v {} u t" by (rule after_dirty_states [rotated 2])
    then show ?thesis using states_set_trans [OF u] by fastforce
  qed (use u old in auto)
qed

end
