(* ===== verification/FlashFrames.thy ===== *)
theory FlashFrames
  imports AreaProperties SuperChainFacts SummaryStatus
begin

text \<open>
  Where the pages of the areas lie, and that writing the summary of an area touches no page of data.
\<close>

subsection \<open>Places\<close>

lemma page_number_form:
  assumes "pos_ok E B" and "extractLogicalArea x < areasNo E" and "extractPageOffs x < totalPagesPerArea E"
  shows "getPageNumber E B x = getPos E B (extractLogicalArea x) * totalPagesPerArea E + extractPageOffs x"
proof -
  let ?p = "a_position (mMap B ! extractLogicalArea x)"
  have "Suc ?p \<le> areasNo E" using pos_ok_range [OF assms(1,2)] by simp
  then have "Suc ?p * totalPagesPerArea E \<le> areasNo E * totalPagesPerArea E" by (rule mult_le_mono1)
  then have "?p * totalPagesPerArea E + extractPageOffs x \<le> areasNo E * totalPagesPerArea E" using assms(3) by simp
  then show ?thesis using assms by (simp add: getPageNumber_def getPos_def Let_def)
qed

lemma getPageNumber_getPos: "getPos E B = getPos E C \<Longrightarrow> getPageNumber E B = getPageNumber E C"
  by (simp add: getPageNumber_def fun_eq_iff)

lemma getPos_upd [simp]:
  assumes "\<And>r. a_position (f r) = a_position r"
  shows "getPos E (upd_area a f B) = getPos E B"
proof -
  have "a_position (mMap (upd_area a f B) ! i) = a_position (mMap B ! i)" for i
    using assms by (cases "a < length (mMap B)"; simp add: upd_area_def nth_list_update list_update_beyond)+
  then show ?thesis by (simp add: getPos_def fun_eq_iff)
qed

lemma getPos_fields [simp]:
  "getPos E (B\<lparr>mActiveAreas := A\<rparr>) = getPos E B" "getPos E (B\<lparr>mUsedAreas := n\<rparr>) = getPos E B"
  "getPos E (B\<lparr>mOverallDeletions := n\<rparr>) = getPos E B"
  by (simp_all add: getPos_def fun_eq_iff)

text \<open>The pages of an area lie in its blocks.\<close>

lemma page_block:
  assumes "config_ok E" and "pos_ok E B" and "extractLogicalArea x < areasNo E" and "extractPageOffs x < totalPagesPerArea E"
    and "a < areasNo E" and "getPageNumber E B x div pagesPerBlock E = getPos E B a * blocksPerArea E + i" and "i < blocksPerArea E"
  shows "extractLogicalArea x = a"
proof -
  let ?p = "getPos E B (extractLogicalArea x)"
  have pos: "0 < pagesPerBlock E" "totalPagesPerArea E = blocksPerArea E * pagesPerBlock E"
    using assms(1) by (simp_all add: config_ok_def totalPagesPerArea_def)
  have "getPageNumber E B x = extractPageOffs x + ?p * blocksPerArea E * pagesPerBlock E"
    using page_number_form [OF assms(2-4)] pos(2) by (simp add: mult.assoc)
  then have "getPageNumber E B x div pagesPerBlock E = ?p * blocksPerArea E + extractPageOffs x div pagesPerBlock E"
    using pos(1) by simp
  then have "?p * blocksPerArea E + extractPageOffs x div pagesPerBlock E = getPos E B a * blocksPerArea E + i"
    using assms(6) by (rule trans [OF sym])
  moreover have "extractPageOffs x div pagesPerBlock E < blocksPerArea E"
    using assms(4) by (intro less_mult_imp_div_less) (simp only: pos(2))
  ultimately have "?p = getPos E B a"
    using page_split_unique assms(7) by blast
  then show ?thesis using pos_ok_inj [OF assms(2,3,5)] assms(3,5) by (simp add: getPos_def)
qed

subsection \<open>Pages of data are kept\<close>

definition data_kept :: "'f env \<Rightarrow> ('f \<Rightarrow> PageAbs \<Rightarrow> byte list) \<Rightarrow> 'f dev \<Rightarrow> 'f dev \<Rightarrow> bool" where
  "data_kept E content s t \<longleftrightarrow> (\<forall>a. extractLogicalArea a < areasNo E \<longrightarrow> extractPageOffs a < dataPagesPerArea E \<longrightarrow>
     content (flash t) (getPageNumber E (sb s) a) = content (flash s) (getPageNumber E (sb s) a))"

lemma data_kept_flash: "flash t = flash s \<Longrightarrow> data_kept E content s t"
  by (simp add: data_kept_def)

lemma data_kept_trans: "data_kept E content s t \<Longrightarrow> data_kept E content t u \<Longrightarrow> sb t = sb s \<Longrightarrow> data_kept E content s u"
  by (simp add: data_kept_def)

lemma config_sizes:
  assumes "config_ok E"
  shows "dataPagesPerArea E < totalPagesPerArea E" "totalPagesPerArea E < 2 ^ 16" "areasNo E < 2 ^ 16"
    "(if areaSummaryIsPacked E then areaSummarySizePacked E else areaSummarySizeUnpacked E) \<le> dataBytesPerPage E"
proof -
  show "totalPagesPerArea E < 2 ^ 16" using assms by (simp add: config_ok_def)
  have "areasNo E \<le> blocksTotal E" by (simp add: areasNo_def)
  then show "areasNo E < 2 ^ 16" using assms by (simp add: config_ok_def)
  have "0 < totalPagesPerArea E" "0 < dataBytesPerPage E" using assms by (simp_all add: config_ok_def totalPagesPerArea_def)
  then have "0 < oobPagesPerArea E" by (simp add: oobPagesPerArea_def ceil_div_def div_greater_zero_iff)
  then show "dataPagesPerArea E < totalPagesPerArea E" using \<open>0 < totalPagesPerArea E\<close> by (simp add: dataPagesPerArea_def)
  have "ceil_div (dataPagesPerArea E) 4 \<le> 2 * ceil_div (dataPagesPerArea E) 8" by (simp add: ceil_div_def)
  then show "(if areaSummaryIsPacked E then areaSummarySizePacked E else areaSummarySizeUnpacked E) \<le> dataBytesPerPage E"
    using assms by (auto simp: config_ok_def areaSummaryIsPacked_def areaSummarySizePacked_def areaSummarySizeUnpacked_def)
qed

lemma summary_page_apart:
  assumes "config_ok E" and "pos_ok E B" and "A < areasNo E"
    and "extractLogicalArea a < areasNo E" and "extractPageOffs a < dataPagesPerArea E"
  shows "getPageNumber E B a \<noteq> summary_page E B A"
proof
  note c = config_sizes [OF assms(1)]
  let ?b = "combineAddress A (dataPagesPerArea E)"
  have b: "extractLogicalArea ?b = A" "extractPageOffs ?b = dataPagesPerArea E" using c(1-3) assms(3) by simp_all
  assume "getPageNumber E B a = summary_page E B A"
  then have "a = ?b" using page_number_unique [OF assms(2,4), of ?b] b c(1) assms(3,5) by (simp add: summary_page_def)
  then show False using assms(5) b by simp
qed

lemma writeAreasummary_data:
  assumes ok: "flash_ok E content" "config_ok E" "\<not> verifyAS E" "pos_ok E B" and same: "getPageNumber E (sb s) = getPageNumber E B"
    and A: "getArea e < areasNo E" and run: "run_state (writeAreasummary E e) s = (x, t)"
  shows "data_kept E content s t"
proof -
  define n where "n = (if areaSummaryIsPacked E then areaSummarySizePacked E else areaSummarySizeUnpacked E)"
  define bs where "bs = 0 # take (n - 1) (if areaSummaryIsPacked E then packed_summary E e else mEntries e)"
  have "0 < n" "n \<le> dataBytesPerPage E"
    using config_sizes(4) [OF ok(2)] by (simp_all add: n_def areaSummarySizePacked_def areaSummarySizeUnpacked_def)
  moreover have "length bs \<le> 1 + (n - 1)" unfolding bs_def by (simp del: min_def)
  ultimately have "length bs \<le> totalBytesPerPage E" by (simp add: totalBytesPerPage_def)
  then obtain f tail where wr: "run_state (writePage E (summary_page E (sb s) (getArea e)) bs) s = (R_ok, s\<lparr>flash := f\<rparr>)"
    "content f = (content (flash s))(summary_page E (sb s) (getArea e) := bs @ tail)"
    using run_writePage [OF ok(1)] by metis
  have "flash t = flash s \<or> flash t = f"
  proof -
    have "flash (log_event E c u) = flash u" for c and u :: "'a dev" using log_event_form [of E c u] by auto
    then show ?thesis
      using run wr(1) [unfolded bs_def n_def] ok(3)
      by (auto simp: writeAreasummary_def Let_def split: if_splits)
  qed
  then show ?thesis
  proof
    assume "flash t = f"
    then show ?thesis using wr(2) summary_page_apart [OF ok(2,4) A] by (auto simp: data_kept_def summary_page_def same)
  qed (rule data_kept_flash)
qed

end
