(* ===== verification/GcData.thy ===== *)
theory GcData
  imports FlashFrames
begin

text \<open>
  A garbage collection and the pages that are in use: on a flash that reads, writes and erases, every page
  that its summary calls used has the same contents before and after, wherever it was moved to.
\<close>

subsection \<open>Reading leaves the device as it is\<close>

lemmas keeps_flow = keeps_return keeps_bind keeps_gets keeps_if keeps_whenM keeps_case_option keeps_case_sum
  keeps_case_prod keeps_Let keeps_for_each keeps_loopM

lemma keeps_read: "flash_ok E content \<Longrightarrow> n \<le> totalBytesPerPage E \<Longrightarrow> keeps I (readPage E p n)"
  by (simp add: keeps_def run_readPage)

lemma keeps_readAreasummary_any:
  assumes "flash_ok E content" and "config_ok E"
  shows "keeps I (readAreasummary E a l)"
proof -
  have "(if areaSummaryIsPacked E then areaSummarySizePacked E else areaSummarySizeUnpacked E) \<le> totalBytesPerPage E"
    using config_sizes(4) [OF assms(2)] by (simp add: totalBytesPerPage_def)
  then show ?thesis
    unfolding readAreasummary_def read_packed_page_def
    by (intro keeps_flow keeps_read [OF assms(1)]) simp_all
qed

lemma run_getSummaryStatus:
  assumes "flash_ok E content" and "config_ok E"
  shows "\<exists>r l. run_state (getSummaryStatus E a) s = ((r, l), s)"
proof -
  have "keeps (\<lambda>t. t = s) (getSummaryStatus E a)"
    unfolding getSummaryStatus_def by (intro keeps_flow keeps_readAreasummary_any [OF assms])
  then show ?thesis using keeps_snd [of "\<lambda>t. t = s"] by (metis surj_pair snd_conv)
qed

text \<open>What the device reads of a page in the summary of its area.\<close>

definition reported_used :: "'f env \<Rightarrow> 'f dev \<Rightarrow> Addr \<Rightarrow> bool" where
  "reported_used E s x \<longleftrightarrow>
     (case fst (run_state (getSummaryStatus E (extractLogicalArea x)) s) of
        (r, l) \<Rightarrow> r = R_ok \<longrightarrow> l ! extractPageOffs x = SE_used)"

subsection \<open>The choice\<close>

definition choice_read :: "'f env \<Rightarrow> 'f dev \<Rightarrow> gc_choice \<Rightarrow> bool" where
  "choice_read E s c \<longleftrightarrow> favourite_area c \<noteq> 0 \<longrightarrow> gc_target E (sb s) (favourite_area c) \<and>
     fst (run_state (getSummaryStatus E (favourite_area c)) s) = (R_ok, summaryOut c) \<and>
     (\<not> containsValid c \<longrightarrow> (\<forall>i<dataPagesPerArea E. summaryOut c ! i \<noteq> SE_used))"

lemma count_entries_none: "count_entries E v l = 0 \<Longrightarrow> i < dataPagesPerArea E \<Longrightarrow> l ! i \<noteq> v"
  by (auto simp: count_entries_def count_upto_def filter_empty_conv)

lemma count_entries_all:
  assumes "count_entries E v l = dataPagesPerArea E" and "i < dataPagesPerArea E"
  shows "l ! i = v"
proof (rule ccontr)
  assume "l ! i \<noteq> v"
  then have "length (filter (\<lambda>i. l ! i = v) [0 ..< dataPagesPerArea E]) < length [0 ..< dataPagesPerArea E]"
    using assms(2) by (intro length_filter_less [of i]) simp_all
  then show False using assms(1) by (simp add: count_entries_def count_upto_def)
qed

lemma consider_area_read:
  assumes ok: "flash_ok E content" "config_ok E" and c: "choice_read E s c" and i: "i < areasNo E"
  shows "\<exists>y. run_state (consider_area E target i c) s = (y, s) \<and> choice_read E s (case y of Inl c \<Rightarrow> c | Inr c \<Rightarrow> c)"
proof (cases "getStatus E (sb s) i \<noteq> S_active \<and> (getType E (sb s) i = T_data \<or> getType E (sb s) i = T_index)")
  case True
  then have tgt: "gc_target E (sb s) i" using i by (simp add: gc_target_def getStatus_stat getType_ty)
  obtain r l where run: "run_state (getSummaryStatus E i) s = ((r, l), s)" using run_getSummaryStatus [OF ok] by blast
  have new: "choice_read E s (c\<lparr>favourite_area := i, favDirtyPages := d, containsValid := count_entries E SE_used l > 0, favErases := e, summaryOut := l\<rparr>)"
    "choice_read E s (c\<lparr>favourite_area := i, favDirtyPages := d, containsValid := count_entries E SE_used l > 0, summaryOut := l\<rparr>)"
    if "r = R_ok" for d e
    using tgt run that count_entries_none [of E SE_used l] by (simp_all add: choice_read_def)
  have all: "choice_read E s (c\<lparr>favourite_area := i, containsValid := False, summaryOut := l\<rparr>)"
    if "r = R_ok" "count_entries E SE_dirty l = dataPagesPerArea E"
    using tgt run that count_entries_all [of E SE_dirty l] by (simp add: choice_read_def)
  have none: "choice_read E s (c\<lparr>favourite_area := 0\<rparr>)" by (simp add: choice_read_def)
  show ?thesis
    using c none new all True by (simp add: consider_area_def run countDirtyAndUsedPages_def)
next
  case False
  then show ?thesis using c by (auto simp: consider_area_def)
qed

lemma findNextBestArea_read:
  assumes ok: "flash_ok E content" "config_ok E"
  shows "\<exists>c. run_state (findNextBestArea E target) s = (c, s) \<and> choice_read E s c"
proof -
  have "wp (loopM [0 ..< areasNo E] (no_choice E) (consider_area E target))
     (sum_post (\<lambda>c u. choice_read E s c \<and> u = s) (\<lambda>c u. choice_read E s c \<and> u = s)) s"
  proof (rule wp_loopM)
    fix i c u assume "i \<in> set [0 ..< areasNo E]" and c: "choice_read E s c \<and> u = s"
    then obtain y where "run_state (consider_area E target i c) u = (y, s)" "choice_read E s (case y of Inl c \<Rightarrow> c | Inr c \<Rightarrow> c)"
      using consider_area_read [OF ok, of s c i target] by auto
    then show "wp (consider_area E target i c)
        (sum_post (\<lambda>c u. choice_read E s c \<and> u = s) (\<lambda>c u. choice_read E s c \<and> u = s)) u"
      by (auto simp: wp_def sum_post_def split: sum.splits)
  qed (simp add: choice_read_def no_choice_def)
  then show ?thesis by (auto simp: findNextBestArea_def wp_def sum_post_def split: prod.splits sum.splits)
qed

subsection \<open>Pages that stay as they are\<close>

text \<open>
  The areas keep the places they have in \<open>B\<close>, and the pages \<open>X\<close> keep their contents \<open>g\<close>. The cached summaries
  are those of areas of the device.
\<close>

definition slots_in :: "'f env \<Rightarrow> summary_cache \<Rightarrow> bool" where
  "slots_in E C \<longleftrightarrow> length (mSummaryCache C) = areaSummaryCacheSize E \<and> (\<forall>e\<in>set (mSummaryCache C). getArea e < areasNo E)"

definition holds_data ::
  "'f env \<Rightarrow> ('f \<Rightarrow> PageAbs \<Rightarrow> byte list) \<Rightarrow> superblock \<Rightarrow> Addr set \<Rightarrow> (Addr \<Rightarrow> byte list) \<Rightarrow> 'f dev \<Rightarrow> bool" where
  "holds_data E content B X g s \<longleftrightarrow> getPos E (sb s) = getPos E B \<and> getActiveArea (sb s) T_garbageBuffer < areasNo E \<and>
     slots_in E (sc s) \<and> (\<forall>x\<in>X. content (flash s) (getPageNumber E B x) = g x)"

definition data_addrs :: "'f env \<Rightarrow> Addr set \<Rightarrow> bool" where
  "data_addrs E X \<longleftrightarrow> (\<forall>x\<in>X. extractLogicalArea x < areasNo E \<and> extractPageOffs x < dataPagesPerArea E)"

lemma getArea_simps [simp]:
  "getArea (setDirty b e) = getArea e" "getArea (setAreaSummaryWritten b e) = getArea e"
  "getArea (setDirtyPages n e) = getArea e" "getArea (e\<lparr>mEntries := l\<rparr>) = getArea e" "getArea (elem_clear N e) = 0"
  "getArea (elem_setStatus N i v e) = getArea e" "getArea (setArea a e) = (if isUsed e then getArea e else a)"
  "getArea (new_elem N) = 0"
  by (simp_all add: getArea_def elem_clear_def setArea_def new_elem_def) (simp_all add: setDirty_def setAreaSummaryWritten_def setDirtyPages_def isUsed_def setUsed_def)

lemma getArea_pack [simp]: "getArea (pack_elem E l e) = getArea e"
proof -
  have "getArea (fold (\<lambda>i. elem_setStatus (dataPagesPerArea E) i (l ! i)) is e) = getArea e" for "is"
    by (induction "is" arbitrary: e) simp_all
  then show ?thesis by (simp add: pack_elem_def)
qed

lemma slots_in_upd:
  assumes "slots_in E C" and "\<And>e. getArea e < areasNo E \<Longrightarrow> getArea (f e) < areasNo E"
  shows "slots_in E (upd_slot p f C)" and "slots_in E (upd_elem a f C)"
proof -
  have "slots_in E (upd_slot p f C)" for p
    using assms by (cases "p < length (mSummaryCache C)")
      (auto simp: slots_in_def upd_slot_def list_update_beyond dest!: set_update_subset_insert [THEN subsetD])
  then show "slots_in E (upd_slot p f C)" "slots_in E (upd_elem a f C)" by (simp_all add: upd_elem_def)
qed

lemma slots_in_trans [simp]: "slots_in E (C\<lparr>mTranslation := T\<rparr>) = slots_in E C"
  by (simp add: slots_in_def)

lemma slots_in_steps:
  assumes "slots_in E C" and "0 < areasNo E"
  shows "slots_in E (removeSummaryElem E a C)" and "b < areasNo E \<Longrightarrow> slots_in E (enableSummaryElem p b C)"
    and "slots_in E (packStatusArray E p l C)"
proof -
  show "slots_in E (removeSummaryElem E a C)" using assms by (simp add: removeSummaryElem_def slots_in_upd)
  show "b < areasNo E \<Longrightarrow> slots_in E (enableSummaryElem p b C)"
    unfolding enableSummaryElem_def by (rule slots_in_upd) (use assms in simp_all)
  show "slots_in E (packStatusArray E p l C)" unfolding packStatusArray_def by (rule slots_in_upd) (use assms in simp_all)
qed

lemma holds_frame:
  assumes "holds_data E content B X g s"
  shows "slots_in E C \<Longrightarrow> holds_data E content B X g (s\<lparr>sc := C\<rparr>)"
    and "getPos E B' = getPos E (sb s) \<Longrightarrow> getActiveArea B' T_garbageBuffer < areasNo E \<Longrightarrow> holds_data E content B X g (s\<lparr>sb := B'\<rparr>)"
  using assms by (simp_all add: holds_data_def)

lemma holds_ev [simp]: "ev_frame (holds_data E content B X g)"
  by (rule ev_frameI) (simp_all add: holds_data_def)

lemma holds_slots: "holds_data E content B X g s \<Longrightarrow> slots_in E (sc s)"
  by (simp add: holds_data_def)

text \<open>What the second statement may use is what the first one has answered.\<close>

lemma keeps_bind_run:
  assumes "keeps I m" and "\<And>x s t. I s \<Longrightarrow> run_state m s = (x, t) \<Longrightarrow> keeps I (f x)"
  shows "keeps I (State_Monad.bind m f)"
proof (rule keepsI)
  fix s y u assume I: "I s" and run: "run_state (State_Monad.bind m f) s = (y, u)"
  obtain x t where x: "run_state m s = (x, t)" by (metis surj_pair)
  have "I t" by (rule keepsD [OF assms(1) I x])
  moreover have "run_state (f x) t = (y, u)" using run x by simp
  ultimately show "I u" using keepsD [OF assms(2) [OF I x]] by blast
qed

lemma keeps_writeAreasummary_data:
  assumes ok: "flash_ok E content" "config_ok E" "\<not> verifyAS E" "pos_ok E B" and X: "data_addrs E X" and A: "getArea e < areasNo E"
  shows "keeps (holds_data E content B X g) (writeAreasummary E e)"
proof (rule keepsI)
  fix s x t assume I: "holds_data E content B X g s" and run: "run_state (writeAreasummary E e) s = (x, t)"
  have same: "getPageNumber E (sb s) = getPageNumber E B" using I by (intro getPageNumber_getPos) (simp add: holds_data_def)
  obtain r e' where x: "x = (r, e')" by (metis surj_pair)
  have "data_kept E content s t" by (rule writeAreasummary_data [OF ok same A run])
  then show "holds_data E content B X g t"
    using I X writeAreasummary_slot [OF run [unfolded x]] by (simp add: holds_data_def data_kept_def data_addrs_def same)
qed

lemma keeps_commitAndEraseElem_data:
  assumes ok: "flash_ok E content" "config_ok E" "\<not> verifyAS E" "pos_ok E B" and X: "data_addrs E X"
    and p: "p < areaSummaryCacheSize E" and n: "0 < areasNo E"
  shows "keeps (holds_data E content B X g) (commitAndEraseElem E p)"
  unfolding commitAndEraseElem_def
proof (rule keeps_bind_run [OF keeps_gets], rule keeps_if [OF keeps_return])
  fix e s t assume I: "holds_data E content B X g s" and run: "run_state (gets (\<lambda>s. mSummaryCache (sc s) ! p)) s = (e, t)"
  have e: "getArea e < areasNo E" using I run p by (auto simp: holds_data_def slots_in_def)
  show "keeps (holds_data E content B X g) (do {
       (r, e') \<leftarrow> writeAreasummary E e;
       set_sc (upd_slot p (\<lambda>_. e'));
       if r \<noteq> R_ok then ret r
       else do {
         set_sc (removeSummaryElem E (getArea e'));
         ret R_ok
       }
     })"
  proof (rule keeps_bind_run [OF keeps_writeAreasummary_data [OF ok X e]], rule keeps_case_prod)
    fix x s t r e' assume run: "run_state (writeAreasummary E e) s = (x, t)" and x: "x = (r, e')"
    have "getArea e' = getArea e" using writeAreasummary_slot [OF run [unfolded x]] by (simp add: getArea_def slot_change_def)
    then have e': "getArea e' < areasNo E" using e by simp
    show "keeps (holds_data E content B X g) (do {
       set_sc (upd_slot p (\<lambda>_. e'));
       if r \<noteq> R_ok then ret r
       else do {
         set_sc (removeSummaryElem E (getArea e'));
         ret R_ok
       }
     })"
      by (intro keeps_flow keeps_set_sc holds_frame slots_in_upd slots_in_steps holds_slots n) (use e' in simp_all)
  qed
qed

lemma keeps_fill_slot_data:
  assumes "flash_ok E content" and "config_ok E" and "a < areasNo E" and "0 < areasNo E"
  shows "keeps (holds_data E content B X g) (fill_slot E a p)"
  unfolding fill_slot_def
  by (intro keeps_flow keeps_readAreasummary_any [OF assms(1,2)] keeps_set_sc holds_frame slots_in_upd slots_in_steps holds_slots assms(3,4))
    simp_all

lemma keeps_setSummaryStatus_data:
  assumes ok: "flash_ok E content" "config_ok E" "\<not> verifyAS E" "pos_ok E B" and X: "data_addrs E X"
    and a: "a < areasNo E" and n: "0 < areasNo E"
  shows "keeps (holds_data E content B X g) (setSummaryStatus E a l)"
proof -
  let ?H = "holds_data E content B X g"
  have found: "p < areaSummaryCacheSize E" if "find_uncommitted E s = Some p" for s and p
  proof -
    have "case fst (fold (\<lambda>i (fav, maxDirty).
           let e = mSummaryCache (sc s) ! i; tmp = countUnusedPages E (sc s) i
           in if isUsed e \<and> \<not> isAreaSummaryWritten e
                 \<and> getStatus E (sb s) (getArea e) \<noteq> S_active \<and> tmp \<ge> maxDirty
              then (Some i, tmp) else (fav, maxDirty)) is (q, m)) of None \<Rightarrow> True | Some k \<Rightarrow> k < areaSummaryCacheSize E"
      if "\<forall>i\<in>set is. i < areaSummaryCacheSize E" "case q of None \<Rightarrow> True | Some k \<Rightarrow> k < areaSummaryCacheSize E" for "is" q m
      using that by (induction "is" arbitrary: q m) (simp_all add: Let_def)
    from this [of "[0 ..< areaSummaryCacheSize E]" None 0] show ?thesis using that by (simp add: find_uncommitted_def)
  qed
  have clean: "keeps ?H (free_clean_entry E i f)" for i f
    unfolding free_clean_entry_def
    by (intro keeps_flow keeps_set_sc holds_frame slots_in_upd slots_in_steps holds_slots n) simp_all
  have commit: "keeps ?H (do { fav \<leftarrow> gets (find_uncommitted E);
          (case fav of
             Some i \<Rightarrow> do { r \<leftarrow> commitAndEraseElem E i; ret (Inl r) }
           | None \<Rightarrow> ret (Inr ())) })"
    by (rule keeps_bind_run [OF keeps_gets])
      (intro keeps_flow keeps_commitAndEraseElem_data [OF ok X _ n], auto intro: found)
  have "keeps ?H (freeNextBest_nonurgent E)"
    unfolding freeNextBest_nonurgent_def freeNextBest_easy_def by (intro keeps_flow clean commit) 
  then have load: "keeps ?H (loadUnbufferedArea_nonurgent E a)"
    unfolding loadUnbufferedArea_nonurgent_def loadUnbufferedArea_with_def
    by (intro keeps_flow keeps_fill_slot_data [OF ok(1,2) a n])
  have wr: "keeps ?H (do {
                gb \<leftarrow> gets (\<lambda>s. getActiveArea (sb s) T_garbageBuffer);
                _ \<leftarrow> writeAreasummary E
                      (pack_elem E l (setArea gb (new_elem (dataPagesPerArea E))));
                ret (Some R_ok)
              })"
    by (rule keeps_bind_run [OF keeps_gets], intro keeps_flow keeps_writeAreasummary_data [OF ok X])
      (auto simp: holds_data_def new_elem_def isUsed_def)
  show ?thesis
    unfolding setSummaryStatus_def
    by (intro keeps_flow load wr keeps_set_sc holds_frame slots_in_upd slots_in_steps holds_slots n keeps_add_event) simp_all
qed

end
