(* ===== verification/PageStateFacts.thy ===== *)
theory PageStateFacts
  imports SummaryStatus
begin

text \<open>
  What a page state machine does to the states of the pages of a transaction. The three machines
  of a device are instances of one interface: a machine is stored in the state of its owner,
  apart from the superblock and the summary cache.
\<close>

text \<open>An address list is ready when its pages lie in cached areas that are in use.\<close>

definition addr_ready :: "'f env \<Rightarrow> 'f dev \<Rightarrow> Addr \<Rightarrow> bool" where
  "addr_ready E s a \<longleftrightarrow>
     a = 0 \<or> (addr_cached E (sc s) a \<and> getType E (sb s) (extractLogicalArea a) \<noteq> T_unset)"

definition pages_of :: "Addr list \<Rightarrow> (AreaPos \<times> PageOffs) set" where
  "pages_of as = (\<lambda>a. (extractLogicalArea a, extractPageOffs a)) ` {a \<in> set as. a \<noteq> 0}"

lemma pages_of_simps [simp]:
  "pages_of [] = {}"
  "pages_of (a # as) = (if a = 0 then {} else {(extractLogicalArea a, extractPageOffs a)}) \<union> pages_of as"
  by (auto simp: pages_of_def)

lemma addr_ready_states:
  "states_set E v P s t \<Longrightarrow> addr_ready E t a = addr_ready E s a"
  using states_set_exists [of E v P s t] by (simp add: addr_ready_def addr_cached_def states_set_def)

lemma setPageStatus_addr_states:
  assumes "cache_ok E (sc s)" and "\<not> readOnly s" and "addr_ready E s a" and "a \<noteq> 0"
    and "run_state (setPageStatus_addr E a v) s = (r, t)"
  shows "states_set E v (pages_of [a]) s t"
  using setPageStatus_states [OF assms(1), of "extractLogicalArea a" "extractPageOffs a"] assms(2-5)
  by (simp add: setPageStatus_addr_def addr_ready_def addr_cached_def)

lemma dirty_pages_states:
  assumes "cache_ok E (sc s)" and "\<not> readOnly s" and "\<forall>a\<in>set as. addr_ready E s a"
  shows "states_set E SE_dirty (pages_of as) s (snd (run_state (for_each as (dirty_page E)) s))"
  using assms
proof (induction as arbitrary: s)
  case Nil
  then show ?case by (simp add: states_set_refl)
next
  case (Cons a as)
  define u where "u = snd (run_state (dirty_page E a) s)"
  have u: "states_set E SE_dirty (pages_of [a]) s u"
  proof (cases "a = 0")
    case True
    then show ?thesis using Cons.prems(1) by (simp add: u_def dirty_page_def states_set_refl)
  next
    case False
    obtain r t where run: "run_state (setPageStatus_addr E a SE_dirty) s = (r, t)" by (metis surj_pair)
    then have "u = t" using False by (simp add: u_def dirty_page_def)
    then show ?thesis using setPageStatus_addr_states [OF Cons.prems(1,2) _ False run] Cons.prems(3) by simp
  qed
  then have "states_set E SE_dirty (pages_of as) u (snd (run_state (for_each as (dirty_page E)) u))"
    using Cons.prems by (intro Cons.IH) (simp_all add: states_set_def addr_ready_states [OF u])
  from states_set_trans [OF u this] show ?case
    by (simp add: u_def split_beta)
qed

subsection \<open>Replaying the entries of a transaction\<close>

text \<open>The results of the entries are ignored; \<open>None\<close> is a write behind the arrays.\<close>

fun psm_replay :: "'f psm_inst \<Rightarrow> Entry list \<Rightarrow> psm \<Rightarrow> psm option" where
  "psm_replay M [] p = Some p"
| "psm_replay M (e # es) p =
     (case psm_processEntry M e p of None \<Rightarrow> None | Some (r, p') \<Rightarrow> psm_replay M es p')"

definition page_entries :: "'f psm_inst \<Rightarrow> InodeNo \<Rightarrow> (Addr \<times> Addr \<times> nat) list \<Rightarrow> Entry list" where
  "page_entries M ino ps = map (\<lambda>(neu, old, pos).
     if withPosition M then ReplacePagePos (psm_topic M) neu old ino pos
     else ReplacePage (psm_topic M) neu old) ps"

definition replay_machine :: "'f psm_inst \<Rightarrow> Entry list \<Rightarrow> ('f dev, unit) state" where
  "replay_machine M es = for_each es (\<lambda>e. do { _ \<leftarrow> machine_processEntry M e; ret () })"

text \<open>The entries a power cut leaves: those of the pages, and maybe the success.\<close>

definition transaction_log :: "'f psm_inst \<Rightarrow> InodeNo \<Rightarrow> (Addr \<times> Addr \<times> nat) list \<Rightarrow> bool \<Rightarrow> Entry list" where
  "transaction_log M ino ps success =
     page_entries M ino ps @ (if success then [Success (psm_topic M)] else [])"

text \<open>The machine after collecting the pages \<open>ps\<close>.\<close>

definition holds_pages :: "'f psm_inst \<Rightarrow> (Addr \<times> Addr \<times> nat) list \<Rightarrow> psm \<Rightarrow> bool" where
  "holds_pages M ps p \<longleftrightarrow> pageListHWM p = length ps \<and>
     length (newPageList p) = maxPages M \<and> length (oldPageList p) = maxPages M \<and>
     length (psm_position p) = (if withPosition M then maxPages M else 0) \<and>
     take (length ps) (newPageList p) = map fst ps \<and>
     take (length ps) (oldPageList p) = map (\<lambda>x. fst (snd x)) ps \<and>
     (withPosition M \<longrightarrow> take (length ps) (psm_position p) = map (\<lambda>x. snd (snd x)) ps)"

lemma take_Suc_update:
  "n < length xs \<Longrightarrow> take (Suc n) (xs[n := x]) = take n xs @ [x]"
  by (simp add: take_Suc_conv_app_nth)

lemma holds_pages_push:
  assumes "holds_pages M ps p" and "length ps < maxPages M" and "journalState p \<noteq> J_recover"
  shows "\<exists>p'. psm_processEntry M (hd (page_entries M ino [(neu, old, pos)])) p = Some (R_ok, p') \<and>
     holds_pages M (ps @ [(neu, old, pos)]) p' \<and> journalState p' = J_invalid \<and>
     currentInode p' = (if withPosition M \<and> journalState p = J_ok then ino else currentInode p)"
  using assms
  by (cases "journalState p"; cases "withPosition M")
    (simp_all add: psm_processEntry_def page_entries_def push_position_def push_page_def record_page_def
      record_position_def holds_pages_def take_Suc_update)

lemma psm_replay_append:
  "psm_replay M (es @ fs) p = (case psm_replay M es p of None \<Rightarrow> None | Some p' \<Rightarrow> psm_replay M fs p')"
  by (induction es arbitrary: p) (auto split: option.splits)

lemma psm_replay_pages:
  assumes "length ps \<le> maxPages M"
  shows "\<exists>p. psm_replay M (page_entries M ino ps) (psm_clear (maxPages M) (withPosition M)) = Some p \<and>
     holds_pages M ps p \<and> journalState p = (if ps = [] then J_ok else J_invalid) \<and>
     currentInode p = (if withPosition M \<and> ps \<noteq> [] then ino else 0)"
  using assms
proof (induction ps rule: rev_induct)
  case Nil
  then show ?case by (simp add: page_entries_def holds_pages_def psm_clear_def)
next
  case (snoc x ps)
  obtain neu old pos where x: "x = (neu, old, pos)" by (metis surj_pair)
  from snoc obtain p where p: "psm_replay M (page_entries M ino ps) (psm_clear (maxPages M) (withPosition M)) = Some p"
    "holds_pages M ps p" "journalState p = (if ps = [] then J_ok else J_invalid)"
    "currentInode p = (if withPosition M \<and> ps \<noteq> [] then ino else 0)" by auto
  obtain p' where "psm_processEntry M (hd (page_entries M ino [x])) p = Some (R_ok, p')"
    "holds_pages M (ps @ [x]) p'" "journalState p' = J_invalid"
    "currentInode p' = (if withPosition M \<and> journalState p = J_ok then ino else currentInode p)"
    using holds_pages_push [OF p(2), of ino neu old pos] snoc.prems p(3) by (force simp: x split: if_splits)
  moreover have "page_entries M ino (ps @ [x]) = page_entries M ino ps @ [hd (page_entries M ino [x])]"
    by (simp add: page_entries_def)
  ultimately show ?case using p by (auto simp: psm_replay_append split: if_splits)
qed

subsection \<open>A machine in the device\<close>

text \<open>The pages \<open>P\<close> have become dirty, and no other page of a cached area has changed its state.\<close>

definition page_statuses :: "'f env \<Rightarrow> 'f dev \<Rightarrow> (AreaPos \<times> PageOffs) set \<Rightarrow> 'f dev \<Rightarrow> bool" where
  "page_statuses E s P t \<longleftrightarrow> cache_ok E (sc t) \<and> sb t = sb s \<and>
     (\<forall>area page. existsSummaryElem (sc s) area \<longrightarrow>
        page_status E (sc t) area page = (if (area, page) \<in> P then SE_dirty else page_status E (sc s) area page))"

lemma statuses_set:
  "states_set E SE_dirty P s u \<Longrightarrow> sc t = sc u \<Longrightarrow> sb t = sb u \<Longrightarrow> page_statuses E s P t"
  by (simp add: page_statuses_def states_set_def)

locale page_machine =
  fixes E :: "'f env" and M :: "'f psm_inst"
  assumes get_put: "psm_get M (psm_put M f s) = f (psm_get M s)"
    and put_sc: "sc (psm_put M f s) = sc s"
    and put_sb: "sb (psm_put M f s) = sb s"
    and put_ro: "readOnly (psm_put M f s) = readOnly s"
    and get_clients: "clients s = clients t \<Longrightarrow> psm_get M s = psm_get M t"
begin

lemma get_log [simp]: "psm_get M (log_event E e s) = psm_get M s"
  by (rule get_clients) simp

lemma invalidate_statuses:
  assumes "cache_ok E (sc s)" and "\<not> readOnly s"
    and "\<forall>a\<in>set (take (pageListHWM (psm_get M s)) (oldPageList (psm_get M s))). addr_ready E s a"
    and "run_state (invalidateOldPages E M) s = (r, t)"
  shows "r = R_ok \<and> page_statuses E s (pages_of (take (pageListHWM (psm_get M s)) (oldPageList (psm_get M s)))) t \<and>
     psm_get M t = psm_clear (maxPages M) (withPosition M)"
proof -
  let ?old = "take (pageListHWM (psm_get M s)) (oldPageList (psm_get M s))"
  define u where "u = snd (run_state (for_each ?old (dirty_page E)) s)"
  have u: "states_set E SE_dirty (pages_of ?old) s u"
    unfolding u_def by (rule dirty_pages_states [OF assms(1-3)])
  have "r = R_ok \<and> sc t = sc u \<and> sb t = sb u \<and> psm_get M t = psm_clear (maxPages M) (withPosition M)"
    using assms(4)
    by (auto simp: invalidateOldPages_def clear_machine_def Let_def u_def get_put put_sc put_sb
        split: prod.splits if_splits)
  then show ?thesis using statuses_set [OF u, of t] by simp
qed

lemma end_of_log_statuses:
  assumes ok: "cache_ok E (sc s)" "\<not> readOnly s" and p: "holds_pages M ps (psm_get M s)"
    and J: "journalState (psm_get M s) \<noteq> J_ok" "journalState (psm_get M s) = J_invalid \<Longrightarrow> \<not> withPosition M"
    and as: "as = (if journalState (psm_get M s) = J_invalid then map fst ps else map (\<lambda>x. fst (snd x)) ps)"
    and ready: "\<forall>a\<in>set as. addr_ready E s a"
    and run: "run_state (machine_signalEndOfLog E M revert) s = (r, t)"
  shows "r = journalState (psm_get M s) \<and> page_statuses E s (pages_of as) t \<and>
     psm_get M t = psm_clear (maxPages M) (withPosition M)"
proof -
  define u where "u = snd (run_state (for_each as (dirty_page E)) s)"
  have u: "states_set E SE_dirty (pages_of as) s u"
    unfolding u_def by (rule dirty_pages_states [OF ok ready])
  have "r = journalState (psm_get M s) \<and> sc t = sc u \<and> sb t = sb u \<and> psm_get M t = psm_clear (maxPages M) (withPosition M)"
    using run J p
    by (cases "journalState (psm_get M s)")
      (auto simp: machine_signalEndOfLog_def clear_machine_def Let_def u_def get_put put_sc put_sb holds_pages_def as
        split: prod.splits)
  then show ?thesis using statuses_set [OF u, of t] by simp
qed

lemma run_replay_machine:
  assumes "psm_replay M es (psm_get M s) = Some p"
  shows "\<exists>t. run_state (replay_machine M es) s = ((), t) \<and> psm_get M t = p \<and> sc t = sc s \<and> sb t = sb s \<and>
     readOnly t = readOnly s"
  using assms
proof (induction es arbitrary: s)
  case Nil
  then show ?case by (simp add: replay_machine_def)
next
  case (Cons e es)
  then obtain r p' where p': "psm_processEntry M e (psm_get M s) = Some (r, p')" "psm_replay M es p' = Some p"
    by (auto split: option.splits)
  from Cons.IH [of "psm_put M (\<lambda>_. p') s"] p' show ?case
    by (simp add: replay_machine_def machine_processEntry_def get_put put_sc put_sb put_ro)
qed

lemma transaction_atomic:
  assumes ok: "cache_ok E (sc s)" "\<not> readOnly s" and new: "psm_get M s = psm_clear (maxPages M) (withPosition M)"
    and ps: "ps \<noteq> []" "length ps \<le> maxPages M" and pos: "success \<or> \<not> withPosition M"
    and as: "as = (if success then map (\<lambda>x. fst (snd x)) ps else map fst ps)"
    and ready: "\<forall>a\<in>set as. addr_ready E s a"
    and run: "run_state (do { replay_machine M (transaction_log M ino ps success); machine_signalEndOfLog E M revert }) s = (r, t)"
  shows "r = (if success then J_recover else J_invalid) \<and> page_statuses E s (pages_of as) t \<and>
     psm_get M t = psm_clear (maxPages M) (withPosition M)"
proof -
  obtain p where p: "psm_replay M (page_entries M ino ps) (psm_get M s) = Some p" "holds_pages M ps p"
    "journalState p = J_invalid"
    using psm_replay_pages [OF ps(2), of ino] ps(1) by (auto simp: new)
  define q where "q = (if success then p\<lparr>journalState := J_recover\<rparr> else p)"
  have q: "psm_replay M (transaction_log M ino ps success) (psm_get M s) = Some q"
    using p(1,3) by (simp add: transaction_log_def psm_replay_append q_def psm_processEntry_def)
  have J: "journalState q = (if success then J_recover else J_invalid)" "holds_pages M ps q"
    using p(2,3) by (simp_all add: q_def holds_pages_def)
  obtain u where u: "run_state (replay_machine M (transaction_log M ino ps success)) s = ((), u)"
    "psm_get M u = q" "sc u = sc s" "sb u = sb s" "readOnly u = readOnly s"
    using run_replay_machine [OF q] by auto
  have "run_state (machine_signalEndOfLog E M revert) u = (r, t)" using run u(1) by simp
  moreover have "\<forall>a\<in>set as. addr_ready E u a" using ready u by (simp add: addr_ready_def)
  ultimately have "r = journalState q \<and> page_statuses E u (pages_of as) t \<and>
      psm_get M t = psm_clear (maxPages M) (withPosition M)"
    using end_of_log_statuses [of u ps as revert r t] ok u J pos as by (simp split: if_splits)
  then show ?thesis using u(3,4) J(1) by (simp add: page_statuses_def)
qed

end

text \<open>The three machines of a device.\<close>

lemma machine_laws:
  "psm_get (tree_machine E) s = tree_psm (tc s)" "psm_get (pac_machine E) s = pac_psm (pac s)"
  "psm_get (dio_machine E) s = dio_psm (dio s)"
  by (simp_all add: tree_machine_def pac_machine_def dio_machine_def)

interpretation tree: page_machine E "tree_machine E" for E :: "'f env"
  by unfold_locales (auto simp: tree_machine_def clients_def)

interpretation pacm: page_machine E "pac_machine E" for E :: "'f env"
  by unfold_locales (auto simp: pac_machine_def clients_def)

interpretation diom: page_machine E "dio_machine E" for E :: "'f env"
  by unfold_locales (auto simp: dio_machine_def clients_def)

end
