(* ===== verification/TreeCacheNodes.thy ===== *)
theory TreeCacheNodes
  imports PageStates
begin

text \<open>
  The nodes of \<^verbatim>\<open>src/treeTypes.hpp\<close> and the operations of \<^verbatim>\<open>src/treeCache.cpp\<close> that stay in the
  memory of the tree cache: slots, locks, removal of clean nodes and the consistency check.
  A pointer to a node is its index. Walks over parents or children follow pointers that the
  code never checks for cycles, so they take a bound on their depth; \<open>None\<close> is a walk that leaves it
  or that follows a null pointer.
\<close>

subsection \<open>Nodes\<close>

definition branchOrder :: "'a config_scheme \<Rightarrow> nat" where
  "branchOrder E = (dataBytesPerPage E - 4 - 1 - 1) div (4 + 4)"

definition leafOrder :: "'a config_scheme \<Rightarrow> nat" where
  "leafOrder E = (dataBytesPerPage E - 4 - 1 - 1) div (88 + 4)"

definition zero_inode :: Inode where
  "zero_inode = \<lparr>i_no = 0, i_type = I_file, i_perm = 0, i_reservedPages = 0, i_size = 0, i_crea = 0, i_mod = 0,
     i_direct = replicate directAddrCount 0, i_indir = 0, i_d_indir = 0, i_t_indir = 0\<rparr>"

definition keySlots :: "'a config_scheme \<Rightarrow> nat" where
  "keySlots E = max (branchOrder E - 1) (leafOrder E)"

definition zero_raw :: "'a config_scheme \<Rightarrow> TreeNode" where
  "zero_raw E = \<lparr>n_key = replicate (keySlots E) 0, n_addr = replicate (branchOrder E) 0,
     n_inode = replicate (leafOrder E) zero_inode, n_self = 0, n_isLeaf = False, n_keys = 0\<rparr>"

definition zero_node :: "'a config_scheme \<Rightarrow> TreeCacheNode" where
  "zero_node E = \<lparr>raw = zero_raw E, parent = None, pointers = replicate (branchOrder E) None,
     n_dirty = False, n_locked = False, n_inheritedLock = False\<rparr>"

text \<open>
  The object representation: the union, as long as its longer member, then address, leaf flag
  and number of keys. The bytes of the union that the member in use does not cover are zero.
\<close>

definition leafKeyBytes :: "'a config_scheme \<Rightarrow> nat" where
  "leafKeyBytes E = (4 * leafOrder E + 7) div 8 * 8"

definition unionBytes :: "'a config_scheme \<Rightarrow> nat" where
  "unionBytes E = max ((8 * branchOrder E - 4 + 7) div 8 * 8) (leafKeyBytes E + 88 * leafOrder E)"

definition sizeof_TreeNode :: "'a config_scheme \<Rightarrow> nat" where
  "sizeof_TreeNode E = unionBytes E + 8"

definition union_bytes :: "'a config_scheme \<Rightarrow> TreeNode \<Rightarrow> byte list" where
  "union_bytes E n =
     (if n_isLeaf n
      then concat (map (le_bytes 4) (take (leafOrder E) (n_key n))) @ pad (leafKeyBytes E - 4 * leafOrder E) @
           concat (map inode_bytes (n_inode n))
      else concat (map (le_bytes 4) (take (branchOrder E - 1) (n_key n))) @
           concat (map (\<lambda>a. le_bytes 4 (unat a)) (n_addr n)))"

definition treenode_bytes :: "'a config_scheme \<Rightarrow> TreeNode \<Rightarrow> byte list" where
  "treenode_bytes E n =
     union_bytes E n @ pad (unionBytes E - length (union_bytes E n)) @
     le_bytes 4 (unat (n_self n)) @ le_bytes 1 (if n_isLeaf n then 1 else 0) @ pad 1 @ le_bytes 2 (n_keys n)"

definition padded :: "nat \<Rightarrow> 'a \<Rightarrow> 'a list \<Rightarrow> 'a list" where
  "padded n x xs = xs @ replicate (n - length xs) x"

fun parse_inodes :: "nat \<Rightarrow> byte list \<Rightarrow> Inode list option" where
  "parse_inodes 0 bs = Some []"
| "parse_inodes (Suc n) bs =
     (case parse_inode bs of
        None \<Rightarrow> None
      | Some i \<Rightarrow> map_option (\<lambda>is. i # is) (parse_inodes n (drop 88 bs)))"

text \<open>\<open>None\<close>: an inode of the leaf has a type that the enumeration does not have.\<close>

definition parse_treenode :: "'a config_scheme \<Rightarrow> byte list \<Rightarrow> TreeNode option" where
  "parse_treenode E bs =
     (let u = unionBytes E; lo = leafOrder E; bo = branchOrder E;
          self = of_nat (rd bs u 4); leaf = (rd bs (u + 4) 1 \<noteq> 0); n = rd bs (u + 6) 2
      in if leaf
         then map_option (\<lambda>is. \<lparr>n_key = padded (keySlots E) 0 (map (\<lambda>k. rd bs (4 * k) 4) [0 ..< lo]),
                n_addr = replicate bo 0, n_inode = is, n_self = self, n_isLeaf = True, n_keys = n\<rparr>)
              (parse_inodes lo (drop (leafKeyBytes E) bs))
         else Some \<lparr>n_key = padded (keySlots E) 0 (map (\<lambda>k. rd bs (4 * k) 4) [0 ..< bo - 1]),
                n_addr = map (\<lambda>k. of_nat (rd bs (4 * (bo - 1) + 4 * k) 4)) [0 ..< bo],
                n_inode = replicate lo zero_inode, n_self = self, n_isLeaf = False, n_keys = n\<rparr>)"

subsection \<open>Slots\<close>

definition node :: "tree_cache \<Rightarrow> nat \<Rightarrow> TreeCacheNode" where
  "node T i = mCache T ! i"

definition upd_node :: "nat \<Rightarrow> (TreeCacheNode \<Rightarrow> TreeCacheNode) \<Rightarrow> tree_cache \<Rightarrow> tree_cache" where
  "upd_node i f T = T\<lparr>mCache := (mCache T)[i := f (mCache T ! i)]\<rparr>"

definition upd_raw :: "(TreeNode \<Rightarrow> TreeNode) \<Rightarrow> TreeCacheNode \<Rightarrow> TreeCacheNode" where
  "upd_raw f n = n\<lparr>raw := f (raw n)\<rparr>"

definition setIndexUsed :: "'f env \<Rightarrow> nat \<Rightarrow> tree_cache \<Rightarrow> tree_cache" where
  "setIndexUsed E i T = T\<lparr>mCacheUsage := setBit (treeNodeCacheSize E) i (mCacheUsage T)\<rparr>"

definition setIndexFree :: "'f env \<Rightarrow> nat \<Rightarrow> tree_cache \<Rightarrow> tree_cache" where
  "setIndexFree E i T = T\<lparr>mCacheUsage := resetBit (treeNodeCacheSize E) i (mCacheUsage T)\<rparr>"

definition isIndexUsed :: "'f env \<Rightarrow> tree_cache \<Rightarrow> nat \<Rightarrow> bool" where
  "isIndexUsed E T i = getBit (treeNodeCacheSize E) i (mCacheUsage T)"

text \<open>A search that runs off the end of the bit list finds nothing (see \<open>findFirstFree\<close>).\<close>

definition findFirstFreeIndex :: "'f env \<Rightarrow> tree_cache \<Rightarrow> nat option" where
  "findFirstFreeIndex E T =
     (case findFirstFree (treeNodeCacheSize E) (mCacheUsage T) of
        None \<Rightarrow> None
      | Some i \<Rightarrow> if i = treeNodeCacheSize E then None else Some i)"

definition freeSlots :: "'f env \<Rightarrow> tree_cache \<Rightarrow> nat" where
  "freeSlots E T = treeNodeCacheSize E - countSetBits (treeNodeCacheSize E) (mCacheUsage T)"

definition tree_clear :: "'f env \<Rightarrow> tree_cache \<Rightarrow> tree_cache" where
  "tree_clear E T = T\<lparr>mCache := replicate (treeNodeCacheSize E) (zero_node E),
     mCacheUsage := BitList_clear (treeNodeCacheSize E),
     tree_psm := psm_clear (treeNodeCacheSize E) False, mJournalIsRecovering := False\<rparr>"

definition tree_resetState :: "'f env \<Rightarrow> tree_cache \<Rightarrow> tree_cache" where
  "tree_resetState E T =
     T\<lparr>tree_psm := psm_clear (treeNodeCacheSize E) False, mJournalIsRecovering := False\<rparr>"

definition tryAddNewCacheNode :: "'f env \<Rightarrow> tree_cache \<Rightarrow> (nat \<times> tree_cache) option" where
  "tryAddNewCacheNode E T =
     (case findFirstFreeIndex E T of
        None \<Rightarrow> None
      | Some i \<Rightarrow> Some (i, setIndexUsed E i (upd_node i (\<lambda>_. zero_node E) T)))"

definition setRoot :: "nat \<Rightarrow> tree_cache \<Rightarrow> Result \<times> tree_cache" where
  "setRoot i T = (if parent (node T i) \<noteq> Some i then (R_bug, T) else (R_ok, T\<lparr>mCacheRoot := i\<rparr>))"

subsection \<open>Walking up\<close>

text \<open>The nodes from the parent of \<open>i\<close> to the root; for the root itself, the root.\<close>

fun ancestors :: "nat \<Rightarrow> tree_cache \<Rightarrow> nat \<Rightarrow> nat list option" where
  "ancestors 0 T i = None"
| "ancestors (Suc n) T i =
     (case parent (node T i) of
        None \<Rightarrow> None
      | Some p \<Rightarrow>
          if parent (node T p) = Some p then Some [p]
          else map_option (\<lambda>ps. p # ps) (ancestors n T p))"

definition lockTreeCacheNode :: "'f env \<Rightarrow> nat \<Rightarrow> tree_cache \<Rightarrow> tree_cache" where
  "lockTreeCacheNode E i T =
     (let T1 = upd_node i (\<lambda>n. n\<lparr>n_locked := True\<rparr>) T
      in case ancestors (treeNodeCacheSize E) T1 i of
           None \<Rightarrow> T1
         | Some ps \<Rightarrow> fold (\<lambda>p. upd_node p (\<lambda>n. n\<lparr>n_inheritedLock := True\<rparr>)) ps T1)"

definition children :: "TreeCacheNode \<Rightarrow> nat list" where
  "children n = (if n_isLeaf (raw n) then []
     else List.map_filter (\<lambda>p. p) (take (n_keys (raw n) + 1) (pointers n)))"

definition hasLockedChilds :: "tree_cache \<Rightarrow> nat \<Rightarrow> bool" where
  "hasLockedChilds T i \<longleftrightarrow> (\<exists>c\<in>set (children (node T i)). n_inheritedLock (node T c) \<or> n_locked (node T c))"

fun unlock_path :: "nat list \<Rightarrow> tree_cache \<Rightarrow> tree_cache" where
  "unlock_path [] T = T"
| "unlock_path (p # ps) T =
     (if hasLockedChilds T p then T
      else let T1 = upd_node p (\<lambda>n. n\<lparr>n_inheritedLock := False\<rparr>) T
           in if n_locked (node T1 p) then T1 else unlock_path ps T1)"

definition unlockTreeCacheNode :: "'f env \<Rightarrow> nat \<Rightarrow> tree_cache \<Rightarrow> Result \<times> tree_cache" where
  "unlockTreeCacheNode E i T =
     (let T1 = upd_node i (\<lambda>n. n\<lparr>n_locked := False\<rparr>) T
      in if parent (node T1 i) = None then (R_fail, T1)
         else case ancestors (treeNodeCacheSize E) T1 i of
                None \<Rightarrow> (R_ok, T1)
              | Some ps \<Rightarrow> (R_ok, unlock_path ps T1))"

subsection \<open>Removing clean nodes\<close>

definition hasNoChilds :: "tree_cache \<Rightarrow> nat \<Rightarrow> bool" where
  "hasNoChilds T i \<longleftrightarrow> children (node T i) = []"

text \<open>The first pointer of the parent to the node is cleared. \<open>True\<close>: \<^verbatim>\<open>lasterr\<close> becomes \<open>R_bug\<close>.\<close>

definition deleteFromParent :: "'f env \<Rightarrow> nat \<Rightarrow> tree_cache \<Rightarrow> bool \<times> tree_cache" where
  "deleteFromParent E i T =
     (case parent (node T i) of
        None \<Rightarrow> (True, T)
      | Some p \<Rightarrow>
          (False,
           if p = i \<or> \<not> isIndexUsed E T p then T
           else case List.find (\<lambda>k. pointers (node T p) ! k = Some i) [0 ..< n_keys (raw (node T p)) + 1] of
                  None \<Rightarrow> T
                | Some k \<Rightarrow> upd_node p (\<lambda>n. n\<lparr>pointers := (pointers n)[k := None]\<rparr>) T))"

definition removable :: "TreeCacheNode \<Rightarrow> bool" where
  "removable n \<longleftrightarrow> \<not> n_dirty n \<and> \<not> n_locked n \<and> \<not> n_inheritedLock n"

text \<open>The number of nodes removed, on the path to the root.\<close>

fun deletePathToRoot :: "nat \<Rightarrow> 'f env \<Rightarrow> nat \<Rightarrow> bool \<times> tree_cache \<Rightarrow> nat \<times> bool \<times> tree_cache" where
  "deletePathToRoot 0 E i (bug, T) = (0, bug, T)"
| "deletePathToRoot (Suc n) E i (bug, T) =
     (if \<not> removable (node T i) then (0, bug, T)
      else let (b, T1) = deleteFromParent E i T;
               T2 = setIndexFree E i T1
           in case parent (node T2 i) of
                None \<Rightarrow> (1, True, T2)
              | Some p \<Rightarrow>
                  if p \<noteq> i \<and> hasNoChilds T2 p
                  then let (k, x) = deletePathToRoot n E p (bug \<or> b, T2) in (1 + k, x)
                  else (1, bug \<or> b, T2))"

text \<open>
  Dirtiness is passed on to the parents. The order of the children does not matter for the
  result, since every child is visited.
\<close>

fun resolveDirtyPaths :: "nat \<Rightarrow> 'f env \<Rightarrow> nat \<Rightarrow> tree_cache \<Rightarrow> (bool \<times> tree_cache) option" where
  "resolveDirtyPaths 0 E i T = None"
| "resolveDirtyPaths (Suc n) E i T =
     (if n_isLeaf (raw (node T i)) then Some (n_dirty (node T i), T)
      else map_option (\<lambda>(d, T'). (d \<or> n_dirty (node T' i), T'))
        (fold (\<lambda>c acc. case acc of
             None \<Rightarrow> None
           | Some (d, T) \<Rightarrow>
               if \<not> isIndexUsed E T c then Some (d, T)
               else (case resolveDirtyPaths n E c T of
                   None \<Rightarrow> None
                 | Some (True, T') \<Rightarrow> Some (True, upd_node i (\<lambda>m. m\<lparr>n_dirty := True\<rparr>) T')
                 | Some (False, T') \<Rightarrow> Some (d, T')))
           (children (node T i)) (Some (False, T))))"

end
