(* ===== verification/TreeCacheOps.thy ===== *)
theory TreeCacheOps
  imports TreeCacheNodes
begin

text \<open>
  The operations of \<^verbatim>\<open>src/treeCache.cpp\<close> that read or write the flash: loading nodes, committing the
  tree, and making room for new nodes. The depth of every walk is bounded by the number of
  cached nodes; a walk that leaves the bound (a cycle of pointers) is answered with \<open>R_bug\<close>, where
  the code would not return.
\<close>

definition node_at :: "nat \<Rightarrow> 'f dev \<Rightarrow> TreeCacheNode" where
  "node_at i s = node (tc s) i"

definition set_node :: "nat \<Rightarrow> (TreeCacheNode \<Rightarrow> TreeCacheNode) \<Rightarrow> ('f dev, unit) state" where
  "set_node i f = set_tc (upd_node i f)"

definition walk_bound :: "'f env \<Rightarrow> nat" where
  "walk_bound E = treeNodeCacheSize E + 1"

subsection \<open>The consistency check\<close>

text \<open>
  \<^verbatim>\<open>isSubTreeValid\<close>: the answer and the nodes reached. A bound of 0 is no bound.
\<close>

definition key_in_bounds :: "InodeNo \<Rightarrow> InodeNo \<Rightarrow> InodeNo \<Rightarrow> bool" where
  "key_in_bounds lo hi k \<longleftrightarrow> (lo \<noteq> 0 \<longrightarrow> lo \<le> k) \<and> (hi \<noteq> 0 \<longrightarrow> k < hi)"

definition keys_of :: "TreeCacheNode \<Rightarrow> InodeNo list" where
  "keys_of n = take (n_keys (raw n)) (n_key (raw n))"

definition inodes_of :: "TreeCacheNode \<Rightarrow> Inode list" where
  "inodes_of n = take (n_keys (raw n)) (n_inode (raw n))"

definition child_bounds :: "InodeNo list \<Rightarrow> nat \<Rightarrow> InodeNo \<times> InodeNo" where
  "child_bounds ks k = (if k = 0 then 0 else ks ! (k - 1), if k \<ge> length ks then 0 else ks ! k)"

fun isSubTreeValid :: "nat \<Rightarrow> 'f env \<Rightarrow> tree_cache \<Rightarrow> nat \<Rightarrow> InodeNo \<Rightarrow> InodeNo \<Rightarrow> nat list \<Rightarrow> bool \<times> nat list" where
  "isSubTreeValid 0 E T i lo hi reach = (False, reach)"
| "isSubTreeValid (Suc n) E T i lo hi reach =
     (let m = node T i; ks = keys_of m; reach = i # reach
      in if parent m = None \<or> (n_self (raw m) = 0 \<and> \<not> n_dirty m) then (False, reach)
         else if n_isLeaf (raw m)
         then (ks = map i_no (inodes_of m) \<and> sorted ks \<and> list_all (key_in_bounds lo hi) ks, reach)
         else if \<not> (sorted ks \<and> list_all (key_in_bounds lo hi) ks) then (False, reach)
         else fold (\<lambda>k (ok, reach).
             case pointers m ! k of
               None \<Rightarrow> (ok, reach)
             | Some c \<Rightarrow>
                 if \<not> ok then (False, reach)
                 else if c \<ge> treeNodeCacheSize E \<or> parent (node T c) \<noteq> Some i then (False, reach)
                 else isSubTreeValid n E T c (fst (child_bounds ks k)) (snd (child_bounds ks k)) reach)
           [0 ..< length ks + 1] (True, reach))"

text \<open>An unreachable node is allowed if it or an ancestor below the root is locked.\<close>

definition floating_ok :: "'f env \<Rightarrow> tree_cache \<Rightarrow> nat \<Rightarrow> bool" where
  "floating_ok E T i \<longleftrightarrow>
     n_locked (node T i) \<or> n_inheritedLock (node T i) \<or>
     (case ancestors (walk_bound E) T i of
        None \<Rightarrow> False
      | Some ps \<Rightarrow> \<exists>p\<in>set (butlast ps). n_locked (node T p))"

definition isTreeCacheValid :: "'f env \<Rightarrow> tree_cache \<Rightarrow> bool" where
  "isTreeCacheValid E T \<longleftrightarrow>
     \<not> isIndexUsed E T (mCacheRoot T) \<or>
     (case isSubTreeValid (walk_bound E) E T (mCacheRoot T) 0 0 [] of
        (ok, reach) \<Rightarrow> ok \<and> (\<forall>i\<in>set [0 ..< treeNodeCacheSize E].
          (i \<in> set reach \<longrightarrow> isIndexUsed E T i) \<and> (isIndexUsed E T i \<and> i \<notin> set reach \<longrightarrow> floating_ok E T i)))"

subsection \<open>Freeing clean nodes\<close>

text \<open>The loops: the number of nodes still needed (0 ends the loop) and whether \<^verbatim>\<open>lasterr\<close> was set.\<close>

definition count_down :: "nat \<Rightarrow> nat" where
  "count_down n = (n + 2 ^ 16 - 1) mod 2 ^ 16"

fun free_leaves :: "'f env \<Rightarrow> nat list \<Rightarrow> nat \<times> bool \<times> tree_cache \<Rightarrow> nat \<times> bool \<times> tree_cache" where
  "free_leaves E [] x = x"
| "free_leaves E (i # is) (needed, bug, T) =
     (if isIndexUsed E T i \<and> removable (node T i) \<and> n_isLeaf (raw (node T i))
      then let (b, T1) = deleteFromParent E i T; x = (count_down needed, bug \<or> b, setIndexFree E i T1)
           in if fst x = 0 then x else free_leaves E is x
      else free_leaves E is (needed, bug, T))"

fun free_paths :: "'f env \<Rightarrow> nat list \<Rightarrow> nat \<times> bool \<times> tree_cache \<Rightarrow> nat \<times> bool \<times> tree_cache" where
  "free_paths E [] x = x"
| "free_paths E (i # is) (needed, bug, T) =
     (if isIndexUsed E T i \<and> removable (node T i) \<and> hasNoChilds T i
      then let (cleaned, bug', T1) = deletePathToRoot (walk_bound E) E i (bug, T);
               x = (if cleaned > needed then 0 else needed - cleaned, bug', setIndexFree E i T1)
           in if fst x = 0 then x else free_paths E is x
      else free_paths E is (needed, bug, T))"

definition clean_with ::
  "('f env \<Rightarrow> nat list \<Rightarrow> nat \<times> bool \<times> tree_cache \<Rightarrow> nat \<times> bool \<times> tree_cache) \<Rightarrow>
   'f env \<Rightarrow> nat \<Rightarrow> ('f dev, Result \<times> nat) state" where
  "clean_with free E needed = do {
     set_lasterr R_ok;
     T \<leftarrow> gets tc;
     (case resolveDirtyPaths (walk_bound E) E (mCacheRoot T) T of
        None \<Rightarrow> ret (R_bug, needed)
      | Some (_, T1) \<Rightarrow> do {
          let (needed', bug, T2) = free E [0 ..< treeNodeCacheSize E] (needed, False, T1);
          set_tc (\<lambda>_. T2);
          whenM bug (set_lasterr R_bug);
          ret (R_ok, needed')
        })
   }"

definition cleanFreeLeafNodes :: "'f env \<Rightarrow> nat \<Rightarrow> ('f dev, Result \<times> nat) state" where
  "cleanFreeLeafNodes E needed = clean_with free_leaves E needed"

definition cleanFreeNodes :: "'f env \<Rightarrow> nat \<Rightarrow> ('f dev, Result \<times> nat) state" where
  "cleanFreeNodes E needed = clean_with free_paths E needed"

subsection \<open>Reading and writing a node\<close>

text \<open>The result and, when the page was read, the content of the node.\<close>

definition readTreeNode :: "'f env \<Rightarrow> Addr \<Rightarrow> ('f dev, Result \<times> TreeNode option) state" where
  "readTreeNode E addr = do {
     t \<leftarrow> gets (\<lambda>s. getType E (sb s) (extractLogicalArea addr));
     if t \<noteq> T_index then ret (R_bug, None)
     else do {
       (_, st) \<leftarrow> (if verifyAS E then getPageStatus_addr E addr else ret (R_ok, SE_used));
       if st = SE_free \<or> st = SE_dirty then ret (R_bug, None)
       else do {
         page \<leftarrow> gets (\<lambda>s. getPageNumber E (sb s) addr);
         (r, bs) \<leftarrow> readPage E page (sizeof_TreeNode E);
         if r \<noteq> R_ok \<and> r \<noteq> R_biterrorCorrected then ret (r, None)
         else (case parse_treenode E bs of
             None \<Rightarrow> ret (R_bug, None)
           | Some n \<Rightarrow> ret (if n_self n \<noteq> addr then R_bug else r, Some n))
       }
     }
   }"

definition deleteTreeNode :: "'f env \<Rightarrow> TreeNode \<Rightarrow> ('f dev, Result) state" where
  "deleteTreeNode E n = do {
     ro \<leftarrow> gets readOnly;
     if ro then ret R_bug else replacePage E (tree_machine E) 0 (n_self n)
   }"

definition updateFlashAddressInParent :: "'f env \<Rightarrow> nat \<Rightarrow> ('f dev, Result) state" where
  "updateFlashAddressInParent E i = do {
     T \<leftarrow> gets tc;
     let self = n_self (raw (node T i));
     (case parent (node T i) of
        None \<Rightarrow> ret R_bug
      | Some p \<Rightarrow>
          if p = i then registerRootnode E self
          else (case List.find (\<lambda>k. pointers (node T p) ! k = Some i) [0 ..< n_keys (raw (node T p)) + 1] of
              None \<Rightarrow> ret R_notFound
            | Some k \<Rightarrow> do {
                set_node p (\<lambda>m. (upd_raw (\<lambda>r. r\<lparr>n_addr := (n_addr r)[k := self]\<rparr>) m)\<lparr>n_dirty := True\<rparr>);
                ret R_ok
              }))
   }"

text \<open>The check of the page that the node replaces.\<close>

definition old_page_ok :: "'f env \<Rightarrow> Addr \<Rightarrow> ('f dev, bool) state" where
  "old_page_ok E self =
     (if self = 0 then ret True
      else do {
        (_, st) \<leftarrow> getPageStatus_addr E self;
        recovering \<leftarrow> gets (\<lambda>s. mJournalIsRecovering (tc s));
        ret (\<not> (st = SE_free \<or> (st = SE_dirty \<and> \<not> recovering)))
      })"

text \<open>A failing \<open>replacePage\<close> is only reported.\<close>

definition write_node_to :: "'f env \<Rightarrow> nat \<Rightarrow> Addr \<Rightarrow> ('f dev, Result) state" where
  "write_node_to E i newAddr = do {
     oldSelf \<leftarrow> gets (\<lambda>s. n_self (raw (node_at i s)));
     set_node i (upd_raw (\<lambda>r. r\<lparr>n_self := newAddr\<rparr>));
     _ \<leftarrow> replacePage E (tree_machine E) newAddr oldSelf;
     page \<leftarrow> gets (\<lambda>s. getPageNumber E (sb s) newAddr);
     bs \<leftarrow> gets (\<lambda>s. treenode_bytes E (raw (node_at i s)));
     r \<leftarrow> writePage E page bs;
     if r \<noteq> R_ok then ret r
     else do {
       r \<leftarrow> updateFlashAddressInParent E i;
       if r \<noteq> R_ok then ret r else manageActiveAreaFull E T_index
     }
   }"

definition writeTreeNode :: "'f env \<Rightarrow> nat \<Rightarrow> ('f dev, Result) state" where
  "writeTreeNode E i = do {
     ro \<leftarrow> gets readOnly;
     if ro then ret R_bug
     else do {
       set_lasterr R_ok;
       _ \<leftarrow> findWritableArea E T_index;
       err \<leftarrow> gets lasterr;
       B \<leftarrow> gets sb;
       let area = getActiveArea B T_index;
       if err \<noteq> R_ok then ret err
       else if getStatus E B area \<noteq> S_active then ret R_bug
       else if area = 0 then ret R_bug
       else do {
         self \<leftarrow> gets (\<lambda>s. n_self (raw (node_at i s)));
         ok \<leftarrow> old_page_ok E self;
         if \<not> ok then ret R_bug
         else do {
           area \<leftarrow> gets (\<lambda>s. getActiveArea (sb s) T_index);
           (r, page) \<leftarrow> findFirstFreePage E area;
           if r = R_noSpace then do { set_lasterr R_bug; ret R_bug }
           else do {
             area \<leftarrow> gets (\<lambda>s. getActiveArea (sb s) T_index);
             write_node_to E i (combineAddress area (case page of None \<Rightarrow> 0 | Some p \<Rightarrow> p))
           }
         }
       }
     }
   }"

subsection \<open>Committing the tree\<close>

fun commitNodesRecursively :: "nat \<Rightarrow> 'f env \<Rightarrow> nat \<Rightarrow> ('f dev, Result) state" where
  "commitNodesRecursively 0 E i = ret R_bug"
| "commitNodesRecursively (Suc n) E i = do {
     m \<leftarrow> gets (node_at i);
     if \<not> n_dirty m then ret R_ok
     else do {
       y \<leftarrow> loopM (children m) () (\<lambda>c _. do {
              r \<leftarrow> commitNodesRecursively n E c;
              ret (if r \<noteq> R_ok then Inl r else Inr ())
            });
       (case y of
          Inl r \<Rightarrow> ret r
        | Inr _ \<Rightarrow> do {
            r \<leftarrow> writeTreeNode E i;
            if r \<noteq> R_ok then ret r
            else do { set_node i (\<lambda>m. m\<lparr>n_dirty := False\<rparr>); ret R_ok }
          })
     }
   }"

definition commitCache :: "'f env \<Rightarrow> ('f dev, Result) state" where
  "commitCache E = do {
     enabled \<leftarrow> gets isEnabled;
     if \<not> enabled then ret R_bug
     else do {
       set_lasterr R_ok;
       T \<leftarrow> gets tc;
       (case resolveDirtyPaths (walk_bound E) E (mCacheRoot T) T of
          None \<Rightarrow> ret R_bug
        | Some (_, T1) \<Rightarrow> do {
            set_tc (\<lambda>_. T1);
            r \<leftarrow> commitNodesRecursively (walk_bound E) E (mCacheRoot T1);
            if r \<noteq> R_ok then ret r
            else do {
              unreachable \<leftarrow> gets (\<lambda>s. \<exists>i\<in>set [0 ..< treeNodeCacheSize E].
                isIndexUsed E (tc s) i \<and> n_dirty (node (tc s) i));
              if unreachable then ret R_bug
              else do {
                r \<leftarrow> invalidateOldPages E (tree_machine E);
                if r \<noteq> R_ok then ret r
                else do { add_event E (Checkpoint Tp_tree); ret R_ok }
              }
            }
          })
     }
   }"

subsection \<open>Making room\<close>

text \<open>A step of \<open>freeNodes\<close>: \<open>Inl\<close> the final answer, \<open>Inr\<close> the nodes still needed.\<close>

definition clean_step ::
  "('f dev, Result \<times> nat) state \<Rightarrow> ('f dev, Result + nat) state" where
  "clean_step m = do {
     (r, needed) \<leftarrow> m;
     ret (if r \<noteq> R_ok then Inl r else if needed = 0 then Inl R_ok else Inr needed)
   }"

definition clean_both :: "'f env \<Rightarrow> nat \<Rightarrow> ('f dev, Result + nat) state" where
  "clean_both E needed = do {
     y \<leftarrow> clean_step (cleanFreeLeafNodes E needed);
     (case y of Inl r \<Rightarrow> ret (Inl r) | Inr n \<Rightarrow> clean_step (cleanFreeNodes E n))
   }"

definition freeNodes :: "'f env \<Rightarrow> nat \<Rightarrow> ('f dev, Result) state" where
  "freeNodes E needed = do {
     valid \<leftarrow> gets (\<lambda>s. \<not> verifyTC E \<or> isTreeCacheValid E (tc s));
     if \<not> valid then ret R_bug
     else if needed > treeNodeCacheSize E then ret R_bug
     else do {
       y \<leftarrow> clean_both E needed;
       (case y of
          Inl r \<Rightarrow> ret r
        | Inr n \<Rightarrow> do {
            r \<leftarrow> commitCache E;
            if r \<noteq> R_ok then ret r
            else do {
              y \<leftarrow> clean_both E n;
              ret (case y of Inl r \<Rightarrow> r | Inr _ \<Rightarrow> R_lowMem)
            }
          })
     }
   }"

definition reserveNodes :: "'f env \<Rightarrow> nat \<Rightarrow> ('f dev, Result) state" where
  "reserveNodes E needed = do {
     free \<leftarrow> gets (\<lambda>s. freeSlots E (tc s));
     if free \<ge> needed then ret R_ok else freeNodes E (needed - free)
   }"

definition try_add :: "'f env \<Rightarrow> ('f dev, nat option) state" where
  "try_add E = do {
     T \<leftarrow> gets tc;
     (case tryAddNewCacheNode E T of
        None \<Rightarrow> ret None
      | Some (i, T') \<Rightarrow> do { set_tc (\<lambda>_. T'); ret (Some i) })
   }"

definition addNewCacheNode :: "'f env \<Rightarrow> ('f dev, Result + nat) state" where
  "addNewCacheNode E = do {
     i \<leftarrow> try_add E;
     (case i of
        Some i \<Rightarrow> ret (Inr i)
      | None \<Rightarrow> do {
          valid \<leftarrow> gets (\<lambda>s. \<not> verifyTC E \<or> isTreeCacheValid E (tc s));
          if \<not> valid then ret (Inl R_bug)
          else do {
            r \<leftarrow> freeNodes E 1;
            if r \<noteq> R_ok then ret (Inl r)
            else do {
              i \<leftarrow> try_add E;
              ret (case i of None \<Rightarrow> Inl R_lowMem | Some i \<Rightarrow> Inr i)
            }
          }
        })
   }"

subsection \<open>Access\<close>

text \<open>A node that could not be read stays in the cache as it was created.\<close>

definition fill_node :: "'f env \<Rightarrow> nat \<Rightarrow> Addr \<Rightarrow> ('f dev, Result + nat) state" where
  "fill_node E i addr = do {
     (r, n) \<leftarrow> readTreeNode E addr;
     (case n of None \<Rightarrow> ret () | Some x \<Rightarrow> set_node i (upd_raw (\<lambda>_. x)));
     if r = R_biterrorCorrected
     then do { set_node i (\<lambda>m. m\<lparr>n_dirty := True\<rparr>); ret (Inr i) }
     else ret (if r = R_ok then Inr i else Inl r)
   }"

definition getRootNodeFromCache :: "'f env \<Rightarrow> ('f dev, Result + nat) state" where
  "getRootNodeFromCache E = do {
     T \<leftarrow> gets tc;
     if isIndexUsed E T (mCacheRoot T)
     then do {
       set_tc (\<lambda>T. T\<lparr>mCacheHits := (mCacheHits T + 1) mod 2 ^ 16\<rparr>);
       ret (Inr (mCacheRoot T))
     }
     else do {
       set_tc (\<lambda>T. T\<lparr>mCacheMisses := (mCacheMisses T + 1) mod 2 ^ 16\<rparr>);
       addr \<leftarrow> gets (\<lambda>s. getRootnodeAddr (sb s));
       i \<leftarrow> try_add E;
       (case i of
          None \<Rightarrow> ret (Inl R_lowMem)
        | Some i \<Rightarrow> do {
            set_node i (\<lambda>m. m\<lparr>parent := Some i\<rparr>);
            set_tc (\<lambda>T. snd (setRoot i T));
            fill_node E i addr
          })
     }
   }"

definition getTreeNodeAtIndexFrom :: "'f env \<Rightarrow> nat \<Rightarrow> nat \<Rightarrow> ('f dev, Result + nat) state" where
  "getTreeNodeAtIndexFrom E index p = do {
     T \<leftarrow> gets tc;
     if index > branchOrder E then ret (Inl R_bug)
     else if verifyTC E \<and> \<not> isTreeCacheValid E T then ret (Inl R_bug)
     else if n_isLeaf (raw (node T p)) then ret (Inl R_bug)
     else (case pointers (node T p) ! index of
         Some c \<Rightarrow> do {
           set_tc (\<lambda>T. T\<lparr>mCacheHits := (mCacheHits T + 1) mod 2 ^ 16\<rparr>);
           ret (Inr c)
         }
       | None \<Rightarrow> do {
           set_lasterr R_ok;
           let addr = n_addr (raw (node T p)) ! index;
           if addr = 0 then ret (Inl R_invalidInput)
           else do {
             set_tc (\<lambda>T. T\<lparr>mCacheMisses := (mCacheMisses T + 1) mod 2 ^ 16\<rparr>);
             set_tc (lockTreeCacheNode E p);
             y \<leftarrow> addNewCacheNode E;
             set_tc (\<lambda>T. snd (unlockTreeCacheNode E p T));
             (case y of
                Inl r \<Rightarrow> ret (Inl r)
              | Inr i \<Rightarrow> do {
                  set_node i (\<lambda>m. m\<lparr>parent := Some p\<rparr>);
                  set_node p (\<lambda>m. m\<lparr>pointers := (pointers m)[index := Some i]\<rparr>);
                  addr \<leftarrow> gets (\<lambda>s. n_addr (raw (node_at p s)) ! index);
                  fill_node E i addr
                })
           }
         })
   }"

definition removeNode :: "'f env \<Rightarrow> nat \<Rightarrow> ('f dev, Result) state" where
  "removeNode E i = do {
     set_node i (\<lambda>m. m\<lparr>n_dirty := False\<rparr>);
     set_tc (setIndexFree E i);
     n \<leftarrow> gets (\<lambda>s. raw (node_at i s));
     if n_self n \<noteq> 0 then deleteTreeNode E n else ret R_ok
   }"

definition commitIfNodesWereRemoved :: "'f env \<Rightarrow> ('f dev, Result) state" where
  "commitIfNodesWereRemoved E = do {
     left \<leftarrow> gets (\<lambda>s. getMinSpaceLeft (tree_machine E) (tree_psm (tc s)));
     if left = treeNodeCacheSize E then ret R_ok else commitCache E
   }"

text \<open>The first cached leaf, and the length of its path to the root.\<close>

definition tryGetHeight :: "'f env \<Rightarrow> tree_cache \<Rightarrow> nat option" where
  "tryGetHeight E T =
     (case List.find (\<lambda>i. isIndexUsed E T i \<and> n_isLeaf (raw (node T i))) [0 ..< treeNodeCacheSize E] of
        None \<Rightarrow> None
      | Some i \<Rightarrow>
          if parent (node T i) = Some i then Some 0
          else map_option length (ancestors (walk_bound E) T i))"

subsection \<open>Replay\<close>

definition tree_cache_signalEndOfLog :: "'f env \<Rightarrow> ('f dev, unit) state" where
  "tree_cache_signalEndOfLog E = do {
     r \<leftarrow> machine_signalEndOfLog E (tree_machine E) (\<lambda>_ _. ret ());
     if r = J_invalid
     then do {
       set_tc (\<lambda>T. T\<lparr>mJournalIsRecovering := True\<rparr>);
       set_tc (\<lambda>T. fold (\<lambda>i T. if isIndexUsed E T i then upd_node i (\<lambda>m. m\<lparr>n_dirty := True\<rparr>) T else T)
         [0 ..< treeNodeCacheSize E] T);
       _ \<leftarrow> commitCache E;
       set_tc (\<lambda>T. T\<lparr>mJournalIsRecovering := False\<rparr>)
     }
     else ret ()
   }"

end
