(* ===== verification/JournalReplay.thy ===== *)
theory JournalReplay
  imports JournalReadback GcInvariant SummaryUrgent
begin

text \<open>
  The replay half of \<^verbatim>\<open>src/journal.cpp\<close>: \<open>processBuffer\<close> reads the log twice. The first pass finds
  the last checkpoint of each topic and lets the topics prescan; the second hands each entry
  behind the checkpoint of its target to that topic, and to the topics that want to see it.
  The journal talks to the components through \<^verbatim>\<open>class JournalTopic\<close> (\<^verbatim>\<open>src/journalTopic.hpp\<close>),
  a record of statements here. A topic must not write to the journal while the log is
  processed; this rule of the interface is the locale \<open>journal_topics\<close>, interpreted on the
  handlers of all components that the device registers (\<open>ReplayHandlers\<close>).
\<close>

subsection \<open>Topics\<close>

record 's topic =
  tp_reset :: "('s, unit) state"
  tp_preScan :: "Entry \<Rightarrow> JournalEntryPosition \<Rightarrow> ('s, unit) state"
  tp_interested :: "Entry \<Rightarrow> 's \<Rightarrow> bool"
  tp_process :: "Entry \<Rightarrow> JournalEntryPosition \<Rightarrow> ('s, Result) state"
  tp_signal :: "('s, unit) state"

text \<open>The array \<^verbatim>\<open>topics\<close>; a null pointer is \<open>None\<close>.\<close>

type_synonym 's topics = "Topic \<Rightarrow> 's topic option"

definition all_topics :: "Topic list" where
  "all_topics = [Tp_invalid, Tp_checkpoint, Tp_pagestate, Tp_superblock, Tp_areaMgmt, Tp_garbage,
     Tp_summaryCache, Tp_tree, Tp_dataIO, Tp_pac, Tp_device]"

definition with_topics :: "'s topics \<Rightarrow> (Topic \<Rightarrow> 's topic \<Rightarrow> ('s, unit) state) \<Rightarrow> ('s, unit) state" where
  "with_topics T f = for_each all_topics (\<lambda>t. case T t of None \<Rightarrow> ret () | Some h \<Rightarrow> f t h)"

definition isTopicValid :: "'s topics \<Rightarrow> Topic \<Rightarrow> bool" where
  "isTopicValid T t =
     (0 < topic_code t \<and> topic_code t \<le> numberOfTopics \<and> (t = Tp_pagestate \<or> T t \<noteq> None))"

subsection \<open>First pass\<close>

definition prescan_topics :: "'f dev topics \<Rightarrow> Entry \<Rightarrow> ('f dev, unit) state" where
  "prescan_topics T e = with_topics T (\<lambda>t h. do {
     b \<leftarrow> gets (tp_interested h e);
     p \<leftarrow> gets mram_tell;
     whenM (t = entry_topic e \<or> b) (tp_preScan h e p)
   })"

definition prescan_entry ::
  "'f dev topics \<Rightarrow> Entry \<Rightarrow> JournalEntryPosition list \<Rightarrow> ('f dev, Result + JournalEntryPosition list) state" where
  "prescan_entry T e fu =
     (case e of
        Checkpoint t \<Rightarrow> do { p \<leftarrow> gets mram_tell; ret (Inr (fu[topic_code t := p])) }
      | _ \<Rightarrow>
        if entry_topic e = Tp_pagestate then ret (Inr fu)
        else if \<not> isTopicValid T (entry_topic e) then ret (Inl R_bug)
        else do { prescan_topics T e; ret (Inr fu) })"

subsection \<open>Second pass\<close>

text \<open>
  \<open>active t p\<close>: the entry that ends at position \<open>p\<close> lies behind the last checkpoint of topic \<open>t\<close>.
  A failing \<^verbatim>\<open>processEntry\<close> is reported and the replay goes on.
\<close>

definition dispatch_entry ::
  "'f dev topics \<Rightarrow> (Topic \<Rightarrow> JournalEntryPosition \<Rightarrow> bool) \<Rightarrow> Entry \<Rightarrow> ('f dev, unit) state" where
  "dispatch_entry T active e = do {
     (case T (entry_target e) of
        None \<Rightarrow> ret ()
      | Some h \<Rightarrow> do {
          p \<leftarrow> gets mram_tell;
          whenM (active (entry_target e) p) (do { _ \<leftarrow> tp_process h e p; ret () })
        });
     with_topics T (\<lambda>t h.
       if t = entry_target e then ret ()
       else do {
         b \<leftarrow> gets (tp_interested h e);
         p \<leftarrow> gets mram_tell;
         whenM (b \<and> active t p) (do { _ \<leftarrow> tp_process h e p; ret () })
       })
   }"

text \<open>A target that is not registered would be a null pointer; the answer is a bug then.\<close>

definition apply_entry ::
  "'f dev topics \<Rightarrow> JournalEntryPosition list \<Rightarrow> Entry \<Rightarrow> unit \<Rightarrow> ('f dev, Result + unit) state" where
  "apply_entry T fu e u =
     (if entry_topic e = Tp_checkpoint then ret (Inr ())
      else if entry_topic e = Tp_pagestate \<and> \<not> isTopicValid T (entry_target e) then ret (Inl R_bug)
      else if T (entry_target e) = None then ret (Inl R_bug)
      else do {
        dispatch_entry T (\<lambda>t p. pos_ge p (fu ! topic_code t)) e;
        ret (Inr ())
      })"

text \<open>
  Both passes read until the log is at its end. Every entry read moves the cursor towards the
  end mark, so the end mark is fuel enough. \<open>None\<close>: the fuel is used up, or an entry was accepted that
  has no value here (an enumeration outside its constants); the model gives no answer then.
\<close>

fun read_loop ::
  "nat \<Rightarrow> 'f env \<Rightarrow> (Entry \<Rightarrow> 'a \<Rightarrow> ('f dev, Result + 'a) state) \<Rightarrow> 'a \<Rightarrow> ('f dev, (Result + 'a) option) state" where
  "read_loop 0 E body a = ret None"
| "read_loop (Suc n) E body a = do {
     (r, x) \<leftarrow> readNextElem E;
     if r = R_notFound then ret (Some (Inr a))
     else (case x of
         None \<Rightarrow> ret (if r = R_ok then None else Some (Inl r))
       | Some e \<Rightarrow> do {
           y \<leftarrow> body e a;
           (case y of Inl r \<Rightarrow> ret (Some (Inl r)) | Inr a' \<Rightarrow> read_loop n E body a')
         })
   }"

definition log_fuel :: "'f dev \<Rightarrow> nat" where
  "log_fuel s = le_value (map (mram s) [0 ..< 4])"

definition applyJournalEntries ::
  "'f env \<Rightarrow> 'f dev topics \<Rightarrow> JournalEntryPosition list \<Rightarrow> ('f dev, Result option) state" where
  "applyJournalEntries E T fu = do {
     r \<leftarrow> mram_rewind;
     if r \<noteq> R_ok then ret (Some r)
     else do {
       n \<leftarrow> gets log_fuel;
       y \<leftarrow> read_loop n E (apply_entry T fu) ();
       (case y of
          None \<Rightarrow> ret None
        | Some (Inl r) \<Rightarrow> ret (Some r)
        | Some (Inr _) \<Rightarrow> do {
            set_jr (\<lambda>j. j\<lparr>disabled := False\<rparr>);
            with_topics T (\<lambda>t h. tp_signal h);
            ret (Some R_ok)
          })
     }
   }"

definition processBuffer :: "'f env \<Rightarrow> 'f dev topics \<Rightarrow> ('f dev, Result option) state" where
  "processBuffer E T =
     (if mramSize E = 0 then ret (Some R_ok)
      else do {
        with_topics T (\<lambda>t h. tp_reset h);
        r \<leftarrow> mram_rewind;
        if r \<noteq> R_ok then ret (Some r)
        else do {
          p \<leftarrow> gets mram_tell;
          (r, x) \<leftarrow> readNextElem E;
          if r = R_notFound then ret (Some R_ok)
          else (case x of
              None \<Rightarrow> ret (if r = R_ok then None else Some r)
            | Some e \<Rightarrow> do {
                set_jr (\<lambda>j. j\<lparr>disabled := True\<rparr>);
                y \<leftarrow> prescan_entry T e (replicate numberOfTopics p);
                (case y of
                   Inl r \<Rightarrow> ret (Some r)
                 | Inr fu \<Rightarrow> do {
                     n \<leftarrow> gets log_fuel;
                     z \<leftarrow> read_loop n E (prescan_entry T) fu;
                     (case z of
                        None \<Rightarrow> ret None
                      | Some (Inl r) \<Rightarrow> ret (Some r)
                      | Some (Inr fu') \<Rightarrow> applyJournalEntries E T fu')
                   })
              })
        }
      })"

subsection \<open>The handlers of the modelled components\<close>

definition superblock_topic :: "'f env \<Rightarrow> 'f dev topic" where
  "superblock_topic E = \<lparr>tp_reset = ret (), tp_preScan = \<lambda>e p. superblock_preScan E e,
     tp_interested = \<lambda>e s. False, tp_process = \<lambda>e p. ret R_ok, tp_signal = ret ()\<rparr>"

definition areaMgmt_topic :: "'f env \<Rightarrow> 'f dev topic" where
  "areaMgmt_topic E = \<lparr>tp_reset = modify (\<lambda>s. s\<lparr>am := areaMgmt_resetState (am s)\<rparr>),
     tp_preScan = \<lambda>e p. ret (),
     tp_interested = \<lambda>e s. areaMgmt_isInterestedIn (am s) e,
     tp_process = \<lambda>e p. do {
       x \<leftarrow> gets (\<lambda>s. areaMgmt_processEntry e (am s));
       modify (\<lambda>s. s\<lparr>am := snd x\<rparr>);
       ret (fst x)
     },
     tp_signal = areaMgmt_signalEndOfLog E\<rparr>"

definition garbage_topic :: "'f env \<Rightarrow> 'f dev topic" where
  "garbage_topic E = \<lparr>tp_reset = modify (\<lambda>s. s\<lparr>gc := gc_resetState (gc s)\<rparr>),
     tp_preScan = \<lambda>e p. ret (),
     tp_interested = \<lambda>e s. gc_isInterestedIn (gc s) e,
     tp_process = \<lambda>e p. do {
       x \<leftarrow> gets (\<lambda>s. gc_processEntry E (sb s) e (gc s));
       modify (\<lambda>s. s\<lparr>gc := snd x\<rparr>);
       ret (fst x)
     },
     tp_signal = gc_signalEndOfLog E\<rparr>"

definition summary_topic :: "'f env \<Rightarrow> 'f dev topic" where
  "summary_topic E = \<lparr>tp_reset = ret (),
     tp_preScan = \<lambda>e p. set_sc (summary_preScan E e p),
     tp_interested = \<lambda>e s. False,
     tp_process = summary_processEntry E,
     tp_signal = summary_signalEndOfLog\<rparr>"

text \<open>The registration of the constructor; the other topics are those given.\<close>

definition dev_topics :: "'f env \<Rightarrow> 'f dev topics \<Rightarrow> 'f dev topics" where
  "dev_topics E other t =
     (case t of
        Tp_superblock \<Rightarrow> Some (superblock_topic E)
      | Tp_areaMgmt \<Rightarrow> Some (areaMgmt_topic E)
      | Tp_garbage \<Rightarrow> Some (garbage_topic E)
      | Tp_summaryCache \<Rightarrow> Some (summary_topic E)
      | Tp_tree \<Rightarrow> other t | Tp_dataIO \<Rightarrow> other t | Tp_pac \<Rightarrow> other t | Tp_device \<Rightarrow> other t
      | _ \<Rightarrow> None)"

end
