(* ===== verification/BtreeOps.thy ===== *)
theory BtreeOps
  imports TreeCacheOps JournalReplay
begin

text \<open>
  \<^verbatim>\<open>src/btree.cpp\<close>: the B+ tree of inodes over the tree cache. What an operation does to the arrays
  of a node is a function of the node; the statements follow the order of the code. A new key is kept in
  a \<^verbatim>\<open>uint16_t\<close> when a node is split or merged, which the \<open>mod 2 ^ 16\<close> below write out.
\<close>

subsection \<open>Array loops\<close>

text \<open>\<^verbatim>\<open>for (i = hi; i > lo; i--) xs[i] = xs[i - 1]\<close>.\<close>

definition shift_up :: "nat \<Rightarrow> nat \<Rightarrow> 'a list \<Rightarrow> 'a list" where
  "shift_up lo hi xs = fold (\<lambda>i xs. xs[i := xs ! (i - 1)]) (rev [lo + 1 ..< hi + 1]) xs"

text \<open>\<^verbatim>\<open>for (i = lo; i < hi; i++) xs[i] = xs[i + 1]\<close>.\<close>

definition shift_down :: "nat \<Rightarrow> nat \<Rightarrow> 'a list \<Rightarrow> 'a list" where
  "shift_down lo hi xs = fold (\<lambda>i xs. xs[i := xs ! (i + 1)]) [lo ..< hi] xs"

text \<open>\<open>src\<close> is copied to the places from \<open>off\<close> on.\<close>

definition copy_to :: "nat \<Rightarrow> 'a list \<Rightarrow> 'a list \<Rightarrow> 'a list" where
  "copy_to off src dst = fold (\<lambda>i xs. xs[off + i := src ! i]) [0 ..< length src] dst"

text \<open>\<^verbatim>\<open>for (i = 0, j = 0; i < n; i++, j++) { if (j == gap) j++; temp[j] = xs[i]; } temp[gap] = x\<close>.\<close>

definition with_gap :: "nat \<Rightarrow> nat \<Rightarrow> 'a \<Rightarrow> 'a list \<Rightarrow> 'a list" where
  "with_gap gap n x xs =
     (fold (\<lambda>i t. t[(if i < gap then i else i + 1) := xs ! i]) [0 ..< n] (replicate (n + 1) x))[gap := x]"

text \<open>The first index from 0 on where the condition ends the \<^verbatim>\<open>while\<close> loop, at most \<open>n\<close>.\<close>

definition scan_while :: "(nat \<Rightarrow> bool) \<Rightarrow> nat \<Rightarrow> nat" where
  "scan_while P n = (case List.find (\<lambda>i. \<not> P i) [0 ..< n] of None \<Rightarrow> n | Some i \<Rightarrow> i)"

definition cut :: "nat \<Rightarrow> nat" where
  "cut n = (if n mod 2 = 0 then n div 2 else n div 2 + 1)"

subsection \<open>Searching\<close>

definition branch_index :: "InodeNo \<Rightarrow> TreeNode \<Rightarrow> nat" where
  "branch_index key n = scan_while (\<lambda>i. key \<ge> n_key n ! i) (n_keys n)"

text \<open>At most \<open>n\<close> further levels.\<close>

fun findLeaf_from :: "nat \<Rightarrow> 'f env \<Rightarrow> InodeNo \<Rightarrow> nat \<Rightarrow> ('f dev, Result + nat) state" where
  "findLeaf_from n E key c = do {
     r \<leftarrow> gets (\<lambda>s. raw (node_at c s));
     if n_isLeaf r then ret (Inr c)
     else (case n of
         0 \<Rightarrow> ret (Inl R_lowMem)
       | Suc k \<Rightarrow> do {
           y \<leftarrow> getTreeNodeAtIndexFrom E (branch_index key r) c;
           (case y of Inl e \<Rightarrow> ret (Inl e) | Inr c' \<Rightarrow> findLeaf_from k E key c')
         })
   }"

definition findLeaf :: "'f env \<Rightarrow> InodeNo \<Rightarrow> ('f dev, Result + nat) state" where
  "findLeaf E key = do {
     y \<leftarrow> getRootNodeFromCache E;
     (case y of Inl e \<Rightarrow> ret (Inl e) | Inr c \<Rightarrow> findLeaf_from (treeNodeCacheSize E - 2) E key c)
   }"

definition leaf_position :: "InodeNo \<Rightarrow> TreeNode \<Rightarrow> nat" where
  "leaf_position key n = scan_while (\<lambda>i. n_key n ! i \<noteq> key) (n_keys n)"

definition findInLeaf :: "TreeNode \<Rightarrow> InodeNo \<Rightarrow> Inode option" where
  "findInLeaf n key =
     (let i = leaf_position key n in if i = n_keys n then None else Some (n_inode n ! i))"

definition tree_find :: "'f env \<Rightarrow> InodeNo \<Rightarrow> ('f dev, Result + Inode) state" where
  "tree_find E key = do {
     y \<leftarrow> findLeaf E key;
     (case y of
        Inl e \<Rightarrow> ret (Inl e)
      | Inr c \<Rightarrow> do {
          r \<leftarrow> gets (\<lambda>s. raw (node_at c s));
          ret (case findInLeaf r key of None \<Rightarrow> Inl R_notFound | Some i \<Rightarrow> Inr i)
        })
   }"

definition getInode :: "'f env \<Rightarrow> InodeNo \<Rightarrow> ('f dev, Result + Inode) state" where
  "getInode E no = tree_find E no"

fun last_leaf :: "nat \<Rightarrow> 'f env \<Rightarrow> nat \<Rightarrow> ('f dev, Result + nat) state" where
  "last_leaf n E c = do {
     r \<leftarrow> gets (\<lambda>s. raw (node_at c s));
     if n_isLeaf r then ret (Inr c)
     else (case n of
         0 \<Rightarrow> ret (Inl R_bug)
       | Suc k \<Rightarrow> do {
           y \<leftarrow> getTreeNodeAtIndexFrom E (n_keys r) c;
           (case y of Inl e \<Rightarrow> ret (Inl e) | Inr c' \<Rightarrow> last_leaf k E c')
         })
   }"

definition findFirstFreeNo :: "'f env \<Rightarrow> ('f dev, Result + InodeNo) state" where
  "findFirstFreeNo E = do {
     y \<leftarrow> getRootNodeFromCache E;
     y \<leftarrow> (case y of Inl e \<Rightarrow> ret (Inl e) | Inr c \<Rightarrow> last_leaf (walk_bound E) E c);
     (case y of
        Inl e \<Rightarrow> ret (Inl e)
      | Inr c \<Rightarrow> do {
          r \<leftarrow> gets (\<lambda>s. raw (node_at c s));
          ret (Inr (if n_keys r > 0 then (i_no (n_inode r ! (n_keys r - 1)) + 1) mod 2 ^ 32 else 0))
        })
   }"

subsection \<open>Insertion\<close>

definition insertion_point :: "InodeNo \<Rightarrow> nat \<Rightarrow> TreeNode \<Rightarrow> nat" where
  "insertion_point key n r = scan_while (\<lambda>i. n_key r ! i < key) n"

definition leaf_insert :: "Inode \<Rightarrow> TreeNode \<Rightarrow> TreeNode" where
  "leaf_insert x r =
     (let ip = insertion_point (i_no x) (n_keys r) r
      in r\<lparr>n_key := (shift_up ip (n_keys r) (n_key r))[ip := i_no x],
           n_inode := (shift_up ip (n_keys r) (n_inode r))[ip := x],
           n_keys := n_keys r + 1\<rparr>)"

definition insertIntoLeaf :: "nat \<Rightarrow> Inode \<Rightarrow> ('f dev, Result) state" where
  "insertIntoLeaf leaf x = do {
     set_node leaf (\<lambda>m. (upd_raw (leaf_insert x) m)\<lparr>n_dirty := True\<rparr>);
     ret R_ok
   }"

text \<open>The left and the right leaf of a split.\<close>

definition split_leaf :: "'f env \<Rightarrow> Inode \<Rightarrow> TreeNode \<Rightarrow> TreeNode \<Rightarrow> TreeNode \<times> TreeNode" where
  "split_leaf E x r new =
     (let lo = leafOrder E; ip = insertion_point (i_no x) lo r;
          keys = with_gap ip (n_keys r) (i_no x) (n_key r);
          inodes = with_gap ip (n_keys r) x (n_inode r);
          split = cut lo; rest = lo + 1 - split
      in (r\<lparr>n_key := copy_to split (replicate (lo - split) 0) (copy_to 0 (take split keys) (n_key r)),
            n_inode := copy_to split (replicate (lo - split) zero_inode) (copy_to 0 (take split inodes) (n_inode r)),
            n_keys := split\<rparr>,
          new\<lparr>n_isLeaf := True,
            n_key := copy_to rest (replicate (lo - rest) 0)
              (copy_to 0 (take rest (drop split keys)) (n_key new)),
            n_inode := copy_to rest (replicate (lo - rest) zero_inode)
              (copy_to 0 (take rest (drop split inodes)) (n_inode new)),
            n_keys := n_keys new + rest\<rparr>))"

definition getLeftIndex :: "tree_cache \<Rightarrow> nat \<Rightarrow> nat \<Rightarrow> nat" where
  "getLeftIndex T p left =
     scan_while (\<lambda>k. \<not> (n_addr (raw (node T p)) ! k \<noteq> 0 \<and> n_addr (raw (node T p)) ! k = n_self (raw (node T left)))
                   \<and> pointers (node T p) ! k \<noteq> Some left) (n_keys (raw (node T p)))"

text \<open>The arrays of a branch that gets \<open>key\<close> at \<open>left\<close> and the child \<open>right\<close> behind it.\<close>

definition branch_insert :: "nat \<Rightarrow> InodeNo \<Rightarrow> Addr \<Rightarrow> nat \<Rightarrow> TreeCacheNode \<Rightarrow> TreeCacheNode" where
  "branch_insert left key addr right m =
     (let r = raw m; n = n_keys r
      in m\<lparr>raw := r\<lparr>n_key := (shift_up left n (n_key r))[left := key],
                     n_addr := (shift_up (left + 1) (n + 1) (n_addr r))[left + 1 := addr],
                     n_keys := n + 1\<rparr>,
           pointers := (shift_up (left + 1) (n + 1) (pointers m))[left + 1 := Some right],
           n_dirty := True\<rparr>)"

definition insertIntoNode :: "nat \<Rightarrow> nat \<Rightarrow> InodeNo \<Rightarrow> nat \<Rightarrow> ('f dev, Result) state" where
  "insertIntoNode p left key right = do {
     addr \<leftarrow> gets (\<lambda>s. n_self (raw (node_at right s)));
     set_node p (branch_insert left key addr right);
     set_node right (\<lambda>m. m\<lparr>parent := Some p, n_dirty := True\<rparr>);
     ret R_ok
   }"

text \<open>The two branches of a split, and the key that goes up between them.\<close>

definition split_branch ::
  "'f env \<Rightarrow> nat \<Rightarrow> InodeNo \<Rightarrow> Addr \<Rightarrow> nat \<Rightarrow> TreeCacheNode \<Rightarrow> TreeCacheNode \<Rightarrow>
   TreeCacheNode \<times> InodeNo \<times> TreeCacheNode" where
  "split_branch E left key addr right m new =
     (let bo = branchOrder E; n = n_keys (raw m);
          addrs = with_gap (left + 1) (n + 1) addr (n_addr (raw m));
          ptrs = with_gap (left + 1) (n + 1) (Some right) (pointers m);
          keys = with_gap left n key (n_key (raw m));
          split = cut bo; rest = bo - split
      in (m\<lparr>raw := (raw m)\<lparr>
              n_key := copy_to split (replicate (bo - 1 - split) 0)
                (copy_to 0 (take (split - 1) keys) (n_key (raw m))),
              n_addr := copy_to split (replicate (bo - split) 0) (copy_to 0 (take split addrs) (n_addr (raw m))),
              n_keys := split - 1\<rparr>,
            pointers := copy_to split (replicate (bo - split) None) (copy_to 0 (take split ptrs) (pointers m))\<rparr>,
          keys ! (split - 1) mod 2 ^ 16,
          new\<lparr>raw := (raw new)\<lparr>
              n_key := copy_to 0 (take rest (drop split keys)) (n_key (raw new)),
              n_addr := copy_to 0 (take (rest + 1) (drop split addrs)) (n_addr (raw new)),
              n_keys := n_keys (raw new) + rest\<rparr>,
            pointers := copy_to 0 (take (rest + 1) (drop split ptrs)) (pointers new)\<rparr>))"

text \<open>The nodes stay locked when there is no room for the new one.\<close>

definition add_locked :: "'f env \<Rightarrow> nat list \<Rightarrow> ('f dev, Result + nat) state" where
  "add_locked E is = do {
     set_tc (fold (lockTreeCacheNode E) is);
     y \<leftarrow> addNewCacheNode E;
     (case y of
        Inl r \<Rightarrow> ret (Inl r)
      | Inr i \<Rightarrow> do {
          set_tc (fold (\<lambda>i T. snd (unlockTreeCacheNode E i T)) is);
          ret (Inr i)
        })
   }"

definition insertIntoNewRoot :: "'f env \<Rightarrow> nat \<Rightarrow> InodeNo \<Rightarrow> nat \<Rightarrow> ('f dev, Result) state" where
  "insertIntoNewRoot E left key right = do {
     y \<leftarrow> add_locked E [left, right];
     (case y of
        Inl r \<Rightarrow> ret r
      | Inr i \<Rightarrow> do {
          T \<leftarrow> gets tc;
          set_node i (\<lambda>m. m\<lparr>raw := (raw m)\<lparr>n_isLeaf := False, n_key := (n_key (raw m))[0 := key],
              n_addr := (n_addr (raw m))[0 := n_self (raw (node T left)), 1 := n_self (raw (node T right))],
              n_keys := 1\<rparr>,
            pointers := (pointers m)[0 := Some left, 1 := Some right], n_dirty := True, parent := Some i\<rparr>);
          set_node left (\<lambda>m. m\<lparr>parent := Some i\<rparr>);
          set_node right (\<lambda>m. m\<lparr>parent := Some i\<rparr>);
          (r, T') \<leftarrow> gets (\<lambda>s. setRoot i (tc s));
          set_tc (\<lambda>_. T');
          ret r
        })
   }"

definition set_parents :: "nat \<Rightarrow> nat option list \<Rightarrow> tree_cache \<Rightarrow> tree_cache" where
  "set_parents p ptrs T =
     fold (\<lambda>c T. case c of None \<Rightarrow> T | Some i \<Rightarrow> upd_node i (\<lambda>m. m\<lparr>parent := Some p\<rparr>) T) ptrs T"

fun insertIntoParent :: "nat \<Rightarrow> 'f env \<Rightarrow> nat \<Rightarrow> InodeNo \<Rightarrow> nat \<Rightarrow> ('f dev, Result) state" where
  "insertIntoParent n E left key right = do {
     T \<leftarrow> gets tc;
     (case parent (node T left) of
        None \<Rightarrow> ret R_bug
      | Some p \<Rightarrow>
          if p = left then insertIntoNewRoot E left key right
          else
            let li = getLeftIndex T p left
            in if n_keys (raw (node T p)) < branchOrder E - 1
               then insertIntoNode p li key right
               else (case n of
                   0 \<Rightarrow> ret R_bug
                 | Suc k \<Rightarrow> do {
                     y \<leftarrow> add_locked E [p, right];
                     (case y of
                        Inl r \<Rightarrow> ret r
                      | Inr i \<Rightarrow> do {
                          T \<leftarrow> gets tc;
                          let (old, kPrime, new) = split_branch E li key (n_self (raw (node T right))) right
                                                     (node T p) (node T i);
                          set_node p (\<lambda>_. old\<lparr>n_dirty := True\<rparr>);
                          set_node i (\<lambda>_. new\<lparr>parent := parent old, n_dirty := True\<rparr>);
                          set_tc (set_parents i (take (branchOrder E - cut (branchOrder E) + 1) (pointers new)));
                          insertIntoParent k E p kPrime i
                        })
                   }))
   }"

definition insertIntoLeafAfterSplitting :: "'f env \<Rightarrow> nat \<Rightarrow> Inode \<Rightarrow> ('f dev, Result) state" where
  "insertIntoLeafAfterSplitting E leaf x = do {
     set_tc (lockTreeCacheNode E leaf);
     y \<leftarrow> addNewCacheNode E;
     set_tc (\<lambda>T. snd (unlockTreeCacheNode E leaf T));
     (case y of
        Inl r \<Rightarrow> ret r
      | Inr i \<Rightarrow> do {
          T \<leftarrow> gets tc;
          let (old, new) = split_leaf E x (raw (node T leaf)) (raw (node T i));
          set_node leaf (\<lambda>m. m\<lparr>raw := old, n_dirty := True\<rparr>);
          set_node i (\<lambda>m. m\<lparr>raw := new, n_dirty := True, parent := parent (node T leaf)\<rparr>);
          insertIntoParent (walk_bound E) E leaf (n_key new ! 0 mod 2 ^ 16) i
        })
   }"

text \<open>The nodes that an insertion may need: one per full node on the path, two for a full root.\<close>

fun needed_nodes :: "nat \<Rightarrow> 'f env \<Rightarrow> tree_cache \<Rightarrow> nat \<Rightarrow> nat" where
  "needed_nodes n E T i =
     (let m = node T i
      in if n_keys (raw m) = (if n_isLeaf (raw m) then leafOrder E else branchOrder E - 1)
         then if parent m \<noteq> Some i
              then (case (n, parent m) of (Suc k, Some p) \<Rightarrow> 1 + needed_nodes k E T p | _ \<Rightarrow> 1)
              else 2
         else 0)"

definition calculateMaxNeededNewNodesForInsertion :: "'f env \<Rightarrow> tree_cache \<Rightarrow> nat \<Rightarrow> nat" where
  "calculateMaxNeededNewNodesForInsertion E T i = needed_nodes (walk_bound E) E T i"

definition insertInode :: "'f env \<Rightarrow> Inode \<Rightarrow> ('f dev, Result) state" where
  "insertInode E x = do {
     y \<leftarrow> findLeaf E (i_no x);
     (case y of
        Inl r \<Rightarrow> ret r
      | Inr leaf \<Rightarrow> do {
          T \<leftarrow> gets tc;
          if n_keys (raw (node T leaf)) > 0 \<and> i_no x \<in> set (take (leafOrder E) (n_key (raw (node T leaf))))
          then ret R_exists
          else do {
            set_tc (lockTreeCacheNode E leaf);
            r \<leftarrow> reserveNodes E (calculateMaxNeededNewNodesForInsertion E T leaf);
            if r \<noteq> R_ok then ret r
            else do {
              set_tc (\<lambda>T. snd (unlockTreeCacheNode E leaf T));
              add_event E (TreeInsert x);
              n \<leftarrow> gets (\<lambda>s. n_keys (raw (node_at leaf s)));
              if n < leafOrder E then insertIntoLeaf leaf x
              else insertIntoLeafAfterSplitting E leaf x
            }
          }
        })
   }"

text \<open>With the trace flags of the verification on, the states of the pages of the inode are asked for.\<close>

definition inode_addrs :: "Inode \<Rightarrow> Addr list" where
  "inode_addrs x = i_direct x @ [i_indir x, i_d_indir x, i_t_indir x]"

definition updateExistingInode :: "'f env \<Rightarrow> Inode \<Rightarrow> ('f dev, Result) state" where
  "updateExistingInode E x = do {
     valid \<leftarrow> gets (\<lambda>s. \<not> verifyTC E \<or> isTreeCacheValid E (tc s));
     if \<not> valid then ret R_bug
     else do {
       ended \<leftarrow> gets (\<lambda>s. mJournalIsEndOfLog (bt s));
       whenM (verifyTC E \<and> verifyAS E \<and> ended)
         (for_each (inode_addrs x) (\<lambda>a. whenM (a \<noteq> 0) (do { _ \<leftarrow> getPageStatus_addr E a; ret () })));
       y \<leftarrow> findLeaf E (i_no x);
       (case y of
          Inl r \<Rightarrow> ret r
        | Inr leaf \<Rightarrow> do {
            r \<leftarrow> gets (\<lambda>s. raw (node_at leaf s));
            let pos = leaf_position (i_no x) r;
            if pos = n_keys r then ret R_bug
            else if n_inode r ! pos = x then ret R_ok
            else do {
              add_event E (TreeUpdate x);
              set_node leaf (\<lambda>m. (upd_raw (\<lambda>r. r\<lparr>n_inode := (n_inode r)[pos := x]\<rparr>) m)\<lparr>n_dirty := True\<rparr>);
              ret R_ok
            }
          })
     }
   }"

definition startNewTree :: "'f env \<Rightarrow> ('f dev, Result) state" where
  "startNewTree E = do {
     set_tc (tree_clear E);
     y \<leftarrow> addNewCacheNode E;
     (case y of
        Inl r \<Rightarrow> ret r
      | Inr i \<Rightarrow> do {
          set_node i (\<lambda>m. (upd_raw (\<lambda>r. r\<lparr>n_isLeaf := True\<rparr>) m)\<lparr>n_dirty := True, parent := Some i\<rparr>);
          (r, T') \<leftarrow> gets (\<lambda>s. setRoot i (tc s));
          set_tc (\<lambda>_. T');
          ret r
        })
   }"

end
