(* ===== verification/BtreeDelete.thy ===== *)
theory BtreeDelete
  imports BtreeOps
begin

text \<open>Deletion in \<^verbatim>\<open>src/btree.cpp\<close>, the replay of the tree, and the flush of its cache.\<close>

subsection \<open>Arrays of a node\<close>

text \<open>\<open>None\<close>: the key is not there, and smaller than a key of the node.\<close>

definition remove_entry :: "'f env \<Rightarrow> InodeNo \<Rightarrow> TreeCacheNode \<Rightarrow> TreeCacheNode option" where
  "remove_entry E key m =
     (let r = raw m; n = n_keys r; i = leaf_position key r
      in if i > 0 \<and> key < n_key r ! (i - 1) then None
         else if n_isLeaf r
         then Some (m\<lparr>raw := r\<lparr>
                n_key := copy_to (n - 1) (replicate (leafOrder E - (n - 1)) 0) (shift_down i (n - 1) (n_key r)),
                n_inode := copy_to (n - 1) (replicate (leafOrder E - (n - 1)) zero_inode)
                  (shift_down i (n - 1) (n_inode r)),
                n_keys := n - 1\<rparr>, n_dirty := True\<rparr>)
         else Some (m\<lparr>raw := r\<lparr>
                n_key := copy_to (n - 1) (replicate (branchOrder E - n) 0) (shift_down i (n - 1) (n_key r)),
                n_addr := copy_to n (replicate (branchOrder E - n) 0) (shift_down (i + 1) n (n_addr r)),
                n_keys := n - 1\<rparr>,
              pointers := copy_to n (replicate (branchOrder E - n) None) (shift_down (i + 1) n (pointers m)),
              n_dirty := True\<rparr>))"

text \<open>The entries of \<open>from\<close> behind those of \<open>to\<close>.\<close>

definition append_leaf :: "TreeNode \<Rightarrow> TreeNode \<Rightarrow> TreeNode" where
  "append_leaf from to =
     to\<lparr>n_key := copy_to (n_keys to) (take (n_keys from) (n_key from)) (n_key to),
        n_inode := copy_to (n_keys to) (take (n_keys from) (n_inode from)) (n_inode to),
        n_keys := n_keys to + n_keys from\<rparr>"

definition append_branch :: "InodeNo \<Rightarrow> TreeCacheNode \<Rightarrow> TreeCacheNode \<Rightarrow> TreeCacheNode" where
  "append_branch kPrime from to =
     (let r = raw to; f = raw from; n = n_keys r; k = n_keys f
      in to\<lparr>raw := r\<lparr>n_key := copy_to (n + 1) (take k (n_key f)) ((n_key r)[n := kPrime]),
                      n_addr := copy_to (n + 1) (take (k + 1) (n_addr f)) (n_addr r),
                      n_keys := n + 1 + k\<rparr>,
            pointers := copy_to (n + 1) (take (k + 1) (pointers from)) (pointers to)\<rparr>)"

text \<open>The last entry of the left neighbour goes to the front of the leaf; the new key of the parent.\<close>

definition leaf_from_left :: "TreeNode \<Rightarrow> TreeNode \<Rightarrow> TreeNode \<times> TreeNode \<times> InodeNo" where
  "leaf_from_left n nb =
     (let l = n_keys nb - 1; key = n_key nb ! l
      in (n\<lparr>n_key := (shift_up 0 (n_keys n) (n_key n))[0 := key],
            n_inode := (shift_up 0 (n_keys n) (n_inode n))[0 := n_inode nb ! l], n_keys := n_keys n + 1\<rparr>,
          nb\<lparr>n_inode := (n_inode nb)[l := zero_inode], n_keys := l\<rparr>, key))"

definition leaf_from_right :: "TreeNode \<Rightarrow> TreeNode \<Rightarrow> TreeNode \<times> TreeNode \<times> InodeNo" where
  "leaf_from_right n nb =
     (n\<lparr>n_key := (n_key n)[n_keys n := n_key nb ! 0], n_inode := (n_inode n)[n_keys n := n_inode nb ! 0],
        n_keys := n_keys n + 1\<rparr>,
      nb\<lparr>n_key := shift_down 0 (n_keys nb - 1) (n_key nb), n_inode := shift_down 0 (n_keys nb - 1) (n_inode nb),
         n_keys := n_keys nb - 1\<rparr>,
      n_key nb ! 1)"

definition branch_from_left ::
  "InodeNo \<Rightarrow> TreeCacheNode \<Rightarrow> TreeCacheNode \<Rightarrow> TreeCacheNode \<times> TreeCacheNode \<times> InodeNo" where
  "branch_from_left kPrime m nb =
     (let r = raw m; f = raw nb; n = n_keys r; l = n_keys f
      in (m\<lparr>raw := r\<lparr>n_key := (shift_up 0 n (n_key r))[0 := kPrime],
                     n_addr := (shift_up 0 (n + 1) (n_addr r))[0 := n_addr f ! l], n_keys := n + 1\<rparr>,
            pointers := (shift_up 0 (n + 1) (pointers m))[0 := pointers nb ! l]\<rparr>,
          nb\<lparr>raw := f\<lparr>n_addr := (n_addr f)[l := 0], n_keys := l - 1\<rparr>, pointers := (pointers nb)[l := None]\<rparr>,
          n_key f ! (l - 1)))"

definition branch_from_right ::
  "InodeNo \<Rightarrow> TreeCacheNode \<Rightarrow> TreeCacheNode \<Rightarrow> TreeCacheNode \<times> TreeCacheNode \<times> InodeNo" where
  "branch_from_right kPrime m nb =
     (let r = raw m; f = raw nb; n = n_keys r; l = n_keys f
      in (m\<lparr>raw := r\<lparr>n_key := (n_key r)[n := kPrime], n_addr := (n_addr r)[n + 1 := n_addr f ! 0],
                     n_keys := n + 1\<rparr>,
            pointers := (pointers m)[n + 1 := pointers nb ! 0]\<rparr>,
          nb\<lparr>raw := f\<lparr>n_key := shift_down 0 (l - 1) (n_key f), n_addr := shift_down 0 l (n_addr f),
                      n_keys := l - 1\<rparr>,
             pointers := shift_down 0 l (pointers nb)\<rparr>,
          n_key f ! 0))"

subsection \<open>Deleting an entry\<close>

text \<open>The index of the left neighbour; \<open>None\<close> is -1, also when the parent does not know the node.\<close>

definition getNeighborIndex :: "tree_cache \<Rightarrow> nat \<Rightarrow> nat \<Rightarrow> nat option" where
  "getNeighborIndex T p i =
     (case List.find (\<lambda>k. pointers (node T p) ! k = Some i) [0 ..< n_keys (raw (node T p)) + 1] of
        None \<Rightarrow> None
      | Some 0 \<Rightarrow> None
      | Some (Suc k) \<Rightarrow> Some k)"

definition adjustRoot :: "'f env \<Rightarrow> nat \<Rightarrow> ('f dev, Result) state" where
  "adjustRoot E i = do {
     m \<leftarrow> gets (node_at i);
     if n_keys (raw m) > 0 then ret R_ok
     else if \<not> n_isLeaf (raw m)
     then (case pointers m ! 0 of
         None \<Rightarrow> ret R_bug
       | Some c \<Rightarrow> do {
           set_node c (\<lambda>m. m\<lparr>parent := Some c\<rparr>);
           (r, T') \<leftarrow> gets (\<lambda>s. setRoot c (tc s));
           set_tc (\<lambda>_. T');
           if r \<noteq> R_ok then ret r else removeNode E i
         })
     else removeNode E i
   }"

text \<open>The moves of \<open>redistributeNodes\<close>, for node \<open>i\<close>, its neighbour \<open>nb\<close> and their parent \<open>p\<close>.\<close>

definition redistributeNodes ::
  "nat \<Rightarrow> nat \<Rightarrow> nat \<Rightarrow> bool \<Rightarrow> nat \<Rightarrow> InodeNo \<Rightarrow> ('f dev, Result) state" where
  "redistributeNodes i nb p fromLeft kPrimeIndex kPrime = do {
     T \<leftarrow> gets tc;
     let (m, f) = (node T i, node T nb);
     let (m', f', key) =
       (if n_isLeaf (raw m)
        then (case (if fromLeft then leaf_from_left else leaf_from_right) (raw m) (raw f) of
                (x, y, k) \<Rightarrow> (m\<lparr>raw := x\<rparr>, f\<lparr>raw := y\<rparr>, k))
        else (if fromLeft then branch_from_left else branch_from_right) kPrime m f);
     set_node i (\<lambda>_. m'\<lparr>n_dirty := True\<rparr>);
     set_node nb (\<lambda>_. f'\<lparr>n_dirty := True\<rparr>);
     set_node p (\<lambda>m. (upd_raw (\<lambda>r. r\<lparr>n_key := (n_key r)[kPrimeIndex := key]\<rparr>) m)\<lparr>n_dirty := True\<rparr>);
     set_tc (set_parents i
       (if n_isLeaf (raw m) then []
        else [pointers m' ! (if fromLeft then 0 else n_keys (raw m) + 1)]));
     ret R_ok
   }"

text \<open>\<open>from\<close> is merged into \<open>to\<close>; the entry of the parent that stood between them is next.\<close>

definition merge_nodes :: "'f env \<Rightarrow> nat \<Rightarrow> nat \<Rightarrow> InodeNo \<Rightarrow> ('f dev, Result) state" where
  "merge_nodes E from to kPrime = do {
     T \<leftarrow> gets tc;
     let (f, t) = (node T from, node T to);
     (if n_isLeaf (raw f)
      then set_node to (\<lambda>m. m\<lparr>raw := append_leaf (raw f) (raw t), n_dirty := True\<rparr>)
      else do {
        set_node to (\<lambda>_. (append_branch kPrime f t)\<lparr>n_dirty := True\<rparr>);
        set_node from (upd_raw (\<lambda>r. r\<lparr>n_keys := 0\<rparr>));
        set_tc (\<lambda>T. set_parents to (take (n_keys (raw (node T to)) + 1) (pointers (node T to))) T)
      });
     removeNode E from
   }"

fun deleteEntry :: "nat \<Rightarrow> 'f env \<Rightarrow> nat \<Rightarrow> InodeNo \<Rightarrow> ('f dev, Result) state" where
  "deleteEntry n E i key = do {
     m \<leftarrow> gets (node_at i);
     (case remove_entry E key m of
        None \<Rightarrow> ret R_bug
      | Some m' \<Rightarrow> do {
          set_node i (\<lambda>_. m');
          if parent m = Some i then adjustRoot E i
          else if n_keys (raw m') \<ge> (if n_isLeaf (raw m) then cut (leafOrder E) else cut (branchOrder E) - 1)
          then ret R_ok
          else (case parent m of
              None \<Rightarrow> ret R_bug
            | Some p \<Rightarrow> do {
                T \<leftarrow> gets tc;
                let ni = getNeighborIndex T p i;
                let kPrimeIndex = (case ni of None \<Rightarrow> 0 | Some k \<Rightarrow> k);
                let kPrime = n_key (raw (node T p)) ! kPrimeIndex mod 2 ^ 16;
                set_tc (lockTreeCacheNode E i);
                y \<leftarrow> getTreeNodeAtIndexFrom E (case ni of None \<Rightarrow> 1 | Some k \<Rightarrow> k) p;
                set_tc (\<lambda>T. snd (unlockTreeCacheNode E i T));
                (case y of
                   Inl r \<Rightarrow> ret r
                 | Inr nb \<Rightarrow> do {
                     T \<leftarrow> gets tc;
                     let capacity = (if n_isLeaf (raw (node T nb)) then leafOrder E else branchOrder E - 2);
                     if n_keys (raw (node T nb)) + n_keys (raw (node T i)) \<le> capacity
                     then do {
                       let (from, to) = (if ni = None then (nb, i) else (i, nb));
                       r \<leftarrow> merge_nodes E from to kPrime;
                       if r \<noteq> R_ok then ret r
                       else (case n of 0 \<Rightarrow> ret R_bug | Suc k \<Rightarrow> do {
                         q \<leftarrow> gets (\<lambda>s. parent (node_at from s));
                         (case q of None \<Rightarrow> ret R_bug | Some q \<Rightarrow> deleteEntry k E q kPrime)
                       })
                     }
                     else redistributeNodes i nb p (ni \<noteq> None) kPrimeIndex kPrime
                   })
              })
        })
   }"

definition deleteInode :: "'f env \<Rightarrow> InodeNo \<Rightarrow> ('f dev, Result) state" where
  "deleteInode E no = do {
     y \<leftarrow> findLeaf E no;
     (case y of
        Inl r \<Rightarrow> ret r
      | Inr leaf \<Rightarrow> do {
          n \<leftarrow> gets (\<lambda>s. raw (node_at leaf s));
          if findInLeaf n no = None then ret R_notFound
          else do {
            r \<leftarrow> deleteEntry (walk_bound E) E leaf no;
            valid \<leftarrow> gets (\<lambda>s. \<not> verifyTC E \<or> isTreeCacheValid E (tc s));
            if \<not> valid then ret R_bug
            else do {
              _ \<leftarrow> commitIfNodesWereRemoved E;
              add_event E (TreeRemove no);
              ret r
            }
          }
        })
   }"

definition tree_commitCache :: "'f env \<Rightarrow> ('f dev, Result) state" where
  "tree_commitCache E = commitCache E"

definition wipeCache :: "'f env \<Rightarrow> ('f dev, unit) state" where
  "wipeCache E = set_tc (tree_clear E)"

subsection \<open>Replay\<close>

definition btree_resetState :: "'f env \<Rightarrow> ('f dev, unit) state" where
  "btree_resetState E = do {
     set_tc (tree_resetState E);
     modify (\<lambda>s. s\<lparr>bt := \<lparr>mJournalLastSuccess = pos_of 0, mJournalIsEndOfLog = False\<rparr>\<rparr>)
   }"

definition btree_isInterestedIn :: "Entry \<Rightarrow> bool" where
  "btree_isInterestedIn e \<longleftrightarrow> (case e of Rootnode _ \<Rightarrow> True | _ \<Rightarrow> False)"

definition btree_preScan :: "Entry \<Rightarrow> JournalEntryPosition \<Rightarrow> ('f dev, unit) state" where
  "btree_preScan e pos =
     whenM (btree_isInterestedIn e) (modify (\<lambda>s. s\<lparr>bt := (bt s)\<lparr>mJournalLastSuccess := pos\<rparr>\<rparr>))"

definition btree_apply :: "'f env \<Rightarrow> Entry \<Rightarrow> ('f dev, Result) state" where
  "btree_apply E e =
     (case e of
        TreeInsert x \<Rightarrow> do { r \<leftarrow> insertInode E x; ret (if r = R_exists then R_ok else r) }
      | TreeUpdate x \<Rightarrow> do { r \<leftarrow> updateExistingInode E x; ret (if r = R_notFound then R_ok else r) }
      | TreeRemove no \<Rightarrow> do { r \<leftarrow> deleteInode E no; ret (if r = R_notFound then R_ok else r) }
      | _ \<Rightarrow> ret R_bug)"

definition btree_processEntry :: "'f env \<Rightarrow> Entry \<Rightarrow> JournalEntryPosition \<Rightarrow> ('f dev, Result) state" where
  "btree_processEntry E e pos =
     (if entry_topic e = Tp_tree
      then do {
        last \<leftarrow> gets (\<lambda>s. mJournalLastSuccess (bt s));
        if last \<noteq> pos_of 0 \<and> pos_less pos last then ret R_ok else btree_apply E e
      }
      else if entry_topic e = Tp_pagestate \<and> entry_target e = Tp_tree
      then machine_processEntry (tree_machine E) e
      else if btree_isInterestedIn e then machine_processEntry (tree_machine E) (Success Tp_tree)
      else ret R_invalidInput)"

definition btree_signalEndOfLog :: "'f env \<Rightarrow> ('f dev, unit) state" where
  "btree_signalEndOfLog E = do {
     modify (\<lambda>s. s\<lparr>bt := (bt s)\<lparr>mJournalIsEndOfLog := True\<rparr>\<rparr>);
     tree_cache_signalEndOfLog E
   }"

definition tree_topic :: "'f env \<Rightarrow> 'f dev topic" where
  "tree_topic E = \<lparr>tp_reset = btree_resetState E, tp_preScan = btree_preScan,
     tp_interested = \<lambda>e s. btree_isInterestedIn e, tp_process = btree_processEntry E,
     tp_signal = btree_signalEndOfLog E\<rparr>"

end
