(* ===== verification/PageStateProperties.thy ===== *)
theory PageStateProperties
  imports PageStateFacts ExampleDevice BtreeDelete
begin

text \<open>The properties of the page transactions, and a device on which they are witnessed.\<close>

text \<open>A device with the summaries of the areas 2 and 3 in the cache.\<close>

definition ex_elem :: "AreaPos \<Rightarrow> AreaSummaryElem" where
  "ex_elem a = \<lparr>mEntries = TwoBitList_clear 3, mStatusBits = 8, mArea = a, mDirtyPages = 0\<rparr>"

definition ex_sum_dev :: "ram_flash dev" where
  "ex_sum_dev = ex_dev\<lparr>sc := (sc ex_dev)\<lparr>mSummaryCache := [ex_elem 2, ex_elem 3, new_elem 3],
     mTranslation := [(2, 0), (3, 1)]\<rparr>, tc := (tc ex_dev)\<lparr>tree_psm := psm_clear 3 False\<rparr>\<rparr>"

lemma ex_sum_simps [simp]:
  "sb ex_sum_dev = ex_sb" "readOnly ex_sum_dev = False" "tree_psm (tc ex_sum_dev) = psm_clear 3 False"
  "mTranslation (sc ex_sum_dev) = [(2, 0), (3, 1)]" "mSummaryCache (sc ex_sum_dev) = [ex_elem 2, ex_elem 3, new_elem 3]"
  by (simp_all add: ex_sum_dev_def) (simp add: ex_dev_def)

lemma ex_sum_ok: "cache_ok ex_env (sc ex_sum_dev)"
  by (simp add: cache_ok_def slot_filled_def ex_elem_def isUsed_def TwoBitList_clear_def)

definition ex_pages :: "(Addr \<times> Addr \<times> nat) list" where
  "ex_pages = [(combineAddress 3 1, combineAddress 3 0, 0)]"

lemma ex_addr_nonzero: "combineAddress 3 0 \<noteq> 0"
  by code_simp

lemma ex_ready: "a = combineAddress 3 0 \<or> a = combineAddress 3 1 \<Longrightarrow> addr_ready ex_env ex_sum_dev a"
  by (auto simp: addr_ready_def addr_cached_def existsSummaryElem_def getType_def ex_sb_def ex_area_def)

subsection \<open>What a transaction of the tree records\<close>

text \<open>The entries that the journal hands to the tree during a replay, apart from its own.\<close>

definition machine_entry :: "Entry \<Rightarrow> bool" where
  "machine_entry e \<longleftrightarrow> (entry_topic e = Tp_pagestate \<and> entry_target e = Tp_tree) \<or> btree_isInterestedIn e"

definition log_full :: "'f env \<Rightarrow> 'f dev \<Rightarrow> bool" where
  "log_full E s \<longleftrightarrow> mramSize E < curr (jr s) + sizeof_Max (dataPagesPerArea E)"

text \<open>The log in the MRAM holds the entries \<open>F\<close> of the tree, unless it is full.\<close>

definition tree_log :: "'f env \<Rightarrow> Entry list \<Rightarrow> 'f dev \<Rightarrow> bool" where
  "tree_log E F s \<longleftrightarrow> \<not> disabled (jr s) \<and>
     (\<exists>l. mram_holds E s l (length l) \<and> (filter machine_entry l = F \<or> log_full E s))"

lemma tree_log_cong: "tree_log E F s \<Longrightarrow> mram u = mram s \<Longrightarrow> jr u = jr s \<Longrightarrow> tree_log E F u"
  by (simp add: tree_log_def mram_holds_def log_full_def)

lemma tree_log_event:
  assumes "tree_log E F s" and e: "loggable (dataPagesPerArea E) e" "entry_topic e \<noteq> Tp_checkpoint"
  shows "tree_log E (F @ (if machine_entry e then [e] else [])) (log_event E e s)"
proof -
  obtain l where l: "mram_holds E s l (length l)" "filter machine_entry l = F \<or> log_full E s"
    and on: "\<not> disabled (jr s)" using assms(1) by (auto simp: tree_log_def)
  obtain r t where run: "run_state (appendEntry E e) s = (r, t)" by (metis surj_pair)
  have size: "mramSize E \<noteq> 0" using l(1) by (auto simp: mram_holds_def log_end_def)
  have add: "(case e of Checkpoint t \<Rightarrow> getBit numberOfTopics (topic_code t) (uncheckpointedChanges (jr s)) | _ \<Rightarrow> True)"
    using e(2) by (cases e) auto
  have keep: "keeps (\<lambda>u. \<not> disabled (jr u)) (appendEntry E e)"
    unfolding appendEntry_def by (intro keeps_intros) auto
  have on': "\<not> disabled (jr t)" by (rule keepsD [of "\<lambda>u. \<not> disabled (jr u)", OF keep on run])
  have t: "mram (log_event E e s) = mram t \<and> curr (jr (log_event E e s)) = curr (jr t) \<and> \<not> disabled (jr (log_event E e s))"
    using run size on on' add by (auto simp: log_event_def addEvent_def split: if_splits)
  show ?thesis
  proof (cases "log_full E s")
    case True
    then have "t = s" using run by (simp add: appendEntry_def log_full_def)
    then have "mram_holds E (log_event E e s) l (length l) \<and> log_full E (log_event E e s)"
      using t l(1) True by (simp add: mram_holds_def log_full_def)
    then show ?thesis using t by (auto simp: tree_log_def)
  next
    case False
    then have "r \<noteq> R_noSpace" using run by (auto simp: appendEntry_def log_full_def Let_def run_writeMRAM split: if_splits)
    then have "mram_holds E t (l @ [e]) (length (l @ [e]))" using append_mram [OF l(1) e(1) run] by simp
    then have "mram_holds E (log_event E e s) (l @ [e]) (length (l @ [e]))" using t by (simp add: mram_holds_def)
    moreover have "filter machine_entry (l @ [e]) = F @ (if machine_entry e then [e] else [])"
      using l(2) False by simp
    ultimately show ?thesis using t unfolding tree_log_def by blast
  qed
qed

lemma keeps_tree_log_event:
  assumes "loggable (dataPagesPerArea E) e" "entry_topic e \<noteq> Tp_checkpoint" "\<not> machine_entry e"
  shows "keeps (tree_log E F) (add_event E e)"
  using tree_log_event [OF _ assms(1,2), of F] assms(3) by (simp add: keeps_def)

text \<open>The states of pages are entries of the summary cache.\<close>

lemma writeAreasummary_tree_log:
  "getArea e < 2 ^ 16 \<Longrightarrow> keeps (tree_log E F) (writeAreasummary E e)"
  unfolding writeAreasummary_def
  by (intro keeps_intros keeps_tree_log_event)
    (auto simp: loggable_def machine_entry_def btree_isInterestedIn_def intro: tree_log_cong)

lemma after_dirty_tree_log:
  assumes "getArea (area_elem (sc s) area) < 2 ^ 16" and "tree_log E F s"
    and run: "run_state (after_dirty E area page) s = (r, t)"
  shows "tree_log E F t"
proof -
  define m where "m = whenM (writeVerifyAS E) (do {
       p \<leftarrow> gets (\<lambda>s. getPageNumber E (sb s) (combineAddress area page));
       _ \<leftarrow> writePage E p (replicate (dataBytesPerPage E) 0xFF @ replicate (oobBytesPerPage E) 0);
       ret ()
     })"
  obtain u where m: "run_state m s = ((), u)" by (cases "run_state m s") simp
  have "keeps (\<lambda>u. tree_log E F u \<and> sc u = sc s) m"
    unfolding m_def by (intro keeps_intros) (auto intro: tree_log_cong)
  from keepsD [OF this _ m] have u: "tree_log E F u" "sc u = sc s" using assms(2) by simp_all
  have run': "run_state (do { m; C \<leftarrow> gets sc;
     let pos = getSummaryElemPos C area;
     if verifyAS E \<and> countDirtyPages E C pos \<noteq> getDirtyPages (area_elem C area) then ret R_fail
     else if getDirtyPages (area_elem C area) = dataPagesPerArea E
             \<and> \<not> isAreaSummaryWritten (area_elem C area)
     then do {
       (r, e) \<leftarrow> writeAreasummary E (area_elem C area);
       set_sc (upd_elem area (\<lambda>_. e));
       ret r
     }
     else ret R_ok }) s = (r, t)"
    using run by (simp add: after_dirty_def m_def)
  obtain r' e w where w: "run_state (writeAreasummary E (area_elem (sc s) area)) u = ((r', e), w)" by (metis surj_pair)
  have "tree_log E F w" by (rule keepsD [OF writeAreasummary_tree_log [OF assms(1)] u(1) w])
  moreover have "t = u \<or> t = w\<lparr>sc := upd_elem area (\<lambda>_. e) (sc w)\<rparr>"
    using run' w u(2) by (auto simp: m Let_def split: if_splits)
  ultimately show ?thesis using u(1) by (auto intro: tree_log_cong)
qed

lemma setPageStatus_tree_log:
  assumes ok: "cache_ok E (sc s)" and ready: "addr_ready E s a" "a \<noteq> 0" and log: "tree_log E F s"
    and run: "run_state (setPageStatus_addr E a v) s = (r, t)"
  shows "tree_log E F t"
proof -
  let ?N = "dataPagesPerArea E" and ?area = "extractLogicalArea a" and ?page = "extractPageOffs a"
  let ?e = "SummarySetStatus ?area ?page v"
  define u where "u = (log_event E ?e s)\<lparr>sc := upd_elem ?area (elem_setStatus ?N ?page v) (sc s)\<rparr>"
  have cached: "existsSummaryElem (sc s) ?area" using ready by (simp add: addr_ready_def addr_cached_def)
  have "tree_log E F (log_event E ?e s)"
    using tree_log_event [OF log, of ?e] extractLogicalArea_less extractPageOffs_less
    by (simp add: loggable_def machine_entry_def btree_isInterestedIn_def)
  then have u: "tree_log E F u" by (rule tree_log_cong) (simp_all add: u_def)
  have "mArea (elem_setStatus ?N ?page v e) = mArea e" for e :: AreaSummaryElem
    using slot_change_setStatus [of E e ?N ?page v] by (simp add: slot_change_def)
  then have "getArea (area_elem (sc u) ?area) = ?area"
    using upd_elem_area [OF ok cached cached] cached_slot [OF ok cached]
    by (simp add: u_def slot_filled_def area_elem_def getArea_def)
  then have "getArea (area_elem (sc u) ?area) < 2 ^ 16" using extractLogicalArea_less by simp
  from after_dirty_tree_log [OF this u]
  have "tree_log E F t" if "run_state (after_dirty E ?area ?page) u = (r, t)" using that .
  moreover have "t = s \<or> t = u \<or> run_state (after_dirty E ?area ?page) u = (r, t)"
    using run cached by (auto simp: setPageStatus_addr_def setPageStatus_def u_def Let_def split: if_splits)
  ultimately show ?thesis using u log by auto
qed

lemma dirty_pages_tree_log:
  assumes "cache_ok E (sc s)" and "\<not> readOnly s" and "\<forall>a\<in>set as. addr_ready E s a" and "tree_log E F s"
  shows "tree_log E F (snd (run_state (for_each as (dirty_page E)) s))"
  using assms
proof (induction as arbitrary: s)
  case (Cons a as)
  define u where "u = snd (run_state (dirty_page E a) s)"
  have u: "states_set E SE_dirty (pages_of [a]) s u" "tree_log E F u"
    using dirty_pages_states [OF Cons.prems(1,2), of "[a]"] Cons.prems
      setPageStatus_tree_log [OF Cons.prems(1) _ _ Cons.prems(4) surjective_pairing, of a SE_dirty]
    by (auto simp: u_def dirty_page_def split_beta)
  then have "tree_log E F (snd (run_state (for_each as (dirty_page E)) u))"
    using Cons.prems by (intro Cons.IH) (simp_all add: states_set_def addr_ready_states [OF u(1)])
  then show ?case by (simp add: u_def split_beta)
qed simp

text \<open>The steps of a transaction: its pages, the new root, and the end.\<close>

definition tree_transaction :: "'f env \<Rightarrow> (Addr \<times> Addr) list \<Rightarrow> Addr \<Rightarrow> nat \<Rightarrow> ('f dev, unit) state" where
  "tree_transaction E ps root n = do {
     for_each ps (\<lambda>(neu, old). do { _ \<leftarrow> replacePage E (tree_machine E) neu old; ret () });
     whenM (1 \<le> n) (do { _ \<leftarrow> registerRootnode E root; ret () });
     whenM (2 \<le> n) (do { _ \<leftarrow> invalidateOldPages E (tree_machine E); ret () })
   }"

definition with_pos :: "(Addr \<times> Addr) list \<Rightarrow> (Addr \<times> Addr \<times> nat) list" where
  "with_pos ps = map (\<lambda>(neu, old). (neu, old, 0)) ps"

definition replace_entries :: "(Addr \<times> Addr) list \<Rightarrow> Entry list" where
  "replace_entries ps = map (\<lambda>(neu, old). ReplacePage Tp_tree neu old) ps"

lemma with_pos_simps [simp]:
  "length (with_pos ps) = length ps" "map fst (with_pos ps) = map fst ps"
  "map (\<lambda>x. fst (snd x)) (with_pos ps) = map snd ps" "with_pos [] = []"
  "with_pos (ps @ qs) = with_pos ps @ with_pos qs" "with_pos [(neu, old)] = [(neu, old, 0)]"
  by (auto simp: with_pos_def)

lemma page_entries_tree [simp]: "page_entries (tree_machine E) ino (with_pos ps) = replace_entries ps"
  by (auto simp: page_entries_def with_pos_def replace_entries_def tree_machine_def)

text \<open>In the middle of a transaction that began in \<open>s\<close>: the machine holds the pages, the log their entries.\<close>

definition replacing :: "'f env \<Rightarrow> 'f dev \<Rightarrow> (Addr \<times> Addr) list \<Rightarrow> 'f dev \<Rightarrow> bool" where
  "replacing E s ps u \<longleftrightarrow> tree_log E (replace_entries ps) u \<and>
     holds_pages (tree_machine E) (with_pos ps) (tree_psm (tc u)) \<and> cache_ok E (sc u) \<and> \<not> readOnly u \<and>
     sb u = sb s \<and> existsSummaryElem (sc u) = existsSummaryElem (sc s)"

lemma holds_pages_record:
  assumes "holds_pages M ps p" and "length ps < maxPages M" and "\<not> withPosition M"
  shows "holds_pages M (ps @ [(neu, old, 0)]) ((record_page neu old p)\<lparr>pageListHWM := pageListHWM p + 1\<rparr>)"
  using assms by (simp add: holds_pages_def record_page_def take_Suc_update)

lemma replacing_step:
  assumes I: "replacing E s ps u" and len: "length ps < treeNodeCacheSize E" and ready: "addr_ready E s neu"
    and run: "run_state (replacePage E (tree_machine E) neu old) u = (r, t)"
  shows "replacing E s (ps @ [(neu, old)]) t"
proof -
  let ?M = "tree_machine E" and ?e = "ReplacePage Tp_tree neu old"
  let ?p = "(record_page neu old (tree_psm (tc u)))\<lparr>pageListHWM := pageListHWM (tree_psm (tc u)) + 1\<rparr>"
  have I': "tree_log E (replace_entries ps) u" "holds_pages ?M (with_pos ps) (tree_psm (tc u))" "cache_ok E (sc u)"
    "\<not> readOnly u" "sb u = sb s" "existsSummaryElem (sc u) = existsSummaryElem (sc s)"
    using I by (simp_all add: replacing_def)
  define v where "v = (log_event E ?e (u\<lparr>tc := (tc u)\<lparr>tree_psm := record_page neu old (tree_psm (tc u))\<rparr>\<rparr>))
      \<lparr>tc := (tc u)\<lparr>tree_psm := ?p\<rparr>\<rparr>"
  have tc_event: "tc (log_event E e x) = tc x" for e and x :: "'a dev" using log_event_form [of E e x] by auto
  have "tree_log E (replace_entries ps) (u\<lparr>tc := (tc u)\<lparr>tree_psm := record_page neu old (tree_psm (tc u))\<rparr>\<rparr>)"
    by (rule tree_log_cong [OF I'(1)]) simp_all
  from tree_log_event [OF this, of ?e] have "tree_log E (replace_entries (ps @ [(neu, old)]))
      (log_event E ?e (u\<lparr>tc := (tc u)\<lparr>tree_psm := record_page neu old (tree_psm (tc u))\<rparr>\<rparr>))"
    by (simp add: loggable_def machine_entry_def replace_entries_def)
  then have log: "tree_log E (replace_entries (ps @ [(neu, old)])) v" by (rule tree_log_cong) (simp_all add: v_def)
  have holds: "holds_pages ?M (with_pos (ps @ [(neu, old)])) ?p"
    using holds_pages_record [OF I'(2), of neu old] len by (simp add: tree_machine_def)
  have v: "replacing E s (ps @ [(neu, old)]) v"
    using log holds I'(3-6) by (simp add: replacing_def v_def)
  have notfull: "pageListHWM (tree_psm (tc u)) \<noteq> treeNodeCacheSize E" using I'(2) len by (simp add: holds_pages_def)
  have body: "run_state (if neu \<noteq> 0 then setPageStatus_addr E neu SE_used else ret R_ok) v = (r, t)"
    using run notfull by (simp add: replacePage_def replacePage_at_def tree_machine_def v_def tc_event
        record_page_def split_beta split: if_splits)
  show ?thesis
  proof (cases "neu = 0")
    case False
    have ready': "addr_ready E v neu"
      using ready v by (simp add: addr_ready_def addr_cached_def replacing_def)
    have run': "run_state (setPageStatus_addr E neu SE_used) v = (r, t)" using body False by simp
    have st: "states_set E SE_used (pages_of [neu]) v t"
      using setPageStatus_addr_states [OF _ _ ready' False run'] v by (simp add: replacing_def)
    have "tree_log E (replace_entries (ps @ [(neu, old)])) t"
      using setPageStatus_tree_log [OF _ ready' False _ run'] v by (simp add: replacing_def)
    then show ?thesis
      using v st states_set_exists [OF st] by (auto simp: replacing_def states_set_def clients_def)
  qed (use body v in simp)
qed

lemma replacing_all:
  assumes "replacing E s qs u" and "length qs + length ps \<le> treeNodeCacheSize E" and "\<forall>a\<in>set (map fst ps). addr_ready E s a"
  shows "replacing E s (qs @ ps) (snd (run_state (for_each ps (\<lambda>(neu, old). do {
      _ \<leftarrow> replacePage E (tree_machine E) neu old; ret () })) u))"
  using assms
proof (induction ps arbitrary: qs u)
  case (Cons p ps)
  obtain neu old where p: "p = (neu, old)" by (cases p)
  obtain r t where run: "run_state (replacePage E (tree_machine E) neu old) u = (r, t)" by (metis surj_pair)
  have "replacing E s (qs @ [p]) t"
    unfolding p by (rule replacing_step [OF Cons.prems(1) _ _ run]) (use Cons.prems p in auto)
  from Cons.IH [OF this] Cons.prems run show ?case by (simp add: p)
qed simp

text \<open>What the log holds at each stage.\<close>

definition stage_entries :: "(Addr \<times> Addr) list \<Rightarrow> Addr \<Rightarrow> nat \<Rightarrow> Entry list" where
  "stage_entries ps root n = replace_entries ps @ (if 1 \<le> n then [Rootnode root] else []) @
     (if 2 \<le> n \<and> (\<exists>a\<in>set (map snd ps). a \<noteq> 0) then [InvalidateOldPages Tp_tree] else [])"

lemma old_pages: "holds_pages M ps p \<Longrightarrow> take (pageListHWM p) (oldPageList p) = map (\<lambda>x. fst (snd x)) ps"
  by (simp add: holds_pages_def)

lemma registerRootnode_tree_log:
  assumes "tree_log E F s" and "root \<noteq> mRootnodeAddr (sb s)" and "run_state (registerRootnode E root) s = (r, t)"
  shows "tree_log E (F @ [Rootnode root]) t \<and> tc t = tc s \<and> sc t = sc s \<and> readOnly t = readOnly s \<and>
    sb t = (sb s)\<lparr>mRootnodeAddr := root, mRootnodeDirty := True\<rparr>"
proof -
  let ?s = "s\<lparr>sb := (sb s)\<lparr>mRootnodeAddr := root, mRootnodeDirty := True\<rparr>\<rparr>"
  have tc_event: "tc (log_event E e x) = tc x" for e and x :: "'a dev" using log_event_form [of E e x] by auto
  have "tree_log E F ?s" by (rule tree_log_cong [OF assms(1)]) simp_all
  from tree_log_event [OF this, of "Rootnode root"]
  have "tree_log E (F @ [Rootnode root]) (log_event E (Rootnode root) ?s)"
    by (simp add: loggable_def machine_entry_def btree_isInterestedIn_def)
  then show ?thesis using assms(2,3) by (auto simp: registerRootnode_def tc_event)
qed

lemma invalidate_tree_log:
  assumes "cache_ok E (sc s)" "\<not> readOnly s" and old: "take (pageListHWM (tree_psm (tc s))) (oldPageList (tree_psm (tc s))) = as"
    and "\<forall>a\<in>set as. addr_ready E s a" and "tree_log E F s"
    and run: "run_state (invalidateOldPages E (tree_machine E)) s = (r, t)"
  shows "tree_log E (F @ (if \<exists>a\<in>set as. a \<noteq> 0 then [InvalidateOldPages Tp_tree] else [])) t"
proof -
  define u where "u = snd (run_state (for_each as (dirty_page E)) s)"
  have u: "tree_log E F u" unfolding u_def by (rule dirty_pages_tree_log [OF assms(1,2,4,5)])
  let ?e = "InvalidateOldPages Tp_tree"
  have e: "tree_log E (F @ [?e]) (log_event E ?e u)"
    using tree_log_event [OF u, of ?e] by (simp add: loggable_def machine_entry_def)
  show ?thesis
  proof (cases "\<exists>a\<in>set as. a \<noteq> 0")
    case True
    then have "mram t = mram (log_event E ?e u) \<and> jr t = jr (log_event E ?e u)"
      using run by (auto simp: invalidateOldPages_def clear_machine_def Let_def u_def tree_machine_def old split_beta)
    then show ?thesis using True tree_log_cong [OF e] by simp
  next
    case False
    then have "mram t = mram u \<and> jr t = jr u"
      using run by (auto simp: invalidateOldPages_def clear_machine_def Let_def u_def tree_machine_def old split_beta)
    then show ?thesis using False tree_log_cong [OF u] by auto
  qed
qed

lemma transaction_recorded:
  assumes start: "mram_holds E s l0 (length l0)" "filter machine_entry l0 = []" "\<not> disabled (jr s)" "cache_ok E (sc s)" "\<not> readOnly s"
      "tree_psm (tc s) = psm_clear (treeNodeCacheSize E) False"
    and ps: "length ps \<le> treeNodeCacheSize E" "\<forall>(neu, old)\<in>set ps. addr_ready E s neu \<and> addr_ready E s old"
    and root: "root \<noteq> mRootnodeAddr (sb s)"
    and run: "run_state (tree_transaction E ps root n) s = (x, u)"
  shows "tree_log E (stage_entries ps root n) u \<and>
    (2 \<le> n \<longrightarrow> (\<forall>(area, page)\<in>pages_of (map snd ps). page_status E (sc u) area page = SE_dirty))"
proof -
  have zero: "replacing E s [] s"
    using start exI [of "\<lambda>l. mram_holds E s l (length l) \<and> (filter machine_entry l = [] \<or> log_full E s)" l0]
    by (simp add: replacing_def tree_log_def replace_entries_def holds_pages_def psm_clear_def tree_machine_def)
  define u1 where "u1 = snd (run_state (for_each ps (\<lambda>(neu, old). do {
      _ \<leftarrow> replacePage E (tree_machine E) neu old; ret () })) s)"
  have 1: "replacing E s ps u1"
    using replacing_all [OF zero, of ps] ps unfolding u1_def by fastforce
  then have log1: "tree_log E (replace_entries ps) u1" and sb1: "sb u1 = sb s"
    and old: "take (pageListHWM (tree_psm (tc u1))) (oldPageList (tree_psm (tc u1))) = map snd ps"
    using old_pages [of "tree_machine E" "with_pos ps" "tree_psm (tc u1)"] by (simp_all add: replacing_def)
  obtain r2 u2 where r2: "run_state (registerRootnode E root) u1 = (r2, u2)" by (metis surj_pair)
  have 2: "tree_log E (replace_entries ps @ [Rootnode root]) u2 \<and> tc u2 = tc u1 \<and> sc u2 = sc u1 \<and>
      readOnly u2 = readOnly u1 \<and> sb u2 = (sb u1)\<lparr>mRootnodeAddr := root, mRootnodeDirty := True\<rparr>"
    by (rule registerRootnode_tree_log [OF log1 _ r2]) (use root sb1 in simp)
  obtain r3 u3 where r3: "run_state (invalidateOldPages E (tree_machine E)) u2 = (r3, u3)" by (metis surj_pair)
  have ready: "\<forall>a\<in>set (map snd ps). addr_ready E u2 a"
    using ps(2) 1 2 by (auto simp: addr_ready_def addr_cached_def replacing_def getType_def)
  have ok2: "cache_ok E (sc u2)" "\<not> readOnly u2" using 1 2 by (simp_all add: replacing_def)
  have 3: "tree_log E ((replace_entries ps @ [Rootnode root]) @
      (if \<exists>a\<in>set (map snd ps). a \<noteq> 0 then [InvalidateOldPages Tp_tree] else [])) u3"
    by (rule invalidate_tree_log [OF ok2 _ ready _ r3]) (use old 2 in simp_all)
  have dirty: "page_statuses E u2 (pages_of (map snd ps)) u3"
    using tree.invalidate_statuses [OF ok2 _ r3] ready old 2 by (simp add: tree_machine_def)
  have cached: "existsSummaryElem (sc u2) area" if "(area, page) \<in> pages_of (map snd ps)" for area page
    using that ready by (auto simp: pages_of_def addr_ready_def addr_cached_def)
  have "u = (if n = 0 then u1 else if n = 1 then u2 else u3)"
    using run r2 r3 by (auto simp: tree_transaction_def u1_def split_beta split: if_splits)
  then show ?thesis
    using log1 2 3 dirty cached by (auto simp: stage_entries_def page_statuses_def)
qed

subsection \<open>What the tree makes of it in a replay\<close>

definition tree_replay :: "'f env \<Rightarrow> JournalEntryPosition \<Rightarrow> Entry list \<Rightarrow> ('f dev, unit) state" where
  "tree_replay E p l = for_each l (\<lambda>e. whenM (machine_entry e) (do { _ \<leftarrow> btree_processEntry E e p; ret () }))"

definition machine_input :: "Entry \<Rightarrow> Entry" where
  "machine_input e = (if btree_isInterestedIn e then Success Tp_tree else e)"

lemma run_tree_replay:
  "run_state (tree_replay E p l) s = run_state (replay_machine (tree_machine E) (map machine_input (filter machine_entry l))) s"
proof (induction l arbitrary: s)
  case (Cons e l)
  have "machine_entry e \<Longrightarrow> btree_processEntry E e p = machine_processEntry (tree_machine E) (machine_input e)"
    by (cases e) (auto simp: machine_entry_def machine_input_def btree_processEntry_def btree_isInterestedIn_def)
  then show ?case using Cons.IH by (simp add: tree_replay_def replay_machine_def split_beta)
qed (simp add: tree_replay_def replay_machine_def)

lemma machine_input_stage:
  "map machine_input (stage_entries ps root n) = transaction_log (tree_machine E) 0 (with_pos ps) (1 \<le> n) @
     (if 2 \<le> n \<and> (\<exists>a\<in>set (map snd ps). a \<noteq> 0) then [InvalidateOldPages Tp_tree] else [])"
  by (auto simp: stage_entries_def transaction_log_def replace_entries_def machine_input_def btree_isInterestedIn_def
      tree_machine_def page_entries_def with_pos_def)

lemma replay_stage:
  assumes "cache_ok E (sc v)" "\<not> readOnly v" "tree_psm (tc v) = psm_clear (treeNodeCacheSize E) False"
    and ps: "ps \<noteq> []" "length ps \<le> treeNodeCacheSize E" "\<forall>(neu, old)\<in>set ps. addr_ready E v neu \<and> addr_ready E v old"
    and l: "filter machine_entry l = stage_entries ps root n"
    and run: "run_state (do { tree_replay E p l; machine_signalEndOfLog E (tree_machine E) revert }) v = (r, t)"
  shows "page_statuses E v (pages_of (if n = 0 then map fst ps else if n = 1 then map snd ps else [])) t \<and>
    tree_psm (tc t) = psm_clear (treeNodeCacheSize E) False"
proof -
  let ?M = "tree_machine E" and ?tail = "if 2 \<le> n \<and> (\<exists>a\<in>set (map snd ps). a \<noteq> 0) then [InvalidateOldPages Tp_tree] else []"
  let ?as = "if 1 \<le> n then map (\<lambda>x. fst (snd x)) (with_pos ps) else map fst (with_pos ps)"
  have ready: "\<forall>a\<in>set ?as. addr_ready E v a" using ps(3) by auto
  note input = machine_input_stage [of ps root n E]
  show ?thesis
  proof (cases "?tail = []")
    case True
    then have "run_state (do { replay_machine ?M (transaction_log ?M 0 (with_pos ps) (1 \<le> n));
        machine_signalEndOfLog E ?M revert }) v = (r, t)"
      using run by (simp add: run_tree_replay l input del: if_split_asm)
    then have "page_statuses E v (pages_of ?as) t \<and> tree_psm (tc t) = psm_clear (treeNodeCacheSize E) False"
      using tree.transaction_atomic [where s = v and ps = "with_pos ps" and success = "1 \<le> n" and as = ?as and ino = 0
          and revert = revert and r = r and t = t and E = E] assms(1-3) ps(1,2) ready
      by (simp add: tree_machine_def with_pos_def)
    moreover have "2 \<le> n \<Longrightarrow> pages_of (map snd ps) = {}" using True by (auto simp: pages_of_def split: if_splits)
    ultimately show ?thesis by (cases "n = 0"; cases "n = 1") auto
  next
    case False
    then have n: "2 \<le> n" and any: "?tail = [InvalidateOldPages Tp_tree]" by (auto split: if_splits)
    obtain q where q: "psm_replay ?M (page_entries ?M 0 (with_pos ps)) (psm_clear (maxPages ?M) (withPosition ?M)) = Some q"
      "journalState q = J_invalid"
      using psm_replay_pages [of "with_pos ps" ?M 0] ps by (auto simp: tree_machine_def with_pos_def)
    have "psm_replay ?M (transaction_log ?M 0 (with_pos ps) (1 \<le> n) @ ?tail) (psm_get ?M v) =
        Some (psm_clear (treeNodeCacheSize E) False)"
      using q n any assms(3)
      by (simp add: transaction_log_def psm_replay_append psm_processEntry_def tree_machine_def del: if_split_asm)
    from tree.run_replay_machine [OF this]
    obtain w where w: "run_state (replay_machine ?M (transaction_log ?M 0 (with_pos ps) (1 \<le> n) @ ?tail)) v = ((), w)"
      "tree_psm (tc w) = psm_clear (treeNodeCacheSize E) False" "sc w = sc v" "sb w = sb v"
      by (auto simp: machine_laws)
    have "run_state (machine_signalEndOfLog E ?M revert) w = (r, t)"
      using run w(1) by (simp add: run_tree_replay l input)
    then have "sc t = sc v \<and> sb t = sb v \<and> tree_psm (tc t) = psm_clear (treeNodeCacheSize E) False"
      using w(2-4) by (auto simp: machine_signalEndOfLog_def clear_machine_def tree_machine_def psm_clear_def)
    then show ?thesis using n assms(1) by (simp add: page_statuses_def)
  qed
qed

lemma log_event_curr: "curr (jr (log_event E e s)) \<le> curr (jr s) + sizeof_Max (dataPagesPerArea E)"
proof -
  obtain r t where run: "run_state (appendEntry E e) s = (r, t)" by (metis surj_pair)
  have "curr (jr t) \<le> curr (jr s) + sizeof_Max (dataPagesPerArea E)"
    using run getSize_le_Max [of "dataPagesPerArea E" e]
    by (auto simp: appendEntry_def Let_def run_writeMRAM split: if_splits)
  moreover have "curr (jr (log_event E e s)) \<in> {curr (jr s), curr (jr t)}"
    using run by (auto simp: log_event_def addEvent_def split: if_splits Entry.splits)
  ultimately show ?thesis by auto
qed

lemma used_curr:
  assumes "existsSummaryElem (sc s) (extractLogicalArea a)"
  shows "curr (jr (snd (run_state (setPageStatus_addr E a SE_used) s))) \<le> curr (jr s) + sizeof_Max (dataPagesPerArea E)"
  using assms by (simp add: setPageStatus_addr_def setPageStatus_def Let_def log_event_curr)

text \<open>A log that is empty, and a page of the index that moves.\<close>

definition ex_log_start :: "ram_flash dev" where
  "ex_log_start = ex_sum_dev\<lparr>mram := put_bytes 0 (le_bytes 4 4) (\<lambda>_. 0)\<rparr>"

definition ex_moved :: "(Addr \<times> Addr) list" where
  "ex_moved = [(combineAddress 3 1, combineAddress 3 0)]"

lemma ex_moved_room:
  "\<not> log_full ex_env (snd (run_state (tree_transaction ex_env ex_moved (combineAddress 3 1) 1) ex_log_start))"
proof -
  let ?step = "\<lambda>s t :: ram_flash dev. curr (jr t) \<le> curr (jr s) + 96"
  have m: "sizeof_Max 3 = 96" by (simp add: sizeof_Max_def tbl_struct_size_def TwoBitList_byteUsage_def)
  have ev: "curr (jr (log_event ex_env e s)) \<le> curr (jr s) + 96" for s :: "ram_flash dev" and e using log_event_curr [of ex_env e s] m by simp
  let ?M = "tree_machine ex_env" and ?a = "combineAddress 3 1" and ?old = "combineAddress 3 0"
  have tc_event: "tc (log_event E e x) = tc x" for E :: "ram_flash env" and e x using log_event_form [of E e x] by auto
  define v where "v = (log_event ex_env (ReplacePage Tp_tree ?a ?old) (ex_log_start
      \<lparr>tc := (tc ex_log_start)\<lparr>tree_psm := record_page ?a ?old (psm_clear 3 False)\<rparr>\<rparr>))"
  define w where "w = v\<lparr>tc := (tc v)\<lparr>tree_psm := (tree_psm (tc v))\<lparr>pageListHWM := Suc (pageListHWM (tree_psm (tc v)))\<rparr>\<rparr>\<rparr>"
  define x where "x = snd (run_state (setPageStatus_addr ex_env ?a SE_used) w)"
  define y where "y = snd (run_state (registerRootnode ex_env ?a) x)"
  have start: "curr (jr ex_log_start) = 4" "tree_psm (tc ex_log_start) = psm_clear 3 False" "sc ex_log_start = sc ex_sum_dev"
    by (simp_all add: ex_log_start_def) (simp add: ex_sum_dev_def ex_dev_def)
  have nz: "?a \<noteq> 0" by code_simp
  have n: "treeNodeCacheSize ex_env = 3" by (simp add: ex_env_def)
  have pageListHWM_clear: "pageListHWM (psm_clear 3 False) = 0" by (simp add: psm_clear_def)
  have "?step ex_log_start w" using ev [of "ReplacePage Tp_tree ?a ?old" "ex_log_start\<lparr>tc := (tc ex_log_start)\<lparr>tree_psm := record_page ?a ?old (psm_clear 3 False)\<rparr>\<rparr>"] by (simp add: w_def v_def)
  moreover have "?step w x"
    using used_curr [of w ?a ex_env] m start(3)
    by (simp add: x_def w_def v_def existsSummaryElem_def)
  moreover have "?step x y"
    using ev [of "Rootnode ?a" "x\<lparr>sb := (sb x)\<lparr>mRootnodeAddr := ?a, mRootnodeDirty := True\<rparr>\<rparr>"] by (simp add: y_def registerRootnode_def)
  moreover have "snd (run_state (tree_transaction ex_env ex_moved ?a 1) ex_log_start) = y"
    using start(2) nz n by (simp add: tree_transaction_def ex_moved_def replacePage_def pageListHWM_clear replacePage_at_def tree_machine_def
        v_def w_def x_def y_def split_beta)
  ultimately show ?thesis using m start(1) by (simp add: log_full_def)
qed
text \<open>
  C16: a transaction of the tree is atomic over a power cut. Take any sequence of pages that
  \<open>replacePage\<close> replaces (stage 0), the new root node that \<open>registerRootnode\<close> enters then (stage 1),
  and \<open>invalidateOldPages\<close> behind it (stage 2), and let the power fail after one of the stages, with
  room for another entry in the log. The log in the MRAM is then such that the tree, handed its
  entries in a replay and told their end, dirties the new pages at stage 0, the replaced pages at
  stage 1, and nothing at stage 2, where the replaced pages were dirty before the power cut; no
  other page of a cached area changes its state, the area map is not touched, and the machine is
  empty again. The replay runs on any device \<open>v\<close> whose machine is empty and which caches the
  summaries of the pages.
\<close>

theorem tree_transaction_atomic:
  assumes "mram_holds E s l0 (length l0)" "filter machine_entry l0 = []" "\<not> disabled (jr s)"
    and "cache_ok E (sc s)" "\<not> readOnly s" "tree_psm (tc s) = psm_clear (treeNodeCacheSize E) False"
    and "ps \<noteq> []" "length ps \<le> treeNodeCacheSize E"
    and "\<forall>(neu, old)\<in>set ps. addr_ready E s neu \<and> addr_ready E s old" and "root \<noteq> mRootnodeAddr (sb s)"
    and "run_state (tree_transaction E ps root n) s = (x, u)" and "\<not> log_full E u"
    and "cache_ok E (sc v)" "\<not> readOnly v" "tree_psm (tc v) = psm_clear (treeNodeCacheSize E) False"
    and "\<forall>(neu, old)\<in>set ps. addr_ready E v neu \<and> addr_ready E v old"
  shows "\<exists>l. mram_holds E u l (length l) \<and>
     (\<forall>p r t. run_state (do { tree_replay E p l; machine_signalEndOfLog E (tree_machine E) revert }) v = (r, t) \<longrightarrow>
        page_statuses E v (pages_of (if n = 0 then map fst ps else if n = 1 then map snd ps else [])) t \<and>
        tree_psm (tc t) = psm_clear (treeNodeCacheSize E) False) \<and>
     (2 \<le> n \<longrightarrow> (\<forall>(area, page)\<in>pages_of (map snd ps). page_status E (sc u) area page = SE_dirty))"
proof -
  from transaction_recorded [OF assms(1-6,8-11)]
  obtain l where l: "mram_holds E u l (length l)" "filter machine_entry l = stage_entries ps root n"
    and dirty: "2 \<le> n \<longrightarrow> (\<forall>(area, page)\<in>pages_of (map snd ps). page_status E (sc u) area page = SE_dirty)"
    using assms(12) by (auto simp: tree_log_def)
  then show ?thesis using replay_stage [OF assms(13-15,7,8,16) l(2)] by blast
qed

theorem tree_transaction_atomic_witness:
  "\<exists>l t. mram_holds ex_env (snd (run_state (tree_transaction ex_env ex_moved (combineAddress 3 1) 1) ex_log_start)) l (length l) \<and>
     snd (run_state (do { tree_replay ex_env (pos_of 0) l; machine_signalEndOfLog ex_env (tree_machine ex_env) (\<lambda>_ _. ret ()) })
       ex_sum_dev) = t \<and>
     addr_status ex_env (sc t) (combineAddress 3 0) = SE_dirty"
proof -
  let ?u = "snd (run_state (tree_transaction ex_env ex_moved (combineAddress 3 1) 1) ex_log_start)"
  have n: "treeNodeCacheSize ex_env = 3" by (simp add: ex_env_def)
  have start: "mram_holds ex_env ex_log_start [] (length ([] :: Entry list))" "\<not> disabled (jr ex_log_start)"
    "sc ex_log_start = sc ex_sum_dev" "sb ex_log_start = ex_sb" "readOnly ex_log_start = False"
    "tree_psm (tc ex_log_start) = psm_clear 3 False"
    using seg_put_same [of 0 "le_bytes 4 4"]
    by (simp_all add: mram_holds_def log_end_def ex_log_start_def seg_def) (simp_all add: ex_sum_dev_def ex_dev_def)
  have ready: "\<forall>(neu, old)\<in>set ex_moved. addr_ready ex_env s neu \<and> addr_ready ex_env s old"
    if "sc s = sc ex_sum_dev" "sb s = ex_sb" for s :: "ram_flash dev"
    using ex_ready [of "combineAddress 3 0"] ex_ready [of "combineAddress 3 1"] that
    by (simp add: ex_moved_def addr_ready_def)
  have root: "combineAddress 3 1 \<noteq> mRootnodeAddr ex_sb" by code_simp
  obtain x where run: "run_state (tree_transaction ex_env ex_moved (combineAddress 3 1) 1) ex_log_start = (x, ?u)"
    by (metis prod.collapse)
  have "\<exists>l. mram_holds ex_env ?u l (length l) \<and>
     (\<forall>p r t. run_state (do { tree_replay ex_env p l; machine_signalEndOfLog ex_env (tree_machine ex_env) (\<lambda>_ _. ret ()) }) ex_sum_dev = (r, t) \<longrightarrow>
        page_statuses ex_env ex_sum_dev (pages_of (if (1::nat) = 0 then map fst ex_moved else if (1::nat) = 1 then map snd ex_moved else [])) t \<and>
        tree_psm (tc t) = psm_clear (treeNodeCacheSize ex_env) False) \<and>
     (2 \<le> (1::nat) \<longrightarrow> (\<forall>(area, page)\<in>pages_of (map snd ex_moved). page_status ex_env (sc ?u) area page = SE_dirty))"
    by (rule tree_transaction_atomic [OF start(1) _ start(2) _ _ _ _ _ ready [OF start(3,4)] _ run ex_moved_room
          ex_sum_ok _ _ ready]) (simp_all add: start n ex_sum_ok root [simplified], simp_all add: ex_moved_def)
  then obtain l where l: "mram_holds ex_env ?u l (length l)"
    and replay: "\<And>p r t. run_state (do { tree_replay ex_env p l; machine_signalEndOfLog ex_env (tree_machine ex_env) (\<lambda>_ _. ret ()) })
        ex_sum_dev = (r, t) \<Longrightarrow> page_statuses ex_env ex_sum_dev (pages_of (map snd ex_moved)) t" by auto
  from replay [OF surjective_pairing, of "pos_of 0"] l show ?thesis
    by (auto simp: page_statuses_def ex_moved_def addr_status_def existsSummaryElem_def ex_addr_nonzero)
qed

text \<open>
  The entry that a revert logs is refused by the next replay. After the entries of a
  transaction without success, \<^verbatim>\<open>InvalidateOldPages\<close> is answered with \<^verbatim>\<open>Result::bug\<close>, and the machine
  still holds the pages as a transaction to revert: a second power cut reverts them once more,
  and later transactions are appended to them.
\<close>

theorem revert_entry_refused:
  assumes "length ps \<le> maxPages M" and "ps \<noteq> []"
  shows "\<exists>p. psm_replay M (page_entries M ino ps) (psm_clear (maxPages M) (withPosition M)) = Some p \<and>
     holds_pages M ps p \<and> journalState p = J_invalid \<and>
     psm_processEntry M (InvalidateOldPages (psm_topic M)) p = Some (R_bug, p)"
  using psm_replay_pages [OF assms(1), of ino] assms(2) by (auto simp: psm_processEntry_def)

theorem revert_entry_refused_witness:
  "\<exists>p. psm_processEntry (dio_machine ex_env) (InvalidateOldPages Tp_dataIO) p = Some (R_bug, p) \<and>
     holds_pages (dio_machine ex_env) ex_pages p"
  using revert_entry_refused [of ex_pages "dio_machine ex_env" 7] by (auto simp: dio_machine_def ex_env_def ex_pages_def)

text \<open>
  At the end of a transaction of the data I/O the replaced pages are dirty, and no other
  page of a cached area has changed its state; the machine is empty again.
\<close>

theorem invalidateOldPages_effect:
  assumes "cache_ok E (sc s)" and "\<not> readOnly s"
    and "\<forall>a\<in>set (take (pageListHWM (dio_psm (dio s))) (oldPageList (dio_psm (dio s)))). addr_ready E s a"
    and "run_state (invalidateOldPages E (dio_machine E)) s = (r, t)"
  shows "r = R_ok \<and>
     page_statuses E s (pages_of (take (pageListHWM (dio_psm (dio s))) (oldPageList (dio_psm (dio s))))) t \<and>
     dio_psm (dio t) = psm_clear (maxPagesPerWrite E) True"
  using diom.invalidate_statuses [OF assms(1,2) _ assms(4)] assms(3) by (simp add: dio_machine_def)

definition ex_dio_dev :: "ram_flash dev" where
  "ex_dio_dev = ex_sum_dev\<lparr>dio := (dio ex_sum_dev)\<lparr>dio_psm := \<lparr>newPageList = [combineAddress 3 1, 0, 0, 0],
     oldPageList = [combineAddress 3 0, 0, 0, 0], psm_position = [0, 0, 0, 0], pageListHWM = 1, currentInode = 0,
     journalState = J_ok\<rparr>\<rparr>\<rparr>"

theorem invalidateOldPages_effect_witness:
  "addr_status ex_env (sc (snd (run_state (invalidateOldPages ex_env (dio_machine ex_env)) ex_dio_dev))) (combineAddress 3 0)
     = SE_dirty"
proof -
  obtain r t where run: "run_state (invalidateOldPages ex_env (dio_machine ex_env)) ex_dio_dev = (r, t)" by (metis surj_pair)
  have p: "pageListHWM (dio_psm (dio ex_dio_dev)) = 1"
    "oldPageList (dio_psm (dio ex_dio_dev)) = [combineAddress 3 0, 0, 0, 0]"
    "sc ex_dio_dev = sc ex_sum_dev" "sb ex_dio_dev = ex_sb" "readOnly ex_dio_dev = False"
    by (simp_all add: ex_dio_dev_def)
  have "addr_ready ex_env ex_dio_dev (combineAddress 3 0)"
    using ex_ready [of "combineAddress 3 0"] by (simp add: addr_ready_def p)
  then have "page_statuses ex_env ex_dio_dev (pages_of [combineAddress 3 0]) t"
    using invalidateOldPages_effect [OF _ _ _ run] ex_sum_ok by (simp add: p)
  then show ?thesis unfolding run
    by (simp add: page_statuses_def addr_status_def existsSummaryElem_def p ex_addr_nonzero)
qed

end
