(* ===== verification/SuperProperties.thy ===== *)
theory SuperProperties
  imports SuperChainFacts ExampleDevice
begin

text \<open>
  The properties of the super chain: what a superblock writes to its areas is found again, and
  where that fails.
\<close>

subsection \<open>The chain on the example device\<close>

definition ex_content :: "ram_flash \<Rightarrow> PageAbs \<Rightarrow> byte list" where
  "ex_content f p = f p @ replicate 64 0xFF"

definition ex_env_64 :: "ram_flash env" where
  "ex_env_64 = ex_env\<lparr>dataBytesPerPage := 48, oobBytesPerPage := 16\<rparr>"

lemma ram_flash_ok:
  assumes "drv_readPage E = ram_read" and "drv_writePage E = ram_write" and "totalBytesPerPage E \<le> 64"
  shows "flash_ok E ex_content"
proof -
  have take: "take n (f p @ replicate n 0xFF) = take n (ex_content f p)" if "n \<le> 64" for n p and f :: ram_flash
    using that by (simp add: ex_content_def min_def)
  have new: "ex_content (f(p := bs)) = (ex_content f)(p := bs @ replicate 64 0xFF)" for f p bs
    by (simp add: fun_eq_iff ex_content_def)
  show ?thesis
    unfolding flash_ok_def assms(1,2) ram_read_def ram_write_def
    using assms(3) take new by (auto simp: ex_content_def)
qed

lemma ex64_dims [simp]:
  "totalBytesPerPage ex_env_64 = 64" "pagesPerBlock ex_env_64 = 2" "blocksPerArea ex_env_64 = 2"
  by (simp_all add: ex_env_64_def ex_env_def totalBytesPerPage_def)

lemma ex64_flash: "flash_ok ex_env_64 ex_content"
  by (rule ram_flash_ok) (simp_all, simp_all add: ex_env_64_def ex_env_def)

lemma ex_flash: "flash_ok ex_env ex_content"
  by (rule ram_flash_ok) (simp_all add: ex_env_def totalBytesPerPage_def)

lemma ex_dev_flash: "flash ex_dev = (\<lambda>_. [])"
  by (simp add: ex_dev_def)

lemma ex_blank [simp]: "ex_content (flash ex_dev) p = replicate 64 0xFF"
  by (simp only: ex_dev_flash ex_content_def append_Nil)

lemma blank_serial [simp]: "serial_of (replicate 64 0xFF) = emptySerial"
proof -
  have "replicate 4 x = [x, x, x, x]" for x :: byte by (simp add: numeral_eq_Suc)
  then show ?thesis by (simp add: serial_of_def rd_def take_replicate le_value_def emptySerial_def)
qed

text \<open>
  C6: in a block of a chain area that holds \<open>m\<close> entries with increasing serial numbers, followed by
  free pages, the next entry is written behind the last one; once an entry with a larger serial
  number is written there, the search for the most recent entry answers it: its page,
  its serial number, the area it points to and the area it left.
\<close>

theorem superchain_append_found:
  assumes ok: "flash_ok E content" "8 \<le> totalBytesPerPage E"
    and log: "block_log (content (flash s)) base (pagesPerBlock E) m" and m: "m < pagesPerBlock E"
    and base: "base = pagesPerBlock E * (area * blocksPerArea E + block)" "base + pagesPerBlock E \<le> 2 ^ 16"
    and no: "no < emptySerial" "\<forall>i<m. serial_of (content (flash s) (base + i)) < no"
    and run: "run_state (do {
        (r, page) \<leftarrow> findFirstFreeEntryInBlock E area block 1;
        r' \<leftarrow> writePage E (base + page) (jumppad_bytes \<lparr>jp_no = no, jp_logPrev = prev, jp_nextArea = nxt\<rparr>);
        (r'', found) \<leftarrow> readMostRecentEntryInBlock E area block (0, 0);
        ret (r, r', r'', found)
      }) s = ((r, r', r'', found), t)"
    and nxt: "nxt < 2 ^ 16" "prev < 2 ^ 16"
  shows "r = R_ok \<and> r' = R_ok \<and> r'' = R_ok
    \<and> found = \<lparr>rc_pos = base + m, rc_index = no, rc_overflow = (no = 0), rc_next = nxt, rc_logPrev = prev\<rparr>"
proof -
  let ?bs = "jumppad_bytes \<lparr>jp_no = no, jp_logPrev = prev, jp_nextArea = nxt\<rparr>"
  have small: "pagesPerBlock E * (area * blocksPerArea E + block) < 2 ^ 16" using base m by simp
  have free: "run_state (findFirstFreeEntryInBlock E area block 1) s = ((R_ok, m), s)"
    using first_free_in_block [OF ok(1) _ _ small, of s m] ok(2) log m base(1) by simp
  have "length ?bs \<le> totalBytesPerPage E" using ok(2) by (simp add: jumppad_bytes_def)
  then obtain f tail where w: "run_state (writePage E (base + m) ?bs) s = (R_ok, s\<lparr>flash := f\<rparr>)"
    and f: "content f = (content (flash s))(base + m := ?bs @ tail)"
    using run_writePage [OF ok(1)] by blast
  have new: "serial_of (content f (base + m)) = no" "rd (content f (base + m)) 6 2 = nxt" "rd (content f (base + m)) 4 2 = prev"
    using no(1) nxt by (simp_all add: f serial_of_def jumppad_bytes_def rd_simps emptySerial_def)
  have other: "content f (base + i) = content (flash s) (base + i)" if "i \<noteq> m" for i
    using that by (simp add: f)
  have "block_log (content f) base (pagesPerBlock E) (Suc m)"
    by (rule block_log_append [OF log m]) (use no new(1) other in auto)
  then have "block_log (content (flash (s\<lparr>flash := f\<rparr>))) (pagesPerBlock E * (block + area * blocksPerArea E))
      (pagesPerBlock E) (Suc m)"
    by (simp add: base(1) add.commute)
  from most_recent_in_block [OF ok this] m
  have "run_state (readMostRecentEntryInBlock E area block (0, 0)) (s\<lparr>flash := f\<rparr>) =
      ((R_ok, recent_of (content f) (base + m)), s\<lparr>flash := f\<rparr>)"
    by (auto simp: base(1) add.commute)
  then show ?thesis
    using run free w new base(2) m by (simp add: recent_of_def)
qed

theorem superchain_append_found_witness:
  "fst (run_state (do {
        (r, page) \<leftarrow> findFirstFreeEntryInBlock ex_env_64 1 0 1;
        r' \<leftarrow> writePage ex_env_64 (4 + page) (jumppad_bytes \<lparr>jp_no = 0, jp_logPrev = 2, jp_nextArea = 3\<rparr>);
        (r'', found) \<leftarrow> readMostRecentEntryInBlock ex_env_64 1 0 (0, 0);
        ret (r, r', r'', found)
      }) ex_dev) =
   (R_ok, R_ok, R_ok, \<lparr>rc_pos = 4, rc_index = 0, rc_overflow = True, rc_next = 3, rc_logPrev = 2\<rparr>)"
  (is "fst (run_state ?m ex_dev) = _")
proof -
  obtain r r' r'' found t where run: "run_state ?m ex_dev = ((r, r', r'', found), t)" by (metis surj_pair)
  have blank: "serial_of (ex_content (flash ex_dev) p) = emptySerial" for p
    by (simp only: ex_blank blank_serial)
  have log: "block_log (ex_content (flash ex_dev)) 4 (pagesPerBlock ex_env_64) 0"
    by (simp add: block_log_def blank_serial)
  have "r = R_ok \<and> r' = R_ok \<and> r'' = R_ok \<and>
      found = \<lparr>rc_pos = 4 + 0, rc_index = 0, rc_overflow = ((0::nat) = 0), rc_next = 3, rc_logPrev = 2\<rparr>"
    by (rule superchain_append_found [OF ex64_flash _ log _ _ _ _ _ run]) (simp_all add: emptySerial_def)
  then show ?thesis unfolding run by simp
qed

subsection \<open>The superindex\<close>

text \<open>
  C5: a superindex that was written is read back. On a flash that keeps its content, the write of a
  plausible index succeeds and leaves the area map alone; reading at the same address then succeeds
  and answers the index with the area map, active areas and counters that were
  written, the summaries in the slots they were written from (a summary of the second slot alone
  comes back in the first), provided that the number of pages does not depend on the number of
  summaries.
\<close>

theorem superindex_roundtrip:
  assumes "flash_ok E content" and "4 < dataBytesPerPage E" and "superindex_fits E"
    and "superindex_ok E (bind_index (sb s) x)" and "isPlausible E (bind_index (sb s) x) = Some True"
    and "si_no x < emptySerial" and "length (si_summaries y) = 2" and "\<not> readOnly s"
    and "superindex_pages E (getNeededBytes E x) = superindex_pages E (getNeededBytes_for E 2)"
    and "run_state (writeSuperPageIndex E (getPageNumberFromDirect E addr) x) s = (r, t)"
  shows "r = R_ok \<and> sb t = sb s \<and>
    run_state (readSuperPageIndex E addr y) t =
      ((R_ok, (bind_index (sb s) x)\<lparr>si_summaries :=
          loaded_summaries (si_areaSummaryPositions x) (si_summaries x) (si_summaries y)\<rparr>), t)"
  using superindex_flash_roundtrip_at [OF assms(1,2,4,3,5) _ assms(9,7,8,10)] assms(6)
  by (simp add: emptySerial_def)

definition ex_index :: SuperIndex where
  "ex_index = \<lparr>si_no = 1, si_logPrev = 0, si_rootNode = 0x00030000, si_usedAreas = 4, si_areaMap = [],
     si_activeArea = [], si_overallDeletions = 0, si_areaSummaryPositions = [2, 3], si_summaries = [[0x15], [0x2A]]\<rparr>"

lemma ex_index_ok: "superindex_ok ex_env (bind_index ex_sb ex_index)"
  by (simp add: superindex_ok_def bind_index_def ex_index_def ex_sb_def ex_area_def area_record_ok_def
      TwoBitList_byteUsage_def)

lemma ex_index_plausible: "isPlausible ex_env (bind_index ex_sb ex_index) = Some True"
proof -
  note B = bind_index_def ex_index_def ex_sb_def ex_area_def
  have "plausible_position ex_env (bind_index ex_sb ex_index) 2 = Some True"
    "plausible_position ex_env (bind_index ex_sb ex_index) 3 = Some True"
    by (simp_all add: plausible_position_def nth_opt_def B)
  moreover have "active_has_summary (bind_index ex_sb ex_index) t" if "t = T_data \<or> t = T_index" for t
    using that by (auto simp: active_has_summary_def B)
  moreover have "counts_match ex_env (bind_index ex_sb ex_index)"
    by (simp add: counts_match_def count_upto_def B upt_rec)
  ultimately show ?thesis
    by (simp add: isPlausible_def) (simp add: bind_index_def ex_index_def)
qed

lemma ex_index_pages:
  "superindex_pages ex_env (getNeededBytes ex_env ex_index) = superindex_pages ex_env (getNeededBytes_for ex_env 2)"
  by (simp add: superindex_pages_def getNeededBytes_def ex_index_def numeral_eq_Suc)

theorem superindex_roundtrip_witness:
  "fst (fst (run_state (do {
     r \<leftarrow> writeSuperPageIndex ex_env (getPageNumberFromDirect ex_env (combineAddress 5 0)) ex_index;
     readSuperPageIndex ex_env (combineAddress 5 0) ex_index
   }) ex_dev)) = R_ok"
proof -
  have "superindex_fits ex_env" by (simp add: superindex_fits_def TwoBitList_byteUsage_def)
  then show ?thesis
    using superindex_roundtrip [where s = ex_dev and x = ex_index and y = ex_index and addr = "combineAddress 5 0",
        OF ex_flash _ _ _ _ _ _ _ _ surjective_pairing] ex_index_ok ex_index_plausible ex_index_pages
    by (simp add: split_beta) (simp add: ex_index_def emptySerial_def ex_dev_def)
qed

text \<open>
  C30: an index whose area map is consistent is plausible exactly if its erase counts add up to the
  deletion counter. (The erase counts wrap at \<open>2 ^ 17\<close>, the counter does not.)
\<close>

theorem superindex_plausible_iff:
  assumes "area_ok E B" and "areasNo E < 2 ^ 16" and "sum_list (erases B) < 2 ^ 64"
    and "si_areaMap x = mMap B" and "si_activeArea x = mActiveAreas B"
    and "si_usedAreas x = mUsedAreas B" and "si_overallDeletions x = mOverallDeletions B"
    and "si_areaSummaryPositions x = [p, q]"
    and "\<forall>a\<in>{p, q}. a = 0 \<or> a < areasNo E \<and> getStatus E B a \<noteq> S_empty \<and> getType E B a \<noteq> T_no"
    and "\<forall>t\<in>{T_data, T_index}. getActiveArea B t \<in> {0, p, q}"
  shows "isPlausible E x = Some (sum_list (erases B) = mOverallDeletions B)"
proof -
  have pos: "plausible_position E x a = Some True" if "a \<in> {p, q}" for a
    by (rule plausible_position_ok [OF assms(1) _ assms(4,5)])
      (use assms(9) that in \<open>auto simp: getStatus_stat getType_ty\<close>)
  have act: "active_has_summary x t" if "t \<in> {T_data, T_index}" for t
    using assms(10) that by (auto simp: active_has_summary_def Let_def assms(5,8) getActiveArea_def)
  show ?thesis
    using counts_match_ok [OF assms(1-4,6,7)] pos act assms(8) by (simp add: isPlausible_def)
qed

theorem superindex_plausible_iff_witness:
  "isPlausible ex_env (bind_index ex_sb ex_index) = Some True"
  using superindex_plausible_iff [OF ex_area_ok, of "bind_index ex_sb ex_index" 2 3]
  by (simp add: bind_index_def ex_index_def) (simp add: ex_sb_def ex_area_def erases_def getStatus_def getType_def getActiveArea_def)

subsection \<open>Where the chain falls short\<close>

text \<open>
  A bit error that the driver corrected on the first page of a superindex makes the read
  succeed without reading anything: the answer is \<^verbatim>\<open>Result::ok\<close> with the caller's index, and no
  serial number.
\<close>

theorem superindex_bit_error:
  assumes "drv_readPage E (getPageNumberFromDirect E addr) (chunk_size E (getNeededBytes_for E 2) 0 + 4) (flash s)
      = ((R_biterrorCorrected, bs), f)"
    and "0 < superindex_pages E (getNeededBytes_for E 2)"
  shows "run_state (readSuperPageIndex E addr y) s = ((R_ok, y\<lparr>si_no := emptySerial\<rparr>), s\<lparr>flash := f\<rparr>)"
  using assms by (simp add: readSuperPageIndex_def Let_def upt_conv_Cons read_index_page_def readPage_def)

definition ex_env_biterror :: "ram_flash env" where
  "ex_env_biterror = ex_env\<lparr>drv_readPage := \<lambda>p n f. ((R_biterrorCorrected, replicate n 0), f)\<rparr>"

theorem superindex_bit_error_witness:
  "fst (run_state (readSuperPageIndex ex_env_biterror 0 ex_index) ex_dev) = (R_ok, ex_index\<lparr>si_no := emptySerial\<rparr>)"
proof -
  have "areasNo ex_env_biterror = 6" "dataPagesPerArea ex_env_biterror = 3"
    by (simp_all add: ex_env_biterror_def ex_env_def areasNo_def totalPagesPerArea_def oobPagesPerArea_def
        dataPagesPerArea_def ceil_div_def)
  then have "0 < superindex_pages ex_env_biterror (getNeededBytes_for ex_env_biterror 2)"
    by (simp add: superindex_pages_def getNeededBytes_for_def ceil_div_def TwoBitList_byteUsage_def ex_env_biterror_def)
  then show ?thesis
    using superindex_bit_error [where E = ex_env_biterror and addr = 0 and s = ex_dev and y = ex_index]
    by (simp add: ex_env_biterror_def)
qed

text \<open>
  When a chain element starts a new block, the block of its previous entry is erased, exactly
  that one, and the serial numbers restart at 0; otherwise nothing happens. In neither case does
  the area map change: the erases of superblock areas are not counted.
\<close>

theorem handleBlockOverflow_effect:
  assumes "extractPageOffs logPrev < totalPagesPerArea E"
    and "getType E (sb s) (extractLogicalArea logPrev) = T_superblock"
    and "run_state (handleBlockOverflow E newPage logPrev serial) s = ((r, no), t)"
  shows "let old = getBlockNumber E (sb s) logPrev in
    if newPage div pagesPerBlock E = old then r = R_ok \<and> no = serial \<and> t = s
    else no = 0 \<and> (r, flash t) = drv_eraseBlock E old (flash s) \<and> t = s\<lparr>flash := flash t\<rparr>"
proof -
  have "extractPageOffs logPrev div pagesPerBlock E < blocksPerArea E"
    using assms(1) by (simp add: totalPagesPerArea_def less_mult_imp_div_less)
  then show ?thesis
    using assms(2,3)
    by (auto simp: handleBlockOverflow_def deleteSuperBlock_def eraseBlock_def getBlockNumber_def
        Let_def split: if_splits prod.splits)
qed

theorem handleBlockOverflow_effect_witness:
  "fst (run_state (handleBlockOverflow ex_env 2 (combineAddress 0 1) 7) ex_dev) = (R_ok, 0)"
proof -
  obtain r no t where run: "run_state (handleBlockOverflow ex_env 2 (combineAddress 0 1) 7) ex_dev = ((r, no), t)"
    by (metis surj_pair)
  have "getBlockNumber ex_env ex_sb (combineAddress 0 1) = 0" "drv_eraseBlock ex_env = ram_erase"
    "getType ex_env ex_sb 0 = T_superblock"
    by (simp_all add: getBlockNumber_def getPos_def getType_def ex_sb_def ex_area_def) (simp add: ex_env_def)
  then have "r = R_ok \<and> no = 0"
    using handleBlockOverflow_effect [OF _ _ run] by (simp add: ram_erase_def)
  then show ?thesis unfolding run by simp
qed

end
