(* ===== verification/GcPreservation.thy ===== *)
theory GcPreservation
  imports GcData PageStateProperties SuperProperties
begin

text \<open>
  The two rounds of a garbage collection, statement by statement: the pages in use keep their contents.
\<close>

subsection \<open>Erasing and the area map\<close>

text \<open>Erasing a block succeeds and leaves the pages of the other blocks as they are.\<close>

definition erase_local :: "'f env \<Rightarrow> ('f \<Rightarrow> PageAbs \<Rightarrow> byte list) \<Rightarrow> bool" where
  "erase_local E content \<longleftrightarrow> (\<forall>b f. \<exists>f'. drv_eraseBlock E b f = (R_ok, f') \<and>
     (\<forall>p. p div pagesPerBlock E \<noteq> b \<longrightarrow> content f' p = content f p))"

lemma active_slot:
  "getActiveArea (B\<lparr>mActiveAreas := (mActiveAreas B)[area_type_code t := a]\<rparr>) u = a \<or>
   getActiveArea (B\<lparr>mActiveAreas := (mActiveAreas B)[area_type_code t := a]\<rparr>) u = getActiveArea B u"
  by (cases "area_type_code t < length (mActiveAreas B)")
    (auto simp: getActiveArea_def nth_list_update list_update_beyond)

lemma getActiveArea_upd [simp]: "getActiveArea (upd_area a f B) t = getActiveArea B t"
  by (simp add: getActiveArea_def)

lemma getActiveArea_fields [simp]:
  "getActiveArea (B\<lparr>mUsedAreas := n\<rparr>) t = getActiveArea B t" "getActiveArea (B\<lparr>mOverallDeletions := n\<rparr>) t = getActiveArea B t"
  by (simp_all add: getActiveArea_def)

lemma keeps_sb_data:
  assumes "\<And>C. getPos E (f C) = getPos E C" and "\<And>C. getActiveArea C T_garbageBuffer < areasNo E \<Longrightarrow> getActiveArea (f C) T_garbageBuffer < areasNo E"
  shows "keeps (holds_data E content B X g) (set_sb f)"
  by (rule keeps_set_sb, rule holds_frame) (simp_all add: assms, simp add: assms holds_data_def)

lemma keeps_setActiveArea_data:
  assumes "a < areasNo E"
  shows "keeps (holds_data E content B X g) (setActiveArea E t a)"
  unfolding setActiveArea_def
  by (intro keeps_flow keeps_sb_data keeps_add_event holds_ev)
    (use assms active_slot [of _ t a T_garbageBuffer] in \<open>simp_all\<close>, metis)

lemma keeps_setters_data:
  "keeps (holds_data E content B X g) (setType E a t)" "keeps (holds_data E content B X g) (setStatus E a st)"
  "keeps (holds_data E content B X g) (increaseErasecount E a)" "keeps (holds_data E content B X g) (setUsedAreas E n)"
  unfolding setType_def setStatus_def increaseErasecount_def setUsedAreas_def
  by (intro keeps_flow keeps_sb_data keeps_add_event holds_ev; simp)+

lemma keeps_initAreaAs_data:
  assumes "a < areasNo E"
  shows "keeps (holds_data E content B X g) (initAreaAs E a t)"
  unfolding initAreaAs_def increaseUsedAreas_def
  by (intro keeps_flow keeps_setters_data keeps_setActiveArea_data assms keeps_add_event holds_ev)

lemma keeps_slots_data:
  assumes "0 < areasNo E"
  shows "keeps (holds_data E content B X g) (resetASWritten E a)" "keeps (holds_data E content B X g) (deleteSummary E a)"
  unfolding resetASWritten_def deleteSummary_def
  by (intro keeps_flow keeps_set_sc holds_frame slots_in_upd slots_in_steps holds_slots assms keeps_add_event holds_ev; simp)+

text \<open>The blocks of an area without a page of \<open>X\<close> can be erased.\<close>

lemma keeps_erase_one_data:
  assumes ok: "erase_local E content" "config_ok E" "pos_ok E B" and X: "data_addrs E X"
    and a: "a < areasNo E" "\<forall>x\<in>X. extractLogicalArea x \<noteq> a" and i: "i < blocksPerArea E"
  shows "keeps (holds_data E content B X g) (erase_one E a i u)"
proof (rule keepsI)
  fix s y t assume I: "holds_data E content B X g s" and run: "run_state (erase_one E a i u) s = (y, t)"
  let ?b = "getPos E B a * blocksPerArea E + i"
  obtain f where f: "drv_eraseBlock E ?b (flash s) = (R_ok, f)" "\<And>p. p div pagesPerBlock E \<noteq> ?b \<Longrightarrow> content f p = content (flash s) p"
    using ok(1) unfolding erase_local_def by meson
  have "getPos E (sb s) a = getPos E B a" using I by (simp add: holds_data_def)
  then have t: "t = s\<lparr>flash := f\<rparr>" using run f(1) by (simp add: erase_one_def eraseBlock_def)
  have "content f (getPageNumber E B x) = content (flash s) (getPageNumber E B x)" if x: "x \<in> X" for x
  proof (rule f(2), rule notI)
    have r: "extractLogicalArea x < areasNo E" "extractPageOffs x < totalPagesPerArea E"
      using X x config_sizes(1) [OF ok(2)] by (auto simp: data_addrs_def)
    assume "getPageNumber E B x div pagesPerBlock E = ?b"
    then show False using page_block [OF ok(2,3) r a(1) _ i] a(2) x by blast
  qed
  then show "holds_data E content B X g t" using I by (simp add: t holds_data_def)
qed

lemma keeps_deleteAreaContents_data:
  assumes ok: "erase_local E content" "config_ok E" "pos_ok E B" and X: "data_addrs E X" and n: "0 < areasNo E"
    and a: "sw = (if swapped = 0 then a else swapped)" "sw < areasNo E" "\<forall>x\<in>X. extractLogicalArea x \<noteq> sw"
  shows "keeps (holds_data E content B X g) (deleteAreaContents E a swapped nl)"
  unfolding deleteAreaContents_def
  by (intro keeps_flow keeps_erase_one_data [OF ok X] keeps_setters_data keeps_slots_data n keeps_add_event holds_ev)
    (use a in simp_all)

lemma keeps_deleteArea_data:
  assumes ok: "erase_local E content" "config_ok E" "pos_ok E B" and X: "data_addrs E X" and n: "0 < areasNo E"
    and a: "a < areasNo E" "\<forall>x\<in>X. extractLogicalArea x \<noteq> a"
  shows "keeps (holds_data E content B X g) (deleteArea E a)"
  unfolding deleteArea_def decreaseUsedAreas_def
  by (intro keeps_flow keeps_deleteAreaContents_data [OF ok X n refl] keeps_setters_data keeps_add_event holds_ev) (use a in simp_all)

text \<open>And it succeeds, so that no area is retired.\<close>

lemma erase_loop_ok:
  assumes "erase_local E content"
  shows "\<exists>f. run_state (loopM is () (erase_one E a)) s = (Inr (), s\<lparr>flash := f\<rparr>)"
proof (induction "is" arbitrary: s)
  case Nil
  then show ?case by (intro exI [of _ "flash s"]) simp
next
  case (Cons i "is")
  obtain f where "drv_eraseBlock E (getPos E (sb s) a * blocksPerArea E + i) (flash s) = (R_ok, f)"
    using assms unfolding erase_local_def by meson
  then show ?case using Cons [of "s\<lparr>flash := f\<rparr>"] by (simp add: erase_one_def eraseBlock_def)
qed

lemma deleteArea_succeeds:
  assumes "erase_local E content" and "a < areasNo E" and "getType E (sb s) a \<noteq> T_retired"
  shows "fst (run_state (deleteArea E a) s) = R_ok"
proof -
  have r: "fst (run_state (deleteAreaContents E a 0 True) u) = R_ok" if "getType E (sb u) a \<noteq> T_retired" for u
    using that assms(2) erase_loop_ok [OF assms(1), of "[0 ..< blocksPerArea E]" a u]
    by (auto simp: deleteAreaContents_def Let_def split: prod.splits)
  obtain r u where ru: "run_state (deleteAreaContents E a 0 True) (log_event E (DeleteArea a) s) = (r, u)" by (metis surj_pair)
  moreover have "getType E (sb (log_event E (DeleteArea a) s)) a \<noteq> T_retired"
    using assms(3) log_event_form [of E "DeleteArea a" s] by auto
  ultimately have "r = R_ok" using r by (metis fst_conv)
  then show ?thesis using assms(2,3) ru by (simp add: deleteArea_def split: prod.splits)
qed

subsection \<open>Moving the pages\<close>

lemma place_apart:
  "i < n \<Longrightarrow> j < n \<Longrightarrow> p \<noteq> q \<Longrightarrow> p * n + i \<noteq> q * n + (j :: nat)"
  using page_split_unique [of p n i q j] by blast

lemma move_page_run:
  assumes ok: "flash_ok E content" and pos: "getPos E (sb t) a = p" "getPos E (sb t) gb = q"
  shows "\<exists>f left' l'. run_state (move_page E a gb k (R_ok, left, l)) t = (Inr (R_ok, left', l'), t\<lparr>flash := f\<rparr>) \<and>
     (\<forall>i. i \<noteq> k \<longrightarrow> l' ! i = l ! i) \<and>
     (l ! k = SE_used \<longrightarrow> take (totalBytesPerPage E) (content f (q * totalPagesPerArea E + k)) =
        take (totalBytesPerPage E) (content (flash t) (p * totalPagesPerArea E + k))) \<and>
     (\<forall>n. n \<noteq> q * totalPagesPerArea E + k \<longrightarrow> content f n = content (flash t) n)"
proof (cases "l ! k = SE_used")
  case True
  let ?T = "totalBytesPerPage E" and ?src = "p * totalPagesPerArea E + k" and ?dst = "q * totalPagesPerArea E + k"
  let ?buf = "take ?T (content (flash t) ?src)"
  have len: "length ?buf = ?T" using content_length [OF ok, of ?T] by simp
  obtain f tail where wr: "run_state (writePage E ?dst ?buf) t = (R_ok, t\<lparr>flash := f\<rparr>)" "content f = (content (flash t))(?dst := ?buf @ tail)"
    using run_writePage [OF ok, of ?buf ?dst t] len by (metis order_refl)
  have "run_state (move_page E a gb k (R_ok, left, l)) t = (Inr (R_ok, True, l), t\<lparr>flash := f\<rparr>)"
    using True wr(1) by (simp add: move_page_def run_readPage [OF ok] pos)
  moreover have "take ?T (?buf @ tail) = ?buf" using len by simp
  ultimately show ?thesis using wr(2) by (intro exI [of _ f] exI [of _ True] exI [of _ l]) simp
next
  case False
  then show ?thesis
    by (intro exI [of _ "flash t"] exI [of _ left] exI [of _ "l[k := SE_free]"]) (simp add: move_page_def)
qed

lemma moveValidData_run:
  assumes ok: "flash_ok E content" and pos: "getPos E (sb s) a = p" "getPos E (sb s) gb = q" "p \<noteq> q"
    and N: "dataPagesPerArea E \<le> totalPagesPerArea E"
  shows "\<exists>m j f left l'. run_state (moveValidDataToNewArea E a gb l) s = ((R_ok, left, l'), s\<lparr>mram := m, jr := j, flash := f\<rparr>) \<and>
     (\<forall>i<dataPagesPerArea E. l ! i = SE_used \<longrightarrow> take (totalBytesPerPage E) (content f (q * totalPagesPerArea E + i)) =
        take (totalBytesPerPage E) (content (flash s) (p * totalPagesPerArea E + i))) \<and>
     (\<forall>n. (\<forall>i<dataPagesPerArea E. n \<noteq> q * totalPagesPerArea E + i) \<longrightarrow> content f n = content (flash s) n)"
proof -
  let ?T = "totalBytesPerPage E" and ?P = "totalPagesPerArea E" and ?N = "dataPagesPerArea E"
  obtain m j where log: "log_event E (MoveValidData a) s = s\<lparr>mram := m, jr := j\<rparr>" by (metis log_event_form)
  let ?u = "s\<lparr>mram := m, jr := j\<rparr>"
  let ?J = "\<lambda>k (x :: Result \<times> bool \<times> SummaryEntry list) t. \<exists>f left l'. x = (R_ok, left, l') \<and> t = ?u\<lparr>flash := f\<rparr> \<and> (\<forall>i\<ge>k. l' ! i = l ! i) \<and>
     (\<forall>i<k. l ! i = SE_used \<longrightarrow> take ?T (content f (q * ?P + i)) = take ?T (content (flash s) (p * ?P + i))) \<and>
     (\<forall>n. (\<forall>i<k. n \<noteq> q * ?P + i) \<longrightarrow> content f n = content (flash s) n)"
  have "\<exists>x t. run_state (loopM [0 ..< ?N] (R_ok, False, l) (move_page E a gb)) ?u = (Inr x, t) \<and> ?J ?N x t"
  proof (rule loopM_index [where J = ?J])
    show "?J 0 (R_ok, False, l) ?u" by (intro exI [of _ "flash s"] exI [of _ False] exI [of _ l]) simp
  next
    fix k and x :: "Result \<times> bool \<times> SummaryEntry list" and t assume k: "k < ?N" and "?J k x t"
    then obtain f left l' where J: "x = (R_ok, left, l')" "t = ?u\<lparr>flash := f\<rparr>" "\<forall>i\<ge>k. l' ! i = l ! i"
      "\<forall>i<k. l ! i = SE_used \<longrightarrow> take ?T (content f (q * ?P + i)) = take ?T (content (flash s) (p * ?P + i))"
      "\<forall>n. (\<forall>i<k. n \<noteq> q * ?P + i) \<longrightarrow> content f n = content (flash s) n" by blast
    obtain f' left' l'' where step: "run_state (move_page E a gb k (R_ok, left, l')) t = (Inr (R_ok, left', l''), t\<lparr>flash := f'\<rparr>)"
      "\<forall>i. i \<noteq> k \<longrightarrow> l'' ! i = l' ! i"
      "l' ! k = SE_used \<longrightarrow> take ?T (content f' (q * ?P + k)) = take ?T (content (flash t) (p * ?P + k))"
      "\<forall>n. n \<noteq> q * ?P + k \<longrightarrow> content f' n = content (flash t) n"
      using move_page_run [OF ok, of t a p gb q k left l'] pos J(2) by auto
    have "\<forall>i<k. p * ?P + k \<noteq> q * ?P + i" using place_apart [OF _ _ pos(3)] k N by simp
    then have src: "content f (p * ?P + k) = content (flash s) (p * ?P + k)" using J(5) by blast
    have "take ?T (content f' (q * ?P + i)) = take ?T (content (flash s) (p * ?P + i))" if "i < Suc k" "l ! i = SE_used" for i
      using that step(3,4) J(2-4) src by (cases "i = k") auto
    moreover have "content f' n = content (flash s) n" if "\<forall>i<Suc k. n \<noteq> q * ?P + i" for n
      using that step(4) J(2,5) by simp
    ultimately show "\<exists>x' u. run_state (move_page E a gb k x) t = (Inr x', u) \<and> ?J (Suc k) x' u"
      using step(1,2) J(1-3) by (intro exI [of _ "(R_ok, left', l'')"] exI [of _ "?u\<lparr>flash := f'\<rparr>"]) auto
  qed
  then obtain f left l' where
    loop: "run_state (loopM [0 ..< ?N] (R_ok, False, l) (move_page E a gb)) ?u = (Inr (R_ok, left, l'), ?u\<lparr>flash := f\<rparr>)"
    and f: "\<forall>i<?N. l ! i = SE_used \<longrightarrow> take ?T (content f (q * ?P + i)) = take ?T (content (flash s) (p * ?P + i))"
      "\<forall>n. (\<forall>i<?N. n \<noteq> q * ?P + i) \<longrightarrow> content f n = content (flash s) n" by blast
  have "run_state (moveValidDataToNewArea E a gb l) s = ((R_ok, left, l'), s\<lparr>mram := m, jr := j, flash := f\<rparr>)"
    using loop log by (simp add: moveValidDataToNewArea_def)
  then show ?thesis using f by blast
qed

subsection \<open>Taking over the area\<close>

lemma getPos_swap:
  assumes "length (mMap B) = areasNo E" and "a < areasNo E" and "b < areasNo E"
  shows "getPos E (swap_areas a b B) = (getPos E B)(a := getPos E B b, b := getPos E B a)"
  using assms by (auto simp: fun_eq_iff getPos_def swap_areas_def upd_area_def nth_list_update Let_def)

lemma take_over_wp:
  assumes ok: "flash_ok E content" "erase_local E content" "config_ok E" "\<not> verifyAS E" "pos_ok E (sb u)"
    and a: "a < areasNo E" and gb: "gb = getActiveArea (sb u) T_garbageBuffer" "gb < areasNo E" "v \<longrightarrow> gb \<noteq> 0"
    and slots: "slots_in E (sc u)" and X: "data_addrs E X" "\<forall>x\<in>X. extractLogicalArea x \<noteq> gb" and B: "B = swap_areas a gb (sb u)"
  shows "wp (gc_take_over E t a v l) (\<lambda>_. holds_data E content B X (\<lambda>x. content (flash u) (getPageNumber E B x))) u"
proof -
  define g where "g = (\<lambda>x. content (flash u) (getPageNumber E B x))"
  let ?H = "holds_data E content B X g"
  have n: "0 < areasNo E" using a by simp
  have B': "pos_ok E B" using positions.I_swap [OF ok(5), of a gb] a gb(2) by (simp add: B sb_swap_def)
  have del: "keeps ?H (deleteAreaContents E a gb False)" if v
    by (rule keeps_deleteAreaContents_data [OF ok(2,3) B' X(1) n _ gb(2) X(2)]) (use gb(3) that in simp)
  have summary: "keeps ?H (do { whenM (r \<noteq> R_ok) (setActiveArea E T_garbageBuffer 0); setSummaryStatus E a l })" for r
    by (intro keeps_flow keeps_setActiveArea_data [OF n] keeps_setSummaryStatus_data [OF ok(1,3,4) B' X(1) a n])
  have last: "keeps ?H (if r \<noteq> R_ok then ret r
     else do {
       whenM (t \<noteq> T_unset) (initAreaAs E a t);
       add_event E (Checkpoint Tp_garbage);
       ret R_ok
     })" for r by (intro keeps_flow keeps_initAreaAs_data [OF a] keeps_add_event holds_ev)
  have over: "wp (State_Monad.bind (if v then do {
              gb1 \<leftarrow> gets (\<lambda>s. getActiveArea (sb s) T_garbageBuffer);
              r \<leftarrow> deleteAreaContents E a gb1 False;
              whenM (r \<noteq> R_ok) (setActiveArea E T_garbageBuffer 0);
              setSummaryStatus E a l
            } else ret R_ok) (\<lambda>r. if r \<noteq> R_ok then ret r
     else do {
       whenM (t \<noteq> T_unset) (initAreaAs E a t);
       add_event E (Checkpoint Tp_garbage);
       ret R_ok
     })) (\<lambda>_. ?H) w" if w: "?H w" "getActiveArea (sb w) T_garbageBuffer = gb" for w
  proof (subst wp_bind, rule wp_mono [of _ "\<lambda>_. ?H"])
    have "wp (deleteAreaContents E a gb False) (\<lambda>r. wp (do { whenM (r \<noteq> R_ok) (setActiveArea E T_garbageBuffer 0); setSummaryStatus E a l }) (\<lambda>_. ?H)) w"
      if v by (rule wp_mono [OF keeps_wpD [OF del [OF that] w(1)]]) (rule keeps_wpD [OF summary])
    then show "wp (if v then do {
              gb1 \<leftarrow> gets (\<lambda>s. getActiveArea (sb s) T_garbageBuffer);
              r \<leftarrow> deleteAreaContents E a gb1 False;
              whenM (r \<noteq> R_ok) (setActiveArea E T_garbageBuffer 0);
              setSummaryStatus E a l
            } else ret R_ok) (\<lambda>_. ?H) w" using w by simp
  qed (rule keeps_wpD [OF last])
  have "?H w \<and> getActiveArea (sb w) T_garbageBuffer = gb" if "run_state (swapAreaPosition E a gb) u = (x, w)" for x w
  proof -
    obtain m j where log: "log_event E (AreaMapSwap a gb) u = u\<lparr>mram := m, jr := j\<rparr>" by (metis log_event_form)
    then have "w = u\<lparr>mram := m, jr := j, sb := B\<rparr>" using that a gb(2) by (simp add: swapAreaPosition_def B)
    moreover have "getActiveArea B T_garbageBuffer = gb" using gb(1) by (simp add: B swap_areas_def Let_def)
    ultimately show ?thesis using slots gb(2) by (simp add: holds_data_def g_def)
  qed
  then have "wp (swapAreaPosition E a gb) (\<lambda>_ w. ?H w \<and> getActiveArea (sb w) T_garbageBuffer = gb) u" by (intro wpI) blast
  then show ?thesis
    unfolding gc_take_over_def g_def [symmetric]
    by (subst wp_bind, subst wp_gets, subst wp_bind, unfold gb(1) [symmetric])
      (rule wp_mono, assumption, rule over; blast)
qed

subsection \<open>The two rounds\<close>

definition same_pages :: "'f env \<Rightarrow> ('f \<Rightarrow> PageAbs \<Rightarrow> byte list) \<Rightarrow> Addr set \<Rightarrow> 'f dev \<Rightarrow> 'f dev \<Rightarrow> bool" where
  "same_pages E content X s u \<longleftrightarrow> (\<forall>x\<in>X. take (totalBytesPerPage E) (content (flash u) (getPageNumber E (sb u) x)) =
     take (totalBytesPerPage E) (content (flash s) (getPageNumber E (sb s) x)))"

text \<open>The pages in use outside of the garbage buffer.\<close>

definition used_pages :: "'f env \<Rightarrow> 'f dev \<Rightarrow> Addr set" where
  "used_pages E s = {x. extractLogicalArea x < areasNo E \<and> extractPageOffs x < dataPagesPerArea E \<and>
     extractLogicalArea x \<noteq> getActiveArea (sb s) T_garbageBuffer \<and> reported_used E s x}"

lemma used_pages_addrs: "data_addrs E (used_pages E s)" "\<forall>x\<in>used_pages E s. extractLogicalArea x \<noteq> getActiveArea (sb s) T_garbageBuffer"
  by (auto simp: data_addrs_def used_pages_def)

lemma same_pages_refl: "flash u = flash s \<Longrightarrow> getPos E (sb u) = getPos E (sb s) \<Longrightarrow> same_pages E content X s u"
  using getPageNumber_getPos [of E "sb u" "sb s"] by (simp add: same_pages_def)

lemma holds_same:
  assumes "holds_data E content B X g u"
    and "\<And>x. x \<in> X \<Longrightarrow> take (totalBytesPerPage E) (g x) = take (totalBytesPerPage E) (content (flash s) (getPageNumber E (sb s) x))"
  shows "same_pages E content X s u"
proof -
  have "getPageNumber E (sb u) = getPageNumber E B" using assms(1) by (intro getPageNumber_getPos) (simp add: holds_data_def)
  then show ?thesis using assms by (simp add: same_pages_def holds_data_def)
qed

text \<open>A place outside of the two swapped areas stays.\<close>

lemma place_swapped:
  assumes "length (mMap B) = areasNo E" and "a < areasNo E" and "b < areasNo E"
    and "extractLogicalArea x \<noteq> a" and "extractLogicalArea x \<noteq> b"
  shows "getPageNumber E (swap_areas a b B) x = getPageNumber E B x"
  using getPos_swap [OF assms(1-3)] assms(4,5) by (simp add: getPageNumber_def)

lemma copy_branch_data:
  assumes ok: "flash_ok E content" "erase_local E content" "config_ok E" "\<not> verifyAS E"
    and B: "area_ok E (sb s)" "pos_ok E (sb s)" and slots: "slots_in E (sc s)"
    and c: "choice_read E s c" "favourite_area c \<noteq> 0" and gb: "gb = getActiveArea (sb s) T_garbageBuffer" "gb \<noteq> 0"
  shows "wp (gc_copy_branch E t c gb) (\<lambda>_. same_pages E content (used_pages E s) s) s"
proof -
  let ?a = "favourite_area c" and ?X = "used_pages E s" and ?P = "totalPagesPerArea E" and ?N = "dataPagesPerArea E" and ?T = "totalBytesPerPage E"
  have tgt: "gc_target E (sb s) ?a" and read: "fst (run_state (getSummaryStatus E ?a) s) = (R_ok, summaryOut c)"
    using c by (simp_all add: choice_read_def)
  note A = gc_targetD [OF B(1) tgt]
  have ab: "?a \<noteq> gb" using A(4) [of T_garbageBuffer] gb c(2) by auto
  have gbn: "gb < areasNo E" using area_okD(5) [OF B(1), of T_garbageBuffer] gb by (simp add: slot_ok_def Let_def)
  have len: "length (mMap (sb s)) = areasNo E" using B(2) by (simp add: pos_ok_def sb_shape_def)
  define p where "p = getPos E (sb s) ?a"
  define q where "q = getPos E (sb s) gb"
  have pq: "p \<noteq> q" using pos_ok_inj [OF B(2) A(1) gbn] ab A(1) gbn by (auto simp: p_def q_def getPos_def)
  have NP: "?N < ?P" using config_sizes(1) [OF ok(3)] .
  obtain m j f left l' where mv: "run_state (moveValidDataToNewArea E ?a gb (summaryOut c)) s = ((R_ok, left, l'), s\<lparr>mram := m, jr := j, flash := f\<rparr>)"
    and moved: "\<forall>i<?N. summaryOut c ! i = SE_used \<longrightarrow> take ?T (content f (q * ?P + i)) = take ?T (content (flash s) (p * ?P + i))"
    and rest: "\<forall>n. (\<forall>i<?N. n \<noteq> q * ?P + i) \<longrightarrow> content f n = content (flash s) n"
    using moveValidData_run [OF ok(1) _ _ pq, of s ?a gb "summaryOut c"] NP by (auto simp: p_def q_def)
  let ?u = "s\<lparr>mram := m, jr := j, flash := f\<rparr>" and ?B = "swap_areas ?a gb (sb s)"
  have B': "pos_ok E ?B" using positions.I_swap [OF B(2), of ?a gb] A(1) gbn by (simp add: sb_swap_def)
  have same: "take ?T (content f (getPageNumber E ?B x)) = take ?T (content (flash s) (getPageNumber E (sb s) x))" if x: "x \<in> ?X" for x
  proof -
    let ?A = "extractLogicalArea x" and ?i = "extractPageOffs x"
    have xX: "?A < areasNo E" "?i < ?N" "?i < ?P" "?A \<noteq> gb" "reported_used E s x"
      using x NP gb(1) by (auto simp: used_pages_def)
    show ?thesis
    proof (cases "?A = ?a")
      case True
      then have "summaryOut c ! ?i = SE_used" using xX(5) read by (simp add: reported_used_def)
      moreover have "getPageNumber E ?B x = q * ?P + ?i"
        using page_number_form [OF B' xX(1,3)] getPos_swap [OF len A(1) gbn] True ab by (simp add: q_def)
      moreover have "getPageNumber E (sb s) x = p * ?P + ?i" using page_number_form [OF B(2) xX(1,3)] True by (simp add: p_def)
      ultimately show ?thesis using moved xX(2) by simp
    next
      case False
      have form: "getPageNumber E (sb s) x = getPos E (sb s) ?A * ?P + ?i" by (rule page_number_form [OF B(2) xX(1,3)])
      have "getPos E (sb s) ?A \<noteq> q" using pos_ok_inj [OF B(2) xX(1) gbn] xX(1,4) gbn by (auto simp: q_def getPos_def)
      then have "\<forall>i<?N. getPageNumber E (sb s) x \<noteq> q * ?P + i" using place_apart [OF xX(3)] NP form by auto
      then show ?thesis using rest place_swapped [OF len A(1) gbn False xX(4)] by simp
    qed
  qed
  have "wp (gc_take_over E t ?a True l') (\<lambda>_. holds_data E content ?B ?X (\<lambda>x. content (flash ?u) (getPageNumber E ?B x))) ?u"
    by (rule take_over_wp [OF ok _ A(1) _ gbn _ _ used_pages_addrs(1)]) (use B(2) gb slots used_pages_addrs(2) in simp_all)
  then have "wp (gc_take_over E t ?a True l') (\<lambda>_. same_pages E content ?X s) ?u"
    by (rule wp_mono) (rule holds_same, assumption, use same in simp)
  then show ?thesis by (simp add: gc_copy_branch_def wp_def mv split: prod.splits)
qed

lemma erase_branch_data:
  assumes ok: "flash_ok E content" "erase_local E content" "config_ok E" "\<not> verifyAS E"
    and B: "area_ok E (sb s)" "pos_ok E (sb s)" and slots: "slots_in E (sc s)"
    and c: "choice_read E s c" "favourite_area c \<noteq> 0" "\<not> containsValid c"
  shows "wp (gc_erase_branch E again t c) (\<lambda>_. same_pages E content (used_pages E s) s) s"
proof -
  let ?a = "favourite_area c" and ?X = "used_pages E s" and ?T = "totalBytesPerPage E"
  define gb where "gb = getActiveArea (sb s) T_garbageBuffer"
  have tgt: "gc_target E (sb s) ?a" and read: "fst (run_state (getSummaryStatus E ?a) s) = (R_ok, summaryOut c)"
    and none: "\<forall>i<dataPagesPerArea E. summaryOut c ! i \<noteq> SE_used" using c by (simp_all add: choice_read_def)
  note A = gc_targetD [OF B(1) tgt]
  have n: "0 < areasNo E" using A(1) by simp
  have gbn: "gb < areasNo E" using area_okD(5) [OF B(1), of T_garbageBuffer] n by (auto simp: gb_def slot_ok_def Let_def)
  have out: "\<forall>x\<in>?X. extractLogicalArea x \<noteq> ?a"
    using read none by (auto simp: used_pages_def reported_used_def)
  define g where "g = (\<lambda>x. content (flash s) (getPageNumber E (sb s) x))"
  obtain r u where del: "run_state (deleteArea E ?a) s = (r, u)" by (metis surj_pair)
  have "holds_data E content (sb s) ?X g s" using slots gbn by (simp add: holds_data_def g_def gb_def)
  then have u: "holds_data E content (sb s) ?X g u"
    using keepsD [OF keeps_deleteArea_data [OF ok(2,3) B(2) used_pages_addrs(1) n A(1) out] _ del] by blast
  have "getType E (sb s) ?a \<noteq> T_retired" using A(1,3) by (auto simp: getType_ty)
  then have r: "r = R_ok" using deleteArea_succeeds [OF ok(2) A(1)] del by (metis fst_conv)
  have Bu: "sb u = sb_delete E ?a (sb s)" using wpD [OF deleteArea_sb del] r by simp
  have gb: "getActiveArea (sb u) T_garbageBuffer = gb"
    using sb_delete_table(3) [OF area_okD(1) [OF B(1)] A(1,1)] by (simp add: Bu gb_def)
  have posu: "pos_ok E (sb u)" using positions.I_delete [OF B(2)] by (simp add: Bu)
  have len: "length (mMap (sb u)) = areasNo E" using posu by (simp add: pos_ok_def sb_shape_def)
  let ?B = "swap_areas ?a gb (sb u)"
  have same: "take ?T (content (flash u) (getPageNumber E ?B x)) = take ?T (content (flash s) (getPageNumber E (sb s) x))"
    if x: "x \<in> ?X" for x
  proof -
    have "extractLogicalArea x \<noteq> ?a" "extractLogicalArea x \<noteq> gb" using x out used_pages_addrs(2) by (auto simp: gb_def)
    then have "getPageNumber E ?B x = getPageNumber E (sb u) x" by (rule place_swapped [OF len A(1) gbn])
    moreover have "getPageNumber E (sb u) = getPageNumber E (sb s)"
      using u by (intro getPageNumber_getPos) (simp add: holds_data_def)
    ultimately show ?thesis using u x by (simp add: holds_data_def g_def)
  qed
  have "wp (gc_take_over E t ?a False (summaryOut c)) (\<lambda>_. holds_data E content ?B ?X (\<lambda>x. content (flash u) (getPageNumber E ?B x))) u"
    by (rule take_over_wp [OF ok posu A(1) _ gbn _ _ used_pages_addrs(1)])
      (use gb u used_pages_addrs(2) in \<open>simp_all add: gb_def holds_data_def\<close>)
  then have "wp (gc_take_over E t ?a False (summaryOut c)) (\<lambda>_. same_pages E content ?X s) u"
    by (rule wp_mono) (rule holds_same, assumption, use same in simp)
  then show ?thesis using del r by (simp add: gc_erase_branch_def wp_def split: prod.splits)
qed

lemma collectGarbage_data:
  assumes ok: "flash_ok E content" "erase_local E content" "config_ok E" "\<not> verifyAS E"
    and B: "area_ok E (sb s)" "pos_ok E (sb s)" and slots: "slots_in E (sc s)"
    and run: "run_state (collectGarbage E t) s = (r, u)"
  shows "same_pages E content (used_pages E s) s u"
proof -
  let ?Q = "\<lambda>_. same_pages E content (used_pages E s) s"
  have "wp (gc_round E again t) ?Q s" for again
  proof -
    obtain c where c: "run_state (findNextBestArea E t) s = (c, s)" "choice_read E s c"
      using findNextBestArea_read [OF ok(1,3)] by blast
    then show ?thesis
      using copy_branch_data [OF ok B slots c(2), of "getActiveArea (sb s) T_garbageBuffer" t]
        erase_branch_data [OF ok B slots c(2), of again t] same_pages_refl [of s s]
      by (auto simp: gc_round_def wp_def [of "findNextBestArea E t"])
  qed
  then have "wp (collectGarbage E t) ?Q s" using ok(4) by (simp add: collectGarbage_def)
  then show ?thesis using wpD run by metis
qed

text \<open>
  C2: a garbage collection loses nothing: when the flash reads, writes and erases, and whatever it does
  with full caches and further areas, the contents of every page that the device reports as used, outside
  of the garbage buffer, are the same under the same address before and after the collection, also
  when its area was chosen, its pages were moved to the garbage buffer and its blocks were
  erased, and also when the collection fails.
\<close>

theorem gc_keeps_used_pages:
  assumes "flash_ok E content" and "erase_local E content" and "config_ok E" and "\<not> verifyAS E"
    and "area_ok E (sb s)" and "pos_ok E (sb s)" and "slots_in E (sc s)"
    and "extractLogicalArea x < areasNo E" and "extractPageOffs x < dataPagesPerArea E"
    and "extractLogicalArea x \<noteq> getActiveArea (sb s) T_garbageBuffer" and "reported_used E s x"
    and "run_state (collectGarbage E t) s = (r, u)"
  shows "take (totalBytesPerPage E) (content (flash u) (getPageNumber E (sb u) x)) =
     take (totalBytesPerPage E) (content (flash s) (getPageNumber E (sb s) x))"
  using collectGarbage_data [OF assms(1-7,12)] assms(8-11) by (simp add: same_pages_def used_pages_def)

text \<open>A closed index area with a used page, whose summary is in the cache.\<close>

definition ex_gc_dev :: "ram_flash dev" where
  "ex_gc_dev = ex_dev\<lparr>flash := (\<lambda>p. replicate 18 (word_of_nat p)),
     sc := (sc ex_dev)\<lparr>mSummaryCache := [elem_setStatus 3 1 SE_dirty (elem_setStatus 3 0 SE_used (ex_elem 3)), new_elem 3, new_elem 3],
       mTranslation := [(3, 0)]\<rparr>\<rparr>"

theorem gc_keeps_used_pages_witness:
  "\<exists>r u. run_state (collectGarbage ex_env T_index) ex_gc_dev = (r, u) \<and>
     take 18 (ex_content (flash u) (getPageNumber ex_env (sb u) 0x00030000)) = replicate 18 12"
proof -
  obtain r u where run: "run_state (collectGarbage ex_env T_index) ex_gc_dev = (r, u)" by (metis surj_pair)
  have d: "sb ex_gc_dev = ex_sb" "mTranslation (sc ex_gc_dev) = [(3, 0)]" "flash ex_gc_dev = (\<lambda>p. replicate 18 (word_of_nat p))"
    "mSummaryCache (sc ex_gc_dev) = [elem_setStatus 3 1 SE_dirty (elem_setStatus 3 0 SE_used (ex_elem 3)), new_elem 3, new_elem 3]"
    by (simp_all add: ex_gc_dev_def ex_dev_def)
  have x: "extractLogicalArea 0x00030000 = 3" "extractPageOffs 0x00030000 = 0"
    by (simp_all add: extractLogicalArea_def extractPageOffs_def)
  have gb: "getActiveArea ex_sb T_garbageBuffer = 1" by (simp add: getActiveArea_def ex_sb_def)
  have "erase_local ex_env ex_content"
    by (simp add: erase_local_def ex_content_def) (simp add: ex_env_def ram_erase_def)
  moreover have "slots_in ex_env (sc ex_gc_dev)" by (simp add: slots_in_def d) (simp add: ex_elem_def getArea_def)
  moreover have "reported_used ex_env ex_gc_dev 0x00030000"
  proof -
    have e: "isUsed (ex_elem 3)" "length (mEntries (ex_elem 3)) = TwoBitList_byteUsage 3"
      by (simp_all add: ex_elem_def isUsed_def TwoBitList_clear_def)
    then have "elem_getStatus 3 0 (elem_setStatus 3 1 SE_dirty (elem_setStatus 3 0 SE_used (ex_elem 3))) = SE_used"
      using slot_change_setStatus [of ex_env "ex_elem 3" 3 0 SE_used] by (simp add: elem_getStatus_setStatus slot_change_def)
    then show ?thesis
      by (simp add: reported_used_def x getSummaryStatus_def existsSummaryElem_def d unpackStatusArray_def summary_list_def
          getSummaryElemPos_def upt_rec)
  qed
  ultimately have "take (totalBytesPerPage ex_env) (ex_content (flash u) (getPageNumber ex_env (sb u) 0x00030000)) =
      take (totalBytesPerPage ex_env) (ex_content (flash ex_gc_dev) (getPageNumber ex_env (sb ex_gc_dev) 0x00030000))"
    using ex_area_ok ex_pos_ok gb by (intro gc_keeps_used_pages [OF ex_flash _ ex_config_ok _ _ _ _ _ _ _ _ run]) (simp_all add: d x)
  moreover have "getPageNumber ex_env ex_sb 0x00030000 = 12"
    by (simp add: getPageNumber_def getPos_def x) (simp add: ex_sb_def ex_area_def)
  ultimately show ?thesis using run by (simp add: d ex_content_def totalBytesPerPage_def) (simp add: ex_env_def)
qed

end
