(* ===== verification/JournalProperties.thy ===== *)
theory JournalProperties
  imports ExampleDevice
begin

text \<open>
  The properties of the bit lists, of the addresses, and of the recording side of the journal.
\<close>

subsection \<open>Bit lists\<close>

text \<open>
  In a bit list of N elements, \<open>findFirstFree\<close> answers the least clear bit. If every bit is
  set it answers N, except when N is a multiple of 8, where the loop reads one byte behind the
  array (no result).
\<close>

theorem findFirstFree_least:
  assumes "length l = BitList_byteUsage N"
  shows "(\<forall>j<N. \<not> getBit N j l \<longrightarrow> (\<forall>i<j. getBit N i l) \<longrightarrow> findFirstFree N l = Some j)
     \<and> ((\<forall>j<N. getBit N j l) \<longrightarrow> findFirstFree N l = (if N mod 8 = 0 then None else Some N))"
  using findFirstFree_hit [OF _ _ _ assms] findFirstFree_full [OF _ assms] by blast

theorem findFirstFree_least_witness:
  "findFirstFree 8 [0xFF] = None \<and> findFirstFree 9 [0xFF, 0x00] = Some 8"
proof -
  have "\<forall>j<8. getBit 8 j [0xFF]" and "\<not> getBit 9 8 [0xFF, 0x00]" and "\<forall>j<8. getBit 9 j [0xFF, 0x00]"
    by code_simp+
  then show ?thesis
    using findFirstFree_least [of "[0xFF]" 8] findFirstFree_least [of "[0xFF, 0x00]" 9]
    by (simp add: BitList_byteUsage_def)
qed

text \<open>
  Writing a value into a two-bit list changes the value at its own index and no other; the
  same for setting and resetting a bit of a bit list.
\<close>

theorem packed_lists_local:
  assumes "length l = TwoBitList_byteUsage N" and "length b = BitList_byteUsage N"
    and "i < N" and "j < N" and "v < 4"
  shows "getValue j (setValue i v l) = (if j = i then v else getValue j l)
     \<and> getBit N j (setBit N i b) = (j = i \<or> getBit N j b)
     \<and> getBit N j (resetBit N i b) = (j \<noteq> i \<and> getBit N j b)"
  using assms by (auto simp: getValue_setValue getBit_setBit getBit_resetBit)

theorem packed_lists_local_witness:
  "getValue 2 (setValue 1 3 [0x2D, 0x01]) = 2"
  using packed_lists_local [of "[0x2D, 0x01]" 6 "[0x05]" 1 2 3]
  by (simp add: TwoBitList_byteUsage_def BitList_byteUsage_def) code_simp

subsection \<open>Addresses\<close>

text \<open>
  An address packs an area and a page offset of 16 bits each without loss: extracting
  what was combined gives it back, and combining what was extracted gives the address back.
\<close>

theorem address_roundtrip:
  assumes "area < 2 ^ 16" and "page < 2 ^ 16"
  shows "extractLogicalArea (combineAddress area page) = area
     \<and> extractPageOffs (combineAddress area page) = page
     \<and> combineAddress (extractLogicalArea addr) (extractPageOffs addr) = addr"
  using assms by (simp add: combine_extract)

theorem address_roundtrip_witness:
  "combineAddress 3 258 = 0x00030102 \<and> extractPageOffs (combineAddress 3 258) = 258"
  using address_roundtrip [of 3 258 0] by (simp add: combineAddress_def push_bit_eq_mult)

subsection \<open>Journal entries\<close>

text \<open>
  C39: the journal parses the memory image of every journal entry back to that entry, whatever
  follows it in the log, and the reader takes it to be as long as the writer did.
\<close>

theorem journal_entry_roundtrip:
  assumes "entry_ok n e"
  shows "parse_entry n (entry_bytes e @ rest) = Some e \<and>
    getSizeFromMax n (entry_bytes e @ rest) = getSizeFromJE n e \<and> getSizeFromJE n e \<le> sizeof_Max n"
  using assms by (simp add: parse_entry_bytes getSizeFromMax_bytes getSize_le_Max)

theorem journal_entry_roundtrip_witness:
  "parse_entry 3 (entry_bytes (AreaMapSwap 4 515) @ [7]) = Some (AreaMapSwap 4 515) \<and>
   getSizeFromMax 3 (entry_bytes (AreaMapSwap 4 515) @ [7]) = 8"
  using journal_entry_roundtrip [of 3 "AreaMapSwap 4 515" "[7]"] by simp

text \<open>
  C37: the MRAM log replays what was recorded. After clearing the log, recording a sequence of
  entries and rewinding, reading answers a prefix of the sequence, and the whole sequence if
  no entry was refused for lack of space. (An area position entry is excepted: its logged size
  is too small.)
\<close>

theorem mram_log_replays:
  assumes "4 \<le> mramSize E" and "mramSize E < 2 ^ 32 - 1"
    and "list_all (\<lambda>e. entry_ok (dataPagesPerArea E) e \<and> (\<forall>a p. e \<noteq> AreaMapPosition a p)) es"
    and "run_state (do { _ \<leftarrow> mram_clear; b \<leftarrow> mram_log.append_all E es; _ \<leftarrow> mram_rewind; ret b }) s = (b, t)"
  shows "\<exists>k. fst (run_state (mram_log.read_all E (length es)) t) = take k es \<and> (b \<longrightarrow> take k es = es)"
proof -
  have "mram_usable E s" "list_all (loggable (dataPagesPerArea E)) es"
    using assms(1-3) by (simp_all add: mram_usable_def loggable_def [abs_def])
  from mram_log.replay_reads_log [OF this assms(4)] show ?thesis by metis
qed

theorem mram_log_replays_witness:
  "\<exists>k. fst (run_state (mram_log.read_all ex_env (length [Rootnode 5, AreaMapSwap 1 2]))
     (snd (run_state (do { _ \<leftarrow> mram_clear; b \<leftarrow> mram_log.append_all ex_env [Rootnode 5, AreaMapSwap 1 2];
        _ \<leftarrow> mram_rewind; ret b }) ex_dev))) = take k [Rootnode 5, AreaMapSwap 1 2]"
proof -
  have "list_all (\<lambda>e. entry_ok (dataPagesPerArea ex_env) e \<and> (\<forall>a p. e \<noteq> AreaMapPosition a p))
      [Rootnode 5, AreaMapSwap 1 2]" and "4 \<le> mramSize ex_env" and "mramSize ex_env < 2 ^ 32 - 1" by simp_all
  from mram_log_replays [OF this(2,3,1) surjective_pairing, of ex_dev] show ?thesis by blast
qed

text \<open>
  C38: recording never writes behind the MRAM. If an entry is refused nothing changes; if it is
  recorded, the end of the log is stored and stays within the MRAM, the bytes behind it are
  untouched, and the warning of low memory is given exactly when less than the reserve is left.
\<close>

theorem append_bounded:
  assumes "mramSize E < 2 ^ 32" and "4 \<le> curr (jr s)"
    and "entry_ok (dataPagesPerArea E) e" and "run_state (appendEntry E e) s = (r, t)"
  shows "(r = R_noSpace \<and> t = s \<and> mramSize E < curr (jr s) + sizeof_Max (dataPagesPerArea E))
     \<or> (curr (jr s) < curr (jr t) \<and> curr (jr t) \<le> mramSize E
        \<and> le_value (map (mram t) [0 ..< 4]) = curr (jr t)
        \<and> (\<forall>i\<ge>curr (jr t). mram t i = mram s i)
        \<and> r = (if mramSize E - curr (jr t) < reservedLogsize E then R_lowMem else R_ok))"
proof (cases "curr (jr s) + sizeof_Max (dataPagesPerArea E) > mramSize E")
  case True
  then show ?thesis using assms(4) by (simp add: appendEntry_def)
next
  case False
  let ?n = "dataPagesPerArea E" and ?c = "curr (jr s)"
  let ?bs = "take (getSizeFromJE ?n e) (entry_bytes e)"
  have len: "length ?bs = getSizeFromJE ?n e"
    using entry_bytes_length [OF assms(3)] by simp
  have fits: "?c + getSizeFromJE ?n e \<le> mramSize E"
    using False getSize_le_Max [of ?n e] by linarith
  have t: "mram t = put_bytes 0 (le_bytes 4 (?c + getSizeFromJE ?n e)) (put_bytes ?c ?bs (mram s))"
    and c: "curr (jr t) = ?c + getSizeFromJE ?n e"
    and r: "r = (if isLowMem E (jr t) then R_lowMem else R_ok)"
    using assms(4) False by (auto simp: appendEntry_def Let_def run_writeMRAM split: if_splits)
  have low: "isLowMem E (jr t) = (mramSize E - curr (jr t) < reservedLogsize E)"
    if "mramSize E \<noteq> 0"
  proof -
    have "2 ^ 32 + mramSize E - curr (jr t) = (mramSize E - curr (jr t)) + 2 ^ 32 * 1"
      using fits c by simp
    then have "(2 ^ 32 + mramSize E - curr (jr t)) mod 2 ^ 32 = (mramSize E - curr (jr t)) mod 2 ^ 32"
      by (metis mod_mult_self2)
    then show ?thesis using assms(1) that by (simp add: isLowMem_def)
  qed
  have "0 < mramSize E" using fits getSize_pos [of ?n e] by simp
  moreover have "le_value (map (mram t) [0 ..< 4]) = curr (jr t)"
  proof -
    have "seg (mram t) 0 (length (le_bytes 4 (?c + getSizeFromJE ?n e))) = le_bytes 4 (?c + getSizeFromJE ?n e)"
      unfolding t by (rule seg_put_same)
    then show ?thesis using fits assms(1) c by (simp add: seg_def le_value_le_bytes)
  qed
  moreover have "\<forall>i\<ge>curr (jr t). mram t i = mram s i"
    using c t len assms(2) by (simp add: put_bytes_def)
  ultimately show ?thesis
    using c fits getSize_pos [of ?n e] r low by simp
qed

theorem append_bounded_witness:
  "le_value (map (mram (snd (run_state (appendEntry ex_env (UsedAreas 7)) ex_dev))) [0 ..< 4])
     = curr (jr (snd (run_state (appendEntry ex_env (UsedAreas 7)) ex_dev)))
   \<and> curr (jr (snd (run_state (appendEntry ex_env (UsedAreas 7)) ex_dev))) \<le> 1024"
proof -
  have c: "curr (jr ex_dev) = 4" by (simp add: ex_dev_def)
  have m: "sizeof_Max 3 = 96" by (simp add: sizeof_Max_def tbl_struct_size_def TwoBitList_byteUsage_def)
  have e: "entry_ok (dataPagesPerArea ex_env) (UsedAreas 7)" by simp
  have "mramSize ex_env < 2 ^ 32" "4 \<le> curr (jr ex_dev)" using c by simp_all
  from append_bounded [OF this e surjective_pairing] c m show ?thesis by auto
qed

end
