(* ===== verification/ReplayCorrect.thy ===== *)
theory ReplayCorrect
  imports JournalReplay
begin

text \<open>
  The replay against its specification. The code compares positions in the MRAM; the
  specification \<open>replay_spec\<close> knows the list of entries and counts. Under the interface rule of
  \<open>journal_topics\<close> both have the same effect on the whole device.
\<close>

subsection \<open>Specification\<close>

text \<open>The number of entries up to and including the last checkpoint of a topic.\<close>

definition last_checkpoint :: "Topic \<Rightarrow> Entry list \<Rightarrow> nat" where
  "last_checkpoint t l = fold (\<lambda>k n. if l ! k = Checkpoint t then Suc k else n) [0 ..< length l] 0"

definition set_cursor :: "Entry list \<Rightarrow> nat \<Rightarrow> ('f dev, unit) state" where
  "set_cursor l k = set_jr (\<lambda>j. j\<lparr>curr := log_end (take k l)\<rparr>)"

definition spec_prescan :: "'f dev topics \<Rightarrow> Entry list \<Rightarrow> nat \<Rightarrow> ('f dev, unit) state" where
  "spec_prescan T l k = do {
     set_cursor l (Suc k);
     if entry_topic (l ! k) \<in> {Tp_checkpoint, Tp_pagestate} then ret () else prescan_topics T (l ! k)
   }"

definition spec_apply :: "'f dev topics \<Rightarrow> Entry list \<Rightarrow> nat \<Rightarrow> ('f dev, unit) state" where
  "spec_apply T l k = do {
     set_cursor l (Suc k);
     if entry_topic (l ! k) = Tp_checkpoint then ret ()
     else dispatch_entry T (\<lambda>t p. last_checkpoint t l \<le> k) (l ! k)
   }"

definition replay_spec :: "'f dev topics \<Rightarrow> Entry list \<Rightarrow> ('f dev, unit) state" where
  "replay_spec T l = do {
     with_topics T (\<lambda>t h. tp_reset h);
     set_cursor l 0;
     if l = [] then ret ()
     else do {
       set_jr (\<lambda>j. j\<lparr>disabled := True\<rparr>);
       for_each [0 ..< length l] (spec_prescan T l);
       set_cursor l 0;
       for_each [0 ..< length l] (spec_apply T l);
       set_jr (\<lambda>j. j\<lparr>disabled := False\<rparr>);
       with_topics T (\<lambda>t h. tp_signal h)
     }
   }"

text \<open>Every entry names a topic that is registered.\<close>

definition log_valid :: "'s topics \<Rightarrow> Entry list \<Rightarrow> bool" where
  "log_valid T l = list_all (\<lambda>e. entry_topic e = Tp_checkpoint \<or>
      (T (entry_target e) \<noteq> None \<and> entry_target e \<notin> {Tp_invalid, Tp_checkpoint, Tp_pagestate})) l"

subsection \<open>Loops under an invariant\<close>

lemma for_each_cong_inv:
  assumes "I s" and "\<And>x u. x \<in> set xs \<Longrightarrow> I u \<Longrightarrow> run_state (f x) u = run_state (g x) u"
    and "\<And>x. x \<in> set xs \<Longrightarrow> keeps I (f x)"
  shows "run_state (for_each xs f) s = run_state (for_each xs g) s"
  using assms
proof (induction xs arbitrary: s)
  case (Cons x xs)
  obtain y u where f: "run_state (f x) s = (y, u)" by (cases "run_state (f x) s")
  then have g: "run_state (g x) s = (y, u)" using Cons.prems(1,2) by simp
  have "I u" by (rule keepsD [of I "f x", OF Cons.prems(3) Cons.prems(1) f]) simp
  then have "run_state (for_each xs f) u = run_state (for_each xs g) u"
    by (rule Cons.IH) (use Cons.prems(2,3) in auto)
  then show ?case using f g by simp
qed simp

lemma keeps_with_topics [keeps_intros]:
  "(\<And>t h. T t = Some h \<Longrightarrow> keeps I (f t h)) \<Longrightarrow> keeps I (with_topics T f)"
  unfolding with_topics_def by (intro keeps_intros) simp_all

lemma with_topics_cong_inv:
  assumes "I s" and "\<And>t h u. T t = Some h \<Longrightarrow> I u \<Longrightarrow> run_state (f t h) u = run_state (g t h) u"
    and "\<And>t h. T t = Some h \<Longrightarrow> keeps I (f t h)"
  shows "run_state (with_topics T f) s = run_state (with_topics T g) s"
  unfolding with_topics_def
  by (rule for_each_cong_inv [where I = I]) (use assms in \<open>auto intro!: keeps_intros split: option.splits\<close>)

subsection \<open>The last checkpoint\<close>

lemma last_checkpoint_Nil [simp]: "last_checkpoint t [] = 0"
  by (simp add: last_checkpoint_def)

lemma last_checkpoint_snoc [simp]:
  "last_checkpoint t (l @ [e]) = (if e = Checkpoint t then Suc (length l) else last_checkpoint t l)"
proof -
  have "fold (\<lambda>k n. if (l @ [e]) ! k = Checkpoint t then Suc k else n) [0 ..< length l] 0 =
        fold (\<lambda>k n. if l ! k = Checkpoint t then Suc k else n) [0 ..< length l] 0"
    by (rule fold_cong) (auto simp: nth_append)
  then show ?thesis by (simp add: last_checkpoint_def)
qed

lemma last_checkpoint_le: "last_checkpoint t l \<le> length l"
  by (induction l rule: rev_induct) auto

lemma last_checkpoint_entry: "last_checkpoint t l = Suc k \<Longrightarrow> l ! k = Checkpoint t"
proof (induction l rule: rev_induct)
  case (snoc e l)
  then show ?case using last_checkpoint_le [of t l] by (auto simp: nth_append split: if_splits)
qed simp

text \<open>It is the least number of entries behind which there is no checkpoint of the topic.\<close>

lemma last_checkpoint_le_iff:
  "last_checkpoint t l \<le> k \<longleftrightarrow> (\<forall>i. k \<le> i \<and> i < length l \<longrightarrow> l ! i \<noteq> Checkpoint t)"
proof (induction l rule: rev_induct)
  case (snoc e l)
  show ?case
  proof (cases "e = Checkpoint t")
    case True
    then show ?thesis by (auto simp: not_le nth_append dest: spec [of _ "length l"])
  next
    case False
    then show ?thesis using snoc by (auto simp: nth_append less_Suc_eq)
  qed
qed simp

subsection \<open>The positions of the first pass\<close>

definition checkpoints_at :: "Entry list \<Rightarrow> nat \<Rightarrow> JournalEntryPosition list" where
  "checkpoints_at l k = map (\<lambda>t. pos_of (log_end (take (last_checkpoint t (take k l)) l))) all_topics"

lemma checkpoints_at_nth: "checkpoints_at l k ! topic_code t = pos_of (log_end (take (last_checkpoint t (take k l)) l))"
  by (cases t) (simp_all add: checkpoints_at_def all_topics_def)

lemma checkpoints_at_0: "checkpoints_at l 0 = replicate numberOfTopics (pos_of (log_end []))"
  by (simp add: checkpoints_at_def all_topics_def numberOfTopics_def eval_nat_numeral)

lemma map_all_topics_upd: "(map f all_topics)[topic_code t := v] = map (f(t := v)) all_topics"
  by (cases t) (simp_all add: all_topics_def)

lemma checkpoints_at_Suc:
  assumes "k < length l"
  shows "checkpoints_at l (Suc k) =
    (case l ! k of Checkpoint t \<Rightarrow> (checkpoints_at l k)[topic_code t := pos_of (log_end (take (Suc k) l))]
     | _ \<Rightarrow> checkpoints_at l k)"
proof -
  have "last_checkpoint t (take (Suc k) l) =
      (if l ! k = Checkpoint t then Suc k else last_checkpoint t (take k l))" for t
    using assms by (simp add: take_Suc_conv_app_nth)
  then show ?thesis
    by (cases "l ! k") (simp_all add: checkpoints_at_def map_all_topics_upd fun_upd_def cong: if_cong)
qed

lemma log_end_mono: "i \<le> k \<Longrightarrow> log_end (take i l) \<le> log_end (take k l)"
  using enc_simps(2) [of "take i l" "take (k - i) (drop i l)"]
  by (simp add: log_end_def flip: take_add)

lemma log_end_less:
  assumes "list_all (loggable n) l" and "i < k" and "k \<le> length l"
  shows "log_end (take i l) < log_end (take k l)"
proof -
  have "log_end (take i l) < log_end (take (Suc i) l)"
    using assms log_end_take [of i l] loggable_length [of n "l ! i"] getSize_pos [of n "l ! i"]
    by (simp add: list_all_length)
  also have "\<dots> \<le> log_end (take k l)" using assms(2) by (intro log_end_mono) simp
  finally show ?thesis .
qed

text \<open>Positions of entries are compared as the numbers of the entries.\<close>

lemma pos_ge_index:
  assumes "list_all (loggable n) l" and "i \<noteq> k" and "i \<le> length l" and "k \<le> length l"
  shows "pos_ge (pos_of (log_end (take k l))) (pos_of (log_end (take i l))) \<longleftrightarrow> i \<le> k"
  using log_end_less [OF assms(1), of i k] log_end_less [OF assms(1), of k i] assms
  by (cases i k rule: linorder_cases) (auto simp: pos_ge_def pos_less_def pos_of_def)

lemma length_log_end: "list_all (loggable n) l \<Longrightarrow> length l < log_end l"
proof (induction l)
  case (Cons e l)
  then show ?case using loggable_length [of n e] getSize_pos [of n e] by (simp add: log_end_def)
qed (simp add: log_end_def)

subsection \<open>The interface rule and the loops\<close>

definition store_is :: "(nat \<Rightarrow> byte) \<Rightarrow> journal \<Rightarrow> 'f dev \<Rightarrow> bool" where
  "store_is m j s \<longleftrightarrow> mram s = m \<and> jr s = j"

locale journal_topics =
  fixes T :: "'f dev topics"
  assumes reset_quiet: "T t = Some h \<Longrightarrow> keeps (store_is m j) (tp_reset h)"
    and preScan_quiet: "T t = Some h \<Longrightarrow> disabled j \<Longrightarrow> keeps (store_is m j) (tp_preScan h e p)"
    and process_quiet: "T t = Some h \<Longrightarrow> disabled j \<Longrightarrow> keeps (store_is m j) (tp_process h e p)"
begin

lemma prescan_topics_quiet: "disabled j \<Longrightarrow> keeps (store_is m j) (prescan_topics T e)"
  unfolding prescan_topics_def by (intro keeps_intros preScan_quiet)

lemma dispatch_quiet: "disabled j \<Longrightarrow> keeps (store_is m j) (dispatch_entry T active e)"
  unfolding dispatch_entry_def by (intro keeps_intros process_quiet)

lemma dispatch_active_cong:
  assumes "store_is m j s" and "disabled j" and "\<And>t. T t \<noteq> None \<Longrightarrow> active t (pos_of (curr j)) = active' t"
  shows "run_state (dispatch_entry T active e) s = run_state (dispatch_entry T (\<lambda>t _. active' t) e) s"
proof -
  have tell: "mram_tell u = pos_of (curr j)" if "store_is m j u" for u
    using that by (simp add: store_is_def mram_tell_def)
  let ?own = "\<lambda>act. case T (entry_target e) of
      None \<Rightarrow> ret ()
    | Some h \<Rightarrow> do {
        p \<leftarrow> gets mram_tell;
        whenM (act (entry_target e) p) (do { _ \<leftarrow> tp_process h e p; ret () })
      }"
  have own: "run_state (?own active) s = run_state (?own (\<lambda>t _. active' t)) s"
    using assms(1,3) by (auto simp: tell split: option.splits)
  have keep: "keeps (store_is m j) (?own active)"
    using assms(2) by (intro keeps_intros process_quiet)
  obtain u where u: "run_state (?own active) s = ((), u)" by (cases "run_state (?own active) s") simp
  have "store_is m j u" by (rule keepsD [OF keep assms(1) u])
  then have "run_state (with_topics T (\<lambda>t h.
       if t = entry_target e then ret ()
       else do {
         b \<leftarrow> gets (tp_interested h e);
         p \<leftarrow> gets mram_tell;
         whenM (b \<and> active t p) (do { _ \<leftarrow> tp_process h e p; ret () })
       })) u = run_state (with_topics T (\<lambda>t h.
       if t = entry_target e then ret ()
       else do {
         b \<leftarrow> gets (tp_interested h e);
         p \<leftarrow> gets mram_tell;
         whenM (b \<and> active' t) (do { _ \<leftarrow> tp_process h e p; ret () })
       })) u"
    by (rule with_topics_cong_inv [where I = "store_is m j"])
      (use assms(2,3) in \<open>auto simp: tell intro!: keeps_intros process_quiet\<close>)
  then show ?thesis using u own by (simp add: dispatch_entry_def)
qed

end

subsection \<open>Reading the log\<close>

lemma mram_holds_store:
  assumes "mram_holds E s l k" and "mram u = mram s" and "curr (jr u) = log_end (take k' l)" and "k' \<le> length l"
  shows "mram_holds E u l k'"
  using assms by (simp add: mram_holds_def)

lemma run_set_cursor [simp]: "run_state (set_cursor l k) s = ((), s\<lparr>jr := (jr s)\<lparr>curr := log_end (take k l)\<rparr>\<rparr>)"
  by (simp add: set_cursor_def)

lemma next_run:
  assumes "mram_holds E s l k"
  shows "run_state (readNextElem E) s =
    (if k < length l then ((R_ok, Some (l ! k)), snd (run_state (set_cursor l (Suc k)) s))
     else ((R_notFound, None), s))"
proof (cases "k < length l")
  case True
  obtain x t where run: "run_state (readNextElem E) s = (x, t)" by (cases "run_state (readNextElem E) s")
  from mram_log.next_holds [OF assms True run]
  have x: "x = (R_ok, Some (l ! k))" and t: "mram_holds E t l (Suc k)" by simp_all
  have "keeps (\<lambda>u. s\<lparr>jr := (jr s)\<lparr>curr := curr (jr u)\<rparr>\<rparr> = u) (readNextElem E)"
    unfolding readNextElem_def
    by (intro keeps_intros; (drule sym, erule ssubst, simp)?) (drule sym, erule ssubst, simp)
  then have "s\<lparr>jr := (jr s)\<lparr>curr := curr (jr t)\<rparr>\<rparr> = t" by (rule keepsD [OF _ _ run]) simp
  then show ?thesis using run x t True by (simp add: mram_holds_def)
next
  case False
  obtain x t where run: "run_state (readNextElem E) s = (x, t)" by (cases "run_state (readNextElem E) s")
  with mram_log.next_end [OF assms False run] False show ?thesis by simp
qed

text \<open>With enough fuel the reading loop is the loop over the entries.\<close>

lemma read_loop_run:
  assumes "mram_holds E s l k" and "length l - k < n" and "disabled (jr s)"
    and quiet: "\<And>e a m j. disabled j \<Longrightarrow> keeps (store_is m j) (body e a)"
  shows "run_state (read_loop n E body a) s =
    (case run_state (loopM [k ..< length l] a (\<lambda>i a. do { set_cursor l (Suc i); body (l ! i) a })) s of
       (y, t) \<Rightarrow> (Some y, t))"
  using assms(1-3)
proof (induction n arbitrary: k s a)
  case 0
  then show ?case by simp
next
  case (Suc n)
  show ?case
  proof (cases "k < length l")
    case False
    then show ?thesis by (simp add: next_run [OF Suc.prems(1)])
  next
    case True
    let ?u = "s\<lparr>jr := (jr s)\<lparr>curr := log_end (take (Suc k) l)\<rparr>\<rparr>"
    obtain y v where y: "run_state (body (l ! k) a) ?u = (y, v)" by (cases "run_state (body (l ! k) a) ?u")
    have "store_is (mram ?u) (jr ?u) v"
      using keepsD [OF quiet _ y, of "jr ?u" "mram ?u"] Suc.prems(3) by (simp add: store_is_def)
    then have v: "mram v = mram s" "jr v = jr ?u" by (simp_all add: store_is_def)
    have "mram_holds E v l (Suc k)" by (rule mram_holds_store [OF Suc.prems(1)]) (use v True in simp_all)
    from Suc.IH [OF this] show ?thesis
      using True y v Suc.prems(2,3)
      by (simp add: next_run [OF Suc.prems(1)] upt_conv_Cons split_beta split: sum.splits)
  qed
qed

text \<open>A loop that never leaves, as a plain loop.\<close>

lemma loopM_for_each:
  assumes "I s" and "k \<le> n"
    and "\<And>i u. k \<le> i \<Longrightarrow> i < n \<Longrightarrow> I u \<Longrightarrow> run_state (f i (a i)) u = (Inr (a (Suc i)), snd (run_state (g i) u))"
    and "\<And>i. k \<le> i \<Longrightarrow> i < n \<Longrightarrow> keeps I (g i)"
  shows "run_state (loopM [k ..< n] (a k) f) s = (Inr (a n), snd (run_state (for_each [k ..< n] g) s))"
  using assms
proof (induction "n - k" arbitrary: k s)
  case 0
  then show ?case by simp
next
  case (Suc d)
  obtain u where u: "run_state (g k) s = ((), u)" by (cases "run_state (g k) s") simp
  have k: "k < n" using Suc.hyps(2) by simp
  have "I u" by (rule keepsD [of I "g k", OF Suc.prems(4) Suc.prems(1) u]) (use k in simp_all)
  then have "run_state (loopM [Suc k ..< n] (a (Suc k)) f) u = (Inr (a n), snd (run_state (for_each [Suc k ..< n] g) u))"
    by (intro Suc.hyps(1)) (use Suc.hyps(2) Suc.prems(3,4) k in auto)
  then show ?case using u k Suc.prems(1,3) by (simp add: upt_conv_Cons split_beta)
qed

subsection \<open>The two passes\<close>

lemma keeps_disabled:
  assumes "\<And>m j. disabled j \<Longrightarrow> keeps (store_is m j) f"
  shows "keeps (\<lambda>s. disabled (jr s) \<and> mram s = m) f"
proof (rule keepsI)
  fix s x t assume s: "disabled (jr s) \<and> mram s = m" and run: "run_state f s = (x, t)"
  have "store_is (mram s) (jr s) t"
    by (rule keepsD [OF assms _ run]) (use s in \<open>simp_all add: store_is_def\<close>)
  then show "disabled (jr t) \<and> mram t = m" using s by (simp add: store_is_def)
qed

lemma keeps_set_cursor: "keeps (\<lambda>s. disabled (jr s) \<and> mram s = m) (set_cursor l k)"
  by (simp add: keeps_def)

lemma log_valid_nth:
  "log_valid T l \<Longrightarrow> k < length l \<Longrightarrow> entry_topic (l ! k) = Tp_checkpoint \<or>
     (T (entry_target (l ! k)) \<noteq> None \<and> entry_target (l ! k) \<notin> {Tp_invalid, Tp_checkpoint, Tp_pagestate})"
  by (simp add: log_valid_def list_all_length)

lemma isTopicValid_valid:
  "T t \<noteq> None \<Longrightarrow> t \<noteq> Tp_invalid \<Longrightarrow> isTopicValid T t"
  by (cases t) (simp_all add: isTopicValid_def numberOfTopics_def)

lemma entry_topic_target: "entry_topic e \<noteq> Tp_pagestate \<Longrightarrow> entry_target e = entry_topic e"
  by (cases e) simp_all

lemma prescan_step:
  assumes "log_valid T l" and "i < length l"
  shows "run_state (do { set_cursor l (Suc i); prescan_entry T (l ! i) (checkpoints_at l i) }) u =
    (Inr (checkpoints_at l (Suc i)), snd (run_state (spec_prescan T l i) u))"
proof (cases "entry_topic (l ! i) \<in> {Tp_checkpoint, Tp_pagestate}")
  case True
  then show ?thesis
    by (cases "l ! i")
      (simp_all add: prescan_entry_def spec_prescan_def checkpoints_at_Suc [OF assms(2)] mram_tell_def)
next
  case False
  have "T (entry_target (l ! i)) \<noteq> None \<and> entry_target (l ! i) \<notin> {Tp_invalid, Tp_checkpoint, Tp_pagestate}"
    using log_valid_nth [OF assms] False by simp
  then have "isTopicValid T (entry_topic (l ! i))"
    using False entry_topic_target [of "l ! i"] by (intro isTopicValid_valid) simp_all
  moreover have "checkpoints_at l (Suc i) = checkpoints_at l i"
    using False by (cases "l ! i") (simp_all add: checkpoints_at_Suc [OF assms(2)])
  ultimately have "prescan_entry T (l ! i) (checkpoints_at l i) =
      do { prescan_topics T (l ! i); ret (Inr (checkpoints_at l (Suc i))) }"
    using False by (cases "l ! i") (simp_all add: prescan_entry_def)
  then show ?thesis using False by (simp add: spec_prescan_def split_beta)
qed

context journal_topics
begin

lemma spec_prescan_keeps: "keeps (\<lambda>s. disabled (jr s) \<and> mram s = m) (spec_prescan T l k)"
  unfolding spec_prescan_def
  by (intro keeps_intros keeps_set_cursor keeps_disabled prescan_topics_quiet)

lemma spec_apply_keeps: "keeps (\<lambda>s. disabled (jr s) \<and> mram s = m) (spec_apply T l k)"
  unfolding spec_apply_def
  by (intro keeps_intros keeps_set_cursor keeps_disabled dispatch_quiet)

lemma spec_prescan_cursor:
  assumes "disabled (jr s)" and run: "run_state (spec_prescan T l k) s = ((), u)"
  shows "curr (jr u) = log_end (take (Suc k) l)"
proof -
  let ?s = "s\<lparr>jr := (jr s)\<lparr>curr := log_end (take (Suc k) l)\<rparr>\<rparr>"
  let ?m = "if entry_topic (l ! k) \<in> {Tp_checkpoint, Tp_pagestate} then ret () else prescan_topics T (l ! k)"
  have m: "run_state ?m ?s = ((), u)" using run by (simp add: spec_prescan_def)
  have "keeps (store_is (mram ?s) (jr ?s)) ?m"
    using assms(1) by (intro keeps_intros prescan_topics_quiet) simp
  then have "store_is (mram ?s) (jr ?s) u" by (rule keepsD [OF _ _ m]) (simp add: store_is_def)
  then show ?thesis by (simp add: store_is_def)
qed

lemma prescan_entry_quiet: "disabled j \<Longrightarrow> keeps (store_is m j) (prescan_entry T e a)"
  unfolding prescan_entry_def
  by (cases e) (auto intro!: keeps_intros prescan_topics_quiet)

lemma apply_entry_quiet: "disabled j \<Longrightarrow> keeps (store_is m j) (apply_entry T fu e u)"
  unfolding apply_entry_def by (intro keeps_intros dispatch_quiet)

lemma apply_step:
  assumes "log_valid T l" and "list_all (loggable n) l" and "i < length l" and "disabled (jr u)"
  shows "run_state (do { set_cursor l (Suc i); apply_entry T (checkpoints_at l (length l)) (l ! i) () }) u =
    (Inr (), snd (run_state (spec_apply T l i) u))"
proof (cases "entry_topic (l ! i) = Tp_checkpoint")
  case True
  then show ?thesis by (simp add: apply_entry_def spec_apply_def)
next
  case False
  let ?u = "u\<lparr>jr := (jr u)\<lparr>curr := log_end (take (Suc i) l)\<rparr>\<rparr>"
  have tgt: "T (entry_target (l ! i)) \<noteq> None" "entry_target (l ! i) \<notin> {Tp_invalid, Tp_checkpoint, Tp_pagestate}"
    using log_valid_nth [OF assms(1,3)] False by simp_all
  have "isTopicValid T (entry_target (l ! i))" using tgt by (intro isTopicValid_valid) simp_all
  then have entry: "apply_entry T (checkpoints_at l (length l)) (l ! i) () =
      do { dispatch_entry T (\<lambda>t p. pos_ge p (checkpoints_at l (length l) ! topic_code t)) (l ! i); ret (Inr ()) }"
    using tgt False by (auto simp: apply_entry_def)
  have "run_state (dispatch_entry T (\<lambda>t p. pos_ge p (checkpoints_at l (length l) ! topic_code t)) (l ! i)) ?u =
        run_state (dispatch_entry T (\<lambda>t p. last_checkpoint t l \<le> i) (l ! i)) ?u"
  proof (rule dispatch_active_cong [of "mram ?u" "jr ?u"])
    fix t
    have "last_checkpoint t l \<noteq> Suc i" using last_checkpoint_entry [of t l i] False by auto
    then show "pos_ge (pos_of (curr (jr ?u))) (checkpoints_at l (length l) ! topic_code t) = (last_checkpoint t l \<le> i)"
      using pos_ge_index [OF assms(2), of "last_checkpoint t l" "Suc i"] assms(3) last_checkpoint_le [of t l]
      by (auto simp: checkpoints_at_nth)
  qed (use assms(4) in \<open>simp_all add: store_is_def\<close>)
  then show ?thesis using False by (simp add: entry spec_apply_def split_beta)
qed

lemma apply_pass:
  assumes holds: "mram_holds E s0 l k" and valid: "log_valid T l"
    and dis: "disabled (jr s)" and mram: "mram s = mram s0"
  shows "run_state (applyJournalEntries E T (checkpoints_at l (length l))) s =
    (Some R_ok, snd (run_state (do {
       set_cursor l 0;
       for_each [0 ..< length l] (spec_apply T l);
       set_jr (\<lambda>j. j\<lparr>disabled := False\<rparr>);
       with_topics T (\<lambda>t h. tp_signal h)
     }) s))"
proof -
  let ?s = "s\<lparr>jr := (jr s)\<lparr>curr := log_end (take 0 l)\<rparr>\<rparr>" and ?fu = "checkpoints_at l (length l)"
  have n: "list_all (loggable (dataPagesPerArea E)) l" using holds by (simp add: mram_holds_def)
  have rewind: "run_state mram_rewind s = (R_ok, ?s)" by (simp add: mram_rewind_def log_end_def)
  have at0: "mram_holds E ?s l 0" by (rule mram_holds_store [OF holds]) (simp_all add: mram)
  have fuel: "log_fuel ?s = log_end l" using hwm_value [OF at0] by (simp add: log_fuel_def seg_def)
  have "run_state (read_loop (log_end l) E (apply_entry T ?fu) ()) ?s =
    (case run_state (loopM [0 ..< length l] () (\<lambda>i a. do { set_cursor l (Suc i); apply_entry T ?fu (l ! i) a })) ?s of
       (y, t) \<Rightarrow> (Some y, t))"
    by (rule read_loop_run [OF at0]) (use dis length_log_end [OF n] in \<open>auto intro: apply_entry_quiet\<close>)
  also have "run_state (loopM [0 ..< length l] () (\<lambda>i a. do { set_cursor l (Suc i); apply_entry T ?fu (l ! i) a })) ?s =
      (Inr (), snd (run_state (for_each [0 ..< length l] (spec_apply T l)) ?s))"
    by (rule loopM_for_each [where a = "\<lambda>_. ()" and I = "\<lambda>u. disabled (jr u) \<and> mram u = mram s"])
      (use dis apply_step [OF valid n] spec_apply_keeps in auto)
  finally show ?thesis
    using rewind fuel by (simp add: applyJournalEntries_def split_beta)
qed

theorem replay_correct:
  assumes holds: "mram_holds E s l k" and valid: "log_valid T l"
  shows "run_state (processBuffer E T) s = (Some R_ok, snd (run_state (replay_spec T l) s))"
proof -
  obtain s1 where reset: "run_state (with_topics T (\<lambda>t h. tp_reset h)) s = ((), s1)"
    by (cases "run_state (with_topics T (\<lambda>t h. tp_reset h)) s") simp
  have "keeps (store_is (mram s) (jr s)) (with_topics T (\<lambda>t h. tp_reset h))"
    by (intro keeps_intros reset_quiet)
  then have "store_is (mram s) (jr s) s1" by (rule keepsD [OF _ _ reset]) (simp add: store_is_def)
  then have s1: "mram s1 = mram s" "jr s1 = jr s" by (simp_all add: store_is_def)
  let ?s = "s1\<lparr>jr := (jr s1)\<lparr>curr := log_end (take 0 l)\<rparr>\<rparr>"
  have size: "mramSize E \<noteq> 0" and n: "list_all (loggable (dataPagesPerArea E)) l"
    using holds by (auto simp: mram_holds_def log_end_def)
  have rewind: "run_state mram_rewind s1 = (R_ok, ?s)" by (simp add: mram_rewind_def log_end_def)
  have at0: "mram_holds E ?s l 0" by (rule mram_holds_store [OF holds]) (simp_all add: s1)
  have fu0: "replicate numberOfTopics (mram_tell ?s) = checkpoints_at l 0"
    by (simp add: checkpoints_at_0 mram_tell_def)
  show ?thesis
  proof (cases "l = []")
    case True
    then show ?thesis
      using size reset rewind next_run [OF at0]
      by (simp add: processBuffer_def replay_spec_def split_beta)
  next
    case False
    let ?d = "s1\<lparr>jr := (jr s1)\<lparr>disabled := True, curr := log_end (take 0 l)\<rparr>\<rparr>"
    let ?I = "\<lambda>u. disabled (jr u) \<and> mram u = mram s"
    obtain u where u: "run_state (spec_prescan T l 0) ?d = ((), u)" by (cases "run_state (spec_prescan T l 0) ?d") simp
    have Iu: "?I u" by (rule keepsD [OF spec_prescan_keeps _ u]) (simp add: s1)
    have first: "run_state (prescan_entry T (l ! 0) (checkpoints_at l 0))
        (s1\<lparr>jr := (jr s1)\<lparr>disabled := True, curr := log_end (take (Suc 0) l)\<rparr>\<rparr>) = (Inr (checkpoints_at l 1), u)"
      using prescan_step [OF valid, of 0 ?d] u False by simp
    have curu: "curr (jr u) = log_end (take 1 l)" using spec_prescan_cursor [OF _ u] by simp
    have at1: "mram_holds E u l 1"
      by (rule mram_holds_store [OF holds]) (use Iu curu False in \<open>auto simp: Suc_le_eq\<close>)
    have fuel: "log_fuel u = log_end l" using hwm_value [OF at1] by (simp add: log_fuel_def seg_def)
    obtain v where v: "run_state (for_each [1 ..< length l] (spec_prescan T l)) u = ((), v)"
      by (cases "run_state (for_each [1 ..< length l] (spec_prescan T l)) u") simp
    have "keeps ?I (for_each [1 ..< length l] (spec_prescan T l))"
      by (intro keeps_intros spec_prescan_keeps)
    from keepsD [of ?I, OF this Iu v] have Iv: "?I v" by simp
    have "run_state (loopM [1 ..< length l] (checkpoints_at l 1)
        (\<lambda>i a. do { set_cursor l (Suc i); prescan_entry T (l ! i) a })) u = (Inr (checkpoints_at l (length l)), v)"
      using loopM_for_each [where a = "checkpoints_at l" and I = ?I and g = "spec_prescan T l"
          and f = "\<lambda>i a. do { set_cursor l (Suc i); prescan_entry T (l ! i) a }"
          and k = 1 and n = "length l" and s = u] Iu False prescan_step [OF valid] spec_prescan_keeps v
      by (simp add: Suc_le_eq)
    then have loop: "run_state (read_loop (log_end l) E (prescan_entry T) (checkpoints_at l 1)) u =
        (Some (Inr (checkpoints_at l (length l))), v)"
      using read_loop_run [OF at1, of "log_end l" "prescan_entry T" "checkpoints_at l 1"]
        Iu length_log_end [OF n] prescan_entry_quiet by simp
    have passes: "for_each [0 ..< length l] (spec_prescan T l) =
        do { spec_prescan T l 0; for_each [1 ..< length l] (spec_prescan T l) }"
      using False by (simp add: upt_conv_Cons)
    have swap: "j\<lparr>curr := c, disabled := d\<rparr> = j\<lparr>disabled := d, curr := c\<rparr>" for j c d by simp
    have "run_state (processBuffer E T) s =
        run_state (applyJournalEntries E T (checkpoints_at l (length l))) v"
      using size reset rewind next_run [OF at0] False first fuel loop
      by (simp add: processBuffer_def fu0 [simplified] swap)
    also have "\<dots> = (Some R_ok, snd (run_state (replay_spec T l) s))"
      unfolding apply_pass [OF holds valid conjunct1 [OF Iv] conjunct2 [OF Iv]]
      using reset u v False by (simp add: replay_spec_def passes split_beta swap)
    finally show ?thesis .
  qed
qed

end

end
