(* ===== verification/PageCache.thy ===== *)
theory PageCache
  imports BtreeDelete
begin

text \<open>
  \<^verbatim>\<open>src/pageAddressCache.cpp\<close>: the cache of the page addresses of one inode. Behind the direct
  addresses an inode has three chains of address pages: one single page (\<open>Ch1\<close>), two levels
  (\<open>Ch2\<close>) and three levels (\<open>Ch3\<close>), each with an anchor in the inode and one cached page per level.
\<close>

subsection \<open>Elements\<close>

datatype chain = Ch1 | Ch2 | Ch3

fun chain_depth :: "chain \<Rightarrow> nat" where
  "chain_depth Ch1 = 0"
| "chain_depth Ch2 = 1"
| "chain_depth Ch3 = 2"

fun al_elem :: "chain \<Rightarrow> nat \<Rightarrow> page_cache \<Rightarrow> AddrListCacheElem" where
  "al_elem Ch1 i P = singl P"
| "al_elem Ch2 i P = doubl P ! i"
| "al_elem Ch3 i P = tripl P ! i"

fun upd_al :: "chain \<Rightarrow> nat \<Rightarrow> (AddrListCacheElem \<Rightarrow> AddrListCacheElem) \<Rightarrow> page_cache \<Rightarrow> page_cache" where
  "upd_al Ch1 i f P = P\<lparr>singl := f (singl P)\<rparr>"
| "upd_al Ch2 i f P = P\<lparr>doubl := (doubl P)[i := f (doubl P ! i)]\<rparr>"
| "upd_al Ch3 i f P = P\<lparr>tripl := (tripl P)[i := f (tripl P ! i)]\<rparr>"

fun anchor :: "chain \<Rightarrow> Inode \<Rightarrow> Addr" where
  "anchor Ch1 x = i_indir x"
| "anchor Ch2 x = i_d_indir x"
| "anchor Ch3 x = i_t_indir x"

fun set_anchor :: "chain \<Rightarrow> Addr \<Rightarrow> Inode \<Rightarrow> Inode" where
  "set_anchor Ch1 a x = x\<lparr>i_indir := a\<rparr>"
| "set_anchor Ch2 a x = x\<lparr>i_d_indir := a\<rparr>"
| "set_anchor Ch3 a x = x\<lparr>i_t_indir := a\<rparr>"

definition setAddr :: "nat \<Rightarrow> Addr \<Rightarrow> AddrListCacheElem \<Rightarrow> AddrListCacheElem" where
  "setAddr pos a e = (if al_cache e ! pos = a then e else e\<lparr>al_cache := (al_cache e)[pos := a], al_dirty := True\<rparr>)"

definition getAddr :: "nat \<Rightarrow> AddrListCacheElem \<Rightarrow> Addr" where
  "getAddr pos e = al_cache e ! pos"

definition validEntries :: "'a config_scheme \<Rightarrow> AddrListCacheElem \<Rightarrow> bool" where
  "validEntries E e \<longleftrightarrow> (\<exists>i\<in>set [0 ..< addrsPerPage E]. getAddr i e \<noteq> 0)"

definition isDirty :: "page_cache \<Rightarrow> bool" where
  "isDirty P \<longleftrightarrow> al_dirty (singl P) \<or> al_dirty (doubl P ! 0) \<or> al_dirty (doubl P ! 1) \<or>
     al_dirty (tripl P ! 0) \<or> al_dirty (tripl P ! 1) \<or> al_dirty (tripl P ! 2)"

definition deactivate :: "page_cache \<Rightarrow> page_cache" where
  "deactivate P = P\<lparr>tripl := map (\<lambda>e. e\<lparr>al_active := False\<rparr>) (tripl P),
     doubl := map (\<lambda>e. e\<lparr>al_active := False\<rparr>) (doubl P), singl := (singl P)\<lparr>al_active := False\<rparr>\<rparr>"

definition pac_clear :: "page_cache \<Rightarrow> page_cache" where
  "pac_clear P = (deactivate P)\<lparr>mInodePtr := None, isInodeDirty := False, pac_foreignSuccess := False\<rparr>"

definition getTargetInode :: "'f dev \<Rightarrow> InodeNo" where
  "getTargetInode s = (case mInodePtr (pac s) of None \<Rightarrow> 0 | Some p \<Rightarrow> i_no (inodeMem s p))"

subsection \<open>Address pages on the flash\<close>

definition isAddrListPlausible :: "'a config_scheme \<Rightarrow> Addr list \<Rightarrow> bool" where
  "isAddrListPlausible E as \<longleftrightarrow> list_all (\<lambda>a. extractPageOffs a = 0 \<or>
     (extractPageOffs a \<le> dataPagesPerArea E \<and> extractLogicalArea a \<noteq> 0)) as"

definition addr_list_bytes :: "Addr list \<Rightarrow> byte list" where
  "addr_list_bytes as = concat (map (\<lambda>a. le_bytes 4 (unat a)) as)"

definition parse_addr_list :: "'a config_scheme \<Rightarrow> byte list \<Rightarrow> Addr list" where
  "parse_addr_list E bs = map (\<lambda>i. of_nat (rd bs (4 * i) 4)) [0 ..< addrsPerPage E]"

definition verifyAny :: "'a config_scheme \<Rightarrow> bool" where
  "verifyAny E \<longleftrightarrow> verifyTC E \<or> verifyDev E \<or> verifyAS E"

text \<open>
  The result and the contents of \<open>list\<close> afterwards. The driver reads into the list itself: after a
  failing read the bytes \<open>bs\<close> that it has delivered stand in it, in front of the old ones.
\<close>

definition readAddrList :: "'f env \<Rightarrow> Addr \<Rightarrow> Addr list \<Rightarrow> ('f dev, Result \<times> Addr list) state" where
  "readAddrList E from list =
     (if from = 0 then ret (R_ok, replicate (addrsPerPage E) 0)
      else do {
        t \<leftarrow> gets (\<lambda>s. getType E (sb s) (extractLogicalArea from));
        if t \<noteq> T_index then ret (R_bug, list)
        else do {
          page \<leftarrow> gets (\<lambda>s. getPageNumber E (sb s) from);
          (r, bs) \<leftarrow> readPage E page (4 * addrsPerPage E);
          let as = parse_addr_list E (bs @ drop (length bs) (addr_list_bytes list));
          ret (if r = R_ok \<and> verifyAny E \<and> \<not> isAddrListPlausible E as then R_fail else r, as)
        }
      })"

text \<open>The result and the address that the reference to the page has afterwards.\<close>

definition writeAddrList :: "'f env \<Rightarrow> Addr \<Rightarrow> Addr list \<Rightarrow> ('f dev, Result \<times> Addr) state" where
  "writeAddrList E source as = do {
     before \<leftarrow> gets lasterr;
     set_lasterr R_ok;
     _ \<leftarrow> findWritableArea E T_index;
     err \<leftarrow> gets lasterr;
     area \<leftarrow> gets (\<lambda>s. getActiveArea (sb s) T_index);
     if err \<noteq> R_ok then ret (err, source)
     else if area = 0 then ret (R_bug, source)
     else do {
       set_lasterr before;
       (r, page) \<leftarrow> findFirstFreePage E area;
       if r = R_noSpace then do { set_lasterr R_bug; ret (R_bug, source) }
       else do {
         area \<leftarrow> gets (\<lambda>s. getActiveArea (sb s) T_index);
         let to = combineAddress area (case page of None \<Rightarrow> 0 | Some p \<Rightarrow> p);
         r \<leftarrow> replacePage E (pac_machine E) to source;
         if r \<noteq> R_ok then ret (r, source)
         else do {
           page \<leftarrow> gets (\<lambda>s. getPageNumber E (sb s) to);
           r \<leftarrow> writePage E page (addr_list_bytes as);
           if r \<noteq> R_ok then ret (r, source)
           else do { r \<leftarrow> manageActiveAreaFull E T_index; ret (r, to) }
         }
       }
     }
   }"

definition loadCacheElem :: "'f env \<Rightarrow> Addr \<Rightarrow> chain \<Rightarrow> nat \<Rightarrow> ('f dev, Result) state" where
  "loadCacheElem E from c i = do {
     old \<leftarrow> gets (\<lambda>s. al_cache (al_elem c i (pac s)));
     (r, as) \<leftarrow> readAddrList E from old;
     set_pac (upd_al c i (\<lambda>e. e\<lparr>al_cache := as\<rparr>));
     if r = R_biterrorCorrected
     then do { set_pac (upd_al c i (\<lambda>e. e\<lparr>al_dirty := True, al_active := True\<rparr>)); ret R_ok }
     else if r \<noteq> R_ok then ret r
     else do { set_pac (upd_al c i (\<lambda>e. e\<lparr>al_active := True, al_dirty := False\<rparr>)); ret R_ok }
   }"

definition writeCacheElem :: "'f env \<Rightarrow> Addr \<Rightarrow> chain \<Rightarrow> nat \<Rightarrow> ('f dev, Result \<times> Addr) state" where
  "writeCacheElem E source c i = do {
     as \<leftarrow> gets (\<lambda>s. al_cache (al_elem c i (pac s)));
     (r, source') \<leftarrow> writeAddrList E source as;
     if r \<noteq> R_ok then ret (r, source')
     else do { set_pac (upd_al c i (\<lambda>e. e\<lparr>al_dirty := False\<rparr>)); ret (R_ok, source') }
   }"

subsection \<open>Committing\<close>

text \<open>Element \<open>i\<close> of the chain; its parent is element \<open>i - 1\<close>.\<close>

definition set_entry :: "nat \<Rightarrow> Addr \<Rightarrow> AddrListCacheElem \<Rightarrow> AddrListCacheElem" where
  "set_entry pos a e = e\<lparr>al_cache := (al_cache e)[pos := a]\<rparr>"

definition commitElem :: "'f env \<Rightarrow> chain \<Rightarrow> nat \<Rightarrow> ('f dev, Result) state" where
  "commitElem E c i = do {
     P \<leftarrow> gets pac;
     let (e, up) = (al_elem c i P, al_elem c (i - 1) P);
     let pos = al_positionInParent e;
     let old = al_cache up ! pos;
     if \<not> al_active e then ret R_bug
     else if \<not> al_dirty e then ret R_ok
     else do {
       r \<leftarrow> (if \<not> validEntries E e
             then do {
               r \<leftarrow> setPageStatus E (extractLogicalArea old) (extractPageOffs old) SE_dirty;
               whenM (r = R_ok) (set_pac (\<lambda>P. upd_al c i (\<lambda>e. e\<lparr>al_dirty := False, al_active := False\<rparr>)
                 (upd_al c (i - 1) (set_entry pos 0) P)));
               ret r
             }
             else do {
               (r, a) \<leftarrow> writeCacheElem E old c i;
               set_pac (upd_al c (i - 1) (set_entry pos a));
               ret r
             });
       if r \<noteq> R_ok then ret r
       else do { set_pac (upd_al c (i - 1) (\<lambda>e. e\<lparr>al_dirty := True\<rparr>)); ret R_ok }
     }
   }"

text \<open>The pages from the last level up, then the page at the anchor of the inode at \<open>p\<close>.\<close>

definition commitPath :: "'f env \<Rightarrow> nat \<Rightarrow> chain \<Rightarrow> ('f dev, Result) state" where
  "commitPath E p c = do {
     y \<leftarrow> loopM (rev [1 ..< chain_depth c + 1]) () (\<lambda>i _. do {
            d \<leftarrow> gets (\<lambda>s. al_dirty (al_elem c i (pac s)));
            r \<leftarrow> (if d then commitElem E c i else ret R_ok);
            ret (if r \<noteq> R_ok then Inl r else Inr ())
          });
     (case y of
        Inl r \<Rightarrow> ret r
      | Inr _ \<Rightarrow> do {
          e \<leftarrow> gets (\<lambda>s. al_elem c 0 (pac s));
          a \<leftarrow> gets (\<lambda>s. anchor c (inodeMem s p));
          if \<not> al_dirty e then ret R_ok
          else do {
            r \<leftarrow> (if \<not> validEntries E e
                  then do {
                    r \<leftarrow> setPageStatus E (extractLogicalArea a) (extractPageOffs a) SE_dirty;
                    whenM (r = R_ok) (set_inode p (set_anchor c 0));
                    ret r
                  }
                  else do {
                    (r, a') \<leftarrow> writeCacheElem E a c 0;
                    set_inode p (set_anchor c a');
                    ret r
                  });
            if r \<noteq> R_ok then ret r
            else do { set_pac (upd_al c 0 (\<lambda>e. e\<lparr>al_dirty := False\<rparr>)); ret R_ok }
          }
        })
   }"

definition commit_chains :: "'f env \<Rightarrow> nat \<Rightarrow> ('f dev, Result) state" where
  "commit_chains E p = do {
     r \<leftarrow> commitPath E p Ch1;
     if r \<noteq> R_ok then ret r
     else do {
       r \<leftarrow> commitPath E p Ch2;
       if r \<noteq> R_ok then ret r else commitPath E p Ch3
     }
   }"

definition pac_commit :: "'f env \<Rightarrow> ('f dev, Result) state" where
  "pac_commit E = do {
     P \<leftarrow> gets pac;
     (case mInodePtr P of
        None \<Rightarrow> ret R_bug
      | Some p \<Rightarrow>
          if \<not> isInodeDirty P then ret R_ok
          else do {
            r \<leftarrow> commit_chains E p;
            if r \<noteq> R_ok then ret r
            else do {
              dirty \<leftarrow> gets (\<lambda>s. isDirty (pac s));
              if dirty then ret R_bug
              else do {
                x \<leftarrow> gets (\<lambda>s. inodeMem s p);
                r \<leftarrow> updateExistingInode E x;
                _ \<leftarrow> invalidateOldPages E (pac_machine E);
                add_event E (Checkpoint Tp_pac);
                set_pac (\<lambda>P. P\<lparr>isInodeDirty := False\<rparr>);
                ret r
              }
            }
          })
   }"

definition setValid :: "'f env \<Rightarrow> ('f dev, Result) state" where
  "setValid E = invalidateOldPages E (pac_machine E)"

subsection \<open>Reading and setting addresses\<close>

definition setTargetInode :: "'f env \<Rightarrow> nat \<Rightarrow> ('f dev, Result) state" where
  "setTargetInode E p = do {
     no \<leftarrow> gets (\<lambda>s. i_no (inodeMem s p));
     _ \<leftarrow> getInode E no;
     P \<leftarrow> gets pac;
     if mInodePtr P = Some p then ret R_ok
     else do {
       r \<leftarrow> (if isDirty P then pac_commit E else ret R_ok);
       if r \<noteq> R_ok then ret r
       else do { set_pac (\<lambda>P. (deactivate P)\<lparr>mInodePtr := Some p\<rparr>); ret R_ok }
     }
   }"

text \<open>The index at each level, the last one being that of the page itself.\<close>

definition path_of :: "'a config_scheme \<Rightarrow> nat \<Rightarrow> nat \<Rightarrow> nat list" where
  "path_of E depth offs = map (\<lambda>k. offs div addrsPerPage E ^ (depth - k) mod addrsPerPage E) [0 ..< depth + 1]"

definition load_level :: "'f env \<Rightarrow> chain \<Rightarrow> nat list \<Rightarrow> nat \<Rightarrow> ('f dev, Result) state" where
  "load_level E c path i = do {
     e \<leftarrow> gets (\<lambda>s. al_elem c i (pac s));
     let pos = path ! (i - 1);
     r \<leftarrow> (if al_active e \<and> al_positionInParent e \<noteq> pos then commitElem E c i else ret R_ok);
     if r \<noteq> R_ok then ret r
     else do {
       e \<leftarrow> gets (\<lambda>s. al_elem c i (pac s));
       if al_active e \<and> al_positionInParent e = pos then ret R_ok
       else do {
         from \<leftarrow> gets (\<lambda>s. getAddr pos (al_elem c (i - 1) (pac s)));
         r \<leftarrow> loadCacheElem E from c i;
         if r \<noteq> R_ok then ret r
         else do { set_pac (upd_al c i (\<lambda>e. e\<lparr>al_positionInParent := pos\<rparr>)); ret R_ok }
       }
     }
   }"

text \<open>The answer is the position in the last page.\<close>

definition loadPath :: "'f env \<Rightarrow> Addr \<Rightarrow> nat \<Rightarrow> chain \<Rightarrow> ('f dev, Result + nat) state" where
  "loadPath E a offs c = do {
     let path = path_of E (chain_depth c) offs;
     active \<leftarrow> gets (\<lambda>s. al_active (al_elem c 0 (pac s)));
     r \<leftarrow> (if active then ret R_ok else loadCacheElem E a c 0);
     if r \<noteq> R_ok then ret (Inl r)
     else do {
       y \<leftarrow> loopM [1 ..< chain_depth c + 1] () (\<lambda>i _. do {
              r \<leftarrow> load_level E c path i;
              ret (if r \<noteq> R_ok then Inl r else Inr ())
            });
       ret (case y of Inl r \<Rightarrow> Inl r | Inr _ \<Rightarrow> Inr (path ! chain_depth c))
     }
   }"

text \<open>The chain of a page that is not direct and the number of the page in it; \<open>None\<close>: too big.\<close>

definition locate :: "'a config_scheme \<Rightarrow> PageAbs \<Rightarrow> (chain \<times> nat) option" where
  "locate E page =
     (let n = addrsPerPage E; page = page - directAddrCount
      in if page < n then Some (Ch1, page)
         else let page = page - n
         in if page < n ^ 2 then Some (Ch2, page)
         else let page = page - n ^ 2
         in if page < n ^ 3 then Some (Ch3, page) else None)"

definition getPage :: "'f env \<Rightarrow> PageAbs \<Rightarrow> ('f dev, Result + Addr) state" where
  "getPage E page = do {
     P \<leftarrow> gets pac;
     (case mInodePtr P of
        None \<Rightarrow> ret (Inl R_bug)
      | Some p \<Rightarrow> do {
          x \<leftarrow> gets (\<lambda>s. inodeMem s p);
          if page < directAddrCount then ret (Inr (i_direct x ! page))
          else (case locate E page of
              None \<Rightarrow> ret (Inl R_tooBig)
            | Some (c, offs) \<Rightarrow> do {
                y \<leftarrow> loadPath E (anchor c x) offs c;
                (case y of
                   Inl r \<Rightarrow> ret (Inl r)
                 | Inr pos \<Rightarrow> gets (\<lambda>s. Inr (getAddr pos (al_elem c (chain_depth c) (pac s)))))
              })
        })
   }"

text \<open>The page of a journal entry has 16 bits.\<close>

definition set_indirect :: "'f env \<Rightarrow> nat \<Rightarrow> PageAbs \<Rightarrow> Addr \<Rightarrow> ('f dev, Result) state" where
  "set_indirect E p page a =
     (case locate E page of
        None \<Rightarrow> ret R_tooBig
      | Some (c, offs) \<Rightarrow> do {
          x \<leftarrow> gets (\<lambda>s. inodeMem s p);
          y \<leftarrow> loadPath E (anchor c x) offs c;
          (case y of
             Inl r \<Rightarrow> ret r
           | Inr pos \<Rightarrow> do {
               old \<leftarrow> gets (\<lambda>s. getAddr pos (al_elem c (chain_depth c) (pac s)));
               if old = a then ret R_ok
               else do {
                 add_event E (PacSetAddress (i_no x) (page mod 2 ^ 16) a);
                 set_pac (\<lambda>P. (upd_al c (chain_depth c) (setAddr pos a) P)\<lparr>isInodeDirty := True\<rparr>);
                 ret R_ok
               }
             })
        })"

definition setPage :: "'f env \<Rightarrow> PageAbs \<Rightarrow> Addr \<Rightarrow> ('f dev, Result) state" where
  "setPage E page a = do {
     P \<leftarrow> gets pac;
     ro \<leftarrow> gets readOnly;
     (case mInodePtr P of
        None \<Rightarrow> ret R_bug
      | Some p \<Rightarrow>
          if ro then ret R_bug
          else if page < directAddrCount
          then do {
            x \<leftarrow> gets (\<lambda>s. inodeMem s p);
            if i_direct x ! page = a then ret R_ok
            else do {
              add_event E (PacSetAddress (i_no x) page a);
              set_inode p (\<lambda>x. x\<lparr>i_direct := (i_direct x)[page := a]\<rparr>);
              set_pac (\<lambda>P. P\<lparr>isInodeDirty := True\<rparr>);
              ret R_ok
            }
          }
          else do {
            r \<leftarrow> (if getMinSpaceLeft (pac_machine E) (pac_psm P) < 6 then pac_commit E else ret R_ok);
            if r \<noteq> R_ok then ret r else set_indirect E p page a
          })
   }"

subsection \<open>Replay\<close>

definition setJournallingInode :: "'f env \<Rightarrow> InodeNo \<Rightarrow> ('f dev, Result) state" where
  "setJournallingInode E no = do {
     y \<leftarrow> getInode E no;
     (case y of
        Inl r \<Rightarrow> ret r
      | Inr x \<Rightarrow> do { set_inode mJournalInodeCopy (\<lambda>_. x); setTargetInode E mJournalInodeCopy })
   }"

definition pac_resetState :: "'f env \<Rightarrow> ('f dev, unit) state" where
  "pac_resetState E = do {
     clear_machine (pac_machine E);
     set_pac (\<lambda>P. P\<lparr>pac_foreignSuccess := False\<rparr>)
   }"

definition pac_isInterestedIn :: "Entry \<Rightarrow> 'f dev \<Rightarrow> bool" where
  "pac_isInterestedIn e s \<longleftrightarrow>
     journalState (pac_psm (pac s)) = J_invalid \<and> \<not> pac_foreignSuccess (pac s) \<and> entry_topic e = Tp_tree"

definition pac_processEntry :: "'f env \<Rightarrow> Entry \<Rightarrow> JournalEntryPosition \<Rightarrow> ('f dev, Result) state" where
  "pac_processEntry E e pos =
     (if entry_topic e = Tp_pac
      then (case e of
          PacSetAddress no page a \<Rightarrow> do {
            other \<leftarrow> gets (\<lambda>s. mInodePtr (pac s) = None \<or> getTargetInode s \<noteq> no);
            _ \<leftarrow> (if other then setJournallingInode E no else ret R_ok);
            setPage E page a
          }
        | _ \<Rightarrow> ret R_bug)
      else if entry_topic e = Tp_pagestate \<and> entry_target e = Tp_pac
      then machine_processEntry (pac_machine E) e
      else if entry_topic e = Tp_tree
      then (case e of
          TreeUpdate _ \<Rightarrow> do {
            target \<leftarrow> gets (\<lambda>s. mInodePtr (pac s));
            if target \<noteq> Some mJournalInodeCopy then ret R_bug
            else do {
              set_pac (\<lambda>P. P\<lparr>pac_foreignSuccess := True\<rparr>);
              machine_processEntry (pac_machine E) (Success Tp_pac)
            }
          }
        | _ \<Rightarrow> ret R_ok)
      else ret R_invalidInput)"

text \<open>The addresses of the copy are taken over into the inode of the tree.\<close>

definition with_addresses :: "Inode \<Rightarrow> Inode \<Rightarrow> Inode" where
  "with_addresses x y = y\<lparr>i_direct := i_direct x, i_indir := i_indir x, i_d_indir := i_d_indir x, i_t_indir := i_t_indir x\<rparr>"

definition pac_signalEndOfLog :: "'f env \<Rightarrow> ('f dev, unit) state" where
  "pac_signalEndOfLog E = do {
     _ \<leftarrow> machine_signalEndOfLog E (pac_machine E) (\<lambda>_ _. ret ());
     target \<leftarrow> gets (\<lambda>s. mInodePtr (pac s));
     (case target of
        None \<Rightarrow> ret ()
      | Some p \<Rightarrow> do {
          no \<leftarrow> gets (\<lambda>s. i_no (inodeMem s p));
          y \<leftarrow> getInode E no;
          (case y of
             Inl _ \<Rightarrow> ret ()
           | Inr x \<Rightarrow> do {
               set_inode mJournalInodeCopy (\<lambda>c. with_addresses c x);
               _ \<leftarrow> pac_commit E;
               set_pac (\<lambda>P. P\<lparr>mInodePtr := None\<rparr>)
             })
        })
   }"

definition pac_topic :: "'f env \<Rightarrow> 'f dev topic" where
  "pac_topic E = \<lparr>tp_reset = pac_resetState E, tp_preScan = (\<lambda>_ _. ret ()),
     tp_interested = pac_isInterestedIn, tp_process = pac_processEntry E, tp_signal = pac_signalEndOfLog E\<rparr>"

end
