(* ===== verification/DataIO.thy ===== *)
theory DataIO
  imports PageCache
begin

text \<open>
  \<^verbatim>\<open>src/dataIO.cpp\<close>: reading, writing and deleting the data of an inode, page by page, through the
  page address cache, as one transaction of the page state machine; and its part in a replay.
  Sizes have 32 bits. Inodes are passed by reference, as pointers into the inode memory. The
  bytes of the page buffer that no statement has set are those the driver left there.
\<close>

definition sub32 :: "nat \<Rightarrow> nat \<Rightarrow> nat" where
  "sub32 a b = (a + 2 ^ 32 - b) mod 2 ^ 32"

text \<open>The page of the last byte; it wraps around for an empty range at the start of the file.\<close>

definition last_page :: "'a config_scheme \<Rightarrow> nat \<Rightarrow> nat" where
  "last_page E end =
     (if end mod dataBytesPerPage E = 0 then sub32 (end div dataBytesPerPage E) 1 else end div dataBytesPerPage E)"

text \<open>
  The loops over the pages count in 16 bits. With a span of exactly \<open>2 ^ 16\<close> pages the counter
  never gets behind the last page, and the code runs on behind its buffers; the model stops there
  with \<open>R_bug\<close>.
\<close>

definition page_span :: "PageAbs \<Rightarrow> PageAbs \<Rightarrow> nat list option" where
  "page_span pageFrom toPage =
     (let n = sub32 toPage pageFrom mod 2 ^ 16
      in if n = 2 ^ 16 - 1 then None else Some [0 ..< n + 1])"

subsection \<open>Reading\<close>

definition checkIfSaneReadAddress :: "'f env \<Rightarrow> Addr \<Rightarrow> ('f dev, bool) state" where
  "checkIfSaneReadAddress E a = do {
     t \<leftarrow> gets (\<lambda>s. getType E (sb s) (extractLogicalArea a));
     if t \<noteq> T_data then ret False
     else if verifyAS E then do {
       (r, e) \<leftarrow> getPageStatus_addr E a;
       ret (r = R_ok \<and> e = SE_used)
     }
     else ret True
   }"

text \<open>One page; the loop keeps the offset into the page and the bytes read so far.\<close>

definition read_page_step ::
  "'f env \<Rightarrow> PageAbs \<Rightarrow> FileSize \<Rightarrow> nat \<Rightarrow> FileSize \<times> byte list
    \<Rightarrow> ('f dev, (Result \<times> byte list) + (FileSize \<times> byte list)) state" where
  "read_page_step E pageFrom bytes page acc = do {
     let (offs, data) = acc;
     y \<leftarrow> getPage E (page + pageFrom);
     (case y of
        Inl r \<Rightarrow> ret (Inl (r, data))
      | Inr a \<Rightarrow> do {
          let btr = min (sub32 (bytes + offs) (length data)) (dataBytesPerPage E);
          if a = 0 then ret (Inr (0, data @ replicate (btr - offs) 0))
          else do {
            sane \<leftarrow> checkIfSaneReadAddress E a;
            if \<not> sane then ret (Inl (R_bug, data))
            else do {
              phys \<leftarrow> gets (\<lambda>s. getPageNumber E (sb s) a);
              (r, bs) \<leftarrow> readPage E phys btr;
              if r \<noteq> R_ok \<and> r \<noteq> R_biterrorCorrected
              then do { set_lasterr r; ret (Inl (r, data)) }
              else ret (Inr (0, data @ take (btr - offs) (drop offs bs)))
            }
          }
        })
   }"

definition readPageData ::
  "'f env \<Rightarrow> PageAbs \<Rightarrow> PageAbs \<Rightarrow> FileSize \<Rightarrow> FileSize \<Rightarrow> ('f dev, Result \<times> byte list) state" where
  "readPageData E pageFrom toPage offs bytes =
     (if toPage < pageFrom then ret (R_bug, [])
      else case page_span pageFrom toPage of
          None \<Rightarrow> ret (R_bug, [])
        | Some pages \<Rightarrow> do {
            y \<leftarrow> loopM pages (offs, []) (read_page_step E pageFrom bytes);
            ret (case y of Inl e \<Rightarrow> e | Inr (_, data) \<Rightarrow> (R_ok, data))
          })"

definition readInodeData :: "'f env \<Rightarrow> nat \<Rightarrow> FileSize \<Rightarrow> FileSize \<Rightarrow> ('f dev, Result \<times> byte list) state" where
  "readInodeData E p offs bytes =
     (if (offs + bytes) mod 2 ^ 32 = 0 then do { set_lasterr R_invalidInput; ret (R_invalidInput, []) }
      else do {
        total \<leftarrow> gets (\<lambda>s. i_size (inodeMem s p));
        let bytes = (if (offs + bytes) mod 2 ^ 32 > total then (if total < offs then 0 else total - offs) else bytes);
        let toPage = last_page E ((offs + bytes) mod 2 ^ 32);
        r \<leftarrow> setTargetInode E p;
        if r \<noteq> R_ok then ret (r, [])
        else readPageData E (offs div dataBytesPerPage E) toPage (offs mod dataBytesPerPage E) bytes
      })"

subsection \<open>Writing\<close>

text \<open>The bytes of a page that exist before the write, at most \<open>filesize\<close>.\<close>

definition bytes_in_page :: "'a config_scheme \<Rightarrow> FileSize \<Rightarrow> PageAbs \<Rightarrow> nat" where
  "bytes_in_page E filesize page =
     (if (page + 1) * dataBytesPerPage E > filesize
      then (if filesize > page * dataBytesPerPage E then filesize - page * dataBytesPerPage E else 0)
      else dataBytesPerPage E)"

text \<open>
  The contents of the page buffer and the number of bytes to write; \<open>None\<close> when the old contents of
  the page could not be read.
\<close>

definition fill_page ::
  "'f env \<Rightarrow> PageAbs \<Rightarrow> nat \<Rightarrow> FileSize \<Rightarrow> FileSize \<Rightarrow> Addr \<Rightarrow> byte list
    \<Rightarrow> ('f dev, (byte list \<times> nat) option) state" where
  "fill_page E pageFrom page offs filesize old chunk = do {
     let btw = length chunk;
     if offs > 0 \<or> (btw + offs < dataBytesPerPage E \<and> page * dataBytesPerPage E + btw < filesize)
     then do {
       let btr = bytes_in_page E filesize (pageFrom + page);
       y \<leftarrow> (if old \<noteq> 0
             then do {
               (r, bs) \<leftarrow> readPageData E (pageFrom + page) (pageFrom + page) 0 btr;
               rest \<leftarrow> gets (\<lambda>s. drop btr (drv_pageBuffer E (flash s)));
               ret (if r \<noteq> R_ok \<or> length bs \<noteq> btr then None else Some (bs @ rest))
             }
             else ret (Some (replicate (dataBytesPerPage E) 0)));
       ret (map_option (\<lambda>buf. (take offs buf @ chunk @ drop (offs + btw) buf, max btr (offs + btw))) y)
     }
     else ret (Some (chunk, btw))
   }"

text \<open>
  One page; the loop keeps the offset into the page and the number of bytes written. A failing
  \<open>replacePage\<close> and a failing \<open>setPage\<close> are only reported.
\<close>

definition write_page_step ::
  "'f env \<Rightarrow> nat \<Rightarrow> PageAbs \<Rightarrow> byte list \<Rightarrow> FileSize \<Rightarrow> nat \<Rightarrow> FileSize \<times> nat
    \<Rightarrow> ('f dev, (Result \<times> nat) + (FileSize \<times> nat)) state" where
  "write_page_step E p pageFrom data filesize page acc = do {
     let (offs, written) = acc;
     before \<leftarrow> gets lasterr;
     set_lasterr R_ok;
     _ \<leftarrow> findWritableArea E T_data;
     err \<leftarrow> gets lasterr;
     if err \<noteq> R_ok then ret (Inl (err, written))
     else do {
       set_lasterr before;
       area \<leftarrow> gets (\<lambda>s. getActiveArea (sb s) T_data);
       st \<leftarrow> gets (\<lambda>s. getStatus E (sb s) area);
       if st \<noteq> S_active then ret (Inl (R_bug, written))
       else do {
         (r, free) \<leftarrow> findFirstFreePage E area;
         if r = R_noSpace then ret (Inl (R_bug, written))
         else do {
           area \<leftarrow> gets (\<lambda>s. getActiveArea (sb s) T_data);
           let new = combineAddress area (case free of None \<Rightarrow> 0 | Some o' \<Rightarrow> o');
           y \<leftarrow> getPage E (page + pageFrom);
           (case y of
              Inl r \<Rightarrow> ret (Inl (r, written))
            | Inr old \<Rightarrow> do {
                let btw = min (length data - written) (dataBytesPerPage E - offs);
                let chunk = take btw (drop written data);
                no \<leftarrow> gets getTargetInode;
                _ \<leftarrow> replacePage_at E (dio_machine E) new old no (page + pageFrom);
                filled \<leftarrow> fill_page E pageFrom page offs filesize old chunk;
                (case filled of
                   None \<Rightarrow> ret (Inl (R_bug, written))
                 | Some (buf, n) \<Rightarrow> do {
                     phys \<leftarrow> gets (\<lambda>s. getPageNumber E (sb s) new);
                     r \<leftarrow> writePage E phys (take n buf);
                     if r \<noteq> R_ok then ret (Inl (r, written + btw))
                     else do {
                       _ \<leftarrow> setPage E (page + pageFrom) new;
                       whenM (old = 0) (set_inode p (\<lambda>x. x\<lparr>i_reservedPages := (i_reservedPages x + 1) mod 2 ^ 16\<rparr>));
                       r \<leftarrow> manageActiveAreaFull E T_data;
                       ret (if r \<noteq> R_ok then Inl (r, written + btw) else Inr (0, written + btw))
                     }
                   })
              })
         }
       }
     }
   }"

definition writePageData ::
  "'f env \<Rightarrow> nat \<Rightarrow> PageAbs \<Rightarrow> PageAbs \<Rightarrow> FileSize \<Rightarrow> byte list \<Rightarrow> FileSize \<Rightarrow> ('f dev, Result \<times> nat) state" where
  "writePageData E p pageFrom toPage offs data filesize = do {
     ro \<leftarrow> gets readOnly;
     if ro \<or> offs > dataBytesPerPage E \<or> toPage < pageFrom then ret (R_bug, 0)
     else case page_span pageFrom toPage of
         None \<Rightarrow> ret (R_bug, 0)
       | Some pages \<Rightarrow> do {
           y \<leftarrow> loopM pages (offs, 0) (write_page_step E p pageFrom data filesize);
           ret (case y of Inl e \<Rightarrow> e | Inr (_, written) \<Rightarrow> (R_ok, written))
         }
   }"

text \<open>
  What follows the pages: the size is set, the inode is updated in the tree, and the replaced pages
  become dirty.
\<close>

definition finish_write :: "'f env \<Rightarrow> nat \<Rightarrow> nat \<Rightarrow> nat \<Rightarrow> ('f dev, Result \<times> nat) state" where
  "finish_write E p offs written = do {
     now \<leftarrow> gets (\<lambda>s. sys_now E (flash s));
     set_inode p (\<lambda>x. x\<lparr>i_size := max (i_size x) ((written + offs) mod 2 ^ 32), i_mod := now\<rparr>);
     x \<leftarrow> gets (\<lambda>s. inodeMem s p);
     r \<leftarrow> updateExistingInode E x;
     if r \<noteq> R_ok then ret (r, written)
     else do {
       r \<leftarrow> invalidateOldPages E (dio_machine E);
       _ \<leftarrow> setValid E;
       ret (r, written)
     }
   }"

definition writeInodeData :: "'f env \<Rightarrow> nat \<Rightarrow> FileSize \<Rightarrow> byte list \<Rightarrow> ('f dev, Result \<times> nat) state" where
  "writeInodeData E p offs data = do {
     ro \<leftarrow> gets readOnly;
     let end = (offs + length data) mod 2 ^ 32;
     let pageFrom = offs div dataBytesPerPage E;
     let toPage = last_page E end;
     if ro then ret (R_bug, 0)
     else if end = 0 then ret (R_invalidInput, 0)
     else if sub32 toPage pageFrom > maxPagesPerWrite E then ret (R_tooBig, 0)
     else do {
       r \<leftarrow> setTargetInode E p;
       if r \<noteq> R_ok then ret (r, 0)
       else do {
         x \<leftarrow> gets (\<lambda>s. inodeMem s p);
         whenM (i_size x < end) (add_event E (NewInodeSize (i_no x) end));
         (r, written) \<leftarrow> writePageData E p pageFrom toPage (offs mod dataBytesPerPage E) data (i_size x);
         if r \<noteq> R_ok then ret (r, written) else finish_write E p offs written
       }
     }
   }"

subsection \<open>Deleting\<close>

definition delete_page_step :: "'f env \<Rightarrow> nat \<Rightarrow> bool \<Rightarrow> PageAbs \<Rightarrow> unit \<Rightarrow> ('f dev, Result + unit) state" where
  "delete_page_step E p journalMode page _ = do {
     y \<leftarrow> getPage E page;
     (case y of
        Inl r \<Rightarrow> ret (Inl r)
      | Inr a \<Rightarrow>
          if a = 0 then ret (Inr ())
          else do {
            t \<leftarrow> gets (\<lambda>s. getType E (sb s) (extractLogicalArea a));
            if t \<noteq> T_data then ret (Inl R_bug)
            else do {
              (r, e) \<leftarrow> (if journalMode then ret (R_ok, SE_used)
                        else getPageStatus E (extractLogicalArea a) (extractPageOffs a));
              if \<not> journalMode \<and> e = SE_dirty then ret (Inl R_bug)
              else if r \<noteq> R_ok then ret (Inl r)
              else do {
                no \<leftarrow> gets (\<lambda>s. i_no (inodeMem s p));
                _ \<leftarrow> replacePage_at E (dio_machine E) 0 a no page;
                r \<leftarrow> setPage E page 0;
                if r \<noteq> R_ok then ret (Inl r)
                else do {
                  set_inode p (\<lambda>x. x\<lparr>i_reservedPages := (i_reservedPages x + 2 ^ 16 - 1) mod 2 ^ 16\<rparr>);
                  ret (Inr ())
                }
              }
            }
          })
   }"

text \<open>The pages are deleted from the last one down.\<close>

definition deleteInodeData :: "'f env \<Rightarrow> nat \<Rightarrow> FileSize \<Rightarrow> bool \<Rightarrow> ('f dev, Result) state" where
  "deleteInodeData E p offs journalMode = do {
     ro \<leftarrow> gets readOnly;
     x \<leftarrow> gets (\<lambda>s. inodeMem s p);
     let pageFrom = ceil_div offs (dataBytesPerPage E);
     let toPage = last_page E (i_size x);
     if ro then ret R_bug
     else if i_size x = offs then ret R_ok
     else if i_size x < offs then ret R_invalidInput
     else do {
       r \<leftarrow> setTargetInode E p;
       if r \<noteq> R_ok then ret r
       else do {
         add_event E (NewInodeSize (i_no x) offs);
         reserved \<leftarrow> gets (\<lambda>s. i_reservedPages (inodeMem s p));
         y \<leftarrow> (if pageFrom \<le> toPage \<and> reserved \<noteq> 0
               then loopM (rev [pageFrom ..< toPage + 1]) () (delete_page_step E p journalMode)
               else ret (Inr ()));
         (case y of
            Inl r \<Rightarrow> ret r
          | Inr _ \<Rightarrow> do {
              set_inode p (\<lambda>x. x\<lparr>i_size := offs\<rparr>);
              x \<leftarrow> gets (\<lambda>s. inodeMem s p);
              _ \<leftarrow> updateExistingInode E x;
              _ \<leftarrow> invalidateOldPages E (dio_machine E);
              _ \<leftarrow> setValid E;
              add_event E (Checkpoint Tp_dataIO);
              ret R_ok
            })
       }
     }
   }"

subsection \<open>Replay\<close>

definition dio_resetState :: "'f env \<Rightarrow> ('f dev, unit) state" where
  "dio_resetState E = do {
     clear_machine (dio_machine E);
     set_inode journalLastModifiedInode (\<lambda>_. zero_inode);
     set_dio (\<lambda>D. D\<lparr>journalLastSize := 0, journalInodeValid := False, modifiedInode := False,
       dio_foreignSuccess := False, journalIsWriteTruncatePair := False\<rparr>)
   }"

definition dio_isInterestedIn :: "Entry \<Rightarrow> 'f dev \<Rightarrow> bool" where
  "dio_isInterestedIn e s \<longleftrightarrow> modifiedInode (dio s) \<and> \<not> dio_foreignSuccess (dio s) \<and>
     (case e of TreeUpdate _ \<Rightarrow> True | _ \<Rightarrow> False)"

definition dio_processEntry :: "'f env \<Rightarrow> Entry \<Rightarrow> JournalEntryPosition \<Rightarrow> ('f dev, Result) state" where
  "dio_processEntry E e pos =
     (if entry_topic e = Tp_dataIO
      then (case e of
          NewInodeSize no sz \<Rightarrow> do {
            D \<leftarrow> gets dio;
            last \<leftarrow> gets (\<lambda>s. i_no (inodeMem s journalLastModifiedInode));
            if journalInodeValid D \<and> last = no \<and> journalLastSize D = sz
            then do { set_dio (\<lambda>D. D\<lparr>journalIsWriteTruncatePair := True\<rparr>); ret R_ok }
            else do {
              set_inode journalLastModifiedInode (\<lambda>x. x\<lparr>i_no := no\<rparr>);
              set_dio (\<lambda>D. D\<lparr>journalLastSize := sz, journalInodeValid := True, modifiedInode := False\<rparr>);
              ret R_ok
            }
          }
        | _ \<Rightarrow> ret R_ok)
      else if entry_topic e = Tp_pagestate
      then do { set_dio (\<lambda>D. D\<lparr>modifiedInode := True\<rparr>); machine_processEntry (dio_machine E) e }
      else if entry_topic e = Tp_tree
      then (case e of
          TreeUpdate _ \<Rightarrow> do {
            set_dio (\<lambda>D. D\<lparr>dio_foreignSuccess := True\<rparr>);
            machine_processEntry (dio_machine E) (Success Tp_dataIO)
          }
        | _ \<Rightarrow> ret R_ok)
      else ret R_bug)"

text \<open>The reverted pages get their old addresses back.\<close>

definition pac_revert :: "'f env \<Rightarrow> InodeNo \<Rightarrow> (nat \<times> Addr) list \<Rightarrow> ('f dev, unit) state" where
  "pac_revert E no pages = do {
     _ \<leftarrow> setJournallingInode E no;
     for_each pages (\<lambda>(pos, old). do { _ \<leftarrow> setPage E pos old; ret () });
     _ \<leftarrow> pac_commit E;
     ret ()
   }"

definition recover_size :: "'f env \<Rightarrow> ('f dev, Result) state" where
  "recover_size E = do {
     no \<leftarrow> gets (\<lambda>s. i_no (inodeMem s journalLastModifiedInode));
     y \<leftarrow> getInode E no;
     (case y of
        Inl r \<Rightarrow> ret r
      | Inr x \<Rightarrow> do {
          set_inode journalLastModifiedInode (\<lambda>_. x);
          D \<leftarrow> gets dio;
          if i_size x < journalLastSize D
          then do {
            whenM (modifiedInode D) (do {
              set_inode journalLastModifiedInode (\<lambda>x. x\<lparr>i_size := journalLastSize D\<rparr>);
              _ \<leftarrow> updateExistingInode E (x\<lparr>i_size := journalLastSize D\<rparr>);
              ret ()
            });
            ret R_ok
          }
          else do {
            whenM (i_size x \<noteq> journalLastSize D) (do {
              _ \<leftarrow> deleteInodeData E journalLastModifiedInode (journalLastSize D) True;
              ret ()
            });
            ret R_ok
          }
        })
   }"

definition dio_signalEndOfLog :: "'f env \<Rightarrow> ('f dev, unit) state" where
  "dio_signalEndOfLog E = do {
     st \<leftarrow> machine_signalEndOfLog E (dio_machine E) (pac_revert E);
     D \<leftarrow> gets dio;
     r \<leftarrow> (if journalInodeValid D \<and> (st = J_recover \<or> (st = J_invalid \<and> journalIsWriteTruncatePair D) \<or>
              (st = J_ok \<and> dio_foreignSuccess D))
           then recover_size E else ret R_ok);
     whenM (r = R_ok) (do {
       _ \<leftarrow> manageActiveAreaFull E T_data;
       _ \<leftarrow> manageActiveAreaFull E T_index;
       add_event E (Checkpoint Tp_dataIO)
     })
   }"

definition dio_topic :: "'f env \<Rightarrow> 'f dev topic" where
  "dio_topic E = \<lparr>tp_reset = dio_resetState E, tp_preScan = (\<lambda>_ _. ret ()),
     tp_interested = dio_isInterestedIn, tp_process = dio_processEntry E, tp_signal = dio_signalEndOfLog E\<rparr>"

end
