(* ===== verification/Pools.thy ===== *)
theory Pools
  imports PageCache
begin

text \<open>
  \<^verbatim>\<open>src/pools.hpp\<close> and \<^verbatim>\<open>src/smartInodePtr.cpp\<close>: the pool of inodes with its reference counts, the
  pool of open files, and the counted pointers to inodes. A \<^verbatim>\<open>SmartInodePtr\<close> is a value of type
  \<open>nat option\<close>; what an operation does to the pointer it gets by reference is its new value in the
  answer, and a destructor is a statement of its own.
\<close>

subsection \<open>Object pools\<close>

text \<open>The index of a new object; \<open>None\<close> is a full pool.\<close>

definition getNewObject :: "nat \<Rightarrow> byte list \<Rightarrow> nat option" where
  "getNewObject N l =
     (case findFirstFree N l of None \<Rightarrow> None | Some i \<Rightarrow> if i \<ge> N then None else Some i)"

definition freeObject :: "nat \<Rightarrow> nat \<Rightarrow> byte list \<Rightarrow> Result \<times> byte list" where
  "freeObject N i l =
     (if N \<le> i then (R_invalidInput, l)
      else if \<not> getBit N i l then (R_bug, l)
      else (R_ok, resetBit N i l))"

definition pool_getUsage :: "nat \<Rightarrow> byte list \<Rightarrow> nat" where
  "pool_getUsage N l = fold (\<lambda>i n. if getBit N i l then (n + 1) mod 2 ^ 8 else n) [0 ..< N] 0"

subsection \<open>The inode pool\<close>

definition getNewInode :: "'f env \<Rightarrow> ('f dev, Result + nat) state" where
  "getNewInode E = do {
     l \<leftarrow> gets (\<lambda>s. activeInodes (fls s));
     (case getNewObject (maxNumberOfInodes E) l of
        None \<Rightarrow> ret (Inl R_noSpace)
      | Some i \<Rightarrow> do {
          set_fls (\<lambda>F. F\<lparr>activeInodes := setBit (maxNumberOfInodes E) i (activeInodes F)\<rparr>);
          ret (Inr (pool_ptr i))
        })
   }"

text \<open>A pointer that is not from the pool has no index in it.\<close>

definition freeInode :: "'f env \<Rightarrow> nat \<Rightarrow> ('f dev, Result) state" where
  "freeInode E p =
     (if p < pool_ptr 0 then ret R_invalidInput
      else do {
        l \<leftarrow> gets (\<lambda>s. activeInodes (fls s));
        let (r, l') = freeObject (maxNumberOfInodes E) (p - pool_ptr 0) l;
        whenM (r = R_ok) (do {
          set_fls (\<lambda>F. F\<lparr>activeInodes := l'\<rparr>);
          set_inode p (\<lambda>_. zero_inode)
        });
        ret r
      })"

definition set_refs :: "InodeNo \<Rightarrow> nat \<Rightarrow> (InodeNo \<times> nat \<times> nat) list \<Rightarrow> (InodeNo \<times> nat \<times> nat) list" where
  "set_refs no n m = map (\<lambda>(k, p, c). if k = no then (k, p, n) else (k, p, c)) m"

definition erase_inode :: "InodeNo \<Rightarrow> (InodeNo \<times> nat \<times> nat) list \<Rightarrow> (InodeNo \<times> nat \<times> nat) list" where
  "erase_inode no m = filter (\<lambda>(k, _). k \<noteq> no) m"

definition set_map :: "((InodeNo \<times> nat \<times> nat) list \<Rightarrow> (InodeNo \<times> nat \<times> nat) list) \<Rightarrow> ('f dev, unit) state" where
  "set_map f = set_fls (\<lambda>F. F\<lparr>inodeMap := f (inodeMap F)\<rparr>)"

definition removeInodeReference :: "'f env \<Rightarrow> InodeNo \<Rightarrow> ('f dev, Result) state" where
  "removeInodeReference E no = do {
     m \<leftarrow> gets (\<lambda>s. inodeMap (fls s));
     (case map_of m no of
        None \<Rightarrow> ret R_bug
      | Some (p, n) \<Rightarrow>
          if n = 0 then ret R_bug
          else do {
            set_map (set_refs no (n - 1));
            whenM (n = 1) (do { _ \<leftarrow> freeInode E p; set_map (erase_inode no) });
            ret R_ok
          })
   }"

definition removeInode :: "'f env \<Rightarrow> InodeNo \<Rightarrow> ('f dev, Result) state" where
  "removeInode E no = do {
     m \<leftarrow> gets (\<lambda>s. inodeMap (fls s));
     (case map_of m no of
        None \<Rightarrow> ret R_bug
      | Some (p, n) \<Rightarrow>
          if n = 0 then ret R_bug
          else do { _ \<leftarrow> freeInode E p; set_map (erase_inode no); ret R_ok })
   }"

subsection \<open>Counted pointers\<close>

text \<open>The destructor.\<close>

definition drop_ptr :: "'f env \<Rightarrow> nat option \<Rightarrow> ('f dev, unit) state" where
  "drop_ptr E t =
     (case t of
        None \<Rightarrow> ret ()
      | Some p \<Rightarrow> do {
          no \<leftarrow> gets (\<lambda>s. i_no (inodeMem s p));
          _ \<leftarrow> removeInodeReference E no;
          ret ()
        })"

definition setInode :: "'f env \<Rightarrow> nat option \<Rightarrow> nat \<Rightarrow> ('f dev, nat option) state" where
  "setInode E t p = do { drop_ptr E t; ret (Some p) }"

text \<open>The counts have 8 bits.\<close>

definition getExistingInode :: "'f env \<Rightarrow> InodeNo \<Rightarrow> nat option \<Rightarrow> ('f dev, Result \<times> nat option) state" where
  "getExistingInode E no t = do {
     m \<leftarrow> gets (\<lambda>s. inodeMap (fls s));
     (case map_of m no of
        None \<Rightarrow> ret (R_notFound, t)
      | Some (p, n) \<Rightarrow> do {
          set_map (set_refs no ((n + 1) mod 2 ^ 8));
          t' \<leftarrow> setInode E t p;
          ret (R_ok, t')
        })
   }"

definition requireNewInode :: "'f env \<Rightarrow> InodeNo \<Rightarrow> nat option \<Rightarrow> ('f dev, Result \<times> nat option) state" where
  "requireNewInode E no t = do {
     m \<leftarrow> gets (\<lambda>s. inodeMap (fls s));
     if map_of m no \<noteq> None then ret (R_bug, t)
     else do {
       y \<leftarrow> getNewInode E;
       (case y of
          Inl r \<Rightarrow> ret (r, t)
        | Inr p \<Rightarrow> do {
            set_inode p (\<lambda>_. zero_inode\<lparr>i_no := no\<rparr>);
            t' \<leftarrow> setInode E t p;
            set_map (\<lambda>m. if map_of m no = None then insort_key fst (no, p, 1) m else m);
            ret (R_ok, t')
          })
     }
   }"

text \<open>The assignment \<open>t = other\<close>.\<close>

definition assign_ptr :: "'f env \<Rightarrow> nat option \<Rightarrow> nat option \<Rightarrow> ('f dev, nat option) state" where
  "assign_ptr E other t =
     (case other of
        None \<Rightarrow> ret t
      | Some p \<Rightarrow> do {
          no \<leftarrow> gets (\<lambda>s. i_no (inodeMem s p));
          (_, t') \<leftarrow> getExistingInode E no t;
          ret t'
        })"

definition inodePool_clear :: "'f env \<Rightarrow> ('f dev, unit) state" where
  "inodePool_clear E = do {
     m \<leftarrow> gets (\<lambda>s. inodeMap (fls s));
     for_each (map fst m) (\<lambda>no. do { _ \<leftarrow> removeInode E no; ret () });
     for_each [0 ..< maxNumberOfInodes E] (\<lambda>i. do {
       a \<leftarrow> gets (\<lambda>s. getBit (maxNumberOfInodes E) i (activeInodes (fls s)));
       whenM a (do { _ \<leftarrow> freeInode E (pool_ptr i); ret () })
     });
     set_fls (\<lambda>F. F\<lparr>activeInodes := BitList_clear (maxNumberOfInodes E), inodeMap := []\<rparr>)
   }"

subsection \<open>Open files\<close>

definition zero_obj :: Obj where
  "zero_obj = \<lparr>rdnly = False, o_no = 0, o_node = None, o_name = [], o_fp = 0\<rparr>"

text \<open>The destructor of a file drops its inode.\<close>

definition freeFile :: "'f env \<Rightarrow> nat \<Rightarrow> ('f dev, Result) state" where
  "freeFile E i = do {
     F \<leftarrow> gets fls;
     let (r, l') = freeObject (maxNumberOfFiles E) i (activeFiles F);
     whenM (r = R_ok) (do {
       set_fls (\<lambda>F. F\<lparr>activeFiles := l'\<rparr>);
       drop_ptr E (o_node (fileObjects F ! i));
       set_fls (\<lambda>F. F\<lparr>fileObjects := (fileObjects F)[i := zero_obj]\<rparr>)
     });
     ret r
   }"

definition filesPool_clear :: "'f env \<Rightarrow> ('f dev, unit) state" where
  "filesPool_clear E = do {
     for_each [0 ..< maxNumberOfFiles E] (\<lambda>i. do {
       a \<leftarrow> gets (\<lambda>s. getBit (maxNumberOfFiles E) i (activeFiles (fls s)));
       whenM a (do { _ \<leftarrow> freeFile E i; ret () })
     });
     set_fls (\<lambda>F. F\<lparr>activeFiles := BitList_clear (maxNumberOfFiles E)\<rparr>)
   }"

definition getNumberOfOpenFiles :: "'f env \<Rightarrow> 'f dev \<Rightarrow> nat" where
  "getNumberOfOpenFiles E s = pool_getUsage (maxNumberOfFiles E) (activeFiles (fls s))"

definition getNumberOfOpenInodes :: "'f env \<Rightarrow> 'f dev \<Rightarrow> nat" where
  "getNumberOfOpenInodes E s = pool_getUsage (maxNumberOfInodes E) (activeInodes (fls s))"

definition getListOfOpenFiles :: "'f env \<Rightarrow> 'f dev \<Rightarrow> nat list" where
  "getListOfOpenFiles E s = filter (\<lambda>i. getBit (maxNumberOfFiles E) i (activeFiles (fls s))) [0 ..< maxNumberOfFiles E]"

end
