(* ===== verification/DirFormat.thy ===== *)
theory DirFormat
  imports JournalEntries
begin

text \<open>
  The contents of a directory as \<^verbatim>\<open>src/device.cpp\<close> reads and writes them: two bytes with the number
  of entries, then the entries one behind the other, each one byte of length, four bytes of inode
  number and the name without a terminator. The functions here are the loops of
  \<^verbatim>\<open>getInodeNoInDir\<close>, \<^verbatim>\<open>getNameOfInodeInDir\<close>, \<^verbatim>\<open>openDir\<close>, \<^verbatim>\<open>insertInodeInDir\<close> and
  \<^verbatim>\<open>removeInodeFromDir\<close> on the bytes that were read. A comparison with bytes behind the buffer fails.
\<close>

subsection \<open>Reading\<close>

definition name_in :: "byte list \<Rightarrow> nat \<Rightarrow> nat \<Rightarrow> byte list" where
  "name_in data p n = take n (drop p data)"

text \<open>The length of the name that is looked up has 8 bits.\<close>

function lookup_from :: "byte list \<Rightarrow> byte list \<Rightarrow> nat \<Rightarrow> Result + InodeNo" where
  "lookup_from data name p =
     (if p \<ge> length data then Inl R_notFound
      else let l = unat (data ! p)
      in if l < 6 then Inl R_bug
         else if l > length data then Inl R_bug
         else if l - 5 = length name mod 2 ^ 8 \<and> name_in data (p + 5) (l - 5) = take (l - 5) name
         then Inr (rd data (p + 1) 4)
         else lookup_from data name (p + l))"
  by pat_completeness auto
termination by (relation "measure (\<lambda>(data, name, p). length data - p)") auto

text \<open>The search for an inode number answers whether there is an entry; its name is only printed.\<close>

function has_inode_from :: "byte list \<Rightarrow> InodeNo \<Rightarrow> nat \<Rightarrow> Result" where
  "has_inode_from data no p =
     (if p \<ge> length data then R_notFound
      else let l = unat (data ! p)
      in if l < 6 then R_bug
         else if l > length data then R_bug
         else if rd data (p + 1) 4 = no then R_ok
         else has_inode_from data no (p + l))"
  by pat_completeness auto
termination by (relation "measure (\<lambda>(data, no, p). length data - p)") auto

text \<open>The length of a name has 16 bits and wraps around for an entry that is too short.\<close>

definition entry_name_length :: "nat \<Rightarrow> nat" where
  "entry_name_length l = (l + 2 ^ 16 - 5) mod 2 ^ 16"

function entries_from :: "byte list \<Rightarrow> nat \<Rightarrow> Result + (InodeNo \<times> byte list) list" where
  "entries_from data p =
     (if p \<ge> length data then Inr []
      else let n = entry_name_length (unat (data ! p))
      in if n > length data - p then Inl R_bug
         else case entries_from data (p + 5 + n) of
             Inl r \<Rightarrow> Inl r
           | Inr es \<Rightarrow> Inr ((rd data (p + 1) 4, name_in data (p + 5) n) # es))"
  by pat_completeness auto
termination by (relation "measure (\<lambda>(data, p). length data - p)") auto

declare lookup_from.simps [simp del] has_inode_from.simps [simp del] entries_from.simps [simp del]

definition entry_count :: "byte list \<Rightarrow> nat" where
  "entry_count data = (if data = [] then 0 else rd data 0 2)"

text \<open>The directory is refused unless it has as many entries as it says.\<close>

definition parse_dir :: "byte list \<Rightarrow> Result + (InodeNo \<times> byte list) list" where
  "parse_dir data =
     (case entries_from data 2 of
        Inl r \<Rightarrow> Inl r
      | Inr es \<Rightarrow> if length es mod 2 ^ 16 = entry_count data then Inr es else Inl R_bug)"

subsection \<open>Writing\<close>

definition maxDirEntryLength :: nat where
  "maxDirEntryLength = 255"

text \<open>
  The length of an entry has 8 bits, and the code copies the entry into a buffer of that length: for
  a name of 251 to 255 bytes, which the check of the length lets pass, it copies over the end of the
  buffer, which has no defined effect (\<open>entry_overruns\<close>).
\<close>

definition dir_entry_length :: "byte list \<Rightarrow> nat" where
  "dir_entry_length name = (5 + length name) mod 2 ^ 8"

definition entry_overruns :: "byte list \<Rightarrow> bool" where
  "entry_overruns name \<longleftrightarrow> dir_entry_length name < 5 + length name"

definition dir_entry_bytes :: "InodeNo \<Rightarrow> byte list \<Rightarrow> byte list" where
  "dir_entry_bytes no name = of_nat (dir_entry_length name) # le_bytes 4 no @ name"

lemma entry_overruns_iff: "entry_overruns name \<longleftrightarrow> 250 < length name"
proof
  show "250 < length name \<Longrightarrow> entry_overruns name"
    unfolding entry_overruns_def dir_entry_length_def by (rule less_le_trans [OF mod_less_divisor]) simp_all
  show "entry_overruns name \<Longrightarrow> 250 < length name"
    by (rule ccontr) (simp add: entry_overruns_def dir_entry_length_def)
qed

definition append_entry :: "InodeNo \<Rightarrow> byte list \<Rightarrow> byte list \<Rightarrow> byte list" where
  "append_entry no name data = le_bytes 2 ((rd data 0 2 + 1) mod 2 ^ 16) @ drop 2 data @ dir_entry_bytes no name"

text \<open>
  The offset of the entry of an inode. An entry of length 0 that is not the one keeps the loop at
  its place for ever; the answer is \<open>None\<close> then.
\<close>

function entry_offset :: "byte list \<Rightarrow> InodeNo \<Rightarrow> nat \<Rightarrow> (Result + nat) option" where
  "entry_offset data no p =
     (if p \<ge> length data then Some (Inl R_notFound)
      else if name_in data (p + 1) 4 = le_bytes 4 no then Some (Inr p)
      else if data ! p = 0 then None
      else entry_offset data no (p + unat (data ! p)))"
  by pat_completeness auto
termination
proof (relation "measure (\<lambda>(data, no, p). length data - p)")
  fix data :: "byte list" and no p :: nat
  assume "\<not> length data \<le> p" and "data ! p \<noteq> 0"
  then have "unat (data ! p) > 0" by (simp add: unat_gt_0)
  then show "((data, no, p + unat (data ! p)), data, no, p) \<in> measure (\<lambda>(data, no, p). length data - p)"
    using \<open>\<not> length data \<le> p\<close> by simp
qed simp

declare entry_offset.simps [simp del]

text \<open>The contents without the entry at an offset; the sizes have 32 bits.\<close>

definition cut_entry :: "nat \<Rightarrow> byte list \<Rightarrow> byte list" where
  "cut_entry p data =
     (let l = unat (data ! p); rest = length data - l - p
      in le_bytes 2 ((rd data 0 2 + 2 ^ 16 - 1) mod 2 ^ 16) @ drop 2 (take p data) @ take rest (drop (p + l) data))"

subsection \<open>A directory as a list of entries\<close>

definition dir_bytes :: "(InodeNo \<times> byte list) list \<Rightarrow> byte list" where
  "dir_bytes es = le_bytes 2 (length es) @ concat (map (\<lambda>(no, name). dir_entry_bytes no name) es)"

definition entry_ok :: "InodeNo \<times> byte list \<Rightarrow> bool" where
  "entry_ok e \<longleftrightarrow> fst e < 2 ^ 32 \<and> snd e \<noteq> [] \<and> length (snd e) \<le> 250"

definition dir_ok :: "(InodeNo \<times> byte list) list \<Rightarrow> bool" where
  "dir_ok es \<longleftrightarrow> length es < 2 ^ 16 \<and> list_all entry_ok es"

text \<open>The first entry of a name.\<close>

definition find_name :: "byte list \<Rightarrow> (InodeNo \<times> byte list) list \<Rightarrow> InodeNo option" where
  "find_name name es = map_option fst (find (\<lambda>e. snd e = name) es)"

lemma entry_bytes_form:
  "entry_ok (no, name) \<Longrightarrow> dir_entry_bytes no name = of_nat (5 + length name) # le_bytes 4 no @ name"
  by (simp add: entry_ok_def dir_entry_bytes_def dir_entry_length_def)

lemma unat_entry_length:
  "entry_ok (no, name) \<Longrightarrow> unat (of_nat (5 + length name) :: byte) = 5 + length name"
  unfolding entry_ok_def unat_of_nat by simp

definition entries_bytes :: "(InodeNo \<times> byte list) list \<Rightarrow> byte list" where
  "entries_bytes es = concat (map (\<lambda>(no, name). dir_entry_bytes no name) es)"

lemma dir_bytes_alt: "dir_bytes es = le_bytes 2 (length es) @ entries_bytes es"
  by (simp add: dir_bytes_def entries_bytes_def)

lemma entries_bytes_simps [simp]:
  "entries_bytes [] = []"
  "entries_bytes ((no, name) # es) = dir_entry_bytes no name @ entries_bytes es"
  "entries_bytes (xs @ es) = entries_bytes xs @ entries_bytes es"
  by (simp_all add: entries_bytes_def)

lemma length_dir_entry_bytes:
  "entry_ok (no, name) \<Longrightarrow> length (dir_entry_bytes no name) = 5 + length name"
  by (simp add: entry_bytes_form)

text \<open>What the loops see at the start of an entry.\<close>

lemma at_entry:
  assumes "entry_ok (no, name)" and data_def: "data = pre @ dir_entry_bytes no name @ rest"
  shows "length pre < length data" and "unat (data ! length pre) = 5 + length name"
    and "rd data (length pre + 1) 4 = no" and "name_in data (length pre + 5) (length name) = name"
    and "name_in data (length pre + 1) 4 = le_bytes 4 no"
    and "5 + length name \<le> length data - length pre"
proof -
  have d: "data = pre @ (of_nat (5 + length name) # le_bytes 4 no @ name @ rest)"
    using assms(1) by (simp add: data_def entry_bytes_form)
  show "length pre < length data" "5 + length name \<le> length data - length pre" by (simp_all add: d)
  show "unat (data ! length pre) = 5 + length name" using unat_entry_length [OF assms(1)] by (simp add: d)
  have "no < 2 ^ 32" using assms(1) by (simp add: entry_ok_def)
  then show "rd data (length pre + 1) 4 = no" by (simp add: d rd_def le_value_le_bytes)
  show "name_in data (length pre + 5) (length name) = name" "name_in data (length pre + 1) 4 = le_bytes 4 no"
    by (simp_all add: d name_in_def)
qed

text \<open>The loops over well-formed entries, with arbitrary bytes behind them.\<close>

lemma lookup_entries_then:
  assumes "list_all entry_ok es" and "length name < 2 ^ 8"
  shows "lookup_from (pre @ entries_bytes es @ rest) name (length pre) =
     (case find_name name es of
        None \<Rightarrow> lookup_from (pre @ entries_bytes es @ rest) name (length pre + length (entries_bytes es))
      | Some no \<Rightarrow> Inr no)"
  using assms(1)
proof (induction es arbitrary: pre)
  case (Cons e es)
  obtain no nm where e: "e = (no, nm)" by (cases e)
  then have ok: "entry_ok (no, nm)" "nm \<noteq> []" "length nm \<le> 250" using Cons.prems by (auto simp: entry_ok_def)
  define data where "data = pre @ dir_entry_bytes no nm @ entries_bytes es @ rest"
  note at = at_entry [OF ok(1) data_def]
  have next_at: "lookup_from data name (length pre + (5 + length nm)) = (case find_name name es of
      None \<Rightarrow> lookup_from data name (length pre + length (entries_bytes ((no, nm) # es))) | Some no \<Rightarrow> Inr no)"
    using Cons.IH [of "pre @ dir_entry_bytes no nm"] Cons.prems
    by (simp add: data_def length_dir_entry_bytes [OF ok(1)] add.assoc cong: option.case_cong)
  have same: "length nm = length name mod 2 ^ 8 \<and> nm = take (length nm) name \<longleftrightarrow> nm = name"
    using assms(2) by auto
  have "\<not> length data \<le> length pre" "0 < length nm" "\<not> length data < 5 + length nm" using at ok(2) by simp_all
  then have "lookup_from data name (length pre) =
      (if length nm = length name mod 2 ^ 8 \<and> nm = take (length nm) name then Inr no
       else lookup_from data name (length pre + (5 + length nm)))"
    unfolding lookup_from.simps [of data name "length pre"] Let_def at(2)
    using at(3,4) by (cases "length nm = length name mod 2 ^ 8") simp_all
  then show ?case using next_at unfolding same by (simp add: e data_def find_name_def cong: option.case_cong)
qed (simp add: find_name_def)

lemma lookup_entries:
  assumes "list_all entry_ok es" and "length name < 2 ^ 8"
  shows "lookup_from (pre @ entries_bytes es) name (length pre) =
     (case find_name name es of None \<Rightarrow> Inl R_notFound | Some no \<Rightarrow> Inr no)"
  using lookup_entries_then [OF assms, of pre "[]"]
    lookup_from.simps [of "pre @ entries_bytes es" name "length pre + length (entries_bytes es)"]
  by (simp split: option.splits)

lemma list_entries_then:
  assumes "list_all entry_ok es"
  shows "entries_from (pre @ entries_bytes es @ rest) (length pre) =
    map_sum (\<lambda>r. r) ((@) es) (entries_from (pre @ entries_bytes es @ rest) (length pre + length (entries_bytes es)))"
  using assms
proof (induction es arbitrary: pre)
  case Nil
  show ?case by (cases "entries_from (pre @ rest) (length pre)") simp_all
next
  case (Cons e es)
  obtain no nm where e: "e = (no, nm)" by (cases e)
  then have ok: "entry_ok (no, nm)" "length nm \<le> 250" using Cons.prems by (auto simp: entry_ok_def)
  define data where "data = pre @ dir_entry_bytes no nm @ entries_bytes es @ rest"
  note at = at_entry [OF ok(1) data_def]
  have next_at: "entries_from data (length pre + 5 + length nm) =
      map_sum (\<lambda>r. r) ((@) es) (entries_from data (length pre + length (entries_bytes ((no, nm) # es))))"
    using Cons.IH [of "pre @ dir_entry_bytes no nm"] Cons.prems
    by (simp add: data_def length_dir_entry_bytes [OF ok(1)] add.assoc)
  have "entry_name_length (5 + length nm) = length nm" using ok(2) by (simp add: entry_name_length_def)
  then have "entries_from data (length pre) =
      map_sum (\<lambda>r. r) ((@) ((no, nm) # es)) (entries_from data (length pre + length (entries_bytes ((no, nm) # es))))"
    using at next_at
    by (subst entries_from.simps, cases "entries_from data (length pre + length (entries_bytes ((no, nm) # es)))")
      (simp_all add: Let_def)
  moreover have "(@) ((no, nm) # es) = (\<lambda>fs. (no, nm) # es @ fs)" by (simp add: fun_eq_iff)
  ultimately show ?case by (simp add: e data_def)
qed

lemma list_entries:
  assumes "list_all entry_ok es"
  shows "entries_from (pre @ entries_bytes es) (length pre) = Inr es"
  using list_entries_then [OF assms, of pre "[]"]
    entries_from.simps [of "pre @ entries_bytes es" "length pre + length (entries_bytes es)"] by simp

text \<open>The search of an inode number stops at its first entry.\<close>

lemma offset_entries:
  assumes "list_all entry_ok es" and "\<forall>e\<in>set es. fst e \<noteq> no" and "entry_ok (no, name)"
  shows "entry_offset (pre @ entries_bytes (es @ (no, name) # fs)) no (length pre) = Some (Inr (length pre + length (entries_bytes es)))"
  using assms(1,2)
proof (induction es arbitrary: pre)
  case Nil
  show ?case using at_entry(1,5) [OF assms(3) refl, of pre "entries_bytes fs"]
    by (subst entry_offset.simps) simp
next
  case (Cons e es)
  obtain k nm where e: "e = (k, nm)" by (cases e)
  then have ok: "entry_ok (k, nm)" "k < 2 ^ 32" "k \<noteq> no" using Cons.prems by (auto simp: entry_ok_def)
  define data where "data = pre @ dir_entry_bytes k nm @ entries_bytes (es @ (no, name) # fs)"
  note at = at_entry [OF ok(1) data_def]
  have "le_bytes 4 k \<noteq> le_bytes 4 no"
    using ok(2,3) assms(3) le_value_le_bytes [of 4 k] le_value_le_bytes [of 4 no] by (auto simp: entry_ok_def)
  moreover have "data ! length pre \<noteq> 0" using at(2) by (metis add_eq_0_iff_both_eq_0 unat_eq_zero zero_neq_numeral)
  moreover have "entry_offset data no (length pre + (5 + length nm)) =
      Some (Inr (length pre + (5 + length nm) + length (entries_bytes es)))"
    using Cons.IH [of "pre @ dir_entry_bytes k nm"] Cons.prems
    by (simp add: data_def length_dir_entry_bytes [OF ok(1)])
  ultimately have "entry_offset data no (length pre) = Some (Inr (length pre + (5 + length nm) + length (entries_bytes es)))"
    using at by (subst entry_offset.simps) simp
  then show ?case by (simp add: e data_def length_dir_entry_bytes [OF ok(1)])
qed

lemma rd_dir_bytes: "length es < 2 ^ 16 \<Longrightarrow> rd (dir_bytes es) 0 2 = length es"
  by (simp add: dir_bytes_alt rd_here)

lemma dir_bytes_pre: "dir_bytes es = le_bytes 2 (length es) @ entries_bytes es" "length (le_bytes 2 n) = 2"
  by (simp_all add: dir_bytes_alt)

lemma append_entry_dir:
  "length es < 2 ^ 16 - 1 \<Longrightarrow> append_entry no name (dir_bytes es) = dir_bytes (es @ [(no, name)])"
  by (simp add: append_entry_def rd_dir_bytes) (simp add: dir_bytes_alt)

lemma cut_entry_dir:
  assumes "entry_ok (no, name)" and "length (xs @ (no, name) # ys) < 2 ^ 16"
  shows "cut_entry (2 + length (entries_bytes xs)) (dir_bytes (xs @ (no, name) # ys)) = dir_bytes (xs @ ys)"
proof -
  let ?pre = "le_bytes 2 (length (xs @ (no, name) # ys)) @ entries_bytes xs"
  have d: "dir_bytes (xs @ (no, name) # ys) = ?pre @ dir_entry_bytes no name @ entries_bytes ys"
    by (simp add: dir_bytes_alt)
  have l: "unat (dir_bytes (xs @ (no, name) # ys) ! (2 + length (entries_bytes xs))) = 5 + length name"
    using at_entry(2) [OF assms(1) d] by simp
  show ?thesis
    using assms(2) unfolding cut_entry_def l rd_dir_bytes [OF assms(2)]
    by (simp add: d length_dir_entry_bytes [OF assms(1)]) (simp add: dir_bytes_alt)
qed

end
