(* ===== verification/SummaryMount.thy ===== *)
theory SummaryMount
  imports SuperChain SummaryUrgent
begin

text \<open>
  The summary cache at mount and unmount (\<^verbatim>\<open>loadAreaSummaries\<close>, \<^verbatim>\<open>commitAreaSummaries\<close> of
  \<^verbatim>\<open>src/summaryCache.cpp\<close>): at most two summaries travel with the superindex, all others are
  written to their areas before. The summaries of the index are pointers into the cache, so
  what is read from the flash lands in the cache.
\<close>

definition empty_index :: "byte list list \<Rightarrow> SuperIndex" where
  "empty_index ss = \<lparr>si_no = 0, si_logPrev = 0, si_rootNode = 0, si_usedAreas = 0, si_areaMap = [],
     si_activeArea = [], si_overallDeletions = 0, si_areaSummaryPositions = [0, 0], si_summaries = ss\<rparr>"

definition set_entries :: "byte list \<Rightarrow> AreaSummaryElem \<Rightarrow> AreaSummaryElem" where
  "set_entries l e = e\<lparr>mEntries := l\<rparr>"

text \<open>The summaries of an index go to the slots its pointers name.\<close>

definition store_summaries :: "nat list \<Rightarrow> SuperIndex \<Rightarrow> summary_cache \<Rightarrow> summary_cache" where
  "store_summaries slots x C =
     fold (\<lambda>c. upd_slot (slots ! c) (set_entries (si_summaries x ! c))) [0 ..< length slots] C"

definition load_summary :: "'f env \<Rightarrow> SuperIndex \<Rightarrow> nat \<Rightarrow> unit \<Rightarrow> ('f dev, Result + unit) state" where
  "load_summary E x i u = do {
     let area = si_areaSummaryPositions x ! i;
     if area = 0 then ret (Inr ())
     else do {
       set_sc (enableSummaryElem i area);
       set_sc (\<lambda>C. upd_slot i (setDirtyPages (countDirtyPages E C i)) C);
       set_sc (upd_slot i (setLoadedFromSuperPage True));
       p \<leftarrow> gets (\<lambda>s. summary_page E (sb s) area);
       (r, bs) \<leftarrow> readPage E p (dataBytesPerPage E);
       if r \<noteq> R_ok \<and> r \<noteq> R_biterrorCorrected then ret (Inl r)
       else do {
         whenM (contains_data bs) (set_sc (upd_slot i (setAreaSummaryWritten True)));
         B \<leftarrow> gets sb;
         whenM (getStatus E B area = S_active) (setActiveArea E (getType E B area) area);
         ret (Inr ())
       }
     }
   }"

definition loadAreaSummaries :: "'f env \<Rightarrow> ('f dev, Result) state" where
  "loadAreaSummaries E = do {
     set_sc (summary_clear E);
     ss \<leftarrow> gets (\<lambda>s. map mEntries (take 2 (mSummaryCache (sc s))));
     (r, x) \<leftarrow> readSuperIndex E (empty_index ss);
     set_sc (store_summaries [0, 1] x);
     if r \<noteq> R_ok then ret r
     else do {
       setUsedAreas E (si_usedAreas x);
       y \<leftarrow> loopM [0 ..< 2] () (load_summary E x);
       ret (case y of Inl r \<Rightarrow> r | Inr _ \<Rightarrow> R_ok)
     }
   }"

text \<open>
  \<^verbatim>\<open>while (mTranslation.size() > 2)\<close>: a collection may make room without dropping an entry, so the
  number of rounds has no bound of its own; \<open>None\<close> is a loop that is still running.
\<close>

fun commit_excess :: "nat \<Rightarrow> 'f env \<Rightarrow> ('f dev, unit option) state" where
  "commit_excess 0 E = ret None"
| "commit_excess (Suc n) E = do {
     k \<leftarrow> gets (\<lambda>s. length (mTranslation (sc s)));
     if k \<le> 2 then ret (Some ())
     else do {
       r \<leftarrow> freeNextBest_urgent E;
       if r \<noteq> R_ok then ret (Some ()) else commit_excess n E
     }
   }"

text \<open>The summaries for the index: their areas and slots, and whether one of them is new.\<close>

definition collect_summary ::
  "summary_cache \<Rightarrow> AreaPos \<times> nat \<Rightarrow> (AreaPos \<times> nat) list \<times> bool \<Rightarrow> (AreaPos \<times> nat) list \<times> bool" where
  "collect_summary C cacheElem acc =
     (let e = mSummaryCache C ! snd cacheElem
      in if length (fst acc) \<ge> 2 then acc
         else if \<not> isDirty e \<and> isAreaSummaryWritten e then acc
         else (fst acc @ [cacheElem], snd acc \<or> (isDirty e \<and> \<not> isLoadedFromSuperPage e)))"

definition collect_summaries :: "summary_cache \<Rightarrow> (AreaPos \<times> nat) list \<times> bool" where
  "collect_summaries C = fold (collect_summary C) (mTranslation C) ([], False)"

definition index_of_summaries :: "summary_cache \<Rightarrow> (AreaPos \<times> nat) list \<Rightarrow> SuperIndex" where
  "index_of_summaries C els =
     (empty_index (map (\<lambda>(a, p). mEntries (mSummaryCache C ! p)) els @ replicate (2 - length els) []))
       \<lparr>si_areaSummaryPositions := map fst els @ replicate (2 - length els) 0\<rparr>"

definition settle_summaries :: "summary_cache \<Rightarrow> summary_cache" where
  "settle_summaries C =
     fold (\<lambda>(a, p). upd_slot p (\<lambda>e. setLoadedFromSuperPage True (setDirty False e))) (mTranslation C) C"

definition commitAreaSummaries :: "nat \<Rightarrow> 'f env \<Rightarrow> bool \<Rightarrow> ('f dev, Result option) state" where
  "commitAreaSummaries n E createNew = do {
     y \<leftarrow> commit_excess n E;
     (case y of
        None \<Rightarrow> ret None
      | Some _ \<Rightarrow> do {
          C \<leftarrow> gets sc;
          let (els, someDirty) = collect_summaries C;
          (r, x) \<leftarrow> commitSuperIndex E (index_of_summaries C els) someDirty createNew;
          if r \<noteq> R_ok then ret (Some r)
          else do {
            add_event E (Checkpoint Tp_summaryCache);
            (r, x') \<leftarrow> readSuperIndex E x;
            set_sc (store_summaries (map snd els) x');
            if r \<noteq> R_ok then ret (Some r)
            else do {
              set_sc settle_summaries;
              ret (Some R_ok)
            }
          }
        })
   }"

end
