(* ===== verification/DeviceDirs.thy ===== *)
theory DeviceDirs
  imports DataIO Pools DirFormat SummaryMount
begin

text \<open>
  The first part of \<^verbatim>\<open>src/device.cpp\<close>: flushing the caches, finding inodes by number and by path, and
  the entries of directories. A path is the list of its bytes without the terminator, shorter than
  \<open>2 ^ 16\<close>. Operations that flush the caches take the number of rounds that the loop of
  \<open>commitAreaSummaries\<close> may make; their answer \<open>None\<close> is a loop that is still running.
\<close>

subsection \<open>Flushing\<close>

text \<open>The results of the page address cache are ignored.\<close>

definition flush_inode :: "'f env \<Rightarrow> nat \<Rightarrow> ('f dev, unit) state" where
  "flush_inode E p = do { _ \<leftarrow> setTargetInode E p; _ \<leftarrow> pac_commit E; ret () }"

definition flushAllCaches :: "nat \<Rightarrow> 'f env \<Rightarrow> ('f dev, Result option) state" where
  "flushAllCaches n E = do {
     m \<leftarrow> gets (mounted \<circ> fls);
     if \<not> m then ret (Some R_notMounted)
     else do {
       ps \<leftarrow> gets (\<lambda>s. map (fst \<circ> snd) (inodeMap (fls s)));
       for_each ps (flush_inode E);
       r \<leftarrow> tree_commitCache E;
       if r \<noteq> R_ok then ret (Some r)
       else do {
         r \<leftarrow> commitAreaSummaries n E False;
         if r \<noteq> Some R_ok then ret r
         else do { _ \<leftarrow> journal_clear E; ret (Some R_ok) }
       }
     }
   }"

text \<open>The end of most operations: a journal that is nearly full flushes the caches.\<close>

definition checkpoint_device :: "nat \<Rightarrow> 'f env \<Rightarrow> ('f dev, Result option) state" where
  "checkpoint_device n E = do {
     r \<leftarrow> addEvent E (Checkpoint Tp_device);
     if r = R_lowMem then flushAllCaches n E else ret (Some R_ok)
   }"

subsection \<open>Inodes by number\<close>

text \<open>The object behind a counted pointer; the code never follows a null pointer.\<close>

definition deref :: "nat option \<Rightarrow> 'f dev \<Rightarrow> Inode" where
  "deref t s = inodeMem s (case t of None \<Rightarrow> 0 | Some p \<Rightarrow> p)"

definition ptr_of :: "nat option \<Rightarrow> nat" where
  "ptr_of t = (case t of None \<Rightarrow> 0 | Some p \<Rightarrow> p)"

definition findOrLoadInode :: "'f env \<Rightarrow> InodeNo \<Rightarrow> nat option \<Rightarrow> ('f dev, Result \<times> nat option) state" where
  "findOrLoadInode E no t = do {
     (r, t) \<leftarrow> getExistingInode E no t;
     if r = R_ok then ret (R_ok, t)
     else do {
       (r, t) \<leftarrow> requireNewInode E no t;
       if r \<noteq> R_ok then ret (r, t)
       else do {
         y \<leftarrow> getInode E no;
         (case y of
            Inl r \<Rightarrow> ret (r, t)
          | Inr x \<Rightarrow> do { set_inode (ptr_of t) (\<lambda>_. x); ret (R_ok, t) })
       }
     }
   }"

subsection \<open>Directories\<close>

text \<open>The contents of a directory; a short read is \<open>R_ok\<close> with too few bytes.\<close>

definition read_dir :: "'f env \<Rightarrow> nat \<Rightarrow> ('f dev, Result + byte list) state" where
  "read_dir E p = do {
     sz \<leftarrow> gets (\<lambda>s. i_size (inodeMem s p));
     (r, bs) \<leftarrow> readInodeData E p 0 sz;
     ret (if r \<noteq> R_ok \<or> length bs \<noteq> sz then Inl r else Inr bs)
   }"

definition search_dir :: "'f env \<Rightarrow> nat \<Rightarrow> (byte list \<Rightarrow> Result + 'a) \<Rightarrow> ('f dev, Result + 'a) state" where
  "search_dir E p search = do {
     x \<leftarrow> gets (\<lambda>s. inodeMem s p);
     if i_type x \<noteq> I_dir then ret (Inl R_bug)
     else if i_size x \<le> 2 then ret (Inl R_notFound)
     else do {
       y \<leftarrow> read_dir E p;
       ret (case y of Inl r \<Rightarrow> Inl (if r = R_ok then R_bug else r) | Inr bs \<Rightarrow> search bs)
     }
   }"

definition getInodeNoInDir :: "'f env \<Rightarrow> nat \<Rightarrow> byte list \<Rightarrow> ('f dev, Result + InodeNo) state" where
  "getInodeNoInDir E p name = search_dir E p (\<lambda>bs. lookup_from bs name 2)"

definition getNameOfInodeInDir :: "'f env \<Rightarrow> InodeNo \<Rightarrow> nat \<Rightarrow> ('f dev, Result) state" where
  "getNameOfInodeInDir E no p = do {
     y \<leftarrow> search_dir E p (\<lambda>bs. if has_inode_from bs no 2 = R_ok then Inr () else Inl (has_inode_from bs no 2));
     ret (case y of Inl r \<Rightarrow> r | Inr _ \<Rightarrow> R_ok)
   }"

text \<open>
  An entry of fewer than 5 bytes has a name length near \<open>2 ^ 16\<close>, whose bytes the code walks with an
  8 bit counter: it never ends, or finds a byte that is not printable. The model answers \<open>R_bug\<close>.
\<close>

definition printable :: "byte \<Rightarrow> bool" where
  "printable c \<longleftrightarrow> 32 \<le> unat c \<and> unat c \<le> 126"

fun sane_entries :: "nat \<Rightarrow> 'f env \<Rightarrow> byte list \<Rightarrow> nat \<Rightarrow> nat \<Rightarrow> ('f dev, Result) state" where
  "sane_entries 0 E data p k = ret R_bug"
| "sane_entries (Suc m) E data p k =
     (if p \<ge> length data then ret (if k mod 2 ^ 16 = rd data 0 2 then R_ok else R_bug)
      else do {
        let l = unat (data ! p);
        if l > length data - p \<or> l < 5 then ret R_bug
        else do {
          y \<leftarrow> getInode E (rd data (p + 1) 4);
          (case y of
             Inl _ \<Rightarrow> ret R_bug
           | Inr _ \<Rightarrow>
               if list_all printable (name_in data (p + 5) (l - 5)) then sane_entries m E data (p + l) (k + 1)
               else ret R_bug)
        }
      })"

text \<open>Every entry has at least 5 bytes, so one step per byte is enough.\<close>

definition checkFolderSanity :: "'f env \<Rightarrow> InodeNo \<Rightarrow> ('f dev, Result) state" where
  "checkFolderSanity E no = do {
     (r, t) \<leftarrow> findOrLoadInode E no None;
     r \<leftarrow> (if r \<noteq> R_ok then ret r
           else do {
             x \<leftarrow> gets (deref t);
             if i_reservedPages x = 0 then ret R_ok
             else do {
               y \<leftarrow> read_dir E (ptr_of t);
               (case y of Inl r \<Rightarrow> ret r | Inr bs \<Rightarrow> sane_entries (length bs + 1) E bs 2 0)
             }
           });
     drop_ptr E t;
     ret r
   }"

subsection \<open>Inodes by path\<close>

definition slash :: byte where
  "slash = 0x2F"

text \<open>The components that \<^verbatim>\<open>strtok\<close> answers.\<close>

fun split_path :: "byte list \<Rightarrow> byte list \<Rightarrow> byte list list" where
  "split_path cur [] = [cur]"
| "split_path cur (c # cs) = (if c = slash then cur # split_path [] cs else split_path (cur @ [c]) cs)"

definition tokens :: "byte list \<Rightarrow> byte list list" where
  "tokens path = filter (\<lambda>t. t \<noteq> []) (split_path [] path)"

fun walk_path :: "'f env \<Rightarrow> byte list list \<Rightarrow> nat option \<Rightarrow> ('f dev, Result \<times> nat option) state" where
  "walk_path E [] t = ret (R_ok, t)"
| "walk_path E (name # names) t = do {
     x \<leftarrow> gets (deref t);
     if i_type x \<noteq> I_dir then ret (R_invalidInput, t)
     else do {
       y \<leftarrow> getInodeNoInDir E (ptr_of t) name;
       (case y of
          Inl r \<Rightarrow> ret (r, t)
        | Inr no \<Rightarrow> do {
            (r, t) \<leftarrow> findOrLoadInode E no t;
            if r \<noteq> R_ok then ret (r, t) else walk_path E names t
          })
     }
   }"

definition getInodeOfElem :: "'f env \<Rightarrow> byte list \<Rightarrow> nat option \<Rightarrow> ('f dev, Result \<times> nat option) state" where
  "getInodeOfElem E path t = do {
     (r, curr) \<leftarrow> findOrLoadInode E 0 None;
     if r \<noteq> R_ok then do { drop_ptr E curr; ret (R_fail, t) }
     else do {
       (r, curr) \<leftarrow> walk_path E (tokens path) curr;
       t \<leftarrow> (if r = R_ok then assign_ptr E curr t else ret t);
       drop_ptr E curr;
       ret (r, t)
     }
   }"

text \<open>The place behind the last slash that is not at the end of the path.\<close>

definition last_slash :: "byte list \<Rightarrow> nat" where
  "last_slash path = fold (\<lambda>p ls. if path ! p = slash \<and> p + 1 < length path then p + 1 else ls) [0 ..< length path] 0"

definition getParentDir :: "'f env \<Rightarrow> byte list \<Rightarrow> nat option \<Rightarrow> ('f dev, Result \<times> nat option) state" where
  "getParentDir E path t =
     (if path = [] then do { set_lasterr R_invalidInput; ret (R_invalidInput, t) }
      else getInodeOfElem E (take (last_slash path) path) t)"

subsection \<open>Changing directories\<close>

definition entry_name :: "byte list \<Rightarrow> byte list" where
  "entry_name name = (if name \<noteq> [] \<and> last name = slash then butlast name else name)"

text \<open>
  The bytes that are written: the old contents, which start with the count, and the entry. \<open>None\<close>: the
  entry is copied over the end of its buffer, with no defined effect.
\<close>

definition insertInodeInDir :: "nat \<Rightarrow> 'f env \<Rightarrow> byte list \<Rightarrow> nat \<Rightarrow> InodeNo \<Rightarrow> ('f dev, Result option) state" where
  "insertInodeInDir n E name d no = do {
     x \<leftarrow> gets (\<lambda>s. inodeMem s d);
     add_event E (InsertIntoDir (i_no x));
     if length (entry_name name) > maxDirEntryLength then ret (Some R_objNameTooLong)
     else if entry_overruns (entry_name name) then ret None
     else do {
       whenM (i_size x = 0) (set_inode d (\<lambda>x. x\<lparr>i_size := 2\<rparr>));
       sz \<leftarrow> gets (\<lambda>s. i_size (inodeMem s d));
       y \<leftarrow> (if i_reservedPages x > 0 then read_dir E d else ret (Inr (replicate sz 0)));
       (case y of
          Inl r \<Rightarrow> do { set_lasterr r; ret (Some r) }
        | Inr bs \<Rightarrow> do {
            (r, _) \<leftarrow> writeInodeData E d 0 (append_entry no (entry_name name) bs);
            if r \<noteq> R_ok then ret (Some r)
            else do {
              x \<leftarrow> gets (\<lambda>s. inodeMem s d);
              _ \<leftarrow> updateExistingInode E x;
              add_event E (Checkpoint Tp_dataIO);
              journalStatus \<leftarrow> addEvent E (Checkpoint Tp_device);
              r \<leftarrow> pac_commit E;
              if r \<noteq> R_ok then ret (Some r)
              else do {
                r \<leftarrow> (if verifyDev E then checkFolderSanity E (i_no x) else ret R_ok);
                if journalStatus = R_lowMem then flushAllCaches n E else ret (Some r)
              }
            }
          })
     }
   }"

text \<open>The last entry is removed with the contents; else the directory is written and cut off.\<close>

definition remove_last_entry :: "'f env \<Rightarrow> nat \<Rightarrow> ('f dev, Result option) state" where
  "remove_last_entry E d = do {
     r \<leftarrow> deleteInodeData E d 0 False;
     if r \<noteq> R_ok then ret (Some r) else do { r \<leftarrow> pac_commit E; ret (Some r) }
   }"

definition rewrite_dir :: "nat \<Rightarrow> 'f env \<Rightarrow> nat \<Rightarrow> byte list \<Rightarrow> ('f dev, Result option) state" where
  "rewrite_dir n E d bs = do {
     no \<leftarrow> gets (\<lambda>s. i_no (inodeMem s d));
     add_event E (NewInodeSize no (length bs));
     (r, _) \<leftarrow> writeInodeData E d 0 bs;
     if r \<noteq> R_ok then ret (Some r)
     else do {
       r \<leftarrow> deleteInodeData E d (length bs) False;
       if r \<noteq> R_ok then ret (Some r)
       else do {
         r \<leftarrow> pac_commit E;
         if r \<noteq> R_ok then ret (Some r)
         else do {
           r \<leftarrow> (if verifyDev E then checkFolderSanity E no else ret R_ok);
           if r \<noteq> R_ok then ret (Some r) else checkpoint_device n E
         }
       }
     }
   }"

definition removeInodeFromDir :: "nat \<Rightarrow> 'f env \<Rightarrow> nat \<Rightarrow> InodeNo \<Rightarrow> ('f dev, Result option) state" where
  "removeInodeFromDir n E d no = do {
     x \<leftarrow> gets (\<lambda>s. inodeMem s d);
     if i_reservedPages x = 0 then ret (Some R_notFound)
     else do {
       y \<leftarrow> read_dir E d;
       (case y of
          Inl r \<Rightarrow> do { set_lasterr r; ret (Some r) }
        | Inr bs \<Rightarrow>
            (case entry_offset bs no 2 of
               None \<Rightarrow> ret None
             | Some (Inl r) \<Rightarrow> ret (Some r)
             | Some (Inr p) \<Rightarrow>
                 if length bs - unat (bs ! p) = 2 then remove_last_entry E d
                 else rewrite_dir n E d (cut_entry p bs)))
     }
   }"

end
