(* ===== verification/DeviceApi.thy ===== *)
theory DeviceApi
  imports DeviceDirs
begin

unbundle bit_operations_syntax

text \<open>
  The operations of \<^verbatim>\<open>class Device\<close> (\<^verbatim>\<open>src/device.cpp\<close>) on directories and files. The destructors of
  the local pointers run where their scope ends, those declared last first. An open file is its
  index in the pool of files. The answer \<open>None\<close> of an operation is a loop that is still running.
\<close>

definition perm_R :: nat where "perm_R = 1"
definition perm_W :: nat where "perm_W = 2"
definition permMask :: nat where "permMask = 7"

definition open_FW :: nat where "open_FW = 2"
definition open_FA :: nat where "open_FA = 8"
definition open_FC :: nat where "open_FC = 32"

definition readable :: "Inode \<Rightarrow> bool" where
  "readable x \<longleftrightarrow> i_perm x AND perm_R \<noteq> 0"

definition writable :: "Inode \<Rightarrow> bool" where
  "writable x \<longleftrightarrow> i_perm x AND perm_W \<noteq> 0"

text \<open>The guards of the operations that write; \<open>None\<close> lets the operation start.\<close>

definition write_guard :: "'f env \<Rightarrow> 'f dev \<Rightarrow> Result option" where
  "write_guard E s =
     (if \<not> mounted (fls s) then Some R_notMounted
      else if readOnly s then Some R_readOnly
      else if getUsedAreas (sb s) + minFreeAreas > areasNo E then Some R_noSpace
      else None)"

subsection \<open>New inodes\<close>

definition createInode :: "'f env \<Rightarrow> nat \<Rightarrow> nat option \<Rightarrow> ('f dev, Result \<times> nat option) state" where
  "createInode E perm t = do {
     y \<leftarrow> findFirstFreeNo E;
     (case y of
        Inl r \<Rightarrow> ret (r, t)
      | Inr no \<Rightarrow> do {
          (r, t) \<leftarrow> requireNewInode E no t;
          if r \<noteq> R_ok then ret (r, t)
          else do {
            now \<leftarrow> gets (\<lambda>s. sys_now E (flash s));
            set_inode (ptr_of t) (\<lambda>x. x\<lparr>i_perm := (if perm AND perm_W \<noteq> 0 then (perm AND permMask) OR perm_R
              else perm AND permMask), i_size := 0, i_reservedPages := 0, i_crea := now, i_mod := now\<rparr>);
            ret (R_ok, t)
          }
        })
   }"

definition createTypedInode :: "'f env \<Rightarrow> InodeType \<Rightarrow> nat \<Rightarrow> nat option \<Rightarrow> ('f dev, Result \<times> nat option) state" where
  "createTypedInode E kind perm t = do {
     (r, t) \<leftarrow> createInode E perm t;
     if r \<noteq> R_ok then ret (R_bug, t)
     else do { set_inode (ptr_of t) (\<lambda>x. x\<lparr>i_type := kind\<rparr>); ret (R_ok, t) }
   }"

definition createDirInode :: "'f env \<Rightarrow> nat \<Rightarrow> nat option \<Rightarrow> ('f dev, Result \<times> nat option) state" where
  "createDirInode E = createTypedInode E I_dir"

definition createFilInode :: "'f env \<Rightarrow> nat \<Rightarrow> nat option \<Rightarrow> ('f dev, Result \<times> nat option) state" where
  "createFilInode E = createTypedInode E I_file"

text \<open>Both kinds of objects are entered into the tree and the directory in the same way.\<close>

definition enter_inode :: "nat \<Rightarrow> 'f env \<Rightarrow> byte list \<Rightarrow> nat option \<Rightarrow> nat option \<Rightarrow> ('f dev, Result option) state" where
  "enter_inode n E name d t = do {
     x \<leftarrow> gets (deref t);
     add_event E (MkObjInode (i_no x));
     x \<leftarrow> gets (deref t);
     r \<leftarrow> insertInode E x;
     if r \<noteq> R_ok then ret (Some r) else insertInodeInDir n E name (ptr_of d) (i_no x)
   }"

definition mkDir :: "nat \<Rightarrow> 'f env \<Rightarrow> byte list \<Rightarrow> nat \<Rightarrow> ('f dev, Result option) state" where
  "mkDir n E path perm = do {
     g \<leftarrow> gets (write_guard E);
     (case g of
        Some r \<Rightarrow> ret (Some r)
      | None \<Rightarrow> do {
          (r, d) \<leftarrow> getParentDir E path None;
          r \<leftarrow> (if r \<noteq> R_ok then ret (Some r)
                else if length (drop (last_slash path) path) > maxDirEntryLength then ret (Some R_objNameTooLong)
                else do {
                  (r, t) \<leftarrow> createDirInode E perm None;
                  r \<leftarrow> (if r \<noteq> R_ok then ret (Some r)
                        else do {
                          r \<leftarrow> enter_inode n E (drop (last_slash path) path) d t;
                          if r \<noteq> Some R_ok then ret r else checkpoint_device n E
                        });
                  drop_ptr E t;
                  ret r
                });
          drop_ptr E d;
          ret r
        })
   }"

definition createFile :: "nat \<Rightarrow> 'f env \<Rightarrow> byte list \<Rightarrow> nat \<Rightarrow> nat option \<Rightarrow> ('f dev, Result option \<times> nat option) state" where
  "createFile n E path perm t = do {
     g \<leftarrow> gets (write_guard E);
     (case g of
        Some r \<Rightarrow> ret (Some r, t)
      | None \<Rightarrow> do {
          (r, d) \<leftarrow> getParentDir E path None;
          (r, t) \<leftarrow> (if r \<noteq> R_ok then ret (Some r, t)
                else if length (drop (last_slash path) path) > maxDirEntryLength then ret (Some R_objNameTooLong, t)
                else do {
                  (r, t) \<leftarrow> createFilInode E perm t;
                  if r \<noteq> R_ok then ret (Some r, t)
                  else do {
                    r \<leftarrow> enter_inode n E (drop (last_slash path) path) d t;
                    ret (r, t)
                  }
                });
          drop_ptr E d;
          ret (r, t)
        })
   }"

subsection \<open>Listing directories\<close>

record Dir =
  d_node :: "nat option"
  d_childs :: "(InodeNo \<times> byte list \<times> nat option) list"
  d_pos :: nat

definition fail_with :: "Result \<Rightarrow> 'a \<Rightarrow> ('f dev, 'a) state" where
  "fail_with r x = do { set_lasterr r; ret x }"

text \<open>
  A directory object holds a reference to its inode. When the directory has another number of
  entries than it says, the object is not deleted.
\<close>

definition openDir :: "'f env \<Rightarrow> byte list \<Rightarrow> ('f dev, Dir option) state" where
  "openDir E path = do {
     m \<leftarrow> gets (mounted \<circ> fls);
     if \<not> m then fail_with R_notMounted None
     else if path = [] then fail_with R_invalidInput None
     else do {
       (r, t) \<leftarrow> getInodeOfElem E path None;
       dir \<leftarrow> (if r \<noteq> R_ok then fail_with r None
               else do {
                 x \<leftarrow> gets (deref t);
                 y \<leftarrow> (if i_reservedPages x > 0 then read_dir E (ptr_of t) else ret (Inr (replicate (i_size x) 0)));
                 (case y of
                    Inl r \<Rightarrow> fail_with r None
                  | Inr bs \<Rightarrow> do {
                      self \<leftarrow> assign_ptr E t None;
                      (case entries_from bs 2 of
                         Inl r \<Rightarrow> do { drop_ptr E self; fail_with r None }
                       | Inr es \<Rightarrow>
                           if length es mod 2 ^ 16 \<noteq> entry_count bs then fail_with R_bug None
                           else ret (Some \<lparr>d_node = self, d_childs = map (\<lambda>(no, name). (no, name, None)) es, d_pos = 0\<rparr>))
                    })
               });
       drop_ptr E t;
       ret dir
     }
   }"

definition closeDir :: "'f env \<Rightarrow> Dir \<Rightarrow> ('f dev, Result) state" where
  "closeDir E d = do {
     m \<leftarrow> gets (mounted \<circ> fls);
     if \<not> m then ret R_notMounted
     else do {
       for_each (rev (d_childs d)) (\<lambda>(_, _, t). drop_ptr E t);
       drop_ptr E (d_node d);
       ret R_ok
     }
   }"

text \<open>The answer is the index of the entry, if any, and the changed object.\<close>

definition readDir :: "'f env \<Rightarrow> Dir \<Rightarrow> ('f dev, nat option \<times> Dir) state" where
  "readDir E d = do {
     m \<leftarrow> gets (mounted \<circ> fls);
     if \<not> m then fail_with R_notMounted (None, d)
     else if d_childs d = [] \<or> d_pos d = length (d_childs d) then ret (None, d)
     else if d_pos d > length (d_childs d) then fail_with R_bug (None, d)
     else do {
       let i = d_pos d;
       let (no, name, t) = d_childs d ! i;
       if t \<noteq> None then ret (Some i, d\<lparr>d_pos := i + 1\<rparr>)
       else do {
         (r, t) \<leftarrow> findOrLoadInode E no t;
         x \<leftarrow> gets (deref t);
         let d = d\<lparr>d_childs := (d_childs d)[i := (no, name, t)]\<rparr>;
         if r \<noteq> R_ok then fail_with r (None, d)
         else if \<not> readable x then fail_with R_noPerm (None, d\<lparr>d_pos := i + 1\<rparr>)
         else do {
           let name = (if i_type x = I_dir then name @ [slash] else name);
           ret (Some i, d\<lparr>d_childs := (d_childs d)[i := (no, name, t)], d_pos := i + 1\<rparr>)
         }
       }
     }
   }"

definition rewindDir :: "Dir \<Rightarrow> Dir" where
  "rewindDir d = d\<lparr>d_pos := 0\<rparr>"

subsection \<open>Opening and closing files\<close>

definition file_at :: "nat \<Rightarrow> 'f dev \<Rightarrow> Obj" where
  "file_at i s = fileObjects (fls s) ! i"

definition set_file :: "nat \<Rightarrow> (Obj \<Rightarrow> Obj) \<Rightarrow> ('f dev, unit) state" where
  "set_file i f = set_fls (\<lambda>F. F\<lparr>fileObjects := (fileObjects F)[i := f (fileObjects F ! i)]\<rparr>)"

definition openMask_denied :: "Inode \<Rightarrow> nat \<Rightarrow> bool" where
  "openMask_denied x flags \<longleftrightarrow> i_perm x OR (flags AND permMask) \<noteq> i_perm x AND permMask"

definition new_file :: "'f env \<Rightarrow> byte list \<Rightarrow> nat \<Rightarrow> nat option \<Rightarrow> ('f dev, nat option) state" where
  "new_file E path flags t = do {
     x \<leftarrow> gets (deref t);
     if i_type x = I_lnk then fail_with R_nimpl None
     else if i_type x = I_dir then fail_with R_invalidInput None
     else if openMask_denied x flags then fail_with R_noPerm None
     else do {
       l \<leftarrow> gets (activeFiles \<circ> fls);
       (case getNewObject (maxNumberOfFiles E) l of
          None \<Rightarrow> fail_with R_noSpace None
        | Some i \<Rightarrow> do {
            set_lasterr R_ok;
            set_fls (\<lambda>F. F\<lparr>activeFiles := setBit (maxNumberOfFiles E) i (activeFiles F)\<rparr>);
            node \<leftarrow> assign_ptr E t None;
            set_file i (\<lambda>_. \<lparr>rdnly = (flags AND open_FW = 0), o_no = i_no x, o_node = node, o_name = path,
              o_fp = (if flags AND open_FA \<noteq> 0 then i_size x else 0)\<rparr>);
            ret (Some i)
          })
     }
   }"

definition dev_open :: "nat \<Rightarrow> 'f env \<Rightarrow> byte list \<Rightarrow> nat \<Rightarrow> ('f dev, nat option option) state" where
  "dev_open n E path flags = do {
     m \<leftarrow> gets (mounted \<circ> fls);
     ro \<leftarrow> gets readOnly;
     if \<not> m then fail_with R_notMounted (Some None)
     else if ro \<and> flags AND open_FW \<noteq> 0 then fail_with R_readOnly (Some None)
     else do {
       (r, t) \<leftarrow> getInodeOfElem E path None;
       (r, t) \<leftarrow> (if r = R_notFound \<and> flags AND open_FC \<noteq> 0
                  then createFile n E path (perm_R OR perm_W) t else ret (Some r, t));
       f \<leftarrow> (case r of
               None \<Rightarrow> ret None
             | Some r \<Rightarrow>
                 if r \<noteq> R_ok then fail_with r (Some None)
                 else do { f \<leftarrow> new_file E path flags t; ret (Some f) });
       drop_ptr E t;
       ret f
     }
   }"

definition dev_flush :: "nat \<Rightarrow> 'f env \<Rightarrow> nat \<Rightarrow> ('f dev, Result option) state" where
  "dev_flush n E i = do {
     m \<leftarrow> gets (mounted \<circ> fls);
     ro \<leftarrow> gets readOnly;
     if \<not> m then ret (Some R_notMounted)
     else if ro then ret (Some R_ok)
     else do {
       t \<leftarrow> gets (o_node \<circ> file_at i);
       r \<leftarrow> setTargetInode E (ptr_of t);
       if r \<noteq> R_ok then ret (Some r)
       else do {
         r \<leftarrow> pac_commit E;
         if r \<noteq> R_ok then ret (Some r) else checkpoint_device n E
       }
     }
   }"

definition dev_close :: "nat \<Rightarrow> 'f env \<Rightarrow> nat \<Rightarrow> ('f dev, Result option) state" where
  "dev_close n E i = do {
     m \<leftarrow> gets (mounted \<circ> fls);
     if \<not> m then ret (Some R_notMounted)
     else do {
       r \<leftarrow> dev_flush n E i;
       whenM (r \<noteq> None) (do { _ \<leftarrow> freeFile E i; ret () });
       ret r
     }
   }"

subsection \<open>Attributes\<close>

definition touch :: "nat \<Rightarrow> 'f env \<Rightarrow> byte list \<Rightarrow> ('f dev, Result option) state" where
  "touch n E path = do {
     g \<leftarrow> gets (write_guard E);
     (case g of
        Some r \<Rightarrow> ret (Some r)
      | None \<Rightarrow> do {
          (r, t) \<leftarrow> getInodeOfElem E path None;
          (r, t) \<leftarrow> (if r = R_notFound then createFile n E path (perm_R OR perm_W) t
                else if r \<noteq> R_ok then ret (Some r, t)
                else do {
                  now \<leftarrow> gets (\<lambda>s. sys_now E (flash s));
                  set_inode (ptr_of t) (\<lambda>x. x\<lparr>i_mod := now\<rparr>);
                  x \<leftarrow> gets (deref t);
                  r \<leftarrow> updateExistingInode E x;
                  ret (Some r, t)
                });
          drop_ptr E t;
          ret r
        })
   }"

record ObjInfo =
  nfo_size :: FileSize
  nfo_created :: nat
  nfo_modified :: nat
  nfo_isDir :: bool
  nfo_perm :: nat

definition getObjInfo :: "'f env \<Rightarrow> byte list \<Rightarrow> ('f dev, Result + ObjInfo) state" where
  "getObjInfo E path = do {
     m \<leftarrow> gets (mounted \<circ> fls);
     if \<not> m then ret (Inl R_notMounted)
     else do {
       (r, t) \<leftarrow> getInodeOfElem E path None;
       x \<leftarrow> gets (deref t);
       y \<leftarrow> (if r \<noteq> R_ok then fail_with r (Inl r)
             else ret (Inr \<lparr>nfo_size = i_size x, nfo_created = i_crea x, nfo_modified = i_mod x,
                            nfo_isDir = (i_type x = I_dir), nfo_perm = i_perm x\<rparr>));
       drop_ptr E t;
       ret y
     }
   }"

definition chmod :: "'f env \<Rightarrow> byte list \<Rightarrow> nat \<Rightarrow> ('f dev, Result) state" where
  "chmod E path perm = do {
     m \<leftarrow> gets (mounted \<circ> fls);
     if \<not> m then ret R_notMounted
     else do {
       (r, t) \<leftarrow> getInodeOfElem E path None;
       r \<leftarrow> (if r \<noteq> R_ok then ret r
             else do {
               set_inode (ptr_of t) (\<lambda>x. x\<lparr>i_perm := perm mod 8\<rparr>);
               x \<leftarrow> gets (deref t);
               updateExistingInode E x
             });
       drop_ptr E t;
       ret r
     }
   }"

subsection \<open>Reading and writing files\<close>

definition dev_read :: "'f env \<Rightarrow> nat \<Rightarrow> FileSize \<Rightarrow> ('f dev, Result \<times> byte list) state" where
  "dev_read E i bytes = do {
     m \<leftarrow> gets (mounted \<circ> fls);
     f \<leftarrow> gets (file_at i);
     x \<leftarrow> gets (deref (o_node f));
     if \<not> m then ret (R_notMounted, [])
     else if i_type x = I_dir then fail_with R_invalidInput (R_invalidInput, [])
     else if i_type x = I_lnk then fail_with R_nimpl (R_nimpl, [])
     else if \<not> readable x then ret (R_noPerm, [])
     else if i_size x = 0 then ret (R_ok, [])
     else do {
       (r, bs) \<leftarrow> readInodeData E (ptr_of (o_node f)) (o_fp f) bytes;
       whenM (r = R_ok) (set_file i (\<lambda>f. f\<lparr>o_fp := (o_fp f + length bs) mod 2 ^ 32\<rparr>));
       ret (r, bs)
     }
   }"

text \<open>
  The file position only moves when the journal has room; after a flush it stays where it was.
\<close>

definition dev_write :: "nat \<Rightarrow> 'f env \<Rightarrow> nat \<Rightarrow> byte list \<Rightarrow> ('f dev, Result option \<times> nat) state" where
  "dev_write n E i data = do {
     g \<leftarrow> gets (write_guard E);
     f \<leftarrow> gets (file_at i);
     x \<leftarrow> gets (deref (o_node f));
     if g \<noteq> None then ret (g, 0)
     else if o_node f = None then ret (Some R_bug, 0)
     else if i_type x = I_dir then ret (Some R_invalidInput, 0)
     else if i_type x = I_lnk then ret (Some R_nimpl, 0)
     else if \<not> writable x then ret (Some R_noPerm, 0)
     else do {
       (r, written) \<leftarrow> writeInodeData E (ptr_of (o_node f)) (o_fp f) data;
       add_event E (Checkpoint Tp_dataIO);
       if r \<noteq> R_ok then ret (Some r, written)
       else if written \<noteq> length data then ret (Some R_fail, written)
       else do {
         r \<leftarrow> addEvent E (Checkpoint Tp_device);
         if r = R_lowMem then do { r \<leftarrow> flushAllCaches n E; ret (r, written) }
         else do {
           set_file i (\<lambda>f. f\<lparr>o_fp := (o_fp f + written) mod 2 ^ 32\<rparr>);
           ret (Some R_ok, written)
         }
       }
     }
   }"

datatype Seekmode = Seek_set | Seek_cur | Seek_end

definition seek :: "nat \<Rightarrow> int \<Rightarrow> Seekmode \<Rightarrow> ('f dev, Result) state" where
  "seek i m mode = do {
     mt \<leftarrow> gets (mounted \<circ> fls);
     f \<leftarrow> gets (file_at i);
     x \<leftarrow> gets (deref (o_node f));
     let move = (\<lambda>fp. do { set_file i (\<lambda>f. f\<lparr>o_fp := nat (fp mod 2 ^ 32)\<rparr>); ret R_ok });
     if \<not> mt then ret R_notMounted
     else (case mode of
         Seek_set \<Rightarrow> if m < 0 then fail_with R_invalidInput R_invalidInput else move m
       | Seek_end \<Rightarrow> if - m > int (i_size x) then ret R_invalidInput else move (int (i_size x) + m)
       | Seek_cur \<Rightarrow> if int (o_fp f) + m < 0 then ret R_invalidInput else move (int (o_fp f) + m))
   }"

subsection \<open>Truncating and removing\<close>

definition truncate_inode :: "nat \<Rightarrow> 'f env \<Rightarrow> nat option \<Rightarrow> FileSize \<Rightarrow> bool \<Rightarrow> ('f dev, Result option) state" where
  "truncate_inode n E t len fromUserspace = do {
     x \<leftarrow> gets (deref t);
     if \<not> writable x then ret (Some R_noPerm)
     else if i_type x = I_dir \<and> i_size x > 2 then ret (Some R_dirNotEmpty)
     else do {
       r \<leftarrow> deleteInodeData E (ptr_of t) len False;
       if r \<noteq> R_ok then ret (Some r)
       else do {
         _ \<leftarrow> pac_commit E;
         if fromUserspace then checkpoint_device n E else ret (Some R_ok)
       }
     }
   }"

definition dev_truncate :: "nat \<Rightarrow> 'f env \<Rightarrow> byte list \<Rightarrow> FileSize \<Rightarrow> bool \<Rightarrow> ('f dev, Result option) state" where
  "dev_truncate n E path len fromUserspace = do {
     m \<leftarrow> gets (mounted \<circ> fls);
     ro \<leftarrow> gets readOnly;
     if \<not> m then ret (Some R_notMounted)
     else if ro then ret (Some R_readOnly)
     else do {
       (r, t) \<leftarrow> getInodeOfElem E path None;
       r \<leftarrow> (if r \<noteq> R_ok then ret (Some r) else truncate_inode n E t len fromUserspace);
       drop_ptr E t;
       ret r
     }
   }"

text \<open>The reference count of an inode that is not in the map reads as 0.\<close>

definition refcount :: "InodeNo \<Rightarrow> 'f dev \<Rightarrow> nat" where
  "refcount no s = (case map_of (inodeMap (fls s)) no of None \<Rightarrow> 0 | Some (_, c) \<Rightarrow> c)"

definition remove_object :: "nat \<Rightarrow> 'f env \<Rightarrow> byte list \<Rightarrow> nat option \<Rightarrow> nat option \<Rightarrow> ('f dev, Result option) state" where
  "remove_object n E path t d = do {
     x \<leftarrow> gets (deref t);
     y \<leftarrow> gets (deref d);
     add_event E (RemoveObj (i_no x) (i_no y));
     r \<leftarrow> dev_truncate n E path 0 False;
     if r \<noteq> Some R_ok then ret r
     else do {
       no \<leftarrow> gets (i_no \<circ> deref t);
       r \<leftarrow> removeInodeFromDir n E (ptr_of d) no;
       if r \<noteq> Some R_ok then ret r
       else do {
         no \<leftarrow> gets (i_no \<circ> deref t);
         r \<leftarrow> deleteInode E no;
         if r \<noteq> R_ok then ret (Some r) else checkpoint_device n E
       }
     }
   }"

definition dev_remove :: "nat \<Rightarrow> 'f env \<Rightarrow> byte list \<Rightarrow> ('f dev, Result option) state" where
  "dev_remove n E path = do {
     (r, t) \<leftarrow> getInodeOfElem E path None;
     r \<leftarrow> (if r \<noteq> R_ok then ret (Some r)
           else do {
             k \<leftarrow> gets (\<lambda>s. refcount (i_no (deref t s)) s);
             if k > 1 then ret (Some R_invalidInput)
             else do {
               (r, d) \<leftarrow> getParentDir E path None;
               r \<leftarrow> (if r \<noteq> R_ok then ret (Some r) else remove_object n E path t d);
               drop_ptr E d;
               ret r
             }
           });
     drop_ptr E t;
     ret r
   }"

end
