(* ===== verification/DeviceMount.thy ===== *)
theory DeviceMount
  imports DeviceApi JournalReplay BtreeDelete
begin

text \<open>
  Formatting, mounting and unmounting (\<^verbatim>\<open>src/device.cpp\<close>), the device as a topic of the journal, and
  with it the whole list of topics that a replay at mount time runs through.
\<close>

subsection \<open>Replay\<close>

definition dev_resetState :: "('f dev, unit) state" where
  "dev_resetState = set_fls (\<lambda>F. F\<lparr>dev_journalState := D_ok\<rparr>)"

definition dev_processEntry :: "Entry \<Rightarrow> ('f dev, Result) state" where
  "dev_processEntry e =
     (case e of
        MkObjInode no \<Rightarrow> do {
          set_fls (\<lambda>F. F\<lparr>targetInodeNo := no, dev_journalState := D_makeObj\<rparr>); ret R_ok }
      | InsertIntoDir no \<Rightarrow> do {
          set_fls (\<lambda>F. F\<lparr>folderInodeNo := no, dev_journalState := D_insertObj\<rparr>); ret R_ok }
      | RemoveObj no dir \<Rightarrow> do {
          set_fls (\<lambda>F. F\<lparr>targetInodeNo := no, folderInodeNo := dir, dev_journalState := D_removeObj\<rparr>); ret R_ok }
      | _ \<Rightarrow> ret R_bug)"

text \<open>Loads an inode into a local variable.\<close>

definition load_local :: "'f env \<Rightarrow> InodeNo \<Rightarrow> nat \<Rightarrow> ('f dev, Result) state" where
  "load_local E no p = do {
     y \<leftarrow> getInode E no;
     (case y of Inl r \<Rightarrow> ret r | Inr x \<Rightarrow> do { set_inode p (\<lambda>_. x); ret R_ok })
   }"

text \<open>\<open>False\<close> is a return before the checkpoint.\<close>

definition recover_insert :: "'f env \<Rightarrow> InodeNo \<Rightarrow> InodeNo \<Rightarrow> ('f dev, bool) state" where
  "recover_insert E obj folder = do {
     r \<leftarrow> load_local E folder (local_folder E);
     if r \<noteq> R_ok then ret False
     else do {
       r \<leftarrow> getNameOfInodeInDir E obj (local_folder E);
       whenM (r = R_notFound) (do { _ \<leftarrow> deleteInode E obj; ret () });
       ret True
     }
   }"

definition recover_contents :: "'f env \<Rightarrow> InodeNo \<Rightarrow> ('f dev, bool) state" where
  "recover_contents E obj = do {
     r \<leftarrow> load_local E obj (local_obj E);
     if r \<noteq> R_ok then ret True
     else do {
       sz \<leftarrow> gets (\<lambda>s. i_size (inodeMem s (local_obj E)));
       r \<leftarrow> (if sz \<noteq> 0 then deleteInodeData E (local_obj E) 0 True else ret R_ok);
       if r \<noteq> R_ok then ret False
       else do {
         whenM (sz \<noteq> 0) (do { _ \<leftarrow> pac_commit E; ret () });
         _ \<leftarrow> deleteInode E obj;
         ret True
       }
     }
   }"

text \<open>A search in the folder that never ends is taken as ended here.\<close>

definition recover_remove :: "nat \<Rightarrow> 'f env \<Rightarrow> InodeNo \<Rightarrow> InodeNo \<Rightarrow> ('f dev, bool) state" where
  "recover_remove n E obj folder = do {
     go \<leftarrow> recover_contents E obj;
     if \<not> go then ret False
     else do {
       r \<leftarrow> load_local E folder (local_folder E);
       if r \<noteq> R_ok then ret False
       else do { _ \<leftarrow> removeInodeFromDir n E (local_folder E) obj; ret True }
     }
   }"

definition dev_signalEndOfLog :: "nat \<Rightarrow> 'f env \<Rightarrow> ('f dev, unit) state" where
  "dev_signalEndOfLog n E = do {
     F \<leftarrow> gets fls;
     (if dev_journalState F = D_ok then ret ()
      else do {
        go \<leftarrow> (case dev_journalState F of
                 D_insertObj \<Rightarrow> recover_insert E (targetInodeNo F) (folderInodeNo F)
               | D_removeObj \<Rightarrow> recover_remove n E (targetInodeNo F) (folderInodeNo F)
               | _ \<Rightarrow> do { _ \<leftarrow> deleteInode E (targetInodeNo F); ret True });
        whenM go (add_event E (Checkpoint Tp_device))
      })
   }"

definition device_topic :: "nat \<Rightarrow> 'f env \<Rightarrow> 'f dev topic" where
  "device_topic n E = \<lparr>tp_reset = dev_resetState, tp_preScan = (\<lambda>_ _. ret ()),
     tp_interested = (\<lambda>_ _. False), tp_process = (\<lambda>e _. dev_processEntry e), tp_signal = dev_signalEndOfLog n E\<rparr>"

text \<open>The topics that the constructor of the device registers.\<close>

definition device_topics :: "nat \<Rightarrow> 'f env \<Rightarrow> 'f dev topics" where
  "device_topics n E = dev_topics E (\<lambda>t. case t of
     Tp_tree \<Rightarrow> Some (tree_topic E) | Tp_dataIO \<Rightarrow> Some (dio_topic E) | Tp_pac \<Rightarrow> Some (pac_topic E)
   | Tp_device \<Rightarrow> Some (device_topic n E) | _ \<Rightarrow> None)"

subsection \<open>Starting and stopping\<close>

definition initializeDevice :: "'f env \<Rightarrow> ('f dev, Result) state" where
  "initializeDevice E = do {
     m \<leftarrow> gets (mounted \<circ> fls);
     if m then ret R_alrMounted
     else do {
       superblock_clear E;
       ret (if areasNo E < area_type_code T_no - 2 \<or> blocksPerArea E < 2 \<or>
               dataPagesPerArea E > dataBytesPerPage E * 8 \<or> blocksTotal E mod blocksPerArea E \<noteq> 0
            then R_invalidInput else R_ok)
     }
   }"

definition destroyDevice :: "'f env \<Rightarrow> ('f dev, unit) state" where
  "destroyDevice E = do {
     set_fls (\<lambda>F. F\<lparr>dev_journalState := D_ok\<rparr>);
     superblock_clear E;
     inodePool_clear E;
     filesPool_clear E;
     set_pac pac_clear;
     set_sc (summary_clear E)
   }"

definition unmnt :: "nat \<Rightarrow> 'f env \<Rightarrow> ('f dev, Result option) state" where
  "unmnt n E = do {
     r \<leftarrow> flushAllCaches n E;
     if r \<noteq> Some R_ok then ret r
     else do {
       destroyDevice E;
       _ \<leftarrow> deInitializeNand E;
       wipeCache E;
       set_fls (\<lambda>F. F\<lparr>mounted := False\<rparr>);
       ret (Some R_ok)
     }
   }"

definition check_root :: "'f env \<Rightarrow> ('f dev, Result) state" where
  "check_root E = do {
     (r, t) \<leftarrow> findOrLoadInode E 0 None;
     r \<leftarrow> (if r \<noteq> R_ok then ret r
           else do {
             x \<leftarrow> gets (deref t);
             if i_type x \<noteq> I_dir then ret R_fail
             else do {
               r \<leftarrow> (if verifyDev E then checkFolderSanity E 0 else ret R_ok);
               if r \<noteq> R_ok then ret R_fail
               else do { set_fls (\<lambda>F. F\<lparr>mounted := True\<rparr>); ret R_ok }
             }
           });
     drop_ptr E t;
     ret r
   }"

text \<open>The mode is set before the test for a mounted device.\<close>

definition mnt :: "nat \<Rightarrow> 'f env \<Rightarrow> bool \<Rightarrow> ('f dev, Result option) state" where
  "mnt n E readOnlyMode = do {
     modify (\<lambda>s. s\<lparr>readOnly := readOnlyMode\<rparr>);
     m \<leftarrow> gets (mounted \<circ> fls);
     if m then ret (Some R_alrMounted)
     else do {
       journal_disable;
       r \<leftarrow> initializeDevice E;
       if r \<noteq> R_ok then ret (Some r)
       else do {
         r \<leftarrow> initializeNand E;
         if r \<noteq> R_ok then ret (Some r)
         else do {
           r \<leftarrow> loadAreaSummaries E;
           if r = R_notFound then do { destroyDevice E; ret (Some r) }
           else if r \<noteq> R_ok then ret (Some r)
           else do {
             r \<leftarrow> journal_enable E;
             if r \<noteq> R_ok then ret (Some r)
             else do {
               r \<leftarrow> processBuffer E (device_topics n E);
               if r \<noteq> Some R_ok then ret r
               else do { r \<leftarrow> check_root E; ret (Some r) }
             }
           }
         }
       }
     }
   }"

subsection \<open>Formatting\<close>

definition retire_listed :: "'f env \<Rightarrow> BlockAbs \<Rightarrow> unit \<Rightarrow> ('f dev, Result + unit) state" where
  "retire_listed E block _ = do {
     let area = block div blocksPerArea E;
     if block > blocksTotal E then ret (Inl R_invalidInput)
     else if area = 0 then ret (Inl R_fail)
     else do {
       t \<leftarrow> gets (\<lambda>s. getType E (sb s) area);
       whenM (t \<noteq> T_retired) (do { setPos E area area; retireArea E area });
       ret (Inr ())
     }
   }"

text \<open>Checks and erases an area; \<open>False\<close> is an area that has been retired for its marks.\<close>

definition erase_blocks :: "'f env \<Rightarrow> AreaPos \<Rightarrow> ('f dev, unit) state" where
  "erase_blocks E area = do {
     _ \<leftarrow> loopM [0 ..< blocksPerArea E] () (\<lambda>p _. do {
       r \<leftarrow> eraseBlock E (p + area * blocksPerArea E);
       if r \<noteq> R_ok then do { retireArea E area; ret (Inl r) } else ret (Inr ())
     });
     increaseErasecount E area
   }"

definition prepare_area :: "'f env \<Rightarrow> AreaPos \<Rightarrow> ('f dev, bool) state" where
  "prepare_area E area = do {
     y \<leftarrow> loopM [0 ..< blocksPerArea E] False (\<lambda>block bad. do {
       r \<leftarrow> checkBad E (area * blocksPerArea E + block);
       ret (Inr (bad \<or> r \<noteq> R_ok))
     });
     if y = (Inr True :: Result + bool) then do { retireArea E area; ret False }
     else do {
       erase_blocks E area;
       t \<leftarrow> gets (\<lambda>s. getType E (sb s) area);
       ret (t \<noteq> T_retired)
     }
   }"

text \<open>What the loop over the areas has placed already; the number of superblocks has 8 bits.\<close>

record placed =
  superblocks :: nat
  had_superblock :: bool
  had_journal :: bool
  had_garbage :: bool

definition assign_area :: "'f env \<Rightarrow> AreaPos \<Rightarrow> placed \<Rightarrow> ('f dev, placed) state" where
  "assign_area E area had = do {
     useJ \<leftarrow> gets (useJournal \<circ> fls);
     if \<not> had_superblock had
     then do {
       initAreaAs E area T_superblock;
       setActiveArea E T_superblock 0;
       let k = (superblocks had + 1) mod 2 ^ 8;
       ret (had\<lparr>superblocks := k, had_superblock := (k = superChainElems E)\<rparr>)
     }
     else if useJ \<and> \<not> had_journal had
     then do { initAreaAs E area T_journal; ret (had\<lparr>had_journal := True\<rparr>) }
     else if \<not> had_garbage had
     then do { initAreaAs E area T_garbageBuffer; ret (had\<lparr>had_garbage := True\<rparr>) }
     else do { setType E area T_unset; ret had }
   }"

definition format_area :: "'f env \<Rightarrow> bool \<Rightarrow> AreaPos \<Rightarrow> placed \<Rightarrow> ('f dev, Result + placed) state" where
  "format_area E complete area had = do {
     t \<leftarrow> gets (\<lambda>s. getType E (sb s) area);
     if t = T_retired then ret (Inr had)
     else do {
       setStatus E area S_empty;
       setPos E area area;
       go \<leftarrow> (if complete \<or> area \<le> superChainElems E + 4 \<or> \<not> (had_superblock had \<and> had_garbage had)
              then prepare_area E area else ret True);
       if \<not> go then ret (Inr had)
       else do { had \<leftarrow> assign_area E area had; ret (Inr had) }
     }
   }"

definition format_root :: "'f env \<Rightarrow> ('f dev, Result) state" where
  "format_root E = do {
     (r, t) \<leftarrow> createDirInode E (perm_R OR perm_W OR 4) None;
     r \<leftarrow> (if r \<noteq> R_ok then do { destroyDevice E; ret r }
           else do {
             x \<leftarrow> gets (deref t);
             if i_no x \<noteq> 0 then ret R_bug
             else do {
               r \<leftarrow> insertInode E x;
               whenM (r \<noteq> R_ok) (destroyDevice E);
               ret r
             }
           });
     drop_ptr E t;
     ret r
   }"

definition format_finish :: "nat \<Rightarrow> 'f env \<Rightarrow> ('f dev, Result option) state" where
  "format_finish n E = do {
     r \<leftarrow> tree_commitCache E;
     if r \<noteq> R_ok then do { destroyDevice E; ret (Some r) }
     else do {
       r \<leftarrow> commitAreaSummaries n E True;
       if r = None then ret None
       else if r \<noteq> Some R_ok then do { destroyDevice E; ret r }
       else do {
         _ \<leftarrow> journal_clear E;
         destroyDevice E;
         _ \<leftarrow> deInitializeNand E;
         ret (Some R_ok)
       }
     }
   }"

definition format_areas :: "'f env \<Rightarrow> BlockAbs list \<Rightarrow> bool \<Rightarrow> ('f dev, Result) state" where
  "format_areas E badBlocks complete = do {
     journal_disable;
     y \<leftarrow> loopM badBlocks () (retire_listed E);
     (case y of
        Inl r \<Rightarrow> ret r
      | Inr _ \<Rightarrow> do {
          _ \<leftarrow> loopM [0 ..< areasNo E] \<lparr>superblocks = 0, had_superblock = False, had_journal = False, had_garbage = False\<rparr>
            (format_area E complete);
          _ \<leftarrow> journal_enable E;
          startNewTree E
        })
   }"

definition format_device :: "nat \<Rightarrow> 'f env \<Rightarrow> BlockAbs list \<Rightarrow> bool \<Rightarrow> ('f dev, Result option) state" where
  "format_device n E badBlocks complete = do {
     r \<leftarrow> initializeDevice E;
     if r \<noteq> R_ok then ret (Some r)
     else do {
       r \<leftarrow> initializeNand E;
       if r \<noteq> R_ok then ret (Some r)
       else do {
         r \<leftarrow> format_areas E badBlocks complete;
         if r \<noteq> R_ok then ret (Some r)
         else do {
           r \<leftarrow> format_root E;
           if r \<noteq> R_ok then ret (Some r) else format_finish n E
         }
       }
     }
   }"

end
