(* ===== verification/ReplayHandlers.thy ===== *)
theory ReplayHandlers
  imports ReplayCorrect AllocInvariant DeviceMount
begin

text \<open>
  The topics of the device obey the rule of the journal: while the log is processed, they leave
  the log and the cursor alone. A disabled journal drops every event, so it is enough that no
  operation changes the journal by itself: \<open>dev_frame\<close> collects the statements that are kept by
  the area management, \<open>sys_frame\<close> those kept by the B+ tree, the page address cache, the data I/O
  and the device as well, and the locale \<open>journal_topics\<close> is interpreted on the registration
  \<open>device_topics\<close> of the constructor.
\<close>

definition dev_frame :: "('f dev \<Rightarrow> bool) \<Rightarrow> bool" where
  "dev_frame I \<longleftrightarrow> sc_frame I \<and> (\<forall>s B. I s \<longrightarrow> I (s\<lparr>sb := B\<rparr>))"

lemma dev_frame_sc [intro]: "dev_frame I \<Longrightarrow> sc_frame I"
  by (simp add: dev_frame_def)

lemma dev_frame_ev [intro]: "dev_frame I \<Longrightarrow> ev_frame I"
  by (auto simp: dev_frame_def)

lemma dev_frame_set_sb: "dev_frame I \<Longrightarrow> keeps I (set_sb f)"
  by (intro keeps_intros) (simp add: dev_frame_def)

lemma dev_frame_set_sc: "dev_frame I \<Longrightarrow> keeps I (set_sc f)"
  by (intro keeps_intros) (simp add: dev_frame_def sc_frame_def)

lemma store_is_frame: "disabled j \<Longrightarrow> dev_frame (store_is m j)"
  by (auto simp: dev_frame_def sc_frame_def ev_frame_def store_is_def)

named_theorems frame_intros \<open>rules that show that an operation keeps what does not depend on it\<close>

declare dev_frame_set_sb [frame_intros] dev_frame_set_sc [frame_intros]

lemma frame_registerRootnode [frame_intros]: "dev_frame I \<Longrightarrow> keeps I (registerRootnode E a)"
  unfolding registerRootnode_def by (intro frame_intros keeps_intros dev_frame_sc dev_frame_ev)

lemma frame_setType [frame_intros]: "dev_frame I \<Longrightarrow> keeps I (setType E a t)"
  unfolding setType_def by (intro frame_intros keeps_intros dev_frame_sc dev_frame_ev)

lemma frame_setStatus [frame_intros]: "dev_frame I \<Longrightarrow> keeps I (setStatus E a st)"
  unfolding setStatus_def by (intro frame_intros keeps_intros dev_frame_sc dev_frame_ev)

lemma frame_increaseErasecount [frame_intros]: "dev_frame I \<Longrightarrow> keeps I (increaseErasecount E a)"
  unfolding increaseErasecount_def by (intro frame_intros keeps_intros dev_frame_sc dev_frame_ev)

lemma frame_setPos [frame_intros]: "dev_frame I \<Longrightarrow> keeps I (setPos E a p)"
  unfolding setPos_def by (intro frame_intros keeps_intros dev_frame_sc dev_frame_ev)

lemma frame_setActiveArea [frame_intros]: "dev_frame I \<Longrightarrow> keeps I (setActiveArea E t a)"
  unfolding setActiveArea_def by (intro frame_intros keeps_intros dev_frame_sc dev_frame_ev)

lemma frame_setUsedAreas [frame_intros]: "dev_frame I \<Longrightarrow> keeps I (setUsedAreas E n)"
  unfolding setUsedAreas_def by (intro frame_intros keeps_intros dev_frame_sc dev_frame_ev)

lemma frame_increaseUsedAreas [frame_intros]: "dev_frame I \<Longrightarrow> keeps I (increaseUsedAreas E)"
  unfolding increaseUsedAreas_def by (intro frame_intros keeps_intros dev_frame_sc dev_frame_ev)

lemma frame_decreaseUsedAreas [frame_intros]: "dev_frame I \<Longrightarrow> keeps I (decreaseUsedAreas E)"
  unfolding decreaseUsedAreas_def by (intro frame_intros keeps_intros dev_frame_sc dev_frame_ev)

lemma frame_swapAreaPosition [frame_intros]: "dev_frame I \<Longrightarrow> keeps I (swapAreaPosition E a b)"
  unfolding swapAreaPosition_def by (intro frame_intros keeps_intros dev_frame_sc dev_frame_ev)

lemma frame_flash: "dev_frame I \<Longrightarrow> I s \<Longrightarrow> I (s\<lparr>flash := f\<rparr>)"
  by (simp add: dev_frame_def sc_frame_def)

lemma frame_drivers [frame_intros]:
  assumes "dev_frame I"
  shows "keeps I (readPage E p n)" "keeps I (writePage E p bs)" "keeps I (eraseBlock E b)"
    "keeps I (markBad E b)" "keeps I (checkBad E b)"
  by (intro keeps_intros frame_flash [OF assms]; assumption)+

lemma frame_initAreaAs [frame_intros]: "dev_frame I \<Longrightarrow> keeps I (initAreaAs E a t)"
  unfolding initAreaAs_def by (intro frame_intros keeps_intros dev_frame_sc dev_frame_ev)

lemma frame_closeArea [frame_intros]: "dev_frame I \<Longrightarrow> keeps I (closeArea E a)"
  unfolding closeArea_def by (intro frame_intros keeps_intros dev_frame_sc dev_frame_ev)

lemma frame_mark_block [frame_intros]: "dev_frame I \<Longrightarrow> keeps I (mark_block E a b)"
  unfolding mark_block_def by (intro frame_intros keeps_intros dev_frame_sc dev_frame_ev)

lemma frame_retireArea [frame_intros]: "dev_frame I \<Longrightarrow> keeps I (retireArea E a)"
  unfolding retireArea_def by (intro frame_intros keeps_intros dev_frame_sc dev_frame_ev)

lemma frame_erase_one [frame_intros]: "dev_frame I \<Longrightarrow> keeps I (erase_one E a i u)"
  unfolding erase_one_def by (intro frame_intros keeps_intros dev_frame_sc dev_frame_ev)

lemma frame_resetASWritten [frame_intros]: "dev_frame I \<Longrightarrow> keeps I (resetASWritten E a)"
  unfolding resetASWritten_def by (intro frame_intros keeps_intros dev_frame_sc dev_frame_ev)

lemma frame_deleteSummary [frame_intros]: "dev_frame I \<Longrightarrow> keeps I (deleteSummary E a)"
  unfolding deleteSummary_def by (intro frame_intros keeps_intros dev_frame_sc dev_frame_ev)

lemma frame_deleteAreaContents [frame_intros]: "dev_frame I \<Longrightarrow> keeps I (deleteAreaContents E a sw nl)"
  unfolding deleteAreaContents_def by (intro frame_intros keeps_intros dev_frame_sc dev_frame_ev)

lemma frame_deleteArea [frame_intros]: "dev_frame I \<Longrightarrow> keeps I (deleteArea E a)"
  unfolding deleteArea_def by (intro frame_intros keeps_intros dev_frame_sc dev_frame_ev)

lemma frame_gc_take_over [frame_intros]: "dev_frame I \<Longrightarrow> keeps I (gc_take_over E t a v l)"
  unfolding gc_take_over_def by (intro frame_intros keeps_intros dev_frame_sc dev_frame_ev)

lemma frame_collectGarbage_fuel [frame_intros]: "dev_frame I \<Longrightarrow> keeps I (collectGarbage_fuel n E t)"
proof (induction n)
  case (Suc n)
  then show ?case
    unfolding collectGarbage_fuel.simps gc_round_def gc_copy_branch_def gc_erase_branch_def
    by (intro frame_intros keeps_intros dev_frame_sc dev_frame_ev)
qed (simp add: keeps_return)

lemma frame_collectGarbage [frame_intros]: "dev_frame I \<Longrightarrow> keeps I (collectGarbage E t)"
  unfolding collectGarbage_def by (intro frame_intros keeps_intros dev_frame_sc dev_frame_ev)

lemma frame_commitAreaSummaryHard [frame_intros]: "dev_frame I \<Longrightarrow> keeps I (commitAreaSummaryHard E c)"
  unfolding commitAreaSummaryHard_def by (intro frame_intros keeps_intros dev_frame_sc dev_frame_ev)

lemma frame_freeNextBest_hard [frame_intros]: "dev_frame I \<Longrightarrow> keeps I (freeNextBest_hard E)"
  unfolding freeNextBest_hard_def by (intro frame_intros keeps_intros dev_frame_sc dev_frame_ev)

lemma frame_freeNextBest_urgent [frame_intros]: "dev_frame I \<Longrightarrow> keeps I (freeNextBest_urgent E)"
  unfolding freeNextBest_urgent_def by (intro frame_intros keeps_intros dev_frame_sc dev_frame_ev)

lemma frame_loadUnbufferedArea_urgent [frame_intros]: "dev_frame I \<Longrightarrow> keeps I (loadUnbufferedArea_urgent E a)"
  unfolding loadUnbufferedArea_urgent_def by (intro frame_intros keeps_intros dev_frame_sc dev_frame_ev)

lemma frame_after_dirty [frame_intros]: "dev_frame I \<Longrightarrow> keeps I (after_dirty E a p)"
  unfolding after_dirty_def by (intro frame_intros keeps_intros dev_frame_sc dev_frame_ev)

lemma frame_setPageStatus [frame_intros]: "dev_frame I \<Longrightarrow> keeps I (setPageStatus E a p v)"
  unfolding setPageStatus_def by (intro frame_intros keeps_intros dev_frame_sc dev_frame_ev)

lemma frame_summary_processEntry [frame_intros]: "dev_frame I \<Longrightarrow> keeps I (summary_processEntry E e p)"
  unfolding summary_processEntry_def
  by (cases e; simp only: Entry.case; intro frame_intros keeps_intros dev_frame_sc dev_frame_ev; assumption)

lemma frame_superblock_preScan [frame_intros]: "dev_frame I \<Longrightarrow> keeps I (superblock_preScan E e)"
  unfolding superblock_preScan_def
  by (cases e; simp only: Entry.case; intro frame_intros keeps_intros dev_frame_sc dev_frame_ev; assumption)

subsection \<open>The tree, the page address cache and the data I/O\<close>

text \<open>
  The statements of the components above the area management change the flash, the superblock and
  their own state, and reach the journal through \<open>add_event\<close> alone.
\<close>

definition sys_frame :: "('f dev \<Rightarrow> bool) \<Rightarrow> bool" where
  "sys_frame I \<longleftrightarrow> ev_frame I \<and> (\<forall>s u. I s \<longrightarrow> mram u = mram s \<longrightarrow> jr u = jr s \<longrightarrow> I u)"

lemma sys_frameD: "sys_frame I \<Longrightarrow> I s \<Longrightarrow> mram u = mram s \<Longrightarrow> jr u = jr s \<Longrightarrow> I u"
  by (auto simp: sys_frame_def)

lemma sys_frame_dev: "sys_frame I \<Longrightarrow> dev_frame I"
  unfolding dev_frame_def sc_frame_def by (auto intro: sys_frameD) (simp add: sys_frame_def)

lemma sys_frame_modify:
  "sys_frame I \<Longrightarrow> (\<And>s. mram (f s) = mram s \<and> jr (f s) = jr s) \<Longrightarrow> keeps I (modify f)"
  by (intro keeps_modify) (auto intro: sys_frameD)

lemma store_is_sys_frame: "disabled j \<Longrightarrow> sys_frame (store_is m j)"
  by (auto simp: sys_frame_def ev_frame_def store_is_def)

lemma frame_setters [frame_intros]:
  assumes "sys_frame I"
  shows "keeps I (set_tc f)" "keeps I (set_pac g)" "keeps I (set_dio h)" "keeps I (set_fls k)"
    "keeps I (set_inode p x)" "keeps I (set_lasterr r)" "keeps I (set_node i n)"
  using assms
  by (auto simp: set_tc_def set_pac_def set_dio_def set_fls_def set_inode_def set_lasterr_def set_node_def
      intro!: sys_frame_modify)

text \<open>The three page state machines.\<close>

definition own_machine :: "'f psm_inst \<Rightarrow> bool" where
  "own_machine M \<longleftrightarrow> (\<forall>f s. mram (psm_put M f s) = mram s \<and> jr (psm_put M f s) = jr s)"

lemma own_machines [frame_intros]: "own_machine (tree_machine E)" "own_machine (pac_machine E)" "own_machine (dio_machine E)"
  by (simp_all add: own_machine_def tree_machine_def pac_machine_def dio_machine_def)

lemma frame_psm_put [frame_intros]: "own_machine M \<Longrightarrow> sys_frame I \<Longrightarrow> keeps I (modify (psm_put M f))"
  by (rule sys_frame_modify) (auto simp: own_machine_def)

lemma frame_collect_for [frame_intros]: "sys_frame I \<Longrightarrow> keeps I (collect_for E t)"
  unfolding collect_for_def by (intro frame_intros keeps_intros sys_frame_dev dev_frame_sc dev_frame_ev)

lemma frame_findWritableArea [frame_intros]: "sys_frame I \<Longrightarrow> keeps I (findWritableArea E t)"
  unfolding findWritableArea_def by (intro frame_intros keeps_intros sys_frame_dev dev_frame_sc dev_frame_ev)

lemma frame_probe_page [frame_intros]: "sys_frame I \<Longrightarrow> keeps I (probe_page E a i u)"
  unfolding probe_page_def by (intro frame_intros keeps_intros sys_frame_dev dev_frame_sc dev_frame_ev)

lemma frame_findFirstFreePage [frame_intros]: "sys_frame I \<Longrightarrow> keeps I (findFirstFreePage E a)"
  unfolding findFirstFreePage_def by (intro frame_intros keeps_intros sys_frame_dev dev_frame_sc dev_frame_ev)

lemma frame_manageActiveAreaFull [frame_intros]: "sys_frame I \<Longrightarrow> keeps I (manageActiveAreaFull E t)"
  unfolding manageActiveAreaFull_def by (intro frame_intros keeps_intros sys_frame_dev dev_frame_sc dev_frame_ev)

lemma frame_getPageStatus_addr [frame_intros]: "sys_frame I \<Longrightarrow> keeps I (getPageStatus_addr E a)"
  unfolding getPageStatus_addr_def by (intro frame_intros keeps_intros sys_frame_dev dev_frame_sc dev_frame_ev)

lemma frame_setPageStatus_addr [frame_intros]: "sys_frame I \<Longrightarrow> keeps I (setPageStatus_addr E a v)"
  unfolding setPageStatus_addr_def by (intro frame_intros keeps_intros sys_frame_dev dev_frame_sc dev_frame_ev)

lemma frame_clear_machine [frame_intros]: "own_machine M \<Longrightarrow> sys_frame I \<Longrightarrow> keeps I (clear_machine M)"
  unfolding clear_machine_def by (intro frame_intros keeps_intros sys_frame_dev dev_frame_sc dev_frame_ev)

lemma frame_replacePage_at [frame_intros]: "own_machine M \<Longrightarrow> sys_frame I \<Longrightarrow> keeps I (replacePage_at E M neu old no p)"
  unfolding replacePage_at_def by (intro frame_intros keeps_intros sys_frame_dev dev_frame_sc dev_frame_ev)

lemma frame_replacePage [frame_intros]: "own_machine M \<Longrightarrow> sys_frame I \<Longrightarrow> keeps I (replacePage E M neu old)"
  unfolding replacePage_def by (intro frame_intros keeps_intros sys_frame_dev dev_frame_sc dev_frame_ev)

lemma frame_dirty_page [frame_intros]: "sys_frame I \<Longrightarrow> keeps I (dirty_page E a)"
  unfolding dirty_page_def by (intro frame_intros keeps_intros sys_frame_dev dev_frame_sc dev_frame_ev)

lemma frame_invalidateOldPages [frame_intros]: "own_machine M \<Longrightarrow> sys_frame I \<Longrightarrow> keeps I (invalidateOldPages E M)"
  unfolding invalidateOldPages_def by (intro frame_intros keeps_intros sys_frame_dev dev_frame_sc dev_frame_ev)

lemma frame_machine_processEntry [frame_intros]: "own_machine M \<Longrightarrow> sys_frame I \<Longrightarrow> keeps I (machine_processEntry M e)"
  unfolding machine_processEntry_def by (intro frame_intros keeps_intros sys_frame_dev dev_frame_sc dev_frame_ev)

lemma frame_clean_with [frame_intros]: "sys_frame I \<Longrightarrow> keeps I (clean_with g E n)"
  unfolding clean_with_def by (intro frame_intros keeps_intros sys_frame_dev dev_frame_sc dev_frame_ev)

lemma frame_cleanFreeLeafNodes [frame_intros]: "sys_frame I \<Longrightarrow> keeps I (cleanFreeLeafNodes E n)"
  unfolding cleanFreeLeafNodes_def by (intro frame_intros keeps_intros sys_frame_dev dev_frame_sc dev_frame_ev)

lemma frame_cleanFreeNodes [frame_intros]: "sys_frame I \<Longrightarrow> keeps I (cleanFreeNodes E n)"
  unfolding cleanFreeNodes_def by (intro frame_intros keeps_intros sys_frame_dev dev_frame_sc dev_frame_ev)

lemma frame_readTreeNode [frame_intros]: "sys_frame I \<Longrightarrow> keeps I (readTreeNode E a)"
  unfolding readTreeNode_def by (intro frame_intros keeps_intros sys_frame_dev dev_frame_sc dev_frame_ev)

lemma frame_deleteTreeNode [frame_intros]: "sys_frame I \<Longrightarrow> keeps I (deleteTreeNode E n)"
  unfolding deleteTreeNode_def by (intro frame_intros keeps_intros sys_frame_dev dev_frame_sc dev_frame_ev)

lemma frame_updateFlashAddressInParent [frame_intros]: "sys_frame I \<Longrightarrow> keeps I (updateFlashAddressInParent E i)"
  unfolding updateFlashAddressInParent_def by (intro frame_intros keeps_intros sys_frame_dev dev_frame_sc dev_frame_ev)

lemma frame_old_page_ok [frame_intros]: "sys_frame I \<Longrightarrow> keeps I (old_page_ok E a)"
  unfolding old_page_ok_def by (intro frame_intros keeps_intros sys_frame_dev dev_frame_sc dev_frame_ev)

lemma frame_write_node_to [frame_intros]: "sys_frame I \<Longrightarrow> keeps I (write_node_to E i a)"
  unfolding write_node_to_def by (intro frame_intros keeps_intros sys_frame_dev dev_frame_sc dev_frame_ev)

lemma frame_writeTreeNode [frame_intros]: "sys_frame I \<Longrightarrow> keeps I (writeTreeNode E i)"
  unfolding writeTreeNode_def by (intro frame_intros keeps_intros sys_frame_dev dev_frame_sc dev_frame_ev)

lemma frame_commitNodesRecursively [frame_intros]: "sys_frame I \<Longrightarrow> keeps I (commitNodesRecursively n E i)"
proof (induction n arbitrary: i)
  case (Suc n)
  then show ?case
    unfolding commitNodesRecursively.simps
    by (intro Suc.IH frame_intros keeps_intros)
qed (simp add: keeps_return)

lemma frame_commitCache [frame_intros]: "sys_frame I \<Longrightarrow> keeps I (commitCache E)"
  unfolding commitCache_def by (intro frame_intros keeps_intros sys_frame_dev dev_frame_sc dev_frame_ev)

lemma frame_clean_step [frame_intros]: "sys_frame I \<Longrightarrow> keeps I m \<Longrightarrow> keeps I (clean_step m)"
  unfolding clean_step_def by (intro keeps_intros)

lemma frame_clean_both [frame_intros]: "sys_frame I \<Longrightarrow> keeps I (clean_both E n)"
  unfolding clean_both_def by (intro frame_intros keeps_intros sys_frame_dev dev_frame_sc dev_frame_ev)

lemma frame_freeNodes [frame_intros]: "sys_frame I \<Longrightarrow> keeps I (freeNodes E n)"
  unfolding freeNodes_def by (intro frame_intros keeps_intros sys_frame_dev dev_frame_sc dev_frame_ev)

lemma frame_reserveNodes [frame_intros]: "sys_frame I \<Longrightarrow> keeps I (reserveNodes E n)"
  unfolding reserveNodes_def by (intro frame_intros keeps_intros sys_frame_dev dev_frame_sc dev_frame_ev)

lemma frame_try_add [frame_intros]: "sys_frame I \<Longrightarrow> keeps I (try_add E)"
  unfolding try_add_def by (intro frame_intros keeps_intros sys_frame_dev dev_frame_sc dev_frame_ev)

lemma frame_addNewCacheNode [frame_intros]: "sys_frame I \<Longrightarrow> keeps I (addNewCacheNode E)"
  unfolding addNewCacheNode_def by (intro frame_intros keeps_intros sys_frame_dev dev_frame_sc dev_frame_ev)

lemma frame_fill_node [frame_intros]: "sys_frame I \<Longrightarrow> keeps I (fill_node E i a)"
  unfolding fill_node_def by (intro frame_intros keeps_intros sys_frame_dev dev_frame_sc dev_frame_ev)

lemma frame_getRootNodeFromCache [frame_intros]: "sys_frame I \<Longrightarrow> keeps I (getRootNodeFromCache E)"
  unfolding getRootNodeFromCache_def by (intro frame_intros keeps_intros sys_frame_dev dev_frame_sc dev_frame_ev)

lemma frame_getTreeNodeAtIndexFrom [frame_intros]: "sys_frame I \<Longrightarrow> keeps I (getTreeNodeAtIndexFrom E k p)"
  unfolding getTreeNodeAtIndexFrom_def by (intro frame_intros keeps_intros sys_frame_dev dev_frame_sc dev_frame_ev)

lemma frame_removeNode [frame_intros]: "sys_frame I \<Longrightarrow> keeps I (removeNode E i)"
  unfolding removeNode_def by (intro frame_intros keeps_intros sys_frame_dev dev_frame_sc dev_frame_ev)

lemma frame_commitIfNodesWereRemoved [frame_intros]: "sys_frame I \<Longrightarrow> keeps I (commitIfNodesWereRemoved E)"
  unfolding commitIfNodesWereRemoved_def by (intro frame_intros keeps_intros sys_frame_dev dev_frame_sc dev_frame_ev)

lemma frame_findLeaf_from [frame_intros]: "sys_frame I \<Longrightarrow> keeps I (findLeaf_from n E k c)"
proof (induction n arbitrary: c)
  case 0
  show ?case by (subst findLeaf_from.simps, simp only: nat.case) (intro keeps_intros)
next
  case (Suc n)
  then show ?case
    by (subst findLeaf_from.simps, simp only: nat.case) (intro Suc.IH frame_intros keeps_intros)
qed

lemma frame_findLeaf [frame_intros]: "sys_frame I \<Longrightarrow> keeps I (findLeaf E k)"
  unfolding findLeaf_def by (intro frame_intros keeps_intros sys_frame_dev dev_frame_sc dev_frame_ev)

lemma frame_insertIntoLeaf [frame_intros]: "sys_frame I \<Longrightarrow> keeps I (insertIntoLeaf c x)"
  unfolding insertIntoLeaf_def by (intro frame_intros keeps_intros sys_frame_dev dev_frame_sc dev_frame_ev)

lemma frame_insertIntoNode [frame_intros]: "sys_frame I \<Longrightarrow> keeps I (insertIntoNode p l k r)"
  unfolding insertIntoNode_def by (intro frame_intros keeps_intros sys_frame_dev dev_frame_sc dev_frame_ev)

lemma frame_add_locked [frame_intros]: "sys_frame I \<Longrightarrow> keeps I (add_locked E ks)"
  unfolding add_locked_def by (intro frame_intros keeps_intros sys_frame_dev dev_frame_sc dev_frame_ev)

lemma frame_insertIntoNewRoot [frame_intros]: "sys_frame I \<Longrightarrow> keeps I (insertIntoNewRoot E l k r)"
  unfolding insertIntoNewRoot_def by (intro frame_intros keeps_intros sys_frame_dev dev_frame_sc dev_frame_ev)

lemma frame_insertIntoParent [frame_intros]: "sys_frame I \<Longrightarrow> keeps I (insertIntoParent n E l k r)"
proof (induction n arbitrary: l k r)
  case 0
  then show ?case
    by (subst insertIntoParent.simps, simp only: nat.case) (intro frame_intros keeps_intros)
next
  case (Suc n)
  then show ?case
    by (subst insertIntoParent.simps, simp only: nat.case) (intro Suc.IH frame_intros keeps_intros)
qed

lemma frame_insertIntoLeafAfterSplitting [frame_intros]: "sys_frame I \<Longrightarrow> keeps I (insertIntoLeafAfterSplitting E c x)"
  unfolding insertIntoLeafAfterSplitting_def by (intro frame_intros keeps_intros sys_frame_dev dev_frame_sc dev_frame_ev)

lemma frame_insertInode [frame_intros]: "sys_frame I \<Longrightarrow> keeps I (insertInode E x)"
  unfolding insertInode_def by (intro frame_intros keeps_intros sys_frame_dev dev_frame_sc dev_frame_ev)

lemma frame_updateExistingInode [frame_intros]: "sys_frame I \<Longrightarrow> keeps I (updateExistingInode E x)"
  unfolding updateExistingInode_def by (intro frame_intros keeps_intros sys_frame_dev dev_frame_sc dev_frame_ev)

lemma frame_adjustRoot [frame_intros]: "sys_frame I \<Longrightarrow> keeps I (adjustRoot E i)"
  unfolding adjustRoot_def by (intro frame_intros keeps_intros sys_frame_dev dev_frame_sc dev_frame_ev)

lemma frame_redistributeNodes [frame_intros]: "sys_frame I \<Longrightarrow> keeps I (redistributeNodes i nb p b k x)"
  unfolding redistributeNodes_def by (intro frame_intros keeps_intros sys_frame_dev dev_frame_sc dev_frame_ev)

lemma frame_merge_nodes [frame_intros]: "sys_frame I \<Longrightarrow> keeps I (merge_nodes E a b k)"
  unfolding merge_nodes_def by (intro frame_intros keeps_intros sys_frame_dev dev_frame_sc dev_frame_ev)

lemma frame_deleteEntry [frame_intros]: "sys_frame I \<Longrightarrow> keeps I (deleteEntry n E i k)"
proof (induction n arbitrary: i k)
  case 0
  then show ?case
    by (subst deleteEntry.simps, simp only: nat.case) (intro frame_intros keeps_intros)
next
  case (Suc n)
  then show ?case
    by (subst deleteEntry.simps, simp only: nat.case) (intro Suc.IH frame_intros keeps_intros)
qed

lemma frame_deleteInode [frame_intros]: "sys_frame I \<Longrightarrow> keeps I (deleteInode E no)"
  unfolding deleteInode_def by (intro frame_intros keeps_intros sys_frame_dev dev_frame_sc dev_frame_ev)

lemma frame_btree_apply [frame_intros]: "sys_frame I \<Longrightarrow> keeps I (btree_apply E e)"
  unfolding btree_apply_def by (cases e; simp only: Entry.case; intro frame_intros keeps_intros; assumption)

lemma frame_tree_find [frame_intros]: "sys_frame I \<Longrightarrow> keeps I (tree_find E k)"
  unfolding tree_find_def by (intro frame_intros keeps_intros sys_frame_dev dev_frame_sc dev_frame_ev)

lemma frame_getInode [frame_intros]: "sys_frame I \<Longrightarrow> keeps I (getInode E k)"
  unfolding getInode_def by (intro frame_intros keeps_intros sys_frame_dev dev_frame_sc dev_frame_ev)

lemma frame_btree_processEntry [frame_intros]: "sys_frame I \<Longrightarrow> keeps I (btree_processEntry E e p)"
  unfolding btree_processEntry_def by (intro frame_intros keeps_intros sys_frame_dev dev_frame_sc dev_frame_ev)

lemma frame_set_bt [frame_intros]: "sys_frame I \<Longrightarrow> keeps I (modify (\<lambda>s. s\<lparr>bt := B s\<rparr>))"
  by (rule sys_frame_modify) simp_all

lemma frame_btree_preScan [frame_intros]: "sys_frame I \<Longrightarrow> keeps I (btree_preScan e p)"
  unfolding btree_preScan_def by (intro frame_intros keeps_intros sys_frame_dev dev_frame_sc dev_frame_ev)

lemma frame_btree_resetState [frame_intros]: "sys_frame I \<Longrightarrow> keeps I (btree_resetState E)"
  unfolding btree_resetState_def by (intro frame_intros keeps_intros sys_frame_dev dev_frame_sc dev_frame_ev)

lemma frame_readAddrList [frame_intros]: "sys_frame I \<Longrightarrow> keeps I (readAddrList E a l)"
  unfolding readAddrList_def by (intro frame_intros keeps_intros sys_frame_dev dev_frame_sc dev_frame_ev)

lemma frame_writeAddrList [frame_intros]: "sys_frame I \<Longrightarrow> keeps I (writeAddrList E a l)"
  unfolding writeAddrList_def by (intro frame_intros keeps_intros sys_frame_dev dev_frame_sc dev_frame_ev)

lemma frame_loadCacheElem [frame_intros]: "sys_frame I \<Longrightarrow> keeps I (loadCacheElem E a c d)"
  unfolding loadCacheElem_def by (intro frame_intros keeps_intros sys_frame_dev dev_frame_sc dev_frame_ev)

lemma frame_writeCacheElem [frame_intros]: "sys_frame I \<Longrightarrow> keeps I (writeCacheElem E a c d)"
  unfolding writeCacheElem_def by (intro frame_intros keeps_intros sys_frame_dev dev_frame_sc dev_frame_ev)

lemma frame_commitElem [frame_intros]: "sys_frame I \<Longrightarrow> keeps I (commitElem E c d)"
  unfolding commitElem_def by (intro frame_intros keeps_intros sys_frame_dev dev_frame_sc dev_frame_ev)

lemma frame_commitPath [frame_intros]: "sys_frame I \<Longrightarrow> keeps I (commitPath E n c)"
  unfolding commitPath_def by (intro frame_intros keeps_intros sys_frame_dev dev_frame_sc dev_frame_ev)

lemma frame_commit_chains [frame_intros]: "sys_frame I \<Longrightarrow> keeps I (commit_chains E n)"
  unfolding commit_chains_def by (intro frame_intros keeps_intros sys_frame_dev dev_frame_sc dev_frame_ev)

lemma frame_pac_commit [frame_intros]: "sys_frame I \<Longrightarrow> keeps I (pac_commit E)"
  unfolding pac_commit_def by (intro frame_intros keeps_intros sys_frame_dev dev_frame_sc dev_frame_ev)

lemma frame_setTargetInode [frame_intros]: "sys_frame I \<Longrightarrow> keeps I (setTargetInode E p)"
  unfolding setTargetInode_def by (intro frame_intros keeps_intros sys_frame_dev dev_frame_sc dev_frame_ev)

lemma frame_setJournallingInode [frame_intros]: "sys_frame I \<Longrightarrow> keeps I (setJournallingInode E no)"
  unfolding setJournallingInode_def by (intro frame_intros keeps_intros sys_frame_dev dev_frame_sc dev_frame_ev)

lemma frame_load_level [frame_intros]: "sys_frame I \<Longrightarrow> keeps I (load_level E c l d)"
  unfolding load_level_def by (intro frame_intros keeps_intros sys_frame_dev dev_frame_sc dev_frame_ev)

lemma frame_loadPath [frame_intros]: "sys_frame I \<Longrightarrow> keeps I (loadPath E a n c)"
  unfolding loadPath_def by (intro frame_intros keeps_intros sys_frame_dev dev_frame_sc dev_frame_ev)

lemma frame_set_indirect [frame_intros]: "sys_frame I \<Longrightarrow> keeps I (set_indirect E n p a)"
  unfolding set_indirect_def by (intro frame_intros keeps_intros sys_frame_dev dev_frame_sc dev_frame_ev)

lemma frame_setPage [frame_intros]: "sys_frame I \<Longrightarrow> keeps I (setPage E p a)"
  unfolding setPage_def by (intro frame_intros keeps_intros sys_frame_dev dev_frame_sc dev_frame_ev)

lemma frame_pac_resetState [frame_intros]: "sys_frame I \<Longrightarrow> keeps I (pac_resetState E)"
  unfolding pac_resetState_def by (intro frame_intros keeps_intros sys_frame_dev dev_frame_sc dev_frame_ev)

lemma frame_dio_resetState [frame_intros]: "sys_frame I \<Longrightarrow> keeps I (dio_resetState E)"
  unfolding dio_resetState_def by (intro frame_intros keeps_intros sys_frame_dev dev_frame_sc dev_frame_ev)

lemma frame_dev_resetState [frame_intros]: "sys_frame I \<Longrightarrow> keeps I (dev_resetState )"
  unfolding dev_resetState_def by (intro frame_intros keeps_intros sys_frame_dev dev_frame_sc dev_frame_ev)

lemma frame_pac_processEntry [frame_intros]: "sys_frame I \<Longrightarrow> keeps I (pac_processEntry E e p)"
  unfolding pac_processEntry_def
  by (cases e; simp only: Entry.case; intro frame_intros keeps_intros; assumption)

lemma frame_dio_processEntry [frame_intros]: "sys_frame I \<Longrightarrow> keeps I (dio_processEntry E e p)"
  unfolding dio_processEntry_def
  by (cases e; simp only: Entry.case; intro frame_intros keeps_intros; assumption)

lemma frame_dev_processEntry [frame_intros]: "sys_frame I \<Longrightarrow> keeps I (dev_processEntry e)"
  unfolding dev_processEntry_def by (cases e; simp only: Entry.case; intro frame_intros keeps_intros; assumption)

subsection \<open>The topics\<close>

lemma keeps_modify_store:
  "(\<And>s. mram (f s) = mram s \<and> jr (f s) = jr s) \<Longrightarrow> keeps (store_is m j) (modify f)"
  by (rule keeps_modify) (simp add: store_is_def)

lemma keeps_setters_store:
  "keeps (store_is m j) (set_tc f)" "keeps (store_is m j) (set_pac g)" "keeps (store_is m j) (set_dio h)"
  "keeps (store_is m j) (set_fls k)" "keeps (store_is m j) (set_inode p x)"
  by (simp_all add: set_tc_def set_pac_def set_dio_def set_fls_def set_inode_def keeps_modify_store)

text \<open>A reset does not write to the journal, enabled or not.\<close>

lemma keeps_resets:
  "keeps (store_is m j) (btree_resetState E)" "keeps (store_is m j) (dio_resetState E)"
  "keeps (store_is m j) (pac_resetState E)" "keeps (store_is m j) dev_resetState"
  unfolding btree_resetState_def dio_resetState_def pac_resetState_def dev_resetState_def clear_machine_def
  by (intro keeps_intros keeps_setters_store keeps_modify_store; simp add: pac_machine_def dio_machine_def)+

text \<open>What the device registers.\<close>

lemma device_topics_cases:
  "device_topics n E Tp_superblock = Some (superblock_topic E)"
  "device_topics n E Tp_areaMgmt = Some (areaMgmt_topic E)"
  "device_topics n E Tp_garbage = Some (garbage_topic E)"
  "device_topics n E Tp_summaryCache = Some (summary_topic E)"
  "device_topics n E Tp_tree = Some (tree_topic E)"
  "device_topics n E Tp_dataIO = Some (dio_topic E)"
  "device_topics n E Tp_pac = Some (pac_topic E)"
  "device_topics n E Tp_device = Some (device_topic n E)"
  "device_topics n E Tp_invalid = None" "device_topics n E Tp_checkpoint = None" "device_topics n E Tp_pagestate = None"
  by (simp_all add: device_topics_def dev_topics_def)

lemma topic_reset_quiet:
  "device_topics n E t = Some h \<Longrightarrow> keeps (store_is m j) (tp_reset h)"
  by (cases t)
    (auto simp: device_topics_cases superblock_topic_def areaMgmt_topic_def garbage_topic_def summary_topic_def
      tree_topic_def dio_topic_def pac_topic_def device_topic_def intro!: keeps_resets keeps_return keeps_modify_store)

lemma topic_preScan_quiet:
  assumes "device_topics n E t = Some h" and "disabled j"
  shows "keeps (store_is m j) (tp_preScan h e p)"
  using assms(1) store_is_frame [OF assms(2)] store_is_sys_frame [OF assms(2)]
  by (cases t)
    (auto simp: device_topics_cases superblock_topic_def areaMgmt_topic_def garbage_topic_def summary_topic_def
      tree_topic_def dio_topic_def pac_topic_def device_topic_def intro!: frame_intros keeps_return)

lemma topic_process_quiet:
  assumes "device_topics n E t = Some h" and "disabled j"
  shows "keeps (store_is m j) (tp_process h e p)"
  using assms(1) store_is_frame [OF assms(2)] store_is_sys_frame [OF assms(2)]
  by (cases t)
    (auto simp: device_topics_cases superblock_topic_def areaMgmt_topic_def garbage_topic_def summary_topic_def
      tree_topic_def dio_topic_def pac_topic_def device_topic_def
      intro!: frame_intros keeps_return keeps_bind keeps_gets keeps_modify_store)

text \<open>All the topics of the device obey the rule.\<close>

interpretation replay: journal_topics "device_topics n E" for n :: nat and E :: "'f env"
  by standard (rule topic_reset_quiet topic_preScan_quiet topic_process_quiet; assumption)+

end
