(* ===== verification/ReplayProperties.thy ===== *)
theory ReplayProperties
  imports ReplayHandlers ExampleDevice
begin

text \<open>
  The properties of the replay of the journal: it refines the specification over the list of
  entries, and what it does to the area map.
\<close>

subsection \<open>A device with a log\<close>

definition ex_log_dev :: "Entry list \<Rightarrow> ram_flash dev" where
  "ex_log_dev l = ex_dev\<lparr>mram := put_bytes 0 (le_bytes 4 (log_end l)) (put_bytes 4 (enc l) (\<lambda>_. 0))\<rparr>"

lemma ex_log_holds:
  assumes "list_all (loggable 3) l" and "log_end l \<le> 1024"
  shows "mram_holds ex_env (ex_log_dev l) l 0"
proof -
  have "seg (mram (ex_log_dev l)) 0 4 = le_bytes 4 (log_end l)"
    using seg_put_same [of 0 "le_bytes 4 (log_end l)"] by (simp add: ex_log_dev_def)
  moreover have "seg (mram (ex_log_dev l)) 4 (length (enc l)) = enc l"
    by (simp add: ex_log_dev_def seg_put_other)
  ultimately show ?thesis
    using assms by (simp add: mram_holds_def) (simp add: ex_log_dev_def ex_dev_def log_end_def)
qed

subsection \<open>Refinement\<close>

text \<open>
  C1: the replay of the whole device does what its specification says. For a log in the MRAM that holds
  the entries \<open>l\<close>, each of a registered topic, \<open>processBuffer\<close> with the topics that the constructor of the
  device registers (superblock, area management, garbage collection, summary cache, B+ tree, data
  I/O, page address cache, device) ends, succeeds, and has the effect of \<open>replay_spec\<close> on the whole
  device: every topic prescans its entries and those it asks for, then exactly the entries behind
  the last checkpoint of a topic are handed to it in the order of the log, and the end of the log
  is signalled to all. The log holds no \<open>AreaMapPosition\<close> entry, whose size the journal computes wrongly.
\<close>

theorem processBuffer_replays:
  assumes "mram_holds E s l k" and "log_valid (device_topics n E) l"
  shows "run_state (processBuffer E (device_topics n E)) s =
    (Some R_ok, snd (run_state (replay_spec (device_topics n E) l) s))"
  by (rule replay.replay_correct [OF assms])

definition ex_log :: "Entry list" where
  "ex_log = [CloseArea 2, Checkpoint Tp_areaMgmt, SummarySetStatus 3 0 SE_used, MkObjInode 5, TreeInsert zero_inode,
     ReplacePage Tp_tree 65537 0, NewInodeSize 5 7, PacSetAddress 5 0 65538, TreeRemove 0]"

lemma ex_log_dev_holds: "mram_holds ex_env (ex_log_dev ex_log) ex_log 0"
  unfolding ex_log_def by (rule ex_log_holds) (simp_all add: loggable_def log_end_def hdr_Cons zero_inode_def
      inode_ok_def length_inode_bytes directAddrCount_def)

theorem processBuffer_replays_witness:
  "run_state (processBuffer ex_env (device_topics 8 ex_env)) (ex_log_dev ex_log) =
    (Some R_ok, snd (run_state (replay_spec (device_topics 8 ex_env) ex_log) (ex_log_dev ex_log)))"
  by (rule processBuffer_replays [OF ex_log_dev_holds])
    (simp add: ex_log_def log_valid_def device_topics_cases)

subsection \<open>The area map\<close>

definition superblock_apply :: "'f env \<Rightarrow> Entry \<Rightarrow> superblock \<Rightarrow> superblock" where
  "superblock_apply E e B =
     (case e of
        Rootnode a \<Rightarrow> if a = mRootnodeAddr B then B else B\<lparr>mRootnodeAddr := a, mRootnodeDirty := True\<rparr>
      | AreaMapType a t \<Rightarrow> sb_type E a t B
      | AreaMapStatus a st \<Rightarrow> sb_status E a st B
      | AreaMapIncreaseErasecount a \<Rightarrow> sb_erased E a B
      | AreaMapPosition a p \<Rightarrow> if a \<ge> areasNo E then B else upd_area a (\<lambda>r. r\<lparr>a_position := p\<rparr>) B
      | AreaMapSwap a b \<Rightarrow> sb_swap E a b B
      | ActiveArea t a \<Rightarrow> sb_active t a B
      | UsedAreas n \<Rightarrow> sb_used n B
      | _ \<Rightarrow> B)"

text \<open>The second half of the specification: the pass that hands out the entries, and the end of the log.\<close>

definition replay_entries :: "'f dev topics \<Rightarrow> Entry list \<Rightarrow> ('f dev, unit) state" where
  "replay_entries T l = do {
     set_cursor l 0;
     for_each [0 ..< length l] (spec_apply T l);
     set_jr (\<lambda>j. j\<lparr>disabled := False\<rparr>)
   }"

definition signal_topics :: "'f dev topics \<Rightarrow> ('f dev, unit) state" where
  "signal_topics T = with_topics T (\<lambda>t h. tp_signal h)"

definition idle :: "'f dev \<Rightarrow> bool" where
  "idle s \<longleftrightarrow> \<not> mUnfinishedTransaction (am s) \<and> gc_state (gc s) = Gc_ok"

lemmas topic_defs = superblock_topic_def areaMgmt_topic_def garbage_topic_def summary_topic_def tree_topic_def
  dio_topic_def pac_topic_def device_topic_def

lemma superblock_preScan_step: "sb_step (superblock_apply E e) (superblock_preScan E e)"
  unfolding superblock_preScan_def
  by (cases e)
    (auto simp: superblock_apply_def [abs_def] registerRootnode_def setPos_def sb_step_def Let_def
      sb_steps [unfolded sb_step_def Let_def])

lemma superblock_apply_other: "entry_topic e \<noteq> Tp_superblock \<Longrightarrow> superblock_apply E e B = B"
  by (cases e) (simp_all add: superblock_apply_def)

text \<open>The part of the state that decides which entries of the superblock a topic asks for.\<close>

definition core_is :: "superblock \<Rightarrow> area_mgmt \<Rightarrow> garbage_coll \<Rightarrow> 'f dev \<Rightarrow> bool" where
  "core_is B A G s \<longleftrightarrow> sb s = B \<and> am s = A \<and> gc s = G"

lemma keeps_core_modify:
  "(\<And>s. sb (f s) = sb s \<and> am (f s) = am s \<and> gc (f s) = gc s) \<Longrightarrow> keeps (core_is B A G) (modify f)"
  by (rule keeps_modify) (simp add: core_is_def)

lemma keeps_core_setters:
  "keeps (core_is B A G) (set_tc f)" "keeps (core_is B A G) (set_pac g)" "keeps (core_is B A G) (set_dio h)"
  "keeps (core_is B A G) (set_fls k)" "keeps (core_is B A G) (set_inode p x)" "keeps (core_is B A G) (set_sc c)"
  by (simp_all add: set_tc_def set_pac_def set_dio_def set_fls_def set_inode_def set_sc_def keeps_core_modify)

lemma preScan_core:
  assumes "device_topics n E t = Some h" and "t \<noteq> Tp_superblock"
  shows "keeps (core_is B A G) (tp_preScan h e p)"
  using assms
  by (cases t) (auto simp: device_topics_cases topic_defs btree_preScan_def
      intro!: keeps_core_setters keeps_return keeps_whenM keeps_core_modify)

text \<open>The superblock is the first topic that is registered.\<close>

definition later_topics :: "Topic list" where
  "later_topics = [Tp_areaMgmt, Tp_garbage, Tp_summaryCache, Tp_tree, Tp_dataIO, Tp_pac, Tp_device]"

lemma all_topics_later: "all_topics = [Tp_invalid, Tp_checkpoint, Tp_pagestate, Tp_superblock] @ later_topics"
  by (simp add: all_topics_def later_topics_def)

lemma prescan_topics_core:
  "\<exists>f. run_state (prescan_topics (device_topics n E) e) s =
      run_state f (snd (run_state (whenM (entry_topic e = Tp_superblock) (superblock_preScan E e)) s)) \<and>
    (\<forall>B A G. keeps (core_is B A G) f)"
proof -
  let ?T = "device_topics n E"
  let ?f = "\<lambda>t. case ?T t of None \<Rightarrow> ret () | Some h \<Rightarrow> do {
     b \<leftarrow> gets (tp_interested h e);
     p \<leftarrow> gets mram_tell;
     whenM (t = entry_topic e \<or> b) (tp_preScan h e p)
   }"
  have "run_state (prescan_topics ?T e) s =
      run_state (for_each later_topics ?f) (snd (run_state (whenM (entry_topic e = Tp_superblock) (superblock_preScan E e)) s))"
    unfolding prescan_topics_def with_topics_def all_topics_later
    by (simp add: device_topics_cases topic_defs(1) split_beta eq_commute)
  moreover have "keeps (core_is B A G) (for_each later_topics ?f)" for B A G
    by (intro keeps_intros preScan_core) (auto simp: later_topics_def)
  ultimately show ?thesis by blast
qed

lemma prescan_sb:
  assumes "core_is B A G s"
  shows "core_is (superblock_apply E e B) A G (snd (run_state (prescan_topics (device_topics n E) e) s))"
proof -
  let ?u = "snd (run_state (whenM (entry_topic e = Tp_superblock) (superblock_preScan E e)) s)"
  obtain f where f: "run_state (prescan_topics (device_topics n E) e) s = run_state f ?u"
    and k: "\<And>B A G. keeps (core_is B A G) f"
    using prescan_topics_core [of n E e s] by blast
  have "core_is (superblock_apply E e B) A G ?u"
    using assms sb_stepD [OF superblock_preScan_step [of E e]] superblock_apply_other [of e E]
    by (simp add: core_is_def)
  from keeps_snd [OF k this] show ?thesis by (simp add: f)
qed

lemma prescan_pass:
  assumes "core_is B A G s"
  shows "core_is (fold (superblock_apply E) l B) A G
    (snd (run_state (for_each [0 ..< length l] (spec_prescan (device_topics n E) l)) s))"
proof -
  let ?J = "\<lambda>i. core_is (fold (superblock_apply E) (take i l) B) A G"
  have "?J (length l) (snd (run_state (for_each [0 ..< length l] (spec_prescan (device_topics n E) l)) s))"
  proof (rule for_each_index)
    show "?J 0 s" using assms by simp
  next
    fix i and u :: "'a dev"
    assume i: "i < length l" and u: "?J i u"
    let ?u = "snd (run_state (set_cursor l (Suc i)) u)"
    have u': "?J i ?u" using u by (simp add: core_is_def)
    have same: "superblock_apply E (l ! i) C = C" if "entry_topic (l ! i) \<in> {Tp_checkpoint, Tp_pagestate}" for C
      using that by (intro superblock_apply_other) auto
    show "?J (Suc i) (snd (run_state (spec_prescan (device_topics n E) l i) u))"
      using u' prescan_sb [OF u', of E "l ! i" n] same i
      by (simp add: spec_prescan_def take_Suc_conv_app_nth split_beta)
  qed
  then show ?thesis by simp
qed

text \<open>The second pass over a log of superblock entries: only the tree asks for one, and notes it.\<close>

lemma idle_step:
  assumes "device_topics n E t = Some h" and "entry_topic e = Tp_superblock"
    and "\<not> mUnfinishedTransaction A" "gc_state G = Gc_ok"
  shows "keeps (core_is B A G) (do {
     b \<leftarrow> gets (tp_interested h e);
     p \<leftarrow> gets mram_tell;
     whenM (b \<and> act t p) (do { _ \<leftarrow> tp_process h e p; ret () })
   })"
proof (cases "t = Tp_tree")
  case True
  have "keeps (core_is B A G) (btree_processEntry E e p)" for p
    using assms(2) unfolding btree_processEntry_def machine_processEntry_def
    by (cases e) (auto simp: tree_machine_def intro!: keeps_intros keeps_core_modify)
  then show ?thesis
    using True assms(1) by (auto simp: device_topics_cases topic_defs intro!: keeps_intros)
next
  case False
  have "\<not> tp_interested h e s" if "core_is B A G s" for s
    using that assms False
    by (cases t; cases e) (auto simp: device_topics_cases topic_defs core_is_def areaMgmt_isInterestedIn_def
      gc_isInterestedIn_def dio_isInterestedIn_def pac_isInterestedIn_def)
  then show ?thesis by (auto simp: keeps_def)
qed

lemma dispatch_core:
  assumes "entry_topic e = Tp_superblock" and "\<not> mUnfinishedTransaction A" "gc_state G = Gc_ok"
  shows "keeps (core_is B A G) (dispatch_entry (device_topics n E) act e)"
proof -
  have t: "entry_target e = Tp_superblock" using assms(1) by (cases e) simp_all
  have "keeps (core_is B A G) (tp_process (superblock_topic E) e p)" for p
    by (simp add: topic_defs keeps_return)
  then show ?thesis
    unfolding dispatch_entry_def t device_topics_cases option.case
    by (intro keeps_bind keeps_gets keeps_whenM keeps_return keeps_with_topics keeps_if idle_step assms)
      (auto intro: idle_step)
qed

lemma entries_pass:
  assumes "core_is B A G s" and "\<not> mUnfinishedTransaction A" "gc_state G = Gc_ok"
    and l: "list_all (\<lambda>e. entry_topic e \<in> {Tp_superblock, Tp_checkpoint}) l"
  shows "core_is B A G (snd (run_state (replay_entries (device_topics n E) l) s))"
proof -
  have step: "keeps (core_is B A G) (spec_apply (device_topics n E) l i)" if "i < length l" for i
  proof -
    have "entry_topic (l ! i) = Tp_checkpoint \<or> entry_topic (l ! i) = Tp_superblock"
      using that l by (auto simp: list_all_length)
    then show ?thesis
      unfolding spec_apply_def set_cursor_def set_jr_def
      by (intro keeps_bind keeps_core_modify keeps_if keeps_return dispatch_core [OF _ assms(2,3)]) auto
  qed
  have "keeps (core_is B A G) (replay_entries (device_topics n E) l)"
    unfolding replay_entries_def set_cursor_def set_jr_def
    by (intro keeps_bind keeps_core_modify keeps_for_each step) auto
  from keeps_snd [OF this assms(1)] show ?thesis .
qed

lemma reset_core:
  obtains A G where "core_is (sb s) A G (snd (run_state (with_topics (device_topics n E) (\<lambda>t h. tp_reset h)) s))"
    and "\<not> mUnfinishedTransaction A" "gc_state G = Gc_ok"
proof -
  let ?T = "device_topics n E"
  let ?f = "\<lambda>t. case ?T t of None \<Rightarrow> ret () | Some h \<Rightarrow> tp_reset h"
  let ?rest = "[Tp_summaryCache, Tp_tree, Tp_dataIO, Tp_pac, Tp_device]"
  let ?u = "s\<lparr>am := areaMgmt_resetState (am s), gc := gc_resetState (gc s)\<rparr>"
  let ?J = "core_is (sb s) (areaMgmt_resetState (am s)) (gc_resetState (gc s))"
  have "run_state (with_topics ?T (\<lambda>t h. tp_reset h)) s = run_state (for_each ?rest ?f) ?u"
    unfolding with_topics_def all_topics_def
    by (simp add: device_topics_cases superblock_topic_def areaMgmt_topic_def garbage_topic_def)
  moreover have "keeps ?J (btree_resetState E)" "keeps ?J (dio_resetState E)" "keeps ?J (pac_resetState E)"
    "keeps ?J dev_resetState"
    unfolding btree_resetState_def dio_resetState_def pac_resetState_def dev_resetState_def clear_machine_def
    by (intro keeps_bind keeps_core_setters keeps_core_modify; simp add: pac_machine_def dio_machine_def)+
  then have "keeps ?J (for_each ?rest ?f)"
    by (auto simp: device_topics_cases topic_defs intro!: keeps_bind keeps_return)
  moreover have "?J ?u" by (simp add: core_is_def)
  ultimately have "?J (snd (run_state (with_topics ?T (\<lambda>t h. tp_reset h)) s))" using keeps_snd by metis
  then show ?thesis by (rule that) (simp_all add: areaMgmt_resetState_def gc_resetState_def)
qed

text \<open>
  C4: the superblock prescans, so a replay by the topics of the device repeats every area-map entry of
  the log, whatever else the log holds, and those before the checkpoint of the superblock too: the
  state \<open>u\<close> from which the entries are handed out to the topics has the superblock that the area-map
  entries make, in order, of the one that was loaded. When the log has entries of the superblock and
  checkpoints only, that superblock is the one with which the topics meet the end of the log. (A
  superblock that was committed behind a swap, with the log not yet cleared, has the two areas
  exchanged back.) The log holds no \<open>AreaMapPosition\<close> entry, whose size the journal computes wrongly.
\<close>

theorem replay_repeats_area_map:
  fixes s :: "'f dev"
  assumes "mram_holds E s l k" and "log_valid (device_topics n E) l" and "l \<noteq> []"
    and "run_state (processBuffer E (device_topics n E)) s = (r, t)"
  shows "r = Some R_ok \<and> (\<exists>u. sb u = fold (superblock_apply E) l (sb s) \<and>
    t = snd (run_state (do { replay_entries (device_topics n E) l; signal_topics (device_topics n E) }) u) \<and>
    (list_all (\<lambda>e. entry_topic e \<in> {Tp_superblock, Tp_checkpoint}) l \<longrightarrow>
      sb (snd (run_state (replay_entries (device_topics n E) l) u)) = sb u))"
proof -
  let ?T = "device_topics n E"
  obtain A G where reset: "core_is (sb s) A G (snd (run_state (with_topics ?T (\<lambda>t h. tp_reset h)) s))"
    and idle: "\<not> mUnfinishedTransaction A" "gc_state G = Gc_ok"
    by (rule reset_core)
  let ?s0 = "snd (run_state (with_topics ?T (\<lambda>t h. tp_reset h)) s)"
  let ?s1 = "?s0\<lparr>jr := (jr ?s0)\<lparr>curr := log_end [], disabled := True\<rparr>\<rparr>"
  let ?u = "snd (run_state (for_each [0 ..< length l] (spec_prescan ?T l)) ?s1)"
  have "core_is (sb s) A G ?s1" using reset by (simp add: core_is_def)
  from prescan_pass [OF this] have u: "core_is (fold (superblock_apply E) l (sb s)) A G ?u" .
  have "r = Some R_ok" and "t = snd (run_state (replay_spec ?T l) s)"
    using replay.replay_correct [OF assms(1,2)] assms(4) by simp_all
  moreover have "snd (run_state (replay_spec ?T l) s) = snd (run_state (do { replay_entries ?T l; signal_topics ?T }) ?u)"
    using assms(3) by (simp add: replay_spec_def replay_entries_def signal_topics_def split_beta)
  ultimately show ?thesis
    using u entries_pass [OF u idle] by (intro conjI exI [of _ ?u]) (auto simp: core_is_def)
qed

theorem replay_repeats_area_map_witness:
  "\<exists>u t. run_state (processBuffer ex_env (device_topics 8 ex_env)) (ex_log_dev [AreaMapSwap 2 3, Checkpoint Tp_superblock]) =
      (Some R_ok, t) \<and>
    getPos ex_env ex_sb 2 = 2 \<and> getPos ex_env (sb u) 2 = 3 \<and>
    t = snd (run_state (signal_topics (device_topics 8 ex_env)) u)"
proof -
  let ?l = "[AreaMapSwap 2 3, Checkpoint Tp_superblock]" and ?T = "device_topics 8 ex_env"
  have holds: "mram_holds ex_env (ex_log_dev ?l) ?l 0"
    by (rule ex_log_holds) (simp_all add: loggable_def log_end_def hdr_Cons)
  have valid: "log_valid ?T ?l" by (simp add: log_valid_def device_topics_cases)
  obtain u where run: "fst (run_state (processBuffer ex_env ?T) (ex_log_dev ?l)) = Some R_ok"
    and u: "sb u = fold (superblock_apply ex_env) ?l (sb (ex_log_dev ?l))"
    and t: "snd (run_state (processBuffer ex_env ?T) (ex_log_dev ?l)) =
      snd (run_state (do { replay_entries ?T ?l; signal_topics ?T }) u)"
    and v: "sb (snd (run_state (replay_entries ?T ?l) u)) = sb u"
    using replay_repeats_area_map [OF holds valid _ surjective_pairing] by auto
  have "sb u = swap_areas 2 3 ex_sb"
    using u by (simp add: superblock_apply_def sb_swap_def) (simp add: ex_log_dev_def)
  moreover have "getPos ex_env ex_sb 2 = 2" "getPos ex_env (swap_areas 2 3 ex_sb) 2 = 3" by code_simp+
  ultimately show ?thesis using run t v
    by (intro exI [of _ "snd (run_state (replay_entries ?T ?l) u)"]
        exI [of _ "snd (run_state (processBuffer ex_env ?T) (ex_log_dev ?l))"])
      (simp add: split_beta prod_eq_iff)
qed

end
