(* ===== verification/BtreeLeaves.thy ===== *)
theory BtreeLeaves
  imports BtreeDelete
begin

text \<open>
  The array loops of the B+ tree as operations on lists, and what they do to the entries of a leaf
  and to the keys and children of a branch.
\<close>

subsection \<open>Loops in closed form\<close>

lemma length_fold_update [simp]: "length (fold (\<lambda>i xs. xs[f i := g i xs]) is xs) = length xs"
  by (induction "is" arbitrary: xs) simp_all

lemma length_loops [simp]:
  "length (shift_up lo hi xs) = length xs" "length (shift_down lo hi xs) = length xs"
  "length (copy_to off src dst) = length dst" "length (with_gap g n x xs) = n + 1"
  by (simp_all add: shift_up_def shift_down_def copy_to_def with_gap_def)

lemma shift_up_nth:
  assumes "lo \<le> hi" and "hi < length xs" and "j < length xs"
  shows "shift_up lo hi xs ! j = (if lo < j \<and> j \<le> hi then xs ! (j - 1) else xs ! j)"
  using assms
proof (induction hi arbitrary: xs rule: nat_induct)
  case 0
  then show ?case by (simp add: shift_up_def)
next
  case (Suc hi)
  show ?case
  proof (cases "lo = Suc hi")
    case True
    then show ?thesis by (auto simp: shift_up_def)
  next
    case False
    let ?ys = "xs[Suc hi := xs ! hi]"
    have "rev [lo + 1 ..< Suc hi + 1] = Suc hi # rev [lo + 1 ..< hi + 1]" using False Suc.prems(1) by simp
    then have "shift_up lo (Suc hi) xs = shift_up lo hi ?ys" by (simp add: shift_up_def)
    then show ?thesis
      using Suc.IH [of ?ys] Suc.prems False by (auto simp: nth_list_update)
  qed
qed

lemma shift_down_nth:
  assumes "hi < length xs" and "j < length xs"
  shows "shift_down lo hi xs ! j = (if lo \<le> j \<and> j < hi then xs ! (j + 1) else xs ! j)"
proof -
  have "\<forall>j<length xs. shift_down lo k xs ! j = (if lo \<le> j \<and> j < k then xs ! (j + 1) else xs ! j)" if "k < length xs" for k
    using that
  proof (induction k)
    case 0
    then show ?case by (simp add: shift_down_def)
  next
    case (Suc k)
    show ?case
    proof (cases "lo \<le> k")
      case True
      then have "shift_down lo (Suc k) xs = (shift_down lo k xs)[k := shift_down lo k xs ! (k + 1)]"
        by (simp add: shift_down_def)
      then show ?thesis using Suc True by (auto simp: nth_list_update)
    next
      case False
      then have "[lo ..< Suc k] = []" by simp
      then show ?thesis using False by (simp only: shift_down_def fold_simps id_apply) auto
    qed
  qed
  then show ?thesis using assms by blast
qed

lemma copy_to_nth:
  assumes "off + length src \<le> length dst" and "j < length dst"
  shows "copy_to off src dst ! j = (if off \<le> j \<and> j < off + length src then src ! (j - off) else dst ! j)"
proof -
  have "fold (\<lambda>i xs. xs[off + i := src ! i]) [0 ..< n] dst ! j =
      (if off \<le> j \<and> j < off + n then src ! (j - off) else dst ! j)" if "off + n \<le> length dst" for n
    using that assms(2) by (induction n) (auto simp: nth_list_update)
  then show ?thesis using assms(1) by (simp add: copy_to_def)
qed

lemma copy_to_eq:
  assumes "off + length src \<le> length dst"
  shows "copy_to off src dst = take off dst @ src @ drop (off + length src) dst"
  by (rule nth_equalityI) (use assms in \<open>auto simp: copy_to_nth nth_append\<close>)

lemma shift_up_eq:
  assumes "lo \<le> hi" and "hi < length xs"
  shows "(shift_up lo hi xs)[lo := x] = take lo xs @ x # take (hi - lo) (drop lo xs) @ drop (Suc hi) xs"
  by (rule nth_equalityI) (use assms in \<open>auto simp: shift_up_nth nth_list_update nth_append nth_Cons' min_def\<close>)

lemma shift_down_eq:
  assumes "lo \<le> hi" and "hi < length xs"
  shows "shift_down lo hi xs = take lo xs @ take (hi - lo) (drop (Suc lo) xs) @ drop hi xs"
proof (rule nth_equalityI)
  have len: "length (take (hi - lo) (drop (Suc lo) xs)) = hi - lo" using assms by simp
  have less: "i - lo < hi - lo \<longleftrightarrow> i < hi" if "\<not> i < lo" for i using that assms by arith
  show "shift_down lo hi xs ! i = (take lo xs @ take (hi - lo) (drop (Suc lo) xs) @ drop hi xs) ! i"
    if "i < length (shift_down lo hi xs)" for i
    using that assms
    by (cases "i < lo"; cases "i < hi") (simp_all add: shift_down_nth nth_append len less)
qed (use assms in simp)

lemma with_gap_eq:
  assumes "g \<le> n" and "n \<le> length xs"
  shows "with_gap g n x xs = take g xs @ x # take (n - g) (drop g xs)"
proof -
  have "fold (\<lambda>i t. t[(if i < g then i else i + 1) := xs ! i]) [0 ..< k] (replicate (n + 1) x) ! j =
      (if j < g \<and> j < k then xs ! j else if g < j \<and> j \<le> k then xs ! (j - 1) else x)"
    if "k \<le> n" "j \<le> n" for k j
    using that by (induction k arbitrary: j) (auto simp: nth_list_update simp del: replicate_Suc)
  then show ?thesis
    by (intro nth_equalityI) (use assms in \<open>auto simp: with_gap_def nth_list_update nth_append nth_Cons' min_def\<close>)
qed

lemma scan_while_props:
  "scan_while P n \<le> n \<and> (\<forall>i < scan_while P n. P i) \<and> (scan_while P n < n \<longrightarrow> \<not> P (scan_while P n))"
proof (cases "List.find (\<lambda>i. \<not> P i) [0 ..< n]")
  case None
  then have "\<forall>i<n. P i" by (simp add: find_None_iff)
  then show ?thesis using None by (simp add: scan_while_def)
next
  case (Some k)
  then obtain i where i: "i < n" "\<not> P i" "k = i" "\<forall>j<i. P j" by (auto simp: find_Some_iff)
  then show ?thesis using Some by (simp add: scan_while_def)
qed

lemmas scan_while_le = scan_while_props [THEN conjunct1]
lemmas scan_while_before = scan_while_props [THEN conjunct2, THEN conjunct1, rule_format]
lemmas scan_while_at = scan_while_props [THEN conjunct2, THEN conjunct2, rule_format]

lemma scan_while_eqI: "k \<le> n \<Longrightarrow> (\<And>i. i < k \<Longrightarrow> P i) \<Longrightarrow> (k < n \<Longrightarrow> \<not> P k) \<Longrightarrow> scan_while P n = k"
  by (metis linorder_neqE_nat order_le_less_trans order_less_le_trans scan_while_at scan_while_before scan_while_le)

section \<open>Leaves\<close>

text \<open>
  What the operations on a leaf do to the sorted list of inodes that it holds: insertion, the two
  halves of a split, removal, and the moves between neighbours.
\<close>

definition leaf_inodes :: "TreeNode \<Rightarrow> Inode list" where
  "leaf_inodes r = take (n_keys r) (n_inode r)"

definition leaf_ok :: "'f env \<Rightarrow> TreeNode \<Rightarrow> bool" where
  "leaf_ok E r \<longleftrightarrow> n_isLeaf r \<and> n_keys r \<le> leafOrder E \<and> length (n_inode r) = leafOrder E \<and>
     length (n_key r) = keySlots E \<and> take (n_keys r) (n_key r) = map i_no (leaf_inodes r) \<and>
     sorted_wrt (<) (map i_no (leaf_inodes r))"

lemma leafOrder_le_slots: "leafOrder E \<le> keySlots E"
  by (simp add: keySlots_def)

lemma leaf_okD:
  assumes "leaf_ok E r"
  shows "n_isLeaf r" "n_keys r \<le> leafOrder E" "length (n_inode r) = leafOrder E" "length (n_key r) = keySlots E"
    "take (n_keys r) (n_key r) = map i_no (leaf_inodes r)" "sorted_wrt (<) (map i_no (leaf_inodes r))"
    "length (leaf_inodes r) = n_keys r" "leafOrder E \<le> length (n_key r)"
  using assms leafOrder_le_slots [of E] by (auto simp: leaf_ok_def leaf_inodes_def)

lemma leaf_nth:
  assumes "leaf_ok E r" and "i < n_keys r"
  shows "n_key r ! i = i_no (leaf_inodes r ! i)" "n_inode r ! i = leaf_inodes r ! i"
proof -
  have "take (n_keys r) (n_key r) ! i = map i_no (leaf_inodes r) ! i" using leaf_okD(5) [OF assms(1)] by simp
  then show "n_key r ! i = i_no (leaf_inodes r ! i)" using assms leaf_okD(7) [OF assms(1)] by simp
  show "n_inode r ! i = leaf_inodes r ! i" using assms by (simp add: leaf_inodes_def)
qed

subsection \<open>Lists sorted by a key\<close>

text \<open>The list with an element at its place, as the code finds it.\<close>

definition put_at :: "nat \<Rightarrow> 'a \<Rightarrow> 'a list \<Rightarrow> 'a list" where
  "put_at i x xs = take i xs @ x # drop i xs"

lemma length_put_at [simp]: "i \<le> length xs \<Longrightarrow> length (put_at i x xs) = length xs + 1"
  by (simp add: put_at_def)

lemma map_put_at: "map f (put_at i x xs) = put_at i (f x) (map f xs)"
  by (simp add: put_at_def take_map drop_map)

lemma put_at_insort:
  assumes "sorted_wrt (<) (map f xs)" and "i \<le> length xs" and "\<forall>j<i. f (xs ! j) < (f x :: nat)"
    and "i < length xs \<Longrightarrow> \<not> f (xs ! i) < f x"
  shows "put_at i x xs = insort_key f x xs"
proof -
  have mono: "f (xs ! i) \<le> f (xs ! j)" if "i \<le> j" "j < length xs" for j
    using sorted_wrt_nth_less [OF assms(1), of i j] that by (cases "i = j") auto
  have ge: "f x \<le> f y" if y: "y \<in> set (drop i xs)" for y
  proof -
    obtain k where k: "k < length (drop i xs)" "y = drop i xs ! k" 
      using y in_set_conv_nth [of y "drop i xs"] by blast
    then have "i + k < length xs" "i < length xs" by simp_all
    then have "f (xs ! i) \<le> f (xs ! (i + k))" and "f x \<le> f (xs ! i)" using mono assms(4) by (simp_all add: not_less)
    then show ?thesis using k by simp
  qed
  then have tail: "insort_key f x (drop i xs) = x # drop i xs" by (cases "drop i xs") auto
  have "insort_key f x (us @ drop i xs) = us @ x # drop i xs" if "\<forall>u\<in>set us. f u < f x" for us
    using that tail by (induction us) auto
  moreover have "\<forall>u\<in>set (take i xs). f u < f x" using assms(2,3) by (auto simp: in_set_conv_nth)
  ultimately have "insort_key f x (take i xs @ drop i xs) = take i xs @ x # drop i xs" by blast
  then show ?thesis by (simp add: put_at_def)
qed

lemma sorted_wrt_insort:
  assumes "sorted_wrt (<) (map f xs)" and "f x \<notin> f ` set xs"
  shows "sorted_wrt (<) (map f (insort_key f x xs) :: nat list)"
  using assms by (induction xs) (auto simp: set_insort_key)

lemma sorted_wrt_pieces:
  assumes "sorted_wrt (<) (map f xs)"
  shows "sorted_wrt (<) (map f (take n xs) :: nat list)" "sorted_wrt (<) (map f (drop n xs))"
  using sorted_wrt_take [OF assms] sorted_wrt_drop [OF assms] by (simp_all add: take_map drop_map)

subsection \<open>Insertion\<close>

lemma insertion_point_props:
  assumes "leaf_ok E r" and ip_def: "ip = insertion_point key (n_keys r) r"
  shows "ip \<le> n_keys r" "\<forall>j<ip. i_no (leaf_inodes r ! j) < key" "ip < n_keys r \<Longrightarrow> \<not> i_no (leaf_inodes r ! ip) < key"
proof -
  show le: "ip \<le> n_keys r" by (simp add: ip_def insertion_point_def scan_while_le)
  show "\<forall>j<ip. i_no (leaf_inodes r ! j) < key"
    using scan_while_before [of _ "\<lambda>i. n_key r ! i < key" "n_keys r"] leaf_nth(1) [OF assms(1)] le
    by (auto simp: ip_def insertion_point_def)
  show "\<not> i_no (leaf_inodes r ! ip) < key" if "ip < n_keys r"
    using scan_while_at [of "\<lambda>i. n_key r ! i < key" "n_keys r"] leaf_nth(1) [OF assms(1) that] that
    by (simp add: ip_def insertion_point_def)
qed

lemma insertion_point_insort:
  assumes "leaf_ok E r"
  shows "put_at (insertion_point (i_no x) (n_keys r) r) x (leaf_inodes r) = insort_key i_no x (leaf_inodes r)"
  using put_at_insort [of i_no "leaf_inodes r"] insertion_point_props [OF assms refl] leaf_okD [OF assms] by simp

lemma shift_in_eq:
  assumes "ip \<le> n" and "n < length xs"
  shows "take (n + 1) ((shift_up ip n xs)[ip := x]) = put_at ip x (take n xs)"
  using assms by (simp add: shift_up_eq put_at_def take_drop min_def Suc_diff_le)

lemma leaf_insert_inodes:
  assumes "leaf_ok E r" and "n_keys r < leafOrder E"
  shows "leaf_inodes (leaf_insert x r) = insort_key i_no x (leaf_inodes r)"
  using shift_in_eq [of "insertion_point (i_no x) (n_keys r) r" "n_keys r" "n_inode r" x]
    insertion_point_props(1) [OF assms(1) refl] insertion_point_insort [OF assms(1), of x] leaf_okD(3) [OF assms(1)] assms(2)
  by (simp add: leaf_inodes_def leaf_insert_def Let_def)

lemma leaf_insert_ok:
  assumes "leaf_ok E r" and "n_keys r < leafOrder E" and "i_no x \<notin> i_no ` set (leaf_inodes r)"
  shows "leaf_ok E (leaf_insert x r)"
proof -
  let ?ip = "insertion_point (i_no x) (n_keys r) r" and ?r = "leaf_insert x r"
  have n: "n_keys ?r = n_keys r + 1" by (simp add: leaf_insert_def Let_def)
  have "take (n_keys r + 1) (n_key ?r) = put_at ?ip (i_no x) (take (n_keys r) (n_key r))"
    using shift_in_eq [of ?ip "n_keys r" "n_key r" "i_no x"] insertion_point_props(1) [OF assms(1) refl]
      leaf_okD(8) [OF assms(1)] assms(2) by (simp add: leaf_insert_def Let_def)
  also have "\<dots> = map i_no (put_at ?ip x (leaf_inodes r))"
    using leaf_okD(5) [OF assms(1)] by (simp add: map_put_at)
  finally have keys: "take (n_keys ?r) (n_key ?r) = map i_no (leaf_inodes ?r)"
    by (simp add: n insertion_point_insort [OF assms(1)] leaf_insert_inodes [OF assms(1,2)])
  have "sorted_wrt (<) (map i_no (leaf_inodes ?r))"
    unfolding leaf_insert_inodes [OF assms(1,2)]
    by (rule sorted_wrt_insort) (use leaf_okD(6) [OF assms(1)] assms(3) in simp_all)
  then show ?thesis
    using leaf_okD(1-4) [OF assms(1)] assms(2) keys n by (simp add: leaf_ok_def leaf_insert_def Let_def)
qed

subsection \<open>Splitting\<close>

lemma cut_le: "cut n \<le> n"
  by (auto simp: cut_def)

lemma copy_prefix:
  assumes "length src \<le> length dst"
  shows "copy_to 0 src dst = src @ drop (length src) dst"
  using assms copy_to_eq [of 0 src dst] by simp

lemma filled_take:
  assumes "n + k \<le> length dst" and "length src = n"
  shows "take n (copy_to n (replicate k z) (copy_to 0 src dst)) = src"
  using assms by (simp add: copy_prefix copy_to_eq)

lemma split_leaf_parts:
  assumes ok: "leaf_ok E r" and full: "n_keys r = leafOrder E" and pos: "0 < leafOrder E" and new: "raw (zero_node E) = new"
    and x: "i_no x \<notin> i_no ` set (leaf_inodes r)" and split: "split_leaf E x r new = (a, b)"
  shows "leaf_inodes a = take (cut (leafOrder E)) (insort_key i_no x (leaf_inodes r)) \<and>
     leaf_inodes b = drop (cut (leafOrder E)) (insort_key i_no x (leaf_inodes r)) \<and> leaf_ok E a \<and> leaf_ok E b"
proof -
  let ?lo = "leafOrder E" and ?c = "cut (leafOrder E)"
  let ?ip = "insertion_point (i_no x) ?lo r" and ?L = "insort_key i_no x (leaf_inodes r)"
  note facts = leaf_okD [OF ok]
  have ip: "?ip \<le> ?lo" using insertion_point_props(1) [OF ok refl] full by simp
  have inodes: "with_gap ?ip (n_keys r) x (n_inode r) = ?L"
    using with_gap_eq [of ?ip ?lo "n_inode r" x] insertion_point_insort [OF ok, of x] ip full facts(3)
    by (simp add: put_at_def leaf_inodes_def take_drop drop_take)
  have keys: "with_gap ?ip (n_keys r) (i_no x) (n_key r) = map i_no ?L"
  proof -
    have "with_gap ?ip ?lo (i_no x) (n_key r) = put_at ?ip (i_no x) (take ?lo (n_key r))"
      using with_gap_eq [of ?ip ?lo "n_key r" "i_no x"] ip facts(8) by (simp add: put_at_def drop_take min_def)
    also have "\<dots> = map i_no (put_at ?ip x (leaf_inodes r))" using facts(5) full by (simp add: map_put_at)
    finally show ?thesis using insertion_point_insort [OF ok, of x] full by simp
  qed
  have len: "length ?L = ?lo + 1" using facts(7) full by simp
  have c: "?c \<le> ?lo" "0 < ?c" using pos by (auto simp: cut_le) (auto simp: cut_def)
  have slots: "?lo \<le> keySlots E" by (rule leafOrder_le_slots)
  have sorted: "sorted_wrt (<) (map i_no ?L)" by (rule sorted_wrt_insort) (use facts(6) x in simp_all)
  have parts: "length (take ?c ?L) = ?c" "length (drop ?c ?L) = ?lo + 1 - ?c" using len c by simp_all
  have eqs: "n_keys a = ?c" "n_keys b = ?lo + 1 - ?c"
      "n_inode a = copy_to ?c (replicate (?lo - ?c) zero_inode) (copy_to 0 (take ?c ?L) (n_inode r))"
      "n_inode b = copy_to (?lo + 1 - ?c) (replicate (?lo - (?lo + 1 - ?c)) zero_inode)
        (copy_to 0 (drop ?c ?L) (replicate ?lo zero_inode))"
      "n_key a = copy_to ?c (replicate (?lo - ?c) 0) (copy_to 0 (map i_no (take ?c ?L)) (n_key r))"
      "n_key b = copy_to (?lo + 1 - ?c) (replicate (?lo - (?lo + 1 - ?c)) 0)
        (copy_to 0 (map i_no (drop ?c ?L)) (replicate (keySlots E) 0))"
      "n_isLeaf a" "n_isLeaf b"
    using split new facts(1) parts len by (auto simp: split_leaf_def Let_def inodes keys zero_node_def zero_raw_def take_map drop_map)
  have la: "leaf_inodes a = take ?c ?L"
    unfolding leaf_inodes_def [of a] eqs by (rule filled_take) (use parts c facts(3) in simp_all)
  have lb: "leaf_inodes b = drop ?c ?L"
    unfolding leaf_inodes_def [of b] eqs by (rule filled_take) (use parts c in simp_all)
  have ka: "take ?c (n_key a) = map i_no (take ?c ?L)"
    unfolding eqs by (rule filled_take) (use len c facts(8) in simp_all)
  have kb: "take (?lo + 1 - ?c) (n_key b) = map i_no (drop ?c ?L)"
    unfolding eqs by (rule filled_take) (use len c slots in simp_all)
  have "leaf_ok E a"
    using ka la sorted_wrt_pieces(1) [OF sorted] facts(3,4) c by (simp add: leaf_ok_def eqs)
  moreover have "leaf_ok E b"
    using kb lb sorted_wrt_pieces(2) [OF sorted] c by (simp add: leaf_ok_def eqs)
  ultimately show ?thesis using la lb by simp
qed

subsection \<open>Search and removal\<close>

lemma leaf_position_less:
  assumes "leaf_ok E r" and "leaf_position key r < n_keys r"
  shows "i_no (leaf_inodes r ! leaf_position key r) = key"
  using scan_while_at [of "\<lambda>i. n_key r ! i \<noteq> key" "n_keys r"] leaf_nth(1) [OF assms] assms(2)
  by (simp add: leaf_position_def)

lemma leaf_position_notin:
  assumes "leaf_ok E r"
  shows "leaf_position key r = n_keys r \<longleftrightarrow> key \<notin> i_no ` set (leaf_inodes r)"
proof
  assume "leaf_position key r = n_keys r"
  then have "n_key r ! i \<noteq> key" if "i < n_keys r" for i
    using scan_while_before [of i "\<lambda>i. n_key r ! i \<noteq> key" "n_keys r"] that by (simp add: leaf_position_def)
  then show "key \<notin> i_no ` set (leaf_inodes r)"
    using leaf_nth(1) [OF assms] leaf_okD(7) [OF assms] by (fastforce simp: in_set_conv_nth)
next
  assume "key \<notin> i_no ` set (leaf_inodes r)"
  then have "\<not> leaf_position key r < n_keys r"
    using leaf_position_less [OF assms, of key] leaf_okD(7) [OF assms] by (metis imageI nth_mem)
  moreover have "leaf_position key r \<le> n_keys r" by (simp add: leaf_position_def scan_while_le)
  ultimately show "leaf_position key r = n_keys r" by simp
qed

definition lookup_inode :: "Inode list \<Rightarrow> InodeNo \<Rightarrow> Inode option" where
  "lookup_inode L key = List.find (\<lambda>x. i_no x = key) L"

lemma lookup_inode_nth:
  assumes "sorted_wrt (<) (map i_no L)" and "i < length L"
  shows "lookup_inode L (i_no (L ! i)) = Some (L ! i)"
proof -
  have "i_no (L ! j) \<noteq> i_no (L ! i)" if "j < i" for j
    using sorted_wrt_nth_less [OF assms(1) that] assms(2) that by simp
  then show ?thesis using assms(2) by (auto simp: lookup_inode_def find_Some_iff)
qed

lemma lookup_inode_None: "lookup_inode L key = None \<longleftrightarrow> key \<notin> i_no ` set L"
  by (auto simp: lookup_inode_def find_None_iff)

lemma findInLeaf_lookup:
  assumes "leaf_ok E r"
  shows "findInLeaf r key = lookup_inode (leaf_inodes r) key"
proof (cases "leaf_position key r = n_keys r")
  case True
  then show ?thesis using leaf_position_notin [OF assms, of key] lookup_inode_None [of "leaf_inodes r" key] by (simp add: findInLeaf_def)
next
  case False
  moreover have "leaf_position key r \<le> n_keys r" by (simp add: leaf_position_def scan_while_le)
  ultimately have less: "leaf_position key r < n_keys r" by simp
  then show ?thesis
    using lookup_inode_nth [OF leaf_okD(6) [OF assms], of "leaf_position key r"] leaf_position_less [OF assms less]
      leaf_nth(2) [OF assms less] leaf_okD(7) [OF assms] False by (simp add: findInLeaf_def Let_def)
qed

lemma remove_nth_filter:
  assumes "sorted_wrt (<) (map f xs)" and "i < length xs"
  shows "take i xs @ drop (Suc i) xs = filter (\<lambda>x. f x \<noteq> (f (xs ! i) :: nat)) xs"
proof -
  have xs: "xs = take i xs @ xs ! i # drop (Suc i) xs" using assms(2) by (simp add: id_take_nth_drop)
  have "sorted_wrt (<) (map f (take i xs @ xs ! i # drop (Suc i) xs))" using assms(1) xs by simp
  then have "\<forall>x\<in>set (take i xs). f x < f (xs ! i)" "\<forall>x\<in>set (drop (Suc i) xs). f (xs ! i) < f x"
    by (auto simp: sorted_wrt_append)
  then have "filter (\<lambda>x. f x \<noteq> f (xs ! i)) (take i xs) = take i xs"
    "filter (\<lambda>x. f x \<noteq> f (xs ! i)) (drop (Suc i) xs) = drop (Suc i) xs" by (auto simp: filter_id_conv)
  then have "filter (\<lambda>x. f x \<noteq> f (xs ! i)) (take i xs @ xs ! i # drop (Suc i) xs) = take i xs @ drop (Suc i) xs"
    by simp
  then show ?thesis using xs by simp
qed

lemma shift_out_take:
  assumes "i < n" and "n \<le> length xs"
  shows "take (n - 1) (shift_down i (n - 1) xs) = take i (take n xs) @ drop (Suc i) (take n xs)"
proof (rule nth_equalityI)
  show "take (n - 1) (shift_down i (n - 1) xs) ! k = (take i (take n xs) @ drop (Suc i) (take n xs)) ! k"
    if "k < length (take (n - 1) (shift_down i (n - 1) xs))" for k
    using that assms by (auto simp: shift_down_nth nth_append)
qed (use assms in simp)

lemma shift_out_eq:
  assumes "i < n" and "n \<le> m" and "m \<le> length xs"
  shows "take (n - 1) (copy_to (n - 1) (replicate (m - (n - 1)) z) (shift_down i (n - 1) xs))
    = take i (take n xs) @ drop (Suc i) (take n xs)"
  using assms shift_out_take [of i n xs] by (simp add: copy_to_eq)

lemma sorted_wrt_map_filter: "sorted_wrt P (map f xs) \<Longrightarrow> sorted_wrt P (map f (filter Q xs))"
  by (simp add: sorted_wrt_map sorted_wrt_filter)

lemma remove_entry_leaf:
  assumes ok: "leaf_ok E (raw m)" and mem: "key \<in> i_no ` set (leaf_inodes (raw m))"
  shows "\<exists>m'. remove_entry E key m = Some m' \<and> leaf_ok E (raw m') \<and>
     leaf_inodes (raw m') = filter (\<lambda>x. i_no x \<noteq> key) (leaf_inodes (raw m)) \<and>
     n_keys (raw m') = n_keys (raw m) - 1 \<and> n_dirty m' \<and> n_self (raw m') = n_self (raw m) \<and> parent m' = parent m"
proof -
  let ?r = "raw m" and ?i = "leaf_position key (raw m)" and ?n = "n_keys (raw m)"
  note facts = leaf_okD [OF ok]
  have "?i \<le> ?n" by (simp add: leaf_position_def scan_while_le)
  then have i: "?i < ?n" using leaf_position_notin [OF ok, of key] mem by (simp add: le_less)
  have key: "i_no (leaf_inodes ?r ! ?i) = key" by (rule leaf_position_less [OF ok i])
  have "\<not> key < n_key ?r ! (?i - 1)" if "?i > 0"
    using leaf_nth(1) [OF ok, of "?i - 1"] sorted_wrt_nth_less [OF facts(6), of "?i - 1" ?i] that i key facts(7) by simp
  then have run: "remove_entry E key m = Some (m\<lparr>raw := ?r\<lparr>
      n_key := copy_to (?n - 1) (replicate (leafOrder E - (?n - 1)) 0) (shift_down ?i (?n - 1) (n_key ?r)),
      n_inode := copy_to (?n - 1) (replicate (leafOrder E - (?n - 1)) zero_inode) (shift_down ?i (?n - 1) (n_inode ?r)),
      n_keys := ?n - 1\<rparr>, n_dirty := True\<rparr>)"
    using facts(1) by (auto simp: remove_entry_def Let_def)
  let ?L' = "filter (\<lambda>x. i_no x \<noteq> key) (leaf_inodes ?r)"
  have L': "?L' = take ?i (leaf_inodes ?r) @ drop (Suc ?i) (leaf_inodes ?r)"
    using remove_nth_filter [OF facts(6), of ?i] i facts(7) key by simp
  obtain m' where m': "remove_entry E key m = Some m'"
      "n_key (raw m') = copy_to (?n - 1) (replicate (leafOrder E - (?n - 1)) 0) (shift_down ?i (?n - 1) (n_key ?r))"
      "n_inode (raw m') = copy_to (?n - 1) (replicate (leafOrder E - (?n - 1)) zero_inode) (shift_down ?i (?n - 1) (n_inode ?r))"
      "n_keys (raw m') = ?n - 1" "n_isLeaf (raw m')" "n_dirty m'" "n_self (raw m') = n_self ?r" "parent m' = parent m"
    using run facts(1) by simp
  have inodes: "leaf_inodes (raw m') = ?L'"
    using shift_out_eq [of ?i ?n "leafOrder E" "n_inode ?r" zero_inode] i facts(2,3)
    by (simp add: leaf_inodes_def [of "raw m'"] m' L') (simp add: leaf_inodes_def)
  have "take (?n - 1) (n_key (raw m')) = map i_no ?L'"
    using shift_out_eq [of ?i ?n "leafOrder E" "n_key ?r" 0] i facts(2,5,8) by (simp add: m' L' take_map drop_map)
  then have "leaf_ok E (raw m')"
    using facts(2-4) sorted_wrt_map_filter [OF facts(6)] by (simp add: leaf_ok_def m' inodes)
  then show ?thesis using m' inodes by blast
qed

subsection \<open>Merging and redistribution\<close>

lemma append_leaf_inodes:
  assumes "leaf_ok E a" and "leaf_ok E b" and "n_keys a + n_keys b \<le> leafOrder E"
  shows "leaf_inodes (append_leaf a b) = leaf_inodes b @ leaf_inodes a"
  using assms leaf_okD(2,3) [OF assms(1)] leaf_okD(2,3) [OF assms(2)]
  by (simp add: append_leaf_def leaf_inodes_def copy_to_eq min_def)

lemma append_leaf_ok:
  assumes "leaf_ok E a" and "leaf_ok E b" and "n_keys a + n_keys b \<le> leafOrder E"
    and "\<forall>x\<in>set (leaf_inodes b). \<forall>y\<in>set (leaf_inodes a). i_no x < i_no y"
  shows "leaf_ok E (append_leaf a b)"
proof -
  note fa = leaf_okD [OF assms(1)] and fb = leaf_okD [OF assms(2)]
  have "take (n_keys b + n_keys a) (n_key (append_leaf a b)) = take (n_keys b) (n_key b) @ take (n_keys a) (n_key a)"
    using assms(3) fa(2,8) fb(2,8) by (simp add: append_leaf_def copy_to_eq min_def)
  then show ?thesis
    using assms(3,4) fa fb append_leaf_inodes [OF assms(1-3)]
    by (simp add: leaf_ok_def sorted_wrt_append) (simp add: append_leaf_def)
qed

text \<open>
  A move between neighbours keeps the list that both hold, and the new key of the parent is the first
  of the right one.
\<close>

definition first_no :: "TreeNode \<Rightarrow> InodeNo" where
  "first_no r = i_no (hd (leaf_inodes r))"

lemma sorted_wrt_two:
  assumes "sorted_wrt (<) (map f (xs @ ys) :: nat list)"
  shows "sorted_wrt (<) (map f xs)" "sorted_wrt (<) (map f ys)"
  using assms by (simp_all add: sorted_wrt_append)

lemma leaf_from_left_moves:
  assumes ok: "leaf_ok E n" "leaf_ok E nb" and size: "n_keys n < leafOrder E" "0 < n_keys nb"
    and sorted: "sorted_wrt (<) (map i_no (leaf_inodes nb @ leaf_inodes n))"
    and run: "leaf_from_left n nb = (n', nb', key)"
  shows "leaf_inodes nb' @ leaf_inodes n' = leaf_inodes nb @ leaf_inodes n \<and> leaf_ok E n' \<and> leaf_ok E nb' \<and>
     n_keys nb' = n_keys nb - 1 \<and> n_keys n' = n_keys n + 1 \<and> key = first_no n'"
proof -
  note fn = leaf_okD [OF ok(1)] and fb = leaf_okD [OF ok(2)]
  let ?l = "n_keys nb - 1"
  have l: "n_key nb ! ?l = i_no (n_inode nb ! ?l)" using leaf_nth [OF ok(2), of ?l] size by simp
  have n': "leaf_inodes n' = n_inode nb ! ?l # leaf_inodes n" "n_keys n' = n_keys n + 1" "key = i_no (n_inode nb ! ?l)"
    using size run fn(3) l shift_in_eq [of 0 "n_keys n" "n_inode n" "n_inode nb ! ?l"]
    by (auto simp: leaf_from_left_def Let_def leaf_inodes_def put_at_def)
  have nb': "leaf_inodes nb' = take ?l (n_inode nb)" "n_keys nb' = ?l"
    using run by (auto simp: leaf_from_left_def Let_def leaf_inodes_def)
  have "take ?l (n_inode nb) @ [n_inode nb ! ?l] = leaf_inodes nb"
    using size fb(2,3) take_Suc_conv_app_nth [of ?l "n_inode nb"] by (simp add: leaf_inodes_def)
  then have eq: "leaf_inodes nb' @ leaf_inodes n' = leaf_inodes nb @ leaf_inodes n"
    using n' nb' by (metis append.assoc append_Cons append_Nil)
  have kn: "take (n_keys n + 1) (n_key n') = map i_no (leaf_inodes n')"
    using size run fn(5,8) l n' shift_in_eq [of 0 "n_keys n" "n_key n" "n_key nb ! ?l"]
    by (auto simp: leaf_from_left_def Let_def put_at_def)
  have "take ?l (take (n_keys nb) (n_key nb)) = take ?l (map i_no (leaf_inodes nb))" using fb(5) by simp
  then have kb: "take ?l (n_key nb) = map i_no (leaf_inodes nb')"
    using size by (simp add: nb'(1) leaf_inodes_def [of nb] take_map min_def)
  have other: "n_isLeaf n'" "n_isLeaf nb'" "length (n_inode n') = leafOrder E" "length (n_inode nb') = leafOrder E"
      "length (n_key n') = keySlots E" "length (n_key nb') = keySlots E" "n_key nb' = n_key nb"
    using run fn(1,3,4) fb(1,3,4) by (auto simp: leaf_from_left_def Let_def)
  have "sorted_wrt (<) (map i_no (leaf_inodes nb' @ leaf_inodes n'))" using sorted eq by simp
  note parts = sorted_wrt_two [OF this]
  show ?thesis
    using parts eq kn kb other size fb(2) n'(2,3) nb'(2) by (simp add: leaf_ok_def first_no_def n'(1))
qed

lemma leaf_from_right_moves:
  assumes ok: "leaf_ok E n" "leaf_ok E nb" and size: "n_keys n < leafOrder E" "1 < n_keys nb"
    and sorted: "sorted_wrt (<) (map i_no (leaf_inodes n @ leaf_inodes nb))"
    and run: "leaf_from_right n nb = (n', nb', key)"
  shows "leaf_inodes n' @ leaf_inodes nb' = leaf_inodes n @ leaf_inodes nb \<and> leaf_ok E n' \<and> leaf_ok E nb' \<and>
     n_keys nb' = n_keys nb - 1 \<and> n_keys n' = n_keys n + 1 \<and> key = first_no nb'"
proof -
  note fn = leaf_okD [OF ok(1)] and fb = leaf_okD [OF ok(2)]
  have first: "n_key nb ! 0 = i_no (n_inode nb ! 0)" and second: "n_key nb ! 1 = i_no (leaf_inodes nb ! 1)"
    using leaf_nth [OF ok(2)] size by simp_all
  have n': "leaf_inodes n' = leaf_inodes n @ [n_inode nb ! 0]" "n_keys n' = n_keys n + 1" "key = i_no (leaf_inodes nb ! 1)"
    using size run fn(3) second by (auto simp: leaf_from_right_def leaf_inodes_def take_Suc_conv_app_nth)
  have nb': "leaf_inodes nb' = drop 1 (leaf_inodes nb)" "n_keys nb' = n_keys nb - 1"
    using run shift_out_take [of 0 "n_keys nb" "n_inode nb"] size fb(2,3)
    by (auto simp: leaf_from_right_def leaf_inodes_def)
  have "n_inode nb ! 0 # drop 1 (leaf_inodes nb) = leaf_inodes nb"
    using size fb(2,3) Cons_nth_drop_Suc [of 0 "leaf_inodes nb"] by (simp add: leaf_inodes_def)
  then have eq: "leaf_inodes n' @ leaf_inodes nb' = leaf_inodes n @ leaf_inodes nb"
    using n' nb' by (metis append.assoc append_Cons append_Nil)
  have kn: "take (n_keys n + 1) (n_key n') = map i_no (leaf_inodes n')"
    using size run fn(5,8) first n' by (auto simp: leaf_from_right_def take_Suc_conv_app_nth)
  have kb: "take (n_keys nb - 1) (n_key nb') = map i_no (leaf_inodes nb')"
    using run shift_out_take [of 0 "n_keys nb" "n_key nb"] size fb(2,5,8) nb'
    by (auto simp: leaf_from_right_def drop_map)
  have other: "n_isLeaf n'" "n_isLeaf nb'" "length (n_inode n') = leafOrder E" "length (n_inode nb') = leafOrder E"
      "length (n_key n') = keySlots E" "length (n_key nb') = keySlots E"
    using run fn(1,3,4) fb(1,3,4) by (auto simp: leaf_from_right_def)
  have "sorted_wrt (<) (map i_no (leaf_inodes n' @ leaf_inodes nb'))" using sorted eq by simp
  note parts = sorted_wrt_two [OF this]
  have "hd (leaf_inodes nb') = leaf_inodes nb ! 1" using nb' size fb(7) by (simp add: hd_drop_conv_nth)
  then show ?thesis
    using parts eq kn kb other size fb(2) n'(2,3) nb'(2) by (simp add: leaf_ok_def first_no_def)
qed

end
