(* ===== verification/BtreeSearch.thy ===== *)
theory BtreeSearch
  imports BtreeLeaves
begin

text \<open>
  A B+ tree that is in the cache as a whole: the list of inodes below a node, when the nodes
  form a search tree, and that the search of the code finds what the list holds.
\<close>

declare findLeaf_from.simps [simp del] last_leaf.simps [simp del] insertIntoParent.simps [simp del]
  needed_nodes.simps [simp del] deleteEntry.simps [simp del]

subsection \<open>Search trees in the cache\<close>

definition child :: "tree_cache \<Rightarrow> nat \<Rightarrow> nat \<Rightarrow> nat" where
  "child T i k = the (pointers (node T i) ! k)"

abbreviation keyAt :: "tree_cache \<Rightarrow> nat \<Rightarrow> nat \<Rightarrow> InodeNo" where
  "keyAt T i k \<equiv> n_key (raw (node T i)) ! k"

abbreviation keyNo :: "tree_cache \<Rightarrow> nat \<Rightarrow> nat" where
  "keyNo T i \<equiv> n_keys (raw (node T i))"

fun tree_inodes :: "nat \<Rightarrow> tree_cache \<Rightarrow> nat \<Rightarrow> Inode list" where
  "tree_inodes 0 T i = leaf_inodes (raw (node T i))"
| "tree_inodes (Suc d) T i = concat (map (\<lambda>k. tree_inodes d T (child T i k)) [0 ..< keyNo T i + 1])"

fun tree_nodes :: "nat \<Rightarrow> tree_cache \<Rightarrow> nat \<Rightarrow> nat list" where
  "tree_nodes 0 T i = [i]"
| "tree_nodes (Suc d) T i = i # concat (map (\<lambda>k. tree_nodes d T (child T i k)) [0 ..< keyNo T i + 1])"

definition branch_ok :: "'f env \<Rightarrow> TreeCacheNode \<Rightarrow> bool" where
  "branch_ok E m \<longleftrightarrow> \<not> n_isLeaf (raw m) \<and> n_keys (raw m) < branchOrder E \<and> length (pointers m) = branchOrder E \<and>
     (\<forall>i j. i < j \<and> j < n_keys (raw m) \<longrightarrow> n_key (raw m) ! i \<le> n_key (raw m) ! j) \<and>
     (\<forall>k \<le> n_keys (raw m). pointers m ! k \<noteq> None)"

text \<open>The inodes of child \<open>k\<close> lie between the keys beside it.\<close>

definition in_range :: "tree_cache \<Rightarrow> nat \<Rightarrow> nat \<Rightarrow> InodeNo \<Rightarrow> bool" where
  "in_range T i k no \<longleftrightarrow> (0 < k \<longrightarrow> keyAt T i (k - 1) \<le> no) \<and> (k < keyNo T i \<longrightarrow> no < keyAt T i k)"

fun search_tree :: "nat \<Rightarrow> 'f env \<Rightarrow> tree_cache \<Rightarrow> nat \<Rightarrow> bool" where
  "search_tree 0 E T i \<longleftrightarrow> i < length (mCache T) \<and> leaf_ok E (raw (node T i))"
| "search_tree (Suc d) E T i \<longleftrightarrow> i < length (mCache T) \<and> branch_ok E (node T i) \<and>
     (\<forall>k \<le> keyNo T i. search_tree d E T (child T i k) \<and>
        (\<forall>x\<in>set (tree_inodes d T (child T i k)). in_range T i k (i_no x)))"

text \<open>The shape alone, without the ranges of the keys.\<close>

fun shape_tree :: "nat \<Rightarrow> 'f env \<Rightarrow> tree_cache \<Rightarrow> nat \<Rightarrow> bool" where
  "shape_tree 0 E T i \<longleftrightarrow> i < length (mCache T) \<and> leaf_ok E (raw (node T i))"
| "shape_tree (Suc d) E T i \<longleftrightarrow> i < length (mCache T) \<and> branch_ok E (node T i) \<and>
     (\<forall>k \<le> keyNo T i. shape_tree d E T (child T i k))"

lemma search_tree_shape: "search_tree d E T i \<Longrightarrow> shape_tree d E T i"
  by (induction d arbitrary: i) auto

fun leaf_for :: "nat \<Rightarrow> tree_cache \<Rightarrow> InodeNo \<Rightarrow> nat \<Rightarrow> nat" where
  "leaf_for 0 T key i = i"
| "leaf_for (Suc d) T key i = leaf_for d T key (child T i (branch_index key (raw (node T i))))"

subsection \<open>The child of a key\<close>

lemma branch_index_props:
  shows "branch_index key r \<le> n_keys r" "\<And>j. j < branch_index key r \<Longrightarrow> n_key r ! j \<le> key"
    "branch_index key r < n_keys r \<Longrightarrow> key < n_key r ! branch_index key r"
  using scan_while_le [of "\<lambda>i. n_key r ! i \<le> key" "n_keys r"] scan_while_before [of _ "\<lambda>i. n_key r ! i \<le> key" "n_keys r"]
    scan_while_at [of "\<lambda>i. n_key r ! i \<le> key" "n_keys r"] by (auto simp: branch_index_def)

lemma branch_keys_mono:
  assumes "branch_ok E m" and "i \<le> j" and "j < n_keys (raw m)"
  shows "n_key (raw m) ! i \<le> n_key (raw m) ! j"
  using assms by (cases "i = j") (auto simp: branch_ok_def)

lemma in_range_index:
  assumes "branch_ok E (node T i)" and "k \<le> keyNo T i" and "in_range T i k no"
  shows "branch_index no (raw (node T i)) = k"
proof -
  have "n_key (raw (node T i)) ! j \<le> no" if "j < k" for j
  proof -
    have "j \<le> k - 1" "k - 1 < keyNo T i" using that assms(2) by simp_all
    then have "keyAt T i j \<le> keyAt T i (k - 1)" by (rule branch_keys_mono [OF assms(1)])
    then show ?thesis using assms(3) that by (simp add: in_range_def)
  qed
  moreover have "no < n_key (raw (node T i)) ! k" if "k < keyNo T i" using assms that by (simp add: in_range_def)
  ultimately show ?thesis
    unfolding branch_index_def by (intro scan_while_eqI) (use assms(2) in auto)
qed

lemma index_in_range: "in_range T i (branch_index no (raw (node T i))) no"
  using branch_index_props(2) [of _ no "raw (node T i)"] branch_index_props(3) [of no "raw (node T i)"]
  by (auto simp: in_range_def)

lemma find_concat:
  assumes "k < length Ls" and "\<And>j x. j < length Ls \<Longrightarrow> j \<noteq> k \<Longrightarrow> x \<in> set (Ls ! j) \<Longrightarrow> \<not> P x"
  shows "List.find P (concat Ls) = List.find P (Ls ! k)"
proof -
  have none: "List.find P xs = None" if "\<forall>x\<in>set xs. \<not> P x" for xs using that by (simp add: find_None_iff)
  have app: "List.find P (xs @ ys) = (case List.find P xs of None \<Rightarrow> List.find P ys | Some x \<Rightarrow> Some x)" for xs ys
    by (induction xs) auto
  have miss: "\<not> P x" if "x \<in> set (concat Ms)" "\<forall>ys\<in>set Ms. \<exists>j<length Ls. j \<noteq> k \<and> ys = Ls ! j" for x Ms
    using that assms(2) by fastforce
  have "Ls = take k Ls @ Ls ! k # drop (Suc k) Ls" using assms(1) by (simp add: id_take_nth_drop)
  then have "concat Ls = concat (take k Ls) @ Ls ! k @ concat (drop (Suc k) Ls)" by (metis concat.simps(2) concat_append)
  moreover have "\<exists>j<length Ls. j \<noteq> k \<and> ys = Ls ! j" if "ys \<in> set (take k Ls)" for ys
    using that in_set_conv_nth [of ys "take k Ls"] by auto
  then have "List.find P (concat (take k Ls)) = None" using miss none by blast
  moreover have "\<exists>j<length Ls. j \<noteq> k \<and> ys = Ls ! j" if ys: "ys \<in> set (drop (Suc k) Ls)" for ys
  proof -
    obtain n where "n < length (drop (Suc k) Ls)" "ys = drop (Suc k) Ls ! n" using ys by (metis in_set_conv_nth)
    then show ?thesis by (intro exI [of _ "Suc k + n"]) simp
  qed
  then have "List.find P (concat (drop (Suc k) Ls)) = None" using miss none by blast
  ultimately show ?thesis by (simp add: app split: option.splits)
qed

lemma lookup_tree:
  assumes "search_tree d E T i"
  shows "lookup_inode (tree_inodes d T i) key = findInLeaf (raw (node T (leaf_for d T key i))) key"
  using assms
proof (induction d arbitrary: i)
  case 0
  then have "leaf_ok E (raw (node T i))" by simp
  then show ?case by (simp add: findInLeaf_lookup [of E])
next
  case (Suc d)
  let ?k = "branch_index key (raw (node T i))" and ?Ls = "map (\<lambda>k. tree_inodes d T (child T i k)) [0 ..< keyNo T i + 1]"
  have k: "?k \<le> keyNo T i" by (rule branch_index_props)
  have nth: "?Ls ! j = tree_inodes d T (child T i j)" if "j \<le> keyNo T i" for j
    using that by (simp del: upt_Suc)
  have other: "i_no x \<noteq> key" if "j < length ?Ls" "j \<noteq> ?k" "x \<in> set (?Ls ! j)" for j x
  proof
    assume "i_no x = key"
    moreover have j: "j \<le> keyNo T i" using that(1) by simp
    ultimately have "in_range T i j key" using Suc.prems that(3) nth [OF j] by auto
    then have "?k = j" using in_range_index [of E T i j key] Suc.prems j by simp
    then show False using that(2) by simp
  qed
  have "lookup_inode (tree_inodes (Suc d) T i) key = lookup_inode (?Ls ! ?k) key"
    unfolding lookup_inode_def tree_inodes.simps by (rule find_concat) (use other k in auto)
  also have "\<dots> = lookup_inode (tree_inodes d T (child T i ?k)) key" using nth [OF k] by simp
  also have "\<dots> = findInLeaf (raw (node T (leaf_for d T key (child T i ?k)))) key"
    by (rule Suc.IH) (use Suc.prems k in auto)
  finally show ?case by simp
qed

subsection \<open>The walk to a leaf\<close>

text \<open>The cache after \<open>n\<close> hits.\<close>

fun hits :: "nat \<Rightarrow> tree_cache \<Rightarrow> tree_cache" where
  "hits 0 T = T"
| "hits (Suc n) T = hits n (T\<lparr>mCacheHits := (mCacheHits T + 1) mod 2 ^ 16\<rparr>)"

declare hits.simps(2) [simp del]

lemma hits_once: "hits (Suc 0) T = T\<lparr>mCacheHits := (mCacheHits T + 1) mod 2 ^ 16\<rparr>"
  by (simp add: hits.simps)

lemma hits_rest: "\<exists>h. hits n T = T\<lparr>mCacheHits := h\<rparr>"
proof (induction n arbitrary: T)
  case 0
  show ?case by (intro exI [of _ "mCacheHits T"]) simp
next
  case (Suc n)
  let ?T = "T\<lparr>mCacheHits := (mCacheHits T + 1) mod 2 ^ 16\<rparr>"
  obtain h where "hits n ?T = ?T\<lparr>mCacheHits := h\<rparr>" using Suc.IH by blast
  then show ?case by (intro exI [of _ h]) (simp add: hits.simps)
qed

lemma node_hits [simp]:
  "node (hits n T) = node T" "isIndexUsed E (hits n T) = isIndexUsed E T" "mCacheRoot (hits n T) = mCacheRoot T"
  "mCache (hits n T) = mCache T" "child (hits n T) = child T"
  using hits_rest [of n T] by (auto simp: node_def isIndexUsed_def child_def fun_eq_iff)

lemma hits_hits [simp]: "hits m (hits n T) = hits (n + m) T"
  by (induction n arbitrary: T) (simp_all add: hits.simps)

lemma tree_hits [simp]:
  "tree_inodes d (hits n T) i = tree_inodes d T i" "search_tree d E (hits n T) i = search_tree d E T i"
  "shape_tree d E (hits n T) i = shape_tree d E T i" "leaf_for d (hits n T) key i = leaf_for d T key i"
  by (induction d arbitrary: i) (simp_all add: in_range_def)

lemma ancestors_hits [simp]: "ancestors k (hits n T) i = ancestors k T i"
  by (induction k arbitrary: i) (simp_all cong: option.case_cong if_cong)

lemma isSubTreeValid_hits [simp]: "isSubTreeValid k E (hits n T) i lo hi r = isSubTreeValid k E T i lo hi r"
  by (induction k arbitrary: i lo hi r) (simp_all cong: option.case_cong if_cong)

lemma isTreeCacheValid_hits [simp]: "isTreeCacheValid E (hits n T) = isTreeCacheValid E T"
  by (simp add: isTreeCacheValid_def floating_ok_def cong: option.case_cong)

definition check_passes :: "'f env \<Rightarrow> tree_cache \<Rightarrow> bool" where
  "check_passes E T \<longleftrightarrow> \<not> verifyTC E \<or> isTreeCacheValid E T"

lemma check_passes_hits [simp]: "check_passes E (hits n T) = check_passes E T"
  by (simp add: check_passes_def)

lemma run_cached_child:
  assumes "check_passes E (tc s)" and "branch_ok E (node (tc s) i)" and "k \<le> keyNo (tc s) i"
  shows "run_state (getTreeNodeAtIndexFrom E k i) s = (Inr (child (tc s) i k), s\<lparr>tc := hits 1 (tc s)\<rparr>)"
  using assms by (auto simp: getTreeNodeAtIndexFrom_def branch_ok_def check_passes_def child_def hits_once)

lemma run_findLeaf_from:
  assumes "check_passes E (tc s)" and "shape_tree d E (tc s) i" and "d \<le> n"
  shows "run_state (findLeaf_from n E key i) s = (Inr (leaf_for d (tc s) key i), s\<lparr>tc := hits d (tc s)\<rparr>)"
  using assms
proof (induction d arbitrary: i n s)
  case 0
  then show ?case by (subst findLeaf_from.simps) (simp add: leaf_ok_def node_at_def)
next
  case (Suc d)
  obtain m where n: "n = Suc m" "d \<le> m" using Suc.prems(3) by (cases n) auto
  let ?k = "branch_index key (raw (node (tc s) i))" and ?s = "s\<lparr>tc := hits 1 (tc s)\<rparr>"
  have k: "?k \<le> keyNo (tc s) i" by (rule branch_index_props)
  have br: "branch_ok E (node (tc s) i)" using Suc.prems(2) by simp
  have "run_state (findLeaf_from m E key (child (tc s) i ?k)) ?s =
      (Inr (leaf_for d (tc s) key (child (tc s) i ?k)), s\<lparr>tc := hits (Suc d) (tc s)\<rparr>)"
    using Suc.IH [of ?s "child (tc s) i ?k" m] Suc.prems k n by simp
  then show ?case
    using run_cached_child [OF Suc.prems(1) br k] br
    by (subst findLeaf_from.simps) (simp add: n node_at_def branch_ok_def)
qed

text \<open>A cached tree of depth \<open>d\<close>, and a walk that the code finds short enough.\<close>

definition cached_tree :: "'f env \<Rightarrow> tree_cache \<Rightarrow> nat \<Rightarrow> bool" where
  "cached_tree E T d \<longleftrightarrow> isIndexUsed E T (mCacheRoot T) \<and> shape_tree d E T (mCacheRoot T) \<and>
     d \<le> treeNodeCacheSize E - 2 \<and> check_passes E T"

definition inodes_in :: "tree_cache \<Rightarrow> nat \<Rightarrow> Inode list" where
  "inodes_in T d = tree_inodes d T (mCacheRoot T)"

definition target_leaf :: "tree_cache \<Rightarrow> nat \<Rightarrow> InodeNo \<Rightarrow> nat" where
  "target_leaf T d key = leaf_for d T key (mCacheRoot T)"

lemma run_root:
  assumes "isIndexUsed E (tc s) (mCacheRoot (tc s))"
  shows "run_state (getRootNodeFromCache E) s = (Inr (mCacheRoot (tc s)), s\<lparr>tc := hits 1 (tc s)\<rparr>)"
  using assms by (simp add: getRootNodeFromCache_def hits_once)

lemma run_findLeaf:
  assumes "cached_tree E (tc s) d"
  shows "run_state (findLeaf E key) s = (Inr (target_leaf (tc s) d key), s\<lparr>tc := hits (d + 1) (tc s)\<rparr>)"
  using assms run_findLeaf_from [of E "s\<lparr>tc := hits 1 (tc s)\<rparr>" d "mCacheRoot (tc s)" "treeNodeCacheSize E - 2" key]
  by (simp add: findLeaf_def run_root cached_tree_def target_leaf_def)

lemma run_tree_find:
  assumes "cached_tree E (tc s) d"
  shows "run_state (tree_find E key) s =
    ((case findInLeaf (raw (node (tc s) (target_leaf (tc s) d key))) key of None \<Rightarrow> Inl R_notFound | Some x \<Rightarrow> Inr x),
     s\<lparr>tc := hits (d + 1) (tc s)\<rparr>)"
  using run_findLeaf [OF assms] by (simp add: tree_find_def node_at_def)

lemma target_lookup:
  assumes "search_tree d E T (mCacheRoot T)"
  shows "findInLeaf (raw (node T (target_leaf T d key))) key = lookup_inode (inodes_in T d) key"
  using lookup_tree [OF assms] by (simp add: inodes_in_def target_leaf_def)

end
