(* ===== verification/BtreeUpdate.thy ===== *)
theory BtreeUpdate
  imports BtreeSearch
begin

text \<open>
  A change of one leaf of a cached tree: insertion into a leaf with room, update of an inode, and
  deletion from a leaf that stays full enough, as operations on the sorted list of inodes.
\<close>

subsection \<open>The inodes of a search tree are sorted\<close>

abbreviation strict :: "Inode list \<Rightarrow> bool" where
  "strict L \<equiv> sorted_wrt (<) (map i_no L)"

lemma strict_concat:
  assumes "\<forall>L\<in>set Ls. strict L" and "\<And>j k x y. j < k \<Longrightarrow> k < length Ls \<Longrightarrow> x \<in> set (Ls ! j) \<Longrightarrow> y \<in> set (Ls ! k) \<Longrightarrow> i_no x < i_no y"
  shows "strict (concat Ls)"
  using assms
proof (induction Ls)
  case (Cons L Ls)
  have "strict (concat Ls)"
    using Cons.prems(1) Cons.prems(2) [of "Suc _" "Suc _"] by (intro Cons.IH) auto
  moreover have "i_no x < i_no y" if x: "x \<in> set L" and y: "y \<in> set M" and M: "M \<in> set Ls" for x y M
  proof -
    obtain k where "k < length Ls" "M = Ls ! k" using M by (metis in_set_conv_nth)
    then show ?thesis using Cons.prems(2) [of 0 "Suc k" x y] x y by simp
  qed
  ultimately show ?case using Cons.prems(1) by (auto simp: sorted_wrt_append)
qed simp

lemma strict_unique:
  assumes "strict L" and "strict M" and "set L = set M"
  shows "L = M"
proof -
  have "inj_on i_no (set L)" and "distinct L" if "strict L" for L :: "Inode list"
    using that unfolding strict_sorted_iff distinct_map by simp_all
  then have "map i_no L = map i_no M"
    using assms by (metis list.set_map strict_sorted_equal)
  then show ?thesis
    using assms \<open>\<And>L. strict L \<Longrightarrow> inj_on i_no (set L)\<close> by (metis inj_on_map_eq_map sup.idem)
qed

lemma children_ordered:
  assumes "branch_ok E (node T i)" and "j < k" and "k \<le> keyNo T i" and "in_range T i j a" and "in_range T i k b"
  shows "a < b"
proof -
  have "a < keyAt T i j" using assms(2-4) by (simp add: in_range_def)
  also have "keyAt T i j \<le> keyAt T i (k - 1)" by (rule branch_keys_mono [OF assms(1)]) (use assms(2,3) in auto)
  also have "\<dots> \<le> b" using assms(2,5) by (simp add: in_range_def)
  finally show ?thesis .
qed

lemma tree_inodes_strict: "search_tree d E T i \<Longrightarrow> strict (tree_inodes d T i)"
proof (induction d arbitrary: i)
  case 0
  then have "leaf_ok E (raw (node T i))" by simp
  then show ?case using leaf_okD(6) [of E "raw (node T i)"] by simp
next
  case (Suc d)
  let ?L = "\<lambda>k. tree_inodes d T (child T i k)"
  have k: "strict (?L k)" "\<forall>x\<in>set (?L k). in_range T i k (i_no x)" if "k \<le> keyNo T i" for k
    using Suc that by auto
  have nth: "map ?L [0 ..< keyNo T i + 1] ! k = ?L k" if "k \<le> keyNo T i" for k using that by (simp del: upt_Suc)
  show ?case
    unfolding tree_inodes.simps
  proof (rule strict_concat)
    show "\<forall>L\<in>set (map ?L [0 ..< keyNo T i + 1]). strict L" using k(1) by auto
    show "i_no x < i_no y" if "a < b" "b < length (map ?L [0 ..< keyNo T i + 1])"
      "x \<in> set (map ?L [0 ..< keyNo T i + 1] ! a)" "y \<in> set (map ?L [0 ..< keyNo T i + 1] ! b)" for a b x y
    proof -
      have "b \<le> keyNo T i" "a \<le> keyNo T i" using that(1,2) by simp_all
      then show ?thesis
        using children_ordered [of E T i a b] k(2) nth that Suc.prems by auto
    qed
  qed
qed

subsection \<open>A change of one leaf\<close>

definition leaf_changed :: "nat \<Rightarrow> TreeNode \<Rightarrow> tree_cache \<Rightarrow> tree_cache \<Rightarrow> bool" where
  "leaf_changed l r T T' \<longleftrightarrow> length (mCache T') = length (mCache T) \<and> mCacheRoot T' = mCacheRoot T \<and>
     (\<forall>i<length (mCache T). pointers (node T' i) = pointers (node T i) \<and>
        raw (node T' i) = (if i = l then r else raw (node T i)))"

lemma leaf_for_in_nodes: "leaf_for d T key i \<in> set (tree_nodes d T i)"
proof (induction d arbitrary: i)
  case (Suc d)
  have "branch_index key (raw (node T i)) \<le> keyNo T i" by (rule branch_index_props)
  then show ?case using Suc by (auto simp del: upt_Suc intro!: bexI [of _ "branch_index key (raw (node T i))"])
qed simp

lemma unchanged_elsewhere:
  assumes "leaf_changed l r T T'" and "search_tree d E T i" and "l \<notin> set (tree_nodes d T i)"
  shows "search_tree d E T' i \<and> tree_inodes d T' i = tree_inodes d T i \<and> tree_nodes d T' i = tree_nodes d T i"
  using assms(2,3)
proof (induction d arbitrary: i)
  case 0
  then show ?case using assms(1) by (simp add: leaf_changed_def)
next
  case (Suc d)
  have i: "i < length (mCache T)" "i \<noteq> l" using Suc.prems by auto
  then have same: "pointers (node T' i) = pointers (node T i)" "raw (node T' i) = raw (node T i)"
    using assms(1) by (auto simp: leaf_changed_def)
  have child: "child T' i = child T i" by (simp add: child_def same fun_eq_iff)
  have IH: "search_tree d E T' (child T i k) \<and> tree_inodes d T' (child T i k) = tree_inodes d T (child T i k) \<and>
      tree_nodes d T' (child T i k) = tree_nodes d T (child T i k)" if "k \<le> keyNo T i" for k
    using Suc.prems that by (intro Suc.IH) (auto simp del: upt_Suc)
  have "concat (map (\<lambda>k. tree_inodes d T' (child T i k)) [0 ..< Suc (keyNo T i)]) =
      concat (map (\<lambda>k. tree_inodes d T (child T i k)) [0 ..< Suc (keyNo T i)])"
    "concat (map (\<lambda>k. tree_nodes d T' (child T i k)) [0 ..< Suc (keyNo T i)]) =
      concat (map (\<lambda>k. tree_nodes d T (child T i k)) [0 ..< Suc (keyNo T i)])"
    using IH by (auto intro!: arg_cong [of _ _ concat] simp del: upt_Suc)
  moreover have "branch_ok E (node T' i)" using Suc.prems(1) by (simp add: branch_ok_def same)
  ultimately show ?case
    using Suc.prems(1) IH assms(1) by (simp add: same child leaf_changed_def in_range_def del: upt_Suc)
qed

lemma map_upt_split:
  assumes "k \<le> n"
  shows "map f [0 ..< n + 1] = map f [0 ..< k] @ f k # map f [Suc k ..< n + 1]"
proof -
  have "[0 ..< n + 1] = [0 ..< k] @ [k ..< n + 1]" using assms upt_add_eq_append [of 0 k "n + 1 - k"] by simp
  also have "[k ..< n + 1] = k # [Suc k ..< n + 1]" using assms by (simp add: upt_conv_Cons)
  finally show ?thesis by simp
qed

lemma leaf_change_tree:
  assumes change: "leaf_changed (leaf_for d T key i) r T T'" and tree: "search_tree d E T i"
    and dist: "distinct (tree_nodes d T i)" and ok: "leaf_ok E r"
    and new: "\<forall>x\<in>set (leaf_inodes r). x \<in> set (leaf_inodes (raw (node T (leaf_for d T key i)))) \<or> i_no x = key"
  shows "search_tree d E T' i \<and> tree_nodes d T' i = tree_nodes d T i \<and>
    (\<exists>A C. tree_inodes d T i = A @ leaf_inodes (raw (node T (leaf_for d T key i))) @ C \<and>
       tree_inodes d T' i = A @ leaf_inodes r @ C)"
  using assms
proof (induction d arbitrary: i)
  case 0
  then show ?case
    by (auto simp: leaf_changed_def intro!: exI [of _ "[]"])
next
  case (Suc d)
  let ?k = "branch_index key (raw (node T i))" and ?n = "keyNo T i" and ?l = "leaf_for (Suc d) T key i"
  let ?c = "child T i ?k" and ?I = "\<lambda>S k. tree_inodes d S (child T i k)" and ?N = "\<lambda>S k. tree_nodes d S (child T i k)"
  have k: "?k \<le> ?n" by (rule branch_index_props)
  have l: "?l \<in> set (?N T ?k)" using leaf_for_in_nodes [of d T key ?c] by simp
  have nodes: "tree_nodes (Suc d) T i = i # concat (map (?N T) [0 ..< ?k]) @ ?N T ?k @ concat (map (?N T) [Suc ?k ..< ?n + 1])"
    using map_upt_split [OF k, of "?N T"] by simp
  have dist: "distinct (i # concat (map (?N T) [0 ..< ?k]) @ ?N T ?k @ concat (map (?N T) [Suc ?k ..< ?n + 1]))"
    using Suc.prems(3) unfolding nodes .
  have i: "i < length (mCache T)" "i \<noteq> ?l" using Suc.prems(2) dist l by (auto simp del: upt_Suc)
  have out: "?l \<notin> set (concat (map (?N T) [0 ..< ?k]))" "?l \<notin> set (concat (map (?N T) [Suc ?k ..< ?n + 1]))"
    using dist l unfolding distinct.simps distinct_append set_append by blast+
  have off: "?l \<notin> set (?N T j)" if "j \<le> ?n" "j \<noteq> ?k" for j
  proof -
    have "j \<in> set [0 ..< ?k] \<or> j \<in> set [Suc ?k ..< ?n + 1]" using that by auto
    then have "set (?N T j) \<subseteq> set (concat (map (?N T) [0 ..< ?k])) \<union> set (concat (map (?N T) [Suc ?k ..< ?n + 1]))"
      unfolding set_concat set_map by blast
    then show ?thesis using out by blast
  qed
  have same: "pointers (node T' i) = pointers (node T i)" "raw (node T' i) = raw (node T i)"
    using Suc.prems(1) i by (auto simp: leaf_changed_def)
  have child: "child T' i = child T i" by (simp add: child_def same fun_eq_iff)
  have sub: "search_tree d E T ?c" "distinct (tree_nodes d T ?c)" using Suc.prems(2) k dist by (auto simp del: upt_Suc)
  obtain A C where IH: "search_tree d E T' ?c" "?N T' ?k = ?N T ?k" "?I T ?k = A @ leaf_inodes (raw (node T ?l)) @ C"
      "?I T' ?k = A @ leaf_inodes r @ C"
  proof -
    have l': "leaf_for d T key ?c = ?l" by simp
    show ?thesis using Suc.IH [of ?c, unfolded l', OF Suc.prems(1) sub Suc.prems(4,5)] that by blast
  qed
  have rest: "search_tree d E T' (child T i j) \<and> ?I T' j = ?I T j \<and> ?N T' j = ?N T j" if "j \<le> ?n" "j \<noteq> ?k" for j
    using unchanged_elsewhere [OF Suc.prems(1), of d E "child T i j"] off [OF that] Suc.prems(2) that by simp
  have range: "in_range T i j (i_no x)" if "j \<le> ?n" "x \<in> set (?I T' j)" for j x
  proof (cases "j = ?k")
    case True
    then have "x \<in> set (?I T ?k) \<or> i_no x = key" using that IH(3,4) Suc.prems(5) by auto
    then show ?thesis using True k Suc.prems(2) index_in_range by auto
  next
    case False
    then show ?thesis using that rest Suc.prems(2) by auto
  qed
  have trees: "search_tree d E T' (child T i j)" if "j \<le> ?n" for j using rest IH(1) that by (cases "j = ?k") auto
  have "?N T' j = ?N T j" if "j \<le> ?n" for j using rest IH(2) that by (cases "j = ?k") auto
  then have N: "concat (map (?N T') [0 ..< Suc ?n]) = concat (map (?N T) [0 ..< Suc ?n])"
    by (auto intro!: arg_cong [of _ _ concat] simp del: upt_Suc)
  have left: "concat (map (?I T') [0 ..< ?k]) = concat (map (?I T) [0 ..< ?k])"
    and right: "concat (map (?I T') [Suc ?k ..< Suc ?n]) = concat (map (?I T) [Suc ?k ..< Suc ?n])"
    using rest k by (auto intro!: arg_cong [of _ _ concat] simp del: upt_Suc)
  let ?A = "concat (map (?I T) [0 ..< ?k]) @ A" and ?C = "C @ concat (map (?I T) [Suc ?k ..< ?n + 1])"
  have "tree_inodes (Suc d) T i = ?A @ leaf_inodes (raw (node T ?l)) @ ?C"
    using map_upt_split [OF k, of "?I T"] IH(3) by simp
  moreover have "tree_inodes (Suc d) T' i = ?A @ leaf_inodes r @ ?C"
    using map_upt_split [OF k, of "?I T'"] IH(4) by (simp add: same child left right del: upt_Suc)
  ultimately have "\<exists>A C. tree_inodes (Suc d) T i = A @ leaf_inodes (raw (node T ?l)) @ C \<and>
      tree_inodes (Suc d) T' i = A @ leaf_inodes r @ C" by (metis (no_types))
  moreover have "branch_ok E (node T' i)" "i < length (mCache T')"
    using Suc.prems(1,2) i by (auto simp: branch_ok_def same leaf_changed_def)
  then have "search_tree (Suc d) E T' i" using range trees by (auto simp: same child in_range_def)
  moreover have "tree_nodes (Suc d) T' i = tree_nodes (Suc d) T i" using N by (simp add: same child del: upt_Suc)
  ultimately show ?case by blast
qed

subsection \<open>Locks\<close>

text \<open>The caches differ in locks and counters only.\<close>

definition same_nodes :: "tree_cache \<Rightarrow> tree_cache \<Rightarrow> bool" where
  "same_nodes T T' \<longleftrightarrow> length (mCache T') = length (mCache T) \<and> mCacheRoot T' = mCacheRoot T \<and>
     mCacheUsage T' = mCacheUsage T \<and>
     (\<forall>i<length (mCache T). raw (node T' i) = raw (node T i) \<and> pointers (node T' i) = pointers (node T i) \<and>
        parent (node T' i) = parent (node T i))"

lemma same_nodes_refl [simp]: "same_nodes T T"
  by (simp add: same_nodes_def)

lemma same_nodes_trans: "same_nodes T T' \<Longrightarrow> same_nodes T' T'' \<Longrightarrow> same_nodes T T''"
  by (simp add: same_nodes_def)

lemma same_nodes_hits: "same_nodes T (hits n T)"
  using hits_rest [of n T] by (auto simp: same_nodes_def node_def)

lemma same_nodes_upd:
  assumes "\<And>m. raw (f m) = raw m" "\<And>m. pointers (f m) = pointers m" "\<And>m. parent (f m) = parent m"
  shows "same_nodes T (upd_node i f T)"
  using assms by (cases "i < length (mCache T)") (auto simp: same_nodes_def upd_node_def node_def nth_list_update)

lemma same_nodes_fold:
  assumes "\<And>x T. same_nodes T (f x T)"
  shows "same_nodes T (fold f xs T)"
  by (induction xs arbitrary: T) (auto intro: same_nodes_trans assms)

lemma same_nodes_lock: "same_nodes T (lockTreeCacheNode E i T)"
  by (auto simp: lockTreeCacheNode_def Let_def split: option.split
      intro!: same_nodes_trans [OF same_nodes_upd same_nodes_fold] same_nodes_upd)

lemma same_nodes_unlock_path: "same_nodes T (unlock_path ps T)"
proof (induction ps T rule: unlock_path.induct)
  case (2 p ps T)
  have "same_nodes T (upd_node p (\<lambda>n. n\<lparr>n_inheritedLock := False\<rparr>) T)" by (rule same_nodes_upd) simp_all
  then show ?case using 2 by (auto simp: Let_def intro: same_nodes_trans)
qed simp

lemma same_nodes_unlock: "same_nodes T (snd (unlockTreeCacheNode E i T))"
  by (auto simp: unlockTreeCacheNode_def Let_def split: option.split
      intro!: same_nodes_trans [OF same_nodes_upd same_nodes_unlock_path] same_nodes_upd)

lemma same_then_changed:
  "same_nodes T T' \<Longrightarrow> leaf_changed l r T' T'' \<Longrightarrow> leaf_changed l r T T''"
  by (simp add: same_nodes_def leaf_changed_def)

subsection \<open>The operations on the list of inodes\<close>

lemma tc_log_event [simp]: "tc (log_event E e s) = tc s"
  using log_event_form [of E e s] by auto

lemma strict_memberD:
  assumes "strict (A @ L @ C)" and "x \<in> set L" and "y \<in> set A \<union> set C"
  shows "i_no y \<noteq> i_no x"
  using assms by (fastforce simp: sorted_wrt_append)

lemma strict_split:
  assumes "strict M" and "c < length M"
  shows "\<forall>x\<in>set (take c M). i_no x < i_no (M ! c)" "\<forall>x\<in>set (drop c M). i_no (M ! c) \<le> i_no x"
proof -
  have "i_no (M ! j) < i_no (M ! k)" if "j < k" "k < length M" for j k
    using sorted_wrt_nth_less [OF assms(1) that(1)] that by simp
  then show "\<forall>x\<in>set (take c M). i_no x < i_no (M ! c)" using assms(2) by (auto simp: in_set_conv_nth)
  have "M ! c = hd (drop c M)" using assms(2) by (simp add: hd_drop_conv_nth)
  moreover have "strict (drop c M)" by (rule sorted_wrt_pieces [OF assms(1)])
  ultimately show "\<forall>x\<in>set (drop c M). i_no (M ! c) \<le> i_no x" by (cases "drop c M") auto
qed

lemma insort_distinct: "distinct (map f (insort_key f x L)) \<Longrightarrow> f x \<notin> f ` set L"
  by (induction L) (auto simp: set_insort_key split: if_splits)

lemma insort_piece:
  assumes "strict (A @ L @ C)" and "strict (A @ insort_key i_no x L @ C)"
  shows "A @ insort_key i_no x L @ C = insort_key i_no x (A @ L @ C)"
proof (rule strict_unique)
  have x: "x \<in> set (insort_key i_no x L)" by (simp add: set_insort_key)
  have "i_no x \<notin> i_no ` (set A \<union> set C)"
  proof
    assume "i_no x \<in> i_no ` (set A \<union> set C)"
    then obtain y where y: "y \<in> set A \<union> set C" and same: "i_no x = i_no y" by (rule imageE)
    then show False using strict_memberD [OF assms(2) x y] by simp
  qed
  moreover have "i_no x \<notin> i_no ` set L"
    by (rule insort_distinct) (use assms(2) in \<open>simp add: strict_sorted_iff del: sorted_wrt_map\<close>)
  ultimately have "i_no x \<notin> i_no ` set (A @ L @ C)" by (simp add: image_Un)
  then show "strict (insort_key i_no x (A @ L @ C))" using assms(1) by (rule sorted_wrt_insort [rotated])
qed (use assms(2) in \<open>auto simp: set_insort_key\<close>)

lemma filter_piece:
  assumes "strict (A @ L @ C)" and "key \<in> i_no ` set L"
  shows "A @ filter (\<lambda>x. i_no x \<noteq> key) L @ C = filter (\<lambda>x. i_no x \<noteq> key) (A @ L @ C)"
proof -
  obtain x where "x \<in> set L" "key = i_no x" using assms(2) by auto
  then have "\<forall>y\<in>set A. i_no y \<noteq> key" "\<forall>y\<in>set C. i_no y \<noteq> key" using strict_memberD [OF assms(1)] by auto
  then have "filter (\<lambda>x. i_no x \<noteq> key) A = A" "filter (\<lambda>x. i_no x \<noteq> key) C = C" by (simp_all add: filter_id_conv)
  then show ?thesis by simp
qed

text \<open>A cached tree whose nodes are all different, with the leaf of a key.\<close>

definition plain_tree :: "'f env \<Rightarrow> tree_cache \<Rightarrow> nat \<Rightarrow> bool" where
  "plain_tree E T d \<longleftrightarrow> search_tree d E T (mCacheRoot T) \<and> distinct (tree_nodes d T (mCacheRoot T))"

lemma target_leaf_ok:
  assumes "plain_tree E T d"
  shows "leaf_ok E (raw (node T (target_leaf T d key)))" "target_leaf T d key < length (mCache T)"
proof -
  have "leaf_ok E (raw (node T (leaf_for d T key i))) \<and> leaf_for d T key i < length (mCache T)"
    if "search_tree d E T i" for i
    using that
  proof (induction d arbitrary: i)
    case (Suc d)
    then show ?case using branch_index_props(1) [of key "raw (node T i)"] by auto
  qed simp
  then show "leaf_ok E (raw (node T (target_leaf T d key)))" "target_leaf T d key < length (mCache T)"
    using assms by (simp_all add: plain_tree_def target_leaf_def)
qed

lemma leaf_change_inodes:
  assumes "leaf_changed (target_leaf T d key) r T T'" and "plain_tree E T d" and "leaf_ok E r"
    and "\<forall>x\<in>set (leaf_inodes r). x \<in> set (leaf_inodes (raw (node T (target_leaf T d key)))) \<or> i_no x = key"
  shows "plain_tree E T' d \<and> strict (inodes_in T d) \<and> strict (inodes_in T' d) \<and>
    (\<exists>A C. inodes_in T d = A @ leaf_inodes (raw (node T (target_leaf T d key))) @ C \<and>
       inodes_in T' d = A @ leaf_inodes r @ C)"
proof -
  have root: "mCacheRoot T' = mCacheRoot T" using assms(1) by (simp add: leaf_changed_def)
  have parts: "search_tree d E T (mCacheRoot T)" "distinct (tree_nodes d T (mCacheRoot T))"
    using assms(2) by (simp_all add: plain_tree_def)
  note change = leaf_change_tree [OF assms(1) [unfolded target_leaf_def] parts assms(3) assms(4) [unfolded target_leaf_def]]
  then show ?thesis
    using tree_inodes_strict parts
    by (auto simp: plain_tree_def inodes_in_def target_leaf_def root)
qed

lemma run_insertIntoLeaf:
  "run_state (insertIntoLeaf l x) s =
    (R_ok, s\<lparr>tc := upd_node l (\<lambda>m. (upd_raw (leaf_insert x) m)\<lparr>n_dirty := True\<rparr>) (tc s)\<rparr>)"
  by (simp add: insertIntoLeaf_def set_node_def)

lemma upd_leaf_changed:
  assumes "l < length (mCache T)"
  shows "leaf_changed l (f (raw (node T l))) T (upd_node l (\<lambda>m. (upd_raw f m)\<lparr>n_dirty := True\<rparr>) T)"
  using assms by (auto simp: leaf_changed_def upd_node_def node_def upd_raw_def nth_list_update)

lemma run_insertInode:
  assumes tree: "cached_tree E (tc s) d" "plain_tree E (tc s) d"
    and room: "keyNo (tc s) (target_leaf (tc s) d (i_no x)) < leafOrder E"
    and new: "i_no x \<notin> set (take (leafOrder E) (n_key (raw (node (tc s) (target_leaf (tc s) d (i_no x))))))"
    and run: "run_state (insertInode E x) s = (r, t)"
  shows "r = R_ok \<and> plain_tree E (tc t) d \<and> inodes_in (tc t) d = insort_key i_no x (inodes_in (tc s) d)"
proof -
  let ?l = "target_leaf (tc s) d (i_no x)" and ?T = "hits (d + 1) (tc s)"
  let ?T1 = "lockTreeCacheNode E ?l ?T" and ?T2 = "snd (unlockTreeCacheNode E ?l (lockTreeCacheNode E ?l ?T))"
  let ?r = "raw (node (tc s) ?l)"
  note ok = target_leaf_ok [OF tree(2), of "i_no x"]
  have same: "same_nodes (tc s) ?T2"
    by (rule same_nodes_trans [OF same_nodes_hits same_nodes_trans [OF same_nodes_lock same_nodes_unlock]])
  then have l2: "raw (node ?T2 ?l) = ?r" "?l < length (mCache ?T2)" using ok(2) by (auto simp: same_nodes_def)
  have need: "calculateMaxNeededNewNodesForInsertion E ?T ?l = 0"
    using room leaf_okD(1) [OF ok(1)] by (simp add: calculateMaxNeededNewNodesForInsertion_def needed_nodes.simps)
  have "t = (log_event E (TreeInsert x) (s\<lparr>tc := ?T2\<rparr>))
      \<lparr>tc := upd_node ?l (\<lambda>m. (upd_raw (leaf_insert x) m)\<lparr>n_dirty := True\<rparr>) ?T2\<rparr> \<and> r = R_ok"
    using run new need room l2(1)
    by (simp add: insertInode_def run_findLeaf [OF tree(1)] reserveNodes_def run_insertIntoLeaf node_at_def)
  then have r: "r = R_ok" and "leaf_changed ?l (leaf_insert x ?r) ?T2 (tc t)"
    using upd_leaf_changed [OF l2(2), of "leaf_insert x"] l2(1) by simp_all
  then have change: "leaf_changed ?l (leaf_insert x ?r) (tc s) (tc t)" using same same_then_changed by blast
  have "i_no x \<notin> set (take (keyNo (tc s) ?l) (n_key ?r))" using new room
    by (meson less_imp_le_nat set_take_subset_set_take subsetD)
  then have fresh: "i_no x \<notin> i_no ` set (leaf_inodes ?r)" using leaf_okD(5) [OF ok(1)] by simp
  note new_ok = leaf_insert_ok [OF ok(1) room fresh] and inodes = leaf_insert_inodes [OF ok(1) room, of x]
  obtain A C where AC: "plain_tree E (tc t) d" "strict (inodes_in (tc s) d)" "strict (inodes_in (tc t) d)"
      "inodes_in (tc s) d = A @ leaf_inodes ?r @ C" "inodes_in (tc t) d = A @ insort_key i_no x (leaf_inodes ?r) @ C"
    using leaf_change_inodes [OF change tree(2) new_ok] inodes by (auto simp: set_insort_key)
  then show ?thesis using r insort_piece [of A "leaf_inodes ?r" C x] by simp
qed

definition no_underflow :: "'f env \<Rightarrow> tree_cache \<Rightarrow> nat \<Rightarrow> bool" where
  "no_underflow E T l \<longleftrightarrow> (if parent (node T l) = Some l then 1 else cut (leafOrder E)) < keyNo T l"

lemma run_deleteEntry_leaf:
  assumes ok: "leaf_ok E (raw (node (tc s) l))" and l: "l < length (mCache (tc s))"
    and mem: "key \<in> i_no ` set (leaf_inodes (raw (node (tc s) l)))" and big: "no_underflow E (tc s) l"
  shows "\<exists>m'. remove_entry E key (node (tc s) l) = Some m' \<and>
     run_state (deleteEntry n E l key) s = (R_ok, s\<lparr>tc := upd_node l (\<lambda>_. m') (tc s)\<rparr>)"
proof -
  let ?m = "node (tc s) l"
  obtain m' where m': "remove_entry E key ?m = Some m'" "leaf_ok E (raw m')" "n_keys (raw m') = n_keys (raw ?m) - 1"
      "parent m' = parent ?m" using remove_entry_leaf [OF ok mem] by blast
  have leaf: "n_isLeaf (raw ?m)" "n_isLeaf (raw m')" using leaf_okD(1) ok m'(2) by blast+
  have at: "node (upd_node l (\<lambda>_. m') (tc s)) l = m'" using l by (simp add: node_def upd_node_def)
  have "run_state (deleteEntry n E l key) s = (R_ok, s\<lparr>tc := upd_node l (\<lambda>_. m') (tc s)\<rparr>)"
    using big m' leaf at
    by (cases "parent ?m = Some l") (auto simp: deleteEntry.simps node_at_def set_node_def no_underflow_def adjustRoot_def)
  then show ?thesis using m'(1) by blast
qed

lemma run_deleteInode:
  assumes tree: "cached_tree E (tc s) d" "plain_tree E (tc s) d" and flags: "\<not> verifyTC E"
    and psm: "pageListHWM (tree_psm (tc s)) = 0" "treeNodeCacheSize E < 2 ^ 16"
    and big: "no_underflow E (tc s) (target_leaf (tc s) d key)"
    and mem: "key \<in> i_no ` set (inodes_in (tc s) d)"
    and run: "run_state (deleteInode E key) s = (r, t)"
  shows "r = R_ok \<and> plain_tree E (tc t) d \<and>
    inodes_in (tc t) d = filter (\<lambda>x. i_no x \<noteq> key) (inodes_in (tc s) d)"
proof -
  let ?l = "target_leaf (tc s) d key" and ?T = "hits (d + 1) (tc s)"
  let ?r = "raw (node (tc s) ?l)" and ?s = "s\<lparr>tc := hits (d + 1) (tc s)\<rparr>"
  note ok = target_leaf_ok [OF tree(2), of key]
  have "lookup_inode (inodes_in (tc s) d) key = findInLeaf ?r key"
    using target_lookup [of d E "tc s"] tree(2) by (simp add: plain_tree_def)
  then have found: "findInLeaf ?r key \<noteq> None" and leaf: "key \<in> i_no ` set (leaf_inodes ?r)"
    using mem findInLeaf_lookup [OF ok(1), of key] lookup_inode_None [of "inodes_in (tc s) d" key]
      lookup_inode_None [of "leaf_inodes ?r" key] by (metis, metis)
  obtain m' where m': "remove_entry E key (node (tc s) ?l) = Some m'"
      "run_state (deleteEntry (walk_bound E) E ?l key) ?s = (R_ok, ?s\<lparr>tc := upd_node ?l (\<lambda>_. m') ?T\<rparr>)"
    using run_deleteEntry_leaf [of E ?s ?l key "walk_bound E"] ok leaf big by (auto simp: no_underflow_def)
  have m'': "leaf_ok E (raw m')" "leaf_inodes (raw m') = filter (\<lambda>x. i_no x \<noteq> key) (leaf_inodes ?r)"
    using remove_entry_leaf [OF ok(1) leaf] m'(1) by auto
  have "tree_psm (upd_node ?l (\<lambda>_. m') ?T) = tree_psm (tc s)"
    using hits_rest [of "d + 1" "tc s"] by (auto simp: upd_node_def)
  then have "r = R_ok \<and> tc t = upd_node ?l (\<lambda>_. m') ?T"
    using run flags found psm m'(2)
    by (auto simp: deleteInode_def run_findLeaf [OF tree(1)] node_at_def commitIfNodesWereRemoved_def
        getMinSpaceLeft_def tree_machine_def)
  moreover have "pointers m' = pointers (node (tc s) ?l)"
    using m'(1) leaf_okD(1) [OF ok(1)] by (auto simp: remove_entry_def Let_def split: if_splits)
  ultimately have r: "r = R_ok" and "leaf_changed ?l (raw m') (tc s) (tc t)"
    using ok(2) by (auto simp: leaf_changed_def upd_node_def node_def nth_list_update)
  then obtain A C where AC: "plain_tree E (tc t) d" "strict (inodes_in (tc s) d)"
      "inodes_in (tc s) d = A @ leaf_inodes ?r @ C" "inodes_in (tc t) d = A @ leaf_inodes (raw m') @ C"
    using leaf_change_inodes [of "tc s" d key "raw m'" "tc t" E] tree(2) m'' by auto
  then show ?thesis using r filter_piece [of A "leaf_inodes ?r" C key] leaf m''(2) by simp
qed

section \<open>The update of an inode\<close>

text \<open>
  The update of an inode that is in a cached tree: exactly this inode is replaced in the list of inodes,
  the tree stays a search tree, and apart from the log nothing else of the device changes.
\<close>

abbreviation replace_inode :: "Inode \<Rightarrow> Inode list \<Rightarrow> Inode list" where
  "replace_inode x L \<equiv> map (\<lambda>y. if i_no y = i_no x then x else y) L"

definition leaf_update :: "nat \<Rightarrow> Inode \<Rightarrow> TreeNode \<Rightarrow> TreeNode" where
  "leaf_update pos x r = r\<lparr>n_inode := (n_inode r)[pos := x]\<rparr>"

lemma replace_nth:
  assumes "strict L" and "k < length L" and "i_no (L ! k) = i_no x"
  shows "replace_inode x L = L[k := x]"
proof (rule nth_equalityI)
  fix j assume "j < length (replace_inode x L)"
  then have j: "j < length L" by simp
  have "distinct (map i_no L)" using assms(1) unfolding strict_sorted_iff by simp
  then have "i_no (L ! j) = i_no x \<longleftrightarrow> j = k" using assms(2,3) j by (metis length_map nth_eq_iff_index_eq nth_map)
  then show "replace_inode x L ! j = L[k := x] ! j" using j by (simp add: nth_list_update)
qed simp

lemma leaf_update_ok:
  assumes "leaf_ok E r" and "pos < n_keys r" and "n_key r ! pos = i_no x"
  shows "leaf_ok E (leaf_update pos x r)" and "leaf_inodes (leaf_update pos x r) = replace_inode x (leaf_inodes r)"
proof -
  have no: "i_no (leaf_inodes r ! pos) = i_no x" "pos < length (leaf_inodes r)"
    using leaf_nth(1) [OF assms(1,2)] leaf_okD(7) [OF assms(1)] assms(2,3) by simp_all
  have "leaf_inodes (leaf_update pos x r) = (leaf_inodes r)[pos := x]"
    by (simp add: leaf_update_def leaf_inodes_def take_update_swap)
  moreover have "replace_inode x (leaf_inodes r) = (leaf_inodes r)[pos := x]"
    by (rule replace_nth [OF leaf_okD(6) [OF assms(1)] no(2,1)])
  ultimately show upd: "leaf_inodes (leaf_update pos x r) = replace_inode x (leaf_inodes r)" by simp
  then have "map i_no (leaf_inodes (leaf_update pos x r)) = map i_no (leaf_inodes r)" by simp
  then show "leaf_ok E (leaf_update pos x r)"
    using assms(1) unfolding leaf_ok_def by (simp only: leaf_update_def) simp
qed

lemma replace_piece:
  assumes "strict (A @ L @ C)" and "i_no x \<in> i_no ` set L"
  shows "A @ replace_inode x L @ C = replace_inode x (A @ L @ C)"
proof -
  obtain z where "z \<in> set L" "i_no x = i_no z" using assms(2) by auto
  then have "\<forall>y\<in>set A \<union> set C. i_no y \<noteq> i_no x" using strict_memberD [OF assms(1)] by auto
  then have "replace_inode x A = A" "replace_inode x C = C" by (simp_all add: map_idI)
  then show ?thesis by simp
qed

lemma cached_tree_changed:
  assumes "cached_tree E T d" and "plain_tree E T' d" and "\<not> verifyTC E"
    and "mCacheRoot T' = mCacheRoot T" and "mCacheUsage T' = mCacheUsage T"
  shows "cached_tree E T' d"
  using assms by (simp add: cached_tree_def plain_tree_def search_tree_shape check_passes_def isIndexUsed_def)

lemma run_updateExistingInode:
  assumes tree: "cached_tree E (tc s) d" "plain_tree E (tc s) d" and "\<not> verifyTC E"
    and mem: "i_no x \<in> i_no ` set (inodes_in (tc s) d)"
  shows "\<exists>m j T. run_state (updateExistingInode E x) s = (R_ok, s\<lparr>mram := m, jr := j, tc := T\<rparr>) \<and>
    cached_tree E T d \<and> plain_tree E T d \<and> inodes_in T d = replace_inode x (inodes_in (tc s) d)"
proof -
  let ?l = "target_leaf (tc s) d (i_no x)" and ?T = "hits (d + 1) (tc s)"
  let ?r = "raw (node (tc s) ?l)"
  define pos where "pos = leaf_position (i_no x) ?r"
  note ok = target_leaf_ok [OF tree(2), of "i_no x"]
  have "lookup_inode (inodes_in (tc s) d) (i_no x) = findInLeaf ?r (i_no x)"
    using target_lookup [of d E "tc s"] tree(2) by (simp add: plain_tree_def)
  then have found: "findInLeaf ?r (i_no x) \<noteq> None" using mem lookup_inode_None by metis
  then have "pos \<noteq> n_keys ?r" by (auto simp: findInLeaf_def pos_def Let_def split: if_splits)
  moreover have "pos \<le> n_keys ?r" by (simp add: pos_def leaf_position_def scan_while_le)
  ultimately have pos: "pos < n_keys ?r" by simp
  then have key: "n_key ?r ! pos = i_no x" using leaf_position_less [OF ok(1)] leaf_nth(1) [OF ok(1) pos] by (simp add: pos_def)
  note upd = leaf_update_ok [OF ok(1) pos key]
  define T where "T = (if n_inode ?r ! pos = x then ?T
    else upd_node ?l (\<lambda>m. (upd_raw (leaf_update pos x) m)\<lparr>n_dirty := True\<rparr>) ?T)"
  obtain m j where log: "log_event E (TreeUpdate x) (s\<lparr>tc := ?T\<rparr>) = (s\<lparr>tc := ?T\<rparr>)\<lparr>mram := m, jr := j\<rparr>"
    by (metis log_event_form)
  have run: "\<exists>m j. run_state (updateExistingInode E x) s = (R_ok, s\<lparr>mram := m, jr := j, tc := T\<rparr>)"
  proof (cases "n_inode ?r ! pos = x")
    case True
    then show ?thesis using pos assms(3)
      by (intro exI [of _ "mram s"] exI [of _ "jr s"])
        (simp add: updateExistingInode_def run_findLeaf [OF tree(1)] node_at_def pos_def T_def)
  next
    case False
    then show ?thesis using pos assms(3) log
      by (intro exI [of _ m] exI [of _ j])
        (simp add: updateExistingInode_def run_findLeaf [OF tree(1)] node_at_def pos_def T_def set_node_def
          leaf_update_def [abs_def])
  qed
  have same: "leaf_update pos x ?r = ?r" if "n_inode ?r ! pos = x"
    using that pos leaf_okD(2,3) [OF ok(1)] by (simp add: leaf_update_def list_update_same_conv)
  have change: "leaf_changed ?l (leaf_update pos x ?r) (tc s) T"
    using ok(2) same by (auto simp: leaf_changed_def T_def upd_node_def node_def nth_list_update upd_raw_def)
  have usage: "mCacheUsage T = mCacheUsage (tc s)" "mCacheRoot T = mCacheRoot (tc s)"
    using hits_rest [of "d + 1" "tc s"] by (auto simp: T_def upd_node_def)
  have L: "i_no x \<in> i_no ` set (leaf_inodes ?r)"
    using found findInLeaf_lookup [OF ok(1)] lookup_inode_None by metis
  have new: "\<forall>y\<in>set (leaf_inodes (leaf_update pos x ?r)). y \<in> set (leaf_inodes ?r) \<or> i_no y = i_no x"
    by (auto simp: upd(2))
  obtain A C where AC: "plain_tree E T d" "strict (inodes_in (tc s) d)"
      "inodes_in (tc s) d = A @ leaf_inodes ?r @ C" "inodes_in T d = A @ replace_inode x (leaf_inodes ?r) @ C"
    using leaf_change_inodes [OF change tree(2) upd(1) new] unfolding upd(2) by blast
  have "inodes_in T d = replace_inode x (inodes_in (tc s) d)"
    using replace_piece [of A "leaf_inodes ?r" C x] AC L by simp
  moreover have "cached_tree E T d" by (rule cached_tree_changed [OF tree(1) AC(1) assms(3) usage(2,1)])
  ultimately show ?thesis using run AC(1) by blast
qed

end
