(* ===== verification/BtreeSplit.thy ===== *)
theory BtreeSplit
  imports BtreeUpdate
begin

text \<open>
  An insertion into a full root leaf: the slots that it takes, and the tree of two leaves below a
  new root that it leaves.
\<close>

subsection \<open>Free slots\<close>

definition slots_ok :: "'f env \<Rightarrow> tree_cache \<Rightarrow> bool" where
  "slots_ok E T \<longleftrightarrow> length (mCacheUsage T) = BitList_byteUsage (treeNodeCacheSize E) \<and>
     length (mCache T) = treeNodeCacheSize E"

lemma free_slot:
  assumes "slots_ok E T" and "0 < freeSlots E T"
  obtains i where "findFirstFreeIndex E T = Some i" "i < treeNodeCacheSize E" "\<not> isIndexUsed E T i"
proof -
  let ?N = "treeNodeCacheSize E"
  have "\<exists>i<?N. \<not> isIndexUsed E T i"
  proof (rule ccontr)
    assume "\<not> (\<exists>i<?N. \<not> isIndexUsed E T i)"
    then have "{i. i < ?N \<and> getBit ?N i (mCacheUsage T)} = {..<?N}" by (auto simp: isIndexUsed_def)
    then have "countSetBits ?N (mCacheUsage T) = ?N" by (simp add: countSetBits_eq count_upto_card)
    then show False using assms(2) by (simp add: freeSlots_def)
  qed
  then obtain i where i: "i < ?N" "\<not> isIndexUsed E T i" "\<forall>j<i. \<not> (j < ?N \<and> \<not> isIndexUsed E T j)"
    using exists_least_iff [of "\<lambda>i. i < ?N \<and> \<not> isIndexUsed E T i"] by auto
  then have "findFirstFree ?N (mCacheUsage T) = Some i"
    using assms(1) by (intro findFirstFree_hit) (auto simp: isIndexUsed_def slots_ok_def)
  then have "findFirstFreeIndex E T = Some i" using i(1) by (simp add: findFirstFreeIndex_def)
  then show ?thesis using that i by blast
qed

lemma free_after_use:
  assumes "slots_ok E T" and "i < treeNodeCacheSize E" and "\<not> isIndexUsed E T i"
  shows "freeSlots E (setIndexUsed E i T) = freeSlots E T - 1"
proof -
  let ?N = "treeNodeCacheSize E"
  have "{j. j < ?N \<and> getBit ?N j (setBit ?N i (mCacheUsage T))} = insert i {j. j < ?N \<and> getBit ?N j (mCacheUsage T)}"
    using assms getBit_setBit [of "mCacheUsage T" ?N i] by (auto simp: slots_ok_def)
  then have "countSetBits ?N (setBit ?N i (mCacheUsage T)) = Suc (countSetBits ?N (mCacheUsage T))"
    using assms(3) by (simp add: countSetBits_eq count_upto_card isIndexUsed_def)
  then show ?thesis by (simp add: freeSlots_def setIndexUsed_def)
qed

lemma used_after_use:
  assumes "slots_ok E T" and "i < treeNodeCacheSize E" and "j < treeNodeCacheSize E"
  shows "isIndexUsed E (setIndexUsed E i T) j \<longleftrightarrow> j = i \<or> isIndexUsed E T j"
  using assms getBit_setBit [of "mCacheUsage T" "treeNodeCacheSize E" i j]
  by (simp add: slots_ok_def isIndexUsed_def setIndexUsed_def)

text \<open>The cache with a new node.\<close>

definition with_new :: "'f env \<Rightarrow> nat \<Rightarrow> tree_cache \<Rightarrow> tree_cache" where
  "with_new E i T = setIndexUsed E i (upd_node i (\<lambda>_. zero_node E) T)"

lemma run_addNewCacheNode:
  assumes "findFirstFreeIndex E (tc s) = Some i"
  shows "run_state (addNewCacheNode E) s = (Inr i, s\<lparr>tc := with_new E i (tc s)\<rparr>)"
  using assms by (simp add: addNewCacheNode_def try_add_def tryAddNewCacheNode_def with_new_def)

lemma same_usage:
  assumes "mCacheUsage T' = mCacheUsage T"
  shows "findFirstFreeIndex E T' = findFirstFreeIndex E T" "freeSlots E T' = freeSlots E T"
    "isIndexUsed E T' = isIndexUsed E T"
  using assms by (simp_all add: findFirstFreeIndex_def freeSlots_def isIndexUsed_def fun_eq_iff)

subsection \<open>Splitting the root leaf\<close>

text \<open>The cache has a new, empty node at \<open>i\<close>, and apart from locks nothing else changed.\<close>

definition node_added :: "'f env \<Rightarrow> nat \<Rightarrow> tree_cache \<Rightarrow> tree_cache \<Rightarrow> bool" where
  "node_added E i T T' \<longleftrightarrow> length (mCache T') = length (mCache T) \<and> mCacheRoot T' = mCacheRoot T \<and>
     mCacheUsage T' = setBit (treeNodeCacheSize E) i (mCacheUsage T) \<and>
     raw (node T' i) = zero_raw E \<and> pointers (node T' i) = replicate (branchOrder E) None \<and>
     (\<forall>k<length (mCache T). k \<noteq> i \<longrightarrow> raw (node T' k) = raw (node T k) \<and>
        pointers (node T' k) = pointers (node T k) \<and> parent (node T' k) = parent (node T k))"

lemma node_added_new:
  assumes "i < length (mCache T)"
  shows "node_added E i T (with_new E i T)"
  using assms by (simp add: node_added_def with_new_def setIndexUsed_def upd_node_def node_def nth_list_update zero_node_def)

lemma same_added: "same_nodes T T' \<Longrightarrow> node_added E i T' T'' \<Longrightarrow> node_added E i T T''"
  by (simp add: same_nodes_def node_added_def)

lemma added_same: "node_added E i T T' \<Longrightarrow> i < length (mCache T) \<Longrightarrow> same_nodes T' T'' \<Longrightarrow> node_added E i T T''"
  by (simp add: same_nodes_def node_added_def)

lemma locked_new:
  assumes "i < length (mCache T)"
  shows "node_added E i T (fold (\<lambda>k T. snd (unlockTreeCacheNode E k T)) is
    (with_new E i (fold (lockTreeCacheNode E) is T)))"
proof -
  have lock: "same_nodes T (fold (lockTreeCacheNode E) is T)" by (rule same_nodes_fold) (rule same_nodes_lock)
  then have "i < length (mCache (fold (lockTreeCacheNode E) is T))" using assms by (simp add: same_nodes_def)
  note added = same_added [OF lock node_added_new [OF this]]
  show ?thesis
    by (rule added_same [OF added assms]) (rule same_nodes_fold, rule same_nodes_unlock)
qed

lemma run_add_locked:
  assumes "findFirstFreeIndex E (tc s) = Some i" and "i < length (mCache (tc s))"
  shows "\<exists>T'. run_state (add_locked E is) s = (Inr i, s\<lparr>tc := T'\<rparr>) \<and> node_added E i (tc s) T'"
proof -
  have "same_nodes (tc s) (fold (lockTreeCacheNode E) is (tc s))" by (rule same_nodes_fold) (rule same_nodes_lock)
  then have "findFirstFreeIndex E (fold (lockTreeCacheNode E) is (tc s)) = Some i"
    using assms(1) same_usage(1) by (metis same_nodes_def)
  then show ?thesis
    using locked_new [OF assms(2), of E "is"]
    by (intro exI [of _ "fold (\<lambda>k T. snd (unlockTreeCacheNode E k T)) is
      (with_new E i (fold (lockTreeCacheNode E) is (tc s)))"]) (simp add: add_locked_def run_addNewCacheNode)
qed

text \<open>The tree of two leaves below a new root.\<close>

definition two_leaves :: "'f env \<Rightarrow> nat \<Rightarrow> TreeNode \<Rightarrow> nat \<Rightarrow> TreeNode \<Rightarrow> InodeNo \<Rightarrow> tree_cache \<Rightarrow> bool" where
  "two_leaves E l a i b key T \<longleftrightarrow> l < length (mCache T) \<and> i < length (mCache T) \<and>
     mCacheRoot T < length (mCache T) \<and> distinct [mCacheRoot T, l, i] \<and>
     raw (node T l) = a \<and> raw (node T i) = b \<and> \<not> n_isLeaf (raw (node T (mCacheRoot T))) \<and>
     keyNo T (mCacheRoot T) = 1 \<and> keyAt T (mCacheRoot T) 0 = key \<and>
     child T (mCacheRoot T) 0 = l \<and> child T (mCacheRoot T) 1 = i \<and>
     pointers (node T (mCacheRoot T)) ! 0 \<noteq> None \<and> pointers (node T (mCacheRoot T)) ! 1 \<noteq> None \<and>
     length (pointers (node T (mCacheRoot T))) = branchOrder E \<and> isIndexUsed E T (mCacheRoot T)"

lemma run_insertIntoNewRoot:
  assumes free: "findFirstFreeIndex E (tc s) = Some j" and size: "2 \<le> branchOrder E" and ok: "slots_ok E (tc s)"
    and idx: "j < length (mCache (tc s))" "l < length (mCache (tc s))" "i < length (mCache (tc s))" "distinct [j, l, i]"
    and run: "run_state (insertIntoNewRoot E l key i) s = (r, t)"
  shows "r = R_ok \<and> two_leaves E l (raw (node (tc s) l)) i (raw (node (tc s) i)) key (tc t)"
proof -
  obtain T' where T': "run_state (add_locked E [l, i]) s = (Inr j, s\<lparr>tc := T'\<rparr>)" "node_added E j (tc s) T'"
    using run_add_locked [OF free idx(1)] by blast
  have slots: "0 < keySlots E" using size by (simp add: keySlots_def)
  have len: "length (mCache T') = length (mCache (tc s))" using T'(2) by (simp add: node_added_def)
  have raws: "raw (node T' l) = raw (node (tc s) l)" "raw (node T' i) = raw (node (tc s) i)" "raw (node T' j) = zero_raw E"
      "pointers (node T' j) = replicate (branchOrder E) None"
    using T'(2) idx by (auto simp: node_added_def)
  have diff: "l \<noteq> j" "i \<noteq> j" "l \<noteq> i" using idx(4) by auto
  have "j < treeNodeCacheSize E" using idx(1) ok by (simp add: slots_ok_def)
  then have "getBit (treeNodeCacheSize E) j (mCacheUsage T')"
    using T'(2) ok getBit_setBit [of "mCacheUsage (tc s)" "treeNodeCacheSize E" j j] by (simp add: node_added_def slots_ok_def)
  then show ?thesis
    using run T'(1) diff idx(1-3) size slots
    by (auto simp: insertIntoNewRoot_def isIndexUsed_def setRoot_def set_node_def upd_node_def node_def [abs_def] nth_list_update
        two_leaves_def child_def len raws [unfolded node_def] zero_raw_def)
qed

lemma run_split_root:
  assumes slots: "slots_ok E (tc s)" "2 \<le> freeSlots E (tc s)" and size: "2 \<le> branchOrder E"
    and root: "isIndexUsed E (tc s) l" "l < length (mCache (tc s))" "parent (node (tc s) l) = Some l"
    and split: "split_leaf E x (raw (node (tc s) l)) (zero_raw E) = (a, b)"
    and run: "run_state (insertIntoLeafAfterSplitting E l x) s = (r, t)"
  shows "\<exists>i. r = R_ok \<and> two_leaves E l a i b (n_key b ! 0 mod 2 ^ 16) (tc t)"
proof -
  let ?T3 = "lockTreeCacheNode E l (tc s)"
  have lock: "same_nodes (tc s) ?T3" by (rule same_nodes_lock)
  then have usage: "mCacheUsage ?T3 = mCacheUsage (tc s)" by (simp add: same_nodes_def)
  obtain i where i: "findFirstFreeIndex E (tc s) = Some i" "i < treeNodeCacheSize E" "\<not> isIndexUsed E (tc s) i"
    using free_slot [OF slots(1)] slots(2) by auto
  have i3: "findFirstFreeIndex E ?T3 = Some i" using same_usage(1) [OF usage, of E] i(1) by simp
  define T5 where "T5 = snd (unlockTreeCacheNode E l (with_new E i ?T3))"
  have idx: "i < length (mCache (tc s))" "l \<noteq> i" using i root(1) slots(1) by (auto simp: slots_ok_def)
  have T5: "node_added E i (tc s) T5"
    using locked_new [OF idx(1), of E "[l]"] by (simp add: T5_def)
  have len: "length (mCache T5) = length (mCache (tc s))" using T5 by (simp add: node_added_def)
  define T6 where "T6 = upd_node i (\<lambda>m. m\<lparr>raw := b, n_dirty := True, parent := Some l\<rparr>)
    (upd_node l (\<lambda>m. m\<lparr>raw := a, n_dirty := True\<rparr>) T5)"
  have raws: "raw (node T5 l) = raw (node (tc s) l)" "raw (node T5 i) = zero_raw E" "parent (node T5 l) = Some l"
    using T5 idx root by (auto simp: node_added_def)
  have T6: "raw (node T6 l) = a" "raw (node T6 i) = b" "parent (node T6 l) = Some l" "length (mCache T6) = length (mCache (tc s))"
      "mCacheUsage T6 = setBit (treeNodeCacheSize E) i (mCacheUsage (tc s))"
    using idx root(2) raws len T5 by (auto simp: T6_def upd_node_def node_def nth_list_update node_added_def)
  have ok6: "slots_ok E T6" using slots(1) T6(4,5) by (simp add: slots_ok_def)
  have "freeSlots E T6 = freeSlots E (tc s) - 1"
    using free_after_use [OF slots(1) i(2,3)] T6(5) by (simp add: freeSlots_def setIndexUsed_def)
  then obtain j where j: "findFirstFreeIndex E T6 = Some j" "j < treeNodeCacheSize E" "\<not> isIndexUsed E T6 j"
    using free_slot [OF ok6] slots(2) by auto
  have used6: "isIndexUsed E T6 k \<longleftrightarrow> k = i \<or> isIndexUsed E (tc s) k" if "k < treeNodeCacheSize E" for k
    using used_after_use [OF slots(1) i(2) that] T6(5) by (simp add: isIndexUsed_def setIndexUsed_def)
  have jidx: "j < length (mCache T6)" "distinct [j, l, i]"
    using j used6 [of j] used6 [of l] root(1,2) idx slots(1) T6(4) by (auto simp: slots_ok_def)
  have "run_state (insertIntoParent (walk_bound E) E l (n_key b ! 0 mod 2 ^ 16) i) (s\<lparr>tc := T6\<rparr>) = (r, t)"
    using run split i3 raws
    by (simp add: insertIntoLeafAfterSplitting_def run_addNewCacheNode set_node_def T6_def T5_def [symmetric])
  then have "run_state (insertIntoNewRoot E l (n_key b ! 0 mod 2 ^ 16) i) (s\<lparr>tc := T6\<rparr>) = (r, t)"
    using T6(3) by (simp add: insertIntoParent.simps)
  from run_insertIntoNewRoot [OF _ size _ _ _ _ _ this, of j] have
    "r = R_ok \<and> two_leaves E l a i b (n_key b ! 0 mod 2 ^ 16) (tc t)"
    using j(1) jidx root(2) idx(1) T6 ok6 by simp
  then show ?thesis by blast
qed

lemma two_leaves_branch:
  assumes "two_leaves E l a i b key T" and "2 \<le> branchOrder E"
  shows "branch_ok E (node T (mCacheRoot T))"
  using assms by (auto simp: two_leaves_def branch_ok_def le_Suc_eq)

lemma two_leaves_tree:
  assumes "two_leaves E l a i b key T" and "2 \<le> branchOrder E" and "leaf_ok E a" and "leaf_ok E b"
  shows "shape_tree 1 E T (mCacheRoot T)" "inodes_in T 1 = leaf_inodes a @ leaf_inodes b"
    "target_leaf T 1 no = (if no < key then l else i)"
    "(\<forall>x\<in>set (leaf_inodes a). i_no x < key) \<Longrightarrow> (\<forall>x\<in>set (leaf_inodes b). key \<le> i_no x) \<Longrightarrow> plain_tree E T 1"
proof -
  note branch = two_leaves_branch [OF assms(1,2)]
  show "shape_tree 1 E T (mCacheRoot T)"
    using assms branch by (auto simp: two_leaves_def le_Suc_eq)
  show "inodes_in T 1 = leaf_inodes a @ leaf_inodes b"
    using assms(1) by (auto simp: two_leaves_def inodes_in_def)
  have "branch_index no (raw (node T (mCacheRoot T))) = (if no < key then 0 else 1)"
    unfolding branch_index_def by (rule scan_while_eqI) (use assms(1) in \<open>auto simp: two_leaves_def split: if_splits\<close>)
  then show "target_leaf T 1 no = (if no < key then l else i)"
    using assms(1) by (simp add: target_leaf_def two_leaves_def)
  show "plain_tree E T 1"
    if "\<forall>x\<in>set (leaf_inodes a). i_no x < key" "\<forall>x\<in>set (leaf_inodes b). key \<le> i_no x"
    using assms branch that by (auto simp: two_leaves_def plain_tree_def in_range_def le_Suc_eq)
qed

text \<open>An insertion into a full root leaf, up to the tree it leaves.\<close>

definition full_root :: "'f env \<Rightarrow> tree_cache \<Rightarrow> bool" where
  "full_root E T \<longleftrightarrow> cached_tree E T 0 \<and> slots_ok E T \<and> 2 \<le> freeSlots E T \<and> 2 \<le> branchOrder E \<and> 0 < leafOrder E \<and>
     parent (node T (mCacheRoot T)) = Some (mCacheRoot T) \<and> keyNo T (mCacheRoot T) = leafOrder E"

lemma run_insert_full_root:
  assumes full: "full_root E (tc s)" and new: "i_no x \<notin> i_no ` set (inodes_in (tc s) 0)"
    and run: "run_state (insertInode E x) s = (r, t)"
  defines "M \<equiv> insort_key i_no x (inodes_in (tc s) 0)" and "c \<equiv> cut (leafOrder E)"
  shows "\<exists>l a i b. r = R_ok \<and> two_leaves E l a i b (i_no (M ! c) mod 2 ^ 16) (tc t) \<and>
     leaf_inodes a = take c M \<and> leaf_inodes b = drop c M \<and> leaf_ok E a \<and> leaf_ok E b"
proof -
  let ?l = "mCacheRoot (tc s)" and ?T = "hits 1 (tc s)"
  let ?T2 = "snd (unlockTreeCacheNode E ?l (lockTreeCacheNode E ?l ?T))" and ?r = "raw (node (tc s) ?l)"
  note F = full [unfolded full_root_def cached_tree_def]
  have ok: "leaf_ok E ?r" and idx: "?l < length (mCache (tc s))" using F by simp_all
  have same: "same_nodes (tc s) ?T2"
    by (rule same_nodes_trans [OF same_nodes_hits same_nodes_trans [OF same_nodes_lock same_nodes_unlock]])
  have same1: "same_nodes (tc s) (lockTreeCacheNode E ?l ?T)" by (rule same_nodes_trans [OF same_nodes_hits same_nodes_lock])
  have len: "length (leaf_inodes ?r) = leafOrder E" using leaf_okD(7) [OF ok] F by simp
  have keys: "i_no x \<notin> set (take (leafOrder E) (n_key ?r))"
    using new leaf_okD(5) [OF ok] F by (simp add: inodes_in_def)
  have need: "calculateMaxNeededNewNodesForInsertion E ?T ?l = 2"
    using F leaf_okD(1) [OF ok] by (simp add: calculateMaxNeededNewNodesForInsertion_def needed_nodes.simps)
  have usage: "mCacheUsage (lockTreeCacheNode E ?l ?T) = mCacheUsage (tc s)" "mCacheUsage ?T2 = mCacheUsage (tc s)"
    using same same1 unfolding same_nodes_def by blast+
  have free: "2 \<le> freeSlots E (lockTreeCacheNode E ?l ?T)" using same_usage(2) [OF usage(1), of E] F by simp
  have leaf: "target_leaf (tc s) 0 (i_no x) = ?l" by (simp add: target_leaf_def)
  have T2: "raw (node ?T2 ?l) = ?r" "length (mCache ?T2) = length (mCache (tc s))" "parent (node ?T2 ?l) = Some ?l"
    using same idx F by (auto simp: same_nodes_def)
  let ?s = "log_event E (TreeInsert x) (s\<lparr>tc := ?T2\<rparr>)"
  have tree: "cached_tree E (tc s) 0" using full by (simp add: full_root_def)
  have run2: "run_state (insertIntoLeafAfterSplitting E ?l x) ?s = (r, t)"
    using run need free keys T2(1) F
    by (simp add: insertInode_def run_findLeaf [OF tree] leaf reserveNodes_def node_at_def)
  obtain a b where split: "split_leaf E x ?r (zero_raw E) = (a, b)" by (metis surj_pair)
  have parts: "leaf_inodes a = take c M" "leaf_inodes b = drop c M" "leaf_ok E a" "leaf_ok E b"
    using split_leaf_parts [OF ok _ _ _ _ split] F new by (simp_all add: M_def c_def inodes_in_def zero_node_def)
  have "length M = leafOrder E + 1" using len by (simp add: M_def inodes_in_def)
  moreover have "c \<le> leafOrder E" by (simp add: c_def cut_le)
  ultimately have "0 < n_keys b" "leaf_inodes b ! 0 = M ! c" using parts(2) leaf_okD(7) [OF parts(4)] by auto
  then have key: "n_key b ! 0 = i_no (M ! c)" using leaf_nth(1) [OF parts(4)] by simp
  have "\<exists>i. r = R_ok \<and> two_leaves E ?l a i b (n_key b ! 0 mod 2 ^ 16) (tc t)"
  proof (rule run_split_root [OF _ _ _ _ _ _ _ run2])
    show "slots_ok E (tc ?s)" using F usage T2(2) by (simp add: slots_ok_def)
    show "2 \<le> freeSlots E (tc ?s)" using same_usage(2) [OF usage(2), of E] F by simp
    show "isIndexUsed E (tc ?s) ?l" using same_usage(3) [OF usage(2), of E] F by simp
  qed (use F T2 idx split in simp_all)
  then show ?thesis using key parts by auto
qed

end
