(* ===== verification/BtreeAbstract.thy ===== *)
theory BtreeAbstract
  imports BtreeSplit
begin

text \<open>
  The B+ tree as a datatype: what a tree in the cache stands for, when it is a search tree, and the
  path from its root to one of its nodes. The slots of the cache are part of the tree, so that
  two parts of it share no node.
\<close>

subsection \<open>Trees\<close>

datatype atree = ALeaf nat "Inode list" | ABranch nat "InodeNo list" "atree list"

fun root_of :: "atree \<Rightarrow> nat" where
  "root_of (ALeaf i L) = i"
| "root_of (ABranch i ks ts) = i"

fun inorder :: "atree \<Rightarrow> Inode list" where
  "inorder (ALeaf i L) = L"
| "inorder (ABranch i ks ts) = concat (map inorder ts)"

fun indices :: "atree \<Rightarrow> nat list" where
  "indices (ALeaf i L) = [i]"
| "indices (ABranch i ks ts) = i # concat (map indices ts)"

fun keys_in :: "atree \<Rightarrow> InodeNo list" where
  "keys_in (ALeaf i L) = []"
| "keys_in (ABranch i ks ts) = ks @ concat (map keys_in ts)"

fun height_is :: "nat \<Rightarrow> atree \<Rightarrow> bool" where
  "height_is n (ALeaf i L) \<longleftrightarrow> n = 0"
| "height_is n (ABranch i ks ts) \<longleftrightarrow> 0 < n \<and> (\<forall>t\<in>set ts. height_is (n - 1) t)"

text \<open>
  The fill that a split leaves and that a deletion keeps up: nodes below the root are half full, and the root has
  two children unless it is a leaf.
\<close>

fun filled :: "'f env \<Rightarrow> atree \<Rightarrow> bool" where
  "filled E (ALeaf i L) \<longleftrightarrow> cut (leafOrder E) \<le> length L"
| "filled E (ABranch i ks ts) \<longleftrightarrow> cut (branchOrder E) \<le> length ks + 1 \<and> (\<forall>t\<in>set ts. filled E t)"

fun root_filled :: "'f env \<Rightarrow> atree \<Rightarrow> bool" where
  "root_filled E (ALeaf i L) \<longleftrightarrow> True"
| "root_filled E (ABranch i ks ts) \<longleftrightarrow> ks \<noteq> [] \<and> (\<forall>t\<in>set ts. filled E t)"

text \<open>The keys of a branch separate the numbers below its children.\<close>

definition numbers :: "atree \<Rightarrow> InodeNo list" where
  "numbers t = map i_no (inorder t) @ keys_in t"

fun separated :: "InodeNo list \<Rightarrow> InodeNo list list \<Rightarrow> bool" where
  "separated [] [L] \<longleftrightarrow> True"
| "separated (k # ks) (L # Ls) \<longleftrightarrow> (\<forall>x\<in>set L. x < k) \<and> (\<forall>x\<in>set (concat Ls). k \<le> x) \<and>
     (\<forall>j\<in>set ks. k < j) \<and> separated ks Ls"
| "separated ks Ls \<longleftrightarrow> False"

fun ordered :: "atree \<Rightarrow> bool" where
  "ordered (ALeaf i L) \<longleftrightarrow> strict L"
| "ordered (ABranch i ks ts) \<longleftrightarrow> separated ks (map numbers ts) \<and> (\<forall>t\<in>set ts. ordered t)"

lemma root_in_indices [simp]: "root_of t \<in> set (indices t)"
  by (cases t) simp_all

lemma separated_length: "separated ks Ls \<Longrightarrow> length Ls = length ks + 1"
  by (induction ks Ls rule: separated.induct) simp_all

lemma separated_append:
  assumes "length Ls1 = length ks1 + 1"
  shows "separated (ks1 @ k # ks2) (Ls1 @ Ls2) \<longleftrightarrow> separated ks1 Ls1 \<and> separated ks2 Ls2 \<and>
    (\<forall>x\<in>set (concat Ls1). x < k) \<and> (\<forall>x\<in>set (concat Ls2). k \<le> x) \<and> (\<forall>j\<in>set ks1. j < k) \<and> (\<forall>j\<in>set ks2. k < j)"
  using assms
proof (induction ks1 Ls1 rule: separated.induct)
  case (2 l ks1 L Ls1)
  then have IH: "separated (ks1 @ k # ks2) (Ls1 @ Ls2) \<longleftrightarrow> separated ks1 Ls1 \<and> separated ks2 Ls2 \<and>
    (\<forall>x\<in>set (concat Ls1). x < k) \<and> (\<forall>x\<in>set (concat Ls2). k \<le> x) \<and> (\<forall>j\<in>set ks1. j < k) \<and> (\<forall>j\<in>set ks2. k < j)"
    by simp
  show ?case
    unfolding append_Cons separated.simps IH by (auto intro: less_trans less_le_trans less_imp_le [THEN order_trans])
qed auto

lemma separated_tail: "separated ks (L # Ls) \<Longrightarrow> \<forall>k\<in>set ks. v < k \<Longrightarrow> \<forall>x\<in>set (concat Ls). v < x"
  by (cases ks; cases Ls) (auto intro: less_le_trans)

lemma separated_head: "separated ks (L # Ls) \<longleftrightarrow> separated ks ([] # Ls) \<and> (\<forall>x\<in>set L. \<forall>k\<in>set ks. x < k)"
  by (cases ks; cases Ls) (auto intro: less_trans)

text \<open>The numbers between the keys beside a child.\<close>

definition fits :: "InodeNo list \<Rightarrow> InodeNo list \<Rightarrow> InodeNo \<Rightarrow> bool" where
  "fits ks1 ks2 n \<longleftrightarrow> (\<forall>k\<in>set ks1. k \<le> n) \<and> (\<forall>k\<in>set ks2. n < k)"

lemma separated_child:
  assumes "length Ls1 = length ks1" and "length Ls2 = length ks2"
  shows "separated (ks1 @ ks2) (Ls1 @ L # Ls2) \<longleftrightarrow> separated (ks1 @ ks2) (Ls1 @ [] # Ls2) \<and> (\<forall>x\<in>set L. fits ks1 ks2 x)"
proof -
  show ?thesis
  proof (cases ks1 rule: rev_cases)
    case Nil
    then show ?thesis using assms(1) separated_head [of ks2 L Ls2] by (simp add: fits_def)
  next
    case (snoc ks k)
    then have "separated (ks1 @ ks2) (Ls1 @ M # Ls2) \<longleftrightarrow> separated ks Ls1 \<and> separated ks2 (M # Ls2) \<and>
      (\<forall>x\<in>set (concat Ls1). x < k) \<and> (\<forall>x\<in>set M \<union> set (concat Ls2). k \<le> x) \<and> (\<forall>j\<in>set ks. j < k) \<and> (\<forall>j\<in>set ks2. k < j)" for M
      using separated_append [of Ls1 ks k ks2 "M # Ls2"] assms(1) by auto
    then show ?thesis using separated_head [of ks2 L Ls2] snoc by (auto simp: fits_def intro: less_imp_le [THEN order_trans])
  qed
qed

lemma separated_split:
  assumes "length Ls1 = length ks1" and "length Ls2 = length ks2" and "separated (ks1 @ ks2) (Ls1 @ [] # Ls2)"
    and "\<forall>n\<in>set ks2. k < n" and "L1 \<noteq> []" and "\<forall>x\<in>set L1 \<union> set L2. fits ks1 ks2 x"
    and "\<forall>x\<in>set L1. x < k" and "\<forall>x\<in>set L2. k \<le> x"
  shows "separated (ks1 @ k # ks2) (Ls1 @ L1 # L2 # Ls2)"
proof -
  obtain y where y: "y \<in> set L1" "y < k" "fits ks1 ks2 y" using assms(5-7) by (cases L1) auto
  then have above: "\<forall>n\<in>set ks1. n < k" by (auto simp: fits_def)
  have both: "separated (ks1 @ ks2) (Ls1 @ L1 # Ls2)" "separated (ks1 @ ks2) (Ls1 @ L2 # Ls2)"
    using separated_child [OF assms(1,2)] assms(3,6) by auto
  have "separated ks1 (Ls1 @ [L1]) \<and> separated ks2 (L2 # Ls2) \<and> (\<forall>x\<in>set (concat Ls1). x < k)"
  proof (cases ks1 rule: rev_cases)
    case Nil
    then show ?thesis using assms(1) both(2) by simp
  next
    case (snoc ks l)
    have l: "l < k" using above snoc by simp
    have "separated ks Ls1 \<and> separated ks2 (L2 # Ls2) \<and> (\<forall>x\<in>set (concat Ls1). x < l) \<and> (\<forall>j\<in>set ks. j < l)"
      using both(2) separated_append [of Ls1 ks l ks2 "L2 # Ls2"] assms(1) snoc by auto
    moreover from this have "separated ks1 (Ls1 @ [L1])"
      using separated_append [of Ls1 ks l "[]" "[L1]"] assms(1,6) snoc by (auto simp: fits_def)
    ultimately show ?thesis using l by (auto intro: less_trans)
  qed
  moreover from this have "\<forall>x\<in>set (concat Ls2). k < x"
    using separated_tail [of ks2 L2 Ls2 k] assms(4) by simp
  ultimately show ?thesis
    using separated_append [of "Ls1 @ [L1]" ks1 k ks2 "L2 # Ls2"] assms above by (auto intro: less_imp_le)
qed

lemma separated_nth:
  assumes "separated ks Ls" and "k \<le> length ks" and "x \<in> set (Ls ! k)"
  shows "0 < k \<Longrightarrow> ks ! (k - 1) \<le> x" and "k < length ks \<Longrightarrow> x < ks ! k" and "fits (take k ks) (drop k ks) x"
proof -
  have k: "k < length Ls" using separated_length [OF assms(1)] assms(2) by simp
  then have "Ls = take k Ls @ Ls ! k # drop (Suc k) Ls" by (simp add: id_take_nth_drop)
  then have "separated (take k ks @ drop k ks) (take k Ls @ Ls ! k # drop (Suc k) Ls)" using assms(1) by simp
  then show fits: "fits (take k ks) (drop k ks) x"
    using separated_child [of "take k Ls" "take k ks" "drop (Suc k) Ls" "drop k ks" "Ls ! k"] k assms separated_length [OF assms(1)]
    by simp
  show "ks ! (k - 1) \<le> x" if "0 < k"
  proof -
    have "ks ! (k - 1) \<in> set (take k ks)" using that assms(2) by (auto simp: in_set_conv_nth intro: exI [of _ "k - 1"])
    then show ?thesis using fits by (simp add: fits_def)
  qed
  show "x < ks ! k" if "k < length ks" using fits that by (simp add: fits_def Cons_nth_drop_Suc [symmetric])
qed

lemma separated_sorted: "separated ks Ls \<Longrightarrow> sorted_wrt (<) ks"
  by (induction ks Ls rule: separated.induct) auto

lemma set_numbers_branch: "set (numbers (ABranch i ks ts)) = set ks \<union> (\<Union>t\<in>set ts. set (numbers t))"
  by (auto simp: numbers_def)

subsection \<open>Paths\<close>

text \<open>The branches from a node up to the root, with the keys and children before and behind it.\<close>

type_synonym frame = "nat \<times> InodeNo list \<times> atree list \<times> InodeNo list \<times> atree list"

fun plug :: "frame list \<Rightarrow> atree \<Rightarrow> atree" where
  "plug [] t = t"
| "plug ((i, ks1, ts1, ks2, ts2) # c) t = plug c (ABranch i (ks1 @ ks2) (ts1 @ t # ts2))"

fun path_left :: "frame list \<Rightarrow> Inode list" where
  "path_left [] = []"
| "path_left ((i, ks1, ts1, ks2, ts2) # c) = path_left c @ concat (map inorder ts1)"

fun path_right :: "frame list \<Rightarrow> Inode list" where
  "path_right [] = []"
| "path_right ((i, ks1, ts1, ks2, ts2) # c) = concat (map inorder ts2) @ path_right c"

fun path_indices :: "frame list \<Rightarrow> nat list" where
  "path_indices [] = []"
| "path_indices ((i, ks1, ts1, ks2, ts2) # c) = i # concat (map indices (ts1 @ ts2)) @ path_indices c"

text \<open>The siblings at each level are \<open>n\<close>, \<open>n + 1\<close>, and so on high.\<close>

fun path_height :: "nat \<Rightarrow> frame list \<Rightarrow> bool" where
  "path_height n [] \<longleftrightarrow> True"
| "path_height n ((i, ks1, ts1, ks2, ts2) # c) \<longleftrightarrow> (\<forall>t\<in>set (ts1 @ ts2). height_is n t) \<and> path_height (Suc n) c"

fun path_fits :: "frame list \<Rightarrow> InodeNo \<Rightarrow> bool" where
  "path_fits [] n \<longleftrightarrow> True"
| "path_fits ((i, ks1, ts1, ks2, ts2) # c) n \<longleftrightarrow> fits ks1 ks2 n \<and> path_fits c n"

fun path_ordered :: "frame list \<Rightarrow> bool" where
  "path_ordered [] \<longleftrightarrow> True"
| "path_ordered ((i, ks1, ts1, ks2, ts2) # c) \<longleftrightarrow> length ts1 = length ks1 \<and> length ts2 = length ks2 \<and>
     separated (ks1 @ ks2) (map numbers ts1 @ [] # map numbers ts2) \<and> (\<forall>t\<in>set (ts1 @ ts2). ordered t) \<and>
     (\<forall>n\<in>set (ks1 @ ks2 @ concat (map numbers (ts1 @ ts2))). path_fits c n) \<and> path_ordered c"

fun path_filled :: "'f env \<Rightarrow> frame list \<Rightarrow> bool" where
  "path_filled E [] \<longleftrightarrow> True"
| "path_filled E ((i, ks1, ts1, ks2, ts2) # c) \<longleftrightarrow>
     (if c = [] then ks1 @ ks2 \<noteq> [] else cut (branchOrder E) \<le> length (ks1 @ ks2) + 1) \<and>
     (\<forall>t\<in>set (ts1 @ ts2). filled E t) \<and> path_filled E c"

text \<open>The slot of the parent of a node; the root is its own.\<close>

fun slot_above :: "frame list \<Rightarrow> nat \<Rightarrow> nat" where
  "slot_above [] i = i"
| "slot_above ((p, ks1, ts1, ks2, ts2) # c) i = p"

lemma inorder_plug: "inorder (plug c t) = path_left c @ inorder t @ path_right c"
  by (induction c t rule: plug.induct) simp_all

lemma indices_plug: "mset (indices (plug c t)) = mset (path_indices c @ indices t)"
  by (induction c t rule: plug.induct) simp_all

lemma filled_plug: "root_filled E (plug c t) \<longleftrightarrow> (if c = [] then root_filled E t else filled E t) \<and> path_filled E c"
  by (induction c t rule: plug.induct) auto

lemma filled_root: "3 \<le> branchOrder E \<Longrightarrow> filled E t \<Longrightarrow> root_filled E t"
  by (cases t) (auto simp: cut_def split: if_splits)

lemma height_plug: "height_is (n + length c) (plug c t) \<longleftrightarrow> height_is n t \<and> path_height n c"
proof (induction c t arbitrary: n rule: plug.induct)
  case (2 i ks1 ts1 ks2 ts2 c t)
  show ?case using "2.IH" [of "Suc n"] by auto
qed simp

lemma ordered_plug:
  assumes "\<forall>(i, ks1, ts1, ks2, ts2)\<in>set c. length ts1 = length ks1 \<and> length ts2 = length ks2"
  shows "ordered (plug c t) \<longleftrightarrow> ordered t \<and> path_ordered c \<and> (\<forall>n\<in>set (numbers t). path_fits c n)"
  using assms
proof (induction c t rule: plug.induct)
  case (2 i ks1 ts1 ks2 ts2 c t)
  let ?b = "ABranch i (ks1 @ ks2) (ts1 @ t # ts2)"
  have IH: "ordered (plug c ?b) \<longleftrightarrow> ordered ?b \<and> path_ordered c \<and> (\<forall>n\<in>set (numbers ?b). path_fits c n)"
    using "2.IH" "2.prems" by simp
  have len: "length ts1 = length ks1" "length ts2 = length ks2" using "2.prems" by simp_all
  have "separated (ks1 @ ks2) (map numbers ts1 @ numbers t # map numbers ts2) \<longleftrightarrow>
      separated (ks1 @ ks2) (map numbers ts1 @ [] # map numbers ts2) \<and> (\<forall>x\<in>set (numbers t). fits ks1 ks2 x)"
    by (rule separated_child) (use len in simp_all)
  then show ?case using len by (auto simp: IH set_numbers_branch)
qed simp

section \<open>The cache that holds a tree\<close>

text \<open>
  The cache holds a tree: each node of the tree is in its slot, with the keys, the children and the
  parent that the tree says. What the locks, the marks of dirty nodes and the other slots of the cache
  are does not matter; a change of other slots keeps the tree.
\<close>

subsection \<open>The nodes of a tree\<close>

abbreviation self_of :: "tree_cache \<Rightarrow> nat \<Rightarrow> Addr" where
  "self_of T i \<equiv> n_self (raw (node T i))"

definition slot :: "'f env \<Rightarrow> tree_cache \<Rightarrow> nat \<Rightarrow> bool" where
  "slot E T i \<longleftrightarrow> i < length (mCache T) \<and> isIndexUsed E T i"

text \<open>The arrays of a branch with the keys \<open>ks\<close>, the children \<open>cs\<close> and their addresses \<open>as\<close>.\<close>

definition branch_arrays :: "'f env \<Rightarrow> TreeCacheNode \<Rightarrow> InodeNo list \<Rightarrow> nat list \<Rightarrow> Addr list \<Rightarrow> bool" where
  "branch_arrays E m ks cs as \<longleftrightarrow>
     \<not> n_isLeaf (raw m) \<and> n_keys (raw m) = length ks \<and> length cs = length ks + 1 \<and> length ks < branchOrder E \<and>
     length (pointers m) = branchOrder E \<and> length (n_key (raw m)) = keySlots E \<and> length (n_addr (raw m)) = branchOrder E \<and>
     take (length ks) (n_key (raw m)) = ks \<and> take (length cs) (pointers m) = map Some cs \<and>
     take (length cs) (n_addr (raw m)) = as"

definition branch_holds :: "'f env \<Rightarrow> tree_cache \<Rightarrow> nat \<Rightarrow> InodeNo list \<Rightarrow> nat list \<Rightarrow> bool" where
  "branch_holds E T i ks cs \<longleftrightarrow> branch_arrays E (node T i) ks cs (map (self_of T) cs)"

text \<open>\<open>p\<close> is the slot of the parent.\<close>

fun holds :: "'f env \<Rightarrow> tree_cache \<Rightarrow> nat \<Rightarrow> atree \<Rightarrow> bool" where
  "holds E T p (ALeaf i L) \<longleftrightarrow> slot E T i \<and> parent (node T i) = Some p \<and> leaf_ok E (raw (node T i)) \<and>
     leaf_inodes (raw (node T i)) = L"
| "holds E T p (ABranch i ks ts) \<longleftrightarrow> slot E T i \<and> parent (node T i) = Some p \<and> branch_holds E T i ks (map root_of ts) \<and>
     (\<forall>t\<in>set ts. holds E T i t)"

text \<open>The path above the node in slot \<open>j\<close>.\<close>

fun path_holds :: "'f env \<Rightarrow> tree_cache \<Rightarrow> frame list \<Rightarrow> nat \<Rightarrow> bool" where
  "path_holds E T [] j \<longleftrightarrow> True"
| "path_holds E T ((i, ks1, ts1, ks2, ts2) # c) j \<longleftrightarrow> length ts1 = length ks1 \<and> length ts2 = length ks2 \<and>
     slot E T i \<and> parent (node T i) = Some (slot_above c i) \<and>
     branch_holds E T i (ks1 @ ks2) (map root_of ts1 @ j # map root_of ts2) \<and>
     (\<forall>t\<in>set (ts1 @ ts2). holds E T i t) \<and> path_holds E T c i"

lemma holds_root: "holds E T p t \<Longrightarrow> slot E T (root_of t) \<and> parent (node T (root_of t)) = Some p"
  by (cases t) simp_all

lemma tree_slots: "holds E T p t \<Longrightarrow> i \<in> set (indices t) \<Longrightarrow> slot E T i"
  by (induction t arbitrary: p) auto

lemma path_slots: "path_holds E T c j \<Longrightarrow> i \<in> set (path_indices c) \<Longrightarrow> slot E T i"
  by (induction c j rule: path_holds.induct) (auto dest: tree_slots)

lemma holds_plug:
  assumes "\<forall>(i, ks1, ts1, ks2, ts2)\<in>set c. length ts1 = length ks1 \<and> length ts2 = length ks2"
  shows "holds E T (root_of (plug c t)) (plug c t) \<longleftrightarrow> path_holds E T c (root_of t) \<and> holds E T (slot_above c (root_of t)) t"
  using assms
proof (induction c t rule: plug.induct)
  case (2 i ks1 ts1 ks2 ts2 c t)
  then show ?case by (auto simp: Ball_def)
qed simp

subsection \<open>Changes of other nodes\<close>

definition core :: "tree_cache \<Rightarrow> nat \<Rightarrow> TreeNode \<times> nat option list \<times> nat option" where
  "core T i = (raw (node T i), pointers (node T i), parent (node T i))"

definition agree :: "'f env \<Rightarrow> nat set \<Rightarrow> tree_cache \<Rightarrow> tree_cache \<Rightarrow> bool" where
  "agree E S T T' \<longleftrightarrow> (\<forall>i\<in>S. slot E T i \<longrightarrow> slot E T' i \<and> core T' i = core T i)"

lemma agreeD:
  assumes "agree E S T T'" and "i \<in> S" and "slot E T i"
  shows "slot E T' i" "raw (node T' i) = raw (node T i)" "pointers (node T' i) = pointers (node T i)"
    "parent (node T' i) = parent (node T i)"
  using assms by (auto simp: agree_def core_def)

lemma agree_mono: "agree E S T T' \<Longrightarrow> S' \<subseteq> S \<Longrightarrow> agree E S' T T'"
  by (auto simp: agree_def)

lemma branch_holds_cong:
  assumes "raw (node T' i) = raw (node T i)" and "pointers (node T' i) = pointers (node T i)"
    and "\<forall>c\<in>set cs. self_of T' c = self_of T c"
  shows "branch_holds E T' i ks cs = branch_holds E T i ks cs"
proof -
  have "map (self_of T') cs = map (self_of T) cs" using assms(3) by simp
  then show ?thesis by (simp only: branch_holds_def branch_arrays_def assms(1,2))
qed

lemma holds_agree: "holds E T p t \<Longrightarrow> agree E (set (indices t)) T T' \<Longrightarrow> holds E T' p t"
proof (induction t arbitrary: p)
  case (ALeaf i L)
  then show ?case using agreeD [of E "{i}" T T' i] by simp
next
  case (ABranch i ks ts)
  have sub: "holds E T i t" "agree E (set (indices t)) T T'" if "t \<in> set ts" for t
    using ABranch.prems that by (auto elim: agree_mono)
  have "self_of T' c = self_of T c" if "c \<in> set (map root_of ts)" for c
    using that sub agreeD(2) [OF sub(2)] holds_root by fastforce
  then have "branch_holds E T' i ks (map root_of ts) = branch_holds E T i ks (map root_of ts)"
    using agreeD [OF ABranch.prems(2), of i] ABranch.prems(1) by (intro branch_holds_cong) simp_all
  then show ?case using ABranch.IH sub agreeD [OF ABranch.prems(2), of i] ABranch.prems(1) by simp
qed

lemma path_holds_agree:
  assumes "path_holds E T c j" and "agree E (set (path_indices c)) T T'" and "self_of T' j = self_of T j"
  shows "path_holds E T' c j"
  using assms
proof (induction E T c j rule: path_holds.induct)
  case (2 E T i ks1 ts1 ks2 ts2 c j)
  have i: "slot E T i" using "2.prems"(1) by simp
  have at: "slot E T' i" "raw (node T' i) = raw (node T i)" "pointers (node T' i) = pointers (node T i)"
    "parent (node T' i) = parent (node T i)" using agreeD [OF "2.prems"(2) _ i] by simp_all
  have sub: "holds E T i t" "agree E (set (indices t)) T T'" if "t \<in> set (ts1 @ ts2)" for t
    using "2.prems"(1,2) that by (auto elim: agree_mono)
  have roots: "self_of T' (root_of t) = self_of T (root_of t)" if "t \<in> set (ts1 @ ts2)" for t
    using agreeD(2) [OF sub(2) [OF that]] holds_root [OF sub(1) [OF that]] by simp
  have "branch_holds E T' i (ks1 @ ks2) (map root_of ts1 @ j # map root_of ts2) =
      branch_holds E T i (ks1 @ ks2) (map root_of ts1 @ j # map root_of ts2)"
    using at roots "2.prems"(3) by (intro branch_holds_cong) auto
  moreover have "path_holds E T' c i" using "2.prems" at by (intro "2.IH") (auto elim: agree_mono)
  moreover have "\<forall>t\<in>set (ts1 @ ts2). holds E T' i t" using sub holds_agree by blast
  ultimately show ?case using "2.prems"(1) at by simp
qed simp

text \<open>A tree below another parent.\<close>

lemma holds_moved:
  assumes "holds E T p t" and "distinct (indices t)" and "agree E (set (indices t) - {root_of t}) T T'"
    and "slot E T' (root_of t)" and "raw (node T' (root_of t)) = raw (node T (root_of t))"
    and "pointers (node T' (root_of t)) = pointers (node T (root_of t))" and "parent (node T' (root_of t)) = Some q"
  shows "holds E T' q t"
proof (cases t)
  case (ALeaf i L)
  then show ?thesis using assms by simp
next
  case (ABranch i ks ts)
  have sub: "holds E T i u" "agree E (set (indices u)) T T'" if "u \<in> set ts" for u
  proof -
    have "set (indices u) \<subseteq> set (indices t) - {root_of t}" using assms(2) that ABranch by auto
    then show "agree E (set (indices u)) T T'" using assms(3) agree_mono by blast
    show "holds E T i u" using assms(1) that ABranch by simp
  qed
  have "self_of T' c = self_of T c" if "c \<in> set (map root_of ts)" for c
    using that sub agreeD(2) [OF sub(2)] holds_root by fastforce
  then have "branch_holds E T' i ks (map root_of ts) = branch_holds E T i ks (map root_of ts)"
    using assms(5,6) ABranch by (intro branch_holds_cong) simp_all
  moreover have "\<forall>u\<in>set ts. holds E T' i u" using sub holds_agree by blast
  ultimately show ?thesis using assms(1,4,7) ABranch by simp
qed

end
