(* ===== verification/BtreeGrow.thy ===== *)
theory BtreeGrow
  imports BtreeAbstract
begin

text \<open>
  The three ways in which \<^verbatim>\<open>Btree::insertIntoParent\<close> places a new node behind its left neighbour: below a
  parent with room, below a parent that is split, and below a new root.
\<close>

subsection \<open>Updates of nodes\<close>

lemma node_upd: "node (upd_node i f T) k = (if k = i \<and> i < length (mCache T) then f (node T i) else node T k)"
  by (cases "i < length (mCache T)") (auto simp: node_def upd_node_def list_update_beyond)

lemma upd_node_rest [simp]:
  "length (mCache (upd_node i f T)) = length (mCache T)" "mCacheRoot (upd_node i f T) = mCacheRoot T"
  "mCacheUsage (upd_node i f T) = mCacheUsage T" "isIndexUsed E (upd_node i f T) = isIndexUsed E T"
  "slot E (upd_node i f T) = slot E T"
  by (simp_all add: upd_node_def isIndexUsed_def slot_def fun_eq_iff)

lemma slot_less: "slot E T i \<Longrightarrow> i < length (mCache T)"
  by (simp add: slot_def)

lemma set_parents_rest [simp]:
  "length (mCache (set_parents p ps T)) = length (mCache T)" "mCacheRoot (set_parents p ps T) = mCacheRoot T"
  "mCacheUsage (set_parents p ps T) = mCacheUsage T" "slot E (set_parents p ps T) = slot E T"
proof -
  have "length (mCache (set_parents p ps T)) = length (mCache T) \<and> mCacheRoot (set_parents p ps T) = mCacheRoot T \<and>
      mCacheUsage (set_parents p ps T) = mCacheUsage T"
    by (induction ps arbitrary: T) (auto simp: set_parents_def split: option.split)
  then show "length (mCache (set_parents p ps T)) = length (mCache T)" "mCacheRoot (set_parents p ps T) = mCacheRoot T"
    "mCacheUsage (set_parents p ps T) = mCacheUsage T" "slot E (set_parents p ps T) = slot E T"
    by (simp_all add: slot_def isIndexUsed_def fun_eq_iff)
qed

lemma node_set_parents:
  "node (set_parents p ps T) k = (if Some k \<in> set ps \<and> k < length (mCache T) then (node T k)\<lparr>parent := Some p\<rparr> else node T k)"
proof (induction ps arbitrary: T)
  case (Cons c ps)
  show ?case
  proof (cases c)
    case None
    then show ?thesis using Cons [of T] by (simp add: set_parents_def)
  next
    case (Some i)
    then show ?thesis using Cons [of "upd_node i (\<lambda>m. m\<lparr>parent := Some p\<rparr>) T"] by (auto simp: set_parents_def node_upd)
  qed
qed (simp add: set_parents_def)

lemma node_added_agree:
  assumes "node_added E j T T'" and "slots_ok E T" and "j < treeNodeCacheSize E"
  shows "agree E (- {j}) T T'" and "slot E T' j" and "slots_ok E T'" and "length (mCache T') = length (mCache T)"
    and "raw (node T' j) = zero_raw E" and "pointers (node T' j) = replicate (branchOrder E) None"
    and "mCacheUsage T' = setBit (treeNodeCacheSize E) j (mCacheUsage T)" and "mCacheRoot T' = mCacheRoot T"
proof -
  have used: "isIndexUsed E T' k \<longleftrightarrow> k = j \<or> isIndexUsed E T k" if "k < treeNodeCacheSize E" for k
    using used_after_use [OF assms(2,3) that] assms(1) by (simp add: node_added_def isIndexUsed_def setIndexUsed_def)
  show "agree E (- {j}) T T'"
    using assms used by (auto simp: agree_def core_def slot_def node_added_def slots_ok_def)
  show "slot E T' j" using assms used by (simp add: slot_def node_added_def slots_ok_def)
  show "slots_ok E T'" using assms by (simp add: slots_ok_def node_added_def)
qed (use assms in \<open>simp_all add: node_added_def\<close>)

subsection \<open>The arrays of a branch\<close>

lemma branch_holdsD:
  assumes "branch_holds E T i ks cs"
  shows "\<not> n_isLeaf (raw (node T i))" "keyNo T i = length ks" "length cs = length ks + 1" "cs \<noteq> []"
    "length ks < branchOrder E" "length (pointers (node T i)) = branchOrder E" "length (n_key (raw (node T i))) = keySlots E"
    "length (n_addr (raw (node T i))) = branchOrder E" "take (length ks) (n_key (raw (node T i))) = ks"
    "take (length cs) (pointers (node T i)) = map Some cs" "take (length cs) (n_addr (raw (node T i))) = map (self_of T) cs"
  using assms unfolding branch_holds_def branch_arrays_def by (blast, blast, blast, force, blast+)

lemma branch_nth:
  assumes "branch_holds E T i ks cs"
  shows "k < length cs \<Longrightarrow> pointers (node T i) ! k = Some (cs ! k)"
    and "k < length cs \<Longrightarrow> n_addr (raw (node T i)) ! k = self_of T (cs ! k)"
    and "k < length ks \<Longrightarrow> keyAt T i k = ks ! k"
proof -
  note branch_holdsD(9-11) [OF assms]
  then show "k < length cs \<Longrightarrow> pointers (node T i) ! k = Some (cs ! k)"
    "k < length cs \<Longrightarrow> n_addr (raw (node T i)) ! k = self_of T (cs ! k)" "k < length ks \<Longrightarrow> keyAt T i k = ks ! k"
    by (metis nth_take nth_map)+
qed

lemma left_index:
  assumes "branch_holds E T p ks (cs1 @ l # cs2)" and "distinct (cs1 @ l # cs2)"
    and "\<forall>c\<in>set cs1. self_of T c \<noteq> 0 \<longrightarrow> self_of T c \<noteq> self_of T l"
  shows "getLeftIndex T p l = length cs1"
proof -
  have n: "keyNo T p = length ks" "length cs1 + length cs2 = length ks"
    using branch_holdsD(2,3) [OF assms(1)] by simp_all
  have before: "pointers (node T p) ! k = Some (cs1 ! k)" "n_addr (raw (node T p)) ! k = self_of T (cs1 ! k)"
    if "k < length cs1" for k
    using branch_nth(1,2) [OF assms(1), of k] that by (simp_all add: nth_append)
  have others: "cs1 ! k \<noteq> l" "self_of T (cs1 ! k) \<noteq> 0 \<Longrightarrow> self_of T (cs1 ! k) \<noteq> self_of T l" if "k < length cs1" for k
    using nth_mem [OF that] assms(2,3) by auto
  have "pointers (node T p) ! length cs1 = Some l" using branch_nth(1) [OF assms(1), of "length cs1"] by simp
  then show ?thesis
    unfolding getLeftIndex_def n
    by (intro scan_while_eqI) (use n before others in auto)
qed

lemma put_at_append: "put_at (length xs) x (xs @ ys) = xs @ x # ys"
  by (simp add: put_at_def)

lemma key_slots: "branchOrder E - 1 \<le> keySlots E"
  by (simp add: keySlots_def)

text \<open>A branch with room gets the key and the child.\<close>

lemma branch_insert_arrays:
  assumes "branch_holds E T p (ks1 @ ks2) (cs1 @ l # cs2)" and "length cs1 = length ks1"
    and "length (ks1 @ ks2) < branchOrder E - 1"
  shows "branch_arrays E (branch_insert (length ks1) key (self_of T r) r (node T p)) (ks1 @ key # ks2) (cs1 @ l # r # cs2)
    (map (self_of T) (cs1 @ l # r # cs2))"
proof -
  let ?r = "raw (node T p)" and ?n = "length (ks1 @ ks2)" and ?cs = "cs1 @ l # cs2"
  note b = branch_holdsD [OF assms(1)]
  have pre: "take (?n + 1) (pointers (node T p)) = map Some ?cs" "take (?n + 1) (n_addr ?r) = map (self_of T) ?cs"
    using b(3,10,11) by simp_all
  have "take (?n + 1) ((shift_up (length ks1) ?n (n_key ?r))[length ks1 := key]) = ks1 @ key # ks2"
    using shift_in_eq [of "length ks1" ?n "n_key ?r" key] b(7,9) assms(3) key_slots [of E] put_at_append [of ks1 key ks2] by simp
  moreover have "take (?n + 2) ((shift_up (length ks1 + 1) (?n + 1) (pointers (node T p)))[length ks1 + 1 := Some r]) =
      map Some (cs1 @ l # r # cs2)"
    using shift_in_eq [of "length ks1 + 1" "?n + 1" "pointers (node T p)" "Some r"] b(6) pre(1) assms(2,3)
      put_at_append [of "map Some cs1 @ [Some l]" "Some r" "map Some cs2"] by simp
  moreover have "take (?n + 2) ((shift_up (length ks1 + 1) (?n + 1) (n_addr ?r))[length ks1 + 1 := self_of T r]) =
      map (self_of T) (cs1 @ l # r # cs2)"
    using shift_in_eq [of "length ks1 + 1" "?n + 1" "n_addr ?r" "self_of T r"] b(8) pre(2) assms(2,3)
      put_at_append [of "map (self_of T) cs1 @ [self_of T l]" "self_of T r" "map (self_of T) cs2"] by simp
  ultimately show ?thesis
    using b(1-8) assms(2,3) unfolding branch_arrays_def by (simp add: branch_insert_def Let_def)
qed

lemma with_gap_append:
  assumes "take n xs = us @ vs" and "n = length us + length vs" and "n \<le> length xs"
  shows "with_gap (length us) n x xs = us @ x # vs"
proof -
  have "take (length us) xs = us" using assms by (metis append_eq_conv_conj take_take min.absorb1 le_add1)
  moreover have "take (n - length us) (drop (length us) xs) = vs"
    using assms by (metis append_eq_conv_conj drop_take)
  ultimately show ?thesis using with_gap_eq [of "length us" n xs x] assms by simp
qed

text \<open>The two halves of a full branch that gets the key and the child.\<close>

lemma split_branch_arrays:
  assumes hold: "branch_holds E T p (ks1 @ ks2) (cs1 @ l # cs2)" and len: "length cs1 = length ks1"
    and full: "length (ks1 @ ks2) = branchOrder E - 1" and size: "3 \<le> branchOrder E"
    and zero: "raw m = zero_raw E" "pointers m = replicate (branchOrder E) None"
    and split: "split_branch E (length ks1) key (self_of T r) r (node T p) m = (old, kPrime, new)"
  defines "K \<equiv> ks1 @ key # ks2" and "C \<equiv> cs1 @ l # r # cs2" and "c \<equiv> cut (branchOrder E)"
  shows "branch_arrays E old (take (c - 1) K) (take c C) (map (self_of T) (take c C)) \<and> kPrime = K ! (c - 1) mod 2 ^ 16 \<and>
    branch_arrays E new (drop c K) (drop c C) (map (self_of T) (drop c C)) \<and> parent old = parent (node T p) \<and>
    n_self (raw old) = self_of T p \<and> n_self (raw new) = 0 \<and>
    take (branchOrder E - c + 1) (pointers new) = map Some (drop c C)"
proof -
  let ?bo = "branchOrder E" and ?r = "raw (node T p)" and ?n = "length (ks1 @ ks2)" and ?cs = "cs1 @ l # cs2"
  note b = branch_holdsD [OF hold]
  have pre: "take (?n + 1) (pointers (node T p)) = map Some ?cs" "take (?n + 1) (n_addr ?r) = map (self_of T) ?cs"
    using b(3,10,11) by simp_all
  have keys: "with_gap (length ks1) (n_keys ?r) key (n_key ?r) = K"
    unfolding b(2) K_def using b(7,9) full key_slots [of E] by (intro with_gap_append) simp_all
  have n: "?n + 1 = length (cs1 @ [l]) + length cs2" "?n + 1 = ?bo" using b(3) full size by simp_all
  have gap: "with_gap (length (map g (cs1 @ [l]))) (?n + 1) (g r) xs = map g (cs1 @ [l]) @ g r # map g cs2"
    if "take (?n + 1) xs = map g ?cs" "length xs = ?bo" for g :: "nat \<Rightarrow> 'b" and xs
    by (rule with_gap_append) (use that n in simp_all)
  have at: "length ks1 + 1 = length (map g (cs1 @ [l]))" for g :: "nat \<Rightarrow> 'b" using len by simp
  have ptrs: "with_gap (length ks1 + 1) (n_keys ?r + 1) (Some r) (pointers (node T p)) = map Some C"
    unfolding b(2) at [of Some] gap [OF pre(1) b(6)] by (simp add: C_def)
  have addrs: "with_gap (length ks1 + 1) (n_keys ?r + 1) (self_of T r) (n_addr ?r) = map (self_of T) C"
    unfolding b(2) at [of "self_of T"] gap [OF pre(2) b(8)] by (simp add: C_def)
  have c: "2 \<le> c" "c < ?bo" using size by (auto simp: c_def cut_def)
  have lens: "length K = ?bo" "length C = ?bo + 1" using full size b(3) by (simp_all add: K_def C_def)
  have slots: "?bo - 1 \<le> keySlots E" by (rule key_slots)
  have eqs: "n_isLeaf (raw old) = n_isLeaf ?r" "n_isLeaf (raw new) = False" "n_keys (raw old) = c - 1" "n_keys (raw new) = ?bo - c"
    "parent old = parent (node T p)" "kPrime = K ! (c - 1) mod 2 ^ 16" "n_self (raw old) = self_of T p" "n_self (raw new) = 0"
    "n_key (raw old) = copy_to c (replicate (?bo - 1 - c) 0) (copy_to 0 (take (c - 1) K) (n_key ?r))"
    "n_addr (raw old) = copy_to c (replicate (?bo - c) 0) (copy_to 0 (map (self_of T) (take c C)) (n_addr ?r))"
    "pointers old = copy_to c (replicate (?bo - c) None) (copy_to 0 (map Some (take c C)) (pointers (node T p)))"
    "n_key (raw new) = copy_to 0 (drop c K) (replicate (keySlots E) 0)"
    "n_addr (raw new) = copy_to 0 (map (self_of T) (drop c C)) (replicate ?bo 0)"
    "pointers new = copy_to 0 (map Some (drop c C)) (replicate ?bo None)"
    using split [unfolded split_branch_def Let_def keys ptrs addrs] lens
    by (auto simp: zero zero_raw_def c_def [symmetric] take_map drop_map)
  have old: "take (c - 1) (n_key (raw old)) = take (c - 1) K" "take c (n_addr (raw old)) = map (self_of T) (take c C)"
    "take c (pointers old) = map Some (take c C)"
    unfolding eqs using lens c b(6-8) slots by (simp_all add: copy_to_eq copy_prefix)
  have new: "take (?bo - c) (n_key (raw new)) = drop c K" "take (?bo + 1 - c) (n_addr (raw new)) = map (self_of T) (drop c C)"
    "take (?bo + 1 - c) (pointers new) = map Some (drop c C)"
    unfolding eqs using lens c slots by (simp_all add: copy_prefix)
  show ?thesis
    using old new eqs(1-8) lens c b(1,6-8) slots
    by (simp add: branch_arrays_def eqs(9-14) Suc_diff_le)
qed

section \<open>The steps of an insertion\<close>

text \<open>
  \<^verbatim>\<open>Btree::insertIntoParent\<close> on the tree that the cache holds: two subtrees take the place of one, and
  the branches above are split up to a new root where they are full.
\<close>

subsection \<open>Nodes that are all different\<close>

definition distinct_nodes :: "tree_cache \<Rightarrow> nat list \<Rightarrow> bool" where
  "distinct_nodes T P \<longleftrightarrow> distinct P \<and> distinct (filter (\<lambda>a. a \<noteq> 0) (map (self_of T) P))"

lemma distinct_nodes_mset:
  assumes "mset P = mset Q"
  shows "distinct_nodes T P = distinct_nodes T Q"
proof -
  have "mset (filter (\<lambda>a. a \<noteq> 0) (map (self_of T) P)) = mset (filter (\<lambda>a. a \<noteq> 0) (map (self_of T) Q))"
    using assms by simp
  then show ?thesis using mset_eq_imp_distinct_iff assms by (metis distinct_nodes_def)
qed

lemma distinct_nodes_cong: "(\<And>i. i \<in> set P \<Longrightarrow> self_of T' i = self_of T i) \<Longrightarrow> distinct_nodes T' P = distinct_nodes T P"
  by (simp add: distinct_nodes_def cong: map_cong)

lemma distinct_nodes_new:
  "self_of T i = 0 \<Longrightarrow> i \<notin> set P \<Longrightarrow> distinct_nodes T P \<Longrightarrow> distinct_nodes T (i # P)"
  by (simp add: distinct_nodes_def)

lemma distinct_nodes_self:
  assumes "distinct_nodes T P" and "a \<in> set P" and "b \<in> set P" and "a \<noteq> b" and "self_of T a \<noteq> 0"
  shows "self_of T a \<noteq> self_of T b"
proof -
  have "distinct (filter (\<lambda>i. self_of T i \<noteq> 0) P)" "distinct (map (self_of T) (filter (\<lambda>i. self_of T i \<noteq> 0) P))"
    using assms(1) by (simp_all add: distinct_nodes_def filter_map comp_def)
  then show ?thesis using assms(2-5) by (auto simp: distinct_map dest: inj_onD)
qed

subsection \<open>Below a parent with room\<close>

lemma agree_rest:
  assumes "\<And>i. i \<in> S \<Longrightarrow> slot E T i \<Longrightarrow> slot E T' i \<and> raw (node T' i) = raw (node T i) \<and>
    pointers (node T' i) = pointers (node T i) \<and> parent (node T' i) = parent (node T i)"
  shows "agree E S T T'"
  using assms by (auto simp: agree_def core_def)

lemma room_step:
  assumes path: "path_holds E T ((p, ks1, ts1, ks2, ts2) # c) (root_of t1)" and t1: "holds E T p t1" and t2: "holds E T p t2"
    and room: "length (ks1 @ ks2) < branchOrder E - 1"
    and dist: "distinct (path_indices ((p, ks1, ts1, ks2, ts2) # c) @ indices t1 @ indices t2)"
    and T': "T' = upd_node (root_of t2) (\<lambda>m. m\<lparr>parent := Some p, n_dirty := True\<rparr>)
      (upd_node p (branch_insert (length ks1) key (self_of T (root_of t2)) (root_of t2)) T)"
  shows "path_holds E T' c p" and "holds E T' (slot_above c p) (ABranch p (ks1 @ key # ks2) (ts1 @ t1 # t2 # ts2))"
    and "self_of T' = self_of T"
proof -
  let ?m = "branch_insert (length ks1) key (self_of T (root_of t2)) (root_of t2) (node T p)"
  let ?cs = "map root_of ts1 @ root_of t1 # root_of t2 # map root_of ts2"
  have r: "slot E T (root_of t2)" "parent (node T (root_of t2)) = Some p" "p \<noteq> root_of t2"
    using holds_root [OF t2] dist root_in_indices [of t2] by auto
  have p: "slot E T p" "path_holds E T c p" "parent (node T p) = Some (slot_above c p)"
    "branch_holds E T p (ks1 @ ks2) (map root_of ts1 @ root_of t1 # map root_of ts2)" "length ts1 = length ks1"
    using path by simp_all
  have raws: "n_self (raw ?m) = self_of T p" "parent ?m = parent (node T p)"
    by (simp_all add: branch_insert_def Let_def)
  show self: "self_of T' = self_of T" using raws r(3) by (auto simp: fun_eq_iff T' node_upd)
  have agree: "agree E (- {p}) T T'"
    using r by (intro agree_rest) (auto simp: T' node_upd)
  have at: "node T' p = ?m" using r(3) slot_less [OF p(1)] by (simp add: T' node_upd)
  show "path_holds E T' c p"
    by (rule path_holds_agree [OF p(2) agree_mono [OF agree]]) (use dist self in \<open>auto simp: fun_eq_iff\<close>)
  have "branch_arrays E ?m (ks1 @ key # ks2) ?cs (map (self_of T) ?cs)"
    by (rule branch_insert_arrays [OF p(4)]) (use p(5) room in simp_all)
  then have "branch_holds E T' p (ks1 @ key # ks2) ?cs" unfolding branch_holds_def at self .
  moreover have "holds E T' p t" if "t \<in> set (ts1 @ t1 # t2 # ts2)" for t
    by (rule holds_agree [OF _ agree_mono [OF agree]]) (use that path t1 t2 dist in auto)
  ultimately show "holds E T' (slot_above c p) (ABranch p (ks1 @ key # ks2) (ts1 @ t1 # t2 # ts2))"
    using p(1,3) raws(2) by (simp add: T' at [unfolded T'])
qed

subsection \<open>Below a new root\<close>

lemma moved_below:
  assumes hold: "holds E T p t" and dist: "distinct (indices t)" and agree: "agree E (- {j}) T T1" and j: "j \<notin> set (indices t)"
    and rest: "\<And>i. i \<in> set (indices t) \<Longrightarrow> i \<noteq> root_of t \<Longrightarrow> core T' i = core T1 i"
    and root: "raw (node T' (root_of t)) = raw (node T1 (root_of t))"
      "pointers (node T' (root_of t)) = pointers (node T1 (root_of t))" "parent (node T' (root_of t)) = Some q"
    and slots: "\<And>i. slot E T1 i \<Longrightarrow> slot E T' i"
  shows "holds E T' q t"
proof (rule holds_moved [OF hold dist])
  have at: "slot E T1 i \<and> core T1 i = core T i" if "i \<in> set (indices t)" for i
    using agree tree_slots [OF hold that] j that by (auto simp: agree_def)
  show "agree E (set (indices t) - {root_of t}) T T'" using at rest slots by (auto simp: agree_def)
  show "slot E T' (root_of t)" "raw (node T' (root_of t)) = raw (node T (root_of t))"
    "pointers (node T' (root_of t)) = pointers (node T (root_of t))" "parent (node T' (root_of t)) = Some q"
    using at [OF root_in_indices] slots root by (auto simp: core_def)
qed

lemma root_step:
  assumes t1: "holds E T p t1" and t2: "holds E T q t2" and dist: "distinct (indices t1 @ indices t2)"
    and added: "node_added E j T T1" and ok: "slots_ok E T" "j < treeNodeCacheSize E" "\<not> isIndexUsed E T j" and size: "3 \<le> branchOrder E"
    and T': "T' = upd_node (root_of t2) (\<lambda>m. m\<lparr>parent := Some j\<rparr>) (upd_node (root_of t1) (\<lambda>m. m\<lparr>parent := Some j\<rparr>)
      (upd_node j (\<lambda>m. m\<lparr>raw := (raw m)\<lparr>n_isLeaf := False, n_key := (n_key (raw m))[0 := key],
              n_addr := (n_addr (raw m))[0 := self_of T1 (root_of t1), 1 := self_of T1 (root_of t2)], n_keys := 1\<rparr>,
            pointers := (pointers m)[0 := Some (root_of t1), 1 := Some (root_of t2)], n_dirty := True, parent := Some j\<rparr>) T1))"
  shows "holds E T' j (ABranch j [key] [t1, t2])" and "self_of T' j = 0" and "i \<noteq> j \<Longrightarrow> slot E T i \<Longrightarrow> self_of T' i = self_of T i"
    and "parent (node T' j) = Some j" and "j \<notin> set (indices t1 @ indices t2)"
proof -
  note new = node_added_agree [OF added ok(1,2)]
  have fresh: "j \<notin> set (indices t1)" "j \<notin> set (indices t2)"
    using tree_slots [OF t1] tree_slots [OF t2] ok(3) by (auto simp: slot_def)
  then show "j \<notin> set (indices t1 @ indices t2)" by simp
  have other: "root_of t1 \<notin> set (indices t2)" "root_of t2 \<notin> set (indices t1)"
    using dist root_in_indices by (meson disjoint_iff distinct_append)+
  then have diff: "root_of t1 \<noteq> root_of t2" "j \<noteq> root_of t1" "j \<noteq> root_of t2"
    using fresh root_in_indices by metis+
  have less: "j < length (mCache T1)" "root_of t1 < length (mCache T1)" "root_of t2 < length (mCache T1)"
    using slot_less [OF new(2)] slot_less [OF conjunct1 [OF holds_root [OF t1]]] slot_less [OF conjunct1 [OF holds_root [OF t2]]] new(4)
    by simp_all
  have at: "node T' j = (node T1 j)\<lparr>raw := (zero_raw E)\<lparr>n_isLeaf := False, n_key := (n_key (zero_raw E))[0 := key],
        n_addr := (n_addr (zero_raw E))[0 := self_of T1 (root_of t1), 1 := self_of T1 (root_of t2)], n_keys := 1\<rparr>,
      pointers := (replicate (branchOrder E) None)[0 := Some (root_of t1), 1 := Some (root_of t2)], n_dirty := True, parent := Some j\<rparr>"
    using diff less new(5,6) by (simp add: T' node_upd)
  then show "parent (node T' j) = Some j" "self_of T' j = 0" by (simp_all add: zero_raw_def)
  have others: "raw (node T' i) = raw (node T1 i)" "pointers (node T' i) = pointers (node T1 i)" if "i \<noteq> j" for i
    using that by (auto simp: T' node_upd)
  show "self_of T' i = self_of T i" if "i \<noteq> j" "slot E T i"
    using others(1) [OF that(1)] agreeD(2) [OF new(1) _ that(2)] that(1) by simp
  have slots: "slot E T1 i \<Longrightarrow> slot E T' i" for i by (simp add: T')
  have "holds E T' j t1"
    by (rule moved_below [OF t1 _ new(1) fresh(1) _ _ _ _ slots])
      (use dist fresh diff less other in \<open>auto simp: T' node_upd core_def\<close>)
  moreover have "holds E T' j t2"
    by (rule moved_below [OF t2 _ new(1) fresh(2) _ _ _ _ slots])
      (use dist fresh diff less other in \<open>auto simp: T' node_upd core_def\<close>)
  moreover have "branch_holds E T' j [key] [root_of t1, root_of t2]"
    using size others(1) diff key_slots [of E]
    by (auto simp: branch_holds_def branch_arrays_def at zero_raw_def take_Suc_conv_app_nth numeral_2_eq_2)
  moreover have "slot E T' j" using new(2) slots by simp
  ultimately show "holds E T' j (ABranch j [key] [t1, t2])" by (simp add: at)
qed

subsection \<open>Below a parent that is split\<close>

lemma branch_arrays_cong:
  "raw m' = raw m \<Longrightarrow> pointers m' = pointers m \<Longrightarrow> branch_arrays E m' ks cs as = branch_arrays E m ks cs as"
  by (simp only: branch_arrays_def)

lemma roots_in: "set (map root_of ts) \<subseteq> set (concat (map indices ts))"
  by (auto intro: root_in_indices)

lemma roots_distinct:
  assumes "distinct (concat (map indices ts))"
  shows "distinct (map root_of ts)"
  using assms
proof (induction ts)
  case (Cons t ts)
  then have "set (indices t) \<inter> set (concat (map indices ts)) = {}" by simp
  then have "root_of t \<notin> set (concat (map indices ts))" using root_in_indices [of t] by blast
  then have "root_of t \<notin> set (map root_of ts)" using roots_in [of ts] by blast
  then show ?case using Cons by simp
qed simp

lemma piece_unique:
  "distinct (concat (map f ts)) \<Longrightarrow> t \<in> set ts \<Longrightarrow> u \<in> set ts \<Longrightarrow> i \<in> set (f t) \<Longrightarrow> i \<in> set (f u) \<Longrightarrow> t = u"
  by (induction ts) auto

lemma subtree_root_unique:
  assumes "distinct (concat (map indices ts))" and "t \<in> set ts" and "u \<in> set ts" and "i \<in> set (indices t)" and "i = root_of u"
  shows "i = root_of t"
  using piece_unique [OF assms(1-4), unfolded assms(5), OF root_in_indices] assms(5) by simp

lemma split_step:
  fixes T :: tree_cache
  assumes path: "path_holds E T ((p, ks1, ts1, ks2, ts2) # c) (root_of t1)" and t1: "holds E T p t1" and t2: "holds E T p t2"
    and full: "length (ks1 @ ks2) = branchOrder E - 1" and size: "3 \<le> branchOrder E"
    and dist: "distinct (path_indices ((p, ks1, ts1, ks2, ts2) # c) @ indices t1 @ indices t2)"
    and j: "slot E T j" "raw (node T j) = zero_raw E" "pointers (node T j) = replicate (branchOrder E) None"
      "j \<notin> set (path_indices ((p, ks1, ts1, ks2, ts2) # c) @ indices t1 @ indices t2)"
    and split: "split_branch E (length ks1) key (self_of T (root_of t2)) (root_of t2) (node T p) (node T j) = (old, kPrime, new)"
    and T': "T' = set_parents j (take (branchOrder E - cut (branchOrder E) + 1) (pointers new))
      (upd_node j (\<lambda>_. new\<lparr>parent := parent old, n_dirty := True\<rparr>) (upd_node p (\<lambda>_. old\<lparr>n_dirty := True\<rparr>) T))"
  defines "K \<equiv> ks1 @ key # ks2" and "TS \<equiv> ts1 @ t1 # t2 # ts2" and "m \<equiv> cut (branchOrder E)"
  shows "path_holds E T' c p" and "holds E T' (slot_above c p) (ABranch p (take (m - 1) K) (take m TS))"
    and "holds E T' (slot_above c p) (ABranch j (drop m K) (drop m TS))" and "kPrime = K ! (m - 1) mod 2 ^ 16"
    and "self_of T' = self_of T"
proof -
  let ?C = "map root_of TS" and ?P = "path_indices c @ p # concat (map indices TS)"
  have p: "slot E T p" "path_holds E T c p" "parent (node T p) = Some (slot_above c p)"
    "branch_holds E T p (ks1 @ ks2) (map root_of ts1 @ root_of t1 # map root_of ts2)" "length ts1 = length ks1"
    using path by simp_all
  have C: "?C = map root_of ts1 @ root_of t1 # root_of t2 # map root_of ts2" by (simp add: TS_def)
  have halves: "branch_arrays E old (take (m - 1) K) (take m ?C) (map (self_of T) (take m ?C))" "kPrime = K ! (m - 1) mod 2 ^ 16"
    "branch_arrays E new (drop m K) (drop m ?C) (map (self_of T) (drop m ?C))" "parent old = parent (node T p)"
    "n_self (raw old) = self_of T p" "n_self (raw new) = 0" "take (branchOrder E - m + 1) (pointers new) = map Some (drop m ?C)"
    using split_branch_arrays [OF p(4) _ full size j(2,3) split] p(5) unfolding K_def m_def C by simp_all
  show "kPrime = K ! (m - 1) mod 2 ^ 16" by (rule halves(2))
  have "mset (path_indices ((p, ks1, ts1, ks2, ts2) # c) @ indices t1 @ indices t2) = mset ?P" by (simp add: TS_def)
  then have P: "distinct ?P" "j \<notin> set ?P" using dist j(4) mset_eq_imp_distinct_iff mset_eq_setD by metis+
  then have jp: "j \<noteq> p" "j \<notin> set (concat (map indices TS))" "p \<notin> set (concat (map indices TS))" "distinct (concat (map indices TS))"
    by auto
  have less: "p < length (mCache T)" "j < length (mCache T)" using slot_less p(1) j(1) by auto
  have sub: "set (drop m ?C) \<subseteq> set (concat (map indices TS))" by (rule subset_trans [OF set_drop_subset roots_in])
  then have out: "p \<notin> set (drop m ?C)" "j \<notin> set (drop m ?C)" using jp(2,3) by blast+
  have T'_form: "T' = set_parents j (map Some (drop m ?C))
      (upd_node j (\<lambda>_. new\<lparr>parent := parent old, n_dirty := True\<rparr>) (upd_node p (\<lambda>_. old\<lparr>n_dirty := True\<rparr>) T))"
    unfolding T' halves(7) [unfolded m_def] m_def ..
  have node: "node T' i = (if i = p then old\<lparr>n_dirty := True\<rparr> else if i = j then new\<lparr>parent := parent old, n_dirty := True\<rparr>
      else if i \<in> set (drop m ?C) \<and> i < length (mCache T) then (node T i)\<lparr>parent := Some j\<rparr> else node T i)" for i
    unfolding T'_form node_set_parents using less jp(1) out by (auto simp: node_upd)
  have slots: "slot E T' = slot E T" by (simp add: T')
  show self: "self_of T' = self_of T" using halves(5,6) j(2) by (auto simp: fun_eq_iff node zero_raw_def)
  have trees: "holds E T p t \<and> distinct (indices t) \<and> p \<notin> set (indices t) \<and> j \<notin> set (indices t)" if "t \<in> set TS" for t
  proof -
    have "distinct (indices t)" using jp(4) that by (auto simp: distinct_concat_iff)
    then show ?thesis using that path t1 t2 jp by (auto simp: TS_def)
  qed
  have same: "node T' i = node T i" if "t \<in> set TS" "i \<in> set (indices t)" "i \<notin> set (drop m ?C)" for t i
    using trees that by (auto simp: node)
  have agree: "agree E (- ({p, j} \<union> set (drop m ?C))) T T'" by (intro agree_rest) (simp add: slots node)
  have "set (path_indices c) \<inter> set (concat (map indices TS)) = {}" using P(1) by simp
  then have "set (path_indices c) \<inter> set (drop m ?C) = {}" using sub by blast
  then show "path_holds E T' c p"
    by (intro path_holds_agree [OF p(2) agree_mono [OF agree]]) (use P self in \<open>auto simp: fun_eq_iff\<close>)
  have disj: "set (take m ?C) \<inter> set (drop m ?C) = {}"
    using roots_distinct [OF jp(4)] by (metis append_take_drop_id distinct_append)
  have left: "holds E T' p t" if "t \<in> set (take m TS)" for t
  proof (rule holds_agree)
    have t: "t \<in> set TS" using that in_set_takeD by fast
    show "holds E T p t" using trees t by blast
    have "i \<notin> set (drop m ?C)" if i: "i \<in> set (indices t)" for i
    proof
      assume "i \<in> set (drop m ?C)"
      then obtain u where "u \<in> set (drop m TS)" "i = root_of u" by (auto simp: drop_map)
      then have "i = root_of t" using subtree_root_unique [OF jp(4) t _ i] in_set_dropD by fast
      then show False using \<open>t \<in> set (take m TS)\<close> \<open>i \<in> set (drop m ?C)\<close> disj by (auto simp: take_map)
    qed
    then show "agree E (set (indices t)) T T'" using trees [OF t] by (intro agree_mono [OF agree]) auto
  qed
  have right: "holds E T' j t" if "t \<in> set (drop m TS)" for t
  proof -
    have t: "t \<in> set TS" using that in_set_dropD by fast
    have root: "root_of t \<in> set (drop m ?C)" using that by (auto simp: drop_map)
    have "i = root_of t" if i: "i \<in> set (indices t)" "i \<in> set (drop m ?C)" for i
    proof -
      obtain u where "u \<in> set (drop m TS)" "i = root_of u" using i(2) by (auto simp: drop_map)
      then show ?thesis using subtree_root_unique [OF jp(4) t _ i(1)] in_set_dropD by fast
    qed
    then have moved: "agree E (set (indices t) - {root_of t}) T T'" using trees [OF t] by (intro agree_mono [OF agree]) auto
    have hold: "holds E T p t" "distinct (indices t)" using trees [OF t] by blast+
    then have at: "slot E T (root_of t)" using holds_root by blast
    have "root_of t \<noteq> p" "root_of t \<noteq> j" using out root by metis+
    then have new: "node T' (root_of t) = (node T (root_of t))\<lparr>parent := Some j\<rparr>"
      using root slot_less [OF at] by (simp only: node if_False simp_thms if_True)
    show ?thesis by (rule holds_moved [OF hold moved]) (simp_all add: slots at new)
  qed
  have "branch_holds E T' p (take (m - 1) K) (take m ?C)" "branch_holds E T' j (drop m K) (drop m ?C)"
    unfolding branch_holds_def self
    using halves(1,3) jp(1) branch_arrays_cong [of "node T' p" old E] branch_arrays_cong [of "node T' j" new E]
    by (simp_all add: node)
  then show "holds E T' (slot_above c p) (ABranch p (take (m - 1) K) (take m TS))"
    "holds E T' (slot_above c p) (ABranch j (drop m K) (drop m TS))"
    using p(1,3) j(1) halves(4) left right jp(1) by (simp_all add: slots node take_map drop_map)
qed

end
