(* ===== verification/BtreeGrowth.thy ===== *)
theory BtreeGrowth
  imports BtreeGrow
begin

text \<open>
  What \<^verbatim>\<open>insertIntoParent\<close> makes of the tree, as a relation on trees, and that the code does it with the
  number of new nodes that it reserves.
\<close>

inductive grows :: "'f env \<Rightarrow> frame list \<Rightarrow> atree \<Rightarrow> InodeNo \<Rightarrow> atree \<Rightarrow> atree \<Rightarrow> bool" for E where
  new_root: "grows E [] t1 k t2 (ABranch j [k] [t1, t2])"
| room: "length (ks1 @ ks2) < branchOrder E - 1 \<Longrightarrow>
    grows E ((i, ks1, ts1, ks2, ts2) # c) t1 k t2 (plug c (ABranch i (ks1 @ k # ks2) (ts1 @ t1 # t2 # ts2)))"
| split: "length (ks1 @ ks2) = branchOrder E - 1 \<Longrightarrow> m = cut (branchOrder E) \<Longrightarrow> K = ks1 @ k # ks2 \<Longrightarrow> TS = ts1 @ t1 # t2 # ts2 \<Longrightarrow>
    grows E c (ABranch i (take (m - 1) K) (take m TS)) (K ! (m - 1)) (ABranch j (drop m K) (drop m TS)) t \<Longrightarrow>
    grows E ((i, ks1, ts1, ks2, ts2) # c) t1 k t2 t"

subsection \<open>The tree stays a search tree\<close>

lemma grows_inorder: "grows E c t1 k t2 t \<Longrightarrow> inorder t = path_left c @ inorder t1 @ inorder t2 @ path_right c"
proof (induction rule: grows.induct)
  case (split ks1 ks2 m K k TS ts1 t1 t2 ts2 c i j t)
  have "concat (map inorder TS) = concat (map inorder (take m TS)) @ concat (map inorder (drop m TS))"
    by (metis append_take_drop_id concat_append map_append)
  then show ?case using split by simp
qed (simp_all add: inorder_plug)

lemma grows_height:
  "grows E c t1 k t2 t \<Longrightarrow> height_is n t1 \<Longrightarrow> height_is n t2 \<Longrightarrow> path_height n c \<Longrightarrow>
   height_is (n + length c) t \<or> height_is (Suc (n + length c)) t"
proof (induction arbitrary: n rule: grows.induct)
  case (room ks1 ks2 i ts1 ts2 c t1 k t2)
  then show ?case using height_plug [of "Suc n" c "ABranch i (ks1 @ k # ks2) (ts1 @ t1 # t2 # ts2)"] by simp
next
  case (split ks1 ks2 m K k TS ts1 t1 t2 ts2 c i j t)
  then have "\<forall>t\<in>set TS. height_is n t" by auto
  then have "\<forall>t\<in>set (take m TS). height_is n t" "\<forall>t\<in>set (drop m TS). height_is n t"
    using in_set_takeD in_set_dropD by fast+
  then show ?case using split.IH [of "Suc n"] split.prems by simp
qed simp

lemma grows_filled:
  "grows E c t1 k t2 t \<Longrightarrow> 3 \<le> branchOrder E \<Longrightarrow> filled E t1 \<Longrightarrow> filled E t2 \<Longrightarrow> path_filled E c \<Longrightarrow> root_filled E t"
proof (induction rule: grows.induct)
  case (split ks1 ks2 m K k TS ts1 t1 t2 ts2 c i j t)
  have "\<forall>t\<in>set TS. filled E t" using split.prems split.hyps(4) by auto
  then have "\<forall>t\<in>set (take m TS). filled E t" "\<forall>t\<in>set (drop m TS). filled E t"
    using in_set_takeD in_set_dropD by fast+
  moreover have "length K = branchOrder E" using split.hyps(1,3) split.prems(1) by simp
  then have "length (take (m - 1) K) + 1 = m" "m \<le> length (drop m K) + 1"
    unfolding length_take length_drop using split.hyps(2) split.prems(1) by (auto simp: cut_def) presburger
  ultimately show ?case using split.IH split.prems(1,4) split.hyps(2) by simp
qed (auto simp: filled_plug)

lemma separated_pieces:
  assumes "separated K Ls" and "0 < m" and "m \<le> length K"
  shows "separated (take (m - 1) K) (take m Ls)" "separated (drop m K) (drop m Ls)"
    "\<forall>x\<in>set (take (m - 1) K) \<union> set (concat (take m Ls)). x < K ! (m - 1)"
    "\<forall>x\<in>set (drop m K) \<union> set (concat (drop m Ls)). K ! (m - 1) \<le> x"
proof -
  have "K = take (m - 1) K @ K ! (m - 1) # drop m K" using id_take_nth_drop [of "m - 1" K] assms(2,3) by simp
  then have "separated (take (m - 1) K @ K ! (m - 1) # drop m K) (take m Ls @ drop m Ls)" using assms(1) by simp
  moreover have "length (take m Ls) = length (take (m - 1) K) + 1" using separated_length [OF assms(1)] assms(2,3) by simp
  ultimately have *: "separated (take (m - 1) K) (take m Ls) \<and> separated (drop m K) (drop m Ls) \<and>
      (\<forall>x\<in>set (concat (take m Ls)). x < K ! (m - 1)) \<and> (\<forall>x\<in>set (concat (drop m Ls)). K ! (m - 1) \<le> x) \<and>
      (\<forall>x\<in>set (take (m - 1) K). x < K ! (m - 1)) \<and> (\<forall>x\<in>set (drop m K). K ! (m - 1) < x)"
    using separated_append by blast
  then show "separated (take (m - 1) K) (take m Ls)" "separated (drop m K) (drop m Ls)"
    "\<forall>x\<in>set (take (m - 1) K) \<union> set (concat (take m Ls)). x < K ! (m - 1)"
    "\<forall>x\<in>set (drop m K) \<union> set (concat (drop m Ls)). K ! (m - 1) \<le> x" by (blast, blast, blast, meson UnE less_imp_le)
qed

lemma set_numbers_leaf: "set (numbers (ALeaf i L)) = i_no ` set L"
  by (simp add: numbers_def)

lemma path_frames: "path_ordered c \<Longrightarrow> \<forall>(i, ks1, ts1, ks2, ts2)\<in>set c. length ts1 = length ks1 \<and> length ts2 = length ks2"
  by (induction c rule: path_ordered.induct) auto

lemma grows_ordered:
  "grows E c t1 k t2 t \<Longrightarrow> 3 \<le> branchOrder E \<Longrightarrow> ordered t1 \<Longrightarrow> ordered t2 \<Longrightarrow> path_ordered c \<Longrightarrow> path_fits c k \<Longrightarrow>
   \<forall>n\<in>set (numbers t1) \<union> set (numbers t2). path_fits c n \<Longrightarrow> numbers t1 \<noteq> [] \<Longrightarrow>
   \<forall>n\<in>set (numbers t1). n < k \<Longrightarrow> \<forall>n\<in>set (numbers t2). k \<le> n \<Longrightarrow> ordered t"
proof (induction rule: grows.induct)
  case (room ks1 ks2 i ts1 ts2 c t1 k t2)
  let ?b = "ABranch i (ks1 @ k # ks2) (ts1 @ t1 # t2 # ts2)"
  have "separated (ks1 @ k # ks2) (map numbers ts1 @ numbers t1 # numbers t2 # map numbers ts2)"
    by (rule separated_split) (use room.prems in \<open>auto simp: fits_def\<close>)
  then have "ordered ?b" using room.prems by auto
  moreover have "\<forall>n\<in>set (numbers ?b). path_fits c n" using room.prems by (auto simp: set_numbers_branch)
  ultimately show ?case using ordered_plug [OF path_frames, of c ?b] room.prems(4) by simp
next
  case (split ks1 ks2 m K k TS ts1 t1 t2 ts2 c i j t)
  let ?a = "ABranch i (take (m - 1) K) (take m TS)" and ?b = "ABranch j (drop m K) (drop m TS)"
  have m: "2 \<le> m" "m \<le> length K" using split.hyps(1-3) split.prems(1) by (auto simp: cut_def)
  have "separated K (map numbers ts1 @ numbers t1 # numbers t2 # map numbers ts2)"
    unfolding split.hyps(3) by (rule separated_split) (use split.prems in \<open>auto simp: fits_def\<close>)
  then have sep: "separated K (map numbers TS)" by (simp add: split.hyps(4))
  note pieces = separated_pieces [OF sep _ m(2)]
  have TS: "\<forall>t\<in>set TS. ordered t" using split.prems by (auto simp: split.hyps(4))
  have fit: "\<forall>n\<in>set K \<union> set (concat (map numbers TS)). path_fits c n" using split.prems by (auto simp: split.hyps(3,4))
  have sets: "set (numbers ?a) = set (take (m - 1) K) \<union> set (concat (take m (map numbers TS)))"
    "set (numbers ?b) = set (drop m K) \<union> set (concat (drop m (map numbers TS)))"
    by (auto simp: set_numbers_branch take_map drop_map)
  have "set (numbers ?a) \<subseteq> set K \<union> set (concat (map numbers TS))" "set (numbers ?b) \<subseteq> set K \<union> set (concat (map numbers TS))"
    unfolding sets by (auto simp: take_map drop_map dest: in_set_takeD in_set_dropD)
  then have fits: "\<forall>n\<in>set (numbers ?a) \<union> set (numbers ?b). path_fits c n" using fit by blast
  have sub: "ordered ?a" "ordered ?b"
    using pieces(1,2) m TS in_set_takeD [of _ m TS] in_set_dropD [of _ m TS] by (auto simp: take_map drop_map)
  have bounds: "\<forall>n\<in>set (numbers ?a). n < K ! (m - 1)" "\<forall>n\<in>set (numbers ?b). K ! (m - 1) \<le> n"
    unfolding sets using pieces(3,4) m(1) by simp_all
  have "numbers ?a \<noteq> []" "path_fits c (K ! (m - 1))" "path_ordered c"
    using m fit split.prems(4) by (auto simp: numbers_def)
  then show ?case by (intro split.IH [OF split.prems(1) sub _ _ fits _ bounds])
qed (auto simp: set_numbers_branch)

subsection \<open>The code\<close>

text \<open>The new nodes that an insertion below the path needs, behind the one that it already has.\<close>

fun new_nodes :: "'f env \<Rightarrow> frame list \<Rightarrow> nat" where
  "new_nodes E [] = 1"
| "new_nodes E ((i, ks1, ts1, ks2, ts2) # c) = (if length (ks1 @ ks2) < branchOrder E - 1 then 0 else 1 + new_nodes E c)"

fun path_keys :: "frame list \<Rightarrow> InodeNo list" where
  "path_keys [] = []"
| "path_keys ((i, ks1, ts1, ks2, ts2) # c) = ks1 @ ks2 @ path_keys c"

text \<open>The root above a node.\<close>

fun top :: "frame list \<Rightarrow> nat \<Rightarrow> nat" where
  "top [] i = i"
| "top ((p, ks1, ts1, ks2, ts2) # c) i = top c p"

lemma root_of_plug: "root_of (plug c t) = top c (root_of t)"
  by (induction c t rule: plug.induct) simp_all

text \<open>Path and subtrees are in the cache.\<close>

definition open_tree :: "'f env \<Rightarrow> tree_cache \<Rightarrow> frame list \<Rightarrow> atree \<Rightarrow> atree \<Rightarrow> bool" where
  "open_tree E T c t1 t2 \<longleftrightarrow> path_holds E T c (root_of t1) \<and> holds E T (slot_above c (root_of t1)) t1 \<and>
     holds E T (slot_above c (root_of t1)) t2 \<and> distinct_nodes T (path_indices c @ indices t1 @ indices t2) \<and>
     slots_ok E T \<and> mCacheRoot T = top c (root_of t1)"

definition closed_tree :: "'f env \<Rightarrow> tree_cache \<Rightarrow> atree \<Rightarrow> bool" where
  "closed_tree E T t \<longleftrightarrow> holds E T (root_of t) t \<and> distinct_nodes T (indices t) \<and> slots_ok E T \<and> mCacheRoot T = root_of t"

lemma open_tree_added:
  assumes tree: "open_tree E T c t1 t2" and added: "node_added E j T T1" and j: "j < treeNodeCacheSize E" "\<not> isIndexUsed E T j"
  shows "open_tree E T1 c t1 t2" and "j \<notin> set (path_indices c @ indices t1 @ indices t2)"
    and "freeSlots E T1 = freeSlots E T - 1" and "mCacheRoot T1 = mCacheRoot T"
proof -
  have before: "path_holds E T c (root_of t1)" "holds E T (slot_above c (root_of t1)) t1" "holds E T (slot_above c (root_of t1)) t2"
    "distinct_nodes T (path_indices c @ indices t1 @ indices t2)" "slots_ok E T" "mCacheRoot T = top c (root_of t1)"
    using tree by (simp_all add: open_tree_def)
  note new = node_added_agree [OF added before(5) j(1)]
  have used: "slot E T i" if "i \<in> set (path_indices c @ indices t1 @ indices t2)" for i
    using that path_slots [OF before(1)] tree_slots [OF before(2)] tree_slots [OF before(3)] by auto
  then show fresh: "j \<notin> set (path_indices c @ indices t1 @ indices t2)" using j(2) by (auto simp: slot_def)
  then have parts: "agree E (set (path_indices c)) T T1" "agree E (set (indices t1)) T T1" "agree E (set (indices t2)) T T1"
    by (auto intro!: agree_mono [OF new(1)])
  have selfs: "self_of T1 i = self_of T i" if "i \<in> set (path_indices c @ indices t1 @ indices t2)" for i
  proof -
    have "i \<noteq> j" using fresh that by metis
    then show ?thesis using agreeD(2) [OF new(1) _ used [OF that]] by simp
  qed
  have "path_holds E T1 c (root_of t1)" by (rule path_holds_agree [OF before(1) parts(1) selfs]) simp
  moreover have "distinct_nodes T1 (path_indices c @ indices t1 @ indices t2)"
    using distinct_nodes_cong [OF selfs] before(4) by blast
  ultimately show "open_tree E T1 c t1 t2"
    using holds_agree [OF before(2) parts(2)] holds_agree [OF before(3) parts(3)] new(3,8) before(6) by (simp add: open_tree_def)
  show "freeSlots E T1 = freeSlots E T - 1"
    using free_after_use [OF before(5) j] new(7) by (simp add: freeSlots_def setIndexUsed_def)
  show "mCacheRoot T1 = mCacheRoot T" by (rule new(8))
qed

lemma added_free:
  assumes "slots_ok E (tc s)" and "0 < freeSlots E (tc s)"
  obtains j T1 where "run_state (add_locked E is) s = (Inr j, s\<lparr>tc := T1\<rparr>)" "node_added E j (tc s) T1"
    "j < treeNodeCacheSize E" "\<not> isIndexUsed E (tc s) j"
proof -
  obtain j where j: "findFirstFreeIndex E (tc s) = Some j" "j < treeNodeCacheSize E" "\<not> isIndexUsed E (tc s) j"
    using free_slot [OF assms] by blast
  then show ?thesis using run_add_locked [OF j(1), of "is"] assms(1) that by (auto simp: slots_ok_def)
qed

lemma run_below_new_root:
  assumes tree: "open_tree E (tc s) [] t1 t2" and size: "3 \<le> branchOrder E" and free: "0 < freeSlots E (tc s)"
  shows "\<exists>t T. run_state (insertIntoNewRoot E (root_of t1) key (root_of t2)) s = (R_ok, s\<lparr>tc := T\<rparr>) \<and>
     grows E [] t1 key t2 t \<and> closed_tree E T t \<and> freeSlots E T = freeSlots E (tc s) - 1"
proof -
  have parts: "holds E (tc s) (root_of t1) t1" "holds E (tc s) (root_of t1) t2" "distinct (indices t1 @ indices t2)" "slots_ok E (tc s)"
    using tree by (simp_all add: open_tree_def distinct_nodes_def)
  obtain j T1 where add: "run_state (add_locked E [root_of t1, root_of t2]) s = (Inr j, s\<lparr>tc := T1\<rparr>)"
    and new: "node_added E j (tc s) T1" "j < treeNodeCacheSize E" "\<not> isIndexUsed E (tc s) j"
    using added_free [OF parts(4) free] by blast
  note added = open_tree_added [OF tree new]
  define T' where "T' = upd_node (root_of t2) (\<lambda>m. m\<lparr>parent := Some j\<rparr>) (upd_node (root_of t1) (\<lambda>m. m\<lparr>parent := Some j\<rparr>)
      (upd_node j (\<lambda>m. m\<lparr>raw := (raw m)\<lparr>n_isLeaf := False, n_key := (n_key (raw m))[0 := key],
              n_addr := (n_addr (raw m))[0 := self_of T1 (root_of t1), 1 := self_of T1 (root_of t2)], n_keys := 1\<rparr>,
            pointers := (pointers m)[0 := Some (root_of t1), 1 := Some (root_of t2)], n_dirty := True, parent := Some j\<rparr>) T1))"
  note step = root_step [OF parts(1-3) new(1) parts(4) new(2,3) size T'_def]
  let ?t = "ABranch j [key] [t1, t2]" and ?T = "T'\<lparr>mCacheRoot := j\<rparr>"
  have same: "node ?T = node T'" "slot E ?T = slot E T'" by (simp_all add: node_def slot_def isIndexUsed_def fun_eq_iff)
  have "run_state (insertIntoNewRoot E (root_of t1) key (root_of t2)) s = (R_ok, s\<lparr>tc := ?T\<rparr>)"
    using step(4) by (simp add: insertIntoNewRoot_def add set_node_def setRoot_def T'_def)
  moreover have "holds E ?T j ?t"
    by (rule holds_agree [OF step(1)]) (simp add: agree_def core_def same)
  moreover have "distinct_nodes ?T (indices ?t)"
  proof -
    have "self_of T' i = self_of (tc s) i" if "i \<in> set (indices t1 @ indices t2)" for i
    proof -
      have "i \<noteq> j" using that step(5) by metis
      moreover have "slot E (tc s) i" using that tree_slots [OF parts(1)] tree_slots [OF parts(2)] by auto
      ultimately show ?thesis by (rule step(3))
    qed
    then have "distinct_nodes T' (indices t1 @ indices t2)"
      using distinct_nodes_cong [of "indices t1 @ indices t2" T' "tc s"] tree by (simp add: open_tree_def)
    then show ?thesis using distinct_nodes_new [OF step(2,5)] by (simp add: distinct_nodes_def same)
  qed
  moreover have "slots_ok E T1" "freeSlots E T1 = freeSlots E (tc s) - 1" using added by (simp_all add: open_tree_def)
  then have "slots_ok E ?T" "freeSlots E ?T = freeSlots E (tc s) - 1" by (simp_all add: slots_ok_def T'_def freeSlots_def)
  ultimately show ?thesis
    using grows.new_root [of E t1 key t2 j] by (intro exI [of _ ?t] exI [of _ ?T]) (simp add: closed_tree_def)
qed

lemma path_holds_frames:
  "path_holds E T c j \<Longrightarrow> \<forall>(i, ks1, ts1, ks2, ts2)\<in>set c. length ts1 = length ks1 \<and> length ts2 = length ks2"
  by (induction E T c j rule: path_holds.induct) auto

text \<open>The tree before the split, with the path taken apart.\<close>

lemma open_frame:
  assumes "open_tree E T ((p, ks1, ts1, ks2, ts2) # c) t1 t2"
  shows "parent (node T (root_of t1)) = Some p" and "p \<noteq> root_of t1" and "getLeftIndex T p (root_of t1) = length ks1"
    and "keyNo T p = length (ks1 @ ks2)" and "length (ks1 @ ks2) < branchOrder E"
proof -
  let ?P = "path_indices ((p, ks1, ts1, ks2, ts2) # c) @ indices t1 @ indices t2"
  have path: "branch_holds E T p (ks1 @ ks2) (map root_of ts1 @ root_of t1 # map root_of ts2)" "length ts1 = length ks1"
    "holds E T p t1" and nodes: "distinct_nodes T ?P" using assms by (simp_all add: open_tree_def)
  then show "parent (node T (root_of t1)) = Some p" using holds_root by blast
  show "keyNo T p = length (ks1 @ ks2)" "length (ks1 @ ks2) < branchOrder E" by (rule branch_holdsD(2,5) [OF path(1)])+
  have dist: "distinct ?P" using nodes by (simp add: distinct_nodes_def)
  then have "p \<notin> set (indices t1)" by simp
  then show "p \<noteq> root_of t1" using root_in_indices [of t1] by metis
  have "mset (concat (map indices (ts1 @ t1 # ts2)) @ p # path_indices c @ indices t2) = mset ?P" by simp
  then have "distinct (concat (map indices (ts1 @ t1 # ts2)) @ p # path_indices c @ indices t2)"
    using dist mset_eq_imp_distinct_iff by metis
  then have "distinct (concat (map indices (ts1 @ t1 # ts2)))" unfolding distinct_append by blast
  then have "distinct (map root_of (ts1 @ t1 # ts2))" by (rule roots_distinct)
  then have roots: "distinct (map root_of ts1 @ root_of t1 # map root_of ts2)" by (simp only: map_append list.map)
  have "self_of T i \<noteq> self_of T (root_of t1)" if "i \<in> set (map root_of ts1)" "self_of T i \<noteq> 0" for i
  proof (rule distinct_nodes_self [OF nodes _ _ _ that(2)])
    show "i \<in> set ?P" using that(1) roots_in [of ts1] by auto
    show "i \<noteq> root_of t1" using roots that(1) by (metis disjoint_insert(1) distinct_append list.simps(15))
  qed simp
  then show "getLeftIndex T p (root_of t1) = length ks1" using left_index [OF path(1) roots] path(2) by simp
qed

lemma run_below_room:
  assumes tree: "open_tree E (tc s) ((p, ks1, ts1, ks2, ts2) # c) t1 t2" and room: "length (ks1 @ ks2) < branchOrder E - 1"
  shows "\<exists>t T. run_state (insertIntoNode p (length ks1) key (root_of t2)) s = (R_ok, s\<lparr>tc := T\<rparr>) \<and>
     grows E ((p, ks1, ts1, ks2, ts2) # c) t1 key t2 t \<and> closed_tree E T t \<and> freeSlots E T = freeSlots E (tc s)"
proof -
  let ?f = "(p, ks1, ts1, ks2, ts2)" and ?P = "path_indices ((p, ks1, ts1, ks2, ts2) # c) @ indices t1 @ indices t2"
  have parts: "path_holds E (tc s) (?f # c) (root_of t1)" "holds E (tc s) p t1" "holds E (tc s) p t2" "distinct ?P"
    "distinct_nodes (tc s) ?P" "slots_ok E (tc s)" "mCacheRoot (tc s) = top c p"
    using tree by (simp_all add: open_tree_def distinct_nodes_def)
  define T where "T = upd_node (root_of t2) (\<lambda>m. m\<lparr>parent := Some p, n_dirty := True\<rparr>)
      (upd_node p (branch_insert (length ks1) key (self_of (tc s) (root_of t2)) (root_of t2)) (tc s))"
  note step = room_step [OF parts(1-3) room parts(4) T_def]
  let ?b = "ABranch p (ks1 @ key # ks2) (ts1 @ t1 # t2 # ts2)"
  have frames: "\<forall>(i, ks1, ts1, ks2, ts2)\<in>set c. length ts1 = length ks1 \<and> length ts2 = length ks2"
    using path_holds_frames [OF parts(1)] by simp
  have "holds E T (root_of (plug c ?b)) (plug c ?b)" using holds_plug [OF frames, of E T ?b] step(1,2) by simp
  moreover have "mset (indices (plug c ?b)) = mset ?P" by (simp add: indices_plug)
  then have "distinct_nodes T (indices (plug c ?b))"
    using distinct_nodes_mset [of "indices (plug c ?b)" ?P T] distinct_nodes_cong [of ?P T "tc s"] step(3) parts(5) by (simp add: fun_eq_iff)
  moreover have "slots_ok E T" "mCacheRoot T = root_of (plug c ?b)" "freeSlots E T = freeSlots E (tc s)"
    using parts(6,7) by (simp_all add: T_def slots_ok_def root_of_plug freeSlots_def)
  moreover have "run_state (insertIntoNode p (length ks1) key (root_of t2)) s = (R_ok, s\<lparr>tc := T\<rparr>)"
    by (simp add: insertIntoNode_def set_node_def node_at_def T_def)
  ultimately show ?thesis
    using grows.room [OF room, of p ts1 ts2 c t1 key t2] by (intro exI [of _ "plug c ?b"] exI [of _ T]) (simp add: closed_tree_def)
qed

lemma run_below_full:
  assumes tree: "open_tree E (tc s) ((p, ks1, ts1, ks2, ts2) # c) t1 t2" and full: "length (ks1 @ ks2) = branchOrder E - 1"
    and size: "3 \<le> branchOrder E" and free: "0 < freeSlots E (tc s)" and small: "\<forall>k\<in>set (ks1 @ key # ks2). k < 2 ^ 16"
  defines "K \<equiv> ks1 @ key # ks2" and "TS \<equiv> ts1 @ t1 # t2 # ts2" and "m \<equiv> cut (branchOrder E)"
  shows "\<exists>T j. run_state (insertIntoParent (Suc n) E (root_of t1) key (root_of t2)) s =
       run_state (insertIntoParent n E p (K ! (m - 1)) j) (s\<lparr>tc := T\<rparr>) \<and>
     open_tree E T c (ABranch p (take (m - 1) K) (take m TS)) (ABranch j (drop m K) (drop m TS)) \<and>
     freeSlots E T = freeSlots E (tc s) - 1"
proof -
  let ?c = "(p, ks1, ts1, ks2, ts2) # c" and ?bo = "branchOrder E"
  let ?P = "path_indices ?c @ indices t1 @ indices t2"
  note top = open_frame [OF tree]
  obtain j T1 where add: "run_state (add_locked E [p, root_of t2]) s = (Inr j, s\<lparr>tc := T1\<rparr>)"
    and new: "node_added E j (tc s) T1" "j < treeNodeCacheSize E" "\<not> isIndexUsed E (tc s) j"
    using added_free [of E s "[p, root_of t2]"] tree free by (auto simp: open_tree_def)
  note added = open_tree_added [OF tree new]
  have ok: "slots_ok E (tc s)" using tree by (simp add: open_tree_def)
  note slot = node_added_agree(2,5,6) [OF new(1) ok new(2)]
  have parts: "path_holds E T1 ?c (root_of t1)" "holds E T1 p t1" "holds E T1 p t2" "distinct ?P"
    "distinct_nodes T1 ?P" "slots_ok E T1" "mCacheRoot T1 = top c p"
    using added(1) by (simp_all add: open_tree_def distinct_nodes_def)
  obtain old kPrime new where split: "split_branch E (length ks1) key (self_of T1 (root_of t2)) (root_of t2) (node T1 p) (node T1 j) =
      (old, kPrime, new)" by (metis surj_pair)
  define T where "T = set_parents j (take (?bo - cut ?bo + 1) (pointers new))
      (upd_node j (\<lambda>_. new\<lparr>parent := parent old, n_dirty := True\<rparr>) (upd_node p (\<lambda>_. old\<lparr>n_dirty := True\<rparr>) T1))"
  note step = split_step [OF parts(1-3) full size parts(4) slot added(2) split T_def, folded K_def TS_def m_def]
  let ?a = "ABranch p (take (m - 1) K) (take m TS)" and ?b = "ABranch j (drop m K) (drop m TS)"
  have "m - 1 < length K" using full size by (auto simp: K_def m_def cut_def)
  then have "K ! (m - 1) < 2 ^ 16" using small nth_mem unfolding K_def by blast
  then have key: "kPrime = K ! (m - 1)" using step(4) by simp
  have "run_state (insertIntoParent (Suc n) E (root_of t1) key (root_of t2)) s =
      run_state (insertIntoParent n E p (K ! (m - 1)) j) (s\<lparr>tc := T\<rparr>)"
    using top(1-4) full add split key
    by (subst insertIntoParent.simps) (simp add: set_node_def T_def del: length_append)
  moreover have "mset (path_indices c @ indices ?a @ indices ?b) = mset (j # ?P)"
  proof -
    have "mset (concat (map indices (take m TS))) + mset (concat (map indices (drop m TS))) = mset (concat (map indices TS))"
      by (metis append_take_drop_id concat_append map_append mset_append)
    moreover have "mset (concat (map indices TS)) = mset (concat (map indices ts1)) + mset (indices t1) + mset (indices t2) +
        mset (concat (map indices ts2))" by (simp add: TS_def)
    ultimately show ?thesis by (simp add: ac_simps)
  qed
  then have "distinct_nodes T (path_indices c @ indices ?a @ indices ?b) = distinct_nodes T (j # ?P)" by (rule distinct_nodes_mset)
  moreover have "distinct_nodes T1 (j # ?P)"
    by (rule distinct_nodes_new [OF _ added(2) parts(5)]) (simp add: slot(2) zero_raw_def)
  then have "distinct_nodes T (j # ?P)" using distinct_nodes_cong [of "j # ?P" T T1] step(5) by (simp add: fun_eq_iff)
  moreover have "slots_ok E T" "mCacheRoot T = top c p" "freeSlots E T = freeSlots E (tc s) - 1"
    using parts(6,7) added(3) by (simp_all add: T_def slots_ok_def freeSlots_def)
  ultimately show ?thesis using step(1-3) by (intro exI [of _ T] exI [of _ j]) (simp add: open_tree_def)
qed

lemma run_insertIntoParent:
  assumes "open_tree E (tc s) c t1 t2" and "3 \<le> branchOrder E" and "new_nodes E c \<le> freeSlots E (tc s)" and "length c \<le> n"
    and "\<forall>k\<in>set (key # path_keys c). k < 2 ^ 16"
  shows "\<exists>t T. run_state (insertIntoParent n E (root_of t1) key (root_of t2)) s = (R_ok, s\<lparr>tc := T\<rparr>) \<and>
     grows E c t1 key t2 t \<and> closed_tree E T t \<and> freeSlots E T = freeSlots E (tc s) - new_nodes E c"
  using assms
proof (induction c arbitrary: t1 t2 key n s)
  case Nil
  then have "parent (node (tc s) (root_of t1)) = Some (root_of t1)" using holds_root by (fastforce simp: open_tree_def)
  then have "run_state (insertIntoParent n E (root_of t1) key (root_of t2)) s = run_state (insertIntoNewRoot E (root_of t1) key (root_of t2)) s"
    by (subst insertIntoParent.simps) simp
  then show ?case using run_below_new_root [OF Nil.prems(1,2)] Nil.prems(3) by simp
next
  case (Cons f c)
  obtain p ks1 ts1 ks2 ts2 where f: "f = (p, ks1, ts1, ks2, ts2)" by (metis prod.collapse)
  note tree = Cons.prems(1) [unfolded f]
  note top = open_frame [OF tree]
  obtain k where n: "n = Suc k" "length c \<le> k" using Cons.prems(4) by (cases n) auto
  show ?case
  proof (cases "length (ks1 @ ks2) < branchOrder E - 1")
    case True
    then have "run_state (insertIntoParent n E (root_of t1) key (root_of t2)) s =
        run_state (insertIntoNode p (length ks1) key (root_of t2)) s"
      using top by (subst insertIntoParent.simps) (simp del: length_append)
    then show ?thesis using run_below_room [OF tree True, of key] True by (simp add: f)
  next
    case False
    then have full: "length (ks1 @ ks2) = branchOrder E - 1" using top(5) by simp
    define K TS m where defs: "K = ks1 @ key # ks2" "TS = ts1 @ t1 # t2 # ts2" "m = cut (branchOrder E)"
    have small: "\<forall>k\<in>set K. k < 2 ^ 16" using Cons.prems(5) by (auto simp: f defs(1))
    have free: "1 + new_nodes E c \<le> freeSlots E (tc s)" using Cons.prems(3) False by (simp add: f)
    then obtain T j where T: "run_state (insertIntoParent n E (root_of t1) key (root_of t2)) s =
        run_state (insertIntoParent k E p (K ! (m - 1)) j) (s\<lparr>tc := T\<rparr>)"
      "open_tree E T c (ABranch p (take (m - 1) K) (take m TS)) (ABranch j (drop m K) (drop m TS))"
      "freeSlots E T = freeSlots E (tc s) - 1"
      using run_below_full [OF tree full Cons.prems(2) _ small [unfolded defs(1)], of k, folded defs] n(1) by auto
    have "m - 1 < length K" using full Cons.prems(2) by (auto simp: cut_def defs)
    then have key: "K ! (m - 1) < 2 ^ 16" using small nth_mem by blast
    have "\<exists>t T'. run_state (insertIntoParent k E p (K ! (m - 1)) j) (s\<lparr>tc := T\<rparr>) = (R_ok, s\<lparr>tc := T'\<rparr>) \<and>
        grows E c (ABranch p (take (m - 1) K) (take m TS)) (K ! (m - 1)) (ABranch j (drop m K) (drop m TS)) t \<and>
        closed_tree E T' t \<and> freeSlots E T' = freeSlots E T - new_nodes E c"
      using Cons.IH [of "s\<lparr>tc := T\<rparr>" "ABranch p (take (m - 1) K) (take m TS)" "ABranch j (drop m K) (drop m TS)" k "K ! (m - 1)"]
        T(2,3) Cons.prems(2,5) n(2) free key by (auto simp: f)
    then show ?thesis using grows.split [OF full defs(3,1,2), of c p j] T(1,3) False by (fastforce simp: f)
  qed
qed

end
