(* ===== verification/BtreeInsert.thy ===== *)
theory BtreeInsert
  imports BtreeGrowth
begin

text \<open>
  The insertion of an inode into a cached tree of any height: the leaf that the search ends at, its split,
  and the nodes that are reserved for it.
\<close>

subsection \<open>Trees in the cache are search trees\<close>

lemma map_nth_upt: "map (\<lambda>k. f (ts ! k)) [0 ..< length ts] = map f ts"
  by (rule nth_equalityI) simp_all

lemma branch_child: "branch_holds E T i ks (map root_of ts) \<Longrightarrow> k < length ts \<Longrightarrow> child T i k = root_of (ts ! k)"
  using branch_nth(1) [of E T i ks "map root_of ts" k] by (simp add: child_def)

lemma map_children:
  assumes "branch_holds E T i ks (map root_of ts)"
  shows "map (\<lambda>k. g (child T i k)) [0 ..< keyNo T i + 1] = map (\<lambda>u. g (root_of u)) ts"
proof -
  have len: "length ts = keyNo T i + 1" using branch_holdsD(2,3) [OF assms] by simp
  have "map (\<lambda>k. g (child T i k)) [0 ..< length ts] = map (\<lambda>k. g (root_of (ts ! k))) [0 ..< length ts]"
    by (rule map_cong) (simp_all add: branch_child [OF assms])
  also have "\<dots> = map (\<lambda>u. g (root_of u)) ts" by (rule map_nth_upt)
  finally show ?thesis unfolding len .
qed

lemma holds_search:
  assumes "holds E T p t" and "ordered t" and "height_is d t"
  shows "search_tree d E T (root_of t)" and "tree_inodes d T (root_of t) = inorder t" and "tree_nodes d T (root_of t) = indices t"
proof -
  have "search_tree d E T (root_of t) \<and> tree_inodes d T (root_of t) = inorder t \<and> tree_nodes d T (root_of t) = indices t"
    using assms
  proof (induction t arbitrary: d p)
    case (ALeaf i L)
    then show ?case by (simp add: slot_def)
  next
    case (ABranch i ks ts)
    obtain e where d: "d = Suc e" using ABranch.prems(3) by (cases d) auto
    have br: "branch_holds E T i ks (map root_of ts)" "slot E T i" using ABranch.prems(1) by simp_all
    note B = branch_holdsD [OF br(1)]
    have len: "length ts = length ks + 1" using B(3) by simp
    have child: "child T i k = root_of (ts ! k)" if "k < length ts" for k by (rule branch_child [OF br(1) that])
    have sub: "search_tree e E T (root_of u) \<and> tree_inodes e T (root_of u) = inorder u \<and> tree_nodes e T (root_of u) = indices u"
      if "u \<in> set ts" for u
      using ABranch.IH [OF that, of i e] ABranch.prems that d by simp
    have sep: "separated ks (map numbers ts)" using ABranch.prems(2) by simp
    have "n_key (raw (node T i)) ! a \<le> n_key (raw (node T i)) ! b" if "a < b" "b < length ks" for a b
      using sorted_wrt_nth_less [OF separated_sorted [OF sep] that] that branch_nth(3) [OF br(1)] by simp
    moreover have "pointers (node T i) ! k \<noteq> None" if "k \<le> length ks" for k
      using branch_nth(1) [OF br(1), of k] that len by simp
    ultimately have ok: "branch_ok E (node T i)" using B(1,2,5,6) by (auto simp: branch_ok_def)
    have "in_range T i k (i_no x)" if "k \<le> length ks" "x \<in> set (inorder (ts ! k))" for k x
    proof -
      have "i_no x \<in> set (map numbers ts ! k)" using that len by (simp add: numbers_def)
      then show ?thesis
        using separated_nth(1,2) [OF sep that(1)] that(1) branch_nth(3) [OF br(1)] by (auto simp: in_range_def B(2))
    qed
    then have "search_tree (Suc e) E T i"
      using ok sub child len slot_less [OF br(2)] by (auto simp: B(2))
    moreover have "tree_inodes (Suc e) T i = concat (map inorder ts)" "tree_nodes (Suc e) T i = i # concat (map indices ts)"
      unfolding tree_inodes.simps tree_nodes.simps map_children [OF br(1)] using sub by (simp_all cong: map_cong)
    ultimately show ?case by (simp add: d)
  qed
  then show "search_tree d E T (root_of t)" "tree_inodes d T (root_of t) = inorder t" "tree_nodes d T (root_of t) = indices t"
    by blast+
qed

lemma plug_append: "plug (c @ c') t = plug c' (plug c t)"
  by (induction c t rule: plug.induct) simp_all

lemma path_fits_append: "path_fits (c @ c') n \<longleftrightarrow> path_fits c n \<and> path_fits c' n"
  by (induction c n rule: path_fits.induct) auto

lemma find_path:
  assumes "holds E T p t" and "ordered t" and "height_is d t"
  shows "\<exists>c L. t = plug c (ALeaf (leaf_for d T key (root_of t)) L) \<and> length c = d \<and> path_fits c key \<and>
    (\<forall>(i, ks1, ts1, ks2, ts2)\<in>set c. length ts1 = length ks1 \<and> length ts2 = length ks2)"
  using assms
proof (induction d arbitrary: p t)
  case 0
  then obtain i L where "t = ALeaf i L" by (cases t) auto
  then show ?case by (intro exI [of _ "[]"] exI [of _ L]) simp
next
  case (Suc d)
  then obtain i ks ts where t: "t = ABranch i ks ts" by (cases t) auto
  have br: "branch_holds E T i ks (map root_of ts)" using Suc.prems(1) t by simp
  note B = branch_holdsD [OF br]
  define k where "k = branch_index key (raw (node T i))"
  have k: "k \<le> length ks" "k < length ts" using branch_index_props(1) [of key "raw (node T i)"] B(2,3) by (simp_all add: k_def)
  have fits: "fits (take k ks) (drop k ks) key"
  proof -
    have "ks ! j \<le> key" if "j < k" for j
      using branch_index_props(2) [of j key "raw (node T i)"] that k branch_nth(3) [OF br, of j] by (simp add: k_def)
    moreover have "key < ks ! j" if "k \<le> j" "j < length ks" for j
    proof -
      have "key < ks ! k" using branch_index_props(3) [of key "raw (node T i)"] that B(2) branch_nth(3) [OF br, of k] by (simp add: k_def)
      moreover have "sorted_wrt (<) ks" using separated_sorted [of ks "map numbers ts"] Suc.prems(2) t by simp
      then have "ks ! k \<le> ks ! j" using sorted_wrt_nth_less [of "(<)" ks k j] that by (cases "k = j") (auto intro: less_imp_le)
      ultimately show ?thesis by simp
    qed
    moreover have "\<exists>j. k \<le> j \<and> j < length ks \<and> n = ks ! j" if n: "n \<in> set (drop k ks)" for n
    proof -
      obtain a where "a < length (drop k ks)" "n = drop k ks ! a" using n by (metis in_set_conv_nth)
      then show ?thesis by (intro exI [of _ "k + a"]) simp
    qed
    ultimately show ?thesis using k(1) by (fastforce simp: fits_def in_set_conv_nth)
  qed
  have sub: "holds E T i (ts ! k)" "ordered (ts ! k)" "height_is d (ts ! k)" using Suc.prems t k(2) by simp_all
  obtain c L where IH: "ts ! k = plug c (ALeaf (leaf_for d T key (root_of (ts ! k))) L)" "length c = d" "path_fits c key"
    "\<forall>(i, ks1, ts1, ks2, ts2)\<in>set c. length ts1 = length ks1 \<and> length ts2 = length ks2"
    using Suc.IH [OF sub] by blast
  let ?f = "(i, take k ks, take k ts, drop k ks, drop (Suc k) ts)"
  have "leaf_for (Suc d) T key i = leaf_for d T key (root_of (ts ! k))"
    using branch_child [OF br k(2)] by (simp add: k_def)
  moreover have "plug (c @ [?f]) (ALeaf (leaf_for d T key (root_of (ts ! k))) L) = t"
    using k(2) by (simp add: plug_append IH(1) [symmetric] t id_take_nth_drop [symmetric])
  moreover have "length (take k ts) = length (take k ks) \<and> length (drop (Suc k) ts) = length (drop k ks)"
    using k B(3) by simp
  ultimately show ?case
    using IH(2-4) fits t by (intro exI [of _ "c @ [?f]"] exI [of _ L]) (simp add: path_fits_append)
qed

subsection \<open>A tree of height \<open>d\<close> in the cache\<close>

definition tree_config :: "'f env \<Rightarrow> bool" where
  "tree_config E \<longleftrightarrow> 3 \<le> branchOrder E \<and> 0 < leafOrder E \<and> 2 \<le> treeNodeCacheSize E"

definition tree_in :: "'f env \<Rightarrow> tree_cache \<Rightarrow> nat \<Rightarrow> atree \<Rightarrow> bool" where
  "tree_in E T d t \<longleftrightarrow> closed_tree E T t \<and> ordered t \<and> root_filled E t \<and> height_is d t"

lemma height_nodes:
  assumes "3 \<le> branchOrder E"
  shows "holds E T p t \<Longrightarrow> root_filled E t \<Longrightarrow> height_is d t \<Longrightarrow> 2 * d + 1 \<le> length (indices t)"
proof (induction t arbitrary: d p)
  case (ABranch i ks ts)
  have "length ts = length ks + 1" "0 < length ks" using ABranch.prems(1,2) branch_holdsD(3) by fastforce+
  then obtain t u us where ts: "ts = t # u # us" by (cases ts; cases "tl ts") auto
  have "2 * (d - 1) + 1 \<le> length (indices t)" "2 * (d - 1) + 1 \<le> length (indices u)"
    using ABranch.IH [of t i "d - 1"] ABranch.IH [of u i "d - 1"] ABranch.prems ts filled_root [OF assms] by simp_all
  moreover have "0 < d" using ABranch.prems(3) by simp
  ultimately show ?case by (simp add: ts)
qed simp

lemma tree_in_cached:
  assumes "tree_in E T d t" and "tree_config E"
  shows "plain_tree E T d" and "inodes_in T d = inorder t" and "check_passes E T \<Longrightarrow> cached_tree E T d"
proof -
  have t: "holds E T (root_of t) t" "ordered t" "height_is d t" "mCacheRoot T = root_of t" "distinct (indices t)" "slots_ok E T" "root_filled E t"
    using assms(1) by (simp_all add: tree_in_def closed_tree_def distinct_nodes_def)
  note S = holds_search [OF t(1-3)]
  show plain: "plain_tree E T d" and "inodes_in T d = inorder t" using S t(4,5) by (simp_all add: plain_tree_def inodes_in_def)
  have "set (indices t) \<subseteq> {..<treeNodeCacheSize E}"
    using tree_slots [OF t(1)] t(6) by (auto simp: slot_def slots_ok_def)
  then have "length (indices t) \<le> treeNodeCacheSize E"
    using card_mono [of "{..<treeNodeCacheSize E}" "set (indices t)"] distinct_card [OF t(5)] by simp
  then have "d \<le> treeNodeCacheSize E - 2" using height_nodes [OF _ t(1,7,3)] assms(2) by (cases d) (auto simp: tree_config_def)
  moreover have "isIndexUsed E T (root_of t)" using holds_root [OF t(1)] by (simp add: slot_def)
  ultimately show "cached_tree E T d" if "check_passes E T"
    using that search_tree_shape [OF S(1)] t(4) by (simp add: cached_tree_def)
qed

text \<open>Locks and counters do not matter.\<close>

lemma closed_tree_same:
  assumes "closed_tree E T t" and "same_nodes T T'"
  shows "closed_tree E T' t" and "freeSlots E T' = freeSlots E T"
proof -
  have use: "mCacheUsage T' = mCacheUsage T" "length (mCache T') = length (mCache T)" "mCacheRoot T' = mCacheRoot T"
    using assms(2) by (simp_all add: same_nodes_def)
  have agree: "agree E UNIV T T'"
    using assms(2) same_usage(3) [OF use(1), of E] use by (auto simp: agree_def core_def slot_def same_nodes_def)
  have t: "holds E T (root_of t) t" using assms(1) by (simp add: closed_tree_def)
  have "self_of T' i = self_of T i" if "i \<in> set (indices t)" for i using agreeD(2) [OF agree _ tree_slots [OF t that]] by simp
  then have "distinct_nodes T' (indices t) = distinct_nodes T (indices t)" by (rule distinct_nodes_cong)
  then show "closed_tree E T' t"
    using assms(1) holds_agree [OF t agree_mono [OF agree]] use by (simp add: closed_tree_def slots_ok_def)
  show "freeSlots E T' = freeSlots E T" by (rule same_usage(2) [OF use(1)])
qed

subsection \<open>The leaf\<close>

text \<open>A tree without a leaf.\<close>

lemma closed_plug:
  assumes "\<forall>(i, ks1, ts1, ks2, ts2)\<in>set c. length ts1 = length ks1 \<and> length ts2 = length ks2"
  shows "closed_tree E T (plug c (ALeaf l L)) \<longleftrightarrow> path_holds E T c l \<and> slot E T l \<and> parent (node T l) = Some (slot_above c l) \<and>
    leaf_ok E (raw (node T l)) \<and> leaf_inodes (raw (node T l)) = L \<and> distinct_nodes T (path_indices c @ [l]) \<and> slots_ok E T \<and>
    mCacheRoot T = top c l"
  using holds_plug [OF assms, of E T "ALeaf l L"] distinct_nodes_mset [OF indices_plug [of c "ALeaf l L"], of T]
  by (auto simp: closed_tree_def root_of_plug)

lemma leaf_step:
  assumes frames: "\<forall>(i, ks1, ts1, ks2, ts2)\<in>set c. length ts1 = length ks1 \<and> length ts2 = length ks2"
    and tree: "closed_tree E T (plug c (ALeaf l L))" and leaf: "leaf_ok E (raw (f (node T l)))"
    and same: "n_self (raw (f (node T l))) = self_of T l" "parent (f (node T l)) = parent (node T l)"
  shows "closed_tree E (upd_node l f T) (plug c (ALeaf l (leaf_inodes (raw (f (node T l))))))"
proof -
  note t = tree [unfolded closed_plug [OF frames]]
  have at: "node (upd_node l f T) l = f (node T l)" using slot_less [of E T l] t by (simp add: node_upd)
  have self: "self_of (upd_node l f T) = self_of T" using same(1) at by (auto simp: fun_eq_iff node_upd)
  have "agree E (- {l}) T (upd_node l f T)" by (intro agree_rest) (auto simp: node_upd)
  then have "agree E (set (path_indices c)) T (upd_node l f T)"
    by (rule agree_mono) (use t in \<open>auto simp: distinct_nodes_def\<close>)
  then have "path_holds E (upd_node l f T) c l"
    using path_holds_agree [of E T c l] t self by (simp add: fun_eq_iff)
  moreover have "distinct_nodes (upd_node l f T) (path_indices c @ [l])"
    using distinct_nodes_cong [of "path_indices c @ [l]" "upd_node l f T" T] self t by (simp add: fun_eq_iff)
  ultimately show ?thesis
    using t at leaf same(2) unfolding closed_plug [OF frames] by (simp add: slots_ok_def)
qed

lemma leaf_split_open:
  assumes frames: "\<forall>(i, ks1, ts1, ks2, ts2)\<in>set c. length ts1 = length ks1 \<and> length ts2 = length ks2"
    and tree: "closed_tree E T (plug c (ALeaf l L))"
    and added: "node_added E i T T5" "i < treeNodeCacheSize E" "\<not> isIndexUsed E T i"
    and leaves: "leaf_ok E a" "leaf_ok E b" "n_self a = self_of T l" "n_self b = 0"
    and T6: "T6 = upd_node i (\<lambda>m. m\<lparr>raw := b, n_dirty := True, parent := parent (node T5 l)\<rparr>)
      (upd_node l (\<lambda>m. m\<lparr>raw := a, n_dirty := True\<rparr>) T5)"
  shows "open_tree E T6 c (ALeaf l (leaf_inodes a)) (ALeaf i (leaf_inodes b))" and "freeSlots E T6 = freeSlots E T - 1"
proof -
  note t = tree [unfolded closed_plug [OF frames]]
  then have ok: "slots_ok E T" and path: "path_holds E T c l" and l: "slot E T l" by simp_all
  note new = node_added_agree [OF added(1) ok added(2)]
  have fresh: "i \<notin> set (path_indices c @ [l])" using path_slots [OF path] l added(3) by (auto simp: slot_def)
  then have il: "i \<noteq> l" "l \<notin> set (path_indices c)" using t by (auto simp: distinct_nodes_def)
  note at5 = agreeD [OF new(1) _ l, simplified, OF il(1) [symmetric]]
  have less: "i < length (mCache T5)" "l < length (mCache T5)" using slot_less [OF new(2)] slot_less [OF at5(1)] by simp_all
  have at: "raw (node T6 l) = a" "raw (node T6 i) = b" "parent (node T6 l) = Some (slot_above c l)" "parent (node T6 i) = Some (slot_above c l)"
    using il less at5 t by (auto simp: T6 node_upd)
  have slots: "slot E T6 = slot E T5" by (simp add: T6)
  have agree: "agree E (- {i, l}) T T6"
    using agreeD [OF new(1)] by (intro agree_rest) (auto simp: slots T6 node_upd)
  have self: "self_of T6 k = self_of T k" if "k \<in> set (path_indices c @ [l])" for k
  proof (cases "k = l")
    case True
    then show ?thesis using at(1) leaves(3) by simp
  next
    case False
    then have k: "k \<in> - {i, l}" "slot E T k" using that fresh path_slots [OF path] by auto
    show ?thesis using agreeD(2) [OF agree k] by simp
  qed
  have "path_holds E T6 c l"
    by (rule path_holds_agree [OF path agree_mono [OF agree]]) (use fresh il self in auto)
  moreover have "distinct_nodes T6 (path_indices c @ [l]) = distinct_nodes T (path_indices c @ [l])"
    by (rule distinct_nodes_cong [OF self])
  then have "distinct_nodes T6 (i # path_indices c @ [l])"
    using at(2) leaves(4) fresh t by (intro distinct_nodes_new) simp_all
  then have "distinct_nodes T6 (path_indices c @ [l] @ [i])"
    using distinct_nodes_mset [of "i # path_indices c @ [l]" "path_indices c @ [l] @ [i]"] by simp
  moreover have "slots_ok E T6" "mCacheRoot T6 = top c l" using new(3,8) t by (simp_all add: T6 slots_ok_def)
  moreover have "slot E T6 l" "slot E T6 i" using at5(1) new(2) slots by simp_all
  ultimately show "open_tree E T6 c (ALeaf l (leaf_inodes a)) (ALeaf i (leaf_inodes b))"
    using at leaves(1,2) by (simp add: open_tree_def)
  show "freeSlots E T6 = freeSlots E T - 1"
    using free_after_use [OF ok added(2,3)] new(7) by (simp add: T6 freeSlots_def setIndexUsed_def)
qed

subsection \<open>The nodes reserved\<close>

lemma new_nodes_le: "new_nodes E c \<le> length c + 1"
  by (induction E c rule: new_nodes.induct) auto

lemma needed_path:
  assumes "path_holds E T c j" and "parent (node T j) = Some (slot_above c j)" and "distinct (j # path_indices c)"
    and "n_keys (raw (node T j)) = (if n_isLeaf (raw (node T j)) then leafOrder E else branchOrder E - 1)" and "length c \<le> n"
  shows "needed_nodes n E T j = 1 + new_nodes E c"
  using assms
proof (induction c arbitrary: j n)
  case Nil
  then show ?case by (subst needed_nodes.simps) simp
next
  case (Cons f c)
  obtain p ks1 ts1 ks2 ts2 where f: "f = (p, ks1, ts1, ks2, ts2)" by (metis prod.collapse)
  obtain k where n: "n = Suc k" "length c \<le> k" using Cons.prems(5) by (cases n) auto
  have p: "path_holds E T c p" "parent (node T p) = Some (slot_above c p)" "distinct (p # path_indices c)" "p \<noteq> j"
    "branch_holds E T p (ks1 @ ks2) (map root_of ts1 @ j # map root_of ts2)" using Cons.prems(1,3) by (auto simp: f)
  have keys: "\<not> n_isLeaf (raw (node T p))" "keyNo T p = length (ks1 @ ks2)" "length (ks1 @ ks2) < branchOrder E"
    using branch_holdsD(1,2,5) [OF p(5)] by auto
  have "needed_nodes k E T p = (if length (ks1 @ ks2) < branchOrder E - 1 then 0 else 1 + new_nodes E c)"
  proof (cases "length (ks1 @ ks2) < branchOrder E - 1")
    case True
    then show ?thesis using keys by (subst needed_nodes.simps) simp
  next
    case False
    then have "keyNo T p = branchOrder E - 1" using keys(2,3) by simp
    then have "needed_nodes k E T p = 1 + new_nodes E c" using keys(1) by (intro Cons.IH [OF p(1-3) _ n(2)]) simp
    then show ?thesis using False by simp
  qed
  then have "needed_nodes (Suc k) E T j = 1 + new_nodes E (f # c)"
    using Cons.prems(2,4) p(4) by (subst needed_nodes.simps) (simp add: f Let_def)
  then show ?case by (simp add: n(1))
qed

subsection \<open>The insertion\<close>

lemma insort_halves:
  assumes "strict L" and "i_no x \<notin> i_no ` set L" and "0 < k" and "k < length L + 1" and "M = insort_key i_no x L"
  shows "take k M \<noteq> []" "\<forall>y\<in>set (take k M). i_no y < i_no (M ! k)" "\<forall>y\<in>set (drop k M). i_no (M ! k) \<le> i_no y"
    "strict (take k M)" "strict (drop k M)" "set (take k M) \<union> set (drop k M) = insert x (set L)" "M ! k \<in> set M"
proof -
  have M: "strict M" "length M = length L + 1" using assms by (simp_all add: sorted_wrt_insort)
  show "take k M \<noteq> []" "M ! k \<in> set M" using assms(3,4) M(2) by auto
  show "\<forall>y\<in>set (take k M). i_no y < i_no (M ! k)" "\<forall>y\<in>set (drop k M). i_no (M ! k) \<le> i_no y"
    using strict_split [OF M(1), of k] assms(4) M(2) by simp_all
  show "strict (take k M)" "strict (drop k M)" by (rule sorted_wrt_pieces [OF M(1)])+
  have "set (take k M) \<union> set (drop k M) = set M" by (metis append_take_drop_id set_append)
  then show "set (take k M) \<union> set (drop k M) = insert x (set L)" using assms(5) by (simp add: set_insort_key)
qed

lemma run_split_leaf:
  assumes frames: "\<forall>(i, ks1, ts1, ks2, ts2)\<in>set c. length ts1 = length ks1 \<and> length ts2 = length ks2"
    and tree: "closed_tree E (tc s) (plug c (ALeaf l L))" and config: "tree_config E" and full: "length L = leafOrder E"
    and free: "1 + new_nodes E c \<le> freeSlots E (tc s)" and depth: "length c \<le> treeNodeCacheSize E"
    and x: "i_no x \<notin> i_no ` set L" and small: "\<forall>k\<in>set (path_keys c) \<union> i_no ` insert x (set L). k < 2 ^ 16"
  defines "M \<equiv> insort_key i_no x L" and "k \<equiv> cut (leafOrder E)"
  shows "\<exists>i t T. run_state (insertIntoLeafAfterSplitting E l x) s = (R_ok, s\<lparr>tc := T\<rparr>) \<and>
     grows E c (ALeaf l (take k M)) (i_no (M ! k)) (ALeaf i (drop k M)) t \<and> closed_tree E T t \<and>
     freeSlots E T = freeSlots E (tc s) - (1 + new_nodes E c)"
proof -
  note t = tree [unfolded closed_plug [OF frames]]
  let ?T3 = "lockTreeCacheNode E l (tc s)"
  have lock: "same_nodes (tc s) ?T3" by (rule same_nodes_lock)
  then have usage: "mCacheUsage ?T3 = mCacheUsage (tc s)" by (simp add: same_nodes_def)
  have ok: "slots_ok E (tc s)" "leaf_ok E (raw (node (tc s) l))" using t by simp_all
  obtain i where i: "findFirstFreeIndex E (tc s) = Some i" "i < treeNodeCacheSize E" "\<not> isIndexUsed E (tc s) i"
    using free_slot [OF ok(1)] free by auto
  have i3: "findFirstFreeIndex E ?T3 = Some i" using same_usage(1) [OF usage, of E] i(1) by simp
  define T5 where "T5 = snd (unlockTreeCacheNode E l (with_new E i ?T3))"
  have il: "i < length (mCache (tc s))" "l < length (mCache (tc s))" "i \<noteq> l"
    using i(2,3) ok(1) t by (auto simp: slots_ok_def slot_def)
  have T5: "node_added E i (tc s) T5" using locked_new [OF il(1), of E "[l]"] by (simp add: T5_def)
  have raws: "raw (node T5 l) = raw (node (tc s) l)" "raw (node T5 i) = zero_raw E" using T5 il by (simp_all add: node_added_def)
  obtain a b where split: "split_leaf E x (raw (node (tc s) l)) (zero_raw E) = (a, b)" by (metis surj_pair)
  have parts: "leaf_inodes a = take k M" "leaf_inodes b = drop k M" "leaf_ok E a" "leaf_ok E b"
    using split_leaf_parts [OF ok(2) _ _ _ _ split] t config full x leaf_okD(7) [OF ok(2)]
    by (simp_all add: M_def k_def zero_node_def tree_config_def)
  have selfs: "n_self a = self_of (tc s) l" "n_self b = 0"
    using split by (auto simp: split_leaf_def Let_def zero_raw_def)
  have len: "length M = leafOrder E + 1" "k \<le> leafOrder E" using full by (simp_all add: M_def k_def cut_le)
  then have "0 < n_keys b" "leaf_inodes b ! 0 = M ! k" using parts(2) leaf_okD(7) [OF parts(4)] by auto
  then have key: "n_key b ! 0 = i_no (M ! k)" using leaf_nth(1) [OF parts(4)] by simp
  have "M ! k \<in> set M" using len by simp
  then have "M ! k \<in> insert x (set L)" by (simp add: M_def set_insort_key)
  then have small_key: "i_no (M ! k) < 2 ^ 16" using small by blast
  define T6 where "T6 = upd_node i (\<lambda>m. m\<lparr>raw := b, n_dirty := True, parent := parent (node T5 l)\<rparr>)
    (upd_node l (\<lambda>m. m\<lparr>raw := a, n_dirty := True\<rparr>) T5)"
  note next_tree = leaf_split_open [OF frames tree T5 i(2,3) parts(3,4) selfs T6_def, unfolded parts(1,2)]
  have "run_state (insertIntoLeafAfterSplitting E l x) s = run_state (insertIntoParent (walk_bound E) E l (i_no (M ! k)) i) (s\<lparr>tc := T6\<rparr>)"
    using split i3 raws key small_key
    by (simp add: insertIntoLeafAfterSplitting_def run_addNewCacheNode set_node_def T6_def T5_def)
  moreover have "\<exists>t T. run_state (insertIntoParent (walk_bound E) E l (i_no (M ! k)) i) (s\<lparr>tc := T6\<rparr>) = (R_ok, s\<lparr>tc := T\<rparr>) \<and>
      grows E c (ALeaf l (take k M)) (i_no (M ! k)) (ALeaf i (drop k M)) t \<and> closed_tree E T t \<and>
      freeSlots E T = freeSlots E T6 - new_nodes E c"
    using run_insertIntoParent [of E "s\<lparr>tc := T6\<rparr>" c "ALeaf l (take k M)" "ALeaf i (drop k M)" "walk_bound E" "i_no (M ! k)"]
      next_tree config free depth small small_key by (simp add: tree_config_def walk_bound_def)
  ultimately show ?thesis using next_tree(2) by (metis diff_diff_left)
qed

text \<open>The tree taken apart at the leaf of a number.\<close>

lemma tree_at_leaf:
  assumes "tree_in E T d t"
  obtains c L where "t = plug c (ALeaf (target_leaf T d key) L)" "length c = d" "path_fits c key" "path_ordered c" "path_height 0 c" "path_filled E c"
    "\<forall>(i, ks1, ts1, ks2, ts2)\<in>set c. length ts1 = length ks1 \<and> length ts2 = length ks2"
    "strict L" "\<forall>y\<in>set L. path_fits c (i_no y)"
proof -
  have t: "holds E T (root_of t) t" "ordered t" "height_is d t" "mCacheRoot T = root_of t"
    using assms by (simp_all add: tree_in_def closed_tree_def)
  obtain c L where c: "t = plug c (ALeaf (target_leaf T d key) L)" "length c = d" "path_fits c key"
    "\<forall>(i, ks1, ts1, ks2, ts2)\<in>set c. length ts1 = length ks1 \<and> length ts2 = length ks2"
    using find_path [OF t(1-3), of key] t(4) by (auto simp: target_leaf_def)
  moreover have "strict L \<and> path_ordered c \<and> (\<forall>y\<in>set L. path_fits c (i_no y))"
    using t(2) ordered_plug [OF c(4), of "ALeaf (target_leaf T d key) L"] by (simp add: c(1) [symmetric] set_numbers_leaf)
  moreover have "path_height 0 c" using height_plug [of 0 c "ALeaf (target_leaf T d key) L"] t(3) c(1,2) by simp
  moreover have "path_filled E c" using assms filled_plug [of E c] by (simp add: tree_in_def c(1))
  ultimately show ?thesis using that by blast
qed

lemma tree_in_strict: "tree_in E T d t \<Longrightarrow> strict (inorder t)"
  using tree_inodes_strict holds_search [of E T "root_of t" t d] by (fastforce simp: tree_in_def closed_tree_def)

lemma path_keys_small:
  "\<forall>n\<in>set (numbers (plug c t)). n < b \<Longrightarrow> \<forall>n\<in>set (path_keys c) \<union> set (numbers t). n < (b :: nat)"
proof (induction c t rule: plug.induct)
  case (2 i ks1 ts1 ks2 ts2 c t)
  then show ?case by (auto simp: set_numbers_branch)
qed simp

definition small_numbers :: "atree \<Rightarrow> bool" where
  "small_numbers t \<longleftrightarrow> (\<forall>n\<in>set (numbers t). n < 2 ^ 16)"

lemma insert_leaf_room:
  assumes tree: "tree_in E T d t" and t: "t = plug c (ALeaf l L)" "length c = d" "path_fits c (i_no x)" "path_ordered c" "path_height 0 c"
      "path_filled E c" "strict L" "\<forall>y\<in>set L. path_fits c (i_no y)"
    and x: "i_no x \<notin> i_no ` set L" and room: "keyNo T l < leafOrder E"
    and T': "T' = upd_node l (\<lambda>m. (upd_raw (leaf_insert x) m)\<lparr>n_dirty := True\<rparr>) T"
  shows "tree_in E T' d (plug c (ALeaf l (insort_key i_no x L)))"
proof -
  let ?f = "\<lambda>m. (upd_raw (leaf_insert x) m)\<lparr>n_dirty := True\<rparr>" and ?r = "raw (node T l)"
  note frames = path_frames [OF t(4)]
  have closed: "closed_tree E T (plug c (ALeaf l L))" using tree t(1) by (simp add: tree_in_def)
  have leaf: "leaf_ok E ?r" "leaf_inodes ?r = L" using closed closed_plug [OF frames] by auto
  have new: "leaf_ok E (leaf_insert x ?r)" "leaf_inodes (leaf_insert x ?r) = insort_key i_no x L"
    using leaf_insert_ok [OF leaf(1) room, of x] leaf_insert_inodes [OF leaf(1) room, of x] x leaf(2) by simp_all
  have "closed_tree E T' (plug c (ALeaf l (insort_key i_no x L)))"
    using leaf_step [OF frames closed, of ?f] new by (simp add: T' upd_raw_def leaf_insert_def Let_def)
  moreover have "ordered (plug c (ALeaf l (insort_key i_no x L)))"
    using ordered_plug [OF frames, of "ALeaf l (insort_key i_no x L)"] sorted_wrt_insort [OF t(7) x] t(3,4,8)
    by (simp add: set_numbers_leaf set_insort_key)
  moreover have "height_is d (plug c (ALeaf l (insort_key i_no x L)))"
    using height_plug [of 0 c "ALeaf l (insort_key i_no x L)"] t(2,5) by simp
  moreover have "root_filled E (plug c (ALeaf l (insort_key i_no x L)))"
    using tree by (auto simp: t(1) tree_in_def filled_plug)
  ultimately show ?thesis by (simp add: tree_in_def)
qed

lemma insert_leaf_full:
  assumes grow: "grows E c (ALeaf l (take k M)) (i_no (M ! k)) (ALeaf i (drop k M)) t'"
    and config: "tree_config E" and t: "length c = d" "path_fits c (i_no x)" "path_ordered c" "path_height 0 c"
      "path_filled E c" "strict L" "\<forall>y\<in>set L. path_fits c (i_no y)"
    and x: "i_no x \<notin> i_no ` set L" and M: "M = insort_key i_no x L" and k: "k = cut (leafOrder E)" "length L = leafOrder E" "0 < k" "k < length L + 1"
  shows "ordered t'" and "height_is d t' \<or> height_is (Suc d) t'" and "inorder t' = path_left c @ insort_key i_no x L @ path_right c"
    and "root_filled E t'"
proof -
  note halves = insort_halves [OF t(6) x k(3,4) M]
  have fits: "\<forall>y\<in>insert x (set L). path_fits c (i_no y)" using t(2,7) by simp
  have "\<forall>n\<in>i_no ` set (take k M) \<union> i_no ` set (drop k M). path_fits c n"
    using fits halves(6) by (metis (no_types, lifting) imageE image_Un)
  moreover have "path_fits c (i_no (M ! k))" using fits halves(7) by (auto simp: M set_insort_key)
  moreover have "3 \<le> branchOrder E" using config by (simp add: tree_config_def)
  ultimately show "ordered t'"
    using halves t(3) by (intro grows_ordered [OF grow]) (simp_all add: set_numbers_leaf numbers_def)
  show "height_is d t' \<or> height_is (Suc d) t'" using grows_height [OF grow, of 0] t(1,4) by simp
  show "inorder t' = path_left c @ insort_key i_no x L @ path_right c"
    using grows_inorder [OF grow] M by simp
  have "length M = leafOrder E + 1" using k(2) M by simp
  then have "k \<le> length (take k M)" "k \<le> length (drop k M)"
    unfolding length_take length_drop using k(1) config by (auto simp: tree_config_def cut_def) presburger
  then show "root_filled E t'"
    using grows_filled [OF grow] t(5) config k(1) by (simp add: tree_config_def)
qed

lemma run_tree_insert:
  assumes config: "tree_config E" and tree: "tree_in E (tc s) d t" and check: "check_passes E (tc s)"
    and free: "d + 2 \<le> freeSlots E (tc s)" and small: "small_numbers t" "i_no x < 2 ^ 16"
    and new: "i_no x \<notin> set (take (leafOrder E) (n_key (raw (node (tc s) (target_leaf (tc s) d (i_no x))))))"
    and run: "run_state (insertInode E x) s = (r, u)"
  shows "r = R_ok \<and> (\<exists>t' d'. tree_in E (tc u) d' t' \<and> d' \<le> Suc d \<and> inorder t' = insort_key i_no x (inorder t))"
proof -
  let ?l = "target_leaf (tc s) d (i_no x)" and ?T = "hits (d + 1) (tc s)"
  let ?T2 = "snd (unlockTreeCacheNode E ?l (lockTreeCacheNode E ?l ?T))" and ?r = "raw (node (tc s) ?l)"
  obtain c L where c: "t = plug c (ALeaf ?l L)" "length c = d" "path_fits c (i_no x)" "path_ordered c" "path_height 0 c"
      "path_filled E c" "strict L" "\<forall>y\<in>set L. path_fits c (i_no y)"
    using tree_at_leaf [OF tree, of "i_no x"] by metis
  note frames = path_frames [OF c(4)]
  have closed: "closed_tree E (tc s) (plug c (ALeaf ?l L))" using tree c(1) by (simp add: tree_in_def)
  have leaf: "leaf_ok E ?r" "leaf_inodes ?r = L" "path_holds E (tc s) c ?l" "parent (node (tc s) ?l) = Some (slot_above c ?l)"
      "distinct (path_indices c @ [?l])" "?l < length (mCache (tc s))"
    using closed closed_plug [OF frames] by (auto simp: distinct_nodes_def slot_def)
  have n: "length L = keyNo (tc s) ?l" "keyNo (tc s) ?l \<le> leafOrder E" using leaf_okD(2,7) [OF leaf(1)] leaf(2) by simp_all
  have "set (take (keyNo (tc s) ?l) (n_key ?r)) \<subseteq> set (take (leafOrder E) (n_key ?r))" by (rule set_take_subset_set_take [OF n(2)])
  then have x: "i_no x \<notin> i_no ` set L" using new leaf_okD(5) [OF leaf(1)] leaf(2) by auto
  have cached: "cached_tree E (tc s) d" by (rule tree_in_cached(3) [OF tree config check])
  have same: "same_nodes (tc s) ?T" "same_nodes (tc s) (lockTreeCacheNode E ?l ?T)" "same_nodes (tc s) ?T2"
    using same_nodes_hits same_nodes_lock same_nodes_unlock same_nodes_trans by metis+
  note same_closed = closed_tree_same [OF closed]
  have T2: "raw (node ?T2 ?l) = ?r" using same(3) leaf(6) by (simp add: same_nodes_def)
  have strict: "strict (inorder t)" by (rule tree_in_strict [OF tree])
  have order: "inorder t = path_left c @ L @ path_right c" by (subst c(1)) (simp add: inorder_plug)
  define need where "need = calculateMaxNeededNewNodesForInsertion E ?T ?l"
  have need: "need = (if keyNo (tc s) ?l < leafOrder E then 0 else 1 + new_nodes E c)"
  proof (cases "keyNo (tc s) ?l < leafOrder E")
    case True
    then show ?thesis using leaf_okD(1) [OF leaf(1)]
      by (simp add: need_def calculateMaxNeededNewNodesForInsertion_def needed_nodes.simps)
  next
    case False
    have "path_holds E ?T c ?l" using same_closed(1) [OF same(1)] closed_plug [OF frames] by auto
    then have "needed_nodes (walk_bound E) E ?T ?l = 1 + new_nodes E c"
      using leaf(4,5) False n(2) leaf_okD(1) [OF leaf(1)] cached c(2)
      by (intro needed_path) (auto simp: cached_tree_def walk_bound_def)
    then show ?thesis using False by (simp add: need_def calculateMaxNeededNewNodesForInsertion_def)
  qed
  have "need \<le> freeSlots E (lockTreeCacheNode E ?l ?T)"
    using need new_nodes_le [of E c] free c(2) same_closed(2) [OF same(2)] by simp
  then have reserve: "run_state (reserveNodes E need) (s\<lparr>tc := lockTreeCacheNode E ?l ?T\<rparr>) = (R_ok, s\<lparr>tc := lockTreeCacheNode E ?l ?T\<rparr>)"
    by (simp add: reserveNodes_def)
  have need_fold: "calculateMaxNeededNewNodesForInsertion E (hits (Suc d) (tc s)) ?l = need" by (simp add: need_def)
  define s2 where "s2 = log_event E (TreeInsert x) (s\<lparr>tc := ?T2\<rparr>)"
  have s2: "tc s2 = ?T2" by (simp add: s2_def)
  have run2: "run_state (if keyNo (tc s) ?l < leafOrder E then insertIntoLeaf ?l x else insertIntoLeafAfterSplitting E ?l x) s2 = (r, u)"
    using run new T2 reserve
    by (simp add: insertInode_def run_findLeaf [OF cached] need_fold node_at_def s2_def split: if_splits)
  note closed2 = same_closed [OF same(3)]
  have tree2: "tree_in E ?T2 d t" using tree closed2(1) c(1) by (simp add: tree_in_def)
  show ?thesis
  proof (cases "keyNo (tc s) ?l < leafOrder E")
    case True
    let ?t = "plug c (ALeaf ?l (insort_key i_no x L))"
    have "r = R_ok \<and> tc u = upd_node ?l (\<lambda>m. (upd_raw (leaf_insert x) m)\<lparr>n_dirty := True\<rparr>) ?T2"
      using run2 True s2 by (auto simp: run_insertIntoLeaf)
    moreover from this have "tree_in E (tc u) d ?t"
      using insert_leaf_room [OF tree2 c x] True T2 by simp
    moreover have "inorder ?t = insort_key i_no x (inorder t)"
      using insort_piece [of "path_left c" L "path_right c" x] strict order tree_in_strict [of E "tc u" d ?t] calculation
      by (simp add: inorder_plug)
    ultimately show ?thesis by (metis le_SucI order_refl)
  next
    case False
    let ?M = "insort_key i_no x L" and ?k = "cut (leafOrder E)"
    have full: "length L = leafOrder E" using False n by simp
    have k: "0 < ?k" "?k < length L + 1" using config full cut_le [of "leafOrder E"] by (auto simp: tree_config_def cut_def)
    have "\<forall>n\<in>set (path_keys c) \<union> set (numbers (ALeaf ?l L)). n < 2 ^ 16"
      using path_keys_small [of c "ALeaf ?l L" "2 ^ 16"] small(1) c(1) by (simp add: small_numbers_def)
    then have below: "\<forall>k\<in>set (path_keys c) \<union> i_no ` insert x (set L). k < 2 ^ 16" using small(2) by (auto simp: set_numbers_leaf)
    have free2: "1 + new_nodes E c \<le> freeSlots E (tc s2)" using new_nodes_le [of E c] free c(2) closed2(2) s2 by simp
    have closed3: "closed_tree E (tc s2) (plug c (ALeaf ?l L))" using closed2(1) s2 by simp
    have "length c \<le> treeNodeCacheSize E" using cached c(2) by (simp add: cached_tree_def) linarith
    from run_split_leaf [OF frames closed3 config full free2 this x below]
    obtain i t' T where T: "run_state (insertIntoLeafAfterSplitting E ?l x) s2 = (R_ok, s2\<lparr>tc := T\<rparr>)"
      "grows E c (ALeaf ?l (take ?k ?M)) (i_no (?M ! ?k)) (ALeaf i (drop ?k ?M)) t'" "closed_tree E T t'"
      by blast
    note grown = insert_leaf_full [OF T(2) config c(2-8) x refl refl full k]
    have rt: "r = R_ok" "tc u = T" using run2 T(1) False by auto
    obtain d' where d': "height_is d' t'" "d' \<le> Suc d" using grown(2) by auto
    then have tree': "tree_in E (tc u) d' t'" using T(3) grown(1,4) rt(2) by (simp add: tree_in_def)
    have "inorder t' = insort_key i_no x (inorder t)"
      using insort_piece [of "path_left c" L "path_right c" x] strict order tree_in_strict [OF tree'] grown(3) by simp
    then show ?thesis using rt(1) tree' d'(2) by blast
  qed
qed

end
