(* ===== verification/BtreeRemoval.thy ===== *)
theory BtreeRemoval
  imports BtreeInsert BtreeDelete
begin

text \<open>
  What a deletion does to the nodes of a cached tree: the arrays of branches that lose an entry, that are
  merged or that take over a child of their neighbour, the trees that the cache holds afterwards, and the
  tree of any height in which one node that got too small is merged with a neighbour or gets an entry from it.
\<close>

subsection \<open>The arrays of a branch\<close>

lemma branch_arraysD:
  assumes "branch_arrays E m ks cs as"
  shows "\<not> n_isLeaf (raw m)" "n_keys (raw m) = length ks" "length cs = length ks + 1" "length ks < branchOrder E"
    "length (pointers m) = branchOrder E" "length (n_key (raw m)) = keySlots E" "length (n_addr (raw m)) = branchOrder E"
    "take (length ks) (n_key (raw m)) = ks" "take (length ks + 1) (pointers m) = map Some cs"
    "take (length ks + 1) (n_addr (raw m)) = as" "length as = length ks + 1" "length ks \<le> keySlots E"
proof -
  show facts: "\<not> n_isLeaf (raw m)" "n_keys (raw m) = length ks" "length cs = length ks + 1" "length ks < branchOrder E"
    "length (pointers m) = branchOrder E" "length (n_key (raw m)) = keySlots E" "length (n_addr (raw m)) = branchOrder E"
    "take (length ks) (n_key (raw m)) = ks" "take (length ks + 1) (pointers m) = map Some cs"
    "take (length ks + 1) (n_addr (raw m)) = as"
    using assms unfolding branch_arrays_def by (blast, blast, blast, blast, blast, blast, blast, blast, metis, metis)
  show "length as = length ks + 1" using facts(4,7,10) by (metis Suc_eq_plus1 Suc_leI length_take min.absorb2)
  show "length ks \<le> keySlots E" using facts(4) key_slots [of E] by linarith
qed

lemma branch_arraysI:
  assumes "\<not> n_isLeaf (raw m)" "n_keys (raw m) = length ks" "length cs = length ks + 1" "length ks < branchOrder E"
    "length (pointers m) = branchOrder E" "length (n_key (raw m)) = keySlots E" "length (n_addr (raw m)) = branchOrder E"
    "take (length ks) (n_key (raw m)) = ks" "take (length ks + 1) (pointers m) = map Some cs"
    "take (length ks + 1) (n_addr (raw m)) = as"
  shows "branch_arrays E m ks cs as"
  using assms unfolding branch_arrays_def by simp

text \<open>The entry of a key is removed with the child behind it.\<close>

lemma shift_out_at:
  assumes "take n xs = us @ x # vs" and "n \<le> m" and "m \<le> length xs"
  shows "take (n - 1) (copy_to (n - 1) (replicate (m - (n - 1)) z) (shift_down (length us) (n - 1) xs)) = us @ vs"
proof -
  have "length (take n xs) = n" using assms(2,3) by simp
  then have "length us < n" using assms(1) by simp
  then show ?thesis using shift_out_eq [of "length us" n m xs z] assms by simp
qed

lemma remove_entry_branch:
  assumes arr: "branch_arrays E m (K1 @ k # K2) (C1 @ x # y # C2) (map f (C1 @ x # y # C2))" and len: "length C1 = length K1"
    and less: "\<forall>j\<in>set K1. j < k"
  shows "\<exists>m'. remove_entry E k m = Some m' \<and> branch_arrays E m' (K1 @ K2) (C1 @ x # C2) (map f (C1 @ x # C2)) \<and>
    parent m' = parent m \<and> n_self (raw m') = n_self (raw m)"
proof -
  let ?n = "length (K1 @ k # K2)" and ?bo = "branchOrder E"
  note A = branch_arraysD [OF arr]
  have at: "n_key (raw m) ! i = (K1 @ k # K2) ! i" if "i < ?n" for i using A(8) that by (metis nth_take)
  have pos: "leaf_position k (raw m) = length K1"
    unfolding leaf_position_def A(2)
    by (rule scan_while_eqI) (use at less in \<open>auto simp: nth_append dest: nth_mem\<close>)
  have before: "\<not> k < n_key (raw m) ! (length K1 - 1)" if "0 < length K1"
    using at [of "length K1 - 1"] nth_mem [of "length K1 - 1" K1] less that by (fastforce simp: nth_append)
  let ?keys = "copy_to (?n - 1) (replicate (?bo - ?n) 0) (shift_down (length K1) (?n - 1) (n_key (raw m)))"
  let ?addrs = "copy_to ?n (replicate (?bo - ?n) 0) (shift_down (length K1 + 1) ?n (n_addr (raw m)))"
  let ?ptrs = "copy_to ?n (replicate (?bo - ?n) None) (shift_down (length K1 + 1) ?n (pointers m))"
  have "take (?n - 1) ?keys = K1 @ K2"
    using shift_out_at [of ?n "n_key (raw m)" K1 k K2 "?bo - 1" 0] A(4,6,8) key_slots [of E] by simp
  moreover have "take ?n ?addrs = map f (C1 @ x # C2)"
    using shift_out_at [of "?n + 1" "n_addr (raw m)" "map f (C1 @ [x])" "f y" "map f C2" ?bo 0] A(4,7,10) len by simp
  moreover have "take ?n ?ptrs = map Some (C1 @ x # C2)"
    using shift_out_at [of "?n + 1" "pointers m" "map Some (C1 @ [x])" "Some y" "map Some C2" ?bo None] A(4,5,9) len by simp
  ultimately have arrays: "branch_arrays E (m\<lparr>raw := (raw m)\<lparr>n_key := ?keys, n_addr := ?addrs, n_keys := ?n - 1\<rparr>,
      pointers := ?ptrs, n_dirty := True\<rparr>) (K1 @ K2) (C1 @ x # C2) (map f (C1 @ x # C2))"
    using A(1-7) len by (intro branch_arraysI) simp_all
  show ?thesis using pos before A(1,2) arrays by (auto simp: remove_entry_def Let_def)
qed

text \<open>The branch on the right is appended to the one on the left.\<close>

lemma copy_behind:
  assumes "take n dst = xs" and "length xs = n" and "n + length src \<le> length dst"
  shows "take (n + length src) (copy_to n src dst) = xs @ src"
  using assms by (simp add: copy_to_eq)

lemma prefix_nth:
  assumes "take n xs = us @ y # vs"
  shows "xs ! length us = y"
proof -
  have "length us < n" using arg_cong [OF assms, of length] by simp
  then have "xs ! length us = take n xs ! length us" by simp
  then show ?thesis by (simp add: assms)
qed

lemma append_branch_arrays:
  assumes a: "branch_arrays E to ks cs as" and b: "branch_arrays E from ks' cs' as'" and room: "length ks + 1 + length ks' < branchOrder E"
  shows "branch_arrays E (append_branch k from to) (ks @ k # ks') (cs @ cs') (as @ as')"
proof -
  let ?n = "length ks" and ?m = "length ks'"
  note A = branch_arraysD [OF a] and B = branch_arraysD [OF b]
  have "take (?n + 1) ((n_key (raw to))[?n := k]) = ks @ [k]"
    using A(6,8) room key_slots [of E] by (simp add: take_Suc_conv_app_nth)
  then have "take (?n + 1 + ?m) (copy_to (?n + 1) ks' ((n_key (raw to))[?n := k])) = (ks @ [k]) @ ks'"
    by (rule copy_behind) (use A(6) room key_slots [of E] in simp_all)
  moreover have "take (?n + 1 + length cs') (copy_to (?n + 1) (map Some cs') (pointers to)) = map Some cs @ map Some cs'"
    using copy_behind [OF A(9), of "map Some cs'"] A(3,5) B(3) room by simp
  moreover have "take (?n + 1 + length cs') (copy_to (?n + 1) as' (n_addr (raw to))) = as @ as'"
    using copy_behind [OF A(10,11), of as'] A(7) B(3,11) room by simp
  ultimately show ?thesis
    using A(1-7) B(2,3,8-10) room by (intro branch_arraysI) (simp_all add: append_branch_def Let_def)
qed

text \<open>A child of the neighbour on the left or on the right.\<close>

lemma branch_from_left_arrays:
  assumes m: "branch_arrays E m ks' cs' as'" and nb: "branch_arrays E nb (ks @ [l]) (cs @ [c]) (as @ [x])"
    and room: "length ks' + 1 < branchOrder E" and run: "branch_from_left k m nb = (m', nb', key)"
  shows "branch_arrays E m' (k # ks') (c # cs') (x # as')" and "branch_arrays E nb' ks cs as" and "key = l"
    and "pointers m' ! 0 = Some c"
proof -
  let ?n = "length ks'" and ?l = "length ks + 1"
  note A = branch_arraysD [OF m] and B = branch_arraysD [OF nb]
  have lens: "length cs = ?l" "length as = ?l" using B(3,11) by simp_all
  have at: "n_key (raw nb) ! length ks = l" "pointers nb ! ?l = Some c" "n_addr (raw nb) ! ?l = x"
    using prefix_nth [of _ "n_key (raw nb)" ks l "[]"] prefix_nth [of _ "pointers nb" "map Some cs" "Some c" "[]"]
      prefix_nth [of _ "n_addr (raw nb)" as x "[]"] B(8-10) lens by fastforce+
  have pre: "take (length ks) (n_key (raw nb)) = ks" "take ?l (pointers nb) = map Some cs" "take ?l (n_addr (raw nb)) = as"
    using arg_cong [OF B(8), of "take (length ks)"] arg_cong [OF B(9), of "take ?l"] arg_cong [OF B(10), of "take ?l"] lens
    by (simp_all add: min_def)
  have eqs: "m' = m\<lparr>raw := (raw m)\<lparr>n_key := (shift_up 0 ?n (n_key (raw m)))[0 := k],
        n_addr := (shift_up 0 (?n + 1) (n_addr (raw m)))[0 := x], n_keys := ?n + 1\<rparr>,
      pointers := (shift_up 0 (?n + 1) (pointers m))[0 := Some c]\<rparr>"
    "nb' = nb\<lparr>raw := (raw nb)\<lparr>n_addr := (n_addr (raw nb))[?l := 0], n_keys := length ks\<rparr>, pointers := (pointers nb)[?l := None]\<rparr>"
    "key = l"
    using run A(2) B(2) at by (simp_all add: branch_from_left_def Let_def)
  show "key = l" by (rule eqs(3))
  have "take (?n + 1) ((shift_up 0 ?n (n_key (raw m)))[0 := k]) = k # ks'"
    using shift_in_eq [of 0 ?n "n_key (raw m)" k] A(6,8) room key_slots [of E] by (simp add: put_at_def)
  moreover have "take (?n + 2) ((shift_up 0 (?n + 1) (pointers m))[0 := Some c]) = map Some (c # cs')"
    using shift_in_eq [of 0 "?n + 1" "pointers m" "Some c"] A(5,9) room by (simp add: put_at_def)
  moreover have "take (?n + 2) ((shift_up 0 (?n + 1) (n_addr (raw m)))[0 := x]) = x # as'"
    using shift_in_eq [of 0 "?n + 1" "n_addr (raw m)" x] A(7,10) room by (simp add: put_at_def)
  ultimately show "branch_arrays E m' (k # ks') (c # cs') (x # as')"
    using A(1-7) room unfolding eqs by (intro branch_arraysI) simp_all
  show "branch_arrays E nb' ks cs as"
    using B(1,4-7) pre lens unfolding eqs by (intro branch_arraysI) simp_all
  have "0 < length (shift_up 0 (?n + 1) (pointers m))" using A(5) room by simp
  then show "pointers m' ! 0 = Some c" unfolding eqs by simp
qed

lemma branch_from_right_arrays:
  assumes m: "branch_arrays E m ks cs as" and nb: "branch_arrays E nb (l # ks') (c # cs') (x # as')"
    and room: "length ks + 1 < branchOrder E" and run: "branch_from_right k m nb = (m', nb', key)"
  shows "branch_arrays E m' (ks @ [k]) (cs @ [c]) (as @ [x])" and "branch_arrays E nb' ks' cs' as'" and "key = l"
    and "pointers m' ! (length ks + 1) = Some c"
proof -
  let ?n = "length ks" and ?l = "length ks' + 1"
  note A = branch_arraysD [OF m] and B = branch_arraysD [OF nb]
  have at: "n_key (raw nb) ! 0 = l" "pointers nb ! 0 = Some c" "n_addr (raw nb) ! 0 = x"
    using prefix_nth [of _ "n_key (raw nb)" "[]" l ks'] prefix_nth [of _ "pointers nb" "[]" "Some c" "map Some cs'"]
      prefix_nth [of _ "n_addr (raw nb)" "[]" x as'] B(8-10) by fastforce+
  have eqs: "m' = m\<lparr>raw := (raw m)\<lparr>n_key := (n_key (raw m))[?n := k], n_addr := (n_addr (raw m))[?n + 1 := x], n_keys := ?n + 1\<rparr>,
      pointers := (pointers m)[?n + 1 := Some c]\<rparr>"
    "nb' = nb\<lparr>raw := (raw nb)\<lparr>n_key := shift_down 0 (?l - 1) (n_key (raw nb)), n_addr := shift_down 0 ?l (n_addr (raw nb)),
        n_keys := ?l - 1\<rparr>, pointers := shift_down 0 ?l (pointers nb)\<rparr>"
    "key = l"
    using run A(2) B(2) at by (simp_all add: branch_from_right_def Let_def)
  show "key = l" by (rule eqs(3))
  have "take (?n + 1) ((n_key (raw m))[?n := k]) = ks @ [k]"
    using A(6,8) room key_slots [of E] by (simp add: take_Suc_conv_app_nth)
  moreover have "take (?n + 2) ((pointers m)[?n + 1 := Some c]) = map Some (cs @ [c])"
    using A(5,9) room by (simp add: take_Suc_conv_app_nth)
  moreover have "take (?n + 2) ((n_addr (raw m))[?n + 1 := x]) = as @ [x]"
    using A(7,10) room by (simp add: take_Suc_conv_app_nth)
  ultimately show "branch_arrays E m' (ks @ [k]) (cs @ [c]) (as @ [x])"
    using A(1-7) room unfolding eqs by (intro branch_arraysI) simp_all
  have "take (?l - 1) (shift_down 0 (?l - 1) (n_key (raw nb))) = ks'"
    using shift_out_take [of 0 ?l "n_key (raw nb)"] B(6,8,12) by simp
  moreover have "take ?l (shift_down 0 ?l (pointers nb)) = map Some cs'"
    using shift_out_take [of 0 "?l + 1" "pointers nb"] B(4,5,9) by simp
  moreover have "take ?l (shift_down 0 ?l (n_addr (raw nb))) = as'"
    using shift_out_take [of 0 "?l + 1" "n_addr (raw nb)"] B(4,7,10) by simp
  ultimately show "branch_arrays E nb' ks' cs' as'"
    using B(1,3-7) unfolding eqs by (intro branch_arraysI) simp_all
  show "pointers m' ! (length ks + 1) = Some c" using A(5) room unfolding eqs by simp
qed


section \<open>The trees afterwards\<close>

subsection \<open>Children with a new parent\<close>

text \<open>\<open>T'\<close> has the trees of the list below \<open>q\<close>, and their nodes are as before otherwise.\<close>

definition moved_to :: "'f env \<Rightarrow> nat \<Rightarrow> atree list \<Rightarrow> tree_cache \<Rightarrow> tree_cache \<Rightarrow> bool" where
  "moved_to E q us T T' \<longleftrightarrow> (\<forall>i\<in>set (concat (map indices us)). slot E T i \<longrightarrow> slot E T' i \<and>
     raw (node T' i) = raw (node T i) \<and> pointers (node T' i) = pointers (node T i) \<and>
     parent (node T' i) = (if i \<in> root_of ` set us then Some q else parent (node T i)))"

lemma moved_to_holds:
  assumes moved: "moved_to E q us T T'" and dist: "distinct (concat (map indices us))" and u: "u \<in> set us" "holds E T r u"
  shows "holds E T' q u" and "self_of T' (root_of u) = self_of T (root_of u)"
proof -
  have at: "slot E T i \<Longrightarrow> slot E T' i \<and> raw (node T' i) = raw (node T i) \<and> pointers (node T' i) = pointers (node T i) \<and>
      parent (node T' i) = (if i = root_of u then Some q else parent (node T i))" if i: "i \<in> set (indices u)" for i
  proof -
    have "i \<in> root_of ` set us \<longleftrightarrow> i = root_of u" using subtree_root_unique [OF dist u(1) _ i] u(1) by auto
    moreover have "i \<in> set (concat (map indices us))" using u(1) i by auto
    ultimately show "slot E T i \<Longrightarrow> slot E T' i \<and> raw (node T' i) = raw (node T i) \<and> pointers (node T' i) = pointers (node T i) \<and>
      parent (node T' i) = (if i = root_of u then Some q else parent (node T i))"
      using bspec [OF moved [unfolded moved_to_def], of i] by simp
  qed
  have root: "slot E T (root_of u)" using holds_root [OF u(2)] by blast
  note at_root = at [OF root_in_indices root]
  then show "self_of T' (root_of u) = self_of T (root_of u)" by simp
  have "agree E (set (indices u) - {root_of u}) T T'" using at by (auto simp: agree_def core_def)
  moreover have "distinct (indices u)" using dist u(1) by (auto simp: distinct_concat_iff)
  ultimately show "holds E T' q u" using holds_moved [OF u(2)] at_root by simp
qed

lemma moved_to_append: "moved_to E q us T T' \<Longrightarrow> moved_to E q us' T T' \<Longrightarrow>
    distinct (concat (map indices (us @ us'))) \<Longrightarrow> moved_to E q (us @ us') T T'"
  using roots_in [of us] roots_in [of us'] by (auto simp: moved_to_def)

lemma agree_moved:
  assumes "agree E (set (concat (map indices us))) T T'" and "\<forall>u\<in>set us. holds E T q u"
  shows "moved_to E q us T T'"
proof -
  have "parent (node T (root_of u)) = Some q" if "u \<in> set us" for u using assms(2) that holds_root by blast
  then show ?thesis unfolding moved_to_def by (intro ballI impI) (use agreeD [OF assms(1)] in auto)
qed

text \<open>A branch whose children are in place.\<close>

lemma branch_of:
  assumes "slot E T' i" and "parent (node T' i) = Some q" and "branch_arrays E m ks (map root_of ts) (map (self_of T) (map root_of ts))"
    and "raw (node T' i) = raw m" and "pointers (node T' i) = pointers m"
    and "\<And>t. t \<in> set ts \<Longrightarrow> holds E T' i t \<and> self_of T' (root_of t) = self_of T (root_of t)"
  shows "holds E T' q (ABranch i ks ts)"
proof -
  have "map (self_of T') (map root_of ts) = map (self_of T) (map root_of ts)" using assms(6) by simp
  then have "branch_holds E T' i ks (map root_of ts)"
    unfolding branch_holds_def using assms(3) branch_arrays_cong [OF assms(4,5), of E] by metis
  then show ?thesis using assms by simp
qed

lemma pair_siblings:
  assumes hold: "holds E T q (ABranch p ks (S1 @ ms @ S2))" and dist: "distinct (indices (ABranch p ks (S1 @ ms @ S2)))"
    and agree: "agree E (- insert p (set (concat (map indices ms)))) T T'" and t: "t \<in> set (S1 @ S2)"
  shows "holds E T' p t \<and> self_of T' (root_of t) = self_of T (root_of t)"
proof -
  have "set (indices t) \<subseteq> - insert p (set (concat (map indices ms)))" using dist t by auto
  then have a: "agree E (set (indices t)) T T'" using agree agree_mono by blast
  have h: "holds E T p t" using hold t by auto
  then have "self_of T' (root_of t) = self_of T (root_of t)" using agreeD(2) [OF a root_in_indices] holds_root by metis
  then show ?thesis using holds_agree [OF h a] by simp
qed

subsection \<open>Two neighbours below their parent\<close>

text \<open>The right one is merged into the left one, and its entry in the parent is removed.\<close>

lemma pair_merged:
  assumes hold: "holds E T q (ABranch p (K1 @ k # K2) (S1 @ a # b # S2))"
    and dist: "distinct (indices (ABranch p (K1 @ k # K2) (S1 @ a # b # S2)))"
    and len: "length S1 = length K1" and less: "\<forall>j\<in>set K1. j < k"
    and agree: "agree E (- insert p (set (indices a @ indices b))) T T'"
    and p: "remove_entry E k (node T p) = Some m'" "core T' p = (raw m', pointers m', parent m')" "slot E T' p"
    and J: "holds E T' p J" "root_of J = root_of a" "self_of T' (root_of a) = self_of T (root_of a)"
  shows "holds E T' q (ABranch p (K1 @ K2) (S1 @ J # S2))" and "self_of T' p = self_of T p"
proof -
  have at: "branch_arrays E (node T p) (K1 @ k # K2) (map root_of S1 @ root_of a # root_of b # map root_of S2)
      (map (self_of T) (map root_of S1 @ root_of a # root_of b # map root_of S2))" "parent (node T p) = Some q"
    using hold by (simp_all add: branch_holds_def)
  have m': "branch_arrays E m' (K1 @ K2) (map root_of S1 @ root_of a # map root_of S2)
      (map (self_of T) (map root_of S1 @ root_of a # map root_of S2))" "parent m' = parent (node T p)" "n_self (raw m') = self_of T p"
    using remove_entry_branch [OF at(1) _ less] len p(1) by auto
  have core: "raw (node T' p) = raw m'" "pointers (node T' p) = pointers m'" "parent (node T' p) = Some q"
    using p(2) m'(2) at(2) by (simp_all add: core_def)
  show "self_of T' p = self_of T p" using core(1) m'(3) by simp
  have sib: "holds E T' p t \<and> self_of T' (root_of t) = self_of T (root_of t)" if "t \<in> set (S1 @ S2)" for t
    using pair_siblings [of E T q p "K1 @ k # K2" S1 "[a, b]" S2 T' t] hold dist agree that by simp
  show "holds E T' q (ABranch p (K1 @ K2) (S1 @ J # S2))"
  proof (rule branch_of [OF p(3) core(3) _ core(1,2)])
    show "branch_arrays E m' (K1 @ K2) (map root_of (S1 @ J # S2)) (map (self_of T) (map root_of (S1 @ J # S2)))"
      using m'(1) J(2) by simp
    show "holds E T' p t \<and> self_of T' (root_of t) = self_of T (root_of t)" if "t \<in> set (S1 @ J # S2)" for t
      using that sib [of t] J by auto
  qed
qed

text \<open>The key between them is changed.\<close>

lemma branch_arrays_key:
  assumes "branch_arrays E m (K1 @ k # K2) cs as"
  shows "branch_arrays E (upd_raw (\<lambda>r. r\<lparr>n_key := (n_key r)[length K1 := k']\<rparr>) m) (K1 @ k' # K2) cs as"
proof -
  note A = branch_arraysD [OF assms]
  have "take (length (K1 @ k # K2)) ((n_key (raw m))[length K1 := k']) = (K1 @ k # K2)[length K1 := k']"
    using A(8) by (metis take_update_swap)
  then show ?thesis using A by (intro branch_arraysI) (simp_all add: upd_raw_def)
qed

lemma pair_rotated:
  assumes hold: "holds E T q (ABranch p (K1 @ k # K2) (S1 @ a # b # S2))"
    and dist: "distinct (indices (ABranch p (K1 @ k # K2) (S1 @ a # b # S2)))"
    and agree: "agree E (- insert p (set (indices a @ indices b))) T T'"
    and p: "core T' p = (raw (upd_raw (\<lambda>r. r\<lparr>n_key := (n_key r)[length K1 := k']\<rparr>) (node T p)), pointers (node T p), parent (node T p))"
      "slot E T' p"
    and a': "holds E T' p a'" "root_of a' = root_of a" "self_of T' (root_of a) = self_of T (root_of a)"
    and b': "holds E T' p b'" "root_of b' = root_of b" "self_of T' (root_of b) = self_of T (root_of b)"
  shows "holds E T' q (ABranch p (K1 @ k' # K2) (S1 @ a' # b' # S2))" and "self_of T' p = self_of T p"
proof -
  let ?m = "upd_raw (\<lambda>r. r\<lparr>n_key := (n_key r)[length K1 := k']\<rparr>) (node T p)"
  have at: "branch_arrays E (node T p) (K1 @ k # K2) (map root_of S1 @ root_of a # root_of b # map root_of S2)
      (map (self_of T) (map root_of S1 @ root_of a # root_of b # map root_of S2))" "parent (node T p) = Some q"
    using hold by (simp_all add: branch_holds_def)
  have core: "raw (node T' p) = raw ?m" "pointers (node T' p) = pointers ?m" "parent (node T' p) = Some q"
    using p(1) at(2) by (simp_all add: core_def upd_raw_def)
  show "self_of T' p = self_of T p" using core(1) by (simp add: upd_raw_def)
  have sib: "holds E T' p t \<and> self_of T' (root_of t) = self_of T (root_of t)" if "t \<in> set (S1 @ S2)" for t
    using pair_siblings [of E T q p "K1 @ k # K2" S1 "[a, b]" S2 T' t] hold dist agree that by simp
  show "holds E T' q (ABranch p (K1 @ k' # K2) (S1 @ a' # b' # S2))"
  proof (rule branch_of [OF p(2) core(3) _ core(1,2)])
    show "branch_arrays E ?m (K1 @ k' # K2) (map root_of (S1 @ a' # b' # S2)) (map (self_of T) (map root_of (S1 @ a' # b' # S2)))"
      using branch_arrays_key [OF at(1)] a'(2) b'(2) by simp
    show "holds E T' p t \<and> self_of T' (root_of t) = self_of T (root_of t)" if "t \<in> set (S1 @ a' # b' # S2)" for t
      using that sib [of t] a' b' by auto
  qed
qed


subsection \<open>Merged nodes\<close>

lemma merged_leaf:
  assumes a: "holds E T p (ALeaf ra La)" and b: "holds E T p (ALeaf rb Lb)" and room: "length La + length Lb \<le> leafOrder E"
    and order: "\<forall>x\<in>set La. \<forall>y\<in>set Lb. i_no x < i_no y"
    and ra: "raw (node T' ra) = append_leaf (raw (node T rb)) (raw (node T ra))" "parent (node T' ra) = Some p" "slot E T' ra"
  shows "holds E T' p (ALeaf ra (La @ Lb))" and "self_of T' ra = self_of T ra"
proof -
  have L: "leaf_ok E (raw (node T ra))" "leaf_inodes (raw (node T ra)) = La" "leaf_ok E (raw (node T rb))" "leaf_inodes (raw (node T rb)) = Lb"
    using a b by simp_all
  then have n: "keyNo T rb + keyNo T ra \<le> leafOrder E" using leaf_okD(7) [OF L(1)] leaf_okD(7) [OF L(3)] room by simp
  have "leaf_ok E (append_leaf (raw (node T rb)) (raw (node T ra)))"
    by (rule append_leaf_ok [OF L(3,1) n]) (use order L in simp)
  then show "holds E T' p (ALeaf ra (La @ Lb))" using append_leaf_inodes [OF L(3,1) n] L ra by simp
  show "self_of T' ra = self_of T ra" by (simp add: ra(1) append_leaf_def)
qed

lemma children_in: "holds E T p (ABranch i ks ts) \<Longrightarrow> branch_arrays E (node T i) ks (map root_of ts) (map (self_of T) (map root_of ts))"
  "holds E T p (ABranch i ks ts) \<Longrightarrow> t \<in> set ts \<Longrightarrow> holds E T i t" "holds E T p (ABranch i ks ts) \<Longrightarrow> length ts = length ks + 1"
  using branch_holdsD(3) [of E T i ks "map root_of ts"] by (simp_all add: branch_holds_def)

lemma merged_branch:
  assumes a: "holds E T p (ABranch ra ks us)" and b: "holds E T p (ABranch rb ks' us')" and room: "length ks + 1 + length ks' < branchOrder E"
    and m: "m = append_branch k (node T rb) (node T ra)"
    and ra: "raw (node T' ra) = raw m" "pointers (node T' ra) = pointers m" "parent (node T' ra) = Some p" "slot E T' ra"
    and moved: "moved_to E ra (us @ us') T T'" and dist: "distinct (concat (map indices (us @ us')))"
  shows "holds E T' p (ABranch ra (ks @ k # ks') (us @ us'))" and "self_of T' ra = self_of T ra"
proof -
  show "holds E T' p (ABranch ra (ks @ k # ks') (us @ us'))"
  proof (rule branch_of [OF ra(4,3) _ ra(1,2)])
    show "branch_arrays E m (ks @ k # ks') (map root_of (us @ us')) (map (self_of T) (map root_of (us @ us')))"
      using append_branch_arrays [OF children_in(1) [OF a] children_in(1) [OF b] room, of k] by (simp add: m)
    show "holds E T' ra t \<and> self_of T' (root_of t) = self_of T (root_of t)" if "t \<in> set (us @ us')" for t
    proof -
      have "\<exists>r. holds E T r t" using that children_in(2) [OF a, of t] children_in(2) [OF b, of t] unfolding set_append by blast
      then show ?thesis using moved_to_holds [OF moved dist that] by blast
    qed
  qed
  show "self_of T' ra = self_of T ra" by (simp add: ra(1) m append_branch_def Let_def)
qed

subsection \<open>Nodes with a child of their neighbour\<close>

text \<open>\<open>m\<close> becomes the branch \<open>i\<close>; its children may come from elsewhere.\<close>

lemma branch_with:
  assumes "branch_arrays E m ks (map root_of us) (map (self_of T) (map root_of us))"
    and "raw (node T' i) = raw m" "pointers (node T' i) = pointers m" "parent (node T' i) = Some p" "slot E T' i"
    and "moved_to E i us T T'" and "distinct (concat (map indices us))" and "\<And>t. t \<in> set us \<Longrightarrow> \<exists>r. holds E T r t"
  shows "holds E T' p (ABranch i ks us)"
proof (rule branch_of [OF assms(5,4,1,2,3)])
  show "holds E T' i t \<and> self_of T' (root_of t) = self_of T (root_of t)" if "t \<in> set us" for t
    using moved_to_holds [OF assms(6,7) that] assms(8) [OF that] by blast
qed

lemma rotated_left:
  assumes a: "holds E T p (ABranch ra (ks @ [l]) (us @ [u]))" and b: "holds E T p (ABranch rb ks' us')"
    and room: "length ks' + 1 < branchOrder E" and run: "branch_from_left k (node T rb) (node T ra) = (m, nb, key)"
    and rb: "raw (node T' rb) = raw m" "pointers (node T' rb) = pointers m" "parent (node T' rb) = Some p" "slot E T' rb"
    and ra: "raw (node T' ra) = raw nb" "pointers (node T' ra) = pointers nb" "parent (node T' ra) = Some p" "slot E T' ra"
    and moved: "moved_to E ra us T T'" "moved_to E rb (u # us') T T'" and dist: "distinct (concat (map indices (us @ u # us')))"
  shows "holds E T' p (ABranch ra ks us)" and "holds E T' p (ABranch rb (k # ks') (u # us'))" and "key = l"
    and "pointers m ! 0 = Some (root_of u)" and "self_of T' ra = self_of T ra" and "self_of T' rb = self_of T rb"
proof -
  have len: "length us = length ks + 1" using children_in(3) [OF a] by simp
  have "branch_arrays E (node T ra) (ks @ [l]) (map root_of us @ [root_of u]) (map (self_of T) (map root_of us) @ [self_of T (root_of u)])"
    using children_in(1) [OF a] by simp
  note new = branch_from_left_arrays [OF children_in(1) [OF b] this room run]
  show "key = l" "pointers m ! 0 = Some (root_of u)" using new by simp_all
  show "holds E T' p (ABranch ra ks us)"
    by (rule branch_with [OF new(2) ra moved(1)]) (use dist children_in(2) [OF a] in auto)
  show "holds E T' p (ABranch rb (k # ks') (u # us'))"
    by (rule branch_with [OF _ rb moved(2)])
      (use new(1) dist children_in(2) [OF a] children_in(2) [OF b] in auto)
  show "self_of T' ra = self_of T ra" "self_of T' rb = self_of T rb"
    using run ra(1) rb(1) by (auto simp: branch_from_left_def Let_def)
qed

lemma rotated_right:
  assumes a: "holds E T p (ABranch ra ks us)" and b: "holds E T p (ABranch rb (l # ks') (u # us'))"
    and room: "length ks + 1 < branchOrder E" and run: "branch_from_right k (node T ra) (node T rb) = (m, nb, key)"
    and ra: "raw (node T' ra) = raw m" "pointers (node T' ra) = pointers m" "parent (node T' ra) = Some p" "slot E T' ra"
    and rb: "raw (node T' rb) = raw nb" "pointers (node T' rb) = pointers nb" "parent (node T' rb) = Some p" "slot E T' rb"
    and moved: "moved_to E ra (us @ [u]) T T'" "moved_to E rb us' T T'" and dist: "distinct (concat (map indices (us @ u # us')))"
  shows "holds E T' p (ABranch ra (ks @ [k]) (us @ [u]))" and "holds E T' p (ABranch rb ks' us')" and "key = l"
    and "pointers m ! (length ks + 1) = Some (root_of u)" and "self_of T' ra = self_of T ra" and "self_of T' rb = self_of T rb"
proof -
  have "branch_arrays E (node T rb) (l # ks') (root_of u # map root_of us') (self_of T (root_of u) # map (self_of T) (map root_of us'))"
    using children_in(1) [OF b] by simp
  note new = branch_from_right_arrays [OF children_in(1) [OF a] this room run]
  show "key = l" "pointers m ! (length ks + 1) = Some (root_of u)" using new by simp_all
  show "holds E T' p (ABranch ra (ks @ [k]) (us @ [u]))"
    by (rule branch_with [OF _ ra moved(1)])
      (use new(1) dist children_in(2) [OF a] children_in(2) [OF b] in auto)
  show "holds E T' p (ABranch rb ks' us')"
    by (rule branch_with [OF new(2) rb moved(2)]) (use dist children_in(2) [OF b] in auto)
  show "self_of T' ra = self_of T ra" "self_of T' rb = self_of T rb"
    using run ra(1) rb(1) by (auto simp: branch_from_right_def Let_def)
qed


subsection \<open>The order of the numbers\<close>

text \<open>Two neighbours and the key between them as one list.\<close>

lemma separated_join:
  assumes sep: "separated (K1 @ k # K2) (Ls1 @ A # B # Ls2)" and len: "length Ls1 = length K1"
  shows "separated (K1 @ K2) (Ls1 @ [] # Ls2)" and "\<forall>x\<in>insert k (set A \<union> set B). fits K1 K2 x"
    and "\<forall>x\<in>set A. x < k" and "\<forall>x\<in>set B. k \<le> x" and "\<forall>j\<in>set K1. j < k" and "length Ls2 = length K2"
proof -
  have parts: "separated K1 (Ls1 @ [A])" "separated K2 (B # Ls2)" "\<forall>x\<in>set (concat (Ls1 @ [A])). x < k"
    "\<forall>x\<in>set (concat (B # Ls2)). k \<le> x" "\<forall>j\<in>set K1. j < k" "\<forall>j\<in>set K2. k < j"
    using sep separated_append [of "Ls1 @ [A]" K1 k K2 "B # Ls2"] len by simp_all
  show "\<forall>x\<in>set A. x < k" "\<forall>x\<in>set B. k \<le> x" "\<forall>j\<in>set K1. j < k" using parts by simp_all
  show len2: "length Ls2 = length K2" using separated_length [OF parts(2)] by simp
  have "\<forall>x\<in>set A. fits K1 [] x" using separated_child [of Ls1 K1 "[]" "[]" A] parts(1) len by simp
  moreover have "\<forall>x\<in>set B. fits [] K2 x" using separated_child [of "[]" "[]" Ls2 K2 B] parts(2) len2 by simp
  ultimately show "\<forall>x\<in>insert k (set A \<union> set B). fits K1 K2 x"
    unfolding fits_def using parts(3-6)
    by (simp add: ball_Un) (meson less_imp_le less_le_trans less_trans order_less_le_trans le_less_trans)
  show "separated (K1 @ K2) (Ls1 @ [] # Ls2)"
  proof (cases K1 rule: rev_cases)
    case Nil
    then show ?thesis using parts(2) separated_head [of K2 B Ls2] len by simp
  next
    case (snoc K l)
    have "separated K Ls1 \<and> (\<forall>x\<in>set (concat Ls1). x < l) \<and> (\<forall>j\<in>set K. j < l)"
      using parts(1) separated_append [of Ls1 K l "[]" "[A]"] len snoc by simp
    moreover have "separated K2 ([] # Ls2)" using parts(2) separated_head [of K2 B Ls2] by simp
    moreover have "l < k" using parts(5) snoc by simp
    ultimately show ?thesis
      using separated_append [of Ls1 K l K2 "[] # Ls2"] parts(4,6) len snoc by (auto intro: less_trans less_imp_le less_le_trans)
  qed
qed

lemma ordered_merged:
  assumes B: "ordered (ABranch p (K1 @ k # K2) (S1 @ a # b # S2))" and len: "length S1 = length K1"
    and J: "ordered J" "set (numbers J) \<subseteq> insert k (set (numbers a) \<union> set (numbers b))"
  shows "ordered (ABranch p (K1 @ K2) (S1 @ J # S2))"
    and "set (numbers (ABranch p (K1 @ K2) (S1 @ J # S2))) \<subseteq> set (numbers (ABranch p (K1 @ k # K2) (S1 @ a # b # S2)))"
proof -
  have "separated (K1 @ k # K2) (map numbers S1 @ numbers a # numbers b # map numbers S2)" using B by simp
  note join = separated_join [OF this]
  have "separated (K1 @ K2) (map numbers S1 @ numbers J # map numbers S2)"
    using separated_child [of "map numbers S1" K1 "map numbers S2" K2 "numbers J"] join(1,2,6) J(2) len by auto
  then show "ordered (ABranch p (K1 @ K2) (S1 @ J # S2))" using B J(1) by auto
  show "set (numbers (ABranch p (K1 @ K2) (S1 @ J # S2))) \<subseteq> set (numbers (ABranch p (K1 @ k # K2) (S1 @ a # b # S2)))"
    using J(2) by (auto simp: set_numbers_branch)
qed

lemma ordered_rotated:
  assumes B: "ordered (ABranch p (K1 @ k # K2) (S1 @ a # b # S2))" and len: "length S1 = length K1"
    and new: "ordered a'" "ordered b'" "insert k' (set (numbers a') \<union> set (numbers b')) \<subseteq> insert k (set (numbers a) \<union> set (numbers b))"
      "numbers a' \<noteq> []" "\<forall>x\<in>set (numbers a'). x < k'" "\<forall>x\<in>set (numbers b'). k' \<le> x"
  shows "ordered (ABranch p (K1 @ k' # K2) (S1 @ a' # b' # S2))"
    and "set (numbers (ABranch p (K1 @ k' # K2) (S1 @ a' # b' # S2))) \<subseteq> set (numbers (ABranch p (K1 @ k # K2) (S1 @ a # b # S2)))"
proof -
  have "separated (K1 @ k # K2) (map numbers S1 @ numbers a # numbers b # map numbers S2)" using B by simp
  note join = separated_join [OF this]
  have fit: "\<forall>x\<in>insert k' (set (numbers a') \<union> set (numbers b')). fits K1 K2 x" using join(2) new(3) len by auto
  have "separated (K1 @ k' # K2) (map numbers S1 @ numbers a' # numbers b' # map numbers S2)"
    by (rule separated_split) (use join(1,6) fit new(4-6) len in \<open>auto simp: fits_def\<close>)
  then show "ordered (ABranch p (K1 @ k' # K2) (S1 @ a' # b' # S2))" using B new(1,2) by auto
  show "set (numbers (ABranch p (K1 @ k' # K2) (S1 @ a' # b' # S2))) \<subseteq> set (numbers (ABranch p (K1 @ k # K2) (S1 @ a # b # S2)))"
    using new(3) by (auto simp: set_numbers_branch)
qed

subsection \<open>Merged and rotated branches are ordered\<close>

lemma filled_numbers: "tree_config E \<Longrightarrow> filled E t \<Longrightarrow> numbers t \<noteq> []"
  by (cases t) (auto simp: tree_config_def cut_def numbers_def split: if_splits)

text \<open>A key above the numbers of the branch on the left is below every key of the branch on the right.\<close>

lemma keys_above:
  assumes "separated ks (map numbers ts)" and "\<forall>t\<in>set ts. numbers t \<noteq> []" and "\<forall>t\<in>set ts. \<forall>x\<in>set (numbers t). k \<le> x"
  shows "\<forall>j\<in>set ks. k < j"
proof -
  obtain t us where ts: "ts = t # us" using separated_length [OF assms(1)] by (cases ts) auto
  then obtain x where x: "x \<in> set (numbers t)" using assms(2) by (cases "numbers t") auto
  then have "k \<le> x" "\<forall>j\<in>set ks. x < j" using assms(1,3) ts separated_head [of ks "numbers t"] by auto
  then show ?thesis by auto
qed

lemma merged_branch_ordered:
  assumes a: "ordered (ABranch i ks us)" and b: "ordered (ABranch j ks' us')" and full: "\<forall>t\<in>set us'. numbers t \<noteq> []"
    and bounds: "\<forall>x\<in>set (numbers (ABranch i ks us)). x < k" "\<forall>x\<in>set (numbers (ABranch j ks' us')). k \<le> x"
  shows "ordered (ABranch i (ks @ k # ks') (us @ us'))"
    and "set (numbers (ABranch i (ks @ k # ks') (us @ us'))) \<subseteq> insert k (set (numbers (ABranch i ks us)) \<union> set (numbers (ABranch j ks' us')))"
proof -
  have seps: "separated ks (map numbers us)" "separated ks' (map numbers us')" using a b by simp_all
  have "\<forall>l\<in>set ks'. k < l" using keys_above [OF seps(2) full] bounds(2) by (auto simp: set_numbers_branch)
  then have "separated (ks @ k # ks') (map numbers us @ map numbers us')"
    using separated_append [of "map numbers us" ks k ks' "map numbers us'"] seps separated_length [OF seps(1)] bounds
    by (auto simp: set_numbers_branch)
  then show "ordered (ABranch i (ks @ k # ks') (us @ us'))" using a b by auto
  show "set (numbers (ABranch i (ks @ k # ks') (us @ us'))) \<subseteq> insert k (set (numbers (ABranch i ks us)) \<union> set (numbers (ABranch j ks' us')))"
    by (auto simp: set_numbers_branch)
qed

lemma rotated_left_ordered:
  assumes a: "ordered (ABranch i (ks @ [l]) (us @ [u]))" and b: "ordered (ABranch j ks' us')"
    and full: "\<forall>t\<in>set (us @ us'). numbers t \<noteq> []"
    and bounds: "\<forall>x\<in>set (numbers (ABranch i (ks @ [l]) (us @ [u]))). x < k" "\<forall>x\<in>set (numbers (ABranch j ks' us')). k \<le> x"
  shows "ordered (ABranch i ks us)" and "ordered (ABranch j (k # ks') (u # us'))" and "numbers (ABranch i ks us) \<noteq> []"
    and "\<forall>x\<in>set (numbers (ABranch i ks us)). x < l" and "\<forall>x\<in>set (numbers (ABranch j (k # ks') (u # us'))). l \<le> x"
proof -
  have seps: "separated (ks @ [l]) (map numbers us @ [numbers u])" "separated ks' (map numbers us')" using a b by simp_all
  have len: "length (map numbers us) = length ks + 1" using separated_length [OF seps(1)] by simp
  have left: "separated ks (map numbers us)" "\<forall>x\<in>set (concat (map numbers us)). x < l" "\<forall>x\<in>set (numbers u). l \<le> x" "\<forall>j\<in>set ks. j < l"
    using separated_append [OF len, of l "[]" "[numbers u]"] seps(1) by auto
  have k: "l < k" "\<forall>x\<in>set (numbers u). x < k" "\<forall>x\<in>set (concat (map numbers us')). k \<le> x"
    using bounds by (auto simp: set_numbers_branch)
  have above: "\<forall>l\<in>set ks'. k < l" using keys_above [OF seps(2)] full bounds(2) by (auto simp: set_numbers_branch)
  show "ordered (ABranch i ks us)" using a left(1) by simp
  show "ordered (ABranch j (k # ks') (u # us'))" using a b k above by simp
  show "numbers (ABranch i ks us) \<noteq> []" using full len by (cases us) (auto simp: numbers_def)
  show "\<forall>x\<in>set (numbers (ABranch i ks us)). x < l" using left by (auto simp: set_numbers_branch)
  show "\<forall>x\<in>set (numbers (ABranch j (k # ks') (u # us'))). l \<le> x"
    using k left(3) above by (fastforce simp: set_numbers_branch intro: less_imp_le)
qed

lemma rotated_right_ordered:
  assumes a: "ordered (ABranch i ks us)" and b: "ordered (ABranch j (l # ks') (u # us'))"
    and full: "\<forall>t\<in>set (u # us'). numbers t \<noteq> []"
    and bounds: "\<forall>x\<in>set (numbers (ABranch i ks us)). x < k" "\<forall>x\<in>set (numbers (ABranch j (l # ks') (u # us'))). k \<le> x"
  shows "ordered (ABranch i (ks @ [k]) (us @ [u]))" and "ordered (ABranch j ks' us')" and "numbers (ABranch i (ks @ [k]) (us @ [u])) \<noteq> []"
    and "\<forall>x\<in>set (numbers (ABranch i (ks @ [k]) (us @ [u]))). x < l" and "\<forall>x\<in>set (numbers (ABranch j ks' us')). l \<le> x"
proof -
  have seps: "separated ks (map numbers us)" "separated (l # ks') (numbers u # map numbers us')" using a b by simp_all
  have len: "length (map numbers us) = length ks + 1" using separated_length [OF seps(1)] by simp
  have right: "separated ks' (map numbers us')" "\<forall>x\<in>set (numbers u). x < l" "\<forall>x\<in>set (concat (map numbers us')). l \<le> x" "\<forall>j\<in>set ks'. l < j"
    using seps(2) by simp_all
  have k: "k < l" using keys_above [of "l # ks'" "u # us'" k] seps(2) full bounds(2) by (auto simp: set_numbers_branch)
  have "separated (ks @ [k]) (map numbers us @ [numbers u])"
    using separated_append [OF len, of k "[]" "[numbers u]"] seps(1) bounds by (auto simp: set_numbers_branch)
  then show "ordered (ABranch i (ks @ [k]) (us @ [u]))" using a b by auto
  show "ordered (ABranch j ks' us')" using b by simp
  show "numbers (ABranch i (ks @ [k]) (us @ [u])) \<noteq> []" by (simp add: numbers_def)
  show "\<forall>x\<in>set (numbers (ABranch i (ks @ [k]) (us @ [u]))). x < l" 
  proof
    fix x assume "x \<in> set (numbers (ABranch i (ks @ [k]) (us @ [u])))"
    then have "x \<in> set (numbers (ABranch i ks us)) \<or> x = k \<or> x \<in> set (numbers u)" by (auto simp: set_numbers_branch)
    then show "x < l" using bounds(1) right(2) k less_trans by blast
  qed
  show "\<forall>x\<in>set (numbers (ABranch j ks' us')). l \<le> x" using right by (auto simp: set_numbers_branch)
qed


subsection \<open>A freed slot\<close>

definition freed :: "'f env \<Rightarrow> nat \<Rightarrow> psm \<Rightarrow> tree_cache \<Rightarrow> tree_cache" where
  "freed E i P T = (setIndexFree E i (upd_node i (\<lambda>m. m\<lparr>n_dirty := False\<rparr>) T))\<lparr>tree_psm := P\<rparr>"

lemma freed_rest [simp]:
  "length (mCache (freed E i P T)) = length (mCache T)" "mCacheRoot (freed E i P T) = mCacheRoot T" "tree_psm (freed E i P T) = P"
  by (simp_all add: freed_def setIndexFree_def)

lemma node_freed: "node (freed E i P T) k = (if k = i \<and> i < length (mCache T) then (node T i)\<lparr>n_dirty := False\<rparr> else node T k)"
  using node_upd [of i "\<lambda>m. m\<lparr>n_dirty := False\<rparr>" T k] by (simp add: freed_def setIndexFree_def node_def)

lemma slots_ok_freed: "slots_ok E T \<Longrightarrow> slots_ok E (freed E i P T)"
  by (simp add: freed_def setIndexFree_def slots_ok_def upd_node_def)

lemma slot_freed:
  assumes "slots_ok E T" and "slot E T i"
  shows "slot E (freed E i P T) k \<longleftrightarrow> slot E T k \<and> k \<noteq> i"
proof (cases "k < treeNodeCacheSize E")
  case True
  moreover have "i < treeNodeCacheSize E" using assms by (simp add: slot_def slots_ok_def)
  ultimately show ?thesis
    using assms getBit_resetBit [of "mCacheUsage T" "treeNodeCacheSize E" i k]
    by (auto simp: slot_def slots_ok_def isIndexUsed_def freed_def setIndexFree_def upd_node_def)
next
  case False
  then show ?thesis using assms(1) by (simp add: slot_def slots_ok_def)
qed

lemma run_removeNode:
  assumes "\<not> readOnly s" and "pageListHWM (tree_psm (tc s)) < treeNodeCacheSize E" and "i < length (mCache (tc s))"
  shows "\<exists>m j P. run_state (removeNode E i) s = (R_ok, s\<lparr>mram := m, jr := j, tc := freed E i P (tc s)\<rparr>) \<and>
    pageListHWM P \<le> pageListHWM (tree_psm (tc s)) + 1"
proof -
  let ?T = "setIndexFree E i (upd_node i (\<lambda>m. m\<lparr>n_dirty := False\<rparr>) (tc s))" and ?p = "tree_psm (tc s)"
  have T: "tree_psm ?T = ?p" "raw (node ?T i) = raw (node (tc s) i)"
    using assms(3) by (simp_all add: setIndexFree_def upd_node_def node_def)
  show ?thesis
  proof (cases "self_of (tc s) i = 0")
    case True
    moreover have "freed E i ?p (tc s) = ?T" using T(1) by (simp add: freed_def)
    ultimately show ?thesis using T
      by (intro exI [of _ "mram s"] exI [of _ "jr s"] exI [of _ ?p]) (simp add: removeNode_def set_node_def node_at_def)
  next
    case False
    let ?p1 = "record_page 0 (self_of (tc s) i) ?p" and ?e = "ReplacePage Tp_tree 0 (self_of (tc s) i)"
    let ?s = "s\<lparr>tc := ?T\<lparr>tree_psm := ?p1\<rparr>\<rparr>"
    obtain m j where log: "log_event E ?e ?s = ?s\<lparr>mram := m, jr := j\<rparr>" by (metis log_event_form)
    have "run_state (removeNode E i) s = (R_ok, s\<lparr>mram := m, jr := j, tc := freed E i (?p1\<lparr>pageListHWM := pageListHWM ?p1 + 1\<rparr>) (tc s)\<rparr>)"
      using False T assms log
      by (simp add: removeNode_def set_node_def node_at_def deleteTreeNode_def replacePage_def replacePage_at_def tree_machine_def
          freed_def)
    then show ?thesis
      by (intro exI [of _ m] exI [of _ j] exI [of _ "?p1\<lparr>pageListHWM := pageListHWM ?p1 + 1\<rparr>"]) (simp add: record_page_def)
  qed
qed


subsection \<open>A subtree is replaced\<close>

abbreviation path_frames_ok :: "frame list \<Rightarrow> bool" where
  "path_frames_ok c \<equiv> \<forall>(i, ks1, ts1, ks2, ts2)\<in>set c. length ts1 = length ks1 \<and> length ts2 = length ks2"

lemma distinct_nodes_sub:
  assumes "mset P \<subseteq># mset Q" and "distinct_nodes T Q"
  shows "distinct_nodes T P"
proof -
  obtain R where "mset Q = mset P + mset R" using assms(1) by (metis ex_mset mset_subset_eq_exists_conv)
  then have "distinct_nodes T (P @ R)" using assms(2) distinct_nodes_mset [of Q "P @ R"] by simp
  then show ?thesis by (simp add: distinct_nodes_def)
qed

lemma closed_replaced:
  assumes frames: "path_frames_ok c" and tree: "closed_tree E T (plug c B)"
    and B': "holds E T' (slot_above c (root_of B)) B'" "root_of B' = root_of B" "mset (indices B') \<subseteq># mset (indices B)"
    and agree: "agree E (- set (indices B)) T T'" and self: "\<And>i. self_of T' i = self_of T i"
    and rest: "slots_ok E T'" "mCacheRoot T' = mCacheRoot T"
  shows "closed_tree E T' (plug c B')"
proof -
  have t: "holds E T (root_of (plug c B)) (plug c B)" "distinct_nodes T (indices (plug c B))" "mCacheRoot T = root_of (plug c B)"
    using tree by (simp_all add: closed_tree_def)
  have path: "path_holds E T c (root_of B)" using t(1) holds_plug [OF frames] by blast
  have "distinct_nodes T (path_indices c @ indices B)" using t(2) distinct_nodes_mset [OF indices_plug] by blast
  then have "set (path_indices c) \<subseteq> - set (indices B)" by (auto simp: distinct_nodes_def)
  then have "path_holds E T' c (root_of B)" using path_holds_agree [OF path agree_mono [OF agree]] self by simp
  then have "holds E T' (root_of (plug c B')) (plug c B')" using holds_plug [OF frames, of E T' B'] B'(1,2) by simp
  moreover have "mset (indices (plug c B')) \<subseteq># mset (indices (plug c B))" using B'(3) by (simp add: indices_plug)
  then have "distinct_nodes T (indices (plug c B'))" using t(2) distinct_nodes_sub by blast
  then have "distinct_nodes T' (indices (plug c B'))" using distinct_nodes_cong [of _ T' T] self by simp
  ultimately show ?thesis using rest t(3) B'(2) by (simp add: closed_tree_def root_of_plug)
qed

lemma plug_height:
  assumes "\<And>n. height_is n B \<Longrightarrow> height_is n B'"
  shows "height_is d (plug c B) \<Longrightarrow> height_is d (plug c B')"
  using assms
proof (induction c B arbitrary: B' rule: plug.induct)
  case (2 i ks1 ts1 ks2 ts2 c t)
  show ?case using "2.IH" [of "ABranch i (ks1 @ ks2) (ts1 @ B' # ts2)"] "2.prems" by auto
qed simp

lemma plug_ordered:
  assumes "path_frames_ok c" and "ordered (plug c B)" and "ordered B \<Longrightarrow> ordered B'" and "set (numbers B') \<subseteq> set (numbers B)"
  shows "ordered (plug c B')"
  using assms(2-4) unfolding ordered_plug [OF assms(1)] by auto

subsection \<open>A pair of neighbours\<close>

text \<open>The cache holds a tree in which the branch \<open>p\<close> has the children \<open>a\<close> and \<open>b\<close> next to each other.\<close>

definition pair_in ::
  "'f env \<Rightarrow> tree_cache \<Rightarrow> frame list \<Rightarrow> nat \<Rightarrow> InodeNo list \<Rightarrow> atree list \<Rightarrow> atree \<Rightarrow> InodeNo \<Rightarrow> atree \<Rightarrow>
   InodeNo list \<Rightarrow> atree list \<Rightarrow> bool" where
  "pair_in E T c p K1 S1 a k b K2 S2 \<longleftrightarrow> path_frames_ok c \<and> closed_tree E T (plug c (ABranch p (K1 @ k # K2) (S1 @ a # b # S2))) \<and>
     ordered (plug c (ABranch p (K1 @ k # K2) (S1 @ a # b # S2))) \<and> length S1 = length K1"

lemma pair_inD:
  assumes "pair_in E T c p K1 S1 a k b K2 S2"
  shows "holds E T (slot_above c p) (ABranch p (K1 @ k # K2) (S1 @ a # b # S2))"
    and "distinct (indices (ABranch p (K1 @ k # K2) (S1 @ a # b # S2)))" and "slots_ok E T"
    and "ordered (ABranch p (K1 @ k # K2) (S1 @ a # b # S2))" and "length S1 = length K1"
    and "holds E T p a" and "holds E T p b" and "ordered a" and "ordered b"
    and "\<forall>x\<in>set (numbers a). x < k" and "\<forall>x\<in>set (numbers b). k \<le> x" and "\<forall>j\<in>set K1. j < k"
    and "slot E T p" and "path_frames_ok c"
    and "p \<notin> set (indices a @ indices b)" and "distinct (indices a @ indices b)"
proof -
  let ?B = "ABranch p (K1 @ k # K2) (S1 @ a # b # S2)"
  have P: "path_frames_ok c" "closed_tree E T (plug c ?B)" "ordered (plug c ?B)" "length S1 = length K1"
    using assms by (simp_all add: pair_in_def)
  show "path_frames_ok c" "length S1 = length K1" by (fact P(1), fact P(4))
  show hold: "holds E T (slot_above c p) ?B" using P(2) holds_plug [OF P(1), of E T ?B] by (simp add: closed_tree_def)
  show ordered: "ordered ?B" using P(3) unfolding ordered_plug [OF P(1)] by blast
  have "distinct_nodes T (path_indices c @ indices ?B)"
    using P(2) distinct_nodes_mset [OF indices_plug] unfolding closed_tree_def by blast
  then show dist: "distinct (indices ?B)" by (simp add: distinct_nodes_def)
  then show "p \<notin> set (indices a @ indices b)" "distinct (indices a @ indices b)" by auto
  show "slots_ok E T" using P(2) by (simp add: closed_tree_def)
  show "holds E T p a" "holds E T p b" "slot E T p" "ordered a" "ordered b" using hold ordered by simp_all
  have "separated (K1 @ k # K2) (map numbers S1 @ numbers a # numbers b # map numbers S2)" using ordered by simp
  note join = separated_join [OF this]
  show "\<forall>x\<in>set (numbers a). x < k" "\<forall>x\<in>set (numbers b). k \<le> x" "\<forall>j\<in>set K1. j < k" using join(3-5) P(4) by simp_all
qed

text \<open>The neighbours as one node, and the neighbours with a moved entry.\<close>

lemma pair_closed_merged:
  assumes pair: "pair_in E T c p K1 S1 a k b K2 S2" and agree: "agree E (- insert p (set (indices a @ indices b))) T T'"
    and p: "remove_entry E k (node T p) = Some m'" "core T' p = (raw m', pointers m', parent m')" "slot E T' p"
    and J: "holds E T' p J" "root_of J = root_of a" "mset (indices J) \<subseteq># mset (indices a @ indices b)"
      "ordered J" "set (numbers J) \<subseteq> insert k (set (numbers a) \<union> set (numbers b))" "\<And>n. height_is n a \<Longrightarrow> height_is n b \<Longrightarrow> height_is n J"
    and self: "\<And>i. self_of T' i = self_of T i" and rest: "slots_ok E T'" "mCacheRoot T' = mCacheRoot T"
  shows "closed_tree E T' (plug c (ABranch p (K1 @ K2) (S1 @ J # S2)))" and "ordered (plug c (ABranch p (K1 @ K2) (S1 @ J # S2)))"
    and "height_is d (plug c (ABranch p (K1 @ k # K2) (S1 @ a # b # S2))) \<Longrightarrow> height_is d (plug c (ABranch p (K1 @ K2) (S1 @ J # S2)))"
proof -
  let ?B = "ABranch p (K1 @ k # K2) (S1 @ a # b # S2)" and ?B' = "ABranch p (K1 @ K2) (S1 @ J # S2)"
  note P = pair_inD [OF pair]
  have tree: "closed_tree E T (plug c ?B)" "ordered (plug c ?B)" using pair by (simp_all add: pair_in_def)
  have "holds E T' (slot_above c p) ?B'"
    by (rule pair_merged [OF P(1,2,5,12) agree p J(1,2)]) (simp add: self)
  moreover have "mset (indices ?B') \<subseteq># mset (indices ?B)" using J(3) by (simp add: union_assoc)
  moreover have "agree E (- set (indices ?B)) T T'" by (rule agree_mono [OF agree]) auto
  ultimately show "closed_tree E T' (plug c ?B')"
    by (intro closed_replaced [OF P(14) tree(1) _ _ _ _ self rest]) simp_all
  note new = ordered_merged [OF P(4,5) J(4,5)]
  show "ordered (plug c ?B')" by (rule plug_ordered [OF P(14) tree(2) new])
  have "height_is n ?B \<Longrightarrow> height_is n ?B'" for n using J(6) [of "n - 1"] by auto
  then show "height_is d (plug c ?B) \<Longrightarrow> height_is d (plug c ?B')" by (rule plug_height)
qed

lemma pair_closed_rotated:
  assumes pair: "pair_in E T c p K1 S1 a k b K2 S2" and agree: "agree E (- insert p (set (indices a @ indices b))) T T'"
    and p: "core T' p = (raw (upd_raw (\<lambda>r. r\<lparr>n_key := (n_key r)[length K1 := k']\<rparr>) (node T p)), pointers (node T p), parent (node T p))"
      "slot E T' p"
    and a': "holds E T' p a'" "root_of a' = root_of a" and b': "holds E T' p b'" "root_of b' = root_of b"
    and new: "mset (indices a' @ indices b') = mset (indices a @ indices b)" "ordered a'" "ordered b'"
      "insert k' (set (numbers a') \<union> set (numbers b')) \<subseteq> insert k (set (numbers a) \<union> set (numbers b))"
      "numbers a' \<noteq> []" "\<forall>x\<in>set (numbers a'). x < k'" "\<forall>x\<in>set (numbers b'). k' \<le> x"
      "\<And>n. height_is n a \<Longrightarrow> height_is n b \<Longrightarrow> height_is n a' \<and> height_is n b'"
    and self: "\<And>i. self_of T' i = self_of T i" and rest: "slots_ok E T'" "mCacheRoot T' = mCacheRoot T"
  shows "closed_tree E T' (plug c (ABranch p (K1 @ k' # K2) (S1 @ a' # b' # S2)))"
    and "ordered (plug c (ABranch p (K1 @ k' # K2) (S1 @ a' # b' # S2)))"
    and "height_is d (plug c (ABranch p (K1 @ k # K2) (S1 @ a # b # S2))) \<Longrightarrow> height_is d (plug c (ABranch p (K1 @ k' # K2) (S1 @ a' # b' # S2)))"
proof -
  let ?B = "ABranch p (K1 @ k # K2) (S1 @ a # b # S2)" and ?B' = "ABranch p (K1 @ k' # K2) (S1 @ a' # b' # S2)"
  note P = pair_inD [OF pair]
  have tree: "closed_tree E T (plug c ?B)" "ordered (plug c ?B)" using pair by (simp_all add: pair_in_def)
  have "holds E T' (slot_above c p) ?B'"
    by (rule pair_rotated [OF P(1,2) agree p a' _ b']) (simp_all add: self)
  moreover have "mset (indices ?B') \<subseteq># mset (indices ?B)" using new(1) by (simp add: union_assoc [symmetric])
  moreover have "agree E (- set (indices ?B)) T T'" by (rule agree_mono [OF agree]) auto
  ultimately show "closed_tree E T' (plug c ?B')"
    by (intro closed_replaced [OF P(14) tree(1) _ _ _ _ self rest]) simp_all
  note ordered = ordered_rotated [OF P(4,5) new(2-7)]
  show "ordered (plug c ?B')" by (rule plug_ordered [OF P(14) tree(2) ordered])
  have "height_is n ?B \<Longrightarrow> height_is n ?B'" for n using new(8) [of "n - 1"] by auto
  then show "height_is d (plug c ?B) \<Longrightarrow> height_is d (plug c ?B')" by (rule plug_height)
qed


subsection \<open>Merging\<close>

lemma merge_leaves:
  assumes pair: "pair_in E T c p K1 S1 (ALeaf ra La) k (ALeaf rb Lb) K2 S2" and room: "length La + length Lb \<le> leafOrder E"
    and m': "remove_entry E k (node T p) = Some m'"
    and T': "T' = upd_node p (\<lambda>_. m') (freed E rb P
      (upd_node ra (\<lambda>m. m\<lparr>raw := append_leaf (raw (node T rb)) (raw (node T ra)), n_dirty := True\<rparr>) T))"
  defines "J \<equiv> ALeaf ra (La @ Lb)"
  shows "closed_tree E T' (plug c (ABranch p (K1 @ K2) (S1 @ J # S2)))" and "ordered (plug c (ABranch p (K1 @ K2) (S1 @ J # S2)))"
    and "height_is d (plug c (ABranch p (K1 @ k # K2) (S1 @ ALeaf ra La # ALeaf rb Lb # S2))) \<Longrightarrow>
      height_is d (plug c (ABranch p (K1 @ K2) (S1 @ J # S2)))"
proof -
  note P = pair_inD [OF pair]
  have diff: "p \<noteq> ra" "p \<noteq> rb" "ra \<noteq> rb" using P(15,16) by simp_all
  have at: "slot E T ra" "slot E T rb" "parent (node T ra) = Some p" using P(6,7) by simp_all
  have less: "p < length (mCache T)" "ra < length (mCache T)" "rb < length (mCache T)" using slot_less at P(13) by auto
  have slots: "slot E T' i \<longleftrightarrow> slot E T i \<and> i \<noteq> rb" for i
    unfolding T' by (simp add: slot_freed slots_ok_def [of E "upd_node _ _ _"] P(3) [unfolded slots_ok_def] at)
  have node: "node T' i = (if i = p then m' else if i = ra then (node T ra)\<lparr>raw := append_leaf (raw (node T rb)) (raw (node T ra)), n_dirty := True\<rparr>
      else if i = rb then (node T rb)\<lparr>n_dirty := False\<rparr> else node T i)" for i
    using diff less by (simp add: T' node_upd node_freed)
  have m'_self: "n_self (raw m') = self_of T p"
    using m' by (auto simp: remove_entry_def Let_def split: if_splits)
  have self: "self_of T' i = self_of T i" for i by (simp add: node m'_self append_leaf_def)
  have order: "\<forall>x\<in>set La. \<forall>y\<in>set Lb. i_no x < i_no y" using P(10,11) by (fastforce simp: set_numbers_leaf)
  have J: "holds E T' p J" unfolding J_def
    by (rule merged_leaf(1) [OF P(6,7) room order]) (use diff at slots in \<open>simp_all add: node\<close>)
  have sorted: "ordered J" using P(8,9) order by (simp add: J_def sorted_wrt_append)
  have agree: "agree E (- insert p (set (indices (ALeaf ra La) @ indices (ALeaf rb Lb)))) T T'"
    by (intro agree_rest) (simp add: slots node)
  have ok: "slots_ok E T'" "mCacheRoot T' = mCacheRoot T"
    using slots_ok_freed [of E "upd_node ra _ T" rb P] P(3) by (simp_all add: T' slots_ok_def upd_node_def)
  have pm: "core T' p = (raw m', pointers m', parent m')" "slot E T' p" using diff P(13) by (simp_all add: core_def node slots)
  note closed = pair_closed_merged [OF pair agree m' pm J _ _ sorted _ _ self ok]
  show "closed_tree E T' (plug c (ABranch p (K1 @ K2) (S1 @ J # S2)))" "ordered (plug c (ABranch p (K1 @ K2) (S1 @ J # S2)))"
    "height_is d (plug c (ABranch p (K1 @ k # K2) (S1 @ ALeaf ra La # ALeaf rb Lb # S2))) \<Longrightarrow>
      height_is d (plug c (ABranch p (K1 @ K2) (S1 @ J # S2)))"
    by (rule closed; auto simp: J_def set_numbers_leaf)+
qed


lemma merge_branches:
  assumes pair: "pair_in E T c p K1 S1 (ABranch ra ks us) k (ABranch rb ks' us') K2 S2" and room: "length ks + 1 + length ks' < branchOrder E"
    and m': "remove_entry E k (node T p) = Some m'" and full: "\<forall>t\<in>set us'. numbers t \<noteq> []"
    and T': "T' = upd_node p (\<lambda>_. m') (freed E rb P (set_parents ra (map Some (map root_of (us @ us')))
      (upd_node rb (upd_raw (\<lambda>r. r\<lparr>n_keys := 0\<rparr>)) (upd_node ra (\<lambda>_. (append_branch k (node T rb) (node T ra))\<lparr>n_dirty := True\<rparr>) T))))"
  defines "J \<equiv> ABranch ra (ks @ k # ks') (us @ us')"
  shows "closed_tree E T' (plug c (ABranch p (K1 @ K2) (S1 @ J # S2)))" and "ordered (plug c (ABranch p (K1 @ K2) (S1 @ J # S2)))"
    and "height_is d (plug c (ABranch p (K1 @ k # K2) (S1 @ ABranch ra ks us # ABranch rb ks' us' # S2))) \<Longrightarrow>
      height_is d (plug c (ABranch p (K1 @ K2) (S1 @ J # S2)))"
proof -
  let ?M = "append_branch k (node T rb) (node T ra)" and ?C = "root_of ` set (us @ us')"
  note P = pair_inD [OF pair]
  have dist: "distinct (concat (map indices (us @ us')))" "p \<notin> set (concat (map indices (us @ us')))"
    "ra \<notin> set (concat (map indices (us @ us')))" "rb \<notin> set (concat (map indices (us @ us')))" and diff: "p \<noteq> ra" "p \<noteq> rb" "ra \<noteq> rb"
    using P(15,16) by auto
  have sub: "?C \<subseteq> set (concat (map indices (us @ us')))" using roots_in [of "us @ us'"] by (simp only: set_map)
  have C: "p \<notin> ?C" "ra \<notin> ?C" "rb \<notin> ?C" using dist(2-4) sub by blast+
  have at: "slot E T ra" "slot E T rb" "parent (node T ra) = Some p" using P(6,7) by simp_all
  have less: "p < length (mCache T)" "ra < length (mCache T)" "rb < length (mCache T)" using slot_less at P(13) by auto
  have slots: "slot E T' i \<longleftrightarrow> slot E T i \<and> i \<noteq> rb" for i
    unfolding T' by (simp add: slot_freed slots_ok_def [of E "set_parents _ _ _"] P(3) [unfolded slots_ok_def] at)
  have node: "node T' i = (if i = p then m' else if i = ra then ?M\<lparr>n_dirty := True\<rparr>
      else if i = rb then (upd_raw (\<lambda>r. r\<lparr>n_keys := 0\<rparr>) (node T rb))\<lparr>n_dirty := False\<rparr>
      else if i \<in> ?C \<and> i < length (mCache T) then (node T i)\<lparr>parent := Some ra\<rparr> else node T i)" for i
  proof -
    have "Some j \<in> set (map Some (map root_of (us @ us'))) \<longleftrightarrow> j \<in> ?C" for j by auto
    then show ?thesis using diff less C by (auto simp: T' node_upd node_freed node_set_parents)
  qed
  have M: "n_self (raw ?M) = self_of T ra" "parent ?M = Some p" using at by (simp_all add: append_branch_def Let_def)
  have m'_self: "n_self (raw m') = self_of T p"
    using m' by (auto simp: remove_entry_def Let_def split: if_splits)
  have self: "self_of T' i = self_of T i" for i by (simp add: node m'_self M upd_raw_def)
  have moved: "moved_to E ra (us @ us') T T'"
    unfolding moved_to_def
  proof (intro ballI impI)
    fix i assume i: "i \<in> set (concat (map indices (us @ us')))" "slot E T i"
    then have "i \<noteq> p" "i \<noteq> ra" "i \<noteq> rb" using dist(2-4) by metis+
    then show "slot E T' i \<and> raw (node T' i) = raw (node T i) \<and> pointers (node T' i) = pointers (node T i) \<and>
        parent (node T' i) = (if i \<in> ?C then Some ra else parent (node T i))"
      using slot_less [OF i(2)] i(2) by (simp add: node slots)
  qed
  have J: "holds E T' p J" unfolding J_def
    by (rule merged_branch(1) [OF P(6,7) room refl _ _ _ _ moved dist(1)]) (use diff at slots M in \<open>simp_all add: node\<close>)
  note sorted = merged_branch_ordered [OF P(8,9) full P(10,11), folded J_def]
  have agree: "agree E (- insert p (set (indices (ABranch ra ks us) @ indices (ABranch rb ks' us')))) T T'"
    using sub by (intro agree_rest) (auto simp: slots node)
  have ok: "slots_ok E T'" "mCacheRoot T' = mCacheRoot T"
    using slots_ok_freed [of E "set_parents ra (map Some (map root_of (us @ us'))) (upd_node rb (upd_raw (\<lambda>r. r\<lparr>n_keys := 0\<rparr>)) (upd_node ra (\<lambda>_. ?M\<lparr>n_dirty := True\<rparr>) T))" rb P] P(3)
    by (simp_all add: T' slots_ok_def)
  have pm: "core T' p = (raw m', pointers m', parent m')" "slot E T' p" using diff P(13) by (simp_all add: core_def node slots)
  note closed = pair_closed_merged [OF pair agree m' pm J _ _ sorted _ self ok]
  show "closed_tree E T' (plug c (ABranch p (K1 @ K2) (S1 @ J # S2)))" "ordered (plug c (ABranch p (K1 @ K2) (S1 @ J # S2)))"
    "height_is d (plug c (ABranch p (K1 @ k # K2) (S1 @ ABranch ra ks us # ABranch rb ks' us' # S2))) \<Longrightarrow>
      height_is d (plug c (ABranch p (K1 @ K2) (S1 @ J # S2)))"
    by (rule closed; auto simp: J_def)+
qed


subsection \<open>Redistribution\<close>

text \<open>The cache after \<^verbatim>\<open>redistributeNodes\<close>: \<open>m\<close> and \<open>f\<close> are the node and its neighbour, \<open>cs\<close> the child that moved.\<close>

definition redistributed ::
  "nat \<Rightarrow> TreeCacheNode \<Rightarrow> nat \<Rightarrow> TreeCacheNode \<Rightarrow> nat \<Rightarrow> nat \<Rightarrow> InodeNo \<Rightarrow> nat list \<Rightarrow> tree_cache \<Rightarrow> tree_cache" where
  "redistributed i m nb f p n key cs T = set_parents i (map Some cs)
     (upd_node p (\<lambda>x. (upd_raw (\<lambda>r. r\<lparr>n_key := (n_key r)[n := key]\<rparr>) x)\<lparr>n_dirty := True\<rparr>)
       (upd_node nb (\<lambda>_. f\<lparr>n_dirty := True\<rparr>) (upd_node i (\<lambda>_. m\<lparr>n_dirty := True\<rparr>) T)))"

lemma redistributed_nodes:
  assumes diff: "p \<noteq> i" "p \<noteq> nb" "i \<noteq> nb" "set cs \<inter> {p, i, nb} = {}"
    and less: "p < length (mCache T)" "i < length (mCache T)" "nb < length (mCache T)" "\<forall>c\<in>set cs. c < length (mCache T)"
    and self: "n_self (raw m) = self_of T i" "n_self (raw f) = self_of T nb"
    and T': "T' = redistributed i m nb f p n key cs T"
  shows "raw (node T' i) = raw m" "pointers (node T' i) = pointers m" "parent (node T' i) = parent m"
    and "raw (node T' nb) = raw f" "pointers (node T' nb) = pointers f" "parent (node T' nb) = parent f"
    and "core T' p = (raw (upd_raw (\<lambda>r. r\<lparr>n_key := (n_key r)[n := key]\<rparr>) (node T p)), pointers (node T p), parent (node T p))"
    and "\<And>j. j \<notin> {p, i, nb} \<Longrightarrow> raw (node T' j) = raw (node T j) \<and> pointers (node T' j) = pointers (node T j) \<and>
      parent (node T' j) = (if j \<in> set cs then Some i else parent (node T j))"
    and "\<And>j. slot E T' j = slot E T j" and "\<And>j. self_of T' j = self_of T j"
    and "slots_ok E T \<Longrightarrow> slots_ok E T'" and "mCacheRoot T' = mCacheRoot T"
proof -
  have node: "node T' j = (if j = p then (upd_raw (\<lambda>r. r\<lparr>n_key := (n_key r)[n := key]\<rparr>) (node T p))\<lparr>n_dirty := True\<rparr>
      else if j = i then m\<lparr>n_dirty := True\<rparr> else if j = nb then f\<lparr>n_dirty := True\<rparr>
      else if j \<in> set cs then (node T j)\<lparr>parent := Some i\<rparr> else node T j)" for j
  proof -
    have "Some j \<in> set (map Some cs) \<longleftrightarrow> j \<in> set cs" for j by auto
    then show ?thesis using diff less unfolding T' redistributed_def node_set_parents by (auto simp: node_upd)
  qed
  show "raw (node T' i) = raw m" "pointers (node T' i) = pointers m" "parent (node T' i) = parent m"
    "raw (node T' nb) = raw f" "pointers (node T' nb) = pointers f" "parent (node T' nb) = parent f"
    "core T' p = (raw (upd_raw (\<lambda>r. r\<lparr>n_key := (n_key r)[n := key]\<rparr>) (node T p)), pointers (node T p), parent (node T p))"
    using diff by (simp_all add: node core_def upd_raw_def)
  show "raw (node T' j) = raw (node T j) \<and> pointers (node T' j) = pointers (node T j) \<and>
      parent (node T' j) = (if j \<in> set cs then Some i else parent (node T j))" if "j \<notin> {p, i, nb}" for j
    using that by (simp add: node)
  show "slot E T' j = slot E T j" for j by (simp add: T' redistributed_def)
  show "self_of T' j = self_of T j" for j using self by (simp add: node upd_raw_def)
  show "slots_ok E T \<Longrightarrow> slots_ok E T'" "mCacheRoot T' = mCacheRoot T" by (simp_all add: T' redistributed_def slots_ok_def)
qed

text \<open>Leaves: one inode moves, and the new key of the parent is the first number of the right leaf.\<close>

lemma leaf_moves:
  assumes "leaf_ok E n" and "leaf_ok E nb" and "n_keys n < leafOrder E" and "1 < n_keys nb"
    and "L = (if fromLeft then leaf_inodes nb @ leaf_inodes n else leaf_inodes n @ leaf_inodes nb)"
    and "sorted_wrt (<) (map i_no L)"
    and "(if fromLeft then leaf_from_left n nb else leaf_from_right n nb) = (n', nb', key)"
  shows "(if fromLeft then leaf_inodes nb' @ leaf_inodes n' else leaf_inodes n' @ leaf_inodes nb') = L \<and>
     leaf_ok E n' \<and> leaf_ok E nb' \<and> n_keys nb' = n_keys nb - 1 \<and> n_keys n' = n_keys n + 1 \<and>
     key = first_no (if fromLeft then n' else nb')"
  using leaf_from_left_moves [OF assms(1,2,3), of n' nb' key] leaf_from_right_moves [OF assms(1,2,3,4), of n' nb' key]
    assms(4-7) by (cases fromLeft) simp_all

lemma leaf_moves_self:
  assumes "(if fromLeft then leaf_from_left n nb else leaf_from_right n nb) = (n', nb', key)"
  shows "n_self n' = n_self n" "n_self nb' = n_self nb"
  using assms by (auto simp: leaf_from_left_def leaf_from_right_def Let_def split: if_splits)

lemma strict_halves:
  assumes "strict (A @ B)" and "A \<noteq> []" and "B \<noteq> []"
  shows "strict A" "strict B" "\<forall>x\<in>set A. i_no x < i_no (hd B)" "\<forall>x\<in>set B. i_no (hd B) \<le> i_no x"
  using assms by (cases B; auto simp: sorted_wrt_append intro: less_imp_le)+

lemma rotate_leaves:
  assumes pair: "pair_in E T c p K1 S1 (ALeaf ra La) k (ALeaf rb Lb) K2 S2"
    and roles: "(i, nb) = (if fromLeft then (rb, ra) else (ra, rb))" and small: "keyNo T i < leafOrder E" "1 < keyNo T nb"
    and run: "(if fromLeft then leaf_from_left else leaf_from_right) (raw (node T i)) (raw (node T nb)) = (x, y, key)"
    and T': "T' = redistributed i ((node T i)\<lparr>raw := x\<rparr>) nb ((node T nb)\<lparr>raw := y\<rparr>) p (length K1) key [] T"
  shows "\<exists>La' Lb'. La' @ Lb' = La @ Lb \<and> length La' = (if fromLeft then length La - 1 else length La + 1) \<and>
     closed_tree E T' (plug c (ABranch p (K1 @ key # K2) (S1 @ ALeaf ra La' # ALeaf rb Lb' # S2))) \<and>
     ordered (plug c (ABranch p (K1 @ key # K2) (S1 @ ALeaf ra La' # ALeaf rb Lb' # S2))) \<and>
     (\<forall>d. height_is d (plug c (ABranch p (K1 @ k # K2) (S1 @ ALeaf ra La # ALeaf rb Lb # S2))) \<longrightarrow>
       height_is d (plug c (ABranch p (K1 @ key # K2) (S1 @ ALeaf ra La' # ALeaf rb Lb' # S2))))"
proof -
  note P = pair_inD [OF pair]
  have L: "leaf_ok E (raw (node T ra))" "leaf_inodes (raw (node T ra)) = La" "leaf_ok E (raw (node T rb))" "leaf_inodes (raw (node T rb)) = Lb"
    "slot E T ra" "slot E T rb" "parent (node T ra) = Some p" "parent (node T rb) = Some p" using P(6,7) by simp_all
  have diff: "p \<noteq> i" "p \<noteq> nb" "i \<noteq> nb" "set [] \<inter> {p, i, nb} = {}" using P(15,16) roles by (auto split: if_splits)
  have less: "p < length (mCache T)" "i < length (mCache T)" "nb < length (mCache T)" "\<forall>c\<in>set []. c < length (mCache T)"
    using slot_less [OF P(13)] slot_less [OF L(5)] slot_less [OF L(6)] roles by (auto split: if_splits)
  have run': "(if fromLeft then leaf_from_left (raw (node T i)) (raw (node T nb)) else leaf_from_right (raw (node T i)) (raw (node T nb))) = (x, y, key)"
    using run by (simp split: if_splits)
  have order: "\<forall>x\<in>set La. \<forall>y\<in>set Lb. i_no x < i_no y" using P(10,11) by (fastforce simp: set_numbers_leaf)
  then have strict: "strict (La @ Lb)" using P(8,9) by (simp add: sorted_wrt_append)
  have leaves: "leaf_ok E (raw (node T i))" "leaf_ok E (raw (node T nb))"
    "La @ Lb = (if fromLeft then leaf_inodes (raw (node T nb)) @ leaf_inodes (raw (node T i)) else leaf_inodes (raw (node T i)) @ leaf_inodes (raw (node T nb)))"
    using L roles by (auto split: if_splits)
  note moves = leaf_moves [OF leaves(1,2) small leaves(3) strict run'] and self = leaf_moves_self [OF run']
  define La' Lb' where defs: "La' = leaf_inodes (if fromLeft then y else x)" "Lb' = leaf_inodes (if fromLeft then x else y)"
  have new: "La' @ Lb' = La @ Lb" "leaf_ok E x" "leaf_ok E y" "key = i_no (hd Lb')" using moves by (auto simp: defs first_no_def)
  have n: "length La = keyNo T ra" "length La' = n_keys (if fromLeft then y else x)" "length Lb' = n_keys (if fromLeft then x else y)"
    using leaf_okD(7) [OF L(1)] L(2) leaf_okD(7) [OF new(2)] leaf_okD(7) [OF new(3)] by (auto simp: defs)
  have len: "length La' = (if fromLeft then length La - 1 else length La + 1)" "0 < length La'" "0 < length Lb'"
    using moves roles small n by (auto split: if_splits)
  have selfs: "n_self (raw ((node T i)\<lparr>raw := x\<rparr>)) = self_of T i" "n_self (raw ((node T nb)\<lparr>raw := y\<rparr>)) = self_of T nb"
    using self by simp_all
  note N = redistributed_nodes [OF diff less selfs T']
  have a': "holds E T' p (ALeaf ra La')" "holds E T' p (ALeaf rb Lb')"
    using N(1-6,9) new(2,3) L(5-8) roles by (auto simp: defs split: if_splits)
  have agree: "agree E (- insert p (set (indices (ALeaf ra La) @ indices (ALeaf rb Lb)))) T T'"
    using N(8,9) roles by (intro agree_rest) (auto split: if_splits)
  have slot: "slot E T' p" unfolding N(9) by (rule P(13))
  have ne: "La' \<noteq> []" "Lb' \<noteq> []" using len(2,3) by simp_all
  note halves = strict_halves [OF strict [folded new(1)] ne, folded new(4)]
  have "key \<in> i_no ` set Lb'" using ne by (simp add: new(4))
  moreover have "i_no ` set La' \<union> i_no ` set Lb' = i_no ` set La \<union> i_no ` set Lb" using new(1) by (metis image_Un set_append)
  ultimately have sets: "insert key (set (numbers (ALeaf ra La')) \<union> set (numbers (ALeaf rb Lb'))) \<subseteq>
      insert k (set (numbers (ALeaf ra La)) \<union> set (numbers (ALeaf rb Lb)))" unfolding set_numbers_leaf by blast
  have pieces: "mset (indices (ALeaf ra La') @ indices (ALeaf rb Lb')) = mset (indices (ALeaf ra La) @ indices (ALeaf rb Lb))"
    "ordered (ALeaf ra La')" "ordered (ALeaf rb Lb')" "numbers (ALeaf ra La') \<noteq> []"
    "\<forall>x\<in>set (numbers (ALeaf ra La')). x < key" "\<forall>x\<in>set (numbers (ALeaf rb Lb')). key \<le> x"
    using halves ne by (simp_all add: set_numbers_leaf) (simp add: numbers_def)
  note closed = pair_closed_rotated [OF pair agree N(7) slot a'(1) _ a'(2) _ pieces(1-3) sets pieces(4-6) _ N(10) N(11) [OF P(3)] N(12)]
  have "closed_tree E T' (plug c (ABranch p (K1 @ key # K2) (S1 @ ALeaf ra La' # ALeaf rb Lb' # S2)))"
    "ordered (plug c (ABranch p (K1 @ key # K2) (S1 @ ALeaf ra La' # ALeaf rb Lb' # S2)))"
    "height_is d (plug c (ABranch p (K1 @ k # K2) (S1 @ ALeaf ra La # ALeaf rb Lb # S2))) \<Longrightarrow>
       height_is d (plug c (ABranch p (K1 @ key # K2) (S1 @ ALeaf ra La' # ALeaf rb Lb' # S2)))" for d
    by (rule closed; simp)+
  then show ?thesis using new(1) len(1) by blast
qed


text \<open>Branches: one child moves, its key goes up and the one of the parent comes down.\<close>

lemma rotated_moved:
  assumes nodes: "\<And>j. j \<notin> {p, ra, rb} \<Longrightarrow> raw (node T' j) = raw (node T j) \<and> pointers (node T' j) = pointers (node T j) \<and>
      parent (node T' j) = (if j \<in> {root_of u} then Some i else parent (node T j))" and slots: "\<And>j. slot E T' j = slot E T j"
    and ts: "\<forall>t\<in>set ts. t \<noteq> u \<longrightarrow> holds E T q t" "u \<in> set ts \<Longrightarrow> q = i \<or> ts = [u]" "set ts \<subseteq> set us"
    and dist: "distinct (concat (map indices us))" "u \<in> set us" "{p, ra, rb} \<inter> set (concat (map indices us)) = {}"
    and q: "u \<notin> set ts \<Longrightarrow> q = r" "u \<in> set ts \<Longrightarrow> r = i"
  shows "moved_to E r ts T T'"
  unfolding moved_to_def
proof (intro ballI impI)
  fix j assume j: "j \<in> set (concat (map indices ts))" "slot E T j"
  then obtain t where t: "t \<in> set ts" "j \<in> set (indices t)" by auto
  have "j \<in> set (concat (map indices us))" using t ts(3) by auto
  then have at: "j \<notin> {p, ra, rb}" using dist(3) by blast
  have tu: "t \<in> set us" using t(1) ts(3) by blast
  have roots: "j = root_of v \<longleftrightarrow> v = t \<and> j = root_of t" if "v \<in> set us" for v
    using subtree_root_unique [OF dist(1) tu that t(2)] piece_unique [OF dist(1) tu that t(2)] root_in_indices [of v] by metis
  have "parent (node T j) = Some r" if "j = root_of t" "t \<noteq> u"
  proof -
    have "parent (node T j) = Some q" using ts(1) t(1) that holds_root by blast
    moreover have "q = r" using q ts(2) t(1) that(2) by (cases "u \<in> set ts") auto
    ultimately show ?thesis by simp
  qed
  moreover have "j \<in> root_of ` set ts \<longleftrightarrow> j = root_of t" using roots ts(3) t(1) by auto
  moreover have "j = root_of u \<longleftrightarrow> u = t \<and> j = root_of t" by (rule roots [OF dist(2)])
  moreover have "r = i" if "u = t" using q(2) that t(1) by simp
  ultimately show "slot E T' j \<and> raw (node T' j) = raw (node T j) \<and> pointers (node T' j) = pointers (node T j) \<and>
      parent (node T' j) = (if j \<in> root_of ` set ts then Some r else parent (node T j))"
    using nodes [OF at] slots j(2) by auto
qed

lemma rotate_left:
  assumes pair: "pair_in E T c p K1 S1 (ABranch ra (ks @ [l]) (us @ [u])) k (ABranch rb ks' us') K2 S2"
    and room: "length ks' + 1 < branchOrder E" and full: "\<forall>t\<in>set (us @ us'). numbers t \<noteq> []"
    and run: "branch_from_left k (node T rb) (node T ra) = (m, f, key)"
    and T': "T' = redistributed rb m ra f p (length K1) key [root_of u] T"
  defines "a' \<equiv> ABranch ra ks us" and "b' \<equiv> ABranch rb (k # ks') (u # us')"
  shows "key = l" and "pointers m ! 0 = Some (root_of u)" and "closed_tree E T' (plug c (ABranch p (K1 @ l # K2) (S1 @ a' # b' # S2)))"
    and "ordered (plug c (ABranch p (K1 @ l # K2) (S1 @ a' # b' # S2)))"
    and "height_is d (plug c (ABranch p (K1 @ k # K2) (S1 @ ABranch ra (ks @ [l]) (us @ [u]) # ABranch rb ks' us' # S2))) \<Longrightarrow>
      height_is d (plug c (ABranch p (K1 @ l # K2) (S1 @ a' # b' # S2)))"
proof -
  let ?a = "ABranch ra (ks @ [l]) (us @ [u])" and ?b = "ABranch rb ks' us'" and ?us = "us @ u # us'"
  note P = pair_inD [OF pair]
  have dist: "distinct (concat (map indices ?us))" "{p, ra, rb} \<inter> set (concat (map indices ?us)) = {}"
    and diff: "p \<noteq> rb" "p \<noteq> ra" "rb \<noteq> ra" using P(15,16) by auto
  have at: "slot E T ra" "slot E T rb" "parent (node T ra) = Some p" "parent (node T rb) = Some p" using P(6,7) by simp_all
  have u: "holds E T ra u" "root_of u \<in> set (concat (map indices ?us))" using P(6) by simp_all
  then have cs: "set [root_of u] \<inter> {p, rb, ra} = {}" using dist(2) by auto
  have less: "p < length (mCache T)" "rb < length (mCache T)" "ra < length (mCache T)" "\<forall>c\<in>set [root_of u]. c < length (mCache T)"
    using slot_less at P(13) holds_root [OF u(1)] by auto
  have selfs: "n_self (raw m) = self_of T rb" "n_self (raw f) = self_of T ra" "parent m = Some p" "parent f = Some p"
    using run at by (auto simp: branch_from_left_def Let_def)
  note N = redistributed_nodes [OF diff cs less selfs(1,2) T']
  have slots: "slot E T' j = slot E T j" for j by (rule N(9))
  have others: "raw (node T' j) = raw (node T j) \<and> pointers (node T' j) = pointers (node T j) \<and>
      parent (node T' j) = (if j \<in> {root_of u} then Some rb else parent (node T j))" if "j \<notin> {p, ra, rb}" for j
    using N(8) [of j] that by auto
  have kids: "\<forall>t\<in>set us. holds E T ra t" "\<forall>t\<in>set us'. holds E T rb t" using P(6,7) by simp_all
  have unique: "u \<notin> set us"
  proof
    assume "u \<in> set us"
    then have "set (indices u) \<subseteq> set (concat (map indices us))" by auto
    moreover have "set (concat (map indices us)) \<inter> set (indices u) = {}" using dist(1) by auto
    ultimately show False using root_in_indices [of u] by blast
  qed
  have moved: "moved_to E ra us T T'"
    by (rule rotated_moved [of p ra rb T' T u rb E us ra ?us ra]) (use others slots kids(1) dist unique in auto)
  have moved': "moved_to E rb (u # us') T T'"
    by (rule rotated_moved [of p ra rb T' T u rb E "u # us'" rb ?us rb]) (use others slots kids(2) dist in auto)
  have ra: "parent (node T' ra) = Some p" "slot E T' ra" and rb: "parent (node T' rb) = Some p" "slot E T' rb" and p: "slot E T' p"
    using N(3,6) slots selfs at P(13) by simp_all
  note new = rotated_left [OF P(6,7) room run N(1,2) rb N(4,5) ra moved moved' dist(1), folded a'_def b'_def]
  show "key = l" "pointers m ! 0 = Some (root_of u)" by (fact new(3), fact new(4))
  note ord = rotated_left_ordered [OF P(8,9) full P(10,11), folded a'_def b'_def]
  have agree: "agree E (- insert p (set (indices ?a @ indices ?b))) T T'"
    using others slots u(2) by (intro agree_rest) auto
  have sets: "insert l (set (numbers a') \<union> set (numbers b')) \<subseteq> insert k (set (numbers ?a) \<union> set (numbers ?b))"
    by (auto simp: a'_def b'_def set_numbers_branch)
  have shape: "root_of a' = root_of ?a" "root_of b' = root_of ?b" "mset (indices a' @ indices b') = mset (indices ?a @ indices ?b)"
    "height_is n ?a \<Longrightarrow> height_is n ?b \<Longrightarrow> height_is n a' \<and> height_is n b'" for n
    by (auto simp: a'_def b'_def)
  note closed = pair_closed_rotated [OF pair agree N(7) p new(1) shape(1) new(2) shape(2,3) ord(1,2) _ ord(3) _ _ shape(4) N(10) N(11) [OF P(3)] N(12), unfolded new(3)]
  show "closed_tree E T' (plug c (ABranch p (K1 @ l # K2) (S1 @ a' # b' # S2)))"
    "ordered (plug c (ABranch p (K1 @ l # K2) (S1 @ a' # b' # S2)))"
    "height_is d (plug c (ABranch p (K1 @ k # K2) (S1 @ ?a # ?b # S2))) \<Longrightarrow> height_is d (plug c (ABranch p (K1 @ l # K2) (S1 @ a' # b' # S2)))"
    by (rule closed; use sets ord(4,5) in simp)+
qed


lemma rotate_right:
  assumes pair: "pair_in E T c p K1 S1 (ABranch ra ks us) k (ABranch rb (l # ks') (u # us')) K2 S2"
    and room: "length ks + 1 < branchOrder E" and full: "\<forall>t\<in>set (u # us'). numbers t \<noteq> []"
    and run: "branch_from_right k (node T ra) (node T rb) = (m, f, key)"
    and T': "T' = redistributed ra m rb f p (length K1) key [root_of u] T"
  defines "a' \<equiv> ABranch ra (ks @ [k]) (us @ [u])" and "b' \<equiv> ABranch rb ks' us'"
  shows "key = l" and "pointers m ! (length ks + 1) = Some (root_of u)"
    and "closed_tree E T' (plug c (ABranch p (K1 @ l # K2) (S1 @ a' # b' # S2)))"
    and "ordered (plug c (ABranch p (K1 @ l # K2) (S1 @ a' # b' # S2)))"
    and "height_is d (plug c (ABranch p (K1 @ k # K2) (S1 @ ABranch ra ks us # ABranch rb (l # ks') (u # us') # S2))) \<Longrightarrow>
      height_is d (plug c (ABranch p (K1 @ l # K2) (S1 @ a' # b' # S2)))"
proof -
  let ?a = "ABranch ra ks us" and ?b = "ABranch rb (l # ks') (u # us')" and ?us = "us @ u # us'"
  note P = pair_inD [OF pair]
  have dist: "distinct (concat (map indices ?us))" "{p, ra, rb} \<inter> set (concat (map indices ?us)) = {}"
    and diff: "p \<noteq> ra" "p \<noteq> rb" "ra \<noteq> rb" using P(15,16) by auto
  have at: "slot E T ra" "slot E T rb" "parent (node T ra) = Some p" "parent (node T rb) = Some p" using P(6,7) by simp_all
  have u: "holds E T rb u" "root_of u \<in> set (concat (map indices ?us))" using P(7) by simp_all
  then have cs: "set [root_of u] \<inter> {p, ra, rb} = {}" using dist(2) by auto
  have less: "p < length (mCache T)" "ra < length (mCache T)" "rb < length (mCache T)" "\<forall>c\<in>set [root_of u]. c < length (mCache T)"
    using slot_less at P(13) holds_root [OF u(1)] by auto
  have selfs: "n_self (raw m) = self_of T ra" "n_self (raw f) = self_of T rb" "parent m = Some p" "parent f = Some p"
    using run at by (auto simp: branch_from_right_def Let_def)
  note N = redistributed_nodes [OF diff cs less selfs(1,2) T']
  have slots: "slot E T' j = slot E T j" for j by (rule N(9))
  have others: "raw (node T' j) = raw (node T j) \<and> pointers (node T' j) = pointers (node T j) \<and>
      parent (node T' j) = (if j \<in> {root_of u} then Some ra else parent (node T j))" if "j \<notin> {p, ra, rb}" for j
    using N(8) [of j] that by auto
  have kids: "\<forall>t\<in>set us. holds E T ra t" "\<forall>t\<in>set us'. holds E T rb t" using P(6,7) by simp_all
  have unique: "u \<notin> set us'"
  proof
    assume "u \<in> set us'"
    then have "set (indices u) \<subseteq> set (concat (map indices us'))" by auto
    moreover have "set (concat (map indices us')) \<inter> set (indices u) = {}" using dist(1) by auto
    ultimately show False using root_in_indices [of u] by blast
  qed
  have moved: "moved_to E ra (us @ [u]) T T'"
    by (rule rotated_moved [of p ra rb T' T u ra E "us @ [u]" ra ?us ra]) (use others slots kids(1) dist in auto)
  have moved': "moved_to E rb us' T T'"
    by (rule rotated_moved [of p ra rb T' T u ra E us' rb ?us rb]) (use others slots kids(2) dist unique in auto)
  have ra: "parent (node T' ra) = Some p" "slot E T' ra" and rb: "parent (node T' rb) = Some p" "slot E T' rb" and p: "slot E T' p"
    using N(3,6) slots selfs at P(13) by simp_all
  note new = rotated_right [OF P(6,7) room run N(1,2) ra N(4,5) rb moved moved' dist(1), folded a'_def b'_def]
  show "key = l" "pointers m ! (length ks + 1) = Some (root_of u)" by (fact new(3), fact new(4))
  note ord = rotated_right_ordered [OF P(8,9) full P(10,11), folded a'_def b'_def]
  have agree: "agree E (- insert p (set (indices ?a @ indices ?b))) T T'"
    using others slots u(2) by (intro agree_rest) auto
  have sets: "insert l (set (numbers a') \<union> set (numbers b')) \<subseteq> insert k (set (numbers ?a) \<union> set (numbers ?b))"
    by (auto simp: a'_def b'_def set_numbers_branch)
  have shape: "root_of a' = root_of ?a" "root_of b' = root_of ?b" "mset (indices a' @ indices b') = mset (indices ?a @ indices ?b)"
    "height_is n ?a \<Longrightarrow> height_is n ?b \<Longrightarrow> height_is n a' \<and> height_is n b'" for n
    by (auto simp: a'_def b'_def)
  note closed = pair_closed_rotated [OF pair agree N(7) p new(1) shape(1) new(2) shape(2,3) ord(1,2) _ ord(3) _ _ shape(4) N(10) N(11) [OF P(3)] N(12), unfolded new(3)]
  show "closed_tree E T' (plug c (ABranch p (K1 @ l # K2) (S1 @ a' # b' # S2)))"
    "ordered (plug c (ABranch p (K1 @ l # K2) (S1 @ a' # b' # S2)))"
    "height_is d (plug c (ABranch p (K1 @ k # K2) (S1 @ ?a # ?b # S2))) \<Longrightarrow> height_is d (plug c (ABranch p (K1 @ l # K2) (S1 @ a' # b' # S2)))"
    by (rule closed; use sets ord(4,5) in simp)+
qed

end
