(* ===== verification/BtreeErase.thy ===== *)
theory BtreeErase
  imports BtreeRemoval
begin

text \<open>
  \<^verbatim>\<open>Btree::deleteEntry\<close> on a cached tree: the recursion from the leaf to the root, and the root that loses its
  last key.
\<close>

subsection \<open>A tree with one node that may be too small\<close>

fun almost_filled :: "'f env \<Rightarrow> frame list \<Rightarrow> atree \<Rightarrow> bool" where
  "almost_filled E c (ALeaf i L) \<longleftrightarrow> (if c = [] then L \<noteq> [] else cut (leafOrder E) \<le> length L + 1)"
| "almost_filled E c (ABranch i ks ts) \<longleftrightarrow> (c \<noteq> [] \<longrightarrow> cut (branchOrder E) \<le> length ks + 2) \<and> (\<forall>t\<in>set ts. filled E t)"

definition half_tree :: "'f env \<Rightarrow> tree_cache \<Rightarrow> nat \<Rightarrow> frame list \<Rightarrow> atree \<Rightarrow> bool" where
  "half_tree E T d c X \<longleftrightarrow> path_frames_ok c \<and> closed_tree E T (plug c X) \<and> ordered (plug c X) \<and> height_is d (plug c X) \<and>
     path_filled E c \<and> almost_filled E c X"

lemma remove_entry_same:
  assumes "remove_entry E key m = Some m'"
  shows "parent m' = parent m" "n_isLeaf (raw m') = n_isLeaf (raw m)" "n_self (raw m') = n_self (raw m)"
  using assms by (auto simp: remove_entry_def Let_def split: if_splits)

lemma half_treeD:
  assumes "half_tree E T d c X"
  shows "holds E T (slot_above c (root_of X)) X" and "path_holds E T c (root_of X)" and "slots_ok E T" and "mCacheRoot T = top c (root_of X)"
    and "parent (node T (root_of X)) = Some (slot_above c (root_of X))" and "root_of X < length (mCache T)"
    and "distinct (path_indices c @ indices X)" and "path_frames_ok c"
proof -
  show frames: "path_frames_ok c" using assms by (simp add: half_tree_def)
  have closed: "closed_tree E T (plug c X)" using assms by (simp add: half_tree_def)
  show hold: "holds E T (slot_above c (root_of X)) X" "path_holds E T c (root_of X)"
    using closed holds_plug [OF frames, of E T X] by (simp_all add: closed_tree_def)
  show "slots_ok E T" "mCacheRoot T = top c (root_of X)" using closed by (simp_all add: closed_tree_def root_of_plug)
  show "parent (node T (root_of X)) = Some (slot_above c (root_of X))" "root_of X < length (mCache T)"
    using holds_root [OF hold(1)] slot_less by blast+
  have "distinct_nodes T (path_indices c @ indices X)"
    using closed distinct_nodes_mset [OF indices_plug] unfolding closed_tree_def by blast
  then show "distinct (path_indices c @ indices X)" by (simp add: distinct_nodes_def)
qed

subsection \<open>The root\<close>

lemma run_adjustRoot:
  assumes tree: "half_tree E (tc s) d [] X" and config: "tree_config E" and "\<not> readOnly s"
    and psm: "pageListHWM (tree_psm (tc s)) < treeNodeCacheSize E"
  shows "\<exists>m j T t d'. run_state (adjustRoot E (root_of X)) s = (R_ok, s\<lparr>mram := m, jr := j, tc := T\<rparr>) \<and> tree_in E T d' t \<and> d' \<le> d \<and>
    inorder t = inorder X"
proof -
  note H = half_treeD [OF tree, simplified]
  show ?thesis
  proof (cases "0 < keyNo (tc s) (root_of X)")
    case True
    have "root_filled E X"
      using tree True branch_holdsD(2) [of E "tc s"] by (cases X) (force simp: half_tree_def closed_tree_def)+
    then have "tree_in E (tc s) d X" using tree by (simp add: half_tree_def tree_in_def)
    moreover have "run_state (adjustRoot E (root_of X)) s = (R_ok, s\<lparr>mram := mram s, jr := jr s, tc := tc s\<rparr>)"
      using True by (simp add: adjustRoot_def node_at_def)
    ultimately show ?thesis by blast
  next
    case False
    obtain i ts where X: "X = ABranch i [] ts"
    proof (cases X)
      case (ALeaf i L)
      then have "leaf_ok E (raw (node (tc s) i))" "leaf_inodes (raw (node (tc s) i)) = L" "L \<noteq> []"
        using H(1) tree by (simp_all add: half_tree_def)
      then have "0 < keyNo (tc s) i" using leaf_okD(7) [of E "raw (node (tc s) i)"] by (cases L) auto
      then show ?thesis using False ALeaf by simp
    next
      case (ABranch i ks ts)
      then have "keyNo (tc s) i = length ks" using H(1) branch_holdsD(2) by fastforce
      then show ?thesis using that False ABranch by simp
    qed
    have br: "branch_holds E (tc s) i [] (map root_of ts)" "slot E (tc s) i" using H(1) X by simp_all
    note B = branch_holdsD [OF br(1)]
    obtain u where ts: "ts = [u]" using B(3) by (cases ts) auto
    have u: "holds E (tc s) i u" "ordered u" "filled E u" "distinct (indices u)" "i \<notin> set (indices u)" "0 < d" "height_is (d - 1) u"
      using H(1,7) tree X ts by (auto simp: half_tree_def)
    let ?c = "root_of u" and ?T1 = "upd_node (root_of u) (\<lambda>m. m\<lparr>parent := Some (root_of u)\<rparr>) (tc s)"
    have c: "slot E (tc s) ?c" "?c \<noteq> i" using holds_root [OF u(1)] u(5) root_in_indices [of u] by (auto simp del: root_in_indices)
    have less: "i < length (mCache (tc s))" "?c < length (mCache (tc s))" using slot_less br(2) c(1) by auto
    have root: "setRoot ?c ?T1 = (R_ok, ?T1\<lparr>mCacheRoot := ?c\<rparr>)" using less by (simp add: setRoot_def node_upd)
    let ?s = "s\<lparr>tc := ?T1\<lparr>mCacheRoot := ?c\<rparr>\<rparr>"
    have psm1: "tree_psm (?T1\<lparr>mCacheRoot := ?c\<rparr>) = tree_psm (tc s)" by (simp add: upd_node_def)
    obtain m j P where rm: "run_state (removeNode E i) ?s = (R_ok, ?s\<lparr>mram := m, jr := j, tc := freed E i P (tc ?s)\<rparr>)"
      using run_removeNode [of ?s E i] assms(3) psm psm1 less by auto
    define T where "T = freed E i P (?T1\<lparr>mCacheRoot := ?c\<rparr>)"
    have "pointers (node (tc s) i) ! 0 = Some ?c" using branch_nth(1) [OF br(1), of 0] ts by simp
    then have run: "run_state (adjustRoot E (root_of X)) s = (R_ok, s\<lparr>mram := m, jr := j, tc := T\<rparr>)"
      using False B(1) rm root X by (simp add: adjustRoot_def node_at_def set_node_def T_def)
    have mc: "node (?T1\<lparr>mCacheRoot := ?c\<rparr>) = node ?T1" "slot E (?T1\<lparr>mCacheRoot := ?c\<rparr>) = slot E (tc s)"
      "slots_ok E (?T1\<lparr>mCacheRoot := ?c\<rparr>)"
      using H(3) by (simp_all add: node_def slot_def isIndexUsed_def fun_eq_iff slots_ok_def upd_node_def)
    have slots: "slot E T k \<longleftrightarrow> slot E (tc s) k \<and> k \<noteq> i" for k
      using slot_freed [OF mc(3), of i P k] br(2) by (simp add: T_def mc(2))
    have node: "node T k = (if k = i then (node (tc s) i)\<lparr>n_dirty := False\<rparr> else if k = ?c then (node (tc s) ?c)\<lparr>parent := Some ?c\<rparr>
        else node (tc s) k)" for k
      using less c(2) by (simp add: T_def node_freed mc(1) node_upd)
    have "agree E (set (indices u) - {?c}) (tc s) T" using u(5) by (intro agree_rest) (auto simp: slots node)
    then have "holds E T ?c u" using c less by (intro holds_moved [OF u(1,4)]) (simp_all add: slots node)
    moreover have "distinct_nodes (tc s) (indices X)" using tree by (simp add: half_tree_def closed_tree_def)
    then have "distinct_nodes (tc s) (indices u)" by (rule distinct_nodes_sub [rotated]) (simp add: X ts)
    then have "distinct_nodes T (indices u)" using distinct_nodes_cong [of "indices u" T "tc s"] by (simp add: node)
    moreover have "slots_ok E T" using slots_ok_freed [OF mc(3)] by (simp add: T_def)
    moreover have "mCacheRoot T = ?c" by (simp add: T_def)
    ultimately have "closed_tree E T u" by (simp add: closed_tree_def)
    then have "tree_in E T (d - 1) u" using u filled_root [OF _ u(3)] config by (simp add: tree_in_def tree_config_def)
    then show ?thesis using run X ts by (intro exI [of _ m] exI [of _ j] exI [of _ T] exI [of _ u] exI [of _ "d - 1"]) simp
  qed
qed


subsection \<open>The neighbour\<close>

lemma find_pointer:
  assumes "branch_holds E T p ks (cs1 @ i # cs2)" and "i \<notin> set cs1"
  shows "List.find (\<lambda>k. pointers (node T p) ! k = Some i) [0 ..< keyNo T p + 1] = Some (length cs1)"
proof -
  note B = branch_holdsD [OF assms(1)]
  have n: "length cs1 < keyNo T p + 1" using B(2,3) by simp
  have at: "pointers (node T p) ! k = Some ((cs1 @ i # cs2) ! k)" if "k \<le> length cs1" for k
    using branch_nth(1) [OF assms(1), of k] that by simp
  have "pointers (node T p) ! k \<noteq> Some i" if "k < length cs1" for k
    using at [of k] that assms(2) by (auto simp: nth_append)
  then show ?thesis using n at [of "length cs1"] by (auto simp: find_Some_iff nth_append intro!: exI [of _ "length cs1"] simp del: upt_Suc)
qed

definition neighbour_index :: "InodeNo list \<Rightarrow> nat option" where
  "neighbour_index ks1 = (if ks1 = [] then None else Some (length ks1 - 1))"

lemma run_neighbour_index:
  assumes "branch_holds E T p (ks1 @ ks2) (map root_of ts1 @ i # map root_of ts2)" and "i \<notin> set (map root_of ts1)" and "length ts1 = length ks1"
  shows "getNeighborIndex T p i = neighbour_index ks1"
  using find_pointer [OF assms(1,2)] assms(3)
  by (cases ks1) (simp_all add: getNeighborIndex_def neighbour_index_def split: nat.split)

text \<open>The psm is not touched by locks.\<close>

lemma psm_upd [simp]: "tree_psm (upd_node i f T) = tree_psm T"
  by (simp add: upd_node_def)

lemma psm_fold: "(\<And>x T. tree_psm (f x T) = tree_psm T) \<Longrightarrow> tree_psm (fold f xs T) = tree_psm T"
  by (induction xs arbitrary: T) simp_all

lemma psm_lock [simp]: "tree_psm (lockTreeCacheNode E i T) = tree_psm T"
  by (auto simp: lockTreeCacheNode_def Let_def psm_fold split: option.split)

lemma psm_unlock_path [simp]: "tree_psm (unlock_path ps T) = tree_psm T"
  by (induction ps T rule: unlock_path.induct) (auto simp: Let_def)

lemma psm_unlock [simp]: "tree_psm (snd (unlockTreeCacheNode E i T)) = tree_psm T"
  by (auto simp: unlockTreeCacheNode_def Let_def split: option.split)

lemma psm_hits [simp]: "tree_psm (hits n T) = tree_psm T"
  using hits_rest [of n T] by auto

lemma half_tree_same:
  assumes "half_tree E T d c X" and "same_nodes T T'"
  shows "half_tree E T' d c X"
  using assms closed_tree_same(1) [OF _ assms(2)] unfolding half_tree_def by blast

text \<open>The cache when the neighbour has been found, and what \<^verbatim>\<open>deleteEntry\<close> does then.\<close>

definition found_neighbour :: "'f env \<Rightarrow> nat \<Rightarrow> tree_cache \<Rightarrow> tree_cache" where
  "found_neighbour E i T = snd (unlockTreeCacheNode E i (hits 1 (lockTreeCacheNode E i T)))"

lemma found_same: "same_nodes T (found_neighbour E i T)" "tree_psm (found_neighbour E i T) = tree_psm T"
  using same_nodes_trans [OF same_nodes_lock same_nodes_trans [OF same_nodes_hits same_nodes_unlock]]
  by (simp_all add: found_neighbour_def)

definition min_keys :: "'f env \<Rightarrow> bool \<Rightarrow> nat" where
  "min_keys E leaf = (if leaf then cut (leafOrder E) else cut (branchOrder E) - 1)"

definition capacity :: "'f env \<Rightarrow> bool \<Rightarrow> nat" where
  "capacity E leaf = (if leaf then leafOrder E else branchOrder E - 2)"

lemma deleteEntry_under:
  assumes m': "remove_entry E key (node (tc s) i) = Some m'" "parent m' = Some p" "p \<noteq> i" "n_keys (raw m') < min_keys E (n_isLeaf (raw m'))"
    and i: "i < length (mCache (tc s))" and T: "T = upd_node i (\<lambda>_. m') (tc s)" and U: "U = found_neighbour E i T"
    and index: "getNeighborIndex T p i = neighbour_index ks1" and flags: "\<not> verifyTC E"
    and branch: "\<not> n_isLeaf (raw (node T p))" and p: "p < length (mCache (tc s))"
    and nb: "pointers (node T p) ! (case neighbour_index ks1 of None \<Rightarrow> 1 | Some k \<Rightarrow> k) = Some nb"
      "(case neighbour_index ks1 of None \<Rightarrow> 1 | Some k \<Rightarrow> k) \<le> branchOrder E"
    and k: "n_key (raw (node T p)) ! (case neighbour_index ks1 of None \<Rightarrow> 0 | Some k \<Rightarrow> k) = k" "k < 2 ^ 16"
  shows "keyNo U nb + keyNo U i \<le> capacity E (n_isLeaf (raw (node U nb))) \<Longrightarrow>
      run_state (merge_nodes E (if ks1 = [] then nb else i) (if ks1 = [] then i else nb) k) (s\<lparr>tc := U\<rparr>) = (R_ok, s2) \<Longrightarrow>
      parent (node (tc s2) (if ks1 = [] then nb else i)) = Some p \<Longrightarrow>
      run_state (deleteEntry (Suc n) E i key) s = run_state (deleteEntry n E p k) s2"
    and "\<not> keyNo U nb + keyNo U i \<le> capacity E (n_isLeaf (raw (node U nb))) \<Longrightarrow>
      run_state (deleteEntry n E i key) s =
      run_state (redistributeNodes i nb p (ks1 \<noteq> []) (case neighbour_index ks1 of None \<Rightarrow> 0 | Some k \<Rightarrow> k) k) (s\<lparr>tc := U\<rparr>)"
proof -
  let ?ni = "neighbour_index ks1" and ?L = "lockTreeCacheNode E i T"
  have same: "parent (node (tc s) i) = Some p" "n_isLeaf (raw (node (tc s) i)) = n_isLeaf (raw m')"
    using remove_entry_same [OF m'(1)] m'(2) by simp_all
  have "same_nodes T ?L" by (rule same_nodes_lock)
  moreover have "p < length (mCache T)" using p by (simp add: T)
  ultimately have L: "raw (node ?L p) = raw (node T p)" "pointers (node ?L p) = pointers (node T p)" by (simp_all add: same_nodes_def)
  have get: "run_state (getTreeNodeAtIndexFrom E (case ?ni of None \<Rightarrow> 1 | Some k \<Rightarrow> k) p) (s\<lparr>tc := ?L\<rparr>) = (Inr nb, s\<lparr>tc := hits 1 ?L\<rparr>)"
    using nb branch flags L by (simp add: getTreeNodeAtIndexFrom_def hits_once)
  note facts = m' same index k get
  show "run_state (deleteEntry (Suc n) E i key) s = run_state (deleteEntry n E p k) s2"
    if "keyNo U nb + keyNo U i \<le> capacity E (n_isLeaf (raw (node U nb)))"
      "run_state (merge_nodes E (if ks1 = [] then nb else i) (if ks1 = [] then i else nb) k) (s\<lparr>tc := U\<rparr>) = (R_ok, s2)"
      "parent (node (tc s2) (if ks1 = [] then nb else i)) = Some p"
    using that facts unfolding U T found_neighbour_def capacity_def min_keys_def
    by (subst deleteEntry.simps) (cases "ks1 = []"; simp add: neighbour_index_def node_at_def set_node_def Let_def)
  show "run_state (deleteEntry n E i key) s =
      run_state (redistributeNodes i nb p (ks1 \<noteq> []) (case neighbour_index ks1 of None \<Rightarrow> 0 | Some k \<Rightarrow> k) k) (s\<lparr>tc := U\<rparr>)"
    if "\<not> keyNo U nb + keyNo U i \<le> capacity E (n_isLeaf (raw (node U nb)))"
    using that facts unfolding U T found_neighbour_def capacity_def min_keys_def
    by (subst deleteEntry.simps) (cases "ks1 = []"; simp add: neighbour_index_def node_at_def set_node_def Let_def)
qed


subsection \<open>Merge and redistribution in the cache\<close>

lemma run_merge_leaf:
  assumes "n_isLeaf (raw (node (tc s) from_i))" and "\<not> readOnly s" and "pageListHWM (tree_psm (tc s)) < treeNodeCacheSize E"
    and "from_i < length (mCache (tc s))"
  shows "\<exists>m j P. run_state (merge_nodes E from_i to_i k) s = (R_ok, s\<lparr>mram := m, jr := j, tc := freed E from_i P (upd_node to_i
      (\<lambda>m. m\<lparr>raw := append_leaf (raw (node (tc s) from_i)) (raw (node (tc s) to_i)), n_dirty := True\<rparr>) (tc s))\<rparr>) \<and>
    pageListHWM P \<le> pageListHWM (tree_psm (tc s)) + 1"
proof -
  let ?T = "upd_node to_i (\<lambda>m. m\<lparr>raw := append_leaf (raw (node (tc s) from_i)) (raw (node (tc s) to_i)), n_dirty := True\<rparr>) (tc s)"
  obtain m j P where "run_state (removeNode E from_i) (s\<lparr>tc := ?T\<rparr>) =
      (R_ok, (s\<lparr>tc := ?T\<rparr>)\<lparr>mram := m, jr := j, tc := freed E from_i P (tc (s\<lparr>tc := ?T\<rparr>))\<rparr>)" "pageListHWM P \<le> pageListHWM (tree_psm (tc s)) + 1"
    using run_removeNode [of "s\<lparr>tc := ?T\<rparr>" E from_i] assms by auto
  then show ?thesis using assms(1)
    by (intro exI [of _ m] exI [of _ j] exI [of _ P]) (simp add: merge_nodes_def set_node_def)
qed

lemma set_parents_psm [simp]: "tree_psm (set_parents p ps T) = tree_psm T"
  by (induction ps arbitrary: T) (auto simp: set_parents_def split: option.split)

lemma run_merge_branch:
  assumes "\<not> n_isLeaf (raw (node (tc s) from_i))" and "\<not> readOnly s" and "pageListHWM (tree_psm (tc s)) < treeNodeCacheSize E"
    and "from_i < length (mCache (tc s))" and "to_i < length (mCache (tc s))" and "from_i \<noteq> to_i"
    and "branch_arrays E (append_branch k (node (tc s) from_i) (node (tc s) to_i)) ks cs as"
  shows "\<exists>m j P. run_state (merge_nodes E from_i to_i k) s = (R_ok, s\<lparr>mram := m, jr := j, tc := freed E from_i P (set_parents to_i (map Some cs)
      (upd_node from_i (upd_raw (\<lambda>r. r\<lparr>n_keys := 0\<rparr>))
        (upd_node to_i (\<lambda>_. (append_branch k (node (tc s) from_i) (node (tc s) to_i))\<lparr>n_dirty := True\<rparr>) (tc s))))\<rparr>) \<and>
    pageListHWM P \<le> pageListHWM (tree_psm (tc s)) + 1"
proof -
  let ?M = "append_branch k (node (tc s) from_i) (node (tc s) to_i)"
  let ?W = "upd_node from_i (upd_raw (\<lambda>r. r\<lparr>n_keys := 0\<rparr>)) (upd_node to_i (\<lambda>_. ?M\<lparr>n_dirty := True\<rparr>) (tc s))"
  let ?T = "set_parents to_i (map Some cs) ?W"
  have at: "node ?W to_i = ?M\<lparr>n_dirty := True\<rparr>" using assms(5,6) by (simp add: node_upd)
  have cs: "take (Suc (n_keys (raw ?M))) (pointers ?M) = map Some cs"
    using branch_arraysD(2,9) [OF assms(7)] by simp
  obtain m j P where rm: "run_state (removeNode E from_i) (s\<lparr>tc := ?T\<rparr>) =
      (R_ok, (s\<lparr>tc := ?T\<rparr>)\<lparr>mram := m, jr := j, tc := freed E from_i P (tc (s\<lparr>tc := ?T\<rparr>))\<rparr>)" "pageListHWM P \<le> pageListHWM (tree_psm (tc s)) + 1"
    using run_removeNode [of "s\<lparr>tc := ?T\<rparr>" E from_i] assms(2-4) by auto
  show ?thesis using assms(1) rm at cs
    by (intro exI [of _ m] exI [of _ j] exI [of _ P]) (simp add: merge_nodes_def set_node_def)
qed

lemma run_redistribute_leaf:
  assumes "n_isLeaf (raw (node (tc s) i))"
    and "(if fromLeft then leaf_from_left else leaf_from_right) (raw (node (tc s) i)) (raw (node (tc s) nb)) = (x, y, key)"
  shows "run_state (redistributeNodes i nb p fromLeft n k) s =
    (R_ok, s\<lparr>tc := redistributed i ((node (tc s) i)\<lparr>raw := x\<rparr>) nb ((node (tc s) nb)\<lparr>raw := y\<rparr>) p n key [] (tc s)\<rparr>)"
  using assms by (simp add: redistributeNodes_def redistributed_def set_node_def set_parents_def Let_def)

lemma run_redistribute_branch:
  assumes "\<not> n_isLeaf (raw (node (tc s) i))"
    and "(if fromLeft then branch_from_left else branch_from_right) k (node (tc s) i) (node (tc s) nb) = (m, f, key)"
    and "pointers m ! (if fromLeft then 0 else keyNo (tc s) i + 1) = Some c"
  shows "run_state (redistributeNodes i nb p fromLeft n k) s = (R_ok, s\<lparr>tc := redistributed i m nb f p n key [c] (tc s)\<rparr>)"
  using assms by (simp add: redistributeNodes_def redistributed_def set_node_def Let_def)

subsection \<open>One level of the recursion\<close>

fun size_of :: "atree \<Rightarrow> nat" where
  "size_of (ALeaf i L) = length L"
| "size_of (ABranch i ks ts) = length ks"

fun is_leaf :: "atree \<Rightarrow> bool" where
  "is_leaf (ALeaf i L) \<longleftrightarrow> True"
| "is_leaf (ABranch i ks ts) \<longleftrightarrow> False"

fun kids_filled :: "'f env \<Rightarrow> atree \<Rightarrow> bool" where
  "kids_filled E (ALeaf i L) \<longleftrightarrow> True"
| "kids_filled E (ABranch i ks ts) \<longleftrightarrow> (\<forall>t\<in>set ts. filled E t)"

lemma holds_size: "holds E T p t \<Longrightarrow> keyNo T (root_of t) = size_of t \<and> n_isLeaf (raw (node T (root_of t))) = is_leaf t"
  using leaf_okD(1,7) [of E "raw (node T (root_of t))"] branch_holdsD(1,2) [of E T "root_of t"] by (cases t) force+

lemma filled_min: "tree_config E \<Longrightarrow> filled E t \<longleftrightarrow> min_keys E (is_leaf t) \<le> size_of t \<and> kids_filled E t"
  by (cases t) (auto simp: min_keys_def)

lemma kids_numbers: "tree_config E \<Longrightarrow> kids_filled E (ABranch i ks ts) \<Longrightarrow> \<forall>t\<in>set ts. numbers t \<noteq> []"
  using filled_numbers by auto

lemma same_kind:
  assumes "height_is n a" and "height_is n b"
  obtains (leaves) ra La rb Lb where "a = ALeaf ra La" "b = ALeaf rb Lb"
    | (branches) ra ks us rb ks' us' where "a = ABranch ra ks us" "b = ABranch rb ks' us'"
  using assms by (cases a; cases b) auto

lemma step_merge:
  assumes pair: "pair_in E (tc s) c p K1 S1 a k b K2 S2" and height: "height_is n a" "height_is n b"
    and room: "size_of a + size_of b \<le> capacity E (is_leaf a)" and config: "tree_config E" "\<not> readOnly s"
    and psm: "pageListHWM (tree_psm (tc s)) < treeNodeCacheSize E" and kids: "kids_filled E a" "kids_filled E b"
  shows "\<exists>m j T J m'. run_state (merge_nodes E (root_of b) (root_of a) k) s = (R_ok, s\<lparr>mram := m, jr := j, tc := T\<rparr>) \<and>
     pageListHWM (tree_psm T) \<le> pageListHWM (tree_psm (tc s)) + 1 \<and> parent (node T (root_of b)) = Some p \<and>
     p < length (mCache T) \<and> remove_entry E k (node T p) = Some m' \<and>
     closed_tree E (upd_node p (\<lambda>_. m') T) (plug c (ABranch p (K1 @ K2) (S1 @ J # S2))) \<and> ordered (plug c (ABranch p (K1 @ K2) (S1 @ J # S2))) \<and>
     (\<forall>d. height_is d (plug c (ABranch p (K1 @ k # K2) (S1 @ a # b # S2))) \<longrightarrow> height_is d (plug c (ABranch p (K1 @ K2) (S1 @ J # S2)))) \<and>
     inorder J = inorder a @ inorder b \<and> (filled E a \<or> filled E b \<longrightarrow> filled E J)"
proof -
  note P = pair_inD [OF pair]
  have p: "branch_arrays E (node (tc s) p) (K1 @ k # K2) (map root_of S1 @ root_of a # root_of b # map root_of S2)
      (map (self_of (tc s)) (map root_of S1 @ root_of a # root_of b # map root_of S2))"
    using P(1) by (simp add: branch_holds_def)
  obtain m' where m': "remove_entry E k (node (tc s) p) = Some m'"
    using remove_entry_branch [OF p _ P(12)] P(5) by auto
  have diff: "p \<noteq> root_of a" "p \<noteq> root_of b" "root_of a \<noteq> root_of b"
    using P(15,16) root_in_indices [of a] root_in_indices [of b] by (auto simp del: root_in_indices)
  have less: "root_of a < length (mCache (tc s))" "root_of b < length (mCache (tc s))" "p < length (mCache (tc s))"
    and par: "parent (node (tc s) (root_of b)) = Some p"
    using holds_root [OF P(6)] holds_root [OF P(7)] P(13) slot_less by blast+
  from height show ?thesis
  proof (cases rule: same_kind)
    case (leaves ra La rb Lb)
    note pair' = pair [unfolded leaves]
    have "n_isLeaf (raw (node (tc s) rb))" using holds_size [OF P(7)] leaves by simp
    from run_merge_leaf [OF this config(2) psm, of ra k] less leaves
    obtain m j P where run: "run_state (merge_nodes E rb ra k) s = (R_ok, s\<lparr>mram := m, jr := j, tc := freed E rb P (upd_node ra
        (\<lambda>m. m\<lparr>raw := append_leaf (raw (node (tc s) rb)) (raw (node (tc s) ra)), n_dirty := True\<rparr>) (tc s))\<rparr>)"
      "pageListHWM P \<le> pageListHWM (tree_psm (tc s)) + 1" by auto
    define T where "T = freed E rb P (upd_node ra (\<lambda>m. m\<lparr>raw := append_leaf (raw (node (tc s) rb)) (raw (node (tc s) ra)), n_dirty := True\<rparr>) (tc s))"
    have T: "node T p = node (tc s) p" "parent (node T rb) = Some p" "p < length (mCache T)" "tree_psm T = P"
      using diff less par leaves by (simp_all add: T_def node_freed node_upd)
    have "length La + length Lb \<le> leafOrder E" using room leaves by (simp add: capacity_def)
    note merged = merge_leaves [OF pair' this m' arg_cong [OF T_def, of "upd_node p (\<lambda>_. m')"]]
    then show ?thesis using run T m' leaves
      by (intro exI [of _ m] exI [of _ j] exI [of _ T] exI [of _ "ALeaf ra (La @ Lb)"] exI [of _ m']) (auto simp: T_def)
  next
    case (branches ra ks us rb ks' us')
    note pair' = pair [unfolded branches]
    have size: "length ks + 1 + length ks' < branchOrder E" using room branches config by (auto simp: capacity_def tree_config_def)
    have br: "branch_arrays E (node (tc s) ra) ks (map root_of us) (map (self_of (tc s)) (map root_of us))"
      "branch_arrays E (node (tc s) rb) ks' (map root_of us') (map (self_of (tc s)) (map root_of us'))"
      using children_in(1) P(6,7) branches by blast+
    have "\<not> n_isLeaf (raw (node (tc s) rb))" using holds_size [OF P(7)] branches by simp
    from run_merge_branch [OF this config(2) psm _ _ _ append_branch_arrays [OF br size, of k]] less diff branches
    obtain m j P where run: "run_state (merge_nodes E rb ra k) s = (R_ok, s\<lparr>mram := m, jr := j, tc := freed E rb P
        (set_parents ra (map Some (map root_of us @ map root_of us')) (upd_node rb (upd_raw (\<lambda>r. r\<lparr>n_keys := 0\<rparr>))
          (upd_node ra (\<lambda>_. (append_branch k (node (tc s) rb) (node (tc s) ra))\<lparr>n_dirty := True\<rparr>) (tc s))))\<rparr>)"
      "pageListHWM P \<le> pageListHWM (tree_psm (tc s)) + 1" by auto
    define T where "T = freed E rb P (set_parents ra (map Some (map root_of (us @ us'))) (upd_node rb (upd_raw (\<lambda>r. r\<lparr>n_keys := 0\<rparr>))
          (upd_node ra (\<lambda>_. (append_branch k (node (tc s) rb) (node (tc s) ra))\<lparr>n_dirty := True\<rparr>) (tc s))))"
    have "root_of t \<noteq> p \<and> root_of t \<noteq> rb" if "t \<in> set (us @ us')" for t
    proof -
      have "set (indices t) \<subseteq> set (indices a @ indices b)" "rb \<notin> set (indices t)" using that P(16) branches by auto
      then show ?thesis using P(15) root_in_indices [of t] by blast
    qed
    then have out: "Some p \<notin> set (map Some (map root_of (us @ us')))" "Some rb \<notin> set (map Some (map root_of (us @ us')))" by auto
    have T: "node T p = node (tc s) p" "parent (node T rb) = Some p" "p < length (mCache T)" "tree_psm T = P"
      using diff less par branches out by (simp_all add: T_def node_freed node_set_parents node_upd upd_raw_def)
    have full: "\<forall>t\<in>set us'. numbers t \<noteq> []" using kids_numbers [OF config(1)] kids(2) branches by blast
    note merged = merge_branches [OF pair' size m' full arg_cong [OF T_def, of "upd_node p (\<lambda>_. m')"]]
    let ?J = "ABranch ra (ks @ k # ks') (us @ us')"
    have "run_state (merge_nodes E (root_of b) (root_of a) k) s = (R_ok, s\<lparr>mram := m, jr := j, tc := T\<rparr>)"
      using run(1) by (simp add: branches T_def)
    moreover have "filled E a \<or> filled E b \<longrightarrow> filled E ?J" using kids branches by auto
    moreover have "parent (node T (root_of b)) = Some p" "inorder ?J = inorder a @ inorder b" using T(2) by (simp_all add: branches)
    moreover have "pageListHWM (tree_psm T) \<le> pageListHWM (tree_psm (tc s)) + 1" "remove_entry E k (node T p) = Some m'"
      using run(2) T m' by simp_all
    ultimately show ?thesis using T(3) merged unfolding branches by blast
  qed
qed

lemma fill_bounds:
  assumes "tree_config E" and "x < min_keys E leaf" and "min_keys E leaf \<le> x + 1" and "capacity E leaf < n + x"
  shows "1 < n" and "min_keys E leaf < n" and "x + 1 = min_keys E leaf" and "leaf \<Longrightarrow> x < leafOrder E" and "\<not> leaf \<Longrightarrow> x + 1 < branchOrder E"
proof -
  have lo: "2 * cut (leafOrder E) \<le> leafOrder E + 1" "2 * cut (branchOrder E) \<le> branchOrder E + 1"
    by (simp_all add: cut_def) presburger+
  have pos: "1 \<le> cut (leafOrder E)" "2 \<le> cut (branchOrder E)" "0 < leafOrder E" "3 \<le> branchOrder E"
    using assms(1) by (auto simp: cut_def tree_config_def)
  show "1 < n" "min_keys E leaf < n" "x + 1 = min_keys E leaf" "leaf \<Longrightarrow> x < leafOrder E" "\<not> leaf \<Longrightarrow> x + 1 < branchOrder E"
    using assms(2-4) lo pos by (auto simp: min_keys_def capacity_def split: if_splits)
qed

lemma step_rotate:
  assumes pair: "pair_in E (tc s) c p K1 S1 a k b K2 S2" and height: "height_is n a" "height_is n b" and config: "tree_config E"
    and roles: "(X, nb) = (if fromLeft then (b, a) else (a, b))" and nb: "filled E nb" and X: "kids_filled E X"
      "size_of X < min_keys E (is_leaf X)" "min_keys E (is_leaf X) \<le> size_of X + 1" and over: "capacity E (is_leaf nb) < size_of nb + size_of X"
  shows "\<exists>T a' b' k'. run_state (redistributeNodes (root_of X) (root_of nb) p fromLeft (length K1) k) s = (R_ok, s\<lparr>tc := T\<rparr>) \<and>
     closed_tree E T (plug c (ABranch p (K1 @ k' # K2) (S1 @ a' # b' # S2))) \<and> ordered (plug c (ABranch p (K1 @ k' # K2) (S1 @ a' # b' # S2))) \<and>
     (\<forall>d. height_is d (plug c (ABranch p (K1 @ k # K2) (S1 @ a # b # S2))) \<longrightarrow>
       height_is d (plug c (ABranch p (K1 @ k' # K2) (S1 @ a' # b' # S2)))) \<and>
     inorder a' @ inorder b' = inorder a @ inorder b \<and> filled E a' \<and> filled E b'"
proof -
  note P = pair_inD [OF pair]
  have "is_leaf nb = is_leaf X" using height roles by (cases a; cases b; auto split: if_splits)
  note sizes = fill_bounds [OF config X(2,3) over [unfolded this]]
  have hold: "holds E (tc s) p X" "holds E (tc s) p nb" using P(6,7) roles by (auto split: if_splits)
  note size = holds_size [OF hold(1)] holds_size [OF hold(2)]
  from height show ?thesis
  proof (cases rule: same_kind)
    case (leaves ra La rb Lb)
    let ?i = "root_of X" and ?nb = "root_of nb"
    obtain x y key where run: "(if fromLeft then leaf_from_left else leaf_from_right) (raw (node (tc s) ?i)) (raw (node (tc s) ?nb)) = (x, y, key)"
      by (metis surj_pair)
    have leaf: "is_leaf X" and r: "(?i, ?nb) = (if fromLeft then (rb, ra) else (ra, rb))" using roles leaves by (auto split: if_splits)
    have small: "keyNo (tc s) ?i < leafOrder E" "1 < keyNo (tc s) ?nb" using size sizes leaf by simp_all
    define T where "T = redistributed ?i ((node (tc s) ?i)\<lparr>raw := x\<rparr>) ?nb ((node (tc s) ?nb)\<lparr>raw := y\<rparr>) p (length K1) key [] (tc s)"
    obtain La' Lb' where new: "La' @ Lb' = La @ Lb" "length La' = (if fromLeft then length La - 1 else length La + 1)"
      "closed_tree E T (plug c (ABranch p (K1 @ key # K2) (S1 @ ALeaf ra La' # ALeaf rb Lb' # S2)))"
      "ordered (plug c (ABranch p (K1 @ key # K2) (S1 @ ALeaf ra La' # ALeaf rb Lb' # S2)))"
      "\<forall>d. height_is d (plug c (ABranch p (K1 @ k # K2) (S1 @ ALeaf ra La # ALeaf rb Lb # S2))) \<longrightarrow>
        height_is d (plug c (ABranch p (K1 @ key # K2) (S1 @ ALeaf ra La' # ALeaf rb Lb' # S2)))"
      using rotate_leaves [OF pair [unfolded leaves] r small run T_def] by blast
    have "length La' + length Lb' = length La + length Lb" using arg_cong [OF new(1), of length] by simp
    then have "filled E (ALeaf ra La')" "filled E (ALeaf rb Lb')"
      using new(2) sizes(2,3) roles leaves by (auto simp: min_keys_def split: if_splits)
    moreover have "run_state (redistributeNodes ?i ?nb p fromLeft (length K1) k) s = (R_ok, s\<lparr>tc := T\<rparr>)"
      using run_redistribute_leaf [OF _ run] size leaf by (simp add: T_def)
    moreover have "inorder (ALeaf ra La') @ inorder (ALeaf rb Lb') = inorder a @ inorder b" using new(1) leaves by simp
    ultimately show ?thesis using new(3-5) unfolding leaves by blast
  next
    case (branches ra ks us rb ks' us')
    have kids: "kids_filled E a" "kids_filled E b" using X(1) nb roles filled_min [OF config] by (auto split: if_splits)
    have lens: "length us = length ks + 1" "length us' = length ks' + 1" using children_in(3) P(6,7) branches by blast+
    have branch: "\<not> is_leaf X" using roles branches by (auto split: if_splits)
    show ?thesis
    proof (cases fromLeft)
      case True
      then have X: "X = ABranch rb ks' us'" "nb = ABranch ra ks us" using roles branches by auto
      obtain ks0 l where ks: "ks = ks0 @ [l]" using sizes(1) X by (cases ks rule: rev_cases) auto
      obtain us0 u where us: "us = us0 @ [u]" using lens(1) by (cases us rule: rev_cases) auto
      obtain m f key where run: "branch_from_left k (node (tc s) rb) (node (tc s) ra) = (m, f, key)" by (metis surj_pair)
      define T where "T = redistributed rb m ra f p (length K1) key [root_of u] (tc s)"
      have room: "length ks' + 1 < branchOrder E" using sizes(5) branch X by simp
      have full: "\<forall>t\<in>set (us0 @ us'). numbers t \<noteq> []"
        using kids_numbers [OF config, of ra ks us] kids_numbers [OF config, of rb ks' us'] kids branches us by auto
      note new = rotate_left [OF pair [unfolded branches ks us] room full run T_def]
      have "filled E (ABranch ra ks0 us0)" "filled E (ABranch rb (k # ks') (u # us'))"
        using kids sizes(2,3) X ks us branches branch by (auto simp: min_keys_def)
      moreover have "run_state (redistributeNodes (root_of X) (root_of nb) p fromLeft (length K1) k) s = (R_ok, s\<lparr>tc := T\<rparr>)"
        using run_redistribute_branch [of s rb True k ra m f key "root_of u" p "length K1"] size(1) branch run new(2) True
        by (simp add: X T_def)
      moreover have "inorder (ABranch ra ks0 us0) @ inorder (ABranch rb (k # ks') (u # us')) = inorder a @ inorder b"
        by (simp add: branches us)
      ultimately show ?thesis using new(3-5) unfolding branches ks us by blast
    next
      case False
      then have X: "X = ABranch ra ks us" "nb = ABranch rb ks' us'" using roles branches by auto
      obtain l ks0 where ks: "ks' = l # ks0" using sizes(1) X by (cases ks') auto
      obtain u us0 where us: "us' = u # us0" using lens(2) by (cases us') auto
      obtain m f key where run: "branch_from_right k (node (tc s) ra) (node (tc s) rb) = (m, f, key)" by (metis surj_pair)
      define T where "T = redistributed ra m rb f p (length K1) key [root_of u] (tc s)"
      have room: "length ks + 1 < branchOrder E" using sizes(5) branch X by simp
      have full: "\<forall>t\<in>set (u # us0). numbers t \<noteq> []"
        using kids_numbers [OF config, of rb ks' us'] kids branches us by auto
      note new = rotate_right [OF pair [unfolded branches ks us] room full run T_def]
      have "filled E (ABranch ra (ks @ [k]) (us @ [u]))" "filled E (ABranch rb ks0 us0)"
        using kids sizes(2,3) X ks us branches branch by (auto simp: min_keys_def)
      moreover have "run_state (redistributeNodes (root_of X) (root_of nb) p fromLeft (length K1) k) s = (R_ok, s\<lparr>tc := T\<rparr>)"
        using run_redistribute_branch [of s ra False k rb m f key "root_of u" p "length K1"] size(1) branch run new(2) False
        by (simp add: X T_def)
      moreover have "inorder (ABranch ra (ks @ [k]) (us @ [u])) @ inorder (ABranch rb ks0 us0) = inorder a @ inorder b"
        by (simp add: branches us)
      ultimately show ?thesis using new(3-5) unfolding branches ks us by blast
    qed
  qed
qed

subsection \<open>The recursion\<close>

lemma almost_filled_min:
  assumes "tree_config E" and "c \<noteq> []" and "almost_filled E c X"
  shows "kids_filled E X" and "min_keys E (is_leaf X) \<le> size_of X + 1"
  using assms by (cases X; auto simp: min_keys_def)+

lemma choose_pair:
  assumes tree: "half_tree E T d ((p, ks1, ts1, ks2, ts2) # c) X" and config: "tree_config E"
  obtains K1 S1 a k b K2 S2 nb where "ks1 @ ks2 = K1 @ k # K2" "ts1 @ X # ts2 = S1 @ a # b # S2" "length S1 = length K1"
    "(X, nb) = (if ks1 \<noteq> [] then (b, a) else (a, b))" "nb \<in> set (ts1 @ ts2)" "set S1 \<union> set S2 \<subseteq> set (ts1 @ ts2)"
    "(case neighbour_index ks1 of None \<Rightarrow> 0 | Some k \<Rightarrow> k) = length K1"
    "(S1 @ a # b # S2) ! (case neighbour_index ks1 of None \<Rightarrow> 1 | Some k \<Rightarrow> k) = nb"
    "(case neighbour_index ks1 of None \<Rightarrow> 1 | Some k \<Rightarrow> k) \<le> length (K1 @ k # K2)"
proof (cases ks1 rule: rev_cases)
  case Nil
  have len: "length ts1 = length ks1" "length ts2 = length ks2" using tree by (simp_all add: half_tree_def)
  have "2 \<le> cut (branchOrder E)" using config by (auto simp: tree_config_def cut_def)
  then have "ks1 @ ks2 \<noteq> []" using tree by (auto simp: half_tree_def split: if_splits)
  then obtain k K2 where ks2: "ks2 = k # K2" using Nil by (cases ks2) auto
  then obtain b S2 where "ts2 = b # S2" using len by (cases ts2) auto
  then show ?thesis using that [of "[]" k K2 "[]" X b S2 b] Nil ks2 len by (auto simp: neighbour_index_def)
next
  case (snoc K1 k)
  have len: "length ts1 = length ks1" "length ts2 = length ks2" using tree by (simp_all add: half_tree_def)
  then obtain S1 a where "ts1 = S1 @ [a]" using snoc by (cases ts1 rule: rev_cases) auto
  then show ?thesis using that [of K1 k ks2 S1 a X ts2 a] snoc len by (auto simp: neighbour_index_def nth_append)
qed

lemma half_enough:
  assumes "half_tree E T d c X" and "tree_config E" and "c \<noteq> []" and "min_keys E (is_leaf X) \<le> size_of X"
  shows "tree_in E T d (plug c X)"
proof -
  have "filled E X" using filled_min [OF assms(2)] almost_filled_min(1) [OF assms(2,3)] assms(1,4) by (simp add: half_tree_def)
  then show ?thesis using assms(1,3) by (simp add: half_tree_def tree_in_def filled_plug)
qed

lemma plug_height_of: "height_is d (plug c t) \<Longrightarrow> \<exists>n. height_is n t"
  by (induction c t rule: plug.induct) auto

text \<open>The pair below the frame at the end of the path.\<close>

lemma half_pair:
  assumes tree: "half_tree E T d ((p, ks1, ts1, ks2, ts2) # c) X"
    and parts: "ks1 @ ks2 = K1 @ k # K2" "ts1 @ X # ts2 = S1 @ a # b # S2" "length S1 = length K1"
  shows "pair_in E T c p K1 S1 a k b K2 S2" and "height_is d (plug c (ABranch p (K1 @ k # K2) (S1 @ a # b # S2)))"
    and "\<exists>n. height_is n a \<and> height_is n b" and "plug ((p, ks1, ts1, ks2, ts2) # c) X = plug c (ABranch p (K1 @ k # K2) (S1 @ a # b # S2))"
proof -
  show same: "plug ((p, ks1, ts1, ks2, ts2) # c) X = plug c (ABranch p (K1 @ k # K2) (S1 @ a # b # S2))" using parts by simp
  show "pair_in E T c p K1 S1 a k b K2 S2" using tree parts(3) unfolding half_tree_def pair_in_def same by simp
  show height: "height_is d (plug c (ABranch p (K1 @ k # K2) (S1 @ a # b # S2)))" using tree unfolding half_tree_def same by simp
  show "\<exists>n. height_is n a \<and> height_is n b" using plug_height_of [OF height] by auto
qed

lemma run_deleteEntry:
  assumes "remove_entry E key (node (tc s) (root_of X)) = Some m'" and "half_tree E (upd_node (root_of X) (\<lambda>_. m') (tc s)) d c X"
    and "tree_config E" and "\<not> verifyTC E" and "\<not> readOnly s" and "pageListHWM (tree_psm (tc s)) + length c < treeNodeCacheSize E"
    and "length c \<le> n" and "\<forall>k\<in>set (path_keys c). k < 2 ^ 16"
  shows "\<exists>m j T t d'. run_state (deleteEntry n E (root_of X) key) s = (R_ok, s\<lparr>mram := m, jr := j, tc := T\<rparr>) \<and> tree_in E T d' t \<and>
    d' \<le> d \<and> inorder t = inorder (plug c X)"
  using assms
proof (induction c arbitrary: X key m' n s)
  case Nil
  let ?i = "root_of X" let ?T = "upd_node ?i (\<lambda>_. m') (tc s)"
  note H = half_treeD [OF Nil.prems(2), simplified]
  have "parent m' = Some ?i" using H(5,6) by (simp add: node_upd)
  then have "run_state (deleteEntry n E ?i key) s = run_state (adjustRoot E ?i) (s\<lparr>tc := ?T\<rparr>)"
    using Nil.prems(1) remove_entry_same [OF Nil.prems(1)] by (subst deleteEntry.simps) (simp add: node_at_def set_node_def)
  then show ?case using run_adjustRoot [of E "s\<lparr>tc := ?T\<rparr>" d X] Nil.prems by simp
next
  case (Cons fr c)
  obtain p ks1 ts1 ks2 ts2 where fr: "fr = (p, ks1, ts1, ks2, ts2)" by (metis prod.collapse)
  let ?i = "root_of X" let ?T = "upd_node ?i (\<lambda>_. m') (tc s)" let ?U = "found_neighbour E ?i ?T"
  note tree = Cons.prems(2) [unfolded fr] and config = Cons.prems(3)
  note H = half_treeD [OF tree]
  have i: "?i < length (mCache (tc s))" "node ?T ?i = m'" "parent m' = Some p" using H(5,6) by (auto simp: node_upd)
  have path: "branch_holds E ?T p (ks1 @ ks2) (map root_of ts1 @ ?i # map root_of ts2)" "length ts1 = length ks1" "slot E ?T p"
    using H(2) by simp_all
  have "set (concat (map indices ts1)) \<inter> set (indices X) = {}" using H(7) by auto
  then have before: "?i \<notin> set (map root_of ts1)" using root_in_indices [of X] roots_in [of ts1] by blast
  have p: "p \<noteq> ?i" "p < length (mCache (tc s))" using H(7) root_in_indices [of X] slot_less [OF path(3)] by auto
  have size: "n_keys (raw m') = size_of X" "n_isLeaf (raw m') = is_leaf X" using holds_size [OF H(1)] i(2) by simp_all
  show ?case
  proof (cases "min_keys E (is_leaf X) \<le> size_of X")
    case True
    then have "run_state (deleteEntry n E ?i key) s = (R_ok, s\<lparr>mram := mram s, jr := jr s, tc := ?T\<rparr>)"
      using Cons.prems(1) i(3) p(1) size remove_entry_same [OF Cons.prems(1)]
      by (subst deleteEntry.simps) (simp add: node_at_def set_node_def min_keys_def split: if_splits)
    moreover have "tree_in E ?T d (plug (fr # c) X)" using half_enough [OF tree config _ True] by (simp add: fr)
    ultimately show ?thesis by (blast intro: order_refl)
  next
    case False
    obtain K1 S1 a k b K2 S2 nb where pr: "ks1 @ ks2 = K1 @ k # K2" "ts1 @ X # ts2 = S1 @ a # b # S2" "length S1 = length K1"
      "(X, nb) = (if ks1 \<noteq> [] then (b, a) else (a, b))" "nb \<in> set (ts1 @ ts2)" "set S1 \<union> set S2 \<subseteq> set (ts1 @ ts2)"
      "(case neighbour_index ks1 of None \<Rightarrow> 0 | Some k \<Rightarrow> k) = length K1"
      "(S1 @ a # b # S2) ! (case neighbour_index ks1 of None \<Rightarrow> 1 | Some k \<Rightarrow> k) = nb"
      "(case neighbour_index ks1 of None \<Rightarrow> 1 | Some k \<Rightarrow> k) \<le> length (K1 @ k # K2)"
      using choose_pair [OF tree config] by metis
    have same: "same_nodes ?T ?U" "tree_psm ?U = tree_psm (tc s)" using found_same(1) [of ?T E ?i] found_same(2) [of E ?i ?T] by simp_all
    note treeU = half_tree_same [OF tree same(1)]
    note pair = half_pair [OF treeU pr(1-3)]
    obtain h where h: "height_is h a" "height_is h b" using pair(3) by blast
    note PU = pair_inD [OF pair(1)]
    have sizes: "keyNo ?U (root_of nb) = size_of nb" "keyNo ?U ?i = size_of X" "n_isLeaf (raw (node ?U (root_of nb))) = is_leaf nb"
      using holds_size [OF PU(6)] holds_size [OF PU(7)] pr(4) by (auto split: if_splits)
    have kind: "is_leaf nb = is_leaf X" "is_leaf a = is_leaf X" using h pr(4) by (cases a; cases b; auto split: if_splits)+
    have fill: "path_filled E c" "\<forall>t\<in>set (ts1 @ ts2). filled E t" "almost_filled E (fr # c) X"
      "c \<noteq> [] \<longrightarrow> cut (branchOrder E) \<le> length (ks1 @ ks2) + 1" "ks1 @ ks2 \<noteq> []"
      using tree pr(1) by (auto simp: half_tree_def fr split: if_splits)
    note half = almost_filled_min [OF config list.distinct(2) fill(3)]
    have nb: "filled E nb" "kids_filled E nb" using fill(2) pr(5) filled_min [OF config, of nb] by auto
    have "k \<in> set (ks1 @ ks2)" by (simp add: pr(1))
    then have k: "k < 2 ^ 16" "\<forall>k\<in>set (path_keys c). k < 2 ^ 16" using Cons.prems(8) by (auto simp: fr)
    note br = path(1) [unfolded pr(1)]
    have roots: "map root_of ts1 @ ?i # map root_of ts2 = map root_of (S1 @ a # b # S2)"
      using arg_cong [OF pr(2), of "map root_of"] by simp
    have lens: "length (S1 @ a # b # S2) = length (K1 @ k # K2) + 1"
      using branch_holdsD(3) [OF br] arg_cong [OF roots, of length] by simp
    have at: "pointers (node ?T p) ! (case neighbour_index ks1 of None \<Rightarrow> 1 | Some k \<Rightarrow> k) = Some (root_of nb)"
      using branch_nth(1) [OF br [unfolded roots], of "case neighbour_index ks1 of None \<Rightarrow> 1 | Some k \<Rightarrow> k"] pr(8,9) lens
      by (simp del: length_append list.size map_append list.map)
    have key: "n_key (raw (node ?T p)) ! (case neighbour_index ks1 of None \<Rightarrow> 0 | Some k \<Rightarrow> k) = k"
      unfolding pr(7) using branch_nth(3) [OF br, of "length K1"] by simp
    have bound: "(case neighbour_index ks1 of None \<Rightarrow> 1 | Some k \<Rightarrow> k) \<le> branchOrder E"
      using pr(9) branch_holdsD(5) [OF br] by linarith
    have small: "n_keys (raw m') < min_keys E (n_isLeaf (raw m'))" using False size by simp
    note under = deleteEntry_under [OF Cons.prems(1) i(3) p(1) small i(1) refl refl
        run_neighbour_index [OF path(1) before path(2)] Cons.prems(4) branch_holdsD(1) [OF path(1)] p(2) at bound key k(1)]
    obtain n' where n: "n = Suc n'" "length c \<le> n'" using Cons.prems(7) by (cases n) auto
    let ?s = "s\<lparr>tc := ?U\<rparr>"
    have pairU: "pair_in E (tc ?s) c p K1 S1 a k b K2 S2" using pair(1) by simp
    show ?thesis
    proof (cases "size_of nb + size_of X \<le> capacity E (is_leaf X)")
      case True
      have ab: "X = a \<and> nb = b \<or> X = b \<and> nb = a" using pr(4) by (simp split: if_splits)
      have "size_of a + size_of b = size_of nb + size_of X" using ab by (elim disjE conjE) (simp_all only: add.commute)
      then have room: "size_of a + size_of b \<le> capacity E (is_leaf a)" using True by (simp only: kind(2))
      have one: "filled E a \<or> filled E b" using ab nb(1) by metis
      have kids: "kids_filled E a" "kids_filled E b" using ab half(1) nb(2) by metis+
      have "\<not> readOnly ?s" "pageListHWM (tree_psm (tc ?s)) < treeNodeCacheSize E" using Cons.prems(5,6) same(2) by simp_all
      note step = step_merge [OF pairU h room config this kids]
      obtain m j T J m'' where M: "run_state (merge_nodes E (root_of b) (root_of a) k) ?s = (R_ok, ?s\<lparr>mram := m, jr := j, tc := T\<rparr>)"
        "pageListHWM (tree_psm T) \<le> pageListHWM (tree_psm (tc ?s)) + 1" "parent (node T (root_of b)) = Some p"
        "p < length (mCache T)" "remove_entry E k (node T p) = Some m''"
        "closed_tree E (upd_node p (\<lambda>_. m'') T) (plug c (ABranch p (K1 @ K2) (S1 @ J # S2)))" "ordered (plug c (ABranch p (K1 @ K2) (S1 @ J # S2)))"
        "\<forall>d. height_is d (plug c (ABranch p (K1 @ k # K2) (S1 @ a # b # S2))) \<longrightarrow> height_is d (plug c (ABranch p (K1 @ K2) (S1 @ J # S2)))"
        "inorder J = inorder a @ inorder b" "filled E a \<or> filled E b \<longrightarrow> filled E J"
        using step by (elim exE conjE) (rule that)
      let ?B = "ABranch p (K1 @ K2) (S1 @ J # S2)" and ?s2 = "s\<lparr>mram := m, jr := j, tc := T\<rparr>"
      have "run_state (deleteEntry n E ?i key) s = run_state (deleteEntry n' E p k) ?s2"
        unfolding n(1)
      proof (rule under(1))
        have "(if ks1 = [] then root_of nb else ?i) = root_of b" "(if ks1 = [] then ?i else root_of nb) = root_of a"
          using pr(4) by (simp_all split: if_splits)
        then show "run_state (merge_nodes E (if ks1 = [] then root_of nb else ?i) (if ks1 = [] then ?i else root_of nb) k) ?s = (R_ok, ?s2)"
          "parent (node (tc ?s2) (if ks1 = [] then root_of nb else ?i)) = Some p" using M(1,3) by simp_all
      qed (use True in \<open>simp only: sizes kind(1)\<close>)
      moreover have "almost_filled E c ?B" using fill(2,4) M(10) one pr(1,6) by auto
      then have "half_tree E (upd_node (root_of ?B) (\<lambda>_. m'') (tc ?s2)) d c ?B"
        using M(6,7) M(8) [rule_format, OF pair(2)] fill(1) PU(14) by (simp add: half_tree_def)
      then have "\<exists>m j T t d'. run_state (deleteEntry n' E (root_of ?B) k) ?s2 = (R_ok, ?s2\<lparr>mram := m, jr := j, tc := T\<rparr>) \<and>
          tree_in E T d' t \<and> d' \<le> d \<and> inorder t = inorder (plug c ?B)"
        using M(2,5) Cons.prems(4,5,6) same(2) n(2) k(2) by (intro Cons.IH [OF _ _ config]) simp_all
      moreover have "inorder (plug c ?B) = inorder (plug (fr # c) X)"
        unfolding fr pair(4) by (simp add: inorder_plug M(9))
      ultimately show ?thesis by (auto simp del: plug.simps)
    next
      case over: False
      have "capacity E (is_leaf nb) < size_of nb + size_of X" using over by (simp only: kind(1) not_le)
      then obtain T a' b' k' where R: "run_state (redistributeNodes ?i (root_of nb) p (ks1 \<noteq> []) (length K1) k) ?s = (R_ok, ?s\<lparr>tc := T\<rparr>)"
        "closed_tree E T (plug c (ABranch p (K1 @ k' # K2) (S1 @ a' # b' # S2)))" "ordered (plug c (ABranch p (K1 @ k' # K2) (S1 @ a' # b' # S2)))"
        "height_is d (plug c (ABranch p (K1 @ k' # K2) (S1 @ a' # b' # S2)))" "inorder a' @ inorder b' = inorder a @ inorder b"
        "filled E a'" "filled E b'"
        using step_rotate [OF pairU h config pr(4) nb(1) half(1) _ half(2)] False pair(2) by auto
      let ?B = "ABranch p (K1 @ k' # K2) (S1 @ a' # b' # S2)"
      have "run_state (deleteEntry n E ?i key) s = (R_ok, s\<lparr>mram := mram s, jr := jr s, tc := T\<rparr>)"
        using under(2) over R(1) by (simp only: sizes kind(1) pr(7)) simp
      moreover have "root_filled E (plug c ?B)"
        using fill(1,2,4) R(6,7) pr(1,6) by (auto simp: filled_plug)
      then have "tree_in E T d (plug c ?B)" using R(2-4) by (simp add: tree_in_def)
      moreover have "inorder (plug c ?B) = inorder (plug (fr # c) X)"
        unfolding fr pair(4) by (simp add: inorder_plug R(5) [symmetric])
      ultimately show ?thesis by (blast intro: order_refl)
    qed
  qed
qed

section \<open>The deletion of an inode\<close>

text \<open>The leaf without the inode.\<close>

lemma leaf_removed:
  assumes tree: "tree_in E T d t" and t: "t = plug c (ALeaf l L)" "length c = d" "path_ordered c" "path_height 0 c"
      "path_filled E c" "strict L" "\<forall>y\<in>set L. path_fits c (i_no y)"
    and key: "key \<in> i_no ` set L" and size: "2 \<le> length (inorder t)"
  shows "\<exists>m'. remove_entry E key (node T l) = Some m' \<and>
    half_tree E (upd_node l (\<lambda>_. m') T) d c (ALeaf l (filter (\<lambda>x. i_no x \<noteq> key) L))"
proof -
  let ?L = "filter (\<lambda>x. i_no x \<noteq> key) L"
  note frames = path_frames [OF t(3)]
  have closed: "closed_tree E T (plug c (ALeaf l L))" using tree t(1) by (simp add: tree_in_def)
  have leaf: "leaf_ok E (raw (node T l))" "leaf_inodes (raw (node T l)) = L" using closed closed_plug [OF frames] by auto
  obtain m' where m': "remove_entry E key (node T l) = Some m'" "leaf_ok E (raw m')" "leaf_inodes (raw m') = ?L"
    "n_self (raw m') = self_of T l" "parent m' = parent (node T l)"
    using remove_entry_leaf [OF leaf(1), of key] leaf(2) key by auto
  have "closed_tree E (upd_node l (\<lambda>_. m') T) (plug c (ALeaf l ?L))"
    using leaf_step [OF frames closed, of "\<lambda>_. m'"] m' by simp
  moreover have "ordered (plug c (ALeaf l ?L))"
    using ordered_plug [OF frames, of "ALeaf l ?L"] t(3,6,7) by (auto simp: set_numbers_leaf sorted_wrt_map sorted_wrt_filter)
  moreover have "height_is d (plug c (ALeaf l ?L))" using height_plug [of 0 c "ALeaf l ?L"] t(2,4) by simp
  moreover have "almost_filled E c (ALeaf l ?L)"
  proof -
    have count: "length L \<le> length ?L + 1"
    proof -
      obtain x where x: "x \<in> set L" "i_no x = key" using key by auto
      have "distinct (map i_no L)" using t(6) unfolding strict_sorted_iff by simp
      then have "length (filter (\<lambda>x. i_no x = key) L) \<le> 1"
      proof (induction L)
        case (Cons y L)
        then have "filter (\<lambda>x. i_no x = key) L = []" if "i_no y = key"
          using that by (metis (mono_tags, lifting) distinct.simps(2) filter_False image_eqI list.set_map list.simps(9))
        then show ?case using Cons by auto
      qed simp
      then show ?thesis using sum_length_filter_compl [of "\<lambda>x. i_no x = key" L] by simp
    qed
    show ?thesis
    proof (cases "c = []")
      case True
      then have "2 \<le> length L" using size t(1) by simp
      then show ?thesis using count True by (cases ?L) auto
    next
      case False
      then have "cut (leafOrder E) \<le> length L"
        using tree t(1) filled_plug [of E c "ALeaf l L"] by (simp add: tree_in_def)
      then show ?thesis using count False by simp
    qed
  qed
  ultimately show ?thesis using m'(1) t(5) frames by (auto simp: half_tree_def)
qed

text \<open>
  The deletion up to the commit that follows when nodes were removed: the state from which the commit
  starts holds a search tree without the inode.
\<close>

lemma run_tree_erase:
  assumes config: "tree_config E" and tree: "tree_in E (tc s) d t" and check: "check_passes E (tc s)" and flags: "\<not> verifyTC E"
    and "\<not> readOnly s" and psm: "pageListHWM (tree_psm (tc s)) + d < treeNodeCacheSize E" and small: "small_numbers t"
    and mem: "key \<in> i_no ` set (inorder t)" and size: "2 \<le> length (inorder t)"
    and run: "run_state (deleteInode E key) s = (r, u)"
  shows "r = R_ok \<and> (\<exists>m j T t' d'. tree_in E T d' t' \<and> d' \<le> d \<and> inorder t' = filter (\<lambda>x. i_no x \<noteq> key) (inorder t) \<and>
    u = snd (run_state (do { _ \<leftarrow> commitIfNodesWereRemoved E; add_event E (TreeRemove key) }) (s\<lparr>mram := m, jr := j, tc := T\<rparr>)))"
proof -
  let ?l = "target_leaf (tc s) d key" and ?T = "hits (d + 1) (tc s)"
  let ?s = "s\<lparr>tc := ?T\<rparr>" and ?r = "raw (node (tc s) ?l)"
  obtain c L where c: "t = plug c (ALeaf ?l L)" "length c = d" "path_fits c key" "path_ordered c" "path_height 0 c"
      "path_filled E c" "strict L" "\<forall>y\<in>set L. path_fits c (i_no y)"
    using tree_at_leaf [OF tree, of key] by metis
  have cached: "cached_tree E (tc s) d" and plain: "plain_tree E (tc s) d" and inodes: "inodes_in (tc s) d = inorder t"
    using tree_in_cached [OF tree config] check by simp_all
  note frames = path_frames [OF c(4)]
  have closed: "closed_tree E (tc s) (plug c (ALeaf ?l L))" using tree c(1) by (simp add: tree_in_def)
  then have leaf: "leaf_ok E ?r" "leaf_inodes ?r = L" using closed_plug [OF frames] by auto
  have "lookup_inode (inodes_in (tc s) d) key = findInLeaf ?r key"
    using target_lookup [of d E "tc s"] plain by (simp add: plain_tree_def)
  then have found: "findInLeaf ?r key \<noteq> None" and "key \<in> i_no ` set (leaf_inodes ?r)"
    using mem findInLeaf_lookup [OF leaf(1), of key] lookup_inode_None [of "inodes_in (tc s) d" key]
      lookup_inode_None [of "leaf_inodes ?r" key] unfolding inodes by (metis, metis)
  then have key: "key \<in> i_no ` set L" by (simp add: leaf(2))
  have tree': "tree_in E ?T d t"
    using tree closed_tree_same(1) [OF _ same_nodes_hits] by (auto simp: tree_in_def)
  have same: "node ?T ?l = node (tc s) ?l" using same_nodes_hits [of "tc s" "d + 1"] by (simp add: same_nodes_def)
  obtain m' where m': "remove_entry E key (node ?T ?l) = Some m'"
    "half_tree E (upd_node ?l (\<lambda>_. m') ?T) d c (ALeaf ?l (filter (\<lambda>x. i_no x \<noteq> key) L))"
    using leaf_removed [OF tree' c(1,2,4-8) key size] by blast
  have depth: "length c \<le> walk_bound E" using psm c(2) by (simp add: walk_bound_def)
  have keys: "\<forall>k\<in>set (path_keys c). k < 2 ^ 16"
    using path_keys_small [of c "ALeaf ?l L" "2 ^ 16"] small c(1) by (simp add: small_numbers_def)
  obtain m j T t' d' where del: "run_state (deleteEntry (walk_bound E) E ?l key) ?s = (R_ok, ?s\<lparr>mram := m, jr := j, tc := T\<rparr>)"
    "tree_in E T d' t'" "d' \<le> d" "inorder t' = inorder (plug c (ALeaf ?l (filter (\<lambda>x. i_no x \<noteq> key) L)))"
    using run_deleteEntry [of E key ?s "ALeaf ?l (filter (\<lambda>x. i_no x \<noteq> key) L)" m' d c "walk_bound E"]
      m' config flags assms(5) psm c(2) depth keys by auto
  have "inorder t = path_left c @ L @ path_right c" "inorder t' = path_left c @ filter (\<lambda>x. i_no x \<noteq> key) L @ path_right c"
    using c(1) del(4) by (simp_all add: inorder_plug)
  then have order: "inorder t' = filter (\<lambda>x. i_no x \<noteq> key) (inorder t)"
    using filter_piece [of "path_left c" L "path_right c" key] tree_in_strict [OF tree] key by simp
  have "r = R_ok \<and> u = snd (run_state (do { _ \<leftarrow> commitIfNodesWereRemoved E; add_event E (TreeRemove key) })
      (s\<lparr>mram := m, jr := j, tc := T\<rparr>))"
    using run flags found del(1)
    by (auto simp: deleteInode_def run_findLeaf [OF cached] node_at_def same split_beta)
  then show ?thesis using del(2,3) order by blast
qed

end
