(* ===== verification/BtreeProperties.thy ===== *)
theory BtreeProperties
  imports BtreeErase BtreeUpdate ExampleDevice
begin

text \<open>
  The properties of the B+ tree, and a device on which they are witnessed: pages of 300 bytes,
  hence three inodes in a leaf, and a tree of two leaves below the root.
\<close>

definition tree_env :: "ram_flash env" where
  "tree_env = ex_env\<lparr>dataBytesPerPage := 300\<rparr>"

definition numbered :: "nat \<Rightarrow> Inode" where
  "numbered k = zero_inode\<lparr>i_no := k\<rparr>"

definition leaf_of :: "nat list \<Rightarrow> TreeNode" where
  "leaf_of ks = \<lparr>n_key = ks @ replicate (35 - length ks) 0, n_addr = replicate 36 0,
     n_inode = map numbered ks @ replicate (3 - length ks) zero_inode, n_self = 0, n_isLeaf = True, n_keys = length ks\<rparr>"

definition leaf_node :: "nat \<Rightarrow> nat list \<Rightarrow> TreeCacheNode" where
  "leaf_node p ks = \<lparr>raw = leaf_of ks, parent = Some p, pointers = replicate 36 None,
     n_dirty = True, n_locked = False, n_inheritedLock = False\<rparr>"

definition root_node :: TreeCacheNode where
  "root_node = \<lparr>raw = \<lparr>n_key = 5 # replicate 34 0, n_addr = replicate 36 0, n_inode = replicate 3 zero_inode,
      n_self = 0, n_isLeaf = False, n_keys = 1\<rparr>,
     parent = Some 0, pointers = Some 1 # Some 2 # replicate 34 None,
     n_dirty = True, n_locked = False, n_inheritedLock = False\<rparr>"

text \<open>A tree with the inodes 1, 2, 5, 6 and 9; a full root leaf with the inodes \<open>ks\<close>.\<close>

definition tree_dev :: "ram_flash dev" where
  "tree_dev = ex_dev\<lparr>tc := (tc ex_dev)\<lparr>mCache := [root_node, leaf_node 0 [1, 2], leaf_node 0 [5, 6, 9]],
     mCacheUsage := [7], tree_psm := psm_clear 3 False\<rparr>\<rparr>"

definition root_leaf_dev :: "nat list \<Rightarrow> ram_flash dev" where
  "root_leaf_dev ks = ex_dev\<lparr>tc := (tc ex_dev)\<lparr>mCache := [leaf_node 0 ks, zero_node tree_env, zero_node tree_env],
     mCacheUsage := [1], tree_psm := psm_clear 3 False\<rparr>\<rparr>"

lemma tree_env_simps [simp]:
  "leafOrder tree_env = 3" "branchOrder tree_env = 36" "keySlots tree_env = 35" "treeNodeCacheSize tree_env = 3"
  "verifyTC tree_env = False" "cut 3 = 2"
  by (simp_all add: tree_env_def leafOrder_def branchOrder_def keySlots_def cut_def) (simp_all add: ex_env_def)

lemma numbered_no [simp]: "i_no (numbered k) = k"
  by (simp add: numbered_def)

lemma leaf_of_ok:
  assumes "length ks \<le> 3" and "sorted_wrt (<) ks"
  shows "leaf_ok tree_env (leaf_of ks)" "leaf_inodes (leaf_of ks) = map numbered ks"
  using assms by (simp_all add: leaf_ok_def leaf_inodes_def leaf_of_def comp_def)

lemma tree_dev_simps:
  "mCacheRoot (tc tree_dev) = 0" "node (tc tree_dev) 0 = root_node" "node (tc tree_dev) (Suc 0) = leaf_node 0 [Suc 0, 2]"
  "node (tc tree_dev) 2 = leaf_node 0 [5, 6, 9]" "length (mCache (tc tree_dev)) = 3"
  "mCacheUsage (tc tree_dev) = [7]" "tree_psm (tc tree_dev) = psm_clear 3 False"
  by (simp_all add: tree_dev_def node_def) (simp add: ex_dev_def)

lemma tree_dev_children: "child (tc tree_dev) 0 0 = Suc 0" "child (tc tree_dev) 0 (Suc 0) = 2"
  by (simp_all add: child_def tree_dev_simps root_node_def)

lemma tree_dev_inodes: "inodes_in (tc tree_dev) (Suc 0) = map numbered [1, 2, 5, 6, 9]"
  using leaf_of_ok(2) [of "[1, 2]"] leaf_of_ok(2) [of "[5, 6, 9]"]
  by (simp add: inodes_in_def tree_dev_simps tree_dev_children root_node_def leaf_node_def)

lemma tree_dev_plain: "plain_tree tree_env (tc tree_dev) 1"
  using leaf_of_ok [of "[1, 2]"] leaf_of_ok [of "[5, 6, 9]"]
  by (auto simp: plain_tree_def tree_dev_simps tree_dev_children branch_ok_def root_node_def leaf_node_def in_range_def
      le_Suc_eq)

lemma tree_dev_cached: "cached_tree tree_env (tc tree_dev) 1"
proof -
  have "isIndexUsed tree_env (tc tree_dev) 0" by (simp add: isIndexUsed_def getBit_def tree_dev_simps)
  then show ?thesis
    using tree_dev_plain search_tree_shape
    by (auto simp: cached_tree_def plain_tree_def tree_dev_simps check_passes_def)
qed

text \<open>
  C7: the search in a cached tree answers the inode with the number, \<^verbatim>\<open>notFound\<close> if there is none,
  and changes nothing but the counter of cache hits.
\<close>

theorem btree_find_correct:
  assumes "cached_tree E (tc s) d" and "plain_tree E (tc s) d"
  shows "run_state (getInode E no) s =
    ((case lookup_inode (inodes_in (tc s) d) no of None \<Rightarrow> Inl R_notFound | Some x \<Rightarrow> Inr x),
     s\<lparr>tc := hits (d + 1) (tc s)\<rparr>)"
  using run_tree_find [OF assms(1)] target_lookup [of d E "tc s" no] assms(2) by (simp add: getInode_def plain_tree_def)

theorem btree_find_correct_witness:
  "fst (run_state (getInode tree_env 6) tree_dev) = Inr (numbered 6) \<and>
   fst (run_state (getInode tree_env 7) tree_dev) = Inl R_notFound"
  using btree_find_correct [OF tree_dev_cached tree_dev_plain, of 6] btree_find_correct [OF tree_dev_cached tree_dev_plain, of 7]
  by (simp add: tree_dev_inodes lookup_inode_def)

text \<open>
  C8: the insertion of a new inode into a cached tree of any height succeeds when the cache has a free
  slot for every level of the tree and two more, also when leaf, branches and root have to be split:
  afterwards the cache holds a search tree, at most one level higher, and its inodes are those from
  before with the new one at its place in the order of the numbers. The numbers are below \<open>2 ^ 16\<close>, and the
  search of the code for the number in the leaf finds nothing.
\<close>

theorem btree_insert_correct:
  assumes "tree_config E" and "tree_in E (tc s) d t" and "check_passes E (tc s)" and "d + 2 \<le> freeSlots E (tc s)"
    and "small_numbers t" and "i_no x < 2 ^ 16"
    and "i_no x \<notin> set (take (leafOrder E) (n_key (raw (node (tc s) (target_leaf (tc s) d (i_no x))))))"
    and "run_state (insertInode E x) s = (r, u)"
  shows "r = R_ok \<and> (\<exists>t' d'. tree_in E (tc u) d' t' \<and> d' \<le> Suc d \<and> inorder t' = insort_key i_no x (inorder t))"
  by (rule run_tree_insert [OF assms])

text \<open>The tree with the inodes 1, 2, 5, 6 and 9 in a cache with three more slots.\<close>

definition wide_env :: "ram_flash env" where
  "wide_env = tree_env\<lparr>treeNodeCacheSize := 6\<rparr>"

definition wide_dev :: "ram_flash dev" where
  "wide_dev = ex_dev\<lparr>tc := (tc ex_dev)\<lparr>mCache := [root_node, leaf_node 0 [1, 2], leaf_node 0 [5, 6, 9]] @ replicate 3 (zero_node tree_env),
     mCacheUsage := [7], tree_psm := psm_clear 6 False\<rparr>\<rparr>"

definition wide_tree :: atree where
  "wide_tree = ABranch 0 [5] [ALeaf 1 (map numbered [1, 2]), ALeaf 2 (map numbered [5, 6, 9])]"

lemma wide_env_simps [simp]:
  "leafOrder wide_env = 3" "branchOrder wide_env = 36" "keySlots wide_env = 35" "treeNodeCacheSize wide_env = 6"
  "verifyTC wide_env = False"
  by (simp_all add: wide_env_def tree_env_def leafOrder_def branchOrder_def keySlots_def) (simp_all add: ex_env_def)

lemma wide_dev_simps:
  "mCacheRoot (tc wide_dev) = 0" "node (tc wide_dev) 0 = root_node" "node (tc wide_dev) (Suc 0) = leaf_node 0 [Suc 0, 2]"
  "node (tc wide_dev) 2 = leaf_node 0 [5, 6, 9]" "length (mCache (tc wide_dev)) = 6" "mCacheUsage (tc wide_dev) = [7]"
  by (simp_all add: wide_dev_def node_def) (simp add: ex_dev_def)

lemma wide_tree_in: "tree_in wide_env (tc wide_dev) 1 wide_tree"
proof -
  have slot: "slot wide_env (tc wide_dev) 0" "slot wide_env (tc wide_dev) (Suc 0)" "slot wide_env (tc wide_dev) 2"
    by (simp_all add: slot_def isIndexUsed_def getBit_def wide_dev_simps)
  have "leaf_ok wide_env (leaf_of ks)" if "length ks \<le> 3" "sorted_wrt (<) ks" for ks
    using leaf_of_ok(1) [OF that] by (simp add: leaf_ok_def)
  then have leaves: "leaf_ok wide_env (leaf_of [Suc 0, 2])" "leaf_ok wide_env (leaf_of [5, 6, 9])" by simp_all
  have "branch_holds wide_env (tc wide_dev) 0 [5] [Suc 0, 2]"
    by (simp add: branch_holds_def branch_arrays_def wide_dev_simps root_node_def leaf_node_def leaf_of_def)
  then have "holds wide_env (tc wide_dev) 0 wide_tree"
    using slot leaves leaf_of_ok(2) [of "[Suc 0, 2]"] leaf_of_ok(2) [of "[5, 6, 9]"]
    by (simp add: wide_tree_def wide_dev_simps) (simp add: root_node_def leaf_node_def)
  then show ?thesis
    by (simp add: tree_in_def closed_tree_def wide_tree_def distinct_nodes_def wide_dev_simps slots_ok_def
        BitList_byteUsage_def numbers_def comp_def) (simp add: root_node_def leaf_node_def leaf_of_def)
qed

lemma wide_dev_free: "freeSlots wide_env (tc wide_dev) = 3"
  by (simp add: freeSlots_def wide_dev_simps) (simp add: countSetBits_def getBit_def upt_rec)

theorem btree_insert_correct_witness:
  "\<exists>t d. tree_in wide_env (tc (snd (run_state (insertInode wide_env (numbered 7)) wide_dev))) d t \<and>
     inorder t = map numbered [1, 2, 5, 6, 7, 9]"
proof -
  obtain r u where run: "run_state (insertInode wide_env (numbered 7)) wide_dev = (r, u)" by (metis surj_pair)
  have "target_leaf (tc wide_dev) 1 7 = 2"
    by (simp add: target_leaf_def wide_dev_simps child_def root_node_def branch_index_def scan_while_def)
  then have new: "i_no (numbered 7) \<notin> set (take (leafOrder wide_env) (n_key (raw (node (tc wide_dev) (target_leaf (tc wide_dev) 1 (i_no (numbered 7)))))))"
    by (simp add: wide_dev_simps leaf_node_def leaf_of_def)
  have "inorder wide_tree = map numbered [1, 2, 5, 6, 9]" by (simp add: wide_tree_def)
  moreover have "small_numbers wide_tree" by (simp add: small_numbers_def numbers_def wide_tree_def)
  ultimately obtain t' d' where "tree_in wide_env (tc u) d' t'" "inorder t' = insort_key i_no (numbered 7) (map numbered [1, 2, 5, 6, 9])"
    using btree_insert_correct [OF _ wide_tree_in _ _ _ _ new run] by (auto simp: tree_config_def check_passes_def wide_dev_free)
  then show ?thesis unfolding run by auto
qed

lemma tree_dev_target: "target_leaf (tc tree_dev) (Suc 0) 3 = Suc 0" "target_leaf (tc tree_dev) (Suc 0) 6 = 2"
  by (simp_all add: target_leaf_def tree_dev_simps tree_dev_children root_node_def branch_index_def scan_while_def)

text \<open>
  C9: the update of an inode that is in the tree replaces exactly this inode in the sorted list and keeps the
  search tree; apart from the tree in the cache and the log nothing of the device changes. The check of the
  cache before each access (the trace mask \<^verbatim>\<open>verifyTC\<close>) is switched off.
\<close>

theorem btree_update_correct:
  assumes "cached_tree E (tc s) d" and "plain_tree E (tc s) d" and "\<not> verifyTC E"
    and "i_no x \<in> i_no ` set (inodes_in (tc s) d)" and "run_state (updateExistingInode E x) s = (r, t)"
  shows "r = R_ok \<and> plain_tree E (tc t) d \<and> inodes_in (tc t) d = replace_inode x (inodes_in (tc s) d) \<and>
    (\<exists>m j. t = s\<lparr>mram := m, jr := j, tc := tc t\<rparr>)"
proof -
  obtain m j T where "run_state (updateExistingInode E x) s = (R_ok, s\<lparr>mram := m, jr := j, tc := T\<rparr>)"
    "plain_tree E T d" "inodes_in T d = replace_inode x (inodes_in (tc s) d)"
    using run_updateExistingInode [OF assms(1-4)] by blast
  then show ?thesis using assms(5) by (intro conjI exI [of _ m] exI [of _ j]) auto
qed

theorem btree_update_correct_witness:
  "inodes_in (tc (snd (run_state (updateExistingInode tree_env ((numbered 6)\<lparr>i_size := 40\<rparr>)) tree_dev))) 1 =
     map numbered [1, 2, 5] @ [(numbered 6)\<lparr>i_size := 40\<rparr>, numbered 9]"
proof -
  obtain r t where run: "run_state (updateExistingInode tree_env ((numbered 6)\<lparr>i_size := 40\<rparr>)) tree_dev = (r, t)" by (metis surj_pair)
  have "inodes_in (tc t) 1 = replace_inode ((numbered 6)\<lparr>i_size := 40\<rparr>) (inodes_in (tc tree_dev) 1)"
    using btree_update_correct [OF tree_dev_cached tree_dev_plain _ _ run] by (simp add: tree_dev_inodes)
  then show ?thesis unfolding run by (simp add: tree_dev_inodes)
qed

text \<open>
  C17: the deletion of an inode from a leaf that stays full enough keeps the search tree and
  removes exactly that inode. The check of the cache before each access (\<^verbatim>\<open>verifyTC\<close>) is switched off.
\<close>

theorem btree_delete_correct:
  assumes "cached_tree E (tc s) d" and "plain_tree E (tc s) d" and "\<not> verifyTC E"
    and "pageListHWM (tree_psm (tc s)) = 0" and "treeNodeCacheSize E < 2 ^ 16"
    and "no_underflow E (tc s) (target_leaf (tc s) d no)" and "no \<in> i_no ` set (inodes_in (tc s) d)"
    and "run_state (deleteInode E no) s = (r, t)"
  shows "r = R_ok \<and> plain_tree E (tc t) d \<and>
    inodes_in (tc t) d = filter (\<lambda>x. i_no x \<noteq> no) (inodes_in (tc s) d)"
  by (rule run_deleteInode [OF assms])

theorem btree_delete_correct_witness:
  "inodes_in (tc (snd (run_state (deleteInode tree_env 6) tree_dev))) 1 = map numbered [1, 2, 5, 9]"
proof -
  obtain r t where run: "run_state (deleteInode tree_env 6) tree_dev = (r, t)" by (metis surj_pair)
  have "no_underflow tree_env (tc tree_dev) 2"
    by (simp add: no_underflow_def tree_dev_simps leaf_node_def leaf_of_def)
  then have "inodes_in (tc t) 1 = filter (\<lambda>x. i_no x \<noteq> 6) (inodes_in (tc tree_dev) 1)"
    using btree_delete_correct [OF tree_dev_cached tree_dev_plain _ _ _ _ _ run]
    by (simp add: tree_dev_target tree_dev_inodes tree_dev_simps psm_clear_def)
  then show ?thesis unfolding run by (simp add: tree_dev_inodes)
qed

text \<open>
  C10: the deletion of an inode from a cached tree of any height succeeds, also when nodes get too small and
  are filled up from a neighbour or merged with it, up to the root: the state from which the commit starts
  (which the code makes when pages of removed nodes are to be invalidated, and whose result it
  ignores) holds a search tree that is not higher, and its inodes are those from before without the
  deleted one. The tree has another inode, the numbers are below \<open>2 ^ 16\<close>, the list of replaced pages has
  room for a node of each level, and the check of the cache before each access (\<open>verifyTC\<close>) is
  switched off.
\<close>

theorem btree_erase_correct:
  assumes "tree_config E" and "tree_in E (tc s) d t" and "check_passes E (tc s)" and "\<not> verifyTC E" and "\<not> readOnly s"
    and "pageListHWM (tree_psm (tc s)) + d < treeNodeCacheSize E" and "small_numbers t"
    and "no \<in> i_no ` set (inorder t)" and "2 \<le> length (inorder t)"
    and "run_state (deleteInode E no) s = (r, u)"
  shows "r = R_ok \<and> (\<exists>m j T t' d'. tree_in E T d' t' \<and> d' \<le> d \<and> inorder t' = filter (\<lambda>x. i_no x \<noteq> no) (inorder t) \<and>
    u = snd (run_state (do { _ \<leftarrow> commitIfNodesWereRemoved E; add_event E (TreeRemove no) }) (s\<lparr>mram := m, jr := j, tc := T\<rparr>)))"
  by (rule run_tree_erase [OF assms])

theorem btree_erase_correct_witness:
  "fst (run_state (deleteInode wide_env 1) wide_dev) = R_ok \<and>
   (\<exists>T t d. tree_in wide_env T d t \<and> inorder t = map numbered [2, 5, 6, 9])"
proof -
  obtain r u where run: "run_state (deleteInode wide_env 1) wide_dev = (r, u)" by (metis surj_pair)
  have order: "inorder wide_tree = map numbered [1, 2, 5, 6, 9]" by (simp add: wide_tree_def)
  have small: "small_numbers wide_tree" by (simp add: small_numbers_def numbers_def wide_tree_def)
  have dev: "tree_psm (tc wide_dev) = psm_clear 6 False" "\<not> readOnly wide_dev"
    by (simp_all add: wide_dev_def) (simp add: ex_dev_def)
  have "r = R_ok \<and> (\<exists>m j T t' d'. tree_in wide_env T d' t' \<and> d' \<le> 1 \<and> inorder t' = filter (\<lambda>x. i_no x \<noteq> 1) (inorder wide_tree) \<and>
    u = snd (run_state (do { _ \<leftarrow> commitIfNodesWereRemoved wide_env; add_event wide_env (TreeRemove 1) }) (wide_dev\<lparr>mram := m, jr := j, tc := T\<rparr>)))"
    using small dev order
    by (intro btree_erase_correct [OF _ wide_tree_in _ _ _ _ _ _ _ run])
      (simp_all add: tree_config_def check_passes_def psm_clear_def)
  then show ?thesis unfolding run order by auto
qed

lemma root_leaf_simps:
  "mCacheRoot (tc (root_leaf_dev ks)) = 0" "node (tc (root_leaf_dev ks)) 0 = leaf_node 0 ks"
  "length (mCache (tc (root_leaf_dev ks))) = 3" "mCacheUsage (tc (root_leaf_dev ks)) = [1]"
  by (simp_all add: root_leaf_dev_def node_def) (simp add: ex_dev_def)

lemma root_leaf_full:
  assumes "length ks = 3" and "sorted_wrt (<) ks"
  shows "full_root tree_env (tc (root_leaf_dev ks))" "inodes_in (tc (root_leaf_dev ks)) 0 = map numbered ks"
proof -
  have "leaf_ok tree_env (leaf_of ks)" using leaf_of_ok(1) [of ks] assms by simp
  moreover have "isIndexUsed tree_env (tc (root_leaf_dev ks)) 0"
    by (simp add: isIndexUsed_def getBit_def root_leaf_simps)
  moreover have "2 \<le> freeSlots tree_env (tc (root_leaf_dev ks))"
    by (simp add: freeSlots_def root_leaf_simps) (simp add: countSetBits_def getBit_def upt_rec)
  ultimately show "full_root tree_env (tc (root_leaf_dev ks))"
    using assms(1)
    by (simp add: full_root_def cached_tree_def check_passes_def slots_ok_def root_leaf_simps leaf_node_def
        BitList_byteUsage_def) (simp add: leaf_of_def)
  show "inodes_in (tc (root_leaf_dev ks)) 0 = map numbered ks"
    using leaf_of_ok(2) [of ks] assms by (simp add: inodes_in_def root_leaf_simps leaf_node_def)
qed

text \<open>
  C24: when the number that separates the leaves is \<open>2 ^ 16\<close> or larger, the new root gets only its
  low 16 bits. Every inode of the left leaf that is not below these is still in the tree, and the
  search answers \<^verbatim>\<open>notFound\<close> for it. The check of the cache before each access (\<^verbatim>\<open>verifyTC\<close>) is
  switched off, and the cache has at least three slots.
\<close>

theorem btree_split_loses_inodes:
  assumes "full_root E (tc s)" and "i_no x \<notin> i_no ` set (inodes_in (tc s) 0)"
    and "run_state (insertInode E x) s = (r, t)" and "\<not> verifyTC E" and "3 \<le> treeNodeCacheSize E"
    and "M = insort_key i_no x (inodes_in (tc s) 0)"
    and "y \<in> set (take (cut (leafOrder E)) M)" and "i_no (M ! cut (leafOrder E)) mod 2 ^ 16 \<le> i_no y"
  shows "r = R_ok \<and> y \<in> set (inodes_in (tc t) 1) \<and> fst (run_state (getInode E (i_no y)) t) = Inl R_notFound"
proof -
  let ?c = "cut (leafOrder E)"
  have tree: "search_tree 0 E (tc s) (mCacheRoot (tc s))" and size: "2 \<le> branchOrder E"
    using assms(1) by (simp_all add: full_root_def cached_tree_def)
  obtain l a i b where T: "r = R_ok" "two_leaves E l a i b (i_no (M ! ?c) mod 2 ^ 16) (tc t)"
      "leaf_inodes a = take ?c M" "leaf_inodes b = drop ?c M" "leaf_ok E a" "leaf_ok E b"
    using run_insert_full_root [OF assms(1,2,3)] assms(6) by blast
  have strict: "strict M"
    using sorted_wrt_insort tree_inodes_strict [OF tree] assms(2,6) by (simp add: inodes_in_def)
  have "?c < length M"
    using assms(1,6) leaf_okD(7) [of E "raw (node (tc s) (mCacheRoot (tc s)))"] tree cut_le [of "leafOrder E"]
    by (simp add: full_root_def inodes_in_def)
  note split = strict_split [OF strict this]
  note shape = two_leaves_tree(1-3) [OF T(2) size T(5,6)]
  have "target_leaf (tc t) 1 (i_no y) = i" using shape(3) [of "i_no y"] assms(8) by simp
  moreover have "raw (node (tc t) i) = b" using T(2) by (simp add: two_leaves_def)
  moreover have "i_no y \<notin> i_no ` set (leaf_inodes b)" using split assms(7) T(4) by fastforce
  then have "findInLeaf b (i_no y) = None" using findInLeaf_lookup [OF T(6), of "i_no y"] lookup_inode_None by metis
  moreover have "cached_tree E (tc t) 1"
    using shape(1) T(2) assms(4,5) by (simp add: cached_tree_def two_leaves_def check_passes_def)
  ultimately have "fst (run_state (getInode E (i_no y)) t) = Inl R_notFound"
    using run_tree_find [of E t 1 "i_no y"] by (simp add: getInode_def)
  moreover have "y \<in> set (inodes_in (tc t) 1)"
    using shape(2) T(3) assms(7) by simp
  ultimately show ?thesis using T(1) by simp
qed

theorem btree_split_loses_inodes_witness:
  "fst (run_state (getInode tree_env 5) (snd (run_state (insertInode tree_env (numbered 70000)) (root_leaf_dev [5, 4464, 65537]))))
     = Inl R_notFound"
proof -
  obtain r t where run: "run_state (insertInode tree_env (numbered 70000)) (root_leaf_dev [5, 4464, 65537]) = (r, t)"
    by (metis surj_pair)
  have "full_root tree_env (tc (root_leaf_dev [5, 4464, 65537]))" by (rule root_leaf_full) simp_all
  moreover have "inodes_in (tc (root_leaf_dev [5, 4464, 65537])) 0 = map numbered [5, 4464, 65537]"
    by (rule root_leaf_full) simp_all
  ultimately have "fst (run_state (getInode tree_env (i_no (numbered 5))) t) = Inl R_notFound"
    by (intro conjunct2 [OF conjunct2 [OF btree_split_loses_inodes [OF _ _ run _ _ refl]]]) simp_all
  then show ?thesis unfolding run by simp
qed

text \<open>
  The replay of an update fails when the inode is not in the tree, because it was deleted
  later on: \<^verbatim>\<open>updateExistingInode\<close> answers \<^verbatim>\<open>Result::bug\<close>, and only \<^verbatim>\<open>notFound\<close> is let pass.
\<close>

theorem replay_update_deleted:
  assumes "cached_tree E (tc s) d" and "plain_tree E (tc s) d" and "\<not> verifyTC E"
    and "i_no x \<notin> i_no ` set (inodes_in (tc s) d)"
  shows "fst (run_state (btree_apply E (TreeUpdate x)) s) = R_bug"
proof -
  let ?r = "raw (node (tc s) (target_leaf (tc s) d (i_no x)))"
  have "lookup_inode (inodes_in (tc s) d) (i_no x) = None" using assms(4) lookup_inode_None by blast
  then have "findInLeaf ?r (i_no x) = None"
    using target_lookup [of d E "tc s" "i_no x"] assms(2) by (simp add: plain_tree_def)
  then have "leaf_position (i_no x) ?r = n_keys ?r" by (simp add: findInLeaf_def Let_def split: if_splits)
  then show ?thesis
    using assms(3) run_findLeaf [OF assms(1)] by (simp add: btree_apply_def updateExistingInode_def node_at_def)
qed

theorem replay_update_deleted_witness:
  "fst (run_state (btree_apply tree_env (TreeUpdate (numbered 7))) tree_dev) = R_bug"
  by (rule replay_update_deleted [OF tree_dev_cached tree_dev_plain]) (simp_all add: tree_dev_inodes)

text \<open>
  When the page of the root cannot be read, its slot stays in the cache as it was
  created. The next access takes the slot for the root and answers \<^verbatim>\<open>ok\<close> with a branch that has no
  keys and no children.
\<close>

theorem failed_root_read_cached:
  assumes "slots_ok E (tc s)" and "0 < freeSlots E (tc s)" and "\<not> isIndexUsed E (tc s) (mCacheRoot (tc s))"
    and "getType E (sb s) (extractLogicalArea (getRootnodeAddr (sb s))) = T_index" and "\<not> verifyAS E"
    and "fst (fst (drv_readPage E (getPageNumber E (sb s) (getRootnodeAddr (sb s))) (sizeof_TreeNode E) (flash s))) = R_fail"
    and "run_state (getRootNodeFromCache E) s = (y, t)"
  shows "y = Inl R_fail \<and> (\<exists>u. run_state (getRootNodeFromCache E) t = (Inr (mCacheRoot (tc t)), u)) \<and>
    raw (node (tc t) (mCacheRoot (tc t))) = zero_raw E"
proof -
  let ?T1 = "(tc s)\<lparr>mCacheMisses := (mCacheMisses (tc s) + 1) mod 2 ^ 16\<rparr>"
  have ok: "slots_ok E ?T1" "0 < freeSlots E ?T1" using assms(1,2) by (simp_all add: slots_ok_def freeSlots_def)
  then obtain i where i: "findFirstFreeIndex E ?T1 = Some i" "i < treeNodeCacheSize E" "\<not> isIndexUsed E ?T1 i"
    using free_slot by blast
  define T where "T = (upd_node i (\<lambda>m. m\<lparr>parent := Some i\<rparr>) (with_new E i ?T1))\<lparr>mCacheRoot := i\<rparr>"
  have idx: "i < length (mCache (tc s))" using i(2) assms(1) by (simp add: slots_ok_def)
  have T': "mCacheRoot T = i" "raw (node T i) = zero_raw E" "isIndexUsed E T i"
    using idx i(2) ok(1) getBit_setBit [of "mCacheUsage (tc s)" "treeNodeCacheSize E" i i]
    by (auto simp: T_def upd_node_def with_new_def node_def setIndexUsed_def zero_node_def isIndexUsed_def slots_ok_def)
  obtain bs f where read: "drv_readPage E (getPageNumber E (sb s) (getRootnodeAddr (sb s))) (sizeof_TreeNode E) (flash s) = ((R_fail, bs), f)"
    using assms(6) by (metis prod.collapse)
  have node_read: "run_state (readTreeNode E (getRootnodeAddr (sb s))) (s\<lparr>tc := T\<rparr>) = ((R_fail, None), s\<lparr>tc := T, flash := f\<rparr>)"
    using assms(4,5) read by (simp add: readTreeNode_def readPage_def)
  have "setRoot i (upd_node i (\<lambda>m. m\<lparr>parent := Some i\<rparr>) (with_new E i ?T1)) = (R_ok, T)"
    using idx by (simp add: setRoot_def T_def upd_node_def with_new_def node_def setIndexUsed_def)
  then have "run_state (getRootNodeFromCache E) s = (Inl R_fail, s\<lparr>tc := T, flash := f\<rparr>)"
    using assms(3) i(1) node_read
    by (simp add: getRootNodeFromCache_def try_add_def tryAddNewCacheNode_def with_new_def [symmetric] set_node_def fill_node_def)
  then show ?thesis using run_root [of E t] T' assms(7) by auto
qed

definition bad_read_env :: "ram_flash env" where
  "bad_read_env = tree_env\<lparr>drv_readPage := (\<lambda>p n f. ((R_fail, []), f))\<rparr>"

definition empty_cache_dev :: "ram_flash dev" where
  "empty_cache_dev = ex_dev\<lparr>tc := (tc ex_dev)\<lparr>mCacheUsage := [0]\<rparr>\<rparr>"

theorem failed_root_read_cached_witness:
  "fst (run_state (getRootNodeFromCache bad_read_env) empty_cache_dev) = Inl R_fail"
proof -
  obtain y t where run: "run_state (getRootNodeFromCache bad_read_env) empty_cache_dev = (y, t)" by (metis surj_pair)
  have size: "treeNodeCacheSize bad_read_env = 3" by (simp add: bad_read_env_def)
  have cache: "mCacheUsage (tc empty_cache_dev) = [0]" "length (mCache (tc empty_cache_dev)) = 3" "mCacheRoot (tc empty_cache_dev) = 0"
      "sb empty_cache_dev = ex_sb"
    by (simp_all add: empty_cache_dev_def) (simp_all add: ex_dev_def)
  have "y = Inl R_fail"
  proof (rule conjunct1 [OF failed_root_read_cached [OF _ _ _ _ _ _ run]])
    show "slots_ok bad_read_env (tc empty_cache_dev)" by (simp add: slots_ok_def size cache BitList_byteUsage_def)
    show "0 < freeSlots bad_read_env (tc empty_cache_dev)"
      by (simp add: freeSlots_def size cache countSetBits_def getBit_def upt_rec)
    show "\<not> isIndexUsed bad_read_env (tc empty_cache_dev) (mCacheRoot (tc empty_cache_dev))"
      by (simp add: isIndexUsed_def getBit_def size cache)
    have "extractLogicalArea (0x00030000 :: Addr) = 3" by code_simp
    then show "getType bad_read_env (sb empty_cache_dev) (extractLogicalArea (getRootnodeAddr (sb empty_cache_dev))) = T_index"
      by (simp add: cache getType_def getRootnodeAddr_def ex_sb_def ex_area_def bad_read_env_def tree_env_def
          areasNo_def) (simp add: ex_env_def)
    show "\<not> verifyAS bad_read_env" by (simp add: bad_read_env_def tree_env_def)
  qed (simp add: bad_read_env_def)
  then show ?thesis unfolding run by simp
qed

text \<open>
  C31: a redistribution moves one inode between neighbouring leaves. The list that both hold stays
  the same, both stay sorted, and the key that the parent gets is the first number of the right leaf.
\<close>

theorem redistribute_leaf_correct:
  assumes "leaf_ok E n" and "leaf_ok E nb" and "n_keys n < leafOrder E" and "1 < n_keys nb"
    and "L = (if fromLeft then leaf_inodes nb @ leaf_inodes n else leaf_inodes n @ leaf_inodes nb)"
    and "sorted_wrt (<) (map i_no L)"
    and "(if fromLeft then leaf_from_left n nb else leaf_from_right n nb) = (n', nb', key)"
  shows "(if fromLeft then leaf_inodes nb' @ leaf_inodes n' else leaf_inodes n' @ leaf_inodes nb') = L \<and>
     leaf_ok E n' \<and> leaf_ok E nb' \<and> n_keys nb' = n_keys nb - 1 \<and> n_keys n' = n_keys n + 1 \<and>
     key = first_no (if fromLeft then n' else nb')"
  using leaf_from_left_moves [OF assms(1,2,3), of n' nb' key] leaf_from_right_moves [OF assms(1,2,3,4), of n' nb' key]
    assms(4-7) by (cases fromLeft) simp_all

theorem redistribute_leaf_correct_witness:
  "leaf_inodes (fst (leaf_from_right (leaf_of [1]) (leaf_of [5, 6, 9]))) @
   leaf_inodes (fst (snd (leaf_from_right (leaf_of [1]) (leaf_of [5, 6, 9])))) = map numbered [1, 5, 6, 9]"
proof -
  obtain n' nb' key where run: "leaf_from_right (leaf_of [1]) (leaf_of [5, 6, 9]) = (n', nb', key)" by (metis surj_pair)
  have "leaf_ok tree_env (leaf_of [1])" "leaf_ok tree_env (leaf_of [5, 6, 9])"
    "leaf_inodes (leaf_of [1]) = map numbered [1]" "leaf_inodes (leaf_of [5, 6, 9]) = map numbered [5, 6, 9]"
    by (rule leaf_of_ok; simp)+
  moreover have "n_keys (leaf_of [1]) = 1" "n_keys (leaf_of [5, 6, 9]) = 3" by (simp_all add: leaf_of_def)
  ultimately have "leaf_inodes n' @ leaf_inodes nb' = map numbered [1, 5, 6, 9]"
    using redistribute_leaf_correct [of tree_env "leaf_of [1]" "leaf_of [5, 6, 9]" "map numbered [1, 5, 6, 9]" False n' nb' key] run
    by simp
  then show ?thesis unfolding run by simp
qed

end
