(* ===== verification/PacProperties.thy ===== *)
theory PacProperties
  imports PageCache ExampleDevice
begin

text \<open>
  Properties of the page address cache: the path of a page in a chain names the page, a lookup
  answers what was set for the page and leaves the other pages alone, and the commit of an emptied
  chain that was never written.
\<close>

subsection \<open>Paths\<close>

text \<open>The number with the given digits.\<close>

definition path_value :: "'a config_scheme \<Rightarrow> nat list \<Rightarrow> nat" where
  "path_value E path = foldl (\<lambda>v x. v * addrsPerPage E + x) 0 path"

lemma div_power_step:
  fixes offs :: nat
  shows "offs div n ^ Suc m * n + offs div n ^ m mod n = offs div n ^ m"
proof -
  have "offs div n ^ Suc m = offs div n ^ m div n" unfolding power_Suc2 by (rule div_mult2_eq)
  then show ?thesis by simp
qed

lemma path_prefix_value:
  assumes "offs < addrsPerPage E ^ Suc d" and "k \<le> Suc d"
  shows "foldl (\<lambda>v x. v * addrsPerPage E + x) 0
     (map (\<lambda>k. offs div addrsPerPage E ^ (d - k) mod addrsPerPage E) [0 ..< k]) = offs div addrsPerPage E ^ (Suc d - k)"
  using assms(2)
proof (induction k)
  case 0
  then show ?case using assms(1) by simp
next
  case (Suc k)
  then have "Suc d - k = Suc (d - k)" by simp
  then show ?case using Suc div_power_step [of offs "addrsPerPage E" "d - k"] by simp
qed

lemma path_value_path_of:
  "offs < addrsPerPage E ^ Suc d \<Longrightarrow> path_value E (path_of E d offs) = offs"
  using path_prefix_value [of offs E d "Suc d"] by (simp add: path_value_def path_of_def del: upt_Suc)

lemma path_of_inj:
  "\<lbrakk>offs < addrsPerPage E ^ Suc d; offs' < addrsPerPage E ^ Suc d; path_of E d offs = path_of E d offs'\<rbrakk>
    \<Longrightarrow> offs = offs'"
  by (metis path_value_path_of)

lemma length_path_of [simp]: "length (path_of E d offs) = Suc d"
  by (simp add: path_of_def)

lemma path_of_last: "path_of E d offs ! d = offs mod addrsPerPage E"
  by (simp add: path_of_def del: upt_Suc)

lemma locate_bound: "locate E page = Some (c, offs) \<Longrightarrow> offs < addrsPerPage E ^ Suc (chain_depth c)"
  by (auto simp: locate_def Let_def power2_eq_square power3_eq_cube mult.assoc split: if_splits)

lemma locate_total:
  assumes "directAddrCount \<le> p" and "p < directAddrCount + addrsPerPage E + addrsPerPage E ^ 2 + addrsPerPage E ^ 3"
  shows "\<exists>c offs. locate E p = Some (c, offs)"
proof -
  have "p - directAddrCount - addrsPerPage E - addrsPerPage E ^ 2 < addrsPerPage E ^ 3 \<or>
      p - directAddrCount - addrsPerPage E < addrsPerPage E ^ 2 \<or> p - directAddrCount < addrsPerPage E"
    using assms by linarith
  then show ?thesis by (auto simp: locate_def Let_def)
qed

lemma locate_inj:
  "\<lbrakk>locate E p = Some x; locate E q = Some x; directAddrCount \<le> p; directAddrCount \<le> q\<rbrakk> \<Longrightarrow> p = q"
  by (auto simp: locate_def Let_def split: if_splits)

definition page_path :: "'a config_scheme \<Rightarrow> PageAbs \<Rightarrow> (chain \<times> nat list) option" where
  "page_path E page = map_option (\<lambda>(c, offs). (c, path_of E (chain_depth c) offs)) (locate E page)"

text \<open>
  C32: the path that \<open>loadPath\<close> follows names the page: every page behind the direct ones, up to the
  largest file, has a path whose indices lie inside an address page, and different pages have
  different paths.
\<close>

theorem page_path_unique:
  assumes "directAddrCount \<le> p" and "directAddrCount \<le> q"
    and "p < directAddrCount + addrsPerPage E + addrsPerPage E ^ 2 + addrsPerPage E ^ 3"
  shows "\<exists>c path. page_path E p = Some (c, path) \<and> length path = Suc (chain_depth c) \<and>
     (\<forall>x\<in>set path. x < addrsPerPage E) \<and> (page_path E q = Some (c, path) \<longrightarrow> p = q)"
proof -
  obtain c offs where l: "locate E p = Some (c, offs)"
    using locate_total [OF assms(1,3)] by blast
  have "addrsPerPage E > 0" using assms(1,3) by (cases "addrsPerPage E = 0") simp_all
  then have "\<forall>x\<in>set (path_of E (chain_depth c) offs). x < addrsPerPage E" by (auto simp: path_of_def)
  moreover have "p = q" if same: "page_path E q = Some (c, path_of E (chain_depth c) offs)"
  proof -
    obtain offs' where q: "locate E q = Some (c, offs')"
      and p: "path_of E (chain_depth c) offs' = path_of E (chain_depth c) offs"
      using same by (auto simp: page_path_def)
    have "offs' = offs" using p path_of_inj locate_bound [OF l] locate_bound [OF q] by metis
    then show ?thesis using locate_inj [OF l _ assms(1,2)] q by simp
  qed
  ultimately show ?thesis by (auto simp: page_path_def l)
qed

theorem page_path_unique_witness:
  "\<exists>path. page_path ex_env 20 = Some (Ch2, path) \<and> page_path ex_env 21 \<noteq> Some (Ch2, path)"
  using page_path_unique [of 20 21 ex_env]
  by (auto simp: page_path_def locate_def Let_def directAddrCount_def addrsPerPage_def ex_env_def)

subsection \<open>Lookups after an update\<close>

text \<open>All pages of the path of page \<open>offs\<close> of the chain are in the cache.\<close>

definition path_cached :: "'a config_scheme \<Rightarrow> page_cache \<Rightarrow> chain \<Rightarrow> nat \<Rightarrow> bool" where
  "path_cached E P c offs \<longleftrightarrow> al_active (al_elem c 0 P) \<and>
     (\<forall>i\<in>set [1 ..< chain_depth c + 1]. al_active (al_elem c i P) \<and>
        al_positionInParent (al_elem c i P) = path_of E (chain_depth c) offs ! (i - 1))"

definition page_cached :: "'a config_scheme \<Rightarrow> page_cache \<Rightarrow> PageAbs \<Rightarrow> bool" where
  "page_cached E P page \<longleftrightarrow> page < directAddrCount \<or>
     (case locate E page of None \<Rightarrow> False | Some (c, offs) \<Rightarrow> path_cached E P c offs)"

definition pac_shape :: "'a config_scheme \<Rightarrow> page_cache \<Rightarrow> bool" where
  "pac_shape E P \<longleftrightarrow> length (doubl P) = 2 \<and> length (tripl P) = 3 \<and>
     (\<forall>e\<in>set (singl P # doubl P @ tripl P). length (al_cache e) = addrsPerPage E)"

lemma load_level_cached:
  assumes "al_active (al_elem c i (pac s))" and "al_positionInParent (al_elem c i (pac s)) = path ! (i - 1)"
  shows "run_state (load_level E c path i) s = (R_ok, s)"
  using assms by (simp add: load_level_def Let_def run_state_if)

lemma load_levels_cached:
  assumes "\<forall>i\<in>set is. al_active (al_elem c i (pac s)) \<and> al_positionInParent (al_elem c i (pac s)) = path ! (i - 1)"
  shows "run_state (loopM is () (\<lambda>i _. do { r \<leftarrow> load_level E c path i; ret (if r \<noteq> R_ok then Inl r else Inr ()) })) s
     = (Inr (), s)"
  using assms by (induction "is") (simp_all add: load_level_cached)

lemma loadPath_cached:
  assumes "path_cached E (pac s) c offs"
  shows "run_state (loadPath E a offs c) s = (Inr (offs mod addrsPerPage E), s)"
  using assms load_levels_cached [of "[1 ..< chain_depth c + 1]" c s "path_of E (chain_depth c) offs" E]
  by (simp add: loadPath_def path_cached_def path_of_last Let_def run_state_if del: upt_Suc)

text \<open>Two cached paths of a chain share all pages.\<close>

lemma path_cached_inj:
  assumes "path_cached E P c offs" and "path_cached E P c offs'"
    and "offs < addrsPerPage E ^ Suc (chain_depth c)" and "offs' < addrsPerPage E ^ Suc (chain_depth c)"
    and "offs mod addrsPerPage E = offs' mod addrsPerPage E"
  shows "offs = offs'"
proof (rule path_of_inj [OF assms(3,4)])
  show "path_of E (chain_depth c) offs = path_of E (chain_depth c) offs'"
  proof (rule nth_equalityI)
    fix i assume "i < length (path_of E (chain_depth c) offs)"
    then consider "i = chain_depth c" | "i < chain_depth c" by force
    then show "path_of E (chain_depth c) offs ! i = path_of E (chain_depth c) offs' ! i"
    proof cases
      case 2
      then have "Suc i \<in> set [1 ..< chain_depth c + 1]" by (auto simp del: upt_Suc)
      then show ?thesis using assms(1,2) unfolding path_cached_def by (metis diff_Suc_1)
    qed (simp add: path_of_last assms(5))
  qed simp
qed

text \<open>The address the cache holds for a page.\<close>

definition held_addr :: "'a config_scheme \<Rightarrow> page_cache \<Rightarrow> Inode \<Rightarrow> PageAbs \<Rightarrow> Addr" where
  "held_addr E P x page =
     (if page < directAddrCount then i_direct x ! page
      else case locate E page of None \<Rightarrow> 0
        | Some (c, offs) \<Rightarrow> al_cache (al_elem c (chain_depth c) P) ! (offs mod addrsPerPage E))"

lemma getPage_cached:
  assumes "mInodePtr (pac s) = Some p" and "page_cached E (pac s) page"
  shows "run_state (getPage E page) s = (Inr (held_addr E (pac s) (inodeMem s p) page), s)"
  using assms
  by (auto simp: getPage_def page_cached_def held_addr_def getAddr_def loadPath_cached split: option.splits prod.splits)

lemma al_elem_upd:
  "\<lbrakk>pac_shape E P; i \<le> chain_depth c; j \<le> chain_depth d\<rbrakk>
    \<Longrightarrow> al_elem d j (upd_al c i f P) = (if d = c \<and> j = i then f (al_elem c i P) else al_elem d j P)"
  by (cases c; cases d) (auto simp: pac_shape_def nth_list_update)

lemma pac_shape_elem:
  "\<lbrakk>pac_shape E P; i \<le> chain_depth c\<rbrakk> \<Longrightarrow> length (al_cache (al_elem c i P)) = addrsPerPage E"
  by (cases c) (auto simp: pac_shape_def)

lemma setAddr_simps [simp]:
  "al_active (setAddr pos a e) = al_active e"
  "al_positionInParent (setAddr pos a e) = al_positionInParent e"
  "al_cache (setAddr pos a e) = (al_cache e)[pos := a]"
  by (auto simp: setAddr_def)

lemma path_cached_setAddr:
  assumes "pac_shape E P"
  shows "path_cached E (upd_al c (chain_depth c) (setAddr pos a) P) d offs = path_cached E P d offs"
proof -
  have "al_active (al_elem d i (upd_al c (chain_depth c) (setAddr pos a) P)) = al_active (al_elem d i P) \<and>
      al_positionInParent (al_elem d i (upd_al c (chain_depth c) (setAddr pos a) P)) = al_positionInParent (al_elem d i P)"
    if "i \<le> chain_depth d" for i
    using that by (simp add: al_elem_upd [OF assms])
  then show ?thesis by (auto simp: path_cached_def)
qed

lemma log_event_pac [simp]:
  "pac (log_event E e s) = pac s" "inodeMem (log_event E e s) = inodeMem s"
  by (simp_all add: log_event_proj)

lemma held_addr_direct:
  assumes "length (i_direct x) = directAddrCount" and "page < directAddrCount"
  shows "held_addr E P (x\<lparr>i_direct := (i_direct x)[page := a]\<rparr>) q = (if q = page then a else held_addr E P x q)"
  using assms by (auto simp: held_addr_def)

lemma held_addr_indirect:
  assumes "pac_shape E P" and "locate E page = Some (c, offs)" and "path_cached E P c offs"
    and "directAddrCount \<le> page" and "page_cached E P q"
  shows "held_addr E (upd_al c (chain_depth c) (setAddr (offs mod addrsPerPage E) a) P) x q
     = (if q = page then a else held_addr E P x q)"
proof (cases "q < directAddrCount")
  case True
  then show ?thesis using assms(4) by (auto simp: held_addr_def)
next
  case False
  then obtain d offs' where q: "locate E q = Some (d, offs')" "path_cached E P d offs'"
    using assms(5) by (auto simp: page_cached_def split: option.splits)
  have n: "addrsPerPage E > 0"
    using locate_bound [OF assms(2)] by (cases "addrsPerPage E = 0") simp_all
  show ?thesis
  proof (cases "d = c \<and> offs' mod addrsPerPage E = offs mod addrsPerPage E")
    case True
    then have "q = page"
      using path_cached_inj [OF q(2), of offs] assms(2,3,4) q locate_bound locate_inj False by (metis not_less)
    then show ?thesis using n False assms q by (simp add: held_addr_def al_elem_upd pac_shape_elem)
  next
    case diff: False
    then have "q \<noteq> page" using assms(2) q by auto
    then show ?thesis using diff False assms q by (auto simp: held_addr_def al_elem_upd nth_list_update)
  qed
qed

lemma al_elem_dirty [simp]: "al_elem c i (P\<lparr>isInodeDirty := b\<rparr>) = al_elem c i P"
  by (cases c) simp_all

lemma page_cached_dirty: "page_cached E (P\<lparr>isInodeDirty := b\<rparr>) q = page_cached E P q"
  by (simp add: page_cached_def path_cached_def split: option.splits)

lemma held_addr_dirty: "held_addr E (P\<lparr>isInodeDirty := b\<rparr>) x q = held_addr E P x q"
  by (simp add: held_addr_def split: option.splits)

lemma page_cached_setAddr:
  "pac_shape E P \<Longrightarrow> page_cached E (upd_al c (chain_depth c) (setAddr pos a) P) q = page_cached E P q"
  by (simp add: page_cached_def path_cached_setAddr split: option.splits)

text \<open>What setting the address of a page with a cached path does to the cache and to the inode.\<close>

lemma setPage_held:
  assumes "mInodePtr (pac s) = Some p" and "\<not> readOnly s" and "pac_shape E (pac s)"
    and "length (i_direct (inodeMem s p)) = directAddrCount" and "page_cached E (pac s) page"
    and "page < directAddrCount \<or> getMinSpaceLeft (pac_machine E) (pac_psm (pac s)) \<ge> 6"
  shows "\<exists>m j P x. run_state (setPage E page a) s = (R_ok, s\<lparr>mram := m, jr := j, pac := P, inodeMem := (inodeMem s)(p := x)\<rparr>) \<and>
     mInodePtr P = Some p \<and> pac_shape E P \<and> pac_psm P = pac_psm (pac s) \<and>
     i_size x = i_size (inodeMem s p) \<and> i_no x = i_no (inodeMem s p) \<and> length (i_direct x) = directAddrCount \<and>
     (\<forall>q. page_cached E (pac s) q \<longrightarrow> page_cached E P q \<and>
        held_addr E P x q = (if q = page then a else held_addr E (pac s) (inodeMem s p) q))"
proof -
  have same: ?thesis if "run_state (setPage E page a) s = (R_ok, s)" and "held_addr E (pac s) (inodeMem s p) page = a"
    using assms(1,3,4) that
    by (intro exI [of _ "mram s"] exI [of _ "jr s"] exI [of _ "pac s"] exI [of _ "inodeMem s p"]) auto
  obtain m j where log: "log_event E (PacSetAddress (i_no (inodeMem s p)) (page mod 2 ^ 16) a) s = s\<lparr>mram := m, jr := j\<rparr>"
    using log_event_form by metis
  show ?thesis
  proof (cases "page < directAddrCount")
    case True
    show ?thesis
    proof (cases "i_direct (inodeMem s p) ! page = a")
      case eq: True
      then show ?thesis using True assms(1,2) by (intro same) (simp_all add: setPage_def held_addr_def)
    next
      case False
      obtain m' j' where "log_event E (PacSetAddress (i_no (inodeMem s p)) page a) s = s\<lparr>mram := m', jr := j'\<rparr>"
        using log_event_form by metis
      then show ?thesis
        using False True assms(1-4)
        by (intro exI [of _ m'] exI [of _ j'] exI [of _ "(pac s)\<lparr>isInodeDirty := True\<rparr>"]
            exI [of _ "(inodeMem s p)\<lparr>i_direct := (i_direct (inodeMem s p))[page := a]\<rparr>"])
          (simp add: setPage_def page_cached_dirty held_addr_dirty held_addr_direct pac_shape_def)
    qed
  next
    case False
    then obtain c offs where l: "locate E page = Some (c, offs)" "path_cached E (pac s) c offs"
      using assms(5) by (auto simp: page_cached_def split: option.splits)
    have run: "run_state (setPage E page a) s = run_state (set_indirect E p page a) s"
      using False assms(1,2,6) by (simp add: setPage_def)
    show ?thesis
    proof (cases "held_addr E (pac s) (inodeMem s p) page = a")
      case True
      then show ?thesis
        using l False by (intro same) (simp_all add: run set_indirect_def loadPath_cached held_addr_def getAddr_def)
    next
      case upd: False
      define P where "P = (upd_al c (chain_depth c) (setAddr (offs mod addrsPerPage E) a) (pac s))\<lparr>isInodeDirty := True\<rparr>"
      have "run_state (setPage E page a) s = (R_ok, s\<lparr>mram := m, jr := j, pac := P, inodeMem := (inodeMem s)(p := inodeMem s p)\<rparr>)"
        using l False upd log by (simp add: run set_indirect_def loadPath_cached held_addr_def getAddr_def P_def)
      moreover have "mInodePtr P = Some p" "pac_psm P = pac_psm (pac s)"
        using assms(1) by (cases c; simp add: P_def)+
      moreover have "pac_shape E P" using assms(3) by (cases c) (auto simp: P_def pac_shape_def dest!: set_update_subset_insert [THEN subsetD])
      moreover have "page_cached E P q \<and> held_addr E P (inodeMem s p) q = (if q = page then a else held_addr E (pac s) (inodeMem s p) q)"
        if "page_cached E (pac s) q" for q
        using held_addr_indirect [OF assms(3) l _ that] False assms(3) that
        by (simp add: P_def page_cached_dirty page_cached_setAddr held_addr_dirty)
      ultimately show ?thesis using assms(4) by blast
    qed
  qed
qed

text \<open>
  C15: setting the address of a page whose address pages are cached succeeds, keeps them cached,
  and every later lookup answers the address that was set last; lookups of the other cached pages
  answer what they did before, whichever chains the two pages lie in.
\<close>

theorem getPage_after_setPage:
  assumes "mInodePtr (pac s) = Some p" and "\<not> readOnly s" and "pac_shape E (pac s)"
    and "length (i_direct (inodeMem s p)) = directAddrCount" and "page_cached E (pac s) page"
    and "page < directAddrCount \<or> getMinSpaceLeft (pac_machine E) (pac_psm (pac s)) \<ge> 6"
    and "page_cached E (pac s) q" and "run_state (setPage E page a) s = (r, t)"
  shows "r = R_ok \<and> page_cached E (pac t) q \<and>
     fst (run_state (getPage E q) t) = (if q = page then Inr a else fst (run_state (getPage E q) s))"
proof -
  obtain P x m j where "(r, t) = (R_ok, s\<lparr>mram := m, jr := j, pac := P, inodeMem := (inodeMem s)(p := x)\<rparr>)"
    "mInodePtr P = Some p" "page_cached E P q"
    "held_addr E P x q = (if q = page then a else held_addr E (pac s) (inodeMem s p) q)"
    using setPage_held [OF assms(1-6), of a] assms(7,8) by metis
  then show ?thesis using assms(1,7) by (simp add: getPage_cached)
qed

text \<open>The cache holds the direct pages and the paths of the pages 11, 20 and 40 of an inode.\<close>

definition ex_pac_dev :: "ram_flash dev" where
  "ex_pac_dev = ex_dev\<lparr>pac := (pac ex_dev)\<lparr>singl := ex_addr_list\<lparr>al_active := True\<rparr>,
     doubl := [ex_addr_list\<lparr>al_active := True\<rparr>, ex_addr_list\<lparr>al_active := True, al_positionInParent := 1\<rparr>],
     mInodePtr := Some 5, pac_psm := psm_clear 8 False\<rparr>\<rparr>"

definition ex_pac_env :: "ram_flash env" where
  "ex_pac_env = ex_env\<lparr>maxPagesPerWrite := 8\<rparr>"

theorem getPage_after_setPage_witness:
  "fst (run_state (getPage ex_pac_env 20) (snd (run_state (setPage ex_pac_env 20 0x30001) ex_pac_dev))) = Inr 0x30001"
proof -
  obtain r t where run: "run_state (setPage ex_pac_env 20 0x30001) ex_pac_dev = (r, t)" by (metis surj_pair)
  have n: "addrsPerPage ex_pac_env = 4" by (simp add: addrsPerPage_def ex_pac_env_def ex_env_def)
  have "locate ex_pac_env 20 = Some (Ch2, 5)" by (simp add: locate_def n directAddrCount_def)
  then have "page_cached ex_pac_env (pac ex_pac_dev) 20"
    by (simp add: page_cached_def path_cached_def path_of_def n ex_pac_dev_def)
  moreover have "pac_shape ex_pac_env (pac ex_pac_dev)"
    by (simp add: pac_shape_def n ex_pac_dev_def ex_dev_def ex_addr_list_def)
  ultimately show ?thesis using getPage_after_setPage [of ex_pac_dev 5 ex_pac_env 20 20, OF _ _ _ _ _ _ _ run]
    by (simp add: run) (simp add: ex_pac_dev_def ex_dev_def ex_inode_def getMinSpaceLeft_def psm_clear_def
      pac_machine_def ex_pac_env_def)
qed

subsection \<open>An emptied chain\<close>

lemma commit_emptied_fails:
  assumes "mInodePtr (pac s) = Some p" and "isInodeDirty (pac s)"
    and "al_dirty (singl (pac s))" and "\<not> validEntries E (singl (pac s))" and "i_indir (inodeMem s p) = 0"
  shows "run_state (pac_commit E) s = (R_bug, s)"
proof -
  have "run_state (commitPath E p Ch1) s = (R_bug, s)"
    using assms(3-5) by (simp add: commitPath_def setPageStatus_def extractLogicalArea_def split: prod.splits)
  then show ?thesis using assms(1,2) by (simp add: pac_commit_def commit_chains_def)
qed

text \<open>Setting a page of the first indirection whose address page is cached.\<close>

lemma setPage_singl:
  assumes "mInodePtr (pac s) = Some p" and "\<not> readOnly s" and "al_active (singl (pac s))"
    and "page < addrsPerPage E" and "getMinSpaceLeft (pac_machine E) (pac_psm (pac s)) \<ge> 6"
    and "al_cache (singl (pac s)) ! page \<noteq> a"
  shows "\<exists>t. run_state (setPage E (directAddrCount + page) a) s = (R_ok, t) \<and> inodeMem t = inodeMem s \<and>
     readOnly t = readOnly s \<and> pac t = (pac s)\<lparr>singl := setAddr page a (singl (pac s)), isInodeDirty := True\<rparr>"
proof -
  have "locate E (directAddrCount + page) = Some (Ch1, page)" using assms(4) by (simp add: locate_def)
  moreover have "path_cached E (pac s) Ch1 page" using assms(3) by (simp add: path_cached_def)
  ultimately show ?thesis using assms
    by (simp add: setPage_def set_indirect_def loadPath_cached getAddr_def)
qed

text \<open>
  When a page behind the direct ones is set and reset before the first commit, and its chain has
  no other page, the commit tries to make the page at the anchor dirty although there is none, and
  answers a bug.
\<close>

theorem commit_emptied_unwritten_fails:
  assumes "mInodePtr (pac s) = Some p" and "\<not> readOnly s" and "al_active (singl (pac s))"
    and "page < addrsPerPage E" and "getMinSpaceLeft (pac_machine E) (pac_psm (pac s)) \<ge> 6"
    and "al_cache (singl (pac s)) = replicate (addrsPerPage E) 0" and "i_indir (inodeMem s p) = 0" and "a \<noteq> 0"
  shows "fst (run_state (do { _ \<leftarrow> setPage E (directAddrCount + page) a;
     _ \<leftarrow> setPage E (directAddrCount + page) 0; pac_commit E }) s) = R_bug"
proof -
  obtain t where t: "run_state (setPage E (directAddrCount + page) a) s = (R_ok, t)" "inodeMem t = inodeMem s"
      "readOnly t = readOnly s" "pac t = (pac s)\<lparr>singl := setAddr page a (singl (pac s)), isInodeDirty := True\<rparr>"
    using setPage_singl [OF assms(1-5), of a] assms(4,6,8) by auto
  obtain u where u: "run_state (setPage E (directAddrCount + page) 0) t = (R_ok, u)" "inodeMem u = inodeMem t"
      "pac u = (pac t)\<lparr>singl := setAddr page 0 (singl (pac t)), isInodeDirty := True\<rparr>"
    using setPage_singl [of t p page E 0] assms by (auto simp: t)
  have "al_cache (singl (pac u)) = replicate (addrsPerPage E) 0"
    using assms(4,6) by (simp add: u t) (metis list_update_id nth_replicate)
  moreover have "al_dirty (singl (pac u))" using assms(4,6,8) by (simp add: u t setAddr_def)
  ultimately have "run_state (pac_commit E) u = (R_bug, u)"
    using assms(1,7) by (intro commit_emptied_fails) (simp_all add: u t validEntries_def getAddr_def)
  then show ?thesis by (simp add: t(1) u(1))
qed

theorem commit_emptied_unwritten_fails_witness:
  "fst (run_state (do { _ \<leftarrow> setPage ex_pac_env (directAddrCount + 2) 0x30001;
     _ \<leftarrow> setPage ex_pac_env (directAddrCount + 2) 0; pac_commit ex_pac_env }) ex_pac_dev) = R_bug"
  by (rule commit_emptied_unwritten_fails [where p = 5])
    (simp_all add: ex_pac_dev_def ex_dev_def ex_addr_list_def addrsPerPage_def ex_pac_env_def ex_env_def ex_inode_def
      getMinSpaceLeft_def psm_clear_def pac_machine_def)

subsection \<open>A stale address page\<close>

text \<open>
  C33: in the chain with three levels, a lookup that replaces the cached page of the second level keeps
  the cached page of the third level when its position is the wanted one. It then answers an address
  of another part of the file: here the part that is looked up has no pages at all.
\<close>

theorem third_level_stale:
  assumes "pac_shape E (pac s)" and "mInodePtr (pac s) = Some p"
    and "\<forall>i\<in>{0, 1, 2}. al_active (tripl (pac s) ! i) \<and> \<not> al_dirty (tripl (pac s) ! i)"
    and "locate E page = Some (Ch3, offs)" and "path_of E 2 offs = [i, j, k]" and "directAddrCount \<le> page"
    and "al_cache (tripl (pac s) ! 0) ! i = 0"
    and "al_positionInParent (tripl (pac s) ! 1) \<noteq> i" and "al_positionInParent (tripl (pac s) ! 2) = j"
  shows "fst (run_state (getPage E page) s) = Inr (al_cache (tripl (pac s) ! 2) ! k)"
proof -
  have n: "length (tripl (pac s)) = 3" using assms(1) by (simp add: pac_shape_def)
  have l: "[1 ..< chain_depth Ch3 + 1] = [1, 2]" by (simp add: upt_rec)
  have c: "run_state (commitElem E Ch3 1) s = (R_ok, s)"
    using assms(3) by (simp add: commitElem_def Let_def)
  define t where "t = s\<lparr>pac := upd_al Ch3 1 (\<lambda>e. e\<lparr>al_cache := replicate (addrsPerPage E) 0, al_active := True,
     al_dirty := False, al_positionInParent := i\<rparr>) (pac s)\<rparr>"
  have "run_state (load_level E Ch3 [i, j, k] 1) s = (R_ok, t)"
    using assms(3,7,8) n c
    by (simp add: load_level_def Let_def getAddr_def loadCacheElem_def readAddrList_def t_def)
  moreover have "run_state (load_level E Ch3 [i, j, k] 2) t = (R_ok, t)"
    using assms(3,9) n by (intro load_level_cached) (simp_all add: t_def)
  ultimately have "run_state (loadPath E a offs Ch3) s = (Inr k, t)" for a
    using assms(3,5) unfolding loadPath_def l by (simp add: Let_def)
  then show ?thesis using assms(2,4,6) n by (simp add: getPage_def getAddr_def t_def)
qed

definition ex_stale_dev :: "ram_flash dev" where
  "ex_stale_dev = ex_pac_dev\<lparr>pac := (pac ex_pac_dev)\<lparr>tripl :=
     [ex_addr_list\<lparr>al_active := True\<rparr>, ex_addr_list\<lparr>al_active := True\<rparr>,
      ex_addr_list\<lparr>al_active := True, al_cache := [0, 0x30002, 0, 0]\<rparr>]\<rparr>\<rparr>"

theorem third_level_stale_witness:
  "fst (run_state (getPage ex_pac_env (31 + 17)) ex_stale_dev) = Inr 0x30002"
proof -
  have n: "addrsPerPage ex_pac_env = 4" by (simp add: addrsPerPage_def ex_pac_env_def ex_env_def)
  have "fst (run_state (getPage ex_pac_env (31 + 17)) ex_stale_dev) = Inr (al_cache (tripl (pac ex_stale_dev) ! 2) ! 1)"
  proof (rule third_level_stale)
    show "locate ex_pac_env (31 + 17) = Some (Ch3, 17)" by (simp add: locate_def n directAddrCount_def)
    have "[0 ..< 2 + 1] = [0, 1, 2::nat]" by (simp add: upt_rec)
    then show "path_of ex_pac_env 2 17 = [1, 0, 1]" by (simp add: path_of_def n del: upt_Suc)
    show "pac_shape ex_pac_env (pac ex_stale_dev)"
      by (simp add: pac_shape_def n ex_stale_dev_def ex_pac_dev_def ex_dev_def ex_addr_list_def)
    show "mInodePtr (pac ex_stale_dev) = Some 5" by (simp add: ex_stale_dev_def ex_pac_dev_def)
  qed (simp_all add: ex_stale_dev_def ex_addr_list_def directAddrCount_def)
  then show ?thesis by (simp add: ex_stale_dev_def)
qed

end
