(* ===== verification/FileReading.thy ===== *)
theory FileReading
  imports DataIO PacProperties SuperChainFacts BtreeProperties
begin

text \<open>
  Reading a file: the contents of a file as the list of its bytes, and the proof that a read answers
  the requested slice of it.
\<close>

subsection \<open>The contents of a file\<close>

text \<open>A page without an address is empty space.\<close>

definition page_bytes :: "'f env \<Rightarrow> ('f \<Rightarrow> PageAbs \<Rightarrow> byte list) \<Rightarrow> 'f dev \<Rightarrow> nat \<Rightarrow> PageAbs \<Rightarrow> byte list" where
  "page_bytes E content s p page =
     (let a = held_addr E (pac s) (inodeMem s p) page
      in if a = 0 then replicate (dataBytesPerPage E) 0
         else take (dataBytesPerPage E) (content (flash s) (getPageNumber E (sb s) a)))"

definition file_bytes :: "'f env \<Rightarrow> ('f \<Rightarrow> PageAbs \<Rightarrow> byte list) \<Rightarrow> 'f dev \<Rightarrow> nat \<Rightarrow> byte list" where
  "file_bytes E content s p =
     take (i_size (inodeMem s p))
       (concat (map (page_bytes E content s p) [0 ..< ceil_div (i_size (inodeMem s p)) (dataBytesPerPage E)]))"

text \<open>The address of the page is in the page address cache, and it lies in a data area.\<close>

definition page_readable :: "'f env \<Rightarrow> 'f dev \<Rightarrow> nat \<Rightarrow> PageAbs \<Rightarrow> bool" where
  "page_readable E s p page \<longleftrightarrow> page_cached E (pac s) page \<and>
     (let a = held_addr E (pac s) (inodeMem s p) page
      in a = 0 \<or> getType E (sb s) (extractLogicalArea a) = T_data)"

lemma length_page_bytes:
  assumes "flash_ok E content"
  shows "length (page_bytes E content s p page) = dataBytesPerPage E"
proof -
  have "dataBytesPerPage E \<le> length (content f q)" for f q
    using content_length [OF assms, of "dataBytesPerPage E"] by (simp add: totalBytesPerPage_def)
  then show ?thesis by (simp add: page_bytes_def Let_def)
qed

subsection \<open>Pages of equal length\<close>

lemma length_concat_const: "(\<And>i. length (f i) = d) \<Longrightarrow> length (concat (map f is)) = length is * d"
  by (induction "is") simp_all

lemma take_concat_page:
  assumes "\<And>i. length (f i) = d" and "k < n" and "b \<le> d"
  shows "take (k * d + b) (concat (map f [m ..< m + n])) = take (k * d) (concat (map f [m ..< m + n])) @ take b (f (m + k))"
proof -
  have "[m ..< m + n] = [m ..< m + k] @ [m + k ..< m + n]"
    using upt_add_eq_append [of m "m + k" "n - k"] assms(2) by simp
  also have "[m + k ..< m + n] = (m + k) # [m + k + 1 ..< m + n]" using assms(2) by (simp add: upt_conv_Cons)
  finally have split: "[m ..< m + n] = [m ..< m + k] @ (m + k) # [m + k + 1 ..< m + n]" .
  have "length (concat (map f [m ..< m + k])) = k * d" using assms(1) by (simp add: length_concat_const)
  then show ?thesis using assms(1,3) by (simp add: split)
qed

lemma drop_append_ge: "o' \<le> length xs \<Longrightarrow> drop o' (xs @ ys) = drop o' xs @ ys"
  by simp


subsection \<open>The loop over the pages\<close>

lemma sub32_le: "b \<le> a \<Longrightarrow> a < 2 ^ 32 \<Longrightarrow> sub32 a b = a - b"
proof -
  assume "b \<le> a" and a: "a < 2 ^ 32"
  then have "a + 2 ^ 32 - b = (a - b) + 2 ^ 32" by simp
  moreover have "a - b < 2 ^ 32" using a by (rule less_imp_diff_less)
  ultimately show "sub32 a b = a - b" by (simp only: sub32_def mod_add_self2 mod_less)
qed

text \<open>A page is read into the part of it that is still wanted.\<close>

lemma read_page_step_run:
  assumes ok: "flash_ok E content" and "\<not> verifyAS E" and "mInodePtr (pac s) = Some p"
    and "page_readable E s p (page + pageFrom)"
    and btr_def: "btr = min (sub32 (bytes + offs) (length data)) (dataBytesPerPage E)"
  shows "run_state (read_page_step E pageFrom bytes page (offs, data)) s =
    (Inr (0, data @ drop offs (take btr (page_bytes E content s p (page + pageFrom)))), s)"
proof -
  let ?a = "held_addr E (pac s) (inodeMem s p) (page + pageFrom)"
  have get: "run_state (getPage E (page + pageFrom)) s = (Inr ?a, s)"
    using assms(3,4) by (simp add: page_readable_def getPage_cached)
  have btr: "btr \<le> dataBytesPerPage E" by (simp add: btr_def)
  then have read: "run_state (readPage E q btr) s = ((R_ok, take btr (content (flash s) q)), s)" for q
    by (intro run_readPage [OF ok]) (simp add: totalBytesPerPage_def)
  show ?thesis
  proof (cases "?a = 0")
    case True
    then show ?thesis using btr by (simp add: read_page_step_def get btr_def [symmetric] page_bytes_def min_absorb1 [OF btr])
  next
    case False
    then have "run_state (checkIfSaneReadAddress E ?a) s = (True, s)"
      using assms(2,4) by (simp add: checkIfSaneReadAddress_def page_readable_def)
    moreover have "take (btr - offs) (drop offs (take btr ys)) = drop offs (take btr ys)" for ys :: "byte list"
      by simp
    ultimately show ?thesis
      using False btr by (simp add: read_page_step_def get btr_def [symmetric] read page_bytes_def min_absorb1 [OF btr] Let_def)
  qed
qed

lemma read_loop:
  assumes ok: "flash_ok E content" and v: "\<not> verifyAS E" and ptr: "mInodePtr (pac s) = Some p"
    and readable: "\<And>page. from \<le> page \<Longrightarrow> page < from + n \<Longrightarrow> page_readable E s p page"
    and d: "offs < dataBytesPerPage E" and len: "(n - 1) * dataBytesPerPage E < offs + bytes"
      "offs + bytes \<le> n * dataBytesPerPage E" "offs + bytes < 2 ^ 32"
  shows "\<exists>o'. run_state (loopM [0 ..< n] (offs, []) (read_page_step E from bytes)) s =
    (Inr (o', take bytes (drop offs (concat (map (page_bytes E content s p) [from ..< from + n])))), s)"
proof -
  let ?d = "dataBytesPerPage E"
  define A where "A = concat (map (page_bytes E content s p) [from ..< from + n])"
  have page: "\<And>i. length (page_bytes E content s p i) = ?d" by (rule length_page_bytes [OF ok])
  have A: "length A = n * ?d" using page by (simp add: A_def length_concat_const)
  let ?J = "\<lambda>k x t. t = s \<and> x = (if k = 0 then offs else 0, drop offs (take (min (k * ?d) (offs + bytes)) A))"
  have "\<exists>x t. run_state (loopM [0 ..< n] (offs, []) (read_page_step E from bytes)) s = (Inr x, t) \<and> ?J n x t"
  proof (rule loopM_index)
    fix k and x :: "nat \<times> byte list" and t assume k: "k < n" and J: "?J k x t"
    have kd: "k * ?d < offs + bytes"
      using k len(1) mult_le_mono1 [of k "n - 1" ?d] by linarith
    define data where "data = drop offs (take (k * ?d) A)"
    have x: "x = (if k = 0 then offs else 0, data)" using J kd by (simp add: data_def min_def)
    define o' where "o' = (if k = 0 then offs else 0 :: nat)"
    define btr where "btr = min (offs + bytes - k * ?d) ?d"
    have kn: "k * ?d \<le> length A" using k by (simp add: A)
    have le: "offs \<le> k * ?d \<or> k = 0" using d by (cases k) auto
    have "length data \<le> bytes + o'" "bytes + o' - length data = offs + bytes - k * ?d" "bytes + o' < 2 ^ 32"
      using le kn kd len(3) by (auto simp: data_def o'_def min_def)
    then have "sub32 (bytes + o') (length data) = offs + bytes - k * ?d" by (simp only: sub32_le)
    then have run: "run_state (read_page_step E from bytes k x) t =
        (Inr (0, data @ drop o' (take btr (page_bytes E content s p (k + from)))), s)"
      using read_page_step_run [OF ok v ptr, of k "from" btr bytes o' data] readable [of "k + from"] k J
      by (simp add: x o'_def [symmetric] btr_def)
    have "take (k * ?d + btr) A = take (k * ?d) A @ take btr (page_bytes E content s p (from + k))"
      unfolding A_def by (rule take_concat_page [OF page k]) (simp add: btr_def)
    moreover have "k * ?d + btr = min (Suc k * ?d) (offs + bytes)" using kd by (auto simp: btr_def min_def)
    moreover have "drop offs (take (k * ?d) A @ zs) = data @ drop o' zs" for zs
      using le kn by (cases "k = 0") (auto simp: data_def o'_def min_def)
    ultimately have "data @ drop o' (take btr (page_bytes E content s p (k + from))) =
        drop offs (take (min (Suc k * ?d) (offs + bytes)) A)"
      by (metis add.commute)
    then show "\<exists>a' u. run_state (read_page_step E from bytes k x) t = (Inr a', u) \<and> ?J (Suc k) a' u"
      using run by simp
  qed simp
  moreover have "drop offs (take (min (n * ?d) (offs + bytes)) A) = take bytes (drop offs A)"
    using len(2) by (simp add: take_drop min_def add.commute)
  ultimately show ?thesis by (auto simp: A_def)
qed


subsection \<open>The whole read\<close>

lemma last_page_bounds:
  assumes "0 < X" and "0 < dataBytesPerPage E" and "X < 2 ^ 32"
  shows "last_page E X * dataBytesPerPage E < X" and "X \<le> (last_page E X + 1) * dataBytesPerPage E"
proof -
  let ?d = "dataBytesPerPage E"
  have X: "X = X div ?d * ?d + X mod ?d" by simp
  have "last_page E X * ?d < X \<and> X \<le> (last_page E X + 1) * ?d"
  proof (cases "X mod ?d = 0")
    case True
    then have q: "X = X div ?d * ?d" "0 < X div ?d" using X assms(1) by (auto simp: div_greater_zero_iff)
    moreover have "X div ?d < 2 ^ 32" using assms(3) div_le_dividend [of X ?d] by linarith
    ultimately have "last_page E X = X div ?d - 1" using True by (simp add: last_page_def sub32_le)
    moreover obtain m where "X div ?d = Suc m" using q(2) gr0_implies_Suc by blast
    ultimately show ?thesis using q(1) assms(2) by simp
  next
    case False
    have "(X div ?d + 1) * ?d = X div ?d * ?d + ?d" by simp
    moreover have "X mod ?d < ?d" using assms(2) by simp
    ultimately have "X div ?d * ?d < X \<and> X \<le> (X div ?d + 1) * ?d" using False X by linarith
    then show ?thesis using False by (simp only: last_page_def if_False)
  qed
  then show "last_page E X * ?d < X" and "X \<le> (last_page E X + 1) * ?d" by simp_all
qed

lemma slice_of_pages:
  assumes "\<And>i. length (f i) = d" and "q + n \<le> N" and "r + b \<le> n * d"
  shows "take b (drop (q * d + r) (concat (map f [0 ..< N]))) = take b (drop r (concat (map f [q ..< q + n])))"
proof -
  have split: "[0 ..< N] = [0 ..< q] @ [q ..< q + n] @ [q + n ..< N]"
    using assms(2) upt_add_eq_append [of 0 q "N - q"] upt_add_eq_append [of q "q + n" "N - q - n"] by simp
  have "length (concat (map f [0 ..< q])) = q * d" "length (concat (map f [q ..< q + n])) = n * d"
    using assms(1) by (simp_all add: length_concat_const)
  then show ?thesis using assms(3) by (simp add: split)
qed


lemma read_slice:
  assumes "flash_ok E content" and "\<not> verifyAS E" and "0 < dataBytesPerPage E"
    and "run_state (setTargetInode E p) s = (R_ok, t)" and "mInodePtr (pac t) = Some p"
    and "i_size (inodeMem s p) = i_size (inodeMem t p)"
    and "\<And>page. page < ceil_div (i_size (inodeMem t p)) (dataBytesPerPage E) \<Longrightarrow> page_readable E t p page"
    and "ceil_div (i_size (inodeMem t p)) (dataBytesPerPage E) < 2 ^ 16"
    and "offs < i_size (inodeMem t p)" and "0 < bytes" and "offs + bytes < 2 ^ 32"
  shows "run_state (readInodeData E p offs bytes) s = ((R_ok, take bytes (drop offs (file_bytes E content t p))), t)"
proof -
  define d where "d = dataBytesPerPage E"
  define sz where "sz = i_size (inodeMem t p)"
  define b where "b = min bytes (sz - offs)"
  define q where "q = offs div d"
  define r where "r = offs mod d"
  define n where "n = last_page E (offs + b) - q + 1"
  have X: "0 < b" "offs + b \<le> sz" "offs + b < 2 ^ 32" "offs = q * d + r" "r < d"
    using assms(3,9-11) by (auto simp: b_def sz_def q_def r_def d_def)
  have last: "last_page E (offs + b) * d < offs + b" "offs + b \<le> (last_page E (offs + b) + 1) * d"
    using last_page_bounds [of "offs + b" E] X assms(3) by (simp_all add: d_def)
  have "q * d < (last_page E (offs + b) + 1) * d" using last(2) X(1,4) by linarith
  then have q: "q \<le> last_page E (offs + b)" by (metis Suc_eq_plus1 less_Suc_eq_le mult_less_cancel2)
  have "last_page E (offs + b) * d < ceil_div sz d * d"
    using last(1) X(2) ceil_div_le [OF assms(3) [folded d_def], of sz] by linarith
  then have "last_page E (offs + b) < ceil_div sz d" by (metis mult_less_cancel2)
  then have N: "q + n \<le> ceil_div sz d" using q by (simp add: n_def)
  have "(n - 1) * d + q * d = last_page E (offs + b) * d" "n * d + q * d = (last_page E (offs + b) + 1) * d"
    using q by (simp_all add: n_def flip: add_mult_distrib)
  then have len: "(n - 1) * d < r + b" "r + b \<le> n * d" "r + b < 2 ^ 32" using last X by linarith+
  obtain o' where loop: "run_state (loopM [0 ..< n] (r, []) (read_page_step E q b)) t =
    (Inr (o', take b (drop r (concat (map (page_bytes E content t p) [q ..< q + n])))), t)"
    using read_loop [OF assms(1,2,5), of q n r b] assms(7) N len X(5) by (auto simp: sz_def d_def)
  have "sub32 (last_page E (offs + b)) q = n - 1"
    using q N assms(8) by (subst sub32_le) (simp_all add: n_def sz_def d_def)
  moreover have "n - 1 < 2 ^ 16 - 1" using N assms(8) by (simp add: sz_def d_def n_def)
  ultimately have "page_span q (last_page E (offs + b)) = Some [0 ..< n]"
    by (simp add: page_span_def n_def Let_def)
  then have pages: "run_state (readPageData E q (last_page E (offs + b)) r b) t =
      ((R_ok, take b (drop r (concat (map (page_bytes E content t p) [q ..< q + n])))), t)"
    using q loop by (simp add: readPageData_def)
  have "take b (drop r (concat (map (page_bytes E content t p) [q ..< q + n]))) =
      take b (drop offs (concat (map (page_bytes E content t p) [0 ..< ceil_div sz d])))"
    unfolding X(4) using slice_of_pages [OF length_page_bytes [OF assms(1)] N, of r b] len(2) by (simp add: d_def)
  also have "\<dots> = take bytes (drop offs (file_bytes E content t p))"
    by (simp add: file_bytes_def drop_take b_def sz_def d_def min.commute)
  finally have slice: "run_state (readPageData E q (last_page E (offs + b)) r b) t =
      ((R_ok, take bytes (drop offs (file_bytes E content t p))), t)"
    using pages by simp
  show ?thesis
  proof (cases "sz < offs + bytes")
    case True
    then have "b = sz - offs" "offs + b = sz" using X(1) by (auto simp: b_def)
    then show ?thesis using True assms(4,6,9-11) slice
      by (simp add: readInodeData_def Let_def q_def [symmetric] r_def [symmetric] d_def [symmetric] sz_def [symmetric])
  next
    case False
    then have "b = bytes" by (simp add: b_def)
    then show ?thesis using False assms(4,6,9-11) slice
      by (simp add: readInodeData_def Let_def q_def [symmetric] r_def [symmetric] d_def [symmetric] sz_def [symmetric])
  qed
qed

text \<open>
  Taking an inode as the target of the page address cache. When the cache holds no changes of another
  inode, and the tree is in its cache, only the cache of the addresses is emptied and the hits
  of the tree cache are counted.
\<close>

lemma setTargetInode_quiet:
  assumes "cached_tree E (tc s) d" and "mInodePtr (pac s) = Some p \<or> \<not> isDirty (pac s)"
    and "run_state (setTargetInode E p) s = (r, t)"
  shows "t = s\<lparr>tc := hits (d + 1) (tc s),
    pac := (if mInodePtr (pac s) = Some p then pac s else (deactivate (pac s))\<lparr>mInodePtr := Some p\<rparr>)\<rparr>"
proof -
  have "run_state (getInode E no) s = (fst (run_state (tree_find E no) s), s\<lparr>tc := hits (d + 1) (tc s)\<rparr>)" for no
    by (simp add: getInode_def run_tree_find [OF assms(1)])
  then show ?thesis
    using assms(2,3) by (cases "mInodePtr (pac s) = Some p") (auto simp: setTargetInode_def)
qed

text \<open>
  C11: when the pages of a file can be read, a read answers exactly the requested slice of its contents,
  cut off at its end. The device is left as \<open>setTargetInode\<close> leaves it, which writes back the changed
  address pages of another inode, if there are any; when there are none, and the tree is in its
  cache, nothing changes but the page address cache, which drops the addresses of the other inode, and
  the count of the hits in the tree cache: the flash, the area map, the summaries, the journal, the inodes
  and the nodes of the tree are as they were.
\<close>

theorem read_is_slice:
  assumes "flash_ok E content" and "\<not> verifyAS E" and "0 < dataBytesPerPage E"
    and "run_state (setTargetInode E p) s = (R_ok, t)" and "mInodePtr (pac t) = Some p"
    and "i_size (inodeMem s p) = i_size (inodeMem t p)"
    and "\<And>page. page < ceil_div (i_size (inodeMem t p)) (dataBytesPerPage E) \<Longrightarrow> page_readable E t p page"
    and "ceil_div (i_size (inodeMem t p)) (dataBytesPerPage E) < 2 ^ 16"
    and "offs < i_size (inodeMem t p)" and "0 < bytes" and "offs + bytes < 2 ^ 32"
  shows "run_state (readInodeData E p offs bytes) s = ((R_ok, take bytes (drop offs (file_bytes E content t p))), t) \<and>
    (\<forall>d. cached_tree E (tc s) d \<longrightarrow> mInodePtr (pac s) = Some p \<or> \<not> isDirty (pac s) \<longrightarrow>
      t = s\<lparr>tc := hits (d + 1) (tc s),
        pac := (if mInodePtr (pac s) = Some p then pac s else (deactivate (pac s))\<lparr>mInodePtr := Some p\<rparr>)\<rparr>)"
  using read_slice [OF assms] setTargetInode_quiet [OF _ _ assms(4)] by blast

text \<open>An example: a file with one written page of 300 bytes and ten bytes of empty space behind it.\<close>

definition ex_file :: "nat \<Rightarrow> Inode" where
  "ex_file sz = ex_inode\<lparr>i_size := sz, i_reservedPages := 1, i_direct := 0x20000 # replicate 10 0\<rparr>"

definition stored_dev :: "Inode \<Rightarrow> byte list \<Rightarrow> ram_flash dev" where
  "stored_dev x bs = tree_dev\<lparr>inodeMem := (\<lambda>_. x), flash := (\<lambda>_. bs)\<rparr>"

definition stored_dev_set :: "Inode \<Rightarrow> byte list \<Rightarrow> ram_flash dev" where
  "stored_dev_set x bs = (stored_dev x bs)\<lparr>tc := hits 2 (tc tree_dev), pac := (deactivate (pac ex_dev))\<lparr>mInodePtr := Some 5\<rparr>\<rparr>"

definition file_dev :: "nat \<Rightarrow> ram_flash dev" where
  "file_dev sz = stored_dev (ex_file sz) (replicate 299 7 @ [9])"

definition file_dev_set :: "nat \<Rightarrow> ram_flash dev" where
  "file_dev_set sz = stored_dev_set (ex_file sz) (replicate 299 7 @ [9])"

lemma stored_dev_simps [simp]:
  "inodeMem (stored_dev x bs) = (\<lambda>_. x)" "inodeMem (stored_dev_set x bs) = (\<lambda>_. x)" "sb (stored_dev_set x bs) = ex_sb"
  "flash (stored_dev_set x bs) = (\<lambda>_. bs)" "mInodePtr (pac (stored_dev_set x bs)) = Some 5"
  by (simp_all add: stored_dev_set_def stored_dev_def tree_dev_def)

definition file_content :: "ram_flash \<Rightarrow> PageAbs \<Rightarrow> byte list" where
  "file_content f p = f p @ replicate 400 0xFF"

lemma file_flash_ok: "flash_ok tree_env file_content"
proof -
  have dims: "drv_readPage tree_env = ram_read" "drv_writePage tree_env = ram_write" "totalBytesPerPage tree_env = 302"
    by (simp_all add: tree_env_def ex_env_def totalBytesPerPage_def)
  have take: "take n (f p @ replicate n 0xFF) = take n (file_content f p)" if "n \<le> 400" for n p and f :: ram_flash
    using that by (simp add: file_content_def min_def)
  have new: "file_content (f(p := bs)) = (file_content f)(p := bs @ replicate 400 0xFF)" for f p bs
    by (simp add: fun_eq_iff file_content_def)
  show ?thesis
    unfolding flash_ok_def dims ram_read_def ram_write_def
    using take new by (auto simp: file_content_def)
qed

lemma stored_dev_target:
  assumes "i_no x = 0"
  shows "run_state (setTargetInode tree_env 5) (stored_dev x bs) = (R_ok, stored_dev_set x bs)"
proof -
  have "cached_tree tree_env (tc (stored_dev x bs)) 1" using tree_dev_cached by (simp add: stored_dev_def)
  then have "run_state (tree_find tree_env 0) (stored_dev x bs) = (Inl R_notFound, (stored_dev x bs)\<lparr>tc := hits 2 (tc tree_dev)\<rparr>) \<or>
      (\<exists>y. run_state (tree_find tree_env 0) (stored_dev x bs) = (Inr y, (stored_dev x bs)\<lparr>tc := hits 2 (tc tree_dev)\<rparr>))"
    using run_tree_find [of tree_env "stored_dev x bs" 1 0] by (auto simp: stored_dev_def numeral_eq_Suc split: option.splits)
  moreover have "pac ((stored_dev x bs)\<lparr>tc := T\<rparr>) = pac ex_dev" "i_no (inodeMem (stored_dev x bs) 5) = 0" for T
    using assms by (simp_all add: stored_dev_def tree_dev_def)
  moreover have "mInodePtr (pac ex_dev) = None" "\<not> isDirty (pac ex_dev)"
    by (simp_all add: ex_dev_def isDirty_def ex_addr_list_def)
  ultimately show ?thesis
    by (auto simp: setTargetInode_def getInode_def stored_dev_set_def)
qed

lemma file_dev_target: "run_state (setTargetInode tree_env 5) (file_dev sz) = (R_ok, file_dev_set sz)"
  using stored_dev_target [of "ex_file sz"] by (simp add: file_dev_def file_dev_set_def ex_file_def ex_inode_def)

theorem read_is_slice_witness:
  "run_state (readInodeData tree_env 5 299 5) (file_dev 310) = ((R_ok, [9, 0, 0, 0, 0]), (file_dev_set 310)) \<and>
   file_dev_set 310 = (file_dev 310)\<lparr>tc := hits 2 (tc (file_dev 310)), pac := (deactivate (pac (file_dev 310)))\<lparr>mInodePtr := Some 5\<rparr>\<rparr>"
proof -
  have d: "dataBytesPerPage tree_env = 300" by (simp add: tree_env_def)
  have set: "mInodePtr (pac (file_dev_set 310)) = Some 5" "inodeMem (file_dev_set 310) 5 = (ex_file 310)" "sb (file_dev_set 310) = ex_sb"
    "flash (file_dev_set 310) = (\<lambda>_. replicate 299 7 @ [9])" "i_size (inodeMem (file_dev 310) 5) = 310" "i_size (ex_file 310) = 310"
    by (simp_all add: file_dev_set_def file_dev_def) (simp_all add: ex_file_def)
  have addr: "held_addr tree_env P (ex_file 310) 0 = 0x20000" "held_addr tree_env P (ex_file 310) (Suc 0) = 0" for P
    by (simp_all add: held_addr_def ex_file_def directAddrCount_def)
  have n: "ceil_div 310 300 = 2" by (simp add: ceil_div_def)
  have "getType tree_env ex_sb (extractLogicalArea 0x20000) = T_data"
    by (simp add: getType_def extractLogicalArea_def ex_sb_def ex_area_def tree_env_def areasNo_def ex_env_def)
  then have readable: "page_readable tree_env (file_dev_set 310) 5 page" if "page < 2" for page
    using that by (auto simp: page_readable_def page_cached_def directAddrCount_def set addr less_2_cases_iff Let_def)
  have "page_bytes tree_env file_content (file_dev_set 310) 5 0 = replicate 299 7 @ [9]"
    "page_bytes tree_env file_content (file_dev_set 310) 5 (Suc 0) = replicate 300 0"
    by (simp_all add: page_bytes_def set addr d file_content_def)
  moreover have "[0 ..< 2] = [0, Suc 0]" by (simp add: upt_rec)
  ultimately have slice: "take 5 (drop 299 (file_bytes tree_env file_content (file_dev_set 310) 5)) = [9, 0, 0, 0, 0]"
    by (simp only: file_bytes_def set n d list.map concat.simps) (simp add: numeral_eq_Suc)
  have tree: "cached_tree tree_env (tc (file_dev 310)) 1"
    using tree_dev_cached by (simp add: file_dev_def stored_dev_def)
  have clean: "mInodePtr (pac (file_dev 310)) = None" "\<not> isDirty (pac (file_dev 310))"
    by (simp_all add: file_dev_def stored_dev_def tree_dev_def ex_dev_def isDirty_def ex_addr_list_def)
  have "run_state (readInodeData tree_env 5 299 5) (file_dev 310) =
      ((R_ok, take 5 (drop 299 (file_bytes tree_env file_content (file_dev_set 310) 5))), (file_dev_set 310)) \<and>
    (\<forall>d. cached_tree tree_env (tc (file_dev 310)) d \<longrightarrow>
      mInodePtr (pac (file_dev 310)) = Some 5 \<or> \<not> isDirty (pac (file_dev 310)) \<longrightarrow>
      file_dev_set 310 = (file_dev 310)\<lparr>tc := hits (d + 1) (tc (file_dev 310)),
        pac := (if mInodePtr (pac (file_dev 310)) = Some 5 then pac (file_dev 310)
          else (deactivate (pac (file_dev 310)))\<lparr>mInodePtr := Some 5\<rparr>)\<rparr>)"
  proof (rule read_is_slice [OF file_flash_ok _ _ file_dev_target set(1)])
    show "\<not> verifyAS tree_env" by (simp add: tree_env_def ex_env_def)
  qed (simp_all add: set d n readable)
  then show ?thesis using tree clean by (auto simp: slice numeral_2_eq_2 simp del: One_nat_def)
qed

text \<open>
  C35: a read at the end of a file whose size is a multiple of the page size answers \<open>R_bug\<close>: the last
  page of the empty range lies before its first one.
\<close>

theorem read_at_end_fails:
  assumes "run_state (setTargetInode E p) s = (R_ok, t)" and "0 < dataBytesPerPage E"
    and "i_size (inodeMem s p) = k * dataBytesPerPage E" and "0 < k"
    and "0 < bytes" and "k * dataBytesPerPage E + bytes < 2 ^ 32"
  shows "run_state (readInodeData E p (k * dataBytesPerPage E) bytes) s = ((R_bug, []), t)"
proof -
  have "k * 1 \<le> k * dataBytesPerPage E" using assms(2) by (intro mult_le_mono2) simp
  then have "k < 2 ^ 32" using assms(6) by linarith
  then have last: "last_page E (k * dataBytesPerPage E) = k - 1" using assms(2,4) by (simp add: last_page_def sub32_le)
  define m where "m = k * dataBytesPerPage E"
  have m: "last_page E m = k - 1" "m div dataBytesPerPage E = k" "(m + bytes) mod 2 ^ 32 = m + bytes" "m mod 2 ^ 32 = m"
    using last assms(2,6) by (simp_all add: m_def)
  have "run_state (readInodeData E p m bytes) s = run_state (readPageData E k (k - 1) (m mod dataBytesPerPage E) 0) t"
    using assms(1,3,5) unfolding m_def [symmetric]
    by (simp only: readInodeData_def run_state_bind run_gets m Let_def prod.case) (simp add: m m [simplified])
  then show ?thesis using assms(4) by (simp add: m_def readPageData_def)
qed


theorem read_at_end_fails_witness:
  "fst (run_state (readInodeData tree_env 5 300 7) (file_dev 300)) = (R_bug, [])"
proof -
  have d: "dataBytesPerPage tree_env = 300" by (simp add: tree_env_def)
  have "i_size (inodeMem (file_dev 300) 5) = 300" by (simp add: file_dev_def ex_file_def)
  then show ?thesis using read_at_end_fails [OF file_dev_target [of 300], of 1 7] by (simp add: d)
qed

end
