(* ===== verification/FileSteps.thy ===== *)
theory FileSteps
  imports FileReading AreaProperties SuperProperties PageStateProperties
begin

text \<open>
  The parts of writing a page of a file: the search of a free page in the active area, what the bookkeeping
  of the areas leaves alone, the record of the new page, and the bytes that a page gets.
\<close>

subsection \<open>Free pages\<close>

definition free_at :: "'f env \<Rightarrow> 'f dev \<Rightarrow> AreaPos \<Rightarrow> nat \<Rightarrow> bool" where
  "free_at E s A i \<longleftrightarrow> i < dataPagesPerArea E \<and> page_status E (sc s) A i = SE_free"

lemma probe_cached:
  assumes "existsSummaryElem (sc s) A" and "i < dataPagesPerArea E"
  shows "run_state (probe_page E A i u) s = (if free_at E s A i then Inl (R_ok, Some i) else Inr (), s)"
  using assms by (simp add: probe_page_def getPageStatus_def free_at_def page_status_def)

lemma probe_loop_cached:
  assumes "existsSummaryElem (sc s) A" and "\<forall>i\<in>set is. i < dataPagesPerArea E"
  shows "run_state (loopM is () (probe_page E A)) s =
    (case List.find (free_at E s A) is of Some i \<Rightarrow> Inl (R_ok, Some i) | None \<Rightarrow> Inr (), s)"
  using assms(2) by (induction "is") (simp_all add: probe_cached [OF assms(1)])

lemma findFirstFreePage_some:
  assumes "existsSummaryElem (sc s) A" and "\<exists>i. free_at E s A i"
  shows "\<exists>i. run_state (findFirstFreePage E A) s = ((R_ok, Some i), s) \<and> free_at E s A i"
proof -
  have "List.find (free_at E s A) [0 ..< dataPagesPerArea E] \<noteq> None"
    using assms(2) by (auto simp: find_None_iff free_at_def)
  then obtain i where i: "List.find (free_at E s A) [0 ..< dataPagesPerArea E] = Some i" by blast
  then have "free_at E s A i" by (auto simp: find_Some_iff)
  then show ?thesis using i probe_loop_cached [OF assms(1), of "[0 ..< dataPagesPerArea E]" E]
    by (simp add: findFirstFreePage_def)
qed

lemma findFirstFreePage_none:
  assumes "existsSummaryElem (sc s) A" and "\<nexists>i. free_at E s A i"
  shows "run_state (findFirstFreePage E A) s = ((R_noSpace, None), s)"
proof -
  have "List.find (free_at E s A) [0 ..< dataPagesPerArea E] = None" using assms(2) by (auto simp: find_None_iff)
  then show ?thesis using probe_loop_cached [OF assms(1), of "[0 ..< dataPagesPerArea E]" E]
    by (simp add: findFirstFreePage_def)
qed

subsection \<open>The frame of the bookkeeping\<close>

text \<open>What the file does not see: the statuses of areas may change, their types and positions not.\<close>

definition same_places :: "'f env \<Rightarrow> superblock \<Rightarrow> superblock \<Rightarrow> bool" where
  "same_places E B B' \<longleftrightarrow> getType E B' = getType E B \<and> getPageNumber E B' = getPageNumber E B \<and>
     (pos_ok E B \<longrightarrow> pos_ok E B')"

lemma same_places_refl [simp]: "same_places E B B"
  by (simp add: same_places_def)

lemma same_places_upd:
  assumes "\<And>r. a_type (f r) = a_type r" and "\<And>r. a_position (f r) = a_position r"
  shows "same_places E B (upd_area a f B)"
proof -
  have "a_type (mMap (upd_area a f B) ! i) = a_type (mMap B ! i)"
    "a_position (mMap (upd_area a f B) ! i) = a_position (mMap B ! i)" for i
    using assms by (cases "a < length (mMap B)"; simp add: upd_area_def nth_list_update list_update_beyond)+
  moreover have "pos_ok E B \<Longrightarrow> pos_ok E (upd_area a f B)"
    using assms(2) by (simp add: pos_ok_def posns_upd)
  ultimately show ?thesis by (simp add: same_places_def getType_def getPageNumber_def getPos_def fun_eq_iff)
qed

lemma same_places_trans: "same_places E A B \<Longrightarrow> same_places E B C \<Longrightarrow> same_places E A C"
  by (simp add: same_places_def)

lemma same_places_fields [simp]: "same_places E B (B\<lparr>mActiveAreas := (mActiveAreas B)[i := a]\<rparr>)"
  by (simp add: same_places_def getType_def getPageNumber_def getPos_def fun_eq_iff pos_ok_def sb_shape_def)

lemma same_places_close: "same_places E B (sb_active t 0 (sb_status E A st B))"
proof -
  have 1: "same_places E B (sb_status E A st B)" by (simp add: sb_status_def same_places_upd)
  have "same_places E C (sb_active t 0 C)" for C
  proof -
    let ?C = "upd_area 0 (\<lambda>r. r\<lparr>a_status := S_active\<rparr>) C"
    have "same_places E C (?C\<lparr>mActiveAreas := (mActiveAreas ?C)[area_type_code t := 0]\<rparr>)"
      by (rule same_places_trans [OF same_places_upd same_places_fields]) simp_all
    moreover have "mActiveAreas ?C = mActiveAreas C" by (simp add: upd_area_def)
    ultimately show ?thesis by (simp add: sb_active_def)
  qed
  then show ?thesis using same_places_trans [OF 1] by blast
qed

lemma setter_run:
  "\<exists>m j. run_state (setStatus E A st) s = ((), s\<lparr>mram := m, jr := j, sb := sb_status E A st (sb s)\<rparr>)"
  "\<exists>m j. run_state (setActiveArea E t a) s = ((), s\<lparr>mram := m, jr := j, sb := sb_active t a (sb s)\<rparr>)"
proof -
  have log: "\<exists>m j. log_event E e u = u\<lparr>mram := m, jr := j\<rparr>" for e u by (metis log_event_form)
  show "\<exists>m j. run_state (setStatus E A st) s = ((), s\<lparr>mram := m, jr := j, sb := sb_status E A st (sb s)\<rparr>)"
  proof (cases "areasNo E \<le> A")
    case True
    then show ?thesis by (intro exI [of _ "mram s"] exI [of _ "jr s"]) (simp add: setStatus_def sb_status_def)
  next
    case False
    obtain m j where "log_event E (AreaMapStatus A st) s = s\<lparr>mram := m, jr := j\<rparr>" using log by metis
    then show ?thesis using False by (intro exI [of _ m] exI [of _ j]) (simp add: setStatus_def sb_status_def)
  qed
  show "\<exists>m j. run_state (setActiveArea E t a) s = ((), s\<lparr>mram := m, jr := j, sb := sb_active t a (sb s)\<rparr>)"
  proof (cases "t = T_no")
    case True
    then show ?thesis by (intro exI [of _ "mram s"] exI [of _ "jr s"]) (simp add: setActiveArea_def sb_active_def)
  next
    case False
    let ?u = "s\<lparr>sb := upd_area a (\<lambda>r. r\<lparr>a_status := S_active\<rparr>) (sb s)\<rparr>"
    obtain m j where "log_event E (ActiveArea t a) ?u = ?u\<lparr>mram := m, jr := j\<rparr>" using log by metis
    then show ?thesis using False by (intro exI [of _ m] exI [of _ j]) (simp add: setActiveArea_def sb_active_def)
  qed
qed

lemma closeArea_run:
  "\<exists>m j B. run_state (closeArea E A) s = (R_ok, s\<lparr>mram := m, jr := j, sb := B\<rparr>) \<and> same_places E (sb s) B"
proof -
  obtain m1 j1 where 1: "log_event E (CloseArea A) s = s\<lparr>mram := m1, jr := j1\<rparr>" by (metis log_event_form)
  obtain m2 j2 where 2: "run_state (setStatus E A S_closed) (s\<lparr>mram := m1, jr := j1\<rparr>) =
      ((), s\<lparr>mram := m2, jr := j2, sb := sb_status E A S_closed (sb s)\<rparr>)"
    using setter_run(1) [of E A S_closed "s\<lparr>mram := m1, jr := j1\<rparr>"] by auto
  let ?t = "getType E (sb_status E A S_closed (sb s)) A" and ?B = "sb_status E A S_closed (sb s)"
  obtain m3 j3 where 3: "run_state (setActiveArea E ?t 0) (s\<lparr>mram := m2, jr := j2, sb := ?B\<rparr>) =
      ((), s\<lparr>mram := m3, jr := j3, sb := sb_active ?t 0 ?B\<rparr>)"
    using setter_run(2) [of E ?t 0 "s\<lparr>mram := m2, jr := j2, sb := ?B\<rparr>"] by auto
  let ?u = "s\<lparr>mram := m3, jr := j3, sb := sb_active ?t 0 ?B\<rparr>"
  obtain m4 j4 where 4: "log_event E (Checkpoint Tp_areaMgmt) ?u = ?u\<lparr>mram := m4, jr := j4\<rparr>" by (metis log_event_form)
  show ?thesis
    by (intro exI [of _ m4] exI [of _ j4] exI [of _ "sb_active ?t 0 ?B"])
      (simp add: closeArea_def 1 2 3 4 same_places_close)
qed

lemma manageActiveAreaFull_run:
  assumes "existsSummaryElem (sc s) (getActiveArea (sb s) T_data)"
  shows "\<exists>m j B. run_state (manageActiveAreaFull E T_data) s = (R_ok, s\<lparr>mram := m, jr := j, sb := B\<rparr>) \<and> same_places E (sb s) B \<and>
    ((\<exists>i. free_at E s (getActiveArea (sb s) T_data) i) \<longrightarrow> B = sb s)"
proof (cases "getActiveArea (sb s) T_data \<noteq> 0 \<and> (\<nexists>i. free_at E s (getActiveArea (sb s) T_data) i)")
  case True
  obtain m j B where close: "run_state (closeArea E (getActiveArea (sb s) T_data)) s = (R_ok, s\<lparr>mram := m, jr := j, sb := B\<rparr>)"
    "same_places E (sb s) B" using closeArea_run by metis
  moreover have "run_state (findFirstFreePage E (getActiveArea (sb s) T_data)) s = ((R_noSpace, None), s)"
    using True by (intro findFirstFreePage_none [OF assms]) simp
  ultimately show ?thesis using True
    by (intro exI [of _ m] exI [of _ j] exI [of _ B]) (simp add: manageActiveAreaFull_def)
next
  case False
  then have "run_state (manageActiveAreaFull E T_data) s = (R_ok, s)"
  proof (cases "getActiveArea (sb s) T_data = 0")
    case False
    then obtain i where "run_state (findFirstFreePage E (getActiveArea (sb s) T_data)) s = ((R_ok, Some i), s)"
      using findFirstFreePage_some [OF assms, of E] \<open>\<not> (_ \<and> _)\<close> by blast
    then show ?thesis by (simp add: manageActiveAreaFull_def)
  qed (simp add: manageActiveAreaFull_def)
  then show ?thesis by (intro exI [of _ "mram s"] exI [of _ "jr s"] exI [of _ "sb s"]) simp
qed

subsection \<open>Recording a new page\<close>

lemma setPageStatus_used_run:
  assumes "cache_ok E (sc s)" and "existsSummaryElem (sc s) A" and "A \<noteq> 0" and "\<not> readOnly s"
    and "getType E (sb s) A \<noteq> T_unset" and "free_at E s A i"
  shows "\<exists>m j C. run_state (setPageStatus E A i SE_used) s = (R_ok, s\<lparr>mram := m, jr := j, sc := C\<rparr>) \<and>
    cache_ok E C \<and> existsSummaryElem C = existsSummaryElem (sc s) \<and>
    (\<forall>B k. existsSummaryElem (sc s) B \<longrightarrow> page_status E C B k = (if B = A \<and> k = i then SE_used else page_status E (sc s) B k))"
proof -
  let ?C = "upd_elem A (elem_setStatus (dataPagesPerArea E) i SE_used) (sc s)"
  have i: "i < dataPagesPerArea E" "elem_getStatus (dataPagesPerArea E) i (area_elem (sc s) A) = SE_free"
    using assms(6) by (simp_all add: free_at_def page_status_def)
  obtain m j where log: "log_event E (SummarySetStatus A i SE_used) s = s\<lparr>mram := m, jr := j\<rparr>" by (metis log_event_form)
  have run: "run_state (setPageStatus E A i SE_used) s = (R_ok, s\<lparr>mram := m, jr := j, sc := ?C\<rparr>)"
    using assms i log by (simp add: setPageStatus_def)
  have "states_set E SE_used {(A, i)} s (s\<lparr>sc := ?C\<rparr>)"
    by (rule states_set_upd [OF assms(1,2) i(1)]) (simp_all add: clients_def)
  then have "cache_ok E ?C \<and> (\<forall>B k. existsSummaryElem (sc s) B \<longrightarrow>
      page_status E ?C B k = (if B = A \<and> k = i then SE_used else page_status E (sc s) B k))"
    by (simp add: states_set_def)
  then show ?thesis using run by (intro exI [of _ m] exI [of _ j] exI [of _ ?C]) (simp add: fun_eq_iff)
qed

lemma replacePage_run:
  assumes "cache_ok E (sc s)" and "existsSummaryElem (sc s) A" and "A \<noteq> 0" and "\<not> readOnly s"
    and "getType E (sb s) A \<noteq> T_unset" and "free_at E s A i"
    and "pageListHWM (dio_psm (dio s)) < maxPagesPerWrite E" and "A < 2 ^ 16" and "i < 2 ^ 16"
  shows "\<exists>m j C D. run_state (replacePage_at E (dio_machine E) (combineAddress A i) old no pos) s =
      (R_ok, s\<lparr>dio := D, mram := m, jr := j, sc := C\<rparr>) \<and> pageListHWM (dio_psm D) = pageListHWM (dio_psm (dio s)) + 1 \<and>
    oldPageList (dio_psm D) = (oldPageList (dio_psm (dio s)))[pageListHWM (dio_psm (dio s)) := old] \<and>
    cache_ok E C \<and> existsSummaryElem C = existsSummaryElem (sc s) \<and>
    (\<forall>B k. existsSummaryElem (sc s) B \<longrightarrow> page_status E C B k = (if B = A \<and> k = i then SE_used else page_status E (sc s) B k))"
proof -
  let ?new = "combineAddress A i"
  have x: "extractLogicalArea ?new = A" "extractPageOffs ?new = i" using assms(8,9) by simp_all
  then have "?new \<noteq> 0" using assms(3) by (metis extractLogicalArea_def drop_bit_of_0 unsigned_0)
  define D1 where "D1 = (dio s)\<lparr>dio_psm := record_position pos (record_page ?new old (dio_psm (dio s)))\<rparr>"
  define D where "D = D1\<lparr>dio_psm := (dio_psm D1)\<lparr>pageListHWM := pageListHWM (dio_psm D1) + 1\<rparr>\<rparr>"
  obtain m j where log: "log_event E (ReplacePagePos Tp_dataIO ?new old no pos) (s\<lparr>dio := D1\<rparr>) = (s\<lparr>dio := D1\<rparr>)\<lparr>mram := m, jr := j\<rparr>"
    by (metis log_event_form)
  let ?u = "s\<lparr>mram := m, jr := j, dio := D\<rparr>"
  have free: "free_at E ?u A i" using assms(6) by (simp add: free_at_def)
  obtain m' j' C where set: "run_state (setPageStatus E A i SE_used) ?u = (R_ok, ?u\<lparr>mram := m', jr := j', sc := C\<rparr>)"
    "cache_ok E C" "existsSummaryElem C = existsSummaryElem (sc s)"
    "\<forall>B k. existsSummaryElem (sc s) B \<longrightarrow> page_status E C B k = (if B = A \<and> k = i then SE_used else page_status E (sc s) B k)"
    using setPageStatus_used_run [of E ?u A i] free assms(1-5) by auto
  have HWM: "pageListHWM (dio_psm D) = pageListHWM (dio_psm (dio s)) + 1"
    "oldPageList (dio_psm D) = (oldPageList (dio_psm (dio s)))[pageListHWM (dio_psm (dio s)) := old]"
    by (simp_all add: D_def D1_def record_page_def record_position_def)
  have "run_state (replacePage_at E (dio_machine E) ?new old no pos) s = run_state (setPageStatus E A i SE_used) ?u"
    using assms(7) log \<open>?new \<noteq> 0\<close> x
    by (simp add: replacePage_at_def dio_machine_def setPageStatus_addr_def D_def D1_def)
  then show ?thesis using set HWM
    by (intro exI [of _ m'] exI [of _ j'] exI [of _ C] exI [of _ D]) simp
qed

subsection \<open>Filling a page\<close>

lemma bytes_in_page_le: "bytes_in_page E sz q \<le> dataBytesPerPage E"
  by (auto simp: bytes_in_page_def)

lemma readPageData_one:
  assumes "flash_ok E content" and "\<not> verifyAS E" and "mInodePtr (pac s) = Some p" and "page_readable E s p q"
    and "b \<le> dataBytesPerPage E" and "dataBytesPerPage E < 2 ^ 32"
  shows "run_state (readPageData E q q 0 b) s = ((R_ok, take b (page_bytes E content s p q)), s)"
proof -
  have "sub32 b 0 = b" using assms(5,6) by (intro sub32_le [of 0 b, simplified]) simp
  then have "b = min (sub32 (b + 0) (length [])) (dataBytesPerPage E)" using assms(5) by simp
  from read_page_step_run [OF assms(1,2,3), where page = 0, OF _ this, of q]
  have "run_state (read_page_step E q b 0 (0, [])) s = (Inr (0, take b (page_bytes E content s p q)), s)"
    using assms(4) by simp
  moreover have "page_span q q = Some [0 ..< 1]" by (simp add: page_span_def sub32_def)
  ultimately show ?thesis by (simp add: readPageData_def)
qed

text \<open>The bytes that a page gets: the chunk in its place, around it the bytes of the file that were there.\<close>

definition new_page :: "byte list \<Rightarrow> nat \<Rightarrow> byte list \<Rightarrow> byte list" where
  "new_page old offs chunk = take offs old @ chunk @ drop (offs + length chunk) old"

lemma fill_page_run:
  assumes ok: "flash_ok E content" "\<not> verifyAS E" "mInodePtr (pac s) = Some p" "page_readable E s p (from + page)"
    and d: "dataBytesPerPage E < 2 ^ 32" "offs + length chunk \<le> dataBytesPerPage E"
    and offs: "offs \<le> bytes_in_page E sz (from + page)"
    and old: "old = held_addr E (pac s) (inodeMem s p) (from + page)"
  shows "\<exists>buf n. run_state (fill_page E from page offs sz old chunk) s = (Some (buf, n), s) \<and>
    take n buf = new_page (take (bytes_in_page E sz (from + page)) (page_bytes E content s p (from + page))) offs chunk"
proof -
  define b where "b = bytes_in_page E sz (from + page)"
  define B where "B = take b (page_bytes E content s p (from + page))"
  have b: "b \<le> dataBytesPerPage E" by (simp add: b_def bytes_in_page_le)
  then have B: "length B = b" by (simp add: B_def length_page_bytes [OF ok(1)])
  define n where "n = max b (offs + length chunk)"
  have fill: "take n (take offs (B @ rest) @ chunk @ drop (offs + length chunk) (B @ rest)) = new_page B offs chunk"
    for rest
    using offs B by (auto simp: new_page_def n_def b_def [symmetric] max_def)
  show ?thesis
  proof (cases "offs > 0 \<or> (length chunk + offs < dataBytesPerPage E \<and> page * dataBytesPerPage E + length chunk < sz)")
    case partial: True
    show ?thesis
    proof (cases "old = 0")
      case True
      then have "B = take b (replicate (dataBytesPerPage E) 0)" using old by (simp add: B_def page_bytes_def)
      then have zeros: "replicate (dataBytesPerPage E) 0 = B @ replicate (dataBytesPerPage E - b) 0"
        using b by (simp flip: replicate_add)
      have "run_state (fill_page E from page offs sz old chunk) s =
          (let buf = replicate (dataBytesPerPage E) 0 in Some (take offs buf @ chunk @ drop (offs + length chunk) buf, n), s)"
        using partial True by (simp add: fill_page_def Let_def b_def [symmetric] n_def del: take_replicate drop_replicate)
      then show ?thesis using fill unfolding Let_def zeros B_def [symmetric] b_def [symmetric] by blast
    next
      case False
      have "run_state (readPageData E (from + page) (from + page) 0 b) s = ((R_ok, B), s)"
        using readPageData_one [OF ok b d(1)] by (simp add: B_def)
      moreover have "n = max b (offs + length chunk)" by (rule n_def)
      ultimately have "run_state (fill_page E from page offs sz old chunk) s =
          (let buf = B @ drop b (drv_pageBuffer E (flash s)) in Some (take offs buf @ chunk @ drop (offs + length chunk) buf, n), s)"
        using partial False B
        by (simp add: fill_page_def Let_def b_def [symmetric] del: take_append drop_append)
      then show ?thesis using fill unfolding Let_def B_def [symmetric] b_def [symmetric] by blast
    qed
  next
    case False
    then have "offs = 0" and whole: "length chunk = dataBytesPerPage E \<or> sz \<le> page * dataBytesPerPage E + length chunk"
      using d(2) by auto
    have "b \<le> length chunk"
    proof (cases "length chunk = dataBytesPerPage E")
      case True
      then show ?thesis using b by simp
    next
      case False
      then have "sz \<le> (from + page) * dataBytesPerPage E + length chunk" using whole by (simp add: add_mult_distrib)
      then show ?thesis by (auto simp: b_def bytes_in_page_def)
    qed
    then have "new_page B offs chunk = chunk" using B \<open>offs = 0\<close> by (simp add: new_page_def)
    then show ?thesis using False by (intro exI [of _ chunk] exI [of _ "length chunk"]) (auto simp: fill_page_def B_def b_def Let_def)
  qed
qed

section \<open>A step of the write\<close>

text \<open>
  A step of the loop that writes a file, which writes one page: what it needs, what it does to the file and
  to the cache of area summaries, and what it leaves to the rest of the write.
\<close>

subsection \<open>Writing a page\<close>

text \<open>A page of the file is empty or stored in a data area, on a page that is not free.\<close>

definition page_stored :: "'f env \<Rightarrow> 'f dev \<Rightarrow> nat \<Rightarrow> PageAbs \<Rightarrow> bool" where
  "page_stored E s p q \<longleftrightarrow>
     (let a = held_addr E (pac s) (inodeMem s p) q
      in a = 0 \<or> (getType E (sb s) (extractLogicalArea a) = T_data \<and> extractPageOffs a < dataPagesPerArea E \<and>
           (existsSummaryElem (sc s) (extractLogicalArea a) \<longrightarrow>
              page_status E (sc s) (extractLogicalArea a) (extractPageOffs a) \<noteq> SE_free)))"

definition write_ready :: "'f env \<Rightarrow> nat \<Rightarrow> nat \<Rightarrow> 'f dev \<Rightarrow> bool" where
  "write_ready E p N s \<longleftrightarrow>
     mInodePtr (pac s) = Some p \<and> \<not> readOnly s \<and> pac_shape E (pac s) \<and>
     length (i_direct (inodeMem s p)) = directAddrCount \<and>
     (N \<le> directAddrCount \<or> 6 \<le> getMinSpaceLeft (pac_machine E) (pac_psm (pac s))) \<and>
     cache_ok E (sc s) \<and> pos_ok E (sb s) \<and>
     (\<forall>q<N. page_cached E (pac s) q \<and> page_stored E s p q)"

text \<open>Room for \<open>n\<close> more pages in the active area and in the transaction.\<close>

definition room :: "'f env \<Rightarrow> nat \<Rightarrow> 'f dev \<Rightarrow> bool" where
  "room E n s \<longleftrightarrow> pageListHWM (dio_psm (dio s)) + n \<le> maxPagesPerWrite E \<and>
     (0 < n \<longrightarrow> (let A = getActiveArea (sb s) T_data
        in A \<noteq> 0 \<and> getStatus E (sb s) A = S_active \<and> getType E (sb s) A = T_data \<and> existsSummaryElem (sc s) A \<and>
           n \<le> card {i. free_at E s A i}))"

definition small_config :: "'f env \<Rightarrow> bool" where
  "small_config E \<longleftrightarrow> areasNo E \<le> 2 ^ 16 \<and> dataPagesPerArea E \<le> 2 ^ 16 \<and> dataPagesPerArea E \<le> totalPagesPerArea E \<and>
     dataBytesPerPage E < 2 ^ 32 \<and> \<not> verifyAS E"

lemma data_area_less: "getType E B A = T_data \<Longrightarrow> A < areasNo E"
  by (simp add: getType_def split: if_splits)

lemma page_stored_readable:
  "page_cached E (pac s) q \<Longrightarrow> page_stored E s p q \<Longrightarrow> page_readable E s p q"
  by (auto simp: page_readable_def page_stored_def Let_def)

text \<open>What one step of the loop does to the file.\<close>

definition page_written ::
  "'f env \<Rightarrow> ('f \<Rightarrow> PageAbs \<Rightarrow> byte list) \<Rightarrow> nat \<Rightarrow> nat \<Rightarrow> PageAbs \<Rightarrow> byte list \<Rightarrow> 'f dev \<Rightarrow> 'f dev \<Rightarrow> bool" where
  "page_written E content p N q bs s t \<longleftrightarrow>
     i_size (inodeMem t p) = i_size (inodeMem s p) \<and>
     take (length bs) (page_bytes E content t p q) = bs \<and>
     (\<forall>q'<N. q' \<noteq> q \<longrightarrow> page_bytes E content t p q' = page_bytes E content s p q')"

lemma free_page_card:
  assumes "Suc n \<le> card {i. free_at E s A i}"
  shows "\<exists>i. free_at E s A i" and "n \<le> card ({i. free_at E s A i} - {k})"
proof -
  have "finite {i. free_at E s A i}" by (rule finite_subset [of _ "{..<dataPagesPerArea E}"]) (auto simp: free_at_def)
  then show "n \<le> card ({i. free_at E s A i} - {k})" using assms by (simp add: card_Diff_singleton_if) linarith
  show "\<exists>i. free_at E s A i" using assms by (metis card.empty Collect_empty_eq not_less_eq_eq zero_le)
qed

text \<open>The states before and after a step: page \<open>q\<close> is now at the page \<open>i\<close> of the active area \<open>A\<close>, which holds \<open>W\<close>.\<close>

definition step_effect ::
  "'f env \<Rightarrow> ('f \<Rightarrow> PageAbs \<Rightarrow> byte list) \<Rightarrow> nat \<Rightarrow> PageAbs \<Rightarrow> AreaPos \<Rightarrow> nat \<Rightarrow> byte list \<Rightarrow> 'f dev \<Rightarrow> 'f dev \<Rightarrow> bool" where
  "step_effect E content p q A i W s t \<longleftrightarrow>
     mInodePtr (pac t) = Some p \<and> \<not> readOnly t \<and> pac_shape E (pac t) \<and> pac_psm (pac t) = pac_psm (pac s) \<and>
     length (i_direct (inodeMem t p)) = directAddrCount \<and> i_size (inodeMem t p) = i_size (inodeMem s p) \<and>
     (\<forall>q'. page_cached E (pac s) q' \<longrightarrow> page_cached E (pac t) q' \<and>
        held_addr E (pac t) (inodeMem t p) q' =
          (if q' = q then combineAddress A i else held_addr E (pac s) (inodeMem s p) q')) \<and>
     cache_ok E (sc t) \<and> existsSummaryElem (sc t) = existsSummaryElem (sc s) \<and>
     (\<forall>B k. existsSummaryElem (sc s) B \<longrightarrow>
        page_status E (sc t) B k = (if B = A \<and> k = i then SE_used else page_status E (sc s) B k)) \<and>
     (\<exists>tail. content (flash t) = (content (flash s))(getPageNumber E (sb s) (combineAddress A i) := W @ tail)) \<and>
     same_places E (sb s) (sb t) \<and> ((\<exists>k. k \<noteq> i \<and> free_at E s A k) \<longrightarrow> sb t = sb s) \<and>
     pageListHWM (dio_psm (dio t)) = pageListHWM (dio_psm (dio s)) + 1 \<and>
     oldPageList (dio_psm (dio t)) =
       (oldPageList (dio_psm (dio s)))[pageListHWM (dio_psm (dio s)) := held_addr E (pac s) (inodeMem s p) q] \<and>
     tc t = tc s \<and> bt t = bt s \<and> i_no (inodeMem t p) = i_no (inodeMem s p)"

lemma write_page_step_run:
  assumes ok: "flash_ok E content" "small_config E" "write_ready E p N s" "room E (Suc n) s" "page + from < N"
    and offs: "offs < dataBytesPerPage E" "offs \<le> bytes_in_page E sz (page + from)"
    and chunk: "chunk = take (min (length data - written) (dataBytesPerPage E - offs)) (drop written data)"
    and W: "W = new_page (take (bytes_in_page E sz (page + from)) (page_bytes E content s p (page + from))) offs chunk"
  shows "\<exists>t i. run_state (write_page_step E p from data sz page (offs, written)) s = (Inr (0, written + length chunk), t) \<and>
    free_at E s (getActiveArea (sb s) T_data) i \<and>
    step_effect E content p (page + from) (getActiveArea (sb s) T_data) i W s t"
proof -
  define q where "q = page + from"
  define A where "A = getActiveArea (sb s) T_data"
  define old where "old = held_addr E (pac s) (inodeMem s p) q"
  have A: "A \<noteq> 0" "getStatus E (sb s) A = S_active" "getType E (sb s) A = T_data" "existsSummaryElem (sc s) A"
    and card: "Suc n \<le> card {i. free_at E s A i}" and HWM: "pageListHWM (dio_psm (dio s)) < maxPagesPerWrite E"
    using ok(4) by (auto simp: room_def A_def Let_def)
  have s: "mInodePtr (pac s) = Some p" "\<not> readOnly s" "pac_shape E (pac s)" "length (i_direct (inodeMem s p)) = directAddrCount"
    "cache_ok E (sc s)" "page_cached E (pac s) q" "page_stored E s p q"
    "q < directAddrCount \<or> 6 \<le> getMinSpaceLeft (pac_machine E) (pac_psm (pac s))"
    using ok(3,5) by (auto simp: write_ready_def q_def)
  have cfg: "\<not> verifyAS E" "dataBytesPerPage E < 2 ^ 32" using ok(2) by (simp_all add: small_config_def)
  obtain i where free: "run_state (findFirstFreePage E A) s = ((R_ok, Some i), s)" "free_at E s A i"
    using findFirstFreePage_some [OF A(4) free_page_card(1) [OF card]] by blast
  have small: "A < 2 ^ 16" "i < 2 ^ 16"
    using data_area_less [OF A(3)] free(2) ok(2) by (auto simp: small_config_def free_at_def)
  let ?new = "combineAddress A i"
  obtain m j C D where replace: "run_state (replacePage_at E (dio_machine E) ?new old (getTargetInode s) q) s =
      (R_ok, s\<lparr>dio := D, mram := m, jr := j, sc := C\<rparr>)"
    and D: "pageListHWM (dio_psm D) = pageListHWM (dio_psm (dio s)) + 1"
      "oldPageList (dio_psm D) = (oldPageList (dio_psm (dio s)))[pageListHWM (dio_psm (dio s)) := old]"
    and C: "cache_ok E C" "existsSummaryElem C = existsSummaryElem (sc s)"
    "\<forall>B k. existsSummaryElem (sc s) B \<longrightarrow> page_status E C B k = (if B = A \<and> k = i then SE_used else page_status E (sc s) B k)"
    using replacePage_run [OF s(5) A(4,1) s(2) _ free(2) HWM small, of old "getTargetInode s" q] A(3) by auto
  define s1 where "s1 = s\<lparr>dio := D, mram := m, jr := j, sc := C\<rparr>"
  have s1: "pac s1 = pac s" "inodeMem s1 = inodeMem s" "flash s1 = flash s" "sb s1 = sb s" "readOnly s1 = readOnly s"
    by (simp_all add: s1_def)
  then have bytes: "page_bytes E content s1 p q = page_bytes E content s p q" by (simp add: page_bytes_def Let_def)
  have readable: "page_readable E s1 p (from + page)"
    using page_stored_readable [OF s(6,7)] s1 by (simp add: page_readable_def q_def add.commute)
  have len: "offs + length chunk \<le> dataBytesPerPage E" using offs(1) by (simp add: chunk)
  obtain buf n' where fill: "run_state (fill_page E from page offs sz old chunk) s1 = (Some (buf, n'), s1)"
    and buf: "take n' buf = W"
    using fill_page_run [OF ok(1) cfg(1) _ readable cfg(2) len, of sz old] s(1) s1 offs(2) bytes
    by (auto simp: W q_def old_def add.commute)
  have "length W \<le> dataBytesPerPage E"
    using len bytes_in_page_le [of E sz "page + from"] by (simp add: W new_page_def length_page_bytes [OF ok(1)])
  then obtain f tail where wr: "run_state (writePage E (getPageNumber E (sb s) ?new) W) s1 = (R_ok, s1\<lparr>flash := f\<rparr>)"
    "content f = (content (flash s1))(getPageNumber E (sb s) ?new := W @ tail)"
    using run_writePage [OF ok(1), of W "getPageNumber E (sb s) ?new" s1] by (auto simp: totalBytesPerPage_def)
  define s2 where "s2 = s1\<lparr>flash := f\<rparr>"
  have s2: "pac s2 = pac s" "inodeMem s2 = inodeMem s" "sb s2 = sb s" "readOnly s2 = readOnly s" "sc s2 = C" "dio s2 = D"
    "flash s2 = f" by (simp_all add: s2_def s1_def)
  obtain m3 j3 P x where set: "run_state (setPage E q ?new) s2 = (R_ok, s2\<lparr>mram := m3, jr := j3, pac := P, inodeMem := (inodeMem s)(p := x)\<rparr>)"
    and P: "mInodePtr P = Some p" "pac_shape E P" "pac_psm P = pac_psm (pac s)" "i_size x = i_size (inodeMem s p)"
    "i_no x = i_no (inodeMem s p)" "length (i_direct x) = directAddrCount"
    "\<forall>q'. page_cached E (pac s) q' \<longrightarrow> page_cached E P q' \<and>
        held_addr E P x q' = (if q' = q then ?new else held_addr E (pac s) (inodeMem s p) q')"
    using setPage_held [of s2 p E q ?new] s s2 by auto
  define y where "y = (if old = 0 then x\<lparr>i_reservedPages := (i_reservedPages x + 1) mod 2 ^ 16\<rparr> else x)"
  define s4 where "s4 = s2\<lparr>mram := m3, jr := j3, pac := P, inodeMem := (inodeMem s)(p := y)\<rparr>"
  have y: "i_size y = i_size x" "i_no y = i_no x" "i_direct y = i_direct x" "held_addr E P y = held_addr E P x"
    by (auto simp: y_def held_addr_def fun_eq_iff)
  have s4: "sc s4 = C" "sb s4 = sb s" "tc s4 = tc s" "bt s4 = bt s" by (simp_all add: s4_def s2 s2_def s1_def)
  obtain m5 j5 B where full: "run_state (manageActiveAreaFull E T_data) s4 = (R_ok, s4\<lparr>mram := m5, jr := j5, sb := B\<rparr>)"
    "same_places E (sb s) B" "(\<exists>k. free_at E s4 A k) \<longrightarrow> B = sb s"
    using manageActiveAreaFull_run [of s4 E] A(4) C(2) s4 by (auto simp: A_def)
  define t where "t = s4\<lparr>mram := m5, jr := j5, sb := B\<rparr>"
  have "run_state (write_page_step E p from data sz page (offs, written)) s = (Inr (0, written + length chunk), t)"
  proof -
    have find: "run_state (findWritableArea E T_data) u = (A, u)" if "sb u = sb s" for u
      using that A(1) by (simp add: findWritableArea_def A_def)
    have get: "run_state (getPage E (page + from)) s = (Inr old, s)"
      using getPage_cached [OF s(1,6)] by (simp add: q_def old_def)
    have btw: "length chunk = min (length data - written) (dataBytesPerPage E - offs)" by (simp add: chunk)
    have reset: "s\<lparr>lasterr := lasterr s\<rparr> = s" by simp
    show ?thesis
      unfolding write_page_step_def set_lasterr_def
      by (simp add: find reset A_def [symmetric] A(2) free(1) get replace [unfolded q_def] s1_def [symmetric] chunk [symmetric]
          fill buf wr(1) s2_def [symmetric] set [unfolded q_def] s1(4) Let_def)
        (use full(1) in \<open>cases "old = 0"; simp add: s4_def y_def t_def btw\<close>)
  qed
  moreover have "(\<exists>k. k \<noteq> i \<and> free_at E s A k) \<longrightarrow> B = sb s"
    using full(3) C(3) A(4) by (auto simp: free_at_def s4)
  then have "step_effect E content p q A i W s t"
    using P C D wr(2) full(2) s(2) y s4(3,4) by (auto simp: step_effect_def t_def s4_def s2 s1 old_def)
  ultimately show ?thesis using free(2) unfolding q_def A_def by blast
qed

lemma new_page_length:
  "offs \<le> length old \<Longrightarrow> length (new_page old offs chunk) = max (length old) (offs + length chunk)"
  by (simp add: new_page_def max_def)

lemma step_ready:
  assumes cfg: "small_config E" and ready: "write_ready E p N s" and room: "room E (Suc n) s" and A: "A = getActiveArea (sb s) T_data"
    and free: "free_at E s A i" and eff: "step_effect E content p q A i W s t"
  shows "write_ready E p N t" and "room E n t"
proof -
  have act: "getType E (sb s) A = T_data" "existsSummaryElem (sc s) A" "A < 2 ^ 16" "i < 2 ^ 16"
    using room free cfg data_area_less [of E "sb s" A] by (auto simp: room_def A Let_def small_config_def free_at_def)
  have t: "getType E (sb t) = getType E (sb s)" "pos_ok E (sb s) \<Longrightarrow> pos_ok E (sb t)"
    using eff by (auto simp: step_effect_def same_places_def)
  have new: "extractLogicalArea (combineAddress A i) = A" "extractPageOffs (combineAddress A i) = i"
    using act by simp_all
  have "page_cached E (pac t) q' \<and> page_stored E t p q'" if "q' < N" for q'
  proof -
    have c: "page_cached E (pac s) q'" "page_stored E s p q'" using ready that by (simp_all add: write_ready_def)
    then have held: "page_cached E (pac t) q'" "held_addr E (pac t) (inodeMem t p) q' =
        (if q' = q then combineAddress A i else held_addr E (pac s) (inodeMem s p) q')"
      using eff by (simp_all add: step_effect_def)
    have status: "existsSummaryElem (sc t) B = existsSummaryElem (sc s) B"
      "existsSummaryElem (sc s) B \<Longrightarrow> page_status E (sc t) B k = (if B = A \<and> k = i then SE_used else page_status E (sc s) B k)"
      for B k using eff by (simp_all add: step_effect_def)
    show ?thesis
    proof (cases "q' = q")
      case True
      then show ?thesis using held status act(1) new free by (simp add: page_stored_def t(1) free_at_def Let_def)
    next
      case False
      then show ?thesis using held status c(2) by (auto simp: page_stored_def t(1) Let_def)
    qed
  qed
  then show "write_ready E p N t"
    using eff ready t(2) by (auto simp: write_ready_def step_effect_def)
  have HWM: "pageListHWM (dio_psm (dio t)) + n \<le> maxPagesPerWrite E" using room eff by (simp add: room_def step_effect_def)
  show "room E n t"
  proof (cases "n = 0")
    case True
    then show ?thesis using HWM by (simp add: room_def)
  next
    case False
    have card: "n \<le> card ({k. free_at E s A k} - {i})" using room free_page_card(2) by (auto simp: room_def A Let_def)
    then have "{k. free_at E s A k} - {i} \<noteq> {}" using False by (metis card.empty le_zero_eq)
    then have "sb t = sb s" using eff by (auto simp: step_effect_def)
    moreover have "{k. free_at E t A k} = {k. free_at E s A k} - {i}"
      using eff act(2) by (auto simp: free_at_def step_effect_def)
    moreover have "existsSummaryElem (sc t) A" using eff act(2) by (simp add: step_effect_def)
    ultimately show ?thesis using HWM card room by (simp add: room_def A Let_def)
  qed
qed

text \<open>
  The replaced pages and the pages of the file lie in areas whose summaries are cached: then the old pages
  can be made dirty at the end. What the steps leave to the rest of the write.
\<close>

definition old_ready :: "'f env \<Rightarrow> 'f dev \<Rightarrow> Addr \<Rightarrow> bool" where
  "old_ready E s a \<longleftrightarrow> addr_ready E s a \<and> (a \<noteq> 0 \<longrightarrow> extractLogicalArea a < areasNo E)"

definition commit_ready :: "'f env \<Rightarrow> nat \<Rightarrow> nat \<Rightarrow> 'f dev \<Rightarrow> bool" where
  "commit_ready E p N s \<longleftrightarrow> length (oldPageList (dio_psm (dio s))) = maxPagesPerWrite E \<and>
     (\<forall>a\<in>set (take (pageListHWM (dio_psm (dio s))) (oldPageList (dio_psm (dio s)))). old_ready E s a) \<and>
     (\<forall>q<N. old_ready E s (held_addr E (pac s) (inodeMem s p) q))"

definition write_frame :: "'f env \<Rightarrow> nat \<Rightarrow> nat \<Rightarrow> 'f dev \<Rightarrow> 'f dev \<Rightarrow> bool" where
  "write_frame E p N s t \<longleftrightarrow> tc t = tc s \<and> bt t = bt s \<and> i_no (inodeMem t p) = i_no (inodeMem s p) \<and>
     i_size (inodeMem t p) = i_size (inodeMem s p) \<and> pac_psm (pac t) = pac_psm (pac s) \<and>
     (commit_ready E p N s \<longrightarrow> commit_ready E p N t)"

lemma write_frame_refl [simp]: "write_frame E p N s s"
  by (simp add: write_frame_def)

lemma write_frame_trans: "write_frame E p N s t \<Longrightarrow> write_frame E p N t u \<Longrightarrow> write_frame E p N s u"
  by (simp add: write_frame_def)

lemma step_frame:
  assumes cfg: "small_config E" and ready: "write_ready E p N s" and room: "room E (Suc n) s" and q: "q < N"
    and A: "A = getActiveArea (sb s) T_data" and free: "free_at E s A i" and eff: "step_effect E content p q A i W s t"
  shows "write_frame E p N s t"
proof -
  have act: "A \<noteq> 0" "getType E (sb s) A = T_data" "existsSummaryElem (sc s) A" "A < 2 ^ 16" "i < 2 ^ 16" "i < dataPagesPerArea E"
    using room free cfg data_area_less [of E "sb s" A] by (auto simp: room_def A Let_def small_config_def free_at_def)
  have "getType E (sb t) = getType E (sb s)" "existsSummaryElem (sc t) = existsSummaryElem (sc s)"
    using eff by (simp_all add: step_effect_def same_places_def)
  then have ready_eq: "old_ready E t a = old_ready E s a" for a by (simp add: old_ready_def addr_ready_def addr_cached_def)
  have new: "old_ready E s (combineAddress A i)"
    using act data_area_less [OF act(2)] by (simp add: old_ready_def addr_ready_def addr_cached_def)
  have "commit_ready E p N t" if c: "commit_ready E p N s"
  proof -
    let ?h = "pageListHWM (dio_psm (dio s))" and ?l = "oldPageList (dio_psm (dio s))"
    have l: "pageListHWM (dio_psm (dio t)) = Suc ?h"
      "oldPageList (dio_psm (dio t)) = ?l[?h := held_addr E (pac s) (inodeMem s p) q]"
      using eff by (simp_all add: step_effect_def)
    have "?h < length ?l" using room c by (simp add: room_def commit_ready_def)
    then have "take (Suc ?h) (oldPageList (dio_psm (dio t))) = take ?h ?l @ [held_addr E (pac s) (inodeMem s p) q]"
      by (simp add: l(2) take_Suc_update)
    moreover have "held_addr E (pac t) (inodeMem t p) k = (if k = q then combineAddress A i else held_addr E (pac s) (inodeMem s p) k)"
      if "k < N" for k
      using eff ready that by (simp add: step_effect_def write_ready_def)
    ultimately show ?thesis using c q new l by (auto simp: commit_ready_def ready_eq)
  qed
  then show ?thesis using eff by (simp add: write_frame_def step_effect_def)
qed

lemma step_written:
  assumes ok: "flash_ok E content" and cfg: "small_config E" and ready: "write_ready E p N s" and room: "room E (Suc n) s"
    and A: "A = getActiveArea (sb s) T_data" and q: "q < N"
    and free: "free_at E s A i" and eff: "step_effect E content p q A i W s t" and W: "length W \<le> dataBytesPerPage E"
  shows "page_written E content p N q W s t"
proof -
  have act: "A \<noteq> 0" "getType E (sb s) A = T_data" "existsSummaryElem (sc s) A" "A < areasNo E" "A < 2 ^ 16" "i < 2 ^ 16"
    "i < totalPagesPerArea E"
    using room free cfg data_area_less [of E "sb s" A] by (auto simp: room_def A Let_def small_config_def free_at_def)
  let ?new = "combineAddress A i"
  have new: "extractLogicalArea ?new = A" "extractPageOffs ?new = i" using act by simp_all
  then have "?new \<noteq> 0" using act(1) by (metis extractLogicalArea_def drop_bit_of_0 unsigned_0)
  obtain tail where content: "content (flash t) = (content (flash s))(getPageNumber E (sb s) ?new := W @ tail)"
    using eff by (auto simp: step_effect_def)
  have place: "getPageNumber E (sb t) = getPageNumber E (sb s)" using eff by (simp add: step_effect_def same_places_def)
  have c: "page_cached E (pac s) q'" "page_stored E s p q'" if "q' < N" for q'
    using ready that by (simp_all add: write_ready_def)
  have held: "held_addr E (pac t) (inodeMem t p) q' = (if q' = q then ?new else held_addr E (pac s) (inodeMem s p) q')"
    if "q' < N" for q' using eff c(1) [OF that] by (simp add: step_effect_def)
  have "page_bytes E content t p q = take (dataBytesPerPage E) (W @ tail)"
    using held [OF q] \<open>?new \<noteq> 0\<close> by (simp add: page_bytes_def place content)
  then have "take (length W) (page_bytes E content t p q) = W" using W by simp
  moreover have "page_bytes E content t p q' = page_bytes E content s p q'" if q': "q' < N" "q' \<noteq> q" for q'
  proof -
    define a where "a = held_addr E (pac s) (inodeMem s p) q'"
    have at: "held_addr E (pac t) (inodeMem t p) q' = a" using held q' by (simp add: a_def)
    show ?thesis
    proof (cases "a = 0")
      case True
      then show ?thesis using at by (simp add: page_bytes_def a_def)
    next
      case False
      then have a: "getType E (sb s) (extractLogicalArea a) = T_data" "extractPageOffs a < totalPagesPerArea E"
        "existsSummaryElem (sc s) (extractLogicalArea a) \<Longrightarrow> page_status E (sc s) (extractLogicalArea a) (extractPageOffs a) \<noteq> SE_free"
        using c(2) [OF q'(1)] cfg by (auto simp: page_stored_def a_def Let_def small_config_def)
      have "a \<noteq> ?new" using a(3) free act(3) new by (auto simp: free_at_def)
      moreover have "pos_ok E (sb s)" using ready by (simp add: write_ready_def)
      ultimately have "getPageNumber E (sb s) a \<noteq> getPageNumber E (sb s) ?new"
        using page_number_unique [of E "sb s" a ?new] a(1,2) data_area_less act(4,7) new by metis
      then show ?thesis using at by (simp add: page_bytes_def a_def [symmetric] place content)
    qed
  qed
  ultimately show ?thesis using eff by (simp add: page_written_def step_effect_def)
qed

end
