(* ===== verification/FileWriting.thy ===== *)
theory FileWriting
  imports FileSteps
begin

text \<open>
  Writing the pages of a file: as long as the active data area has room, the address pages of the file
  are cached and its area summary is, the contents of the file afterwards are the old contents with the
  written bytes in place.
\<close>

subsection \<open>The loop over the pages\<close>

text \<open>The byte \<open>j\<close> of the pages of the file.\<close>

definition byte_at :: "'f env \<Rightarrow> ('f \<Rightarrow> PageAbs \<Rightarrow> byte list) \<Rightarrow> 'f dev \<Rightarrow> nat \<Rightarrow> nat \<Rightarrow> byte" where
  "byte_at E content s p j = page_bytes E content s p (j div dataBytesPerPage E) ! (j mod dataBytesPerPage E)"

lemma nth_concat_const:
  assumes "\<And>i. length (f i) = d" and "j < n * d"
  shows "concat (map f [0 ..< n]) ! j = f (j div d) ! (j mod d)"
proof -
  define k where "k = j div d"
  have j: "k < n" "j = k * d + j mod d" "j mod d < d"
    using assms(2) by (cases "d = 0"; simp add: k_def less_mult_imp_div_less)+
  have "[0 ..< n] = [0 ..< k] @ k # [k + 1 ..< n]"
    using j(1) upt_add_eq_append [of 0 k "n - k"] by (simp add: upt_conv_Cons)
  moreover have "length (concat (map f [0 ..< k])) = k * d" using assms(1) by (simp add: length_concat_const)
  ultimately have "concat (map f [0 ..< n]) ! (k * d + j mod d) = f k ! (j mod d)"
    using j(3) assms(1) by (simp add: nth_append)
  then show ?thesis using j(2) by (simp add: k_def)
qed

text \<open>
  A file of \<open>sz\<close> bytes in which the bytes of \<open>data\<close> up to the position \<open>m\<close> have been written behind \<open>o'\<close>.
\<close>

definition written_to ::
  "'f env \<Rightarrow> ('f \<Rightarrow> PageAbs \<Rightarrow> byte list) \<Rightarrow> nat \<Rightarrow> nat \<Rightarrow> nat \<Rightarrow> byte list \<Rightarrow> nat \<Rightarrow> 'f dev \<Rightarrow> 'f dev \<Rightarrow> bool" where
  "written_to E content p sz o' data m s t \<longleftrightarrow>
     (\<forall>j<max sz m. byte_at E content t p j = (if o' \<le> j \<and> j < m then data ! (j - o') else byte_at E content s p j))"

lemma nth_new_page:
  assumes "offs \<le> length old" and "x < max (length old) (offs + length chunk)"
  shows "new_page old offs chunk ! x =
    (if offs \<le> x \<and> x < offs + length chunk then chunk ! (x - offs) else old ! x)"
  using assms by (auto simp: new_page_def nth_append min_def)

text \<open>A byte of the page that was written, and a byte of another page.\<close>

lemma written_inside:
  assumes d: "0 < dataBytesPerPage E" and q: "j div dataBytesPerPage E = q"
    and m: "q * dataBytesPerPage E \<le> m" "m \<le> m'" and offs: "offs = m - q * dataBytesPerPage E" "offs \<le> bytes_in_page E sz q"
    and lc: "length chunk = m' - m" and j: "j < max sz m'"
    and page: "page_written E content p N q (new_page (take (bytes_in_page E sz q) (page_bytes E content t p q)) offs chunk) t u"
    and len: "length (page_bytes E content t p q) = dataBytesPerPage E"
  shows "byte_at E content u p j = (if m \<le> j \<and> j < m' then chunk ! (j - m) else byte_at E content t p j)"
proof -
  let ?d = "dataBytesPerPage E" and ?b = "bytes_in_page E sz q"
  define B where "B = take ?b (page_bytes E content t p q)"
  define x where "x = j mod ?d"
  have B: "length B = ?b" using len bytes_in_page_le [of E sz q] by (simp add: B_def)
  have x: "j = q * ?d + x" "x < ?d" using d div_mult_mod_eq [of j ?d] by (simp_all add: x_def q)
  have W: "length (new_page B offs chunk) = max ?b (offs + (m' - m))"
    using new_page_length [of offs B chunk] B lc offs(2) by simp
  have xb: "x < ?b" if "j < sz" using that x by (auto simp: bytes_in_page_def add_mult_distrib)
  then have xW: "x < max ?b (offs + (m' - m))" using j x(1) offs(1) m by (auto simp: max_def split: if_splits)
  have "take (length (new_page B offs chunk)) (page_bytes E content u p q) = new_page B offs chunk"
    using page by (simp add: page_written_def B_def)
  then have "page_bytes E content u p q ! x = new_page B offs chunk ! x" using xW W by (metis nth_take)
  also have "\<dots> = (if offs \<le> x \<and> x < offs + (m' - m) then chunk ! (x - offs) else B ! x)"
    using nth_new_page [of offs B x chunk] xW B lc offs(2) by simp
  finally have px: "page_bytes E content u p q ! x = (if offs \<le> x \<and> x < offs + (m' - m) then chunk ! (x - offs) else B ! x)" .
  have "offs \<le> x \<longleftrightarrow> m \<le> j" "x < offs + (m' - m) \<longleftrightarrow> j < m'" "x - offs = j - m"
    using x(1) offs(1) m by linarith+
  then have u: "byte_at E content u p j = (if m \<le> j \<and> j < m' then chunk ! (j - m) else B ! x)"
    using px by (simp add: byte_at_def x_def q)
  have "B ! x = byte_at E content t p j" if "\<not> (m \<le> j \<and> j < m')"
  proof -
    have "x < ?b" using xW that x(1) offs m by (auto simp: max_def split: if_splits)
    then show ?thesis by (simp add: B_def byte_at_def x_def q)
  qed
  then show ?thesis using u by auto
qed

lemma written_outside:
  assumes "page_written E content p N q W t u" and "j div dataBytesPerPage E < N" and "j div dataBytesPerPage E \<noteq> q"
  shows "byte_at E content u p j = byte_at E content t p j"
  using assms by (simp add: byte_at_def page_written_def)

lemma other_page:
  assumes "0 < d" and "j div d \<noteq> q"
  obtains "j < q * d" | "(q + 1) * d \<le> (j :: nat)"
proof (cases "j div d < q")
  case True
  then have "j < q * d" using assms(1) by (simp add: div_less_iff_less_mult)
  then show ?thesis by (rule that(1))
next
  case False
  then have "q + 1 \<le> j div d" using assms(2) by simp
  then have "(q + 1) * d \<le> j" using assms(1) less_eq_div_iff_mult_less_eq by blast
  then show ?thesis by (rule that(2))
qed

lemma written_page:
  assumes d: "0 < dataBytesPerPage E" and before: "written_to E content p sz o' data m s t"
    and m: "m = (if q * dataBytesPerPage E \<le> o' then o' else q * dataBytesPerPage E)" "q * dataBytesPerPage E \<le> m"
    and m': "m' = min (o' + length data) ((q + 1) * dataBytesPerPage E)" "m \<le> m'" "o' \<le> sz"
    and offs: "offs = m - q * dataBytesPerPage E" "offs \<le> dataBytesPerPage E" "offs \<le> bytes_in_page E sz q"
    and chunk: "chunk = take (m' - m) (drop (m - o') data)"
    and page: "page_written E content p N q (new_page (take (bytes_in_page E sz q) (page_bytes E content t p q)) offs chunk) t u"
    and len: "length (page_bytes E content t p q) = dataBytesPerPage E" and N: "max sz (o' + length data) \<le> N * dataBytesPerPage E"
  shows "written_to E content p sz o' data m' s u"
  unfolding written_to_def
proof (intro allI impI)
  fix j assume j: "j < max sz m'"
  let ?d = "dataBytesPerPage E"
  have om: "o' \<le> m" by (simp add: m(1))
  have lc: "length chunk = m' - m" using om m'(1,2) by (simp add: chunk)
  have jN: "j div ?d < N" using j N m'(1) by (intro less_mult_imp_div_less) linarith
  have old: "byte_at E content t p j = (if o' \<le> j \<and> j < m then data ! (j - o') else byte_at E content s p j)"
    if "j < max sz m" using before that by (simp add: written_to_def)
  show "byte_at E content u p j = (if o' \<le> j \<and> j < m' then data ! (j - o') else byte_at E content s p j)"
  proof (cases "j div ?d = q")
    case True
    have u: "byte_at E content u p j = (if m \<le> j \<and> j < m' then chunk ! (j - m) else byte_at E content t p j)"
      by (rule written_inside [OF d True m(2) m'(2) offs(1,3) lc j page len])
    show ?thesis
    proof (cases "m \<le> j \<and> j < m'")
      case True
      then have "j - m < m' - m" "m - o' + (j - m) = j - o'" "m - o' \<le> length data" using om m'(1,2) by auto
      then have "chunk ! (j - m) = data ! (j - o')" by (simp add: chunk)
      then show ?thesis using u True om by simp
    next
      case False
      have "q * ?d \<le> j" using True d div_mult_mod_eq [of j ?d] by (metis le_add1)
      then have "j < sz" "\<not> (o' \<le> j \<and> j < m)" using False j m m'(2,3) by (auto simp: max_def split: if_splits)
      then show ?thesis using u False old m'(2) m(1) \<open>q * ?d \<le> j\<close> by auto
    qed
  next
    case False
    have u: "byte_at E content u p j = byte_at E content t p j" by (rule written_outside [OF page jN False])
    from other_page [OF d False] show ?thesis
    proof cases
      case 1
      then have "j < max sz m" using m(2) by simp
      then show ?thesis using u old 1 m m'(2) by auto
    next
      case 2
      then have "m' \<le> j" "j < sz" using j m'(1) by auto
      then show ?thesis using u old m'(2) by auto
    qed
  qed
qed

lemma write_page_step_ok:
  assumes ok: "flash_ok E content" "small_config E" "write_ready E p N t" "room E (Suc n) t" "page + from < N"
    and offs: "offs < dataBytesPerPage E" "offs \<le> bytes_in_page E sz (page + from)"
    and chunk: "chunk = take (min (length data - written) (dataBytesPerPage E - offs)) (drop written data)"
  shows "\<exists>u. run_state (write_page_step E p from data sz page (offs, written)) t = (Inr (0, written + length chunk), u) \<and>
    write_ready E p N u \<and> room E n u \<and> write_frame E p N t u \<and>
    page_written E content p N (page + from)
      (new_page (take (bytes_in_page E sz (page + from)) (page_bytes E content t p (page + from))) offs chunk) t u"
proof -
  define b where "b = bytes_in_page E sz (page + from)"
  define W where "W = new_page (take b (page_bytes E content t p (page + from))) offs chunk"
  define A where "A = getActiveArea (sb t) T_data"
  obtain u i where u: "run_state (write_page_step E p from data sz page (offs, written)) t = (Inr (0, written + length chunk), u)"
    and i: "free_at E t A i" and eff: "step_effect E content p (page + from) A i W t u"
    using write_page_step_run [OF ok offs chunk] unfolding W_def A_def b_def by blast
  have "length (take b (page_bytes E content t p (page + from))) = b"
    using bytes_in_page_le [of E sz "page + from"] by (simp add: length_page_bytes [OF ok(1)] b_def)
  moreover have "offs + length chunk \<le> dataBytesPerPage E" "offs \<le> b" "b \<le> dataBytesPerPage E"
    using offs bytes_in_page_le [of E sz "page + from"] by (simp_all add: chunk b_def)
  ultimately have "length W \<le> dataBytesPerPage E" by (simp add: W_def new_page_length)
  then show ?thesis
    using u step_ready [OF ok(2,3,4) A_def i eff] step_frame [OF ok(2,3,4,5) A_def i eff] step_written [OF ok(1,2,3,4) A_def ok(5) i eff]
    unfolding W_def b_def by blast
qed

lemma write_loop:
  assumes ok: "flash_ok E content" "small_config E" "0 < dataBytesPerPage E" "write_ready E p N s" "room E n s"
    and offs: "offs < dataBytesPerPage E" and o': "o' = from * dataBytesPerPage E + offs" "o' \<le> sz"
    and len: "(from + n - 1) * dataBytesPerPage E < o' + length data" "o' + length data \<le> (from + n) * dataBytesPerPage E"
    and N: "max sz (o' + length data) \<le> N * dataBytesPerPage E" "from + n \<le> N"
  shows "\<exists>x t. run_state (loopM [0 ..< n] (offs, 0) (write_page_step E p from data sz)) s = (Inr (x, length data), t) \<and>
    write_ready E p N t \<and> write_frame E p N s t \<and> written_to E content p sz o' data (o' + length data) s t"
proof -
  let ?d = "dataBytesPerPage E"
  define M where "M = (\<lambda>k. min (o' + length data) (max o' ((from + k) * ?d)))"
  let ?J = "\<lambda>k a t. write_ready E p N t \<and> room E (n - k) t \<and> write_frame E p N s t \<and>
    a = (if k = 0 then offs else 0, M k - o') \<and> written_to E content p sz o' data (M k) s t"
  have "\<exists>a t. run_state (loopM [0 ..< n] (offs, 0) (write_page_step E p from data sz)) s = (Inr a, t) \<and> ?J n a t"
  proof (rule loopM_index [where J = ?J])
    have "M 0 = o'" using o'(1) by (simp add: M_def)
    then show "?J 0 (offs, 0) s" using ok(4,5) by (auto simp: written_to_def)
  next
    fix k and a :: "nat \<times> nat" and t assume k: "k < n" and J: "?J k a t"
    define q where "q = k + from"
    define m where "m = M k"
    define m' where "m' = min (o' + length data) ((q + 1) * ?d)"
    define offs' where "offs' = (if k = 0 then offs else 0)"
    have "q * ?d \<le> (from + n - 1) * ?d" using k by (intro mult_le_mono1) (simp add: q_def)
    then have q: "q * ?d < o' + length data" using len(1) by linarith
    have Sq: "(q + 1) * ?d = q * ?d + ?d" by simp
    have first: "k = 0 \<Longrightarrow> q * ?d + offs = o'" using o'(1) by (simp add: q_def)
    have later: "k \<noteq> 0 \<Longrightarrow> o' \<le> q * ?d"
      using mult_le_mono1 [of "from + 1" q ?d] o'(1) offs by (simp add: q_def)
    have m: "m = (if q * ?d \<le> o' then o' else q * ?d)" "q * ?d \<le> m" "m = q * ?d + offs'"
      using q first later offs by (auto simp: m_def M_def q_def offs'_def add.commute min_def max_def split: if_splits)
    have m': "m \<le> m'" "M (Suc k) = m'" "o' \<le> m"
      using q m first later offs Sq by (auto simp: m'_def M_def q_def offs'_def min_def max_def add.commute split: if_splits)
    define chunk where "chunk = take (min (length data - (m - o')) (?d - offs')) (drop (m - o') data)"
    have "min (length data - (m - o')) (?d - offs') = m' - m" using m m' Sq by (auto simp: m'_def)
    then have chunk: "chunk = take (m' - m) (drop (m - o') data)" by (simp add: chunk_def)
    have b: "offs' \<le> bytes_in_page E sz q"
      using first o'(2) offs by (auto simp: offs'_def bytes_in_page_def)
    have offs': "offs' < ?d" "offs' = m - q * ?d" "offs' \<le> ?d" using offs m ok(3) by (auto simp: offs'_def)
    have a: "a = (offs', m - o')" using J by (simp add: offs'_def m_def)
    have "room E (Suc (n - Suc k)) t" "k + from < N" using J k N(2) by (simp_all add: Suc_diff_Suc)
    from write_page_step_ok [OF ok(1,2) _ this offs'(1) b [unfolded q_def] chunk_def]
    obtain u where u: "run_state (write_page_step E p from data sz k a) t = (Inr (0, m - o' + length chunk), u)"
      "write_ready E p N u" "room E (n - Suc k) u" "write_frame E p N t u"
      "page_written E content p N q (new_page (take (bytes_in_page E sz q) (page_bytes E content t p q)) offs' chunk) t u"
      using J a unfolding q_def by auto
    have "length chunk = m' - m" using m' by (simp add: chunk m'_def)
    moreover have "written_to E content p sz o' data m' s u"
      using written_page [OF ok(3) _ m(1,2) m'_def m'(1) o'(2) offs'(2,3) b chunk u(5) length_page_bytes [OF ok(1)] N(1)] J
      by (simp add: m_def)
    ultimately show "\<exists>a' u. run_state (write_page_step E p from data sz k a) t = (Inr a', u) \<and> ?J (Suc k) a' u"
      using u J m' write_frame_trans [of E p N s t u] by (intro exI [of _ "(0, m' - o')"] exI [of _ u]) simp
  qed
  moreover have "M n = o' + length data" using len(2) by (simp add: M_def)
  ultimately show ?thesis by auto
qed

subsection \<open>The whole write\<close>

text \<open>The first \<open>n\<close> bytes in the pages of the file; the size of the inode is set after the pages are written.\<close>

definition contents :: "'f env \<Rightarrow> ('f \<Rightarrow> PageAbs \<Rightarrow> byte list) \<Rightarrow> nat \<Rightarrow> 'f dev \<Rightarrow> nat \<Rightarrow> byte list" where
  "contents E content n s p = take n (concat (map (page_bytes E content s p) [0 ..< ceil_div n (dataBytesPerPage E)]))"

lemma file_bytes_contents: "file_bytes E content s p = contents E content (i_size (inodeMem s p)) s p"
  by (simp add: file_bytes_def contents_def)

lemma contents_bytes:
  assumes "flash_ok E content" and "0 < dataBytesPerPage E"
  shows "contents E content n s p = map (byte_at E content s p) [0 ..< n]"
proof (rule nth_equalityI)
  have page: "\<And>i. length (page_bytes E content s p i) = dataBytesPerPage E" by (rule length_page_bytes [OF assms(1)])
  have n: "n \<le> ceil_div n (dataBytesPerPage E) * dataBytesPerPage E" by (rule ceil_div_le [OF assms(2)])
  then show len: "length (contents E content n s p) = length (map (byte_at E content s p) [0 ..< n])"
    using page by (simp add: contents_def length_concat_const min_def)
  fix j assume "j < length (contents E content n s p)"
  then have j: "j < n" using len by simp
  then show "contents E content n s p ! j = map (byte_at E content s p) [0 ..< n] ! j"
    using nth_concat_const [of "page_bytes E content s p", OF page, of j "ceil_div n (dataBytesPerPage E)"] n
    by (simp add: contents_def byte_at_def)
qed

lemma written_contents:
  assumes ok: "flash_ok E content" "0 < dataBytesPerPage E"
    and w: "written_to E content p sz o' data (o' + length data) s t" and o': "o' \<le> sz" and sz: "sz = i_size (inodeMem s p)"
  shows "contents E content (max sz (o' + length data)) t p =
    take o' (file_bytes E content s p) @ data @ drop (o' + length data) (file_bytes E content s p)"
    (is "?L = ?R")
proof (rule nth_equalityI)
  have old: "file_bytes E content s p = map (byte_at E content s p) [0 ..< sz]"
    by (simp add: file_bytes_contents contents_bytes [OF ok] sz)
  have new: "?L = map (byte_at E content t p) [0 ..< max sz (o' + length data)]" by (rule contents_bytes [OF ok])
  show "length ?L = length ?R" unfolding new old using o' by simp
  fix j assume "j < length ?L"
  then have j: "j < max sz (o' + length data)" unfolding new by simp
  then have "?L ! j = (if o' \<le> j \<and> j < o' + length data then data ! (j - o') else byte_at E content s p j)"
    using w unfolding new written_to_def by simp
  then show "?L ! j = ?R ! j" unfolding old using o' j by (auto simp: nth_append min_def)
qed


lemma write_pages:
  assumes "flash_ok E content" and "small_config E" and "0 < dataBytesPerPage E"
    and "write_ready E p N s" and "room E (last_page E (offs + length data) + 1 - offs div dataBytesPerPage E) s"
    and "offs \<le> i_size (inodeMem s p)" and "0 < length data" and "offs + length data < 2 ^ 32"
    and "max (i_size (inodeMem s p)) (offs + length data) \<le> N * dataBytesPerPage E" and "N < 2 ^ 16"
  shows "\<exists>t. run_state (writePageData E p (offs div dataBytesPerPage E) (last_page E (offs + length data))
        (offs mod dataBytesPerPage E) data (i_size (inodeMem s p))) s = ((R_ok, length data), t) \<and>
     write_ready E p N t \<and> write_frame E p N s t \<and>
     contents E content (max (i_size (inodeMem s p)) (offs + length data)) t p =
       take offs (file_bytes E content s p) @ data @ drop (offs + length data) (file_bytes E content s p)"
proof -
  let ?d = "dataBytesPerPage E"
  define q where "q = offs div ?d"
  define l where "l = last_page E (offs + length data)"
  have offs: "offs = q * ?d + offs mod ?d" "offs mod ?d < ?d" using assms(3) by (simp_all add: q_def)
  have l: "l * ?d < offs + length data" "offs + length data \<le> (l + 1) * ?d"
    using last_page_bounds [of "offs + length data" E] assms(3,7,8) by (simp_all add: l_def)
  have "q * ?d < (l + 1) * ?d" using l(2) offs assms(7) by linarith
  then have q: "q \<le> l" by (metis Suc_eq_plus1 less_Suc_eq_le mult_less_cancel2)
  have "l * ?d < N * ?d" using l(1) assms(9) by linarith
  then have N: "l < N" by (metis mult_less_cancel2)
  define n where "n = l + 1 - q"
  have n: "q + n = l + 1" using q by (simp add: n_def)
  obtain x t where loop: "run_state (loopM [0 ..< n] (offs mod ?d, 0) (write_page_step E p q data (i_size (inodeMem s p)))) s =
      (Inr (x, length data), t)"
    and t: "write_ready E p N t" "write_frame E p N s t"
    and w: "written_to E content p (i_size (inodeMem s p)) offs data (offs + length data) s t"
    using write_loop [OF assms(1-4) _ offs(2,1) assms(6) _ _ assms(9), of n] assms(5) l n N
    by (auto simp: l_def [symmetric] q_def [symmetric] n_def)
  have "sub32 l q = l - q" using q N assms(10) by (intro sub32_le) simp_all
  then have "page_span q l = Some [0 ..< n]"
    using q N assms(10) by (simp add: page_span_def n_def Let_def Suc_diff_le)
  moreover have "\<not> readOnly s" using assms(4) by (simp add: write_ready_def)
  ultimately have "run_state (writePageData E p q l (offs mod ?d) data (i_size (inodeMem s p))) s = ((R_ok, length data), t)"
    using q offs(2) loop by (simp add: writePageData_def)
  then show ?thesis
    using t written_contents [OF assms(1,3) w assms(6) refl] unfolding q_def l_def by blast
qed

text \<open>
  When the pages of a file are in reach and there is room for the new pages in the active data area
  and in the transaction, a write at an offset inside the file or at its end writes all bytes, and the
  contents of the file afterwards are the old ones with exactly the written bytes replaced: the rest of
  the first and of the last page, and all other pages, survive.
\<close>

theorem write_is_splice:
  assumes "flash_ok E content" and "small_config E" and "0 < dataBytesPerPage E"
    and "write_ready E p N s" and "room E (last_page E (offs + length data) + 1 - offs div dataBytesPerPage E) s"
    and "offs \<le> i_size (inodeMem s p)" and "0 < length data" and "offs + length data < 2 ^ 32"
    and "max (i_size (inodeMem s p)) (offs + length data) \<le> N * dataBytesPerPage E" and "N < 2 ^ 16"
  shows "\<exists>t. run_state (writePageData E p (offs div dataBytesPerPage E) (last_page E (offs + length data))
        (offs mod dataBytesPerPage E) data (i_size (inodeMem s p))) s = ((R_ok, length data), t) \<and>
     contents E content (max (i_size (inodeMem s p)) (offs + length data)) t p =
       take offs (file_bytes E content s p) @ data @ drop (offs + length data) (file_bytes E content s p)"
  using write_pages [OF assms] by blast

text \<open>A file of 20 bytes whose first page is written; the summary of the active data area is in the cache.\<close>

definition ex_write_dev :: "ram_flash dev" where
  "ex_write_dev = ex_dev\<lparr>flash := (\<lambda>_. replicate 16 1), pac := (pac ex_dev)\<lparr>mInodePtr := Some 5\<rparr>,
     sc := (sc ex_dev)\<lparr>mSummaryCache := [elem_setStatus 3 0 SE_used (ex_elem 2), new_elem 3, new_elem 3], mTranslation := [(2, 0)]\<rparr>,
     inodeMem := (\<lambda>_. ex_inode\<lparr>i_size := 20, i_direct := combineAddress 2 0 # replicate 10 0\<rparr>)\<rparr>"

lemma ex_write_simps [simp]:
  "sb ex_write_dev = ex_sb" "readOnly ex_write_dev = False" "mTranslation (sc ex_write_dev) = [(2, 0)]"
  "mSummaryCache (sc ex_write_dev) = [elem_setStatus 3 0 SE_used (ex_elem 2), new_elem 3, new_elem 3]"
  "i_size (inodeMem ex_write_dev x) = 20" "i_direct (inodeMem ex_write_dev x) = combineAddress 2 0 # replicate 10 0"
  "mInodePtr (pac ex_write_dev) = Some 5" "flash ex_write_dev = (\<lambda>_. replicate 16 1)" "dio ex_write_dev = dio ex_dev"
  "pageListHWM (dio_psm (dio ex_dev)) = 0" "maxPagesPerWrite ex_env = 4"
  by (simp_all add: ex_write_dev_def ex_dev_def ex_psm_def ex_env_def)

lemma ex_write_status:
  "page_status ex_env (sc ex_write_dev) 2 k = (if k = 0 then SE_used else list_getStatus 3 k (TwoBitList_clear 3))"
proof -
  have "length (mEntries (ex_elem 2)) = TwoBitList_byteUsage 3" "isUsed (ex_elem 2)"
    by (simp_all add: ex_elem_def TwoBitList_clear_def isUsed_def)
  from elem_getStatus_setStatus [OF this] show ?thesis
    by (simp add: page_status_def area_elem_def getSummaryElemPos_def elem_getStatus_def ex_elem_def isUsed_def)
qed

lemma ex_write_free: "{i. free_at ex_env ex_write_dev 2 i} = {1, 2}"
proof -
  have list: "list_getStatus 3 1 (TwoBitList_clear 3) = SE_free" "list_getStatus 3 2 (TwoBitList_clear 3) = SE_free"
    by code_simp+
  have three: "i < 3 \<longleftrightarrow> i = 0 \<or> i = 1 \<or> i = 2" for i :: nat by auto
  have "free_at ex_env ex_write_dev 2 i \<longleftrightarrow>
      i < 3 \<and> (if i = 0 then SE_used else list_getStatus 3 i (TwoBitList_clear 3)) = SE_free" for i
    by (simp only: free_at_def ex_dims ex_write_status)
  then have "free_at ex_env ex_write_dev 2 i \<longleftrightarrow> i = 1 \<or> i = 2" for i
    using list by (cases "i = 1"; cases "i = 2"; cases "i = 0") (simp_all only: three, simp_all)
  then show ?thesis by auto
qed

lemma ex_write_held:
  "q < 2 \<Longrightarrow> held_addr ex_env (pac ex_write_dev) (inodeMem ex_write_dev 5) q = (if q = 0 then combineAddress 2 0 else 0)"
  by (auto simp: held_addr_def directAddrCount_def nth_Cons split: nat.split)

lemma ex_write_ready: "write_ready ex_env 5 2 ex_write_dev" and ex_write_room: "room ex_env 2 ex_write_dev"
proof -
  note held = ex_write_held
  have "cache_ok ex_env (sc ex_write_dev)"
    using slot_change_setStatus [where e = "ex_elem 2" and N = 3 and i = 0 and v = SE_used, unfolded slot_change_def]
    by (simp add: cache_ok_def slot_filled_def) (simp add: ex_elem_def isUsed_def TwoBitList_clear_def)
  moreover have "pac_shape ex_env (pac ex_write_dev)"
    by (simp add: pac_shape_def ex_write_dev_def ex_dev_def ex_addr_list_def) (simp add: addrsPerPage_def ex_env_def)
  moreover have "page_stored ex_env ex_write_dev 5 q" if "q < 2" for q
    using held [OF that] by (simp add: page_stored_def getType_def ex_sb_def ex_area_def ex_write_status)
  moreover have "page_cached ex_env (pac ex_write_dev) q" if "q < 2" for q
    using that by (simp add: page_cached_def directAddrCount_def)
  ultimately show "write_ready ex_env 5 2 ex_write_dev"
    using ex_pos_ok by (simp add: write_ready_def directAddrCount_def)
  have "getActiveArea ex_sb T_data = 2" by (simp add: getActiveArea_def ex_sb_def)
  then show "room ex_env 2 ex_write_dev"
    by (simp add: room_def ex_write_free getStatus_def getType_def existsSummaryElem_def) (simp add: ex_sb_def ex_area_def)
qed

theorem write_is_splice_witness:
  "\<exists>t. run_state (writePageData ex_env 5 0 1 15 [7, 8, 9] 20) ex_write_dev = ((R_ok, 3), t) \<and>
     contents ex_env ex_content 20 t 5 = replicate 15 1 @ [7, 8, 9] @ [0, 0]"
proof -
  have old: "file_bytes ex_env ex_content ex_write_dev 5 = replicate 16 1 @ replicate 4 0"
  proof -
    have "combineAddress 2 0 \<noteq> 0" by code_simp
    then have "page_bytes ex_env ex_content ex_write_dev 5 0 = replicate 16 1" "page_bytes ex_env ex_content ex_write_dev 5 1 = replicate 16 0"
      by (simp_all add: page_bytes_def ex_write_held ex_content_def)
    moreover have "[0 ..< 2] = [0, 1 :: nat]" by (simp add: upt_rec)
    moreover have "ceil_div 20 16 = 2" by (simp add: ceil_div_def)
    ultimately show ?thesis by (simp add: file_bytes_def)
  qed
  have eqs: "15 + 3 = (18 :: nat)" "last_page ex_env 18 = 1" "15 div dataBytesPerPage ex_env = 0" "15 mod dataBytesPerPage ex_env = 15"
    "1 + 1 - 0 = (2 :: nat)" "i_size (inodeMem ex_write_dev 5) = 20" "max 20 18 = (20 :: nat)" "length [7 :: byte, 8, 9] = 3"
    by (simp_all add: last_page_def)
  have small: "small_config ex_env" by (simp add: small_config_def)
  have "take 15 (replicate 16 1 @ replicate 4 0) @ [7, 8, 9] @ drop 18 (replicate 16 1 @ replicate 4 (0 :: byte)) =
      replicate 15 1 @ [7, 8, 9] @ [0, 0]" by (simp add: numeral_eq_Suc)
  then show ?thesis
    using write_is_splice [OF ex_flash small _ ex_write_ready, of 15 "[7, 8, 9]", unfolded eqs old] ex_write_room by simp
qed

end
