(* ===== verification/FileCommit.thy ===== *)
theory FileCommit
  imports FileWriting BtreeUpdate FlashFrames
begin

text \<open>
  The end of a write: making the replaced pages dirty may write the summary of an area that has become
  dirty as a whole, but no page of data.
\<close>

subsection \<open>A page becomes dirty\<close>

lemma after_dirty_data:
  assumes ok: "flash_ok E content" "config_ok E" "\<not> verifyAS E" "\<not> writeVerifyAS E" "pos_ok E (sb s)"
    and A: "cache_ok E (sc s)" "existsSummaryElem (sc s) area" "area < areasNo E"
    and run: "run_state (after_dirty E area page) s = (r, t)"
  shows "data_kept E content s t"
proof -
  have "getArea (area_elem (sc s) area) = area"
    using cached_slot [OF A(1,2)] by (simp add: slot_filled_def getArea_def area_elem_def)
  then have less: "getArea (area_elem (sc s) area) < areasNo E" using A(3) by simp
  obtain x w where w: "run_state (writeAreasummary E (area_elem (sc s) area)) s = (x, w)" by (metis surj_pair)
  have "flash t = flash s \<or> flash t = flash w"
    using run ok(3,4) w by (auto simp: after_dirty_def Let_def split: if_splits prod.splits)
  then show ?thesis
    using writeAreasummary_data [OF ok(1-3,5) refl less w] by (auto simp: data_kept_def)
qed

lemma dirty_page_data:
  assumes ok: "flash_ok E content" "config_ok E" "\<not> verifyAS E" "\<not> writeVerifyAS E" "pos_ok E (sb s)" "cache_ok E (sc s)"
    and a: "old_ready E s a" and run: "run_state (dirty_page E a) s = (r, t)"
  shows "data_kept E content s t"
proof (cases "a = 0 \<or> readOnly s")
  case True
  then show ?thesis
    using run by (auto simp: dirty_page_def setPageStatus_addr_def setPageStatus_def data_kept_flash split: if_splits)
next
  case False
  let ?A = "extractLogicalArea a" and ?i = "extractPageOffs a" and ?N = "dataPagesPerArea E"
  have A: "existsSummaryElem (sc s) ?A" "?A \<noteq> 0" "?i < ?N" "getType E (sb s) ?A \<noteq> T_unset"
    using a False by (simp_all add: old_ready_def addr_ready_def addr_cached_def)
  have less: "?A < areasNo E" using a False by (simp add: old_ready_def)
  define u where "u = (log_event E (SummarySetStatus ?A ?i SE_dirty) s)
      \<lparr>sc := upd_elem ?A (elem_setStatus ?N ?i SE_dirty) (sc s)\<rparr>"
  have u: "flash u = flash s" "sb u = sb s" "readOnly u = readOnly s" "cache_ok E (sc u)" "existsSummaryElem (sc u) ?A"
    using log_event_form [of E "SummarySetStatus ?A ?i SE_dirty" s] A(1)
      upd_elem_ok [OF ok(6), of ?A "elem_setStatus ?N ?i SE_dirty", OF slot_change_setStatus]
    by (auto simp: u_def)
  obtain x w where w: "run_state (after_dirty E ?A ?i) u = (x, w)" by (metis surj_pair)
  have "t = s \<or> t = u \<or> t = w"
    using run False A w by (auto simp: dirty_page_def setPageStatus_addr_def setPageStatus_def u_def Let_def split: if_splits)
  moreover have "data_kept E content u w"
    by (rule after_dirty_data [OF ok(1-4) _ u(4,5) less w]) (simp add: u ok)
  ultimately show ?thesis using u by (auto simp: data_kept_def)
qed

lemma dirty_pages_data:
  assumes ok: "flash_ok E content" "config_ok E" "\<not> verifyAS E" "\<not> writeVerifyAS E" "pos_ok E (sb s)" "cache_ok E (sc s)" "\<not> readOnly s"
    and as: "\<forall>a\<in>set as. old_ready E s a"
  shows "data_kept E content s (snd (run_state (for_each as (dirty_page E)) s))"
  using assms(5-8)
proof (induction as arbitrary: s)
  case Nil
  then show ?case by (simp add: data_kept_flash)
next
  case (Cons a as)
  obtain r u where u: "run_state (dirty_page E a) s = (r, u)" by (metis surj_pair)
  have ready: "old_ready E s a" using Cons.prems(4) by simp
  have kept: "data_kept E content s u" by (rule dirty_page_data [OF ok(1-4) Cons.prems(1,2) ready u])
  have set: "states_set E SE_dirty (pages_of [a]) s u"
    using dirty_pages_states [OF Cons.prems(2,3), of "[a]"] ready u by (simp add: old_ready_def split: prod.splits)
  then have "data_kept E content u (snd (run_state (for_each as (dirty_page E)) u))"
    using Cons.prems by (intro Cons.IH) (simp_all add: states_set_def old_ready_def addr_ready_states [OF set])
  then show ?case using data_kept_trans [OF kept] set u by (simp add: states_set_def split: prod.splits)
qed

subsection \<open>The end of the transaction\<close>

lemma run_invalidateOldPages:
  assumes ok: "flash_ok E content" "config_ok E" "\<not> verifyAS E" "\<not> writeVerifyAS E" "pos_ok E (sb s)" "cache_ok E (sc s)" "\<not> readOnly s"
    and old: "\<forall>a\<in>set (take (pageListHWM (dio_psm (dio s))) (oldPageList (dio_psm (dio s)))). old_ready E s a"
  shows "\<exists>t. run_state (invalidateOldPages E (dio_machine E)) s = (R_ok, t) \<and> data_kept E content s t \<and>
    sb t = sb s \<and> readOnly t = readOnly s \<and> tc t = tc s \<and> bt t = bt s \<and> pac t = pac s \<and> inodeMem t = inodeMem s"
proof -
  let ?old = "take (pageListHWM (dio_psm (dio s))) (oldPageList (dio_psm (dio s)))"
  obtain u where u: "run_state (for_each ?old (dirty_page E)) s = ((), u)" by (cases "run_state (for_each ?old (dirty_page E)) s") simp
  have set: "states_set E SE_dirty (pages_of ?old) s u"
    using dirty_pages_states [OF ok(6,7), of ?old] old u by (simp add: old_ready_def)
  have kept: "data_kept E content s u" using dirty_pages_data [OF ok(1-7) old] u by simp
  obtain m j where log: "log_event E (InvalidateOldPages Tp_dataIO) u = u\<lparr>mram := m, jr := j\<rparr>" by (metis log_event_form)
  have s: "tc u = tc s" "bt u = bt s" "pac u = pac s" "inodeMem u = inodeMem s" "sb u = sb s" "readOnly u = readOnly s"
    using set by (simp_all add: states_set_def clients_def)
  show ?thesis
    using u log kept s
    by (cases "\<exists>a\<in>set ?old. a \<noteq> 0")
      (auto simp: invalidateOldPages_def clear_machine_def dio_machine_def Let_def data_kept_def)
qed

lemma run_setValid:
  assumes "pageListHWM (pac_psm (pac s)) = 0"
  shows "\<exists>p. run_state (setValid E) s = (R_ok, s\<lparr>pac := (pac s)\<lparr>pac_psm := p\<rparr>\<rparr>)"
  using assms by (auto simp: setValid_def invalidateOldPages_def clear_machine_def pac_machine_def Let_def)

lemma al_elem_psm [simp]: "al_elem c i (P\<lparr>pac_psm := m\<rparr>) = al_elem c i P"
  by (cases c; cases i) simp_all

lemma held_addr_psm [simp]: "held_addr E (P\<lparr>pac_psm := m\<rparr>) x q = held_addr E P x q"
  by (simp add: held_addr_def split: option.splits)

lemma page_cached_psm [simp]: "page_cached E (P\<lparr>pac_psm := m\<rparr>) q = page_cached E P q"
  by (simp add: page_cached_def path_cached_def split: option.splits)

text \<open>When the data is kept and the addresses of a file are, so are the bytes of its pages.\<close>

lemma page_bytes_kept:
  assumes "data_kept E content s t" and "sb t = sb s" and "small_config E" and "page_stored E s p q"
    and "held_addr E (pac t) (inodeMem t p) q = held_addr E (pac s) (inodeMem s p) q"
  shows "page_bytes E content t p q = page_bytes E content s p q"
proof (cases "held_addr E (pac s) (inodeMem s p) q = 0")
  case False
  then have "extractLogicalArea (held_addr E (pac s) (inodeMem s p) q) < areasNo E"
    using assms(4) by (intro data_area_less [of E "sb s"]) (simp add: page_stored_def Let_def)
  then show ?thesis using assms False by (simp add: page_bytes_def page_stored_def data_kept_def Let_def)
qed (use assms(5) in \<open>simp add: page_bytes_def\<close>)

end
