(* ===== verification/FileRoundtrip.thy ===== *)
theory FileRoundtrip
  imports FileCommit
begin

text \<open>
  A whole write of a file and a read of it afterwards: the pages, the size in the inode, the inode in the
  tree and the end of the transaction.
\<close>

subsection \<open>The tree does not see the file\<close>

lemma tree_nodes_hits [simp]: "tree_nodes d (hits n T) i = tree_nodes d T i"
  by (induction d arbitrary: i) simp_all

lemma cached_hits [simp]:
  "cached_tree E (hits n T) d = cached_tree E T d" "plain_tree E (hits n T) d = plain_tree E T d"
  "inodes_in (hits n T) d = inodes_in T d"
  by (simp_all add: cached_tree_def plain_tree_def inodes_in_def)

lemma setTargetInode_same:
  assumes "cached_tree E (tc s) d" and "mInodePtr (pac s) = Some p"
  shows "run_state (setTargetInode E p) s = (R_ok, s\<lparr>tc := hits (d + 1) (tc s)\<rparr>)"
  using assms(2) by (simp add: setTargetInode_def getInode_def run_tree_find [OF assms(1)])

lemma page_bytes_frame [simp]:
  "page_bytes E content (s\<lparr>mram := m, jr := j, tc := T\<rparr>) p = page_bytes E content s p"
  by (simp add: page_bytes_def fun_eq_iff Let_def)

lemma ready_frame [simp]:
  "write_ready E p N (s\<lparr>mram := m, jr := j, tc := T\<rparr>) = write_ready E p N s"
  "room E n (s\<lparr>mram := m, jr := j, tc := T\<rparr>) = room E n s"
  "commit_ready E p N (s\<lparr>mram := m, jr := j, tc := T\<rparr>) = commit_ready E p N s"
  "file_bytes E content (s\<lparr>mram := m, jr := j, tc := T\<rparr>) p = file_bytes E content s p"
  by (simp_all add: write_ready_def page_stored_def room_def free_at_def commit_ready_def old_ready_def addr_ready_def
      file_bytes_def)

lemma ceil_div_bound:
  assumes "n \<le> N * d" and "0 < d"
  shows "ceil_div n d \<le> N"
proof -
  have "n + d - 1 < (N + 1) * d" using assms by simp
  then have "(n + d - 1) div d < N + 1" by (rule less_mult_imp_div_less)
  then show ?thesis by (simp add: ceil_div_def)
qed

subsection \<open>The end of a write\<close>

lemma run_finish_write:
  assumes ok: "flash_ok E content" "config_ok E" "small_config E" "\<not> writeVerifyAS E" "\<not> verifyTC E"
    and ready: "write_ready E p N s" "commit_ready E p N s" "pageListHWM (pac_psm (pac s)) = 0"
    and tree: "cached_tree E (tc s) d" "plain_tree E (tc s) d" "i_no (inodeMem s p) \<in> i_no ` set (inodes_in (tc s) d)"
    and size: "sz = max (i_size (inodeMem s p)) ((written + offs) mod 2 ^ 32)" "sz \<le> N * dataBytesPerPage E" "0 < dataBytesPerPage E"
  shows "\<exists>t. run_state (finish_write E p offs written) s = ((R_ok, written), t) \<and> cached_tree E (tc t) d \<and>
    mInodePtr (pac t) = Some p \<and> (\<forall>q<N. page_readable E t p q) \<and> i_size (inodeMem t p) = sz \<and>
    file_bytes E content t p = contents E content sz s p \<and>
    inodes_in (tc t) d = replace_inode (inodeMem t p) (inodes_in (tc s) d)"
proof -
  define x where "x = (inodeMem s p)\<lparr>i_size := sz, i_mod := sys_now E (flash s)\<rparr>"
  define u where "u = s\<lparr>inodeMem := (inodeMem s)(p := x)\<rparr>"
  have "i_no x \<in> i_no ` set (inodes_in (tc u) d)" "cached_tree E (tc u) d" "plain_tree E (tc u) d"
    using tree by (simp_all add: u_def x_def)
  then obtain m j T where T: "run_state (updateExistingInode E x) u = (R_ok, u\<lparr>mram := m, jr := j, tc := T\<rparr>)"
    "cached_tree E T d" "inodes_in T d = replace_inode x (inodes_in (tc s) d)"
    using run_updateExistingInode [of E u d x] ok(5) by (auto simp: u_def)
  define v where "v = u\<lparr>mram := m, jr := j, tc := T\<rparr>"
  have v: "pac v = pac s" "sb v = sb s" "sc v = sc s" "dio v = dio s" "readOnly v = readOnly s" "flash v = flash s"
    "inodeMem v = (inodeMem s)(p := x)" "tc v = T" by (simp_all add: v_def u_def)
  have s: "pos_ok E (sb s)" "cache_ok E (sc s)" "\<not> readOnly s" "mInodePtr (pac s) = Some p" "\<not> verifyAS E"
    using ready(1) ok(3) by (simp_all add: write_ready_def small_config_def)
  have "\<forall>a\<in>set (take (pageListHWM (dio_psm (dio v))) (oldPageList (dio_psm (dio v)))). old_ready E v a"
    using ready(2) v by (simp add: commit_ready_def old_ready_def addr_ready_def)
  then obtain w where w: "run_state (invalidateOldPages E (dio_machine E)) v = (R_ok, w)" "data_kept E content v w"
    "sb w = sb s" "tc w = T" "pac w = pac s" "inodeMem w = (inodeMem s)(p := x)"
    using run_invalidateOldPages [OF ok(1,2) s(5) ok(4), of v] s v by auto
  then obtain P where P: "run_state (setValid E) w = (R_ok, w\<lparr>pac := (pac s)\<lparr>pac_psm := P\<rparr>\<rparr>)"
    using run_setValid [of w] ready(3) by auto
  define t where "t = w\<lparr>pac := (pac s)\<lparr>pac_psm := P\<rparr>\<rparr>"
  have t: "sb t = sb s" "tc t = T" "inodeMem t p = x" "mInodePtr (pac t) = Some p" "flash t = flash w"
    using w s by (simp_all add: t_def)
  have "run_state (finish_write E p offs written) s = ((R_ok, written), t)"
    using T(1) w(1) P unfolding v_def [symmetric] by (simp add: finish_write_def u_def x_def size(1) t_def set_inode_def)
  moreover have held: "held_addr E (pac t) (inodeMem t p) q = held_addr E (pac s) (inodeMem s p) q"
    "page_cached E (pac t) q = page_cached E (pac s) q" for q
    by (simp_all add: t_def w(6)) (simp add: held_addr_def x_def)
  moreover have "data_kept E content s t" using w(2) v t(5) by (simp add: data_kept_def)
  then have "page_bytes E content t p q = page_bytes E content s p q" if "q < N" for q
    using page_bytes_kept [of E content s t p q] t(1) ok(3) held that ready(1) by (simp add: write_ready_def)
  then have pages: "map (page_bytes E content t p) [0 ..< ceil_div sz (dataBytesPerPage E)] =
      map (page_bytes E content s p) [0 ..< ceil_div sz (dataBytesPerPage E)]"
    using ceil_div_bound [OF size(2,3)] by simp
  have "i_size (inodeMem t p) = sz" by (simp add: t(3) x_def)
  then have "file_bytes E content t p = contents E content sz s p"
    by (simp only: file_bytes_def contents_def pages)
  moreover have "page_readable E t p q" if "q < N" for q
    using ready(1) that page_stored_readable [of E s q p] held t(1) by (simp add: write_ready_def page_readable_def)
  ultimately show ?thesis using T t by (auto simp: x_def)
qed

subsection \<open>The whole write\<close>

lemma length_file_bytes:
  assumes "flash_ok E content" and "0 < dataBytesPerPage E"
  shows "length (file_bytes E content s p) = i_size (inodeMem s p)"
  by (simp add: file_bytes_contents contents_bytes [OF assms])

lemma last_page_span:
  assumes "0 < len" and "0 < dataBytesPerPage E" and "offs + len < 2 ^ 32"
    and "last_page E (offs + len) + 1 - offs div dataBytesPerPage E \<le> m"
  shows "sub32 (last_page E (offs + len)) (offs div dataBytesPerPage E) \<le> m"
proof -
  let ?d = "dataBytesPerPage E" and ?l = "last_page E (offs + len)"
  have l: "?l * ?d < offs + len" "offs + len \<le> (?l + 1) * ?d"
    using last_page_bounds [of "offs + len" E] assms(1-3) by simp_all
  have "offs div ?d * ?d \<le> offs" by simp
  then have "offs div ?d * ?d < (?l + 1) * ?d" using l(2) assms(1) by linarith
  then have q: "offs div ?d \<le> ?l" by (metis Suc_eq_plus1 less_Suc_eq_le mult_less_cancel2)
  have "?l * 1 \<le> ?l * ?d" using assms(2) by (intro mult_le_mono2) simp
  then have "?l < 2 ^ 32" using l(1) assms(3) by linarith
  then show ?thesis using sub32_le [OF q] assms(4) by simp
qed

lemma run_writeInodeData:
  assumes ok: "flash_ok E content" "config_ok E" "small_config E" "\<not> writeVerifyAS E" "\<not> verifyTC E"
    and ready: "write_ready E p N s" "commit_ready E p N s" "pageListHWM (pac_psm (pac s)) = 0"
    and room: "room E (last_page E (offs + length data) + 1 - offs div dataBytesPerPage E) s"
    and tree: "cached_tree E (tc s) d" "plain_tree E (tc s) d" "i_no (inodeMem s p) \<in> i_no ` set (inodes_in (tc s) d)"
    and size: "offs \<le> i_size (inodeMem s p)" "0 < length data" "offs + length data < 2 ^ 32"
      "max (i_size (inodeMem s p)) (offs + length data) \<le> N * dataBytesPerPage E" "N < 2 ^ 16"
  shows "\<exists>t. run_state (writeInodeData E p offs data) s = ((R_ok, length data), t) \<and> cached_tree E (tc t) d \<and>
    mInodePtr (pac t) = Some p \<and> (\<forall>q<N. page_readable E t p q) \<and>
    i_size (inodeMem t p) = max (i_size (inodeMem s p)) (offs + length data) \<and>
    file_bytes E content t p = take offs (file_bytes E content s p) @ data @ drop (offs + length data) (file_bytes E content s p) \<and>
    inodes_in (tc t) d = replace_inode (inodeMem t p) (inodes_in (tc s) d)"
proof -
  define sz where "sz = i_size (inodeMem s p)"
  have d: "0 < dataBytesPerPage E" using ok(2) by (simp add: config_ok_def)
  have s: "\<not> readOnly s" "mInodePtr (pac s) = Some p" using ready(1) by (simp_all add: write_ready_def)
  have "last_page E (offs + length data) + 1 - offs div dataBytesPerPage E \<le> maxPagesPerWrite E"
    using room by (simp add: room_def)
  then have span: "\<not> sub32 (last_page E (offs + length data)) (offs div dataBytesPerPage E) > maxPagesPerWrite E"
    using last_page_span [OF size(2) d size(3)] by (simp add: not_less)
  let ?T = "hits (d + 1) (tc s)"
  let ?log = "log_event E (NewInodeSize (i_no (inodeMem s p)) (offs + length data)) (s\<lparr>tc := ?T\<rparr>)"
  have "\<exists>m j. ?log = (s\<lparr>tc := ?T\<rparr>)\<lparr>mram := m, jr := j\<rparr>" by (metis log_event_form)
  moreover have "s\<lparr>tc := ?T\<rparr> = (s\<lparr>tc := ?T\<rparr>)\<lparr>mram := mram s, jr := jr s\<rparr>" by simp
  ultimately obtain m j where log: "(if sz < offs + length data then ?log else s\<lparr>tc := ?T\<rparr>) = (s\<lparr>tc := ?T\<rparr>)\<lparr>mram := m, jr := j\<rparr>"
    by metis
  define u where "u = s\<lparr>mram := m, jr := j, tc := ?T\<rparr>"
  have logged: "(if sz < offs + length data then ?log else s\<lparr>tc := ?T\<rparr>) = u" unfolding log u_def by simp
  have u: "write_ready E p N u" "commit_ready E p N u" "room E (last_page E (offs + length data) + 1 - offs div dataBytesPerPage E) u"
    "file_bytes E content u p = file_bytes E content s p" "inodeMem u = inodeMem s" "pac u = pac s" "tc u = ?T"
    using ready room by (simp_all add: u_def)
  have before: "run_state (writeInodeData E p offs data) s = run_state (do {
      (r, written) \<leftarrow> writePageData E p (offs div dataBytesPerPage E) (last_page E (offs + length data))
        (offs mod dataBytesPerPage E) data sz;
      if r \<noteq> R_ok then ret (r, written) else finish_write E p offs written
    }) u"
    using s size span logged setTargetInode_same [OF tree(1) s(2)]
    by (cases "sz < offs + length data") (simp_all add: writeInodeData_def Let_def sz_def u(5))
  obtain v where v: "run_state (writePageData E p (offs div dataBytesPerPage E) (last_page E (offs + length data))
        (offs mod dataBytesPerPage E) data sz) u = ((R_ok, length data), v)"
    "write_ready E p N v" "write_frame E p N u v"
    "contents E content (max sz (offs + length data)) v p =
       take offs (file_bytes E content s p) @ data @ drop (offs + length data) (file_bytes E content s p)"
    using write_pages [OF ok(1,3) d u(1,3), of] size u(4,5) by (auto simp: sz_def)
  then have w: "commit_ready E p N v" "pageListHWM (pac_psm (pac v)) = 0" "tc v = ?T" "i_no (inodeMem v p) = i_no (inodeMem s p)"
    "i_size (inodeMem v p) = sz"
    using u ready(3) by (simp_all add: write_frame_def sz_def)
  have "max sz (offs + length data) = max (i_size (inodeMem v p)) ((length data + offs) mod 2 ^ 32)"
    using size(3) w(5) by (simp add: add.commute)
  from run_finish_write [OF ok v(2) w(1,2) _ _ _ this _ d, where d = d] tree size(4) w v(4)
  show ?thesis unfolding before by (auto simp: v(1) [unfolded sz_def] sz_def)
qed

text \<open>
  C3: a write of a file, from the call to the end of its transaction, with the inode in a cached tree, the
  addresses and area summaries of its pages in the caches and room in the active data area: the call
  answers ok and the full length; the contents of the file are the old ones with exactly the
  written bytes in place, its size is the old one or reaches to the end of the write; the tree holds the new
  inode instead of the old one and no other change; and a read of the same range answers the
  written bytes. The trace masks that make the code check the tree cache and each written page
  (\<^verbatim>\<open>verifyTC\<close>, \<^verbatim>\<open>writeVerifyAS\<close>) are switched off, and the driver is the ideal one of \<open>flash_ok\<close>.
\<close>

theorem write_then_read:
  assumes "flash_ok E content" and "config_ok E" and "small_config E" and "\<not> writeVerifyAS E" and "\<not> verifyTC E"
    and "write_ready E p N s" and "commit_ready E p N s" and "pageListHWM (pac_psm (pac s)) = 0"
    and "room E (last_page E (offs + length data) + 1 - offs div dataBytesPerPage E) s"
    and "cached_tree E (tc s) d" and "plain_tree E (tc s) d" and "i_no (inodeMem s p) \<in> i_no ` set (inodes_in (tc s) d)"
    and "offs \<le> i_size (inodeMem s p)" and "0 < length data" and "offs + length data < 2 ^ 32"
    and "max (i_size (inodeMem s p)) (offs + length data) \<le> N * dataBytesPerPage E" and "N < 2 ^ 16"
  shows "\<exists>t u. run_state (writeInodeData E p offs data) s = ((R_ok, length data), t) \<and>
    i_size (inodeMem t p) = max (i_size (inodeMem s p)) (offs + length data) \<and>
    file_bytes E content t p = take offs (file_bytes E content s p) @ data @ drop (offs + length data) (file_bytes E content s p) \<and>
    inodes_in (tc t) d = map (\<lambda>y. if i_no y = i_no (inodeMem t p) then inodeMem t p else y) (inodes_in (tc s) d) \<and>
    run_state (readInodeData E p offs (length data)) t = ((R_ok, data), u)"
proof -
  have d: "0 < dataBytesPerPage E" using assms(2) by (simp add: config_ok_def)
  obtain t where t: "run_state (writeInodeData E p offs data) s = ((R_ok, length data), t)" "cached_tree E (tc t) d"
    "mInodePtr (pac t) = Some p" "\<forall>q<N. page_readable E t p q"
    "i_size (inodeMem t p) = max (i_size (inodeMem s p)) (offs + length data)"
    "file_bytes E content t p = take offs (file_bytes E content s p) @ data @ drop (offs + length data) (file_bytes E content s p)"
    "inodes_in (tc t) d = replace_inode (inodeMem t p) (inodes_in (tc s) d)"
    using run_writeInodeData [OF assms] by auto
  let ?u = "t\<lparr>mram := mram t, jr := jr t, tc := hits (d + 1) (tc t)\<rparr>"
  have u: "run_state (setTargetInode E p) t = (R_ok, ?u)" using setTargetInode_same [OF t(2,3)] by simp
  have pages: "ceil_div (i_size (inodeMem ?u p)) (dataBytesPerPage E) \<le> N"
    using ceil_div_bound [OF _ d] assms(16) t(5) by simp
  have "run_state (readInodeData E p offs (length data)) t =
      ((R_ok, take (length data) (drop offs (file_bytes E content ?u p))), ?u)"
  proof (rule read_slice [OF assms(1) _ d u])
    show "\<not> verifyAS E" using assms(3) by (simp add: small_config_def)
    show "page_readable E ?u p q" if "q < ceil_div (i_size (inodeMem ?u p)) (dataBytesPerPage E)" for q
      using that pages t(4) by (simp add: page_readable_def)
    show "offs < i_size (inodeMem ?u p)" using t(5) assms(14) by (simp add: less_max_iff_disj)
  qed (use pages t assms in simp_all)
  moreover have "file_bytes E content ?u p = file_bytes E content t p" by (simp only: ready_frame)
  then have "take (length data) (drop offs (file_bytes E content ?u p)) = data"
    using t(6) assms(13) length_file_bytes [OF assms(1) d, of s p] by simp
  ultimately show ?thesis using t by auto
qed

text \<open>An example: the inode 5 of a tree with five inodes, with a file of 310 bytes, the second page not written yet.\<close>

definition trip_pac :: page_cache where
  "trip_pac = (let e = ex_addr_list\<lparr>al_cache := replicate 75 0\<rparr>
     in (pac ex_dev)\<lparr>mInodePtr := Some 5, singl := e, doubl := replicate 2 e, tripl := replicate 3 e\<rparr>)"

definition trip_inode :: Inode where
  "trip_inode = ex_inode\<lparr>i_no := 5, i_size := 310, i_direct := combineAddress 2 0 # replicate 10 0\<rparr>"

definition trip_dev :: "ram_flash dev" where
  "trip_dev = ex_write_dev\<lparr>tc := tc tree_dev, pac := trip_pac, inodeMem := (\<lambda>_. trip_inode), flash := (\<lambda>_. replicate 300 7)\<rparr>"

lemma trip_simps [simp]:
  "sb trip_dev = ex_sb" "readOnly trip_dev = False" "sc trip_dev = sc ex_write_dev" "dio trip_dev = dio ex_dev"
  "pac trip_dev = trip_pac" "inodeMem trip_dev = (\<lambda>_. trip_inode)" "tc trip_dev = tc tree_dev" "mInodePtr trip_pac = Some 5"
  "pac_psm trip_pac = pac_psm (pac ex_dev)" "i_no trip_inode = 5" "i_size trip_inode = 310"
  "i_direct trip_inode = combineAddress 2 0 # replicate 10 0"
  by (simp_all add: trip_dev_def) (simp_all add: trip_pac_def trip_inode_def Let_def)

lemma tree_env_dims:
  "areasNo tree_env = 6" "totalPagesPerArea tree_env = 4" "dataPagesPerArea tree_env = 3" "dataBytesPerPage tree_env = 300"
  "maxPagesPerWrite tree_env = 4" "verifyAS tree_env = False" "writeVerifyAS tree_env = False"
  by (simp_all add: tree_env_def areasNo_def totalPagesPerArea_def oobPagesPerArea_def dataPagesPerArea_def ceil_div_def)
    (simp_all add: ex_env_def)

lemma tree_env_ok: "config_ok tree_env" "small_config tree_env"
proof -
  have "blocksTotal tree_env = 12" "blocksPerArea tree_env = 2" "pagesPerBlock tree_env = 2" "mramSize tree_env = 1024"
    "areaSummaryCacheSize tree_env = 3" "oobBytesPerPage tree_env = 2"
    by (simp_all add: tree_env_def) (simp_all add: ex_env_def)
  then show "config_ok tree_env"
    by (simp add: config_ok_def tree_env_dims totalBytesPerPage_def areaSummarySizePacked_def areaSummaryIsPacked_def ceil_div_def)
  show "small_config tree_env" by (simp add: small_config_def tree_env_dims)
qed

lemma trip_status:
  "page_status tree_env C A k = page_status ex_env C A k" "cache_ok tree_env C = cache_ok ex_env C"
  "free_at tree_env trip_dev A k = free_at ex_env ex_write_dev A k"
  "getType tree_env B A = getType ex_env B A" "getStatus tree_env B A = getStatus ex_env B A" "pos_ok tree_env B = pos_ok ex_env B"
  by (simp_all add: page_status_def cache_ok_def slot_filled_def free_at_def tree_env_dims getType_def getStatus_def
      pos_ok_def sb_shape_def posns_def)

lemma trip_held: "q < 2 \<Longrightarrow> held_addr tree_env trip_pac trip_inode q = (if q = 0 then combineAddress 2 0 else 0)"
  by (auto simp: held_addr_def directAddrCount_def nth_Cons split: nat.split)

lemma trip_ready: "write_ready tree_env 5 2 trip_dev" "commit_ready tree_env 5 2 trip_dev" "room tree_env 2 trip_dev"
proof -
  note ex = ex_write_ready ex_write_room
  have pages: "page_cached tree_env trip_pac q" "page_stored tree_env trip_dev 5 q" "old_ready tree_env trip_dev (held_addr tree_env trip_pac trip_inode q)"
    if "q < 2" for q
  proof -
    show "page_cached tree_env trip_pac q" using that by (simp add: page_cached_def directAddrCount_def)
    have data: "getType ex_env ex_sb 2 = T_data" by (simp add: getType_def ex_sb_def ex_area_def)
    then show "page_stored tree_env trip_dev 5 q"
      using trip_held [OF that] by (simp add: page_stored_def trip_status ex_write_status tree_env_dims)
    show "old_ready tree_env trip_dev (held_addr tree_env trip_pac trip_inode q)"
      using trip_held [OF that] data
      by (simp add: old_ready_def addr_ready_def addr_cached_def existsSummaryElem_def trip_status tree_env_dims)
  qed
  have "pac_shape tree_env trip_pac"
    by (simp add: pac_shape_def trip_pac_def Let_def addrsPerPage_def tree_env_dims)
  moreover have "cache_ok tree_env (sc trip_dev)" "pos_ok tree_env (sb trip_dev)"
    using ex(1) by (simp_all add: write_ready_def trip_status)
  ultimately show "write_ready tree_env 5 2 trip_dev"
    using pages by (simp add: write_ready_def directAddrCount_def)
  have "oldPageList (dio_psm (dio ex_dev)) = replicate 4 0" by (simp add: ex_dev_def ex_psm_def)
  then show "commit_ready tree_env 5 2 trip_dev" using pages by (simp add: commit_ready_def tree_env_dims)
  show "room tree_env 2 trip_dev"
    using ex(2) by (simp add: room_def trip_status tree_env_dims)
qed

theorem write_then_read_witness:
  "\<exists>t u. run_state (writeInodeData tree_env 5 298 [1, 2, 3, 4]) trip_dev = ((R_ok, 4), t) \<and> i_size (inodeMem t 5) = 310 \<and>
     run_state (readInodeData tree_env 5 298 4) t = ((R_ok, [1, 2, 3, 4]), u)"
proof -
  have eqs: "298 + 4 = (302 :: nat)" "last_page tree_env 302 = 1" "298 div dataBytesPerPage tree_env = 0" "1 + 1 - 0 = (2 :: nat)"
    "length [1 :: byte, 2, 3, 4] = 4" "i_size (inodeMem trip_dev 5) = 310" "max 310 302 = (310 :: nat)"
    by (simp_all add: last_page_def tree_env_dims)
  have no: "i_no (inodeMem trip_dev 5) \<in> i_no ` set (inodes_in (tc trip_dev) 1)"
    using tree_dev_inodes by simp
  have psm: "pageListHWM (pac_psm (pac trip_dev)) = 0" by (simp add: ex_dev_def ex_psm_def)
  have tree: "cached_tree tree_env (tc trip_dev) 1" "plain_tree tree_env (tc trip_dev) 1"
    using tree_dev_cached tree_dev_plain by simp_all
  show ?thesis
    using write_then_read [OF file_flash_ok tree_env_ok _ _ trip_ready(1,2) psm _ tree no, of 298 "[1, 2, 3, 4]", unfolded eqs]
      trip_ready(3) by (auto simp: tree_env_dims)
qed

end
