(* ===== verification/DirProperties.thy ===== *)
theory DirProperties
  imports DeviceDirs
begin

text \<open>
  Properties of directories and paths: the loops over the bytes of a directory are operations on a
  list of entries, the names for which this fails, and the split of a path into parent and name.
\<close>

lemma le_bytes_2_not_Nil [simp]: "le_bytes 2 n \<noteq> []"
  by (metis length_le_bytes list.size(3) zero_neq_numeral)

text \<open>
  C12: on the bytes of a directory with at most 250 bytes per name, the search of a name is the lookup
  of its first entry, the listing gives the entries back, the insertion appends an entry, and the
  removal of an inode takes exactly its first entry out.
\<close>

theorem directory_refines:
  assumes "dir_ok es" and "entry_ok (no, name)" and "length key < 2 ^ 8"
  shows "lookup_from (dir_bytes es) key 2 = (case find_name key es of None \<Rightarrow> Inl R_notFound | Some n \<Rightarrow> Inr n) \<and>
     parse_dir (dir_bytes es) = Inr es \<and>
     (length es < 2 ^ 16 - 1 \<longrightarrow> append_entry no name (dir_bytes es) = dir_bytes (es @ [(no, name)])) \<and>
     (\<forall>xs ys. es = xs @ (no, name) # ys \<longrightarrow> (\<forall>e\<in>set xs. fst e \<noteq> no) \<longrightarrow>
        (\<exists>p. entry_offset (dir_bytes es) no 2 = Some (Inr p) \<and> cut_entry p (dir_bytes es) = dir_bytes (xs @ ys)))"
proof -
  have ok: "list_all entry_ok es" "length es < 2 ^ 16" using assms(1) by (simp_all add: dir_ok_def)
  let ?pre = "le_bytes 2 (length es)"
  have 1: "lookup_from (dir_bytes es) key 2 = (case find_name key es of None \<Rightarrow> Inl R_notFound | Some n \<Rightarrow> Inr n)"
    using lookup_entries [OF ok(1) assms(3), of ?pre] by (simp add: dir_bytes_alt)
  have "entries_from (dir_bytes es) 2 = Inr es" using list_entries [OF ok(1), of ?pre] by (simp add: dir_bytes_alt)
  moreover have "entry_count (dir_bytes es) = length es"
    using rd_dir_bytes [OF ok(2)] dir_bytes_pre(2) [of "length es"] by (simp add: entry_count_def dir_bytes_alt)
  ultimately have 2: "parse_dir (dir_bytes es) = Inr es" using ok(2) by (simp add: parse_dir_def)
  have 3: "\<exists>p. entry_offset (dir_bytes es) no 2 = Some (Inr p) \<and> cut_entry p (dir_bytes es) = dir_bytes (xs @ ys)"
    if es: "es = xs @ (no, name) # ys" and "\<forall>e\<in>set xs. fst e \<noteq> no" for xs ys
  proof -
    have "entry_offset (dir_bytes es) no 2 = Some (Inr (2 + length (entries_bytes xs)))"
      using offset_entries [of xs no name ?pre ys] that ok(1) assms(2) by (simp add: dir_bytes_alt)
    then show ?thesis using cut_entry_dir [OF assms(2), of xs ys] ok(2) es by simp
  qed
  show ?thesis using 1 2 3 append_entry_dir by blast
qed

theorem directory_refines_witness:
  "lookup_from (dir_bytes [(7, [0x61]), (8, [0x62])]) [0x62] 2 = Inr 8"
  using directory_refines [of "[(7, [0x61]), (8, [0x62])]" 7 "[0x61]" "[0x62]"]
  by (simp add: dir_ok_def entry_ok_def find_name_def)

text \<open>
  The check of the length of a name and the length of an entry do not fit together: an insertion
  accepts the names of 251 to 255 bytes, and copies them over the end of its buffer.
\<close>

lemma insert_long_name:
  assumes "250 < length (entry_name name)"
  shows "fst (run_state (insertInodeInDir n E name d no) s) =
    (if length (entry_name name) > maxDirEntryLength then Some R_objNameTooLong else None)"
  using assms by (simp add: insertInodeInDir_def entry_overruns_iff)

end
