(* ===== verification/DirReading.thy ===== *)
theory DirReading
  imports DirProperties DeviceDirs FileReading
begin

text \<open>
  A directory on the flash: its pages hold the bytes of a list of entries, and the search of a name in
  the directory goes through the page addresses, the pages and the bytes.
\<close>

lemma length_dir_bytes: "length (dir_bytes es) = 2 + length (entries_bytes es)"
  by (simp add: dir_bytes_alt)

lemma entries_bytes_empty:
  assumes "list_all entry_ok es"
  shows "length (entries_bytes es) = 0 \<longleftrightarrow> es = []"
proof (cases es)
  case (Cons e es')
  obtain no name where e: "e = (no, name)" by (cases e)
  then have "dir_entry_bytes no name \<noteq> []" using Cons assms by (simp add: dir_entry_bytes_def entry_ok_def dir_entry_length_def Let_def)
  then show ?thesis using Cons e by simp
qed simp

text \<open>
  C13: on a directory whose pages can be read and hold the bytes of a list of entries, the search of a
  name answers the inode number of its first entry, and not found if there is none; it changes nothing
  but what the change to the directory as target inode does.
\<close>

theorem directory_search:
  assumes "flash_ok E content" and "\<not> verifyAS E" and "0 < dataBytesPerPage E"
    and "run_state (setTargetInode E p) s = (R_ok, t)" and "mInodePtr (pac t) = Some p"
    and "inodeMem s p = inodeMem t p" and "i_type (inodeMem s p) = I_dir"
    and "\<And>page. page < ceil_div (i_size (inodeMem t p)) (dataBytesPerPage E) \<Longrightarrow> page_readable E t p page"
    and "ceil_div (i_size (inodeMem t p)) (dataBytesPerPage E) < 2 ^ 16" and "i_size (inodeMem t p) < 2 ^ 32"
    and "file_bytes E content t p = dir_bytes es" and "i_size (inodeMem t p) = length (dir_bytes es)"
    and "dir_ok es" and "length key < 2 ^ 8"
  shows "run_state (getInodeNoInDir E p key) s =
    (case find_name key es of None \<Rightarrow> Inl R_notFound | Some no \<Rightarrow> Inr no, if es = [] then s else t)"
proof -
  have ok: "list_all entry_ok es" using assms(13) by (simp add: dir_ok_def)
  show ?thesis
  proof (cases "es = []")
    case True
    then have "i_size (inodeMem s p) \<le> 2" using assms(6,12) by (simp add: length_dir_bytes)
    then show ?thesis using True assms(7) by (simp add: getInodeNoInDir_def search_dir_def find_name_def)
  next
    case False
    define sz where "sz = length (dir_bytes es)"
    have sz: "i_size (inodeMem s p) = sz" "i_size (inodeMem t p) = sz" using assms(6,12) by (simp_all add: sz_def)
    have big: "\<not> sz \<le> 2" using False entries_bytes_empty [OF ok] by (auto simp: sz_def length_dir_bytes)
    have "dir_bytes es \<noteq> []" using big by (auto simp: sz_def)
    then have "run_state (readInodeData E p 0 sz) s = ((R_ok, dir_bytes es), t)"
      using read_slice [OF assms(1-5) _ assms(8,9), of 0 sz] sz big assms(10,11) by (simp add: sz_def)
    then have read: "run_state (read_dir E p) s = (Inr (dir_bytes es), t)" using sz by (simp add: read_dir_def sz_def)
    have "lookup_from (dir_bytes es) key 2 = (case find_name key es of None \<Rightarrow> Inl R_notFound | Some no \<Rightarrow> Inr no)"
      using lookup_entries [OF ok assms(14), of "le_bytes 2 (length es)"] by (simp add: dir_bytes_alt)
    then show ?thesis
      using False read big assms(7) sz(1) by (simp add: getInodeNoInDir_def search_dir_def)
  qed
qed

definition ex_dir :: Inode where
  "ex_dir = ex_inode\<lparr>i_type := I_dir, i_size := length (dir_bytes [(7, [0x61]), (8, [0x62])]), i_reservedPages := 1,
     i_direct := 0x20000 # replicate 10 0\<rparr>"

theorem directory_search_witness:
  "fst (run_state (getInodeNoInDir tree_env 5 [0x62]) (stored_dev ex_dir (dir_bytes [(7, [0x61]), (8, [0x62])]))) = Inr 8"
proof -
  let ?es = "[(7, [0x61]), (8, [0x62])] :: (InodeNo \<times> byte list) list"
  let ?t = "stored_dev_set ex_dir (dir_bytes ?es)"
  have d: "dataBytesPerPage tree_env = 300" "\<not> verifyAS tree_env" by (simp_all add: tree_env_def ex_env_def)
  have len: "length (dir_bytes ?es) = 14" by (simp add: dir_bytes_alt dir_entry_bytes_def dir_entry_length_def)
  have x: "i_no ex_dir = 0" "i_type ex_dir = I_dir" "i_size ex_dir = 14" "i_direct ex_dir = 0x20000 # replicate 10 0"
    using len by (simp_all add: ex_dir_def ex_inode_def)
  have addr: "held_addr tree_env P ex_dir 0 = 0x20000" for P by (simp add: held_addr_def x directAddrCount_def)
  have n: "ceil_div 14 300 = 1" by (simp add: ceil_div_def)
  have "getType tree_env ex_sb (extractLogicalArea 0x20000) = T_data"
    by (simp add: getType_def extractLogicalArea_def ex_sb_def ex_area_def tree_env_def areasNo_def ex_env_def)
  then have "page_readable tree_env ?t 5 page" if "page < 1" for page
    using that by (simp add: page_readable_def page_cached_def directAddrCount_def addr Let_def)
  moreover have "file_bytes tree_env file_content ?t 5 = dir_bytes ?es"
    using len by (simp add: file_bytes_def page_bytes_def addr x n d file_content_def)
  moreover have "dir_ok ?es" by (simp add: dir_ok_def entry_ok_def)
  ultimately show ?thesis
    using directory_search [OF file_flash_ok d(2) _ stored_dev_target [OF x(1)], of "dir_bytes ?es" ?es "[0x62]"]
    by (simp add: x d n len find_name_def)
qed

end
