(* ===== verification/PathProperties.thy ===== *)
theory PathProperties
  imports DirProperties
begin

text \<open>
  Paths: the split into the path of the parent and the name, on which the creation and the removal of
  objects rest, agrees with the components that a walk along the path follows; and the paths for
  which it does not.
\<close>

lemma split_path_at_slash: "split_path cur (xs @ slash # ys) = split_path cur xs @ split_path [] ys"
  by (induction xs arbitrary: cur) simp_all

lemma split_path_plain: "slash \<notin> set xs \<Longrightarrow> split_path cur xs = [cur @ xs]"
  by (induction xs arbitrary: cur) auto

text \<open>The last slash that has something behind it.\<close>

definition slash_inside :: "byte list \<Rightarrow> nat \<Rightarrow> bool" where
  "slash_inside path p \<longleftrightarrow> path ! p = slash \<and> p + 1 < length path"

lemma last_slash_fold:
  "let l = fold (\<lambda>p ls. if path ! p = slash \<and> p + 1 < length path then p + 1 else ls) [0 ..< n] 0
   in (l = 0 \<or> 0 < l \<and> l \<le> n \<and> slash_inside path (l - 1)) \<and> (\<forall>q. l \<le> q \<and> q < n \<longrightarrow> \<not> slash_inside path q)"
proof (induction n)
  case (Suc n)
  then show ?case
    by (cases "slash_inside path n") (auto simp: slash_inside_def Let_def less_Suc_eq)
qed simp

lemma last_slash_props:
  shows "last_slash path = 0 \<or> 0 < last_slash path \<and> slash_inside path (last_slash path - 1)"
    and "last_slash path \<le> q \<Longrightarrow> \<not> slash_inside path q"
proof -
  have "(last_slash path = 0 \<or> 0 < last_slash path \<and> slash_inside path (last_slash path - 1)) \<and>
      (\<forall>q. last_slash path \<le> q \<and> q < length path \<longrightarrow> \<not> slash_inside path q)"
    using last_slash_fold [of path "length path"] unfolding last_slash_def by (auto simp: Let_def)
  then show "last_slash path = 0 \<or> 0 < last_slash path \<and> slash_inside path (last_slash path - 1)"
    and "last_slash path \<le> q \<Longrightarrow> \<not> slash_inside path q"
    by (auto simp: slash_inside_def)
qed

text \<open>The path in front of the name is empty or ends with a slash; the name has none but at its end.\<close>

lemma last_slash_parts:
  assumes "path \<noteq> []"
  obtains "last_slash path = 0" and "slash \<notin> set (butlast path)"
  | xs name where "path = xs @ slash # name" and "name \<noteq> []" and "last_slash path = length xs + 1"
    and "slash \<notin> set (butlast name)"
proof -
  let ?l = "last_slash path"
  have rest: "slash \<notin> set (butlast (drop ?l path))"
  proof
    assume "slash \<in> set (butlast (drop ?l path))"
    then obtain i where i: "i < length (drop ?l path) - 1" "butlast (drop ?l path) ! i = slash"
      by (auto simp: in_set_conv_nth)
    then have "slash_inside path (?l + i)" by (simp add: slash_inside_def nth_butlast)
    then show False using last_slash_props(2) [of path "?l + i"] by simp
  qed
  show ?thesis
  proof (cases "?l = 0")
    case True
    then show ?thesis using rest that(1) by simp
  next
    case False
    then have l: "0 < ?l" "path ! (?l - 1) = slash" "?l < length path"
      using last_slash_props(1) [of path] by (auto simp: slash_inside_def)
    have "path = take (?l - 1) path @ slash # drop ?l path"
      using l id_take_nth_drop [of "?l - 1" path] by simp
    moreover have "length (take (?l - 1) path) + 1 = ?l" using l by simp
    ultimately show ?thesis using that(2) [of "take (?l - 1) path" "drop ?l path"] rest l by simp
  qed
qed

lemma entry_name_plain:
  assumes "slash \<notin> set (butlast name)"
  shows "slash \<notin> set (entry_name name)" and "tokens name = (if entry_name name = [] then [] else [entry_name name])"
proof -
  show plain: "slash \<notin> set (entry_name name)"
    using assms by (cases name rule: rev_cases) (auto simp: entry_name_def)
  show "tokens name = (if entry_name name = [] then [] else [entry_name name])"
  proof (cases "name \<noteq> [] \<and> last name = slash")
    case True
    then have "name = entry_name name @ slash # []"
      by (metis append_butlast_last_id entry_name_def)
    then have "split_path [] name = [entry_name name, []]"
      using split_path_at_slash [of "[]" "entry_name name" "[]"] split_path_plain [OF plain] by simp
    then show ?thesis by (simp add: tokens_def)
  next
    case False
    then have "entry_name name = name" by (auto simp: entry_name_def)
    then show ?thesis using plain by (auto simp: tokens_def split_path_plain)
  qed
qed

lemma tokens_at_slash: "tokens (xs @ slash # ys) = tokens xs @ tokens ys"
  by (simp add: tokens_def split_path_at_slash)

lemma tokens_parent_name:
  assumes "path \<noteq> []"
  shows "tokens path = tokens (take (last_slash path) path) @ tokens (drop (last_slash path) path)"
  using assms
proof (cases rule: last_slash_parts)
  case 1
  then show ?thesis by (simp add: tokens_def)
next
  case (2 xs name)
  then show ?thesis using tokens_at_slash [of xs "[]"] tokens_at_slash [of xs name] by (simp add: tokens_def)
qed

text \<open>
  C21: for a path with a component that does not end with two slashes, the components of the path are
  those of the parent and the name that is entered into it: what was created under a path is what a
  walk along the path looks up.
\<close>

theorem parent_and_name:
  assumes "tokens path \<noteq> []" and "\<nexists>xs. path = xs @ [slash, slash]"
  shows "tokens path = tokens (take (last_slash path) path) @ [entry_name (drop (last_slash path) path)] \<and>
    entry_name (drop (last_slash path) path) \<noteq> [] \<and> slash \<notin> set (entry_name (drop (last_slash path) path))"
proof -
  let ?name = "drop (last_slash path) path"
  have ne: "path \<noteq> []" using assms(1) by (auto simp: tokens_def)
  have plain: "slash \<notin> set (butlast ?name)" using ne by (cases rule: last_slash_parts) auto
  have "entry_name ?name \<noteq> []"
  proof
    assume empty: "entry_name ?name = []"
    have one: "?name \<noteq> [] \<Longrightarrow> ?name = [slash]"
      using empty by (cases ?name rule: rev_cases) (auto simp: entry_name_def split: if_splits)
    show False using ne
    proof (cases rule: last_slash_parts)
      case 1
      then show ?thesis using one ne assms(1) by (simp add: tokens_def)
    next
      case (2 xs name)
      then show ?thesis using one assms(2) by auto
    qed
  qed
  then show ?thesis
    using tokens_parent_name [OF ne] entry_name_plain [OF plain] by simp
qed

theorem parent_and_name_witness:
  "tokens [0x2F, 0x61, 0x2F, 0x62] = tokens [0x2F, 0x61, 0x2F] @ [[0x62]]"
proof -
  have "last_slash [0x2F, 0x61, 0x2F, 0x62] = 3" by (simp add: last_slash_def slash_def upt_rec)
  moreover have "tokens [0x2F, 0x61, 0x2F, 0x62] \<noteq> []" by (simp add: tokens_def slash_def)
  moreover have "\<nexists>xs. [0x2F, 0x61, 0x2F, 0x62] = xs @ [slash, slash]"
  proof
    assume "\<exists>xs. [0x2F, 0x61, 0x2F, 0x62] = xs @ [slash, slash]"
    then have "last [0x2F, 0x61, 0x2F, 0x62] = slash" by (metis append_butlast_last_id last_appendR last_ConsR last.simps list.distinct(1))
    then show False by (simp add: slash_def)
  qed
  ultimately show ?thesis
    using parent_and_name [of "[0x2F, 0x61, 0x2F, 0x62]"] by (simp add: entry_name_def slash_def)
qed


text \<open>
  A path that ends with two slashes has the empty name. Once it is in a directory, the search of any
  name that is not there answers \<open>R_bug\<close> instead of not found, so that nothing can be created any more.
\<close>

theorem empty_name_breaks_directory:
  assumes "dir_ok es" and "length es < 2 ^ 16 - 1" and "length key < 2 ^ 8"
  shows "entry_name (drop (last_slash (xs @ [slash, slash])) (xs @ [slash, slash])) = [] \<and>
    lookup_from (append_entry no [] (dir_bytes es)) key 2 =
      (case find_name key es of None \<Rightarrow> Inl R_bug | Some n \<Rightarrow> Inr n)"
proof -
  let ?path = "xs @ [slash, slash]"
  have "slash_inside ?path (length xs)" by (simp add: slash_inside_def)
  then have "length xs < last_slash ?path" using last_slash_props(2) [of ?path "length xs"] by (meson not_le)
  moreover have "last_slash ?path < length xs + 2"
    using last_slash_props(1) [of ?path] by (auto simp: slash_inside_def)
  ultimately have "last_slash ?path = length xs + 1" by simp
  then have name: "entry_name (drop (last_slash ?path) ?path) = []" by (simp add: entry_name_def)
  let ?pre = "le_bytes 2 (length es + 1)" and ?e = "dir_entry_bytes no []"
  have e: "?e = 5 # le_bytes 4 no" by (simp add: dir_entry_bytes_def dir_entry_length_def)
  have data: "append_entry no [] (dir_bytes es) = ?pre @ entries_bytes es @ ?e"
    using rd_dir_bytes [of es] assms(2) by (simp add: append_entry_def) (simp add: dir_bytes_alt)
  have "lookup_from (?pre @ entries_bytes es @ ?e) key (2 + length (entries_bytes es)) = Inl R_bug"
    by (subst lookup_from.simps) (simp add: e nth_append)
  moreover have "lookup_from (?pre @ entries_bytes es @ ?e) key 2 =
      (case find_name key es of None \<Rightarrow> lookup_from (?pre @ entries_bytes es @ ?e) key (2 + length (entries_bytes es))
       | Some n \<Rightarrow> Inr n)"
    using lookup_entries_then [of es key ?pre ?e] assms unfolding length_le_bytes dir_ok_def by blast
  ultimately show ?thesis using name unfolding data by (simp only: simp_thms)
qed

theorem empty_name_breaks_directory_witness:
  "lookup_from (append_entry 9 [] (dir_bytes [(7, [0x61])])) [0x62] 2 = Inl R_bug"
  using empty_name_breaks_directory [of "[(7, [0x61])]" "[0x62]" "[]" 9]
  by (simp add: dir_ok_def entry_ok_def find_name_def)

end
