(* ===== verification/PoolProperties.thy ===== *)
theory PoolProperties
  imports Pools ExampleDevice "HOL-Library.Multiset"
begin

text \<open>
  The reference counts of the inode pool: the multiset \<open>H\<close> holds one element for every live
  \<open>SmartInodePtr\<close>, the pointer it holds. The invariant relates it to the map, the counts and the
  slots of the pool; a run of the pool is a sequence of acquisitions, releases and updates.
\<close>

lemma getNewObject_free:
  assumes "length l = BitList_byteUsage N" and "getNewObject N l = Some i"
  shows "i < N \<and> \<not> getBit N i l"
proof (cases "\<exists>j<N. \<not> getBit N j l")
  case True
  define j where "j = (LEAST j. j < N \<and> \<not> getBit N j l)"
  have j: "j < N" "\<not> getBit N j l" using LeastI_ex [of "\<lambda>j. j < N \<and> \<not> getBit N j l"] True by (auto simp: j_def)
  have "getBit N k l" if "k < j" for k
    using not_less_Least [of k "\<lambda>j. j < N \<and> \<not> getBit N j l"] that j(1) by (auto simp: j_def)
  then have "findFirstFree N l = Some j" using findFirstFree_hit [OF j _ assms(1)] by blast
  then show ?thesis using assms(2) j by (simp add: getNewObject_def)
next
  case False
  then show ?thesis using assms findFirstFree_full [of N l] by (simp add: getNewObject_def split: if_splits)
qed

subsection \<open>The map\<close>

lemma map_fst_set_refs [simp]: "map fst (set_refs no n m) = map fst m"
  by (induction m) (auto simp: set_refs_def split: prod.splits)

lemma in_set_refs:
  "(k, p, c) \<in> set (set_refs no n m) \<longleftrightarrow>
    (if k = no then c = n \<and> (\<exists>c'. (no, p, c') \<in> set m) else (k, p, c) \<in> set m)"
  by (induction m) (auto simp: set_refs_def split: if_splits)

lemma set_refs_pointers [simp]: "(\<lambda>x. fst (snd x)) ` set (set_refs no n m) = (\<lambda>x. fst (snd x)) ` set m"
  by (induction m) (auto simp: set_refs_def split: if_splits)

lemma in_erase_inode: "(k, p, c) \<in> set (erase_inode no m) \<longleftrightarrow> k \<noteq> no \<and> (k, p, c) \<in> set m"
  by (auto simp: erase_inode_def)

lemma erase_set_refs [simp]: "erase_inode no (set_refs no n m) = erase_inode no m"
  by (induction m) (auto simp: set_refs_def erase_inode_def)

lemma absent_stays [simp]:
  "map_of m no = None \<Longrightarrow> map_of (set_refs k n m) no = None"
  "map_of m no = None \<Longrightarrow> map_of (erase_inode k m) no = None"
proof -
  have "fst ` set (set_refs k n m) = fst ` set m" by (metis list.set_map map_fst_set_refs)
  then show "map_of m no = None \<Longrightarrow> map_of (set_refs k n m) no = None" by (simp only: map_of_eq_None_iff simp_thms)
  show "map_of m no = None \<Longrightarrow> map_of (erase_inode k m) no = None"
    by (auto simp: map_of_eq_None_iff erase_inode_def)
qed

lemma distinct_erase_inode: "distinct (map fst m) \<Longrightarrow> distinct (map fst (erase_inode no m))"
  by (simp add: erase_inode_def distinct_map_filter)

subsection \<open>The invariant\<close>

definition pool_pointers :: "'f dev \<Rightarrow> nat set" where
  "pool_pointers s = (\<lambda>x. fst (snd x)) ` set (inodeMap (fls s))"

definition pool_inv :: "'f env \<Rightarrow> nat multiset \<Rightarrow> 'f dev \<Rightarrow> bool" where
  "pool_inv E H s \<longleftrightarrow>
     length (activeInodes (fls s)) = BitList_byteUsage (maxNumberOfInodes E) \<and>
     distinct (map fst (inodeMap (fls s))) \<and>
     (\<forall>no p c. (no, p, c) \<in> set (inodeMap (fls s)) \<longrightarrow> (\<exists>i<maxNumberOfInodes E. p = pool_ptr i) \<and>
        i_no (inodeMem s p) = no \<and> c = count H p \<and> 0 < c \<and> c < 2 ^ 8) \<and>
     (\<forall>i<maxNumberOfInodes E. getBit (maxNumberOfInodes E) i (activeInodes (fls s)) \<longleftrightarrow> pool_ptr i \<in> pool_pointers s) \<and>
     set_mset H \<subseteq> pool_pointers s"

lemma pool_invI:
  assumes "length (activeInodes (fls s)) = BitList_byteUsage (maxNumberOfInodes E)"
    and "distinct (map fst (inodeMap (fls s)))"
    and "\<And>no p c. (no, p, c) \<in> set (inodeMap (fls s)) \<Longrightarrow> (\<exists>i<maxNumberOfInodes E. p = pool_ptr i) \<and>
      i_no (inodeMem s p) = no \<and> c = count H p \<and> 0 < c \<and> c < 2 ^ 8"
    and "\<And>i. i < maxNumberOfInodes E \<Longrightarrow>
      getBit (maxNumberOfInodes E) i (activeInodes (fls s)) \<longleftrightarrow> pool_ptr i \<in> pool_pointers s"
    and "\<And>p. p \<in># H \<Longrightarrow> p \<in> pool_pointers s"
  shows "pool_inv E H s"
  using assms unfolding pool_inv_def by blast

lemma pool_invD:
  assumes "pool_inv E H s"
  shows "length (activeInodes (fls s)) = BitList_byteUsage (maxNumberOfInodes E)"
    and "distinct (map fst (inodeMap (fls s)))"
    and "i < maxNumberOfInodes E \<Longrightarrow>
      getBit (maxNumberOfInodes E) i (activeInodes (fls s)) \<longleftrightarrow> pool_ptr i \<in> pool_pointers s"
    and "p \<in># H \<Longrightarrow> p \<in> pool_pointers s"
  using assms unfolding pool_inv_def by blast+

lemma pool_inv_entry:
  assumes "pool_inv E H s" and "(no, p, c) \<in> set (inodeMap (fls s))"
  shows "\<exists>i<maxNumberOfInodes E. p = pool_ptr i" and "i_no (inodeMem s p) = no" and "c = count H p"
    and "0 < c" and "c < 2 ^ 8" and "map_of (inodeMap (fls s)) no = Some (p, c)" and "p \<in> pool_pointers s"
proof -
  show "\<exists>i<maxNumberOfInodes E. p = pool_ptr i" "i_no (inodeMem s p) = no" "c = count H p" "0 < c" "c < 2 ^ 8"
    using assms unfolding pool_inv_def by blast+
  show "map_of (inodeMap (fls s)) no = Some (p, c)" using pool_invD(2) [OF assms(1)] assms(2) by simp
  show "p \<in> pool_pointers s" using assms(2) by (force simp: pool_pointers_def)
qed

text \<open>What the code relies on for a pointer that is held.\<close>

lemma pool_inv_held:
  assumes "pool_inv E H s" and "q \<in># H"
  shows "(i_no (inodeMem s q), q, count H q) \<in> set (inodeMap (fls s))"
    and "map_of (inodeMap (fls s)) (i_no (inodeMem s q)) = Some (q, count H q)"
proof -
  obtain no c where e: "(no, q, c) \<in> set (inodeMap (fls s))"
    using pool_invD(4) [OF assms] by (auto simp: pool_pointers_def)
  then show "(i_no (inodeMem s q), q, count H q) \<in> set (inodeMap (fls s))"
    using pool_inv_entry(2,3) [OF assms(1) e] by simp
  then show "map_of (inodeMap (fls s)) (i_no (inodeMem s q)) = Some (q, count H q)"
    by (rule pool_inv_entry(6) [OF assms(1)])
qed

text \<open>Two entries with the same number or the same pointer are the same.\<close>

lemma pool_inv_same:
  assumes "pool_inv E H s" and "(k, p, c) \<in> set (inodeMap (fls s))" and "(k', p', c') \<in> set (inodeMap (fls s))"
  shows "k = k' \<longleftrightarrow> p = p'"
  by (metis pool_inv_entry(2,6) [OF assms(1,2)] pool_inv_entry(2,6) [OF assms(1,3)] option.inject prod.inject)

subsection \<open>Acquiring and releasing\<close>

lemma acquire_inv:
  assumes inv: "pool_inv E H s" and e: "(no, p, c) \<in> set (inodeMap (fls s))" and "c + 1 < 2 ^ 8"
  shows "pool_inv E (add_mset p H) (snd (run_state (set_map (set_refs no ((c + 1) mod 2 ^ 8))) s))"
proof (rule pool_invI, goal_cases)
  case (3 k q d)
  then consider "k = no" "d = c + 1" "\<exists>c'. (no, q, c') \<in> set (inodeMap (fls s))"
    | "k \<noteq> no" "(k, q, d) \<in> set (inodeMap (fls s))"
    using assms(3) by (auto simp: set_map_def in_set_refs split: if_splits)
  then show ?case
  proof cases
    case 1
    then have "q = p" using pool_inv_same [OF inv e] by metis
    then show ?thesis using 1 assms(3) pool_inv_entry [OF inv e] by (simp add: set_map_def)
  next
    case 2
    then have "q \<noteq> p" using pool_inv_same [OF inv e] by metis
    then show ?thesis using pool_inv_entry [OF inv 2(2)] by (simp add: set_map_def)
  qed
next
  case (5 q)
  then show ?case using pool_invD(4) [OF inv, of q] pool_inv_entry(7) [OF inv e]
    by (auto simp: set_map_def pool_pointers_def)
qed (simp_all add: set_map_def pool_pointers_def pool_invD(1,2) [OF inv] pool_invD(3) [OF inv, unfolded pool_pointers_def])

text \<open>A new inode takes a free slot; the pool hands out no slot that is in use.\<close>

lemma new_inode_inv:
  assumes inv: "pool_inv E H s" and "map_of (inodeMap (fls s)) no = None"
    and free: "i < maxNumberOfInodes E" "\<not> getBit (maxNumberOfInodes E) i (activeInodes (fls s))" and "i_no x = no"
  shows "pool_inv E (add_mset (pool_ptr i) H) (s\<lparr>inodeMem := (inodeMem s)(pool_ptr i := x),
     fls := (fls s)\<lparr>activeInodes := setBit (maxNumberOfInodes E) i (activeInodes (fls s)),
                    inodeMap := insort_key fst (no, pool_ptr i, 1) (inodeMap (fls s))\<rparr>\<rparr>)"
    and "pool_ptr i \<notin># H"
proof -
  have fresh: "pool_ptr i \<notin> pool_pointers s" using pool_invD(3) [OF inv] free by simp
  then show notin: "pool_ptr i \<notin># H" using pool_invD(4) [OF inv] by blast
  let ?t = "s\<lparr>inodeMem := (inodeMem s)(pool_ptr i := x),
     fls := (fls s)\<lparr>activeInodes := setBit (maxNumberOfInodes E) i (activeInodes (fls s)),
                    inodeMap := insort_key fst (no, pool_ptr i, 1) (inodeMap (fls s))\<rparr>\<rparr>"
  show "pool_inv E (add_mset (pool_ptr i) H) ?t"
  proof (rule pool_invI, goal_cases)
    case 2
    have "no \<notin> fst ` set (inodeMap (fls s))" using assms(2) by (simp add: map_of_eq_None_iff)
    then show ?case using pool_invD(2) [OF inv] by (simp add: distinct_map distinct_insort set_insort_key inj_on_def) (metis fst_conv image_eqI)
  next
    case (3 k q c)
    then consider "k = no" "q = pool_ptr i" "c = 1" | "(k, q, c) \<in> set (inodeMap (fls s))"
      by (auto simp: set_insort_key)
    then show ?case
    proof cases
      case 1
      then show ?thesis using free(1) notin assms(5) by (auto simp: not_in_iff)
    next
      case 2
      then have "q \<noteq> pool_ptr i" using fresh by (force simp: pool_pointers_def)
      then show ?thesis using pool_inv_entry [OF inv 2] by simp
    qed
  next
    case (4 j)
    have "pool_pointers ?t = insert (pool_ptr i) (pool_pointers s)" by (simp add: pool_pointers_def set_insort_key)
    then show ?case using pool_invD(3) [OF inv 4] 4 free(1) pool_invD(1) [OF inv]
      by (auto simp: getBit_setBit pool_ptr_def)
  next
    case (5 q)
    then show ?case using pool_invD(4) [OF inv, of q] by (auto simp: pool_pointers_def set_insort_key)
  qed (simp add: pool_invD(1) [OF inv])
qed

text \<open>
  A release counts down; the last one frees the slot and wipes the object. Other objects stay as
  they are.
\<close>

definition released :: "'f env \<Rightarrow> nat \<Rightarrow> nat \<Rightarrow> 'f dev \<Rightarrow> 'f dev" where
  "released E q c s = (if c = 1
     then s\<lparr>inodeMem := (inodeMem s)(q := zero_inode),
            fls := (fls s)\<lparr>activeInodes := resetBit (maxNumberOfInodes E) (q - pool_ptr 0) (activeInodes (fls s)),
                           inodeMap := erase_inode (i_no (inodeMem s q)) (inodeMap (fls s))\<rparr>\<rparr>
     else s\<lparr>fls := (fls s)\<lparr>inodeMap := set_refs (i_no (inodeMem s q)) (c - 1) (inodeMap (fls s))\<rparr>\<rparr>)"

lemma release_run:
  assumes m: "map_of (inodeMap (fls s)) (i_no (inodeMem s q)) = Some (q, c)" and "0 < c"
    and i: "i < maxNumberOfInodes E" "q = pool_ptr i" and bit: "getBit (maxNumberOfInodes E) i (activeInodes (fls s))"
  shows "run_state (drop_ptr E (Some q)) s = ((), released E q c s)"
proof -
  have free: "freeObject (maxNumberOfInodes E) (q - pool_ptr 0) (activeInodes (fls s))
      = (R_ok, resetBit (maxNumberOfInodes E) (q - pool_ptr 0) (activeInodes (fls s)))" "\<not> q < pool_ptr 0"
    using i bit by (simp_all add: freeObject_def pool_ptr_def)
  show ?thesis
  proof (cases "c = 1")
    case True
    have rel: "run_state (freeInode E q) u = (R_ok, u\<lparr>inodeMem := (inodeMem u)(q := zero_inode),
        fls := (fls u)\<lparr>activeInodes := resetBit (maxNumberOfInodes E) (q - pool_ptr 0) (activeInodes (fls s))\<rparr>\<rparr>)"
      if "activeInodes (fls u) = activeInodes (fls s)" for u :: "'a dev"
      using free that by (simp add: freeInode_def)
    show ?thesis
      using m True by (simp add: drop_ptr_def removeInodeReference_def rel set_map_def released_def)
  next
    case False
    then obtain k where "c = 2 + k" using assms(2) le_Suc_ex [of 2 c] by auto
    then show ?thesis using m by (simp add: drop_ptr_def removeInodeReference_def set_map_def released_def)
  qed
qed

lemma pool_inv_slot:
  assumes inv: "pool_inv E H s" and q: "q \<in># H"
  shows "\<exists>i<maxNumberOfInodes E. q = pool_ptr i \<and> getBit (maxNumberOfInodes E) i (activeInodes (fls s))"
  using pool_inv_entry(1,7) [OF inv pool_inv_held(1) [OF inv q]] pool_invD(3) [OF inv] by blast

lemma release_held:
  assumes inv: "pool_inv E H s" and q: "q \<in># H"
  shows "run_state (drop_ptr E (Some q)) s = ((), released E q (count H q) s)"
  using release_run [OF pool_inv_held(2) [OF inv q] pool_inv_entry(4) [OF inv pool_inv_held(1) [OF inv q]]]
    pool_inv_slot [OF inv q] by blast

lemma release_inv:
  assumes inv: "pool_inv E H s" and q: "q \<in># H" and run: "run_state (drop_ptr E (Some q)) s = ((), t)"
  shows "pool_inv E (H - {#q#}) t"
proof -
  note e = pool_inv_held(1) [OF inv q]
  let ?no = "i_no (inodeMem s q)" and ?m = "inodeMap (fls s)"
  obtain i where i: "i < maxNumberOfInodes E" "q = pool_ptr i" using pool_inv_entry(1) [OF inv e] by blast
  show ?thesis
  proof (cases "count H q = 1")
    case True
    then have t: "inodeMem t = (inodeMem s)(q := zero_inode)" "inodeMap (fls t) = erase_inode ?no ?m"
      "activeInodes (fls t) = resetBit (maxNumberOfInodes E) i (activeInodes (fls s))"
      using run i unfolding release_held [OF inv q] by (auto simp: pool_ptr_def released_def)
    have pp: "pool_pointers t = pool_pointers s - {q}"
      using pool_inv_same [OF inv e] e by (force simp: pool_pointers_def t in_erase_inode)
    show ?thesis
    proof (rule pool_invI, goal_cases)
      case (3 k p c)
      then have k: "k \<noteq> ?no" "(k, p, c) \<in> set ?m" by (simp_all add: t in_erase_inode)
      then have "p \<noteq> q" using pool_inv_same [OF inv e] by metis
      then show ?case using pool_inv_entry(1-5) [OF inv k(2)] by (simp add: t)
    next
      case (4 j)
      then show ?case unfolding pp
        using pool_invD(3) [OF inv 4] i pool_invD(1) [OF inv] by (auto simp: t getBit_resetBit pool_ptr_def)
    next
      case (5 p)
      moreover have "count (H - {#q#}) q = 0" using True by simp
      then have "p \<noteq> q" using 5 by (metis not_in_iff)
      ultimately show ?case unfolding pp using pool_invD(4) [OF inv, of p] by (auto dest: in_diffD)
    qed (use pool_invD(1,2) [OF inv] in \<open>simp_all add: t distinct_erase_inode\<close>)
  next
    case False
    then have t: "inodeMem t = inodeMem s" "inodeMap (fls t) = set_refs ?no (count H q - 1) ?m"
      "activeInodes (fls t) = activeInodes (fls s)"
      using run unfolding release_held [OF inv q] by (auto simp: released_def)
    have pp: "pool_pointers t = pool_pointers s" by (simp add: pool_pointers_def t)
    show ?thesis
    proof (rule pool_invI, goal_cases)
      case (3 k p c)
      then consider "k = ?no" "c = count H q - 1" "\<exists>c'. (?no, p, c') \<in> set ?m" | "k \<noteq> ?no" "(k, p, c) \<in> set ?m"
        by (auto simp: t in_set_refs split: if_splits)
      then show ?case
      proof cases
        case 1
        then have "p = q" using pool_inv_same [OF inv e] by metis
        moreover have "1 < count H q" "count H q < 2 ^ 8" using pool_inv_entry(4,5) [OF inv e] False by linarith+
        ultimately show ?thesis using 1(1,2) i by (auto simp: t)
      next
        case 2
        then have "p \<noteq> q" using pool_inv_same [OF inv e] by metis
        then show ?thesis using pool_inv_entry(1-5) [OF inv 2(2)] by (simp add: t)
      qed
    next
      case (5 p)
      then show ?case unfolding pp using pool_invD(4) [OF inv, of p] by (auto dest: in_diffD)
    qed (use pool_invD(1,2) [OF inv] pool_invD(3) [OF inv] in \<open>simp_all add: t pp\<close>)
  qed
qed

subsection \<open>Runs of the pool\<close>

text \<open>
  What the device does with its pool. The counts must stay below \<open>2 ^ 8\<close>; an update of an inode
  keeps its number.
\<close>

definition handle :: "nat option \<Rightarrow> nat multiset" where
  "handle t = (case t of None \<Rightarrow> {#} | Some p \<Rightarrow> {#p#})"

inductive pool_step :: "'f env \<Rightarrow> nat multiset \<times> 'f dev \<Rightarrow> nat multiset \<times> 'f dev \<Rightarrow> bool" for E where
  existing: "\<lbrakk>handle t \<subseteq># H; \<forall>p c. map_of (inodeMap (fls s)) no = Some (p, c) \<longrightarrow> c + 1 < 2 ^ 8;
    run_state (getExistingInode E no t) s = ((r, t'), s')\<rbrakk>
    \<Longrightarrow> pool_step E (H, s) (H - handle t + handle t', s')"
| new: "\<lbrakk>handle t \<subseteq># H; run_state (requireNewInode E no t) s = ((r, t'), s')\<rbrakk>
    \<Longrightarrow> pool_step E (H, s) (H - handle t + handle t', s')"
| release: "\<lbrakk>handle t \<subseteq># H; run_state (drop_ptr E t) s = ((), s')\<rbrakk> \<Longrightarrow> pool_step E (H, s) (H - handle t, s')"
| update: "\<lbrakk>p \<in># H; i_no (f (inodeMem s p)) = i_no (inodeMem s p); run_state (set_inode p f) s = ((), s')\<rbrakk>
    \<Longrightarrow> pool_step E (H, s) (H, s')"

inductive pool_run :: "'f env \<Rightarrow> nat multiset \<times> 'f dev \<Rightarrow> bool" for E where
  empty: "\<lbrakk>activeInodes (fls s) = BitList_clear (maxNumberOfInodes E); inodeMap (fls s) = []\<rbrakk> \<Longrightarrow> pool_run E ({#}, s)"
| step: "\<lbrakk>pool_run E x; pool_step E x y\<rbrakk> \<Longrightarrow> pool_run E y"

lemma handle_simps [simp]: "handle None = {#}" "handle (Some p) = {#p#}"
  by (simp_all add: handle_def)

text \<open>Dropping the old pointer of a handle that has just been given a new one.\<close>

lemma replace_inv:
  assumes "pool_inv E (add_mset p H) s" and "handle t \<subseteq># H" and "run_state (drop_ptr E t) s = ((), s')"
  shows "pool_inv E (H - handle t + {#p#}) s'"
proof (cases t)
  case None
  then show ?thesis using assms by (simp add: drop_ptr_def)
next
  case (Some q)
  then have "pool_inv E (add_mset p H - {#q#}) s'" using release_inv [OF assms(1), of q] assms(2,3) by simp
  moreover have "add_mset p H - {#q#} = H - {#q#} + {#p#}" using assms(2) Some by (cases "p = q") simp_all
  ultimately show ?thesis using Some by simp
qed

text \<open>
  \<open>requireNewInode\<close> takes the slot, drops the old pointer and then enters the inode into the map. The
  drop does not see the new slot.
\<close>

definition place_inode :: "'f env \<Rightarrow> nat \<Rightarrow> Inode \<Rightarrow> 'f dev \<Rightarrow> 'f dev" where
  "place_inode E i x s = s\<lparr>fls := (fls s)\<lparr>activeInodes := setBit (maxNumberOfInodes E) i (activeInodes (fls s))\<rparr>,
     inodeMem := (inodeMem s)(pool_ptr i := x)\<rparr>"

definition enter_in_map :: "nat \<Rightarrow> InodeNo \<Rightarrow> 'f dev \<Rightarrow> 'f dev" where
  "enter_in_map i no s = s\<lparr>fls := (fls s)\<lparr>inodeMap := insort_key fst (no, pool_ptr i, 1) (inodeMap (fls s))\<rparr>\<rparr>"

lemma drop_in_placed:
  assumes inv: "pool_inv E H s" and "q \<in># H"
    and free: "i < maxNumberOfInodes E \<and> \<not> getBit (maxNumberOfInodes E) i (activeInodes (fls s))"
  shows "run_state (drop_ptr E (Some q)) (place_inode E i x s) = ((), released E q (count H q) (place_inode E i x s))"
    and "pool_ptr i \<noteq> q"
proof -
  obtain j where j: "j < maxNumberOfInodes E" "q = pool_ptr j" "getBit (maxNumberOfInodes E) j (activeInodes (fls s))"
    using pool_inv_slot [OF inv assms(2)] by blast
  then show ne: "pool_ptr i \<noteq> q" using free by (auto simp: pool_ptr_def)
  show "run_state (drop_ptr E (Some q)) (place_inode E i x s) = ((), released E q (count H q) (place_inode E i x s))"
  proof (rule release_run)
    show "map_of (inodeMap (fls (place_inode E i x s))) (i_no (inodeMem (place_inode E i x s) q)) = Some (q, count H q)"
      using pool_inv_held(2) [OF inv assms(2)] ne by (simp add: place_inode_def)
    show "getBit (maxNumberOfInodes E) j (activeInodes (fls (place_inode E i x s)))"
      using j free pool_invD(1) [OF inv] by (simp add: place_inode_def getBit_setBit)
  qed (use j assms(2) in simp_all)
qed

lemma drop_keeps_absent:
  assumes inv: "pool_inv E H s" and "handle t \<subseteq># H"
    and free: "i < maxNumberOfInodes E \<and> \<not> getBit (maxNumberOfInodes E) i (activeInodes (fls s))"
    and "map_of (inodeMap (fls s)) no = None"
  shows "map_of (inodeMap (fls (snd (run_state (drop_ptr E t) (place_inode E i x s))))) no = None"
proof (cases t)
  case None
  then show ?thesis using assms(4) by (simp add: drop_ptr_def place_inode_def)
next
  case (Some q)
  then have "q \<in># H" using assms(2) by simp
  then show ?thesis using assms(4) unfolding Some drop_in_placed(1) [OF inv \<open>q \<in># H\<close> free]
    by (simp add: released_def place_inode_def)
qed

text \<open>The invariant looks at the bits only.\<close>

lemma pool_inv_cong:
  assumes "pool_inv E H s" and "inodeMap (fls t) = inodeMap (fls s)" and "inodeMem t = inodeMem s"
    and "length (activeInodes (fls t)) = length (activeInodes (fls s))"
    and "\<And>j. j < maxNumberOfInodes E \<Longrightarrow>
      getBit (maxNumberOfInodes E) j (activeInodes (fls t)) = getBit (maxNumberOfInodes E) j (activeInodes (fls s))"
  shows "pool_inv E H t"
  using assms unfolding pool_inv_def pool_pointers_def by simp

lemma new_after_drop:
  assumes inv: "pool_inv E H s" and "handle t \<subseteq># H" and m: "map_of (inodeMap (fls s)) no = None"
    and free: "i < maxNumberOfInodes E \<and> \<not> getBit (maxNumberOfInodes E) i (activeInodes (fls s))"
  shows "pool_inv E (H - handle t + {#pool_ptr i#})
     (enter_in_map i no (snd (run_state (drop_ptr E t) (place_inode E i (zero_inode\<lparr>i_no := no\<rparr>) s))))"
proof (cases t)
  case None
  then show ?thesis using new_inode_inv(1) [OF inv m] free
    by (simp add: drop_ptr_def place_inode_def enter_in_map_def)
next
  case (Some q)
  then have q: "q \<in># H" using assms(2) by simp
  define s1 where "s1 = released E q (count H q) s"
  have inv1: "pool_inv E (H - {#q#}) s1" using release_inv [OF inv q] release_held [OF inv q] by (simp add: s1_def)
  note ne = drop_in_placed(2) [OF inv q free]
  obtain j where j: "j < maxNumberOfInodes E" "q = pool_ptr j" using pool_inv_slot [OF inv q] by blast
  then have ij: "i \<noteq> j" using ne by auto
  have b: "getBit (maxNumberOfInodes E) k (resetBit (maxNumberOfInodes E) j l) = (k \<noteq> j \<and> getBit (maxNumberOfInodes E) k l)"
    "getBit (maxNumberOfInodes E) k (setBit (maxNumberOfInodes E) i l) = (k = i \<or> getBit (maxNumberOfInodes E) k l)"
    if "length l = BitList_byteUsage (maxNumberOfInodes E)" "k < maxNumberOfInodes E" for k l
    using that j free by (simp_all add: getBit_resetBit getBit_setBit)
  have m1: "map_of (inodeMap (fls s1)) no = None"
    using m by (simp add: s1_def released_def)
  have free1: "\<not> getBit (maxNumberOfInodes E) i (activeInodes (fls s1))"
    using free b(1) pool_invD(1) [OF inv] by (simp add: s1_def released_def j(2) pool_ptr_def)
  have "pool_inv E (add_mset (pool_ptr i) (H - {#q#})) (enter_in_map i no (place_inode E i (zero_inode\<lparr>i_no := no\<rparr>) s1))"
    unfolding enter_in_map_def place_inode_def
    using new_inode_inv(1) [OF inv1 m1 conjunct1 [OF free] free1, of "zero_inode\<lparr>i_no := no\<rparr>"] by simp
  then have "pool_inv E (add_mset (pool_ptr i) (H - {#q#}))
      (enter_in_map i no (released E q (count H q) (place_inode E i (zero_inode\<lparr>i_no := no\<rparr>) s)))"
    by (rule pool_inv_cong)
      (use ne ij b pool_invD(1) [OF inv] in \<open>auto simp: s1_def released_def enter_in_map_def place_inode_def j pool_ptr_def\<close>)
  then show ?thesis unfolding Some drop_in_placed(1) [OF inv q free] by simp
qed

lemma pool_step_inv:
  assumes "pool_step E (H, s) (H', s')" and inv: "pool_inv E H s"
  shows "pool_inv E H' s'"
  using assms(1)
proof (cases rule: pool_step.cases)
  case (existing t no r t')
  show ?thesis
  proof (cases "map_of (inodeMap (fls s)) no")
    case None
    then show ?thesis using existing inv by (auto simp: getExistingInode_def)
  next
    case (Some a)
    obtain p c where a: "a = (p, c)" by (cases a)
    then have e: "(no, p, c) \<in> set (inodeMap (fls s))" "c + 1 < 2 ^ 8" using Some existing(3) map_of_SomeD by auto
    define u where "u = snd (run_state (set_map (set_refs no ((c + 1) mod 2 ^ 8))) s)"
    have "run_state (drop_ptr E t) u = ((), s')" "t' = Some p"
      using existing(4) Some a by (auto simp: getExistingInode_def setInode_def u_def set_map_def split: prod.splits)
    then show ?thesis
      using replace_inv [OF acquire_inv [OF inv e] existing(2)] existing(1) by (simp add: u_def)
  qed
next
  case (update p f)
  then have "inodeMem s' q = inodeMem s q \<or> i_no (inodeMem s' q) = i_no (inodeMem s q)" for q by auto
  then have "i_no (inodeMem s' q) = i_no (inodeMem s q)" for q by metis
  moreover have "fls s' = fls s" using update by auto
  ultimately show ?thesis using inv update(1) by (simp add: pool_inv_def pool_pointers_def)
next
  case (release t)
  then show ?thesis using inv release_inv [OF inv] by (cases t) (auto simp: drop_ptr_def)
next
  case (new t no r t')
  show ?thesis
  proof (cases "map_of (inodeMap (fls s)) no = None \<and> (\<exists>i. getNewObject (maxNumberOfInodes E) (activeInodes (fls s)) = Some i)")
    case False
    then have "s' = s \<and> t' = t"
      using new(3) by (cases "map_of (inodeMap (fls s)) no"; cases "getNewObject (maxNumberOfInodes E) (activeInodes (fls s))")
        (auto simp: requireNewInode_def getNewInode_def)
    then show ?thesis using inv new(1,2) by simp
  next
    case True
    then obtain i where m: "map_of (inodeMap (fls s)) no = None"
      and i: "getNewObject (maxNumberOfInodes E) (activeInodes (fls s)) = Some i" by blast
    note free = getNewObject_free [OF pool_invD(1) [OF inv] i]
    let ?u = "place_inode E i (zero_inode\<lparr>i_no := no\<rparr>) s"
    obtain u where u: "run_state (drop_ptr E t) ?u = ((), u)" by (metis old.unit.exhaust surj_pair)
    have "map_of (inodeMap (fls u)) no = None"
      using drop_keeps_absent [OF inv new(2) free m, of "zero_inode\<lparr>i_no := no\<rparr>"] by (simp add: u)
    then have "s' = enter_in_map i no u \<and> t' = Some (pool_ptr i)"
      using new(3) m i u
      by (simp add: requireNewInode_def getNewInode_def setInode_def place_inode_def enter_in_map_def set_map_def)
    then have "s' = enter_in_map i no (snd (run_state (drop_ptr E t) ?u)) \<and> t' = Some (pool_ptr i)"
      by (simp add: u)
    then show ?thesis using new_after_drop [OF inv new(2) m free] new(1) by simp
  qed
qed

lemma pool_run_inv: "pool_run E x \<Longrightarrow> pool_inv E (fst x) (snd x)"
proof (induction rule: pool_run.induct)
  case (empty s)
  then show ?case by (auto simp: pool_inv_def pool_pointers_def getBit_clear)
next
  case (step x y)
  then show ?case using pool_step_inv [of E "fst x" "snd x" "fst y" "snd y"] by simp
qed

lemma pool_inv_pointers: "pool_inv E H s \<Longrightarrow> pool_pointers s = set_mset H"
  using pool_inv_entry(3,4) [of E H s] pool_invD(4) [of E H s]
  by (auto simp: pool_pointers_def simp flip: count_greater_zero_iff)

text \<open>As long as fewer objects are held than the pool has, it finds one that is not held.\<close>

lemma pool_inv_free:
  assumes inv: "pool_inv E H s" and "card (set_mset H) < maxNumberOfInodes E"
  shows "\<exists>i<maxNumberOfInodes E. getNewObject (maxNumberOfInodes E) (activeInodes (fls s)) = Some i \<and> pool_ptr i \<notin># H"
proof -
  let ?N = "maxNumberOfInodes E" and ?l = "activeInodes (fls s)"
  have bit: "getBit ?N i ?l \<longleftrightarrow> pool_ptr i \<in># H" if "i < ?N" for i
    using pool_invD(3) [OF inv that] pool_inv_pointers [OF inv] by simp
  have "card (pool_ptr ` {..<?N}) = ?N" by (simp add: card_image inj_on_def pool_ptr_def)
  then have "\<not> pool_ptr ` {..<?N} \<subseteq> set_mset H" using assms(2) card_mono [of "set_mset H" "pool_ptr ` {..<?N}"] by (metis finite_set_mset not_le)
  then have ex: "\<exists>j. j < ?N \<and> \<not> getBit ?N j ?l" using bit by blast
  define j where "j = (LEAST j. j < ?N \<and> \<not> getBit ?N j ?l)"
  have j: "j < ?N" "\<not> getBit ?N j ?l" using LeastI_ex [OF ex] by (simp_all add: j_def)
  have "getBit ?N k ?l" if "k < j" for k
    using not_less_Least [of k "\<lambda>j. j < ?N \<and> \<not> getBit ?N j ?l"] that j(1) unfolding j_def by linarith
  then have "findFirstFree ?N ?l = Some j" using findFirstFree_hit [OF j _ pool_invD(1) [OF inv]] by blast
  then show ?thesis using j bit by (auto simp: getNewObject_def)
qed

text \<open>
  C14: in every run of the inode pool in which no inode gets \<open>2 ^ 8\<close> references, the count of an inode
  is the number of live pointers to it, an object is in use exactly as long as a pointer to it is
  alive, and two pointers to inodes of the same number point to the same object.
\<close>

theorem pool_counts_in_runs:
  assumes "pool_run E (H, s)"
  shows "(\<forall>p. p \<in># H \<longrightarrow> map_of (inodeMap (fls s)) (i_no (inodeMem s p)) = Some (p, count H p)) \<and>
     (\<forall>i<maxNumberOfInodes E. getBit (maxNumberOfInodes E) i (activeInodes (fls s)) \<longleftrightarrow> pool_ptr i \<in># H) \<and>
     (\<forall>p q. p \<in># H \<longrightarrow> q \<in># H \<longrightarrow> i_no (inodeMem s p) = i_no (inodeMem s q) \<longrightarrow> p = q)"
proof -
  have inv: "pool_inv E H s" using pool_run_inv [OF assms] by simp
  then show ?thesis using pool_inv_pointers pool_inv_held(2) [OF inv] pool_invD(3) [OF inv] by (metis option.inject prod.inject)
qed

lemma ex_pool_run: "\<exists>s. pool_run ex_env ({#2, 2#}, s) \<and> i_no (inodeMem s 2) = 7"
proof -
  have free: "getNewObject (maxNumberOfInodes ex_env) (activeInodes (fls ex_dev)) = Some 0"
    by (simp add: getNewObject_def findFirstFree_def ex_env_def ex_dev_def BitList_clear_def BitList_byteUsage_def
        getBit_def upt_rec)
  obtain r t s where run: "run_state (requireNewInode ex_env 7 None) ex_dev = ((r, t), s)" by (metis surj_pair)
  then have t: "t = Some 2" "i_no (inodeMem s 2) = 7" "map_of (inodeMap (fls s)) 7 = Some (2, 1)"
    using free by (auto simp: requireNewInode_def getNewInode_def setInode_def drop_ptr_def set_map_def pool_ptr_def ex_dev_def)
  have "pool_run ex_env ({#}, ex_dev)" by (rule pool_run.empty) (simp_all add: ex_dev_def ex_env_def)
  then have 1: "pool_run ex_env ({#2#}, s)"
    using pool_run.step pool_step.new [OF _ run, of "{#}"] t(1) by fastforce
  obtain r' t' s' where run': "run_state (getExistingInode ex_env 7 None) s = ((r', t'), s')" by (metis surj_pair)
  then have t': "t' = Some 2" "i_no (inodeMem s' 2) = 7"
    using t by (auto simp: getExistingInode_def setInode_def drop_ptr_def set_map_def)
  have "pool_step ex_env ({#2#}, s) ({#2, 2#}, s')"
    using pool_step.existing [OF _ _ run', of "{#2#}"] t(3) t'(1) by simp
  then show ?thesis using 1 pool_run.step t'(2) by blast
qed

theorem pool_counts_in_runs_witness:
  "\<exists>s :: ram_flash dev. map_of (inodeMap (fls s)) 7 = Some (2, 2) \<and> getBit 4 0 (activeInodes (fls s))"
proof -
  obtain s where s: "pool_run ex_env ({#2, 2#}, s)" "i_no (inodeMem s 2) = 7" using ex_pool_run by blast
  have "maxNumberOfInodes ex_env = 4" by (simp add: ex_env_def)
  then show ?thesis using pool_counts_in_runs [OF s(1)] s(2)
    by (intro exI [of _ s]) (auto simp: pool_ptr_def dest: spec [of _ 2] spec [of _ 0])
qed


text \<open>
  C23: the pool never starves a run that holds pointers to fewer inodes than the pool has objects: the
  next inode that is not in the pool gets an object, one that nobody holds.
\<close>

theorem pool_never_starves:
  assumes "pool_run E (H, s)" and "card (set_mset H) < maxNumberOfInodes E"
    and "map_of (inodeMap (fls s)) no = None"
  shows "\<exists>p s'. run_state (requireNewInode E no t) s = ((R_ok, Some p), s') \<and> p \<notin># H"
proof -
  obtain i where "getNewObject (maxNumberOfInodes E) (activeInodes (fls s)) = Some i" "pool_ptr i \<notin># H"
    using pool_inv_free [OF _ assms(2)] pool_run_inv [OF assms(1)] by auto
  then show ?thesis
    using assms(3) by (auto simp: requireNewInode_def getNewInode_def setInode_def split: prod.splits)
qed

theorem pool_never_starves_witness:
  "\<exists>(s :: ram_flash dev) p s'. i_no (inodeMem s 2) = 7 \<and>
     run_state (requireNewInode ex_env 8 (Some 2)) s = ((R_ok, Some p), s') \<and> p \<noteq> 2"
proof -
  obtain s where s: "pool_run ex_env ({#2, 2#}, s)" "i_no (inodeMem s 2) = 7" using ex_pool_run by blast
  have "map_of (inodeMap (fls s)) 8 = None"
  proof (rule ccontr)
    assume "map_of (inodeMap (fls s)) 8 \<noteq> None"
    then obtain p c where e: "(8, p, c) \<in> set (inodeMap (fls s))" using map_of_SomeD by fastforce
    have inv: "pool_inv ex_env {#2, 2#} s" using pool_run_inv [OF s(1)] by simp
    have "p = 2" "i_no (inodeMem s p) = 8"
      using pool_inv_entry(2,7) [OF inv e] pool_inv_pointers [OF inv] by auto
    then show False using s(2) by simp
  qed
  then show ?thesis
    using pool_never_starves [OF s(1), of 8 "Some 2"] s(2) by (auto simp: ex_env_def)
qed

text \<open>With 255 references the next one wraps the count, and no release works any more.\<close>

theorem refcount_wraps:
  assumes "map_of (inodeMap (fls s)) no = Some (p, 255)"
  shows "run_state (do { _ \<leftarrow> getExistingInode E no None; removeInodeReference E no }) s
     = (R_bug, s\<lparr>fls := (fls s)\<lparr>inodeMap := set_refs no 0 (inodeMap (fls s))\<rparr>\<rparr>)"
proof -
  have "map_of (set_refs no 0 m) no = map_option (\<lambda>(p, c). (p, 0)) (map_of m no)" for m
    by (induction m) (auto simp: set_refs_def)
  then show ?thesis
    using assms by (simp add: getExistingInode_def setInode_def drop_ptr_def set_map_def removeInodeReference_def)
qed

end
