(* ===== verification/FileSystems.thy ===== *)
theory FileSystems
  imports DeviceMount
begin

text \<open>
  \<^verbatim>\<open>src/paffs.cpp\<close>: the interface of the file system. It owns a fixed array of devices, each with the
  driver it was created with; an entry without a device is \<open>None\<close>. Formatting, mounting, unmounting
  and the creation of a directory go to every device, all other operations to the first one.
\<close>

type_synonym 'f volume = "'f env \<times> 'f dev"
type_synonym 'f paffs = "'f volume option list"

text \<open>The constructor gets the devices in the state of their own constructor.\<close>

definition new_paffs :: "nat \<Rightarrow> 'f volume list \<Rightarrow> 'f paffs" where
  "new_paffs maxNumberOfDevices vs =
     map Some (take maxNumberOfDevices vs) @ replicate (maxNumberOfDevices - length vs) None"

text \<open>The destructor: a device that is still mounted is taken down without writing anything.\<close>

definition destroy_volume :: "'f volume \<Rightarrow> 'f dev" where
  "destroy_volume v =
     (let (E, s) = v in if mounted (fls s) then snd (run_state (destroyDevice E) s) else s)"

definition destroy_paffs :: "'f paffs \<Rightarrow> 'f dev list" where
  "destroy_paffs P = map destroy_volume (List.map_filter id P)"

subsection \<open>All devices\<close>

text \<open>A device whose operation is still running keeps the devices behind it waiting.\<close>

fun each_device ::
  "(nat \<Rightarrow> 'f env \<Rightarrow> ('f dev, Result option) state) \<Rightarrow> nat \<Rightarrow> Result \<Rightarrow> 'f paffs \<Rightarrow> Result option \<times> 'f paffs" where
  "each_device op i global [] = (Some global, [])"
| "each_device op i global (None # P) =
     (let (r, P') = each_device op (i + 1) global P in (r, None # P'))"
| "each_device op i global (Some (E, s) # P) =
     (case run_state (op i E) s of
        (None, s') \<Rightarrow> (None, Some (E, s') # P)
      | (Some r, s') \<Rightarrow>
          let (r', P') = each_device op (i + 1) (worse r global) P in (r', Some (E, s') # P'))"

definition on_all :: "(nat \<Rightarrow> 'f env \<Rightarrow> ('f dev, Result option) state) \<Rightarrow> ('f paffs, Result option) state" where
  "on_all op = State (each_device op 0 R_ok)"

definition Paffs_format :: "nat \<Rightarrow> (nat \<Rightarrow> BlockAbs list) \<Rightarrow> bool \<Rightarrow> ('f paffs, Result option) state" where
  "Paffs_format n badBlockList complete = on_all (\<lambda>i E. format_device n E (badBlockList i) complete)"

definition Paffs_mount :: "nat \<Rightarrow> bool \<Rightarrow> ('f paffs, Result option) state" where
  "Paffs_mount n ro = on_all (\<lambda>_ E. mnt n E ro)"

definition Paffs_unmount :: "nat \<Rightarrow> ('f paffs, Result option) state" where
  "Paffs_unmount n = on_all (\<lambda>_ E. unmnt n E)"

definition Paffs_mkDir :: "nat \<Rightarrow> byte list \<Rightarrow> nat \<Rightarrow> ('f paffs, Result option) state" where
  "Paffs_mkDir n path perm = on_all (\<lambda>_ E. mkDir n E path perm)"

definition Paffs_resetLastErr :: "('f paffs, unit) state" where
  "Paffs_resetLastErr = modify (map (map_option (\<lambda>(E, s). (E, s\<lparr>lasterr := R_ok\<rparr>))))"

subsection \<open>The first device\<close>

text \<open>The answer \<open>None\<close> is a file system without a device, where the code follows a null pointer.\<close>

definition on_first :: "('f env \<Rightarrow> ('f dev, 'a) state) \<Rightarrow> ('f paffs, 'a option) state" where
  "on_first op = State (\<lambda>P. case P of
     Some (E, s) # P' \<Rightarrow> let (x, s') = run_state (op E) s in (Some x, Some (E, s') # P')
   | _ \<Rightarrow> (None, P))"

definition Paffs_getLastErr :: "('f paffs, Result option) state" where
  "Paffs_getLastErr = on_first (\<lambda>_. gets lasterr)"

definition Paffs_openDir :: "byte list \<Rightarrow> ('f paffs, Dir option option) state" where
  "Paffs_openDir path = on_first (\<lambda>E. openDir E path)"

definition Paffs_closeDir :: "Dir \<Rightarrow> ('f paffs, Result option) state" where
  "Paffs_closeDir d = on_first (\<lambda>E. closeDir E d)"

definition Paffs_readDir :: "Dir \<Rightarrow> ('f paffs, (nat option \<times> Dir) option) state" where
  "Paffs_readDir d = on_first (\<lambda>E. readDir E d)"

definition Paffs_rewindDir :: "Dir \<Rightarrow> ('f paffs, Dir option) state" where
  "Paffs_rewindDir d = on_first (\<lambda>_. ret (rewindDir d))"

definition Paffs_open :: "nat \<Rightarrow> byte list \<Rightarrow> nat \<Rightarrow> ('f paffs, nat option option option) state" where
  "Paffs_open n path flags = on_first (\<lambda>E. dev_open n E path flags)"

definition Paffs_close :: "nat \<Rightarrow> nat \<Rightarrow> ('f paffs, Result option option) state" where
  "Paffs_close n obj = on_first (\<lambda>E. dev_close n E obj)"

definition Paffs_touch :: "nat \<Rightarrow> byte list \<Rightarrow> ('f paffs, Result option option) state" where
  "Paffs_touch n path = on_first (\<lambda>E. touch n E path)"

definition Paffs_getObjInfo :: "byte list \<Rightarrow> ('f paffs, (Result + ObjInfo) option) state" where
  "Paffs_getObjInfo path = on_first (\<lambda>E. getObjInfo E path)"

definition Paffs_read :: "nat \<Rightarrow> FileSize \<Rightarrow> ('f paffs, (Result \<times> byte list) option) state" where
  "Paffs_read obj bytes = on_first (\<lambda>E. dev_read E obj bytes)"

definition Paffs_write :: "nat \<Rightarrow> nat \<Rightarrow> byte list \<Rightarrow> ('f paffs, (Result option \<times> nat) option) state" where
  "Paffs_write n obj data = on_first (\<lambda>E. dev_write n E obj data)"

definition Paffs_seek :: "nat \<Rightarrow> int \<Rightarrow> Seekmode \<Rightarrow> ('f paffs, Result option) state" where
  "Paffs_seek obj m mode = on_first (\<lambda>_. seek obj m mode)"

definition Paffs_flush :: "nat \<Rightarrow> nat \<Rightarrow> ('f paffs, Result option option) state" where
  "Paffs_flush n obj = on_first (\<lambda>E. dev_flush n E obj)"

definition Paffs_flush_all :: "nat \<Rightarrow> ('f paffs, Result option option) state" where
  "Paffs_flush_all n = on_first (flushAllCaches n)"

definition Paffs_truncate :: "nat \<Rightarrow> byte list \<Rightarrow> FileSize \<Rightarrow> ('f paffs, Result option option) state" where
  "Paffs_truncate n path len = on_first (\<lambda>E. dev_truncate n E path len True)"

definition Paffs_chmod :: "byte list \<Rightarrow> nat \<Rightarrow> ('f paffs, Result option) state" where
  "Paffs_chmod path perm = on_first (\<lambda>E. chmod E path perm)"

definition Paffs_remove :: "nat \<Rightarrow> byte list \<Rightarrow> ('f paffs, Result option option) state" where
  "Paffs_remove n path = on_first (\<lambda>E. dev_remove n E path)"

definition Paffs_getListOfOpenFiles :: "('f paffs, nat list option) state" where
  "Paffs_getListOfOpenFiles = on_first (\<lambda>E. gets (getListOfOpenFiles E))"

definition Paffs_getNumberOfOpenFiles :: "('f paffs, nat option) state" where
  "Paffs_getNumberOfOpenFiles = on_first (\<lambda>E. gets (getNumberOfOpenFiles E))"

definition Paffs_getNumberOfOpenInodes :: "('f paffs, nat option) state" where
  "Paffs_getNumberOfOpenInodes = on_first (\<lambda>E. gets (getNumberOfOpenInodes E))"

text \<open>A number behind the array and an entry without a device both are a null pointer.\<close>

definition Paffs_getDevice :: "nat \<Rightarrow> 'f paffs \<Rightarrow> 'f volume option" where
  "Paffs_getDevice number P = (if number \<ge> length P then None else P ! number)"

end
