(* ===== verification/FileSystemProperties.thy ===== *)
theory FileSystemProperties
  imports FileSystems ExampleDevice
begin

text \<open>
  What an operation on all devices promises: every device answers on its own, in the order of the
  array and from the state it had before, and the caller gets the worst of the answers.
\<close>

lemma worse_max: "worse r global = max r global"
  by (simp add: worse_def max_def less_eq_Result_def)

text \<open>The answer \<open>r\<close> of an operation on one entry of the array, and the entry behind it.\<close>

definition answers :: "('f env \<Rightarrow> ('f dev, Result option) state) \<Rightarrow> 'f volume option \<Rightarrow> Result \<Rightarrow> 'f volume option \<Rightarrow> bool" where
  "answers op v r v' =
     (case v of None \<Rightarrow> r = R_ok \<and> v' = None
      | Some (E, s) \<Rightarrow> \<exists>s'. run_state (op E) s = (Some r, s') \<and> v' = Some (E, s'))"

lemma each_device_answers:
  assumes "each_device op i global P = (Some r, P')"
  shows "\<exists>rs. length rs = length P \<and> length P' = length P \<and>
    (\<forall>j<length P. answers (op (i + j)) (P ! j) (rs ! j) (P' ! j)) \<and> r = Max (set (global # rs))"
  using assms
proof (induction op i global P arbitrary: P' rule: each_device.induct)
  case (1 op i global)
  then show ?case by simp
next
  case (2 op i global P)
  then obtain Q where Q: "each_device op (i + 1) global P = (Some r, Q)" "P' = None # Q" by (auto split: prod.splits)
  obtain rs where rs: "length rs = length P" "length Q = length P"
    "\<forall>j<length P. answers (op (i + 1 + j)) (P ! j) (rs ! j) (Q ! j)" "r = Max (set (global # rs))"
    using "2.IH" [OF Q(1)] by blast
  have "Max (insert R_ok (insert global (set rs))) = Max (insert global (set rs))"
    by (subst Max_insert) (simp_all add: max_absorb2)
  then have "r = Max (set (global # R_ok # rs))" using rs(4) by (simp only: list.set insert_commute)
  moreover have "answers (op (i + j)) ((None # P) ! j) ((R_ok # rs) ! j) (P' ! j)" if "j < length (None # P)" for j
    using rs(3) that Q(2) by (cases j) (auto simp: answers_def)
  ultimately show ?case using rs(1,2) Q(2) by (intro exI [of _ "R_ok # rs"]) simp
next
  case (3 op i global E s P)
  obtain x s' where x: "run_state (op i E) s = (x, s')" by (metis surj_pair)
  then obtain a where a: "x = Some a" using "3.prems" by (cases x) auto
  obtain Q where Q: "each_device op (i + 1) (worse a global) P = (Some r, Q)" "P' = Some (E, s') # Q"
    using "3.prems" x a by (auto split: prod.splits)
  obtain rs where rs: "length rs = length P" "length Q = length P"
    "\<forall>j<length P. answers (op (i + 1 + j)) (P ! j) (rs ! j) (Q ! j)" "r = Max (set (worse a global # rs))"
    using "3.IH" [OF _ a] x Q(1) by fastforce
  then have "r = Max (set (global # a # rs))"
    by (cases "rs = []") (auto simp: worse_max max.left_commute max.commute max.assoc)
  moreover have "answers (op (i + j)) ((Some (E, s) # P) ! j) ((a # rs) ! j) (P' ! j)"
    if "j < length (Some (E, s) # P)" for j
    using rs(3) that Q(2) x a by (cases j) (auto simp: answers_def)
  ultimately show ?case using rs(1,2) Q(2) by (intro exI [of _ "a # rs"]) simp
qed


text \<open>
  C22: an operation on all devices of the file system leaves every device as its own operation leaves
  it and no entry of the array out; it succeeds exactly if every device succeeds, and fails with one
  of their answers otherwise.
\<close>

theorem all_devices_answer:
  assumes "run_state (on_all op) P = (Some r, P')"
  shows "\<exists>rs. length rs = length P \<and> length P' = length P \<and>
    (\<forall>i<length P. answers (op i) (P ! i) (rs ! i) (P' ! i)) \<and>
    (r = R_ok \<longleftrightarrow> (\<forall>a\<in>set rs. a = R_ok)) \<and> (r = R_ok \<or> r \<in> set rs)"
proof -
  obtain rs where rs: "length rs = length P" "length P' = length P"
    "\<forall>i<length P. answers (op i) (P ! i) (rs ! i) (P' ! i)" "r = Max (set (R_ok # rs))"
    using each_device_answers [of op 0 R_ok P r P'] assms by (auto simp: on_all_def)
  then have "a \<le> r" if "a \<in> set rs" for a using that by simp
  moreover have "r \<in> set (R_ok # rs)" unfolding rs(4) by (rule Max_in) simp_all
  ultimately show ?thesis using rs(1-3) by (intro exI [of _ rs]) (auto simp: antisym)
qed

theorem all_devices_answer_witness:
  "\<exists>r P'. run_state (Paffs_mkDir 9 [0x2F, 0x61] 6) [Some (ex_env, ex_dev\<lparr>readOnly := True\<rparr>), None] = (Some r, P') \<and>
     length P' = 2 \<and> r \<noteq> R_ok"
proof -
  have bad: "run_state (mkDir 9 ex_env [0x2F, 0x61] 6) (ex_dev\<lparr>readOnly := True\<rparr>) = (Some R_readOnly, ex_dev\<lparr>readOnly := True\<rparr>)"
    by (simp add: mkDir_def write_guard_def ex_dev_def)
  let ?op = "\<lambda>_ E. mkDir 9 E [0x2F, 0x61] 6"
  obtain r P' where run: "run_state (on_all ?op) [Some (ex_env, ex_dev\<lparr>readOnly := True\<rparr>), None] = (Some r, P')"
    using bad by (simp add: on_all_def)
  let ?P = "[Some (ex_env, ex_dev\<lparr>readOnly := True\<rparr>), None]"
  obtain rs where rs: "length rs = length ?P" "length P' = length ?P"
    "\<forall>i<length ?P. answers (?op i) (?P ! i) (rs ! i) (P' ! i)" "r = R_ok \<longleftrightarrow> (\<forall>a\<in>set rs. a = R_ok)"
    using all_devices_answer [OF run] by blast
  have "answers (?op 0) (?P ! 0) (rs ! 0) (P' ! 0)" using rs(3) by (simp only: list.size)
  then have "rs ! 0 = R_readOnly" using bad by (auto simp: answers_def)
  moreover have "rs ! 0 \<in> set rs" using rs(1) by (intro nth_mem) simp
  ultimately have "r \<noteq> R_ok" using rs(4) by force
  then show ?thesis using run rs(2) unfolding Paffs_mkDir_def by (intro exI [of _ r] exI [of _ P']) simp
qed

end
