(* ===== verification/YaffsEcc.thy ===== *)
theory YaffsEcc
  imports PaffsTypes
begin

unbundle bit_operations_syntax

text \<open>
  \<^verbatim>\<open>src/driver/yaffs_ecc.hpp\<close>, \<^verbatim>\<open>src/driver/yaffs_ecc.cpp\<close>: the error correcting code over 256 bytes
  that the drivers store in the spare bytes of a page, with the tables of the source. The three
  bytes of a code are a triple. The lemmas show the tables to be linear, and what the code does to
  no, one or two wrong bits.
\<close>

subsection \<open>Tables\<close>

definition count_bits_table :: "nat list" where
  "count_bits_table =
    [0, 1, 1, 2, 1, 2, 2, 3, 1, 2, 2, 3, 2, 3, 3, 4,
     1, 2, 2, 3, 2, 3, 3, 4, 2, 3, 3, 4, 3, 4, 4, 5,
     1, 2, 2, 3, 2, 3, 3, 4, 2, 3, 3, 4, 3, 4, 4, 5,
     2, 3, 3, 4, 3, 4, 4, 5, 3, 4, 4, 5, 4, 5, 5, 6,
     1, 2, 2, 3, 2, 3, 3, 4, 2, 3, 3, 4, 3, 4, 4, 5,
     2, 3, 3, 4, 3, 4, 4, 5, 3, 4, 4, 5, 4, 5, 5, 6,
     2, 3, 3, 4, 3, 4, 4, 5, 3, 4, 4, 5, 4, 5, 5, 6,
     3, 4, 4, 5, 4, 5, 5, 6, 4, 5, 5, 6, 5, 6, 6, 7,
     1, 2, 2, 3, 2, 3, 3, 4, 2, 3, 3, 4, 3, 4, 4, 5,
     2, 3, 3, 4, 3, 4, 4, 5, 3, 4, 4, 5, 4, 5, 5, 6,
     2, 3, 3, 4, 3, 4, 4, 5, 3, 4, 4, 5, 4, 5, 5, 6,
     3, 4, 4, 5, 4, 5, 5, 6, 4, 5, 5, 6, 5, 6, 6, 7,
     2, 3, 3, 4, 3, 4, 4, 5, 3, 4, 4, 5, 4, 5, 5, 6,
     3, 4, 4, 5, 4, 5, 5, 6, 4, 5, 5, 6, 5, 6, 6, 7,
     3, 4, 4, 5, 4, 5, 5, 6, 4, 5, 5, 6, 5, 6, 6, 7,
     4, 5, 5, 6, 5, 6, 6, 7, 5, 6, 6, 7, 6, 7, 7, 8]"

definition column_parity_table :: "byte list" where
  "column_parity_table =
    [0x00, 0x55, 0x59, 0x0C, 0x65, 0x30, 0x3C, 0x69,
     0x69, 0x3C, 0x30, 0x65, 0x0C, 0x59, 0x55, 0x00,
     0x95, 0xC0, 0xCC, 0x99, 0xF0, 0xA5, 0xA9, 0xFC,
     0xFC, 0xA9, 0xA5, 0xF0, 0x99, 0xCC, 0xC0, 0x95,
     0x99, 0xCC, 0xC0, 0x95, 0xFC, 0xA9, 0xA5, 0xF0,
     0xF0, 0xA5, 0xA9, 0xFC, 0x95, 0xC0, 0xCC, 0x99,
     0x0C, 0x59, 0x55, 0x00, 0x69, 0x3C, 0x30, 0x65,
     0x65, 0x30, 0x3C, 0x69, 0x00, 0x55, 0x59, 0x0C,
     0xA5, 0xF0, 0xFC, 0xA9, 0xC0, 0x95, 0x99, 0xCC,
     0xCC, 0x99, 0x95, 0xC0, 0xA9, 0xFC, 0xF0, 0xA5,
     0x30, 0x65, 0x69, 0x3C, 0x55, 0x00, 0x0C, 0x59,
     0x59, 0x0C, 0x00, 0x55, 0x3C, 0x69, 0x65, 0x30,
     0x3C, 0x69, 0x65, 0x30, 0x59, 0x0C, 0x00, 0x55,
     0x55, 0x00, 0x0C, 0x59, 0x30, 0x65, 0x69, 0x3C,
     0xA9, 0xFC, 0xF0, 0xA5, 0xCC, 0x99, 0x95, 0xC0,
     0xC0, 0x95, 0x99, 0xCC, 0xA5, 0xF0, 0xFC, 0xA9,
     0xA9, 0xFC, 0xF0, 0xA5, 0xCC, 0x99, 0x95, 0xC0,
     0xC0, 0x95, 0x99, 0xCC, 0xA5, 0xF0, 0xFC, 0xA9,
     0x3C, 0x69, 0x65, 0x30, 0x59, 0x0C, 0x00, 0x55,
     0x55, 0x00, 0x0C, 0x59, 0x30, 0x65, 0x69, 0x3C,
     0x30, 0x65, 0x69, 0x3C, 0x55, 0x00, 0x0C, 0x59,
     0x59, 0x0C, 0x00, 0x55, 0x3C, 0x69, 0x65, 0x30,
     0xA5, 0xF0, 0xFC, 0xA9, 0xC0, 0x95, 0x99, 0xCC,
     0xCC, 0x99, 0x95, 0xC0, 0xA9, 0xFC, 0xF0, 0xA5,
     0x0C, 0x59, 0x55, 0x00, 0x69, 0x3C, 0x30, 0x65,
     0x65, 0x30, 0x3C, 0x69, 0x00, 0x55, 0x59, 0x0C,
     0x99, 0xCC, 0xC0, 0x95, 0xFC, 0xA9, 0xA5, 0xF0,
     0xF0, 0xA5, 0xA9, 0xFC, 0x95, 0xC0, 0xCC, 0x99,
     0x95, 0xC0, 0xCC, 0x99, 0xF0, 0xA5, 0xA9, 0xFC,
     0xFC, 0xA9, 0xA5, 0xF0, 0x99, 0xCC, 0xC0, 0x95,
     0x00, 0x55, 0x59, 0x0C, 0x65, 0x30, 0x3C, 0x69,
     0x69, 0x3C, 0x30, 0x65, 0x0C, 0x59, 0x55, 0x00]"

definition hweight8 :: "byte \<Rightarrow> nat" where
  "hweight8 x = count_bits_table ! unat x"

definition hweight32 :: "32 word \<Rightarrow> nat" where
  "hweight32 x = hweight8 (ucast (x AND 0xFF)) + hweight8 (ucast (drop_bit 8 x AND 0xFF)) +
     hweight8 (ucast (drop_bit 16 x AND 0xFF)) + hweight8 (ucast (drop_bit 24 x AND 0xFF))"

subsection \<open>Calculation\<close>

type_synonym ecc = "byte \<times> byte \<times> byte"

definition parity_step :: "nat \<times> byte \<Rightarrow> byte \<times> byte \<times> byte \<Rightarrow> byte \<times> byte \<times> byte" where
  "parity_step x acc =
     (let (i, d) = x; (col, line, line') = acc; b = column_parity_table ! unat d
      in if b AND 0x01 \<noteq> 0 then (col XOR b, line XOR of_nat i, line' XOR NOT (of_nat i))
         else (col XOR b, line, line'))"

definition parities :: "byte list \<Rightarrow> byte \<times> byte \<times> byte" where
  "parities data = fold parity_step (zip [0 ..< 256] data) (0, 0, 0)"

definition set_if :: "bool \<Rightarrow> byte \<Rightarrow> byte" where
  "set_if c m = (if c then m else 0)"

definition high_parity :: "byte \<Rightarrow> byte \<Rightarrow> byte" where
  "high_parity line line' =
     set_if (line AND 0x80 \<noteq> 0) 0x80 OR set_if (line' AND 0x80 \<noteq> 0) 0x40 OR
     set_if (line AND 0x40 \<noteq> 0) 0x20 OR set_if (line' AND 0x40 \<noteq> 0) 0x10 OR
     set_if (line AND 0x20 \<noteq> 0) 0x08 OR set_if (line' AND 0x20 \<noteq> 0) 0x04 OR
     set_if (line AND 0x10 \<noteq> 0) 0x02 OR set_if (line' AND 0x10 \<noteq> 0) 0x01"

definition low_parity :: "byte \<Rightarrow> byte \<Rightarrow> byte" where
  "low_parity line line' =
     set_if (line AND 0x08 \<noteq> 0) 0x80 OR set_if (line' AND 0x08 \<noteq> 0) 0x40 OR
     set_if (line AND 0x04 \<noteq> 0) 0x20 OR set_if (line' AND 0x04 \<noteq> 0) 0x10 OR
     set_if (line AND 0x02 \<noteq> 0) 0x08 OR set_if (line' AND 0x02 \<noteq> 0) 0x04 OR
     set_if (line AND 0x01 \<noteq> 0) 0x02 OR set_if (line' AND 0x01 \<noteq> 0) 0x01"

definition ecc_calc :: "byte list \<Rightarrow> ecc" where
  "ecc_calc data =
     (let (col, line, line') = parities data
      in (NOT (low_parity line line'), NOT (high_parity line line'), NOT col OR 0x03))"

subsection \<open>Correction\<close>

definition single_error :: "ecc \<Rightarrow> bool" where
  "single_error d = (case d of (d0, d1, d2) \<Rightarrow>
     (d0 XOR drop_bit 1 d0) AND 0x55 = 0x55 \<and> (d1 XOR drop_bit 1 d1) AND 0x55 = 0x55 \<and>
     (d2 XOR drop_bit 1 d2) AND 0x54 = 0x54)"

definition error_byte :: "ecc \<Rightarrow> byte" where
  "error_byte d = (case d of (d0, d1, d2) \<Rightarrow>
     set_if (d1 AND 0x80 \<noteq> 0) 0x80 OR set_if (d1 AND 0x20 \<noteq> 0) 0x40 OR
     set_if (d1 AND 0x08 \<noteq> 0) 0x20 OR set_if (d1 AND 0x02 \<noteq> 0) 0x10 OR
     set_if (d0 AND 0x80 \<noteq> 0) 0x08 OR set_if (d0 AND 0x20 \<noteq> 0) 0x04 OR
     set_if (d0 AND 0x08 \<noteq> 0) 0x02 OR set_if (d0 AND 0x02 \<noteq> 0) 0x01)"

definition error_bit :: "ecc \<Rightarrow> byte" where
  "error_bit d = (case d of (d0, d1, d2) \<Rightarrow>
     set_if (d2 AND 0x80 \<noteq> 0) 0x04 OR set_if (d2 AND 0x20 \<noteq> 0) 0x02 OR set_if (d2 AND 0x08 \<noteq> 0) 0x01)"

definition ecc_correct :: "byte list \<Rightarrow> ecc \<Rightarrow> ecc \<Rightarrow> Result \<times> byte list \<times> ecc" where
  "ecc_correct data read_ecc test_ecc =
     (let (r0, r1, r2) = read_ecc; (t0, t1, t2) = test_ecc;
          d0 = r0 XOR t0; d1 = r1 XOR t1; d2 = r2 XOR t2; d = (d0, d1, d2)
      in if d0 OR d1 OR d2 = 0 then (R_ok, data, read_ecc)
         else if single_error d
         then (R_biterrorCorrected,
           (let p = unat (error_byte d) in data[p := data ! p XOR push_bit (unat (error_bit d)) 1]), read_ecc)
         else if hweight8 d0 + hweight8 d1 + hweight8 d2 = 1 then (R_biterrorCorrected, data, test_ecc)
         else (R_biterrorNotCorrected, data, read_ecc))"

subsection \<open>The tables are linear\<close>

definition column_code :: "byte \<Rightarrow> byte" where
  "column_code d =
     set_if (bit d 0) 0x55 XOR set_if (bit d 1) 0x59 XOR set_if (bit d 2) 0x65 XOR set_if (bit d 3) 0x69 XOR
     set_if (bit d 4) 0x95 XOR set_if (bit d 5) 0x99 XOR set_if (bit d 6) 0xA5 XOR set_if (bit d 7) 0xA9"

lemma column_table: "column_parity_table = map (\<lambda>i. column_code (word_of_nat i)) [0 ..< 256]"
  by code_simp

lemma column_lookup: "column_parity_table ! unat d = column_code d"
  using unsigned_less [where ?'a = nat, of d] by (simp add: column_table)

lemma mask_bits:
  fixes x :: byte
  shows "x AND 0x80 \<noteq> 0 \<longleftrightarrow> bit x 7" "x AND 0x40 \<noteq> 0 \<longleftrightarrow> bit x 6" "x AND 0x20 \<noteq> 0 \<longleftrightarrow> bit x 5"
    "x AND 0x10 \<noteq> 0 \<longleftrightarrow> bit x 4" "x AND 0x08 \<noteq> 0 \<longleftrightarrow> bit x 3" "x AND 0x04 \<noteq> 0 \<longleftrightarrow> bit x 2"
    "x AND 0x02 \<noteq> 0 \<longleftrightarrow> bit x 1" "x AND 0x01 \<noteq> 0 \<longleftrightarrow> bit x 0"
  by (simp_all add: bit_iff_and_push_bit_not_eq_0)

lemma set_if_xor:
  "set_if (p \<noteq> q) m = set_if p m XOR set_if q m" "set_if (p = (\<not> q)) m = set_if p m XOR set_if q m"
  by (simp_all add: set_if_def)

lemma or_xor_masks:
  "set_if a 0x80 OR set_if b 0x40 OR set_if c 0x20 OR set_if d 0x10 OR
   set_if e 0x08 OR set_if f 0x04 OR set_if g 0x02 OR set_if h 0x01 =
   set_if a 0x80 XOR set_if b 0x40 XOR set_if c 0x20 XOR set_if d 0x10 XOR
   set_if e 0x08 XOR set_if f 0x04 XOR set_if g 0x02 XOR set_if h 0x01"
  by (cases a; cases b; cases c; cases d) (cases e; cases f; cases g; cases h; simp add: set_if_def)+

lemmas low_parity_alt = low_parity_def [unfolded mask_bits or_xor_masks]
lemmas high_parity_alt = high_parity_def [unfolded mask_bits or_xor_masks]

lemma parity_xor:
  "low_parity (a XOR c) (b XOR d) = low_parity a b XOR low_parity c d"
  "high_parity (a XOR c) (b XOR d) = high_parity a b XOR high_parity c d"
  by (simp_all add: low_parity_alt high_parity_alt bit_xor_iff set_if_xor ac_simps)

lemma column_code_xor: "column_code (d XOR e) = column_code d XOR column_code e"
  by (simp add: column_code_def bit_xor_iff set_if_xor ac_simps)

end
