(* ===== verification/SimuDriver.thy ===== *)
theory SimuDriver
  imports DeviceState YaffsEcc
begin

text \<open>
  \<^verbatim>\<open>src/driver/simu.cpp\<close>: the driver of the flash simulation. The simulated cell is external code and
  a parameter; the driver keeps the page buffer, translates page numbers and adds the error
  correcting codes. The accessors of the MRAM are in \<open>DeviceState\<close>. Pages have at least 256 bytes.
\<close>

subsection \<open>The flash cell\<close>

text \<open>
  A page is addressed by plane, block and page. A read also gets the buffer it fills; the first
  component of an answer is whether the cell reported success.
\<close>

record 'c cell =
  fc_writePage :: "nat \<times> nat \<times> nat \<Rightarrow> byte list \<Rightarrow> 'c \<Rightarrow> bool \<times> 'c"
  fc_readPage :: "nat \<times> nat \<times> nat \<Rightarrow> byte list \<Rightarrow> 'c \<Rightarrow> (bool \<times> byte list) \<times> 'c"
  fc_eraseBlock :: "nat \<times> nat \<Rightarrow> 'c \<Rightarrow> bool \<times> 'c"
  simu_pagesPerBlock :: nat
  simu_blocksPerPlane :: nat

record 'c simu =
  s_buf :: "byte list"
  s_cell :: 'c

definition translatePageToAddress :: "'c cell \<Rightarrow> PageAbs \<Rightarrow> nat \<times> nat \<times> nat" where
  "translatePageToAddress C page =
     ((page div simu_pagesPerBlock C) div simu_blocksPerPlane C,
      (page div simu_pagesPerBlock C) mod simu_blocksPerPlane C, page mod simu_pagesPerBlock C)"

definition translateBlockToAddress :: "'c cell \<Rightarrow> BlockAbs \<Rightarrow> nat \<times> nat" where
  "translateBlockToAddress C block = (block div simu_blocksPerPlane C, block mod simu_blocksPerPlane C)"

subsection \<open>Codes in the spare bytes\<close>

definition ecc_blocks :: "'a config_scheme \<Rightarrow> nat" where
  "ecc_blocks E = ceil_div (dataBytesPerPage E) 256"

definition ecc_place :: "'a config_scheme \<Rightarrow> nat \<Rightarrow> nat" where
  "ecc_place E i = dataBytesPerPage E + 2 + 3 * i"

definition ecc_at :: "nat \<Rightarrow> byte list \<Rightarrow> ecc" where
  "ecc_at p buf = (buf ! p, buf ! (p + 1), buf ! (p + 2))"

definition put_ecc :: "nat \<Rightarrow> ecc \<Rightarrow> byte list \<Rightarrow> byte list" where
  "put_ecc p c buf = (case c of (a, b, d) \<Rightarrow> buf[p := a, p + 1 := b, p + 2 := d])"

definition store_code :: "'a config_scheme \<Rightarrow> nat \<Rightarrow> byte list \<Rightarrow> byte list" where
  "store_code E i buf = put_ecc (ecc_place E i) (ecc_calc (drop (256 * i) buf)) buf"

text \<open>The block is calculated where it is, but corrected at the start of the buffer.\<close>

definition check_block :: "'a config_scheme \<Rightarrow> nat \<Rightarrow> Result \<times> byte list \<Rightarrow> Result \<times> byte list" where
  "check_block E i acc =
     (let (res, buf) = acc; p = ecc_place E i;
          (r, buf', c) = ecc_correct buf (ecc_at p buf) (ecc_calc (drop (256 * i) buf))
      in (worse r res, put_ecc p c buf'))"

subsection \<open>The functions of the driver\<close>

definition simu_initializeNand :: "'a config_scheme \<Rightarrow> 'c simu \<Rightarrow> Result \<times> 'c simu" where
  "simu_initializeNand E st = (R_ok, st\<lparr>s_buf := replicate (totalBytesPerPage E) 0xFF\<rparr>)"

definition simu_deInitializeNand :: "'c simu \<Rightarrow> Result \<times> 'c simu" where
  "simu_deInitializeNand st = (R_ok, st)"

definition simu_writePage ::
  "'a config_scheme \<Rightarrow> 'c cell \<Rightarrow> PageAbs \<Rightarrow> byte list \<Rightarrow> 'c simu \<Rightarrow> Result \<times> 'c simu" where
  "simu_writePage E C page bs st =
     (if length bs > totalBytesPerPage E then (R_fail, st)
      else let buf = bs @ replicate (totalBytesPerPage E - length bs) 0xFF;
               buf = (if length bs \<le> dataBytesPerPage E then fold (store_code E) [0 ..< ecc_blocks E] buf else buf);
               (ok, c) = fc_writePage C (translatePageToAddress C page) buf (s_cell st)
           in (if ok then R_ok else R_fail, st\<lparr>s_buf := buf, s_cell := c\<rparr>))"

text \<open>
  The bytes of the answer are those of the page buffer; of a failed read a caller that does not pass
  this buffer sees none of them.
\<close>

definition simu_readPage ::
  "'a config_scheme \<Rightarrow> 'c cell \<Rightarrow> PageAbs \<Rightarrow> nat \<Rightarrow> 'c simu \<Rightarrow> (Result \<times> byte list) \<times> 'c simu" where
  "simu_readPage E C page n st =
     (if n > totalBytesPerPage E then ((R_invalidInput, take n (s_buf st)), st)
      else let ((ok, buf), c) = fc_readPage C (translatePageToAddress C page) (s_buf st) (s_cell st)
           in if \<not> ok then ((R_fail, take n buf), st\<lparr>s_buf := buf, s_cell := c\<rparr>)
              else let (r, buf) = fold (check_block E) [0 ..< ecc_blocks E] (R_ok, buf)
                   in ((r, take n buf), st\<lparr>s_buf := buf, s_cell := c\<rparr>))"

text \<open>A block behind the device is only reported.\<close>

definition simu_eraseBlock :: "'c cell \<Rightarrow> BlockAbs \<Rightarrow> 'c simu \<Rightarrow> Result \<times> 'c simu" where
  "simu_eraseBlock C block st =
     (let (ok, c) = fc_eraseBlock C (translateBlockToAddress C block) (s_cell st)
      in (if ok then R_ok else R_fail, st\<lparr>s_cell := c\<rparr>))"

definition simu_markBad :: "'a config_scheme \<Rightarrow> 'c cell \<Rightarrow> BlockAbs \<Rightarrow> 'c simu \<Rightarrow> Result \<times> 'c simu" where
  "simu_markBad E C block st =
     (let buf = replicate (totalBytesPerPage E) 0;
          (_, c) = fc_writePage C (translatePageToAddress C (block * pagesPerBlock E)) buf (s_cell st)
      in (R_ok, st\<lparr>s_buf := buf, s_cell := c\<rparr>))"

definition simu_checkBad :: "'a config_scheme \<Rightarrow> 'c cell \<Rightarrow> BlockAbs \<Rightarrow> 'c simu \<Rightarrow> Result \<times> 'c simu" where
  "simu_checkBad E C block st =
     (let ((ok, buf), c) = fc_readPage C (translatePageToAddress C (block * pagesPerBlock E))
            (replicate (totalBytesPerPage E) 0) (s_cell st)
      in (if \<not> ok then R_badFlash
          else if buf ! (dataBytesPerPage E + 5) \<noteq> 0xFF then R_badFlash
          else R_ok, st\<lparr>s_buf := buf, s_cell := c\<rparr>))"

text \<open>The driver as the device sees it.\<close>

definition simu_env :: "config \<Rightarrow> 'c cell \<Rightarrow> ('c simu \<Rightarrow> nat) \<Rightarrow> 'c simu env" where
  "simu_env K C clock = config.extend K (env.fields (simu_readPage K C) (simu_writePage K C)
     (simu_eraseBlock C) (simu_markBad K C) (simu_checkBad K C) (simu_initializeNand K) simu_deInitializeNand
     s_buf clock)"

end
