(* ===== verification/EccProperties.thy ===== *)
theory EccProperties
  imports YaffsEcc
begin

unbundle bit_operations_syntax

text \<open>
  What the error correcting code does to no, one and two wrong bits in 256 bytes, and to one wrong
  bit in the stored code.
\<close>

subsection \<open>Parities\<close>

definition xor3 :: "ecc \<Rightarrow> ecc \<Rightarrow> ecc" where
  "xor3 u v = (case (u, v) of ((a, b, c), (d, e, f)) \<Rightarrow> (a XOR d, b XOR e, c XOR f))"

lemma xor3_simps [simp]: "xor3 (a, b, c) (d, e, f) = (a XOR d, b XOR e, c XOR f)"
  by (simp add: xor3_def)

lemma parity_step_alt:
  "parity_step (i, d) (a, b, c) =
     (a XOR column_code d, b XOR set_if (bit (column_code d) 0) (of_nat i),
      c XOR set_if (bit (column_code d) 0) (NOT (of_nat i)))"
  unfolding parity_step_def column_lookup mask_bits by (simp add: set_if_def)

lemma parity_step_xor3: "parity_step x (xor3 u v) = xor3 (parity_step x u) v"
  by (cases x; cases u; cases v) (simp add: parity_step_alt ac_simps)

lemma fold_parity_xor3: "fold parity_step xs (xor3 u v) = xor3 (fold parity_step xs u) v"
  by (induction xs arbitrary: u) (simp_all add: parity_step_xor3)

lemma parity_step_change:
  "parity_step (i, d XOR e) u = xor3 (parity_step (i, d) u) (parity_step (i, e) (0, 0, 0))"
  by (cases u) (simp add: parity_step_alt column_code_xor bit_xor_iff set_if_xor ac_simps)

lemma fold_parity_change:
  assumes "j < length xs" and "xs ! j = (i, d)"
  shows "fold parity_step (xs[j := (i, d XOR e)]) u = xor3 (fold parity_step xs u) (parity_step (i, e) (0, 0, 0))"
  using assms
proof (induction xs arbitrary: j u)
  case (Cons x xs)
  show ?case
  proof (cases j)
    case 0
    then show ?thesis using Cons.prems by (simp add: parity_step_change fold_parity_xor3)
  next
    case (Suc k)
    then show ?thesis using Cons.prems Cons.IH [of k] by simp
  qed
qed simp

lemma parities_change:
  assumes "j < 256" and "j < length data"
  shows "parities (data[j := data ! j XOR e]) = xor3 (parities data) (parity_step (j, e) (0, 0, 0))"
proof -
  have "zip [0 ..< 256] (data[j := data ! j XOR e]) = (zip [0 ..< 256] data)[j := (j, data ! j XOR e)]"
    using assms(1) zip_update [of "[0 ..< 256]" j j data "data ! j XOR e"] list_update_id [of "[0 ..< 256]" j] by simp
  then show ?thesis
    unfolding parities_def using assms fold_parity_change [of j "zip [0 ..< 256] data" j "data ! j" e] by simp
qed

subsection \<open>Syndromes\<close>

text \<open>The difference that a flipped bit \<open>k\<close> of byte \<open>j\<close> makes to the code.\<close>

definition syndrome :: "byte \<Rightarrow> nat \<Rightarrow> ecc" where
  "syndrome j k = (low_parity j (NOT j), high_parity j (NOT j), column_code (push_bit k 1) AND NOT 0x03)"

lemma bits_less_8: "k < 8 \<Longrightarrow> k \<in> {0, 1, 2, 3, 4, 5, 6, 7 :: nat}"
  by auto

definition column_ok :: "nat \<Rightarrow> bool" where
  "column_ok k \<longleftrightarrow> (let c = column_code (push_bit k 1); d = c AND NOT 0x03 in
     bit c 0 \<and> (d XOR drop_bit 1 d) AND 0x55 = 0x54 \<and> (d XOR drop_bit 1 d) AND 0x54 = 0x54 \<and>
     unat (set_if (bit d 7) 0x04 OR set_if (bit d 5) 0x02 OR set_if (bit d 3) 0x01) = k)"

lemma column_bits: "k < 8 \<Longrightarrow> column_ok k"
proof -
  have "list_all column_ok [0, 1, 2, 3, 4, 5, 6, 7]" by code_simp
  then show "k < 8 \<Longrightarrow> column_ok k" using bits_less_8 [of k] by auto
qed

lemma ecc_calc_change:
  assumes "parities data' = xor3 (parities data) (c, l, l')"
  shows "ecc_calc data' = xor3 (ecc_calc data) (low_parity l l', high_parity l l', c AND NOT 0x03)"
proof -
  obtain a b b' where p: "parities data = (a, b, b')" by (metis surj_pair)
  have "NOT (x XOR y) OR m = (NOT x OR m) XOR (y AND NOT m)" for x y m :: byte
    by (simp add: bit_eq_iff bit_or_iff bit_xor_iff bit_and_iff bit_not_iff) blast
  from this [of a c "0x03"] show ?thesis using assms by (simp add: ecc_calc_def p parity_xor)
qed

lemma flip_bit_xor: "flip_bit k d = d XOR push_bit k (1 :: byte)"
  by (simp add: flip_bit_eq_xor)

lemma ecc_calc_flip:
  assumes "j < 256" and "j < length data" and "k < 8"
  shows "ecc_calc (data[j := flip_bit k (data ! j)]) = xor3 (ecc_calc data) (syndrome (of_nat j) k)"
proof -
  have "parities (data[j := flip_bit k (data ! j)]) =
      xor3 (parities data) (column_code (push_bit k 1), of_nat j, NOT (of_nat j))"
    using parities_change [OF assms(1,2), of "push_bit k 1"] column_bits [OF assms(3)]
    by (simp add: column_ok_def Let_def flip_bit_xor parity_step_alt set_if_def)
  from ecc_calc_change [OF this] show ?thesis by (simp add: syndrome_def)
qed

definition nibble :: "bool \<Rightarrow> bool \<Rightarrow> bool \<Rightarrow> bool \<Rightarrow> byte" where
  "nibble a b c d = set_if a 0x80 XOR set_if (\<not> a) 0x40 XOR set_if b 0x20 XOR set_if (\<not> b) 0x10 XOR
     set_if c 0x08 XOR set_if (\<not> c) 0x04 XOR set_if d 0x02 XOR set_if (\<not> d) 0x01"

lemma syndrome_nibbles:
  "low_parity j (NOT j) = nibble (bit j 3) (bit j 2) (bit j 1) (bit j 0)"
  "high_parity j (NOT j) = nibble (bit j 7) (bit j 6) (bit j 5) (bit j 4)"
  by (simp_all add: low_parity_alt high_parity_alt nibble_def bit_not_iff)

lemma nibble_bits:
  "bit (nibble a b c d) 7 = a" "bit (nibble a b c d) 5 = b" "bit (nibble a b c d) 3 = c" "bit (nibble a b c d) 1 = d"
  "(nibble a b c d XOR drop_bit 1 (nibble a b c d)) AND 0x55 = 0x55"
  by (cases a; cases b; cases c; cases d; simp add: nibble_def set_if_def)+

lemma byte_of_bits:
  "set_if (bit j 7) 0x80 OR set_if (bit j 6) 0x40 OR set_if (bit j 5) 0x20 OR set_if (bit j 4) 0x10 OR
   set_if (bit j 3) 0x08 OR set_if (bit j 2) 0x04 OR set_if (bit j 1) 0x02 OR set_if (bit j 0) 0x01 = j"
proof (rule bit_word_eqI)
  fix n assume "n < LENGTH(8)"
  then have "n \<in> {0, 1, 2, 3, 4, 5, 6, 7}" using bits_less_8 by simp
  then show "bit (set_if (bit j 7) 0x80 OR set_if (bit j 6) 0x40 OR set_if (bit j 5) 0x20 OR set_if (bit j 4) 0x10 OR
   set_if (bit j 3) 0x08 OR set_if (bit j 2) 0x04 OR set_if (bit j 1) 0x02 OR set_if (bit j 0) 0x01) n = bit j n"
    by (elim insertE) (simp_all add: set_if_def bit_or_iff)
qed

lemma syndrome_single:
  assumes "k < 8"
  shows "single_error (syndrome j k)" "error_byte (syndrome j k) = j" "unat (error_bit (syndrome j k)) = k"
proof -
  note column = column_bits [OF assms, unfolded column_ok_def Let_def]
  show "single_error (syndrome j k)"
    unfolding single_error_def syndrome_def syndrome_nibbles prod.case nibble_bits using column by blast
  show "error_byte (syndrome j k) = j"
    unfolding error_byte_def syndrome_def syndrome_nibbles prod.case mask_bits nibble_bits by (rule byte_of_bits)
  show "unat (error_bit (syndrome j k)) = k"
    unfolding error_bit_def syndrome_def prod.case mask_bits using column by blast
qed

lemma syndrome_inject: "k < 8 \<Longrightarrow> k' < 8 \<Longrightarrow> syndrome j k = syndrome j' k' \<Longrightarrow> j = j' \<and> k = k'"
  by (metis syndrome_single(2,3))

lemma xor3_laws [simp]:
  "xor3 u (0, 0, 0) = u" "xor3 u u = (0, 0, 0)" "xor3 u (xor3 u v) = v" "xor3 (xor3 u v) u = v"
  by (cases u; cases v; simp add: ac_simps)+

lemma xor_zero_iff: "a XOR b = 0 \<longleftrightarrow> a = (b :: byte)"
  by (simp add: bit_eq_iff bit_xor_iff)

lemma flip_flip [simp]: "flip_bit k (flip_bit k d) = (d :: byte)"
  by (simp add: flip_bit_xor xor.assoc)

lemma xor3_zero: "xor3 u v = (0, 0, 0) \<longleftrightarrow> u = v"
  by (cases u; cases v) (simp add: xor_zero_iff)

subsection \<open>Correction\<close>

lemma ecc_correct_alt:
  "ecc_correct data read_ecc test_ecc =
     (let d = xor3 read_ecc test_ecc
      in if d = (0, 0, 0) then (R_ok, data, read_ecc)
         else if single_error d
         then (R_biterrorCorrected,
           data[unat (error_byte d) := flip_bit (unat (error_bit d)) (data ! unat (error_byte d))], read_ecc)
         else if hweight8 (fst d) + hweight8 (fst (snd d)) + hweight8 (snd (snd d)) = 1
         then (R_biterrorCorrected, data, test_ecc)
         else (R_biterrorNotCorrected, data, read_ecc))"
  by (cases read_ecc; cases test_ecc) (simp add: ecc_correct_def Let_def flip_bit_xor or_eq_0_iff)

definition flip_at :: "nat \<Rightarrow> nat \<Rightarrow> byte list \<Rightarrow> byte list" where
  "flip_at j k data = data[j := flip_bit k (data ! j)]"

definition flip_code :: "nat \<Rightarrow> ecc \<Rightarrow> ecc" where
  "flip_code n c = (case c of (a, b, d) \<Rightarrow>
     if n < 8 then (flip_bit n a, b, d) else if n < 16 then (a, flip_bit (n - 8) b, d)
     else (a, b, flip_bit (n - 16) d))"

lemma flip_at_flip_at [simp]: "flip_at j k (flip_at j k data) = data"
  by (cases "j < length data") (simp_all add: flip_at_def list_update_beyond)

lemma length_flip_at [simp]: "length (flip_at j k data) = length data"
  by (simp add: flip_at_def)

lemma ecc_correct_syndrome:
  assumes "j < 256" and "k < 8"
  shows "ecc_correct data c (xor3 c (syndrome (of_nat j) k)) = (R_biterrorCorrected, flip_at j k data, c)"
proof -
  have "syndrome (of_nat j) k \<noteq> (0, 0, 0)"
    using syndrome_single(1) [OF assms(2), of "of_nat j"] by (auto simp: single_error_def)
  then show ?thesis
    using assms syndrome_single [OF assms(2), of "of_nat j"]
    by (simp add: ecc_correct_alt flip_at_def Let_def unat_of_nat)
qed

lemma ecc_calc_flip_at:
  "j < 256 \<Longrightarrow> j < length data \<Longrightarrow> k < 8 \<Longrightarrow>
    ecc_calc (flip_at j k data) = xor3 (ecc_calc data) (syndrome (of_nat j) k)"
  by (simp add: flip_at_def ecc_calc_flip)

lemma ecc_correct_flip:
  assumes "j < 256" and "j < length data" and "k < 8"
  shows "ecc_correct (flip_at j k data) (ecc_calc data) (ecc_calc (flip_at j k data)) =
    (R_biterrorCorrected, data, ecc_calc data)"
  using assms by (simp add: ecc_calc_flip_at ecc_correct_syndrome)

lemma flip_code_weight:
  assumes "n < 24"
  shows "\<not> single_error (flip_code n (0, 0, 0))"
    and "(case flip_code n (0, 0, 0) of (d0, d1, d2) \<Rightarrow> hweight8 d0 + hweight8 d1 + hweight8 d2) = 1"
    and "flip_code n (0, 0, 0) \<noteq> (0, 0, 0)"
proof -
  have "list_all (\<lambda>n. \<not> single_error (flip_code n (0, 0, 0)) \<and> flip_code n (0, 0, 0) \<noteq> (0, 0, 0) \<and>
    (case flip_code n (0, 0, 0) of (d0, d1, d2) \<Rightarrow> hweight8 d0 + hweight8 d1 + hweight8 d2) = 1) [0 ..< 24]"
    by code_simp
  then show "\<not> single_error (flip_code n (0, 0, 0))"
    and "(case flip_code n (0, 0, 0) of (d0, d1, d2) \<Rightarrow> hweight8 d0 + hweight8 d1 + hweight8 d2) = 1"
    and "flip_code n (0, 0, 0) \<noteq> (0, 0, 0)"
    using assms by (simp_all add: list_all_iff)
qed

lemma xor3_flip_code: "xor3 (flip_code n c) c = flip_code n (0, 0, 0)"
  by (cases c) (simp add: flip_code_def flip_bit_xor ac_simps)

lemma ecc_correct_code:
  assumes "n < 24"
  shows "ecc_correct data (flip_code n c) c = (R_biterrorCorrected, data, c)"
  using flip_code_weight [OF assms] by (simp add: ecc_correct_alt xor3_flip_code Let_def split: prod.splits)

subsection \<open>Two wrong bits\<close>

lemma even_weight:
  assumes "(d XOR drop_bit 1 d) AND 0x55 = 0"
  shows "even (hweight8 d)"
proof -
  have "list_all (\<lambda>i. (let d = word_of_nat i :: byte in (d XOR drop_bit 1 d) AND 0x55 = 0) \<longrightarrow>
    even (count_bits_table ! i)) [0 ..< 256]"
    by code_simp
  moreover have "unat d \<in> set [0 ..< 256]" using unsigned_less [where ?'a = nat, of d] by simp
  ultimately show ?thesis using assms unfolding list_all_iff hweight8_def Let_def by force
qed

lemma pairs_xor:
  fixes a b m :: byte
  shows "((a XOR b) XOR drop_bit n (a XOR b)) AND m = ((a XOR drop_bit n a) AND m) XOR ((b XOR drop_bit n b) AND m)"
  by (simp add: bit_eq_iff bit_xor_iff bit_and_iff bit_drop_bit_eq) blast

lemma syndrome_pairs:
  assumes "k < 8" and "syndrome j k = (d0, d1, d2)"
  shows "(d0 XOR drop_bit 1 d0) AND 0x55 = 0x55" "(d1 XOR drop_bit 1 d1) AND 0x55 = 0x55"
    "(d2 XOR drop_bit 1 d2) AND 0x55 = 0x54"
  using assms(2) column_bits [OF assms(1), unfolded column_ok_def Let_def]
  unfolding syndrome_def syndrome_nibbles by (auto simp only: nibble_bits)

lemma ecc_correct_two:
  assumes "j < 256" and "j < length data" and "k < 8" and "j' < 256" and "j' < length data" and "k' < 8"
    and "(j, k) \<noteq> (j', k')"
  shows "ecc_correct (flip_at j' k' (flip_at j k data)) (ecc_calc data) (ecc_calc (flip_at j' k' (flip_at j k data))) =
    (R_biterrorNotCorrected, flip_at j' k' (flip_at j k data), ecc_calc data)"
proof -
  define d where "d = xor3 (syndrome (of_nat j) k) (syndrome (of_nat j') k')"
  have "xor3 c (xor3 (xor3 c u) v) = xor3 u v" for c u v
    by (cases c; cases u; cases v) (simp add: ac_simps)
  then have diff: "xor3 (ecc_calc data) (ecc_calc (flip_at j' k' (flip_at j k data))) = d"
    using assms by (simp add: flip_at_def ecc_calc_flip d_def)
  have "unat (of_nat j :: byte) = j" "unat (of_nat j' :: byte) = j'" using assms(1,4) by (simp_all add: unat_of_nat)
  then have "(of_nat j :: byte) = of_nat j' \<Longrightarrow> j = j'" by metis
  then have "d \<noteq> (0, 0, 0)"
    using assms(7) syndrome_inject [OF assms(3,6)] by (auto simp: d_def xor3_zero)
  moreover obtain d0 d1 d2 where d: "d = (d0, d1, d2)" by (metis surj_pair)
  have pairs: "(d0 XOR drop_bit 1 d0) AND 0x55 = 0" "(d1 XOR drop_bit 1 d1) AND 0x55 = 0" "(d2 XOR drop_bit 1 d2) AND 0x55 = 0"
  proof -
    obtain a b c where s: "syndrome (of_nat j) k = (a, b, c)" by (metis surj_pair)
    obtain a' b' c' where s': "syndrome (of_nat j') k' = (a', b', c')" by (metis surj_pair)
    have e: "d0 = a XOR a'" "d1 = b XOR b'" "d2 = c XOR c'" using d by (simp_all add: d_def s s')
    show "(d0 XOR drop_bit 1 d0) AND 0x55 = 0" "(d1 XOR drop_bit 1 d1) AND 0x55 = 0" "(d2 XOR drop_bit 1 d2) AND 0x55 = 0"
      unfolding e pairs_xor syndrome_pairs [OF assms(3) s] syndrome_pairs [OF assms(6) s'] by simp_all
  qed
  have "\<not> single_error d" unfolding single_error_def d prod.case pairs by simp
  moreover have "even (hweight8 d0 + hweight8 d1 + hweight8 d2)" using pairs [THEN even_weight] by simp
  then have "hweight8 d0 + hweight8 d1 + hweight8 d2 \<noteq> 1" by (metis odd_one)
  ultimately show ?thesis by (simp add: ecc_correct_alt diff Let_def d)
qed


text \<open>
  C18: the code of 256 bytes recognises the block as intact, repairs any single wrong bit of the block,
  and recognises any single wrong bit of the stored code.
\<close>

theorem ecc_corrects_one_bit:
  assumes "length data = 256" and "j < 256" and "k < 8" and "n < 24"
  shows "ecc_correct data (ecc_calc data) (ecc_calc data) = (R_ok, data, ecc_calc data) \<and>
    ecc_correct (flip_at j k data) (ecc_calc data) (ecc_calc (flip_at j k data)) = (R_biterrorCorrected, data, ecc_calc data) \<and>
    ecc_correct data (flip_code n (ecc_calc data)) (ecc_calc data) = (R_biterrorCorrected, data, ecc_calc data)"
  using assms ecc_correct_flip [of j data k] ecc_correct_code [of n data] by (simp add: ecc_correct_alt)

theorem ecc_corrects_one_bit_witness:
  "ecc_correct ((replicate 256 0)[200 := 0x08]) (ecc_calc (replicate 256 0)) (ecc_calc ((replicate 256 0)[200 := 0x08])) =
    (R_biterrorCorrected, replicate 256 0, ecc_calc (replicate 256 0))"
  using ecc_corrects_one_bit [of "replicate 256 0" 200 3 0] by (simp add: flip_at_def flip_bit_xor)

text \<open>
  C19: two wrong bits of a block, wherever they are, are never taken for a single one: the block is
  reported as not correctable and left as it was read.
\<close>

theorem ecc_detects_two_bits:
  assumes "length data = 256" and "j < 256" and "k < 8" and "j' < 256" and "k' < 8" and "(j, k) \<noteq> (j', k')"
  shows "ecc_correct (flip_at j' k' (flip_at j k data)) (ecc_calc data) (ecc_calc (flip_at j' k' (flip_at j k data))) =
    (R_biterrorNotCorrected, flip_at j' k' (flip_at j k data), ecc_calc data)"
  using assms by (intro ecc_correct_two) simp_all

theorem ecc_detects_two_bits_witness:
  "fst (ecc_correct ((replicate 256 0)[200 := 0x08, 7 := 0x01]) (ecc_calc (replicate 256 0))
    (ecc_calc ((replicate 256 0)[200 := 0x08, 7 := 0x01]))) = R_biterrorNotCorrected"
  using ecc_detects_two_bits [of "replicate 256 0" 200 3 7 0] by (simp add: flip_at_def flip_bit_xor)

end
