(* ===== verification/SimuProperties.thy ===== *)
theory SimuProperties
  imports SimuDriver EccProperties
begin

text \<open>
  A page written through the simulated driver is read back, on a cell that keeps its pages; and what
  the driver makes of a page with one wrong bit.
\<close>

subsection \<open>Buffers with their codes\<close>

text \<open>A configuration with whole blocks of 256 bytes and room for their codes.\<close>

definition ecc_fits :: "'a config_scheme \<Rightarrow> bool" where
  "ecc_fits E \<longleftrightarrow> 256 dvd dataBytesPerPage E \<and>
     dataBytesPerPage E + 2 + 3 * (dataBytesPerPage E div 256) \<le> totalBytesPerPage E"

definition coded :: "'a config_scheme \<Rightarrow> nat \<Rightarrow> byte list \<Rightarrow> bool" where
  "coded E i buf \<longleftrightarrow> ecc_at (ecc_place E i) buf = ecc_calc (drop (256 * i) buf)"

lemma ecc_fits_blocks:
  assumes "ecc_fits E"
  shows "dataBytesPerPage E = 256 * ecc_blocks E" and "ecc_place E (ecc_blocks E) \<le> totalBytesPerPage E"
proof -
  obtain m where "dataBytesPerPage E = 256 * m" using assms by (auto simp: ecc_fits_def)
  then show "dataBytesPerPage E = 256 * ecc_blocks E" and "ecc_place E (ecc_blocks E) \<le> totalBytesPerPage E"
    using assms by (simp_all add: ecc_blocks_def ceil_div_def ecc_fits_def ecc_place_def)
qed

lemma zip_upt_take: "zip [0 ..< n] xs = zip [0 ..< n] (take n xs)"
  by (rule nth_equalityI) auto

lemma ecc_calc_cong: "take 256 xs = take 256 ys \<Longrightarrow> ecc_calc xs = ecc_calc ys"
proof -
  have par: "parities xs = parities (take 256 xs)" for xs
    by (simp only: parities_def flip: zip_upt_take [of 256])
  have "ecc_calc xs = ecc_calc (take 256 xs)" for xs by (simp only: ecc_calc_def flip: par [of xs])
  then show "take 256 xs = take 256 ys \<Longrightarrow> ecc_calc xs = ecc_calc ys" by metis
qed

lemma ecc_calc_block_cong:
  assumes "\<And>k. k < 256 \<Longrightarrow> 256 * i + k < length xs \<Longrightarrow> xs ! (256 * i + k) = ys ! (256 * i + k)"
    and "length xs = length ys"
  shows "ecc_calc (drop (256 * i) xs) = ecc_calc (drop (256 * i) ys)"
proof (rule ecc_calc_cong, rule nth_equalityI)
  fix k assume "k < length (take 256 (drop (256 * i) xs))"
  then have "k < 256" "256 * i + k < length xs" "256 * i \<le> length xs" by auto
  then show "take 256 (drop (256 * i) xs) ! k = take 256 (drop (256 * i) ys) ! k"
    using assms(1) [of k] assms(2) by simp
qed (simp add: assms(2))

lemma ecc_at_put_same:
  "p + 2 < length buf \<Longrightarrow> ecc_at p (put_ecc p c buf) = c"
  by (cases c) (simp add: ecc_at_def put_ecc_def)

lemma put_ecc_at [simp]: "put_ecc p (ecc_at p buf) buf = buf"
  by (simp add: put_ecc_def ecc_at_def list_update_swap [of p "Suc p"])

lemma length_put_ecc [simp]: "length (put_ecc p c buf) = length buf"
  by (cases c) (simp add: put_ecc_def)

lemma nth_put_ecc: "i < p \<or> p + 2 < i \<Longrightarrow> put_ecc p c buf ! i = buf ! i"
  by (cases c) (auto simp: put_ecc_def)


subsection \<open>Writing\<close>

lemma coded_store:
  assumes "ecc_fits E" and "length buf = totalBytesPerPage E" and "m \<le> ecc_blocks E"
  defines "buf' \<equiv> fold (store_code E) [0 ..< m] buf"
  shows "length buf' = length buf \<and> take (dataBytesPerPage E) buf' = take (dataBytesPerPage E) buf \<and>
    (\<forall>i<m. coded E i buf')"
  using assms(3) unfolding buf'_def
proof (induction m)
  case (Suc m)
  define b where "b = fold (store_code E) [0 ..< m] buf"
  have b: "length b = length buf" "take (dataBytesPerPage E) b = take (dataBytesPerPage E) buf" "\<forall>i<m. coded E i b"
    using Suc by (simp_all add: b_def)
  have dims: "dataBytesPerPage E = 256 * ecc_blocks E" "ecc_place E m + 2 < length b"
    using ecc_fits_blocks [OF assms(1)] Suc.prems b(1) assms(2) by (auto simp: ecc_place_def)
  define b' where "b' = store_code E m b"
  have same: "b' ! i = b ! i" if "i < ecc_place E m" for i
    using that by (simp add: b'_def store_code_def nth_put_ecc)
  have len: "length b' = length b" by (simp add: b'_def store_code_def)
  have "take (dataBytesPerPage E) b' = take (dataBytesPerPage E) b"
    by (rule nth_equalityI) (auto simp: len same ecc_place_def)
  moreover have block: "ecc_calc (drop (256 * i) b') = ecc_calc (drop (256 * i) b)" if "i < Suc m" for i
    using that dims(1) Suc.prems by (intro ecc_calc_block_cong) (simp_all add: len same ecc_place_def)
  moreover have "coded E i b'" if "i < Suc m" for i
  proof (cases "i = m")
    case True
    have "ecc_at (ecc_place E m) b' = ecc_calc (drop (256 * m) b)"
      using dims(2) by (simp add: b'_def store_code_def ecc_at_put_same)
    then show ?thesis using block [of m] True by (simp add: coded_def)
  next
    case False
    then have "ecc_at (ecc_place E i) b' = ecc_at (ecc_place E i) b"
      using that by (simp add: ecc_at_def same ecc_place_def)
    then show ?thesis using b(3) block [OF that] that False by (simp add: coded_def)
  qed
  ultimately show ?case using b len by (simp add: b'_def b_def)
qed simp

subsection \<open>Checking\<close>

lemma worse_ok [simp]: "worse r R_ok = r" "worse R_ok r = r"
  by (cases r; simp add: worse_def)+

lemma check_coded: "coded E i buf \<Longrightarrow> check_block E i (res, buf) = (res, buf)"
  by (simp add: check_block_def coded_def ecc_correct_alt xor3_zero Let_def flip: coded_def)

lemma check_all_coded: "\<forall>i\<in>set is. coded E i buf \<Longrightarrow> fold (check_block E) is (res, buf) = (res, buf)"
  by (induction "is") (simp_all add: check_coded)


lemma coded_flip:
  assumes "ecc_fits E" and "coded E i buf" and "j < dataBytesPerPage E" and "j div 256 \<noteq> i"
  shows "coded E i (flip_at j k buf)"
proof -
  have "j < ecc_place E i" using assms(3) by (simp add: ecc_place_def)
  then have "ecc_at (ecc_place E i) (flip_at j k buf) = ecc_at (ecc_place E i) buf"
    by (simp add: ecc_at_def flip_at_def)
  moreover have "ecc_calc (drop (256 * i) (flip_at j k buf)) = ecc_calc (drop (256 * i) buf)"
    using assms(4) by (intro ecc_calc_block_cong) (auto simp: flip_at_def nth_list_update)
  ultimately show ?thesis using assms(2) by (simp add: coded_def)
qed

lemma check_flipped_block:
  assumes "ecc_fits E" and "coded E (j div 256) page" and "j < dataBytesPerPage E" and "j < length page" and "k < 8"
  shows "check_block E (j div 256) (R_ok, flip_at j k page) = (R_biterrorCorrected, flip_at (j mod 256) k (flip_at j k page))"
proof -
  let ?q = "j div 256" and ?buf = "flip_at j k page"
  have place: "j < ecc_place E ?q" "j mod 256 < ecc_place E ?q"
    using assms(3) le_less_trans [OF mod_less_eq_dividend assms(3)] by (simp_all add: ecc_place_def)
  have code: "ecc_at (ecc_place E ?q) ?buf = ecc_calc (drop (256 * ?q) page)"
    using place(1) assms(2) by (simp add: ecc_at_def flip_at_def coded_def)
  have j: "j = 256 * ?q + j mod 256" by simp
  have "drop (256 * ?q) ?buf = flip_at (j mod 256) k (drop (256 * ?q) page)"
    using assms(4) j by (simp add: flip_at_def drop_update_swap) (metis minus_mult_div_eq_mod)
  moreover have "j mod 256 < length (drop (256 * ?q) page)"
    unfolding length_drop less_diff_conv using assms(4) by simp
  ultimately have "ecc_correct ?buf (ecc_at (ecc_place E ?q) ?buf) (ecc_calc (drop (256 * ?q) ?buf)) =
    (R_biterrorCorrected, flip_at (j mod 256) k ?buf, ecc_at (ecc_place E ?q) ?buf)"
    using assms(5) by (simp add: code ecc_calc_flip_at ecc_correct_syndrome)
  moreover have "ecc_at (ecc_place E ?q) ?buf = ecc_at (ecc_place E ?q) (flip_at (j mod 256) k ?buf)"
    using place(2) by (simp add: ecc_at_def flip_at_def)
  ultimately show ?thesis by (simp add: check_block_def Let_def)
qed

lemma check_all_flipped:
  assumes "ecc_fits E" and "\<forall>i<ecc_blocks E. coded E i page" and "j < dataBytesPerPage E" and "j < length page" and "k < 8"
  shows "fold (check_block E) [0 ..< ecc_blocks E] (R_ok, flip_at j k page) =
    (R_biterrorCorrected, flip_at (j mod 256) k (flip_at j k page))"
proof -
  let ?q = "j div 256" and ?n = "ecc_blocks E"
  have q: "?q < ?n" using ecc_fits_blocks(1) [OF assms(1)] assms(3) by simp
  then have split: "[0 ..< ?n] = [0 ..< ?q] @ ?q # [Suc ?q ..< ?n]"
    by (metis le_add_same_cancel1 less_imp_le_nat upt_add_eq_append upt_conv_Cons zero_le le_add_diff_inverse)
  have "\<forall>i\<in>set [0 ..< ?q]. coded E i (flip_at j k page)"
    using assms(2) q by (auto intro!: coded_flip [OF assms(1) _ assms(3)])
  moreover have "\<forall>i\<in>set [Suc ?q ..< ?n]. coded E i (flip_at (j mod 256) k (flip_at j k page))"
  proof
    fix i assume i: "i \<in> set [Suc ?q ..< ?n]"
    have "coded E i (flip_at j k page)" using i assms(2) by (auto intro!: coded_flip [OF assms(1) _ assms(3)])
    moreover have "j mod 256 < dataBytesPerPage E" by (rule le_less_trans [OF mod_less_eq_dividend assms(3)])
    moreover have "j mod 256 div 256 \<noteq> i" using i by simp
    ultimately show "coded E i (flip_at (j mod 256) k (flip_at j k page))" by (rule coded_flip [OF assms(1)])
  qed
  ultimately show ?thesis
    using assms q by (simp add: split check_all_coded check_flipped_block)
qed

lemma take_flip_at: "take n (flip_at j k xs) = flip_at j k (take n xs)"
  by (cases "j < n") (simp_all add: flip_at_def take_update_swap list_update_beyond)

subsection \<open>Pages\<close>

text \<open>The documented behaviour of a cell without errors: it keeps the pages that are written to it.\<close>

definition cell_ok :: "'c cell \<Rightarrow> ('c \<Rightarrow> nat \<times> nat \<times> nat \<Rightarrow> byte list) \<Rightarrow> bool" where
  "cell_ok C content \<longleftrightarrow>
     (\<forall>a buf c. fc_readPage C a buf c = ((True, content c a), c)) \<and>
     (\<forall>a bs c. \<exists>c'. fc_writePage C a bs c = (True, c') \<and> content c' = (content c)(a := bs))"

lemma simu_writePage_ok:
  assumes "ecc_fits E" and "cell_ok C content" and "length bs \<le> dataBytesPerPage E"
  obtains st' buf where "simu_writePage E C page bs st = (R_ok, st')"
    and "content (s_cell st') = (content (s_cell st))(translatePageToAddress C page := buf)"
    and "length buf = totalBytesPerPage E" and "take (length bs) buf = bs" and "\<forall>i<ecc_blocks E. coded E i buf"
proof -
  let ?raw = "bs @ replicate (totalBytesPerPage E - length bs) 0xFF"
  define buf where "buf = fold (store_code E) [0 ..< ecc_blocks E] ?raw"
  have le: "dataBytesPerPage E \<le> totalBytesPerPage E" by (simp add: totalBytesPerPage_def)
  have raw: "length ?raw = totalBytesPerPage E" using assms(3) le by simp
  have buf: "length buf = totalBytesPerPage E" "take (dataBytesPerPage E) buf = take (dataBytesPerPage E) ?raw"
    "\<forall>i<ecc_blocks E. coded E i buf"
    using coded_store [OF assms(1) raw order_refl] raw by (simp_all add: buf_def)
  have "take (length bs) (take (dataBytesPerPage E) buf) = take (length bs) (take (dataBytesPerPage E) ?raw)"
    using buf(2) by simp
  then have "take (length bs) buf = bs" using assms(3) by (simp add: min_def)
  moreover obtain c where c: "fc_writePage C (translatePageToAddress C page) buf (s_cell st) = (True, c)"
    "content c = (content (s_cell st))(translatePageToAddress C page := buf)"
    using assms(2) unfolding cell_ok_def by meson
  moreover have "simu_writePage E C page bs st = (R_ok, st\<lparr>s_buf := buf, s_cell := c\<rparr>)"
    using assms(3) le c(1) by (simp add: simu_writePage_def buf_def [symmetric] Let_def)
  ultimately show ?thesis using that buf by force
qed

lemma simu_readPage_ok:
  assumes "cell_ok C content" and "n \<le> totalBytesPerPage E"
  shows "fst (simu_readPage E C page n st) =
    (let (r, buf) = fold (check_block E) [0 ..< ecc_blocks E] (R_ok, content (s_cell st) (translatePageToAddress C page))
     in (r, take n buf))"
proof -
  have "fc_readPage C (translatePageToAddress C page) (s_buf st) (s_cell st) =
      ((True, content (s_cell st) (translatePageToAddress C page)), s_cell st)"
    using assms(1) unfolding cell_ok_def by blast
  then show ?thesis using assms(2) by (simp add: simu_readPage_def split: prod.splits)
qed

subsection \<open>Properties\<close>

text \<open>
  C20: on a cell that keeps its pages, what the driver wrote to a page is what it reads from there,
  and the other pages of the cell stay as they are.
\<close>

theorem simu_page_roundtrip:
  assumes "ecc_fits E" and "cell_ok C content" and "length bs \<le> dataBytesPerPage E" and "n \<le> length bs"
  shows "\<exists>st'. simu_writePage E C page bs st = (R_ok, st') \<and> fst (simu_readPage E C page n st') = (R_ok, take n bs) \<and>
    (\<forall>a. a \<noteq> translatePageToAddress C page \<longrightarrow> content (s_cell st') a = content (s_cell st) a)"
proof -
  obtain st' buf where w: "simu_writePage E C page bs st = (R_ok, st')"
    "content (s_cell st') = (content (s_cell st))(translatePageToAddress C page := buf)"
    "length buf = totalBytesPerPage E" "take (length bs) buf = bs" "\<forall>i<ecc_blocks E. coded E i buf"
    using simu_writePage_ok [OF assms(1-3)] by metis
  have n: "n \<le> totalBytesPerPage E" using assms(3,4) by (simp add: totalBytesPerPage_def)
  have "take n buf = take n bs" using w(4) assms(4) by (metis min_absorb1 take_take)
  then show ?thesis
    using w simu_readPage_ok [OF assms(2) n, of page st'] by (simp add: check_all_coded)
qed

text \<open>
  C34: a single wrong bit of a page is always answered as corrected. In the first 256 bytes it is; behind
  them the wrong bit stays, and the same bit of the first block is flipped in addition.
\<close>

theorem simu_one_wrong_bit:
  assumes "ecc_fits E" and "cell_ok C content" and "length bs \<le> dataBytesPerPage E" and "n \<le> length bs"
    and "j < dataBytesPerPage E" and "k < 8"
    and "simu_writePage E C page bs st = (r, st')"
    and "content (s_cell st'') (translatePageToAddress C page) =
      flip_at j k (content (s_cell st') (translatePageToAddress C page))"
  shows "fst (simu_readPage E C page n st'') = (R_biterrorCorrected, flip_at (j mod 256) k (flip_at j k (take n bs))) \<and>
    (j < 256 \<longrightarrow> flip_at (j mod 256) k (flip_at j k (take n bs)) = take n bs) \<and>
    (256 \<le> j \<and> j < n \<longrightarrow> flip_at (j mod 256) k (flip_at j k (take n bs)) ! j \<noteq> bs ! j \<and>
       flip_at (j mod 256) k (flip_at j k (take n bs)) ! (j mod 256) \<noteq> bs ! (j mod 256))"
proof -
  obtain buf where w: "content (s_cell st') = (content (s_cell st))(translatePageToAddress C page := buf)"
    "length buf = totalBytesPerPage E" "take (length bs) buf = bs" "\<forall>i<ecc_blocks E. coded E i buf"
    using simu_writePage_ok [OF assms(1-3), of page st] assms(7) by (metis Pair_inject)
  have n: "n \<le> totalBytesPerPage E" "j < length buf"
    using assms(3-5) w(2) by (simp_all add: totalBytesPerPage_def)
  have "take n buf = take n bs" using w(3) assms(4) by (metis min_absorb1 take_take)
  moreover have "fold (check_block E) [0 ..< ecc_blocks E] (R_ok, content (s_cell st'') (translatePageToAddress C page)) =
      (R_biterrorCorrected, flip_at (j mod 256) k (flip_at j k buf))"
    using check_all_flipped [OF assms(1) w(4) assms(5) n(2) assms(6)] assms(8) w(1) by simp
  ultimately have read: "fst (simu_readPage E C page n st'') = (R_biterrorCorrected, flip_at (j mod 256) k (flip_at j k (take n bs)))"
    using simu_readPage_ok [OF assms(2) n(1), of page st''] by (simp add: take_flip_at)
  have "flip_bit k d \<noteq> d" for d :: byte
    using assms(6) bit_flip_bit_iff [of k d k] by auto
  moreover have "j mod 256 \<noteq> j \<and> j mod 256 < n" if "256 \<le> j \<and> j < n"
    using that mod_less_divisor [of 256 j] by linarith
  ultimately have "256 \<le> j \<and> j < n \<Longrightarrow> flip_at (j mod 256) k (flip_at j k (take n bs)) ! j \<noteq> bs ! j \<and>
       flip_at (j mod 256) k (flip_at j k (take n bs)) ! (j mod 256) \<noteq> bs ! (j mod 256)"
    using assms(4) by (simp add: flip_at_def)
  with read show ?thesis by simp
qed


text \<open>A cell in memory: pages of 512 bytes with 16 spare bytes.\<close>

definition ex_pages :: config where
  "ex_pages = \<lparr>dataBytesPerPage = 512, oobBytesPerPage = 16, pagesPerBlock = 2, blocksTotal = 12,
     blocksPerArea = 2, jumpPadNo = 1, mramSize = 1024, reservedLogsize = 200,
     areaSummaryCacheSize = 3, maxNumberOfInodes = 4, maxPagesPerWrite = 4, treeNodeCacheSize = 3,
     maxNumberOfFiles = 2, verifyAS = False, writeVerifyAS = False, verifyTC = False, verifyDev = False\<rparr>"

definition ex_cell :: "(nat \<times> nat \<times> nat \<Rightarrow> byte list) cell" where
  "ex_cell = \<lparr>fc_writePage = (\<lambda>a bs c. (True, c(a := bs))), fc_readPage = (\<lambda>a _ c. ((True, c a), c)),
     fc_eraseBlock = (\<lambda>_ c. (True, c)), simu_pagesPerBlock = 2, simu_blocksPerPlane = 4\<rparr>"

definition ex_simu :: "(nat \<times> nat \<times> nat \<Rightarrow> byte list) simu" where
  "ex_simu = \<lparr>s_buf = replicate 528 0xFF, s_cell = (\<lambda>_. replicate 528 0xFF)\<rparr>"

lemma ex_cell_ok: "cell_ok ex_cell (\<lambda>c. c)"
  by (simp add: cell_ok_def ex_cell_def)

lemma ex_pages_fit: "ecc_fits ex_pages" "dataBytesPerPage ex_pages = 512"
  by (simp_all add: ecc_fits_def totalBytesPerPage_def) (simp_all add: ex_pages_def)

theorem simu_page_roundtrip_witness:
  "\<exists>st'. simu_writePage ex_pages ex_cell 5 (replicate 300 7) ex_simu = (R_ok, st') \<and>
    fst (simu_readPage ex_pages ex_cell 5 4 st') = (R_ok, [7, 7, 7, 7])"
  using simu_page_roundtrip [OF ex_pages_fit(1) ex_cell_ok, of "replicate 300 7" 4 5 ex_simu] ex_pages_fit(2)
  by (auto simp: numeral_eq_Suc)

theorem simu_one_wrong_bit_witness:
  "\<exists>st. fst (simu_readPage ex_pages ex_cell 5 300 st) =
    (R_biterrorCorrected, (replicate 300 7)[260 := 6, 4 := 6])"
proof -
  obtain r st' where w: "simu_writePage ex_pages ex_cell 5 (replicate 300 7) ex_simu = (r, st')" by (metis surj_pair)
  let ?a = "translatePageToAddress ex_cell 5"
  let ?st = "st'\<lparr>s_cell := (s_cell st')(?a := flip_at 260 0 (s_cell st' ?a))\<rparr>"
  have "fst (simu_readPage ex_pages ex_cell 5 300 ?st) = (R_biterrorCorrected, flip_at (260 mod 256) 0 (flip_at 260 0 (replicate 300 7)))"
    using simu_one_wrong_bit [OF ex_pages_fit(1) ex_cell_ok _ _ _ _ w, of 300 260 0 ?st] ex_pages_fit(2) by simp
  then show ?thesis by (auto simp: flip_at_def flip_bit_xor)
qed

end
