(* ===== verification/FlashLog.thy ===== *)
theory FlashLog
  imports ExampleDevice
begin

text \<open>
  \<^verbatim>\<open>class FlashPersistence\<close> of \<^verbatim>\<open>src/journalPersistences.cpp\<close>: the journal on the flash, with one page
  in a buffer. The device of this repository uses the MRAM instead. The state of an operation is the
  device and the object; a failing read leaves the buffer as it was.
\<close>

record flash_log =
  fb_data :: "byte list"
  fb_readOnly :: bool
  fb_dirty :: bool
  fb_page :: PageAbs
  f_addr :: Addr
  f_offs :: nat


type_synonym ('f, 'a) flog = "('f dev \<times> flash_log, 'a) state"

definition on_dev :: "('f dev, 'a) state \<Rightarrow> ('f, 'a) flog" where
  "on_dev m = State (\<lambda>(s, L). let (x, s') = run_state m s in (x, (s', L)))"

definition get_log :: "(flash_log \<Rightarrow> 'a) \<Rightarrow> ('f, 'a) flog" where
  "get_log f = gets (\<lambda>(s, L). f L)"

definition set_log :: "(flash_log \<Rightarrow> flash_log) \<Rightarrow> ('f, unit) flog" where
  "set_log f = modify (\<lambda>(s, L). (s, f L))"

subsection \<open>Pages\<close>


definition findNextPos :: "'f env \<Rightarrow> ('f, Result) flog" where
  "findNextPos E = do {
     L \<leftarrow> get_log id;
     if fb_dirty L then ret R_bug
     else if extractPageOffs (f_addr L) = totalPagesPerArea E then ret R_noSpace
     else do {
       set_log (\<lambda>L. L\<lparr>f_addr := combineAddress (extractLogicalArea (f_addr L)) (extractPageOffs (f_addr L) + 1), f_offs := 0\<rparr>);
       ret R_ok
     }
   }"

text \<open>An erased page starts with \<open>0xFF\<close>; a cleared buffer does not.\<close>

definition loadCurrentPage :: "'f env \<Rightarrow> bool \<Rightarrow> ('f, Result) flog" where
  "loadCurrentPage E fromFlash = do {
     L \<leftarrow> get_log id;
     if fb_dirty L then ret R_bug
     else do {
       phys \<leftarrow> on_dev (gets (\<lambda>s. getPageNumber E (sb s) (f_addr L)));
       (r, bs) \<leftarrow> (if fromFlash then on_dev (readPage E phys (dataBytesPerPage E))
                  else ret (R_ok, replicate (dataBytesPerPage E) 0));
       if r \<noteq> R_ok then ret r
       else do {
         set_log (\<lambda>L. L\<lparr>fb_page := phys, fb_dirty := False, fb_readOnly := bs ! 0 \<noteq> 0xFF,
           fb_data := (if bs ! 0 = 0xFF then replicate (dataBytesPerPage E) 0 else bs)\<rparr>);
         ret R_ok
       }
     }
   }"

subsection \<open>Positions\<close>

definition flash_rewind :: "('f, Result) flog" where
  "flash_rewind = do {
     a \<leftarrow> on_dev (gets (\<lambda>s. getActiveArea (sb s) T_journal));
     if a = 0 then ret R_bug
     else do { set_log (\<lambda>L. L\<lparr>f_addr := combineAddress a 0, f_offs := 0\<rparr>); ret R_ok }
   }"

definition flash_tell :: "flash_log \<Rightarrow> Addr \<times> nat" where
  "flash_tell L = (f_addr L, f_offs L)"

definition flash_seek :: "'f env \<Rightarrow> Addr \<times> nat \<Rightarrow> ('f, Result) flog" where
  "flash_seek E pos = do {
     d \<leftarrow> get_log fb_dirty;
     if d then ret R_bug
     else do {
       set_log (\<lambda>L. L\<lparr>f_addr := fst pos, f_offs := snd pos\<rparr>);
       loadCurrentPage E True
     }
   }"

subsection \<open>Writing\<close>





definition flash_clear :: Result where
  "flash_clear = R_nimpl"

subsection \<open>Reading\<close>

text \<open>Behind the bytes of the buffer lies its flag.\<close>

definition next_byte :: "flash_log \<Rightarrow> byte" where
  "next_byte L = (if f_offs L < length (fb_data L) then fb_data L ! f_offs L else of_bool (fb_readOnly L))"

text \<open>
  The number of bytes to copy is bounded by the number of pages of an area; behind it the code copies
  over the end of its objects, and the model stops with \<open>R_bug\<close>. What is not copied is the content \<open>old\<close>
  that the entry had before.
\<close>

definition flash_readNextElem :: "'f env \<Rightarrow> byte list \<Rightarrow> ('f, Result \<times> byte list) flog" where
  "flash_readNextElem E old = do {
     b \<leftarrow> get_log next_byte;
     r \<leftarrow> (if b = 0 then do {
              r \<leftarrow> findNextPos E;
              whenM (r = R_ok) (do { _ \<leftarrow> loadCurrentPage E True; ret () });
              ret r
            }
            else ret R_ok);
     b \<leftarrow> get_log next_byte;
     L \<leftarrow> get_log id;
     let o' = f_offs L;
     if r \<noteq> R_ok \<or> b = 0 then ret (R_notFound, old)
     else if o' > dataPagesPerArea E then ret (R_bug, old)
     else do {
       let k = (if o' + sizeof_Max (dataPagesPerArea E) > dataPagesPerArea E then dataPagesPerArea E - o'
                else sizeof_Max (dataPagesPerArea E));
       let copied = take k (drop o' (fb_data L));
       let entry = copied @ drop (length copied) old;
       let size = getSizeFromMax (dataPagesPerArea E) entry;
       if size = 0 then ret (R_fail, entry)
       else do { set_log (\<lambda>L. L\<lparr>f_offs := o' + size\<rparr>); ret (R_ok, entry) }
     }
   }"

subsection \<open>The log that is never written\<close>

text \<open>No operation marks the buffer as dirty, so no page is ever committed.\<close>

lemma run_get_log [simp]: "run_state (get_log f) p = (f (snd p), p)"
  by (cases p) (simp add: get_log_def)

lemma run_set_log [simp]: "run_state (set_log f) p = ((), (fst p, f (snd p)))"
  by (cases p) (simp add: set_log_def)








end
