(* ===== verification/Spec2Isabelle.thy ===== *)
theory Spec2Isabelle
  imports GcPreservation AreaProperties JournalProperties ReplayProperties SuperProperties PageStateProperties BtreeProperties PacProperties
    FileRoundtrip DirReading PathProperties PoolProperties FileSystemProperties SimuProperties FlashLog
begin

text \<open>
  PAFFS, a file system for NAND flash with a journal in MRAM, from the driver of the simulation up to
  the interface of the file system.

  A flash device is divided into areas of \<open>blocksPerArea\<close> blocks of \<open>pagesPerBlock\<close> pages. The
  superblock keeps the area map (type, status, erase count and physical position of each
  area), the number of used areas and the active area of each type, and is found through a chain of
  anchor and jump pad entries. Data and index pages of an area carry a status (free, used, dirty) in
  an area summary, which the summary cache buffers. Area management opens, closes, retires and erases
  areas; the garbage collection copies the used pages of an area to the garbage buffer and swaps the
  positions of both. A B+ tree, cached in nodes, maps inode numbers to inodes; the page address cache
  holds the chains of address pages of one inode; the data input and output reads and writes the pages
  of a file through it. Tree, page addresses and data replace pages in transactions of a page state
  machine. The device keeps a pool of inodes with counted pointers and a pool of open files, and
  implements paths, directories and all file operations. Each of these operations logs journal
  entries, from which a mount after a power cut is restored.

  Theories, bottom up, with the code each models under \<^verbatim>\<open>src/src\<close>:

  \<^item> \<open>PaffsPrelude\<close>: state monad, weakest preconditions (\<open>wp\<close>), preservation of a predicate
    (\<open>keeps\<close>), loops over index lists with early exit (\<open>loopM\<close>), list update lemmas.
  \<^item> \<open>PaffsTypes\<close>: \<^verbatim>\<open>commonTypes.hpp\<close>, \<^verbatim>\<open>config/auto.hpp\<close>. \<open>Bitlist\<close>: \<^verbatim>\<open>bitlist.hpp\<close>.
    \<open>Addresses\<close>: the address functions at the head of \<^verbatim>\<open>area.cpp\<close>.
  \<^item> \<open>JournalEntries\<close>: \<^verbatim>\<open>journalEntry.hpp\<close>, \<^verbatim>\<open>getSizeFromJE\<close> and \<^verbatim>\<open>getSizeFromMax\<close>.
    \<open>JournalLog\<close>: \<^verbatim>\<open>MramPersistence\<close> and the recording half of \<^verbatim>\<open>journal.cpp\<close>.
    \<open>JournalReadback\<close>: what was recorded is read back (locale \<open>journal_store\<close>).
    \<open>JournalReplay\<close>: the replay of \<^verbatim>\<open>journal.cpp\<close>; \<open>ReplayCorrect\<close>: it refines its specification
    (locale \<open>journal_topics\<close>); \<open>ReplayHandlers\<close>: every handler of the topics that the device registers
    leaves the log and the position in it alone, which interprets the locale on all of them.
    \<open>FlashLog\<close>: \<^verbatim>\<open>FlashPersistence\<close>, which the device does not use.
  \<^item> \<open>DeviceState\<close>: one record per component, composed to \<open>dev\<close>; the driver is a parameter.
  \<^item> \<open>SuperblockMap\<close>: the area map of \<^verbatim>\<open>superblock.cpp\<close>.
  \<^item> \<open>SuperIndexCodec\<close>, \<open>SuperChain\<close>: the superindex and the chain of anchor and jump pads of
    \<^verbatim>\<open>superblock.cpp\<close>; \<open>SuperChainFacts\<close>: what a block of the chain holds, and the superindex on a
    flash that keeps its content.
  \<^item> \<open>SummaryElem\<close>, \<open>SummaryCacheCore\<close>, \<open>SummaryUrgent\<close>: \<^verbatim>\<open>summaryCache.cpp\<close>;
    \<open>SummaryMount\<close>: its part in mount and unmount; \<open>SummaryStatus\<close>: the page states that it answers.
  \<^item> \<open>AreaMgmt\<close>, \<open>AreaAlloc\<close>: \<^verbatim>\<open>area.cpp\<close>. \<open>GarbageCollector\<close>: \<^verbatim>\<open>garbage_collection.cpp\<close>.
    \<open>GcData\<close>, \<open>GcPreservation\<close>: a collection keeps the data of every used page it moves.
  \<^item> \<open>AreaInvariant\<close>, \<open>AreaAccounting\<close>, \<open>AreaOpsOk\<close>, \<open>GcInvariant\<close>, \<open>GcAccounting\<close>,
    \<open>AllocInvariant\<close>: what the operations do to the area map, and the invariants they keep:
    \<open>area_ok\<close> (used-area count, active areas, types and statuses), \<open>pos_ok\<close> (the positions
    are a permutation) and \<open>erase_ok\<close> (erase counts), the last two through the locale
    \<open>map_invariant\<close>.
  \<^item> \<open>PageStates\<close>: \<^verbatim>\<open>journalPageStatemachine_impl.hpp\<close>; \<open>PageStateFacts\<close>: its transactions.
  \<^item> \<open>TreeCacheNodes\<close>, \<open>TreeCacheOps\<close>: \<^verbatim>\<open>treeCache.cpp\<close>. \<open>BtreeOps\<close>, \<open>BtreeDelete\<close>: \<^verbatim>\<open>btree.cpp\<close>.
    \<open>BtreeLeaves\<close>, \<open>BtreeSearch\<close>, \<open>BtreeUpdate\<close>, \<open>BtreeSplit\<close>: the tree as a sorted
    list of inodes, and what the operations do to it.
    \<open>BtreeAbstract\<close>: the tree as a datatype with the path to a node, and the cache that holds it;
    \<open>BtreeGrow\<close>, \<open>BtreeGrowth\<close>, \<open>BtreeInsert\<close>: the insertion with the splits of leaves, branches and root;
    \<open>BtreeRemoval\<close>, \<open>BtreeErase\<close>: the deletion with merges and redistribution up to the root.
  \<^item> \<open>PageCache\<close>: \<^verbatim>\<open>pageAddressCache.cpp\<close>. \<open>DataIO\<close>: \<^verbatim>\<open>dataIO.cpp\<close>; \<open>FileReading\<close>: the contents of
    a file, of which a read is a slice; \<open>FileSteps\<close>,
    \<open>FileWriting\<close>: a write replaces the bytes of a slice;
    \<open>FlashFrames\<close>: what the bookkeeping of the areas leaves alone on the flash; \<open>FileCommit\<close>: the commit of the inode
    keeps the pages of the file; \<open>FileRoundtrip\<close>: what was written is read back.
  \<^item> \<open>Pools\<close>: \<^verbatim>\<open>pools.hpp\<close> and \<^verbatim>\<open>smartInodePtr.cpp\<close>; \<open>PoolProperties\<close>: runs of the pool with the
    multiset of live pointers.
  \<^item> \<open>DirFormat\<close>: the bytes of a directory; \<open>DeviceDirs\<close>: inodes by path and the entries of
    directories; \<open>DeviceApi\<close>: the operations of \<^verbatim>\<open>device.cpp\<close> on files and directories; \<open>DeviceMount\<close>:
    its journal topic, formatting, mounting and unmounting. \<open>DirProperties\<close>: the bytes refine the list
    of entries; \<open>DirReading\<close>: the search in a directory on the flash; \<open>PathProperties\<close>: the paths.
  \<^item> \<open>FileSystems\<close>: \<^verbatim>\<open>paffs.cpp\<close>; \<open>FileSystemProperties\<close>: the operations on all devices.
  \<^item> \<open>YaffsEcc\<close>: \<^verbatim>\<open>driver/yaffs_ecc.cpp\<close>; \<open>EccProperties\<close>: the code is linear and corrects one bit.
    \<open>SimuDriver\<close>: \<^verbatim>\<open>driver/simu.cpp\<close> over an external flash cell; \<open>SimuProperties\<close>: its pages.
  \<^item> \<open>ExampleDevice\<close>: a small device on which the hypotheses of the properties hold.
  \<^item> \<open>AreaProperties\<close>, \<open>JournalProperties\<close>, \<open>ReplayProperties\<close>, \<open>SuperProperties\<close>,
    \<open>PageStateProperties\<close>, \<open>BtreeProperties\<close>, \<open>PacProperties\<close>: the properties of the components named.

  Conventions. An operation is a function in the state monad over the device; a \<^verbatim>\<open>Result\<close> with a value
  is a sum or a pair. Machine integers that can overflow are cut at their width, addresses and counts
  that cannot are natural numbers. Operations that call each other recursively without a structural
  measure (garbage collection, flushing of summaries, the walks of the tree cache) take a bound; the
  garbage collection needs one call per area (\<open>collectGarbage_terminates\<close>), a walk of the tree cache
  one per node of the cache. Where a loop of the code can run for ever, the answer \<open>None\<close> says that it
  still does. Where the code goes on with memory it does not own (an entry shorter than its head, a
  list of pages behind its end, the copy of \<^verbatim>\<open>FlashPersistence\<close>), the model stops with \<open>R_bug\<close>, and
  where the effect of the code is not defined at all (the copy of a name over the end of its buffer,
  \<open>entry_overruns\<close>; an enum member of a journal entry in the log that is none of its constants, for
  which \<open>parse_entry\<close> has no value) with \<open>None\<close>. Bytes of a superindex that are no area type or status
  fail to be read; the code would copy them into the map.

  What the theorems take as given. The driver is a parameter. Some properties hold for any driver;
  those on contents of the flash assume an ideal one (\<open>flash_ok\<close>, \<open>erase_local\<close>): each read and write
  succeeds, a write replaces the contents of its page, and an erased block changes no other. The trace masks that make the code check
  the tree cache, read pages or written pages (\<^verbatim>\<open>verifyTC\<close>, \<^verbatim>\<open>verifyAS\<close>, \<^verbatim>\<open>writeVerifyAS\<close>) are fields of the
  environment; a property that needs one switched off says so. Inode numbers are below \<open>2 ^ 16\<close> where
  the tree keeps them as keys (\<open>btree_split_loses_inodes\<close> is what happens else), and the log holds no
  \<open>AreaMapPosition\<close> entry, whose size the journal computes wrongly.

  Not modelled: debug and trace output; the drivers of real boards, which are register and bus access;
  \<^verbatim>\<open>driver/simuBlock.cpp\<close>, which repeats \<^verbatim>\<open>driver/simu.cpp\<close>; the simulated flash cell itself, which is
  external; the sources under \<^verbatim>\<open>ext\<close>, \<^verbatim>\<open>it\<close> and \<^verbatim>\<open>test\<close>.
\<close>

end
